(* ===== verification/Prelude.thy ===== *)
theory Prelude
  imports Main "HOL-Library.Word"
begin

section \<open>Prelude: results, machine integers, byte strings, ordered maps\<close>

text \<open>
  The vocabulary every component shares. A fallible Rust function is a function into
  \<open>('e, 'a) result\<close>, \<open>Err\<close> for the early return and \<open>Ok\<close> for the value; \<open>bind_r\<close> is the
  \<^verbatim>\<open>?\<close> operator and \<open>for_each\<close> is a \<^verbatim>\<open>for\<close> loop whose body may return early; \<open>fold_r\<close> threads a state through such a
  loop, and \<open>try_each\<close> also gives the state an early return leaves behind. Fixed-width
  integers are words with the arithmetic of the Rust standard library (checked, saturating)
  written out; lengths (\<open>usize\<close>) are \<open>nat\<close>. A \<^verbatim>\<open>BTreeMap\<close> is an association list in key order,
  so that iteration order and \<^verbatim>\<open>len()\<close> are those of the program.
\<close>

named_theorems result_simps "inversion of sequenced fallible steps"
named_theorems bounds_simps "the hard bounds of the program, as numerals"

type_synonym u8 = "8 word"
type_synonym u16 = "16 word"
type_synonym u32 = "32 word"
type_synonym u64 = "64 word"
type_synonym usize = nat
type_synonym bytes = "u8 list"

subsection \<open>Results\<close>

type_synonym ('e, 'a) result = "'e + 'a"

abbreviation Ok :: "'a \<Rightarrow> ('e, 'a) result" where "Ok \<equiv> Inr"
abbreviation Err :: "'e \<Rightarrow> ('e, 'a) result" where "Err \<equiv> Inl"

fun bind_r :: "('e, 'a) result \<Rightarrow> ('a \<Rightarrow> ('e, 'b) result) \<Rightarrow> ('e, 'b) result" where
  "bind_r (Inl e) f = Inl e"
| "bind_r (Inr x) f = f x"

fun map_err :: "('e \<Rightarrow> 'f) \<Rightarrow> ('e, 'a) result \<Rightarrow> ('f, 'a) result" where
  "map_err g (Inl e) = Inl (g e)"
| "map_err g (Inr x) = Inr x"

fun ok_or :: "'a option \<Rightarrow> 'e \<Rightarrow> ('e, 'a) result" where
  "ok_or None e = Inl e"
| "ok_or (Some x) e = Inr x"

fun is_ok :: "('e, 'a) result \<Rightarrow> bool" where
  "is_ok (Inl e) = False"
| "is_ok (Inr x) = True"

fun for_each :: "('a \<Rightarrow> ('e, unit) result) \<Rightarrow> 'a list \<Rightarrow> ('e, unit) result" where
  "for_each f [] = Inr ()"
| "for_each f (x # xs) = bind_r (f x) (\<lambda>_. for_each f xs)"

fun fold_r :: "('a \<Rightarrow> 'b \<Rightarrow> ('e, 'b) result) \<Rightarrow> 'a list \<Rightarrow> 'b \<Rightarrow> ('e, 'b) result" where
  "fold_r f [] acc = Inr acc"
| "fold_r f (x # xs) acc = bind_r (f x acc) (fold_r f xs)"

fun try_each :: "('a \<Rightarrow> 's \<Rightarrow> ('e, 's) result) \<Rightarrow> 'a list \<Rightarrow> 's \<Rightarrow> 's \<times> ('e, unit) result" where
  "try_each f [] s = (s, Inr ())"
| "try_each f (x # xs) s =
     (case f x s of Inl e \<Rightarrow> (s, Inl e) | Inr s' \<Rightarrow> try_each f xs s')"

text \<open>The same where a state is threaded through, kept when a step fails.\<close>

fun and_then :: "'s \<times> ('e, 'a) result \<Rightarrow> ('s \<Rightarrow> 'a \<Rightarrow> 's \<times> ('e, 'b) result) \<Rightarrow> 's \<times> ('e, 'b) result" where
  "and_then (s, Inl e) f = (s, Inl e)"
| "and_then (s, Inr x) f = f s x"

lemma bind_r_Ok [result_simps]: "bind_r m f = Inr y \<longleftrightarrow> (\<exists>x. m = Inr x \<and> f x = Inr y)"
  by (cases m) auto

lemma bind_r_Err [result_simps]:
  "bind_r m f = Inl e \<longleftrightarrow> m = Inl e \<or> (\<exists>x. m = Inr x \<and> f x = Inl e)"
  by (cases m) auto

lemma case_state_Ok [result_simps]:
  "(case p of (t, r) \<Rightarrow> (case r of Inl e \<Rightarrow> Inl (g t e) | Inr x \<Rightarrow> f t x)) = Inr y \<longleftrightarrow>
     (\<exists>t x. p = (t, Inr x) \<and> f t x = Inr y)"
  by (auto split: prod.splits sum.splits)

lemma and_then_Ok: "and_then p f = (s', Ok y) \<longleftrightarrow> (\<exists>s x. p = (s, Ok x) \<and> f s x = (s', Ok y))"
  by (cases p; cases "snd p") auto

lemma map_err_Ok [result_simps, simp]: "map_err g r = Inr x \<longleftrightarrow> r = Inr x"
  by (cases r) auto

lemma map_err_Err [result_simps]: "map_err g r = Inl e \<longleftrightarrow> (\<exists>e'. r = Inl e' \<and> e = g e')"
  by (cases r) auto

lemma ok_or_Ok [result_simps, simp]: "ok_or v e = Inr x \<longleftrightarrow> v = Some x"
  by (cases v) auto

lemma is_ok_iff: "is_ok r \<longleftrightarrow> (\<exists>x. r = Inr x)"
  by (cases r) auto

lemma is_ok_unit: "is_ok r \<longleftrightarrow> r = Inr ()"
  by (cases r) auto

lemma for_each_Ok [result_simps]: "for_each f xs = Inr u \<longleftrightarrow> (\<forall>x \<in> set xs. f x = Inr ())"
  by (induction xs) (auto simp: bind_r_Ok)

lemma fold_r_append: "fold_r f (xs @ ys) acc = bind_r (fold_r f xs acc) (fold_r f ys)"
proof (induction xs arbitrary: acc)
  case Nil
  then show ?case by simp
next
  case (Cons x xs)
  then show ?case by (cases "f x acc") auto
qed

lemma try_each_Ok: "try_each f xs s = (s', Inr u) \<longleftrightarrow> fold_r f xs s = Inr s'"
  by (induction xs arbitrary: s) (auto split: sum.splits)

lemma fold_r_invariant:
  assumes "fold_r f xs acc = Inr acc'" and "I acc"
    and "\<And>x a a'. x \<in> set xs \<Longrightarrow> I a \<Longrightarrow> f x a = Inr a' \<Longrightarrow> I a'"
  shows "I acc'"
  using assms
proof (induction xs arbitrary: acc)
  case Nil
  then show ?case by simp
next
  case (Cons x xs)
  then show ?case by (auto simp: bind_r_Ok)
qed

lemma if_Err_Ok [result_simps]: "(if c then Inl e else r) = Inr x \<longleftrightarrow> \<not> c \<and> r = Inr x"
  by simp

subsection \<open>Machine integers\<close>

text \<open>The Rust operations \<^verbatim>\<open>checked_add\<close>, \<^verbatim>\<open>checked_sub\<close>, \<^verbatim>\<open>saturating_add\<close>, \<^verbatim>\<open>saturating_sub\<close>.\<close>

definition checked_add :: "'a::len word \<Rightarrow> 'a word \<Rightarrow> 'a word option" where
  "checked_add a b = (if unat a + unat b < 2 ^ LENGTH('a) then Some (a + b) else None)"

definition checked_sub :: "'a::len word \<Rightarrow> 'a word \<Rightarrow> 'a word option" where
  "checked_sub a b = (if b \<le> a then Some (a - b) else None)"

definition saturating_add :: "'a::len word \<Rightarrow> 'a word \<Rightarrow> 'a word" where
  "saturating_add a b = (if unat a + unat b < 2 ^ LENGTH('a) then a + b else - 1)"

definition saturating_sub :: "'a::len word \<Rightarrow> 'a word \<Rightarrow> 'a word" where
  "saturating_sub a b = (if b \<le> a then a - b else 0)"

definition usize_checked_add :: "usize \<Rightarrow> usize \<Rightarrow> usize option" where
  "usize_checked_add a b = (if a + b < 2 ^ 64 then Some (a + b) else None)"

lemma checked_add_Some: "checked_add a b = Some c \<Longrightarrow> unat c = unat a + unat b"
  by (auto simp: checked_add_def unat_word_ariths split: if_splits)

lemma checked_sub_Some: "checked_sub a b = Some c \<Longrightarrow> unat c = unat a - unat b \<and> b \<le> a"
  by (auto simp: checked_sub_def unat_sub split: if_splits)

lemma unat_saturating_add:
  fixes a b :: "'a::len word"
  shows "unat (saturating_add a b) = min (unat a + unat b) (2 ^ LENGTH('a) - 1)"
proof (cases "unat a + unat b < 2 ^ LENGTH('a)")
  case True
  then show ?thesis by (simp add: saturating_add_def unat_word_ariths)
next
  case False
  then show ?thesis by (simp add: saturating_add_def unsigned_minus_1_eq_mask mask_eq_exp_minus_1)
qed

lemma unat_saturating_sub: "unat (saturating_sub a b) = unat a - unat b"
  by (auto simp: saturating_sub_def unat_sub word_le_nat_alt)

lemma saturating_add_ge:
  fixes a b :: "'a::len word"
  shows "a \<le> saturating_add a b"
proof -
  have "unat a < 2 ^ LENGTH('a)" by simp
  then show ?thesis
    unfolding word_le_nat_alt unat_saturating_add by linarith
qed

lemma usize_checked_add_Some [result_simps]:
  "usize_checked_add a b = Some c \<longleftrightarrow> c = a + b \<and> a + b < 2 ^ 64"
  by (auto simp: usize_checked_add_def)

subsection \<open>Big-endian encodings\<close>

text \<open>\<^verbatim>\<open>to_be_bytes\<close> and \<^verbatim>\<open>from_be_bytes\<close>, for any width that is a number of bytes.\<close>

fun nat_be :: "nat \<Rightarrow> nat \<Rightarrow> bytes" where
  "nat_be 0 n = []"
| "nat_be (Suc k) n = nat_be k (n div 256) @ [word_of_nat (n mod 256)]"

definition be_nat :: "bytes \<Rightarrow> nat" where
  "be_nat bs = foldl (\<lambda>acc b. acc * 256 + unat b) 0 bs"

lemma nat_be_numeral:
  "nat_be (numeral k) n = nat_be (pred_numeral k) (n div 256) @ [word_of_nat (n mod 256)]"
  unfolding numeral_eq_Suc [of k] by simp

lemma length_nat_be [simp]: "length (nat_be k n) = k"
  by (induction k arbitrary: n) auto

lemma be_nat_Nil [simp]: "be_nat [] = 0"
  by (simp add: be_nat_def)

lemma be_nat_snoc [simp]: "be_nat (bs @ [b]) = be_nat bs * 256 + unat b"
  by (simp add: be_nat_def)

lemma unat_byte_of_nat: "n < 256 \<Longrightarrow> unat (word_of_nat n :: u8) = n"
  by (simp add: unat_of_nat)

lemma be_nat_nat_be: "n < 256 ^ k \<Longrightarrow> be_nat (nat_be k n) = n"
proof (induction k arbitrary: n)
  case 0
  then show ?case by simp
next
  case (Suc k)
  then have "n div 256 < 256 ^ k" by (simp add: less_mult_imp_div_less mult.commute)
  then show ?case by (simp add: Suc.IH unat_byte_of_nat)
qed

lemma unat_byte_lt: "unat (b :: u8) < 256"
  using unsigned_less [of b, where ?'a = nat] by simp

lemma be_nat_lt: "be_nat bs < 256 ^ length bs"
proof (induction bs rule: rev_induct)
  case Nil
  then show ?case by simp
next
  case (snoc b bs)
  have "be_nat bs * 256 + unat b < (be_nat bs + 1) * 256"
    using unat_byte_lt [of b] by simp
  also have "\<dots> \<le> 256 ^ length bs * 256"
    using snoc by (intro mult_le_mono1) simp
  finally show ?case by (simp add: mult.commute)
qed

lemma nat_be_be_nat: "nat_be (length bs) (be_nat bs) = bs"
  by (induction bs rule: rev_induct) (auto simp: unat_byte_lt)

lemma be_nat_inj: "length xs = length ys \<Longrightarrow> be_nat xs = be_nat ys \<Longrightarrow> xs = ys"
  by (metis nat_be_be_nat)

definition u32_to_be :: "u32 \<Rightarrow> bytes" where
  "u32_to_be w = nat_be 4 (unat w)"

definition u32_from_be :: "bytes \<Rightarrow> u32" where
  "u32_from_be bs = word_of_nat (be_nat bs)"

definition u64_to_be :: "u64 \<Rightarrow> bytes" where
  "u64_to_be w = nat_be 8 (unat w)"

definition u64_from_be :: "bytes \<Rightarrow> u64" where
  "u64_from_be bs = word_of_nat (be_nat bs)"

lemma u32_be_roundtrip [simp]: "u32_from_be (u32_to_be w) = w"
  using unsigned_less [of w, where ?'a = nat] by (simp add: u32_from_be_def u32_to_be_def be_nat_nat_be)

lemma u64_be_roundtrip [simp]: "u64_from_be (u64_to_be w) = w"
  using unsigned_less [of w, where ?'a = nat] by (simp add: u64_from_be_def u64_to_be_def be_nat_nat_be)

lemma length_u32_to_be [simp]: "length (u32_to_be w) = 4"
  by (simp add: u32_to_be_def)

lemma length_u64_to_be [simp]: "length (u64_to_be w) = 8"
  by (simp add: u64_to_be_def)

lemma u32_to_be_from_be: "length bs = 4 \<Longrightarrow> u32_to_be (u32_from_be bs) = bs"
  using be_nat_lt [of bs] nat_be_be_nat [of bs]
  by (simp add: u32_to_be_def u32_from_be_def unat_of_nat)

lemma u64_to_be_from_be: "length bs = 8 \<Longrightarrow> u64_to_be (u64_from_be bs) = bs"
  using be_nat_lt [of bs] nat_be_be_nat [of bs]
  by (simp add: u64_to_be_def u64_from_be_def unat_of_nat)

subsection \<open>Ordered maps\<close>

type_synonym ('k, 'v) btree = "('k \<times> 'v) list"

definition bt_wf :: "('k::linorder, 'v) btree \<Rightarrow> bool" where
  "bt_wf m \<longleftrightarrow> sorted_wrt (<) (map fst m)"

abbreviation bt_get :: "('k, 'v) btree \<Rightarrow> 'k \<Rightarrow> 'v option" where
  "bt_get \<equiv> map_of"

fun bt_insert :: "'k::linorder \<Rightarrow> 'v \<Rightarrow> ('k, 'v) btree \<Rightarrow> ('k, 'v) btree" where
  "bt_insert k v [] = [(k, v)]"
| "bt_insert k v ((k', v') # m) =
     (if k < k' then (k, v) # (k', v') # m
      else if k = k' then (k, v) # m
      else (k', v') # bt_insert k v m)"

definition bt_remove :: "'k \<Rightarrow> ('k, 'v) btree \<Rightarrow> ('k, 'v) btree" where
  "bt_remove k m = filter (\<lambda>(k', _). k' \<noteq> k) m"

definition bt_update :: "'k \<Rightarrow> ('v \<Rightarrow> 'v) \<Rightarrow> ('k, 'v) btree \<Rightarrow> ('k, 'v) btree" where
  "bt_update k f m = map (\<lambda>(k', v). (k', if k' = k then f v else v)) m"

definition bt_map_values :: "('v \<Rightarrow> 'v) \<Rightarrow> ('k, 'v) btree \<Rightarrow> ('k, 'v) btree" where
  "bt_map_values f m = map (\<lambda>(k, v). (k, f v)) m"

lemma bt_get_insert [simp]: "bt_get (bt_insert k v m) = (bt_get m)(k \<mapsto> v)"
  by (induction m) (auto simp: fun_eq_iff)

lemma bt_get_remove [simp]: "bt_get (bt_remove k m) = (bt_get m)(k := None)"
  by (induction m) (auto simp: bt_remove_def fun_eq_iff)

lemma bt_get_update [simp]:
  "bt_get (bt_update k f m) = (bt_get m)(k := map_option f (bt_get m k))"
  by (induction m) (auto simp: bt_update_def fun_eq_iff)

lemma bt_get_map_values [simp]: "bt_get (bt_map_values f m) k = map_option f (bt_get m k)"
  by (induction m) (auto simp: bt_map_values_def)

lemma map_fst_update [simp]: "map fst (bt_update k f m) = map fst m"
  by (induction m) (auto simp: bt_update_def)

lemma map_fst_map_values [simp]: "map fst (bt_map_values f m) = map fst m"
  by (induction m) (auto simp: bt_map_values_def)

lemma set_fst_insert: "fst ` set (bt_insert k v m) = insert k (fst ` set m)"
  by (simp flip: dom_map_of_conv_image_fst)

lemma bt_wf_Nil [simp]: "bt_wf []"
  by (simp add: bt_wf_def)

lemma bt_wf_insert [simp]: "bt_wf m \<Longrightarrow> bt_wf (bt_insert k v m)"
proof (induction m)
  case Nil
  then show ?case by (simp add: bt_wf_def)
next
  case (Cons a m)
  obtain k' v' where a: "a = (k', v')" by (cases a)
  have "\<forall>x \<in> fst ` set (bt_insert k v m). k' < x" if "k' < k"
    using Cons.prems that a by (auto simp: bt_wf_def set_fst_insert)
  with Cons a show ?case by (auto simp: bt_wf_def)
qed

lemma bt_wf_remove [simp]: "bt_wf m \<Longrightarrow> bt_wf (bt_remove k m)"
  by (induction m) (auto simp: bt_wf_def bt_remove_def)

lemma bt_wf_update [simp]: "bt_wf (bt_update k f m) = bt_wf m"
  by (simp add: bt_wf_def)

lemma bt_wf_map_values [simp]: "bt_wf (bt_map_values f m) = bt_wf m"
  by (simp add: bt_wf_def)

lemma bt_wf_distinct: "bt_wf m \<Longrightarrow> distinct (map fst m)"
  by (simp add: bt_wf_def strict_sorted_iff)

lemma bt_get_in_set: "bt_wf m \<Longrightarrow> (k, v) \<in> set m \<longleftrightarrow> bt_get m k = Some v"
  by (metis bt_wf_distinct map_of_eq_Some_iff)

lemma bt_wf_getD: "bt_wf m \<Longrightarrow> (k, v) \<in> set m \<Longrightarrow> bt_get m k = Some v"
  by (simp add: bt_get_in_set)

lemma bt_get_setD: "bt_get m k = Some v \<Longrightarrow> (k, v) \<in> set m"
  by (rule map_of_SomeD)

lemma bt_get_None: "bt_get m k = None \<longleftrightarrow> k \<notin> fst ` set m"
  by (simp add: map_of_eq_None_iff)

lemma length_bt_update [simp]: "length (bt_update k f m) = length m"
  by (simp add: bt_update_def)

lemma length_bt_map_values [simp]: "length (bt_map_values f m) = length m"
  by (simp add: bt_map_values_def)

lemma length_bt_insert:
  "bt_wf m \<Longrightarrow> length (bt_insert k v m) = (if bt_get m k = None then Suc (length m) else length m)"
proof (induction m)
  case Nil
  then show ?case by simp
next
  case (Cons a m)
  obtain k' v' where a: "a = (k', v')" by (cases a)
  have wf: "bt_wf m" and lo: "\<And>x. x \<in> fst ` set m \<Longrightarrow> k' < x"
    using Cons.prems a by (auto simp: bt_wf_def)
  have "bt_get m k = None" if "k < k'"
    using lo [of k] that by (meson bt_get_None less_asym)
  with Cons.IH [OF wf] a show ?case by auto
qed

lemma length_bt_remove_le: "length (bt_remove k m) \<le> length m"
  by (simp add: bt_remove_def)

lemma length_bt_remove_less: "bt_get m k \<noteq> None \<Longrightarrow> length (bt_remove k m) < length m"
  by (induction m) (auto simp: bt_remove_def split: if_splits intro: le_imp_less_Suc)

lemma length_bt_remove:
  assumes "bt_wf m" and "bt_get m k \<noteq> None"
  shows "length (bt_remove k m) + 1 = length m"
  using assms
proof (induction m)
  case Nil
  then show ?case by simp
next
  case (Cons a m)
  obtain k' v' where a: "a = (k', v')" by (cases a)
  have wf: "bt_wf m" and lo: "k' \<notin> fst ` set m"
    using Cons.prems a by (auto simp: bt_wf_def)
  show ?case
  proof (cases "k = k'")
    case True
    have "fst x \<noteq> k'" if "x \<in> set m" for x using lo that by (metis image_eqI)
    then have "\<forall>x \<in> set m. (\<lambda>(i, _). i \<noteq> k) x" using True by (simp add: case_prod_beta)
    then have "bt_remove k m = m" unfolding bt_remove_def by (rule filter_True)
    then show ?thesis using True a by (simp add: bt_remove_def)
  next
    case False
    then have "bt_remove k (a # m) = a # bt_remove k m" using a by (simp add: bt_remove_def)
    then show ?thesis using Cons.IH [OF wf] Cons.prems False a by simp
  qed
qed

subsection \<open>Lists\<close>

lemma take_drop_append_middle:
  "length a = n \<Longrightarrow> length b = m \<Longrightarrow> take m (drop n (a @ b @ c)) = b"
  by simp

lemma find_Some_iff: "find P xs = Some x \<Longrightarrow> x \<in> set xs \<and> P x"
  by (induction xs) (auto split: if_splits)

lemma find_append:
  "find P (xs @ ys) = (case find P xs of None \<Rightarrow> find P ys | Some x \<Rightarrow> Some x)"
  by (induction xs) auto

lemma find_None_all: "find P xs = None \<longleftrightarrow> (\<forall>x \<in> set xs. \<not> P x)"
  by (induction xs) auto

end
