(* ===== verification/Rust_Str.thy ===== *)
theory Rust_Str
  imports Prelude "HOL-Library.List_Lexorder" "HOL-Library.Char_ord"
begin

section \<open>Rust strings\<close>

text \<open>
  A Rust \<^verbatim>\<open>str\<close> is a sequence of UTF-8 bytes, and \<^verbatim>\<open>len()\<close> counts bytes: it is a \<open>string\<close>
  here, one \<open>char\<close> for each byte. This theory models what the program uses of the standard
  library's strings: UTF-8 validation, character boundaries and \<^verbatim>\<open>String::truncate\<close> (which
  panics off a boundary: \<open>None\<close>), \<^verbatim>\<open>trim\<close> with the Unicode white space as its UTF-8 byte
  sequences, the ASCII classes, and splitting at a character.
\<close>

subsection \<open>Bytes and characters\<close>

definition code :: "char \<Rightarrow> nat" where
  "code c = of_char c"

definition byte_of_char :: "char \<Rightarrow> u8" where
  "byte_of_char c = word_of_nat (of_char c)"

definition char_of_byte :: "u8 \<Rightarrow> char" where
  "char_of_byte b = char_of (unat b)"

abbreviation as_bytes :: "string \<Rightarrow> bytes" where
  "as_bytes \<equiv> map byte_of_char"

lemma of_char_lt: "(of_char c :: nat) < 256"
  by (rule nat_of_char_less_256)

lemma char_of_byte_of_char [simp]: "char_of_byte (byte_of_char c) = c"
  using of_char_lt [of c] by (simp add: char_of_byte_def byte_of_char_def unat_byte_of_nat)

lemma byte_of_char_of_byte [simp]: "byte_of_char (char_of_byte b) = b"
  using unat_byte_lt [of b] by (simp add: char_of_byte_def byte_of_char_def)

lemma char_of_byte_as_bytes [simp]: "map char_of_byte (as_bytes s) = s"
  by (induction s) auto

lemma as_bytes_char_of_byte [simp]: "as_bytes (map char_of_byte bs) = bs"
  by (induction bs) auto

lemma char_byte_comp [simp]: "char_of_byte \<circ> byte_of_char = id" "byte_of_char \<circ> char_of_byte = id"
  by (auto simp: fun_eq_iff)

subsection \<open>UTF-8\<close>

definition cont_byte :: "char \<Rightarrow> bool" where
  "cont_byte c \<longleftrightarrow> 128 \<le> code c \<and> code c \<le> 191"

definition in_range :: "nat \<Rightarrow> nat \<Rightarrow> char \<Rightarrow> bool" where
  "in_range lo hi c \<longleftrightarrow> lo \<le> code c \<and> code c \<le> hi"

text \<open>The well-formed sequences of the Unicode standard (no overlong forms, no surrogates).\<close>

fun utf8_valid :: "string \<Rightarrow> bool" where
  "utf8_valid [] = True"
| "utf8_valid (a # r) =
     (if code a < 128 then utf8_valid r
      else if in_range 194 223 a then
        (case r of b # r' \<Rightarrow> cont_byte b \<and> utf8_valid r' | _ \<Rightarrow> False)
      else if in_range 224 239 a then
        (case r of b # c # r' \<Rightarrow>
            (if code a = 224 then in_range 160 191 b
             else if code a = 237 then in_range 128 159 b
             else cont_byte b) \<and> cont_byte c \<and> utf8_valid r'
         | _ \<Rightarrow> False)
      else if in_range 240 244 a then
        (case r of b # c # d # r' \<Rightarrow>
            (if code a = 240 then in_range 144 191 b
             else if code a = 244 then in_range 128 143 b
             else cont_byte b) \<and> cont_byte c \<and> cont_byte d \<and> utf8_valid r'
         | _ \<Rightarrow> False)
      else False)"

definition from_utf8 :: "bytes \<Rightarrow> string option" where
  "from_utf8 bs = (let s = map char_of_byte bs in if utf8_valid s then Some s else None)"

lemma from_utf8_as_bytes: "utf8_valid s \<Longrightarrow> from_utf8 (as_bytes s) = Some s"
  by (simp add: from_utf8_def Let_def)

lemma from_utf8_Some: "from_utf8 bs = Some s \<Longrightarrow> as_bytes s = bs \<and> utf8_valid s"
  by (auto simp: from_utf8_def Let_def split: if_splits)

lemma utf8_valid_ascii: "\<forall>c \<in> set s. code c < 128 \<Longrightarrow> utf8_valid s"
  by (induction s) auto

subsection \<open>Character boundaries and truncation\<close>

definition is_char_boundary :: "string \<Rightarrow> usize \<Rightarrow> bool" where
  "is_char_boundary s i \<longleftrightarrow> i = 0 \<or> i = length s \<or> (i < length s \<and> \<not> cont_byte (s ! i))"

text \<open>\<^verbatim>\<open>String::truncate\<close>: no effect past the end, a panic (\<open>None\<close>) inside a character.\<close>

definition str_truncate :: "string \<Rightarrow> usize \<Rightarrow> string option" where
  "str_truncate s n =
     (if n \<le> length s then (if is_char_boundary s n then Some (take n s) else None) else Some s)"

lemma str_truncate_ascii:
  "\<forall>c \<in> set s. code c < 128 \<Longrightarrow> str_truncate s n = Some (take n s)"
proof -
  assume ascii: "\<forall>c \<in> set s. code c < 128"
  have "\<not> cont_byte (s ! n)" if "n < length s"
    using ascii nth_mem [OF that] by (auto simp: cont_byte_def)
  then show ?thesis by (auto simp: str_truncate_def is_char_boundary_def)
qed

lemma str_truncate_length: "str_truncate s n = Some t \<Longrightarrow> length t \<le> n"
  by (auto simp: str_truncate_def split: if_splits)

subsection \<open>White space\<close>

text \<open>
  The length of the white-space character a string starts with, and of the one it ends with
  (on the reversed string), or 0: U+0009 to U+000D, U+0020, U+0085, U+00A0, U+1680, U+2000 to
  U+200A, U+2028, U+2029, U+202F, U+205F and U+3000, each in its UTF-8 form.
\<close>

definition ws1 :: "char \<Rightarrow> bool" where
  "ws1 a \<longleftrightarrow> in_range 9 13 a \<or> code a = 32"

definition ws2 :: "char \<Rightarrow> char \<Rightarrow> bool" where
  "ws2 a b \<longleftrightarrow> code a = 194 \<and> (code b = 133 \<or> code b = 160)"

definition ws3 :: "char \<Rightarrow> char \<Rightarrow> char \<Rightarrow> bool" where
  "ws3 a b c \<longleftrightarrow>
     code a = 225 \<and> code b = 154 \<and> code c = 128
   \<or> code a = 226 \<and> code b = 128 \<and>
       (in_range 128 138 c \<or> code c = 168 \<or> code c = 169 \<or> code c = 175)
   \<or> code a = 226 \<and> code b = 129 \<and> code c = 159
   \<or> code a = 227 \<and> code b = 128 \<and> code c = 128"

fun trim_start :: "string \<Rightarrow> string" where
  "trim_start [] = []"
| "trim_start [a] = (if ws1 a then [] else [a])"
| "trim_start [a, b] =
     (if ws1 a then trim_start [b] else if ws2 a b then [] else [a, b])"
| "trim_start (a # b # c # r) =
     (if ws1 a then trim_start (b # c # r)
      else if ws2 a b then trim_start (c # r)
      else if ws3 a b c then trim_start r
      else a # b # c # r)"

fun trim_start_rev :: "string \<Rightarrow> string" where
  "trim_start_rev [] = []"
| "trim_start_rev [a] = (if ws1 a then [] else [a])"
| "trim_start_rev [b, a] =
     (if ws1 b then trim_start_rev [a] else if ws2 a b then [] else [b, a])"
| "trim_start_rev (c # b # a # r) =
     (if ws1 c then trim_start_rev (b # a # r)
      else if ws2 b c then trim_start_rev (a # r)
      else if ws3 a b c then trim_start_rev r
      else c # b # a # r)"

definition trim :: "string \<Rightarrow> string" where
  "trim s = rev (trim_start_rev (rev (trim_start s)))"

lemma length_trim_start: "length (trim_start s) \<le> length s"
  by (induction s rule: trim_start.induct) auto

lemma length_trim_start_rev: "length (trim_start_rev s) \<le> length s"
  by (induction s rule: trim_start_rev.induct) auto

lemma length_trim: "length (trim s) \<le> length s"
  using length_trim_start_rev [of "rev (trim_start s)"] length_trim_start [of s]
  by (simp add: trim_def)

lemma set_trim_start: "set (trim_start s) \<subseteq> set s"
  by (induction s rule: trim_start.induct) auto

lemma set_trim_start_rev: "set (trim_start_rev s) \<subseteq> set s"
  by (induction s rule: trim_start_rev.induct) auto

lemma set_trim: "set (trim s) \<subseteq> set s"
  using set_trim_start_rev [of "rev (trim_start s)"] set_trim_start [of s]
  by (simp add: trim_def)

lemma trim_Nil [simp]: "trim [] = []"
  by (simp add: trim_def)

subsection \<open>ASCII classes\<close>

definition is_ascii_digit :: "char \<Rightarrow> bool" where
  "is_ascii_digit c \<longleftrightarrow> in_range 48 57 c"

definition is_ascii_upper :: "char \<Rightarrow> bool" where
  "is_ascii_upper c \<longleftrightarrow> in_range 65 90 c"

definition is_ascii_lower :: "char \<Rightarrow> bool" where
  "is_ascii_lower c \<longleftrightarrow> in_range 97 122 c"

definition is_ascii_alphanumeric :: "char \<Rightarrow> bool" where
  "is_ascii_alphanumeric c \<longleftrightarrow> is_ascii_digit c \<or> is_ascii_upper c \<or> is_ascii_lower c"

definition is_ascii_hexdigit :: "char \<Rightarrow> bool" where
  "is_ascii_hexdigit c \<longleftrightarrow> is_ascii_digit c \<or> in_range 65 70 c \<or> in_range 97 102 c"

definition is_ascii_control :: "char \<Rightarrow> bool" where
  "is_ascii_control c \<longleftrightarrow> code c < 32 \<or> code c = 127"

definition is_ascii_whitespace :: "char \<Rightarrow> bool" where
  "is_ascii_whitespace c \<longleftrightarrow> code c \<in> {9, 10, 12, 13, 32}"

definition is_lower_hex :: "char \<Rightarrow> bool" where
  "is_lower_hex c \<longleftrightarrow> is_ascii_digit c \<or> in_range 97 102 c"

definition is_ascii :: "string \<Rightarrow> bool" where
  "is_ascii s \<longleftrightarrow> list_all (\<lambda>c. code c < 128) s"

definition ascii_lower_char :: "char \<Rightarrow> char" where
  "ascii_lower_char c = (if is_ascii_upper c then char_of (code c + 32) else c)"

abbreviation to_ascii_lowercase :: "string \<Rightarrow> string" where
  "to_ascii_lowercase \<equiv> map ascii_lower_char"

lemmas ascii_defs = code_def in_range_def cont_byte_def is_ascii_digit_def is_ascii_upper_def
  is_ascii_lower_def is_ascii_alphanumeric_def is_ascii_hexdigit_def is_ascii_control_def
  is_ascii_whitespace_def is_lower_hex_def is_ascii_def ws1_def ws2_def ws3_def

lemma lower_hex_hexdigit: "is_lower_hex c \<Longrightarrow> is_ascii_hexdigit c"
  by (auto simp: is_lower_hex_def is_ascii_hexdigit_def)

lemma code_char_of: "n < 256 \<Longrightarrow> code (char_of n) = n"
  by (simp add: code_def)

lemma ascii_lower_idem [simp]: "ascii_lower_char (ascii_lower_char c) = ascii_lower_char c"
  by (auto simp: ascii_lower_char_def is_ascii_upper_def in_range_def code_char_of)

lemma ascii_lower_hexdigit: "is_ascii_hexdigit c \<Longrightarrow> is_lower_hex (ascii_lower_char c)"
  by (auto simp: ascii_lower_char_def is_ascii_upper_def is_lower_hex_def is_ascii_hexdigit_def
      is_ascii_digit_def in_range_def code_char_of)

subsection \<open>Searching and splitting\<close>

definition str_starts_with :: "string \<Rightarrow> string \<Rightarrow> bool" where
  "str_starts_with s p \<longleftrightarrow> take (length p) s = p"

definition strip_prefix :: "string \<Rightarrow> string \<Rightarrow> string option" where
  "strip_prefix s p = (if take (length p) s = p then Some (drop (length p) s) else None)"

fun split_at :: "char \<Rightarrow> string \<Rightarrow> string list" where
  "split_at d [] = [[]]"
| "split_at d (c # s) =
     (if c = d then [] # split_at d s
      else (case split_at d s of w # ws \<Rightarrow> (c # w) # ws | [] \<Rightarrow> [[c]]))"

fun split_once :: "char \<Rightarrow> string \<Rightarrow> (string \<times> string) option" where
  "split_once d [] = None"
| "split_once d (c # s) =
     (if c = d then Some ([], s) else map_option (\<lambda>(a, b). (c # a, b)) (split_once d s))"

definition rsplit_once :: "char \<Rightarrow> string \<Rightarrow> (string \<times> string) option" where
  "rsplit_once d s = map_option (\<lambda>(a, b). (rev b, rev a)) (split_once d (rev s))"

lemma strip_prefix_Some: "strip_prefix s p = Some r \<longleftrightarrow> s = p @ r"
  by (auto simp: strip_prefix_def) (metis append_take_drop_id)

lemma split_once_Some:
  "split_once d s = Some (a, b) \<longleftrightarrow> s = a @ d # b \<and> d \<notin> set a"
proof (induction s arbitrary: a)
  case Nil
  then show ?case by simp
next
  case (Cons c s)
  then show ?case by (cases a) auto
qed

lemma split_once_None: "split_once d s = None \<longleftrightarrow> d \<notin> set s"
  by (induction s) auto

lemma rsplit_once_Some:
  "rsplit_once d s = Some (a, b) \<longleftrightarrow> s = a @ d # b \<and> d \<notin> set b"
proof -
  have "rsplit_once d s = Some (a, b) \<longleftrightarrow> split_once d (rev s) = Some (rev b, rev a)"
    by (auto simp: rsplit_once_def)
  also have "\<dots> \<longleftrightarrow> rev s = rev b @ d # rev a \<and> d \<notin> set b"
    by (simp add: split_once_Some)
  also have "rev s = rev b @ d # rev a \<longleftrightarrow> s = a @ d # b"
    by (metis append.assoc append_Cons append_Nil rev.simps(2) rev_append rev_rev_ident)
  finally show ?thesis .
qed

lemma rsplit_once_None: "rsplit_once d s = None \<longleftrightarrow> d \<notin> set s"
  by (simp add: rsplit_once_def split_once_None)

lemma split_at_nonempty [simp]: "split_at d s \<noteq> []"
  by (induction s) (auto split: list.splits)

fun join_with :: "char \<Rightarrow> string list \<Rightarrow> string" where
  "join_with d [] = []"
| "join_with d [w] = w"
| "join_with d (w # ws) = w @ d # join_with d ws"

lemma join_split [simp]: "join_with d (split_at d s) = s"
proof (induction s)
  case Nil
  then show ?case by simp
next
  case (Cons c s)
  then obtain w ws where w: "split_at d s = w # ws"
    by (meson neq_Nil_conv split_at_nonempty)
  with Cons show ?case by (cases ws) auto
qed

lemma split_at_no_sep: "w \<in> set (split_at d s) \<Longrightarrow> d \<notin> set w"
proof (induction s arbitrary: w)
  case Nil
  then show ?case by simp
next
  case (Cons c s)
  then show ?case by (auto split: list.splits if_splits)
qed

subsection \<open>Hexadecimal\<close>

definition hex_digit :: "nat \<Rightarrow> char" where
  "hex_digit n = char_of (if n < 10 then 48 + n else 87 + n)"

text \<open>\<^verbatim>\<open>format!("{byte:02x}")\<close> over a byte string.\<close>

definition hex_byte :: "u8 \<Rightarrow> string" where
  "hex_byte b = [hex_digit (unat b div 16), hex_digit (unat b mod 16)]"

definition hex_string :: "bytes \<Rightarrow> string" where
  "hex_string bs = concat (map hex_byte bs)"

lemma length_hex_string [simp]: "length (hex_string bs) = 2 * length bs"
  by (induction bs) (auto simp: hex_string_def hex_byte_def)

lemma hex_digit_lower: "n < 16 \<Longrightarrow> is_lower_hex (hex_digit n)"
  by (auto simp: hex_digit_def is_lower_hex_def is_ascii_digit_def in_range_def code_char_of)

lemma hex_string_lower: "list_all is_lower_hex (hex_string bs)"
proof (induction bs)
  case Nil
  then show ?case by (simp add: hex_string_def)
next
  case (Cons b bs)
  have "unat b div 16 < 16" using unat_byte_lt [of b] by simp
  with Cons show ?case by (simp add: hex_string_def hex_byte_def hex_digit_lower)
qed

subsection \<open>Errors of the libraries, as values\<close>

datatype json_error = JsonError string

datatype io_kind = IoNotFound | IoAlreadyExists | IoOther string

end
