(* ===== verification/Ids.thy ===== *)
theory Ids
  imports Rust_Str
begin

section \<open>Stable identifiers (clew-core, id.rs)\<close>

text \<open>
  \<^verbatim>\<open>define_stable_id!\<close> makes ten newtypes over \<^verbatim>\<open>Uuid\<close>, a sixteen-byte array whose derived order
  is lexicographic. The array is a 128-bit word read big-endian, so the word order is that
  order; the constructors refuse the nil identifier. The textual form is the \<^verbatim>\<open>uuid\<close> crate's and
  is a parameter where it is used.
\<close>

type_synonym uuid = "128 word"
type_synonym controller_id = uuid
type_synonym site_id = uuid
type_synonym device_id = uuid
type_synonym invite_id = uuid
type_synonym task_id = uuid
type_synonym transfer_id = uuid
type_synonym request_id = uuid
type_synonym forward_id = uuid
type_synonym connection_id = uuid
type_synonym proxy_id = uuid

datatype stable_id_error = InvalidLength usize | NilId | ParseUuid

definition uuid_from_bytes :: "bytes \<Rightarrow> uuid" where
  "uuid_from_bytes bs = word_of_nat (be_nat bs)"

definition id_as_bytes :: "uuid \<Rightarrow> bytes" where
  "id_as_bytes u = nat_be 16 (unat u)"

definition id_from_uuid :: "uuid \<Rightarrow> (stable_id_error, uuid) result" where
  "id_from_uuid u = (if u = 0 then Err NilId else Ok u)"

definition id_from_bytes :: "bytes \<Rightarrow> (stable_id_error, uuid) result" where
  "id_from_bytes bs = id_from_uuid (uuid_from_bytes bs)"

definition id_try_from :: "bytes \<Rightarrow> (stable_id_error, uuid) result" where
  "id_try_from value =
     (if length value \<noteq> 16 then Err (InvalidLength (length value)) else id_from_bytes value)"

definition id_from_str :: "(string \<Rightarrow> uuid option) \<Rightarrow> string \<Rightarrow> (stable_id_error, uuid) result" where
  "id_from_str parse_str value =
     (case parse_str value of None \<Rightarrow> Err ParseUuid | Some u \<Rightarrow> id_from_uuid u)"

definition hex_digit_upper :: "nat \<Rightarrow> char" where
  "hex_digit_upper n = char_of (if n < 10 then 48 + n else 55 + n)"

definition site_access_credential_id :: "invite_id \<Rightarrow> string" where
  "site_access_credential_id invite =
     ''CRED-'' @ concat (map (\<lambda>b. [hex_digit_upper (unat b div 16), hex_digit_upper (unat b mod 16)])
       (take 6 (id_as_bytes invite)))"

lemma length_id_as_bytes [simp]: "length (id_as_bytes u) = 16"
  by (simp add: id_as_bytes_def)

lemma uuid_from_as_bytes [simp]: "uuid_from_bytes (id_as_bytes u) = u"
proof -
  have "unat u < 256 ^ 16" using unsigned_less [of u, where ?'a = nat] by simp
  then show ?thesis by (simp add: uuid_from_bytes_def id_as_bytes_def be_nat_nat_be)
qed

lemma id_as_bytes_from_bytes: "length bs = 16 \<Longrightarrow> id_as_bytes (uuid_from_bytes bs) = bs"
  using be_nat_lt [of bs] nat_be_be_nat [of bs]
  by (simp add: id_as_bytes_def uuid_from_bytes_def unat_of_nat)

lemma id_try_from_as_bytes: "u \<noteq> 0 \<Longrightarrow> id_try_from (id_as_bytes u) = Ok u"
  by (simp add: id_try_from_def id_from_bytes_def id_from_uuid_def)

lemma id_try_from_Ok:
  "id_try_from bs = Ok u \<longleftrightarrow> length bs = 16 \<and> id_as_bytes u = bs \<and> u \<noteq> 0"
  using id_as_bytes_from_bytes [of bs]
  by (auto simp: id_try_from_def id_from_bytes_def id_from_uuid_def)

lemma id_from_bytes_nonnil: "id_from_bytes bs = Ok u \<Longrightarrow> u \<noteq> 0"
  by (auto simp: id_from_bytes_def id_from_uuid_def split: if_splits)

lemma id_as_bytes_inj: "id_as_bytes u = id_as_bytes v \<longleftrightarrow> u = v"
  by (metis uuid_from_as_bytes)

end
