(* ===== verification/Core_Model.thy ===== *)
theory Core_Model
  imports Ids
begin

section \<open>Devices, the controller catalog and device selection (clew-core)\<close>

text \<open>
  \<^verbatim>\<open>device.rs\<close>, \<^verbatim>\<open>control.rs\<close> and \<^verbatim>\<open>selection.rs\<close>: the records of the catalog, the bounds every
  read policy keeps, the operations on the catalog with their errors, the activity events, and
  the selection of a device by id, qualified name or short name.
\<close>

subsection \<open>Devices\<close>

record member_capabilities =
  execute :: bool
  connector :: bool

definition EXECUTE_ONLY :: member_capabilities where
  "EXECUTE_ONLY = \<lparr>execute = True, connector = False\<rparr>"

definition CONNECTOR_ONLY :: member_capabilities where
  "CONNECTOR_ONLY = \<lparr>execute = False, connector = True\<rparr>"

definition EXECUTE_AND_CONNECTOR :: member_capabilities where
  "EXECUTE_AND_CONNECTOR = \<lparr>execute = True, connector = True\<rparr>"

datatype device_name_origin =
    Automatic (base_hostname: string) (tagged: bool) (tag_generation: u32)
  | Renamed

record device_record =
  dr_device_id :: device_id
  dr_site_id :: site_id
  display_name :: string
  hostname_observed :: string
  dr_capabilities :: member_capabilities
  enrolled_via_invite_id :: invite_id
  name_origin :: device_name_origin

record device_summary =
  ds_device_id :: device_id
  ds_site_id :: site_id
  ds_invite_id :: invite_id
  ds_site_name :: string
  ds_display_name :: string
  ds_hostname_observed :: string
  ds_online :: bool
  ds_executable :: bool
  ds_connector :: bool
  ds_last_seen_unix_ms :: "u64 option"

definition summary_from_record :: "device_record \<Rightarrow> string \<Rightarrow> bool \<Rightarrow> device_summary" where
  "summary_from_record r site_name online =
     \<lparr>ds_device_id = dr_device_id r, ds_site_id = dr_site_id r,
      ds_invite_id = enrolled_via_invite_id r, ds_site_name = site_name,
      ds_display_name = display_name r, ds_hostname_observed = hostname_observed r,
      ds_online = online, ds_executable = execute (dr_capabilities r),
      ds_connector = connector (dr_capabilities r), ds_last_seen_unix_ms = None\<rparr>"

subsection \<open>Read policies\<close>

definition HARD_MAX_READ_RESULT_BYTES :: nat where
  [bounds_simps]: "HARD_MAX_READ_RESULT_BYTES = 48 * 1024"
definition HARD_MAX_READ_TIMEOUT_MS :: nat where
  [bounds_simps]: "HARD_MAX_READ_TIMEOUT_MS = 30000"
definition HARD_MAX_READ_ROOTS :: nat where
  [bounds_simps]: "HARD_MAX_READ_ROOTS = 16"
definition HARD_MAX_READ_ROOT_BYTES :: nat where
  [bounds_simps]: "HARD_MAX_READ_ROOT_BYTES = 2048"
definition HARD_MAX_ACTIVITY_EVENTS :: nat where
  [bounds_simps]: "HARD_MAX_ACTIVITY_EVENTS = 1024"
definition HARD_ACTIVITY_RETENTION_MS :: u64 where
  [bounds_simps]: "HARD_ACTIVITY_RETENTION_MS = 7 * 24 * 60 * 60 * 1000"

datatype control_model_error =
    AmbiguousFilesystemScope
  | TooManyReadRoots usize
  | InvalidReadRoot
  | InvalidReadResultLimit u32
  | InvalidReadTimeout u32
  | InvalidName
  | UnknownSite site_id
  | UnknownDevice device_id
  | SiteConflict site_id
  | DeviceConflict device_id
  | InvalidActivityOperation
  | InvalidActivityPath

record read_policy =
  all_filesystem :: bool
  roots :: "string list"
  max_result_bytes :: u32
  rp_timeout_ms :: u32

definition root_check :: "string \<Rightarrow> (control_model_error, unit) result" where
  "root_check root =
     (let trimmed = trim root in
      if trimmed = [] \<or> length trimmed > HARD_MAX_READ_ROOT_BYTES
      then Err InvalidReadRoot else Ok ())"

definition policy_validate :: "read_policy \<Rightarrow> (control_model_error, unit) result" where
  "policy_validate p =
     (if all_filesystem p \<and> roots p \<noteq> [] then Err AmbiguousFilesystemScope
      else if length (roots p) > HARD_MAX_READ_ROOTS then Err (TooManyReadRoots (length (roots p)))
      else bind_r (for_each root_check (roots p)) (\<lambda>_.
        if max_result_bytes p = 0 \<or> unat (max_result_bytes p) > HARD_MAX_READ_RESULT_BYTES
        then Err (InvalidReadResultLimit (max_result_bytes p))
        else if rp_timeout_ms p = 0 \<or> unat (rp_timeout_ms p) > HARD_MAX_READ_TIMEOUT_MS
        then Err (InvalidReadTimeout (rp_timeout_ms p))
        else Ok ()))"

definition policy_new :: "string list \<Rightarrow> u32 \<Rightarrow> u32 \<Rightarrow> (control_model_error, read_policy) result" where
  "policy_new rs max_bytes timeout =
     (let policy = \<lparr>all_filesystem = False, roots = rs, max_result_bytes = max_bytes,
                    rp_timeout_ms = timeout\<rparr> in
      bind_r (policy_validate policy) (\<lambda>_. Ok policy))"

definition policy_all_filesystem :: "u32 \<Rightarrow> u32 \<Rightarrow> (control_model_error, read_policy) result" where
  "policy_all_filesystem max_bytes timeout =
     (let policy = \<lparr>all_filesystem = True, roots = [], max_result_bytes = max_bytes,
                    rp_timeout_ms = timeout\<rparr> in
      bind_r (policy_validate policy) (\<lambda>_. Ok policy))"

definition policy_deny_all :: read_policy where
  "policy_deny_all =
     \<lparr>all_filesystem = False, roots = [],
      max_result_bytes = word_of_nat HARD_MAX_READ_RESULT_BYTES, rp_timeout_ms = 5000\<rparr>"

definition allows_read :: "read_policy \<Rightarrow> bool" where
  "allows_read p \<longleftrightarrow> all_filesystem p \<or> roots p \<noteq> []"

text \<open>What a valid policy promises.\<close>

definition policy_spec :: "read_policy \<Rightarrow> bool" where
  "policy_spec p \<longleftrightarrow>
     \<not> (all_filesystem p \<and> roots p \<noteq> []) \<and> length (roots p) \<le> 16
   \<and> (\<forall>r \<in> set (roots p). trim r \<noteq> [] \<and> length (trim r) \<le> 2048)
   \<and> 0 < unat (max_result_bytes p) \<and> unat (max_result_bytes p) \<le> 49152
   \<and> 0 < unat (rp_timeout_ms p) \<and> unat (rp_timeout_ms p) \<le> 30000"

lemma root_check_Ok: "root_check r = Ok () \<longleftrightarrow> trim r \<noteq> [] \<and> length (trim r) \<le> 2048"
  by (auto simp: root_check_def Let_def bounds_simps)

lemma policy_validate_Ok: "policy_validate p = Ok () \<longleftrightarrow> policy_spec p"
  by (auto simp: policy_validate_def policy_spec_def result_simps root_check_Ok bounds_simps
      unat_gt_0)

subsection \<open>The catalog\<close>

record site_record =
  sr_site_id :: site_id
  sr_site_name :: string
  read_policy_of :: read_policy
  sr_revoked :: bool

record controller_device =
  device_of :: device_record
  cd_revoked :: bool

record catalog =
  sites :: "(site_id, site_record) btree"
  devices :: "(device_id, controller_device) btree"

definition validate_name :: "string \<Rightarrow> (control_model_error, string) result" where
  "validate_name value =
     (let v = trim value in if v = [] \<or> length v > 128 then Err InvalidName else Ok v)"

definition site_validate :: "site_record \<Rightarrow> (control_model_error, unit) result" where
  "site_validate s =
     bind_r (validate_name (sr_site_name s)) (\<lambda>_. policy_validate (read_policy_of s))"

definition catalog_validate :: "catalog \<Rightarrow> (control_model_error, unit) result" where
  "catalog_validate c =
     bind_r (for_each (\<lambda>(_, site). site_validate site) (sites c)) (\<lambda>_.
       for_each (\<lambda>(_, r).
         if bt_get (sites c) (dr_site_id (device_of r)) = None
         then Err (UnknownSite (dr_site_id (device_of r))) else Ok ()) (devices c))"

definition upsert_site :: "site_record \<Rightarrow> catalog \<Rightarrow> (control_model_error, catalog) result" where
  "upsert_site site c =
     bind_r (site_validate site) (\<lambda>_.
       let insert_it = Ok (c\<lparr>sites := bt_insert (sr_site_id site) site (sites c)\<rparr>) in
       case bt_get (sites c) (sr_site_id site) of
         Some existing \<Rightarrow>
           if sr_site_name existing \<noteq> sr_site_name site then Err (SiteConflict (sr_site_id site))
           else insert_it
       | None \<Rightarrow> insert_it)"

definition register_device ::
    "device_record \<Rightarrow> catalog \<Rightarrow> (control_model_error, catalog) result" where
  "register_device device c =
     (if bt_get (sites c) (dr_site_id device) = None then Err (UnknownSite (dr_site_id device))
      else
        let insert_it = Ok (c\<lparr>devices := bt_insert (dr_device_id device)
              \<lparr>device_of = device, cd_revoked = False\<rparr> (devices c)\<rparr>) in
        case bt_get (devices c) (dr_device_id device) of
          Some existing \<Rightarrow>
            if device_of existing \<noteq> device then Err (DeviceConflict (dr_device_id device))
            else insert_it
        | None \<Rightarrow> insert_it)"

definition rename_device ::
    "device_id \<Rightarrow> string \<Rightarrow> catalog \<Rightarrow> (control_model_error, device_record \<times> catalog) result" where
  "rename_device did name c =
     bind_r (validate_name name) (\<lambda>v.
       bind_r (ok_or (bt_get (devices c) did) (UnknownDevice did)) (\<lambda>r.
         let d = (device_of r)\<lparr>display_name := v, name_origin := Renamed\<rparr> in
         Ok (d, c\<lparr>devices := bt_update did (\<lambda>r. r\<lparr>device_of := d\<rparr>) (devices c)\<rparr>)))"

definition catalog_revoke_device :: "device_id \<Rightarrow> catalog \<Rightarrow> (control_model_error, catalog) result" where
  "catalog_revoke_device did c =
     bind_r (ok_or (bt_get (devices c) did) (UnknownDevice did)) (\<lambda>_.
       Ok (c\<lparr>devices := bt_update did (\<lambda>r. r\<lparr>cd_revoked := True\<rparr>) (devices c)\<rparr>))"

definition remove_device :: "device_id \<Rightarrow> catalog \<Rightarrow> controller_device option \<times> catalog" where
  "remove_device did c =
     (bt_get (devices c) did, c\<lparr>devices := bt_remove did (devices c)\<rparr>)"

definition catalog_revoke_site ::
    "site_id \<Rightarrow> catalog \<Rightarrow> (control_model_error, device_id list \<times> catalog) result" where
  "catalog_revoke_site sid c =
     bind_r (ok_or (bt_get (sites c) sid) (UnknownSite sid)) (\<lambda>_.
       let in_site = (\<lambda>r. dr_site_id (device_of r) = sid) in
       Ok (map fst (filter (\<lambda>(_, r). in_site r) (devices c)),
           \<lparr>sites = bt_update sid (\<lambda>s. s\<lparr>sr_revoked := True\<rparr>) (sites c),
            devices = bt_map_values (\<lambda>r. if in_site r then r\<lparr>cd_revoked := True\<rparr> else r)
              (devices c)\<rparr>))"

text \<open>
  The catalog's invariant: maps in key order, every entry filed under its own id, sites valid,
  devices in known sites. \<open>catalog_validate\<close> is the part of it the code re-checks.
\<close>

definition catalog_ok :: "catalog \<Rightarrow> bool" where
  "catalog_ok c \<longleftrightarrow>
     bt_wf (sites c) \<and> bt_wf (devices c)
   \<and> (\<forall>k s. bt_get (sites c) k = Some s \<longrightarrow> sr_site_id s = k \<and> site_validate s = Ok ())
   \<and> (\<forall>k r. bt_get (devices c) k = Some r \<longrightarrow>
        dr_device_id (device_of r) = k \<and> bt_get (sites c) (dr_site_id (device_of r)) \<noteq> None)"

lemma catalog_ok_validate:
  assumes "catalog_ok c"
  shows "catalog_validate c = Ok ()"
proof -
  have "site_validate s = Ok ()" if "(k, s) \<in> set (sites c)" for k s
    using assms bt_wf_getD [OF _ that] by (simp add: catalog_ok_def)
  moreover have "bt_get (sites c) (dr_site_id (device_of r)) \<noteq> None"
    if "(k, r) \<in> set (devices c)" for k r
    using assms bt_wf_getD [OF _ that] by (simp add: catalog_ok_def)
  ultimately show ?thesis
    unfolding catalog_validate_def bind_r_Ok for_each_Ok by fastforce
qed

lemma catalog_ok_empty: "catalog_ok \<lparr>sites = [], devices = []\<rparr>"
  by (simp add: catalog_ok_def)

text \<open>Inversion: what a successful operation did.\<close>

lemma upsert_site_Ok:
  "upsert_site s c = Ok c' \<Longrightarrow>
     site_validate s = Ok () \<and> c' = c\<lparr>sites := bt_insert (sr_site_id s) s (sites c)\<rparr>"
  by (auto simp: upsert_site_def bind_r_Ok Let_def split: option.splits if_splits)

lemma register_device_Ok:
  "register_device d c = Ok c' \<Longrightarrow>
     bt_get (sites c) (dr_site_id d) \<noteq> None
   \<and> c' = c\<lparr>devices := bt_insert (dr_device_id d) \<lparr>device_of = d, cd_revoked = False\<rparr> (devices c)\<rparr>"
  by (auto simp: register_device_def Let_def split: option.splits if_splits)

lemma rename_device_Ok:
  "rename_device i n c = Ok (d, c') \<Longrightarrow>
     \<exists>r v. bt_get (devices c) i = Some r \<and> validate_name n = Ok v
       \<and> d = (device_of r)\<lparr>display_name := v, name_origin := Renamed\<rparr>
       \<and> c' = c\<lparr>devices := bt_update i (\<lambda>r. r\<lparr>device_of := d\<rparr>) (devices c)\<rparr>"
  by (auto simp: rename_device_def bind_r_Ok Let_def)

lemma catalog_revoke_device_Ok:
  "catalog_revoke_device i c = Ok c' \<Longrightarrow>
     bt_get (devices c) i \<noteq> None
   \<and> c' = c\<lparr>devices := bt_update i (\<lambda>r. r\<lparr>cd_revoked := True\<rparr>) (devices c)\<rparr>"
  by (auto simp: catalog_revoke_device_def bind_r_Ok)

lemma catalog_revoke_site_Ok:
  "catalog_revoke_site i c = Ok (ds, c') \<Longrightarrow>
     bt_get (sites c) i \<noteq> None
   \<and> ds = map fst (filter (\<lambda>(_, r). dr_site_id (device_of r) = i) (devices c))
   \<and> sites c' = bt_update i (\<lambda>s. s\<lparr>sr_revoked := True\<rparr>) (sites c)
   \<and> devices c' = bt_map_values
        (\<lambda>r. if dr_site_id (device_of r) = i then r\<lparr>cd_revoked := True\<rparr> else r) (devices c)"
  by (auto simp: catalog_revoke_site_def bind_r_Ok Let_def)

lemmas catalog_op_Ok = upsert_site_Ok register_device_Ok rename_device_Ok
  catalog_revoke_device_Ok catalog_revoke_site_Ok

lemma site_validate_revoked [simp]: "site_validate (s\<lparr>sr_revoked := b\<rparr>) = site_validate s"
  by (simp add: site_validate_def)

lemma upsert_site_ok: "catalog_ok c \<Longrightarrow> upsert_site s c = Ok c' \<Longrightarrow> catalog_ok c'"
  by (drule upsert_site_Ok) (simp add: catalog_ok_def)

lemma register_device_ok: "catalog_ok c \<Longrightarrow> register_device d c = Ok c' \<Longrightarrow> catalog_ok c'"
  by (drule register_device_Ok) (simp add: catalog_ok_def)

lemma rename_device_ok:
  assumes "catalog_ok c" and "rename_device i n c = Ok (d, c')"
  shows "catalog_ok c'"
proof -
  obtain r v where r: "bt_get (devices c) i = Some r"
    and d: "d = (device_of r)\<lparr>display_name := v, name_origin := Renamed\<rparr>"
    and c': "c' = c\<lparr>devices := bt_update i (\<lambda>r. r\<lparr>device_of := d\<rparr>) (devices c)\<rparr>"
    using rename_device_Ok [OF assms(2)] by blast
  show ?thesis using assms(1) r unfolding c' d catalog_ok_def by simp
qed

lemma catalog_ok_site:
  "catalog_ok c \<Longrightarrow> bt_get (sites c) k = Some s \<Longrightarrow> sr_site_id s = k \<and> site_validate s = Ok ()"
  unfolding catalog_ok_def by blast

lemma catalog_ok_device:
  "catalog_ok c \<Longrightarrow> bt_get (devices c) k = Some r \<Longrightarrow>
     dr_device_id (device_of r) = k \<and> bt_get (sites c) (dr_site_id (device_of r)) \<noteq> None"
  unfolding catalog_ok_def by blast

lemma catalog_okI:
  assumes "bt_wf (sites c)" and "bt_wf (devices c)"
    and "\<And>k s. bt_get (sites c) k = Some s \<Longrightarrow> sr_site_id s = k \<and> site_validate s = Ok ()"
    and "\<And>k r. bt_get (devices c) k = Some r \<Longrightarrow>
      dr_device_id (device_of r) = k \<and> bt_get (sites c) (dr_site_id (device_of r)) \<noteq> None"
  shows "catalog_ok c"
  unfolding catalog_ok_def using assms by blast

lemma catalog_ok_wf: "catalog_ok c \<Longrightarrow> bt_wf (sites c) \<and> bt_wf (devices c)"
  unfolding catalog_ok_def by blast

lemma catalog_revoke_device_ok:
  assumes ok: "catalog_ok c" and "catalog_revoke_device i c = Ok c'"
  shows "catalog_ok c'"
proof -
  have c': "c' = c\<lparr>devices := bt_update i (\<lambda>r. r\<lparr>cd_revoked := True\<rparr>) (devices c)\<rparr>"
    using catalog_revoke_device_Ok [OF assms(2)] by blast
  show ?thesis
  proof (rule catalog_okI)
    fix k r assume "bt_get (devices c') k = Some r"
    then obtain z where z: "bt_get (devices c) k = Some z" and d: "device_of r = device_of z"
      unfolding c' by (auto split: if_splits)
    show "dr_device_id (device_of r) = k \<and> bt_get (sites c') (dr_site_id (device_of r)) \<noteq> None"
      using catalog_ok_device [OF ok z] d unfolding c' by simp
  qed (use catalog_ok_wf [OF ok] catalog_ok_site [OF ok] c' in simp_all)
qed

lemma remove_device_ok: "catalog_ok c \<Longrightarrow> catalog_ok (snd (remove_device i c))"
  by (simp add: remove_device_def catalog_ok_def)

lemma catalog_revoke_site_ok:
  assumes ok: "catalog_ok c" and "catalog_revoke_site i c = Ok (ds, c')"
  shows "catalog_ok c'"
proof -
  have s: "sites c' = bt_update i (\<lambda>s. s\<lparr>sr_revoked := True\<rparr>) (sites c)"
    and d: "devices c' = bt_map_values
        (\<lambda>r. if dr_site_id (device_of r) = i then r\<lparr>cd_revoked := True\<rparr> else r) (devices c)"
    using catalog_revoke_site_Ok [OF assms(2)] by blast+
  show ?thesis
  proof (rule catalog_okI)
    fix k r assume "bt_get (devices c') k = Some r"
    then obtain z where z: "bt_get (devices c) k = Some z" and dz: "device_of r = device_of z"
      unfolding d by (auto split: if_splits)
    show "dr_device_id (device_of r) = k \<and> bt_get (sites c') (dr_site_id (device_of r)) \<noteq> None"
      using catalog_ok_device [OF ok z] dz unfolding s by (auto simp del: not_None_eq)
  next
    fix k x assume "bt_get (sites c') k = Some x"
    then obtain z where z: "bt_get (sites c) k = Some z" and x: "x = z \<or> x = z\<lparr>sr_revoked := True\<rparr>"
      unfolding s by (auto split: if_splits)
    show "sr_site_id x = k \<and> site_validate x = Ok ()"
      using catalog_ok_site [OF ok z] x by auto
  qed (use catalog_ok_wf [OF ok] s d in simp_all)
qed

lemmas catalog_op_ok = upsert_site_ok register_device_ok rename_device_ok
  catalog_revoke_device_ok remove_device_ok catalog_revoke_site_ok

subsection \<open>Activity events\<close>

datatype activity_result = Succeeded | Denied | Failed | TimedOut | Cancelled

record activity_event =
  ae_sequence :: u64
  ae_unix_ms :: u64
  ae_site_id :: site_id
  ae_device_id :: device_id
  ae_operation :: string
  ae_path_summary :: "string option"
  ae_result :: activity_result
  ae_duration_ms :: u64
  ae_transferred_bytes :: u64

definition activity_validate :: "activity_event \<Rightarrow> (control_model_error, unit) result" where
  "activity_validate e =
     (if ae_operation e = [] \<or> length (ae_operation e) > 64 then Err InvalidActivityOperation
      else if (case ae_path_summary e of None \<Rightarrow> False
               | Some p \<Rightarrow> length p > HARD_MAX_READ_ROOT_BYTES) then Err InvalidActivityPath
      else Ok ())"

subsection \<open>Device selection\<close>

datatype device_selection_error =
    NoOnlineExecutableDevice
  | Ambiguous "string list"
  | NotFound string
  | NotExecutable device_id
  | Offline device_id

definition candidate :: "(device_id \<Rightarrow> string) \<Rightarrow> device_summary \<Rightarrow> string" where
  "candidate show_id d =
     ds_site_name d @ ''/'' @ ds_display_name d @ '' ['' @ show_id (ds_device_id d) @ '']''"

definition unique_match ::
    "(device_id \<Rightarrow> string) \<Rightarrow> string \<Rightarrow> device_summary list
     \<Rightarrow> (device_selection_error, device_id) result" where
  "unique_match show_id selector matches =
     (case matches of
        [only] \<Rightarrow> Ok (ds_device_id only)
      | [] \<Rightarrow> Err (NotFound selector)
      | many \<Rightarrow> Err (Ambiguous (map (candidate show_id) many)))"

definition only_device ::
    "(device_id \<Rightarrow> string) \<Rightarrow> device_summary list \<Rightarrow> (device_selection_error, device_id) result" where
  "only_device show_id online_executable =
     (case online_executable of
        [only] \<Rightarrow> Ok (ds_device_id only)
      | [] \<Rightarrow> Err NoOnlineExecutableDevice
      | many \<Rightarrow> Err (Ambiguous (map (candidate show_id) many)))"

definition select_executable_device ::
    "(string \<Rightarrow> uuid option) \<Rightarrow> (device_id \<Rightarrow> string) \<Rightarrow> device_summary list \<Rightarrow> string option
     \<Rightarrow> (device_selection_error, device_id) result" where
  "select_executable_device parse_id show_id ds selector =
     (let online_executable = filter (\<lambda>d. ds_online d \<and> ds_executable d) ds in
      case map_option trim selector of
        None \<Rightarrow> only_device show_id online_executable
      | Some sel \<Rightarrow>
          if sel = [] then only_device show_id online_executable
          else (case id_from_str parse_id sel of
            Inr did \<Rightarrow>
              bind_r (ok_or (find (\<lambda>d. ds_device_id d = did) ds) (NotFound sel)) (\<lambda>d.
                if \<not> ds_executable d then Err (NotExecutable did)
                else if \<not> ds_online d then Err (Offline did)
                else Ok did)
          | Inl _ \<Rightarrow>
              (case split_once (CHR ''/'') sel of
                 Some (site, name) \<Rightarrow>
                   unique_match show_id sel
                     (filter (\<lambda>d. ds_site_name d = site \<and> ds_display_name d = name)
                       online_executable)
               | None \<Rightarrow>
                   unique_match show_id sel
                     (filter (\<lambda>d. ds_display_name d = sel) online_executable))))"

lemma unique_match_Ok:
  "unique_match sh sel ms = Ok i \<longleftrightarrow> (\<exists>d. ms = [d] \<and> ds_device_id d = i)"
  by (auto simp: unique_match_def split: list.splits)

lemma filter_single: "filter P xs = [x] \<Longrightarrow> x \<in> set xs \<and> P x"
  by (drule arg_cong [where f = set]) auto

lemma only_device_Ok:
  "only_device sh ms = Ok i \<longleftrightarrow> (\<exists>d. ms = [d] \<and> ds_device_id d = i)"
  by (auto simp: only_device_def split: list.splits)

subsection \<open>Properties\<close>

text \<open>The operations of the catalog as values; a refused operation leaves the catalog as it is.\<close>

datatype catalog_op =
    UpsertSite site_record
  | RegisterDevice device_record
  | RenameDevice device_id string
  | RevokeDevice device_id
  | RemoveDevice device_id
  | RevokeSite site_id

fun catalog_step :: "catalog \<Rightarrow> catalog_op \<Rightarrow> catalog" where
  "catalog_step c (UpsertSite s) = (case upsert_site s c of Inr c' \<Rightarrow> c' | Inl _ \<Rightarrow> c)"
| "catalog_step c (RegisterDevice d) = (case register_device d c of Inr c' \<Rightarrow> c' | Inl _ \<Rightarrow> c)"
| "catalog_step c (RenameDevice i n) = (case rename_device i n c of Inr (_, c') \<Rightarrow> c' | Inl _ \<Rightarrow> c)"
| "catalog_step c (RevokeDevice i) = (case catalog_revoke_device i c of Inr c' \<Rightarrow> c' | Inl _ \<Rightarrow> c)"
| "catalog_step c (RemoveDevice i) = snd (remove_device i c)"
| "catalog_step c (RevokeSite i) = (case catalog_revoke_site i c of Inr (_, c') \<Rightarrow> c' | Inl _ \<Rightarrow> c)"

lemma catalog_step_ok:
  assumes "catalog_ok c"
  shows "catalog_ok (catalog_step c x)"
proof (cases x)
  case (UpsertSite s)
  then show ?thesis using assms upsert_site_ok by (cases "upsert_site s c") auto
next
  case (RegisterDevice d)
  then show ?thesis using assms register_device_ok by (cases "register_device d c") auto
next
  case (RenameDevice i n)
  then show ?thesis using assms rename_device_ok by (cases "rename_device i n c") auto
next
  case (RevokeDevice i)
  then show ?thesis using assms catalog_revoke_device_ok by (cases "catalog_revoke_device i c") auto
next
  case (RemoveDevice i)
  then show ?thesis using assms remove_device_ok by simp
next
  case (RevokeSite i)
  then show ?thesis using assms catalog_revoke_site_ok by (cases "catalog_revoke_site i c") auto
qed

lemma catalog_run_ok: "catalog_ok c \<Longrightarrow> catalog_ok (foldl catalog_step c xs)"
  by (induction xs arbitrary: c) (simp_all add: catalog_step_ok)

text \<open>C25: Whatever sequence of catalog operations runs from the empty catalog, refused ones
  included, the catalog passes its own validation, both maps stay in key order, and every
  device belongs to a known site.\<close>

theorem catalog_run_valid:
  "let c = foldl catalog_step \<lparr>sites = [], devices = []\<rparr> xs in
     catalog_validate c = Ok () \<and> bt_wf (sites c) \<and> bt_wf (devices c)"
proof -
  have "catalog_ok (foldl catalog_step \<lparr>sites = [], devices = []\<rparr> xs)"
    by (rule catalog_run_ok [OF catalog_ok_empty])
  then show ?thesis
    using catalog_ok_validate catalog_ok_wf unfolding Let_def by blast
qed

text \<open>Revoking a site marks every device of the site revoked, returns exactly the ids of
  those devices, and leaves the devices of every other site as they were.\<close>

theorem catalog_revoke_site_spec:
  assumes "catalog_ok c" and "catalog_revoke_site i c = Ok (ds, c')"
  shows "(\<forall>k. k \<in> set ds \<longleftrightarrow> (\<exists>r. bt_get (devices c) k = Some r \<and> dr_site_id (device_of r) = i))
    \<and> (\<forall>k r. bt_get (devices c') k = Some r \<longrightarrow> dr_site_id (device_of r) = i \<longrightarrow> cd_revoked r)
    \<and> (\<forall>k r. bt_get (devices c) k = Some r \<longrightarrow> dr_site_id (device_of r) \<noteq> i \<longrightarrow>
         bt_get (devices c') k = Some r)"
proof -
  note inv = catalog_revoke_site_Ok [OF assms(2)]
  have ds: "ds = map fst (filter (\<lambda>(_, r). dr_site_id (device_of r) = i) (devices c))"
    and d: "devices c' = bt_map_values
      (\<lambda>r. if dr_site_id (device_of r) = i then r\<lparr>cd_revoked := True\<rparr> else r) (devices c)"
    using inv by blast+
  have wf: "bt_wf (devices c)" using catalog_ok_wf [OF assms(1)] by blast
  have "k \<in> set ds \<longleftrightarrow> (\<exists>r. bt_get (devices c) k = Some r \<and> dr_site_id (device_of r) = i)" for k
    unfolding ds bt_get_in_set [OF wf, symmetric] by force
  moreover have "cd_revoked r"
    if r: "bt_get (devices c') k = Some r" and i: "dr_site_id (device_of r) = i" for k r
  proof -
    obtain z where "r = (if dr_site_id (device_of z) = i then z\<lparr>cd_revoked := True\<rparr> else z)"
      using r unfolding d bt_get_map_values map_option_eq_Some by blast
    then show ?thesis using i by (simp split: if_splits)
  qed
  moreover have "bt_get (devices c') k = Some r"
    if "bt_get (devices c) k = Some r" "dr_site_id (device_of r) \<noteq> i" for k r
    using that unfolding d by simp
  ultimately show ?thesis by blast
qed

text \<open>What the selector of a call asks of a device.\<close>

definition selector_fits :: "(string \<Rightarrow> uuid option) \<Rightarrow> string option \<Rightarrow> device_summary \<Rightarrow> bool" where
  "selector_fits parse_id selector d =
     (case selector of
        None \<Rightarrow> True
      | Some raw \<Rightarrow>
          let sel = trim raw in
            sel = []
          \<or> (case id_from_str parse_id sel of
               Inr did \<Rightarrow> ds_device_id d = did
             | Inl _ \<Rightarrow>
                 if CHR ''/'' \<in> set sel
                 then CHR ''/'' \<notin> set (ds_site_name d)
                    \<and> sel = ds_site_name d @ ''/'' @ ds_display_name d
                 else ds_display_name d = sel))"

lemma qualified_fits:
  "split_once x sel = Some (site, name) \<Longrightarrow>
     (s = site \<and> n = name) \<longleftrightarrow> x \<notin> set s \<and> sel = s @ x # n"
  by (metis option.inject prod.inject split_once_Some)

text \<open>C37: Selection is sound and complete. When the ids of the listed devices differ, a device
  is selected exactly when it is the only online executable device the selector fits: a wrong,
  offline or helper-only device is never picked, and an ambiguous selector picks nothing.\<close>

theorem select_executable_device_spec:
  assumes "distinct (map ds_device_id ds)"
  shows "select_executable_device parse_id show_id ds selector = Ok i \<longleftrightarrow>
    (\<exists>d. filter (\<lambda>d. (ds_online d \<and> ds_executable d) \<and> selector_fits parse_id selector d) ds = [d]
       \<and> ds_device_id d = i)"
proof -
  have by_id: "(\<exists>d. find (\<lambda>d. ds_device_id d = did) ds = Some d \<and> ds_executable d \<and> ds_online d
        \<and> did = i) \<longleftrightarrow>
      (\<exists>d. filter (\<lambda>d. (ds_online d \<and> ds_executable d) \<and> ds_device_id d = did) ds = [d]
         \<and> ds_device_id d = i)" for did
    using assms
  proof (induction ds)
    case Nil
    then show ?case by simp
  next
    case (Cons x ds)
    have "filter (\<lambda>d. (ds_online d \<and> ds_executable d) \<and> ds_device_id d = did) ds = []"
      if "ds_device_id x = did"
      using Cons.prems that by (auto simp: filter_empty_conv image_iff)
    with Cons show ?case by auto
  qed
  show ?thesis
  proof (cases selector)
    case None
    then show ?thesis
      by (simp add: select_executable_device_def selector_fits_def only_device_Ok Let_def)
  next
    case (Some raw)
    show ?thesis
    proof (cases "trim raw = []")
      case True
      then show ?thesis using Some
        by (simp add: select_executable_device_def selector_fits_def only_device_Ok Let_def)
    next
      case nonempty: False
      show ?thesis
      proof (cases "id_from_str parse_id (trim raw)")
        case (Inr did)
        have "select_executable_device parse_id show_id ds selector = Ok i \<longleftrightarrow>
          (\<exists>d. find (\<lambda>d. ds_device_id d = did) ds = Some d \<and> ds_executable d \<and> ds_online d \<and> did = i)"
          using Some nonempty Inr by (auto simp: select_executable_device_def Let_def bind_r_Ok)
        also have "\<dots> \<longleftrightarrow> (\<exists>d. filter (\<lambda>d. (ds_online d \<and> ds_executable d)
            \<and> selector_fits parse_id selector d) ds = [d] \<and> ds_device_id d = i)"
          unfolding by_id using Some nonempty Inr by (simp add: selector_fits_def Let_def)
        finally show ?thesis .
      next
        case (Inl e)
        show ?thesis
        proof (cases "split_once (CHR ''/'') (trim raw)")
          case None
          then have "CHR ''/'' \<notin> set (trim raw)" by (simp add: split_once_None)
          then show ?thesis using Some nonempty Inl None
            by (simp add: select_executable_device_def selector_fits_def unique_match_Ok Let_def
                conj_commute)
        next
          case (Some p)
          obtain site name where p: "p = (site, name)" by (cases p)
          have "CHR ''/'' \<in> set (trim raw)" by (metis Some option.distinct(1) split_once_None)
          then have fits: "selector_fits parse_id selector d \<longleftrightarrow>
              ds_site_name d = site \<and> ds_display_name d = name" for d
            using \<open>selector = Some raw\<close> nonempty Inl Some p
              qualified_fits [of "CHR ''/''" "trim raw" site name "ds_site_name d" "ds_display_name d"]
            by (simp add: selector_fits_def Let_def)
          show ?thesis unfolding fits using \<open>selector = Some raw\<close> nonempty Inl Some p
            by (simp add: select_executable_device_def unique_match_Ok Let_def conj_commute)
        qed
      qed
    qed
  qed
qed

subsection \<open>Witnesses\<close>

definition toy_site :: "site_id \<Rightarrow> site_record" where
  "toy_site i = \<lparr>sr_site_id = i, sr_site_name = ''Lab'',
     read_policy_of = \<lparr>all_filesystem = True, roots = [], max_result_bytes = 9, rp_timeout_ms = 9\<rparr>,
     sr_revoked = False\<rparr>"

definition toy_device_record :: "device_id \<Rightarrow> site_id \<Rightarrow> device_record" where
  "toy_device_record i s = \<lparr>dr_device_id = i, dr_site_id = s, display_name = ''pc'',
     hostname_observed = ''pc'', dr_capabilities = EXECUTE_ONLY, enrolled_via_invite_id = 9,
     name_origin = Renamed\<rparr>"

lemma catalog_revoke_site_spec_witness:
  "let c = \<lparr>sites = [(1, toy_site 1), (2, toy_site 2)],
            devices = [(5, \<lparr>device_of = toy_device_record 5 1, cd_revoked = False\<rparr>),
                       (6, \<lparr>device_of = toy_device_record 6 2, cd_revoked = False\<rparr>)]\<rparr> in
     \<exists>ds c'. catalog_revoke_site 1 c = Ok (ds, c') \<and> 5 \<in> set ds \<and> 6 \<notin> set ds
       \<and> bt_get (devices c') 6 = bt_get (devices c) 6"
proof -
  let ?c = "\<lparr>sites = [(1, toy_site 1), (2, toy_site 2)],
            devices = [(5, \<lparr>device_of = toy_device_record 5 1, cd_revoked = False\<rparr>),
                       (6, \<lparr>device_of = toy_device_record 6 2, cd_revoked = False\<rparr>)]\<rparr>"
  have v: "site_validate (toy_site i) = Ok ()" for i
    by (simp add: site_validate_def validate_name_def toy_site_def trim_def ascii_defs bind_r_Ok
        policy_validate_Ok policy_spec_def Let_def)
  have ids: "sr_site_id (toy_site i) = i" "dr_device_id (toy_device_record i k) = i"
    "dr_site_id (toy_device_record i k) = k" for i k
    by (simp_all add: toy_site_def toy_device_record_def)
  have ok: "catalog_ok ?c"
    using ids by (auto simp: catalog_ok_def bt_wf_def v split: if_splits)
  obtain ds c' where r: "catalog_revoke_site 1 ?c = Ok (ds, c')"
    by (simp add: catalog_revoke_site_def result_simps Let_def)
  from catalog_revoke_site_spec [OF ok r] r show ?thesis
    unfolding Let_def by (intro exI [of _ ds] exI [of _ c']) (simp add: ids)
qed

lemma select_executable_device_spec_witness:
  "let d = (\<lambda>i online. \<lparr>ds_device_id = i, ds_site_id = 1, ds_invite_id = 9, ds_site_name = ''Lab'',
       ds_display_name = ''pc'', ds_hostname_observed = ''pc'', ds_online = online,
       ds_executable = True, ds_connector = False, ds_last_seen_unix_ms = None\<rparr>) in
     select_executable_device (\<lambda>_. None) (\<lambda>_. []) [d 5 False, d 6 True] (Some ''Lab/pc'') = Ok 6"
  unfolding Let_def
  by (subst select_executable_device_spec)
     (simp_all add: selector_fits_def trim_def ascii_defs id_from_str_def)

end
