(* ===== verification/Device_Names.thy ===== *)
theory Device_Names
  imports Core_Model
begin

section \<open>Device tags and automatic names (clew-core and clew-host, naming.rs)\<close>

text \<open>
  A device tag is five Crockford characters taken from the top twenty-five bits of a hash of the
  device id and a generation; allocation tries at most 1024 generations. The collision policy
  groups the automatically named records by lower-case hostname and tags every record of a group
  that needs it. The hash and the textual form of an id are parameters.
\<close>

subsection \<open>Tags\<close>

definition DEVICE_TAG_DOMAIN :: bytes where
  "DEVICE_TAG_DOMAIN = as_bytes ''clew/device-tag/v1'' @ [0]"

definition CROCKFORD_BASE32 :: string where
  "CROCKFORD_BASE32 = ''0123456789ABCDEFGHJKMNPQRSTVWXYZ''"

definition DEVICE_TAG_LEN :: nat where [bounds_simps]: "DEVICE_TAG_LEN = 5"
definition MAX_DEVICE_TAG_ATTEMPTS :: nat where [bounds_simps]: "MAX_DEVICE_TAG_ATTEMPTS = 1024"

type_synonym device_tag = string

fun tag_encode :: "nat \<Rightarrow> u32 \<Rightarrow> device_tag" where
  "tag_encode 0 v = []"
| "tag_encode (Suc k) v =
     tag_encode k (drop_bit 5 v) @ [CROCKFORD_BASE32 ! unat (and v 31)]"

definition tag_derive :: "(bytes \<Rightarrow> bytes) \<Rightarrow> device_id \<Rightarrow> u32 \<Rightarrow> device_tag" where
  "tag_derive sha256 did generation =
     (let digest = sha256 (DEVICE_TAG_DOMAIN @ id_as_bytes did @ u32_to_be generation) in
      tag_encode DEVICE_TAG_LEN (drop_bit 7 (u32_from_be (take 4 digest))))"

datatype device_tag_parse_error = TagInvalidLength usize | TagInvalidCharacter char

definition tag_from_str :: "string \<Rightarrow> (device_tag_parse_error, device_tag) result" where
  "tag_from_str value =
     (if length value \<noteq> DEVICE_TAG_LEN then Err (TagInvalidLength (length value))
      else bind_r (for_each (\<lambda>c. if c \<notin> set CROCKFORD_BASE32 then Err (TagInvalidCharacter c)
                                 else Ok ()) value) (\<lambda>_. Ok value))"

datatype device_tag_allocation_error = GenerationOverflow | Exhausted u32 nat

fun allocate_attempts ::
    "(bytes \<Rightarrow> bytes) \<Rightarrow> device_id \<Rightarrow> u32 \<Rightarrow> (device_tag \<Rightarrow> bool) \<Rightarrow> nat list
     \<Rightarrow> (device_tag_allocation_error, device_tag \<times> u32) result" where
  "allocate_attempts sha256 did start is_occupied [] =
     Err (Exhausted start MAX_DEVICE_TAG_ATTEMPTS)"
| "allocate_attempts sha256 did start is_occupied (offset # offsets) =
     bind_r (ok_or (checked_add start (word_of_nat offset)) GenerationOverflow) (\<lambda>generation.
       let tag = tag_derive sha256 did generation in
       if \<not> is_occupied tag then Ok (tag, generation)
       else allocate_attempts sha256 did start is_occupied offsets)"

definition allocate_device_tag ::
    "(bytes \<Rightarrow> bytes) \<Rightarrow> device_id \<Rightarrow> u32 \<Rightarrow> (device_tag \<Rightarrow> bool)
     \<Rightarrow> (device_tag_allocation_error, device_tag \<times> u32) result" where
  "allocate_device_tag sha256 did start is_occupied =
     allocate_attempts sha256 did start is_occupied [0..<MAX_DEVICE_TAG_ATTEMPTS]"

lemma crockford_length: "length CROCKFORD_BASE32 = 32"
  by (simp add: CROCKFORD_BASE32_def)

lemma crockford_distinct: "distinct CROCKFORD_BASE32"
  by (simp add: CROCKFORD_BASE32_def)

lemma unat_and_31: "unat (and (v :: u32) 31) = unat v mod 32"
proof -
  have "and v 31 = take_bit 5 v" by (simp add: take_bit_eq_mask mask_numeral)
  then show ?thesis by (simp add: take_bit_eq_mod unat_mod_distrib)
qed

lemma tag_encode_props:
  "length (tag_encode k v) = k \<and> set (tag_encode k v) \<subseteq> set CROCKFORD_BASE32"
proof (induction k arbitrary: v)
  case 0
  then show ?case by simp
next
  case (Suc k)
  have "CROCKFORD_BASE32 ! (unat v mod 32) \<in> set CROCKFORD_BASE32"
    by (rule nth_mem) (simp add: crockford_length)
  with Suc show ?case by (simp add: unat_and_31)
qed

lemma tag_encode_inj:
  "tag_encode k v = tag_encode k w \<Longrightarrow> unat v < 32 ^ k \<Longrightarrow> unat w < 32 ^ k \<Longrightarrow> v = w"
proof (induction k arbitrary: v w)
  case 0
  then show ?case by (simp add: unat_eq_0)
next
  case (Suc k)
  have dv: "unat (drop_bit 5 x) = unat x div 32" for x :: u32
    by (simp add: drop_bit_eq_div unat_div_distrib)
  have "drop_bit 5 v = drop_bit 5 w"
    by (rule Suc.IH) (use Suc.prems in \<open>simp_all add: dv less_mult_imp_div_less mult.commute\<close>)
  then have "unat v div 32 = unat w div 32" by (metis dv)
  moreover have "unat v mod 32 = unat w mod 32"
    using Suc.prems(1) crockford_distinct
    by (simp add: unat_and_31 nth_eq_iff_index_eq crockford_length)
  ultimately show ?case by (metis div_mod_decomp word_unat_eq_iff)
qed

lemma tag_derive_props:
  "length (tag_derive sha did g) = 5 \<and> set (tag_derive sha did g) \<subseteq> set CROCKFORD_BASE32"
  using tag_encode_props by (simp add: tag_derive_def DEVICE_TAG_LEN_def Let_def)

lemma tag_from_str_Ok:
  "tag_from_str s = Ok t \<longleftrightarrow> t = s \<and> length s = 5 \<and> set s \<subseteq> set CROCKFORD_BASE32"
  by (auto simp: tag_from_str_def result_simps bounds_simps split: if_splits)

lemma allocate_attempts_Ok:
  assumes "allocate_attempts sha did start occ [a..<b] = Ok (t, g)"
  shows "\<exists>k. a \<le> k \<and> k < b \<and> unat g = unat start + unat (word_of_nat k :: u32)
    \<and> t = tag_derive sha did g \<and> \<not> occ t
    \<and> (\<forall>j. a \<le> j \<and> j < k \<longrightarrow> occ (tag_derive sha did (start + word_of_nat j)))"
  using assms
proof (induction "b - a" arbitrary: a)
  case 0
  then show ?case by simp
next
  case (Suc n)
  then have up: "[a..<b] = a # [Suc a..<b]" by (simp add: upt_conv_Cons)
  from Suc.prems obtain g0 where g0: "checked_add start (word_of_nat a) = Some g0"
    and r: "if occ (tag_derive sha did g0)
      then allocate_attempts sha did start occ [Suc a..<b] = Ok (t, g)
      else (t, g) = (tag_derive sha did g0, g0)"
    unfolding up by (auto simp: bind_r_Ok Let_def split: if_splits)
  have g0_eq: "g0 = start + word_of_nat a"
    using g0 by (simp add: checked_add_def split: if_splits)
  show ?case
  proof (cases "occ (tag_derive sha did g0)")
    case True
    have "n = b - Suc a" using Suc.hyps(2) by simp
    moreover have "allocate_attempts sha did start occ [Suc a..<b] = Ok (t, g)"
      using r True by simp
    ultimately obtain k where k: "Suc a \<le> k" "k < b"
      "unat g = unat start + unat (word_of_nat k :: u32)" "t = tag_derive sha did g" "\<not> occ t"
      "\<forall>j. Suc a \<le> j \<and> j < k \<longrightarrow> occ (tag_derive sha did (start + word_of_nat j))"
      using Suc.hyps(1) by blast
    have "occ (tag_derive sha did (start + word_of_nat j))" if "a \<le> j" "j < k" for j
      using k(6) True that unfolding g0_eq by (cases "j = a") auto
    with k show ?thesis by (intro exI [of _ k]) simp
  next
    case False
    with r g0 Suc.hyps(2) show ?thesis
      by (intro exI [of _ a]) (auto dest: checked_add_Some)
  qed
qed

text \<open>A tag that allocation returns is the tag of the device at the returned generation, is
  free, and is the first free one from the requested generation on: five Crockford characters,
  which parse back to the same tag.\<close>

theorem allocate_device_tag_sound:
  assumes "allocate_device_tag sha256 did start is_occupied = Ok (tag, generation)"
  shows "tag = tag_derive sha256 did generation \<and> \<not> is_occupied tag
    \<and> unat start \<le> unat generation \<and> unat generation < unat start + 1024
    \<and> (\<forall>g. start \<le> g \<and> g < generation \<longrightarrow> is_occupied (tag_derive sha256 did g))
    \<and> tag_from_str tag = Ok tag"
proof -
  obtain k where k: "k < 1024" "unat generation = unat start + unat (word_of_nat k :: u32)"
    "tag = tag_derive sha256 did generation" "\<not> is_occupied tag"
    "\<forall>j. j < k \<longrightarrow> is_occupied (tag_derive sha256 did (start + word_of_nat j))"
    using allocate_attempts_Ok [of sha256 did start is_occupied 0 1024 tag generation] assms
    by (auto simp: allocate_device_tag_def bounds_simps)
  have uk: "unat (word_of_nat k :: u32) = k" using k(1) by (simp add: unat_of_nat)
  have "is_occupied (tag_derive sha256 did g)" if "start \<le> g" "g < generation" for g
  proof -
    have "unat g - unat start < k"
      using that k(2) uk by (simp add: word_le_nat_alt word_less_nat_alt)
    moreover have "start + word_of_nat (unat g - unat start) = g"
      using that(1) by (simp add: word_le_nat_alt of_nat_diff)
    ultimately show ?thesis using k(5) by metis
  qed
  then show ?thesis using k uk tag_derive_props [of sha256 did generation]
    by (simp add: tag_from_str_Ok)
qed

subsection \<open>Observed hostnames\<close>

datatype target_os = Windows | MacOs | OtherUnix

definition fallback_platform_name :: "target_os \<Rightarrow> string" where
  "fallback_platform_name os =
     (case os of Windows \<Rightarrow> ''Windows PC'' | MacOs \<Rightarrow> ''Mac'' | OtherUnix \<Rightarrow> ''Linux computer'')"

fun take_chars :: "nat \<Rightarrow> string \<Rightarrow> string" where
  "take_chars k [] = []"
| "take_chars k (c # s) =
     (if cont_byte c then c # take_chars k s
      else (case k of 0 \<Rightarrow> [] | Suc k' \<Rightarrow> c # take_chars k' s))"

definition normalize_hostname :: "target_os \<Rightarrow> string \<Rightarrow> string" where
  "normalize_hostname os raw =
     (let trimmed = trim raw;
          generic = trimmed = [] \<or> to_ascii_lowercase trimmed \<in>
            {''localhost'', ''localhost.localdomain'', ''computer'', ''desktop'', ''unknown''} in
      if generic then fallback_platform_name os else take_chars 128 trimmed)"

definition observed_hostname :: "target_os \<Rightarrow> string option \<Rightarrow> string" where
  "observed_hostname os raw =
     normalize_hostname os (case raw of None \<Rightarrow> [] | Some r \<Rightarrow> r)"

subsection \<open>The collision policy\<close>

definition add_to_group ::
    "(string, nat list) btree \<Rightarrow> nat \<times> device_record \<Rightarrow> (string, nat list) btree" where
  "add_to_group groups p =
     (case name_origin (snd p) of
        Automatic base tg gen \<Rightarrow>
          (let key = to_ascii_lowercase base in
           bt_insert key ((case bt_get groups key of None \<Rightarrow> [] | Some is \<Rightarrow> is) @ [fst p]) groups)
      | Renamed \<Rightarrow> groups)"

definition hostname_groups :: "device_record list \<Rightarrow> (string, nat list) btree" where
  "hostname_groups rs = foldl add_to_group [] (enumerate 0 rs)"

fun is_tagged :: "device_name_origin \<Rightarrow> bool" where
  "is_tagged (Automatic b t g) = t"
| "is_tagged Renamed = False"

definition tag_record ::
    "(bytes \<Rightarrow> bytes) \<Rightarrow> nat \<Rightarrow> device_tag set \<times> device_record list
     \<Rightarrow> (device_tag_allocation_error, device_tag set \<times> device_record list) result" where
  "tag_record sha256 i st =
     (let (occupied, rs) = st; r = rs ! i in
      case name_origin r of
        Renamed \<Rightarrow> Ok st
      | Automatic base tg gen \<Rightarrow>
          (let start = (if tg then saturating_add gen 1 else gen);
               current = tag_derive sha256 (dr_device_id r) gen in
           bind_r (if tg \<and> current \<notin> occupied then Ok (current, gen)
                   else allocate_device_tag sha256 (dr_device_id r) start (\<lambda>t. t \<in> occupied))
             (\<lambda>(tag, generation).
                Ok (insert tag occupied,
                    rs[i := r\<lparr>name_origin := Automatic base True generation,
                              display_name := base @ ''-'' @ tag\<rparr>]))))"

definition name_group ::
    "(bytes \<Rightarrow> bytes) \<Rightarrow> (device_id \<Rightarrow> string) \<Rightarrow> device_record list \<Rightarrow> nat list
     \<Rightarrow> device_record list \<times> (device_tag_allocation_error, unit) result" where
  "name_group sha256 show_id rs indices =
     (let sorted = sort_key (\<lambda>i. show_id (dr_device_id (rs ! i))) indices;
          collision = length sorted \<ge> 2;
          any_tagged = list_ex (\<lambda>i. is_tagged (name_origin (rs ! i))) sorted in
      if \<not> collision \<and> \<not> any_tagged then (rs, Ok ())
      else (let (st, res) = try_each (tag_record sha256) sorted ({}, rs) in (snd st, res)))"

fun name_groups ::
    "(bytes \<Rightarrow> bytes) \<Rightarrow> (device_id \<Rightarrow> string) \<Rightarrow> nat list list \<Rightarrow> device_record list
     \<Rightarrow> device_record list \<times> (device_tag_allocation_error, unit) result" where
  "name_groups sha256 show_id [] rs = (rs, Ok ())"
| "name_groups sha256 show_id (g # gs) rs =
     (case name_group sha256 show_id rs g of
        (rs', Inl e) \<Rightarrow> (rs', Err e)
      | (rs', Inr _) \<Rightarrow> name_groups sha256 show_id gs rs')"

definition apply_hostname_collision_policy ::
    "(bytes \<Rightarrow> bytes) \<Rightarrow> (device_id \<Rightarrow> string) \<Rightarrow> device_record list
     \<Rightarrow> device_record list \<times> (device_tag_allocation_error, unit) result" where
  "apply_hostname_collision_policy sha256 show_id rs =
     name_groups sha256 show_id (map snd (hostname_groups rs)) rs"

lemma allocate_device_tag_Ok:
  "allocate_device_tag sha did start occ = Ok (t, g) \<Longrightarrow> t = tag_derive sha did g \<and> \<not> occ t"
  unfolding allocate_device_tag_def by (drule allocate_attempts_Ok) blast

definition auto_base :: "device_record \<Rightarrow> string option" where
  "auto_base r = (case name_origin r of Automatic b t g \<Rightarrow> Some b | Renamed \<Rightarrow> None)"

definition rec_ident :: "device_record \<Rightarrow> device_id \<times> string option" where
  "rec_ident r = (dr_device_id r, auto_base r)"

definition rec_tag :: "(bytes \<Rightarrow> bytes) \<Rightarrow> device_record \<Rightarrow> device_tag" where
  "rec_tag sha r =
     (case name_origin r of Automatic b t g \<Rightarrow> tag_derive sha (dr_device_id r) g | Renamed \<Rightarrow> [])"

definition named :: "(bytes \<Rightarrow> bytes) \<Rightarrow> device_record \<Rightarrow> bool" where
  "named sha r \<longleftrightarrow>
     (\<exists>b. auto_base r = Some b \<and> is_tagged (name_origin r) \<and> display_name r = b @ ''-'' @ rec_tag sha r)"

lemma auto_base_Some: "auto_base r = Some b \<longleftrightarrow> (\<exists>t g. name_origin r = Automatic b t g)"
  by (auto simp: auto_base_def split: device_name_origin.splits)

lemma tag_record_Ok:
  assumes "tag_record sha i (occ, rs) = Ok (occ', rs')"
    and "i < length rs" and "auto_base (rs ! i) = Some b"
  shows "\<exists>r. rs' = rs[i := r] \<and> named sha r \<and> rec_ident r = rec_ident (rs ! i)
    \<and> rec_tag sha r \<notin> occ \<and> occ' = insert (rec_tag sha r) occ"
proof -
  obtain tg gen where o: "name_origin (rs ! i) = Automatic b tg gen"
    using assms(3) by (auto simp: auto_base_Some)
  from assms(1) obtain t g where
    t: "t = tag_derive sha (dr_device_id (rs ! i)) g" "t \<notin> occ" "occ' = insert t occ"
    and rs': "rs' = rs[i := (rs ! i)\<lparr>name_origin := Automatic b True g,
                              display_name := b @ ''-'' @ t\<rparr>]"
    by (auto simp: tag_record_def o Let_def bind_r_Ok dest: allocate_device_tag_Ok split: if_splits)
  let ?r = "(rs ! i)\<lparr>name_origin := Automatic b True g, display_name := b @ ''-'' @ t\<rparr>"
  have "named sha ?r" "rec_ident ?r = rec_ident (rs ! i)" "rec_tag sha ?r = t"
    using t(1) by (simp_all add: named_def auto_base_def rec_ident_def rec_tag_def o)
  then show ?thesis using t(2,3) rs' by metis
qed

lemma tag_records_Ok:
  assumes "fold_r (tag_record sha) is (occ, rs) = Ok (occ', rs')"
    and "distinct is" and "\<forall>i \<in> set is. i < length rs \<and> auto_base (rs ! i) \<noteq> None"
  shows "map rec_ident rs' = map rec_ident rs \<and> (\<forall>i. i \<notin> set is \<longrightarrow> rs' ! i = rs ! i)
    \<and> (\<forall>i \<in> set is. named sha (rs' ! i) \<and> rec_tag sha (rs' ! i) \<notin> occ)
    \<and> inj_on (\<lambda>i. rec_tag sha (rs' ! i)) (set is)"
  using assms
proof (induction "is" arbitrary: occ rs)
  case Nil
  then show ?case by simp
next
  case (Cons i "is")
  obtain b where i: "i < length rs" "auto_base (rs ! i) = Some b" using Cons.prems(3) by auto
  obtain occ1 rs1 where s1: "tag_record sha i (occ, rs) = Ok (occ1, rs1)"
    and s2: "fold_r (tag_record sha) is (occ1, rs1) = Ok (occ', rs')"
    using Cons.prems(1) by (auto simp: bind_r_Ok)
  obtain r where rs1: "rs1 = rs[i := r]" and r: "named sha r" "rec_ident r = rec_ident (rs ! i)"
    "rec_tag sha r \<notin> occ" and occ1: "occ1 = insert (rec_tag sha r) occ"
    using tag_record_Ok [OF s1 i] by blast
  have ids: "map rec_ident rs1 = map rec_ident rs"
    by (simp add: rs1 map_update r(2)) (metis list_update_id map_update)
  have "\<forall>j \<in> set is. j < length rs1 \<and> auto_base (rs1 ! j) \<noteq> None"
    using Cons.prems(2,3) i(1) by (auto simp: rs1 nth_list_update)
  then have IH: "map rec_ident rs' = map rec_ident rs1"
    "\<forall>j. j \<notin> set is \<longrightarrow> rs' ! j = rs1 ! j"
    "\<forall>j \<in> set is. named sha (rs' ! j) \<and> rec_tag sha (rs' ! j) \<notin> occ1"
    "inj_on (\<lambda>j. rec_tag sha (rs' ! j)) (set is)"
    using Cons.IH [OF s2] Cons.prems(2) by auto
  have "rs' ! i = r" using IH(2) Cons.prems(2) i(1) by (simp add: rs1)
  then show ?case using IH ids r occ1 by (auto simp: rs1)
qed

lemma tag_records_stable:
  assumes "\<forall>i \<in> set is. i < length rs \<and> named sha (rs ! i) \<and> rec_tag sha (rs ! i) \<notin> occ"
    and "inj_on (\<lambda>i. rec_tag sha (rs ! i)) (set is)" and "distinct is"
  shows "\<exists>occ'. fold_r (tag_record sha) is (occ, rs) = Ok (occ', rs)"
  using assms
proof (induction "is" arbitrary: occ)
  case Nil
  then show ?case by simp
next
  case (Cons i "is")
  let ?t = "rec_tag sha (rs ! i)"
  have n: "named sha (rs ! i)" "?t \<notin> occ" using Cons.prems(1) by auto
  obtain b g where o: "name_origin (rs ! i) = Automatic b True g"
    and d: "display_name (rs ! i) = b @ ''-'' @ ?t"
    using n(1) by (auto simp: named_def auto_base_Some)
  have t: "?t = tag_derive sha (dr_device_id (rs ! i)) g" by (simp add: rec_tag_def o)
  have "rs[i := (rs ! i)\<lparr>name_origin := Automatic b True g, display_name := b @ ''-'' @ ?t\<rparr>] = rs"
    using o d by (metis (no_types, lifting) device_record.surjective device_record.update_convs(3,7) list_update_id)
  then have s: "tag_record sha i (occ, rs) = Ok (insert ?t occ, rs)"
    using n(2) unfolding t by (simp add: tag_record_def o Let_def)
  have "\<forall>j \<in> set is. rec_tag sha (rs ! j) \<noteq> ?t"
    using Cons.prems(2,3) by (auto simp: inj_on_def)
  then obtain occ' where "fold_r (tag_record sha) is (insert ?t occ, rs) = Ok (occ', rs)"
    using Cons.IH [of "insert ?t occ"] Cons.prems by (auto simp: inj_on_def)
  then show ?case by (simp add: s)
qed

definition lower_base :: "device_record \<Rightarrow> string option" where
  "lower_base r = map_option to_ascii_lowercase (auto_base r)"

definition idx_of :: "string \<Rightarrow> device_record list \<Rightarrow> nat list" where
  "idx_of k rs = filter (\<lambda>i. lower_base (rs ! i) = Some k) [0..<length rs]"

lemma idx_of_ident: "map rec_ident rs = map rec_ident rs' \<Longrightarrow> idx_of k rs = idx_of k rs'"
proof -
  assume eq: "map rec_ident rs = map rec_ident rs'"
  then have len: "length rs = length rs'" by (metis length_map)
  have "lower_base (rs ! i) = lower_base (rs' ! i)" if "i < length rs" for i
    using arg_cong [OF eq, of "\<lambda>x. x ! i"] that len by (simp add: rec_ident_def lower_base_def)
  with len show ?thesis by (auto simp: idx_of_def intro!: filter_cong)
qed

lemma idx_of_snoc:
  "idx_of k (rs @ [r]) = idx_of k rs @ (if lower_base r = Some k then [length rs] else [])"
  by (auto simp: idx_of_def nth_append intro!: filter_cong)

lemma hostname_groups_snoc:
  "hostname_groups (rs @ [r]) = add_to_group (hostname_groups rs) (length rs, r)"
  by (simp add: hostname_groups_def enumerate_append_eq)

lemma hostname_groups_get:
  "bt_wf (hostname_groups rs) \<and>
   (\<forall>k. bt_get (hostname_groups rs) k = (if idx_of k rs = [] then None else Some (idx_of k rs)))"
proof (induction rs rule: rev_induct)
  case Nil
  then show ?case by (simp add: hostname_groups_def idx_of_def)
next
  case (snoc r rs)
  then show ?case
    by (cases "name_origin r")
       (auto simp: hostname_groups_snoc add_to_group_def idx_of_snoc lower_base_def auto_base_def
         Let_def)
qed

lemma hostname_groups_eq:
  "map snd (hostname_groups rs) = map (\<lambda>k. idx_of k rs) (map fst (hostname_groups rs))"
proof -
  have "is = idx_of k rs" if "(k, is) \<in> set (hostname_groups rs)" for k "is"
    using hostname_groups_get [of rs] bt_wf_getD [OF _ that] by (auto split: if_splits)
  then show ?thesis by auto
qed

lemma hostname_groups_ident:
  assumes "map rec_ident rs = map rec_ident rs'"
  shows "hostname_groups rs = hostname_groups rs'"
  using assms
proof (induction rs arbitrary: rs' rule: rev_induct)
  case Nil
  then show ?case by simp
next
  case (snoc r rs)
  then obtain rs1 r1 where rs': "rs' = rs1 @ [r1]" and eq: "map rec_ident rs = map rec_ident rs1"
    and r: "rec_ident r = rec_ident r1"
    by (cases rs' rule: rev_exhaust) auto
  from eq have len: "length rs = length rs1" by (metis length_map)
  have "hostname_groups rs = hostname_groups rs1" by (rule snoc.IH [OF eq])
  then show ?case using r len
    by (simp add: rs' hostname_groups_snoc add_to_group_def rec_ident_def auto_base_def
        split: device_name_origin.splits)
qed

definition needs_tags :: "device_record list \<Rightarrow> nat list \<Rightarrow> bool" where
  "needs_tags rs is \<longleftrightarrow> length is \<ge> 2 \<or> (\<exists>i \<in> set is. is_tagged (name_origin (rs ! i)))"

definition group_done ::
    "(bytes \<Rightarrow> bytes) \<Rightarrow> device_record list \<Rightarrow> device_record list \<Rightarrow> nat list \<Rightarrow> bool" where
  "group_done sha rs rs' is \<longleftrightarrow>
     (if needs_tags rs is
      then (\<forall>i \<in> set is. named sha (rs' ! i)) \<and> inj_on (\<lambda>i. rec_tag sha (rs' ! i)) (set is)
      else (\<forall>i \<in> set is. rs' ! i = rs ! i))"

lemma idx_of_props:
  "distinct (idx_of k rs) \<and> (\<forall>i \<in> set (idx_of k rs). i < length rs \<and> auto_base (rs ! i) \<noteq> None)"
  by (auto simp: idx_of_def lower_base_def)

lemma name_group_needs:
  "name_group sha sh rs is =
     (if needs_tags rs is
      then (let (st, res) = try_each (tag_record sha)
              (sort_key (\<lambda>i. sh (dr_device_id (rs ! i))) is) ({}, rs) in (snd st, res))
      else (rs, Ok ()))"
  by (auto simp: name_group_def needs_tags_def Let_def list_ex_iff)

lemma name_group_Ok:
  assumes "name_group sha sh rs (idx_of k rs) = (rs', Ok u)"
  shows "map rec_ident rs' = map rec_ident rs
    \<and> (\<forall>i. i \<notin> set (idx_of k rs) \<longrightarrow> rs' ! i = rs ! i) \<and> group_done sha rs rs' (idx_of k rs)"
proof (cases "needs_tags rs (idx_of k rs)")
  case False
  with assms show ?thesis by (simp add: name_group_needs group_done_def)
next
  case True
  let ?is = "sort_key (\<lambda>i. sh (dr_device_id (rs ! i))) (idx_of k rs)"
  obtain occ where f: "fold_r (tag_record sha) ?is ({}, rs) = Ok (occ, rs')"
  proof -
    obtain st res where e: "try_each (tag_record sha) ?is ({}, rs) = (st, res)"
      by (cases "try_each (tag_record sha) ?is ({}, rs)")
    have "snd st = rs'" "res = Ok u" using assms True e by (simp_all add: name_group_needs)
    then have "fold_r (tag_record sha) ?is ({}, rs) = Ok st" using e by (simp add: try_each_Ok)
    then show ?thesis using that [of "fst st"] \<open>snd st = rs'\<close> by (cases st) simp
  qed
  have "distinct ?is" "\<forall>i \<in> set ?is. i < length rs \<and> auto_base (rs ! i) \<noteq> None"
    using idx_of_props [of k rs] by simp_all
  from tag_records_Ok [OF f this] show ?thesis using True by (simp add: group_done_def)
qed

lemma idx_of_disjoint: "k \<noteq> k' \<Longrightarrow> i \<in> set (idx_of k rs) \<Longrightarrow> i \<notin> set (idx_of k' rs)"
  by (auto simp: idx_of_def)

lemma name_groups_Ok:
  assumes "name_groups sha sh (map (\<lambda>k. idx_of k rs) ks) rs = (rs', Ok u)" and "distinct ks"
  shows "map rec_ident rs' = map rec_ident rs
    \<and> (\<forall>i. (\<forall>k \<in> set ks. i \<notin> set (idx_of k rs)) \<longrightarrow> rs' ! i = rs ! i)
    \<and> (\<forall>k \<in> set ks. group_done sha rs rs' (idx_of k rs))"
  using assms
proof (induction ks arbitrary: rs)
  case Nil
  then show ?case by simp
next
  case (Cons k ks)
  obtain rs1 where g: "name_group sha sh rs (idx_of k rs) = (rs1, Ok ())"
    and gs: "name_groups sha sh (map (\<lambda>k. idx_of k rs) ks) rs1 = (rs', Ok u)"
    using Cons.prems(1) by (auto split: prod.splits sum.splits)
  note one = name_group_Ok [OF g]
  then have idx: "idx_of j rs1 = idx_of j rs" for j using idx_of_ident by blast
  have gs1: "name_groups sha sh (map (\<lambda>k. idx_of k rs1) ks) rs1 = (rs', Ok u)"
    using gs by (simp add: idx)
  from Cons.IH [OF gs1] Cons.prems(2)
  have rest: "map rec_ident rs' = map rec_ident rs1"
    "\<And>i. \<forall>j \<in> set ks. i \<notin> set (idx_of j rs) \<Longrightarrow> rs' ! i = rs1 ! i"
    "\<And>j. j \<in> set ks \<Longrightarrow> group_done sha rs1 rs' (idx_of j rs)"
    by (auto simp: idx)
  have first: "rs' ! i = rs1 ! i" if "i \<in> set (idx_of k rs)" for i
    using rest(2) [of i] idx_of_disjoint that Cons.prems(2) by (metis distinct.simps(2))
  have "group_done sha rs rs' (idx_of k rs)"
    using one first by (auto simp: group_done_def inj_on_def)
  moreover have "group_done sha rs rs' (idx_of j rs)" if j: "j \<in> set ks" for j
  proof -
    have "rs1 ! i = rs ! i" if "i \<in> set (idx_of j rs)" for i
      using one idx_of_disjoint [of j k] that j Cons.prems(2) by auto
    then show ?thesis using rest(3) [OF j] by (auto simp: group_done_def needs_tags_def)
  qed
  ultimately show ?case using one rest by auto
qed

lemma policy_Ok:
  assumes "apply_hostname_collision_policy sha sh rs = (rs', Ok u)"
  shows "map rec_ident rs' = map rec_ident rs
    \<and> (\<forall>i < length rs. auto_base (rs ! i) = None \<longrightarrow> rs' ! i = rs ! i)
    \<and> (\<forall>k. group_done sha rs rs' (idx_of k rs))"
proof -
  let ?ks = "map fst (hostname_groups rs)"
  have d: "distinct ?ks" using hostname_groups_get by (blast intro: bt_wf_distinct)
  have g: "name_groups sha sh (map (\<lambda>k. idx_of k rs) ?ks) rs = (rs', Ok u)"
    using assms by (simp add: apply_hostname_collision_policy_def hostname_groups_eq)
  note r = name_groups_Ok [OF g d]
  have "group_done sha rs rs' (idx_of k rs)" for k
  proof (cases "k \<in> set ?ks")
    case True
    then show ?thesis using r by blast
  next
    case False
    then have "bt_get (hostname_groups rs) k = None" by (simp add: bt_get_None)
    then have "idx_of k rs = []" using hostname_groups_get [of rs] by (auto split: if_splits)
    then show ?thesis by (simp add: group_done_def)
  qed
  moreover have "rs' ! i = rs ! i" if "auto_base (rs ! i) = None" for i
    using r idx_of_props [of _ rs] that by metis
  ultimately show ?thesis using r by blast
qed

lemma name_group_stable:
  assumes "group_done sha rs0 rs (idx_of k rs)" and "map rec_ident rs = map rec_ident rs0"
  shows "name_group sha sh rs (idx_of k rs) = (rs, Ok ())"
proof (cases "needs_tags rs0 (idx_of k rs)")
  case True
  let ?is = "sort_key (\<lambda>i. sh (dr_device_id (rs ! i))) (idx_of k rs)"
  have "\<forall>i \<in> set ?is. i < length rs \<and> named sha (rs ! i) \<and> rec_tag sha (rs ! i) \<notin> {}"
    and "inj_on (\<lambda>i. rec_tag sha (rs ! i)) (set ?is)" and "distinct ?is"
    using assms(1) True idx_of_props [of k rs] by (auto simp: group_done_def)
  from tag_records_stable [OF this] obtain occ
    where "fold_r (tag_record sha) ?is ({}, rs) = Ok (occ, rs)" by blast
  then show ?thesis by (simp add: name_group_needs Let_def flip: try_each_Ok [of _ _ _ _ "()"])
next
  case False
  then have "\<not> needs_tags rs (idx_of k rs)"
    using assms(1) by (auto simp: group_done_def needs_tags_def)
  then show ?thesis by (simp add: name_group_needs)
qed

lemma two_members: "i \<in> set is \<Longrightarrow> j \<in> set is \<Longrightarrow> i \<noteq> j \<Longrightarrow> 2 \<le> length is"
  by (cases "is"; cases "tl is") auto

lemma tagged_names_differ:
  "length (t :: string) = 5 \<Longrightarrow> length t' = 5 \<Longrightarrow> t \<noteq> t' \<Longrightarrow> b @ ''-'' @ t \<noteq> b' @ ''-'' @ t'"
  by (metis append.assoc append_eq_append_conv)

text \<open>When the collision policy succeeds, device ids, base names and renamed records are as
  before, and any two automatic records whose hostnames agree up to ASCII case show different
  names, each its base name, a dash and the tag of its device.\<close>

theorem collision_policy_distinct:
  assumes "apply_hostname_collision_policy sha256 show_id rs = (rs', Ok ())"
    and "i < length rs" and "j < length rs" and "i \<noteq> j"
    and "name_origin (rs ! i) = Automatic b t g" and "name_origin (rs ! j) = Automatic b' t' g'"
    and "to_ascii_lowercase b = to_ascii_lowercase b'"
  shows "length rs' = length rs \<and> map dr_device_id rs' = map dr_device_id rs
    \<and> (\<forall>k < length rs. name_origin (rs ! k) = Renamed \<longrightarrow> rs' ! k = rs ! k)
    \<and> display_name (rs' ! i) \<noteq> display_name (rs' ! j)
    \<and> (\<exists>gi. name_origin (rs' ! i) = Automatic b True gi \<and>
         display_name (rs' ! i) = b @ ''-'' @ tag_derive sha256 (dr_device_id (rs ! i)) gi)"
proof -
  note r = policy_Ok [OF assms(1)]
  have ids: "map rec_ident rs' = map rec_ident rs" using r by blast
  then have len: "length rs' = length rs" by (metis length_map)
  have ident: "rec_ident (rs' ! n) = rec_ident (rs ! n)" if "n < length rs" for n
    using arg_cong [OF ids, of "\<lambda>x. x ! n"] that len by simp
  let ?k = "to_ascii_lowercase b"
  have mem: "i \<in> set (idx_of ?k rs)" "j \<in> set (idx_of ?k rs)"
    using assms(2-7) by (simp_all add: idx_of_def lower_base_def auto_base_def)
  then have "needs_tags rs (idx_of ?k rs)"
    using two_members [OF mem assms(4)] by (simp add: needs_tags_def)
  moreover have "group_done sha256 rs rs' (idx_of ?k rs)" using r by blast
  ultimately have n: "named sha256 (rs' ! i)" "named sha256 (rs' ! j)"
    and inj: "inj_on (\<lambda>i. rec_tag sha256 (rs' ! i)) (set (idx_of ?k rs))"
    using mem by (simp_all add: group_done_def)
  have differ: "rec_tag sha256 (rs' ! i) \<noteq> rec_tag sha256 (rs' ! j)"
    using inj_onD [OF inj _ mem] assms(4) by blast
  have tags: "\<exists>g. name_origin (rs' ! m) = Automatic c True g
      \<and> rec_tag sha256 (rs' ! m) = tag_derive sha256 (dr_device_id (rs ! m)) g
      \<and> display_name (rs' ! m) = c @ ''-'' @ rec_tag sha256 (rs' ! m)"
    if "named sha256 (rs' ! m)" "m < length rs" "auto_base (rs ! m) = Some c" for m c
  proof -
    have id: "dr_device_id (rs' ! m) = dr_device_id (rs ! m)" "auto_base (rs' ! m) = Some c"
      using ident [OF that(2)] that(3) by (simp_all add: rec_ident_def)
    then obtain t g where "name_origin (rs' ! m) = Automatic c t g" by (auto simp: auto_base_Some)
    then show ?thesis using that(1) id by (simp add: named_def rec_tag_def)
  qed
  obtain gi where gi: "name_origin (rs' ! i) = Automatic b True gi"
    "rec_tag sha256 (rs' ! i) = tag_derive sha256 (dr_device_id (rs ! i)) gi"
    "display_name (rs' ! i) = b @ ''-'' @ rec_tag sha256 (rs' ! i)"
    using tags [OF n(1) assms(2), of b] assms(5) by (auto simp: auto_base_def)
  obtain gj where gj: "rec_tag sha256 (rs' ! j) = tag_derive sha256 (dr_device_id (rs ! j)) gj"
    "display_name (rs' ! j) = b' @ ''-'' @ rec_tag sha256 (rs' ! j)"
    using tags [OF n(2) assms(3), of b'] assms(6) by (auto simp: auto_base_def)
  have "display_name (rs' ! i) \<noteq> display_name (rs' ! j)"
    unfolding gi(3) gj(2)
    by (rule tagged_names_differ) (use differ tag_derive_props in \<open>simp_all add: gi(2) gj(1)\<close>)
  moreover have "map dr_device_id rs' = map dr_device_id rs"
    using arg_cong [OF ids, of "map fst"] by (simp add: rec_ident_def comp_def)
  moreover have "rs' ! k = rs ! k" if "k < length rs" "name_origin (rs ! k) = Renamed" for k
    using r that by (simp add: auto_base_def)
  ultimately show ?thesis using len gi by auto
qed

text \<open>The collision policy is idempotent: run again on its own result it succeeds and
  changes nothing, so an assigned name is stable.\<close>

theorem collision_policy_idempotent:
  assumes "apply_hostname_collision_policy sha256 show_id rs = (rs', Ok ())"
  shows "apply_hostname_collision_policy sha256 show_id rs' = (rs', Ok ())"
proof -
  note r = policy_Ok [OF assms]
  have ids: "map rec_ident rs' = map rec_ident rs" using r by blast
  have g: "name_group sha256 show_id rs' (idx_of k rs') = (rs', Ok ())" for k
    using name_group_stable [of sha256 rs rs' k show_id] r idx_of_ident [OF ids] by simp
  have "name_groups sha256 show_id (map (\<lambda>k. idx_of k rs') ks) rs' = (rs', Ok ())" for ks
    by (induction ks) (simp_all add: g)
  then show ?thesis
    unfolding apply_hostname_collision_policy_def hostname_groups_eq by blast
qed

subsection \<open>Witnesses\<close>

definition two_hosts :: "device_record list" where
  "two_hosts =
     map (\<lambda>i. \<lparr>dr_device_id = i, dr_site_id = 1, display_name = ''lab'', hostname_observed = ''lab'',
       dr_capabilities = EXECUTE_ONLY, enrolled_via_invite_id = 1,
       name_origin = Automatic ''lab'' True 0\<rparr>) [0x10000000, 0x20000000]"

lemma tag_encode_numeral:
  "tag_encode (numeral k) v =
     tag_encode (pred_numeral k) (drop_bit 5 v) @ [CROCKFORD_BASE32 ! unat (and v 31)]"
  unfolding numeral_eq_Suc [of k] by simp

lemma two_hosts_tags:
  "tag_derive (drop 31) 0x10000000 0 = ''20000''" "tag_derive (drop 31) 0x20000000 0 = ''40000''"
  by (simp_all add: tag_derive_def DEVICE_TAG_DOMAIN_def id_as_bytes_def u32_to_be_def
      u32_from_be_def DEVICE_TAG_LEN_def nat_be_numeral be_nat_def CROCKFORD_BASE32_def
      tag_encode_numeral)

lemma two_hosts_groups: "hostname_groups two_hosts = [(''lab'', [0, 1])]"
  by (simp add: two_hosts_def hostname_groups_def add_to_group_def ascii_lower_char_def ascii_defs)

lemma two_hosts_named:
  "apply_hostname_collision_policy (drop 31) (\<lambda>_. []) two_hosts =
     (map2 (\<lambda>r n. r\<lparr>display_name := n\<rparr>) two_hosts [''lab-20000'', ''lab-40000''], Ok ())"
  unfolding apply_hostname_collision_policy_def two_hosts_groups
  by (simp add: name_group_def two_hosts_def tag_record_def two_hosts_tags Let_def)

lemma allocate_device_tag_sound_witness:
  "tag_from_str (tag_derive (drop 31) 0x10000000 0) = Ok ''20000''"
proof -
  have "allocate_attempts (drop 31) 0x10000000 0 (\<lambda>t. t = ''40000'') (0 # offsets) =
      Ok (''20000'', 0)" for offsets
    by (simp add: checked_add_def two_hosts_tags)
  then have "allocate_device_tag (drop 31) 0x10000000 0 (\<lambda>t. t = ''40000'') = Ok (''20000'', 0)"
    unfolding allocate_device_tag_def MAX_DEVICE_TAG_ATTEMPTS_def
    by (simp only: upt_conv_Cons [OF zero_less_numeral])
  then show ?thesis using allocate_device_tag_sound two_hosts_tags(1) by metis
qed

lemma collision_policy_idempotent_witness:
  "let rs' = map2 (\<lambda>r n. r\<lparr>display_name := n\<rparr>) two_hosts [''lab-20000'', ''lab-40000''] in
   apply_hostname_collision_policy (drop 31) (\<lambda>_. []) rs' = (rs', Ok ())"
  unfolding Let_def by (rule collision_policy_idempotent [OF two_hosts_named])

lemma collision_policy_distinct_witness:
  "display_name (fst (apply_hostname_collision_policy (drop 31) (\<lambda>_. []) two_hosts) ! 0)
   \<noteq> display_name (fst (apply_hostname_collision_policy (drop 31) (\<lambda>_. []) two_hosts) ! 1)"
  using collision_policy_distinct [OF two_hosts_named, of 0 1 "''lab''" True 0 "''lab''" True 0]
  unfolding two_hosts_named by (simp add: two_hosts_def two_hosts_tags)

end
