(* ===== verification/State_Codec.thy ===== *)
theory State_Codec
  imports Core_Model
begin

section \<open>State documents and their layout (clew-core, state.rs)\<close>

text \<open>
  Durable state is a JSON envelope with a schema version and a hard size bound, at paths fixed
  by \<^verbatim>\<open>StateLayout\<close>. The JSON library is a parameter: a writer and the two readers the code
  uses. Paths are Unix paths, joined as \<^verbatim>\<open>PathBuf::join\<close> does.
\<close>

subsection \<open>The codec\<close>

definition STATE_SCHEMA_VERSION :: u32 where "STATE_SCHEMA_VERSION = 1"
definition MAX_STATE_DOCUMENT_SIZE :: nat where
  [bounds_simps]: "MAX_STATE_DOCUMENT_SIZE = 16 * 1024 * 1024"

record 'a state_envelope =
  se_schema_version :: u32
  se_payload :: 'a

definition envelope_new :: "'a \<Rightarrow> 'a state_envelope" where
  "envelope_new p = \<lparr>se_schema_version = STATE_SCHEMA_VERSION, se_payload = p\<rparr>"

datatype state_codec_error =
    DocumentTooLarge usize nat
  | StateJson json_error
  | UnsupportedSchemaVersion u32 u32

definition check_document_size :: "usize \<Rightarrow> (state_codec_error, unit) result" where
  "check_document_size actual =
     (if actual > MAX_STATE_DOCUMENT_SIZE
      then Err (DocumentTooLarge actual MAX_STATE_DOCUMENT_SIZE) else Ok ())"

record 'a state_json =
  to_vec_pretty :: "'a state_envelope \<Rightarrow> (json_error, bytes) result"
  from_slice_header :: "bytes \<Rightarrow> (json_error, u32) result"
  from_slice_envelope :: "bytes \<Rightarrow> (json_error, 'a state_envelope) result"

definition encode_state_json :: "'a state_json \<Rightarrow> 'a \<Rightarrow> (state_codec_error, bytes) result" where
  "encode_state_json j payload =
     bind_r (map_err StateJson (to_vec_pretty j (envelope_new payload))) (\<lambda>encoded.
       bind_r (check_document_size (length encoded)) (\<lambda>_. Ok encoded))"

definition decode_state_json :: "'a state_json \<Rightarrow> bytes \<Rightarrow> (state_codec_error, 'a) result" where
  "decode_state_json j input =
     bind_r (check_document_size (length input)) (\<lambda>_.
     bind_r (map_err StateJson (from_slice_header j input)) (\<lambda>version.
       if version \<noteq> STATE_SCHEMA_VERSION
       then Err (UnsupportedSchemaVersion version STATE_SCHEMA_VERSION)
       else bind_r (map_err StateJson (from_slice_envelope j input)) (\<lambda>envelope.
         Ok (se_payload envelope))))"

text \<open>What the JSON library promises for one value: the document it writes reads back, as the
  envelope and as its header.\<close>

definition state_json_faithful :: "'a state_json \<Rightarrow> 'a \<Rightarrow> bool" where
  "state_json_faithful j p \<longleftrightarrow>
     (case to_vec_pretty j (envelope_new p) of
        Inl _ \<Rightarrow> True
      | Inr b \<Rightarrow> from_slice_envelope j b = Ok (envelope_new p)
               \<and> from_slice_header j b = Ok STATE_SCHEMA_VERSION)"

lemma check_document_size_Ok [result_simps]:
  "check_document_size n = Ok u \<longleftrightarrow> n \<le> 16777216"
  by (auto simp: check_document_size_def bounds_simps)

lemma encode_state_json_Ok:
  "encode_state_json j p = Ok b \<longleftrightarrow>
     to_vec_pretty j (envelope_new p) = Ok b \<and> length b \<le> 16777216"
  by (auto simp: encode_state_json_def result_simps)

lemma decode_state_json_Ok:
  "decode_state_json j b = Ok p \<longleftrightarrow>
     length b \<le> 16777216 \<and> from_slice_header j b = Ok STATE_SCHEMA_VERSION
   \<and> (\<exists>e. from_slice_envelope j b = Ok e \<and> se_payload e = p)"
  by (auto simp: decode_state_json_def result_simps)

lemma state_json_roundtrip:
  "encode_state_json j p = Ok b \<Longrightarrow> state_json_faithful j p \<Longrightarrow> decode_state_json j b = Ok p"
  by (auto simp: encode_state_json_Ok decode_state_json_Ok state_json_faithful_def envelope_new_def)

text \<open>State documents round-trip: what encodes within the size bound decodes to the same
  payload, and a document whose header names another schema version is refused with both
  versions, whatever its payload is.\<close>

theorem state_document_roundtrip:
  assumes "state_json_faithful j p" and "encode_state_json j p = Ok b"
    and "from_slice_header j b' = Ok v" and "v \<noteq> STATE_SCHEMA_VERSION"
    and "length b' \<le> MAX_STATE_DOCUMENT_SIZE"
  shows "decode_state_json j b = Ok p \<and> length b \<le> MAX_STATE_DOCUMENT_SIZE
    \<and> decode_state_json j b' = Err (UnsupportedSchemaVersion v STATE_SCHEMA_VERSION)"
  using assms state_json_roundtrip [OF assms(2,1)]
  by (simp add: encode_state_json_Ok decode_state_json_def check_document_size_def bounds_simps)

subsection \<open>Paths\<close>

definition is_absolute :: "string \<Rightarrow> bool" where
  "is_absolute p \<longleftrightarrow> take 1 p = ''/''"

definition path_join :: "string \<Rightarrow> string \<Rightarrow> string" where
  "path_join base p =
     (if is_absolute p then p
      else if base = [] \<or> last base = CHR ''/'' then base @ p
      else base @ ''/'' @ p)"

lemma path_join_rel:
  "\<not> is_absolute p \<Longrightarrow>
     path_join b p = b @ (if b = [] \<or> last b = CHR ''/'' then [] else ''/'') @ p"
  by (simp add: path_join_def)

lemma path_join_inj:
  "\<not> is_absolute p \<Longrightarrow> \<not> is_absolute q \<Longrightarrow> path_join b p = path_join b q \<longleftrightarrow> p = q"
  by (simp add: path_join_rel)

subsection \<open>The layout\<close>

definition STATE_LAYOUT_VERSION_DIR :: string where "STATE_LAYOUT_VERSION_DIR = ''v1''"

definition version_root :: "string \<Rightarrow> string" where
  "version_root root = path_join root STATE_LAYOUT_VERSION_DIR"
definition controller_state_path :: "string \<Rightarrow> string" where
  "controller_state_path root = path_join (version_root root) ''controller.json''"
definition controller_lock_path :: "string \<Rightarrow> string" where
  "controller_lock_path root = path_join (version_root root) ''controller.lock''"
definition local_api_secret_path :: "string \<Rightarrow> string" where
  "local_api_secret_path root = path_join (version_root root) ''local-api.secret''"
definition local_api_socket_path :: "string \<Rightarrow> string" where
  "local_api_socket_path root = path_join (version_root root) ''controller.sock''"
definition controller_control_slot_a_path :: "string \<Rightarrow> string" where
  "controller_control_slot_a_path root = path_join (version_root root) ''controller-control.a.json''"
definition controller_control_slot_b_path :: "string \<Rightarrow> string" where
  "controller_control_slot_b_path root = path_join (version_root root) ''controller-control.b.json''"
definition controller_file_transfer_slot_a_path :: "string \<Rightarrow> string" where
  "controller_file_transfer_slot_a_path root =
     path_join (version_root root) ''controller-file-transfers.a.json''"
definition controller_file_transfer_slot_b_path :: "string \<Rightarrow> string" where
  "controller_file_transfer_slot_b_path root =
     path_join (version_root root) ''controller-file-transfers.b.json''"
definition controller_directory_transfer_slot_a_path :: "string \<Rightarrow> string" where
  "controller_directory_transfer_slot_a_path root =
     path_join (version_root root) ''controller-directory-transfers.a.json''"
definition controller_directory_transfer_slot_b_path :: "string \<Rightarrow> string" where
  "controller_directory_transfer_slot_b_path root =
     path_join (version_root root) ''controller-directory-transfers.b.json''"
definition outfit_library_slot_a_path :: "string \<Rightarrow> string" where
  "outfit_library_slot_a_path root = path_join (version_root root) ''outfit-library.a.json''"
definition outfit_library_slot_b_path :: "string \<Rightarrow> string" where
  "outfit_library_slot_b_path root = path_join (version_root root) ''outfit-library.b.json''"
definition outfit_assets_root :: "string \<Rightarrow> string" where
  "outfit_assets_root root = path_join (version_root root) ''outfit-assets''"
definition client_flavor_artifacts_root :: "string \<Rightarrow> string" where
  "client_flavor_artifacts_root root = path_join (version_root root) ''client-flavors''"

definition membership_dir ::
    "(uuid \<Rightarrow> string) \<Rightarrow> string \<Rightarrow> controller_id \<Rightarrow> site_id \<Rightarrow> string" where
  "membership_dir show_id root c s =
     path_join (path_join (path_join (version_root root) ''memberships'') (show_id c)) (show_id s)"

definition host_path ::
    "(uuid \<Rightarrow> string) \<Rightarrow> string \<Rightarrow> controller_id \<Rightarrow> site_id \<Rightarrow> string \<Rightarrow> string" where
  "host_path show_id root c s name =
     path_join (path_join (membership_dir show_id root c s) ''host'') name"

definition pending_device_identity_path where
  "pending_device_identity_path show_id root c s =
     host_path show_id root c s ''device-key.pending.json''"
definition active_device_identity_path where
  "active_device_identity_path show_id root c s = host_path show_id root c s ''device-key.json''"
definition pending_controller_activation_path where
  "pending_controller_activation_path show_id root c s =
     host_path show_id root c s ''controller-activation.pending.json''"
definition host_membership_marker_path where
  "host_membership_marker_path show_id root c s = host_path show_id root c s ''membership.json''"
definition nearby_connector_import_path where
  "nearby_connector_import_path show_id root c s =
     host_path show_id root c s ''nearby-connector.import.json''"
definition nearby_connector_export_path where
  "nearby_connector_export_path show_id root c s =
     host_path show_id root c s ''nearby-connector.export.json''"
definition host_file_transfers_root where
  "host_file_transfers_root show_id root c s = host_path show_id root c s ''file-transfers''"
definition host_managed_fs_root where
  "host_managed_fs_root show_id root c s d =
     path_join (host_path show_id root c s ''managed-fs'') (show_id d)"
definition device_record_path where
  "device_record_path show_id root c s d =
     path_join (path_join (membership_dir show_id root c s) ''devices'') (show_id d @ ''.json'')"

definition controller_paths :: "string \<Rightarrow> string list" where
  "controller_paths root =
     [controller_state_path root, controller_lock_path root, local_api_secret_path root,
      local_api_socket_path root, controller_control_slot_a_path root,
      controller_control_slot_b_path root, controller_file_transfer_slot_a_path root,
      controller_file_transfer_slot_b_path root, controller_directory_transfer_slot_a_path root,
      controller_directory_transfer_slot_b_path root, outfit_library_slot_a_path root,
      outfit_library_slot_b_path root, outfit_assets_root root,
      client_flavor_artifacts_root root]"

definition host_paths ::
    "(uuid \<Rightarrow> string) \<Rightarrow> string \<Rightarrow> controller_id \<Rightarrow> site_id \<Rightarrow> string list" where
  "host_paths show_id root c s =
     [pending_device_identity_path show_id root c s, active_device_identity_path show_id root c s,
      pending_controller_activation_path show_id root c s,
      host_membership_marker_path show_id root c s, nearby_connector_import_path show_id root c s,
      nearby_connector_export_path show_id root c s, host_file_transfers_root show_id root c s]"

lemmas layout_defs = controller_state_path_def controller_lock_path_def
  local_api_secret_path_def local_api_socket_path_def controller_control_slot_a_path_def
  controller_control_slot_b_path_def controller_file_transfer_slot_a_path_def
  controller_file_transfer_slot_b_path_def controller_directory_transfer_slot_a_path_def
  controller_directory_transfer_slot_b_path_def outfit_library_slot_a_path_def
  outfit_library_slot_b_path_def outfit_assets_root_def client_flavor_artifacts_root_def

lemmas host_layout_defs = pending_device_identity_path_def active_device_identity_path_def
  pending_controller_activation_path_def host_membership_marker_path_def
  nearby_connector_import_path_def nearby_connector_export_path_def host_file_transfers_root_def

lemma path_join_name [simp]:
  "p \<noteq> [] \<Longrightarrow> hd p \<noteq> CHR ''/'' \<Longrightarrow>
     path_join b p = b @ (if b = [] \<or> last b = CHR ''/'' then [] else ''/'') @ p"
  by (cases p) (auto simp: path_join_def is_absolute_def)

text \<open>The documented textual form of an id: hyphenated, thirty-six characters, no slash.\<close>

definition show_id_ok :: "(uuid \<Rightarrow> string) \<Rightarrow> uuid list \<Rightarrow> bool" where
  "show_id_ok show_id ids \<longleftrightarrow>
     (\<forall>u \<in> set ids. length (show_id u) = 36 \<and> CHR ''/'' \<notin> set (show_id u))
   \<and> inj_on show_id (set ids)"

lemma show_id_okD:
  assumes "show_id_ok show_id ids" and "u \<in> set ids"
  shows "show_id u \<noteq> [] \<and> hd (show_id u) \<noteq> CHR ''/'' \<and> last (show_id u) \<noteq> CHR ''/''"
proof -
  have "show_id u \<noteq> []" using assms by (force simp: show_id_ok_def)
  then show ?thesis using assms by (metis hd_in_set last_in_set show_id_ok_def)
qed

lemma membership_dir_eq:
  assumes "show_id_ok show_id ids" and "c \<in> set ids" and "s \<in> set ids"
  shows "membership_dir show_id root c s =
    version_root root @ ''/memberships/'' @ show_id c @ ''/'' @ show_id s"
  using show_id_okD [OF assms(1,2)] show_id_okD [OF assms(1,3)]
  by (simp add: membership_dir_def version_root_def STATE_LAYOUT_VERSION_DIR_def)

text \<open>The layout never maps two documents to one path: the controller's files and slots are
  pairwise distinct, the files of one membership are pairwise distinct, and two memberships
  never share a file.\<close>

theorem layout_paths_distinct:
  assumes "show_id_ok show_id [c, s, c', s']"
  shows "distinct (controller_paths root) \<and> distinct (host_paths show_id root c s)
    \<and> ((c, s) \<noteq> (c', s') \<longrightarrow>
        set (host_paths show_id root c s) \<inter> set (host_paths show_id root c' s') = {})"
proof -
  have ctl: "distinct (controller_paths root)"
    by (simp add: controller_paths_def layout_defs version_root_def STATE_LAYOUT_VERSION_DIR_def)
  note d = membership_dir_eq [OF assms]
  have dirs: "last (membership_dir show_id root a b) \<noteq> CHR ''/''" "membership_dir show_id root a b \<noteq> []"
    if "a \<in> {c, c'}" "b \<in> {s, s'}" for a b
    using that d [of a b] show_id_okD [OF assms, of b] by auto
  have hp: "host_path show_id root a b n = membership_dir show_id root a b @ ''/host/'' @ n"
    if "a \<in> {c, c'}" "b \<in> {s, s'}" "n \<noteq> []" "hd n \<noteq> CHR ''/''" for a b n
    using dirs [OF that(1,2)] that(3,4) by (simp add: host_path_def)
  let ?names = "[''device-key.pending.json'', ''device-key.json'', ''controller-activation.pending.json'',
    ''membership.json'', ''nearby-connector.import.json'', ''nearby-connector.export.json'',
    ''file-transfers'']"
  have names: "n \<noteq> [] \<and> hd n \<noteq> CHR ''/''" if "n \<in> set ?names" for n using that by auto
  have paths: "host_paths show_id root a b = map (\<lambda>n. membership_dir show_id root a b @ ''/host/'' @ n) ?names"
    if "a \<in> {c, c'}" "b \<in> {s, s'}" for a b
    unfolding host_paths_def host_layout_defs using hp [OF that] by simp
  have "inj_on (\<lambda>n. membership_dir show_id root c s @ ''/host/'' @ n) (set ?names)"
    by (simp add: inj_on_def)
  moreover have "distinct ?names" by simp
  ultimately have hd: "distinct (host_paths show_id root c s)"
    using paths [of c s] unfolding distinct_map by (simp only: distinct_map insertI1)
  have differ: "membership_dir show_id root c s @ x \<noteq> membership_dir show_id root c' s' @ y"
    if "(c, s) \<noteq> (c', s')" for x y
    using that assms d [of c s] d [of c' s']
    by (auto simp: show_id_ok_def append_eq_append_conv inj_on_def)
  have sub: "\<exists>y. x = membership_dir show_id root a b @ y"
    if "x \<in> set (host_paths show_id root a b)" "a \<in> {c, c'}" "b \<in> {s, s'}" for x a b
    using that(1) unfolding paths [OF that(2,3)] set_map by blast
  have "set (host_paths show_id root c s) \<inter> set (host_paths show_id root c' s') = {}"
    if ne: "(c, s) \<noteq> (c', s')"
  proof (rule equals0I)
    fix x assume "x \<in> set (host_paths show_id root c s) \<inter> set (host_paths show_id root c' s')"
    then show False using sub [of x c s] sub [of x c' s'] differ [OF ne] by blast
  qed
  then show ?thesis using ctl hd by blast
qed

subsection \<open>Witnesses\<close>

definition unit_json :: "unit state_json" where
  "unit_json =
     \<lparr>to_vec_pretty = \<lambda>_. Ok [1], from_slice_header = \<lambda>b. Ok (if b = [1] then 1 else 2),
      from_slice_envelope = \<lambda>_. Ok (envelope_new ())\<rparr>"

lemma state_document_roundtrip_witness:
  "decode_state_json unit_json [1] = Ok () \<and> length [1 :: u8] \<le> MAX_STATE_DOCUMENT_SIZE
   \<and> decode_state_json unit_json [] = Err (UnsupportedSchemaVersion 2 STATE_SCHEMA_VERSION)"
  by (rule state_document_roundtrip)
     (simp_all add: unit_json_def state_json_faithful_def encode_state_json_Ok
       STATE_SCHEMA_VERSION_def bounds_simps)

lemma layout_paths_distinct_witness:
  "set (host_paths (\<lambda>u. replicate 36 (if u = 1 then CHR ''1'' else CHR ''2'')) ''/s'' 1 1)
   \<inter> set (host_paths (\<lambda>u. replicate 36 (if u = 1 then CHR ''1'' else CHR ''2'')) ''/s'' 2 1) = {}"
proof -
  have "show_id_ok (\<lambda>u. replicate 36 (if u = 1 then CHR ''1'' else CHR ''2'')) [1, 1, 2, 1]"
    by (auto simp: show_id_ok_def inj_on_def replicate_eq_replicate)
  from layout_paths_distinct [OF this] show ?thesis by simp
qed

end
