(* ===== verification/Keys.thy ===== *)
theory Keys
  imports Core_Model
begin

section \<open>Identities and domain-separated signatures (clew-identity, keys.rs)\<close>

text \<open>
  Controller and device identities, the controller id derived from a public key, and the
  signatures, each over a domain string followed by the JSON of the payload. Hashing and
  Ed25519 are third-party code: the record \<open>crypto\<close> holds what the program calls. A payload is
  passed as the result of its JSON encoding.
\<close>

record crypto =
  sha256_digest :: "bytes \<Rightarrow> bytes"
  verifying_key_bytes :: "bytes \<Rightarrow> bytes"
  point_decodes :: "bytes \<Rightarrow> bool"
  key_is_weak :: "bytes \<Rightarrow> bool"
  ed_sign :: "bytes \<Rightarrow> bytes \<Rightarrow> bytes"
  ed_verify_strict :: "bytes \<Rightarrow> bytes \<Rightarrow> bytes \<Rightarrow> bool"

definition CONTROLLER_ID_DOMAIN :: bytes where
  "CONTROLLER_ID_DOMAIN = as_bytes ''clew/controller-id/v1'' @ [0]"
definition SITE_CONFIG_SIGNATURE_DOMAIN :: bytes where
  "SITE_CONFIG_SIGNATURE_DOMAIN = as_bytes ''clew/site-config-signature/v1'' @ [0]"
definition SESSION_BINDING_SIGNATURE_DOMAIN :: bytes where
  "SESSION_BINDING_SIGNATURE_DOMAIN = as_bytes ''clew/inner-session-binding/v1'' @ [0]"
definition CONNECTOR_LEASE_SIGNATURE_DOMAIN :: bytes where
  "CONNECTOR_LEASE_SIGNATURE_DOMAIN = as_bytes ''clew/connector-lease/v1'' @ [0]"
definition BOOTSTRAP_SIGNATURE_DOMAIN :: bytes where
  "BOOTSTRAP_SIGNATURE_DOMAIN = as_bytes ''clew/site-bootstrap-signature/v1'' @ [0]"

type_synonym 'a encoded = "(json_error, bytes) result"

datatype identity_error =
    RandomFailed string
  | InvalidPublicKey
  | WeakPublicKey
  | ControllerIdMismatch
  | InvalidSignatureLength usize
  | InvalidSignature
  | IdentityJson json_error
  | IdentityStableId stable_id_error

record controller_public_identity =
  cp_controller_id :: controller_id
  cp_public_key :: bytes

record controller_identity =
  ci_signing_key :: bytes

record device_identity =
  di_signing_key :: bytes

record device_public_identity =
  dp_public_key :: bytes

definition signed_message ::
    "bytes \<Rightarrow> (json_error, bytes) result \<Rightarrow> (identity_error, bytes) result" where
  "signed_message domain payload =
     bind_r (map_err IdentityJson payload) (\<lambda>encoded. Ok (domain @ encoded))"

definition controller_id_from_public_key ::
    "crypto \<Rightarrow> bytes \<Rightarrow> (stable_id_error, controller_id) result" where
  "controller_id_from_public_key cr public_key =
     (let digest = sha256_digest cr (CONTROLLER_ID_DOMAIN @ public_key);
          bs = take 16 digest;
          bs = bs[6 := or (and (bs ! 6) 0x0f) 0x80];
          bs = bs[8 := or (and (bs ! 8) 0x3f) 0x80] in
      id_from_bytes bs)"

definition controller_from_secret :: "bytes \<Rightarrow> controller_identity" where
  "controller_from_secret secret = \<lparr>ci_signing_key = secret\<rparr>"

text \<open>\<open>None\<close> is the panic of the \<^verbatim>\<open>expect\<close> in \<^verbatim>\<open>ControllerIdentity::controller_id\<close>.\<close>

definition controller_identity_id :: "crypto \<Rightarrow> controller_identity \<Rightarrow> controller_id option" where
  "controller_identity_id cr ci =
     (case controller_id_from_public_key cr (verifying_key_bytes cr (ci_signing_key ci)) of
        Inl _ \<Rightarrow> None | Inr i \<Rightarrow> Some i)"

definition controller_public :: "crypto \<Rightarrow> controller_identity \<Rightarrow> controller_public_identity option" where
  "controller_public cr ci =
     map_option (\<lambda>i. \<lparr>cp_controller_id = i,
        cp_public_key = verifying_key_bytes cr (ci_signing_key ci)\<rparr>) (controller_identity_id cr ci)"

definition controller_sign_payload ::
    "crypto \<Rightarrow> controller_identity \<Rightarrow> bytes \<Rightarrow> (json_error, bytes) result
     \<Rightarrow> (identity_error, bytes) result" where
  "controller_sign_payload cr ci domain payload =
     bind_r (signed_message domain payload) (\<lambda>message. Ok (ed_sign cr (ci_signing_key ci) message))"

definition sign_site_config where
  "sign_site_config cr ci payload = controller_sign_payload cr ci SITE_CONFIG_SIGNATURE_DOMAIN payload"
definition sign_session_binding where
  "sign_session_binding cr ci payload =
     controller_sign_payload cr ci SESSION_BINDING_SIGNATURE_DOMAIN payload"
definition sign_connector_lease where
  "sign_connector_lease cr ci payload =
     controller_sign_payload cr ci CONNECTOR_LEASE_SIGNATURE_DOMAIN payload"

definition controller_validate ::
    "crypto \<Rightarrow> controller_public_identity \<Rightarrow> (identity_error, unit) result" where
  "controller_validate cr cp =
     bind_r (map_err IdentityStableId (controller_id_from_public_key cr (cp_public_key cp)))
       (\<lambda>expected.
          if expected \<noteq> cp_controller_id cp then Err ControllerIdMismatch
          else if \<not> point_decodes cr (cp_public_key cp) then Err InvalidPublicKey
          else if key_is_weak cr (cp_public_key cp) then Err WeakPublicKey
          else Ok ())"

text \<open>The checks of a signature under a decoded key, shared by controller and device.\<close>

definition verify_with_key ::
    "crypto \<Rightarrow> bytes \<Rightarrow> bytes \<Rightarrow> (json_error, bytes) result \<Rightarrow> bytes \<Rightarrow> (identity_error, unit) result" where
  "verify_with_key cr key domain payload signature =
     (if \<not> point_decodes cr key then Err InvalidPublicKey
      else if length signature \<noteq> 64 then Err (InvalidSignatureLength (length signature))
      else bind_r (signed_message domain payload) (\<lambda>message.
        if ed_verify_strict cr key message signature then Ok () else Err InvalidSignature))"

definition controller_verify_payload ::
    "crypto \<Rightarrow> controller_public_identity \<Rightarrow> bytes \<Rightarrow> (json_error, bytes) result \<Rightarrow> bytes
     \<Rightarrow> (identity_error, unit) result" where
  "controller_verify_payload cr cp domain payload signature =
     bind_r (controller_validate cr cp) (\<lambda>_.
       verify_with_key cr (cp_public_key cp) domain payload signature)"

definition verify_site_config where
  "verify_site_config cr cp payload sig =
     controller_verify_payload cr cp SITE_CONFIG_SIGNATURE_DOMAIN payload sig"
definition controller_verify_session_binding where
  "controller_verify_session_binding cr cp payload sig =
     controller_verify_payload cr cp SESSION_BINDING_SIGNATURE_DOMAIN payload sig"
definition verify_connector_lease where
  "verify_connector_lease cr cp payload sig =
     controller_verify_payload cr cp CONNECTOR_LEASE_SIGNATURE_DOMAIN payload sig"

definition matches_pin :: "controller_public_identity \<Rightarrow> controller_public_identity \<Rightarrow> bool" where
  "matches_pin a b \<longleftrightarrow> a = b"

definition device_from_secret :: "bytes \<Rightarrow> device_identity" where
  "device_from_secret secret = \<lparr>di_signing_key = secret\<rparr>"

definition device_public :: "crypto \<Rightarrow> device_identity \<Rightarrow> device_public_identity" where
  "device_public cr d = \<lparr>dp_public_key = verifying_key_bytes cr (di_signing_key d)\<rparr>"

definition device_sign_session_binding ::
    "crypto \<Rightarrow> device_identity \<Rightarrow> (json_error, bytes) result \<Rightarrow> (identity_error, bytes) result" where
  "device_sign_session_binding cr d payload =
     bind_r (signed_message SESSION_BINDING_SIGNATURE_DOMAIN payload) (\<lambda>message.
       Ok (ed_sign cr (di_signing_key d) message))"

definition device_validate ::
    "crypto \<Rightarrow> device_public_identity \<Rightarrow> (identity_error, unit) result" where
  "device_validate cr dp =
     (if \<not> point_decodes cr (dp_public_key dp) then Err InvalidPublicKey
      else if key_is_weak cr (dp_public_key dp) then Err WeakPublicKey
      else Ok ())"

definition device_verify_session_binding ::
    "crypto \<Rightarrow> device_public_identity \<Rightarrow> (json_error, bytes) result \<Rightarrow> bytes
     \<Rightarrow> (identity_error, unit) result" where
  "device_verify_session_binding cr dp payload signature =
     bind_r (device_validate cr dp) (\<lambda>_.
       verify_with_key cr (dp_public_key dp) SESSION_BINDING_SIGNATURE_DOMAIN payload signature)"

subsection \<open>What the libraries promise\<close>

text \<open>SHA-256 yields thirty-two bytes; a key pair made from a secret has a public key of
  thirty-two bytes that decodes, signatures of sixty-four bytes, and its own signatures verify.\<close>

definition sha256_ok :: "crypto \<Rightarrow> bool" where
  "sha256_ok cr \<longleftrightarrow> (\<forall>x. length (sha256_digest cr x) = 32)"

definition ed25519_key_ok :: "crypto \<Rightarrow> bytes \<Rightarrow> bool" where
  "ed25519_key_ok cr sk \<longleftrightarrow>
     point_decodes cr (verifying_key_bytes cr sk) \<and> \<not> key_is_weak cr (verifying_key_bytes cr sk)
   \<and> (\<forall>m. length (ed_sign cr sk m) = 64
        \<and> ed_verify_strict cr (verifying_key_bytes cr sk) m (ed_sign cr sk m))"

subsection \<open>Lemmas\<close>

lemma or_0x80_nonzero: "or (b :: u8) 0x80 \<noteq> 0"
proof
  assume "or b 0x80 = 0"
  then have "bit (or b 0x80) 7 = bit (0 :: u8) 7" by simp
  then show False by (simp add: bit_or_iff)
qed

lemma be_nat_0: "be_nat bs = 0 \<longleftrightarrow> set bs \<subseteq> {0}"
  by (induction bs rule: rev_induct) (auto simp: unat_eq_0)

lemma uuid_from_bytes_0:
  assumes "length bs = 16"
  shows "uuid_from_bytes bs = 0 \<longleftrightarrow> set bs \<subseteq> {0}"
proof -
  have "be_nat bs < 2 ^ 128" using be_nat_lt [of bs] assms by simp
  then have "unat (uuid_from_bytes bs) = be_nat bs"
    by (simp add: uuid_from_bytes_def unat_of_nat)
  then show ?thesis by (metis be_nat_0 unat_eq_zero)
qed

lemma controller_id_derived:
  assumes "length (sha256_digest cr (CONTROLLER_ID_DOMAIN @ pk)) = 32"
  shows "\<exists>i. controller_id_from_public_key cr pk = Ok i \<and> i \<noteq> 0"
proof -
  let ?b = "take 16 (sha256_digest cr (CONTROLLER_ID_DOMAIN @ pk))"
  let ?c = "?b[6 := or (and (?b ! 6) 0x0f) 0x80]"
  let ?d = "?c[8 := or (and (?c ! 8) 0x3f) 0x80]"
  have len: "length ?d = 16" using assms by simp
  have "?d ! 6 \<noteq> 0" using assms or_0x80_nonzero by simp
  then have "\<not> set ?d \<subseteq> {0}" using len nth_mem [of 6 ?d] by force
  then have "uuid_from_bytes ?d \<noteq> 0" using uuid_from_bytes_0 [OF len] by blast
  then show ?thesis
    by (simp add: controller_id_from_public_key_def Let_def id_from_bytes_def id_from_uuid_def)
qed

lemma verify_with_key_Ok:
  "verify_with_key cr key domain payload sig = Ok () \<longleftrightarrow>
     point_decodes cr key \<and> length sig = 64
   \<and> (\<exists>e. payload = Ok e \<and> ed_verify_strict cr key (domain @ e) sig)"
  by (auto simp: verify_with_key_def signed_message_def result_simps split: if_splits)

lemma controller_validate_Ok:
  "controller_validate cr cp = Ok () \<longleftrightarrow>
     controller_id_from_public_key cr (cp_public_key cp) = Ok (cp_controller_id cp)
   \<and> point_decodes cr (cp_public_key cp) \<and> \<not> key_is_weak cr (cp_public_key cp)"
  by (auto simp: controller_validate_def result_simps split: if_splits)

lemma controller_verify_payload_Ok:
  "controller_verify_payload cr cp domain payload sig = Ok () \<longleftrightarrow>
     controller_validate cr cp = Ok () \<and> length sig = 64
   \<and> (\<exists>e. payload = Ok e \<and> ed_verify_strict cr (cp_public_key cp) (domain @ e) sig)"
  by (auto simp: controller_verify_payload_def bind_r_Ok verify_with_key_Ok controller_validate_Ok)

lemma signature_verifies:
  assumes "sha256_ok cr" and "ed25519_key_ok cr (ci_signing_key ci)"
    and "controller_public cr ci = Some p"
    and "controller_sign_payload cr ci domain payload = Ok sig"
  shows "controller_verify_payload cr p domain payload sig = Ok ()"
proof -
  have p: "controller_id_from_public_key cr (cp_public_key p) = Ok (cp_controller_id p)"
    "cp_public_key p = verifying_key_bytes cr (ci_signing_key ci)"
    using assms(3) by (auto simp: controller_public_def controller_identity_id_def split: sum.splits)
  obtain e where "payload = Ok e" "sig = ed_sign cr (ci_signing_key ci) (domain @ e)"
    using assms(4) by (auto simp: controller_sign_payload_def signed_message_def bind_r_Ok)
  then show ?thesis using p assms(2)
    by (simp add: controller_verify_payload_Ok controller_validate_Ok ed25519_key_ok_def)
qed

subsection \<open>Properties\<close>

text \<open>Deriving a controller id never fails, so the \<open>expect\<close> in \<open>controller_id\<close> cannot panic:
  the version bits keep the id from being nil, and the public identity it yields is consistent.\<close>

theorem controller_id_never_nil:
  assumes "sha256_ok cr"
  shows "\<exists>p. controller_public cr ci = Some p \<and> cp_controller_id p \<noteq> 0
    \<and> controller_id_from_public_key cr (cp_public_key p) = Ok (cp_controller_id p)"
proof -
  obtain i where "controller_id_from_public_key cr (verifying_key_bytes cr (ci_signing_key ci)) = Ok i"
    and "i \<noteq> 0"
    using controller_id_derived assms unfolding sha256_ok_def by blast
  then show ?thesis by (simp add: controller_public_def controller_identity_id_def)
qed

text \<open>A signature a controller makes over any encodable payload verifies under its own
  public identity in the same domain.\<close>

theorem controller_signature_verifies:
  assumes "sha256_ok cr" and "ed25519_key_ok cr (ci_signing_key ci)"
    and "controller_public cr ci = Some p"
    and "controller_sign_payload cr ci domain payload = Ok sig"
  shows "controller_verify_payload cr p domain payload sig = Ok ()"
  by (rule signature_verifies [OF assms])

definition signature_domains :: "bytes list" where
  "signature_domains = [SITE_CONFIG_SIGNATURE_DOMAIN, SESSION_BINDING_SIGNATURE_DOMAIN,
     CONNECTOR_LEASE_SIGNATURE_DOMAIN, BOOTSTRAP_SIGNATURE_DOMAIN]"

lemma signature_domains_key:
  "list_all (\<lambda>d. 10 < length d) signature_domains"
  "distinct (map (\<lambda>d. (d ! 5, d ! 10)) signature_domains)"
  by (simp_all add: signature_domains_def SITE_CONFIG_SIGNATURE_DOMAIN_def
      SESSION_BINDING_SIGNATURE_DOMAIN_def CONNECTOR_LEASE_SIGNATURE_DOMAIN_def
      BOOTSTRAP_SIGNATURE_DOMAIN_def byte_of_char_def)

text \<open>Domain separation: the messages signed in two different domains are different,
  whatever the payloads are, so a signature made for one purpose is never over the message of
  another.\<close>

theorem signed_messages_separated:
  assumes "d \<in> set signature_domains" and "d' \<in> set signature_domains"
    and "signed_message d payload = Ok m" and "signed_message d' payload' = Ok m"
  shows "d = d'"
proof -
  have key: "(m ! 5, m ! 10) = (x ! 5, x ! 10)"
    if "x \<in> set signature_domains" "signed_message x p = Ok m" for x p
    using that signature_domains_key(1)
    by (auto simp: signed_message_def bind_r_Ok list_all_iff nth_append dest: bspec)
  have "(d ! 5, d ! 10) = (d' ! 5, d' ! 10)"
    using key [OF assms(1,3)] key [OF assms(2,4)] by simp
  then show ?thesis
    using signature_domains_key(2) assms(1,2) by (auto simp: distinct_map inj_on_def)
qed

subsection \<open>Witnesses\<close>

definition toy_crypto :: crypto where
  "toy_crypto =
     \<lparr>sha256_digest = \<lambda>x. replicate 32 (if x = [] then 0 else last x),
      verifying_key_bytes = \<lambda>sk. sk, point_decodes = \<lambda>k. k \<noteq> [], key_is_weak = \<lambda>k. k = [0],
      ed_sign = \<lambda>sk m. replicate 64 (last sk + of_nat (length m)),
      ed_verify_strict = \<lambda>k m s. s = replicate 64 (last k + of_nat (length m))\<rparr>"

lemma toy_crypto_ok: "sha256_ok toy_crypto" "ed25519_key_ok toy_crypto [7]"
  by (simp_all add: sha256_ok_def ed25519_key_ok_def toy_crypto_def)

lemma controller_id_never_nil_witness: "controller_public toy_crypto \<lparr>ci_signing_key = [7]\<rparr> \<noteq> None"
  using controller_id_never_nil [OF toy_crypto_ok(1), of "\<lparr>ci_signing_key = [7]\<rparr>"] by auto

lemma controller_signature_verifies_witness:
  "controller_verify_payload toy_crypto
     (the (controller_public toy_crypto \<lparr>ci_signing_key = [7]\<rparr>)) SITE_CONFIG_SIGNATURE_DOMAIN (Ok [1])
     (ed_sign toy_crypto [7] (SITE_CONFIG_SIGNATURE_DOMAIN @ [1])) = Ok ()"
proof -
  obtain p where p: "controller_public toy_crypto \<lparr>ci_signing_key = [7]\<rparr> = Some p"
    using controller_id_derived [of toy_crypto "[7]"]
    by (auto simp: controller_public_def controller_identity_id_def toy_crypto_def)
  show ?thesis unfolding p option.sel
    by (rule controller_signature_verifies [OF toy_crypto_ok(1) _ p])
       (simp_all add: toy_crypto_ok controller_sign_payload_def signed_message_def)
qed

lemma signed_messages_separated_witness:
  "SITE_CONFIG_SIGNATURE_DOMAIN = SITE_CONFIG_SIGNATURE_DOMAIN @ []"
  using signed_messages_separated [of SITE_CONFIG_SIGNATURE_DOMAIN SITE_CONFIG_SIGNATURE_DOMAIN
      "Ok []" "SITE_CONFIG_SIGNATURE_DOMAIN" "Ok []"]
  by (simp add: signature_domains_def signed_message_def)

definition toy_controller :: controller_public_identity where
  "toy_controller =
     \<lparr>cp_controller_id = (case controller_id_from_public_key toy_crypto [7] of Inr i \<Rightarrow> i | Inl _ \<Rightarrow> 0),
      cp_public_key = [7]\<rparr>"

lemma toy_controller_ok: "controller_validate toy_crypto toy_controller = Ok ()"
proof -
  obtain i where i: "controller_id_from_public_key toy_crypto [7] = Ok i"
    using controller_id_derived [of toy_crypto "[7]"] toy_crypto_ok(1) by (auto simp: sha256_ok_def)
  then show ?thesis by (simp add: controller_validate_Ok toy_controller_def) (simp add: toy_crypto_def)
qed

end
