(* ===== verification/Enrollment.thy ===== *)
theory Enrollment
  imports Keys
begin

section \<open>Grants and the enrollment registry (clew-identity, grant.rs and enrollment.rs)\<close>

text \<open>
  A controller issues signed bootstrap passes; devices claim them, the host acknowledges with a
  token, and invites and devices are closed, revoked or deleted. Every operation of the registry
  is a function from the registry to the registry it leaves and its result, so that what an
  error leaves behind is visible. Random secrets and drawn device ids are arguments.
\<close>

subsection \<open>Grants\<close>

record permission_grant =
  member :: member_capabilities
  pg_read :: bool
  pg_write :: bool
  pg_shell :: bool
  pg_tcp_egress :: bool

definition EXECUTE_READ :: permission_grant where
  "EXECUTE_READ = \<lparr>member = EXECUTE_ONLY, pg_read = True, pg_write = False, pg_shell = False,
     pg_tcp_egress = False\<rparr>"
definition EXECUTE_READ_CONNECTOR :: permission_grant where
  "EXECUTE_READ_CONNECTOR = \<lparr>member = EXECUTE_AND_CONNECTOR, pg_read = True, pg_write = False,
     pg_shell = False, pg_tcp_egress = False\<rparr>"
definition EXECUTE_READ_WRITE_CONNECTOR :: permission_grant where
  "EXECUTE_READ_WRITE_CONNECTOR = \<lparr>member = EXECUTE_AND_CONNECTOR, pg_read = True,
     pg_write = True, pg_shell = False, pg_tcp_egress = False\<rparr>"
definition EXECUTE_READ_WRITE_SHELL_CONNECTOR :: permission_grant where
  "EXECUTE_READ_WRITE_SHELL_CONNECTOR = \<lparr>member = EXECUTE_AND_CONNECTOR, pg_read = True,
     pg_write = True, pg_shell = True, pg_tcp_egress = False\<rparr>"
definition EXECUTE_READ_WRITE_SHELL_TCP_CONNECTOR :: permission_grant where
  "EXECUTE_READ_WRITE_SHELL_TCP_CONNECTOR = \<lparr>member = EXECUTE_AND_CONNECTOR, pg_read = True,
     pg_write = True, pg_shell = True, pg_tcp_egress = True\<rparr>"
definition GRANT_CONNECTOR_ONLY :: permission_grant where
  "GRANT_CONNECTOR_ONLY = \<lparr>member = CONNECTOR_ONLY, pg_read = False, pg_write = False,
     pg_shell = False, pg_tcp_egress = False\<rparr>"

definition intersect :: "permission_grant \<Rightarrow> permission_grant \<Rightarrow> permission_grant" where
  "intersect a ceiling =
     (let m = \<lparr>execute = execute (member a) \<and> execute (member ceiling),
               connector = connector (member a) \<and> connector (member ceiling)\<rparr>;
          executable = execute m in
      \<lparr>member = m,
       pg_read = executable \<and> pg_read a \<and> pg_read ceiling,
       pg_write = executable \<and> pg_write a \<and> pg_write ceiling,
       pg_shell = executable \<and> pg_shell a \<and> pg_shell ceiling,
       pg_tcp_egress = executable \<and> pg_tcp_egress a \<and> pg_tcp_egress ceiling\<rparr>)"

text \<open>The order on grants: no permission beyond the ceiling, and none without \<open>execute\<close>.\<close>

definition grant_le :: "permission_grant \<Rightarrow> permission_grant \<Rightarrow> bool" where
  "grant_le g c \<longleftrightarrow>
     (execute (member g) \<longrightarrow> execute (member c)) \<and> (connector (member g) \<longrightarrow> connector (member c))
   \<and> (pg_read g \<longrightarrow> pg_read c) \<and> (pg_write g \<longrightarrow> pg_write c) \<and> (pg_shell g \<longrightarrow> pg_shell c)
   \<and> (pg_tcp_egress g \<longrightarrow> pg_tcp_egress c)"

definition grant_needs_execute :: "permission_grant \<Rightarrow> bool" where
  "grant_needs_execute g \<longleftrightarrow>
     (pg_read g \<or> pg_write g \<or> pg_shell g \<or> pg_tcp_egress g \<longrightarrow> execute (member g))"

lemma intersect_le: "grant_le (intersect a c) a" "grant_le (intersect a c) c"
  by (simp_all add: grant_le_def intersect_def Let_def)

lemma intersect_needs_execute: "grant_needs_execute (intersect a c)"
  by (auto simp: grant_needs_execute_def intersect_def Let_def)

lemma grant_le_trans: "grant_le a b \<Longrightarrow> grant_le b c \<Longrightarrow> grant_le a c"
  by (simp add: grant_le_def)

subsection \<open>Bootstrap passes\<close>

definition BOOTSTRAP_SECRET_DOMAIN :: bytes where
  "BOOTSTRAP_SECRET_DOMAIN = as_bytes ''clew/site-bootstrap-secret/v1'' @ [0]"
definition BOOTSTRAP_FINGERPRINT_DOMAIN :: bytes where
  "BOOTSTRAP_FINGERPRINT_DOMAIN = as_bytes ''clew/site-bootstrap-fingerprint/v1'' @ [0]"
definition BOOTSTRAP_VERSION :: u32 where "BOOTSTRAP_VERSION = 1"
definition MAX_SITE_NAME_BYTES :: nat where [bounds_simps]: "MAX_SITE_NAME_BYTES = 128"
definition MAX_BOOTSTRAP_CLAIMS :: u32 where [bounds_simps]: "MAX_BOOTSTRAP_CLAIMS = 256"
definition MAX_DEPLOYMENT_WINDOW_MS :: u64 where
  [bounds_simps]: "MAX_DEPLOYMENT_WINDOW_MS = 7 * 24 * 60 * 60 * 1000"

record site_bootstrap_spec =
  bs_site_id :: site_id
  bs_invite_id :: invite_id
  bs_site_name :: string
  bs_grant :: permission_grant
  bs_not_before_unix_ms :: u64
  bs_expires_unix_ms :: u64
  bs_deployment_window_ms :: u64
  bs_max_claims :: u32

record site_bootstrap_payload =
  pb_version :: u32
  pb_controller :: controller_public_identity
  pb_site_id :: site_id
  pb_invite_id :: invite_id
  pb_site_name :: string
  pb_grant :: permission_grant
  pb_not_before_unix_ms :: u64
  pb_expires_unix_ms :: u64
  pb_deployment_window_ms :: u64
  pb_max_claims :: u32
  pb_secret_hash :: bytes

record signed_pass =
  sp_payload :: site_bootstrap_payload
  sp_secret :: bytes
  sp_signature :: bytes

datatype enrollment_error =
    EnrollIdentity identity_error
  | EnrollJson json_error
  | InvalidBootstrap string
  | UnsupportedBootstrapVersion u32
  | BootstrapSecretMismatch
  | WrongController
  | PassConflict
  | NotYetValid
  | Expired
  | DeploymentWindowClosed
  | InviteClosed
  | InviteRevoked
  | ClaimsExhausted
  | FinalizedReplay
  | MissingClaim
  | UnknownInvite invite_id
  | UnknownEnrolledDevice device_id
  | PersistTokenMismatch

record enroll_json =
  payload_to_vec :: "site_bootstrap_payload \<Rightarrow> (json_error, bytes) result"
  signed_to_vec :: "site_bootstrap_payload \<times> bytes \<Rightarrow> (json_error, bytes) result"

definition spec_validate :: "site_bootstrap_spec \<Rightarrow> (enrollment_error, unit) result" where
  "spec_validate s =
     (let name = trim (bs_site_name s) in
      if name = [] \<or> length name > MAX_SITE_NAME_BYTES
      then Err (InvalidBootstrap ''site name must be 1..=128 UTF-8 bytes'')
      else if bs_expires_unix_ms s \<le> bs_not_before_unix_ms s
      then Err (InvalidBootstrap ''expiry must be after not-before'')
      else if bs_deployment_window_ms s = 0 \<or> bs_deployment_window_ms s > MAX_DEPLOYMENT_WINDOW_MS
      then Err (InvalidBootstrap ''deployment window must be within 1 ms..=7 days'')
      else if bs_max_claims s = 0 \<or> bs_max_claims s > MAX_BOOTSTRAP_CLAIMS
      then Err (InvalidBootstrap ''max claims must be within 1..=256'')
      else Ok ())"

definition bootstrap_secret_hash :: "crypto \<Rightarrow> bytes \<Rightarrow> bytes" where
  "bootstrap_secret_hash cr secret = sha256_digest cr (BOOTSTRAP_SECRET_DOMAIN @ secret)"

text \<open>\<open>public\<close> is the controller's public identity, \<open>random_secret\<close> the drawn secret.\<close>

definition issue_site_bootstrap ::
    "crypto \<Rightarrow> enroll_json \<Rightarrow> controller_identity \<Rightarrow> controller_public_identity
     \<Rightarrow> (identity_error, bytes) result \<Rightarrow> site_bootstrap_spec \<Rightarrow> (enrollment_error, signed_pass) result" where
  "issue_site_bootstrap cr js ci public random_secret spec =
     bind_r (spec_validate spec) (\<lambda>_.
     bind_r (map_err EnrollIdentity random_secret) (\<lambda>secret.
     let payload = \<lparr>pb_version = BOOTSTRAP_VERSION, pb_controller = public,
                    pb_site_id = bs_site_id spec, pb_invite_id = bs_invite_id spec,
                    pb_site_name = bs_site_name spec, pb_grant = bs_grant spec,
                    pb_not_before_unix_ms = bs_not_before_unix_ms spec,
                    pb_expires_unix_ms = bs_expires_unix_ms spec,
                    pb_deployment_window_ms = bs_deployment_window_ms spec,
                    pb_max_claims = bs_max_claims spec,
                    pb_secret_hash = bootstrap_secret_hash cr secret\<rparr> in
     bind_r (map_err EnrollIdentity
              (controller_sign_payload cr ci BOOTSTRAP_SIGNATURE_DOMAIN (payload_to_vec js payload)))
       (\<lambda>signature. Ok \<lparr>sp_payload = payload, sp_secret = secret, sp_signature = signature\<rparr>)))"

definition payload_spec :: "site_bootstrap_payload \<Rightarrow> site_bootstrap_spec" where
  "payload_spec p =
     \<lparr>bs_site_id = pb_site_id p, bs_invite_id = pb_invite_id p, bs_site_name = pb_site_name p,
      bs_grant = pb_grant p, bs_not_before_unix_ms = pb_not_before_unix_ms p,
      bs_expires_unix_ms = pb_expires_unix_ms p,
      bs_deployment_window_ms = pb_deployment_window_ms p, bs_max_claims = pb_max_claims p\<rparr>"

definition validate_payload ::
    "crypto \<Rightarrow> site_bootstrap_payload \<Rightarrow> (enrollment_error, unit) result" where
  "validate_payload cr p =
     (if pb_version p \<noteq> BOOTSTRAP_VERSION then Err (UnsupportedBootstrapVersion (pb_version p))
      else bind_r (spec_validate (payload_spec p)) (\<lambda>_.
        map_err EnrollIdentity (controller_validate cr (pb_controller p))))"

definition pass_verify ::
    "crypto \<Rightarrow> enroll_json \<Rightarrow> signed_pass \<Rightarrow> (enrollment_error, controller_public_identity) result" where
  "pass_verify cr js pass =
     bind_r (validate_payload cr (sp_payload pass)) (\<lambda>_.
       if bootstrap_secret_hash cr (sp_secret pass) \<noteq> pb_secret_hash (sp_payload pass)
       then Err BootstrapSecretMismatch
       else bind_r (map_err EnrollIdentity
              (controller_verify_payload cr (pb_controller (sp_payload pass))
                 BOOTSTRAP_SIGNATURE_DOMAIN (payload_to_vec js (sp_payload pass)) (sp_signature pass)))
         (\<lambda>_. Ok (pb_controller (sp_payload pass))))"

definition pass_fingerprint ::
    "crypto \<Rightarrow> enroll_json \<Rightarrow> signed_pass \<Rightarrow> (enrollment_error, bytes) result" where
  "pass_fingerprint cr js pass =
     bind_r (map_err EnrollJson (signed_to_vec js (sp_payload pass, sp_signature pass))) (\<lambda>encoded.
       Ok (sha256_digest cr (BOOTSTRAP_FINGERPRINT_DOMAIN @ encoded)))"

subsection \<open>The registry\<close>

datatype enrollment_status = PendingHostPersist | Active | RevokedStatus

record receipt =
  rc_controller_id :: controller_id
  rc_site_id :: site_id
  rc_invite_id :: invite_id
  rc_device_id :: device_id
  rc_device_public :: device_public_identity
  rc_effective_grant :: permission_grant
  rc_issued_unix_ms :: u64
  rc_persist_ack_token :: bytes

record enrollment_device =
  ed_controller_id :: controller_id
  ed_site_id :: site_id
  ed_invite_id :: invite_id
  ed_device_id :: device_id
  ed_device_public :: device_public_identity
  ed_effective_grant :: permission_grant
  ed_status :: enrollment_status

record claim_record =
  cl_pass_fingerprint :: bytes
  cl_receipt :: receipt
  cl_status :: enrollment_status

record invite_state =
  is_fingerprint :: "bytes option"
  is_site_id :: "site_id option"
  is_site_name :: "string option"
  is_grant :: "permission_grant option"
  is_not_before :: "u64 option"
  is_expires :: "u64 option"
  is_window :: "u64 option"
  is_max_claims :: "u32 option"
  is_first_claim :: "u64 option"
  is_closed :: bool
  is_revoked :: bool
  is_deleted :: bool
  is_claims :: "claim_record list"

record registry =
  rg_controller_id :: controller_id
  rg_policy_ceiling :: permission_grant
  rg_invites :: "(invite_id, invite_state) btree"
  rg_devices :: "(device_id, enrollment_device) btree"

definition invite_default :: invite_state where
  "invite_default =
     \<lparr>is_fingerprint = None, is_site_id = None, is_site_name = None, is_grant = None,
      is_not_before = None, is_expires = None, is_window = None, is_max_claims = None,
      is_first_claim = None, is_closed = False, is_revoked = False, is_deleted = False,
      is_claims = []\<rparr>"

definition registry_new :: "controller_id \<Rightarrow> permission_grant \<Rightarrow> registry" where
  "registry_new c ceiling =
     \<lparr>rg_controller_id = c, rg_policy_ceiling = ceiling, rg_invites = [], rg_devices = []\<rparr>"

definition invite_or_default :: "registry \<Rightarrow> invite_id \<Rightarrow> invite_state" where
  "invite_or_default r i = (case bt_get (rg_invites r) i of None \<Rightarrow> invite_default | Some s \<Rightarrow> s)"

definition remember_pass_metadata :: "signed_pass \<Rightarrow> invite_state \<Rightarrow> invite_state" where
  "remember_pass_metadata pass s =
     (let p = sp_payload pass in
      s\<lparr>is_site_id := Some (pb_site_id p), is_site_name := Some (pb_site_name p),
        is_grant := Some (pb_grant p), is_not_before := Some (pb_not_before_unix_ms p),
        is_expires := Some (pb_expires_unix_ms p), is_window := Some (pb_deployment_window_ms p),
        is_max_claims := Some (pb_max_claims p)\<rparr>)"

definition set_invite :: "invite_id \<Rightarrow> invite_state \<Rightarrow> registry \<Rightarrow> registry" where
  "set_invite i s r = r\<lparr>rg_invites := bt_insert i s (rg_invites r)\<rparr>"

definition register_pass ::
    "crypto \<Rightarrow> enroll_json \<Rightarrow> signed_pass \<Rightarrow> registry \<Rightarrow> registry \<times> (enrollment_error, unit) result" where
  "register_pass cr js pass r =
     (case bind_r (pass_verify cr js pass) (\<lambda>public.
             if cp_controller_id public \<noteq> rg_controller_id r then Err WrongController
             else pass_fingerprint cr js pass) of
        Inl e \<Rightarrow> (r, Err e)
      | Inr fp \<Rightarrow>
          (let i = pb_invite_id (sp_payload pass);
               s = invite_or_default r i;
               r' = set_invite i s r in
           if is_revoked s \<or> is_deleted s then (r', Err InviteRevoked)
           else (case is_fingerprint s of
                   Some existing \<Rightarrow>
                     if existing \<noteq> fp then (r', Err PassConflict)
                     else (set_invite i (remember_pass_metadata pass s) r, Ok ())
                 | None \<Rightarrow>
                     (set_invite i (remember_pass_metadata pass (s\<lparr>is_fingerprint := Some fp\<rparr>)) r,
                      Ok ()))))"

definition issue_bootstrap ::
    "crypto \<Rightarrow> enroll_json \<Rightarrow> controller_identity \<Rightarrow> controller_public_identity
     \<Rightarrow> (identity_error, bytes) result \<Rightarrow> site_bootstrap_spec \<Rightarrow> registry
     \<Rightarrow> registry \<times> (enrollment_error, signed_pass) result" where
  "issue_bootstrap cr js ci public random_secret spec r =
     (if cp_controller_id public \<noteq> rg_controller_id r then (r, Err WrongController)
      else case issue_site_bootstrap cr js ci public random_secret spec of
        Inl e \<Rightarrow> (r, Err e)
      | Inr pass \<Rightarrow> (case register_pass cr js pass r of
            (r', Inl e) \<Rightarrow> (r', Err e) | (r', Inr _) \<Rightarrow> (r', Ok pass)))"

text \<open>The first half of a claim: everything checked before a device id is drawn. \<open>Some\<close> is the
  receipt of a pending claim, returned again.\<close>

definition claim_existing ::
    "invite_state option \<Rightarrow> bytes \<Rightarrow> device_public_identity
     \<Rightarrow> (enrollment_error, receipt option) result" where
  "claim_existing state fp device =
     (case state of
        None \<Rightarrow> Ok None
      | Some s \<Rightarrow>
          if is_revoked s then Err InviteRevoked
          else if (case is_fingerprint s of None \<Rightarrow> False | Some issued \<Rightarrow> issued \<noteq> fp)
          then Err PassConflict
          else (case find (\<lambda>c. rc_device_public (cl_receipt c) = device) (is_claims s) of
                  Some existing \<Rightarrow>
                    if cl_pass_fingerprint existing \<noteq> fp then Err PassConflict
                    else (case cl_status existing of
                            PendingHostPersist \<Rightarrow> Ok (Some (cl_receipt existing))
                          | Active \<Rightarrow> Err FinalizedReplay
                          | RevokedStatus \<Rightarrow> Err InviteRevoked)
                | None \<Rightarrow> if is_closed s then Err InviteClosed else Ok None))"

definition claim_window ::
    "invite_state option \<Rightarrow> site_bootstrap_payload \<Rightarrow> u64 \<Rightarrow> (enrollment_error, unit) result" where
  "claim_window state p now =
     (if now < pb_not_before_unix_ms p then Err NotYetValid
      else if now \<ge> pb_expires_unix_ms p then Err Expired
      else (case state of
              None \<Rightarrow> Ok ()
            | Some s \<Rightarrow>
                if (case is_first_claim s of None \<Rightarrow> False
                    | Some first \<Rightarrow> now \<ge> saturating_add first (pb_deployment_window_ms p))
                then Err DeploymentWindowClosed
                else if length (is_claims s) \<ge> unat (pb_max_claims p) then Err ClaimsExhausted
                else Ok ()))"

definition claim_checks ::
    "crypto \<Rightarrow> enroll_json \<Rightarrow> signed_pass \<Rightarrow> device_public_identity \<Rightarrow> u64 \<Rightarrow> registry
     \<Rightarrow> (enrollment_error, bytes \<times> receipt option) result" where
  "claim_checks cr js pass device now r =
     bind_r (pass_verify cr js pass) (\<lambda>public.
     bind_r (map_err EnrollIdentity (device_validate cr device)) (\<lambda>_.
     if cp_controller_id public \<noteq> rg_controller_id r then Err WrongController
     else bind_r (pass_fingerprint cr js pass) (\<lambda>fp.
       let state = bt_get (rg_invites r) (pb_invite_id (sp_payload pass)) in
       bind_r (claim_existing state fp device) (\<lambda>existing.
         case existing of
           Some rc \<Rightarrow> Ok (fp, Some rc)
         | None \<Rightarrow> bind_r (claim_window state (sp_payload pass) now) (\<lambda>_. Ok (fp, None))))))"

text \<open>The second half: the claim is recorded under the drawn device id.\<close>

definition claim_receipt ::
    "signed_pass \<Rightarrow> device_public_identity \<Rightarrow> u64 \<Rightarrow> permission_grant \<Rightarrow> device_id \<Rightarrow> bytes
     \<Rightarrow> registry \<Rightarrow> receipt" where
  "claim_receipt pass device now ceiling did token r =
     (let p = sp_payload pass in
      \<lparr>rc_controller_id = rg_controller_id r, rc_site_id = pb_site_id p,
       rc_invite_id = pb_invite_id p, rc_device_id = did, rc_device_public = device,
       rc_effective_grant = intersect (intersect (pb_grant p) (rg_policy_ceiling r)) ceiling,
       rc_issued_unix_ms = now, rc_persist_ack_token = token\<rparr>)"

definition device_of_receipt :: "receipt \<Rightarrow> enrollment_status \<Rightarrow> enrollment_device" where
  "device_of_receipt rc st =
     \<lparr>ed_controller_id = rc_controller_id rc, ed_site_id = rc_site_id rc,
      ed_invite_id = rc_invite_id rc, ed_device_id = rc_device_id rc,
      ed_device_public = rc_device_public rc, ed_effective_grant = rc_effective_grant rc,
      ed_status = st\<rparr>"

definition record_claim ::
    "signed_pass \<Rightarrow> bytes \<Rightarrow> u64 \<Rightarrow> receipt \<Rightarrow> registry \<Rightarrow> registry \<times> (enrollment_error, receipt) result" where
  "record_claim pass fp now rc r =
     (let i = pb_invite_id (sp_payload pass); s = invite_or_default r i in
      if (case is_fingerprint s of None \<Rightarrow> False | Some issued \<Rightarrow> issued \<noteq> fp)
      then (set_invite i s r, Err PassConflict)
      else
        (let s1 = remember_pass_metadata pass (s\<lparr>is_fingerprint := Some fp\<rparr>);
             s2 = s1\<lparr>is_first_claim := (case is_first_claim s1 of None \<Rightarrow> Some now | Some t \<Rightarrow> Some t),
                     is_claims := is_claims s1 @
                       [\<lparr>cl_pass_fingerprint = fp, cl_receipt = rc,
                         cl_status = PendingHostPersist\<rparr>]\<rparr>;
             r1 = set_invite i s2 r in
         (r1\<lparr>rg_devices := bt_insert (rc_device_id rc) (device_of_receipt rc PendingHostPersist)
               (rg_devices r1)\<rparr>, Ok rc)))"

text \<open>\<open>drawn\<close> are the ids the random generator yields, in order; the loop takes the first that
  is not in use, and \<open>None\<close> says it is still looping after all of them.\<close>

definition claim_with_ceiling ::
    "crypto \<Rightarrow> enroll_json \<Rightarrow> device_id list \<Rightarrow> (identity_error, bytes) result \<Rightarrow> signed_pass
     \<Rightarrow> device_public_identity \<Rightarrow> u64 \<Rightarrow> permission_grant \<Rightarrow> registry
     \<Rightarrow> (registry \<times> (enrollment_error, receipt) result) option" where
  "claim_with_ceiling cr js drawn random_token pass device now ceiling r =
     (case claim_checks cr js pass device now r of
        Inl e \<Rightarrow> Some (r, Err e)
      | Inr (fp, Some rc) \<Rightarrow> Some (r, Ok rc)
      | Inr (fp, None) \<Rightarrow>
          (case find (\<lambda>d. bt_get (rg_devices r) d = None) drawn of
             None \<Rightarrow> None
           | Some did \<Rightarrow>
               Some (case random_token of
                       Inl e \<Rightarrow> (r, Err (EnrollIdentity e))
                     | Inr token \<Rightarrow>
                         record_claim pass fp now (claim_receipt pass device now ceiling did token r) r)))"

definition claim ::
    "crypto \<Rightarrow> enroll_json \<Rightarrow> device_id list \<Rightarrow> (identity_error, bytes) result \<Rightarrow> signed_pass
     \<Rightarrow> device_public_identity \<Rightarrow> u64 \<Rightarrow> registry
     \<Rightarrow> (registry \<times> (enrollment_error, receipt) result) option" where
  "claim cr js drawn random_token pass device now r =
     claim_with_ceiling cr js drawn random_token pass device now (rg_policy_ceiling r) r"

definition constant_time_eq :: "bytes \<Rightarrow> bytes \<Rightarrow> bool" where
  "constant_time_eq expected actual \<longleftrightarrow>
     foldl (\<lambda>difference (l, r). or difference (xor l r)) 0 (zip expected actual) = 0"

fun update_first :: "('a \<Rightarrow> bool) \<Rightarrow> ('a \<Rightarrow> 'a) \<Rightarrow> 'a list \<Rightarrow> 'a list" where
  "update_first P f [] = []"
| "update_first P f (x # xs) = (if P x then f x # xs else x # update_first P f xs)"

definition set_claim_status ::
    "device_id \<Rightarrow> enrollment_status \<Rightarrow> invite_state \<Rightarrow> invite_state" where
  "set_claim_status did st s =
     s\<lparr>is_claims := update_first (\<lambda>c. rc_device_id (cl_receipt c) = did)
          (\<lambda>c. c\<lparr>cl_status := st\<rparr>) (is_claims s)\<rparr>"

definition finalize_host_persist ::
    "invite_id \<Rightarrow> device_id \<Rightarrow> bytes \<Rightarrow> registry
     \<Rightarrow> registry \<times> (enrollment_error, enrollment_device) result" where
  "finalize_host_persist i did token r =
     (case bt_get (rg_invites r) i of
        None \<Rightarrow> (r, Err MissingClaim)
      | Some s \<Rightarrow>
          if is_revoked s then (r, Err InviteRevoked)
          else (case find (\<lambda>c. rc_device_id (cl_receipt c) = did) (is_claims s) of
             None \<Rightarrow> (r, Err MissingClaim)
           | Some c \<Rightarrow>
               if \<not> constant_time_eq (rc_persist_ack_token (cl_receipt c)) token
               then (r, Err PersistTokenMismatch)
               else if cl_status c = RevokedStatus then (r, Err InviteRevoked)
               else
                 (let r1 = set_invite i (set_claim_status did Active s) r in
                  case bt_get (rg_devices r1) (rc_device_id (cl_receipt c)) of
                    None \<Rightarrow> (r1, Err MissingClaim)
                  | Some d \<Rightarrow>
                      (let d' = d\<lparr>ed_status := Active\<rparr> in
                       (r1\<lparr>rg_devices := bt_update (rc_device_id (cl_receipt c)) (\<lambda>_. d') (rg_devices r1)\<rparr>,
                        Ok d')))))"

definition close_invite :: "invite_id \<Rightarrow> registry \<Rightarrow> registry \<times> (enrollment_error, unit) result" where
  "close_invite i r =
     (case bt_get (rg_invites r) i of
        None \<Rightarrow> (r, Err (UnknownInvite i))
      | Some s \<Rightarrow> (set_invite i (s\<lparr>is_closed := True\<rparr>) r, Ok ()))"

definition set_device_status :: "enrollment_status \<Rightarrow> device_id \<Rightarrow> registry \<Rightarrow> registry" where
  "set_device_status st did r =
     r\<lparr>rg_devices := bt_update did (\<lambda>d. d\<lparr>ed_status := st\<rparr>) (rg_devices r)\<rparr>"

definition revoke_invite ::
    "invite_id \<Rightarrow> registry \<Rightarrow> registry \<times> (enrollment_error, device_id list) result" where
  "revoke_invite i r =
     (case bt_get (rg_invites r) i of
        None \<Rightarrow> (r, Err (UnknownInvite i))
      | Some s \<Rightarrow>
          (let s' = s\<lparr>is_closed := True, is_revoked := True,
                      is_claims := map (\<lambda>c. c\<lparr>cl_status := RevokedStatus\<rparr>) (is_claims s)\<rparr>;
               ids = map (\<lambda>c. rc_device_id (cl_receipt c)) (is_claims s) in
           (fold (set_device_status RevokedStatus) ids (set_invite i s' r), Ok ids)))"

definition delete_invite_history ::
    "invite_id \<Rightarrow> registry \<Rightarrow> registry \<times> (enrollment_error, device_id list) result" where
  "delete_invite_history i r =
     (case bt_get (rg_invites r) i of
        None \<Rightarrow> (r, Err (UnknownInvite i))
      | Some s \<Rightarrow>
          (let from_devices = map (\<lambda>(_, d). ed_device_id d)
                 (filter (\<lambda>(_, d). ed_invite_id d = i) (rg_devices r));
               ids = fold (\<lambda>c acc. if rc_device_id (cl_receipt c) \<in> set acc then acc
                                   else acc @ [rc_device_id (cl_receipt c)]) (is_claims s) from_devices;
               s' = s\<lparr>is_closed := True, is_revoked := True, is_deleted := True, is_site_id := None,
                      is_site_name := None, is_grant := None, is_not_before := None,
                      is_expires := None, is_window := None, is_max_claims := None,
                      is_first_claim := None, is_claims := []\<rparr>;
               r1 = set_invite i s' r in
           (r1\<lparr>rg_devices := fold bt_remove ids (rg_devices r1)\<rparr>, Ok ids)))"

definition revoke_device ::
    "device_id \<Rightarrow> registry \<Rightarrow> registry \<times> (enrollment_error, unit) result" where
  "revoke_device did r =
     (case bt_get (rg_devices r) did of
        None \<Rightarrow> (r, Err (UnknownEnrolledDevice did))
      | Some d \<Rightarrow>
          (let r1 = set_device_status RevokedStatus did r in
           case bt_get (rg_invites r1) (ed_invite_id d) of
             None \<Rightarrow> (r1, Ok ())
           | Some s \<Rightarrow> (set_invite (ed_invite_id d) (set_claim_status did RevokedStatus s) r1, Ok ())))"

fun revoke_devices :: "device_id list \<Rightarrow> registry \<Rightarrow> registry \<times> device_id list" where
  "revoke_devices [] r = (r, [])"
| "revoke_devices (d # ds) r =
     (case revoke_device d r of
        (r1, Inr _) \<Rightarrow> (case revoke_devices ds r1 of (r2, ids) \<Rightarrow> (r2, d # ids))
      | (r1, Inl _) \<Rightarrow> revoke_devices ds r1)"

definition revoke_site :: "site_id \<Rightarrow> registry \<Rightarrow> registry \<times> device_id list" where
  "revoke_site sid r =
     revoke_devices
       (map (\<lambda>(_, d). ed_device_id d) (filter (\<lambda>(_, d). ed_site_id d = sid) (rg_devices r))) r"

definition close_all_invites :: "registry \<Rightarrow> registry" where
  "close_all_invites r =
     r\<lparr>rg_invites := bt_map_values (\<lambda>s. s\<lparr>is_closed := True\<rparr>) (rg_invites r)\<rparr>"

definition is_device_active :: "registry \<Rightarrow> device_id \<Rightarrow> bool" where
  "is_device_active r did =
     (case bt_get (rg_devices r) did of None \<Rightarrow> False | Some d \<Rightarrow> ed_status d = Active)"

record credential_record =
  cr_invite_id :: invite_id
  cr_site_id :: "site_id option"
  cr_site_name :: "string option"
  cr_grant :: "permission_grant option"
  cr_not_before :: "u64 option"
  cr_expires :: "u64 option"
  cr_window :: "u64 option"
  cr_max_claims :: "u32 option"
  cr_fingerprint :: "bytes option"
  cr_claim_count :: u32
  cr_closed :: bool
  cr_revoked :: bool

definition or_else :: "'a option \<Rightarrow> 'a option \<Rightarrow> 'a option" where
  "or_else a b = (case a of None \<Rightarrow> b | Some x \<Rightarrow> Some x)"

definition credential_records :: "registry \<Rightarrow> credential_record list" where
  "credential_records r =
     map (\<lambda>(i, s).
       let first = (case is_claims s of [] \<Rightarrow> None | c # _ \<Rightarrow> Some (cl_receipt c)) in
       \<lparr>cr_invite_id = i,
        cr_site_id = or_else (is_site_id s) (map_option rc_site_id first),
        cr_site_name = is_site_name s, cr_grant = is_grant s,
        cr_not_before = or_else (is_not_before s) (map_option rc_issued_unix_ms first),
        cr_expires = is_expires s, cr_window = is_window s, cr_max_claims = is_max_claims s,
        cr_fingerprint = is_fingerprint s,
        cr_claim_count = (if length (is_claims s) < 2 ^ 32 then word_of_nat (length (is_claims s))
                          else - 1),
        cr_closed = is_closed s, cr_revoked = is_revoked s\<rparr>)
     (filter (\<lambda>(i, s). \<not> is_deleted s \<and> is_fingerprint s \<noteq> None) (rg_invites r))"

subsection \<open>The invariant\<close>

text \<open>
  Claims and devices describe the same enrollments: the device filed under an id is the one its
  claim made, with the claim's status, and each claim has its device. A revoked invite has only
  revoked claims.
\<close>

definition device_of_claim :: "claim_record \<Rightarrow> enrollment_device" where
  "device_of_claim c = device_of_receipt (cl_receipt c) (cl_status c)"

abbreviation claim_dev :: "claim_record \<Rightarrow> device_id" where
  "claim_dev c \<equiv> rc_device_id (cl_receipt c)"

definition claim_at :: "registry \<Rightarrow> invite_id \<Rightarrow> claim_record \<Rightarrow> bool" where
  "claim_at r i c \<longleftrightarrow> (\<exists>s. bt_get (rg_invites r) i = Some s \<and> c \<in> set (is_claims s))"

definition registry_ok :: "registry \<Rightarrow> bool" where
  "registry_ok r \<longleftrightarrow>
     bt_wf (rg_invites r) \<and> bt_wf (rg_devices r)
   \<and> (\<forall>i c. claim_at r i c \<longrightarrow> rc_invite_id (cl_receipt c) = i
         \<and> bt_get (rg_devices r) (claim_dev c) = Some (device_of_claim c))
   \<and> (\<forall>d x. bt_get (rg_devices r) d = Some x \<longrightarrow>
         (\<exists>i c. claim_at r i c \<and> claim_dev c = d \<and> x = device_of_claim c))
   \<and> (\<forall>i s. bt_get (rg_invites r) i = Some s \<longrightarrow>
         distinct (map claim_dev (is_claims s))
       \<and> (is_revoked s \<longrightarrow> (\<forall>c \<in> set (is_claims s). cl_status c = RevokedStatus)))"

lemma registry_okI:
  assumes "bt_wf (rg_invites r)" and "bt_wf (rg_devices r)"
    and "\<And>i c. claim_at r i c \<Longrightarrow> rc_invite_id (cl_receipt c) = i
         \<and> bt_get (rg_devices r) (claim_dev c) = Some (device_of_claim c)"
    and "\<And>d x. bt_get (rg_devices r) d = Some x \<Longrightarrow>
         \<exists>i c. claim_at r i c \<and> claim_dev c = d \<and> x = device_of_claim c"
    and "\<And>i s. bt_get (rg_invites r) i = Some s \<Longrightarrow>
         distinct (map claim_dev (is_claims s))
       \<and> (is_revoked s \<longrightarrow> (\<forall>c \<in> set (is_claims s). cl_status c = RevokedStatus))"
  shows "registry_ok r"
  unfolding registry_ok_def using assms by blast

lemma registry_ok_wf: "registry_ok r \<Longrightarrow> bt_wf (rg_invites r) \<and> bt_wf (rg_devices r)"
  unfolding registry_ok_def by blast

lemma registry_ok_claim:
  "registry_ok r \<Longrightarrow> claim_at r i c \<Longrightarrow> rc_invite_id (cl_receipt c) = i
     \<and> bt_get (rg_devices r) (claim_dev c) = Some (device_of_claim c)"
  unfolding registry_ok_def by blast

lemma registry_ok_device:
  "registry_ok r \<Longrightarrow> bt_get (rg_devices r) d = Some x \<Longrightarrow>
     \<exists>i c. claim_at r i c \<and> claim_dev c = d \<and> x = device_of_claim c"
  unfolding registry_ok_def by blast

lemma registry_ok_invite:
  "registry_ok r \<Longrightarrow> bt_get (rg_invites r) i = Some s \<Longrightarrow>
     distinct (map claim_dev (is_claims s))
     \<and> (is_revoked s \<longrightarrow> (\<forall>c \<in> set (is_claims s). cl_status c = RevokedStatus))"
  unfolding registry_ok_def by blast

lemma claim_unique:
  assumes "registry_ok r" and "claim_at r i c" and "claim_at r j c'" and "claim_dev c = claim_dev c'"
  shows "i = j \<and> c = c'"
proof -
  have "device_of_claim c = device_of_claim c'"
    using registry_ok_claim [OF assms(1,2)] registry_ok_claim [OF assms(1,3)] assms(4) by simp
  then have "rc_invite_id (cl_receipt c) = rc_invite_id (cl_receipt c')"
    by (simp add: device_of_claim_def device_of_receipt_def)
  then have ij: "i = j"
    using registry_ok_claim [OF assms(1,2)] registry_ok_claim [OF assms(1,3)] by simp
  obtain s where s: "bt_get (rg_invites r) i = Some s" "c \<in> set (is_claims s)" "c' \<in> set (is_claims s)"
    using assms(2,3) ij by (auto simp: claim_at_def)
  then show ?thesis
    using registry_ok_invite [OF assms(1) s(1)] assms(4) ij by (auto simp: distinct_map inj_on_def)
qed

text \<open>Operations that change only what the invariant does not read.\<close>

lemma set_invite_metadata_ok:
  assumes ok: "registry_ok r"
    and s: "case bt_get (rg_invites r) i of
        None \<Rightarrow> is_claims s' = []
      | Some s \<Rightarrow> is_claims s' = is_claims s \<and> is_revoked s' = is_revoked s"
  shows "registry_ok (set_invite i s' r)"
proof -
  let ?r = "set_invite i s' r"
  have inv: "bt_get (rg_invites ?r) = (bt_get (rg_invites r))(i \<mapsto> s')"
    and dev: "rg_devices ?r = rg_devices r"
    by (simp_all add: set_invite_def)
  have claims: "claim_at ?r j c = claim_at r j c" for j c
    using s by (auto simp: claim_at_def inv split: option.splits)
  show ?thesis
  proof (rule registry_okI)
    fix j t assume t: "bt_get (rg_invites ?r) j = Some t"
    show "distinct (map claim_dev (is_claims t))
       \<and> (is_revoked t \<longrightarrow> (\<forall>c \<in> set (is_claims t). cl_status c = RevokedStatus))"
    proof (cases "j = i \<and> bt_get (rg_invites r) i = None")
      case True
      then show ?thesis using t s by (simp add: inv)
    next
      case False
      then obtain u where "bt_get (rg_invites r) j = Some u" "is_claims t = is_claims u"
        "is_revoked t = is_revoked u"
        using t s by (auto simp: inv split: if_splits)
      then show ?thesis using registry_ok_invite [OF ok] by metis
    qed
  qed (use registry_ok_wf [OF ok] registry_ok_claim [OF ok] registry_ok_device [OF ok] claims dev
        in \<open>simp_all add: set_invite_def\<close>)
qed

text \<open>Operations that give some claims of one invite, and their devices, a new status.\<close>

lemma restatus_ok:
  assumes ok: "registry_ok r" and s: "bt_get (rg_invites r) i = Some s"
    and wf: "bt_wf (rg_invites r')" "bt_wf (rg_devices r')"
    and inv: "bt_get (rg_invites r') = (bt_get (rg_invites r))(i \<mapsto> s')"
    and cl: "is_claims s' = map (\<lambda>c. if P (claim_dev c) then c\<lparr>cl_status := st\<rparr> else c) (is_claims s)"
    and rev: "is_revoked s' \<Longrightarrow> \<forall>c \<in> set (is_claims s'). cl_status c = RevokedStatus"
    and dev: "\<And>d. bt_get (rg_devices r') d =
      (if P d \<and> d \<in> claim_dev ` set (is_claims s)
       then map_option (\<lambda>x. x\<lparr>ed_status := st\<rparr>) (bt_get (rg_devices r) d)
       else bt_get (rg_devices r) d)"
  shows "registry_ok r'"
proof (rule registry_okI [OF wf])
  let ?u = "\<lambda>c. if P (claim_dev c) then c\<lparr>cl_status := st\<rparr> else c"
  have own: "claim_dev c \<in> claim_dev ` set (is_claims s) \<longleftrightarrow> j = i" if "claim_at r j c" for j c
  proof
    assume "claim_dev c \<in> claim_dev ` set (is_claims s)"
    then obtain c' where "c' \<in> set (is_claims s)" "claim_dev c = claim_dev c'" by blast
    then show "j = i" using claim_unique [OF ok that, of i c'] s by (auto simp: claim_at_def)
  next
    assume "j = i"
    then show "claim_dev c \<in> claim_dev ` set (is_claims s)" using that s by (auto simp: claim_at_def)
  qed
  have at: "claim_at r' j c \<longleftrightarrow> (\<exists>c0. claim_at r j c0 \<and> c = (if j = i then ?u c0 else c0))" for j c
    using s by (auto simp: claim_at_def inv cl)
  have udev: "device_of_claim (?u c) = (if P (claim_dev c)
      then (device_of_claim c)\<lparr>ed_status := st\<rparr> else device_of_claim c)" for c
    by (simp add: device_of_claim_def device_of_receipt_def)
  have ucl: "claim_dev (?u c) = claim_dev c" "rc_invite_id (cl_receipt (?u c)) = rc_invite_id (cl_receipt c)"
    for c by simp_all
  show "rc_invite_id (cl_receipt c) = j \<and> bt_get (rg_devices r') (claim_dev c) = Some (device_of_claim c)"
    if c: "claim_at r' j c" for j c
  proof -
    obtain c0 where c0: "claim_at r j c0" and ceq: "c = (if j = i then ?u c0 else c0)"
      using c at by blast
    note old = registry_ok_claim [OF ok c0]
    show ?thesis
    proof (cases "j = i")
      case True
      then show ?thesis using old own [OF c0] ceq dev udev [of c0] ucl [of c0] by simp
    next
      case False
      then show ?thesis using old own [OF c0] ceq dev by simp
    qed
  qed
  show "\<exists>j c. claim_at r' j c \<and> claim_dev c = d \<and> x = device_of_claim c"
    if x: "bt_get (rg_devices r') d = Some x" for d x
  proof -
    obtain x0 where x0: "bt_get (rg_devices r) d = Some x0"
      using x dev [of d] by (auto split: if_splits)
    obtain j c0 where c0: "claim_at r j c0" "claim_dev c0 = d" "x0 = device_of_claim c0"
      using registry_ok_device [OF ok x0] by blast
    show ?thesis
    proof (cases "j = i")
      case True
      then have "claim_at r' j (?u c0)" using at c0(1) by auto
      moreover have "x = device_of_claim (?u c0)"
        using x dev [of d] x0 c0 own [OF c0(1)] True udev [of c0] by (simp split: if_splits)
      ultimately show ?thesis using ucl(1) [of c0] c0(2) by blast
    next
      case False
      then have "claim_at r' j c0" using at c0(1) by auto
      moreover have "x = device_of_claim c0"
        using x dev [of d] x0 c0 own [OF c0(1)] False by simp
      ultimately show ?thesis using c0(2) by blast
    qed
  qed
  show "distinct (map claim_dev (is_claims t))
      \<and> (is_revoked t \<longrightarrow> (\<forall>c \<in> set (is_claims t). cl_status c = RevokedStatus))"
    if t: "bt_get (rg_invites r') j = Some t" for j t
  proof (cases "j = i")
    case True
    have "map claim_dev (is_claims s') = map claim_dev (is_claims s)" by (simp add: cl)
    then show ?thesis using True t inv rev registry_ok_invite [OF ok s] by simp
  next
    case False
    then show ?thesis using t inv registry_ok_invite [OF ok] by simp
  qed
qed

lemma update_first_map:
  "distinct (map g xs) \<Longrightarrow>
     update_first (\<lambda>x. g x = k) f xs = map (\<lambda>x. if g x = k then f x else x) xs"
proof (induction xs)
  case Nil
  then show ?case by simp
next
  case (Cons x xs)
  have "map (\<lambda>x. if g x = k then f x else x) xs = xs" if "g x = k"
    using Cons.prems that by (intro map_idI) (auto simp: image_iff)
  with Cons show ?case by auto
qed

lemma set_claim_status_simps [simp]:
  "is_revoked (set_claim_status did st s) = is_revoked s"
  "is_deleted (set_claim_status did st s) = is_deleted s"
  "is_fingerprint (set_claim_status did st s) = is_fingerprint s"
  by (simp_all add: set_claim_status_def)

lemma set_claim_status_claims:
  assumes "registry_ok r" and "bt_get (rg_invites r) i = Some s"
  shows "is_claims (set_claim_status did st s) =
    map (\<lambda>c. if claim_dev c = did then c\<lparr>cl_status := st\<rparr> else c) (is_claims s)"
  using registry_ok_invite [OF assms] by (simp add: set_claim_status_def update_first_map)

lemma set_device_status_simps [simp]:
  "rg_invites (set_device_status st i r) = rg_invites r"
  "bt_wf (rg_devices (set_device_status st i r)) = bt_wf (rg_devices r)"
  "bt_get (rg_devices (set_device_status st i r)) d =
     (if d = i then map_option (\<lambda>x. x\<lparr>ed_status := st\<rparr>) (bt_get (rg_devices r) d)
      else bt_get (rg_devices r) d)"
  by (simp_all add: set_device_status_def)

lemma fold_device_status:
  "rg_invites (fold (set_device_status st) ids r) = rg_invites r
   \<and> bt_wf (rg_devices (fold (set_device_status st) ids r)) = bt_wf (rg_devices r)
   \<and> (\<forall>d. bt_get (rg_devices (fold (set_device_status st) ids r)) d =
       (if d \<in> set ids then map_option (\<lambda>x. x\<lparr>ed_status := st\<rparr>) (bt_get (rg_devices r) d)
        else bt_get (rg_devices r) d))"
  by (induction ids arbitrary: r) (simp_all add: option.map_comp comp_def)

lemma xor_eq_0: "xor l (r :: u8) = 0 \<longleftrightarrow> l = r"
  by (auto simp: bit_eq_iff bit_xor_iff)

lemma constant_time_eq_iff: "length a = length b \<Longrightarrow> constant_time_eq a b \<longleftrightarrow> a = b"
proof -
  assume len: "length a = length b"
  have "foldl (\<lambda>difference (l, r). or difference (xor l r)) (acc :: u8) zs = 0 \<longleftrightarrow>
      acc = 0 \<and> (\<forall>(l, r) \<in> set zs. l = r)" for acc zs
    by (induction zs arbitrary: acc) (auto simp: or_eq_0_iff xor_eq_0)
  then have "constant_time_eq a b \<longleftrightarrow> (\<forall>(l, r) \<in> set (zip a b). l = r)"
    by (simp add: constant_time_eq_def)
  also have "\<dots> \<longleftrightarrow> a = b"
    using len list_all2_iff [of "(=)" a b] by (simp add: list.rel_eq)
  finally show ?thesis .
qed

lemma claim_dev_ids: "set (map claim_dev cs) = claim_dev ` set cs"
  by simp

lemma close_invite_ok: "registry_ok r \<Longrightarrow> registry_ok (fst (close_invite i r))"
  by (auto simp: close_invite_def intro!: set_invite_metadata_ok split: option.splits)

lemma revoke_invite_ok:
  assumes ok: "registry_ok r"
  shows "registry_ok (fst (revoke_invite i r))"
proof (cases "bt_get (rg_invites r) i")
  case None
  then show ?thesis using ok by (simp add: revoke_invite_def)
next
  case (Some s)
  let ?s' = "s\<lparr>is_closed := True, is_revoked := True,
                is_claims := map (\<lambda>c. c\<lparr>cl_status := RevokedStatus\<rparr>) (is_claims s)\<rparr>"
  have r': "fst (revoke_invite i r) =
      fold (set_device_status RevokedStatus) (map claim_dev (is_claims s)) (set_invite i ?s' r)"
    using Some by (simp add: revoke_invite_def Let_def)
  note f = fold_device_status [of RevokedStatus "map claim_dev (is_claims s)" "set_invite i ?s' r"]
  show ?thesis unfolding r'
    by (rule restatus_ok [OF ok Some, where s' = ?s' and P = "\<lambda>_. True" and st = RevokedStatus])
       (use f registry_ok_wf [OF ok] in \<open>simp_all add: set_invite_def\<close>)
qed

lemma revoke_device_ok:
  assumes ok: "registry_ok r"
  shows "registry_ok (fst (revoke_device did r))"
proof (cases "bt_get (rg_devices r) did")
  case None
  then show ?thesis using ok by (simp add: revoke_device_def)
next
  case (Some d)
  then obtain i c where c: "claim_at r i c" "claim_dev c = did" "d = device_of_claim c"
    using registry_ok_device [OF ok] by blast
  have i: "ed_invite_id d = i"
    using registry_ok_claim [OF ok c(1)] c(3) by (simp add: device_of_claim_def device_of_receipt_def)
  obtain s where s: "bt_get (rg_invites r) i = Some s" "c \<in> set (is_claims s)"
    using c(1) by (auto simp: claim_at_def)
  let ?s' = "set_claim_status did RevokedStatus s"
  have r': "fst (revoke_device did r) = set_invite i ?s' (set_device_status RevokedStatus did r)"
    using Some s(1) i by (simp add: revoke_device_def Let_def)
  show ?thesis unfolding r'
    by (rule restatus_ok [OF ok s(1), where s' = ?s' and P = "\<lambda>x. x = did" and st = RevokedStatus])
       (use registry_ok_wf [OF ok] set_claim_status_claims [OF ok s(1)] registry_ok_invite [OF ok s(1)]
          c(2) s(2) in \<open>auto simp: set_invite_def\<close>)
qed

lemma revoke_devices_ok: "registry_ok r \<Longrightarrow> registry_ok (fst (revoke_devices ds r))"
proof (induction ds arbitrary: r)
  case Nil
  then show ?case by simp
next
  case (Cons d ds)
  then show ?case using revoke_device_ok [of r d]
    by (auto split: prod.splits sum.splits simp: Cons.IH)
      (metis Cons.IH fst_conv)+
qed

lemma revoke_site_ok: "registry_ok r \<Longrightarrow> registry_ok (fst (revoke_site sid r))"
  by (simp add: revoke_site_def revoke_devices_ok)

lemma close_all_invites_ok:
  assumes ok: "registry_ok r"
  shows "registry_ok (close_all_invites r)"
proof -
  let ?r = "close_all_invites r"
  have get: "bt_get (rg_invites ?r) i = map_option (\<lambda>s. s\<lparr>is_closed := True\<rparr>) (bt_get (rg_invites r) i)"
    and dev: "rg_devices ?r = rg_devices r" for i
    by (simp_all add: close_all_invites_def)
  have at: "claim_at ?r i c = claim_at r i c" for i c
    by (auto simp: claim_at_def get)
  show ?thesis
  proof (rule registry_okI)
    fix i t assume "bt_get (rg_invites ?r) i = Some t"
    then obtain s where s: "bt_get (rg_invites r) i = Some s" "t = s\<lparr>is_closed := True\<rparr>"
      unfolding get map_option_eq_Some by blast
    show "distinct (map claim_dev (is_claims t))
       \<and> (is_revoked t \<longrightarrow> (\<forall>c \<in> set (is_claims t). cl_status c = RevokedStatus))"
      using registry_ok_invite [OF ok s(1)] s(2) by simp
  qed (use registry_ok_wf [OF ok] registry_ok_claim [OF ok] registry_ok_device [OF ok] at dev
        in \<open>simp_all add: close_all_invites_def\<close>)
qed

lemma finalize_host_persist_ok:
  assumes ok: "registry_ok r"
  shows "registry_ok (fst (finalize_host_persist i did token r))"
proof (cases "bt_get (rg_invites r) i")
  case None
  then show ?thesis using ok by (simp add: finalize_host_persist_def)
next
  case (Some s)
  show ?thesis
  proof (cases "find (\<lambda>c. claim_dev c = did) (is_claims s)")
    case None
    then show ?thesis using Some ok by (simp add: finalize_host_persist_def)
  next
    case found: (Some c)
    have c: "c \<in> set (is_claims s)" "claim_dev c = did" using find_Some_iff [OF found] by auto
    then have "claim_at r i c" using Some by (auto simp: claim_at_def)
    note old = registry_ok_claim [OF ok this]
    show ?thesis
    proof (cases "\<not> is_revoked s \<and> constant_time_eq (rc_persist_ack_token (cl_receipt c)) token
        \<and> cl_status c \<noteq> RevokedStatus")
      case False
      then show ?thesis using Some found ok by (auto simp: finalize_host_persist_def)
    next
      case True
      let ?s' = "set_claim_status did Active s"
      have r': "fst (finalize_host_persist i did token r) =
          (set_invite i ?s' r)\<lparr>rg_devices := bt_update did
             (\<lambda>_. (device_of_claim c)\<lparr>ed_status := Active\<rparr>) (rg_devices r)\<rparr>"
        using Some found True old c(2) by (simp add: finalize_host_persist_def Let_def set_invite_def)
      show ?thesis unfolding r'
        by (rule restatus_ok [OF ok Some, where s' = ?s' and P = "\<lambda>x. x = did" and st = Active])
           (use registry_ok_wf [OF ok] set_claim_status_claims [OF ok Some] c old True
            in \<open>auto simp: set_invite_def\<close>)
    qed
  qed
qed

lemma invite_or_default_claims:
  "case bt_get (rg_invites r) i of
     None \<Rightarrow> is_claims (invite_or_default r i) = [] \<and> \<not> is_revoked (invite_or_default r i)
   | Some s \<Rightarrow> invite_or_default r i = s"
  by (simp add: invite_or_default_def invite_default_def split: option.splits)

lemma remember_simps [simp]:
  "is_claims (remember_pass_metadata p s) = is_claims s"
  "is_revoked (remember_pass_metadata p s) = is_revoked s"
  "is_deleted (remember_pass_metadata p s) = is_deleted s"
  "is_closed (remember_pass_metadata p s) = is_closed s"
  "is_fingerprint (remember_pass_metadata p s) = is_fingerprint s"
  "is_first_claim (remember_pass_metadata p s) = is_first_claim s"
  "is_max_claims (remember_pass_metadata p s) = Some (pb_max_claims (sp_payload p))"
  by (simp_all add: remember_pass_metadata_def Let_def)

lemma register_pass_ok:
  assumes ok: "registry_ok r"
  shows "registry_ok (fst (register_pass cr js pass r))"
proof -
  let ?i = "pb_invite_id (sp_payload pass)"
  have "registry_ok (set_invite ?i s' r)"
    if "is_claims s' = is_claims (invite_or_default r ?i)"
       "is_revoked s' = is_revoked (invite_or_default r ?i)" for s'
    using set_invite_metadata_ok [OF ok, where i = ?i and s' = s'] invite_or_default_claims [of r ?i] that
    by (auto split: option.splits)
  then show ?thesis using ok
    by (simp add: register_pass_def Let_def split: sum.splits option.splits)
qed

lemma issue_bootstrap_ok:
  assumes ok: "registry_ok r"
  shows "registry_ok (fst (issue_bootstrap cr js ci pub rnd spec r))"
proof -
  have "registry_ok (fst (case register_pass cr js pass r of
      (r', Inl e) \<Rightarrow> (r', Err e) | (r', Inr _) \<Rightarrow> (r', Ok pass)))" for pass
    using register_pass_ok [OF ok, of cr js pass]
    by (cases "register_pass cr js pass r"; cases "snd (register_pass cr js pass r)") auto
  then show ?thesis using ok by (simp add: issue_bootstrap_def split: sum.splits)
qed

lemma fold_bt_remove:
  "bt_get (fold bt_remove ids m) d = (if d \<in> set ids then None else bt_get m d)"
  by (induction ids arbitrary: m) auto

lemma fold_bt_remove_wf: "bt_wf m \<Longrightarrow> bt_wf (fold bt_remove ids m)"
  by (induction ids arbitrary: m) auto

lemma set_fold_new:
  "set (fold (\<lambda>c acc. if g c \<in> set acc then acc else acc @ [g c]) cs acc) = set acc \<union> g ` set cs"
  by (induction cs arbitrary: acc) auto

lemma registry_device_ids:
  assumes "registry_ok r" and "bt_get (rg_devices r) d = Some x"
  shows "ed_device_id x = d"
  using registry_ok_device [OF assms] by (auto simp: device_of_claim_def device_of_receipt_def)

lemma delete_invite_history_get:
  assumes ok: "registry_ok r" and s: "bt_get (rg_invites r) i = Some s"
    and r': "delete_invite_history i r = (r', res)"
  shows "(\<exists>s'. bt_get (rg_invites r') = (bt_get (rg_invites r))(i \<mapsto> s') \<and> is_claims s' = []
      \<and> is_revoked s' \<and> is_deleted s' \<and> is_fingerprint s' = is_fingerprint s)
    \<and> bt_wf (rg_invites r') \<and> bt_wf (rg_devices r')
    \<and> (\<forall>d. bt_get (rg_devices r') d =
        (case bt_get (rg_devices r) d of None \<Rightarrow> None
         | Some x \<Rightarrow> if ed_invite_id x = i then None else Some x))"
proof -
  define ids where "ids = fold (\<lambda>c acc. if claim_dev c \<in> set acc then acc else acc @ [claim_dev c])
    (is_claims s) (map (\<lambda>(_, d). ed_device_id d) (filter (\<lambda>(_, d). ed_invite_id d = i) (rg_devices r)))"
  have wf: "bt_wf (rg_devices r)" using registry_ok_wf [OF ok] by blast
  have "d \<in> set ids \<longleftrightarrow> (\<exists>x. bt_get (rg_devices r) d = Some x \<and> ed_invite_id x = i)" for d
  proof
    assume "d \<in> set ids"
    then consider (dev) k x where "(k, x) \<in> set (rg_devices r)" "ed_invite_id x = i" "ed_device_id x = d"
      | (claim) c where "c \<in> set (is_claims s)" "claim_dev c = d"
      by (auto simp: ids_def set_fold_new)
    then show "\<exists>x. bt_get (rg_devices r) d = Some x \<and> ed_invite_id x = i"
    proof cases
      case dev
      then show ?thesis using bt_wf_getD [OF wf] registry_device_ids [OF ok] by metis
    next
      case claim
      then have "claim_at r i c" using s by (auto simp: claim_at_def)
      from registry_ok_claim [OF ok this] claim show ?thesis
        by (auto simp: device_of_claim_def device_of_receipt_def)
    qed
  next
    assume "\<exists>x. bt_get (rg_devices r) d = Some x \<and> ed_invite_id x = i"
    then obtain x where x: "bt_get (rg_devices r) d = Some x" "ed_invite_id x = i" by blast
    have "ed_device_id x \<in> set (map (\<lambda>(_, d). ed_device_id d)
        (filter (\<lambda>(_, d). ed_invite_id d = i) (rg_devices r)))"
      using bt_get_setD [OF x(1)] x(2) by force
    then show "d \<in> set ids" using registry_device_ids [OF ok x(1)] by (simp add: ids_def set_fold_new)
  qed
  moreover have "rg_devices r' = fold bt_remove ids (rg_devices r)"
    using r' s by (auto simp: delete_invite_history_def Let_def ids_def set_invite_def)
  moreover have "\<exists>s'. rg_invites r' = bt_insert i s' (rg_invites r) \<and> is_claims s' = []
      \<and> is_revoked s' \<and> is_deleted s' \<and> is_fingerprint s' = is_fingerprint s"
    using r' s by (auto simp: delete_invite_history_def Let_def set_invite_def)
  ultimately show ?thesis using registry_ok_wf [OF ok]
    by (auto simp: fold_bt_remove fold_bt_remove_wf split: option.splits)
qed

lemma delete_invite_history_ok:
  assumes ok: "registry_ok r"
  shows "registry_ok (fst (delete_invite_history i r))"
proof (cases "bt_get (rg_invites r) i")
  case None
  then show ?thesis using ok by (simp add: delete_invite_history_def)
next
  case (Some s)
  obtain r' res where r': "delete_invite_history i r = (r', res)" by fastforce
  obtain s' where inv: "bt_get (rg_invites r') = (bt_get (rg_invites r))(i \<mapsto> s')"
    and s': "is_claims s' = []" and wf: "bt_wf (rg_invites r')" "bt_wf (rg_devices r')"
    and dev: "\<And>d. bt_get (rg_devices r') d = (case bt_get (rg_devices r) d of None \<Rightarrow> None
         | Some x \<Rightarrow> if ed_invite_id x = i then None else Some x)"
    using delete_invite_history_get [OF ok Some r'] by blast
  have at: "claim_at r' j c \<longleftrightarrow> j \<noteq> i \<and> claim_at r j c" for j c
    using s' by (auto simp: claim_at_def inv)
  have inv_id: "ed_invite_id (device_of_claim c) = rc_invite_id (cl_receipt c)" for c
    by (simp add: device_of_claim_def device_of_receipt_def)
  have "registry_ok r'"
  proof (rule registry_okI [OF wf])
    fix j c assume c: "claim_at r' j c"
    then show "rc_invite_id (cl_receipt c) = j
        \<and> bt_get (rg_devices r') (claim_dev c) = Some (device_of_claim c)"
      using registry_ok_claim [OF ok, of j c] at dev inv_id by simp
  next
    fix d x assume x: "bt_get (rg_devices r') d = Some x"
    then have old: "bt_get (rg_devices r) d = Some x" "ed_invite_id x \<noteq> i"
      using dev [of d] by (auto split: option.splits if_splits)
    obtain j c where c: "claim_at r j c" "claim_dev c = d" "x = device_of_claim c"
      using registry_ok_device [OF ok old(1)] by blast
    then show "\<exists>j c. claim_at r' j c \<and> claim_dev c = d \<and> x = device_of_claim c"
      using at registry_ok_claim [OF ok c(1)] old(2) inv_id by metis
  next
    fix j t assume "bt_get (rg_invites r') j = Some t"
    then show "distinct (map claim_dev (is_claims t))
        \<and> (is_revoked t \<longrightarrow> (\<forall>c \<in> set (is_claims t). cl_status c = RevokedStatus))"
      using inv s' registry_ok_invite [OF ok] by (auto split: if_splits)
  qed
  then show ?thesis by (simp add: r')
qed

lemma record_claim_Ok:
  assumes "record_claim pass fp now rc r = (r', res)" and i: "i = pb_invite_id (sp_payload pass)"
  shows "(res = Err PassConflict \<and> r' = set_invite i (invite_or_default r i) r)
    \<or> (res = Ok rc \<and> (\<exists>s'. bt_get (rg_invites r') = (bt_get (rg_invites r))(i \<mapsto> s')
        \<and> is_claims s' = is_claims (invite_or_default r i) @
            [\<lparr>cl_pass_fingerprint = fp, cl_receipt = rc, cl_status = PendingHostPersist\<rparr>]
        \<and> is_revoked s' = is_revoked (invite_or_default r i)
        \<and> is_closed s' = is_closed (invite_or_default r i)
        \<and> is_max_claims s' = Some (pb_max_claims (sp_payload pass)))
      \<and> bt_get (rg_devices r') = (bt_get (rg_devices r))
          (rc_device_id rc \<mapsto> device_of_receipt rc PendingHostPersist)
      \<and> (bt_wf (rg_invites r) \<longrightarrow> bt_wf (rg_invites r'))
      \<and> (bt_wf (rg_devices r) \<longrightarrow> bt_wf (rg_devices r')))"
  using assms(1) unfolding i
  by (auto simp: record_claim_def Let_def set_invite_def split: if_splits)

lemma record_claim_ok:
  assumes ok: "registry_ok r" and r': "record_claim pass fp now rc r = (r', res)"
    and i: "rc_invite_id rc = pb_invite_id (sp_payload pass)"
    and fresh: "bt_get (rg_devices r) (rc_device_id rc) = None"
    and live: "\<not> is_revoked (invite_or_default r (rc_invite_id rc))"
  shows "registry_ok r'"
proof -
  let ?i = "rc_invite_id rc" and ?s = "invite_or_default r (rc_invite_id rc)"
  let ?c = "\<lparr>cl_pass_fingerprint = fp, cl_receipt = rc, cl_status = PendingHostPersist\<rparr>"
  consider (conflict) "r' = set_invite ?i ?s r"
    | (recorded) s' where "bt_get (rg_invites r') = (bt_get (rg_invites r))(?i \<mapsto> s')"
        "is_claims s' = is_claims ?s @ [?c]" "is_revoked s' = is_revoked ?s"
        "bt_get (rg_devices r') = (bt_get (rg_devices r))
          (rc_device_id rc \<mapsto> device_of_receipt rc PendingHostPersist)"
        "bt_wf (rg_invites r')" "bt_wf (rg_devices r')"
    using record_claim_Ok [OF r' i] registry_ok_wf [OF ok] by blast
  then show ?thesis
  proof cases
    case conflict
    then show ?thesis
      using set_invite_metadata_ok [OF ok, where i = ?i and s' = ?s] invite_or_default_claims [of r ?i]
      by (auto split: option.splits)
  next
    case recorded
    have old: "c \<in> set (is_claims ?s) \<longleftrightarrow> claim_at r ?i c" for c
      using invite_or_default_claims [of r ?i] by (auto simp: claim_at_def split: option.splits)
    have at: "claim_at r' j c \<longleftrightarrow> claim_at r j c \<or> (j = ?i \<and> c = ?c)" for j c
      using old [of c] recorded(1,2) by (auto simp: claim_at_def)
    have dev: "claim_dev c \<noteq> rc_device_id rc" if "claim_at r j c" for j c
      using registry_ok_claim [OF ok that] fresh by auto
    show ?thesis
    proof (rule registry_okI [OF recorded(5,6)])
      fix j c assume "claim_at r' j c"
      then consider "claim_at r j c" | "j = ?i" "c = ?c" using at by blast
      then show "rc_invite_id (cl_receipt c) = j
          \<and> bt_get (rg_devices r') (claim_dev c) = Some (device_of_claim c)"
        using registry_ok_claim [OF ok, of j c] dev [of j c] recorded(4)
        by cases (simp_all add: device_of_claim_def)
    next
      fix d x assume x: "bt_get (rg_devices r') d = Some x"
      show "\<exists>j c. claim_at r' j c \<and> claim_dev c = d \<and> x = device_of_claim c"
      proof (cases "d = rc_device_id rc")
        case True
        then have "claim_at r' ?i ?c \<and> claim_dev ?c = d \<and> x = device_of_claim ?c"
          using x recorded(4) at by (simp add: device_of_claim_def)
        then show ?thesis by blast
      next
        case False
        then show ?thesis using x recorded(4) registry_ok_device [OF ok, of d x] at by auto
      qed
    next
      fix j t assume t: "bt_get (rg_invites r') j = Some t"
      show "distinct (map claim_dev (is_claims t))
          \<and> (is_revoked t \<longrightarrow> (\<forall>c \<in> set (is_claims t). cl_status c = RevokedStatus))"
      proof (cases "j = ?i")
        case True
        have "distinct (map claim_dev (is_claims ?s))"
        proof (cases "bt_get (rg_invites r) ?i")
        case None
        then show ?thesis using invite_or_default_claims [of r ?i] by simp
      next
        case (Some s)
        then show ?thesis
          using invite_or_default_claims [of r ?i] registry_ok_invite [OF ok Some] by simp
      qed
        moreover have "rc_device_id rc \<notin> claim_dev ` set (is_claims ?s)"
        proof
          assume "rc_device_id rc \<in> claim_dev ` set (is_claims ?s)"
          then obtain c where "c \<in> set (is_claims ?s)" "claim_dev c = rc_device_id rc" by force
          then show False using dev [of ?i c] old [of c] by simp
        qed
        moreover have "t = s'" using True t recorded(1) by simp
        ultimately show ?thesis unfolding \<open>t = s'\<close> recorded(2,3) using live by simp
      next
        case False
        then show ?thesis using t recorded(1) registry_ok_invite [OF ok] by simp
      qed
    qed
  qed
qed

lemma claim_checks_new:
  assumes "claim_checks cr js pass device now r = Ok (fp, None)"
    and "i = pb_invite_id (sp_payload pass)"
  shows "\<not> is_revoked (invite_or_default r i) \<and> \<not> is_closed (invite_or_default r i)
    \<and> (bt_get (rg_invites r) i \<noteq> None \<longrightarrow>
        length (is_claims (invite_or_default r i)) < unat (pb_max_claims (sp_payload pass)))
    \<and> pb_not_before_unix_ms (sp_payload pass) \<le> now \<and> now < pb_expires_unix_ms (sp_payload pass)
    \<and> pass_verify cr js pass = Ok (pb_controller (sp_payload pass))
    \<and> cp_controller_id (pb_controller (sp_payload pass)) = rg_controller_id r"
proof -
  obtain public where v: "pass_verify cr js pass = Ok public"
    and c: "cp_controller_id public = rg_controller_id r"
    and e: "claim_existing (bt_get (rg_invites r) i) fp device = Ok None"
    and w: "claim_window (bt_get (rg_invites r) i) (sp_payload pass) now = Ok ()"
    using assms by (auto simp: claim_checks_def bind_r_Ok Let_def split: if_splits option.splits)
  have "public = pb_controller (sp_payload pass)"
    using v by (auto simp: pass_verify_def bind_r_Ok split: if_splits)
  then show ?thesis using v c e w
    by (auto simp: claim_existing_def claim_window_def invite_or_default_def invite_default_def
        not_less not_le split: option.splits if_splits enrollment_status.splits)
qed

lemma claim_with_ceiling_new:
  assumes "claim_with_ceiling cr js drawn rnd pass device now ceiling r = Some (r', res)"
  shows "r' = r \<or> (\<exists>fp did token. claim_checks cr js pass device now r = Ok (fp, None)
    \<and> bt_get (rg_devices r) did = None \<and> rnd = Ok token
    \<and> record_claim pass fp now (claim_receipt pass device now ceiling did token r) r = (r', res))"
  using assms
  by (auto simp: claim_with_ceiling_def split: sum.splits prod.splits option.splits
      dest!: find_Some_iff)

lemma claim_with_ceiling_ok:
  assumes ok: "registry_ok r"
    and "claim_with_ceiling cr js drawn rnd pass device now ceiling r = Some (r', res)"
  shows "registry_ok r'"
proof -
  from claim_with_ceiling_new [OF assms(2)] consider "r' = r"
    | fp did token where "claim_checks cr js pass device now r = Ok (fp, None)"
      "bt_get (rg_devices r) did = None"
      "record_claim pass fp now (claim_receipt pass device now ceiling did token r) r = (r', res)"
    by blast
  then show ?thesis
  proof cases
    case 1
    then show ?thesis using ok by simp
  next
    case (2 fp did token)
    then show ?thesis
      using record_claim_ok [OF ok 2(3)] claim_checks_new [OF 2(1) refl]
      by (simp add: claim_receipt_def Let_def)
  qed
qed

subsection \<open>Steps\<close>

inductive reg_step :: "crypto \<Rightarrow> enroll_json \<Rightarrow> registry \<Rightarrow> registry \<Rightarrow> bool"
  for cr :: crypto and js :: enroll_json where
  step_register: "reg_step cr js r (fst (register_pass cr js pass r))"
| step_issue: "reg_step cr js r (fst (issue_bootstrap cr js ci pub rnd spec r))"
| step_claim: "claim_with_ceiling cr js drawn rnd pass device now ceiling r = Some (r', res)
    \<Longrightarrow> reg_step cr js r r'"
| step_finalize: "reg_step cr js r (fst (finalize_host_persist i did token r))"
| step_close: "reg_step cr js r (fst (close_invite i r))"
| step_revoke_invite: "reg_step cr js r (fst (revoke_invite i r))"
| step_delete: "reg_step cr js r (fst (delete_invite_history i r))"
| step_revoke_device: "reg_step cr js r (fst (revoke_device did r))"
| step_revoke_site: "reg_step cr js r (fst (revoke_site sid r))"
| step_close_all: "reg_step cr js r (close_all_invites r)"

lemma registry_new_ok: "registry_ok (registry_new c ceiling)"
  by (simp add: registry_ok_def registry_new_def claim_at_def)

lemma reg_step_ok: "reg_step cr js r r' \<Longrightarrow> registry_ok r \<Longrightarrow> registry_ok r'"
  by (induction rule: reg_step.induct)
     (simp_all add: register_pass_ok issue_bootstrap_ok claim_with_ceiling_ok
       finalize_host_persist_ok close_invite_ok revoke_invite_ok delete_invite_history_ok
       revoke_device_ok revoke_site_ok close_all_invites_ok)

lemma reg_steps_ok: "(reg_step cr js)\<^sup>*\<^sup>* r r' \<Longrightarrow> registry_ok r \<Longrightarrow> registry_ok r'"
  by (induction rule: rtranclp_induct) (auto intro: reg_step_ok)

definition invite_revoked :: "registry \<Rightarrow> invite_id \<Rightarrow> bool" where
  "invite_revoked r i \<longleftrightarrow> (case bt_get (rg_invites r) i of None \<Rightarrow> False | Some s \<Rightarrow> is_revoked s)"

lemma set_invite_revoked:
  "invite_revoked r i \<Longrightarrow> is_revoked (invite_or_default r j) \<longrightarrow> is_revoked s \<Longrightarrow>
     invite_revoked (set_invite j s r) i"
  by (auto simp: invite_revoked_def set_invite_def invite_or_default_def split: option.splits)

lemma register_pass_revoked:
  "invite_revoked r i \<Longrightarrow> invite_revoked (fst (register_pass cr js pass r)) i"
  by (auto simp: register_pass_def Let_def intro!: set_invite_revoked split: sum.splits option.splits)

lemma revoke_device_revoked:
  "invite_revoked r i \<Longrightarrow> invite_revoked (fst (revoke_device d r)) i"
  by (auto simp: revoke_device_def Let_def invite_revoked_def set_invite_def
      split: option.splits)

lemma revoke_devices_revoked:
  "invite_revoked r i \<Longrightarrow> invite_revoked (fst (revoke_devices ds r)) i"
proof (induction ds arbitrary: r)
  case Nil
  then show ?case by simp
next
  case (Cons d ds)
  have r1: "invite_revoked (fst (revoke_device d r)) i"
    by (rule revoke_device_revoked [OF Cons.prems])
  obtain r1 res where "revoke_device d r = (r1, res)" by fastforce
  then show ?case using r1 Cons.IH [of r1] by (auto split: sum.splits prod.splits)
qed

lemma claim_with_ceiling_revoked:
  assumes "claim_with_ceiling cr js drawn rnd pass device now ceiling r = Some (r', res)"
    and "invite_revoked r i"
  shows "invite_revoked r' i"
proof -
  from claim_with_ceiling_new [OF assms(1)] consider "r' = r"
    | fp did token where "claim_checks cr js pass device now r = Ok (fp, None)"
      "record_claim pass fp now (claim_receipt pass device now ceiling did token r) r = (r', res)"
    by blast
  then show ?thesis
  proof cases
    case 1
    then show ?thesis using assms(2) by simp
  next
    case 2
    have "\<not> is_revoked (invite_or_default r (pb_invite_id (sp_payload pass)))"
      using claim_checks_new [OF 2(1) refl] by blast
    then have "i \<noteq> pb_invite_id (sp_payload pass)"
      using assms(2) by (auto simp: invite_revoked_def invite_or_default_def split: option.splits)
    then show ?thesis using record_claim_Ok [OF 2(2) refl] assms(2)
      by (auto simp: invite_revoked_def set_invite_def)
  qed
qed

lemma reg_step_revoked: "reg_step cr js r r' \<Longrightarrow> invite_revoked r i \<Longrightarrow> invite_revoked r' i"
proof (induction rule: reg_step.induct)
  case (step_register r pass)
  then show ?case by (rule register_pass_revoked)
next
  case (step_issue r ci pub rnd spec)
  have "invite_revoked (fst (register_pass cr js pass r)) i" for pass
    by (rule register_pass_revoked [OF step_issue])
  then show ?case using step_issue
    by (simp add: issue_bootstrap_def split: sum.splits prod.splits) (metis fst_conv)
next
  case (step_claim drawn rnd pass device now ceiling r r' res)
  then show ?case by (metis claim_with_ceiling_revoked)
next
  case (step_finalize r j did token)
  then show ?case
    by (auto simp: finalize_host_persist_def Let_def invite_revoked_def set_invite_def
        split: option.splits)
next
  case (step_close r j)
  then show ?case by (auto simp: close_invite_def invite_revoked_def set_invite_def split: option.splits)
next
  case (step_revoke_invite r j)
  then show ?case
    by (auto simp: revoke_invite_def Let_def invite_revoked_def set_invite_def fold_device_status
        split: option.splits)
next
  case (step_delete r j)
  then show ?case
    by (auto simp: delete_invite_history_def Let_def invite_revoked_def set_invite_def
        split: option.splits)
next
  case (step_revoke_device r did)
  then show ?case by (rule revoke_device_revoked)
next
  case (step_revoke_site r sid)
  then show ?case by (simp add: revoke_site_def revoke_devices_revoked)
next
  case (step_close_all r)
  then show ?case by (auto simp: close_all_invites_def invite_revoked_def split: option.splits)
qed

lemma reg_steps_revoked:
  "(reg_step cr js)\<^sup>*\<^sup>* r r' \<Longrightarrow> invite_revoked r i \<Longrightarrow> invite_revoked r' i"
  by (induction rule: rtranclp_induct) (auto intro: reg_step_revoked)

subsection \<open>Properties\<close>

text \<open>C2: Whatever operations run on a registry, in whatever order and with whatever inputs,
  claims and devices keep describing the same enrollments: each enrolled device has exactly one
  claim, under the invite the device names, with the same grant and status; and each claim has
  its device.\<close>

theorem registry_consistent:
  assumes "(reg_step cr js)\<^sup>*\<^sup>* (registry_new c ceiling) r"
  shows "(\<forall>d x. bt_get (rg_devices r) d = Some x \<longrightarrow>
      (\<exists>!c. claim_at r (ed_invite_id x) c \<and> claim_dev c = d) \<and>
      (\<exists>c. claim_at r (ed_invite_id x) c \<and> x = device_of_claim c))
    \<and> (\<forall>i c. claim_at r i c \<longrightarrow> bt_get (rg_devices r) (claim_dev c) = Some (device_of_claim c))"
proof -
  have ok: "registry_ok r" by (rule reg_steps_ok [OF assms registry_new_ok])
  have "(\<exists>!c. claim_at r (ed_invite_id x) c \<and> claim_dev c = d) \<and>
      (\<exists>c. claim_at r (ed_invite_id x) c \<and> x = device_of_claim c)"
    if x: "bt_get (rg_devices r) d = Some x" for d x
  proof -
    obtain i c where c: "claim_at r i c" "claim_dev c = d" "x = device_of_claim c"
      using registry_ok_device [OF ok x] by blast
    have "ed_invite_id x = i"
      using registry_ok_claim [OF ok c(1)] c(3) by (simp add: device_of_claim_def device_of_receipt_def)
    then show ?thesis using c claim_unique [OF ok] by blast
  qed
  then show ?thesis using registry_ok_claim [OF ok] by blast
qed

lemma claim_checks_deployment:
  assumes "claim_checks cr js pass device now r = Ok (fp, None)"
    and "is_first_claim (invite_or_default r (pb_invite_id (sp_payload pass))) = Some first"
  shows "now < saturating_add first (pb_deployment_window_ms (sp_payload pass))"
proof -
  have "claim_window (bt_get (rg_invites r) (pb_invite_id (sp_payload pass))) (sp_payload pass) now = Ok ()"
    using assms(1) by (auto simp: claim_checks_def bind_r_Ok Let_def split: if_splits option.splits)
  then show ?thesis using assms(2)
    by (auto simp: claim_window_def invite_or_default_def invite_default_def not_le
        split: option.splits if_splits)
qed

lemma record_claim_first:
  assumes "record_claim pass fp now rc r = (r', Ok rc')" and "i = pb_invite_id (sp_payload pass)"
  shows "is_first_claim (invite_or_default r' i) =
    Some (case is_first_claim (invite_or_default r i) of None \<Rightarrow> now | Some t \<Rightarrow> t)"
  using assms
  by (auto simp: record_claim_def Let_def set_invite_def invite_or_default_def [of r']
      remember_pass_metadata_def split: if_splits option.splits)

text \<open>C3: A new enrollment stays within its pass: it happens inside the pass's validity and, when
  the invite had a claim before, inside the deployment window that began with the first one
  (the first claim begins it), on an invite neither revoked nor closed, of a controller whose
  signature verified; the receipt is for this pass's site and invite and this device under an id
  not in use; the grant is bounded by the pass, the policy ceiling and the claim's ceiling, and
  without \<open>execute\<close> grants nothing; and the invite then has at most \<open>max_claims\<close> claims.\<close>

theorem claim_within_pass:
  assumes "claim_with_ceiling cr js drawn rnd pass device now ceiling r = Some (r', Ok rc)"
    and "r' \<noteq> r" and "i = pb_invite_id (sp_payload pass)"
  shows "grant_le (rc_effective_grant rc) (pb_grant (sp_payload pass))
    \<and> grant_le (rc_effective_grant rc) (rg_policy_ceiling r)
    \<and> grant_le (rc_effective_grant rc) ceiling \<and> grant_needs_execute (rc_effective_grant rc)
    \<and> pb_not_before_unix_ms (sp_payload pass) \<le> now \<and> now < pb_expires_unix_ms (sp_payload pass)
    \<and> (\<forall>first. is_first_claim (invite_or_default r i) = Some first \<longrightarrow>
         now < saturating_add first (pb_deployment_window_ms (sp_payload pass)))
    \<and> is_first_claim (invite_or_default r' i) =
         Some (case is_first_claim (invite_or_default r i) of None \<Rightarrow> now | Some t \<Rightarrow> t)
    \<and> \<not> is_revoked (invite_or_default r i) \<and> \<not> is_closed (invite_or_default r i)
    \<and> pass_verify cr js pass = Ok (pb_controller (sp_payload pass))
    \<and> rc_invite_id rc = i \<and> rc_site_id rc = pb_site_id (sp_payload pass) \<and> rc_device_public rc = device
    \<and> bt_get (rg_devices r) (rc_device_id rc) = None
    \<and> length (is_claims (invite_or_default r' i)) \<le> unat (pb_max_claims (sp_payload pass))"
proof -
  obtain fp did token where ch: "claim_checks cr js pass device now r = Ok (fp, None)"
    and did: "bt_get (rg_devices r) did = None"
    and rec: "record_claim pass fp now (claim_receipt pass device now ceiling did token r) r = (r', Ok rc)"
    using claim_with_ceiling_new [OF assms(1)] assms(2) by blast
  let ?rc = "claim_receipt pass device now ceiling did token r"
  have rc: "rc = ?rc" and s': "length (is_claims (invite_or_default r' i)) =
      Suc (length (is_claims (invite_or_default r i)))"
    using record_claim_Ok [OF rec assms(3)] by (auto simp: invite_or_default_def)
  note new = claim_checks_new [OF ch assms(3)]
  have "pb_max_claims (sp_payload pass) \<noteq> 0"
    using new by (auto simp: pass_verify_def validate_payload_def spec_validate_def payload_spec_def
        bind_r_Ok Let_def split: if_splits)
  then have "0 < unat (pb_max_claims (sp_payload pass))" by (simp add: unat_gt_0)
  then have "Suc (length (is_claims (invite_or_default r i))) \<le> unat (pb_max_claims (sp_payload pass))"
    using new by (cases "bt_get (rg_invites r) i") (simp_all add: invite_or_default_def invite_default_def)
  moreover have "grant_le (rc_effective_grant rc) (pb_grant (sp_payload pass))"
    "grant_le (rc_effective_grant rc) (rg_policy_ceiling r)"
    "grant_le (rc_effective_grant rc) ceiling" "grant_needs_execute (rc_effective_grant rc)"
    using intersect_le intersect_needs_execute grant_le_trans
    unfolding rc claim_receipt_def Let_def receipt.simps by blast+
  moreover have "rc_device_id rc = did" "rc_invite_id rc = i" "rc_site_id rc = pb_site_id (sp_payload pass)"
    "rc_device_public rc = device"
    by (simp_all add: rc claim_receipt_def Let_def assms(3))
  moreover have "\<forall>first. is_first_claim (invite_or_default r i) = Some first \<longrightarrow>
      now < saturating_add first (pb_deployment_window_ms (sp_payload pass))"
    using claim_checks_deployment [OF ch] assms(3) by blast
  moreover note record_claim_first [OF rec assms(3)]
  ultimately show ?thesis using new s' did by simp
qed

text \<open>Claiming is idempotent until it is finalized: after a successful claim, claiming again
  with the same pass and device, at any later time and under any ceiling, returns the same
  receipt and changes nothing.\<close>

theorem claim_idempotent:
  assumes "claim_with_ceiling cr js drawn rnd pass device now ceiling r = Some (r', Ok rc)"
  shows "claim_with_ceiling cr js drawn' rnd' pass device now' ceiling' r' = Some (r', Ok rc)"
proof -
  let ?i = "pb_invite_id (sp_payload pass)"
  obtain fp ex where chk: "claim_checks cr js pass device now r = Ok (fp, ex)"
    and res: "ex = Some rc \<and> r' = r \<or> ex = None \<and> (\<exists>did token.
      record_claim pass fp now (claim_receipt pass device now ceiling did token r) r = (r', Ok rc))"
    using assms by (auto simp: claim_with_ceiling_def split: sum.splits prod.splits option.splits)
  obtain public where v: "pass_verify cr js pass = Ok public" "device_validate cr device = Ok ()"
      "cp_controller_id public = rg_controller_id r" "pass_fingerprint cr js pass = Ok fp"
    using chk by (auto simp: claim_checks_def bind_r_Ok Let_def split: option.splits if_splits)
  have ch: "claim_checks cr js pass device now r = Ok (fp, Some rc) \<and> r' = r
      \<or> (\<exists>did token. claim_checks cr js pass device now r = Ok (fp, None)
          \<and> record_claim pass fp now (claim_receipt pass device now ceiling did token r) r = (r', Ok rc))"
    using chk res by blast
  have ctl: "rg_controller_id r' = rg_controller_id r"
    using ch by (auto simp: record_claim_def Let_def set_invite_def split: if_splits)
  have "claim_existing (bt_get (rg_invites r') ?i) fp device = Ok (Some rc)"
    using ch
  proof
    assume "claim_checks cr js pass device now r = Ok (fp, Some rc) \<and> r' = r"
    then show ?thesis
      using v by (auto simp: claim_checks_def bind_r_Ok Let_def split: option.splits if_splits)
  next
    assume "\<exists>did token. claim_checks cr js pass device now r = Ok (fp, None)
      \<and> record_claim pass fp now (claim_receipt pass device now ceiling did token r) r = (r', Ok rc)"
    then obtain did token where new: "claim_checks cr js pass device now r = Ok (fp, None)"
      and rec: "record_claim pass fp now (claim_receipt pass device now ceiling did token r) r = (r', Ok rc)"
      by blast
    have e: "claim_existing (bt_get (rg_invites r) ?i) fp device = Ok None"
      using new v by (auto simp: claim_checks_def bind_r_Ok Let_def split: option.splits if_splits)
    have rc: "rc_device_public rc = device"
      using record_claim_Ok [OF rec refl] by (auto simp: claim_receipt_def Let_def)
    obtain s' where s': "bt_get (rg_invites r') ?i = Some s'" "\<not> is_revoked s'"
      "is_claims s' = is_claims (invite_or_default r ?i) @
         [\<lparr>cl_pass_fingerprint = fp, cl_receipt = rc, cl_status = PendingHostPersist\<rparr>]"
      "is_fingerprint s' = Some fp"
      using rec claim_checks_new [OF new refl]
      by (auto simp: record_claim_def Let_def set_invite_def split: if_splits)
    have "find (\<lambda>c. rc_device_public (cl_receipt c) = device) (is_claims (invite_or_default r ?i)) = None"
      using e by (auto simp: claim_existing_def invite_or_default_def invite_default_def
          split: option.splits if_splits enrollment_status.splits)
    then show ?thesis using s' rc
      by (simp add: claim_existing_def find_append)
  qed
  then have "claim_checks cr js pass device now' r' = Ok (fp, Some rc)"
    using v ctl by (simp add: claim_checks_def Let_def)
  then show ?thesis by (simp add: claim_with_ceiling_def)
qed

text \<open>C4: Revocation is final. Once an invite of a reachable registry is revoked, then whatever
  operations follow it stays revoked, no device enrolled through it is active, and a claim on a
  pass of that invite never succeeds.\<close>

theorem revoked_invite_final:
  assumes "(reg_step cr js)\<^sup>*\<^sup>* (registry_new c ceiling) r" and "invite_revoked r i"
    and "(reg_step cr js)\<^sup>*\<^sup>* r r'"
  shows "invite_revoked r' i
    \<and> (\<forall>d x. bt_get (rg_devices r') d = Some x \<longrightarrow> ed_invite_id x = i \<longrightarrow>
         ed_status x = RevokedStatus \<and> \<not> is_device_active r' d)
    \<and> (pb_invite_id (sp_payload pass) = i \<longrightarrow>
         claim_with_ceiling cr js drawn rnd pass device now ceiling' r' \<noteq> Some (r'', Ok rc))"
proof -
  have rev: "invite_revoked r' i" by (rule reg_steps_revoked [OF assms(3,2)])
  have ok: "registry_ok r'"
    using assms(1,3) reg_steps_ok registry_new_ok by (meson rtranclp_trans)
  obtain s where s: "bt_get (rg_invites r') i = Some s" "is_revoked s"
    using rev by (auto simp: invite_revoked_def split: option.splits)
  have dev: "ed_status x = RevokedStatus"
    if x: "bt_get (rg_devices r') d = Some x" "ed_invite_id x = i" for d x
  proof -
    obtain j cl where cl: "claim_at r' j cl" "x = device_of_claim cl"
      using registry_ok_device [OF ok x(1)] by blast
    have "j = i"
      using registry_ok_claim [OF ok cl(1)] cl(2) x(2)
      by (simp add: device_of_claim_def device_of_receipt_def)
    then have "cl_status cl = RevokedStatus"
      using cl(1) s registry_ok_invite [OF ok s(1)] by (auto simp: claim_at_def)
    then show ?thesis by (simp add: cl(2) device_of_claim_def device_of_receipt_def)
  qed
  have "claim_with_ceiling cr js drawn rnd pass device now ceiling' r' \<noteq> Some (r'', Ok rc)"
    if "pb_invite_id (sp_payload pass) = i"
    using that s
    by (auto simp: claim_with_ceiling_def claim_checks_def claim_existing_def bind_r_Ok Let_def
        split: sum.splits prod.splits option.splits if_splits)
  then show ?thesis using rev dev by (auto simp: is_device_active_def)
qed

text \<open>A device becomes active only with its token: when the host's acknowledgement succeeds,
  the invite has a claim of that device whose persist token is exactly the one presented, and
  that device, and no other, has changed, to active.\<close>

theorem finalize_needs_token:
  assumes "registry_ok r" and "finalize_host_persist i did token r = (r', Ok d)"
    and "\<forall>c. claim_at r i c \<longrightarrow> length (rc_persist_ack_token (cl_receipt c)) = length token"
  shows "(\<exists>c. claim_at r i c \<and> claim_dev c = did \<and> rc_persist_ack_token (cl_receipt c) = token
      \<and> cl_status c \<noteq> RevokedStatus)
    \<and> is_device_active r' did \<and> (\<forall>k. k \<noteq> did \<longrightarrow> bt_get (rg_devices r') k = bt_get (rg_devices r) k)"
proof -
  obtain s c where s: "bt_get (rg_invites r) i = Some s"
    and f: "find (\<lambda>c. claim_dev c = did) (is_claims s) = Some c"
    and t: "constant_time_eq (rc_persist_ack_token (cl_receipt c)) token" "cl_status c \<noteq> RevokedStatus"
    and r': "\<exists>x. bt_get (rg_devices r) (claim_dev c) = Some x
      \<and> rg_devices r' = bt_update (claim_dev c) (\<lambda>_. x\<lparr>ed_status := Active\<rparr>) (rg_devices r)"
    using assms(2)
    by (auto simp: finalize_host_persist_def Let_def set_invite_def split: option.splits if_splits)
  have c: "claim_at r i c" "claim_dev c = did"
    using find_Some_iff [OF f] s by (auto simp: claim_at_def)
  have "rc_persist_ack_token (cl_receipt c) = token"
    using t(1) assms(3) c(1) constant_time_eq_iff by blast
  then show ?thesis using c t(2) r' by (auto simp: is_device_active_def)
qed

subsection \<open>Witnesses\<close>

definition toy_enroll_json :: enroll_json where
  "toy_enroll_json = \<lparr>payload_to_vec = \<lambda>_. Ok [3], signed_to_vec = \<lambda>_. Ok [4]\<rparr>"

definition toy_pass :: signed_pass where
  "toy_pass =
     \<lparr>sp_payload =
        \<lparr>pb_version = 1, pb_controller = toy_controller, pb_site_id = 1, pb_invite_id = 5,
         pb_site_name = ''lab'', pb_grant = EXECUTE_READ_CONNECTOR, pb_not_before_unix_ms = 10,
         pb_expires_unix_ms = 20, pb_deployment_window_ms = 5, pb_max_claims = 2,
         pb_secret_hash = replicate 32 1\<rparr>,
      sp_secret = [1],
      sp_signature = ed_sign toy_crypto [7] (BOOTSTRAP_SIGNATURE_DOMAIN @ [3])\<rparr>"

lemma toy_pass_verify: "pass_verify toy_crypto toy_enroll_json toy_pass = Ok toy_controller"
proof -
  have "spec_validate (payload_spec (sp_payload toy_pass)) = Ok ()"
    by (simp add: spec_validate_def payload_spec_def toy_pass_def Let_def bounds_simps trim_def ascii_defs)
  moreover have "controller_verify_payload toy_crypto toy_controller BOOTSTRAP_SIGNATURE_DOMAIN (Ok [3])
      (ed_sign toy_crypto [7] (BOOTSTRAP_SIGNATURE_DOMAIN @ [3])) = Ok ()"
    using toy_controller_ok toy_crypto_ok(2)
    by (simp add: controller_verify_payload_Ok toy_controller_def ed25519_key_ok_def)
       (simp add: toy_crypto_def)
  moreover have "bootstrap_secret_hash toy_crypto [1] = replicate 32 1"
    by (simp add: bootstrap_secret_hash_def toy_crypto_def)
  ultimately show ?thesis
    using toy_controller_ok
    by (simp add: pass_verify_def validate_payload_def toy_pass_def toy_enroll_json_def BOOTSTRAP_VERSION_def)
qed

definition toy_registry :: registry where
  "toy_registry = registry_new (cp_controller_id toy_controller) EXECUTE_READ"

definition toy_device :: device_public_identity where "toy_device = \<lparr>dp_public_key = [8]\<rparr>"

definition toy_receipt :: receipt where
  "toy_receipt = claim_receipt toy_pass toy_device 12 EXECUTE_READ 9 [42] toy_registry"

definition toy_claimed :: registry where
  "toy_claimed = fst (record_claim toy_pass (replicate 32 4) 12 toy_receipt toy_registry)"

lemma toy_claim:
  "claim_with_ceiling toy_crypto toy_enroll_json [9] (Ok [42]) toy_pass toy_device 12 EXECUTE_READ
     toy_registry = Some (toy_claimed, Ok toy_receipt)"
proof -
  have fp: "pass_fingerprint toy_crypto toy_enroll_json toy_pass = Ok (replicate 32 4)"
    by (simp add: pass_fingerprint_def toy_enroll_json_def toy_crypto_def BOOTSTRAP_FINGERPRINT_DOMAIN_def)
  have dev: "device_validate toy_crypto toy_device = Ok ()"
    by (simp add: device_validate_def toy_device_def toy_crypto_def)
  have "claim_checks toy_crypto toy_enroll_json toy_pass toy_device 12 toy_registry
      = Ok (replicate 32 4, None)"
    using toy_pass_verify fp dev
    by (simp add: claim_checks_def toy_registry_def registry_new_def claim_existing_def
        claim_window_def Let_def toy_pass_def)
  then show ?thesis
    by (simp add: claim_with_ceiling_def toy_registry_def registry_new_def toy_claimed_def
        toy_receipt_def record_claim_def invite_or_default_def invite_default_def Let_def)
qed

lemma toy_claimed_steps:
  "(reg_step toy_crypto toy_enroll_json)\<^sup>*\<^sup>* toy_registry toy_claimed"
  using step_claim [OF toy_claim] by blast

lemma toy_claimed_invite:
  "\<exists>s. bt_get (rg_invites toy_claimed) 5 = Some s
     \<and> is_claims s = [\<lparr>cl_pass_fingerprint = replicate 32 4, cl_receipt = toy_receipt,
         cl_status = PendingHostPersist\<rparr>] \<and> \<not> is_revoked s"
  "bt_get (rg_devices toy_claimed) 9 = Some (device_of_receipt toy_receipt PendingHostPersist)"
  "rc_device_id toy_receipt = 9" "rc_invite_id toy_receipt = 5" "rc_persist_ack_token toy_receipt = [42]"
  by (simp_all add: toy_claimed_def record_claim_def toy_registry_def registry_new_def
      toy_pass_def invite_or_default_def invite_default_def set_invite_def Let_def
      remember_pass_metadata_def toy_receipt_def claim_receipt_def)

lemma registry_consistent_witness:
  "\<exists>x. bt_get (rg_devices toy_claimed) 9 = Some x \<and>
     (\<exists>c. claim_at toy_claimed (ed_invite_id x) c \<and> x = device_of_claim c)"
  using registry_consistent [OF toy_claimed_steps [unfolded toy_registry_def]] toy_claimed_invite(2)
  by blast

lemma toy_registry_devices: "bt_get (rg_devices toy_registry) d = None"
  by (simp add: toy_registry_def registry_new_def)

lemma claim_within_pass_witness:
  "grant_le (rc_effective_grant toy_receipt) EXECUTE_READ
   \<and> length (is_claims (invite_or_default toy_claimed 5)) \<le> 2"
proof -
  have "toy_claimed \<noteq> toy_registry"
    using toy_claimed_invite(2) by (metis toy_registry_devices option.distinct(1))
  from claim_within_pass [OF toy_claim this, of 5] show ?thesis by (simp add: toy_pass_def)
qed

lemma claim_idempotent_witness:
  "claim_with_ceiling toy_crypto toy_enroll_json [] (Ok []) toy_pass toy_device 99 EXECUTE_READ
     toy_claimed = Some (toy_claimed, Ok toy_receipt)"
  by (rule claim_idempotent [OF toy_claim])

lemma revoked_invite_final_witness:
  "\<not> is_device_active (fst (revoke_invite 5 toy_claimed)) 9"
proof -
  let ?r = "fst (revoke_invite 5 toy_claimed)"
  have steps: "(reg_step toy_crypto toy_enroll_json)\<^sup>*\<^sup>* (registry_new (cp_controller_id toy_controller) EXECUTE_READ) ?r"
    using toy_claimed_steps step_revoke_invite unfolding toy_registry_def
    by (meson rtranclp.rtrancl_into_rtrancl)
  obtain s where s: "bt_get (rg_invites toy_claimed) 5 = Some s" using toy_claimed_invite(1) by blast
  then have rev: "invite_revoked ?r 5"
    by (simp add: revoke_invite_def Let_def invite_revoked_def fold_device_status set_invite_def)
  have "\<exists>x. bt_get (rg_devices ?r) 9 = Some x \<and> ed_invite_id x = 5"
    using s toy_claimed_invite
    by (auto simp: revoke_invite_def Let_def fold_device_status set_invite_def device_of_receipt_def)
  then show ?thesis
    using revoked_invite_final [OF steps rev rtranclp.rtrancl_refl] by blast
qed

lemma finalize_needs_token_witness:
  "is_device_active (fst (finalize_host_persist 5 9 [42] toy_claimed)) 9"
proof -
  have ok: "registry_ok toy_claimed"
    using reg_steps_ok [OF toy_claimed_steps] registry_new_ok by (simp add: toy_registry_def)
  have "\<exists>d. snd (finalize_host_persist 5 9 [42] toy_claimed) = Ok d"
    using toy_claimed_invite
    by (auto simp: finalize_host_persist_def constant_time_eq_def Let_def set_invite_def)
  then obtain d where "finalize_host_persist 5 9 [42] toy_claimed =
      (fst (finalize_host_persist 5 9 [42] toy_claimed), Ok d)" by (metis prod.collapse)
  moreover have "\<forall>c. claim_at toy_claimed 5 c \<longrightarrow>
      length (rc_persist_ack_token (cl_receipt c)) = length [42 :: u8]"
    using toy_claimed_invite by (auto simp: claim_at_def)
  ultimately show ?thesis using finalize_needs_token [OF ok] by blast
qed

end
