(* ===== verification/Inner.thy ===== *)
theory Inner
  imports Keys
begin

section \<open>Inner sessions (clew-transport, inner.rs)\<close>

text \<open>
  Business messages, their frame with wire major, sequence and lengths, the session that seals
  and opens frames and is poisoned by the first failure, and the identity proofs that bind a
  session to a controller, a site and a device. The Noise transport is third-party code: \<open>'n\<close> is
  its state, and \<open>noise\<close> holds the two calls the program makes. Packets that arrive from or go
  to the network are arguments.
\<close>

definition WIRE_MAJOR :: u32 where "WIRE_MAJOR = 1"
definition MAX_NOISE_PACKET :: nat where [bounds_simps]: "MAX_NOISE_PACKET = 65535"
definition MAX_IDENTITY_PROOF :: nat where [bounds_simps]: "MAX_IDENTITY_PROOF = 8 * 1024"
definition MAX_INNER_PLAINTEXT :: nat where [bounds_simps]: "MAX_INNER_PLAINTEXT = 60 * 1024"
definition MAX_MESSAGE_KIND_BYTES :: nat where [bounds_simps]: "MAX_MESSAGE_KIND_BYTES = 64"
definition BUSINESS_FRAME_HEADER_BYTES :: nat where
  [bounds_simps]: "BUSINESS_FRAME_HEADER_BYTES = 4 + 8 + 1 + 4"

datatype inner_role = ControllerRole | DeviceRole

datatype inner_error =
    InvalidNoisePattern
  | NoiseFailed string
  | InnerIdentity identity_error
  | InnerJson json_error
  | InnerIo io_kind
  | HandshakeTimeout
  | IdentityBindingMismatch
  | IdentityProofTooLarge usize
  | CiphertextTooLarge usize
  | PlaintextTooLarge usize
  | InvalidMessageKind
  | MalformedBusinessFrame
  | InvalidMessageKindEncoding
  | WrongWireMajor u32
  | UnexpectedSequence u64 u64
  | SessionPoisoned
  | SequenceExhausted

record inner_message =
  im_kind :: string
  im_payload :: bytes

definition usize_max :: usize where "usize_max = 2 ^ 64 - 1"

definition message_validate :: "inner_message \<Rightarrow> (inner_error, unit) result" where
  "message_validate m =
     (if im_kind m = [] \<or> length (im_kind m) > MAX_MESSAGE_KIND_BYTES then Err InvalidMessageKind
      else bind_r (ok_or (Option.bind (usize_checked_add BUSINESS_FRAME_HEADER_BYTES (length (im_kind m)))
                     (\<lambda>v. usize_checked_add v (length (im_payload m))))
                   (PlaintextTooLarge usize_max)) (\<lambda>encoded_len.
        if encoded_len > MAX_INNER_PLAINTEXT then Err (PlaintextTooLarge encoded_len) else Ok ()))"

definition inner_message_new :: "string \<Rightarrow> bytes \<Rightarrow> (inner_error, inner_message) result" where
  "inner_message_new kind payload =
     (let m = \<lparr>im_kind = kind, im_payload = payload\<rparr> in
      bind_r (message_validate m) (\<lambda>_. Ok m))"

definition encode_business_frame :: "u64 \<Rightarrow> inner_message \<Rightarrow> (inner_error, bytes) result" where
  "encode_business_frame sequence m =
     bind_r (message_validate m) (\<lambda>_.
       if length (im_kind m) \<ge> 2 ^ 8 then Err InvalidMessageKind
       else if length (im_payload m) \<ge> 2 ^ 32 then Err (PlaintextTooLarge (length (im_payload m)))
       else bind_r (ok_or (Option.bind (usize_checked_add BUSINESS_FRAME_HEADER_BYTES (length (im_kind m)))
                      (\<lambda>v. usize_checked_add v (length (im_payload m)))) MalformedBusinessFrame)
         (\<lambda>total.
           if total > MAX_INNER_PLAINTEXT then Err (PlaintextTooLarge total)
           else Ok (u32_to_be WIRE_MAJOR @ u64_to_be sequence @ [word_of_nat (length (im_kind m))]
                    @ u32_to_be (word_of_nat (length (im_payload m)))
                    @ as_bytes (im_kind m) @ im_payload m)))"

definition sub_slice :: "usize \<Rightarrow> usize \<Rightarrow> 'a list \<Rightarrow> 'a list" where
  "sub_slice a b xs = take (b - a) (drop a xs)"

definition decode_business_frame ::
    "bytes \<Rightarrow> (inner_error, u32 \<times> u64 \<times> inner_message) result" where
  "decode_business_frame frame =
     (if length frame < BUSINESS_FRAME_HEADER_BYTES \<or> length frame > MAX_INNER_PLAINTEXT
      then Err MalformedBusinessFrame
      else
        (let wire_major = u32_from_be (sub_slice 0 4 frame);
             sequence = u64_from_be (sub_slice 4 12 frame);
             kind_len = unat (frame ! 12);
             payload_len = unat (u32_from_be (sub_slice 13 17 frame)) in
         if kind_len = 0 \<or> kind_len > MAX_MESSAGE_KIND_BYTES then Err InvalidMessageKind
         else
           (let kind_start = BUSINESS_FRAME_HEADER_BYTES in
            bind_r (ok_or (usize_checked_add kind_start kind_len) MalformedBusinessFrame)
              (\<lambda>payload_start.
            bind_r (ok_or (usize_checked_add payload_start payload_len) MalformedBusinessFrame)
              (\<lambda>end.
              if end \<noteq> length frame then Err MalformedBusinessFrame
              else bind_r (ok_or (from_utf8 (sub_slice kind_start payload_start frame))
                             InvalidMessageKindEncoding) (\<lambda>kind.
                let message = \<lparr>im_kind = kind, im_payload = sub_slice payload_start end frame\<rparr> in
                bind_r (message_validate message) (\<lambda>_. Ok (wire_major, sequence, message))))))))"

subsection \<open>Sessions\<close>

record 'n noise =
  noise_write :: "'n \<Rightarrow> bytes \<Rightarrow> 'n \<times> (string, bytes) result"
  noise_read :: "'n \<Rightarrow> bytes \<Rightarrow> 'n \<times> (string, bytes) result"

record 'n inner_session =
  ss_transport :: 'n
  send_sequence :: u64
  recv_sequence :: u64
  poisoned :: bool
  peer_role :: inner_role
  ss_controller_id :: controller_id
  ss_device_id :: device_id
  ss_site_id :: site_id

definition session_new ::
    "'n \<Rightarrow> inner_role \<Rightarrow> controller_id \<Rightarrow> device_id \<Rightarrow> site_id \<Rightarrow> 'n inner_session" where
  "session_new transport role c d s =
     \<lparr>ss_transport = transport, send_sequence = 0, recv_sequence = 0, poisoned = False,
      peer_role = role, ss_controller_id = c, ss_device_id = d, ss_site_id = s\<rparr>"

definition seal ::
    "'n noise \<Rightarrow> inner_message \<Rightarrow> 'n inner_session \<Rightarrow> 'n inner_session \<times> (inner_error, bytes) result" where
  "seal nz m s =
     (if poisoned s then (s, Err SessionPoisoned)
      else case bind_r (message_validate m) (\<lambda>_. encode_business_frame (send_sequence s) m) of
        Inl e \<Rightarrow> (s, Err e)
      | Inr plaintext \<Rightarrow>
          (case noise_write nz (ss_transport s) plaintext of
             (t, Inl e) \<Rightarrow> (s\<lparr>ss_transport := t\<rparr>, Err (NoiseFailed e))
           | (t, Inr ciphertext) \<Rightarrow>
               (case checked_add (send_sequence s) 1 of
                  None \<Rightarrow> (s\<lparr>ss_transport := t\<rparr>, Err SequenceExhausted)
                | Some next_seq \<Rightarrow>
                    (s\<lparr>ss_transport := t, send_sequence := next_seq\<rparr>, Ok ciphertext))))"

text \<open>The closure of \<^verbatim>\<open>open\<close>, before its result decides whether the session is poisoned.\<close>

definition open_checked ::
    "'n noise \<Rightarrow> bytes \<Rightarrow> 'n inner_session \<Rightarrow> 'n inner_session \<times> (inner_error, inner_message) result" where
  "open_checked nz ciphertext s =
     (if length ciphertext > MAX_NOISE_PACKET then (s, Err (CiphertextTooLarge (length ciphertext)))
      else case noise_read nz (ss_transport s) ciphertext of
        (t, Inl e) \<Rightarrow> (s\<lparr>ss_transport := t\<rparr>, Err (NoiseFailed e))
      | (t, Inr plaintext) \<Rightarrow>
          (let s1 = s\<lparr>ss_transport := t\<rparr> in
           if length plaintext > MAX_INNER_PLAINTEXT then (s1, Err (PlaintextTooLarge (length plaintext)))
           else case decode_business_frame plaintext of
             Inl e \<Rightarrow> (s1, Err e)
           | Inr (wire_major, sequence, message) \<Rightarrow>
               if wire_major \<noteq> WIRE_MAJOR then (s1, Err (WrongWireMajor wire_major))
               else if sequence \<noteq> recv_sequence s
               then (s1, Err (UnexpectedSequence (recv_sequence s) sequence))
               else (case message_validate message of
                  Inl e \<Rightarrow> (s1, Err e)
                | Inr _ \<Rightarrow>
                    (case checked_add (recv_sequence s) 1 of
                       None \<Rightarrow> (s1, Err SequenceExhausted)
                     | Some next_seq \<Rightarrow> (s1\<lparr>recv_sequence := next_seq\<rparr>, Ok message)))))"

definition open_frame ::
    "'n noise \<Rightarrow> bytes \<Rightarrow> 'n inner_session \<Rightarrow> 'n inner_session \<times> (inner_error, inner_message) result" where
  "open_frame nz ciphertext s =
     (if poisoned s then (s, Err SessionPoisoned)
      else case open_checked nz ciphertext s of
        (s', Inl e) \<Rightarrow> (s'\<lparr>poisoned := True\<rparr>, Err e)
      | (s', Inr m) \<Rightarrow> (s', Ok m))"

text \<open>\<open>written\<close> and \<open>packet\<close> are what the stream did with the packet.\<close>

definition write_packet :: "(inner_error, unit) result \<Rightarrow> bytes \<Rightarrow> (inner_error, unit) result" where
  "write_packet written payload =
     (if length payload > MAX_NOISE_PACKET then Err (CiphertextTooLarge (length payload))
      else written)"

text \<open>\<open>header\<close> is the length the stream yields, \<open>body\<close> what \<^verbatim>\<open>read_exact\<close> yields for a length.\<close>

definition read_packet ::
    "(inner_error, u32) result \<Rightarrow> (usize \<Rightarrow> (inner_error, bytes) result) \<Rightarrow> (inner_error, bytes) result" where
  "read_packet header body =
     bind_r header (\<lambda>w. let len = unat w in
       if len > MAX_NOISE_PACKET then Err (CiphertextTooLarge len) else body len)"

definition send ::
    "'n noise \<Rightarrow> (bytes \<Rightarrow> (inner_error, unit) result) \<Rightarrow> inner_message \<Rightarrow> 'n inner_session
     \<Rightarrow> 'n inner_session \<times> (inner_error, unit) result" where
  "send nz stream m s =
     (case seal nz m s of
        (s', Inl e) \<Rightarrow> (s', Err e)
      | (s', Inr ciphertext) \<Rightarrow>
          (case write_packet (stream ciphertext) ciphertext of
             Inl e \<Rightarrow> (s'\<lparr>poisoned := True\<rparr>, Err e)
           | Inr _ \<Rightarrow> (s', Ok ())))"

definition recv ::
    "'n noise \<Rightarrow> (inner_error, bytes) result \<Rightarrow> 'n inner_session
     \<Rightarrow> 'n inner_session \<times> (inner_error, inner_message) result" where
  "recv nz packet s =
     (if poisoned s then (s, Err SessionPoisoned)
      else case packet of
        Inl e \<Rightarrow> (s\<lparr>poisoned := True\<rparr>, Err e)
      | Inr ciphertext \<Rightarrow> open_frame nz ciphertext s)"

subsection \<open>Frames\<close>

definition message_ok :: "inner_message \<Rightarrow> bool" where
  "message_ok m \<longleftrightarrow> im_kind m \<noteq> [] \<and> length (im_kind m) \<le> 64
     \<and> 17 + length (im_kind m) + length (im_payload m) \<le> 61440"

lemma message_validate_Ok [result_simps]: "message_validate m = Ok u \<longleftrightarrow> message_ok m"
  by (auto simp: message_validate_def message_ok_def usize_checked_add_def bind_r_Ok bounds_simps
      split: if_splits)

lemma inner_message_new_Ok [result_simps]:
  "inner_message_new k p = Ok m \<longleftrightarrow> m = \<lparr>im_kind = k, im_payload = p\<rparr> \<and> message_ok m"
  by (auto simp: inner_message_new_def Let_def bind_r_Ok message_validate_Ok)

lemma encode_business_frame_Ok:
  "encode_business_frame q m = Ok f \<longleftrightarrow> message_ok m
     \<and> f = u32_to_be WIRE_MAJOR @ u64_to_be q @ [word_of_nat (length (im_kind m))]
         @ u32_to_be (word_of_nat (length (im_payload m))) @ as_bytes (im_kind m) @ im_payload m"
proof -
  have "message_ok m \<Longrightarrow> length (im_kind m) < 256 \<and> length (im_payload m) < 2 ^ 32
      \<and> 17 + length (im_kind m) + length (im_payload m) < 2 ^ 64
      \<and> 17 + length (im_kind m) + length (im_payload m) \<le> 61440"
    by (simp add: message_ok_def)
  then show ?thesis
    by (auto simp: encode_business_frame_def bind_r_Ok message_validate_Ok usize_checked_add_def
        bounds_simps split: if_splits)
qed

lemma sub_slice_parts:
  "length a = 4 \<Longrightarrow> sub_slice 0 4 (a @ r) = a"
  "length a = 4 \<Longrightarrow> length b = 8 \<Longrightarrow> sub_slice 4 12 (a @ b @ r) = b"
  "length a = 4 \<Longrightarrow> length b = 8 \<Longrightarrow> (a @ b @ x # r) ! 12 = x"
  "length a = 4 \<Longrightarrow> length b = 8 \<Longrightarrow> length c = 4 \<Longrightarrow> sub_slice 13 17 (a @ b @ x # c @ r) = c"
  by (simp_all add: sub_slice_def nth_append)

lemma sub_slice_middle:
  "length a = n \<Longrightarrow> n + length k = m \<Longrightarrow> sub_slice n m (a @ k @ r) = k"
  by (auto simp: sub_slice_def)

lemma decode_encode_frame:
  assumes "encode_business_frame q m = Ok f" and "utf8_valid (im_kind m)"
  shows "decode_business_frame f = Ok (WIRE_MAJOR, q, m)"
proof -
  have ok: "message_ok m" and f: "f = u32_to_be WIRE_MAJOR @ u64_to_be q
      @ word_of_nat (length (im_kind m)) # u32_to_be (word_of_nat (length (im_payload m)))
      @ as_bytes (im_kind m) @ im_payload m"
    using assms(1) by (simp_all add: encode_business_frame_Ok)
  have len: "length f = 17 + length (im_kind m) + length (im_payload m)" by (simp add: f)
  have k: "unat (word_of_nat (length (im_kind m)) :: u8) = length (im_kind m)"
    and p: "unat (word_of_nat (length (im_payload m)) :: u32) = length (im_payload m)"
    using ok by (simp_all add: message_ok_def unat_of_nat)
  have parts: "u32_from_be (sub_slice 0 4 f) = WIRE_MAJOR" "u64_from_be (sub_slice 4 12 f) = q"
    "unat (f ! 12) = length (im_kind m)" "unat (u32_from_be (sub_slice 13 17 f)) = length (im_payload m)"
    unfolding f using k p by (simp_all add: sub_slice_parts)
  let ?h = "u32_to_be WIRE_MAJOR @ u64_to_be q
      @ word_of_nat (length (im_kind m)) # u32_to_be (word_of_nat (length (im_payload m)))"
  have rest: "sub_slice 17 (17 + length (im_kind m)) f = as_bytes (im_kind m)"
    "sub_slice (17 + length (im_kind m)) (17 + length (im_kind m) + length (im_payload m)) f = im_payload m"
    using sub_slice_middle [of ?h 17 "as_bytes (im_kind m)" _ "im_payload m"]
      sub_slice_middle [of "?h @ as_bytes (im_kind m)" "17 + length (im_kind m)" "im_payload m" _ "[]"]
    by (simp_all add: f)
  have "message_validate \<lparr>im_kind = im_kind m, im_payload = im_payload m\<rparr> = Ok ()"
    using ok by (simp add: message_validate_Ok message_ok_def)
  then show ?thesis using ok assms(2) len
    by (simp add: decode_business_frame_def parts rest from_utf8_as_bytes bounds_simps message_ok_def
        usize_checked_add_def Let_def)
qed

lemma sub_slice_append:
  assumes "a \<le> b" and "b \<le> c"
  shows "sub_slice a b f @ sub_slice b c f = sub_slice a c f"
proof -
  have "c - a = (b - a) + (c - b)" "drop b f = drop (b - a) (drop a f)" using assms by simp_all
  then show ?thesis unfolding sub_slice_def by (simp only: take_add)
qed

lemma sub_slice_all: "sub_slice 0 (length f) f = f"
  by (simp add: sub_slice_def)

lemma sub_slice_one: "n < length f \<Longrightarrow> sub_slice n (Suc n) f = [f ! n]"
  by (simp add: sub_slice_def Cons_nth_drop_Suc [symmetric])

lemma decode_business_frame_Ok:
  assumes "decode_business_frame f = Ok (w, q, m)"
  shows "message_ok m \<and> utf8_valid (im_kind m)
    \<and> (w = WIRE_MAJOR \<longrightarrow> encode_business_frame q m = Ok f)"
proof -
  let ?k = "unat (f ! 12)" and ?p = "unat (u32_from_be (sub_slice 13 17 f))"
  have len: "17 \<le> length f" "17 + ?k + ?p = length f"
    and w: "w = u32_from_be (sub_slice 0 4 f)" and q: "q = u64_from_be (sub_slice 4 12 f)"
    and kind: "from_utf8 (sub_slice 17 (17 + ?k) f) = Some (im_kind m)"
    and pay: "im_payload m = sub_slice (17 + ?k) (17 + ?k + ?p) f" and ok: "message_ok m"
    using assms
    by (auto simp: decode_business_frame_def Let_def bind_r_Ok message_validate_Ok bounds_simps
        usize_checked_add_Some split: if_splits)
  note utf8 = from_utf8_Some [OF kind]
  have "length (sub_slice 17 (17 + ?k) f) = ?k" using len by (simp add: sub_slice_def)
  then have lk: "length (im_kind m) = ?k" using utf8 by (metis length_map)
  have lp: "length (im_payload m) = ?p" using pay len by (simp add: sub_slice_def)
  have f: "f = sub_slice 0 4 f @ sub_slice 4 12 f @ [f ! 12] @ sub_slice 13 17 f
      @ sub_slice 17 (17 + ?k) f @ sub_slice (17 + ?k) (17 + ?k + ?p) f"
  proof -
    have s: "sub_slice 0 4 f @ sub_slice 4 12 f = sub_slice 0 12 f"
      "sub_slice 0 12 f @ [f ! 12] = sub_slice 0 13 f"
      "sub_slice 0 13 f @ sub_slice 13 17 f = sub_slice 0 17 f"
      "sub_slice 0 17 f @ sub_slice 17 (17 + ?k) f = sub_slice 0 (17 + ?k) f"
      "sub_slice 0 (17 + ?k) f @ sub_slice (17 + ?k) (17 + ?k + ?p) f = f"
      using sub_slice_one [of 12 f] len sub_slice_append [of 0 12 13 f] sub_slice_all [of f]
        sub_slice_append [of 0 "17 + ?k" "17 + ?k + ?p" f]
      by (simp_all add: sub_slice_append)
    show ?thesis unfolding append_assoc [symmetric] s by (rule refl)
  qed
  have "encode_business_frame q m = Ok f" if "w = WIRE_MAJOR"
  proof -
    have "u32_to_be WIRE_MAJOR = sub_slice 0 4 f" 
      using u32_to_be_from_be [of "sub_slice 0 4 f"] that w len by (simp add: sub_slice_def)
    moreover have "u64_to_be q = sub_slice 4 12 f" using q len by (simp add: u64_to_be_from_be sub_slice_def)
    moreover have "word_of_nat (length (im_kind m)) = f ! 12" by (simp add: lk)
    moreover have "u32_to_be (word_of_nat (length (im_payload m))) = sub_slice 13 17 f"
      using len by (simp add: lp u32_to_be_from_be sub_slice_def)
    ultimately show ?thesis using f ok utf8 pay by (simp add: encode_business_frame_Ok)
  qed
  then show ?thesis using ok utf8 by blast
qed

subsection \<open>Session proofs\<close>

record device_proof_body =
  db_wire_major :: u32
  db_role :: inner_role
  db_transcript_hash :: bytes
  db_controller_id :: controller_id
  db_site_id :: site_id
  db_device_id :: device_id
  db_device_identity :: device_public_identity

record device_proof =
  dpf_body :: device_proof_body
  dpf_signature :: bytes

record controller_proof_body =
  cb_wire_major :: u32
  cb_role :: inner_role
  cb_transcript_hash :: bytes
  cb_controller_id :: controller_id
  cb_site_id :: site_id
  cb_device_id :: device_id
  cb_controller_identity :: controller_public_identity

record controller_proof =
  cpf_body :: controller_proof_body
  cpf_signature :: bytes

record device_session_claim =
  sc_device_identity :: device_public_identity
  sc_device_id :: device_id
  sc_site_id :: site_id

record device_session_identity =
  dsi_identity :: device_identity
  dsi_pinned_controller :: controller_public_identity
  dsi_device_id :: device_id
  dsi_site_id :: site_id

record proof_json =
  device_body_to_vec :: "device_proof_body \<Rightarrow> (json_error, bytes) result"
  controller_body_to_vec :: "controller_proof_body \<Rightarrow> (json_error, bytes) result"

definition validate_untrusted_device_proof ::
    "crypto \<Rightarrow> proof_json \<Rightarrow> device_proof \<Rightarrow> controller_id \<Rightarrow> bytes
     \<Rightarrow> (inner_error, device_session_claim) result" where
  "validate_untrusted_device_proof cr js proof cid transcript =
     (let b = dpf_body proof in
      if db_wire_major b \<noteq> WIRE_MAJOR \<or> db_role b \<noteq> DeviceRole
         \<or> db_transcript_hash b \<noteq> transcript \<or> db_controller_id b \<noteq> cid
      then Err IdentityBindingMismatch
      else bind_r (map_err InnerIdentity (device_validate cr (db_device_identity b))) (\<lambda>_.
           bind_r (map_err InnerIdentity (device_verify_session_binding cr (db_device_identity b)
                     (device_body_to_vec js b) (dpf_signature proof))) (\<lambda>_.
           Ok \<lparr>sc_device_identity = db_device_identity b, sc_device_id = db_device_id b,
               sc_site_id = db_site_id b\<rparr>)))"

definition validate_controller_proof ::
    "crypto \<Rightarrow> proof_json \<Rightarrow> controller_proof \<Rightarrow> controller_public_identity \<Rightarrow> bytes \<Rightarrow> site_id
     \<Rightarrow> device_id \<Rightarrow> (inner_error, unit) result" where
  "validate_controller_proof cr js proof expected transcript sid did =
     (let b = cpf_body proof in
      if cb_wire_major b \<noteq> WIRE_MAJOR \<or> cb_role b \<noteq> ControllerRole
         \<or> cb_transcript_hash b \<noteq> transcript \<or> cb_controller_id b \<noteq> cp_controller_id expected
         \<or> cb_site_id b \<noteq> sid \<or> cb_device_id b \<noteq> did \<or> cb_controller_identity b \<noteq> expected
      then Err IdentityBindingMismatch
      else map_err InnerIdentity (controller_verify_session_binding cr expected
             (controller_body_to_vec js b) (cpf_signature proof)))"

text \<open>
  Reading and writing an encrypted JSON value: the packet is what the stream yielded, and the
  writer returns the ciphertext it hands to the stream.
\<close>

definition read_encrypted_json ::
    "'n noise \<Rightarrow> (bytes \<Rightarrow> (json_error, 'a) result) \<Rightarrow> (inner_error, bytes) result \<Rightarrow> nat \<Rightarrow> 'n
     \<Rightarrow> 'n \<times> (inner_error, 'a) result" where
  "read_encrypted_json nz from_slice packet max_plaintext t =
     (case packet of
        Inl e \<Rightarrow> (t, Err e)
      | Inr ciphertext \<Rightarrow>
          (case noise_read nz t ciphertext of
             (t', Inl e) \<Rightarrow> (t', Err (NoiseFailed e))
           | (t', Inr plaintext) \<Rightarrow>
               (t', if length plaintext > max_plaintext
                    then Err (IdentityProofTooLarge (length plaintext))
                    else map_err InnerJson (from_slice plaintext))))"

definition write_encrypted_json ::
    "'n noise \<Rightarrow> (json_error, bytes) result \<Rightarrow> (bytes \<Rightarrow> (inner_error, unit) result) \<Rightarrow> nat \<Rightarrow> 'n
     \<Rightarrow> 'n \<times> (inner_error, unit) result" where
  "write_encrypted_json nz encoded stream max_plaintext t =
     (case map_err InnerJson encoded of
        Inl e \<Rightarrow> (t, Err e)
      | Inr plaintext \<Rightarrow>
          if length plaintext > max_plaintext then (t, Err (IdentityProofTooLarge (length plaintext)))
          else (case noise_write nz t plaintext of
             (t', Inl e) \<Rightarrow> (t', Err (NoiseFailed e))
           | (t', Inr ciphertext) \<Rightarrow> (t', write_packet (stream ciphertext) ciphertext)))"

text \<open>
  The device's side and the controller's side of the session set-up. \<open>handshake\<close> is the outcome
  of the Noise handshake, the transcript hash and the transport; \<open>packet\<close> the peer's proof
  packet; \<open>stream\<close> what the stream does with ours.
\<close>

definition session_connect ::
    "crypto \<Rightarrow> proof_json \<Rightarrow> (device_proof \<Rightarrow> (json_error, bytes) result)
     \<Rightarrow> (bytes \<Rightarrow> (json_error, controller_proof) result) \<Rightarrow> 'n noise
     \<Rightarrow> (inner_error, bytes \<times> 'n) result \<Rightarrow> (bytes \<Rightarrow> (inner_error, unit) result)
     \<Rightarrow> (inner_error, bytes) result \<Rightarrow> device_session_identity
     \<Rightarrow> (inner_error, 'n inner_session) result" where
  "session_connect cr js proof_to_vec proof_from_slice nz handshake stream packet me =
     bind_r (map_err InnerIdentity (controller_validate cr (dsi_pinned_controller me))) (\<lambda>_.
     bind_r (map_err InnerIdentity (device_validate cr (device_public cr (dsi_identity me)))) (\<lambda>_.
     bind_r handshake (\<lambda>(transcript, t0).
     let body = \<lparr>db_wire_major = WIRE_MAJOR, db_role = DeviceRole, db_transcript_hash = transcript,
                 db_controller_id = cp_controller_id (dsi_pinned_controller me),
                 db_site_id = dsi_site_id me, db_device_id = dsi_device_id me,
                 db_device_identity = device_public cr (dsi_identity me)\<rparr> in
     bind_r (map_err InnerIdentity
              (device_sign_session_binding cr (dsi_identity me) (device_body_to_vec js body)))
       (\<lambda>signature.
        case write_encrypted_json nz (proof_to_vec \<lparr>dpf_body = body, dpf_signature = signature\<rparr>)
               stream MAX_IDENTITY_PROOF t0 of
          (t1, Inl e) \<Rightarrow> Err e
        | (t1, Inr _) \<Rightarrow>
            (case read_encrypted_json nz proof_from_slice packet MAX_IDENTITY_PROOF t1 of
               (t2, Inl e) \<Rightarrow> Err e
             | (t2, Inr proof) \<Rightarrow>
                 bind_r (validate_controller_proof cr js proof (dsi_pinned_controller me) transcript
                           (dsi_site_id me) (dsi_device_id me)) (\<lambda>_.
                   Ok (session_new t2 ControllerRole (cp_controller_id (dsi_pinned_controller me))
                         (dsi_device_id me) (dsi_site_id me))))))))"

definition session_accept_authorized ::
    "crypto \<Rightarrow> proof_json \<Rightarrow> (controller_proof \<Rightarrow> (json_error, bytes) result)
     \<Rightarrow> (bytes \<Rightarrow> (json_error, device_proof) result) \<Rightarrow> 'n noise
     \<Rightarrow> (inner_error, bytes \<times> 'n) result \<Rightarrow> (inner_error, bytes) result
     \<Rightarrow> (bytes \<Rightarrow> (inner_error, unit) result) \<Rightarrow> controller_identity \<Rightarrow> controller_public_identity
     \<Rightarrow> (device_session_claim \<Rightarrow> bool) \<Rightarrow> (inner_error, 'n inner_session) result" where
  "session_accept_authorized cr js proof_to_vec proof_from_slice nz handshake packet stream ci public
       authorize =
     bind_r (map_err InnerIdentity (controller_validate cr public)) (\<lambda>_.
     bind_r handshake (\<lambda>(transcript, t0).
     case read_encrypted_json nz proof_from_slice packet MAX_IDENTITY_PROOF t0 of
       (t1, Inl e) \<Rightarrow> Err e
     | (t1, Inr proof) \<Rightarrow>
         bind_r (validate_untrusted_device_proof cr js proof (cp_controller_id public) transcript)
           (\<lambda>c.
            if \<not> authorize c then Err IdentityBindingMismatch
            else
              (let body = \<lparr>cb_wire_major = WIRE_MAJOR, cb_role = ControllerRole,
                           cb_transcript_hash = transcript,
                           cb_controller_id = cp_controller_id public,
                           cb_site_id = sc_site_id c, cb_device_id = sc_device_id c,
                           cb_controller_identity = public\<rparr> in
               bind_r (map_err InnerIdentity
                        (sign_session_binding cr ci (controller_body_to_vec js body)))
                 (\<lambda>signature.
                  case write_encrypted_json nz
                         (proof_to_vec \<lparr>cpf_body = body, cpf_signature = signature\<rparr>) stream
                         MAX_IDENTITY_PROOF t1 of
                    (t2, Inl e) \<Rightarrow> Err e
                  | (t2, Inr _) \<Rightarrow>
                      Ok (session_new t2 DeviceRole (cp_controller_id public) (sc_device_id c)
                            (sc_site_id c)))))))"

definition session_accept where
  "session_accept cr js proof_to_vec proof_from_slice nz handshake packet stream ci public
       expected_device did sid =
     bind_r (map_err InnerIdentity (device_validate cr expected_device)) (\<lambda>_.
       session_accept_authorized cr js proof_to_vec proof_from_slice nz handshake packet stream ci
         public (\<lambda>c. sc_device_identity c = expected_device \<and> sc_device_id c = did
                    \<and> sc_site_id c = sid))"

subsection \<open>Properties\<close>

fun seal_all :: "'n noise \<Rightarrow> inner_message list \<Rightarrow> 'n inner_session
    \<Rightarrow> 'n inner_session \<times> (inner_error, bytes list) result" where
  "seal_all nz [] s = (s, Ok [])"
| "seal_all nz (m # ms) s =
     (case seal nz m s of
        (s1, Inl e) \<Rightarrow> (s1, Err e)
      | (s1, Inr c) \<Rightarrow> (case seal_all nz ms s1 of
            (s2, Inl e) \<Rightarrow> (s2, Err e) | (s2, Inr cs) \<Rightarrow> (s2, Ok (c # cs))))"

fun open_all :: "'n noise \<Rightarrow> bytes list \<Rightarrow> 'n inner_session
    \<Rightarrow> 'n inner_session \<times> (inner_error, inner_message) result list" where
  "open_all nz [] s = (s, [])"
| "open_all nz (c # cs) s =
     (case open_frame nz c s of (s1, x) \<Rightarrow> (case open_all nz cs s1 of (s2, xs) \<Rightarrow> (s2, x # xs)))"

text \<open>What decrypting the packets gives, one after the other.\<close>

primrec read_frames :: "'n noise \<Rightarrow> bytes list \<Rightarrow> 'n \<Rightarrow> (string, bytes) result list" where
  "read_frames nz [] t = []"
| "read_frames nz (c # cs) t = (case noise_read nz t c of (t', frame) \<Rightarrow> frame # read_frames nz cs t')"

text \<open>A Noise transport pair: whatever one end writes, the other end, having read what came
  before, reads back, in a packet sixteen bytes longer.\<close>

definition noise_linked :: "'n noise \<Rightarrow> ('n \<Rightarrow> 'n \<Rightarrow> bool) \<Rightarrow> bool" where
  "noise_linked nz linked \<longleftrightarrow>
     (\<forall>a b p a' c. linked a b \<longrightarrow> noise_write nz a p = (a', Ok c) \<longrightarrow>
        length c = length p + 16 \<and> (\<exists>b'. noise_read nz b c = (b', Ok p) \<and> linked a' b'))"

lemma seal_Ok:
  assumes "seal nz m s = (s', Ok c)"
  shows "message_ok m \<and> \<not> poisoned s \<and> (\<exists>f t. encode_business_frame (send_sequence s) m = Ok f
    \<and> noise_write nz (ss_transport s) f = (t, Ok c)
    \<and> checked_add (send_sequence s) 1 = Some (send_sequence s')
    \<and> s' = s\<lparr>ss_transport := t, send_sequence := send_sequence s'\<rparr>)"
  using assms
  by (auto simp: seal_def bind_r_Ok message_validate_Ok
      split: if_splits sum.splits prod.splits option.splits)

lemma open_frame_Ok:
  assumes "open_frame nz c s = (s', Ok m)"
  shows "\<not> poisoned s \<and> \<not> poisoned s' \<and> (\<exists>t f. noise_read nz (ss_transport s) c = (t, Ok f)
    \<and> decode_business_frame f = Ok (WIRE_MAJOR, recv_sequence s, m)
    \<and> checked_add (recv_sequence s) 1 = Some (recv_sequence s')
    \<and> s' = s\<lparr>ss_transport := t, recv_sequence := recv_sequence s'\<rparr>)"
  using assms
  by (auto simp: open_frame_def open_checked_def Let_def
      split: if_splits sum.splits prod.splits option.splits)

lemma open_frame_Err: "open_frame nz c s = (s', Err e) \<Longrightarrow> poisoned s' \<and> recv_sequence s' = recv_sequence s"
  by (auto simp: open_frame_def open_checked_def Let_def
      split: if_splits sum.splits prod.splits option.splits)

lemma open_all_poisoned:
  "poisoned s \<Longrightarrow> open_all nz cs s = (s, replicate (length cs) (Err SessionPoisoned))"
  by (induction cs) (simp_all add: open_frame_def)

lemma open_sealed:
  assumes nz: "noise_linked nz linked" and l: "linked (ss_transport s) (ss_transport r)"
    and seq: "send_sequence s = recv_sequence r" and live: "\<not> poisoned r"
    and utf8: "utf8_valid (im_kind m)" and sealed: "seal nz m s = (s', Ok c)"
  shows "\<exists>r'. open_frame nz c r = (r', Ok m) \<and> linked (ss_transport s') (ss_transport r')
    \<and> send_sequence s' = recv_sequence r' \<and> \<not> poisoned r'"
proof -
  from seal_Ok [OF sealed] obtain f t where ok: "message_ok m"
    and f: "encode_business_frame (send_sequence s) m = Ok f"
    and w: "noise_write nz (ss_transport s) f = (t, Ok c)"
    and add: "checked_add (send_sequence s) 1 = Some (send_sequence s')"
    and s': "s' = s\<lparr>ss_transport := t, send_sequence := send_sequence s'\<rparr>" by blast
  obtain b' where len: "length c = length f + 16"
    and rd: "noise_read nz (ss_transport r) c = (b', Ok f)" and l': "linked t b'"
    using nz l w unfolding noise_linked_def by blast
  have lf: "length f \<le> 61440" using f ok by (auto simp: encode_business_frame_Ok message_ok_def)
  have dec: "decode_business_frame f = Ok (WIRE_MAJOR, recv_sequence r, m)"
    using decode_encode_frame [OF f utf8] seq by simp
  let ?r' = "r\<lparr>ss_transport := b', recv_sequence := send_sequence s'\<rparr>"
  have "open_frame nz c r = (?r', Ok m)"
    using live rd lf len dec add seq ok
    by (simp add: open_frame_def open_checked_def bounds_simps message_validate_def Let_def
        message_ok_def usize_checked_add_def)
  moreover have "ss_transport s' = t" by (subst s') simp
  ultimately show ?thesis using l' live by simp
qed

text \<open>The business frame is a bijection: what encodes decodes to the same sequence and
  message, and what decodes with this wire major is the encoding of what it decodes to, so no
  two byte strings stand for one frame.\<close>

theorem business_frame_roundtrip:
  "(encode_business_frame q m = Ok f \<and> utf8_valid (im_kind m)) \<longleftrightarrow>
     decode_business_frame f = Ok (WIRE_MAJOR, q, m)"
  using decode_encode_frame decode_business_frame_Ok by metis

text \<open>In-order delivery: over a faithful Noise transport, messages sealed by one end open at
  the other end as the same messages in the same order, and both sequence counters agree
  afterwards.\<close>

theorem sealed_messages_open:
  assumes "noise_linked nz linked" and "linked (ss_transport s) (ss_transport r)"
    and "send_sequence s = recv_sequence r" and "\<not> poisoned r"
    and "\<forall>m \<in> set ms. utf8_valid (im_kind m)" and "seal_all nz ms s = (s', Ok cs)"
  shows "\<exists>r'. open_all nz cs r = (r', map Ok ms) \<and> send_sequence s' = recv_sequence r'
    \<and> \<not> poisoned r'"
  using assms(2-)
proof (induction ms arbitrary: s r cs)
  case Nil
  then show ?case by simp
next
  case (Cons m ms)
  obtain s1 c cs1 where c: "seal nz m s = (s1, Ok c)" and cs: "cs = c # cs1"
    and cs1: "seal_all nz ms s1 = (s', Ok cs1)"
    using Cons.prems(5) by (auto split: prod.splits sum.splits)
  obtain r1 where r1: "open_frame nz c r = (r1, Ok m)" "linked (ss_transport s1) (ss_transport r1)"
    "send_sequence s1 = recv_sequence r1" "\<not> poisoned r1"
    using open_sealed [OF assms(1) Cons.prems(1-3) _ c] Cons.prems(4) by auto
  then obtain r' where "open_all nz cs1 r1 = (r', map Ok ms)" "send_sequence s' = recv_sequence r'"
    "\<not> poisoned r'"
    using Cons.IH [OF r1(2-4) _ cs1] Cons.prems(4) by auto
  then show ?case using r1(1) cs by simp
qed

text \<open>C1: No replay, reordering or recovery: of any packets fed to a session, the accepted ones
  are a prefix; the frame decrypted from each of these packets carries exactly the sequence number
  the session expected for it, one after the other, and the message the session gave; and after
  the first rejected packet the session stays poisoned and accepts nothing.\<close>

theorem session_accepts_prefix:
  assumes "open_all nz cs s = (s', xs)" and "\<not> poisoned s"
  shows "\<exists>k \<le> length cs. (\<forall>i < k. is_ok (xs ! i)) \<and> (\<forall>i. k \<le> i \<and> i < length cs \<longrightarrow> \<not> is_ok (xs ! i))
    \<and> (\<forall>i. k < i \<and> i < length cs \<longrightarrow> xs ! i = Err SessionPoisoned)
    \<and> unat (recv_sequence s') = unat (recv_sequence s) + k \<and> (poisoned s' \<longleftrightarrow> k < length cs)
    \<and> (\<forall>i < k. \<exists>f m. read_frames nz cs (ss_transport s) ! i = Ok f \<and> xs ! i = Ok m \<and>
         decode_business_frame f = Ok (WIRE_MAJOR, recv_sequence s + word_of_nat i, m))"
  using assms
proof (induction cs arbitrary: s xs)
  case Nil
  then show ?case by auto
next
  case (Cons c cs)
  obtain s1 x ys where x: "open_frame nz c s = (s1, x)" and ys: "open_all nz cs s1 = (s', ys)"
    and xs: "xs = x # ys"
    using Cons.prems(1) by (auto split: prod.splits)
  show ?case
  proof (cases x)
    case (Inl e)
    then have p: "poisoned s1" "recv_sequence s1 = recv_sequence s" using open_frame_Err x by blast+
    then have "s' = s1" "ys = replicate (length cs) (Err SessionPoisoned)"
      using ys open_all_poisoned [of s1 nz cs] by auto
    then show ?thesis using p Inl xs by (intro exI [of _ 0]) (auto simp: nth_Cons split: nat.splits)
  next
    case (Inr m)
    from open_frame_Ok [OF x [unfolded Inr]] obtain t f where live: "\<not> poisoned s1"
      and rd: "noise_read nz (ss_transport s) c = (t, Ok f)"
      and f: "decode_business_frame f = Ok (WIRE_MAJOR, recv_sequence s, m)"
      and add: "checked_add (recv_sequence s) 1 = Some (recv_sequence s1)"
      and s1: "s1 = s\<lparr>ss_transport := t, recv_sequence := recv_sequence s1\<rparr>" by blast
    have r1: "recv_sequence s1 = recv_sequence s + 1"
      using add by (simp add: checked_add_def split: if_splits)
    have u1: "unat (recv_sequence s1) = unat (recv_sequence s) + 1"
      using checked_add_Some [OF add] by simp
    have fr: "read_frames nz (c # cs) (ss_transport s) = Ok f # read_frames nz cs (ss_transport s1)"
      by (subst s1) (simp add: rd)
    from Cons.IH [OF ys live] obtain k where k: "k \<le> length cs" "\<forall>i < k. is_ok (ys ! i)"
      "\<forall>i. k \<le> i \<and> i < length cs \<longrightarrow> \<not> is_ok (ys ! i)"
      "\<forall>i. k < i \<and> i < length cs \<longrightarrow> ys ! i = Err SessionPoisoned"
      "unat (recv_sequence s') = unat (recv_sequence s1) + k" "poisoned s' \<longleftrightarrow> k < length cs"
      "\<forall>i < k. \<exists>f m. read_frames nz cs (ss_transport s1) ! i = Ok f \<and> ys ! i = Ok m \<and>
         decode_business_frame f = Ok (WIRE_MAJOR, recv_sequence s1 + word_of_nat i, m)"
      by blast
    have seqs: "\<exists>f m. read_frames nz (c # cs) (ss_transport s) ! i = Ok f \<and> xs ! i = Ok m \<and>
         decode_business_frame f = Ok (WIRE_MAJOR, recv_sequence s + word_of_nat i, m)"
      if "i < Suc k" for i
      using that k(7) f Inr xs r1 unfolding fr by (cases i) (auto simp: add.assoc)
    show ?thesis
      using k(1-6) Inr xs u1 seqs
      by (intro exI [of _ "Suc k"]) (auto simp: nth_Cons split: nat.splits)
  qed
qed

lemma validate_untrusted_device_proof_Ok:
  assumes "validate_untrusted_device_proof cr js proof cid transcript = Ok c"
  shows "db_wire_major (dpf_body proof) = WIRE_MAJOR \<and> db_role (dpf_body proof) = DeviceRole
    \<and> db_transcript_hash (dpf_body proof) = transcript \<and> db_controller_id (dpf_body proof) = cid
    \<and> device_validate cr (db_device_identity (dpf_body proof)) = Ok ()
    \<and> (\<exists>e. device_body_to_vec js (dpf_body proof) = Ok e
        \<and> ed_verify_strict cr (dp_public_key (db_device_identity (dpf_body proof)))
            (SESSION_BINDING_SIGNATURE_DOMAIN @ e) (dpf_signature proof))
    \<and> c = \<lparr>sc_device_identity = db_device_identity (dpf_body proof),
            sc_device_id = db_device_id (dpf_body proof), sc_site_id = db_site_id (dpf_body proof)\<rparr>"
  using assms
  by (auto simp: validate_untrusted_device_proof_def Let_def bind_r_Ok
      device_verify_session_binding_def verify_with_key_Ok split: if_splits)

lemma validate_controller_proof_Ok:
  assumes "validate_controller_proof cr js proof expected transcript sid did = Ok u"
  shows "cb_wire_major (cpf_body proof) = WIRE_MAJOR \<and> cb_role (cpf_body proof) = ControllerRole
    \<and> cb_transcript_hash (cpf_body proof) = transcript
    \<and> cb_controller_identity (cpf_body proof) = expected
    \<and> cb_site_id (cpf_body proof) = sid \<and> cb_device_id (cpf_body proof) = did
    \<and> (\<exists>e. controller_body_to_vec js (cpf_body proof) = Ok e
        \<and> ed_verify_strict cr (cp_public_key expected)
            (SESSION_BINDING_SIGNATURE_DOMAIN @ e) (cpf_signature proof))"
  using assms
  by (auto simp: validate_controller_proof_def Let_def controller_verify_session_binding_def
      controller_verify_payload_Ok split: if_splits)

text \<open>C24: A controller's session is bound: it exists only if the packet received is, decrypted with
  the handshake's keys, a device proof over this handshake's transcript and this controller,
  signed with the key of the identity in it; the authorization accepted this identity for exactly
  the site and device of the proof; and the session carries these, with fresh counters.\<close>

theorem accepted_session_bound:
  assumes "session_accept_authorized cr js proof_to_vec proof_from_slice nz handshake packet stream
      ci public authorize = Ok s"
  shows "\<exists>transcript t0 sent t1 plain proof e. handshake = Ok (transcript, t0)
    \<and> packet = Ok sent \<and> noise_read nz t0 sent = (t1, Ok plain) \<and> proof_from_slice plain = Ok proof
    \<and> db_wire_major (dpf_body proof) = WIRE_MAJOR \<and> db_role (dpf_body proof) = DeviceRole
    \<and> db_transcript_hash (dpf_body proof) = transcript
    \<and> db_controller_id (dpf_body proof) = cp_controller_id public
    \<and> device_body_to_vec js (dpf_body proof) = Ok e
    \<and> ed_verify_strict cr (dp_public_key (db_device_identity (dpf_body proof)))
        (SESSION_BINDING_SIGNATURE_DOMAIN @ e) (dpf_signature proof)
    \<and> authorize \<lparr>sc_device_identity = db_device_identity (dpf_body proof),
        sc_device_id = db_device_id (dpf_body proof), sc_site_id = db_site_id (dpf_body proof)\<rparr>
    \<and> ss_device_id s = db_device_id (dpf_body proof) \<and> ss_site_id s = db_site_id (dpf_body proof)
    \<and> ss_controller_id s = cp_controller_id public \<and> peer_role s = DeviceRole
    \<and> send_sequence s = 0 \<and> recv_sequence s = 0 \<and> \<not> poisoned s"
proof -
  obtain transcript t0 t1 pf c where h: "handshake = Ok (transcript, t0)"
    and rd: "read_encrypted_json nz proof_from_slice packet MAX_IDENTITY_PROOF t0 = (t1, Ok pf)"
    and v: "validate_untrusted_device_proof cr js pf (cp_controller_id public) transcript = Ok c"
    and a: "authorize c"
    and s: "\<exists>t2. s = session_new t2 DeviceRole (cp_controller_id public) (sc_device_id c) (sc_site_id c)"
    using assms
    by (auto simp: session_accept_authorized_def bind_r_Ok case_state_Ok Let_def split: if_splits)
  obtain sent plain where r: "packet = Ok sent" "noise_read nz t0 sent = (t1, Ok plain)"
    "proof_from_slice plain = Ok pf"
    using rd by (auto simp: read_encrypted_json_def result_simps split: sum.splits prod.splits if_splits)
  note p = validate_untrusted_device_proof_Ok [OF v]
  then obtain e where e: "device_body_to_vec js (dpf_body pf) = Ok e"
    "ed_verify_strict cr (dp_public_key (db_device_identity (dpf_body pf)))
       (SESSION_BINDING_SIGNATURE_DOMAIN @ e) (dpf_signature pf)" by blast
  show ?thesis
    by (rule exI [of _ transcript], rule exI [of _ t0], rule exI [of _ sent], rule exI [of _ t1],
        rule exI [of _ plain], rule exI [of _ pf], rule exI [of _ e])
       (use p e a s h r in \<open>auto simp: session_new_def\<close>)
qed

text \<open>A device's session is bound to its pin: it exists only if the peer signed, with the key
  of the pinned controller, a controller proof over this handshake's transcript and over the
  device's own site and id.\<close>

theorem connected_session_bound:
  assumes "session_connect cr js proof_to_vec proof_from_slice nz handshake stream packet me = Ok s"
  shows "\<exists>transcript t0 proof e. handshake = Ok (transcript, t0)
    \<and> cb_transcript_hash (cpf_body (proof :: controller_proof)) = transcript
    \<and> cb_controller_identity (cpf_body proof) = dsi_pinned_controller me
    \<and> cb_site_id (cpf_body proof) = dsi_site_id me \<and> cb_device_id (cpf_body proof) = dsi_device_id me
    \<and> controller_body_to_vec js (cpf_body proof) = Ok e
    \<and> ed_verify_strict cr (cp_public_key (dsi_pinned_controller me))
        (SESSION_BINDING_SIGNATURE_DOMAIN @ e) (cpf_signature proof)
    \<and> ss_controller_id s = cp_controller_id (dsi_pinned_controller me)
    \<and> ss_device_id s = dsi_device_id me \<and> ss_site_id s = dsi_site_id me
    \<and> peer_role s = ControllerRole \<and> \<not> poisoned s"
proof -
  obtain transcript t0 pf where h: "handshake = Ok (transcript, t0)"
    and v: "validate_controller_proof cr js pf (dsi_pinned_controller me) transcript
        (dsi_site_id me) (dsi_device_id me) = Ok ()"
    and s: "\<exists>t2. s = session_new t2 ControllerRole (cp_controller_id (dsi_pinned_controller me))
        (dsi_device_id me) (dsi_site_id me)"
    using assms
    by (auto simp: session_connect_def bind_r_Ok case_state_Ok Let_def)
  note p = validate_controller_proof_Ok [OF v]
  then obtain e where e: "controller_body_to_vec js (cpf_body pf) = Ok e"
    "ed_verify_strict cr (cp_public_key (dsi_pinned_controller me))
       (SESSION_BINDING_SIGNATURE_DOMAIN @ e) (cpf_signature pf)" by blast
  show ?thesis
    by (rule exI [of _ transcript], rule exI [of _ t0], rule exI [of _ pf], rule exI [of _ e])
       (use p e s h in \<open>auto simp: session_new_def\<close>)
qed

subsection \<open>Witnesses\<close>

definition toy_noise :: "nat noise" where
  "toy_noise =
     \<lparr>noise_write = \<lambda>n p. (Suc n, Ok (replicate 16 (of_nat n) @ p)),
      noise_read = \<lambda>n c. if take 16 c = replicate 16 (of_nat n) then (Suc n, Ok (drop 16 c))
                        else (n, Err ''bad tag'')\<rparr>"

lemma toy_noise_linked: "noise_linked toy_noise (=)"
  by (simp add: noise_linked_def toy_noise_def)

definition toy_session :: "nat inner_session" where
  "toy_session = session_new 0 DeviceRole 1 2 3"

lemma toy_session_simps:
  "ss_transport toy_session = 0" "send_sequence toy_session = 0" "recv_sequence toy_session = 0"
  "\<not> poisoned toy_session"
  by (simp_all add: toy_session_def session_new_def)

definition toy_frame :: bytes where
  "toy_frame = u32_to_be WIRE_MAJOR @ u64_to_be 0 @ [4] @ u32_to_be 1 @ as_bytes ''read'' @ [7]"

lemma toy_frame_encodes: "encode_business_frame 0 \<lparr>im_kind = ''read'', im_payload = [7]\<rparr> = Ok toy_frame"
  by (simp add: encode_business_frame_Ok message_ok_def toy_frame_def)

lemma toy_sealed:
  "seal toy_noise \<lparr>im_kind = ''read'', im_payload = [7]\<rparr> toy_session =
     (toy_session\<lparr>ss_transport := 1, send_sequence := 1\<rparr>, Ok (replicate 16 0 @ toy_frame))"
proof -
  have "message_validate \<lparr>im_kind = ''read'', im_payload = [7]\<rparr> = Ok ()"
    by (simp add: message_validate_Ok message_ok_def)
  then show ?thesis
    by (simp add: seal_def toy_session_simps toy_frame_encodes toy_noise_def checked_add_def)
qed

lemma sealed_messages_open_witness:
  "\<exists>r'. open_all toy_noise [replicate 16 0 @ toy_frame] toy_session =
     (r', [Ok \<lparr>im_kind = ''read'', im_payload = [7]\<rparr>])"
proof -
  have utf8: "\<forall>m \<in> set [\<lparr>im_kind = ''read'', im_payload = [7]\<rparr>]. utf8_valid (im_kind m)"
    by (simp add: utf8_valid_ascii code_def)
  have "seal_all toy_noise [\<lparr>im_kind = ''read'', im_payload = [7]\<rparr>] toy_session =
      (toy_session\<lparr>ss_transport := 1, send_sequence := 1\<rparr>, Ok [replicate 16 0 @ toy_frame])"
    by (simp add: toy_sealed)
  from sealed_messages_open [OF toy_noise_linked refl _ _ utf8 this] show ?thesis
    by (auto simp: toy_session_simps)
qed

lemma session_accepts_prefix_witness:
  "poisoned (fst (open_all toy_noise [[1], replicate 16 0 @ toy_frame] toy_session))"
proof -
  let ?o = "open_all toy_noise [[1], replicate 16 0 @ toy_frame] toy_session"
  have "[1 :: u8] \<noteq> replicate 16 0" by (auto dest: arg_cong [where f = length])
  then have "\<not> is_ok (snd ?o ! 0)"
    by (simp add: open_frame_def open_checked_def toy_noise_def toy_session_simps bounds_simps
        split: prod.splits)
  moreover obtain k where "k \<le> 2" "\<forall>i < k. is_ok (snd ?o ! i)" "poisoned (fst ?o) \<longleftrightarrow> k < 2"
    using session_accepts_prefix [of toy_noise "[[1], replicate 16 0 @ toy_frame]" toy_session
        "fst ?o" "snd ?o"] toy_session_simps(4) by auto
  ultimately show ?thesis by (cases k) auto
qed

definition toy_proof_json :: proof_json where
  "toy_proof_json = \<lparr>device_body_to_vec = \<lambda>_. Ok [1], controller_body_to_vec = \<lambda>_. Ok [2]\<rparr>"

definition toy_device_proof :: device_proof where
  "toy_device_proof =
     \<lparr>dpf_body = \<lparr>db_wire_major = WIRE_MAJOR, db_role = DeviceRole, db_transcript_hash = [5],
        db_controller_id = cp_controller_id toy_controller, db_site_id = 3, db_device_id = 2,
        db_device_identity = \<lparr>dp_public_key = [8]\<rparr>\<rparr>,
      dpf_signature = ed_sign toy_crypto [8] (SESSION_BINDING_SIGNATURE_DOMAIN @ [1])\<rparr>"

definition toy_controller_proof :: controller_proof where
  "toy_controller_proof =
     \<lparr>cpf_body = \<lparr>cb_wire_major = WIRE_MAJOR, cb_role = ControllerRole, cb_transcript_hash = [5],
        cb_controller_id = cp_controller_id toy_controller, cb_site_id = 3, cb_device_id = 2,
        cb_controller_identity = toy_controller\<rparr>,
      cpf_signature = ed_sign toy_crypto [7] (SESSION_BINDING_SIGNATURE_DOMAIN @ [2])\<rparr>"

lemma toy_accept:
  "\<exists>s. session_accept_authorized toy_crypto toy_proof_json (\<lambda>_. Ok [3]) (\<lambda>_. Ok toy_device_proof)
     toy_noise (Ok ([5], 0)) (Ok (replicate 16 0 @ [9])) (\<lambda>_. Ok ()) \<lparr>ci_signing_key = [7]\<rparr>
     toy_controller (\<lambda>c. sc_site_id c = 3) = Ok s \<and> ss_device_id s = 2"
proof -
  have "validate_untrusted_device_proof toy_crypto toy_proof_json toy_device_proof
      (cp_controller_id toy_controller) [5] =
    Ok \<lparr>sc_device_identity = \<lparr>dp_public_key = [8]\<rparr>, sc_device_id = 2, sc_site_id = 3\<rparr>"
    by (simp add: validate_untrusted_device_proof_def toy_device_proof_def toy_proof_json_def Let_def
        device_validate_def device_verify_session_binding_def verify_with_key_def signed_message_def
        toy_crypto_def)
  then show ?thesis
    using toy_controller_ok
    by (simp add: session_accept_authorized_def read_encrypted_json_def toy_noise_def bounds_simps
        sign_session_binding_def controller_sign_payload_def signed_message_def toy_proof_json_def
        write_encrypted_json_def write_packet_def session_new_def Let_def)
qed

lemma toy_connect:
  "\<exists>s. session_connect toy_crypto toy_proof_json (\<lambda>_. Ok [3]) (\<lambda>_. Ok toy_controller_proof)
     toy_noise (Ok ([5], 0)) (\<lambda>_. Ok ()) (Ok (replicate 16 1 @ [9]))
     \<lparr>dsi_identity = \<lparr>di_signing_key = [8]\<rparr>, dsi_pinned_controller = toy_controller,
      dsi_device_id = 2, dsi_site_id = 3\<rparr> = Ok s"
proof -
  have "validate_controller_proof toy_crypto toy_proof_json toy_controller_proof toy_controller [5] 3 2
      = Ok ()"
    using toy_controller_ok
    by (simp add: validate_controller_proof_def toy_controller_proof_def toy_proof_json_def Let_def
        controller_verify_session_binding_def controller_verify_payload_Ok)
       (simp add: toy_crypto_def toy_controller_def)
  moreover have "device_validate toy_crypto (device_public toy_crypto \<lparr>di_signing_key = [8]\<rparr>) = Ok ()"
    by (simp add: device_validate_def device_public_def toy_crypto_def)
  ultimately show ?thesis
    using toy_controller_ok
    by (simp add: session_connect_def read_encrypted_json_def toy_noise_def bounds_simps
        device_sign_session_binding_def signed_message_def toy_proof_json_def
        write_encrypted_json_def write_packet_def Let_def)
qed

lemma accepted_session_bound_witness:
  "\<exists>s. peer_role (s :: nat inner_session) = DeviceRole \<and> ss_device_id s = 2
     \<and> (\<exists>e. ed_verify_strict toy_crypto [8] (SESSION_BINDING_SIGNATURE_DOMAIN @ [1]) e)"
proof -
  obtain s where s: "session_accept_authorized toy_crypto toy_proof_json (\<lambda>_. Ok [3])
      (\<lambda>_. Ok toy_device_proof) toy_noise (Ok ([5], 0)) (Ok (replicate 16 0 @ [9])) (\<lambda>_. Ok ())
      \<lparr>ci_signing_key = [7]\<rparr> toy_controller (\<lambda>c. sc_site_id c = 3) = Ok s" "ss_device_id s = 2"
    using toy_accept by blast
  then show ?thesis using accepted_session_bound [OF s(1)] by (auto simp: toy_crypto_def)
qed

lemma connected_session_bound_witness:
  "\<exists>s. peer_role (s :: nat inner_session) = ControllerRole \<and> ss_site_id s = 3 \<and> \<not> poisoned s"
proof -
  obtain s where s: "session_connect toy_crypto toy_proof_json (\<lambda>_. Ok [3])
      (\<lambda>_. Ok toy_controller_proof) toy_noise (Ok ([5], 0)) (\<lambda>_. Ok ()) (Ok (replicate 16 1 @ [9]))
     \<lparr>dsi_identity = \<lparr>di_signing_key = [8]\<rparr>, dsi_pinned_controller = toy_controller,
      dsi_device_id = 2, dsi_site_id = 3\<rparr> = Ok s"
    using toy_connect by blast
  from connected_session_bound [OF s] show ?thesis by auto
qed

end
