(* ===== verification/Rpc.thy ===== *)
theory Rpc
  imports Inner
begin

section \<open>RPC envelopes (clew-transport, rpc.rs)\<close>

text \<open>
  A request or reply travels inside an inner message whose payload is a header (request id,
  lengths) followed by the kind and payload of the nested message. Unwrapping checks the outer
  kind, the id and the lengths, which must account for every byte.
\<close>

definition RPC_REQUEST_MESSAGE_KIND :: string where "RPC_REQUEST_MESSAGE_KIND = ''rpc_request''"
definition RPC_REPLY_MESSAGE_KIND :: string where "RPC_REPLY_MESSAGE_KIND = ''rpc_reply''"
definition RPC_PROGRESS_MESSAGE_KIND :: string where "RPC_PROGRESS_MESSAGE_KIND = ''rpc_progress''"
definition RPC_NESTED_HEADER_BYTES :: nat where [bounds_simps]: "RPC_NESTED_HEADER_BYTES = 16 + 1 + 4"
definition MAX_NESTED_KIND_BYTES :: nat where [bounds_simps]: "MAX_NESTED_KIND_BYTES = 64"

datatype rpc_error =
    UnexpectedOuterKind string
  | MalformedNestedFrame
  | InvalidNestedKindEncoding
  | RequestIdMismatch request_id request_id
  | RpcStableId stable_id_error
  | RpcInner inner_error

definition wrap_rpc :: "string \<Rightarrow> request_id \<Rightarrow> inner_message \<Rightarrow> (rpc_error, inner_message) result" where
  "wrap_rpc outer_kind rid m =
     (if length (im_kind m) \<ge> 2 ^ 8 then Err MalformedNestedFrame
      else if length (im_kind m) = 0 \<or> length (im_kind m) > MAX_NESTED_KIND_BYTES
      then Err MalformedNestedFrame
      else if length (im_payload m) \<ge> 2 ^ 32 then Err MalformedNestedFrame
      else bind_r (ok_or (Option.bind (usize_checked_add RPC_NESTED_HEADER_BYTES (length (im_kind m)))
                     (\<lambda>v. usize_checked_add v (length (im_payload m)))) MalformedNestedFrame)
        (\<lambda>total.
          map_err RpcInner (inner_message_new outer_kind
            (id_as_bytes rid @ [word_of_nat (length (im_kind m))]
             @ u32_to_be (word_of_nat (length (im_payload m)))
             @ as_bytes (im_kind m) @ im_payload m))))"

definition unwrap_rpc ::
    "string \<Rightarrow> inner_message \<Rightarrow> (rpc_error, request_id \<times> inner_message) result" where
  "unwrap_rpc expected_outer_kind m =
     (let p = im_payload m in
      if im_kind m \<noteq> expected_outer_kind then Err (UnexpectedOuterKind (im_kind m))
      else if length p < RPC_NESTED_HEADER_BYTES then Err MalformedNestedFrame
      else bind_r (map_err RpcStableId (id_try_from (sub_slice 0 16 p))) (\<lambda>rid.
        let kind_len = unat (p ! 16); payload_len = unat (u32_from_be (sub_slice 17 21 p)) in
        if kind_len = 0 \<or> kind_len > MAX_NESTED_KIND_BYTES then Err MalformedNestedFrame
        else (let kind_start = RPC_NESTED_HEADER_BYTES in
          bind_r (ok_or (usize_checked_add kind_start kind_len) MalformedNestedFrame)
            (\<lambda>payload_start.
          bind_r (ok_or (usize_checked_add payload_start payload_len) MalformedNestedFrame) (\<lambda>end.
            if end \<noteq> length p then Err MalformedNestedFrame
            else bind_r (ok_or (from_utf8 (sub_slice kind_start payload_start p))
                           InvalidNestedKindEncoding) (\<lambda>kind.
              bind_r (map_err RpcInner (inner_message_new kind (sub_slice payload_start end p)))
                (\<lambda>nested. Ok (rid, nested))))))))"

definition wrap_rpc_request where
  "wrap_rpc_request rid m = wrap_rpc RPC_REQUEST_MESSAGE_KIND rid m"
definition unwrap_rpc_request where
  "unwrap_rpc_request m = unwrap_rpc RPC_REQUEST_MESSAGE_KIND m"
definition wrap_rpc_reply where
  "wrap_rpc_reply rid m = wrap_rpc RPC_REPLY_MESSAGE_KIND rid m"

definition unwrap_rpc_reply :: "request_id \<Rightarrow> inner_message \<Rightarrow> (rpc_error, inner_message) result" where
  "unwrap_rpc_reply expected m =
     bind_r (unwrap_rpc RPC_REPLY_MESSAGE_KIND m) (\<lambda>(actual, nested).
       if actual \<noteq> expected then Err (RequestIdMismatch expected actual) else Ok nested)"

definition wrap_rpc_progress :: "request_id \<Rightarrow> (rpc_error, inner_message) result" where
  "wrap_rpc_progress rid =
     map_err RpcInner (inner_message_new RPC_PROGRESS_MESSAGE_KIND (id_as_bytes rid))"

definition is_rpc_progress :: "request_id \<Rightarrow> inner_message \<Rightarrow> (rpc_error, bool) result" where
  "is_rpc_progress expected m =
     (if im_kind m \<noteq> RPC_PROGRESS_MESSAGE_KIND then Ok False
      else bind_r (map_err RpcStableId (id_try_from (im_payload m))) (\<lambda>actual.
        if actual \<noteq> expected then Err (RequestIdMismatch expected actual) else Ok True))"

lemma wrap_rpc_Ok:
  "wrap_rpc k rid m = Ok w \<longleftrightarrow> im_kind m \<noteq> [] \<and> length (im_kind m) \<le> 64
     \<and> length (im_payload m) < 2 ^ 32
     \<and> w = \<lparr>im_kind = k, im_payload = id_as_bytes rid @ [word_of_nat (length (im_kind m))]
             @ u32_to_be (word_of_nat (length (im_payload m))) @ as_bytes (im_kind m) @ im_payload m\<rparr>
     \<and> message_ok w"
  by (auto simp: wrap_rpc_def bind_r_Ok usize_checked_add_def inner_message_new_Ok bounds_simps
      split: if_splits)

lemma unwrap_wrap:
  assumes w: "wrap_rpc k rid m = Ok w" and rid: "rid \<noteq> 0" and utf8: "utf8_valid (im_kind m)"
    and ok: "message_ok m"
  shows "unwrap_rpc k w = Ok (rid, m)"
proof -
  let ?h = "id_as_bytes rid @ word_of_nat (length (im_kind m))
      # u32_to_be (word_of_nat (length (im_payload m)))"
  let ?p = "im_payload w"
  have p: "?p = ?h @ as_bytes (im_kind m) @ im_payload m" and k: "im_kind w = k"
    and kl: "im_kind m \<noteq> []" "length (im_kind m) \<le> 64" "length (im_payload m) < 2 ^ 32"
    using w by (simp_all add: wrap_rpc_Ok)
  have len: "length ?p = 21 + length (im_kind m) + length (im_payload m)" by (simp add: p)
  have un: "unat (word_of_nat (length (im_kind m)) :: u8) = length (im_kind m)"
    "unat (word_of_nat (length (im_payload m)) :: u32) = length (im_payload m)"
    using kl by (simp_all add: unat_of_nat)
  have parts: "sub_slice 0 16 ?p = id_as_bytes rid"
    "unat (?p ! 16) = length (im_kind m)"
    "unat (u32_from_be (sub_slice 17 21 ?p)) = length (im_payload m)"
    using un by (simp_all add: p sub_slice_def nth_append)
  have rest: "sub_slice 21 (21 + length (im_kind m)) ?p = as_bytes (im_kind m)"
    "sub_slice (21 + length (im_kind m)) (21 + length (im_kind m) + length (im_payload m)) ?p = im_payload m"
    using sub_slice_middle [of ?h 21 "as_bytes (im_kind m)" _ "im_payload m"]
      sub_slice_middle [of "?h @ as_bytes (im_kind m)" "21 + length (im_kind m)" "im_payload m" _ "[]"]
    by (simp_all add: p)
  have "inner_message_new (im_kind m) (im_payload m) = Ok m"
    using ok by (simp add: inner_message_new_Ok message_ok_def)
  then show ?thesis
    using rid utf8 kl len ok k
    by (simp add: unwrap_rpc_def parts rest Let_def id_try_from_as_bytes from_utf8_as_bytes
        bounds_simps usize_checked_add_def message_ok_def)
qed

lemma unwrap_rpc_Ok:
  assumes "unwrap_rpc k w = Ok (rid, m)"
  shows "im_kind w = k \<and> rid \<noteq> 0 \<and> message_ok m \<and> utf8_valid (im_kind m)
    \<and> length (im_payload w) = 21 + length (im_kind m) + length (im_payload m)"
proof -
  obtain kl where a: "im_kind w = k" "rid \<noteq> 0" "message_ok m" "21 \<le> length (im_payload w)"
    and u: "from_utf8 (sub_slice 21 kl (im_payload w)) = Some (im_kind m)"
    and p: "im_payload m = sub_slice kl (length (im_payload w)) (im_payload w)"
    and b: "21 \<le> kl" "kl \<le> length (im_payload w)"
    using assms
    by (auto simp: unwrap_rpc_def bind_r_Ok Let_def id_try_from_Ok usize_checked_add_Some
        inner_message_new_Ok bounds_simps split: if_splits)
  have "length (sub_slice 21 kl (im_payload w)) = kl - 21" using b by (simp add: sub_slice_def)
  then have "length (im_kind m) = kl - 21" using from_utf8_Some [OF u] by (metis length_map)
  then show ?thesis using a b from_utf8_Some [OF u] by (simp add: p sub_slice_def)
qed

text \<open>C38: RPC envelopes round-trip and pair replies with requests: a wrapped request unwraps to
  its id and message; a wrapped reply unwraps under the same id to the same message, and under
  any other id is refused with both ids; and a request is never taken for a reply.\<close>

theorem rpc_roundtrip:
  assumes "rid \<noteq> 0" and "utf8_valid (im_kind m)" and "message_ok m"
    and "wrap_rpc_request rid m = Ok q" and "wrap_rpc_reply rid m = Ok w" and "other \<noteq> rid"
  shows "unwrap_rpc_request q = Ok (rid, m) \<and> unwrap_rpc_reply rid w = Ok m
    \<and> unwrap_rpc_reply other w = Err (RequestIdMismatch other rid)
    \<and> unwrap_rpc_reply rid q = Err (UnexpectedOuterKind RPC_REQUEST_MESSAGE_KIND)"
proof -
  have "unwrap_rpc_request q = Ok (rid, m)" "unwrap_rpc RPC_REPLY_MESSAGE_KIND w = Ok (rid, m)"
    using unwrap_wrap assms(1-5)
    by (simp_all add: wrap_rpc_request_def unwrap_rpc_request_def wrap_rpc_reply_def)
  moreover have "im_kind q = RPC_REQUEST_MESSAGE_KIND"
    using assms(4) by (simp add: wrap_rpc_request_def wrap_rpc_Ok)
  ultimately show ?thesis using assms(6)
    by (simp add: unwrap_rpc_reply_def unwrap_rpc_def RPC_REQUEST_MESSAGE_KIND_def
        RPC_REPLY_MESSAGE_KIND_def Let_def)
qed

lemma rpc_roundtrip_witness:
  "\<exists>w. unwrap_rpc_reply 5 w = Ok \<lparr>im_kind = ''read'', im_payload = [7]\<rparr>
     \<and> unwrap_rpc_reply 6 w = Err (RequestIdMismatch 6 5)"
proof -
  have ok: "message_ok \<lparr>im_kind = ''read'', im_payload = [7]\<rparr>" by (simp add: message_ok_def)
  obtain q w where q: "wrap_rpc_request 5 \<lparr>im_kind = ''read'', im_payload = [7]\<rparr> = Ok q"
    and w: "wrap_rpc_reply 5 \<lparr>im_kind = ''read'', im_payload = [7]\<rparr> = Ok w"
    by (simp add: wrap_rpc_request_def wrap_rpc_reply_def wrap_rpc_Ok message_ok_def
        RPC_REQUEST_MESSAGE_KIND_def RPC_REPLY_MESSAGE_KIND_def)
  have "utf8_valid (im_kind \<lparr>im_kind = ''read'', im_payload = [7]\<rparr>)"
    by (simp add: utf8_valid_ascii code_def)
  from rpc_roundtrip [OF _ this ok q w, of 6] show ?thesis by auto
qed

end
