(* ===== verification/Message_Codec.thy ===== *)
theory Message_Codec
  imports Inner
begin

section \<open>Typed messages over inner messages\<close>

text \<open>
  Every business protocol turns a typed value into an inner message of a fixed kind and back:
  validate, encode as JSON, bound the size; check the kind, bound the size, parse, validate. The
  locale \<open>message_codec\<close> states that contract and proves once what follows from it; each
  protocol's own functions are an interpretation. \<open>serde\<close> is the JSON library at one type.
\<close>

record 'a serde =
  to_vec :: "'a \<Rightarrow> (json_error, bytes) result"
  from_slice :: "bytes \<Rightarrow> (json_error, 'a) result"

text \<open>What the library promises for one value: what it writes, it reads back.\<close>

definition serde_faithful :: "'a serde \<Rightarrow> 'a \<Rightarrow> bool" where
  "serde_faithful j x \<longleftrightarrow> (case to_vec j x of Inl _ \<Rightarrow> True | Inr b \<Rightarrow> from_slice j b = Ok x)"

lemma serde_faithfulD: "serde_faithful j x \<Longrightarrow> to_vec j x = Ok b \<Longrightarrow> from_slice j b = Ok x"
  by (simp add: serde_faithful_def)

text \<open>A library for witnesses: it writes every value as the bytes given.\<close>

definition const_serde :: "bytes \<Rightarrow> 'a \<Rightarrow> 'a serde" where
  "const_serde b x = \<lparr>to_vec = \<lambda>_. Ok b, from_slice = \<lambda>b'. if b' = b then Ok x else Err (JsonError [])\<rparr>"

lemma const_serde_simps [simp]:
  "to_vec (const_serde b x) y = Ok b" "from_slice (const_serde b x) b = Ok x"
  "serde_faithful (const_serde b x) x"
  by (simp_all add: const_serde_def serde_faithful_def)

text \<open>The remote error messages are cut at a byte bound with \<^verbatim>\<open>String::truncate\<close>; \<open>None\<close> is its
  panic inside a character.\<close>

definition bounded_message :: "nat \<Rightarrow> string \<Rightarrow> string option" where
  "bounded_message bound message =
     (if length message > bound then str_truncate message bound else Some message)"

lemma bounded_message_length: "bounded_message b m = Some t \<Longrightarrow> length t \<le> b"
  by (auto simp: bounded_message_def str_truncate_length split: if_splits)

lemma bounded_message_ascii:
  "\<forall>c \<in> set m. code c < 128 \<Longrightarrow> bounded_message b m = Some (take b m)"
  by (simp add: bounded_message_def str_truncate_ascii)

lemma bounded_message_None:
  "bounded_message b m = None \<longleftrightarrow> b < length m \<and> b \<noteq> 0 \<and> cont_byte (m ! b)"
  by (auto simp: bounded_message_def str_truncate_def is_char_boundary_def)

text \<open>A bound on the payload, where the protocol has one.\<close>

fun within :: "nat option \<Rightarrow> nat \<Rightarrow> bool" where
  "within None n = True"
| "within (Some b) n = (n \<le> b)"

locale message_codec =
  fixes kind :: string and limit :: "nat option" and valid :: "'a \<Rightarrow> bool" and j :: "'a serde"
    and into_msg :: "'a \<Rightarrow> ('e, inner_message) result"
    and from_msg :: "inner_message \<Rightarrow> ('e, 'a) result"
  assumes into_law: "into_msg x = Ok m \<longleftrightarrow>
      valid x \<and> (\<exists>p. to_vec j x = Ok p \<and> within limit (length p) \<and> inner_message_new kind p = Ok m)"
    and from_law: "from_msg m = Ok x \<longleftrightarrow>
      im_kind m = kind \<and> within limit (length (im_payload m)) \<and> from_slice j (im_payload m) = Ok x \<and> valid x"
begin

lemma encoded: "into_msg x = Ok m \<Longrightarrow>
    valid x \<and> message_ok m \<and> im_kind m = kind \<and> within limit (length (im_payload m))"
  by (auto simp: into_law inner_message_new_Ok)

lemma roundtrip: "into_msg x = Ok m \<Longrightarrow> serde_faithful j x \<Longrightarrow> from_msg m = Ok x"
  by (auto simp: into_law from_law inner_message_new_Ok serde_faithfulD)

lemma decoded_valid: "from_msg m = Ok x \<Longrightarrow> valid x"
  by (simp add: from_law)

lemma wrong_kind: "im_kind m \<noteq> kind \<Longrightarrow> \<not> is_ok (from_msg m)"
  by (auto simp: is_ok_iff from_law)

lemma oversized: "\<not> within limit (length (im_payload m)) \<Longrightarrow> \<not> is_ok (from_msg m)"
  by (auto simp: is_ok_iff from_law)

lemma invalid_not_encoded: "\<not> valid x \<Longrightarrow> \<not> is_ok (into_msg x)"
  by (auto simp: is_ok_iff into_law)

text \<open>The contract of a codec as one statement.\<close>

lemma contract:
  "(into_msg x = Ok m \<longrightarrow> serde_faithful j x \<longrightarrow> from_msg m = Ok x)
   \<and> (into_msg x = Ok m \<longrightarrow> valid x \<and> message_ok m \<and> im_kind m = kind \<and> within limit (length (im_payload m)))
   \<and> (from_msg m = Ok x \<longrightarrow> valid x \<and> im_kind m = kind \<and> within limit (length (im_payload m)))"
  by (auto simp: roundtrip encoded from_law dest: encoded)

end

end
