(* ===== verification/Read_Protocol.thy ===== *)
theory Read_Protocol
  imports Message_Codec Enrollment
begin

section \<open>Bootstrap and read protocols (clew-transport, protocol.rs)\<close>

text \<open>
  The length-prefixed bootstrap frames with their requests and responses, and the read request
  and reply carried by inner messages. Streams are the bytes they yield and the outcome of a
  write; a timeout is one of the outcomes.
\<close>

definition MAX_BOOTSTRAP_FRAME_BYTES :: nat where
  [bounds_simps]: "MAX_BOOTSTRAP_FRAME_BYTES = 64 * 1024"
definition MAX_REMOTE_ERROR_MESSAGE_BYTES :: nat where
  [bounds_simps]: "MAX_REMOTE_ERROR_MESSAGE_BYTES = 512"

subsection \<open>Bootstrap\<close>

datatype bootstrap_member_mode = ExecutePreferred | ConnectorOnly

datatype bootstrap_request =
    BrClaim signed_pass device_public_identity string bootstrap_member_mode
  | BrPersisted invite_id device_id bytes string
  | BrActivatedAck invite_id device_id
  | BrActivationConfirmedAck invite_id device_id

datatype bootstrap_error_code = BeInvalidRequest | BeDenied | BeState | BeInternal

record bootstrap_error_body =
  beb_code :: bootstrap_error_code
  beb_message :: string

datatype bootstrap_response =
    BsClaimed receipt
  | BsActivated device_record
  | BsActivationConfirmed invite_id device_id
  | BsError bootstrap_error_body

datatype bootstrap_protocol_error =
    BpJson json_error
  | BpIo io_kind
  | BpFrameTooLarge usize
  | BpTimeout

definition bootstrap_error_new ::
    "bootstrap_error_code \<Rightarrow> string \<Rightarrow> bootstrap_error_body option" where
  "bootstrap_error_new c message =
     map_option (\<lambda>m. \<lparr>beb_code = c, beb_message = m\<rparr>)
       (bounded_message MAX_REMOTE_ERROR_MESSAGE_BYTES message)"

text \<open>The bytes a write hands to the stream, once the value is encoded and bounded.\<close>

definition write_bootstrap ::
    "'a serde \<Rightarrow> (bytes \<Rightarrow> (bootstrap_protocol_error, unit) result) \<Rightarrow> 'a
     \<Rightarrow> (bootstrap_protocol_error, unit) result" where
  "write_bootstrap j stream value =
     bind_r (map_err BpJson (to_vec j value)) (\<lambda>encoded.
       if length encoded > MAX_BOOTSTRAP_FRAME_BYTES then Err (BpFrameTooLarge (length encoded))
       else stream (u32_to_be (word_of_nat (length encoded)) @ encoded))"

text \<open>\<open>stream n\<close> is the outcome of reading exactly \<open>n\<close> more bytes after those already read.\<close>

definition read_bootstrap ::
    "'a serde \<Rightarrow> (bootstrap_protocol_error, bytes) result
     \<Rightarrow> (usize \<Rightarrow> (bootstrap_protocol_error, bytes) result) \<Rightarrow> (bootstrap_protocol_error, 'a) result" where
  "read_bootstrap j header body =
     bind_r header (\<lambda>h. let len = unat (u32_from_be h) in
       if len > MAX_BOOTSTRAP_FRAME_BYTES then Err (BpFrameTooLarge len)
       else bind_r (body len) (\<lambda>encoded. map_err BpJson (from_slice j encoded)))"

lemma bootstrap_roundtrip:
  assumes "serde_faithful j x" and "write_bootstrap j stream x = Ok ()"
  shows "\<exists>b. stream (u32_to_be (word_of_nat (length b)) @ b) = Ok ()
    \<and> read_bootstrap j (Ok (u32_to_be (word_of_nat (length b)))) (\<lambda>n. Ok (take n b)) = Ok x"
proof -
  obtain b where b: "to_vec j x = Ok b" "length b \<le> 65536"
    and s: "stream (u32_to_be (word_of_nat (length b)) @ b) = Ok ()"
    using assms(2) by (auto simp: write_bootstrap_def bind_r_Ok bounds_simps split: if_splits)
  have "unat (word_of_nat (length b) :: u32) = length b" using b(2) by (simp add: unat_of_nat)
  then show ?thesis
    using s b serde_faithfulD [OF assms(1) b(1)]
    by (intro exI [of _ b]) (simp add: read_bootstrap_def bounds_simps)
qed

subsection \<open>Read\<close>

record read_request =
  rq_path :: string
  rq_offset :: u64
  rq_limit :: u32

datatype read_protocol_error =
    RpInvalidPath
  | RpInvalidLimit u32
  | RpResultTooLarge usize
  | RpUnexpectedKind string
  | RpJson json_error
  | RpInner inner_error

definition read_request_validate :: "read_request \<Rightarrow> (read_protocol_error, unit) result" where
  "read_request_validate r =
     (if trim (rq_path r) = [] \<or> length (rq_path r) > HARD_MAX_READ_ROOT_BYTES then Err RpInvalidPath
      else if rq_limit r = 0 \<or> unat (rq_limit r) > HARD_MAX_READ_RESULT_BYTES
      then Err (RpInvalidLimit (rq_limit r))
      else Ok ())"

definition read_request_new ::
    "string \<Rightarrow> u64 \<Rightarrow> u32 \<Rightarrow> (read_protocol_error, read_request) result" where
  "read_request_new path offset limit =
     (let r = \<lparr>rq_path = path, rq_offset = offset, rq_limit = limit\<rparr> in
      bind_r (read_request_validate r) (\<lambda>_. Ok r))"

definition read_request_into_message ::
    "read_request serde \<Rightarrow> read_request \<Rightarrow> (read_protocol_error, inner_message) result" where
  "read_request_into_message j r =
     bind_r (read_request_validate r) (\<lambda>_.
     bind_r (map_err RpJson (to_vec j r)) (\<lambda>p. map_err RpInner (inner_message_new ''read'' p)))"

definition read_request_from_message ::
    "read_request serde \<Rightarrow> inner_message \<Rightarrow> (read_protocol_error, read_request) result" where
  "read_request_from_message j m =
     (if im_kind m \<noteq> ''read'' then Err (RpUnexpectedKind (im_kind m))
      else bind_r (map_err RpJson (from_slice j (im_payload m))) (\<lambda>r.
        bind_r (read_request_validate r) (\<lambda>_. Ok r)))"

datatype read_error_code = ReInvalidRequest | ReDenied | ReNotFound | ReNotFile | ReIo | ReTimeout

record read_error_body =
  reb_code :: read_error_code
  reb_message :: string

datatype read_reply = RrData bytes | RrError read_error_body

definition read_reply_data :: "bytes \<Rightarrow> (read_protocol_error, read_reply) result" where
  "read_reply_data d =
     (if length d > HARD_MAX_READ_RESULT_BYTES then Err (RpResultTooLarge (length d))
      else Ok (RrData d))"

definition read_reply_error :: "read_error_code \<Rightarrow> string \<Rightarrow> read_reply option" where
  "read_reply_error c message =
     map_option (\<lambda>m. RrError \<lparr>reb_code = c, reb_message = m\<rparr>)
       (bounded_message MAX_REMOTE_ERROR_MESSAGE_BYTES message)"

definition read_reply_into_message ::
    "read_error_body serde \<Rightarrow> read_reply \<Rightarrow> (read_protocol_error, inner_message) result" where
  "read_reply_into_message j r =
     (case r of
        RrData d \<Rightarrow> map_err RpInner (inner_message_new ''read_result'' d)
      | RrError e \<Rightarrow> bind_r (map_err RpJson (to_vec j e)) (\<lambda>p.
          map_err RpInner (inner_message_new ''read_error'' p)))"

definition read_reply_from_message ::
    "read_error_body serde \<Rightarrow> inner_message \<Rightarrow> (read_protocol_error, read_reply) result" where
  "read_reply_from_message j m =
     (if im_kind m = ''read_result'' then read_reply_data (im_payload m)
      else if im_kind m = ''read_error''
      then bind_r (map_err RpJson (from_slice j (im_payload m))) (\<lambda>e. Ok (RrError e))
      else Err (RpUnexpectedKind (im_kind m)))"

definition read_request_ok :: "read_request \<Rightarrow> bool" where
  "read_request_ok r \<longleftrightarrow> trim (rq_path r) \<noteq> [] \<and> length (rq_path r) \<le> 2048
     \<and> 0 < unat (rq_limit r) \<and> unat (rq_limit r) \<le> 49152"

lemma read_request_validate_Ok: "read_request_validate r = Ok u \<longleftrightarrow> read_request_ok r"
  by (auto simp: read_request_validate_def read_request_ok_def bounds_simps unat_gt_0)

interpretation read_codec: message_codec "''read''" None read_request_ok j
    "read_request_into_message j" "read_request_from_message j" for j
  by unfold_locales
    (auto simp: read_request_into_message_def read_request_from_message_def bind_r_Ok
      read_request_validate_Ok)

text \<open>A read request survives the wire: an encoded request is valid and decodes to itself, and
  whatever decodes, from whatever peer, has a non-blank path of at most 2048 bytes and a limit
  of 1 to 48 KiB; a data reply within the read bound decodes to the same bytes.\<close>

theorem read_messages:
  assumes "read_request_into_message j r = Ok m" and "serde_faithful j r"
    and "read_request_from_message j m' = Ok r'"
    and "length d \<le> HARD_MAX_READ_RESULT_BYTES"
    and "read_reply_into_message je (RrData d) = Ok md"
  shows "read_request_from_message j m = Ok r
    \<and> trim (rq_path r') \<noteq> [] \<and> length (rq_path r') \<le> 2048
    \<and> 1 \<le> unat (rq_limit r') \<and> unat (rq_limit r') \<le> 48 * 1024
    \<and> read_reply_from_message je md = Ok (RrData d)"
  using read_codec.roundtrip [OF assms(1,2)] read_codec.decoded_valid [OF assms(3)] assms(4,5)
  by (auto simp: read_request_ok_def read_reply_into_message_def read_reply_from_message_def
      read_reply_data_def inner_message_new_Ok bounds_simps)

text \<open>Building an error reply panics exactly when byte 512 of a longer message falls inside a
  UTF-8 character; otherwise the message is kept within 512 bytes.\<close>

theorem read_reply_error_panics:
  "(read_reply_error c message = None \<longleftrightarrow> 512 < length message \<and> cont_byte (message ! 512))
   \<and> (\<forall>r. read_reply_error c message = Some r \<longrightarrow>
        (\<exists>m. r = RrError \<lparr>reb_code = c, reb_message = m\<rparr> \<and> length m \<le> 512))
   \<and> read_reply_error c (replicate 511 CHR ''a'' @ [char_of (195 :: nat), char_of (169 :: nat)]) = None"
proof -
  have "read_reply_error c m = None \<longleftrightarrow> 512 < length m \<and> cont_byte (m ! 512)" for m
    by (auto simp: read_reply_error_def bounded_message_None bounds_simps)
  moreover have "cont_byte ((replicate 511 CHR ''a'' @ [char_of (195 :: nat), char_of (169 :: nat)]) ! 512)"
    by (simp add: nth_append cont_byte_def code_char_of in_range_def)
  ultimately show ?thesis
    by (auto simp: read_reply_error_def bounds_simps dest: bounded_message_length)
qed

lemma read_messages_witness:
  "read_request_from_message (const_serde [1] \<lparr>rq_path = ''/x'', rq_offset = 0, rq_limit = 9\<rparr>)
     \<lparr>im_kind = ''read'', im_payload = [1]\<rparr> = Ok \<lparr>rq_path = ''/x'', rq_offset = 0, rq_limit = 9\<rparr>"
proof -
  let ?r = "\<lparr>rq_path = ''/x'', rq_offset = 0, rq_limit = 9\<rparr>"
  let ?m = "\<lparr>im_kind = ''read'', im_payload = [1]\<rparr>"
  have ok: "read_request_ok ?r"
    by (simp add: read_request_ok_def trim_def ascii_defs)
  have enc: "read_request_into_message (const_serde [1] ?r) ?r = Ok ?m"
    using ok by (simp add: read_request_into_message_def bind_r_Ok read_request_validate_Ok
        inner_message_new_Ok message_ok_def)
  have dec: "read_request_from_message (const_serde [1] ?r) ?m = Ok ?r"
    using ok by (simp add: read_request_from_message_def bind_r_Ok read_request_validate_Ok)
  show ?thesis
    using read_messages [OF enc _ dec, of "[]" undefined "\<lparr>im_kind = ''read_result'', im_payload = []\<rparr>"]
    by (simp add: read_reply_into_message_def inner_message_new_Ok message_ok_def)
qed

lemma read_reply_error_panics_witness:
  "\<exists>m. read_reply_error ReDenied ''no'' = Some (RrError \<lparr>reb_code = ReDenied, reb_message = m\<rparr>)"
  using read_reply_error_panics [of ReDenied "''no''"] by (cases "read_reply_error ReDenied ''no''") auto

end
