(* ===== verification/File_Resume.thy ===== *)
theory File_Resume
  imports Message_Codec
begin

section \<open>Resume checkpoints (clew-transport, file_resume.rs)\<close>

text \<open>
  A resume descriptor names a transfer's scope, how much of it is confirmed and the hash of that
  prefix. A checkpoint may only replace another of the same scope, with a higher revision, an
  offset that does not go back, and hashes that do not change what was already known.
\<close>

definition FILE_RESUME_DESCRIPTOR_VERSION :: u32 where "FILE_RESUME_DESCRIPTOR_VERSION = 1"
definition MAX_FILE_RESUME_DESCRIPTOR_BYTES :: nat where
  [bounds_simps]: "MAX_FILE_RESUME_DESCRIPTOR_BYTES = 8 * 1024"
definition MAX_FILE_RESUME_PATH_BYTES :: nat where
  [bounds_simps]: "MAX_FILE_RESUME_PATH_BYTES = HARD_MAX_READ_ROOT_BYTES"
definition EMPTY_SHA256_HEX :: string where
  "EMPTY_SHA256_HEX = ''e3b0c44298fc1c149afbf4c8996fb92427ae41e4649b934ca495991b7852b855''"

datatype file_transfer_direction = ControllerToDevice | DeviceToController

record file_resume_descriptor =
  fd_version :: u32
  fd_transfer_id :: transfer_id
  fd_controller_id :: controller_id
  fd_site_id :: site_id
  fd_device_id :: device_id
  fd_direction :: file_transfer_direction
  fd_device_path :: string
  fd_total_size :: u64
  fd_checkpoint_revision :: u64
  fd_confirmed_offset :: u64
  fd_confirmed_prefix_sha256 :: string
  fd_final_sha256 :: "string option"

datatype file_resume_error =
    FrUnsupportedVersion u32
  | FrInvalidPath string
  | FrInvalidCheckpointRevision
  | FrOffsetBeyondEnd u64 u64
  | FrInvalidSha256 string
  | FrInvalidEmptyPrefixHash
  | FrMissingFinalSha256ForComplete
  | FrCompletedHashMismatch
  | FrAlreadyComplete
  | FrScopeChanged string
  | FrStaleCheckpointRevision u64 u64
  | FrOffsetRegressed u64 u64
  | FrPrefixHashChangedAtSameOffset
  | FrFinalHashChanged
  | FrEncodedTooLarge usize
  | FrJson json_error

definition resume_validate_path :: "string \<Rightarrow> string \<Rightarrow> (file_resume_error, unit) result" where
  "resume_validate_path field path =
     (if trim path = [] \<or> length path > MAX_FILE_RESUME_PATH_BYTES \<or> CHR 0x00 \<in> set path
      then Err (FrInvalidPath field) else Ok ())"

definition is_sha256_hex :: "string \<Rightarrow> bool" where
  "is_sha256_hex value \<longleftrightarrow> length value = 64 \<and> list_all is_lower_hex value"

definition resume_validate_sha256 :: "string \<Rightarrow> string \<Rightarrow> (file_resume_error, unit) result" where
  "resume_validate_sha256 field value =
     (if length value \<noteq> 64 \<or> \<not> list_all (\<lambda>c. is_ascii_digit c \<or> in_range 97 102 c) value
      then Err (FrInvalidSha256 field) else Ok ())"

definition fd_is_complete :: "file_resume_descriptor \<Rightarrow> bool" where
  "fd_is_complete d \<longleftrightarrow> fd_confirmed_offset d = fd_total_size d"

definition fd_validate :: "file_resume_descriptor \<Rightarrow> (file_resume_error, unit) result" where
  "fd_validate d =
     (if fd_version d \<noteq> FILE_RESUME_DESCRIPTOR_VERSION then Err (FrUnsupportedVersion (fd_version d))
      else bind_r (resume_validate_path ''device_path'' (fd_device_path d)) (\<lambda>_.
        if fd_checkpoint_revision d = 0 then Err FrInvalidCheckpointRevision
        else if fd_confirmed_offset d > fd_total_size d
        then Err (FrOffsetBeyondEnd (fd_confirmed_offset d) (fd_total_size d))
        else bind_r (resume_validate_sha256 ''confirmed_prefix_sha256''
                       (fd_confirmed_prefix_sha256 d)) (\<lambda>_.
          if fd_confirmed_offset d = 0 \<and> fd_confirmed_prefix_sha256 d \<noteq> EMPTY_SHA256_HEX
          then Err FrInvalidEmptyPrefixHash
          else (case fd_final_sha256 d of
              Some final \<Rightarrow> bind_r (resume_validate_sha256 ''final_sha256'' final) (\<lambda>_.
                if fd_confirmed_offset d = fd_total_size d \<and> final \<noteq> fd_confirmed_prefix_sha256 d
                then Err FrCompletedHashMismatch else Ok ())
            | None \<Rightarrow> if fd_confirmed_offset d = fd_total_size d
                then Err FrMissingFinalSha256ForComplete else Ok ()))))"

definition fd_new where
  "fd_new tid cid sid did dir path total_size revision offset hash final =
     (let d = \<lparr>fd_version = FILE_RESUME_DESCRIPTOR_VERSION, fd_transfer_id = tid,
               fd_controller_id = cid, fd_site_id = sid, fd_device_id = did, fd_direction = dir,
               fd_device_path = path, fd_total_size = total_size,
               fd_checkpoint_revision = revision, fd_confirmed_offset = offset,
               fd_confirmed_prefix_sha256 = hash,
               fd_final_sha256 = final\<rparr> in
      bind_r (fd_validate d) (\<lambda>_. Ok d))"

definition validate_successor_of ::
    "file_resume_descriptor \<Rightarrow> file_resume_descriptor \<Rightarrow> (file_resume_error, unit) result" where
  "validate_successor_of d previous =
     bind_r (fd_validate previous) (\<lambda>_.
     bind_r (fd_validate d) (\<lambda>_.
       if fd_is_complete previous then Err FrAlreadyComplete
       else if fd_transfer_id d \<noteq> fd_transfer_id previous then Err (FrScopeChanged ''transfer_id'')
       else if fd_controller_id d \<noteq> fd_controller_id previous
       then Err (FrScopeChanged ''controller_id'')
       else if fd_site_id d \<noteq> fd_site_id previous then Err (FrScopeChanged ''site_id'')
       else if fd_device_id d \<noteq> fd_device_id previous then Err (FrScopeChanged ''device_id'')
       else if fd_direction d \<noteq> fd_direction previous then Err (FrScopeChanged ''direction'')
       else if fd_device_path d \<noteq> fd_device_path previous then Err (FrScopeChanged ''device_path'')
       else if fd_total_size d \<noteq> fd_total_size previous then Err (FrScopeChanged ''total_size'')
       else if fd_checkpoint_revision d \<le> fd_checkpoint_revision previous
       then Err (FrStaleCheckpointRevision (fd_checkpoint_revision previous) (fd_checkpoint_revision d))
       else if fd_confirmed_offset d < fd_confirmed_offset previous
       then Err (FrOffsetRegressed (fd_confirmed_offset previous) (fd_confirmed_offset d))
       else if fd_confirmed_offset d = fd_confirmed_offset previous
               \<and> fd_confirmed_prefix_sha256 d \<noteq> fd_confirmed_prefix_sha256 previous
       then Err FrPrefixHashChangedAtSameOffset
       else if (case fd_final_sha256 previous of None \<Rightarrow> False
                | Some final \<Rightarrow> fd_final_sha256 d \<noteq> Some final)
       then Err FrFinalHashChanged
       else Ok ()))"

definition fd_encode ::
    "file_resume_descriptor serde \<Rightarrow> file_resume_descriptor \<Rightarrow> (file_resume_error, bytes) result" where
  "fd_encode j d =
     bind_r (fd_validate d) (\<lambda>_.
     bind_r (map_err FrJson (to_vec j d)) (\<lambda>encoded.
       if length encoded > MAX_FILE_RESUME_DESCRIPTOR_BYTES
       then Err (FrEncodedTooLarge (length encoded)) else Ok encoded))"

definition fd_decode ::
    "file_resume_descriptor serde \<Rightarrow> bytes \<Rightarrow> (file_resume_error, file_resume_descriptor) result" where
  "fd_decode j encoded =
     (if length encoded > MAX_FILE_RESUME_DESCRIPTOR_BYTES then Err (FrEncodedTooLarge (length encoded))
      else bind_r (map_err FrJson (from_slice j encoded)) (\<lambda>d.
        bind_r (fd_validate d) (\<lambda>_. Ok d)))"

subsection \<open>Lemmas\<close>

definition device_path_ok :: "string \<Rightarrow> bool" where
  "device_path_ok p \<longleftrightarrow> trim p \<noteq> [] \<and> length p \<le> 2048 \<and> CHR 0x00 \<notin> set p"

definition fd_ok :: "file_resume_descriptor \<Rightarrow> bool" where
  "fd_ok d \<longleftrightarrow> fd_version d = 1 \<and> device_path_ok (fd_device_path d)
     \<and> fd_checkpoint_revision d \<noteq> 0 \<and> fd_confirmed_offset d \<le> fd_total_size d
     \<and> is_sha256_hex (fd_confirmed_prefix_sha256 d)
     \<and> (fd_confirmed_offset d = 0 \<longrightarrow> fd_confirmed_prefix_sha256 d = EMPTY_SHA256_HEX)
     \<and> (\<forall>f. fd_final_sha256 d = Some f \<longrightarrow> is_sha256_hex f)
     \<and> (fd_confirmed_offset d = fd_total_size d \<longrightarrow>
          fd_final_sha256 d = Some (fd_confirmed_prefix_sha256 d))"

lemma is_lower_hex_alt: "is_lower_hex c \<longleftrightarrow> is_ascii_digit c \<or> in_range 97 102 c"
  by (simp add: is_lower_hex_def)

lemma resume_validate_sha256_Ok [simp]: "resume_validate_sha256 n v = Ok u \<longleftrightarrow> is_sha256_hex v"
  by (auto simp: resume_validate_sha256_def is_sha256_hex_def list_all_iff is_lower_hex_alt)

lemma resume_validate_path_Ok [simp]: "resume_validate_path n p = Ok u \<longleftrightarrow> device_path_ok p"
  by (auto simp: resume_validate_path_def device_path_ok_def bounds_simps)

lemma fd_validate_Ok: "fd_validate d = Ok u \<longleftrightarrow> fd_ok d"
  by (cases "fd_final_sha256 d")
     (auto simp: fd_validate_def fd_ok_def bind_r_Ok FILE_RESUME_DESCRIPTOR_VERSION_def)

definition same_scope :: "file_resume_descriptor \<Rightarrow> file_resume_descriptor \<Rightarrow> bool" where
  "same_scope a b \<longleftrightarrow> fd_transfer_id a = fd_transfer_id b \<and> fd_controller_id a = fd_controller_id b
     \<and> fd_site_id a = fd_site_id b \<and> fd_device_id a = fd_device_id b \<and> fd_direction a = fd_direction b
     \<and> fd_device_path a = fd_device_path b \<and> fd_total_size a = fd_total_size b"

lemma validate_successor_of_Ok:
  "validate_successor_of d p = Ok u \<longleftrightarrow> fd_ok p \<and> fd_ok d \<and> \<not> fd_is_complete p \<and> same_scope d p
     \<and> fd_checkpoint_revision p < fd_checkpoint_revision d
     \<and> fd_confirmed_offset p \<le> fd_confirmed_offset d
     \<and> (fd_confirmed_offset d = fd_confirmed_offset p \<longrightarrow>
          fd_confirmed_prefix_sha256 d = fd_confirmed_prefix_sha256 p)
     \<and> (\<forall>f. fd_final_sha256 p = Some f \<longrightarrow> fd_final_sha256 d = Some f)"
  by (cases "fd_final_sha256 p")
     (auto simp: validate_successor_of_def bind_r_Ok fd_validate_Ok same_scope_def not_less not_le)

lemma fd_decode_encode: "fd_encode j d = Ok b \<Longrightarrow> serde_faithful j d \<Longrightarrow> fd_decode j b = Ok d"
  by (auto simp: fd_encode_def fd_decode_def bind_r_Ok serde_faithfulD split: if_splits)

text \<open>A history of checkpoints, oldest first, each accepted as the successor of the one before.\<close>

fun checkpoint_chain :: "file_resume_descriptor list \<Rightarrow> bool" where
  "checkpoint_chain [] = True"
| "checkpoint_chain [d] = (fd_validate d = Ok ())"
| "checkpoint_chain (d # e # ds) = (validate_successor_of e d = Ok () \<and> checkpoint_chain (e # ds))"

lemma checkpoint_chain_step:
  assumes "checkpoint_chain (d # ds)" and "e \<in> set ds"
  shows "same_scope e d \<and> fd_checkpoint_revision d < fd_checkpoint_revision e
    \<and> fd_confirmed_offset d \<le> fd_confirmed_offset e \<and> \<not> fd_is_complete d
    \<and> (\<forall>f. fd_final_sha256 d = Some f \<longrightarrow> fd_final_sha256 e = Some f)"
  using assms
proof (induction ds arbitrary: d)
  case Nil
  then show ?case by simp
next
  case (Cons x ds)
  have x: "same_scope x d" "fd_checkpoint_revision d < fd_checkpoint_revision x"
    "fd_confirmed_offset d \<le> fd_confirmed_offset x" "\<not> fd_is_complete d"
    "\<forall>f. fd_final_sha256 d = Some f \<longrightarrow> fd_final_sha256 x = Some f"
    and rest: "checkpoint_chain (x # ds)"
    using Cons.prems(1) by (auto simp: validate_successor_of_Ok)
  show ?case
  proof (cases "e = x")
    case True
    then show ?thesis using x by simp
  next
    case False
    then have "e \<in> set ds" using Cons.prems(2) by simp
    from Cons.IH [OF rest this] x show ?thesis by (auto simp: same_scope_def)
  qed
qed

text \<open>C30: Accepted checkpoints only move a transfer forward: along any history of checkpoints each
  accepted as successor of the one before, the scope never changes, revisions strictly increase,
  confirmed offsets never go back, a known final hash is never removed or changed, and nothing
  follows a completed checkpoint.\<close>

theorem checkpoints_monotone:
  assumes "checkpoint_chain ds"
  shows "sorted_wrt (\<lambda>d e. same_scope e d \<and> fd_checkpoint_revision d < fd_checkpoint_revision e
    \<and> fd_confirmed_offset d \<le> fd_confirmed_offset e \<and> \<not> fd_is_complete d
    \<and> (\<forall>f. fd_final_sha256 d = Some f \<longrightarrow> fd_final_sha256 e = Some f)) ds"
  using assms
proof (induction ds)
  case Nil
  then show ?case by simp
next
  case (Cons d ds)
  have "checkpoint_chain ds" using Cons.prems by (cases ds) auto
  with Cons.IH checkpoint_chain_step [OF Cons.prems] show ?case by simp
qed

definition toy_checkpoint :: "u64 \<Rightarrow> u64 \<Rightarrow> file_resume_descriptor" where
  "toy_checkpoint revision off =
     \<lparr>fd_version = 1, fd_transfer_id = 1, fd_controller_id = 2, fd_site_id = 3, fd_device_id = 4,
      fd_direction = ControllerToDevice, fd_device_path = ''/tmp/x'', fd_total_size = 9,
      fd_checkpoint_revision = revision, fd_confirmed_offset = off,
      fd_confirmed_prefix_sha256 = EMPTY_SHA256_HEX, fd_final_sha256 = None\<rparr>"

lemma checkpoints_monotone_witness:
  "fd_confirmed_offset (toy_checkpoint 1 0) \<le> fd_confirmed_offset (toy_checkpoint 2 4)"
proof -
  have "is_sha256_hex EMPTY_SHA256_HEX"
    by (simp add: is_sha256_hex_def EMPTY_SHA256_HEX_def ascii_defs)
  then have "checkpoint_chain [toy_checkpoint 1 0, toy_checkpoint 2 4]"
    by (simp add: validate_successor_of_Ok fd_validate_Ok fd_ok_def toy_checkpoint_def same_scope_def
        fd_is_complete_def device_path_ok_def trim_def ascii_defs)
  from checkpoints_monotone [OF this] show ?thesis by simp
qed

end
