(* ===== verification/File_Transfer.thy ===== *)
theory File_Transfer
  imports File_Resume
begin

section \<open>The file-transfer protocol (clew-transport, file_transfer.rs)\<close>

text \<open>
  Manifests, chunks, requests, statuses and replies of single-file transfers, with their
  validation, size bounds and messages. SHA-256 and Base64 are parameters.
\<close>

definition FILE_TRANSFER_MANIFEST_VERSION :: u32 where "FILE_TRANSFER_MANIFEST_VERSION = 1"
definition MAX_FILE_TRANSFER_MANIFEST_BYTES :: nat where
  [bounds_simps]: "MAX_FILE_TRANSFER_MANIFEST_BYTES = 16 * 1024"
definition MIN_FILE_CHUNK_BYTES :: u32 where [bounds_simps]: "MIN_FILE_CHUNK_BYTES = 4 * 1024"
definition MAX_FILE_CHUNK_BYTES :: u32 where [bounds_simps]: "MAX_FILE_CHUNK_BYTES = 32 * 1024"
definition MAX_FILE_CHUNK_BASE64_BYTES :: nat where
  [bounds_simps]: "MAX_FILE_CHUNK_BASE64_BYTES = ((32 * 1024 + 2) div 3) * 4"
definition MAX_FILE_TRANSFER_CHUNK_ENCODED_BYTES :: nat where
  [bounds_simps]: "MAX_FILE_TRANSFER_CHUNK_ENCODED_BYTES = 48 * 1024"
definition MAX_FILE_TRANSFER_RPC_PAYLOAD_BYTES :: nat where
  [bounds_simps]: "MAX_FILE_TRANSFER_RPC_PAYLOAD_BYTES = 56 * 1024"
definition MAX_FILE_TRANSFER_ERROR_MESSAGE_BYTES :: nat where
  [bounds_simps]: "MAX_FILE_TRANSFER_ERROR_MESSAGE_BYTES = 512"

record base64 =
  b64_encode :: "bytes \<Rightarrow> string"
  b64_decode :: "string \<Rightarrow> (string, bytes) result"

text \<open>What the Base64 library promises: it decodes what it encodes, four characters for every
  three bytes begun.\<close>

definition base64_ok :: "base64 \<Rightarrow> bool" where
  "base64_ok b \<longleftrightarrow> (\<forall>x. b64_decode b (b64_encode b x) = Ok x
     \<and> length (b64_encode b x) = 4 * ((length x + 2) div 3))"

definition sha256_hex :: "(bytes \<Rightarrow> bytes) \<Rightarrow> bytes \<Rightarrow> string" where
  "sha256_hex sha bs = hex_string (sha bs)"

datatype file_conflict_policy = FailIfExists | ReplaceExisting | RenameIfExists

record file_transfer_manifest =
  fm_version :: u32
  fm_transfer_id :: transfer_id
  fm_controller_id :: controller_id
  fm_site_id :: site_id
  fm_device_id :: device_id
  fm_direction :: file_transfer_direction
  fm_device_path :: string
  fm_total_size :: u64
  fm_chunk_size :: u32
  fm_final_sha256 :: string
  fm_conflict_policy :: "file_conflict_policy option"

record file_transfer_chunk =
  fc_transfer_id :: transfer_id
  fc_offset :: u64
  fc_sha256 :: string
  fc_data_base64 :: string

datatype file_transfer_error =
    FtUnsupportedManifestVersion u32
  | FtInvalidDevicePath
  | FtInvalidChunkSize u32
  | FtInvalidSha256
  | FtEmptyFileHashMismatch
  | FtMissingDeviceConflictPolicy
  | FtControllerPrivateConflictPolicyLeaked
  | FtManifestTooLarge usize
  | FtInvalidChunkLength usize
  | FtChunkEncodingTooLarge usize
  | FtChunkDocumentTooLarge usize
  | FtChunkHashMismatch
  | FtChunkTransferMismatch
  | FtChunkOffsetBeyondEnd u64 u64
  | FtChunkOffsetUnaligned u64 u32
  | FtUnexpectedChunkLength usize usize
  | FtWrongDirection
  | FtInvalidPhase
  | FtRpcPayloadTooLarge usize
  | FtErrorMessageTooLarge
  | FtUnexpectedKind string
  | FtInner inner_error
  | FtResume file_resume_error
  | FtJson json_error
  | FtBase64 string

definition is_power_of_two :: "u32 \<Rightarrow> bool" where
  "is_power_of_two w \<longleftrightarrow> list_ex (\<lambda>k. w = push_bit k 1) [0..<32]"

definition ft_validate_sha256 :: "string \<Rightarrow> (file_transfer_error, unit) result" where
  "ft_validate_sha256 value =
     (if length value \<noteq> 64 \<or> \<not> list_all (\<lambda>c. is_ascii_digit c \<or> in_range 97 102 c) value
      then Err FtInvalidSha256 else Ok ())"

definition ft_validate_path :: "string \<Rightarrow> (file_transfer_error, unit) result" where
  "ft_validate_path path =
     (if trim path = [] \<or> length path > MAX_FILE_RESUME_PATH_BYTES \<or> CHR 0x00 \<in> set path
      then Err FtInvalidDevicePath else Ok ())"

definition ft_validate_chunk_size :: "u32 \<Rightarrow> (file_transfer_error, unit) result" where
  "ft_validate_chunk_size c =
     (if c < MIN_FILE_CHUNK_BYTES \<or> c > MAX_FILE_CHUNK_BYTES \<or> \<not> is_power_of_two c
      then Err (FtInvalidChunkSize c) else Ok ())"

definition manifest_validate :: "file_transfer_manifest \<Rightarrow> (file_transfer_error, unit) result" where
  "manifest_validate m =
     (if fm_version m \<noteq> FILE_TRANSFER_MANIFEST_VERSION
      then Err (FtUnsupportedManifestVersion (fm_version m))
      else bind_r (ft_validate_path (fm_device_path m)) (\<lambda>_.
           bind_r (ft_validate_chunk_size (fm_chunk_size m)) (\<lambda>_.
           bind_r (ft_validate_sha256 (fm_final_sha256 m)) (\<lambda>_.
             if fm_total_size m = 0 \<and> fm_final_sha256 m \<noteq> EMPTY_SHA256_HEX
             then Err FtEmptyFileHashMismatch
             else (case (fm_direction m, fm_conflict_policy m) of
                 (ControllerToDevice, Some _) \<Rightarrow> Ok ()
               | (DeviceToController, None) \<Rightarrow> Ok ()
               | (ControllerToDevice, None) \<Rightarrow> Err FtMissingDeviceConflictPolicy
               | (DeviceToController, Some _) \<Rightarrow> Err FtControllerPrivateConflictPolicyLeaked)))))"

definition manifest_new ::
    "transfer_id \<Rightarrow> controller_id \<Rightarrow> site_id \<Rightarrow> device_id \<Rightarrow> file_transfer_direction \<Rightarrow> string
     \<Rightarrow> u64 \<Rightarrow> u32 \<Rightarrow> string \<Rightarrow> file_conflict_policy option
     \<Rightarrow> (file_transfer_error, file_transfer_manifest) result" where
  "manifest_new tid cid sid did dir path total_size chunk sha policy =
     (let m = \<lparr>fm_version = FILE_TRANSFER_MANIFEST_VERSION, fm_transfer_id = tid,
               fm_controller_id = cid, fm_site_id = sid, fm_device_id = did, fm_direction = dir,
               fm_device_path = path, fm_total_size = total_size,
               fm_chunk_size = chunk, fm_final_sha256 = sha, fm_conflict_policy = policy\<rparr> in
      bind_r (manifest_validate m) (\<lambda>_. Ok m))"

definition u64_of :: "u32 \<Rightarrow> u64" where "u64_of w = ucast w"

definition div_ceil :: "u64 \<Rightarrow> u64 \<Rightarrow> u64" where
  "div_ceil a b = (if a mod b = 0 then a div b else a div b + 1)"

definition chunk_count :: "file_transfer_manifest \<Rightarrow> (file_transfer_error, u64) result" where
  "chunk_count m =
     bind_r (manifest_validate m) (\<lambda>_. Ok (div_ceil (fm_total_size m) (u64_of (fm_chunk_size m))))"

definition manifest_encode ::
    "file_transfer_manifest serde \<Rightarrow> file_transfer_manifest \<Rightarrow> (file_transfer_error, bytes) result" where
  "manifest_encode j m =
     bind_r (manifest_validate m) (\<lambda>_.
     bind_r (map_err FtJson (to_vec j m)) (\<lambda>encoded.
       if length encoded > MAX_FILE_TRANSFER_MANIFEST_BYTES
       then Err (FtManifestTooLarge (length encoded)) else Ok encoded))"

definition manifest_decode ::
    "file_transfer_manifest serde \<Rightarrow> bytes \<Rightarrow> (file_transfer_error, file_transfer_manifest) result" where
  "manifest_decode j encoded =
     (if length encoded > MAX_FILE_TRANSFER_MANIFEST_BYTES
      then Err (FtManifestTooLarge (length encoded))
      else bind_r (map_err FtJson (from_slice j encoded)) (\<lambda>m.
        bind_r (manifest_validate m) (\<lambda>_. Ok m)))"

definition initial_resume_descriptor ::
    "file_transfer_manifest \<Rightarrow> (file_transfer_error, file_resume_descriptor) result" where
  "initial_resume_descriptor m =
     bind_r (manifest_validate m) (\<lambda>_.
       map_err FtResume (fd_new (fm_transfer_id m) (fm_controller_id m) (fm_site_id m)
         (fm_device_id m) (fm_direction m) (fm_device_path m) (fm_total_size m) 1 0
         EMPTY_SHA256_HEX (Some (fm_final_sha256 m))))"

definition chunk_validate ::
    "(bytes \<Rightarrow> bytes) \<Rightarrow> base64 \<Rightarrow> file_transfer_chunk \<Rightarrow> (file_transfer_error, unit) result" where
  "chunk_validate sha b c =
     bind_r (ft_validate_sha256 (fc_sha256 c)) (\<lambda>_.
       if length (fc_data_base64 c) > MAX_FILE_CHUNK_BASE64_BYTES
       then Err (FtChunkEncodingTooLarge (length (fc_data_base64 c)))
       else bind_r (map_err FtBase64 (b64_decode b (fc_data_base64 c))) (\<lambda>data.
         if data = [] \<or> length data > unat MAX_FILE_CHUNK_BYTES
         then Err (FtInvalidChunkLength (length data))
         else if sha256_hex sha data \<noteq> fc_sha256 c then Err FtChunkHashMismatch
         else Ok ()))"

definition chunk_from_bytes ::
    "(bytes \<Rightarrow> bytes) \<Rightarrow> base64 \<Rightarrow> transfer_id \<Rightarrow> u64 \<Rightarrow> bytes
     \<Rightarrow> (file_transfer_error, file_transfer_chunk) result" where
  "chunk_from_bytes sha b tid offset data =
     (if data = [] \<or> length data > unat MAX_FILE_CHUNK_BYTES
      then Err (FtInvalidChunkLength (length data))
      else (let c = \<lparr>fc_transfer_id = tid, fc_offset = offset, fc_sha256 = sha256_hex sha data,
                     fc_data_base64 = b64_encode b data\<rparr> in
        bind_r (chunk_validate sha b c) (\<lambda>_. Ok c)))"

definition chunk_decode_bytes ::
    "(bytes \<Rightarrow> bytes) \<Rightarrow> base64 \<Rightarrow> file_transfer_chunk \<Rightarrow> (file_transfer_error, bytes) result" where
  "chunk_decode_bytes sha b c =
     bind_r (chunk_validate sha b c) (\<lambda>_. map_err FtBase64 (b64_decode b (fc_data_base64 c)))"

definition chunk_encode ::
    "(bytes \<Rightarrow> bytes) \<Rightarrow> base64 \<Rightarrow> file_transfer_chunk serde \<Rightarrow> file_transfer_chunk
     \<Rightarrow> (file_transfer_error, bytes) result" where
  "chunk_encode sha b j c =
     bind_r (chunk_validate sha b c) (\<lambda>_.
     bind_r (map_err FtJson (to_vec j c)) (\<lambda>encoded.
       if length encoded > MAX_FILE_TRANSFER_CHUNK_ENCODED_BYTES
       then Err (FtChunkDocumentTooLarge (length encoded)) else Ok encoded))"

definition chunk_decode ::
    "(bytes \<Rightarrow> bytes) \<Rightarrow> base64 \<Rightarrow> file_transfer_chunk serde \<Rightarrow> bytes
     \<Rightarrow> (file_transfer_error, file_transfer_chunk) result" where
  "chunk_decode sha b j encoded =
     (if length encoded > MAX_FILE_TRANSFER_CHUNK_ENCODED_BYTES
      then Err (FtChunkDocumentTooLarge (length encoded))
      else bind_r (map_err FtJson (from_slice j encoded)) (\<lambda>c.
        bind_r (chunk_validate sha b c) (\<lambda>_. Ok c)))"

definition manifest_validate_chunk ::
    "(bytes \<Rightarrow> bytes) \<Rightarrow> base64 \<Rightarrow> file_transfer_manifest \<Rightarrow> file_transfer_chunk
     \<Rightarrow> (file_transfer_error, unit) result" where
  "manifest_validate_chunk sha b m c =
     bind_r (manifest_validate m) (\<lambda>_.
     bind_r (chunk_validate sha b c) (\<lambda>_.
       if fc_transfer_id c \<noteq> fm_transfer_id m then Err FtChunkTransferMismatch
       else if fm_total_size m = 0 \<or> fc_offset c \<ge> fm_total_size m
       then Err (FtChunkOffsetBeyondEnd (fc_offset c) (fm_total_size m))
       else if fc_offset c mod u64_of (fm_chunk_size m) \<noteq> 0
       then Err (FtChunkOffsetUnaligned (fc_offset c) (fm_chunk_size m))
       else bind_r (chunk_decode_bytes sha b c) (\<lambda>bs.
         let expected_len = unat (min (u64_of (fm_chunk_size m))
               (saturating_sub (fm_total_size m) (fc_offset c))) in
         if length bs \<noteq> expected_len then Err (FtUnexpectedChunkLength expected_len (length bs))
         else Ok ())))"

subsection \<open>Requests, statuses and replies\<close>

datatype file_transfer_request =
    PutBegin file_transfer_manifest
  | PutChunk file_transfer_chunk
  | GetBegin transfer_id string u32
  | GetChunk transfer_id u64
  | FtStatus transfer_id
  | FtFinalize transfer_id
  | FtCancel transfer_id

definition ft_request_validate ::
    "(bytes \<Rightarrow> bytes) \<Rightarrow> base64 \<Rightarrow> file_transfer_request \<Rightarrow> (file_transfer_error, unit) result" where
  "ft_request_validate sha b r =
     (case r of
        PutBegin m \<Rightarrow> bind_r (manifest_validate m) (\<lambda>_.
          if fm_direction m \<noteq> ControllerToDevice then Err FtWrongDirection else Ok ())
      | PutChunk c \<Rightarrow> chunk_validate sha b c
      | GetBegin tid path chunk \<Rightarrow>
          bind_r (ft_validate_path path) (\<lambda>_. ft_validate_chunk_size chunk)
      | GetChunk _ _ \<Rightarrow> Ok ()
      | FtStatus _ \<Rightarrow> Ok ()
      | FtFinalize _ \<Rightarrow> Ok ()
      | FtCancel _ \<Rightarrow> Ok ())"

definition ft_request_into_message ::
    "(bytes \<Rightarrow> bytes) \<Rightarrow> base64 \<Rightarrow> file_transfer_request serde \<Rightarrow> file_transfer_request
     \<Rightarrow> (file_transfer_error, inner_message) result" where
  "ft_request_into_message sha b j r =
     bind_r (ft_request_validate sha b r) (\<lambda>_.
     bind_r (map_err FtJson (to_vec j r)) (\<lambda>payload.
       if length payload > MAX_FILE_TRANSFER_RPC_PAYLOAD_BYTES
       then Err (FtRpcPayloadTooLarge (length payload))
       else map_err FtInner (inner_message_new ''file_transfer'' payload)))"

definition ft_request_from_message ::
    "(bytes \<Rightarrow> bytes) \<Rightarrow> base64 \<Rightarrow> file_transfer_request serde \<Rightarrow> inner_message
     \<Rightarrow> (file_transfer_error, file_transfer_request) result" where
  "ft_request_from_message sha b j m =
     (if im_kind m \<noteq> ''file_transfer'' then Err (FtUnexpectedKind (im_kind m))
      else if length (im_payload m) > MAX_FILE_TRANSFER_RPC_PAYLOAD_BYTES
      then Err (FtRpcPayloadTooLarge (length (im_payload m)))
      else bind_r (map_err FtJson (from_slice j (im_payload m))) (\<lambda>r.
        bind_r (ft_request_validate sha b r) (\<lambda>_. Ok r)))"

datatype file_transfer_phase = Receiving | ReadyToFinalize | Completed

record file_transfer_status =
  fs_descriptor :: file_resume_descriptor
  fs_phase :: file_transfer_phase
  fs_final_device_path :: "string option"

definition ft_status_validate :: "file_transfer_status \<Rightarrow> (file_transfer_error, unit) result" where
  "ft_status_validate s =
     bind_r (map_err FtResume (fd_validate (fs_descriptor s))) (\<lambda>_.
       if fs_phase s = Receiving \<and> fd_is_complete (fs_descriptor s) then Err FtInvalidPhase
       else if fs_phase s \<noteq> Receiving \<and> \<not> fd_is_complete (fs_descriptor s) then Err FtInvalidPhase
       else (case (fs_phase s, fs_final_device_path s) of
           (Completed, Some path) \<Rightarrow> ft_validate_path path
         | (Completed, None) \<Rightarrow> Err FtInvalidPhase
         | (_, Some _) \<Rightarrow> Err FtInvalidPhase
         | (_, None) \<Rightarrow> Ok ()))"

datatype file_transfer_error_code =
    FtcInvalidRequest | FtcDenied | FtcNotFound | FtcConflict | FtcOutOfOrder | FtcCapacity
  | FtcHashMismatch | FtcIo | FtcTimeout

record file_transfer_error_body =
  fte_code :: file_transfer_error_code
  fte_message :: string

datatype file_transfer_reply =
    FtrStatus file_transfer_status
  | FtrManifest file_transfer_manifest
  | FtrChunk file_transfer_chunk
  | FtrCancelled transfer_id
  | FtrError file_transfer_error_body

definition ft_reply_error :: "file_transfer_error_code \<Rightarrow> string \<Rightarrow> file_transfer_reply option" where
  "ft_reply_error c message =
     map_option (\<lambda>m. FtrError \<lparr>fte_code = c, fte_message = m\<rparr>)
       (bounded_message MAX_FILE_TRANSFER_ERROR_MESSAGE_BYTES message)"

definition ft_reply_validate ::
    "(bytes \<Rightarrow> bytes) \<Rightarrow> base64 \<Rightarrow> file_transfer_reply \<Rightarrow> (file_transfer_error, unit) result" where
  "ft_reply_validate sha b r =
     (case r of
        FtrStatus s \<Rightarrow> ft_status_validate s
      | FtrManifest m \<Rightarrow> bind_r (manifest_validate m) (\<lambda>_.
          if fm_direction m \<noteq> DeviceToController then Err FtWrongDirection else Ok ())
      | FtrChunk c \<Rightarrow> chunk_validate sha b c
      | FtrCancelled _ \<Rightarrow> Ok ()
      | FtrError e \<Rightarrow> if length (fte_message e) > MAX_FILE_TRANSFER_ERROR_MESSAGE_BYTES
          then Err FtErrorMessageTooLarge else Ok ())"

definition ft_reply_into_message ::
    "(bytes \<Rightarrow> bytes) \<Rightarrow> base64 \<Rightarrow> file_transfer_reply serde \<Rightarrow> file_transfer_reply
     \<Rightarrow> (file_transfer_error, inner_message) result" where
  "ft_reply_into_message sha b j r =
     bind_r (ft_reply_validate sha b r) (\<lambda>_.
     bind_r (map_err FtJson (to_vec j r)) (\<lambda>payload.
       if length payload > MAX_FILE_TRANSFER_RPC_PAYLOAD_BYTES
       then Err (FtRpcPayloadTooLarge (length payload))
       else map_err FtInner (inner_message_new ''file_transfer_result'' payload)))"

definition ft_reply_from_message ::
    "(bytes \<Rightarrow> bytes) \<Rightarrow> base64 \<Rightarrow> file_transfer_reply serde \<Rightarrow> inner_message
     \<Rightarrow> (file_transfer_error, file_transfer_reply) result" where
  "ft_reply_from_message sha b j m =
     (if im_kind m \<noteq> ''file_transfer_result'' then Err (FtUnexpectedKind (im_kind m))
      else if length (im_payload m) > MAX_FILE_TRANSFER_RPC_PAYLOAD_BYTES
      then Err (FtRpcPayloadTooLarge (length (im_payload m)))
      else bind_r (map_err FtJson (from_slice j (im_payload m))) (\<lambda>r.
        bind_r (ft_reply_validate sha b r) (\<lambda>_. Ok r)))"

subsection \<open>Lemmas\<close>

definition chunk_size_ok :: "u32 \<Rightarrow> bool" where
  "chunk_size_ok c \<longleftrightarrow> 4096 \<le> unat c \<and> unat c \<le> 32768 \<and> is_power_of_two c"

definition manifest_ok :: "file_transfer_manifest \<Rightarrow> bool" where
  "manifest_ok m \<longleftrightarrow> fm_version m = 1 \<and> device_path_ok (fm_device_path m)
     \<and> chunk_size_ok (fm_chunk_size m) \<and> is_sha256_hex (fm_final_sha256 m)
     \<and> (fm_total_size m = 0 \<longrightarrow> fm_final_sha256 m = EMPTY_SHA256_HEX)
     \<and> (fm_direction m = ControllerToDevice \<longleftrightarrow> fm_conflict_policy m \<noteq> None)"

lemma ft_validate_path_Ok [simp]: "ft_validate_path p = Ok u \<longleftrightarrow> device_path_ok p"
  by (auto simp: ft_validate_path_def device_path_ok_def bounds_simps)

lemma ft_validate_sha256_Ok [simp]: "ft_validate_sha256 v = Ok u \<longleftrightarrow> is_sha256_hex v"
  by (auto simp: ft_validate_sha256_def is_sha256_hex_def list_all_iff is_lower_hex_alt)

lemma ft_validate_chunk_size_Ok [simp]: "ft_validate_chunk_size c = Ok u \<longleftrightarrow> chunk_size_ok c"
  by (auto simp: ft_validate_chunk_size_def chunk_size_ok_def word_less_nat_alt bounds_simps)

lemma manifest_validate_Ok: "manifest_validate m = Ok u \<longleftrightarrow> manifest_ok m"
  by (cases "fm_direction m"; cases "fm_conflict_policy m")
     (auto simp: manifest_validate_def manifest_ok_def bind_r_Ok FILE_TRANSFER_MANIFEST_VERSION_def)

definition chunk_data :: "(bytes \<Rightarrow> bytes) \<Rightarrow> base64 \<Rightarrow> file_transfer_chunk \<Rightarrow> bytes \<Rightarrow> bool" where
  "chunk_data sha b c data \<longleftrightarrow> b64_decode b (fc_data_base64 c) = Ok data \<and> data \<noteq> []
     \<and> length data \<le> 32768 \<and> fc_sha256 c = sha256_hex sha data \<and> is_sha256_hex (fc_sha256 c)
     \<and> length (fc_data_base64 c) \<le> 43692"

lemma chunk_validate_Ok: "chunk_validate sha b c = Ok u \<longleftrightarrow> (\<exists>data. chunk_data sha b c data)"
  by (auto simp: chunk_validate_def chunk_data_def bind_r_Ok bounds_simps split: if_splits)

lemma chunk_decode_bytes_Ok: "chunk_decode_bytes sha b c = Ok data \<longleftrightarrow> chunk_data sha b c data"
  by (auto simp: chunk_decode_bytes_def bind_r_Ok chunk_validate_Ok chunk_data_def)

lemma chunk_data_unique: "chunk_data sha b c x \<Longrightarrow> chunk_data sha b c y \<Longrightarrow> x = y"
  by (simp add: chunk_data_def)

lemma unat_u64_of [simp]: "unat (u64_of w) = unat w"
proof -
  have "unat w < 2 ^ 64" using unsigned_less [of w, where ?'a = nat] by simp
  then show ?thesis by (simp add: u64_of_def unsigned_ucast_eq take_bit_nat_eq_self)
qed

lemma aligned_iff: "a mod u64_of c = 0 \<longleftrightarrow> unat a mod unat c = 0"
  by (metis unat_eq_zero unat_mod_distrib unat_u64_of)

lemma unat_min: "unat (min (a :: 'a::len word) b) = min (unat a) (unat b)"
  by (simp add: min_def word_le_nat_alt)

lemma manifest_validate_chunk_Ok:
  "manifest_validate_chunk sha b m c = Ok u \<longleftrightarrow> manifest_ok m \<and> fc_transfer_id c = fm_transfer_id m
     \<and> fc_offset c < fm_total_size m \<and> unat (fc_offset c) mod unat (fm_chunk_size m) = 0
     \<and> (\<exists>data. chunk_data sha b c data
        \<and> length data = min (unat (fm_chunk_size m)) (unat (fm_total_size m) - unat (fc_offset c)))"
proof -
  show ?thesis
    by (auto simp: manifest_validate_chunk_def bind_r_Ok aligned_iff manifest_validate_Ok chunk_validate_Ok
        chunk_decode_bytes_Ok Let_def unat_min unat_saturating_sub not_le
        split: if_splits dest: chunk_data_unique)
qed

lemma sha256_hex_ok: "length (sha data) = 32 \<Longrightarrow> is_sha256_hex (sha256_hex sha data)"
  using hex_string_lower by (simp add: is_sha256_hex_def sha256_hex_def)

lemma empty_hash_ok: "is_sha256_hex EMPTY_SHA256_HEX"
  by (simp add: is_sha256_hex_def EMPTY_SHA256_HEX_def ascii_defs)

lemma initial_resume_descriptor_Ok:
  assumes "manifest_ok m"
  shows "\<exists>d. initial_resume_descriptor m = Ok d \<and> fd_ok d \<and> fd_confirmed_offset d = 0
    \<and> fd_checkpoint_revision d = 1 \<and> fd_final_sha256 d = Some (fm_final_sha256 m)"
  using assms empty_hash_ok
  by (auto simp: initial_resume_descriptor_def fd_new_def bind_r_Ok manifest_validate_Ok
      fd_validate_Ok Let_def fd_ok_def manifest_ok_def FILE_RESUME_DESCRIPTOR_VERSION_def)

definition ft_request_ok :: "(bytes \<Rightarrow> bytes) \<Rightarrow> base64 \<Rightarrow> file_transfer_request \<Rightarrow> bool" where
  "ft_request_ok sha b r =
     (case r of
        PutBegin m \<Rightarrow> manifest_ok m \<and> fm_direction m = ControllerToDevice
      | PutChunk c \<Rightarrow> (\<exists>d. chunk_data sha b c d)
      | GetBegin _ path chunk \<Rightarrow> device_path_ok path \<and> chunk_size_ok chunk
      | _ \<Rightarrow> True)"

lemma ft_request_validate_Ok: "ft_request_validate sha b r = Ok () \<longleftrightarrow> ft_request_ok sha b r"
  by (cases r) (auto simp: ft_request_validate_def ft_request_ok_def bind_r_Ok manifest_validate_Ok
      chunk_validate_Ok)

definition ft_status_ok :: "file_transfer_status \<Rightarrow> bool" where
  "ft_status_ok s \<longleftrightarrow> fd_ok (fs_descriptor s)
     \<and> (fs_phase s = Receiving \<longleftrightarrow> \<not> fd_is_complete (fs_descriptor s))
     \<and> (case fs_final_device_path s of
          None \<Rightarrow> fs_phase s \<noteq> Completed
        | Some path \<Rightarrow> fs_phase s = Completed \<and> device_path_ok path)"

lemma ft_status_validate_Ok: "ft_status_validate s = Ok () \<longleftrightarrow> ft_status_ok s"
  by (cases "fs_phase s"; cases "fs_final_device_path s")
     (auto simp: ft_status_validate_def ft_status_ok_def bind_r_Ok fd_validate_Ok)

definition ft_reply_ok :: "(bytes \<Rightarrow> bytes) \<Rightarrow> base64 \<Rightarrow> file_transfer_reply \<Rightarrow> bool" where
  "ft_reply_ok sha b r =
     (case r of
        FtrStatus s \<Rightarrow> ft_status_ok s
      | FtrManifest m \<Rightarrow> manifest_ok m \<and> fm_direction m = DeviceToController
      | FtrChunk c \<Rightarrow> (\<exists>d. chunk_data sha b c d)
      | FtrCancelled _ \<Rightarrow> True
      | FtrError e \<Rightarrow> length (fte_message e) \<le> 512)"

lemma ft_reply_validate_Ok: "ft_reply_validate sha b r = Ok () \<longleftrightarrow> ft_reply_ok sha b r"
  by (cases r) (auto simp: ft_reply_validate_def ft_reply_ok_def bind_r_Ok manifest_validate_Ok
      chunk_validate_Ok ft_status_validate_Ok bounds_simps)

interpretation ft_request: message_codec "''file_transfer''" "Some 57344" "ft_request_ok sha b" j
    "ft_request_into_message sha b j" "ft_request_from_message sha b j" for sha b j
  by unfold_locales
    (auto simp: ft_request_into_message_def ft_request_from_message_def result_simps bind_r_Ok
      ft_request_validate_Ok bounds_simps not_less)

interpretation ft_reply: message_codec "''file_transfer_result''" "Some 57344" "ft_reply_ok sha b" j
    "ft_reply_into_message sha b j" "ft_reply_from_message sha b j" for sha b j
  by unfold_locales
    (auto simp: ft_reply_into_message_def ft_reply_from_message_def result_simps bind_r_Ok
      ft_reply_validate_Ok bounds_simps not_less)

subsection \<open>Properties\<close>

text \<open>File-transfer messages round-trip and cannot smuggle: an encoded request or reply decodes
  to itself; whatever decodes is valid, so an upload request never carries a download manifest,
  a manifest reply never a device conflict policy, and every chunk's hash matches its data.\<close>

theorem file_transfer_messages:
  assumes "ft_request_into_message sha b jq q = Ok mq" and "serde_faithful jq q"
    and "ft_reply_into_message sha b jr r = Ok mr" and "serde_faithful jr r"
    and "ft_request_from_message sha b jq m1 = Ok q'" and "ft_reply_from_message sha b jr m2 = Ok r'"
  shows "ft_request_from_message sha b jq mq = Ok q \<and> ft_reply_from_message sha b jr mr = Ok r
    \<and> length (im_payload mq) \<le> 57344 \<and> length (im_payload m1) \<le> 57344
    \<and> (\<forall>m. q' = PutBegin m \<longrightarrow> fm_direction m = ControllerToDevice \<and> fm_conflict_policy m \<noteq> None)
    \<and> (\<forall>m. r' = FtrManifest m \<longrightarrow> fm_direction m = DeviceToController \<and> fm_conflict_policy m = None)
    \<and> (\<forall>c. q' = PutChunk c \<or> r' = FtrChunk c \<longrightarrow>
         (\<exists>data. b64_decode b (fc_data_base64 c) = Ok data \<and> fc_sha256 c = sha256_hex sha data))"
proof -
  have q': "ft_request_ok sha b q'" and r': "ft_reply_ok sha b r'"
    using ft_request.decoded_valid [OF assms(5)] ft_reply.decoded_valid [OF assms(6)] .
  have "fm_conflict_policy m = None" if "manifest_ok m" "fm_direction m = DeviceToController" for m
    using that by (auto simp: manifest_ok_def)
  moreover have "fm_conflict_policy m \<noteq> None"
    if "manifest_ok m" "fm_direction m = ControllerToDevice" for m
    using that by (auto simp: manifest_ok_def)
  ultimately show ?thesis
    using ft_request.roundtrip [OF assms(1,2)] ft_reply.roundtrip [OF assms(3,4)]
      ft_request.encoded [OF assms(1)] ft_request.from_law [THEN iffD1, OF assms(5)] q' r'
    by (cases q'; cases r') (auto simp: ft_request_ok_def ft_reply_ok_def chunk_data_def)
qed

text \<open>Chunk integrity: with a conforming hash and Base64, any 1 to 32768 bytes make a chunk
  that decodes to the same bytes; and the bytes of any chunk that decodes are those its hash
  names, within the same bounds.\<close>

theorem chunk_integrity:
  assumes "length (sha data) = 32" and "base64_ok b" and "data \<noteq> []" and "length data \<le> 32768"
    and "chunk_decode_bytes sha b c' = Ok data'"
  shows "(\<exists>c. chunk_from_bytes sha b tid off data = Ok c \<and> chunk_decode_bytes sha b c = Ok data
      \<and> fc_offset c = off \<and> fc_transfer_id c = tid)
    \<and> sha256_hex sha data' = fc_sha256 c' \<and> 1 \<le> length data' \<and> length data' \<le> 32768"
proof -
  let ?c = "\<lparr>fc_transfer_id = tid, fc_offset = off, fc_sha256 = sha256_hex sha data,
             fc_data_base64 = b64_encode b data\<rparr>"
  have "(length data + 2) div 3 \<le> 10923" using assms(4) by simp
  then have "chunk_data sha b ?c data"
    using assms(1-4) sha256_hex_ok by (simp add: chunk_data_def base64_ok_def)
  then have "chunk_from_bytes sha b tid off data = Ok ?c \<and> chunk_decode_bytes sha b ?c = Ok data"
    using assms(3,4) by (auto simp: chunk_from_bytes_def chunk_decode_bytes_Ok bind_r_Ok
        chunk_validate_Ok Let_def bounds_simps)
  moreover have "chunk_data sha b c' data'" using assms(5) by (simp add: chunk_decode_bytes_Ok)
  ultimately show ?thesis by (auto simp: chunk_data_def Suc_le_eq)
qed

lemma tiling: "sum_list (map (\<lambda>k. min c (T - k * c)) [0..<n]) = min (n * c) (T :: nat)"
proof (induction n)
  case 0
  then show ?case by simp
next
  case (Suc n)
  have "min (n * c) T + min c (T - n * c) = min (c + n * c) T" by arith
  then show ?case using Suc by simp
qed

lemma below_ceil:
  assumes "0 < (c :: nat)"
  shows "k * c < T \<longleftrightarrow> k < T div c + (if T mod c = 0 then 0 else 1)"
proof -
  have T: "T = T div c * c + T mod c" by simp
  have r: "T mod c < c" using assms by simp
  consider "k < T div c" | "k = T div c" | "T div c < k" by linarith
  then show ?thesis
  proof cases
    case 1
    then have "Suc k * c \<le> T div c * c" by (intro mult_le_mono1) simp
    moreover have "T div c * c \<le> T" by simp
    ultimately have "k * c < T" using assms by (simp del: div_times_less_eq_dividend)
    then show ?thesis using 1 by simp
  next
    case 2
    have "k * c < T \<longleftrightarrow> T mod c \<noteq> 0" unfolding 2 using T by linarith
    then show ?thesis using 2 by simp
  next
    case 3
    then have "Suc (T div c) * c \<le> k * c" by (intro mult_le_mono1) simp
    then have "T \<le> k * c" using T r by (simp only: mult_Suc)
    then show ?thesis using 3 by auto
  qed
qed

text \<open>C27: Chunks tile the file: for a valid manifest, the chunk count times the chunk size covers
  the file, the offsets of that many chunks all lie inside it, the lengths a chunk is held to at
  those offsets add up to the file's size, and an accepted chunk sits at one of those offsets
  with exactly that length.\<close>

theorem chunks_tile_file:
  assumes "chunk_count m = Ok n" and "manifest_validate_chunk sha b m c = Ok ()"
    and "c_size = unat (fm_chunk_size m)" and "T = unat (fm_total_size m)"
  shows "sum_list (map (\<lambda>k. min c_size (T - k * c_size)) [0..<unat n]) = T
    \<and> (\<forall>k < unat n. k * c_size < T)
    \<and> (\<exists>k < unat n. unat (fc_offset c) = k * c_size \<and>
         (\<exists>data. chunk_data sha b c data \<and> length data = min c_size (T - k * c_size)))"
proof -
  have ok: "manifest_ok m" using assms(1) by (auto simp: chunk_count_def bind_r_Ok manifest_validate_Ok)
  have c: "0 < c_size" using ok assms(3) by (simp add: manifest_ok_def chunk_size_ok_def)
  have n: "unat n = T div c_size + (if T mod c_size = 0 then 0 else 1)"
  proof -
    have n0: "n = div_ceil (fm_total_size m) (u64_of (fm_chunk_size m))"
      using assms(1) by (auto simp: chunk_count_def bind_r_Ok)
    have m0: "fm_total_size m mod u64_of (fm_chunk_size m) = 0 \<longleftrightarrow> T mod c_size = 0"
      unfolding assms(3,4) by (rule aligned_iff)
    have d: "unat (fm_total_size m div u64_of (fm_chunk_size m)) = T div c_size"
      unfolding assms(3,4) unat_div_distrib unat_u64_of ..
    have "4096 \<le> c_size" using ok assms(3) by (simp add: manifest_ok_def chunk_size_ok_def)
    then have "T div c_size \<le> T div 4096" by (intro div_le_mono2) simp_all
    moreover have "T < 2 ^ 64"
      using unsigned_less [of "fm_total_size m", where ?'a = nat] unfolding assms(4) by simp
    ultimately have "T div c_size + 1 < 2 ^ 64" by simp
    then have "unat (fm_total_size m div u64_of (fm_chunk_size m) + 1) = T div c_size + 1"
      using d by (simp add: unat_word_ariths)
    then show ?thesis using n0 m0 d by (simp add: div_ceil_def)
  qed
  have inside: "k * c_size < T \<longleftrightarrow> k < unat n" for k
    using below_ceil [OF c] n by simp
  have "T \<le> unat n * c_size" using inside [of "unat n"] by simp
  then have "sum_list (map (\<lambda>k. min c_size (T - k * c_size)) [0..<unat n]) = T"
    by (simp add: tiling)
  moreover have "\<exists>k < unat n. unat (fc_offset c) = k * c_size \<and>
      (\<exists>data. chunk_data sha b c data \<and> length data = min c_size (T - k * c_size))"
  proof -
    have v: "fc_offset c < fm_total_size m" "unat (fc_offset c) mod c_size = 0"
      "\<exists>data. chunk_data sha b c data \<and> length data = min c_size (T - unat (fc_offset c))"
      using assms(2-4) by (simp_all add: manifest_validate_chunk_Ok)
    then obtain k where "unat (fc_offset c) = k * c_size" by (metis mod_0_imp_dvd dvd_div_mult_self)
    then show ?thesis using v inside [of k] assms(4) by (auto simp: word_less_nat_alt)
  qed
  ultimately show ?thesis using inside by simp
qed

subsection \<open>Witnesses\<close>

text \<open>A codec that keeps the bytes and pads them to the length of Base64, the number of padding
  characters beyond one per group in the last character.\<close>

definition pad_b64_encode :: "bytes \<Rightarrow> string" where
  "pad_b64_encode x =
     (let g = (length x + 2) div 3 in
      if x = [] then []
      else map char_of_byte x @ replicate (4 * g - length x - 1) CHR 0x00 @ [char_of (3 * g - length x)])"

definition toy_b64 :: base64 where
  "toy_b64 =
     \<lparr>b64_encode = pad_b64_encode,
      b64_decode = \<lambda>s. if s = [] then Ok []
        else Ok (as_bytes (take (3 * (length s div 4) - code (last s)) s))\<rparr>"

lemma toy_b64_ok: "base64_ok toy_b64"
  unfolding base64_ok_def
proof (intro allI conjI)
  fix x :: bytes
  let ?g = "(length x + 2) div 3"
  have g: "3 * ?g - length x < 3" "length x \<le> 3 * ?g" by linarith+
  have l: "length (pad_b64_encode x) = 4 * ?g"
  proof (cases "x = []")
    case False
    then have "1 \<le> ?g" by (cases x) auto
    then have "length x + 1 \<le> 4 * ?g" by linarith
    then show ?thesis using False by (simp add: pad_b64_encode_def Let_def)
  qed (simp add: pad_b64_encode_def)
  then show "length (b64_encode toy_b64 x) = 4 * ?g" by (simp add: toy_b64_def)
  show "b64_decode toy_b64 (b64_encode toy_b64 x) = Ok x"
  proof (cases "x = []")
    case False
    have "code (char_of (3 * ?g - length x)) = 3 * ?g - length x"
      using g by (simp add: code_char_of)
    then have "code (last (pad_b64_encode x)) = 3 * ?g - length x"
      using False by (simp add: pad_b64_encode_def Let_def)
    moreover have "3 * (length (pad_b64_encode x) div 4) = 3 * ?g" using l by simp
    ultimately have "3 * (length (pad_b64_encode x) div 4) - code (last (pad_b64_encode x)) = length x"
      using g by simp
    moreover have "take (length x) (pad_b64_encode x) = map char_of_byte x" "pad_b64_encode x \<noteq> []"
      using False by (simp_all add: pad_b64_encode_def Let_def)
    ultimately show ?thesis by (simp add: toy_b64_def)
  qed (simp add: toy_b64_def pad_b64_encode_def)
qed

abbreviation (input) zero_sha :: "bytes \<Rightarrow> bytes" where "zero_sha \<equiv> \<lambda>_. replicate 32 0"

lemma chunk_integrity_witness:
  "\<exists>c. chunk_from_bytes zero_sha toy_b64 7 4096 [1, 2] = Ok c
    \<and> chunk_decode_bytes zero_sha toy_b64 c = Ok [1, 2]"
proof -
  let ?c = "\<lparr>fc_transfer_id = 7, fc_offset = 0, fc_sha256 = sha256_hex zero_sha [1],
             fc_data_base64 = pad_b64_encode [1]\<rparr>"
  have "chunk_data zero_sha toy_b64 ?c [1]"
    using toy_b64_ok sha256_hex_ok [of zero_sha "[1]"]
    by (simp add: chunk_data_def base64_ok_def toy_b64_def)
  then have "chunk_decode_bytes zero_sha toy_b64 ?c = Ok [1]" by (simp add: chunk_decode_bytes_Ok)
  from chunk_integrity [OF _ toy_b64_ok _ _ this, of "[1, 2]" 7 4096] show ?thesis by auto
qed

definition toy_manifest :: file_transfer_manifest where
  "toy_manifest =
     \<lparr>fm_version = 1, fm_transfer_id = 7, fm_controller_id = 2, fm_site_id = 3, fm_device_id = 4,
      fm_direction = ControllerToDevice, fm_device_path = ''/tmp/x'', fm_total_size = 4097,
      fm_chunk_size = 4096, fm_final_sha256 = EMPTY_SHA256_HEX, fm_conflict_policy = Some FailIfExists\<rparr>"

lemma toy_manifest_ok: "manifest_ok toy_manifest"
proof -
  have "is_power_of_two 4096" by (simp add: is_power_of_two_def list_ex_iff) (rule bexI [of _ 12]; simp)
  then show ?thesis using empty_hash_ok
    by (simp add: toy_manifest_def manifest_ok_def device_path_ok_def trim_def ascii_defs chunk_size_ok_def)
qed

definition toy_chunk :: file_transfer_chunk where
  "toy_chunk = \<lparr>fc_transfer_id = 7, fc_offset = 4096, fc_sha256 = sha256_hex zero_sha [1],
     fc_data_base64 = pad_b64_encode [1]\<rparr>"

lemma toy_chunk_ok: "chunk_data zero_sha toy_b64 toy_chunk [1]"
  using toy_b64_ok sha256_hex_ok [of zero_sha "[1]"]
  by (simp add: chunk_data_def base64_ok_def toy_b64_def toy_chunk_def)

lemma chunks_tile_file_witness:
  "manifest_validate_chunk zero_sha toy_b64 toy_manifest toy_chunk = Ok () \<and>
   (\<exists>k < unat (div_ceil (4097 :: u64) 4096). unat (fc_offset toy_chunk) = k * 4096)"
proof -
  have n: "chunk_count toy_manifest = Ok (div_ceil 4097 4096)"
    using toy_manifest_ok by (simp add: chunk_count_def bind_r_Ok manifest_validate_Ok)
      (simp add: toy_manifest_def u64_of_def)
  have v: "manifest_validate_chunk zero_sha toy_b64 toy_manifest toy_chunk = Ok ()"
    using toy_manifest_ok toy_chunk_ok
    by (simp add: manifest_validate_chunk_Ok)
       (rule conjI [rotated], rule conjI [rotated], rule conjI [rotated], rule exI [of _ "[1]"],
        simp_all add: toy_manifest_def toy_chunk_def)
  show ?thesis
    using chunks_tile_file [OF n v refl refl] v by (auto simp: toy_manifest_def)
qed

lemma file_transfer_messages_witness:
  "ft_request_from_message zero_sha toy_b64 (const_serde [1] (PutBegin toy_manifest))
     \<lparr>im_kind = ''file_transfer'', im_payload = [1]\<rparr> = Ok (PutBegin toy_manifest)"
proof -
  let ?jq = "const_serde [1] (PutBegin toy_manifest)" and ?jr = "const_serde [2] (FtrCancelled 7)"
  let ?mq = "\<lparr>im_kind = ''file_transfer'', im_payload = [1]\<rparr>"
  let ?mr = "\<lparr>im_kind = ''file_transfer_result'', im_payload = [2]\<rparr>"
  have ok: "ft_request_ok zero_sha toy_b64 (PutBegin toy_manifest)"
    using toy_manifest_ok by (simp add: ft_request_ok_def) (simp add: toy_manifest_def)
  have eq: "ft_request_into_message zero_sha toy_b64 ?jq (PutBegin toy_manifest) = Ok ?mq"
    using ok by (simp add: ft_request.into_law inner_message_new_Ok message_ok_def)
  have dq: "ft_request_from_message zero_sha toy_b64 ?jq ?mq = Ok (PutBegin toy_manifest)"
    using ok by (simp add: ft_request.from_law)
  have er: "ft_reply_into_message zero_sha toy_b64 ?jr (FtrCancelled 7) = Ok ?mr"
    by (simp add: ft_reply.into_law inner_message_new_Ok message_ok_def ft_reply_ok_def)
  have dr: "ft_reply_from_message zero_sha toy_b64 ?jr ?mr = Ok (FtrCancelled 7)"
    by (simp add: ft_reply.from_law ft_reply_ok_def)
  show ?thesis using file_transfer_messages [OF eq _ er _ dq dr] by simp
qed

end
