(* ===== verification/Shell_Task.thy ===== *)
theory Shell_Task
  imports File_Transfer Core_Model
begin

section \<open>The shell-task protocol (clew-transport, shell_task.rs)\<close>

text \<open>
  Requests to start, inspect, attach to and cancel a shell task, the status and output chunks a
  host answers with, and their validation and messages. An environment is an ordered map.
  Base64 and the JSON library are parameters.
\<close>

type_synonym i32 = "32 word"

definition SHELL_RECONNECT_GRACE_MS :: u64 where [bounds_simps]: "SHELL_RECONNECT_GRACE_MS = 30000"
definition HARD_MAX_SHELL_COMMAND_BYTES :: nat where
  [bounds_simps]: "HARD_MAX_SHELL_COMMAND_BYTES = 8 * 1024"
definition HARD_MAX_SHELL_ENV_ENTRIES :: nat where [bounds_simps]: "HARD_MAX_SHELL_ENV_ENTRIES = 32"
definition HARD_MAX_SHELL_ENV_KEY_BYTES :: nat where
  [bounds_simps]: "HARD_MAX_SHELL_ENV_KEY_BYTES = 128"
definition HARD_MAX_SHELL_ENV_VALUE_BYTES :: nat where
  [bounds_simps]: "HARD_MAX_SHELL_ENV_VALUE_BYTES = 2 * 1024"
definition HARD_MAX_SHELL_ENV_TOTAL_BYTES :: nat where
  [bounds_simps]: "HARD_MAX_SHELL_ENV_TOTAL_BYTES = 16 * 1024"
definition HARD_MAX_SHELL_TIMEOUT_MS :: u32 where
  [bounds_simps]: "HARD_MAX_SHELL_TIMEOUT_MS = 30 * 60 * 1000"
definition HARD_MAX_SHELL_TASKS_PER_SESSION :: nat where
  [bounds_simps]: "HARD_MAX_SHELL_TASKS_PER_SESSION = 64"
definition HARD_MAX_SHELL_RETAINED_BYTES_PER_STREAM :: nat where
  [bounds_simps]: "HARD_MAX_SHELL_RETAINED_BYTES_PER_STREAM = 32 * 1024"
definition HARD_MAX_SHELL_ATTACH_BYTES_PER_STREAM :: u32 where
  [bounds_simps]: "HARD_MAX_SHELL_ATTACH_BYTES_PER_STREAM = 12 * 1024"
definition MAX_SHELL_ERROR_MESSAGE_BYTES :: nat where
  [bounds_simps]: "MAX_SHELL_ERROR_MESSAGE_BYTES = 512"

datatype shell_task_error =
    StInvalidCommand
  | StInvalidCwd
  | StTooManyEnvEntries usize
  | StInvalidEnvEntry
  | StEnvTooLarge usize
  | StInvalidTimeout u32
  | StInvalidAttachLimit u32
  | StOutputChunkTooLarge usize
  | StInvalidOffsets
  | StErrorMessageTooLarge
  | StUnexpectedKind string
  | StJson json_error
  | StBase64 string
  | StInner inner_error

datatype shell_task_request =
    ShStart (sh_command: string) (sh_cwd: string) (sh_env: "(string, string) btree") (sh_timeout: u32)
  | ShStatus task_id
  | ShAttach task_id u64 u64 u32
  | ShCancel task_id

definition sh_validate_command :: "string \<Rightarrow> (shell_task_error, unit) result" where
  "sh_validate_command command =
     (let c = trim command in
      if c = [] \<or> length c > HARD_MAX_SHELL_COMMAND_BYTES \<or> CHR 0x00 \<in> set c
      then Err StInvalidCommand else Ok ())"

definition sh_validate_cwd :: "string \<Rightarrow> (shell_task_error, unit) result" where
  "sh_validate_cwd cwd =
     (let c = trim cwd in
      if c = [] \<or> length c > HARD_MAX_READ_ROOT_BYTES \<or> CHR 0x00 \<in> set c
      then Err StInvalidCwd else Ok ())"

definition sh_env_entry :: "string \<times> string \<Rightarrow> usize \<Rightarrow> (shell_task_error, usize) result" where
  "sh_env_entry = (\<lambda>(key, val) sofar.
     if key = [] \<or> length key > HARD_MAX_SHELL_ENV_KEY_BYTES
        \<or> \<not> list_all (\<lambda>c. c = CHR ''_'' \<or> is_ascii_alphanumeric c) key
        \<or> is_ascii_digit (hd key)
        \<or> length val > HARD_MAX_SHELL_ENV_VALUE_BYTES \<or> CHR 0x00 \<in> set val
     then Err StInvalidEnvEntry
     else bind_r (ok_or (Option.bind (usize_checked_add sofar (length key))
                           (\<lambda>t. usize_checked_add t (length val))) (StEnvTooLarge usize_max)) (\<lambda>t.
       if t > HARD_MAX_SHELL_ENV_TOTAL_BYTES then Err (StEnvTooLarge t) else Ok t))"

definition sh_validate_env :: "(string, string) btree \<Rightarrow> (shell_task_error, unit) result" where
  "sh_validate_env env =
     (if length env > HARD_MAX_SHELL_ENV_ENTRIES then Err (StTooManyEnvEntries (length env))
      else bind_r (fold_r sh_env_entry env 0) (\<lambda>_. Ok ()))"

definition sh_request_validate :: "shell_task_request \<Rightarrow> (shell_task_error, unit) result" where
  "sh_request_validate r =
     (case r of
        ShStart command cwd env timeout \<Rightarrow>
          bind_r (sh_validate_command command) (\<lambda>_.
          bind_r (sh_validate_cwd cwd) (\<lambda>_.
          bind_r (sh_validate_env env) (\<lambda>_.
            if timeout = 0 \<or> timeout > HARD_MAX_SHELL_TIMEOUT_MS
            then Err (StInvalidTimeout timeout) else Ok ())))
      | ShAttach _ _ _ limit \<Rightarrow>
          if limit = 0 \<or> limit > HARD_MAX_SHELL_ATTACH_BYTES_PER_STREAM
          then Err (StInvalidAttachLimit limit) else Ok ()
      | ShStatus _ \<Rightarrow> Ok ()
      | ShCancel _ \<Rightarrow> Ok ())"

definition sh_request_start ::
    "string \<Rightarrow> string \<Rightarrow> (string, string) btree \<Rightarrow> u32 \<Rightarrow> (shell_task_error, shell_task_request) result" where
  "sh_request_start command cwd env timeout =
     (let r = ShStart command cwd env timeout in bind_r (sh_request_validate r) (\<lambda>_. Ok r))"

definition sh_request_into_message ::
    "shell_task_request serde \<Rightarrow> shell_task_request \<Rightarrow> (shell_task_error, inner_message) result" where
  "sh_request_into_message j r =
     bind_r (sh_request_validate r) (\<lambda>_.
     bind_r (map_err StJson (to_vec j r)) (\<lambda>payload.
       map_err StInner (inner_message_new ''shell_task'' payload)))"

definition sh_request_from_message ::
    "shell_task_request serde \<Rightarrow> inner_message \<Rightarrow> (shell_task_error, shell_task_request) result" where
  "sh_request_from_message j m =
     (if im_kind m \<noteq> ''shell_task'' then Err (StUnexpectedKind (im_kind m))
      else bind_r (map_err StJson (from_slice j (im_payload m))) (\<lambda>r.
        bind_r (sh_request_validate r) (\<lambda>_. Ok r)))"

subsection \<open>Statuses, output and replies\<close>

datatype shell_task_phase = Running | Exited | TimedOut | Cancelled | Failed

definition terminal :: "shell_task_phase \<Rightarrow> bool" where
  "terminal p \<longleftrightarrow> p \<noteq> Running"

record shell_task_status =
  sts_task_id :: task_id
  sts_phase :: shell_task_phase
  sts_exit_code :: "i32 option"
  stdout_base_offset :: u64
  stdout_next_offset :: u64
  stderr_base_offset :: u64
  stderr_next_offset :: u64

record shell_output_chunk =
  oc_requested_offset :: u64
  oc_start_offset :: u64
  oc_next_offset :: u64
  oc_retained_base :: u64
  oc_retained_next :: u64
  oc_lost_prefix :: bool
  oc_data_base64 :: string

definition validate_output_chunk ::
    "base64 \<Rightarrow> shell_output_chunk \<Rightarrow> (shell_task_error, unit) result" where
  "validate_output_chunk b c =
     (if oc_retained_base c > oc_retained_next c \<or> oc_start_offset c < oc_retained_base c
         \<or> oc_next_offset c < oc_start_offset c \<or> oc_next_offset c > oc_retained_next c
      then Err StInvalidOffsets
      else bind_r (map_err StBase64 (b64_decode b (oc_data_base64 c))) (\<lambda>data.
        if length data > unat HARD_MAX_SHELL_ATTACH_BYTES_PER_STREAM
        then Err (StOutputChunkTooLarge (length data))
        else if saturating_sub (oc_next_offset c) (oc_start_offset c) \<noteq> word_of_nat (length data)
        then Err StInvalidOffsets
        else if oc_lost_prefix c \<noteq> (oc_requested_offset c < oc_retained_base c)
        then Err StInvalidOffsets
        else Ok ()))"

definition output_chunk_from_bytes ::
    "base64 \<Rightarrow> u64 \<Rightarrow> u64 \<Rightarrow> u64 \<Rightarrow> u64 \<Rightarrow> u64 \<Rightarrow> bool \<Rightarrow> bytes
     \<Rightarrow> (shell_task_error, shell_output_chunk) result" where
  "output_chunk_from_bytes b requested start next base retained_next lost data =
     (if length data > unat HARD_MAX_SHELL_ATTACH_BYTES_PER_STREAM
      then Err (StOutputChunkTooLarge (length data))
      else (let c = \<lparr>oc_requested_offset = requested, oc_start_offset = start, oc_next_offset = next,
                     oc_retained_base = base, oc_retained_next = retained_next,
                     oc_lost_prefix = lost, oc_data_base64 = b64_encode b data\<rparr> in
        bind_r (validate_output_chunk b c) (\<lambda>_. Ok c)))"

definition output_chunk_decode ::
    "base64 \<Rightarrow> shell_output_chunk \<Rightarrow> (shell_task_error, bytes) result" where
  "output_chunk_decode b c =
     bind_r (validate_output_chunk b c) (\<lambda>_. map_err StBase64 (b64_decode b (oc_data_base64 c)))"

record shell_task_output =
  sto_status :: shell_task_status
  sto_stdout :: shell_output_chunk
  sto_stderr :: shell_output_chunk

datatype shell_task_error_code =
    ShcInvalidRequest | ShcDenied | ShcNotFound | ShcCapacity | ShcSpawnFailed | ShcIo | ShcTimeout

record shell_task_error_body =
  she_code :: shell_task_error_code
  she_message :: string

datatype shell_task_reply =
    ShrStarted task_id
  | ShrStatus shell_task_status
  | ShrOutput shell_task_output
  | ShrCancelAccepted task_id
  | ShrError shell_task_error_body

definition sh_reply_error :: "shell_task_error_code \<Rightarrow> string \<Rightarrow> shell_task_reply option" where
  "sh_reply_error c message =
     map_option (\<lambda>m. ShrError \<lparr>she_code = c, she_message = m\<rparr>)
       (bounded_message MAX_SHELL_ERROR_MESSAGE_BYTES message)"

definition sh_validate_status :: "shell_task_status \<Rightarrow> (shell_task_error, unit) result" where
  "sh_validate_status s =
     (if stdout_base_offset s > stdout_next_offset s \<or> stderr_base_offset s > stderr_next_offset s
      then Err StInvalidOffsets else Ok ())"

definition sh_validate_reply :: "base64 \<Rightarrow> shell_task_reply \<Rightarrow> (shell_task_error, unit) result" where
  "sh_validate_reply b r =
     (case r of
        ShrStarted _ \<Rightarrow> Ok ()
      | ShrCancelAccepted _ \<Rightarrow> Ok ()
      | ShrStatus s \<Rightarrow> sh_validate_status s
      | ShrOutput p \<Rightarrow>
          bind_r (sh_validate_status (sto_status p)) (\<lambda>_.
          bind_r (validate_output_chunk b (sto_stdout p)) (\<lambda>_.
            validate_output_chunk b (sto_stderr p)))
      | ShrError e \<Rightarrow>
          if length (she_message e) > MAX_SHELL_ERROR_MESSAGE_BYTES
          then Err StErrorMessageTooLarge else Ok ())"

definition sh_reply_into_message ::
    "base64 \<Rightarrow> shell_task_reply serde \<Rightarrow> shell_task_reply \<Rightarrow> (shell_task_error, inner_message) result" where
  "sh_reply_into_message b j r =
     bind_r (sh_validate_reply b r) (\<lambda>_.
     bind_r (map_err StJson (to_vec j r)) (\<lambda>payload.
       map_err StInner (inner_message_new ''shell_task_result'' payload)))"

definition sh_reply_from_message ::
    "base64 \<Rightarrow> shell_task_reply serde \<Rightarrow> inner_message \<Rightarrow> (shell_task_error, shell_task_reply) result" where
  "sh_reply_from_message b j m =
     (if im_kind m \<noteq> ''shell_task_result'' then Err (StUnexpectedKind (im_kind m))
      else bind_r (map_err StJson (from_slice j (im_payload m))) (\<lambda>r.
        bind_r (sh_validate_reply b r) (\<lambda>_. Ok r)))"

subsection \<open>What the validators promise\<close>

definition shell_path_ok :: "nat \<Rightarrow> string \<Rightarrow> bool" where
  "shell_path_ok bound s \<longleftrightarrow> trim s \<noteq> [] \<and> length (trim s) \<le> bound \<and> CHR 0x00 \<notin> set (trim s)"

definition env_entry_ok :: "string \<times> string \<Rightarrow> bool" where
  "env_entry_ok = (\<lambda>(k, v). k \<noteq> [] \<and> length k \<le> 128
     \<and> list_all (\<lambda>c. c = CHR ''_'' \<or> is_ascii_alphanumeric c) k \<and> \<not> is_ascii_digit (hd k)
     \<and> length v \<le> 2048 \<and> CHR 0x00 \<notin> set v)"

definition env_bytes :: "(string, string) btree \<Rightarrow> nat" where
  "env_bytes env = sum_list (map (\<lambda>(k, v). length k + length v) env)"

definition env_ok :: "(string, string) btree \<Rightarrow> bool" where
  "env_ok env \<longleftrightarrow> length env \<le> 32 \<and> list_all env_entry_ok env \<and> env_bytes env \<le> 16384"

definition shell_request_ok :: "shell_task_request \<Rightarrow> bool" where
  "shell_request_ok r =
     (case r of
        ShStart command cwd env timeout \<Rightarrow> shell_path_ok 8192 command \<and> shell_path_ok 2048 cwd
          \<and> env_ok env \<and> 0 < unat timeout \<and> unat timeout \<le> 1800000
      | ShAttach _ _ _ limit \<Rightarrow> 0 < unat limit \<and> unat limit \<le> 12288
      | _ \<Rightarrow> True)"

lemma sh_validate_command_Ok: "sh_validate_command c = Ok () \<longleftrightarrow> shell_path_ok 8192 c"
  by (auto simp: sh_validate_command_def shell_path_ok_def Let_def bounds_simps)

lemma sh_validate_cwd_Ok: "sh_validate_cwd c = Ok () \<longleftrightarrow> shell_path_ok 2048 c"
  by (auto simp: sh_validate_cwd_def shell_path_ok_def Let_def bounds_simps)

lemma sh_env_entry_Ok:
  "sh_env_entry (k, v) sofar = Ok t \<longleftrightarrow>
     env_entry_ok (k, v) \<and> t = sofar + length k + length v \<and> t \<le> 16384"
  by (auto simp: sh_env_entry_def env_entry_ok_def result_simps bounds_simps bind_eq_Some_conv)

lemma sh_env_fold_Ok:
  "(\<exists>t. fold_r sh_env_entry env sofar = Ok t) \<longleftrightarrow>
     list_all env_entry_ok env \<and> (env \<noteq> [] \<longrightarrow> sofar + env_bytes env \<le> 16384)"
proof (induction env arbitrary: sofar)
  case Nil
  then show ?case by simp
next
  case (Cons e env)
  obtain k v where e: "e = (k, v)" by (cases e)
  show ?case
    by (auto simp: e bind_r_Ok sh_env_entry_Ok Cons.IH env_bytes_def)
qed

lemma sh_validate_env_Ok: "sh_validate_env env = Ok () \<longleftrightarrow> env_ok env"
  using sh_env_fold_Ok [of env 0]
  by (auto simp: sh_validate_env_def env_ok_def result_simps bounds_simps env_bytes_def)

lemma sh_request_validate_Ok: "sh_request_validate r = Ok () \<longleftrightarrow> shell_request_ok r"
  by (cases r)
     (auto simp: sh_request_validate_def shell_request_ok_def result_simps sh_validate_command_Ok
       sh_validate_cwd_Ok sh_validate_env_Ok bounds_simps word_less_nat_alt unat_gt_0)

definition chunk_bytes :: "base64 \<Rightarrow> shell_output_chunk \<Rightarrow> bytes \<Rightarrow> bool" where
  "chunk_bytes b c data \<longleftrightarrow> b64_decode b (oc_data_base64 c) = Ok data
     \<and> oc_retained_base c \<le> oc_start_offset c
     \<and> unat (oc_next_offset c) = unat (oc_start_offset c) + length data
     \<and> oc_next_offset c \<le> oc_retained_next c \<and> length data \<le> 12288
     \<and> (oc_lost_prefix c \<longleftrightarrow> oc_requested_offset c < oc_retained_base c)"

lemma validate_output_chunk_Ok:
  "validate_output_chunk b c = Ok () \<longleftrightarrow> (\<exists>data. chunk_bytes b c data)"
proof -
  have len: "saturating_sub n s = word_of_nat (length data) \<and> s \<le> n
      \<longleftrightarrow> unat n = unat s + length data" if "length data \<le> 12288" for n s :: u64 and data :: bytes
  proof -
    have "unat (word_of_nat (length data) :: u64) = length data"
      using that by (simp add: unat_of_nat)
    then have "saturating_sub n s = word_of_nat (length data) \<longleftrightarrow> unat n - unat s = length data"
      by (metis unat_saturating_sub word_unat_eq_iff)
    then show ?thesis by (auto simp: word_le_nat_alt)
  qed
  show ?thesis
    unfolding validate_output_chunk_def chunk_bytes_def
    using len by (auto simp: result_simps bounds_simps not_less) (auto simp: word_le_nat_alt word_less_nat_alt)
qed

lemma output_chunk_decode_Ok: "output_chunk_decode b c = Ok data \<longleftrightarrow> chunk_bytes b c data"
  by (auto simp: output_chunk_decode_def bind_r_Ok validate_output_chunk_Ok chunk_bytes_def)

definition shell_reply_ok :: "base64 \<Rightarrow> shell_task_reply \<Rightarrow> bool" where
  "shell_reply_ok b r =
     (let ok = (\<lambda>s. stdout_base_offset s \<le> stdout_next_offset s
                  \<and> stderr_base_offset s \<le> stderr_next_offset s) in
      case r of
        ShrStatus s \<Rightarrow> ok s
      | ShrOutput p \<Rightarrow> ok (sto_status p) \<and> (\<exists>d. chunk_bytes b (sto_stdout p) d)
          \<and> (\<exists>d. chunk_bytes b (sto_stderr p) d)
      | ShrError e \<Rightarrow> length (she_message e) \<le> 512
      | _ \<Rightarrow> True)"

lemma sh_validate_reply_Ok: "sh_validate_reply b r = Ok () \<longleftrightarrow> shell_reply_ok b r"
  by (cases r) (auto simp: sh_validate_reply_def shell_reply_ok_def sh_validate_status_def
      result_simps validate_output_chunk_Ok bounds_simps Let_def not_less)

interpretation sh_request: message_codec "''shell_task''" None shell_request_ok j
    "sh_request_into_message j" "sh_request_from_message j" for j
  by unfold_locales (auto simp: sh_request_into_message_def sh_request_from_message_def bind_r_Ok
      sh_request_validate_Ok)

interpretation sh_reply: message_codec "''shell_task_result''" None "shell_reply_ok b" j
    "sh_reply_into_message b j" "sh_reply_from_message b j" for b j
  by unfold_locales (auto simp: sh_reply_into_message_def sh_reply_from_message_def bind_r_Ok
      sh_validate_reply_Ok)

end
