(* ===== verification/Target_Path.thy ===== *)
theory Target_Path
  imports State_Codec
begin

section \<open>Paths on the target host (clew-host, target_path.rs and its users)\<close>

text \<open>
  Expansion of the home shorthand, and the check that a canonical path lies under one of the
  signed roots, component by component as \<^verbatim>\<open>Path::starts_with\<close> compares. What differs between
  operating systems is in \<open>platform\<close>; what the file system answers is in \<open>host_fs\<close>.
\<close>

record platform =
  pl_windows :: bool
  pl_is_absolute :: "string \<Rightarrow> bool"
  pl_join :: "string \<Rightarrow> string \<Rightarrow> string"
  pl_components :: "string \<Rightarrow> string list"

text \<open>The Unix answers: components are split at slashes, empty ones and inner dots are skipped.\<close>

fun split_slash :: "string \<Rightarrow> string list" where
  "split_slash [] = [[]]"
| "split_slash (c # s) =
     (if c = CHR ''/'' then [] # split_slash s
      else (case split_slash s of [] \<Rightarrow> [[c]] | w # ws \<Rightarrow> (c # w) # ws))"

definition unix_components :: "string \<Rightarrow> string list" where
  "unix_components p =
     (let parts = split_slash p; inner = filter (\<lambda>w. w \<noteq> [] \<and> w \<noteq> ''.'') parts in
      if is_absolute p then ''/'' # inner
      else if parts \<noteq> [] \<and> hd parts = ''.'' then ''.'' # inner
      else inner)"

definition unix_platform :: platform where
  "unix_platform = \<lparr>pl_windows = False, pl_is_absolute = is_absolute, pl_join = path_join,
     pl_components = unix_components\<rparr>"

definition path_starts_with :: "platform \<Rightarrow> string \<Rightarrow> string \<Rightarrow> bool" where
  "path_starts_with pl p root \<longleftrightarrow>
     take (length (pl_components pl root)) (pl_components pl p) = pl_components pl root"

datatype target_path_error =
    UnsupportedHomeShorthand
  | HomeUnavailable
  | HomeNotAbsolute
  | ExpandedPathTooLong
  | HomePathNotUtf8

definition checked_home :: "platform \<Rightarrow> string option \<Rightarrow> (target_path_error, string) result" where
  "checked_home pl home =
     bind_r (ok_or home HomeUnavailable) (\<lambda>h.
       if \<not> pl_is_absolute pl h then Err HomeNotAbsolute
       else if \<not> utf8_valid h then Err HomePathNotUtf8
       else Ok h)"

definition join_home_relative ::
    "platform \<Rightarrow> string option \<Rightarrow> string \<Rightarrow> (target_path_error, string) result" where
  "join_home_relative pl home relative =
     (if str_starts_with relative ''/'' \<or> str_starts_with relative [CHR 0x5C]
         \<or> pl_is_absolute pl relative
      then Err UnsupportedHomeShorthand
      else bind_r (checked_home pl home) (\<lambda>h. Ok (pl_join pl h relative)))"

definition expand_shorthand ::
    "platform \<Rightarrow> string option \<Rightarrow> string \<Rightarrow> (target_path_error, string) result" where
  "expand_shorthand pl home requested =
     (if requested = ''~'' then checked_home pl home
      else case strip_prefix requested ''~/'' of
        Some relative \<Rightarrow> join_home_relative pl home relative
      | None \<Rightarrow>
          if pl_windows pl then
            (case strip_prefix requested [CHR ''~'', CHR 0x5C] of
               Some relative \<Rightarrow> join_home_relative pl home relative
             | None \<Rightarrow>
                 if str_starts_with requested ''~'' then Err UnsupportedHomeShorthand
                 else Ok requested)
          else if str_starts_with requested ''~'' then Err UnsupportedHomeShorthand
          else Ok requested)"

definition expand_target_path_with_home ::
    "platform \<Rightarrow> string option \<Rightarrow> string \<Rightarrow> (target_path_error, string) result" where
  "expand_target_path_with_home pl home requested =
     bind_r (expand_shorthand pl home requested) (\<lambda>expanded.
       if \<not> utf8_valid expanded then Err HomePathNotUtf8
       else if length expanded > HARD_MAX_READ_ROOT_BYTES then Err ExpandedPathTooLong
       else Ok expanded)"

text \<open>The account's home, from the environment.\<close>

definition target_account_home_windows :: "platform \<Rightarrow> (string \<Rightarrow> string option) \<Rightarrow> string option" where
  "target_account_home_windows pl env_var =
     (let fallback =
        (case (env_var ''HOMEDRIVE'', env_var ''HOMEPATH'') of
           (Some drive, Some path) \<Rightarrow>
             if pl_is_absolute pl (drive @ path) then Some (drive @ path) else None
         | _ \<Rightarrow> None) in
      case env_var ''USERPROFILE'' of
        Some profile \<Rightarrow> if pl_is_absolute pl profile then Some profile else fallback
      | None \<Rightarrow> fallback)"

definition target_account_home_unix :: "platform \<Rightarrow> (string \<Rightarrow> string option) \<Rightarrow> string option" where
  "target_account_home_unix pl env_var =
     (case env_var ''HOME'' of
        None \<Rightarrow> None | Some h \<Rightarrow> if pl_is_absolute pl h then Some h else None)"

definition target_account_home :: "platform \<Rightarrow> (string \<Rightarrow> string option) \<Rightarrow> string option" where
  "target_account_home pl env_var =
     (if pl_windows pl then target_account_home_windows pl env_var
      else target_account_home_unix pl env_var)"

definition expand_target_path ::
    "platform \<Rightarrow> (string \<Rightarrow> string option) \<Rightarrow> string \<Rightarrow> (target_path_error, string) result" where
  "expand_target_path pl env_var requested =
     expand_target_path_with_home pl (target_account_home pl env_var) requested"

subsection \<open>Signed roots\<close>

record host_fs =
  fs_canonicalize :: "string \<Rightarrow> string option"
  fs_is_dir :: "string \<Rightarrow> bool option"
  fs_env_var :: "string \<Rightarrow> string option"

fun under_some_root :: "platform \<Rightarrow> host_fs \<Rightarrow> string list \<Rightarrow> string \<Rightarrow> bool" where
  "under_some_root pl fs [] p = False"
| "under_some_root pl fs (root # rest) p =
     (case expand_target_path pl (fs_env_var fs) root of
        Inl _ \<Rightarrow> under_some_root pl fs rest p
      | Inr r \<Rightarrow>
          (case fs_canonicalize fs r of
             None \<Rightarrow> under_some_root pl fs rest p
           | Some croot \<Rightarrow> path_starts_with pl p croot \<or> under_some_root pl fs rest p))"

definition canonical_allowed_cwd :: "platform \<Rightarrow> host_fs \<Rightarrow> read_policy \<Rightarrow> string \<Rightarrow> string option" where
  "canonical_allowed_cwd pl fs policy requested =
     (case expand_target_path pl (fs_env_var fs) requested of
        Inl _ \<Rightarrow> None
      | Inr p \<Rightarrow>
          if \<not> pl_is_absolute pl p then None
          else (case fs_canonicalize fs p of
             None \<Rightarrow> None
           | Some cwd \<Rightarrow>
               (case fs_is_dir fs cwd of
                  None \<Rightarrow> None
                | Some is_dir \<Rightarrow>
                    if \<not> is_dir then None
                    else if all_filesystem policy then Some cwd
                    else if under_some_root pl fs (roots policy) cwd then Some cwd
                    else None)))"

lemma under_some_root_iff:
  "under_some_root pl fs rs p \<longleftrightarrow>
     (\<exists>root \<in> set rs. \<exists>r croot. expand_target_path pl (fs_env_var fs) root = Ok r
        \<and> fs_canonicalize fs r = Some croot \<and> path_starts_with pl p croot)"
  by (induction rs) (auto split: sum.splits option.splits)

lemma expand_target_path_cases:
  assumes "expand_target_path_with_home pl home requested = Ok p"
  shows "length p \<le> 2048 \<and> utf8_valid p \<and>
    ((p = requested \<and> \<not> str_starts_with requested ''~'')
     \<or> (\<exists>h. home = Some h \<and> pl_is_absolute pl h \<and> (p = h \<or> (\<exists>rel. p = pl_join pl h rel
          \<and> \<not> pl_is_absolute pl rel \<and> \<not> str_starts_with rel ''/''))))"
proof -
  have "expand_shorthand pl home requested = Ok p" and b: "length p \<le> 2048" "utf8_valid p"
    using assms by (auto simp: expand_target_path_with_home_def result_simps bounds_simps)
  then show ?thesis
    by (auto simp: expand_shorthand_def checked_home_def join_home_relative_def result_simps
        split: if_splits option.splits)
qed

lemma canonical_allowed_cwd_Some:
  "canonical_allowed_cwd pl fs policy requested = Some cwd \<longleftrightarrow>
     (\<exists>p. expand_target_path pl (fs_env_var fs) requested = Ok p \<and> pl_is_absolute pl p
        \<and> fs_canonicalize fs p = Some cwd \<and> fs_is_dir fs cwd = Some True
        \<and> (all_filesystem policy \<or> under_some_root pl fs (roots policy) cwd))"
  by (auto simp: canonical_allowed_cwd_def split: sum.splits option.splits if_splits)

lemma split_slash_nonempty [simp]: "split_slash s \<noteq> []"
  by (induction s) (auto split: list.splits)

lemma unix_components_join:
  assumes "is_absolute b" and "\<not> is_absolute rel"
  shows "take (length (unix_components b)) (unix_components (path_join b rel)) = unix_components b"
proof -
  have app: "filter (\<lambda>w. w \<noteq> [] \<and> w \<noteq> ''.'') (split_slash (s @ ''/'' @ t)) =
      filter (\<lambda>w. w \<noteq> [] \<and> w \<noteq> ''.'') (split_slash s)
      @ filter (\<lambda>w. w \<noteq> [] \<and> w \<noteq> ''.'') (split_slash t)" for s t
  proof -
    have "split_slash (s @ CHR ''/'' # t) = split_slash s @ split_slash t"
      by (induction s) (auto split: list.splits)
    then show ?thesis by simp
  qed
  obtain s where s: "path_join b rel = s @ ''/'' @ rel" "is_absolute s \<or> s = []"
    "filter (\<lambda>w. w \<noteq> [] \<and> w \<noteq> ''.'') (split_slash s) = filter (\<lambda>w. w \<noteq> [] \<and> w \<noteq> ''.'') (split_slash b)"
  proof (cases "last b = CHR ''/''")
    case True
    have "b \<noteq> []" using assms(1) by (auto simp: is_absolute_def)
    then have b: "b = butlast b @ ''/'' @ []" using True append_butlast_last_id by fastforce
    have "is_absolute (butlast b) \<or> butlast b = []"
      using assms(1) by (cases b) (auto simp: is_absolute_def)
    then show ?thesis
      using that [of "butlast b"] b assms app [of "butlast b" "[]"] True \<open>b \<noteq> []\<close>
      by (simp add: path_join_def)
  next
    case False
    have "b \<noteq> []" using assms(1) by (auto simp: is_absolute_def)
    then show ?thesis using that [of b] assms False by (simp add: path_join_def)
  qed
  have "is_absolute (path_join b rel)"
    using assms by (cases b) (auto simp: path_join_def is_absolute_def)
  then show ?thesis using assms(1) app [of s rel] s
    by (simp add: unix_components_def Let_def)
qed

end
