(* ===== verification/Host_Shell.thy ===== *)
theory Host_Shell
  imports Shell_Task Target_Path
begin

section \<open>The host's shell service (clew-host, shell.rs)\<close>

text \<open>
  The task store, the bounded output rings, session epochs and the reconnect grace of the shell
  service, as state-passing operations and as a step relation that interleaves requests, child
  processes and sessions. What the operating system decides (paths, spawning, exit codes, the
  clock) is a parameter or an event. A poisoned mutex is not modelled; the error replies are
  built from literals far below the 512 bytes at which they would be cut.
\<close>

subsection \<open>Output rings\<close>

record retained_bytes =
  base_offset :: u64
  next_offset :: u64
  rb_data :: bytes

definition retained_default :: retained_bytes where
  "retained_default = \<lparr>base_offset = 0, next_offset = 0, rb_data = []\<rparr>"

definition retained_push :: "u8 \<Rightarrow> retained_bytes \<Rightarrow> retained_bytes" where
  "retained_push byte r =
     (let d = rb_data r @ [byte]; n = saturating_add (next_offset r) 1 in
      if length d > HARD_MAX_SHELL_RETAINED_BYTES_PER_STREAM
      then \<lparr>base_offset = saturating_add (base_offset r) 1, next_offset = n, rb_data = tl d\<rparr>
      else \<lparr>base_offset = base_offset r, next_offset = n, rb_data = d\<rparr>)"

definition retained_append :: "bytes \<Rightarrow> retained_bytes \<Rightarrow> retained_bytes" where
  "retained_append bs r = fold retained_push bs r"

text \<open>\<open>None\<close> is the panic of the \<^verbatim>\<open>expect\<close>.\<close>

definition retained_chunk :: "base64 \<Rightarrow> u64 \<Rightarrow> usize \<Rightarrow> retained_bytes \<Rightarrow> shell_output_chunk option" where
  "retained_chunk b requested limit r =
     (let start = min (max requested (base_offset r)) (next_offset r);
          start_index = unat (saturating_sub start (base_offset r));
          data = take limit (drop start_index (rb_data r));
          next = saturating_add start (word_of_nat (length data)) in
      case output_chunk_from_bytes b requested start next (base_offset r) (next_offset r)
             (requested < base_offset r) data of
        Inl _ \<Rightarrow> None
      | Inr c \<Rightarrow> Some c)"

subsection \<open>Wall deadlines\<close>

text \<open>The wall-clock deadline: a clock that fails, that goes back or that has reached the deadline
  ends the wait. \<open>readings\<close> are the clock's answers, one for each turn; \<open>False\<close> is still
  waiting after all of them.\<close>

definition wall_deadline_after :: "u64 option \<Rightarrow> u64 \<Rightarrow> u64 option" where
  "wall_deadline_after now duration_ms = Option.bind now (\<lambda>n. checked_add n duration_ms)"

definition wall_deadline_reached :: "u64 \<Rightarrow> u64 \<Rightarrow> u64 \<Rightarrow> bool" where
  "wall_deadline_reached previous now deadline \<longleftrightarrow> now < previous \<or> now \<ge> deadline"

fun wait_turns :: "u64 \<Rightarrow> u64 \<Rightarrow> u64 option list \<Rightarrow> bool" where
  "wait_turns deadline previous [] = False"
| "wait_turns deadline previous (r # rs) =
     (case r of
        None \<Rightarrow> True
      | Some now \<Rightarrow> wall_deadline_reached previous now deadline \<or> wait_turns deadline now rs)"

definition wait_for_wall_deadline :: "u64 option \<Rightarrow> u64 option list \<Rightarrow> bool" where
  "wait_for_wall_deadline deadline readings =
     (case deadline of
        None \<Rightarrow> True
      | Some d \<Rightarrow>
          (case readings of
             [] \<Rightarrow> False
           | None # _ \<Rightarrow> True
           | Some previous # rs \<Rightarrow> wait_turns d previous rs))"

subsection \<open>Tasks and the service\<close>

record task_state =
  ts_task_id :: task_id
  ts_phase :: shell_task_phase
  ts_exit_code :: "i32 option"
  ts_stdout :: retained_bytes
  ts_stderr :: retained_bytes

definition task_status :: "task_state \<Rightarrow> shell_task_status" where
  "task_status t =
     \<lparr>sts_task_id = ts_task_id t, sts_phase = ts_phase t, sts_exit_code = ts_exit_code t,
      stdout_base_offset = base_offset (ts_stdout t), stdout_next_offset = next_offset (ts_stdout t),
      stderr_base_offset = base_offset (ts_stderr t), stderr_next_offset = next_offset (ts_stderr t)\<rparr>"

text \<open>\<open>te_cancel\<close> is the value last sent on the task's cancel channel.\<close>

record task_entry =
  te_sequence :: u64
  te_session_epoch :: u64
  te_confirmed_epoch :: "u64 option"
  te_state :: task_state
  te_cancel :: bool

text \<open>\<open>sv_permits\<close> counts the free permits of the semaphore, \<open>sv_starting\<close> those held by starts
  that have not yet entered their task.\<close>

text \<open>A waiting reconnect grace: the task a dropped guard leaves behind. \<open>gr_readings\<close> are the answers
  its clock gave so far, \<open>gr_over\<close> says that its wait is over and its section has run.\<close>

record grace_task =
  gr_epoch :: u64
  gr_deadline :: "u64 option"
  gr_readings :: "u64 option list"
  gr_over :: bool

record shell_service =
  sv_policy :: read_policy
  sv_tasks :: "(task_id, task_entry) btree"
  sv_next_sequence :: u64
  sv_permits :: nat
  sv_starting :: nat
  sv_epoch :: u64
  sv_graces :: "grace_task list"

definition shell_new :: "read_policy \<Rightarrow> (control_model_error, shell_service) result" where
  "shell_new policy =
     bind_r (policy_validate policy) (\<lambda>_.
       Ok \<lparr>sv_policy = policy, sv_tasks = [], sv_next_sequence = 0,
           sv_permits = HARD_MAX_SHELL_TASKS_PER_SESSION, sv_starting = 0, sv_epoch = 0,
           sv_graces = []\<rparr>)"

definition attach_session :: "shell_service \<Rightarrow> u64 \<times> shell_service" where
  "attach_session s = (sv_epoch s + 1, s\<lparr>sv_epoch := sv_epoch s + 1\<rparr>)"

definition send_cancel :: "task_entry \<Rightarrow> task_entry" where
  "send_cancel e = e\<lparr>te_cancel := True\<rparr>"

definition cancel_all_tasks :: "shell_service \<Rightarrow> shell_service" where
  "cancel_all_tasks s = s\<lparr>sv_tasks := bt_map_values send_cancel (sv_tasks s)\<rparr>"

definition cancel_unconfirmed_for_epoch :: "u64 \<Rightarrow> shell_service \<Rightarrow> shell_service" where
  "cancel_unconfirmed_for_epoch epoch s =
     s\<lparr>sv_tasks := bt_map_values (\<lambda>e.
         if te_session_epoch e = epoch \<and> te_confirmed_epoch e = None then send_cancel e else e)
       (sv_tasks s)\<rparr>"

text \<open>What the task that a dropped guard leaves behind does when the grace is over.\<close>

definition lapsed :: "u64 \<Rightarrow> task_entry \<Rightarrow> bool" where
  "lapsed epoch e \<longleftrightarrow> te_session_epoch e \<le> epoch
     \<and> \<not> (case te_confirmed_epoch e of None \<Rightarrow> False | Some c \<Rightarrow> c > epoch)"

definition grace_expired :: "u64 \<Rightarrow> shell_service \<Rightarrow> shell_service" where
  "grace_expired epoch s =
     s\<lparr>sv_tasks := bt_map_values (\<lambda>e. if lapsed epoch e then send_cancel e else e) (sv_tasks s)\<rparr>"

text \<open>Without a runtime to run the grace on (\<open>handle\<close>), every task is cancelled at once. \<open>now\<close> is
  the clock's answer when the deadline of the grace is set. Dropping the guard of a session that a
  later one has replaced does nothing.\<close>

definition schedule_reconnect_grace :: "bool \<Rightarrow> u64 option \<Rightarrow> u64 \<Rightarrow> shell_service \<Rightarrow> shell_service" where
  "schedule_reconnect_grace handle now epoch s =
     (if \<not> handle then cancel_all_tasks s
      else s\<lparr>sv_graces := sv_graces s @
        [\<lparr>gr_epoch = epoch, gr_deadline = wall_deadline_after now SHELL_RECONNECT_GRACE_MS,
          gr_readings = [], gr_over = False\<rparr>]\<rparr>)"

definition drop_guard :: "bool \<Rightarrow> u64 option \<Rightarrow> u64 \<Rightarrow> shell_service \<Rightarrow> shell_service" where
  "drop_guard handle now epoch s =
     (if sv_epoch s \<noteq> epoch then s
      else schedule_reconnect_grace handle now epoch (cancel_unconfirmed_for_epoch epoch s))"

text \<open>One turn of the \<open>k\<close>-th grace: it reads the clock once more; when its wait is over, it cancels
  the lapsed tasks.\<close>

definition grace_turn :: "nat \<Rightarrow> u64 option \<Rightarrow> shell_service \<Rightarrow> shell_service" where
  "grace_turn k reading s =
     (let g = sv_graces s ! k; rs = gr_readings g @ [reading] in
      if wait_for_wall_deadline (gr_deadline g) rs
      then grace_expired (gr_epoch g) (s\<lparr>sv_graces := (sv_graces s)[k := g\<lparr>gr_readings := rs, gr_over := True\<rparr>]\<rparr>)
      else s\<lparr>sv_graces := (sv_graces s)[k := g\<lparr>gr_readings := rs\<rparr>]\<rparr>)"

definition entry_terminal :: "task_entry \<Rightarrow> bool" where
  "entry_terminal e \<longleftrightarrow> terminal (ts_phase (te_state e))"

fun min_by_sequence :: "(task_id \<times> u64) list \<Rightarrow> (task_id \<times> u64) option" where
  "min_by_sequence [] = None"
| "min_by_sequence (x # xs) =
     (case min_by_sequence xs of
        None \<Rightarrow> Some x
      | Some y \<Rightarrow> if snd x \<le> snd y then Some x else Some y)"

definition prune_candidate :: "shell_service \<Rightarrow> task_id option" where
  "prune_candidate s =
     map_option fst (min_by_sequence
       (map (\<lambda>(i, e). (i, te_sequence e)) (filter (\<lambda>(_, e). entry_terminal e) (sv_tasks s))))"

text \<open>Removing an entry drops its permit.\<close>

definition remove_task :: "task_id \<Rightarrow> shell_service \<Rightarrow> shell_service" where
  "remove_task i s = s\<lparr>sv_tasks := bt_remove i (sv_tasks s), sv_permits := sv_permits s + 1\<rparr>"

lemma min_by_sequence_in: "min_by_sequence xs = Some x \<Longrightarrow> x \<in> set xs"
  by (induction xs arbitrary: x) (auto split: option.splits if_splits)

lemma min_by_sequence_None [simp]: "min_by_sequence xs = None \<longleftrightarrow> xs = []"
  by (cases xs) (auto split: option.splits)

lemma prune_candidate_Some:
  "prune_candidate s = Some i \<Longrightarrow> \<exists>e. (i, e) \<in> set (sv_tasks s) \<and> entry_terminal e"
  by (auto simp: prune_candidate_def dest!: min_by_sequence_in)

lemma prune_candidate_None:
  "prune_candidate s = None \<longleftrightarrow> (\<forall>(i, e) \<in> set (sv_tasks s). \<not> entry_terminal e)"
  by (auto simp: prune_candidate_def filter_empty_conv)

function prune_terminal_tasks :: "shell_service \<Rightarrow> shell_service" where
  "prune_terminal_tasks s =
     (if length (sv_tasks s) \<ge> HARD_MAX_SHELL_TASKS_PER_SESSION
      then (case prune_candidate s of
              None \<Rightarrow> s
            | Some i \<Rightarrow> prune_terminal_tasks (remove_task i s))
      else s)"
  by auto
termination
proof (relation "measure (\<lambda>s. length (sv_tasks s))")
  show "wf (measure (\<lambda>s. length (sv_tasks s)))" by simp
next
  fix s i
  assume "prune_candidate s = Some i"
  then obtain e where "(i, e) \<in> set (sv_tasks s)" using prune_candidate_Some by blast
  then have "i \<in> fst ` set (sv_tasks s)" by (rule image_eqI [rotated]) simp
  then have "bt_get (sv_tasks s) i \<noteq> None" by (simp add: map_of_eq_None_iff)
  then show "(remove_task i s, s) \<in> measure (\<lambda>s. length (sv_tasks s))"
    using length_bt_remove_less [of "sv_tasks s" i] by (simp add: remove_task_def)
qed

declare prune_terminal_tasks.simps [simp del]

subsection \<open>Requests\<close>

definition sh_error :: "shell_task_error_code \<Rightarrow> string \<Rightarrow> shell_task_reply" where
  "sh_error c m = ShrError \<lparr>she_code = c, she_message = m\<rparr>"

lemma sh_error_built: "length m \<le> 512 \<Longrightarrow> sh_reply_error c m = Some (sh_error c m)"
  by (simp add: sh_reply_error_def bounded_message_def sh_error_def bounds_simps)

text \<open>A start checks the directory, prunes in one locked section, and takes a permit in another; it
  then spawns the process and enters the task. Other requests may run in between.\<close>

definition acquire_permit :: "shell_service \<Rightarrow> shell_service \<times> (shell_task_reply, unit) result" where
  "acquire_permit s =
     (if sv_permits s = 0
      then (s, Err (sh_error ShcCapacity ''Shell task capacity is exhausted for this live session''))
      else (s\<lparr>sv_permits := sv_permits s - 1, sv_starting := sv_starting s + 1\<rparr>, Ok ()))"

definition start_reserve ::
    "platform \<Rightarrow> host_fs \<Rightarrow> string \<Rightarrow> shell_service \<Rightarrow> shell_service \<times> (shell_task_reply, string) result" where
  "start_reserve pl fs cwd s =
     (case canonical_allowed_cwd pl fs (sv_policy s) cwd of
        None \<Rightarrow> (s, Err (sh_error ShcDenied
          ''Shell cwd is outside the signed roots or is not a directory''))
      | Some dir \<Rightarrow>
          (case acquire_permit (prune_terminal_tasks s) of
             (s1, Inl reply) \<Rightarrow> (s1, Err reply)
           | (s1, Inr _) \<Rightarrow> (s1, Ok dir)))"

lemma start_reserve_allowed:
  assumes "canonical_allowed_cwd pl fs (sv_policy s) cwd = Some dir"
  shows "start_reserve pl fs cwd s = (let s1 = prune_terminal_tasks s in
    if sv_permits s1 = 0
    then (s1, Err (sh_error ShcCapacity ''Shell task capacity is exhausted for this live session''))
    else (s1\<lparr>sv_permits := sv_permits s1 - 1, sv_starting := sv_starting s1 + 1\<rparr>, Ok dir))"
  using assms by (simp add: start_reserve_def acquire_permit_def Let_def)

definition new_task :: "task_id \<Rightarrow> task_state" where
  "new_task i = \<lparr>ts_task_id = i, ts_phase = Running, ts_exit_code = None,
     ts_stdout = retained_default, ts_stderr = retained_default\<rparr>"

definition start_abandon :: "shell_service \<Rightarrow> shell_service" where
  "start_abandon s = s\<lparr>sv_starting := sv_starting s - 1, sv_permits := sv_permits s + 1\<rparr>"

definition start_commit :: "task_id \<Rightarrow> shell_service \<Rightarrow> shell_service" where
  "start_commit i s =
     (let q = saturating_add (sv_next_sequence s) 1;
          replaced = (if bt_get (sv_tasks s) i = None then 0 else 1) in
      s\<lparr>sv_next_sequence := q, sv_starting := sv_starting s - 1,
        sv_permits := sv_permits s + replaced,
        sv_tasks := bt_insert i
          \<lparr>te_sequence = q, te_session_epoch = sv_epoch s, te_confirmed_epoch = None,
           te_state = new_task i, te_cancel = False\<rparr> (sv_tasks s)\<rparr>)"

text \<open>What spawning the process came to: no process, a process without one of its pipes, or both
  pipes connected.\<close>

datatype spawn_outcome = SpawnFailed | NoStdout | NoStderr | Spawned

definition shell_start ::
    "platform \<Rightarrow> host_fs \<Rightarrow> (string \<Rightarrow> string \<Rightarrow> (string, string) btree \<Rightarrow> spawn_outcome) \<Rightarrow> task_id
     \<Rightarrow> string \<Rightarrow> string \<Rightarrow> (string, string) btree \<Rightarrow> shell_service \<Rightarrow> shell_service \<times> shell_task_reply" where
  "shell_start pl fs spawn i command cwd env s =
     (case start_reserve pl fs cwd s of
        (s1, Inl reply) \<Rightarrow> (s1, reply)
      | (s1, Inr dir) \<Rightarrow>
          (case spawn command dir env of
             SpawnFailed \<Rightarrow> (start_abandon s1,
               sh_error ShcSpawnFailed ''Shell process could not be started'')
           | NoStdout \<Rightarrow> (start_abandon s1,
               sh_error ShcSpawnFailed ''Shell stdout pipe was not created'')
           | NoStderr \<Rightarrow> (start_abandon s1,
               sh_error ShcSpawnFailed ''Shell stderr pipe was not created'')
           | Spawned \<Rightarrow> (start_commit i s1, ShrStarted i)))"

definition confirmed_task_state ::
    "task_id \<Rightarrow> shell_service \<Rightarrow> shell_service \<times> (shell_task_reply, task_state) result" where
  "confirmed_task_state i s =
     (case bt_get (sv_tasks s) i of
        None \<Rightarrow> (s, Err (sh_error ShcNotFound ''Shell task was not found''))
      | Some e \<Rightarrow>
          (s\<lparr>sv_tasks := bt_update i (\<lambda>e. e\<lparr>te_confirmed_epoch := Some (sv_epoch s)\<rparr>) (sv_tasks s)\<rparr>,
           Ok (te_state e)))"

definition shell_status :: "task_id \<Rightarrow> shell_service \<Rightarrow> shell_service \<times> shell_task_reply" where
  "shell_status i s =
     (case confirmed_task_state i s of
        (s1, Inl reply) \<Rightarrow> (s1, reply)
      | (s1, Inr t) \<Rightarrow> (s1, ShrStatus (task_status t)))"

definition shell_attach ::
    "base64 \<Rightarrow> task_id \<Rightarrow> u64 \<Rightarrow> u64 \<Rightarrow> usize \<Rightarrow> shell_service \<Rightarrow> shell_service \<times> shell_task_reply option" where
  "shell_attach b i out_off err_off limit s =
     (case confirmed_task_state i s of
        (s1, Inl reply) \<Rightarrow> (s1, Some reply)
      | (s1, Inr t) \<Rightarrow>
          (s1, (case (retained_chunk b out_off limit (ts_stdout t),
                      retained_chunk b err_off limit (ts_stderr t)) of
                  (Some c1, Some c2) \<Rightarrow>
                    Some (ShrOutput \<lparr>sto_status = task_status t, sto_stdout = c1, sto_stderr = c2\<rparr>)
                | _ \<Rightarrow> None)))"

definition shell_cancel :: "task_id \<Rightarrow> shell_service \<Rightarrow> shell_service \<times> shell_task_reply" where
  "shell_cancel i s =
     (case bt_get (sv_tasks s) i of
        None \<Rightarrow> (s, sh_error ShcNotFound ''Shell task was not found'')
      | Some _ \<Rightarrow> (s\<lparr>sv_tasks := bt_update i send_cancel (sv_tasks s)\<rparr>, ShrCancelAccepted i))"

definition shell_execute ::
    "base64 \<Rightarrow> platform \<Rightarrow> host_fs \<Rightarrow> (string \<Rightarrow> string \<Rightarrow> (string, string) btree \<Rightarrow> spawn_outcome)
     \<Rightarrow> task_id \<Rightarrow> shell_task_request \<Rightarrow> bool \<Rightarrow> shell_service
     \<Rightarrow> shell_service \<times> shell_task_reply option" where
  "shell_execute b pl fs spawn fresh request allow_shell s =
     (if \<not> is_ok (sh_request_validate request)
      then (s, Some (sh_error ShcInvalidRequest ''invalid bounded Shell task request''))
      else if \<not> allow_shell
      then (s, Some (sh_error ShcDenied ''Shell task is not permitted by this device grant''))
      else case request of
        ShStart command cwd env _ \<Rightarrow>
          (case shell_start pl fs spawn fresh command cwd env s of (s', r) \<Rightarrow> (s', Some r))
      | ShStatus i \<Rightarrow> (case shell_status i s of (s', r) \<Rightarrow> (s', Some r))
      | ShAttach i o1 o2 limit \<Rightarrow> shell_attach b i o1 o2 (unat limit) s
      | ShCancel i \<Rightarrow> (case shell_cancel i s of (s', r) \<Rightarrow> (s', Some r)))"

subsection \<open>The child process\<close>

datatype shell_stream = Stdout | Stderr

definition update_state :: "task_id \<Rightarrow> (task_state \<Rightarrow> task_state) \<Rightarrow> shell_service \<Rightarrow> shell_service" where
  "update_state i f s =
     s\<lparr>sv_tasks := bt_update i (\<lambda>e. e\<lparr>te_state := f (te_state e)\<rparr>) (sv_tasks s)\<rparr>"

definition drain :: "shell_stream \<Rightarrow> bytes \<Rightarrow> task_state \<Rightarrow> task_state" where
  "drain stream bs t =
     (case stream of
        Stdout \<Rightarrow> t\<lparr>ts_stdout := retained_append bs (ts_stdout t)\<rparr>
      | Stderr \<Rightarrow> t\<lparr>ts_stderr := retained_append bs (ts_stderr t)\<rparr>)"

datatype child_end =
    ChildExited (exit_code: "i32 option") (pipes_ok: bool)
  | ChildWaitFailed
  | ChildCancelled
  | ChildTimedOut

definition finish_child :: "child_end \<Rightarrow> task_state \<Rightarrow> task_state" where
  "finish_child how t =
     (case how of
        ChildExited ec ok \<Rightarrow>
          if ok then t\<lparr>ts_phase := Exited, ts_exit_code := ec\<rparr>
          else t\<lparr>ts_phase := Failed, ts_exit_code := None\<rparr>
      | ChildWaitFailed \<Rightarrow> t\<lparr>ts_phase := Failed, ts_exit_code := None\<rparr>
      | ChildCancelled \<Rightarrow> t\<lparr>ts_phase := Cancelled, ts_exit_code := None\<rparr>
      | ChildTimedOut \<Rightarrow> t\<lparr>ts_phase := TimedOut, ts_exit_code := None\<rparr>)"

definition sleep_ms :: "u64 \<Rightarrow> u64 \<Rightarrow> u64" where
  "sleep_ms deadline now = max (min (saturating_sub deadline now) 250) 1"

subsection \<open>The ring is a window of the whole output\<close>

text \<open>The specification: the log of everything a stream produced. The ring keeps its last 32 KiB.\<close>

definition ring_of :: "bytes \<Rightarrow> retained_bytes \<Rightarrow> bool" where
  "ring_of out r \<longleftrightarrow> length out < 2 ^ 64 \<and> unat (next_offset r) = length out
     \<and> unat (base_offset r) = length out - 32768 \<and> rb_data r = drop (length out - 32768) out"

lemma ring_default: "ring_of [] retained_default"
  by (simp add: ring_of_def retained_default_def)

lemma unat_succ: "unat (w :: u64) + 1 < 2 ^ 64 \<Longrightarrow> unat (saturating_add w 1) = unat w + 1"
  by (simp add: unat_saturating_add)

lemma ring_push:
  assumes "ring_of out r" and "length out + 1 < 2 ^ 64"
  shows "ring_of (out @ [x]) (retained_push x r)"
proof -
  have n: "unat (saturating_add (next_offset r) 1) = length out + 1"
    using assms unat_succ [of "next_offset r"] by (simp add: ring_of_def)
  have d: "rb_data r @ [x] = drop (length out - 32768) (out @ [x])"
    using assms(1) by (simp add: ring_of_def)
  show ?thesis
  proof (cases "length out \<ge> 32768")
    case True
    have "unat (saturating_add (base_offset r) 1) = length out - 32768 + 1"
      using assms unat_succ [of "base_offset r"] by (simp add: ring_of_def)
    moreover have "tl (rb_data r @ [x]) = drop (length out + 1 - 32768) (out @ [x])"
    proof -
      have "length out + 1 - 32768 = Suc (length out - 32768)" using True by simp
      then show ?thesis unfolding d using True by (simp add: tl_drop drop_Suc)
    qed
    ultimately show ?thesis
      using True n d assms by (simp add: ring_of_def retained_push_def Let_def bounds_simps Suc_diff_le)
  next
    case False
    then show ?thesis
      using n d assms by (simp add: ring_of_def retained_push_def Let_def bounds_simps)
  qed
qed

lemma ring_append:
  "ring_of out r \<Longrightarrow> length out + length bs < 2 ^ 64 \<Longrightarrow> ring_of (out @ bs) (retained_append bs r)"
proof (induction bs arbitrary: out r)
  case Nil
  then show ?case by (simp add: retained_append_def)
next
  case (Cons x bs)
  have "ring_of (out @ [x]) (retained_push x r)"
    using Cons.prems by (intro ring_push) simp_all
  from Cons.IH [OF this] Cons.prems show ?case by (simp add: retained_append_def)
qed

lemma ring_appends:
  "length (concat blocks) < 2 ^ 64 \<Longrightarrow>
     ring_of (concat blocks) (fold retained_append blocks retained_default)"
proof (induction blocks rule: rev_induct)
  case Nil
  then show ?case by (simp add: ring_default)
next
  case (snoc bs blocks)
  then show ?case by (simp add: ring_append)
qed

lemma ring_chunk:
  fixes requested :: u64
  assumes "ring_of out r" and "base64_ok b" and "limit \<le> 12288"
  defines "start \<equiv> min (max (unat requested) (length out - 32768)) (length out)"
  shows "\<exists>c. retained_chunk b requested limit r = Some c
    \<and> chunk_bytes b c (take limit (drop start out))
    \<and> unat (oc_start_offset c) = start \<and> oc_requested_offset c = requested
    \<and> oc_retained_base c = base_offset r \<and> oc_retained_next c = next_offset r"
proof -
  let ?s = "min (max requested (base_offset r)) (next_offset r)"
  let ?data = "take limit (drop start out)"
  have b: "unat (base_offset r) = length out - 32768" and n: "unat (next_offset r) = length out"
    and l: "length out < 2 ^ 64" and rd: "rb_data r = drop (length out - 32768) out"
    using assms(1) by (simp_all add: ring_of_def)
  have s: "unat ?s = start"
    using b n by (simp add: start_def min_def max_def word_le_nat_alt)
  have base: "base_offset r \<le> ?s"
    using b n s by (simp add: word_le_nat_alt start_def)
  have idx: "unat (saturating_sub ?s (base_offset r)) = start - (length out - 32768)"
    by (simp add: unat_saturating_sub s b)
  have dt: "take limit (drop (unat (saturating_sub ?s (base_offset r))) (rb_data r)) = ?data"
    using s b base by (simp add: idx rd start_def)
  have le: "start \<le> length out" by (simp add: start_def)
  have len: "length ?data \<le> 12288" "start + length ?data \<le> length out"
    using assms(3) le by simp_all
  have wn: "unat (word_of_nat (length ?data) :: u64) = length ?data"
    using len(1) by (simp add: unat_of_nat)
  have nx: "unat (saturating_add ?s (word_of_nat (length ?data))) = start + length ?data"
    using len(2) l by (simp only: unat_saturating_add wn s) simp
  let ?c = "\<lparr>oc_requested_offset = requested, oc_start_offset = ?s,
      oc_next_offset = saturating_add ?s (word_of_nat (length ?data)), oc_retained_base = base_offset r,
      oc_retained_next = next_offset r, oc_lost_prefix = (requested < base_offset r),
      oc_data_base64 = b64_encode b ?data\<rparr>"
  have ok: "chunk_bytes b ?c ?data"
    using len nx s n base assms(2) by (simp add: chunk_bytes_def base64_ok_def word_le_nat_alt)
  then have "validate_output_chunk b ?c = Ok ()" using validate_output_chunk_Ok by blast
  then have "retained_chunk b requested limit r = Some ?c"
    using len(1) assms(3) unfolding retained_chunk_def Let_def dt output_chunk_from_bytes_def
    by (simp add: bounds_simps)
  then show ?thesis using ok s by (intro exI [of _ ?c]) simp
qed

subsection \<open>The service as a step relation\<close>

text \<open>
  One step is one atomic section of the service: a request's locked section, a turn of a pipe's
  drain, the end of a child, a session coming or going. An output step is taken only while the
  stream's byte count fits the 64-bit offset.
\<close>

datatype shell_event =
    EvAttachSession
  | EvDropGuard bool "u64 option" u64
  | EvGraceTurn nat "u64 option"
  | EvPrune string
  | EvAcquire
  | EvAbandon
  | EvCommit task_id
  | EvStatus task_id
  | EvAttach task_id u64 u64 usize
  | EvCancel task_id
  | EvOutput task_id shell_stream bytes
  | EvChildEnd task_id child_end

fun has_room :: "shell_stream \<Rightarrow> bytes \<Rightarrow> task_state \<Rightarrow> bool" where
  "has_room Stdout bs t = (unat (next_offset (ts_stdout t)) + length bs < 2 ^ 64)"
| "has_room Stderr bs t = (unat (next_offset (ts_stderr t)) + length bs < 2 ^ 64)"

inductive shell_step ::
    "base64 \<Rightarrow> platform \<Rightarrow> host_fs \<Rightarrow> shell_service \<Rightarrow> shell_event \<Rightarrow> shell_service \<Rightarrow> bool"
  for b pl fs where
  session_in: "shell_step b pl fs s EvAttachSession (snd (attach_session s))"
| session_out: "shell_step b pl fs s (EvDropGuard handle now ep) (drop_guard handle now ep s)"
| grace_waits: "k < length (sv_graces s) \<Longrightarrow> \<not> gr_over (sv_graces s ! k) \<Longrightarrow>
    shell_step b pl fs s (EvGraceTurn k reading) (grace_turn k reading s)"
| pruned: "canonical_allowed_cwd pl fs (sv_policy s) cwd \<noteq> None \<Longrightarrow>
    shell_step b pl fs s (EvPrune cwd) (prune_terminal_tasks s)"
| acquired: "shell_step b pl fs s EvAcquire (fst (acquire_permit s))"
| abandoned: "0 < sv_starting s \<Longrightarrow> shell_step b pl fs s EvAbandon (start_abandon s)"
| committed: "0 < sv_starting s \<Longrightarrow> shell_step b pl fs s (EvCommit i) (start_commit i s)"
| asked: "shell_step b pl fs s (EvStatus i) (fst (shell_status i s))"
| attached: "shell_step b pl fs s (EvAttach i o1 o2 limit) (fst (shell_attach b i o1 o2 limit s))"
| cancelled: "shell_step b pl fs s (EvCancel i) (fst (shell_cancel i s))"
| drained: "bt_get (sv_tasks s) i = Some e \<Longrightarrow> has_room stream bs (te_state e) \<Longrightarrow>
    shell_step b pl fs s (EvOutput i stream bs) (update_state i (drain stream bs) s)"
| ended: "bt_get (sv_tasks s) i = Some e \<Longrightarrow> ts_phase (te_state e) = Running \<Longrightarrow>
    (how = ChildCancelled \<Longrightarrow> te_cancel e) \<Longrightarrow>
    shell_step b pl fs s (EvChildEnd i how) (update_state i (finish_child how) s)"


inductive shell_run ::
    "base64 \<Rightarrow> platform \<Rightarrow> host_fs \<Rightarrow> shell_service \<Rightarrow> shell_event list \<Rightarrow> shell_service \<Rightarrow> bool"
  for b pl fs where
  run_nil: "shell_run b pl fs s [] s"
| run_cons: "shell_step b pl fs s ev s' \<Longrightarrow> shell_run b pl fs s' evs s'' \<Longrightarrow>
    shell_run b pl fs s (ev # evs) s''"


subsection \<open>The invariant\<close>

definition task_ok :: "task_id \<Rightarrow> task_state \<Rightarrow> bool" where
  "task_ok i t \<longleftrightarrow> ts_task_id t = i \<and> (\<exists>out. ring_of out (ts_stdout t)) \<and> (\<exists>out. ring_of out (ts_stderr t))
     \<and> (ts_exit_code t \<noteq> None \<longrightarrow> ts_phase t = Exited)"

definition shell_ok :: "shell_service \<Rightarrow> bool" where
  "shell_ok s \<longleftrightarrow> bt_wf (sv_tasks s)
     \<and> length (sv_tasks s) + sv_permits s + sv_starting s = HARD_MAX_SHELL_TASKS_PER_SESSION
     \<and> (\<forall>i e. bt_get (sv_tasks s) i = Some e \<longrightarrow> task_ok i (te_state e))"

lemma shell_okI:
  assumes "bt_wf (sv_tasks s)"
    and "length (sv_tasks s) + sv_permits s + sv_starting s = HARD_MAX_SHELL_TASKS_PER_SESSION"
    and "\<And>i e. bt_get (sv_tasks s) i = Some e \<Longrightarrow> task_ok i (te_state e)"
  shows "shell_ok s"
  using assms by (simp add: shell_ok_def)

lemma shell_okD:
  assumes "shell_ok s"
  shows "bt_wf (sv_tasks s)"
    and "length (sv_tasks s) + sv_permits s + sv_starting s = HARD_MAX_SHELL_TASKS_PER_SESSION"
    and "bt_get (sv_tasks s) i = Some e \<Longrightarrow> task_ok i (te_state e)"
  using assms by (simp_all add: shell_ok_def)

lemma shell_new_ok: "shell_new policy = Ok s \<Longrightarrow> shell_ok s"
  by (auto simp: shell_new_def bind_r_Ok shell_ok_def)

lemma send_cancel_simps [simp]:
  "te_state (send_cancel e) = te_state e" "te_cancel (send_cancel e)"
  "te_session_epoch (send_cancel e) = te_session_epoch e"
  "te_confirmed_epoch (send_cancel e) = te_confirmed_epoch e"
  "te_sequence (send_cancel e) = te_sequence e"
  by (simp_all add: send_cancel_def)

text \<open>Changes of the store that keep every task's state: cancelling and confirming.\<close>

lemma shell_ok_map:
  assumes "shell_ok s" and "\<And>e. te_state (f e) = te_state e"
  shows "shell_ok (s\<lparr>sv_tasks := bt_map_values f (sv_tasks s)\<rparr>)"
  using shell_okD [OF assms(1)] assms(2) by (intro shell_okI) auto

lemma shell_ok_update:
  assumes "shell_ok s" and "\<And>e. bt_get (sv_tasks s) i = Some e \<Longrightarrow> task_ok i (te_state (f e))"
  shows "shell_ok (s\<lparr>sv_tasks := bt_update i f (sv_tasks s)\<rparr>)"
  using shell_okD [OF assms(1)] assms(2) by (intro shell_okI) (auto split: if_splits)

lemma remove_task_ok: "shell_ok s \<Longrightarrow> bt_get (sv_tasks s) i \<noteq> None \<Longrightarrow> shell_ok (remove_task i s)"
  using shell_okD [of s] length_bt_remove [of "sv_tasks s" i]
  by (intro shell_okI) (auto simp: remove_task_def split: if_splits)

lemma prune_candidate_get:
  assumes "shell_ok s" and "prune_candidate s = Some i"
  obtains e where "bt_get (sv_tasks s) i = Some e" and "entry_terminal e"
proof -
  obtain e where e: "(i, e) \<in> set (sv_tasks s)" "entry_terminal e"
    using prune_candidate_Some [OF assms(2)] by blast
  show thesis using that [OF bt_wf_getD [OF shell_okD(1) [OF assms(1)] e(1)] e(2)] .
qed

lemma prune_ok: "shell_ok s \<Longrightarrow> shell_ok (prune_terminal_tasks s)"
proof (induction s rule: prune_terminal_tasks.induct)
  case (1 s)
  show ?case
  proof (cases "length (sv_tasks s) \<ge> HARD_MAX_SHELL_TASKS_PER_SESSION")
    case True
    show ?thesis
    proof (cases "prune_candidate s")
      case None
      then show ?thesis using 1(2) by (simp add: prune_terminal_tasks.simps)
    next
      case (Some i)
      then obtain e where "bt_get (sv_tasks s) i = Some e"
        using prune_candidate_get [OF 1(2)] by blast
      then have "shell_ok (remove_task i s)" using remove_task_ok [OF 1(2)] by simp
      then have "shell_ok (prune_terminal_tasks (remove_task i s))" using 1(1) True Some by simp
      then show ?thesis using True Some by (simp add: prune_terminal_tasks.simps [of s])
    qed
  next
    case False
    then show ?thesis using 1(2) by (simp add: prune_terminal_tasks.simps [of s])
  qed
qed

text \<open>Pruning keeps every task that still runs.\<close>

lemma prune_keeps_running:
  "shell_ok s \<Longrightarrow> bt_get (sv_tasks s) i = Some e \<Longrightarrow> \<not> entry_terminal e \<Longrightarrow>
     bt_get (sv_tasks (prune_terminal_tasks s)) i = Some e"
proof (induction s rule: prune_terminal_tasks.induct)
  case (1 s)
  show ?case
  proof (cases "length (sv_tasks s) \<ge> HARD_MAX_SHELL_TASKS_PER_SESSION \<and> prune_candidate s \<noteq> None")
    case True
    then obtain k where k: "prune_candidate s = Some k" by blast
    obtain e' where e': "bt_get (sv_tasks s) k = Some e'" "entry_terminal e'"
      using prune_candidate_get [OF 1(2) k] .
    then have "k \<noteq> i" using 1(3,4) by auto
    then have "bt_get (sv_tasks (prune_terminal_tasks (remove_task k s))) i = Some e"
      using 1 True k e' remove_task_ok [OF 1(2), of k] by (simp add: remove_task_def)
    then show ?thesis using True k by (simp add: prune_terminal_tasks.simps [of s])
  next
    case False
    then show ?thesis using 1(3) by (auto simp: prune_terminal_tasks.simps [of s])
  qed
qed


text \<open>After pruning there is room, unless 64 tasks run or are starting.\<close>

lemma prune_makes_room:
  "length (sv_tasks (prune_terminal_tasks s)) < HARD_MAX_SHELL_TASKS_PER_SESSION
   \<or> (\<forall>(i, e) \<in> set (sv_tasks (prune_terminal_tasks s)). \<not> entry_terminal e)"
proof (induction s rule: prune_terminal_tasks.induct)
  case (1 s)
  then show ?case
    using prune_candidate_None [of s]
    by (cases "prune_candidate s") (auto simp: prune_terminal_tasks.simps [of s])
qed

lemma acquire_permit_ok: "shell_ok s \<Longrightarrow> shell_ok (fst (acquire_permit s))"
  by (simp add: acquire_permit_def shell_ok_def)

lemma start_abandon_ok: "shell_ok s \<Longrightarrow> 0 < sv_starting s \<Longrightarrow> shell_ok (start_abandon s)"
  by (auto simp: start_abandon_def shell_ok_def)

lemma new_task_ok: "task_ok i (new_task i)"
  using ring_default by (auto simp: task_ok_def new_task_def)

lemma start_commit_ok:
  assumes "shell_ok s" and "0 < sv_starting s"
  shows "shell_ok (start_commit i s)"
  using assms new_task_ok length_bt_insert [OF shell_okD(1) [OF assms(1)], of i]
    shell_okD [OF assms(1)]
  by (intro shell_okI) (auto simp: start_commit_def Let_def split: if_splits)

lemma confirmed_task_state_ok: "shell_ok s \<Longrightarrow> shell_ok (fst (confirmed_task_state i s))"
  using shell_okD(3) [of s]
  by (auto simp: confirmed_task_state_def split: option.splits intro!: shell_ok_update)

lemma fst_shell_status: "fst (shell_status i s) = fst (confirmed_task_state i s)"
  by (simp add: shell_status_def split: prod.splits sum.splits)

lemma fst_shell_attach: "fst (shell_attach b i o1 o2 limit s) = fst (confirmed_task_state i s)"
  by (simp add: shell_attach_def split: prod.splits sum.splits)

lemma shell_cancel_ok: "shell_ok s \<Longrightarrow> shell_ok (fst (shell_cancel i s))"
  using shell_okD(3) [of s]
  by (auto simp: shell_cancel_def split: option.splits intro!: shell_ok_update)

lemma drain_ok:
  assumes "task_ok i t" and "has_room stream bs t"
  shows "task_ok i (drain stream bs t)"
proof -
  obtain o1 o2 where o: "ring_of o1 (ts_stdout t)" "ring_of o2 (ts_stderr t)"
    using assms(1) by (auto simp: task_ok_def)
  show ?thesis
  proof (cases stream)
    case Stdout
    have "ring_of (o1 @ bs) (retained_append bs (ts_stdout t))"
      using o assms(2) Stdout by (intro ring_append) (simp_all add: ring_of_def)
    then have "\<exists>out. ring_of out (retained_append bs (ts_stdout t))" ..
    then show ?thesis using assms(1) Stdout by (simp add: task_ok_def drain_def)
  next
    case Stderr
    have "ring_of (o2 @ bs) (retained_append bs (ts_stderr t))"
      using o assms(2) Stderr by (intro ring_append) (simp_all add: ring_of_def)
    then have "\<exists>out. ring_of out (retained_append bs (ts_stderr t))" ..
    then show ?thesis using assms(1) Stderr by (simp add: task_ok_def drain_def)
  qed
qed

lemma finish_child_ok: "task_ok i t \<Longrightarrow> task_ok i (finish_child how t)"
  by (cases how) (auto simp: task_ok_def finish_child_def)

lemma update_state_ok:
  assumes "shell_ok s" and "\<And>e. bt_get (sv_tasks s) i = Some e \<Longrightarrow> task_ok i (f (te_state e))"
  shows "shell_ok (update_state i f s)"
  using assms unfolding update_state_def by (intro shell_ok_update) auto

lemma shell_step_ok: "shell_step b pl fs s ev s' \<Longrightarrow> shell_ok s \<Longrightarrow> shell_ok s'"
proof (induction rule: shell_step.induct)
  case (session_in s)
  then show ?case by (simp add: attach_session_def shell_ok_def)
next
  case (session_out s handle now ep)
  have un: "shell_ok (cancel_unconfirmed_for_epoch ep s)"
    unfolding cancel_unconfirmed_for_epoch_def by (rule shell_ok_map [OF session_out]) simp
  show ?case
  proof (cases handle)
    case True
    then show ?thesis
      using un session_out by (simp add: drop_guard_def schedule_reconnect_grace_def) (simp add: shell_ok_def)
  next
    case False
    have "shell_ok (cancel_all_tasks (cancel_unconfirmed_for_epoch ep s))"
      unfolding cancel_all_tasks_def by (rule shell_ok_map [OF un]) simp
    then show ?thesis using False session_out by (simp add: drop_guard_def schedule_reconnect_grace_def)
  qed
next
  case (grace_waits k s reading)
  have g: "shell_ok (s\<lparr>sv_graces := gs\<rparr>)" for gs using grace_waits(3) by (simp add: shell_ok_def)
  show ?case
    unfolding grace_turn_def Let_def grace_expired_def
    using g shell_ok_map [OF g, of "\<lambda>e. if lapsed (gr_epoch (sv_graces s ! k)) e then send_cancel e else e"]
    by simp
next
  case (pruned s cwd)
  then show ?case by (simp add: prune_ok)
next
  case (drained s i e stream bs)
  then show ?case using shell_okD(3) by (auto intro!: update_state_ok drain_ok)
next
  case (ended s i e how)
  then show ?case using shell_okD(3) by (auto intro!: update_state_ok finish_child_ok)
qed (auto simp: acquire_permit_ok start_abandon_ok start_commit_ok fst_shell_status fst_shell_attach
    confirmed_task_state_ok shell_cancel_ok)

lemma shell_run_ok: "shell_run b pl fs s evs s' \<Longrightarrow> shell_ok s \<Longrightarrow> shell_ok s'"
  by (induction rule: shell_run.induct) (auto dest: shell_step_ok)

subsection \<open>Properties\<close>

text \<open>C33: Shell output is a window of everything the stream wrote: however the pipe's reads were
  cut, attaching at any offset never panics and returns exactly the bytes of the whole output
  from that offset on, clamped to its last 32 KiB, and says truthfully whether a prefix is lost.\<close>

theorem shell_output_window:
  fixes requested :: u64
  assumes "base64_ok b" and "length (concat blocks) < 2 ^ 64" and "limit \<le> 12288"
  defines "out \<equiv> concat blocks"
    and "start \<equiv> min (max (unat requested) (length (concat blocks) - 32768)) (length (concat blocks))"
  shows "\<exists>c. retained_chunk b requested limit (fold retained_append blocks retained_default) = Some c
    \<and> output_chunk_decode b c = Ok (take limit (drop start out))
    \<and> unat (oc_start_offset c) = start
    \<and> (oc_lost_prefix c \<longleftrightarrow> unat requested < length out - 32768)"
proof -
  let ?r = "fold retained_append blocks retained_default"
  have r: "ring_of out ?r" unfolding out_def using assms(2) by (rule ring_appends)
  from ring_chunk [OF r assms(1,3), of requested] obtain c where
    c: "retained_chunk b requested limit ?r = Some c" "chunk_bytes b c (take limit (drop start out))"
    "unat (oc_start_offset c) = start" "oc_requested_offset c = requested"
    "oc_retained_base c = base_offset ?r"
    unfolding start_def out_def by blast
  have "oc_lost_prefix c \<longleftrightarrow> unat requested < length out - 32768"
    using c r by (simp add: chunk_bytes_def ring_of_def word_less_nat_alt)
  then show ?thesis using c by (intro exI [of _ c]) (simp add: output_chunk_decode_Ok)
qed

lemma attach_reply:
  assumes "shell_ok s" and "base64_ok b" and "limit \<le> 12288"
  shows "\<exists>reply. snd (shell_attach b i o1 o2 limit s) = Some reply \<and> shell_reply_ok b reply"
proof (cases "bt_get (sv_tasks s) i")
  case None
  then show ?thesis
    by (simp add: shell_attach_def confirmed_task_state_def shell_reply_ok_def sh_error_def Let_def)
next
  case (Some e)
  let ?t = "te_state e"
  obtain out1 out2 where r: "ring_of out1 (ts_stdout ?t)" "ring_of out2 (ts_stderr ?t)"
    using shell_okD(3) [OF assms(1) Some] by (auto simp: task_ok_def)
  obtain c1 c2 d1 d2 where c: "retained_chunk b o1 limit (ts_stdout ?t) = Some c1" "chunk_bytes b c1 d1"
    "retained_chunk b o2 limit (ts_stderr ?t) = Some c2" "chunk_bytes b c2 d2"
    using ring_chunk [OF r(1) assms(2,3)] ring_chunk [OF r(2) assms(2,3)] by metis
  have st: "base_offset (ts_stdout ?t) \<le> next_offset (ts_stdout ?t)"
    "base_offset (ts_stderr ?t) \<le> next_offset (ts_stderr ?t)"
    using r by (simp_all add: ring_of_def word_le_nat_alt)
  have "shell_reply_ok b (ShrOutput \<lparr>sto_status = task_status ?t, sto_stdout = c1, sto_stderr = c2\<rparr>)"
    using c st by (auto simp: shell_reply_ok_def Let_def task_status_def)
  then show ?thesis using Some c by (simp add: shell_attach_def confirmed_task_state_def)
qed

lemma reserve_refused:
  assumes "shell_ok s" and "canonical_allowed_cwd pl fs (sv_policy s) cwd = Some dir"
    and "\<not> is_ok (snd (start_reserve pl fs cwd s))"
  shows "0 < sv_starting (prune_terminal_tasks s)
    \<or> (length (sv_tasks (prune_terminal_tasks s)) = HARD_MAX_SHELL_TASKS_PER_SESSION
       \<and> (\<forall>(i, e) \<in> set (sv_tasks (prune_terminal_tasks s)). \<not> entry_terminal e))"
proof -
  let ?s1 = "prune_terminal_tasks s"
  have "sv_permits ?s1 = 0"
    using assms(3) by (auto simp: start_reserve_allowed [OF assms(2)] Let_def split: if_splits)
  then have "length (sv_tasks ?s1) + sv_starting ?s1 = HARD_MAX_SHELL_TASKS_PER_SESSION"
    using shell_okD(2) [OF prune_ok [OF assms(1)]] by simp
  then show ?thesis using prune_makes_room [of s] by auto
qed

text \<open>C32: The shell service stays bounded and truthful: whatever requests, processes and sessions
  interleave, at most 64 tasks exist or are starting, attaching never panics and its reply always
  passes the protocol's own validation, an exit code is only shown for a process that exited,
  and a permitted start is refused only while 64 tasks run or another start is in progress.\<close>

theorem shell_service_run:
  assumes "shell_new policy = Ok s0" and "shell_run b pl fs s0 evs s" and "base64_ok b"
    and "limit \<le> 12288"
  shows "length (sv_tasks s) + sv_starting s \<le> 64
    \<and> (\<exists>reply. snd (shell_attach b i o1 o2 limit s) = Some reply \<and> shell_reply_ok b reply)
    \<and> (\<forall>k e. bt_get (sv_tasks s) k = Some e \<longrightarrow> ts_exit_code (te_state e) \<noteq> None \<longrightarrow>
         ts_phase (te_state e) = Exited)
    \<and> (canonical_allowed_cwd pl fs (sv_policy s) cwd \<noteq> None \<longrightarrow>
         \<not> is_ok (snd (start_reserve pl fs cwd s)) \<longrightarrow>
         0 < sv_starting (prune_terminal_tasks s)
         \<or> length (filter (\<lambda>(_, e). \<not> entry_terminal e) (sv_tasks (prune_terminal_tasks s))) = 64)"
proof -
  have ok: "shell_ok s" using shell_run_ok [OF assms(2) shell_new_ok [OF assms(1)]] .
  have "length (sv_tasks s) + sv_starting s \<le> 64"
    using shell_okD(2) [OF ok] by (simp add: bounds_simps)
  moreover have "ts_phase (te_state e) = Exited"
    if "bt_get (sv_tasks s) k = Some e" "ts_exit_code (te_state e) \<noteq> None" for k e
    using shell_okD(3) [OF ok that(1)] that(2) by (simp add: task_ok_def)
  moreover have "0 < sv_starting (prune_terminal_tasks s)
      \<or> length (filter (\<lambda>(_, e). \<not> entry_terminal e) (sv_tasks (prune_terminal_tasks s))) = 64"
    if "canonical_allowed_cwd pl fs (sv_policy s) cwd = Some dir"
      "\<not> is_ok (snd (start_reserve pl fs cwd s))" for dir
  proof -
    have "length (filter (\<lambda>(_, e). \<not> entry_terminal e) m) = length m"
      if "\<forall>(k, e) \<in> set m. \<not> entry_terminal e" for m :: "(task_id, task_entry) btree"
      using that by (simp add: filter_True)
    then show ?thesis using reserve_refused [OF ok that] by (auto simp: bounds_simps)
  qed
  ultimately show ?thesis using attach_reply [OF ok assms(3,4)] by blast
qed

text \<open>C31: A shell runs only where and when it may: the reply says a task has started exactly when
  the grant has the shell permission, the request is valid, a permit is free after pruning, and the
  process was spawned in the canonical form of the directory the request names, which lies under a
  signed root unless the policy covers the whole file system. The new task then holds the permit.\<close>

theorem shell_start_confined:
  fixes s pl fs b spawn fresh command cwd env t allow_shell
  defines "answer \<equiv> shell_execute b pl fs spawn fresh (ShStart command cwd env t) allow_shell s"
  shows "(snd answer = Some (ShrStarted i) \<longleftrightarrow>
      i = fresh \<and> allow_shell \<and> shell_request_ok (ShStart command cwd env t)
      \<and> 0 < sv_permits (prune_terminal_tasks s)
      \<and> (\<exists>p dir. expand_target_path pl (fs_env_var fs) cwd = Ok p \<and> pl_is_absolute pl p
        \<and> fs_canonicalize fs p = Some dir \<and> fs_is_dir fs dir = Some True
        \<and> spawn command dir env = Spawned
        \<and> (all_filesystem (sv_policy s) \<or> (\<exists>root \<in> set (roots (sv_policy s)). \<exists>r croot.
             expand_target_path pl (fs_env_var fs) root = Ok r \<and> fs_canonicalize fs r = Some croot
             \<and> path_starts_with pl dir croot))))
    \<and> (snd answer = Some (ShrStarted i) \<longrightarrow> bt_get (sv_tasks (prune_terminal_tasks s)) i = None \<longrightarrow>
        map_option te_state (bt_get (sv_tasks (fst answer)) i) = Some (new_task i)
        \<and> sv_permits (fst answer) + 1 = sv_permits (prune_terminal_tasks s))"
proof (cases "sh_request_validate (ShStart command cwd env t) = Ok () \<and> allow_shell")
  case False
  then show ?thesis
    by (auto simp: answer_def shell_execute_def is_ok_unit sh_error_def sh_request_validate_Ok)
next
  case True
  then have ex: "answer = (case shell_start pl fs spawn fresh command cwd env s of (s', r) \<Rightarrow> (s', Some r))"
    by (simp add: answer_def shell_execute_def is_ok_unit)
  show ?thesis
  proof (cases "canonical_allowed_cwd pl fs (sv_policy s) cwd")
    case None
    then have no: "\<not> (expand_target_path pl (fs_env_var fs) cwd = Ok p \<and> pl_is_absolute pl p
        \<and> fs_canonicalize fs p = Some dir \<and> fs_is_dir fs dir = Some True
        \<and> (all_filesystem (sv_policy s) \<or> under_some_root pl fs (roots (sv_policy s)) dir))" for p dir
      using canonical_allowed_cwd_Some [of pl fs "sv_policy s" cwd dir] by auto
    have "snd answer \<noteq> Some (ShrStarted i)"
      using None by (simp add: ex shell_start_def start_reserve_def sh_error_def)
    then show ?thesis using no by (auto simp: under_some_root_iff)
  next
    case (Some dir)
    then have "(\<exists>p. expand_target_path pl (fs_env_var fs) cwd = Ok p \<and> pl_is_absolute pl p
        \<and> fs_canonicalize fs p = Some dir' \<and> fs_is_dir fs dir' = Some True
        \<and> (all_filesystem (sv_policy s) \<or> under_some_root pl fs (roots (sv_policy s)) dir'))
        \<longleftrightarrow> dir' = dir" for dir'
      using canonical_allowed_cwd_Some [of pl fs "sv_policy s" cwd dir'] by auto
    then have d: "(\<exists>p dir'. expand_target_path pl (fs_env_var fs) cwd = Ok p \<and> pl_is_absolute pl p
        \<and> fs_canonicalize fs p = Some dir' \<and> fs_is_dir fs dir' = Some True
        \<and> spawn command dir' env = Spawned
        \<and> (all_filesystem (sv_policy s) \<or> under_some_root pl fs (roots (sv_policy s)) dir'))
        \<longleftrightarrow> spawn command dir env = Spawned" by metis
    show ?thesis
      using True Some d [unfolded under_some_root_iff]
      by (cases "spawn command dir env")
        (auto simp: ex shell_start_def start_reserve_allowed Let_def sh_error_def sh_request_validate_Ok
          start_commit_def)
  qed
qed

subsection \<open>Sessions and the reconnect grace\<close>




lemma bt_get_grace:
  "bt_get (sv_tasks (grace_expired ep s)) i =
     map_option (\<lambda>e. if lapsed ep e then send_cancel e else e) (bt_get (sv_tasks s) i)"
  by (simp add: grace_expired_def)





lemma prune_epoch [simp]:
  "sv_epoch (prune_terminal_tasks s) = sv_epoch s \<and> sv_graces (prune_terminal_tasks s) = sv_graces s"
proof (induction s rule: prune_terminal_tasks.induct)
  case (1 s)
  then show ?case
    by (auto simp: prune_terminal_tasks.simps [of s] remove_task_def split: option.split)
qed

lemma confirmed_task_state_epoch [simp]:
  "sv_epoch (fst (confirmed_task_state i s)) = sv_epoch s"
  "sv_graces (fst (confirmed_task_state i s)) = sv_graces s"
  by (simp_all add: confirmed_task_state_def split: option.split)


















subsection \<open>Witnesses\<close>

lemma shell_output_window_witness:
  "\<exists>c. retained_chunk toy_b64 1 2 (fold retained_append [[7, 8], [9, 10]] retained_default) = Some c
     \<and> output_chunk_decode toy_b64 c = Ok [8, 9]"
  using shell_output_window [OF toy_b64_ok, of "[[7, 8], [9, 10]]" 2 1] by auto

definition toy_policy :: read_policy where
  "toy_policy = \<lparr>all_filesystem = True, roots = [], max_result_bytes = 9, rp_timeout_ms = 9\<rparr>"

definition toy_fs :: host_fs where
  "toy_fs = \<lparr>fs_canonicalize = Some, fs_is_dir = \<lambda>_. Some True, fs_env_var = \<lambda>_. None\<rparr>"

lemma toy_policy_ok: "policy_validate toy_policy = Ok ()"
  by (simp add: policy_validate_Ok policy_spec_def toy_policy_def)

lemma toy_cwd: "canonical_allowed_cwd unix_platform toy_fs toy_policy ''/tmp'' = Some ''/tmp''"
  by (simp add: canonical_allowed_cwd_def expand_target_path_def expand_target_path_with_home_def
      expand_shorthand_def strip_prefix_def str_starts_with_def unix_platform_def toy_fs_def
      toy_policy_def is_absolute_def ascii_defs bounds_simps)

definition toy_shell :: shell_service where
  "toy_shell = \<lparr>sv_policy = toy_policy, sv_tasks = [], sv_next_sequence = 0, sv_permits = 64,
     sv_starting = 0, sv_epoch = 0, sv_graces = []\<rparr>"

lemma toy_shell_new: "shell_new toy_policy = Ok toy_shell"
  using toy_policy_ok by (simp add: shell_new_def toy_shell_def bounds_simps)

lemma toy_shell_prune: "prune_terminal_tasks (toy_shell\<lparr>sv_epoch := ep\<rparr>) = toy_shell\<lparr>sv_epoch := ep\<rparr>"
  by (simp add: prune_terminal_tasks.simps toy_shell_def bounds_simps)

lemma toy_shell_prune0: "prune_terminal_tasks toy_shell = toy_shell"
  by (simp add: prune_terminal_tasks.simps toy_shell_def bounds_simps)

lemma toy_acquire: "fst (acquire_permit (toy_shell\<lparr>sv_epoch := ep\<rparr>)) = toy_shell\<lparr>sv_permits := 63, sv_starting := 1, sv_epoch := ep\<rparr>"
  by (simp add: acquire_permit_def toy_shell_def)

lemma toy_start_run: "shell_run toy_b64 unix_platform toy_fs (toy_shell\<lparr>sv_epoch := ep\<rparr>) [EvPrune ''/tmp'', EvAcquire, EvCommit 5]
    (start_commit 5 (toy_shell\<lparr>sv_permits := 63, sv_starting := 1, sv_epoch := ep\<rparr>))"
proof -
  have "canonical_allowed_cwd unix_platform toy_fs (sv_policy (toy_shell\<lparr>sv_epoch := ep\<rparr>)) ''/tmp'' \<noteq> None"
    using toy_cwd by (simp add: toy_shell_def)
  from pruned [OF this] show ?thesis
    using acquired [of toy_b64 unix_platform toy_fs "toy_shell\<lparr>sv_epoch := ep\<rparr>"] toy_acquire [of ep] toy_shell_prune [of ep]
    by (intro run_cons [OF _ run_cons [OF _ run_cons [OF committed run_nil]]]) auto
qed

lemma shell_service_run_witness:
  "\<exists>s reply. shell_run toy_b64 unix_platform toy_fs toy_shell [EvPrune ''/tmp'', EvAcquire, EvCommit 5] s
     \<and> length (sv_tasks s) = 1 \<and> snd (shell_attach toy_b64 5 0 0 9 s) = Some reply
     \<and> shell_reply_ok toy_b64 reply"
proof -
  let ?s2 = "start_commit 5 (toy_shell\<lparr>sv_permits := 63, sv_starting := 1, sv_epoch := 0\<rparr>)"
  have "toy_shell\<lparr>sv_epoch := 0\<rparr> = toy_shell" by (simp add: toy_shell_def)
  then have run: "shell_run toy_b64 unix_platform toy_fs toy_shell [EvPrune ''/tmp'', EvAcquire, EvCommit 5] ?s2"
    using toy_start_run [of 0] by simp
  have one: "length (sv_tasks ?s2) = 1"
    by (simp add: start_commit_def Let_def) (simp add: toy_shell_def)
  have "\<exists>reply. snd (shell_attach toy_b64 5 0 0 9 ?s2) = Some reply \<and> shell_reply_ok toy_b64 reply"
    using shell_service_run [OF toy_shell_new run toy_b64_ok, of 9 5 0 0 "[]"] by simp
  then show ?thesis using run one by blast
qed

lemma shell_start_confined_witness:
  "snd (shell_execute toy_b64 unix_platform toy_fs (\<lambda>c d e. Spawned) 5 (ShStart ''ls'' ''/tmp'' [] 9) True toy_shell)
     = Some (ShrStarted 5)
   \<and> snd (shell_execute toy_b64 unix_platform toy_fs (\<lambda>c d e. Spawned) 5 (ShStart ''ls'' ''/tmp'' [] 9) True
       (toy_shell\<lparr>sv_permits := 0\<rparr>)) \<noteq> Some (ShrStarted 5)"
proof -
  have v: "shell_request_ok (ShStart ''ls'' ''/tmp'' [] 9)"
    by (simp add: shell_request_ok_def shell_path_ok_def trim_def ascii_defs env_ok_def env_bytes_def)
  have c: "canonical_allowed_cwd unix_platform toy_fs (sv_policy toy_shell) ''/tmp'' = Some ''/tmp''"
    using toy_cwd by (simp add: toy_shell_def)
  obtain p where p: "expand_target_path unix_platform (fs_env_var toy_fs) ''/tmp'' = Ok p" "pl_is_absolute unix_platform p"
    "fs_canonicalize toy_fs p = Some ''/tmp''" "fs_is_dir toy_fs ''/tmp'' = Some True"
    using c [unfolded canonical_allowed_cwd_Some] by blast
  have a: "all_filesystem (sv_policy toy_shell)" "0 < sv_permits toy_shell"
    by (simp_all add: toy_shell_def toy_policy_def)
  have full: "prune_terminal_tasks (toy_shell\<lparr>sv_permits := 0\<rparr>) = toy_shell\<lparr>sv_permits := 0\<rparr>"
    by (simp add: prune_terminal_tasks.simps toy_shell_def bounds_simps)
  show ?thesis
    using shell_start_confined [of toy_b64 unix_platform toy_fs "\<lambda>c d e. Spawned" 5 "''ls''" "''/tmp''" "[]" 9 True toy_shell 5]
      shell_start_confined [of toy_b64 unix_platform toy_fs "\<lambda>c d e. Spawned" 5 "''ls''" "''/tmp''" "[]" 9 True
        "toy_shell\<lparr>sv_permits := 0\<rparr>" 5] v p a full
    by (simp add: toy_shell_prune0)
qed


end
