(* ===== verification/Directory_Tree.thy ===== *)
theory Directory_Tree
  imports File_Transfer "HOL-Library.Multiset"
begin

section \<open>Directory trees (clew-transport, directory_tree.rs)\<close>

text \<open>
  The manifest of a directory transfer, its requests and replies. A manifest lists files and
  directories by relative path; validation goes through the list once, with the paths seen so
  far in a map. The lemmas show that what it accepts is exactly the sorted listing of a
  directory tree: every ancestor of every entry is listed as a directory, and no path leaves the
  root. Requests and replies are interpretations of \<open>message_codec\<close>.
\<close>

definition DIRECTORY_TREE_MANIFEST_VERSION :: u32 where "DIRECTORY_TREE_MANIFEST_VERSION = 1"
definition MAX_DIRECTORY_TREE_MANIFEST_BYTES :: nat where
  [bounds_simps]: "MAX_DIRECTORY_TREE_MANIFEST_BYTES = 48 * 1024"
definition MAX_DIRECTORY_TREE_ENTRIES :: nat where
  [bounds_simps]: "MAX_DIRECTORY_TREE_ENTRIES = 256"
definition MAX_DIRECTORY_RELATIVE_PATH_BYTES :: nat where
  [bounds_simps]: "MAX_DIRECTORY_RELATIVE_PATH_BYTES = 1024"
definition MAX_DIRECTORY_DEPTH :: nat where [bounds_simps]: "MAX_DIRECTORY_DEPTH = 64"
definition MAX_DIRECTORY_FILE_BYTES :: u64 where
  "MAX_DIRECTORY_FILE_BYTES = push_bit 40 1"
definition MAX_DIRECTORY_TOTAL_BYTES :: u64 where
  "MAX_DIRECTORY_TOTAL_BYTES = push_bit 40 4"
definition MAX_DIRECTORY_TREE_RPC_PAYLOAD_BYTES :: nat where
  [bounds_simps]: "MAX_DIRECTORY_TREE_RPC_PAYLOAD_BYTES = 52 * 1024"
definition MAX_DIRECTORY_TREE_ERROR_MESSAGE_BYTES :: nat where
  [bounds_simps]: "MAX_DIRECTORY_TREE_ERROR_MESSAGE_BYTES = 512"

datatype directory_conflict_policy = DirFailIfExists

datatype directory_tree_entry_kind = DtkDirectory | DtkFile

record directory_tree_entry =
  dte_relative_path :: string
  dte_kind :: directory_tree_entry_kind
  dte_size :: u64
  dte_sha256 :: "string option"

record directory_tree_manifest =
  dtm_version :: u32
  dtm_transfer_id :: transfer_id
  dtm_controller_id :: controller_id
  dtm_site_id :: site_id
  dtm_device_id :: device_id
  dtm_direction :: file_transfer_direction
  dtm_device_root :: string
  dtm_entries :: "directory_tree_entry list"
  dtm_total_file_bytes :: u64
  dtm_device_conflict_policy :: "directory_conflict_policy option"

datatype directory_tree_error =
    DtUnsupportedVersion u32
  | DtInvalidDeviceRoot
  | DtInvalidRelativePath string
  | DtDepthExceeded usize
  | DtTooManyEntries usize
  | DtInvalidDirectoryEntry
  | DtMissingFileSha256
  | DtInvalidSha256
  | DtEmptyFileHashMismatch
  | DtFileTooLarge u64
  | DtTotalBytesOverflow
  | DtTreeTooLarge u64
  | DtTotalBytesMismatch u64 u64
  | DtEntriesNotStrictlySorted
  | DtDuplicatePath string
  | DtMissingParent string
  | DtParentIsFile string
  | DtMissingDeviceConflictPolicy
  | DtControllerPrivateConflictPolicyLeaked
  | DtInvalidPutRequest
  | DtInvalidGetRequest
  | DtRpcPayloadTooLarge usize
  | DtUnexpectedMessageKind string
  | DtErrorMessageTooLarge
  | DtManifestTooLarge usize
  | DtInner inner_error
  | DtJson json_error

subsection \<open>Entries\<close>

definition dt_validate_device_root :: "string \<Rightarrow> (directory_tree_error, unit) result" where
  "dt_validate_device_root root =
     (if trim root = [] \<or> length root > MAX_FILE_RESUME_PATH_BYTES \<or> CHR 0x00 \<in> set root
      then Err DtInvalidDeviceRoot else Ok ())"

definition segment_step ::
    "string \<Rightarrow> string \<Rightarrow> usize \<Rightarrow> (directory_tree_error, usize) result" where
  "segment_step path segment depth =
     (if segment = [] \<or> segment = ''.'' \<or> segment = ''..''
      then Err (DtInvalidRelativePath path)
      else if depth + 1 > MAX_DIRECTORY_DEPTH then Err (DtDepthExceeded (depth + 1))
      else Ok (depth + 1))"

definition validate_relative_path :: "string \<Rightarrow> (directory_tree_error, unit) result" where
  "validate_relative_path path =
     (if path = [] \<or> length path > MAX_DIRECTORY_RELATIVE_PATH_BYTES
         \<or> hd path = CHR ''/'' \<or> List.last path = CHR ''/''
         \<or> CHR 0x5C \<in> set path \<or> CHR '':'' \<in> set path \<or> CHR 0x00 \<in> set path
      then Err (DtInvalidRelativePath path)
      else bind_r (fold_r (segment_step path) (split_at CHR ''/'' path) 0) (\<lambda>_. Ok ()))"

definition relative_parent :: "string \<Rightarrow> string option" where
  "relative_parent path = map_option fst (rsplit_once CHR ''/'' path)"

definition dt_validate_sha256 :: "string \<Rightarrow> (directory_tree_error, unit) result" where
  "dt_validate_sha256 value =
     (if length value \<noteq> 64 \<or> \<not> list_all (\<lambda>c. is_ascii_digit c \<or> in_range 97 102 c) value
      then Err DtInvalidSha256 else Ok ())"

definition dt_entry_validate :: "directory_tree_entry \<Rightarrow> (directory_tree_error, unit) result" where
  "dt_entry_validate e =
     bind_r (validate_relative_path (dte_relative_path e)) (\<lambda>_.
       case dte_kind e of
         DtkDirectory \<Rightarrow>
           (if dte_size e \<noteq> 0 \<or> dte_sha256 e \<noteq> None then Err DtInvalidDirectoryEntry else Ok ())
       | DtkFile \<Rightarrow>
           (if dte_size e > MAX_DIRECTORY_FILE_BYTES then Err (DtFileTooLarge (dte_size e))
            else bind_r (ok_or (dte_sha256 e) DtMissingFileSha256) (\<lambda>sha256.
                 bind_r (dt_validate_sha256 sha256) (\<lambda>_.
                   if dte_size e = 0 \<and> sha256 \<noteq> EMPTY_SHA256_HEX
                   then Err DtEmptyFileHashMismatch else Ok ()))))"

definition dt_entry_directory :: "string \<Rightarrow> (directory_tree_error, directory_tree_entry) result" where
  "dt_entry_directory path =
     (let e = \<lparr>dte_relative_path = path, dte_kind = DtkDirectory, dte_size = 0, dte_sha256 = None\<rparr> in
      bind_r (dt_entry_validate e) (\<lambda>_. Ok e))"

definition dt_entry_file ::
    "string \<Rightarrow> u64 \<Rightarrow> string \<Rightarrow> (directory_tree_error, directory_tree_entry) result" where
  "dt_entry_file path bytes sha256 =
     (let e = \<lparr>dte_relative_path = path, dte_kind = DtkFile, dte_size = bytes,
               dte_sha256 = Some sha256\<rparr> in
      bind_r (dt_entry_validate e) (\<lambda>_. Ok e))"

definition total_step ::
    "directory_tree_entry \<Rightarrow> u64 \<Rightarrow> (directory_tree_error, u64) result" where
  "total_step e t =
     (if dte_kind e = DtkFile then
        (if dte_size e > MAX_DIRECTORY_FILE_BYTES then Err (DtFileTooLarge (dte_size e))
         else bind_r (ok_or (checked_add t (dte_size e)) DtTotalBytesOverflow) (\<lambda>t'.
           if t' > MAX_DIRECTORY_TOTAL_BYTES then Err (DtTreeTooLarge t') else Ok t'))
      else Ok t)"

definition checked_total_file_bytes ::
    "directory_tree_entry list \<Rightarrow> (directory_tree_error, u64) result" where
  "checked_total_file_bytes es = fold_r total_step es 0"

subsection \<open>Manifests\<close>

text \<open>One round of the loop over the entries; the state is \<^verbatim>\<open>by_path\<close> and \<^verbatim>\<open>previous\<close>.\<close>

type_synonym tree_scan = "(string, directory_tree_entry_kind) btree \<times> string option"

definition parent_check ::
    "(string, directory_tree_entry_kind) btree \<Rightarrow> string \<Rightarrow> (directory_tree_error, unit) result" where
  "parent_check by_path path =
     (case relative_parent path of
        None \<Rightarrow> Ok ()
      | Some parent \<Rightarrow>
          (case bt_get by_path parent of
             Some DtkDirectory \<Rightarrow> Ok ()
           | Some DtkFile \<Rightarrow> Err (DtParentIsFile parent)
           | None \<Rightarrow> Err (DtMissingParent parent)))"

definition entry_step ::
    "directory_tree_entry \<Rightarrow> tree_scan \<Rightarrow> (directory_tree_error, tree_scan) result" where
  "entry_step e st =
     (case st of (by_path, previous) \<Rightarrow>
       bind_r (dt_entry_validate e) (\<lambda>_.
         let path = dte_relative_path e; by_path' = bt_insert path (dte_kind e) by_path in
         if bt_get by_path path \<noteq> None then Err (DtDuplicatePath path)
         else if (case previous of None \<Rightarrow> False | Some v \<Rightarrow> path \<le> v)
         then Err DtEntriesNotStrictlySorted
         else bind_r (parent_check by_path' path) (\<lambda>_. Ok (by_path', Some path))))"

definition conflict_policy_check ::
    "file_transfer_direction \<Rightarrow> directory_conflict_policy option
     \<Rightarrow> (directory_tree_error, unit) result" where
  "conflict_policy_check direction policy =
     (case (direction, policy) of
        (ControllerToDevice, Some DirFailIfExists) \<Rightarrow> Ok ()
      | (DeviceToController, None) \<Rightarrow> Ok ()
      | (ControllerToDevice, None) \<Rightarrow> Err DtMissingDeviceConflictPolicy
      | (DeviceToController, Some _) \<Rightarrow> Err DtControllerPrivateConflictPolicyLeaked)"

definition dt_manifest_validate ::
    "directory_tree_manifest \<Rightarrow> (directory_tree_error, unit) result" where
  "dt_manifest_validate m =
     (if dtm_version m \<noteq> DIRECTORY_TREE_MANIFEST_VERSION
      then Err (DtUnsupportedVersion (dtm_version m))
      else bind_r (dt_validate_device_root (dtm_device_root m)) (\<lambda>_.
        if length (dtm_entries m) > MAX_DIRECTORY_TREE_ENTRIES
        then Err (DtTooManyEntries (length (dtm_entries m)))
        else bind_r (conflict_policy_check (dtm_direction m) (dtm_device_conflict_policy m)) (\<lambda>_.
             bind_r (fold_r entry_step (dtm_entries m) ([], None)) (\<lambda>_.
             bind_r (checked_total_file_bytes (dtm_entries m)) (\<lambda>actual_total.
               if actual_total \<noteq> dtm_total_file_bytes m
               then Err (DtTotalBytesMismatch (dtm_total_file_bytes m) actual_total)
               else Ok ())))))"

definition dt_manifest_new ::
    "transfer_id \<Rightarrow> controller_id \<Rightarrow> site_id \<Rightarrow> device_id \<Rightarrow> file_transfer_direction \<Rightarrow> string
     \<Rightarrow> directory_tree_entry list \<Rightarrow> directory_conflict_policy option
     \<Rightarrow> (directory_tree_error, directory_tree_manifest) result" where
  "dt_manifest_new tid cid sid did direction root entries policy =
     (let sorted_entries = sort_key dte_relative_path entries in
      bind_r (checked_total_file_bytes sorted_entries) (\<lambda>total_bytes.
        let m = \<lparr>dtm_version = DIRECTORY_TREE_MANIFEST_VERSION, dtm_transfer_id = tid,
                 dtm_controller_id = cid, dtm_site_id = sid, dtm_device_id = did,
                 dtm_direction = direction, dtm_device_root = root,
                 dtm_entries = sorted_entries, dtm_total_file_bytes = total_bytes,
                 dtm_device_conflict_policy = policy\<rparr> in
        bind_r (dt_manifest_validate m) (\<lambda>_. Ok m)))"

definition dt_manifest_encode ::
    "directory_tree_manifest serde \<Rightarrow> directory_tree_manifest \<Rightarrow> (directory_tree_error, bytes) result" where
  "dt_manifest_encode j m =
     bind_r (dt_manifest_validate m) (\<lambda>_.
     bind_r (map_err DtJson (to_vec j m)) (\<lambda>encoded.
       if length encoded > MAX_DIRECTORY_TREE_MANIFEST_BYTES
       then Err (DtManifestTooLarge (length encoded)) else Ok encoded))"

definition dt_manifest_decode ::
    "directory_tree_manifest serde \<Rightarrow> bytes \<Rightarrow> (directory_tree_error, directory_tree_manifest) result" where
  "dt_manifest_decode j encoded =
     (if length encoded > MAX_DIRECTORY_TREE_MANIFEST_BYTES
      then Err (DtManifestTooLarge (length encoded))
      else bind_r (map_err DtJson (from_slice j encoded)) (\<lambda>m.
        bind_r (dt_manifest_validate m) (\<lambda>_. Ok m)))"

subsection \<open>Requests and replies\<close>

record directory_tree_get_scope =
  dgs_transfer_id :: transfer_id
  dgs_controller_id :: controller_id
  dgs_site_id :: site_id
  dgs_device_id :: device_id
  dgs_device_root :: string

definition dt_scope_validate :: "directory_tree_get_scope \<Rightarrow> (directory_tree_error, unit) result" where
  "dt_scope_validate s = dt_validate_device_root (dgs_device_root s)"

definition dt_scope_new ::
    "transfer_id \<Rightarrow> controller_id \<Rightarrow> site_id \<Rightarrow> device_id \<Rightarrow> string
     \<Rightarrow> (directory_tree_error, directory_tree_get_scope) result" where
  "dt_scope_new tid cid sid did root =
     (let s = \<lparr>dgs_transfer_id = tid, dgs_controller_id = cid, dgs_site_id = sid,
               dgs_device_id = did, dgs_device_root = root\<rparr> in
      bind_r (dt_scope_validate s) (\<lambda>_. Ok s))"

datatype directory_tree_request =
    DtPreparePut directory_tree_manifest
  | DtFinalizePut directory_tree_manifest
  | DtCancelPut directory_tree_manifest
  | DtPrepareGet directory_tree_get_scope
  | DtFinalizeGet directory_tree_manifest

definition put_manifest_validate ::
    "directory_tree_manifest \<Rightarrow> (directory_tree_error, unit) result" where
  "put_manifest_validate m =
     bind_r (dt_manifest_validate m) (\<lambda>_.
       if dtm_direction m \<noteq> ControllerToDevice \<or> dtm_device_conflict_policy m \<noteq> Some DirFailIfExists
       then Err DtInvalidPutRequest else Ok ())"

definition get_manifest_validate ::
    "directory_tree_manifest \<Rightarrow> (directory_tree_error, unit) result" where
  "get_manifest_validate m =
     bind_r (dt_manifest_validate m) (\<lambda>_.
       if dtm_direction m \<noteq> DeviceToController \<or> dtm_device_conflict_policy m \<noteq> None
       then Err DtInvalidGetRequest else Ok ())"

definition dt_request_validate ::
    "directory_tree_request \<Rightarrow> (directory_tree_error, unit) result" where
  "dt_request_validate r =
     (case r of
        DtPreparePut m \<Rightarrow> put_manifest_validate m
      | DtFinalizePut m \<Rightarrow> put_manifest_validate m
      | DtCancelPut m \<Rightarrow> put_manifest_validate m
      | DtPrepareGet s \<Rightarrow> dt_scope_validate s
      | DtFinalizeGet m \<Rightarrow> get_manifest_validate m)"

definition dt_request_into_message ::
    "directory_tree_request serde \<Rightarrow> directory_tree_request
     \<Rightarrow> (directory_tree_error, inner_message) result" where
  "dt_request_into_message j r =
     bind_r (dt_request_validate r) (\<lambda>_.
     bind_r (map_err DtJson (to_vec j r)) (\<lambda>payload.
       if length payload > MAX_DIRECTORY_TREE_RPC_PAYLOAD_BYTES
       then Err (DtRpcPayloadTooLarge (length payload))
       else map_err DtInner (inner_message_new ''directory_tree'' payload)))"

definition dt_request_from_message ::
    "directory_tree_request serde \<Rightarrow> inner_message
     \<Rightarrow> (directory_tree_error, directory_tree_request) result" where
  "dt_request_from_message j m =
     (if im_kind m \<noteq> ''directory_tree'' then Err (DtUnexpectedMessageKind (im_kind m))
      else if length (im_payload m) > MAX_DIRECTORY_TREE_RPC_PAYLOAD_BYTES
      then Err (DtRpcPayloadTooLarge (length (im_payload m)))
      else bind_r (map_err DtJson (from_slice j (im_payload m))) (\<lambda>r.
        bind_r (dt_request_validate r) (\<lambda>_. Ok r)))"

datatype directory_tree_error_code =
    DtcInvalidRequest | DtcDenied | DtcConflict | DtcNotFound | DtcHashMismatch | DtcIo

record directory_tree_error_body =
  deb_code :: directory_tree_error_code
  deb_message :: string

datatype directory_tree_reply =
    DtrPrepared transfer_id string
  | DtrManifest directory_tree_manifest
  | DtrVerified transfer_id string
  | DtrCompleted transfer_id string
  | DtrCancelled transfer_id
  | DtrError directory_tree_error_body

definition dt_reply_error :: "directory_tree_error_code \<Rightarrow> string \<Rightarrow> directory_tree_reply option" where
  "dt_reply_error c message =
     map_option (\<lambda>m. DtrError \<lparr>deb_code = c, deb_message = m\<rparr>)
       (bounded_message MAX_DIRECTORY_TREE_ERROR_MESSAGE_BYTES message)"

definition validate_directory_reply ::
    "directory_tree_reply \<Rightarrow> (directory_tree_error, unit) result" where
  "validate_directory_reply r =
     (case r of
        DtrPrepared _ root \<Rightarrow> dt_validate_device_root root
      | DtrManifest m \<Rightarrow> get_manifest_validate m
      | DtrVerified _ root \<Rightarrow> dt_validate_device_root root
      | DtrCompleted _ root \<Rightarrow> dt_validate_device_root root
      | DtrCancelled _ \<Rightarrow> Ok ()
      | DtrError e \<Rightarrow> if length (deb_message e) > MAX_DIRECTORY_TREE_ERROR_MESSAGE_BYTES
          then Err DtErrorMessageTooLarge else Ok ())"

definition dt_reply_into_message ::
    "directory_tree_reply serde \<Rightarrow> directory_tree_reply
     \<Rightarrow> (directory_tree_error, inner_message) result" where
  "dt_reply_into_message j r =
     bind_r (validate_directory_reply r) (\<lambda>_.
     bind_r (map_err DtJson (to_vec j r)) (\<lambda>payload.
       if length payload > MAX_DIRECTORY_TREE_RPC_PAYLOAD_BYTES
       then Err (DtRpcPayloadTooLarge (length payload))
       else map_err DtInner (inner_message_new ''directory_tree_result'' payload)))"

definition dt_reply_from_message ::
    "directory_tree_reply serde \<Rightarrow> inner_message
     \<Rightarrow> (directory_tree_error, directory_tree_reply) result" where
  "dt_reply_from_message j m =
     (if im_kind m \<noteq> ''directory_tree_result'' then Err (DtUnexpectedMessageKind (im_kind m))
      else if length (im_payload m) > MAX_DIRECTORY_TREE_RPC_PAYLOAD_BYTES
      then Err (DtRpcPayloadTooLarge (length (im_payload m)))
      else bind_r (map_err DtJson (from_slice j (im_payload m))) (\<lambda>r.
        bind_r (validate_directory_reply r) (\<lambda>_. Ok r)))"

subsection \<open>Which paths and entries are accepted\<close>

lemma split_at_snoc:
  "d \<notin> set b \<Longrightarrow> split_at d (a @ d # b) = split_at d a @ [b]"
proof (induction a)
  case Nil
  then have "split_at d b = [b]"
    by (induction b) auto
  then show ?case by simp
next
  case (Cons c a)
  then show ?case by (cases "split_at d a") auto
qed

lemma split_at_single: "d \<notin> set b \<Longrightarrow> split_at d b = [b]"
  by (induction b) auto

definition segments :: "string \<Rightarrow> string list" where
  "segments path = split_at CHR ''/'' path"

definition plain_segment :: "string \<Rightarrow> bool" where
  "plain_segment s \<longleftrightarrow> s \<noteq> [] \<and> s \<noteq> ''.'' \<and> s \<noteq> ''..''"

definition safe_path :: "string \<Rightarrow> bool" where
  "safe_path path \<longleftrightarrow> length path \<le> 1024 \<and> length (segments path) \<le> 64
     \<and> list_all plain_segment (segments path)
     \<and> CHR 0x5C \<notin> set path \<and> CHR '':'' \<notin> set path \<and> CHR 0x00 \<notin> set path"

lemma segment_step_Ok:
  "segment_step path s n = Ok n' \<longleftrightarrow> n' = n + 1 \<and> n + 1 \<le> 64 \<and> plain_segment s"
  by (auto simp: segment_step_def plain_segment_def bounds_simps)

lemma segment_fold:
  "fold_r (segment_step path) ss n = Ok k \<longleftrightarrow>
     k = n + length ss \<and> (ss = [] \<or> n + length ss \<le> 64) \<and> list_all plain_segment ss"
proof (induction ss arbitrary: n)
  case Nil
  then show ?case by auto
next
  case (Cons s ss)
  show ?case by (auto simp: bind_r_Ok segment_step_Ok Cons.IH)
qed

lemma segments_head: "segments (CHR ''/'' # p) = [] # segments p"
  by (simp add: segments_def)

lemma segments_last: "segments (p @ [CHR ''/'']) = segments p @ [[]]"
  using split_at_snoc [of "CHR ''/''" "[]" p] by (simp add: segments_def)

lemma segments_not_Nil [simp]: "segments p \<noteq> []"
  by (simp add: segments_def)

lemma plain_segments_ends:
  assumes "list_all plain_segment (segments path)"
  shows "path \<noteq> []" "hd path \<noteq> CHR ''/''" "List.last path \<noteq> CHR ''/''"
proof -
  show n: "path \<noteq> []" using assms by (cases path) (auto simp: segments_def plain_segment_def)
  show "hd path \<noteq> CHR ''/''"
    using assms n by (cases path) (auto simp: segments_head plain_segment_def)
  show "List.last path \<noteq> CHR ''/''"
  proof
    assume "List.last path = CHR ''/''"
    then have "path = butlast path @ [CHR ''/'']" using append_butlast_last_id [OF n] by simp
    then have "segments path = segments (butlast path) @ [[]]" using segments_last by metis
    then show False using assms by (simp add: plain_segment_def)
  qed
qed

lemma validate_relative_path_Ok: "validate_relative_path path = Ok u \<longleftrightarrow> safe_path path"
proof -
  have "segments path \<noteq> []" by simp
  then show ?thesis
    unfolding validate_relative_path_def safe_path_def segments_def [symmetric]
    using plain_segments_ends [of path] by (auto simp: bind_r_Ok segment_fold bounds_simps)
qed

definition safe_entry :: "directory_tree_entry \<Rightarrow> bool" where
  "safe_entry e \<longleftrightarrow> safe_path (dte_relative_path e) \<and>
     (case dte_kind e of
        DtkDirectory \<Rightarrow> dte_size e = 0 \<and> dte_sha256 e = None
      | DtkFile \<Rightarrow> unat (dte_size e) \<le> 2 ^ 40
          \<and> (case dte_sha256 e of None \<Rightarrow> False
             | Some h \<Rightarrow> is_sha256_hex h \<and> (dte_size e = 0 \<longrightarrow> h = EMPTY_SHA256_HEX)))"

lemma dt_validate_sha256_Ok [simp]: "dt_validate_sha256 v = Ok u \<longleftrightarrow> is_sha256_hex v"
  by (auto simp: dt_validate_sha256_def is_sha256_hex_def list_all_iff is_lower_hex_alt)

lemma dt_validate_device_root_Ok [simp]: "dt_validate_device_root p = Ok u \<longleftrightarrow> device_path_ok p"
  by (auto simp: dt_validate_device_root_def device_path_ok_def bounds_simps)

lemma file_bound: "MAX_DIRECTORY_FILE_BYTES < w \<longleftrightarrow> 2 ^ 40 < unat w"
  by (simp add: MAX_DIRECTORY_FILE_BYTES_def word_less_nat_alt)

lemma total_bound: "MAX_DIRECTORY_TOTAL_BYTES < w \<longleftrightarrow> 2 ^ 42 < unat w"
  by (simp add: MAX_DIRECTORY_TOTAL_BYTES_def word_less_nat_alt)

lemma dt_entry_validate_Ok: "dt_entry_validate e = Ok u \<longleftrightarrow> safe_entry e"
  unfolding dt_entry_validate_def safe_entry_def
  by (cases "dte_kind e"; cases "dte_sha256 e")
     (auto simp: bind_r_Ok validate_relative_path_Ok file_bound not_less)

subsection \<open>The scan of the entries\<close>

abbreviation paths :: "directory_tree_entry list \<Rightarrow> string list" where
  "paths es \<equiv> map dte_relative_path es"

definition lists_directory :: "directory_tree_entry list \<Rightarrow> string \<Rightarrow> bool" where
  "lists_directory es p \<longleftrightarrow> list_ex (\<lambda>e. dte_relative_path e = p \<and> dte_kind e = DtkDirectory) es"

definition parent_listed :: "directory_tree_entry list \<Rightarrow> directory_tree_entry \<Rightarrow> bool" where
  "parent_listed es e \<longleftrightarrow>
     (case relative_parent (dte_relative_path e) of None \<Rightarrow> True | Some q \<Rightarrow> lists_directory es q)"

definition scanned :: "directory_tree_entry list \<Rightarrow> bool" where
  "scanned es \<longleftrightarrow> list_all safe_entry es \<and> sorted_wrt (<) (paths es) \<and> list_all (parent_listed es) es"

lemma less_prefix: "q < q @ c # (b :: string)"
  by (induction q) auto

lemma relative_parent_Some:
  "relative_parent p = Some q \<longleftrightarrow> (\<exists>b. p = q @ CHR ''/'' # b \<and> CHR ''/'' \<notin> set b)"
  by (auto simp: relative_parent_def rsplit_once_Some)

lemma relative_parent_less: "relative_parent p = Some q \<Longrightarrow> q < p"
  using less_prefix by (auto simp: relative_parent_Some)

definition kind_map :: "directory_tree_entry list \<Rightarrow> string \<Rightarrow> directory_tree_entry_kind option" where
  "kind_map es p = map_option dte_kind (find (\<lambda>e. dte_relative_path e = p) es)"

lemma kind_map_None: "kind_map es p = None \<longleftrightarrow> p \<notin> set (paths es)"
  by (auto simp: kind_map_def find_None_iff)

lemma kind_map_directory:
  "distinct (paths es) \<Longrightarrow> kind_map es p = Some DtkDirectory \<longleftrightarrow> lists_directory es p"
  by (induction es) (auto simp: kind_map_def lists_directory_def list_ex_iff image_iff)

lemma kind_map_snoc:
  "dte_relative_path e \<notin> set (paths es) \<Longrightarrow>
   kind_map (es @ [e]) = (kind_map es)(dte_relative_path e \<mapsto> dte_kind e)"
proof
  fix q
  assume f: "dte_relative_path e \<notin> set (paths es)"
  show "kind_map (es @ [e]) q = ((kind_map es)(dte_relative_path e \<mapsto> dte_kind e)) q"
  proof (cases "q = dte_relative_path e")
    case True
    have "find (\<lambda>x. dte_relative_path x = q) es = None"
      unfolding find_None_all using f True by (metis imageI set_map)
    then show ?thesis using True by (simp add: kind_map_def find_append)
  next
    case False
    then show ?thesis by (simp add: kind_map_def find_append split: option.splits)
  qed
qed

definition scan_state :: "directory_tree_entry list \<Rightarrow> tree_scan \<Rightarrow> bool" where
  "scan_state es st \<longleftrightarrow> bt_get (fst st) = kind_map es
     \<and> snd st = (if es = [] then None else Some (dte_relative_path (List.last es)))"

lemma parent_check_Ok:
  "parent_check m p = Ok u \<longleftrightarrow>
     (case relative_parent p of None \<Rightarrow> True | Some q \<Rightarrow> bt_get m q = Some DtkDirectory)"
  by (auto simp: parent_check_def split: option.splits directory_tree_entry_kind.splits)

lemma entry_step_Ok:
  "entry_step e (m, prev) = Ok st \<longleftrightarrow>
     safe_entry e \<and> bt_get m (dte_relative_path e) = None
     \<and> (case prev of None \<Rightarrow> True | Some v \<Rightarrow> v < dte_relative_path e)
     \<and> (case relative_parent (dte_relative_path e) of None \<Rightarrow> True
        | Some q \<Rightarrow> bt_get m q = Some DtkDirectory)
     \<and> st = (bt_insert (dte_relative_path e) (dte_kind e) m, Some (dte_relative_path e))"
proof -
  have "relative_parent (dte_relative_path e) \<noteq> Some (dte_relative_path e)"
    using relative_parent_less by blast
  then show ?thesis
    by (cases prev; cases "relative_parent (dte_relative_path e)")
       (auto simp: entry_step_def bind_r_Ok dt_entry_validate_Ok parent_check_Ok Let_def not_le)
qed

lemma sorted_snoc_last:
  fixes xs :: "'a::linorder list"
  shows "sorted_wrt (<) (xs @ [x]) \<longleftrightarrow>
    sorted_wrt (<) xs \<and> (if xs = [] then True else List.last xs < x)"
proof (cases xs rule: rev_cases)
  case (snoc ys y)
  then show ?thesis by (auto simp: sorted_wrt_append)
qed simp

lemma lists_directory_snoc:
  "lists_directory (es @ [e]) p \<longleftrightarrow> lists_directory es p \<or> dte_relative_path e = p \<and> dte_kind e = DtkDirectory"
  by (auto simp: lists_directory_def)

lemma parent_listed_snoc:
  assumes "dte_relative_path x \<le> dte_relative_path e"
  shows "parent_listed (es @ [e]) x \<longleftrightarrow> parent_listed es x"
proof (cases "relative_parent (dte_relative_path x)")
  case (Some q)
  then have "dte_relative_path e \<noteq> q" using relative_parent_less [OF Some] assms by auto
  then show ?thesis using Some by (simp add: parent_listed_def lists_directory_snoc)
qed (simp add: parent_listed_def)

lemma scanned_snoc:
  "scanned (es @ [e]) \<longleftrightarrow> scanned es \<and> safe_entry e \<and> parent_listed es e
     \<and> (if es = [] then True else dte_relative_path (List.last es) < dte_relative_path e)"
proof -
  have lm: "List.last (paths es) = dte_relative_path (List.last es)" if "es \<noteq> []"
    using that by (rule last_map)
  have le: "dte_relative_path x \<le> dte_relative_path e"
    if "sorted_wrt (<) (paths (es @ [e]))" "x \<in> set (es @ [e])" for x
    using that by (auto simp: sorted_wrt_append)
  have pl: "list_all (parent_listed (es @ [e])) (es @ [e]) \<longleftrightarrow> list_all (parent_listed es) (es @ [e])"
    if "sorted_wrt (<) (paths (es @ [e]))"
    unfolding list_all_iff using parent_listed_snoc [OF le [OF that]] by blast
  have "scanned (es @ [e]) \<longleftrightarrow> list_all safe_entry (es @ [e]) \<and> sorted_wrt (<) (paths (es @ [e]))
      \<and> list_all (parent_listed es) (es @ [e])"
    unfolding scanned_def using pl by blast
  then show ?thesis
    using lm by (auto simp: scanned_def sorted_snoc_last)
qed

lemma scan_Ok:
  "(\<exists>st. fold_r entry_step es ([], None) = Ok st) \<longleftrightarrow> scanned es"
  "fold_r entry_step es ([], None) = Ok st \<Longrightarrow> scan_state es st"
proof (induction es arbitrary: st rule: rev_induct)
  case Nil
  {
    case 1
    then show ?case by (simp add: scanned_def)
  next
    case 2
    then show ?case by (auto simp: scan_state_def kind_map_def fun_eq_iff)
  }
next
  case (snoc e es)
  have step: "entry_step e st0 = Ok st \<longleftrightarrow> safe_entry e
      \<and> (if es = [] then True else dte_relative_path (List.last es) < dte_relative_path e)
      \<and> parent_listed es e
      \<and> st = (bt_insert (dte_relative_path e) (dte_kind e) (fst st0), Some (dte_relative_path e))"
    if f: "fold_r entry_step es ([], None) = Ok st0" for st0 st
  proof -
    have s: "sorted_wrt (<) (paths es)" using snoc.IH(1) f unfolding scanned_def by blast
    then have d: "distinct (paths es)" by (simp add: strict_sorted_iff)
    have g: "bt_get (fst st0) = kind_map es" "snd st0 = (if es = [] then None else Some (dte_relative_path (List.last es)))"
      using snoc.IH(2) [OF f] by (simp_all add: scan_state_def)
    have fresh: "kind_map es (dte_relative_path e) = None"
      if "es \<noteq> []" "dte_relative_path (List.last es) < dte_relative_path e"
    proof -
      have "sorted_wrt (<) (paths (es @ [e]))"
        using s that last_map [OF that(1), of dte_relative_path] by (simp add: sorted_snoc_last)
      then show ?thesis by (auto simp: kind_map_None sorted_wrt_append)
    qed
    have pl: "(case relative_parent (dte_relative_path e) of None \<Rightarrow> True
        | Some q \<Rightarrow> bt_get (fst st0) q = Some DtkDirectory) \<longleftrightarrow> parent_listed es e"
      using g(1) kind_map_directory [OF d] by (simp add: parent_listed_def split: option.splits)
    have k: "kind_map [] p = None" for p by (simp add: kind_map_def)
    show ?thesis
    proof (cases "es = []")
      case True
      then show ?thesis
        using g k entry_step_Ok [of e "fst st0" "snd st0" st, unfolded pl] by (cases st0) simp
    next
      case False
      then show ?thesis
        using g fresh entry_step_Ok [of e "fst st0" "snd st0" st, unfolded pl] by (cases st0) auto
    qed
  qed
  {
    case 1
    show ?case
    proof
      assume "\<exists>st. fold_r entry_step (es @ [e]) ([], None) = Ok st"
      then obtain st0 st where f: "fold_r entry_step es ([], None) = Ok st0" and e: "entry_step e st0 = Ok st"
        by (auto simp: fold_r_append bind_r_Ok)
      have "scanned es" using snoc.IH(1) f by blast
      then show "scanned (es @ [e])"
        unfolding scanned_snoc using iffD1 [OF step [OF f] e] by blast
    next
      assume s: "scanned (es @ [e])"
      then obtain st0 where f: "fold_r entry_step es ([], None) = Ok st0"
        unfolding scanned_snoc using snoc.IH(1) by blast
      have "\<exists>st. entry_step e st0 = Ok st"
        unfolding step [OF f] using s unfolding scanned_snoc by blast
      then show "\<exists>st. fold_r entry_step (es @ [e]) ([], None) = Ok st"
        using f by (simp add: fold_r_append bind_r_Ok)
    qed
  next
    case 2
    then obtain st0 where f: "fold_r entry_step es ([], None) = Ok st0" and e: "entry_step e st0 = Ok st"
      by (auto simp: fold_r_append bind_r_Ok)
    have g: "bt_get (fst st0) = kind_map es" using snoc.IH(2) [OF f] by (simp add: scan_state_def)
    have "bt_get (fst st0) (dte_relative_path e) = None"
      using e entry_step_Ok [of e "fst st0" "snd st0" st] by simp
    then have "dte_relative_path e \<notin> set (paths es)" using g by (simp add: kind_map_None)
    moreover have "st = (bt_insert (dte_relative_path e) (dte_kind e) (fst st0), Some (dte_relative_path e))"
      using step [OF f] e by blast
    ultimately show ?case
      using g by (simp add: scan_state_def kind_map_snoc)
  }
qed

subsection \<open>What a manifest says\<close>

text \<open>The reference notion: the directories above a path, from the root down, and a list of
  entries that contains all of them for each of its entries.\<close>

definition ancestors :: "string \<Rightarrow> string list" where
  "ancestors p = map (\<lambda>k. join_with CHR ''/'' (take k (segments p))) [1..<length (segments p)]"

definition directory_tree :: "directory_tree_entry list \<Rightarrow> bool" where
  "directory_tree es \<longleftrightarrow> distinct (paths es)
     \<and> list_all (\<lambda>e. list_all (lists_directory es) (ancestors (dte_relative_path e))) es"

definition file_bytes :: "directory_tree_entry list \<Rightarrow> nat" where
  "file_bytes es = sum_list (map (\<lambda>e. if dte_kind e = DtkFile then unat (dte_size e) else 0) es)"

lemma segments_snoc: "CHR ''/'' \<notin> set b \<Longrightarrow> segments (q @ CHR ''/'' # b) = segments q @ [b]"
  by (simp add: segments_def split_at_snoc)

lemma join_segments [simp]: "join_with CHR ''/'' (segments p) = p"
  by (simp add: segments_def)

lemma ancestors_parent:
  "ancestors p = (case relative_parent p of None \<Rightarrow> [] | Some q \<Rightarrow> ancestors q @ [q])"
proof (cases "relative_parent p")
  case None
  then have "segments p = [p]"
    by (auto simp: relative_parent_def rsplit_once_None segments_def split_at_single)
  then show ?thesis using None by (simp add: ancestors_def)
next
  case (Some q)
  then obtain b where p: "p = q @ CHR ''/'' # b" "CHR ''/'' \<notin> set b"
    by (auto simp: relative_parent_Some)
  have "[1..<length (segments p)] = [1..<length (segments q)] @ [length (segments q)]"
    unfolding p(1) segments_snoc [OF p(2)] using segments_not_Nil [of q]
    by (simp add: Suc_leI)
  then show ?thesis
    using Some unfolding p(1) ancestors_def segments_snoc [OF p(2)] by simp
qed

lemma safe_path_parent: "safe_path p \<Longrightarrow> relative_parent p = Some q \<Longrightarrow> safe_path q"
  by (auto simp: relative_parent_Some safe_path_def segments_snoc)

text \<open>Every parent listed means every ancestor listed.\<close>

lemma parents_ancestors:
  assumes "list_all (parent_listed es) es" and "e \<in> set es"
  shows "list_all (lists_directory es) (ancestors (dte_relative_path e))"
  using assms(2)
proof (induction "length (dte_relative_path e)" arbitrary: e rule: less_induct)
  case less
  show ?case
  proof (cases "relative_parent (dte_relative_path e)")
    case None
    then show ?thesis by (simp add: ancestors_parent)
  next
    case (Some q)
    have "parent_listed es e" using assms(1) less.prems by (simp add: list_all_iff)
    then have q: "lists_directory es q" using Some by (simp add: parent_listed_def)
    then obtain d where d: "d \<in> set es" "dte_relative_path d = q"
      by (auto simp: lists_directory_def list_ex_iff)
    have "length (dte_relative_path d) < length (dte_relative_path e)"
      using Some d(2) by (auto simp: relative_parent_Some)
    from less.hyps [OF this d(1)] show ?thesis
      using Some q d(2) by (simp add: ancestors_parent [of "dte_relative_path e"])
  qed
qed

lemma scanned_tree:
  "scanned es \<longleftrightarrow> list_all safe_entry es \<and> sorted_wrt (<) (paths es) \<and> directory_tree es"
proof -
  have "list_all (parent_listed es) es \<longleftrightarrow>
      list_all (\<lambda>e. list_all (lists_directory es) (ancestors (dte_relative_path e))) es"
  proof
    assume "list_all (parent_listed es) es"
    then show "list_all (\<lambda>e. list_all (lists_directory es) (ancestors (dte_relative_path e))) es"
      using parents_ancestors by (simp add: list_all_iff)
  next
    assume a: "list_all (\<lambda>e. list_all (lists_directory es) (ancestors (dte_relative_path e))) es"
    have "parent_listed es e" if "e \<in> set es" for e
    proof (cases "relative_parent (dte_relative_path e)")
      case (Some q)
      have "list_all (lists_directory es) (ancestors (dte_relative_path e))"
        using a that by (simp add: list_all_iff)
      then show ?thesis
        using Some by (simp add: ancestors_parent [of "dte_relative_path e"] parent_listed_def)
    qed (simp add: parent_listed_def)
    then show "list_all (parent_listed es) es" by (simp add: list_all_iff)
  qed
  then show ?thesis by (auto simp: scanned_def directory_tree_def strict_sorted_iff)
qed

lemma total_step_Ok:
  "safe_entry e \<Longrightarrow> unat t \<le> 2 ^ 42 \<Longrightarrow> total_step e t = Ok t' \<longleftrightarrow>
     unat t' = unat t + file_bytes [e] \<and> unat t' \<le> 2 ^ 42"
proof -
  assume e: "safe_entry e" and t: "unat t \<le> 2 ^ 42"
  show ?thesis
  proof (cases "dte_kind e")
    case DtkDirectory
    then show ?thesis using t by (auto simp: total_step_def file_bytes_def word_unat_eq_iff)
  next
    case DtkFile
    have s: "unat (dte_size e) \<le> 2 ^ 40" using e DtkFile by (simp add: safe_entry_def)
    have a: "unat t + unat (dte_size e) < 2 ^ 64" using s t by simp
    have u: "unat (t + dte_size e) = unat t + unat (dte_size e)"
      using a by (simp add: unat_word_ariths)
    show ?thesis
      using DtkFile s a u
      by (auto simp: total_step_def file_bytes_def file_bound total_bound checked_add_def word_unat_eq_iff)
  qed
qed

lemma total_fold:
  "list_all safe_entry es \<Longrightarrow> unat t \<le> 2 ^ 42 \<Longrightarrow> fold_r total_step es t = Ok t' \<longleftrightarrow>
     unat t' = unat t + file_bytes es \<and> unat t' \<le> 2 ^ 42"
proof (induction es arbitrary: t)
  case Nil
  then show ?case by (auto simp: file_bytes_def word_unat_eq_iff)
next
  case (Cons e es)
  have e: "safe_entry e" and es: "list_all safe_entry es" using Cons.prems by simp_all
  have c: "file_bytes (e # es) = file_bytes [e] + file_bytes es" by (simp add: file_bytes_def)
  have "fold_r total_step (e # es) t = Ok t' \<longleftrightarrow>
      (\<exists>t1 :: u64. unat t1 = unat t + file_bytes [e] \<and> unat t1 \<le> 2 ^ 42
        \<and> unat t' = unat t1 + file_bytes es \<and> unat t' \<le> 2 ^ 42)"
  proof
    assume "fold_r total_step (e # es) t = Ok t'"
    then obtain t1 where t1: "total_step e t = Ok t1" "fold_r total_step es t1 = Ok t'"
      by (auto simp: bind_r_Ok)
    note a = iffD1 [OF total_step_Ok [OF e Cons.prems(2)] t1(1)]
    show "\<exists>t1 :: u64. unat t1 = unat t + file_bytes [e] \<and> unat t1 \<le> 2 ^ 42
        \<and> unat t' = unat t1 + file_bytes es \<and> unat t' \<le> 2 ^ 42"
      by (rule exI [of _ t1], intro conjI conjunct1 [OF a] conjunct2 [OF a])
         (use iffD1 [OF Cons.IH [OF es conjunct2 [OF a]] t1(2)] in simp_all)
  next
    assume "\<exists>t1 :: u64. unat t1 = unat t + file_bytes [e] \<and> unat t1 \<le> 2 ^ 42
        \<and> unat t' = unat t1 + file_bytes es \<and> unat t' \<le> 2 ^ 42"
    then obtain t1 :: u64 where t1: "unat t1 = unat t + file_bytes [e]" "unat t1 \<le> 2 ^ 42"
      "unat t' = unat t1 + file_bytes es" "unat t' \<le> 2 ^ 42" by blast
    have "total_step e t = Ok t1" by (rule iffD2 [OF total_step_Ok [OF e Cons.prems(2)] conjI [OF t1(1,2)]])
    moreover have "fold_r total_step es t1 = Ok t'"
      by (rule iffD2 [OF Cons.IH [OF es t1(2)] conjI [OF t1(3,4)]])
    ultimately show "fold_r total_step (e # es) t = Ok t'" by simp
  qed
  also have "\<dots> \<longleftrightarrow> unat t' = unat t + file_bytes (e # es) \<and> unat t' \<le> 2 ^ 42"
  proof
    assume r: "unat t' = unat t + file_bytes (e # es) \<and> unat t' \<le> 2 ^ 42"
    let ?t1 = "word_of_nat (unat t + file_bytes [e]) :: u64"
    have "unat t + file_bytes [e] \<le> 2 ^ 42" using r c by simp
    then have "unat ?t1 = unat t + file_bytes [e]"
      unfolding unat_of_nat by (intro mod_less) simp
    then show "\<exists>t1 :: u64. unat t1 = unat t + file_bytes [e] \<and> unat t1 \<le> 2 ^ 42
        \<and> unat t' = unat t1 + file_bytes es \<and> unat t' \<le> 2 ^ 42"
      using r c by (intro exI [of _ ?t1]) simp
  qed (auto simp: c)
  finally show ?case .
qed

lemma checked_total_Ok:
  "list_all safe_entry es \<Longrightarrow> checked_total_file_bytes es = Ok t \<longleftrightarrow>
     unat t = file_bytes es \<and> file_bytes es \<le> 2 ^ 42"
  by (auto simp: checked_total_file_bytes_def total_fold)

definition dt_policy_ok :: "file_transfer_direction \<Rightarrow> directory_conflict_policy option \<Rightarrow> bool" where
  "dt_policy_ok direction policy \<longleftrightarrow> (direction = ControllerToDevice \<longleftrightarrow> policy \<noteq> None)"

lemma conflict_policy_check_Ok: "conflict_policy_check d p = Ok u \<longleftrightarrow> dt_policy_ok d p"
  by (cases d; cases p)
     (auto simp: conflict_policy_check_def dt_policy_ok_def split: directory_conflict_policy.splits)

definition dt_manifest_ok :: "directory_tree_manifest \<Rightarrow> bool" where
  "dt_manifest_ok m \<longleftrightarrow> dtm_version m = 1 \<and> device_path_ok (dtm_device_root m)
     \<and> dt_policy_ok (dtm_direction m) (dtm_device_conflict_policy m)
     \<and> length (dtm_entries m) \<le> 256 \<and> list_all safe_entry (dtm_entries m)
     \<and> sorted_wrt (<) (paths (dtm_entries m)) \<and> directory_tree (dtm_entries m)
     \<and> unat (dtm_total_file_bytes m) = file_bytes (dtm_entries m)
     \<and> file_bytes (dtm_entries m) \<le> 2 ^ 42"

lemma dt_manifest_validate_Ok: "dt_manifest_validate m = Ok u \<longleftrightarrow> dt_manifest_ok m"
proof -
  have "dt_manifest_validate m = Ok u \<longleftrightarrow> dtm_version m = 1 \<and> device_path_ok (dtm_device_root m)
      \<and> length (dtm_entries m) \<le> 256 \<and> dt_policy_ok (dtm_direction m) (dtm_device_conflict_policy m)
      \<and> scanned (dtm_entries m)
      \<and> checked_total_file_bytes (dtm_entries m) = Ok (dtm_total_file_bytes m)"
    by (auto simp: dt_manifest_validate_def bind_r_Ok conflict_policy_check_Ok scan_Ok(1) [symmetric]
        DIRECTORY_TREE_MANIFEST_VERSION_def bounds_simps)
  then show ?thesis
    unfolding scanned_tree dt_manifest_ok_def using checked_total_Ok by blast
qed

lemma scope_ok [simp]: "dt_scope_validate s = Ok u \<longleftrightarrow> device_path_ok (dgs_device_root s)"
  by (simp add: dt_scope_validate_def)

definition dt_put_manifest_ok :: "directory_tree_manifest \<Rightarrow> bool" where
  "dt_put_manifest_ok m \<longleftrightarrow> dt_manifest_ok m \<and> dtm_direction m = ControllerToDevice"

definition dt_get_manifest_ok :: "directory_tree_manifest \<Rightarrow> bool" where
  "dt_get_manifest_ok m \<longleftrightarrow> dt_manifest_ok m \<and> dtm_direction m = DeviceToController"

lemma some_policy: "p \<noteq> None \<longleftrightarrow> p = Some DirFailIfExists"
  by (cases p) (auto intro: directory_conflict_policy.exhaust)

lemma put_manifest_validate_Ok: "put_manifest_validate m = Ok u \<longleftrightarrow> dt_put_manifest_ok m"
proof -
  have "dtm_device_conflict_policy m = Some DirFailIfExists"
    if "dt_manifest_ok m" "dtm_direction m = ControllerToDevice"
    using that by (simp add: dt_manifest_ok_def dt_policy_ok_def some_policy [symmetric])
  then show ?thesis
    by (auto simp: put_manifest_validate_def dt_put_manifest_ok_def bind_r_Ok dt_manifest_validate_Ok)
qed

lemma get_manifest_validate_Ok: "get_manifest_validate m = Ok u \<longleftrightarrow> dt_get_manifest_ok m"
proof -
  have "dtm_device_conflict_policy m = None"
    if "dt_manifest_ok m" "dtm_direction m = DeviceToController"
    using that by (auto simp: dt_manifest_ok_def dt_policy_ok_def)
  then show ?thesis
    by (auto simp: get_manifest_validate_def dt_get_manifest_ok_def bind_r_Ok dt_manifest_validate_Ok)
qed

fun dt_request_ok :: "directory_tree_request \<Rightarrow> bool" where
  "dt_request_ok (DtPreparePut m) = dt_put_manifest_ok m"
| "dt_request_ok (DtFinalizePut m) = dt_put_manifest_ok m"
| "dt_request_ok (DtCancelPut m) = dt_put_manifest_ok m"
| "dt_request_ok (DtPrepareGet s) = device_path_ok (dgs_device_root s)"
| "dt_request_ok (DtFinalizeGet m) = dt_get_manifest_ok m"

fun dt_reply_ok :: "directory_tree_reply \<Rightarrow> bool" where
  "dt_reply_ok (DtrPrepared _ root) = device_path_ok root"
| "dt_reply_ok (DtrManifest m) = dt_get_manifest_ok m"
| "dt_reply_ok (DtrVerified _ root) = device_path_ok root"
| "dt_reply_ok (DtrCompleted _ root) = device_path_ok root"
| "dt_reply_ok (DtrCancelled _) = True"
| "dt_reply_ok (DtrError e) = (length (deb_message e) \<le> 512)"

lemma dt_request_validate_Ok [simp]: "dt_request_validate r = Ok u \<longleftrightarrow> dt_request_ok r"
  by (cases r) (simp_all add: dt_request_validate_def put_manifest_validate_Ok get_manifest_validate_Ok)

lemma validate_directory_reply_Ok [simp]: "validate_directory_reply r = Ok u \<longleftrightarrow> dt_reply_ok r"
  by (cases r) (auto simp: validate_directory_reply_def get_manifest_validate_Ok bounds_simps)

interpretation dt_request: message_codec "''directory_tree''" "Some (52 * 1024)" dt_request_ok j
  "dt_request_into_message j" "dt_request_from_message j" for j
  by unfold_locales
    (auto simp: dt_request_into_message_def dt_request_from_message_def result_simps bounds_simps not_less)

interpretation dt_reply: message_codec "''directory_tree_result''" "Some (52 * 1024)" dt_reply_ok j
  "dt_reply_into_message j" "dt_reply_from_message j" for j
  by unfold_locales
    (auto simp: dt_reply_into_message_def dt_reply_from_message_def result_simps bounds_simps not_less)

lemma dt_reply_error_valid: "dt_reply_error c s = Some r \<Longrightarrow> dt_reply_ok r"
  by (auto simp: dt_reply_error_def bounds_simps dest: bounded_message_length)

lemma dt_manifest_roundtrip:
  "dt_manifest_encode j m = Ok b \<Longrightarrow> serde_faithful j m \<Longrightarrow> dt_manifest_decode j b = Ok m"
  by (auto simp: dt_manifest_encode_def dt_manifest_decode_def bind_r_Ok serde_faithfulD split: if_splits)

text \<open>A new manifest exists exactly for a tree within the bounds, and its entries do not depend
  on the order in which they were given.\<close>

lemma directory_tree_perm:
  assumes "mset xs = mset ys"
  shows "directory_tree xs \<longleftrightarrow> directory_tree ys"
proof -
  have s: "set xs = set ys" using assms by (rule mset_eq_setD)
  have "lists_directory xs = lists_directory ys"
    by (rule ext) (simp add: lists_directory_def list_ex_iff s)
  moreover have "mset (paths xs) = mset (paths ys)" using assms by simp
  ultimately show ?thesis
    unfolding directory_tree_def list_all_iff s by (metis mset_eq_imp_distinct_iff)
qed

lemma file_bytes_perm:
  assumes "mset xs = mset ys"
  shows "file_bytes xs = file_bytes ys"
  unfolding file_bytes_def sum_mset_sum_list [symmetric] mset_map assms ..

definition dt_new_ok ::
    "file_transfer_direction \<Rightarrow> string \<Rightarrow> directory_tree_entry list \<Rightarrow> directory_conflict_policy option \<Rightarrow> bool" where
  "dt_new_ok direction root es policy \<longleftrightarrow> device_path_ok root \<and> dt_policy_ok direction policy
     \<and> length es \<le> 256 \<and> list_all safe_entry es \<and> directory_tree es \<and> file_bytes es \<le> 2 ^ 42"

lemma sorted_paths:
  assumes "directory_tree es"
  shows "sorted_wrt (<) (paths (sort_key dte_relative_path es))"
proof -
  have "distinct (paths (sort_key dte_relative_path es))"
    using assms directory_tree_perm [of es "sort_key dte_relative_path es"]
    by (simp add: directory_tree_def)
  then show ?thesis by (simp add: strict_sorted_iff)
qed

lemma dt_manifest_new_Ok:
  "dt_manifest_new tid cid sid did direction root es policy = Ok m \<longleftrightarrow>
     dt_new_ok direction root es policy \<and>
     m = \<lparr>dtm_version = 1, dtm_transfer_id = tid, dtm_controller_id = cid, dtm_site_id = sid,
          dtm_device_id = did, dtm_direction = direction, dtm_device_root = root,
          dtm_entries = sort_key dte_relative_path es,
          dtm_total_file_bytes = word_of_nat (file_bytes es), dtm_device_conflict_policy = policy\<rparr>"
  (is "?l \<longleftrightarrow> ?ok \<and> m = ?m")
proof -
  let ?s = "sort_key dte_relative_path es"
  have p: "mset ?s = mset es" by simp
  have fb: "file_bytes ?s = file_bytes es" and dt: "directory_tree ?s \<longleftrightarrow> directory_tree es"
    using file_bytes_perm [OF p] directory_tree_perm [OF p] by simp_all
  have safe: "list_all safe_entry ?s \<longleftrightarrow> list_all safe_entry es" by (simp add: list_all_iff)
  have w: "unat (word_of_nat (file_bytes es) :: u64) = file_bytes es" if "file_bytes es \<le> 2 ^ 42"
    unfolding unat_of_nat using that by (intro mod_less) simp
  have eq: "t = word_of_nat (file_bytes es)" if "unat t = file_bytes es" for t :: u64
    unfolding that [symmetric] by simp
  show ?thesis
  proof
    assume ?l
    then obtain t where t: "checked_total_file_bytes ?s = Ok t"
      and m: "m = ?m\<lparr>dtm_total_file_bytes := t\<rparr>" and ok: "dt_manifest_ok m"
      by (auto simp: dt_manifest_new_def bind_r_Ok Let_def dt_manifest_validate_Ok
          DIRECTORY_TREE_MANIFEST_VERSION_def)
    have "list_all safe_entry ?s" using ok m by (simp add: dt_manifest_ok_def)
    then have "unat t = file_bytes es" using t checked_total_Ok fb by simp
    then have "t = word_of_nat (file_bytes es)" by (rule eq)
    then show "?ok \<and> m = ?m"
      using ok m by (simp add: dt_manifest_ok_def dt_new_ok_def fb dt safe)
  next
    assume r: "?ok \<and> m = ?m"
    then have "checked_total_file_bytes ?s = Ok (word_of_nat (file_bytes es))"
      using checked_total_Ok [of ?s] safe fb w by (simp add: dt_new_ok_def)
    moreover have "dt_manifest_ok ?m"
      using r sorted_paths [of es] w by (simp add: dt_manifest_ok_def dt_new_ok_def fb dt safe)
    ultimately show ?l
      using r by (auto simp: dt_manifest_new_def bind_r_Ok Let_def dt_manifest_validate_Ok
          DIRECTORY_TREE_MANIFEST_VERSION_def)
  qed
qed

text \<open>Two lists of the same entries make the same manifest, and what is made is fit to be sent.\<close>

lemma manifest_perm:
  assumes "mset xs = mset ys" and "dt_manifest_new tid cid sid did direction root xs policy = Ok m"
  shows "dt_manifest_new tid cid sid did direction root ys policy = Ok m"
proof -
  have ok: "dt_new_ok direction root xs policy" using assms(2) unfolding dt_manifest_new_Ok by simp
  have d: "directory_tree xs" using ok by (simp add: dt_new_ok_def)
  have ys: "dt_new_ok direction root ys policy"
    using ok mset_eq_setD [OF assms(1)] mset_eq_length [OF assms(1)] directory_tree_perm [OF assms(1)]
      file_bytes_perm [OF assms(1)]
    by (simp add: dt_new_ok_def list_all_iff)
  have inj: "inj_on dte_relative_path (set ys)"
    using d mset_eq_setD [OF assms(1)] by (simp add: directory_tree_def distinct_map)
  have "sort_key dte_relative_path ys = sort_key dte_relative_path xs"
    by (rule sort_key_inj_key_eq [OF _ inj]) (simp_all add: assms(1))
  then show ?thesis using assms(2) ys file_bytes_perm [OF assms(1)] unfolding dt_manifest_new_Ok by simp
qed

lemma manifest_sendable:
  assumes "dt_manifest_new tid cid sid did direction root es policy = Ok m"
  shows "if direction = ControllerToDevice then dt_put_manifest_ok m else dt_get_manifest_ok m"
proof -
  have "dt_manifest_ok m" "dtm_direction m = direction" "dtm_device_conflict_policy m = policy"
    "dt_policy_ok direction policy"
    using assms
    by (auto simp: dt_manifest_new_def bind_r_Ok Let_def dt_manifest_validate_Ok dt_manifest_ok_def)
  then show ?thesis
    by (cases direction) (auto simp: dt_put_manifest_ok_def dt_get_manifest_ok_def dt_policy_ok_def some_policy)
qed

subsection \<open>Properties\<close>

text \<open>C28: The one-pass validation of a directory manifest agrees with the reference notion of a
  tree: it accepts a manifest if and only if its header is valid, it has at most 256 entries,
  each with a path of at most 64 plain segments (never empty, \<open>.\<close> or \<open>..\<close>), in strictly
  ascending order of paths, every directory above an entry is itself listed as a directory, and
  the declared total is the exact sum of the file sizes, at most 4 TiB.\<close>

theorem manifest_is_directory_tree:
  "dt_manifest_validate m = Ok () \<longleftrightarrow>
     dtm_version m = 1 \<and> device_path_ok (dtm_device_root m)
     \<and> (dtm_direction m = ControllerToDevice \<longleftrightarrow> dtm_device_conflict_policy m = Some DirFailIfExists)
     \<and> length (dtm_entries m) \<le> 256 \<and> list_all safe_entry (dtm_entries m)
     \<and> sorted_wrt (<) (map dte_relative_path (dtm_entries m)) \<and> directory_tree (dtm_entries m)
     \<and> unat (dtm_total_file_bytes m) = file_bytes (dtm_entries m)
     \<and> file_bytes (dtm_entries m) \<le> 2 ^ 42"
  unfolding dt_manifest_validate_Ok dt_manifest_ok_def dt_policy_ok_def some_policy by simp

text \<open>C29: A manifest made from a list of entries does not depend on their order, and it is one the
  other side accepts. Whatever order a directory was walked in, creating a manifest from the entries
  gives the same manifest with exactly those entries. Nothing prevents it but an invalid root, a
  policy that does not fit the direction, more than 256 entries, an entry that is not valid,
  duplicates or a missing directory, and too many bytes. The requests that carry a manifest to the
  device, the reply that carries one from it, and the request that finishes a download are never
  refused by the sender's validation, only by the bound on the encoded size, and arrive as they were
  sent.\<close>

theorem manifest_independent_of_order:
  fixes xs ys tid cid sid did direction root policy
  assumes "mset xs = mset ys"
  defines "new es \<equiv> dt_manifest_new tid cid sid did direction root es policy"
  shows "((\<exists>m. new xs = Ok m) \<longleftrightarrow>
      device_path_ok root \<and> (direction = ControllerToDevice \<longleftrightarrow> policy = Some DirFailIfExists)
      \<and> length xs \<le> 256 \<and> list_all safe_entry xs \<and> directory_tree xs \<and> file_bytes xs \<le> 2 ^ 42)
    \<and> (\<forall>m. new xs = Ok m \<longrightarrow> new ys = Ok m \<and> mset (dtm_entries m) = mset xs
      \<and> (\<forall>j r p. r \<in> (if direction = ControllerToDevice
              then {DtPreparePut m, DtFinalizePut m, DtCancelPut m} else {DtFinalizeGet m}) \<longrightarrow>
           to_vec j r = Ok p \<longrightarrow> length p \<le> 52 * 1024 \<longrightarrow> serde_faithful j r \<longrightarrow>
           (\<exists>msg. dt_request_into_message j r = Ok msg \<and> dt_request_from_message j msg = Ok r))
      \<and> (direction = DeviceToController \<longrightarrow> (\<forall>j p. to_vec j (DtrManifest m) = Ok p \<longrightarrow>
           length p \<le> 52 * 1024 \<longrightarrow> serde_faithful j (DtrManifest m) \<longrightarrow>
           (\<exists>msg. dt_reply_into_message j (DtrManifest m) = Ok msg
              \<and> dt_reply_from_message j msg = Ok (DtrManifest m)))))"
proof (intro conjI allI impI)
  show "(\<exists>m. new xs = Ok m) \<longleftrightarrow>
      device_path_ok root \<and> (direction = ControllerToDevice \<longleftrightarrow> policy = Some DirFailIfExists)
      \<and> length xs \<le> 256 \<and> list_all safe_entry xs \<and> directory_tree xs \<and> file_bytes xs \<le> 2 ^ 42"
    unfolding new_def dt_manifest_new_Ok dt_new_ok_def dt_policy_ok_def some_policy by auto
next
  fix m assume m: "new xs = Ok m"
  show "new ys = Ok m" using m manifest_perm [OF assms(1)] by (simp add: new_def)
  show "mset (dtm_entries m) = mset xs" using m by (auto simp: new_def dt_manifest_new_Ok)
next
  fix m j r p
  assume m: "new xs = Ok m" and r: "r \<in> (if direction = ControllerToDevice
      then {DtPreparePut m, DtFinalizePut m, DtCancelPut m} else {DtFinalizeGet m})"
    and p: "to_vec j r = Ok p" "length p \<le> 52 * 1024" "serde_faithful j r"
  have "dt_request_ok r"
    using manifest_sendable [OF m [unfolded new_def]] r by (cases direction) auto
  then have "dt_request_into_message j r = Ok \<lparr>im_kind = ''directory_tree'', im_payload = p\<rparr>"
    using p by (simp add: dt_request.into_law inner_message_new_Ok message_ok_def)
  then show "\<exists>msg. dt_request_into_message j r = Ok msg \<and> dt_request_from_message j msg = Ok r"
    using dt_request.roundtrip p(3) by blast
next
  fix m j p
  assume m: "new xs = Ok m" and dir: "direction = DeviceToController"
    and p: "to_vec j (DtrManifest m) = Ok p" "length p \<le> 52 * 1024" "serde_faithful j (DtrManifest m)"
  have "dt_reply_ok (DtrManifest m)" using manifest_sendable [OF m [unfolded new_def]] dir by simp
  then have "dt_reply_into_message j (DtrManifest m) = Ok \<lparr>im_kind = ''directory_tree_result'', im_payload = p\<rparr>"
    using p by (simp add: dt_reply.into_law inner_message_new_Ok message_ok_def)
  then show "\<exists>msg. dt_reply_into_message j (DtrManifest m) = Ok msg
      \<and> dt_reply_from_message j msg = Ok (DtrManifest m)"
    using dt_reply.roundtrip p(3) by blast
qed

definition toy_dir_entries :: "directory_tree_entry list" where
  "toy_dir_entries =
     [\<lparr>dte_relative_path = ''a/b'', dte_kind = DtkFile, dte_size = 0, dte_sha256 = Some EMPTY_SHA256_HEX\<rparr>,
      \<lparr>dte_relative_path = ''a'', dte_kind = DtkDirectory, dte_size = 0, dte_sha256 = None\<rparr>]"

lemma toy_dir_new_ok: "dt_new_ok ControllerToDevice ''/d'' toy_dir_entries (Some DirFailIfExists)"
proof -
  have seg: "segments ''a/b'' = [''a'', ''b'']" "segments ''a'' = [''a'']" by (simp_all add: segments_def)
  have "list_all safe_entry toy_dir_entries"
    using empty_hash_ok by (simp add: toy_dir_entries_def safe_entry_def safe_path_def seg plain_segment_def)
  moreover have "directory_tree toy_dir_entries"
    by (simp add: directory_tree_def toy_dir_entries_def ancestors_def seg lists_directory_def)
  moreover have "file_bytes toy_dir_entries = 0" by (simp add: file_bytes_def toy_dir_entries_def)
  moreover have "length toy_dir_entries = 2" by (simp add: toy_dir_entries_def)
  moreover have "device_path_ok ''/d''" by (simp add: device_path_ok_def trim_def ascii_defs)
  ultimately show ?thesis by (simp add: dt_new_ok_def dt_policy_ok_def)
qed

lemma manifest_independent_of_order_witness:
  "\<exists>m msg. dt_manifest_new 7 2 3 4 ControllerToDevice ''/d'' (rev toy_dir_entries) (Some DirFailIfExists) = Ok m
     \<and> dt_manifest_new 7 2 3 4 ControllerToDevice ''/d'' toy_dir_entries (Some DirFailIfExists) = Ok m
     \<and> dt_request_from_message (const_serde [1] (DtPreparePut m)) msg = Ok (DtPreparePut m)"
proof -
  obtain m where m: "dt_manifest_new 7 2 3 4 ControllerToDevice ''/d'' toy_dir_entries (Some DirFailIfExists) = Ok m"
    using toy_dir_new_ok unfolding dt_manifest_new_Ok by blast
  have p: "mset toy_dir_entries = mset (rev toy_dir_entries)" by simp
  note all = manifest_independent_of_order [OF p, of 7 2 3 4 ControllerToDevice "''/d''" "Some DirFailIfExists",
    THEN conjunct2, rule_format, OF m]
  have "\<exists>msg. dt_request_into_message (const_serde [1] (DtPreparePut m)) (DtPreparePut m) = Ok msg
      \<and> dt_request_from_message (const_serde [1] (DtPreparePut m)) msg = Ok (DtPreparePut m)"
    by (rule all [THEN conjunct2, THEN conjunct2, THEN conjunct1, rule_format, of _ _ "[1]"]) simp_all
  then show ?thesis using all m by blast
qed

end
