(* ===== verification/Fs_Protocol.thy ===== *)
theory Fs_Protocol
  imports Shell_Task
begin

section \<open>The managed-filesystem protocols (clew-transport, fs_mutation.rs and fs_query.rs)\<close>

text \<open>
  Requests that change the file system of a host (write, edit, directories, copy, move, trash,
  temporary resources) or query it (information, glob, grep), their replies, validation, bounds
  and messages. The JSON library is a parameter.
\<close>

definition HARD_MAX_WRITE_TEXT_BYTES :: nat where
  [bounds_simps]: "HARD_MAX_WRITE_TEXT_BYTES = 32 * 1024"
definition HARD_MAX_EDIT_FRAGMENT_BYTES :: nat where
  [bounds_simps]: "HARD_MAX_EDIT_FRAGMENT_BYTES = 16 * 1024"
definition HARD_MAX_FS_CONTROL_DESCRIPTION_BYTES :: nat where
  [bounds_simps]: "HARD_MAX_FS_CONTROL_DESCRIPTION_BYTES = 512"
definition HARD_MAX_FS_CONTROL_ITEMS :: nat where [bounds_simps]: "HARD_MAX_FS_CONTROL_ITEMS = 128"
definition HARD_MAX_MANAGED_TEMP_TTL_MS :: u64 where
  [bounds_simps]: "HARD_MAX_MANAGED_TEMP_TTL_MS = 7 * 24 * 60 * 60 * 1000"
definition MAX_MUTATION_ERROR_MESSAGE_BYTES :: nat where
  [bounds_simps]: "MAX_MUTATION_ERROR_MESSAGE_BYTES = 512"

subsection \<open>Mutations\<close>

datatype fs_mutation_error =
    FmInvalidPath
  | FmInvalidSha256
  | FmContentTooLarge usize
  | FmInvalidEditFragments
  | FmInvalidControlId
  | FmInvalidDescription
  | FmInvalidTempTtl u64
  | FmTooManyControlItems usize
  | FmErrorMessageTooLarge
  | FmUnexpectedKind string
  | FmJson json_error
  | FmInner inner_error

datatype fs_write_precondition = CreateOnly | MatchSha256 string

datatype fs_managed_temp_kind = TempFile | TempDirectory

record fs_trash_item =
  ti_trash_id :: string
  ti_original_path :: string
  ti_deleted_unix_ms :: u64

record fs_managed_temp_resource =
  mt_resource_id :: string
  mt_kind :: fs_managed_temp_kind
  mt_path :: string
  mt_description :: string
  mt_created_unix_ms :: u64
  mt_expires_unix_ms :: u64

datatype fs_control_result =
    CreatedDirectory string
  | Copied string string
  | Moved string string
  | Trashed fs_trash_item
  | TrashItems "fs_trash_item list"
  | Restored string string
  | PurgePrepared string string u64
  | Purged string
  | TempCreated fs_managed_temp_resource
  | TempItems "fs_managed_temp_resource list"
  | TempReleased string
  | TempGcDone "string list"

datatype fs_mutation_request =
    FmWrite string string fs_write_precondition
  | FmEdit string string string string
  | FmCreateDirectory string
  | FmCopy string string
  | FmMove string string
  | FmTrash string
  | FmTrashList
  | FmTrashRestore string
  | FmTrashPurgePrepare string
  | FmTrashPurgeConfirm string string
  | FmTempCreate fs_managed_temp_kind string u64
  | FmTempList
  | FmTempRelease string
  | FmTempGc

definition fm_validate_path :: "string \<Rightarrow> (fs_mutation_error, unit) result" where
  "fm_validate_path path =
     (let p = trim path in
      if p = [] \<or> length p > HARD_MAX_READ_ROOT_BYTES \<or> CHR 0x00 \<in> set p
      then Err FmInvalidPath else Ok ())"

definition fm_validate_control_id :: "string \<Rightarrow> (fs_mutation_error, unit) result" where
  "fm_validate_control_id v =
     (if v = [] \<or> length v > 128
         \<or> \<not> list_all (\<lambda>c. is_ascii_alphanumeric c \<or> c = CHR ''-'' \<or> c = CHR ''_'') v
      then Err FmInvalidControlId else Ok ())"

definition fm_validate_sha256 :: "string \<Rightarrow> (fs_mutation_error, unit) result" where
  "fm_validate_sha256 hash =
     (if length hash \<noteq> 64 \<or> \<not> list_all is_ascii_hexdigit hash then Err FmInvalidSha256 else Ok ())"

definition normalize_sha256_hex :: "string \<Rightarrow> (fs_mutation_error, string) result" where
  "normalize_sha256_hex hash = bind_r (fm_validate_sha256 hash) (\<lambda>_. Ok (to_ascii_lowercase hash))"

definition fm_validate_pair :: "string \<Rightarrow> string \<Rightarrow> (fs_mutation_error, unit) result" where
  "fm_validate_pair source destination =
     bind_r (fm_validate_path source) (\<lambda>_.
     bind_r (fm_validate_path destination) (\<lambda>_.
       if source = destination then Err FmInvalidPath else Ok ()))"

definition fm_request_validate :: "fs_mutation_request \<Rightarrow> (fs_mutation_error, unit) result" where
  "fm_request_validate r =
     (case r of
        FmWrite path contents pre \<Rightarrow>
          bind_r (fm_validate_path path) (\<lambda>_.
            if length contents > HARD_MAX_WRITE_TEXT_BYTES
            then Err (FmContentTooLarge (length contents))
            else (case pre of MatchSha256 hash \<Rightarrow> fm_validate_sha256 hash | CreateOnly \<Rightarrow> Ok ()))
      | FmEdit path expected old new \<Rightarrow>
          bind_r (fm_validate_path path) (\<lambda>_.
          bind_r (fm_validate_sha256 expected) (\<lambda>_.
            if old = [] \<or> length old > HARD_MAX_EDIT_FRAGMENT_BYTES
               \<or> length new > HARD_MAX_EDIT_FRAGMENT_BYTES
            then Err FmInvalidEditFragments else Ok ()))
      | FmCreateDirectory path \<Rightarrow> fm_validate_path path
      | FmTrash path \<Rightarrow> fm_validate_path path
      | FmCopy source destination \<Rightarrow> fm_validate_pair source destination
      | FmMove source destination \<Rightarrow> fm_validate_pair source destination
      | FmTrashList \<Rightarrow> Ok ()
      | FmTempList \<Rightarrow> Ok ()
      | FmTempGc \<Rightarrow> Ok ()
      | FmTrashRestore i \<Rightarrow> fm_validate_control_id i
      | FmTrashPurgePrepare i \<Rightarrow> fm_validate_control_id i
      | FmTempRelease i \<Rightarrow> fm_validate_control_id i
      | FmTrashPurgeConfirm i token \<Rightarrow>
          bind_r (fm_validate_control_id i) (\<lambda>_. fm_validate_control_id token)
      | FmTempCreate _ description ttl \<Rightarrow>
          if trim description = [] \<or> length description > HARD_MAX_FS_CONTROL_DESCRIPTION_BYTES
          then Err FmInvalidDescription
          else if ttl = 0 \<or> ttl > HARD_MAX_MANAGED_TEMP_TTL_MS then Err (FmInvalidTempTtl ttl)
          else Ok ())"

definition fm_request_write ::
    "string \<Rightarrow> string \<Rightarrow> fs_write_precondition \<Rightarrow> (fs_mutation_error, fs_mutation_request) result" where
  "fm_request_write path contents pre =
     (let r = FmWrite path contents pre in bind_r (fm_request_validate r) (\<lambda>_. Ok r))"

definition fm_request_edit ::
    "string \<Rightarrow> string \<Rightarrow> string \<Rightarrow> string \<Rightarrow> (fs_mutation_error, fs_mutation_request) result" where
  "fm_request_edit path expected old new =
     (let r = FmEdit path expected old new in bind_r (fm_request_validate r) (\<lambda>_. Ok r))"

definition fm_request_into_message ::
    "fs_mutation_request serde \<Rightarrow> fs_mutation_request \<Rightarrow> (fs_mutation_error, inner_message) result" where
  "fm_request_into_message j r =
     bind_r (fm_request_validate r) (\<lambda>_.
     bind_r (map_err FmJson (to_vec j r)) (\<lambda>payload.
       map_err FmInner (inner_message_new ''fs_mutation'' payload)))"

definition fm_request_from_message ::
    "fs_mutation_request serde \<Rightarrow> inner_message \<Rightarrow> (fs_mutation_error, fs_mutation_request) result" where
  "fm_request_from_message j m =
     (if im_kind m \<noteq> ''fs_mutation'' then Err (FmUnexpectedKind (im_kind m))
      else bind_r (map_err FmJson (from_slice j (im_payload m))) (\<lambda>r.
        bind_r (fm_request_validate r) (\<lambda>_. Ok r)))"

datatype fs_mutation_error_code =
    FmcInvalidRequest | FmcDenied | FmcNotFound | FmcAlreadyExists | FmcConflict | FmcNotFile
  | FmcContentLimit | FmcCapacity | FmcIo | FmcTimeout | FmcUnsupported

record fs_mutation_error_body =
  fme_code :: fs_mutation_error_code
  fme_message :: string

record fs_mutation_result =
  fmr_sha256 :: string
  fmr_size :: u64
  fmr_created :: bool

definition check_trash_item :: "fs_trash_item \<Rightarrow> (fs_mutation_error, unit) result" where
  "check_trash_item item =
     bind_r (fm_validate_control_id (ti_trash_id item)) (\<lambda>_. fm_validate_path (ti_original_path item))"

definition check_temp :: "fs_managed_temp_resource \<Rightarrow> (fs_mutation_error, unit) result" where
  "check_temp item =
     bind_r (fm_validate_control_id (mt_resource_id item)) (\<lambda>_.
     bind_r (fm_validate_path (mt_path item)) (\<lambda>_.
       if trim (mt_description item) = []
          \<or> length (mt_description item) > HARD_MAX_FS_CONTROL_DESCRIPTION_BYTES
       then Err FmInvalidDescription else Ok ()))"

definition at_most_items :: "'a list \<Rightarrow> ('a \<Rightarrow> (fs_mutation_error, unit) result)
    \<Rightarrow> (fs_mutation_error, unit) result" where
  "at_most_items items check =
     (if length items > HARD_MAX_FS_CONTROL_ITEMS then Err (FmTooManyControlItems (length items))
      else for_each check items)"

definition control_result_validate :: "fs_control_result \<Rightarrow> (fs_mutation_error, unit) result" where
  "control_result_validate r =
     (case r of
        CreatedDirectory path \<Rightarrow> fm_validate_path path
      | Copied source destination \<Rightarrow>
          bind_r (fm_validate_path source) (\<lambda>_. fm_validate_path destination)
      | Moved source destination \<Rightarrow>
          bind_r (fm_validate_path source) (\<lambda>_. fm_validate_path destination)
      | Trashed item \<Rightarrow> check_trash_item item
      | TrashItems items \<Rightarrow> at_most_items items check_trash_item
      | Restored i path \<Rightarrow> bind_r (fm_validate_control_id i) (\<lambda>_. fm_validate_path path)
      | PurgePrepared i token _ \<Rightarrow>
          bind_r (fm_validate_control_id i) (\<lambda>_. fm_validate_control_id token)
      | Purged i \<Rightarrow> fm_validate_control_id i
      | TempCreated item \<Rightarrow> check_temp item
      | TempItems items \<Rightarrow> at_most_items items check_temp
      | TempReleased i \<Rightarrow> fm_validate_control_id i
      | TempGcDone ids \<Rightarrow> at_most_items ids fm_validate_control_id)"

datatype fs_mutation_reply =
    FmrResult fs_mutation_result
  | FmrControl fs_control_result
  | FmrError fs_mutation_error_body

definition fm_reply_error :: "fs_mutation_error_code \<Rightarrow> string \<Rightarrow> fs_mutation_reply option" where
  "fm_reply_error c message =
     map_option (\<lambda>m. FmrError \<lparr>fme_code = c, fme_message = m\<rparr>)
       (bounded_message MAX_MUTATION_ERROR_MESSAGE_BYTES message)"

definition fm_validate_reply :: "fs_mutation_reply \<Rightarrow> (fs_mutation_error, unit) result" where
  "fm_validate_reply r =
     (case r of
        FmrResult p \<Rightarrow>
          bind_r (fm_validate_sha256 (fmr_sha256 p)) (\<lambda>_.
            if fmr_size p > word_of_nat HARD_MAX_WRITE_TEXT_BYTES
            then Err (FmContentTooLarge (unat (fmr_size p))) else Ok ())
      | FmrControl p \<Rightarrow> control_result_validate p
      | FmrError e \<Rightarrow>
          if length (fme_message e) > MAX_MUTATION_ERROR_MESSAGE_BYTES
          then Err FmErrorMessageTooLarge else Ok ())"

definition fm_reply_into_message ::
    "fs_mutation_reply serde \<Rightarrow> fs_mutation_reply \<Rightarrow> (fs_mutation_error, inner_message) result" where
  "fm_reply_into_message j r =
     bind_r (fm_validate_reply r) (\<lambda>_.
     bind_r (map_err FmJson (to_vec j r)) (\<lambda>payload.
       map_err FmInner (inner_message_new ''fs_mutation_result'' payload)))"

definition fm_reply_from_message ::
    "fs_mutation_reply serde \<Rightarrow> inner_message \<Rightarrow> (fs_mutation_error, fs_mutation_reply) result" where
  "fm_reply_from_message j m =
     (if im_kind m \<noteq> ''fs_mutation_result'' then Err (FmUnexpectedKind (im_kind m))
      else bind_r (map_err FmJson (from_slice j (im_payload m))) (\<lambda>r.
        bind_r (fm_validate_reply r) (\<lambda>_. Ok r)))"

subsection \<open>Queries\<close>

definition HARD_MAX_FS_PATTERN_BYTES :: nat where [bounds_simps]: "HARD_MAX_FS_PATTERN_BYTES = 1024"
definition HARD_MAX_FS_RESULT_ITEMS :: u32 where [bounds_simps]: "HARD_MAX_FS_RESULT_ITEMS = 1024"
definition HARD_MAX_GREP_LINE_BYTES :: nat where [bounds_simps]: "HARD_MAX_GREP_LINE_BYTES = 16 * 1024"
definition HARD_MAX_GREP_SCAN_BYTES :: u64 where
  [bounds_simps]: "HARD_MAX_GREP_SCAN_BYTES = 32 * 1024 * 1024"
definition MAX_FS_ERROR_MESSAGE_BYTES :: nat where [bounds_simps]: "MAX_FS_ERROR_MESSAGE_BYTES = 512"

datatype fs_query_error =
    FqInvalidPath
  | FqInvalidPattern
  | FqInvalidLimit u32
  | FqInvalidByteLimit u32
  | FqInvalidScanLimit u64
  | FqTooManyResultItems usize
  | FqReplyTooLarge usize
  | FqGrepLineTooLarge usize
  | FqErrorMessageTooLarge
  | FqUnexpectedKind string
  | FqJson json_error
  | FqInner inner_error

datatype fs_query_request =
    FqPathInfo string
  | FqGlob string string u64 u32 u32
  | FqGrep string string "string option" u64 u32 u32 u64

definition fq_validate_path :: "string \<Rightarrow> (fs_query_error, unit) result" where
  "fq_validate_path path =
     (let p = trim path in
      if p = [] \<or> length p > HARD_MAX_READ_ROOT_BYTES \<or> CHR 0x00 \<in> set p
      then Err FqInvalidPath else Ok ())"

definition fq_validate_pattern :: "string \<Rightarrow> (fs_query_error, unit) result" where
  "fq_validate_pattern pattern =
     (let p = trim pattern in
      if p = [] \<or> length p > HARD_MAX_FS_PATTERN_BYTES \<or> CHR 0x00 \<in> set p
      then Err FqInvalidPattern else Ok ())"

definition fq_validate_page_bounds :: "u32 \<Rightarrow> u32 \<Rightarrow> (fs_query_error, unit) result" where
  "fq_validate_page_bounds limit max_bytes =
     (if limit = 0 \<or> limit > HARD_MAX_FS_RESULT_ITEMS then Err (FqInvalidLimit limit)
      else if max_bytes = 0 \<or> unat max_bytes > HARD_MAX_READ_RESULT_BYTES
      then Err (FqInvalidByteLimit max_bytes)
      else Ok ())"

definition fq_request_validate :: "fs_query_request \<Rightarrow> (fs_query_error, unit) result" where
  "fq_request_validate r =
     (case r of
        FqPathInfo path \<Rightarrow> fq_validate_path path
      | FqGlob root pattern _ limit max_bytes \<Rightarrow>
          bind_r (fq_validate_path root) (\<lambda>_.
          bind_r (fq_validate_pattern pattern) (\<lambda>_. fq_validate_page_bounds limit max_bytes))
      | FqGrep root pattern incl _ limit max_bytes scan \<Rightarrow>
          bind_r (fq_validate_path root) (\<lambda>_.
          bind_r (fq_validate_pattern pattern) (\<lambda>_.
          bind_r (case incl of None \<Rightarrow> Ok () | Some p \<Rightarrow> fq_validate_pattern p) (\<lambda>_.
          bind_r (fq_validate_page_bounds limit max_bytes) (\<lambda>_.
            if scan = 0 \<or> scan > HARD_MAX_GREP_SCAN_BYTES
            then Err (FqInvalidScanLimit scan) else Ok ())))))"

definition fq_path_info :: "string \<Rightarrow> (fs_query_error, fs_query_request) result" where
  "fq_path_info path =
     (let r = FqPathInfo path in bind_r (fq_request_validate r) (\<lambda>_. Ok r))"

definition fq_glob ::
    "string \<Rightarrow> string \<Rightarrow> u64 \<Rightarrow> u32 \<Rightarrow> u32 \<Rightarrow> (fs_query_error, fs_query_request) result" where
  "fq_glob root pattern cursor limit max_bytes =
     (let r = FqGlob root pattern cursor limit max_bytes in
      bind_r (fq_request_validate r) (\<lambda>_. Ok r))"

definition fq_grep ::
    "string \<Rightarrow> string \<Rightarrow> string option \<Rightarrow> u64 \<Rightarrow> u32 \<Rightarrow> u32 \<Rightarrow> u64
     \<Rightarrow> (fs_query_error, fs_query_request) result" where
  "fq_grep root pattern incl cursor limit max_bytes scan =
     (let r = FqGrep root pattern incl cursor limit max_bytes scan in
      bind_r (fq_request_validate r) (\<lambda>_. Ok r))"

definition fq_request_into_message ::
    "fs_query_request serde \<Rightarrow> fs_query_request \<Rightarrow> (fs_query_error, inner_message) result" where
  "fq_request_into_message j r =
     bind_r (fq_request_validate r) (\<lambda>_.
     bind_r (map_err FqJson (to_vec j r)) (\<lambda>payload.
       map_err FqInner (inner_message_new ''fs_query'' payload)))"

definition fq_request_from_message ::
    "fs_query_request serde \<Rightarrow> inner_message \<Rightarrow> (fs_query_error, fs_query_request) result" where
  "fq_request_from_message j m =
     (if im_kind m \<noteq> ''fs_query'' then Err (FqUnexpectedKind (im_kind m))
      else bind_r (map_err FqJson (from_slice j (im_payload m))) (\<lambda>r.
        bind_r (fq_request_validate r) (\<lambda>_. Ok r)))"

datatype fs_path_kind = KindFile | KindDirectory | KindSymlink | KindOther

record fs_path_info =
  pi_path :: string
  pi_kind :: fs_path_kind
  pi_size :: u64
  pi_modified_unix_ms :: "u64 option"

record fs_glob_page =
  gp_entries :: "fs_path_info list"
  gp_next_cursor :: "u64 option"
  gp_truncated :: bool

record fs_grep_match =
  gm_path :: string
  gm_line_number :: u64
  gm_line :: string

record fs_grep_page =
  gr_matches :: "fs_grep_match list"
  gr_next_cursor :: "u64 option"
  gr_truncated :: bool
  gr_scanned_bytes :: u64

datatype fs_query_error_code =
    FqcInvalidRequest | FqcDenied | FqcNotFound | FqcNotDirectory | FqcIo | FqcTimeout
  | FqcScanLimit | FqcContentLimit

record fs_query_error_body =
  fqe_code :: fs_query_error_code
  fqe_message :: string

datatype fs_query_reply =
    FqrPathInfo fs_path_info
  | FqrGlob fs_glob_page
  | FqrGrep fs_grep_page
  | FqrError fs_query_error_body

definition fq_reply_error :: "fs_query_error_code \<Rightarrow> string \<Rightarrow> fs_query_reply option" where
  "fq_reply_error c message =
     map_option (\<lambda>m. FqrError \<lparr>fqe_code = c, fqe_message = m\<rparr>)
       (bounded_message MAX_FS_ERROR_MESSAGE_BYTES message)"

definition fq_validate_info :: "fs_path_info \<Rightarrow> (fs_query_error, unit) result" where
  "fq_validate_info i =
     (if pi_path i = [] \<or> length (pi_path i) > HARD_MAX_READ_ROOT_BYTES
      then Err FqInvalidPath else Ok ())"

definition fq_validate_reply :: "fs_query_reply \<Rightarrow> (fs_query_error, unit) result" where
  "fq_validate_reply r =
     (case r of
        FqrPathInfo i \<Rightarrow> fq_validate_info i
      | FqrGlob p \<Rightarrow>
          if length (gp_entries p) > unat HARD_MAX_FS_RESULT_ITEMS
          then Err (FqTooManyResultItems (length (gp_entries p)))
          else for_each fq_validate_info (gp_entries p)
      | FqrGrep p \<Rightarrow>
          if length (gr_matches p) > unat HARD_MAX_FS_RESULT_ITEMS
          then Err (FqTooManyResultItems (length (gr_matches p)))
          else for_each (\<lambda>item. bind_r (fq_validate_path (gm_path item)) (\<lambda>_.
                 if length (gm_line item) > HARD_MAX_GREP_LINE_BYTES
                 then Err (FqGrepLineTooLarge (length (gm_line item))) else Ok ())) (gr_matches p)
      | FqrError e \<Rightarrow>
          if length (fqe_message e) > MAX_FS_ERROR_MESSAGE_BYTES
          then Err FqErrorMessageTooLarge else Ok ())"

definition fq_reply_into_message ::
    "fs_query_reply serde \<Rightarrow> fs_query_reply \<Rightarrow> (fs_query_error, inner_message) result" where
  "fq_reply_into_message j r =
     bind_r (fq_validate_reply r) (\<lambda>_.
     bind_r (map_err FqJson (to_vec j r)) (\<lambda>payload.
       if length payload > HARD_MAX_READ_RESULT_BYTES then Err (FqReplyTooLarge (length payload))
       else map_err FqInner (inner_message_new ''fs_query_result'' payload)))"

definition fq_reply_from_message ::
    "fs_query_reply serde \<Rightarrow> inner_message \<Rightarrow> (fs_query_error, fs_query_reply) result" where
  "fq_reply_from_message j m =
     (if im_kind m \<noteq> ''fs_query_result'' then Err (FqUnexpectedKind (im_kind m))
      else if length (im_payload m) > HARD_MAX_READ_RESULT_BYTES
      then Err (FqReplyTooLarge (length (im_payload m)))
      else bind_r (map_err FqJson (from_slice j (im_payload m))) (\<lambda>r.
        bind_r (fq_validate_reply r) (\<lambda>_. Ok r)))"

subsection \<open>What the validators promise\<close>

definition control_id_ok :: "string \<Rightarrow> bool" where
  "control_id_ok v \<longleftrightarrow> v \<noteq> [] \<and> length v \<le> 128
     \<and> (\<forall>c \<in> set v. is_ascii_alphanumeric c \<or> c = CHR ''-'' \<or> c = CHR ''_'')"

definition any_sha256_hex :: "string \<Rightarrow> bool" where
  "any_sha256_hex h \<longleftrightarrow> length h = 64 \<and> (\<forall>c \<in> set h. is_ascii_hexdigit c)"

lemma fm_validate_path_Ok: "fm_validate_path p = Ok () \<longleftrightarrow> shell_path_ok 2048 p"
  by (auto simp: fm_validate_path_def shell_path_ok_def Let_def bounds_simps)

lemma fq_validate_path_Ok: "fq_validate_path p = Ok () \<longleftrightarrow> shell_path_ok 2048 p"
  by (auto simp: fq_validate_path_def shell_path_ok_def Let_def bounds_simps)

lemma fq_validate_pattern_Ok: "fq_validate_pattern p = Ok () \<longleftrightarrow> shell_path_ok 1024 p"
  by (auto simp: fq_validate_pattern_def shell_path_ok_def Let_def bounds_simps)

lemma fm_validate_control_id_Ok: "fm_validate_control_id v = Ok () \<longleftrightarrow> control_id_ok v"
  by (auto simp: fm_validate_control_id_def control_id_ok_def list_all_iff)

lemma fm_validate_sha256_Ok: "fm_validate_sha256 h = Ok () \<longleftrightarrow> any_sha256_hex h"
  by (auto simp: fm_validate_sha256_def any_sha256_hex_def list_all_iff)

text \<open>Normalising a hash gives the lower-case form the other protocols require.\<close>

lemma normalize_sha256_hex_Ok:
  "normalize_sha256_hex h = Ok h' \<longleftrightarrow> any_sha256_hex h \<and> h' = to_ascii_lowercase h"
  by (auto simp: normalize_sha256_hex_def bind_r_Ok fm_validate_sha256_Ok)

lemma normalize_sha256_hex_lower: "normalize_sha256_hex h = Ok h' \<Longrightarrow> is_sha256_hex h'"
  by (auto simp: normalize_sha256_hex_Ok any_sha256_hex_def is_sha256_hex_def ascii_lower_hexdigit list_all_iff)

definition fm_request_ok :: "fs_mutation_request \<Rightarrow> bool" where
  "fm_request_ok r =
     (case r of
        FmWrite path contents pre \<Rightarrow> shell_path_ok 2048 path \<and> length contents \<le> 32768
          \<and> (case pre of MatchSha256 h \<Rightarrow> any_sha256_hex h | CreateOnly \<Rightarrow> True)
      | FmEdit path expected old new \<Rightarrow> shell_path_ok 2048 path \<and> any_sha256_hex expected
          \<and> old \<noteq> [] \<and> length old \<le> 16384 \<and> length new \<le> 16384
      | FmCreateDirectory path \<Rightarrow> shell_path_ok 2048 path
      | FmTrash path \<Rightarrow> shell_path_ok 2048 path
      | FmCopy a b \<Rightarrow> shell_path_ok 2048 a \<and> shell_path_ok 2048 b \<and> a \<noteq> b
      | FmMove a b \<Rightarrow> shell_path_ok 2048 a \<and> shell_path_ok 2048 b \<and> a \<noteq> b
      | FmTrashRestore i \<Rightarrow> control_id_ok i
      | FmTrashPurgePrepare i \<Rightarrow> control_id_ok i
      | FmTempRelease i \<Rightarrow> control_id_ok i
      | FmTrashPurgeConfirm i t \<Rightarrow> control_id_ok i \<and> control_id_ok t
      | FmTempCreate _ d ttl \<Rightarrow> trim d \<noteq> [] \<and> length d \<le> 512 \<and> 0 < unat ttl \<and> unat ttl \<le> 604800000
      | _ \<Rightarrow> True)"

lemma fm_request_validate_Ok: "fm_request_validate r = Ok () \<longleftrightarrow> fm_request_ok r"
  by (cases r)
     (auto simp: fm_request_validate_def fm_request_ok_def fm_validate_pair_def result_simps
       fm_validate_path_Ok fm_validate_sha256_Ok fm_validate_control_id_Ok bounds_simps
       word_less_nat_alt unat_gt_0 split: fs_write_precondition.splits)

definition trash_item_ok :: "fs_trash_item \<Rightarrow> bool" where
  "trash_item_ok i \<longleftrightarrow> control_id_ok (ti_trash_id i) \<and> shell_path_ok 2048 (ti_original_path i)"

definition temp_ok :: "fs_managed_temp_resource \<Rightarrow> bool" where
  "temp_ok i \<longleftrightarrow> control_id_ok (mt_resource_id i) \<and> shell_path_ok 2048 (mt_path i)
     \<and> trim (mt_description i) \<noteq> [] \<and> length (mt_description i) \<le> 512"

definition control_result_ok :: "fs_control_result \<Rightarrow> bool" where
  "control_result_ok r =
     (case r of
        CreatedDirectory p \<Rightarrow> shell_path_ok 2048 p
      | Copied a b \<Rightarrow> shell_path_ok 2048 a \<and> shell_path_ok 2048 b
      | Moved a b \<Rightarrow> shell_path_ok 2048 a \<and> shell_path_ok 2048 b
      | Trashed i \<Rightarrow> trash_item_ok i
      | TrashItems is \<Rightarrow> length is \<le> 128 \<and> (\<forall>i \<in> set is. trash_item_ok i)
      | Restored i p \<Rightarrow> control_id_ok i \<and> shell_path_ok 2048 p
      | PurgePrepared i t _ \<Rightarrow> control_id_ok i \<and> control_id_ok t
      | Purged i \<Rightarrow> control_id_ok i
      | TempCreated i \<Rightarrow> temp_ok i
      | TempItems is \<Rightarrow> length is \<le> 128 \<and> (\<forall>i \<in> set is. temp_ok i)
      | TempReleased i \<Rightarrow> control_id_ok i
      | TempGcDone is \<Rightarrow> length is \<le> 128 \<and> (\<forall>i \<in> set is. control_id_ok i))"

lemma check_trash_item_Ok: "check_trash_item i = Ok () \<longleftrightarrow> trash_item_ok i"
  by (auto simp: check_trash_item_def trash_item_ok_def bind_r_Ok fm_validate_control_id_Ok
      fm_validate_path_Ok)

lemma check_temp_Ok: "check_temp i = Ok () \<longleftrightarrow> temp_ok i"
  by (auto simp: check_temp_def temp_ok_def result_simps fm_validate_control_id_Ok
      fm_validate_path_Ok bounds_simps)

lemma control_result_validate_Ok: "control_result_validate r = Ok () \<longleftrightarrow> control_result_ok r"
  by (cases r)
     (auto simp: control_result_validate_def control_result_ok_def at_most_items_def result_simps
       fm_validate_path_Ok fm_validate_control_id_Ok check_trash_item_Ok check_temp_Ok bounds_simps)

definition fm_reply_ok :: "fs_mutation_reply \<Rightarrow> bool" where
  "fm_reply_ok r =
     (case r of
        FmrResult p \<Rightarrow> any_sha256_hex (fmr_sha256 p) \<and> unat (fmr_size p) \<le> 32768
      | FmrControl p \<Rightarrow> control_result_ok p
      | FmrError e \<Rightarrow> length (fme_message e) \<le> 512)"

lemma fm_validate_reply_Ok: "fm_validate_reply r = Ok () \<longleftrightarrow> fm_reply_ok r"
  by (cases r) (auto simp: fm_validate_reply_def fm_reply_ok_def result_simps fm_validate_sha256_Ok
      control_result_validate_Ok bounds_simps word_less_nat_alt)

definition fq_bounds_ok :: "u32 \<Rightarrow> u32 \<Rightarrow> bool" where
  "fq_bounds_ok limit bytes \<longleftrightarrow>
     0 < unat limit \<and> unat limit \<le> 1024 \<and> 0 < unat bytes \<and> unat bytes \<le> 49152"

definition fq_request_ok :: "fs_query_request \<Rightarrow> bool" where
  "fq_request_ok r =
     (case r of
        FqPathInfo p \<Rightarrow> shell_path_ok 2048 p
      | FqGlob root pat _ limit bytes \<Rightarrow> shell_path_ok 2048 root \<and> shell_path_ok 1024 pat
          \<and> fq_bounds_ok limit bytes
      | FqGrep root pat incl _ limit bytes scan \<Rightarrow> shell_path_ok 2048 root \<and> shell_path_ok 1024 pat
          \<and> (\<forall>p. incl = Some p \<longrightarrow> shell_path_ok 1024 p) \<and> fq_bounds_ok limit bytes
          \<and> 0 < unat scan \<and> unat scan \<le> 33554432)"

lemma fq_validate_page_bounds_Ok: "fq_validate_page_bounds l b = Ok () \<longleftrightarrow> fq_bounds_ok l b"
  by (auto simp: fq_validate_page_bounds_def fq_bounds_ok_def bounds_simps word_less_nat_alt unat_gt_0)

lemma fq_request_validate_Ok: "fq_request_validate r = Ok () \<longleftrightarrow> fq_request_ok r"
  by (cases r)
     (auto simp: fq_request_validate_def fq_request_ok_def result_simps fq_validate_path_Ok
       fq_validate_pattern_Ok fq_validate_page_bounds_Ok bounds_simps word_less_nat_alt unat_gt_0
       split: option.splits)

definition fq_reply_ok :: "fs_query_reply \<Rightarrow> bool" where
  "fq_reply_ok r =
     (let info_ok = (\<lambda>i. pi_path i \<noteq> [] \<and> length (pi_path i) \<le> 2048) in
      case r of
        FqrPathInfo i \<Rightarrow> info_ok i
      | FqrGlob p \<Rightarrow> length (gp_entries p) \<le> 1024 \<and> (\<forall>i \<in> set (gp_entries p). info_ok i)
      | FqrGrep p \<Rightarrow> length (gr_matches p) \<le> 1024
          \<and> (\<forall>m \<in> set (gr_matches p). shell_path_ok 2048 (gm_path m) \<and> length (gm_line m) \<le> 16384)
      | FqrError e \<Rightarrow> length (fqe_message e) \<le> 512)"

lemma fq_validate_reply_Ok: "fq_validate_reply r = Ok () \<longleftrightarrow> fq_reply_ok r"
  by (cases r) (auto simp: fq_validate_reply_def fq_reply_ok_def fq_validate_info_def result_simps
      fq_validate_path_Ok bounds_simps Let_def)

interpretation fm_request: message_codec "''fs_mutation''" None fm_request_ok j
    "fm_request_into_message j" "fm_request_from_message j" for j
  by unfold_locales (auto simp: fm_request_into_message_def fm_request_from_message_def bind_r_Ok
      fm_request_validate_Ok)

interpretation fm_reply: message_codec "''fs_mutation_result''" None fm_reply_ok j
    "fm_reply_into_message j" "fm_reply_from_message j" for j
  by unfold_locales (auto simp: fm_reply_into_message_def fm_reply_from_message_def bind_r_Ok
      fm_validate_reply_Ok)

interpretation fq_request: message_codec "''fs_query''" None fq_request_ok j
    "fq_request_into_message j" "fq_request_from_message j" for j
  by unfold_locales (auto simp: fq_request_into_message_def fq_request_from_message_def bind_r_Ok
      fq_request_validate_Ok)

interpretation fq_reply: message_codec "''fs_query_result''" "Some 49152" fq_reply_ok j
    "fq_reply_into_message j" "fq_reply_from_message j" for j
  by unfold_locales (auto simp: fq_reply_into_message_def fq_reply_from_message_def result_simps bind_r_Ok
      fq_validate_reply_Ok bounds_simps not_less)

end
