(* ===== verification/Tcp_Forward.thy ===== *)
theory Tcp_Forward
  imports File_Transfer
begin

section \<open>The TCP-forward protocol (clew-transport, tcp_forward.rs)\<close>

text \<open>
  Requests to open, exchange on and close a forwarded connection, their replies, validation and
  messages. Base64 and the JSON library are parameters.
\<close>

definition HARD_MAX_TCP_FORWARD_HOST_BYTES :: nat where
  [bounds_simps]: "HARD_MAX_TCP_FORWARD_HOST_BYTES = 255"
definition HARD_MAX_TCP_FORWARD_CHUNK_BYTES :: u32 where
  [bounds_simps]: "HARD_MAX_TCP_FORWARD_CHUNK_BYTES = 12 * 1024"
definition HARD_MAX_TCP_FORWARD_CONNECT_TIMEOUT_MS :: u32 where
  [bounds_simps]: "HARD_MAX_TCP_FORWARD_CONNECT_TIMEOUT_MS = 10000"
definition HARD_MAX_TCP_FORWARD_READ_WAIT_MS :: u32 where
  [bounds_simps]: "HARD_MAX_TCP_FORWARD_READ_WAIT_MS = 250"
definition HARD_MAX_TCP_FORWARD_CONNECTIONS_PER_SESSION :: nat where
  [bounds_simps]: "HARD_MAX_TCP_FORWARD_CONNECTIONS_PER_SESSION = 64"
definition MAX_TCP_FORWARD_ERROR_MESSAGE_BYTES :: nat where
  [bounds_simps]: "MAX_TCP_FORWARD_ERROR_MESSAGE_BYTES = 512"

datatype tcp_forward_error =
    TfInvalidDestination
  | TfInvalidConnectTimeout u32
  | TfInvalidReadLimit u32
  | TfInvalidReadWait u32
  | TfChunkTooLarge usize
  | TfUnexpectedRequestShape
  | TfUnexpectedReplyShape
  | TfUnexpectedKind string
  | TfErrorMessageTooLarge
  | TfJson json_error
  | TfBase64 string
  | TfInner inner_error

record tcp_forward_destination =
  td_host :: string
  td_port :: u16

definition destination_validate :: "tcp_forward_destination \<Rightarrow> (tcp_forward_error, unit) result" where
  "destination_validate d =
     (let host = trim (td_host d) in
      if host = [] \<or> length host > HARD_MAX_TCP_FORWARD_HOST_BYTES \<or> \<not> is_ascii host
         \<or> list_ex (\<lambda>c. is_ascii_control c \<or> is_ascii_whitespace c) host \<or> td_port d = 0
      then Err TfInvalidDestination else Ok ())"

definition destination_new :: "string \<Rightarrow> u16 \<Rightarrow> (tcp_forward_error, tcp_forward_destination) result" where
  "destination_new host port =
     (let d = \<lparr>td_host = host, td_port = port\<rparr> in bind_r (destination_validate d) (\<lambda>_. Ok d))"

datatype tcp_forward_request =
    TfOpen forward_id connection_id tcp_forward_destination u32
  | TfExchange connection_id string bool u32 u32
  | TfClose connection_id

definition tf_request_validate :: "base64 \<Rightarrow> tcp_forward_request \<Rightarrow> (tcp_forward_error, unit) result" where
  "tf_request_validate b r =
     (case r of
        TfOpen _ _ d timeout \<Rightarrow>
          bind_r (destination_validate d) (\<lambda>_.
            if timeout = 0 \<or> timeout > HARD_MAX_TCP_FORWARD_CONNECT_TIMEOUT_MS
            then Err (TfInvalidConnectTimeout timeout) else Ok ())
      | TfExchange _ data _ limit wait \<Rightarrow>
          bind_r (map_err TfBase64 (b64_decode b data)) (\<lambda>w.
            if length w > unat HARD_MAX_TCP_FORWARD_CHUNK_BYTES then Err (TfChunkTooLarge (length w))
            else if limit = 0 \<or> limit > HARD_MAX_TCP_FORWARD_CHUNK_BYTES
            then Err (TfInvalidReadLimit limit)
            else if wait = 0 \<or> wait > HARD_MAX_TCP_FORWARD_READ_WAIT_MS
            then Err (TfInvalidReadWait wait)
            else Ok ())
      | TfClose _ \<Rightarrow> Ok ())"

definition tf_request_open ::
    "base64 \<Rightarrow> forward_id \<Rightarrow> connection_id \<Rightarrow> tcp_forward_destination \<Rightarrow> u32
     \<Rightarrow> (tcp_forward_error, tcp_forward_request) result" where
  "tf_request_open b fid cid d timeout =
     (let r = TfOpen fid cid d timeout in bind_r (tf_request_validate b r) (\<lambda>_. Ok r))"

definition tf_request_exchange ::
    "base64 \<Rightarrow> connection_id \<Rightarrow> bytes \<Rightarrow> bool \<Rightarrow> u32 \<Rightarrow> u32
     \<Rightarrow> (tcp_forward_error, tcp_forward_request) result" where
  "tf_request_exchange b cid w eof limit wait =
     (if length w > unat HARD_MAX_TCP_FORWARD_CHUNK_BYTES then Err (TfChunkTooLarge (length w))
      else (let r = TfExchange cid (b64_encode b w) eof limit wait in
        bind_r (tf_request_validate b r) (\<lambda>_. Ok r)))"

definition tf_write_bytes :: "base64 \<Rightarrow> tcp_forward_request \<Rightarrow> (tcp_forward_error, bytes) result" where
  "tf_write_bytes b r =
     (case r of
        TfExchange _ data _ _ _ \<Rightarrow> map_err TfBase64 (b64_decode b data)
      | _ \<Rightarrow> Err TfUnexpectedRequestShape)"

definition tf_request_into_message ::
    "base64 \<Rightarrow> tcp_forward_request serde \<Rightarrow> tcp_forward_request \<Rightarrow> (tcp_forward_error, inner_message) result" where
  "tf_request_into_message b j r =
     bind_r (tf_request_validate b r) (\<lambda>_.
     bind_r (map_err TfJson (to_vec j r)) (\<lambda>payload.
       map_err TfInner (inner_message_new ''tcp_forward'' payload)))"

definition tf_request_from_message ::
    "base64 \<Rightarrow> tcp_forward_request serde \<Rightarrow> inner_message \<Rightarrow> (tcp_forward_error, tcp_forward_request) result" where
  "tf_request_from_message b j m =
     (if im_kind m \<noteq> ''tcp_forward'' then Err (TfUnexpectedKind (im_kind m))
      else bind_r (map_err TfJson (from_slice j (im_payload m))) (\<lambda>r.
        bind_r (tf_request_validate b r) (\<lambda>_. Ok r)))"

datatype tcp_forward_error_code =
    TfcInvalidRequest | TfcDenied | TfcNotFound | TfcCapacity | TfcConnectFailed | TfcIo | TfcTimeout

record tcp_forward_error_body =
  tfe_code :: tcp_forward_error_code
  tfe_message :: string

datatype tcp_forward_reply =
    TfrOpened connection_id
  | TfrExchanged connection_id string bool
  | TfrClosed connection_id
  | TfrError tcp_forward_error_body

definition tf_reply_exchanged ::
    "base64 \<Rightarrow> connection_id \<Rightarrow> bytes \<Rightarrow> bool \<Rightarrow> (tcp_forward_error, tcp_forward_reply) result" where
  "tf_reply_exchanged b cid bs eof =
     (if length bs > unat HARD_MAX_TCP_FORWARD_CHUNK_BYTES then Err (TfChunkTooLarge (length bs))
      else Ok (TfrExchanged cid (b64_encode b bs) eof))"

definition tf_reply_error :: "tcp_forward_error_code \<Rightarrow> string \<Rightarrow> tcp_forward_reply option" where
  "tf_reply_error c message =
     map_option (\<lambda>m. TfrError \<lparr>tfe_code = c, tfe_message = m\<rparr>)
       (bounded_message MAX_TCP_FORWARD_ERROR_MESSAGE_BYTES message)"

definition tf_read_bytes :: "base64 \<Rightarrow> tcp_forward_reply \<Rightarrow> (tcp_forward_error, bytes) result" where
  "tf_read_bytes b r =
     (case r of
        TfrExchanged _ data _ \<Rightarrow> map_err TfBase64 (b64_decode b data)
      | _ \<Rightarrow> Err TfUnexpectedReplyShape)"

definition tf_validate_reply :: "base64 \<Rightarrow> tcp_forward_reply \<Rightarrow> (tcp_forward_error, unit) result" where
  "tf_validate_reply b r =
     (case r of
        TfrExchanged _ data _ \<Rightarrow>
          bind_r (map_err TfBase64 (b64_decode b data)) (\<lambda>bs.
            if length bs > unat HARD_MAX_TCP_FORWARD_CHUNK_BYTES
            then Err (TfChunkTooLarge (length bs)) else Ok ())
      | TfrError e \<Rightarrow>
          if length (tfe_message e) > MAX_TCP_FORWARD_ERROR_MESSAGE_BYTES
          then Err TfErrorMessageTooLarge else Ok ()
      | TfrOpened _ \<Rightarrow> Ok ()
      | TfrClosed _ \<Rightarrow> Ok ())"

definition tf_reply_into_message ::
    "base64 \<Rightarrow> tcp_forward_reply serde \<Rightarrow> tcp_forward_reply \<Rightarrow> (tcp_forward_error, inner_message) result" where
  "tf_reply_into_message b j r =
     bind_r (tf_validate_reply b r) (\<lambda>_.
     bind_r (map_err TfJson (to_vec j r)) (\<lambda>payload.
       map_err TfInner (inner_message_new ''tcp_forward_result'' payload)))"

definition tf_reply_from_message ::
    "base64 \<Rightarrow> tcp_forward_reply serde \<Rightarrow> inner_message \<Rightarrow> (tcp_forward_error, tcp_forward_reply) result" where
  "tf_reply_from_message b j m =
     (if im_kind m \<noteq> ''tcp_forward_result'' then Err (TfUnexpectedKind (im_kind m))
      else bind_r (map_err TfJson (from_slice j (im_payload m))) (\<lambda>r.
        bind_r (tf_validate_reply b r) (\<lambda>_. Ok r)))"

subsection \<open>What the validators promise\<close>

definition destination_ok :: "tcp_forward_destination \<Rightarrow> bool" where
  "destination_ok d \<longleftrightarrow> trim (td_host d) \<noteq> [] \<and> length (trim (td_host d)) \<le> 255
     \<and> (\<forall>c \<in> set (trim (td_host d)). 32 < code c \<and> code c < 127) \<and> 0 < unat (td_port d)"

lemma destination_validate_Ok: "destination_validate d = Ok () \<longleftrightarrow> destination_ok d"
proof -
  have "(code c < 128 \<and> \<not> is_ascii_control c \<and> \<not> is_ascii_whitespace c) \<longleftrightarrow> 32 < code c \<and> code c < 127"
    for c by (auto simp: is_ascii_control_def is_ascii_whitespace_def)
  then have "is_ascii h \<and> \<not> list_ex (\<lambda>c. is_ascii_control c \<or> is_ascii_whitespace c) h
      \<longleftrightarrow> (\<forall>c \<in> set h. 32 < code c \<and> code c < 127)" for h
    by (auto simp: is_ascii_def list_all_iff list_ex_iff)
  moreover have "destination_validate d = Ok () \<longleftrightarrow> trim (td_host d) \<noteq> [] \<and> length (trim (td_host d)) \<le> 255
     \<and> (is_ascii (trim (td_host d)) \<and> \<not> list_ex (\<lambda>c. is_ascii_control c \<or> is_ascii_whitespace c) (trim (td_host d)))
     \<and> td_port d \<noteq> 0"
    by (auto simp: destination_validate_def Let_def bounds_simps not_less)
  ultimately show ?thesis by (simp add: destination_ok_def unat_gt_0)
qed

definition tf_request_ok :: "base64 \<Rightarrow> tcp_forward_request \<Rightarrow> bool" where
  "tf_request_ok b r =
     (case r of
        TfOpen _ _ d timeout \<Rightarrow> destination_ok d \<and> 0 < unat timeout \<and> unat timeout \<le> 10000
      | TfExchange _ data _ limit wait \<Rightarrow>
          (\<exists>w. b64_decode b data = Ok w \<and> length w \<le> 12288)
          \<and> 0 < unat limit \<and> unat limit \<le> 12288 \<and> 0 < unat wait \<and> unat wait \<le> 250
      | TfClose _ \<Rightarrow> True)"

lemma tf_request_validate_Ok: "tf_request_validate b r = Ok () \<longleftrightarrow> tf_request_ok b r"
  by (cases r)
     (auto simp: tf_request_validate_def tf_request_ok_def result_simps destination_validate_Ok
       bounds_simps word_less_nat_alt unat_gt_0)

definition tf_reply_ok :: "base64 \<Rightarrow> tcp_forward_reply \<Rightarrow> bool" where
  "tf_reply_ok b r =
     (case r of
        TfrExchanged _ data _ \<Rightarrow> (\<exists>bs. b64_decode b data = Ok bs \<and> length bs \<le> 12288)
      | TfrError e \<Rightarrow> length (tfe_message e) \<le> 512
      | _ \<Rightarrow> True)"

lemma tf_validate_reply_Ok: "tf_validate_reply b r = Ok () \<longleftrightarrow> tf_reply_ok b r"
  by (cases r) (auto simp: tf_validate_reply_def tf_reply_ok_def result_simps bounds_simps)

interpretation tf_request: message_codec "''tcp_forward''" None "tf_request_ok b" j
    "tf_request_into_message b j" "tf_request_from_message b j" for b j
  by unfold_locales (auto simp: tf_request_into_message_def tf_request_from_message_def bind_r_Ok
      tf_request_validate_Ok)

interpretation tf_reply: message_codec "''tcp_forward_result''" None "tf_reply_ok b" j
    "tf_reply_into_message b j" "tf_reply_from_message b j" for b j
  by unfold_locales (auto simp: tf_reply_into_message_def tf_reply_from_message_def bind_r_Ok
      tf_validate_reply_Ok)

end
