(* ===== verification/Host_Forward.thy ===== *)
theory Host_Forward
  imports Tcp_Forward
begin

section \<open>The host's TCP-forward service (clew-host, forward.rs)\<close>

text \<open>
  The table of forwarded connections, its capacity, and the three requests. A socket is a value
  of an abstract type with the three operations the service uses; \<open>connect\<close> is an outcome. An
  open has two atomic parts with the connection attempt in between. A poisoned mutex is not
  modelled.
\<close>

text \<open>A read within its wait: bytes, end of stream (no bytes), an error, or a time-out.\<close>

datatype read_outcome = ReadBytes bytes | ReadFailed | ReadTimedOut

record 't socket_ops =
  so_write_all :: "bytes \<Rightarrow> 't \<Rightarrow> 't \<times> bool"
  so_shutdown :: "'t \<Rightarrow> 't \<times> bool"
  so_read :: "usize \<Rightarrow> u32 \<Rightarrow> 't \<Rightarrow> 't \<times> read_outcome"

text \<open>What a socket promises of a read: no more bytes than the buffer holds.\<close>

definition socket_ok :: "'t socket_ops \<Rightarrow> bool" where
  "socket_ok so \<longleftrightarrow> (\<forall>n w t t' bs. so_read so n w t = (t', ReadBytes bs) \<longrightarrow> length bs \<le> n)"

record 't forward_entry =
  fe_forward_id :: forward_id
  fe_destination :: tcp_forward_destination
  fe_stream :: 't
  fe_write_closed :: bool

text \<open>\<open>fw_connecting\<close> counts the permits held by opens whose connection attempt is under way.\<close>

record 't forward_service =
  fw_connections :: "(connection_id, 't forward_entry) btree"
  fw_permits :: nat
  fw_connecting :: nat

definition forward_new :: "'t forward_service" where
  "forward_new = \<lparr>fw_connections = [], fw_permits = HARD_MAX_TCP_FORWARD_CONNECTIONS_PER_SESSION,
     fw_connecting = 0\<rparr>"

definition tf_error :: "tcp_forward_error_code \<Rightarrow> string \<Rightarrow> tcp_forward_reply" where
  "tf_error c m = TfrError \<lparr>tfe_code = c, tfe_message = m\<rparr>"

lemma tf_error_built: "length m \<le> 512 \<Longrightarrow> tf_reply_error c m = Some (tf_error c m)"
  by (simp add: tf_reply_error_def bounded_message_def tf_error_def bounds_simps)

definition already_open ::
    "forward_id \<Rightarrow> connection_id \<Rightarrow> tcp_forward_destination \<Rightarrow> 't forward_entry \<Rightarrow> tcp_forward_reply" where
  "already_open fid cid d e =
     (if fe_forward_id e = fid \<and> fe_destination e = d then TfrOpened cid
      else tf_error TfcInvalidRequest
        ''TCP forward connection id is already bound to another destination'')"

definition open_begin ::
    "forward_id \<Rightarrow> connection_id \<Rightarrow> tcp_forward_destination \<Rightarrow> 't forward_service
     \<Rightarrow> 't forward_service \<times> tcp_forward_reply option" where
  "open_begin fid cid d s =
     (case bt_get (fw_connections s) cid of
        Some e \<Rightarrow> (s, Some (already_open fid cid d e))
      | None \<Rightarrow>
          if fw_permits s = 0
          then (s, Some (tf_error TfcCapacity ''TCP forward session connection capacity is exhausted''))
          else (s\<lparr>fw_permits := fw_permits s - 1, fw_connecting := fw_connecting s + 1\<rparr>, None))"

datatype 't connect_outcome = Connected 't | ConnectFailed | ConnectTimedOut

definition release_permit :: "'t forward_service \<Rightarrow> 't forward_service" where
  "release_permit s = s\<lparr>fw_permits := fw_permits s + 1, fw_connecting := fw_connecting s - 1\<rparr>"

definition open_finish ::
    "forward_id \<Rightarrow> connection_id \<Rightarrow> tcp_forward_destination \<Rightarrow> 't connect_outcome \<Rightarrow> 't forward_service
     \<Rightarrow> 't forward_service \<times> tcp_forward_reply" where
  "open_finish fid cid d outcome s =
     (case outcome of
        ConnectFailed \<Rightarrow>
          (release_permit s, tf_error TfcConnectFailed ''TCP destination connection failed'')
      | ConnectTimedOut \<Rightarrow>
          (release_permit s, tf_error TfcTimeout ''TCP destination connection timed out'')
      | Connected t \<Rightarrow>
          (case bt_get (fw_connections s) cid of
             Some e \<Rightarrow> (release_permit s, already_open fid cid d e)
           | None \<Rightarrow>
               (s\<lparr>fw_connecting := fw_connecting s - 1,
                  fw_connections := bt_insert cid
                    \<lparr>fe_forward_id = fid, fe_destination = d, fe_stream = t, fe_write_closed = False\<rparr>
                    (fw_connections s)\<rparr>,
                TfrOpened cid)))"

text \<open>The part of an exchange under the connection's own lock.\<close>

definition exchange_io ::
    "base64 \<Rightarrow> 't socket_ops \<Rightarrow> connection_id \<Rightarrow> bytes \<Rightarrow> bool \<Rightarrow> u32 \<Rightarrow> u32 \<Rightarrow> 't forward_entry
     \<Rightarrow> 't forward_entry \<times> tcp_forward_reply" where
  "exchange_io b so cid w eof limit wait e =
     (if w \<noteq> [] \<and> fe_write_closed e
      then (e, tf_error TfcInvalidRequest ''TCP forward write half is already closed'')
      else
        (let (t1, wrote) = (if w = [] then (fe_stream e, True) else so_write_all so w (fe_stream e)) in
         if \<not> wrote
         then (e\<lparr>fe_stream := t1\<rparr>, tf_error TfcIo ''TCP forward destination write failed'')
         else
           (let (t2, shut) = (if eof \<and> \<not> fe_write_closed e then so_shutdown so t1 else (t1, True)) in
            if \<not> shut
            then (e\<lparr>fe_stream := t2\<rparr>, tf_error TfcIo ''TCP forward destination half-close failed'')
            else
              (let e2 = e\<lparr>fe_stream := t2, fe_write_closed := fe_write_closed e \<or> eof\<rparr>;
                   (t3, r) = so_read so (unat limit) wait t2;
                   e3 = e2\<lparr>fe_stream := t3\<rparr> in
               case r of
                 ReadFailed \<Rightarrow> (e3, tf_error TfcIo ''TCP forward destination read failed'')
               | ReadTimedOut \<Rightarrow> (e3, (case tf_reply_exchanged b cid [] False of
                     Inr reply \<Rightarrow> reply
                   | Inl _ \<Rightarrow> tf_error TfcIo ''TCP forward result bound failed''))
               | ReadBytes bs \<Rightarrow> (e3, (case tf_reply_exchanged b cid bs (bs = []) of
                     Inr reply \<Rightarrow> reply
                   | Inl _ \<Rightarrow> tf_error TfcIo ''TCP forward result bound failed''))))))"

definition forward_exchange ::
    "base64 \<Rightarrow> 't socket_ops \<Rightarrow> connection_id \<Rightarrow> bytes \<Rightarrow> bool \<Rightarrow> u32 \<Rightarrow> u32 \<Rightarrow> 't forward_service
     \<Rightarrow> 't forward_service \<times> tcp_forward_reply" where
  "forward_exchange b so cid w eof limit wait s =
     (case bt_get (fw_connections s) cid of
        None \<Rightarrow> (s, tf_error TfcNotFound ''TCP forward connection was not found'')
      | Some e \<Rightarrow>
          (case exchange_io b so cid w eof limit wait e of
             (e', reply) \<Rightarrow>
               (s\<lparr>fw_connections := bt_update cid (\<lambda>_. e') (fw_connections s)\<rparr>, reply)))"

definition forward_close ::
    "connection_id \<Rightarrow> 't forward_service \<Rightarrow> 't forward_service \<times> tcp_forward_reply" where
  "forward_close cid s =
     (case bt_get (fw_connections s) cid of
        None \<Rightarrow> (s, tf_error TfcNotFound ''TCP forward connection was not found'')
      | Some _ \<Rightarrow>
          (s\<lparr>fw_connections := bt_remove cid (fw_connections s), fw_permits := fw_permits s + 1\<rparr>,
           TfrClosed cid))"

definition forward_execute ::
    "base64 \<Rightarrow> 't socket_ops \<Rightarrow> (tcp_forward_destination \<Rightarrow> u32 \<Rightarrow> 't connect_outcome)
     \<Rightarrow> tcp_forward_request \<Rightarrow> bool \<Rightarrow> 't forward_service \<Rightarrow> 't forward_service \<times> tcp_forward_reply" where
  "forward_execute b so connect r allow_tcp_egress s =
     (if \<not> is_ok (tf_request_validate b r)
      then (s, tf_error TfcInvalidRequest ''invalid bounded TCP forward request'')
      else if \<not> allow_tcp_egress
      then (s, tf_error TfcDenied ''TCP egress is not permitted by this device grant'')
      else case r of
        TfOpen fid cid d timeout \<Rightarrow>
          (case open_begin fid cid d s of
             (s1, Some reply) \<Rightarrow> (s1, reply)
           | (s1, None) \<Rightarrow> open_finish fid cid d (connect d timeout) s1)
      | TfExchange cid _ eof limit wait \<Rightarrow>
          (case tf_write_bytes b r of
             Inl _ \<Rightarrow> (s, tf_error TfcInvalidRequest ''invalid TCP forward data encoding'')
           | Inr w \<Rightarrow> forward_exchange b so cid w eof limit wait s)
      | TfClose cid \<Rightarrow> forward_close cid s)"

subsection \<open>The service over time\<close>

datatype 't forward_event =
    FwOpenBegin forward_id connection_id tcp_forward_destination
  | FwOpenFinish forward_id connection_id tcp_forward_destination "'t connect_outcome"
  | FwExchange connection_id bytes bool u32 u32
  | FwClose connection_id

fun forward_step :: "base64 \<Rightarrow> 't socket_ops \<Rightarrow> 't forward_service \<Rightarrow> 't forward_event \<Rightarrow> 't forward_service" where
  "forward_step b so s (FwOpenBegin fid cid d) = fst (open_begin fid cid d s)"
| "forward_step b so s (FwOpenFinish fid cid d outcome) =
     (if fw_connecting s = 0 then s else fst (open_finish fid cid d outcome s))"
| "forward_step b so s (FwExchange cid w eof limit wait) =
     fst (forward_exchange b so cid w eof limit wait s)"
| "forward_step b so s (FwClose cid) = fst (forward_close cid s)"

definition forward_ok :: "'t forward_service \<Rightarrow> bool" where
  "forward_ok s \<longleftrightarrow> bt_wf (fw_connections s)
     \<and> length (fw_connections s) + fw_permits s + fw_connecting s
         = HARD_MAX_TCP_FORWARD_CONNECTIONS_PER_SESSION"

lemma open_finish_ok:
  "forward_ok s \<Longrightarrow> 0 < fw_connecting s \<Longrightarrow> forward_ok (fst (open_finish fid cid d outcome s))"
  using length_bt_insert [of "fw_connections s" cid]
  by (cases outcome)
     (auto simp: open_finish_def release_permit_def forward_ok_def split: option.splits)

lemma forward_step_ok: "forward_ok s \<Longrightarrow> forward_ok (forward_step b so s ev)"
proof (cases ev)
  case (FwOpenBegin fid cid d)
  then show "forward_ok s \<Longrightarrow> ?thesis"
    by (auto simp: open_begin_def forward_ok_def split: option.splits)
next
  case (FwOpenFinish fid cid d outcome)
  then show "forward_ok s \<Longrightarrow> ?thesis" using open_finish_ok by auto
next
  case (FwExchange cid w eof limit wait)
  then show "forward_ok s \<Longrightarrow> ?thesis"
    by (auto simp: forward_exchange_def forward_ok_def split: option.splits prod.splits)
next
  case (FwClose cid)
  then show "forward_ok s \<Longrightarrow> ?thesis" using length_bt_remove [of "fw_connections s" cid]
    by (auto simp: forward_close_def forward_ok_def split: option.splits)
qed

lemma forward_run_ok: "forward_ok s \<Longrightarrow> forward_ok (foldl (forward_step b so) s evs)"
  by (induction evs arbitrary: s) (simp_all add: forward_step_ok)

lemma forward_new_ok: "forward_ok forward_new"
  by (simp add: forward_ok_def forward_new_def)

text \<open>What a step keeps of an open connection it does not close.\<close>

lemma exchange_io_keeps:
  assumes "exchange_io b so cid w eof limit wait e = (e', reply)"
  shows "fe_forward_id e' = fe_forward_id e \<and> fe_destination e' = fe_destination e
    \<and> (fe_write_closed e \<longrightarrow> fe_write_closed e')"
  using assms
  by (auto simp: exchange_io_def Let_def split: if_splits prod.splits read_outcome.splits)

lemma forward_step_entry:
  assumes "bt_get (fw_connections s) cid = Some e" and "ev \<noteq> FwClose cid"
  shows "\<exists>e'. bt_get (fw_connections (forward_step b so s ev)) cid = Some e'
    \<and> fe_forward_id e' = fe_forward_id e \<and> fe_destination e' = fe_destination e
    \<and> (fe_write_closed e \<longrightarrow> fe_write_closed e')"
proof (cases ev)
  case (FwOpenBegin fid k d)
  then show ?thesis using assms by (auto simp: open_begin_def split: option.splits)
next
  case (FwOpenFinish fid k d outcome)
  then show ?thesis using assms
    by (auto simp: open_finish_def release_permit_def split: connect_outcome.splits option.splits)
next
  case (FwExchange k w eof limit wait)
  show ?thesis
  proof (cases "k = cid")
    case True
    obtain e' reply where x: "exchange_io b so cid w eof limit wait e = (e', reply)" by fastforce
    then show ?thesis using assms True FwExchange exchange_io_keeps [OF x]
      by (auto simp: forward_exchange_def)
  next
    case False
    then show ?thesis using assms FwExchange
      by (auto simp: forward_exchange_def split: option.splits prod.splits)
  qed
next
  case (FwClose k)
  then show ?thesis using assms by (auto simp: forward_close_def split: option.splits)
qed

lemma forward_run_entry:
  assumes "bt_get (fw_connections s) cid = Some e" and "FwClose cid \<notin> set evs"
  shows "\<exists>e'. bt_get (fw_connections (foldl (forward_step b so) s evs)) cid = Some e'
    \<and> fe_forward_id e' = fe_forward_id e \<and> fe_destination e' = fe_destination e
    \<and> (fe_write_closed e \<longrightarrow> fe_write_closed e')"
  using assms
proof (induction evs arbitrary: s e)
  case Nil
  then show ?case by simp
next
  case (Cons ev evs)
  then obtain e1 where e1: "bt_get (fw_connections (forward_step b so s ev)) cid = Some e1"
    "fe_forward_id e1 = fe_forward_id e" "fe_destination e1 = fe_destination e"
    "fe_write_closed e \<longrightarrow> fe_write_closed e1"
    using forward_step_entry [of s cid e ev b so] by auto
  from Cons.IH [OF e1(1)] Cons.prems(2) e1(2-4) show ?case by auto
qed

text \<open>C36: A forwarded connection keeps its meaning: whatever requests interleave, at most 64
  connections are open or being opened; until it is closed, a connection id stays bound to the
  forward and destination it was opened for; and once its write half is closed no later exchange
  writes to it or moves any other connection: the request is refused and the table is as before.\<close>

theorem forward_connection_bound:
  assumes "s = foldl (forward_step b so) forward_new evs" and "bt_get (fw_connections s) cid = Some e"
    and "FwClose cid \<notin> set evs2" and "s2 = foldl (forward_step b so) s evs2"
  shows "length (fw_connections s2) + fw_connecting s2 \<le> 64
    \<and> (\<exists>e2. bt_get (fw_connections s2) cid = Some e2 \<and> fe_forward_id e2 = fe_forward_id e
        \<and> fe_destination e2 = fe_destination e
        \<and> (fe_write_closed e \<and> w \<noteq> [] \<longrightarrow>
             (\<exists>err. snd (forward_exchange b so cid w eof limit wait s2) = TfrError err)
             \<and> bt_get (fw_connections (fst (forward_exchange b so cid w eof limit wait s2)))
                = bt_get (fw_connections s2)))"
proof -
  have "forward_ok s2" using assms(1,4) forward_run_ok forward_new_ok by blast
  then have cap: "length (fw_connections s2) + fw_connecting s2 \<le> 64"
    by (simp add: forward_ok_def bounds_simps)
  obtain e2 where e2: "bt_get (fw_connections s2) cid = Some e2" "fe_forward_id e2 = fe_forward_id e"
    "fe_destination e2 = fe_destination e" "fe_write_closed e \<longrightarrow> fe_write_closed e2"
    using forward_run_entry [OF assms(2,3)] assms(4) by blast
  have "(\<exists>err. snd (forward_exchange b so cid w eof limit wait s2) = TfrError err)
      \<and> bt_get (fw_connections (fst (forward_exchange b so cid w eof limit wait s2)))
         = bt_get (fw_connections s2)" if "fe_write_closed e" "w \<noteq> []"
    using e2 that by (auto simp: forward_exchange_def exchange_io_def tf_error_def fun_eq_iff)
  then show ?thesis using cap e2 by blast
qed

definition null_socket :: "unit socket_ops" where
  "null_socket = \<lparr>so_write_all = \<lambda>_ t. (t, True), so_shutdown = \<lambda>t. (t, True),
     so_read = \<lambda>_ _ t. (t, ReadTimedOut)\<rparr>"

lemma forward_connection_bound_witness:
  "let evs = [FwOpenBegin 1 5 \<lparr>td_host = ''h'', td_port = 80\<rparr>,
              FwOpenFinish 1 5 \<lparr>td_host = ''h'', td_port = 80\<rparr> (Connected ()),
              FwExchange 5 [] True 9 9] in
     \<exists>err. snd (forward_exchange toy_b64 null_socket 5 [7] False 9 9
       (foldl (forward_step toy_b64 null_socket) forward_new evs)) = TfrError err"
proof -
  let ?d = "\<lparr>td_host = ''h'', td_port = 80\<rparr>"
  let ?evs = "[FwOpenBegin 1 5 ?d, FwOpenFinish 1 5 ?d (Connected ()), FwExchange 5 [] True 9 9]"
  let ?s = "foldl (forward_step toy_b64 null_socket) forward_new ?evs"
  have e: "bt_get (fw_connections ?s) 5
      = Some \<lparr>fe_forward_id = 1, fe_destination = ?d, fe_stream = (), fe_write_closed = True\<rparr>"
    by (simp add: open_begin_def open_finish_def forward_exchange_def exchange_io_def forward_new_def
        null_socket_def bounds_simps Let_def)
  from forward_connection_bound [OF refl e, of "[]" _ "[7]" False 9 9]
  show ?thesis by (auto simp: Let_def)
qed

end
