(* ===== verification/Ab_Journal.thy ===== *)
theory Ab_Journal
  imports State_Codec
begin

section \<open>Journals of two alternating slots\<close>

text \<open>
  The stores of the controller keep their state in two files, A and B: each commit writes the
  slot that does not hold the current snapshot, with the next generation, and loading takes the
  valid snapshot of the higher generation. This theory holds what these stores share: slot files
  and how they are read (\<^verbatim>\<open>read_slot\<close> and \<^verbatim>\<open>write_slot\<close> of clew-runtime/src/control.rs and its
  siblings), the choice of the newest valid slot, and the locale \<open>ab_journal\<close>, which proves that a
  write torn at any byte never loses the current snapshot. Files at a path are values here: a
  write names what is left in the file.
\<close>

subsection \<open>Slot files\<close>

text \<open>What the metadata and the contents of a path are: nothing, an error of the file system (for
  a file of the given size, or on its metadata), or bytes.\<close>

datatype slot_file = NoFile | StatFails string | ReadFails usize string | File bytes

datatype ('e, 's) slot_read = SlotMissing | SlotValid 's | SlotInvalid 'e

record 'e slot_errors =
  io_error :: "string \<Rightarrow> 'e"
  codec_error :: "state_codec_error \<Rightarrow> 'e"
  too_large :: "u64 \<Rightarrow> 'e"

definition read_slot :: "'e slot_errors \<Rightarrow> 's state_json \<Rightarrow> slot_file \<Rightarrow> ('e, 's) slot_read" where
  "read_slot er j f =
     (case f of
        NoFile \<Rightarrow> SlotMissing
      | StatFails e \<Rightarrow> SlotInvalid (io_error er e)
      | ReadFails n e \<Rightarrow>
          if n > MAX_STATE_DOCUMENT_SIZE then SlotInvalid (too_large er (word_of_nat n))
          else SlotInvalid (io_error er e)
      | File bs \<Rightarrow>
          if length bs > MAX_STATE_DOCUMENT_SIZE
          then SlotInvalid (too_large er (word_of_nat (length bs)))
          else (case decode_state_json j bs of
                  Inl e \<Rightarrow> SlotInvalid (codec_error er e)
                | Inr s \<Rightarrow> SlotValid s))"

text \<open>How a write ends: the directory cannot be prepared, the file cannot be opened, it fails (or the
  machine stops) when some bytes are in the truncated file, or all of it is written and synced.\<close>

datatype write_outcome = DirFailed string | OpenFailed string | Torn usize string | Written

definition write_slot ::
    "'e slot_errors \<Rightarrow> 's state_json \<Rightarrow> write_outcome \<Rightarrow> 's \<Rightarrow> slot_file \<Rightarrow> slot_file \<times> ('e, unit) result" where
  "write_slot er j w s old =
     (case w of
        DirFailed e \<Rightarrow> (old, Err (io_error er e))
      | _ \<Rightarrow>
          (case encode_state_json j s of
             Inl e \<Rightarrow> (old, Err (codec_error er e))
           | Inr bs \<Rightarrow>
               (case w of
                  Torn n e \<Rightarrow> (File (take n bs), Err (io_error er e))
                | Written \<Rightarrow> (File bs, Ok ())
                | OpenFailed e \<Rightarrow> (old, Err (io_error er e))
                | DirFailed e \<Rightarrow> (old, Err (io_error er e)))))"

lemma write_slot_Ok:
  "write_slot er j w s old = (f, Inr u) \<longleftrightarrow>
     w = Written \<and> (\<exists>bs. encode_state_json j s = Ok bs \<and> f = File bs)"
  by (auto simp: write_slot_def split: write_outcome.splits sum.splits)

text \<open>Whatever happens, the file is the old one, or a part of the encoding from its start on.\<close>

lemma write_slot_leaves:
  "fst (write_slot er j w s old) = old
   \<or> (\<exists>bs n. encode_state_json j s = Ok bs \<and> fst (write_slot er j w s old) = File (take n bs))"
proof -
  have "\<exists>n. bs = take n bs" for bs :: bytes by (rule exI [of _ "length bs"]) simp
  then show ?thesis
    unfolding write_slot_def by (cases w; cases "encode_state_json j s"; simp) blast+
qed

text \<open>What the JSON library promises for one snapshot beyond reading back what it wrote: a JSON
  document cut short is not a document.\<close>

definition slot_faithful :: "'s state_json \<Rightarrow> 's \<Rightarrow> bool" where
  "slot_faithful j s \<longleftrightarrow> state_json_faithful j s
     \<and> (case to_vec_pretty j (envelope_new s) of
          Inl _ \<Rightarrow> True
        | Inr bs \<Rightarrow> \<forall>n < length bs. \<not> is_ok (from_slice_header j (take n bs))
                                     \<and> \<not> is_ok (from_slice_envelope j (take n bs)))"

lemma read_slot_File:
  assumes "slot_faithful j s" and "encode_state_json j s = Ok bs"
  shows "read_slot er j (File (take n bs)) =
    (if length bs \<le> n then SlotValid s else read_slot er j (File (take n bs)))"
    and "n < length bs \<Longrightarrow> \<exists>e. read_slot er j (File (take n bs)) = SlotInvalid e"
proof -
  have e: "to_vec_pretty j (envelope_new s) = Ok bs" and l: "length bs \<le> MAX_STATE_DOCUMENT_SIZE"
    using assms(2) by (simp_all add: encode_state_json_Ok bounds_simps)
  have "decode_state_json j bs = Ok s"
    using assms by (simp add: slot_faithful_def state_json_roundtrip)
  then show "read_slot er j (File (take n bs)) =
      (if length bs \<le> n then SlotValid s else read_slot er j (File (take n bs)))"
    using l by (simp add: read_slot_def)
  show "\<exists>e. read_slot er j (File (take n bs)) = SlotInvalid e" if "n < length bs"
  proof -
    have "\<not> is_ok (from_slice_header j (take n bs))"
      using assms(1) e that by (simp add: slot_faithful_def)
    then obtain x where "from_slice_header j (take n bs) = Inl x"
      by (cases "from_slice_header j (take n bs)") auto
    then have "decode_state_json j (take n bs) = Inl (StateJson x)"
      using l that by (simp add: decode_state_json_def check_document_size_def)
    then show ?thesis using l that by (simp add: read_slot_def)
  qed
qed

subsection \<open>The newest valid slot\<close>

record ('e, 's) slot_scan =
  found :: "'s list"
  first_invalid :: "'e option"
  any_present :: bool

definition get_or_insert :: "'e \<Rightarrow> 'e option \<Rightarrow> 'e option" where
  "get_or_insert e old = (case old of None \<Rightarrow> Some e | Some _ \<Rightarrow> old)"

definition note_slot ::
    "('s \<Rightarrow> ('e, unit) result) \<Rightarrow> ('e, 's) slot_read \<Rightarrow> ('e, 's) slot_scan \<Rightarrow> ('e, 's) slot_scan" where
  "note_slot check slot sc =
     (case slot of
        SlotMissing \<Rightarrow> sc
      | SlotValid s \<Rightarrow>
          (case check s of
             Inr _ \<Rightarrow> sc\<lparr>any_present := True, found := found sc @ [s]\<rparr>
           | Inl e \<Rightarrow> sc\<lparr>any_present := True, first_invalid := get_or_insert e (first_invalid sc)\<rparr>)
      | SlotInvalid e \<Rightarrow>
          sc\<lparr>any_present := True, first_invalid := get_or_insert e (first_invalid sc)\<rparr>)"

text \<open>\<open>Ok None\<close>: neither slot is there.\<close>

definition pick_slots ::
    "(u64 \<Rightarrow> 'e) \<Rightarrow> 'e \<Rightarrow> ('s \<Rightarrow> u64) \<Rightarrow> ('s \<Rightarrow> ('e, unit) result) \<Rightarrow> ('e, 's) slot_read
     \<Rightarrow> ('e, 's) slot_read \<Rightarrow> ('e, 's option) result" where
  "pick_slots conflict no_valid gen check a b =
     (let sc = note_slot check b (note_slot check a
                 \<lparr>found = [], first_invalid = None, any_present = False\<rparr>);
          valid = sort_key gen (found sc) in
      if valid \<noteq> [] then
        (if length valid = 2 \<and> gen (valid ! 0) = gen (valid ! 1) then Err (conflict (gen (valid ! 0)))
         else Ok (Some (last valid)))
      else if any_present sc
      then Err (case first_invalid sc of None \<Rightarrow> no_valid | Some e \<Rightarrow> e)
      else Ok None)"

text \<open>A slot holds the snapshot it reads as, when that passes its check.\<close>

definition slot_holds :: "('s \<Rightarrow> ('e, unit) result) \<Rightarrow> ('e, 's) slot_read \<Rightarrow> 's \<Rightarrow> bool" where
  "slot_holds check r s \<longleftrightarrow> r = SlotValid s \<and> is_ok (check s)"

lemma note_slot_found:
  "found (note_slot check r sc) = found sc @ (case r of SlotValid s \<Rightarrow> if is_ok (check s) then [s] else [] | _ \<Rightarrow> [])"
  by (auto simp: note_slot_def split: slot_read.splits sum.splits)

lemma slot_holds_list:
  "slot_holds check r s \<Longrightarrow>
     (case r of SlotValid s \<Rightarrow> if is_ok (check s) then [s] else [] | _ \<Rightarrow> []) = [s]"
  "(\<And>s. \<not> slot_holds check r s) \<Longrightarrow>
     (case r of SlotValid s \<Rightarrow> if is_ok (check s) then [s] else [] | _ \<Rightarrow> []) = []"
  by (auto simp: slot_holds_def split: slot_read.splits)

lemma pick_one_a:
  "slot_holds check a s \<Longrightarrow> (\<And>t. \<not> slot_holds check b t) \<Longrightarrow> pick_slots c nv gen check a b = Ok (Some s)"
  by (simp add: pick_slots_def note_slot_found slot_holds_list Let_def)

lemma pick_one_b:
  "slot_holds check b s \<Longrightarrow> (\<And>t. \<not> slot_holds check a t) \<Longrightarrow> pick_slots c nv gen check a b = Ok (Some s)"
  by (simp add: pick_slots_def note_slot_found slot_holds_list Let_def)

lemma pick_two:
  "slot_holds check a s \<Longrightarrow> slot_holds check b t \<Longrightarrow> gen s \<noteq> gen t \<Longrightarrow>
     pick_slots c nv gen check a b = Ok (Some (if gen s < gen t then t else s))"
  by (auto simp: pick_slots_def note_slot_found slot_holds_list Let_def)

lemma pick_sound:
  assumes "pick_slots c nv gen check a b = Ok (Some s)"
  shows "slot_holds check a s \<or> slot_holds check b s"
proof -
  let ?l = "\<lambda>r. case r of SlotValid s \<Rightarrow> if is_ok (check s) then [s] else [] | _ \<Rightarrow> []"
  have "s \<in> set (sort_key gen (?l a @ ?l b))"
    using assms last_in_set [of "sort_key gen (?l a @ ?l b)"]
    by (auto simp: pick_slots_def note_slot_found Let_def split: if_splits)
  then show ?thesis
    by (auto simp: slot_holds_def split: slot_read.splits if_splits)
qed

lemma pick_none: "pick_slots c nv gen check a b = Ok None \<longleftrightarrow> a = SlotMissing \<and> b = SlotMissing"
  by (auto simp: pick_slots_def note_slot_def Let_def split: slot_read.splits sum.splits if_splits)

subsection \<open>The journal\<close>

text \<open>The slot of the current snapshot holds it; the other slot holds an older snapshot, or the
  candidate of a commit that failed since, or no valid one.\<close>

definition journal_inv ::
    "('s \<Rightarrow> u64) \<Rightarrow> (u64 \<Rightarrow> bool) \<Rightarrow> (slot_file \<Rightarrow> 's \<Rightarrow> bool) \<Rightarrow> 's set \<Rightarrow> slot_file \<Rightarrow> slot_file \<Rightarrow> 's \<Rightarrow> bool" where
  "journal_inv gen to_a holds tried a b cur \<longleftrightarrow>
     holds (if to_a (gen cur) then a else b) cur
     \<and> (\<forall>t. holds (if to_a (gen cur) then b else a) t \<longrightarrow>
          gen t < gen cur \<or> gen t = gen cur + 1 \<and> t \<in> tried)"

lemma less_next_word:
  fixes x :: "'a::len word"
  shows "x + 1 \<noteq> 0 \<Longrightarrow> x < x + 1"
  using unatSuc [of x] by (simp add: word_less_nat_alt add.commute)

lemma checked_add_1: "checked_add g (1 :: u64) = Some g' \<longleftrightarrow> g' = g + 1 \<and> g + 1 \<noteq> 0"
proof (cases "g + 1 = 0")
  case True
  have "checked_add g 1 \<noteq> Some (g + 1)"
    using checked_add_Some [of g 1 "g + 1"] True by auto
  then show ?thesis using True by (auto simp: checked_add_def)
next
  case False
  then have n: "1 + g \<noteq> 0" by (simp add: add.commute)
  have "Suc (unat g) < 2 ^ LENGTH(64)"
    using unsigned_less [of "1 + g", where ?'a = nat] unfolding unatSuc [OF n] .
  then have "checked_add g 1 = Some (g + 1)" unfolding checked_add_def by simp
  then show ?thesis using False by auto
qed

lemma journal_invD:
  assumes "journal_inv gen to_a holds tried a b cur"
  shows "holds (if to_a (gen cur) then a else b) cur"
    and "holds (if to_a (gen cur) then b else a) t \<Longrightarrow> gen t < gen cur \<or> gen t = gen cur + 1 \<and> t \<in> tried"
  using assms by (simp_all add: journal_inv_def)

locale ab_journal =
  fixes gen :: "'s \<Rightarrow> u64" and to_a :: "u64 \<Rightarrow> bool" and holds :: "slot_file \<Rightarrow> 's \<Rightarrow> bool"
    and good :: "'s \<Rightarrow> bool"
    and put :: "write_outcome \<Rightarrow> 's \<Rightarrow> slot_file \<Rightarrow> slot_file \<times> ('e, unit) result"
    and load :: "slot_file \<Rightarrow> slot_file \<Rightarrow> ('e, 's option) result"
  assumes alternates: "g + 1 \<noteq> 0 \<Longrightarrow> to_a (g + 1) \<longleftrightarrow> \<not> to_a g"
    and holds_unique: "holds f s \<Longrightarrow> holds f t \<Longrightarrow> s = t"
    and put_ok: "good s \<Longrightarrow> put w s old = (f, Ok u) \<Longrightarrow> holds f s"
    and put_leaves: "good s \<Longrightarrow> put w s old = (f, r) \<Longrightarrow> f = old \<or> (\<forall>t. holds f t \<longrightarrow> t = s)"
    and load_one_a: "holds a s \<Longrightarrow> (\<And>t. \<not> holds b t) \<Longrightarrow> load a b = Ok (Some s)"
    and load_one_b: "holds b s \<Longrightarrow> (\<And>t. \<not> holds a t) \<Longrightarrow> load a b = Ok (Some s)"
    and load_two: "holds a s \<Longrightarrow> holds b t \<Longrightarrow> gen s \<noteq> gen t \<Longrightarrow>
      load a b = Ok (Some (if gen s < gen t then t else s))"
begin

lemma load_newest:
  assumes "holds (if c then a else b) s"
    and "\<And>t. holds (if c then b else a) t \<Longrightarrow> gen t < gen s"
  shows "load a b = Ok (Some s)"
proof (cases "\<exists>t. holds (if c then b else a) t")
  case True
  then obtain t where t: "holds (if c then b else a) t" by blast
  have "gen t < gen s" using assms(2) [OF t] .
  then show ?thesis
    using assms(1) t load_two [of a s b t] load_two [of a t b s] by (cases c) auto
next
  case False
  then show ?thesis
    using assms(1) load_one_a [of a s b] load_one_b [of b s a] by (cases c) auto
qed

text \<open>Loading returns the current snapshot or a candidate tried since, and leaves a journal in
  order whichever it is.\<close>

lemma load_recovers:
  assumes inv: "journal_inv gen to_a holds tried a b cur"
  shows "\<exists>s. load a b = Ok (Some s) \<and> (s = cur \<or> s \<in> tried) \<and> gen cur \<le> gen s
    \<and> journal_inv gen to_a holds {} a b s"
proof (cases "\<exists>t. holds (if to_a (gen cur) then b else a) t \<and> \<not> gen t < gen cur")
  case True
  then obtain t where t: "holds (if to_a (gen cur) then b else a) t" and ng: "\<not> gen t < gen cur"
    by blast
  have gt: "gen t = gen cur + 1" and tr: "t \<in> tried"
    using journal_invD(2) [OF inv t] ng by auto
  show ?thesis
  proof (cases "gen cur + 1 = 0")
    case True
    then have "gen t = 0" using gt by simp
    then have "gen cur = 0" using ng by (simp add: word_neq_0_conv [symmetric])
    then show ?thesis using True by simp
  next
    case False
    have alt: "to_a (gen t) \<longleftrightarrow> \<not> to_a (gen cur)" using alternates [OF False] gt by simp
    have less: "gen cur < gen t" using False gt by (simp add: less_next_word)
    have cur: "holds (if to_a (gen t) then b else a) s \<Longrightarrow> gen s < gen t" for s
      using holds_unique [OF _ journal_invD(1) [OF inv]] alt less by (auto split: if_splits)
    have t': "holds (if to_a (gen t) then a else b) t" using t alt by (simp split: if_splits)
    have "load a b = Ok (Some t)"
      using load_newest [of "to_a (gen t)", OF t' cur] .
    moreover have "journal_inv gen to_a holds {} a b t"
      using t' cur by (simp add: journal_inv_def)
    ultimately show ?thesis using tr less_imp_le [OF less] by blast
  qed
next
  case False
  have "load a b = Ok (Some cur)"
    using load_newest [OF journal_invD(1) [OF inv]] False by blast
  moreover have "journal_inv gen to_a holds {} a b cur"
    using journal_invD(1) [OF inv] False by (auto simp: journal_inv_def)
  ultimately show ?thesis using order_refl by blast
qed

text \<open>A commit writes the other slot: done, the candidate is current; failed anywhere, the current
  snapshot still is.\<close>

lemma commit_done:
  assumes inv: "journal_inv gen to_a holds tried a b cur"
    and c: "gen c = gen cur + 1" "gen c \<noteq> 0" "good c"
    and "put w c (if to_a (gen c) then a else b) = (f, Ok u)"
  shows "journal_inv gen to_a holds {} (if to_a (gen c) then f else a) (if to_a (gen c) then b else f) c"
proof -
  have alt: "to_a (gen c) \<longleftrightarrow> \<not> to_a (gen cur)" using alternates [of "gen cur"] c by simp
  have less: "gen cur < gen c" using c by (simp add: less_next_word)
  have "holds f c" using put_ok [OF c(3) assms(5)] .
  then show ?thesis
    using alt less journal_invD(1) [OF inv] by (auto simp: journal_inv_def dest: holds_unique split: if_splits)
qed

lemma commit_torn:
  assumes inv: "journal_inv gen to_a holds tried a b cur"
    and c: "gen c = gen cur + 1" "gen c \<noteq> 0" "good c"
    and p: "put w c (if to_a (gen c) then a else b) = (f, r)"
  shows "journal_inv gen to_a holds (insert c tried) (if to_a (gen c) then f else a)
    (if to_a (gen c) then b else f) cur"
proof -
  have alt: "to_a (gen c) \<longleftrightarrow> \<not> to_a (gen cur)" using alternates [of "gen cur"] c by simp
  have "holds f t \<Longrightarrow> gen t < gen cur \<or> gen t = gen cur + 1 \<and> t \<in> insert c tried" for t
    using put_leaves [OF c(3) p] journal_invD(2) [OF inv, of t] alt c(1) by (auto split: if_splits)
  then show ?thesis
    using alt journal_invD(1) [OF inv] by (simp add: journal_inv_def split: if_splits)
qed

end

subsection \<open>The slot functions give a journal\<close>

text \<open>The two ways a generation chooses its slot.\<close>

definition odd_to_a :: "u64 \<Rightarrow> bool" where
  "odd_to_a g \<longleftrightarrow> g mod 2 = 1"

definition even_to_a :: "u64 \<Rightarrow> bool" where
  "even_to_a g \<longleftrightarrow> g mod 2 = 0"

lemma odd_to_a_alternates: "odd_to_a (g + 1) \<longleftrightarrow> \<not> odd_to_a g"
  by (simp add: odd_to_a_def flip: odd_iff_mod_2_eq_one)

lemma even_to_a_alternates: "even_to_a (g + 1) \<longleftrightarrow> \<not> even_to_a g"
  by (simp add: even_to_a_def flip: even_iff_mod_2_eq_zero)

definition slot_good :: "'s state_json \<Rightarrow> ('s \<Rightarrow> ('e, unit) result) \<Rightarrow> 's \<Rightarrow> bool" where
  "slot_good j check s \<longleftrightarrow> slot_faithful j s \<and> is_ok (check s)"

text \<open>Any reader that finds the same snapshots as \<open>read_slot\<close> will do: stores differ in the errors
  they report for what is no snapshot.\<close>

lemma ab_journal_reader:
  assumes "\<And>g. to_a (g + 1) \<longleftrightarrow> \<not> to_a g"
    and same: "\<And>f s. slot_holds check (rd f) s \<longleftrightarrow> slot_holds check (read_slot er j f) s"
  shows "ab_journal gen to_a (\<lambda>f. slot_holds check (rd f)) (slot_good j check)
    (write_slot er j) (\<lambda>a b. pick_slots c nv gen check (rd a) (rd b))"
proof
  fix w s old f r
  assume g: "slot_good j check s" and w: "write_slot er j w s old = (f, r)"
  show "f = old \<or> (\<forall>t. slot_holds check (rd f) t \<longrightarrow> t = s)"
  proof (cases "f = old")
    case False
    then obtain bs n where bs: "encode_state_json j s = Ok bs" "f = File (take n bs)"
      using write_slot_leaves [of er j w s old] w by auto
    have "slot_faithful j s" using g by (simp add: slot_good_def)
    from read_slot_File [OF this bs(1), where er = er and n = n] show ?thesis
      using bs(2) by (cases "length bs \<le> n") (auto simp: same, auto simp: slot_holds_def)
  qed simp
next
  fix w s old f u
  assume g: "slot_good j check s" and w: "write_slot er j w s old = (f, Ok u)"
  then obtain bs where bs: "encode_state_json j s = Ok bs" "f = File bs"
    by (auto simp: write_slot_Ok)
  then show "slot_holds check (rd f) s"
    using g read_slot_File(1) [of j s bs er "length bs"]
    by (simp add: same) (simp add: slot_holds_def slot_good_def)
next
  fix a b s t
  assume "slot_holds check (rd a) s" "slot_holds check (rd b) t" "gen s \<noteq> gen t"
  then show "pick_slots c nv gen check (rd a) (rd b)
      = Ok (Some (if gen s < gen t then t else s))"
    by (rule pick_two)
next
  fix f s t
  assume "slot_holds check (rd f) s" "slot_holds check (rd f) t"
  then show "s = t" by (simp add: slot_holds_def)
qed (rule assms pick_one_a pick_one_b; assumption)+

lemma ab_journal_slots:
  assumes "\<And>g. to_a (g + 1) \<longleftrightarrow> \<not> to_a g"
  shows "ab_journal gen to_a (\<lambda>f. slot_holds check (read_slot er j f)) (slot_good j check)
    (write_slot er j) (\<lambda>a b. pick_slots c nv gen check (read_slot er j a) (read_slot er j b))"
  by (rule ab_journal_reader) (rule assms refl)+

end
