(* ===== verification/Control_Store.thy ===== *)
theory Control_Store
  imports Ab_Journal Core_Model Enrollment
begin

section \<open>The controller's control store\<close>

text \<open>
  clew-runtime/src/control.rs: the snapshot of a controller (enrollment registry, catalog, activity
  log, recovery review) with its validation, the transactions that change a copy of it and commit
  the copy, and the two slot files the snapshots are committed to. The store is a value beside the
  two files; an operation returns both with its result. The JSON library is a parameter; what a
  write leaves behind is an argument of each commit.
\<close>

subsection \<open>Snapshots\<close>

record recovery_review =
  rr_restored_controller_id :: controller_id
  remote_access_paused :: bool
  historical_bootstrap_closed :: bool

record control_snapshot =
  generation :: u64
  cs_registry :: registry
  cs_catalog :: catalog
  activity :: "activity_event list"
  next_activity_sequence :: u64
  recovery_review_of :: "recovery_review option"

datatype control_store_error =
    CsIo string
  | CsState state_codec_error
  | CsModel control_model_error
  | CsEnrollment enrollment_error
  | CsControllerMismatch
  | CsNoValidSlot
  | CsDocumentTooLarge u64
  | CsInvalidStatePath
  | CsGenerationConflict u64
  | CsGenerationOverflow
  | CsActivitySequenceOverflow
  | CsInvalidActivitySequence
  | CsTooManyActivityEvents usize
  | CsCatalogRegistryMismatch device_id

definition snapshot_initial :: "controller_id \<Rightarrow> control_snapshot" where
  "snapshot_initial cid =
     \<lparr>generation = 0,
      cs_registry = registry_new cid
        \<lparr>member = EXECUTE_AND_CONNECTOR, pg_read = True, pg_write = True, pg_shell = True,
         pg_tcp_egress = True\<rparr>,
      cs_catalog = \<lparr>sites = [], devices = []\<rparr>, activity = [], next_activity_sequence = 1,
      recovery_review_of = None\<rparr>"

definition note_event :: "activity_event \<Rightarrow> u64 \<Rightarrow> (control_store_error, u64) result" where
  "note_event e m = bind_r (map_err CsModel (activity_validate e)) (\<lambda>_. Ok (max m (ae_sequence e)))"

definition device_agrees ::
    "registry \<Rightarrow> device_id \<times> controller_device \<Rightarrow> (control_store_error, unit) result" where
  "device_agrees r kd =
     (let did = fst kd; d = device_of (snd kd) in
      if did \<noteq> dr_device_id d then Err (CsCatalogRegistryMismatch did)
      else bind_r (ok_or (bt_get (rg_devices r) did) (CsCatalogRegistryMismatch did)) (\<lambda>e.
        if ed_site_id e \<noteq> dr_site_id d \<or> ed_invite_id e \<noteq> enrolled_via_invite_id d
            \<or> member (ed_effective_grant e) \<noteq> dr_capabilities d
        then Err (CsCatalogRegistryMismatch did)
        else if ed_status e \<noteq> (if cd_revoked (snd kd) then RevokedStatus else Active)
        then Err (CsCatalogRegistryMismatch did)
        else Ok ()))"

definition snapshot_validate :: "controller_id \<Rightarrow> control_snapshot \<Rightarrow> (control_store_error, unit) result" where
  "snapshot_validate cid s =
     (if rg_controller_id (cs_registry s) \<noteq> cid then Err CsControllerMismatch
      else bind_r (map_err CsModel (catalog_validate (cs_catalog s))) (\<lambda>_.
        if length (activity s) > HARD_MAX_ACTIVITY_EVENTS
        then Err (CsTooManyActivityEvents (length (activity s)))
        else bind_r (fold_r note_event (activity s) 0) (\<lambda>max_sequence.
          if next_activity_sequence s \<le> max_sequence then Err CsInvalidActivitySequence
          else if (case recovery_review_of s of None \<Rightarrow> False
                   | Some rv \<Rightarrow> rr_restored_controller_id rv \<noteq> cid)
          then Err CsControllerMismatch
          else for_each (device_agrees (cs_registry s)) (devices (cs_catalog s)))))"

text \<open>What validation means: the catalog's devices are exactly those devices of the registry they
  name, revoked here and there alike, and the next sequence number is fresh.\<close>

definition device_matches :: "registry \<Rightarrow> device_id \<Rightarrow> controller_device \<Rightarrow> bool" where
  "device_matches r did d \<longleftrightarrow> dr_device_id (device_of d) = did
     \<and> (\<exists>e. bt_get (rg_devices r) did = Some e \<and> ed_site_id e = dr_site_id (device_of d)
          \<and> ed_invite_id e = enrolled_via_invite_id (device_of d)
          \<and> member (ed_effective_grant e) = dr_capabilities (device_of d)
          \<and> ed_status e = (if cd_revoked d then RevokedStatus else Active))"

definition snapshot_ok :: "controller_id \<Rightarrow> control_snapshot \<Rightarrow> bool" where
  "snapshot_ok cid s \<longleftrightarrow> rg_controller_id (cs_registry s) = cid
     \<and> catalog_validate (cs_catalog s) = Ok ()
     \<and> length (activity s) \<le> HARD_MAX_ACTIVITY_EVENTS
     \<and> (\<forall>e \<in> set (activity s). activity_validate e = Ok () \<and> ae_sequence e < next_activity_sequence s)
     \<and> 0 < next_activity_sequence s
     \<and> (\<forall>rv. recovery_review_of s = Some rv \<longrightarrow> rr_restored_controller_id rv = cid)
     \<and> (\<forall>(did, d) \<in> set (devices (cs_catalog s)). device_matches (cs_registry s) did d)"

lemma device_agrees_Ok: "device_agrees r kd = Ok () \<longleftrightarrow> device_matches r (fst kd) (snd kd)"
  by (auto simp: device_agrees_def device_matches_def Let_def result_simps split: if_splits)

lemma note_event_Ok: "note_event e m = Ok n \<longleftrightarrow> activity_validate e = Ok () \<and> n = max m (ae_sequence e)"
  by (auto simp: note_event_def result_simps)

lemma fold_note_event:
  "fold_r note_event es m = Ok n \<longleftrightarrow>
     (\<forall>e \<in> set es. activity_validate e = Ok ()) \<and> n = foldl max m (map ae_sequence es)"
proof (induction es arbitrary: m)
  case (Cons e es)
  show ?case by (auto simp: note_event_Ok bind_r_Ok Cons.IH)
qed auto

lemma foldl_max_less:
  fixes m x :: "'a::linorder"
  shows "foldl max m xs < x \<longleftrightarrow> m < x \<and> (\<forall>y \<in> set xs. y < x)"
  by (induction xs arbitrary: m) auto

lemma snapshot_validate_Ok: "snapshot_validate cid s = Ok () \<longleftrightarrow> snapshot_ok cid s"
  by (auto simp: snapshot_validate_def snapshot_ok_def result_simps fold_note_event not_less not_le
      foldl_max_less device_agrees_Ok split: option.splits)

lemma snapshot_initial_ok: "snapshot_ok cid (snapshot_initial cid)"
  by (simp add: snapshot_ok_def snapshot_initial_def registry_new_def catalog_validate_def bounds_simps)

lemma snapshot_ok_generation [simp]: "snapshot_ok cid (s\<lparr>generation := g\<rparr>) = snapshot_ok cid s"
  by (simp add: snapshot_ok_def)

subsection \<open>The store and its slots\<close>

record control_disk =
  slot_a :: slot_file
  slot_b :: slot_file

record control_store =
  ct_controller_id :: controller_id
  ct_snapshot :: control_snapshot

type_synonym control_json = "control_snapshot state_json"

definition cs_errors :: "control_store_error slot_errors" where
  "cs_errors = \<lparr>io_error = CsIo, codec_error = CsState, too_large = CsDocumentTooLarge\<rparr>"

definition commit_candidate ::
    "control_json \<Rightarrow> write_outcome \<Rightarrow> control_snapshot \<Rightarrow> control_disk \<times> control_store
     \<Rightarrow> (control_disk \<times> control_store) \<times> (control_store_error, unit) result" where
  "commit_candidate j w cand ds =
     (let (d, s) = ds in
      case checked_add (generation (ct_snapshot s)) 1 of
        None \<Rightarrow> (ds, Err CsGenerationOverflow)
      | Some g \<Rightarrow>
          (let c = cand\<lparr>generation := g\<rparr> in
           case snapshot_validate (ct_controller_id s) c of
             Inl e \<Rightarrow> (ds, Err e)
           | Inr _ \<Rightarrow>
               (let (f, r) = write_slot cs_errors j w c (if odd_to_a g then slot_a d else slot_b d);
                    d' = (if odd_to_a g then d\<lparr>slot_a := f\<rparr> else d\<lparr>slot_b := f\<rparr>) in
                case r of
                  Inl e \<Rightarrow> ((d', s), Err e)
                | Inr _ \<Rightarrow> ((d', s\<lparr>ct_snapshot := c\<rparr>), Ok ()))))"

definition load_slots :: "control_json \<Rightarrow> controller_id \<Rightarrow> slot_file \<Rightarrow> slot_file
    \<Rightarrow> (control_store_error, control_snapshot option) result" where
  "load_slots j cid a b =
     pick_slots CsGenerationConflict CsNoValidSlot generation (snapshot_validate cid)
       (read_slot cs_errors j a) (read_slot cs_errors j b)"

definition load_or_create ::
    "control_json \<Rightarrow> write_outcome \<Rightarrow> controller_id \<Rightarrow> control_disk
     \<Rightarrow> control_disk \<times> (control_store_error, control_store) result" where
  "load_or_create j w cid d =
     (case load_slots j cid (slot_a d) (slot_b d) of
        Inl e \<Rightarrow> (d, Err e)
      | Inr (Some s) \<Rightarrow> (d, Ok \<lparr>ct_controller_id = cid, ct_snapshot = s\<rparr>)
      | Inr None \<Rightarrow>
          (case commit_candidate j w (snapshot_initial cid)
                  (d, \<lparr>ct_controller_id = cid, ct_snapshot = snapshot_initial cid\<rparr>) of
             ((d', s), Inl e) \<Rightarrow> (d', Err e)
           | ((d', s), Inr _) \<Rightarrow> (d', Ok s)))"

type_synonym 'r mutator = "control_snapshot \<Rightarrow> (control_store_error, 'r \<times> control_snapshot) result"

definition transaction ::
    "control_json \<Rightarrow> write_outcome \<Rightarrow> 'r mutator \<Rightarrow> control_disk \<times> control_store
     \<Rightarrow> (control_disk \<times> control_store) \<times> (control_store_error, 'r) result" where
  "transaction j w mutate ds =
     (case mutate (ct_snapshot (snd ds)) of
        Inl e \<Rightarrow> (ds, Err e)
      | Inr (x, cand) \<Rightarrow>
          (case snapshot_validate (ct_controller_id (snd ds)) cand of
             Inl e \<Rightarrow> (ds, Err e)
           | Inr _ \<Rightarrow>
               (case commit_candidate j w cand ds of
                  (ds', Inl e) \<Rightarrow> (ds', Err e)
                | (ds', Inr _) \<Rightarrow> (ds', Ok x))))"

subsection \<open>The store's own transactions\<close>

definition confirm_recovery_review :: "recovery_review option mutator" where
  "confirm_recovery_review s =
     (case recovery_review_of s of
        None \<Rightarrow> Ok (None, s)
      | Some rv \<Rightarrow>
          (let rv' = rv\<lparr>remote_access_paused := False\<rparr> in
           Ok (Some rv', s\<lparr>recovery_review_of := Some rv'\<rparr>)))"

definition record_activity ::
    "u64 \<Rightarrow> site_id \<Rightarrow> device_id \<Rightarrow> string \<Rightarrow> string option \<Rightarrow> activity_result \<Rightarrow> u64 \<Rightarrow> u64
     \<Rightarrow> activity_event mutator" where
  "record_activity unix_ms sid did operation path_summary outcome duration transferred s =
     bind_r (ok_or (checked_add (next_activity_sequence s) 1) CsActivitySequenceOverflow) (\<lambda>next.
       let event = \<lparr>ae_sequence = next_activity_sequence s, ae_unix_ms = unix_ms, ae_site_id = sid,
             ae_device_id = did, ae_operation = operation, ae_path_summary = path_summary,
             ae_result = outcome, ae_duration_ms = duration, ae_transferred_bytes = transferred\<rparr> in
       bind_r (map_err CsModel (activity_validate event)) (\<lambda>_.
         let oldest = saturating_sub unix_ms HARD_ACTIVITY_RETENTION_MS;
             kept = filter (\<lambda>e. ae_unix_ms e \<ge> oldest) (activity s) @ [event];
             excess = length kept - HARD_MAX_ACTIVITY_EVENTS in
         Ok (event, s\<lparr>next_activity_sequence := next,
               activity := (if length kept > HARD_MAX_ACTIVITY_EVENTS then drop excess kept else kept)\<rparr>)))"

definition clear_activity :: "unit mutator" where
  "clear_activity s = Ok ((), s\<lparr>activity := []\<rparr>)"

definition replace_restored_state :: "registry \<Rightarrow> catalog \<Rightarrow> recovery_review \<Rightarrow> unit mutator" where
  "replace_restored_state registry catalog review s =
     Ok ((), s\<lparr>cs_registry := registry, cs_catalog := catalog, activity := [],
               recovery_review_of := Some review\<rparr>)"


subsection \<open>Slots and candidates\<close>

interpretation cs: ab_journal generation odd_to_a
    "\<lambda>f. slot_holds (snapshot_validate cid) (read_slot cs_errors j f)"
    "slot_good j (snapshot_validate cid)" "write_slot cs_errors j" "load_slots j cid"
  unfolding load_slots_def [abs_def]
  by (rule ab_journal_slots) (rule odd_to_a_alternates)

text \<open>The candidate a commit writes.\<close>

definition next_of :: "control_snapshot \<Rightarrow> control_snapshot \<Rightarrow> control_snapshot" where
  "next_of s cand = cand\<lparr>generation := generation s + 1\<rparr>"

definition control_inv ::
    "control_json \<Rightarrow> controller_id \<Rightarrow> control_snapshot set \<Rightarrow> control_disk \<Rightarrow> control_store \<Rightarrow> bool" where
  "control_inv j cid tried d s \<longleftrightarrow> ct_controller_id s = cid \<and> snapshot_ok cid (ct_snapshot s)
     \<and> journal_inv generation odd_to_a (\<lambda>f. slot_holds (snapshot_validate cid) (read_slot cs_errors j f))
         tried (slot_a d) (slot_b d) (ct_snapshot s)"

text \<open>A commit either refuses and changes nothing, or writes the next candidate.\<close>

lemma commit_cases:
  assumes "commit_candidate j w cand (d, s) = ((d', s'), r)" and "snapshot_ok cid cand"
    and "ct_controller_id s = cid"
  shows "(\<exists>e. r = Inl e \<and> d' = d \<and> s' = s \<and> generation (ct_snapshot s) + 1 = 0)
    \<or> (\<exists>f rw. generation (ct_snapshot s) + 1 \<noteq> 0
        \<and> write_slot cs_errors j w (next_of (ct_snapshot s) cand)
            (if odd_to_a (generation (ct_snapshot s) + 1) then slot_a d else slot_b d) = (f, rw)
        \<and> slot_a d' = (if odd_to_a (generation (ct_snapshot s) + 1) then f else slot_a d)
        \<and> slot_b d' = (if odd_to_a (generation (ct_snapshot s) + 1) then slot_b d else f)
        \<and> r = rw \<and> s' = (if is_ok r then s\<lparr>ct_snapshot := next_of (ct_snapshot s) cand\<rparr> else s))"
proof (cases "checked_add (generation (ct_snapshot s)) 1")
  case None
  then show ?thesis
    using assms(1) checked_add_1 [of "generation (ct_snapshot s)"]
    by (auto simp: commit_candidate_def)
next
  case (Some g)
  then have g: "g = generation (ct_snapshot s) + 1" "generation (ct_snapshot s) + 1 \<noteq> 0"
    by (simp_all add: checked_add_1)
  have v: "snapshot_validate (ct_controller_id s) (cand\<lparr>generation := generation (ct_snapshot s) + 1\<rparr>) = Inr ()"
    using assms(2,3) by (simp add: snapshot_validate_Ok)
  obtain f rw where w: "write_slot cs_errors j w (next_of (ct_snapshot s) cand)
      (if odd_to_a (generation (ct_snapshot s) + 1) then slot_a d else slot_b d) = (f, rw)"
    by fastforce
  show ?thesis
    using assms(1) Some g w
    by (cases rw; cases "odd_to_a (generation (ct_snapshot s) + 1)")
      (auto simp: commit_candidate_def Let_def next_of_def v)
qed

subsection \<open>Runs of the store\<close>

text \<open>The candidate a transaction tries to commit, and the histories of a store: it is opened on
  an empty directory, transactions commit or fail anywhere (which is also where the process may
  stop), and it is opened again. \<open>tried\<close> are the candidates of the transactions that failed since
  the last commit or start.\<close>

definition attempted :: "unit mutator \<Rightarrow> control_store \<Rightarrow> control_snapshot set" where
  "attempted m s =
     (case m (ct_snapshot s) of Inl _ \<Rightarrow> {} | Inr (_, c) \<Rightarrow> {next_of (ct_snapshot s) c})"

inductive control_run ::
    "control_json \<Rightarrow> controller_id \<Rightarrow> (unit mutator \<Rightarrow> bool) \<Rightarrow> control_disk \<Rightarrow> control_store
     \<Rightarrow> control_snapshot set \<Rightarrow> bool"
  for j :: control_json and cid :: controller_id and allowed :: "unit mutator \<Rightarrow> bool" where
  cr_open: "load_or_create j w cid \<lparr>slot_a = NoFile, slot_b = NoFile\<rparr> = (d, Ok s) \<Longrightarrow>
     control_run j cid allowed d s {}"
| cr_transact: "control_run j cid allowed d s tried \<Longrightarrow> allowed m \<Longrightarrow>
     transaction j w m (d, s) = ((d', s'), r) \<Longrightarrow>
     control_run j cid allowed d' s' (if is_ok r then {} else tried \<union> attempted m s)"
| cr_restart: "control_run j cid allowed d s tried \<Longrightarrow> load_or_create j w cid d = (d', Ok s') \<Longrightarrow>
     control_run j cid allowed d' s' {}"

lemma commit_inv:
  assumes c: "commit_candidate j w cand (d, s) = ((d', s'), r)" and ok: "snapshot_ok cid cand"
    and j: "slot_faithful j (next_of (ct_snapshot s) cand)" and inv: "control_inv j cid tried d s"
  shows "control_inv j cid (if is_ok r then {} else insert (next_of (ct_snapshot s) cand) tried) d' s'
    \<and> (\<not> is_ok r \<longrightarrow> s' = s) \<and> (is_ok r \<longrightarrow> s' = s\<lparr>ct_snapshot := next_of (ct_snapshot s) cand\<rparr>)"
proof -
  let ?c = "next_of (ct_snapshot s) cand"
  have cid: "ct_controller_id s = cid" using inv by (simp add: control_inv_def)
  have good: "slot_good j (snapshot_validate cid) ?c"
    using j ok by (simp add: slot_good_def is_ok_unit snapshot_validate_Ok next_of_def)
  have ji: "journal_inv generation odd_to_a (\<lambda>f. slot_holds (snapshot_validate cid) (read_slot cs_errors j f))
      tried (slot_a d) (slot_b d) (ct_snapshot s)" using inv by (simp add: control_inv_def)
  from commit_cases [OF c ok cid] show ?thesis
  proof (elim disjE exE conjE)
    fix e assume "r = Inl e" "d' = d" "s' = s"
    moreover have "journal_inv generation odd_to_a (\<lambda>f. slot_holds (snapshot_validate cid) (read_slot cs_errors j f))
      (insert ?c tried) (slot_a d) (slot_b d) (ct_snapshot s)"
      using ji by (auto simp: journal_inv_def)
    ultimately show ?thesis using inv by (simp add: control_inv_def)
  next
    fix f rw
    assume g: "generation (ct_snapshot s) + 1 \<noteq> 0"
      and w: "write_slot cs_errors j w ?c
        (if odd_to_a (generation (ct_snapshot s) + 1) then slot_a d else slot_b d) = (f, rw)"
      and d': "slot_a d' = (if odd_to_a (generation (ct_snapshot s) + 1) then f else slot_a d)"
        "slot_b d' = (if odd_to_a (generation (ct_snapshot s) + 1) then slot_b d else f)"
      and r: "r = rw" and s': "s' = (if is_ok r then s\<lparr>ct_snapshot := ?c\<rparr> else s)"
    have gc: "generation ?c = generation (ct_snapshot s) + 1" by (simp add: next_of_def)
    show ?thesis
    proof (cases r)
      case (Inl e)
      then show ?thesis
        using cs.commit_torn [OF ji gc _ good, of w f rw] g gc w d' r s' inv
        by (simp add: control_inv_def)
    next
      case (Inr u)
      then show ?thesis
        using cs.commit_done [OF ji gc _ good, of w f u] g gc w d' r s' cid ok
        by (simp add: control_inv_def next_of_def)
    qed
  qed
qed

lemma fresh_inv:
  assumes j: "slot_faithful j (next_of (snapshot_initial cid) (snapshot_initial cid))"
    and o: "load_or_create j w cid \<lparr>slot_a = NoFile, slot_b = NoFile\<rparr> = (d, Ok s)"
  shows "control_inv j cid {} d s \<and> ct_snapshot s = next_of (snapshot_initial cid) (snapshot_initial cid)"
proof -
  let ?s0 = "\<lparr>ct_controller_id = cid, ct_snapshot = snapshot_initial cid\<rparr>"
  let ?c = "next_of (snapshot_initial cid) (snapshot_initial cid)"
  have "load_slots j cid NoFile NoFile = Ok None"
    by (simp add: load_slots_def pick_none read_slot_def)
  then have c: "commit_candidate j w (snapshot_initial cid) (\<lparr>slot_a = NoFile, slot_b = NoFile\<rparr>, ?s0)
      = ((d, s), Ok ())"
    using o by (auto simp: load_or_create_def split: prod.splits sum.splits)
  have g: "odd_to_a (generation ?c)" "generation (snapshot_initial cid) = 0" "generation ?c = 1"
    by (simp_all add: next_of_def snapshot_initial_def odd_to_a_def)
  from commit_cases [OF c snapshot_initial_ok] obtain f where
    w: "write_slot cs_errors j w ?c NoFile = (f, Ok ())" and d: "slot_a d = f" "slot_b d = NoFile"
    and s: "s = ?s0\<lparr>ct_snapshot := ?c\<rparr>"
    using g by (auto split: if_splits)
  have "slot_good j (snapshot_validate cid) ?c"
    using j snapshot_initial_ok
    by (simp add: slot_good_def is_ok_unit snapshot_validate_Ok) (simp add: next_of_def)
  from cs.put_ok [OF this w] have "slot_holds (snapshot_validate cid) (read_slot cs_errors j f) ?c" .
  moreover have "\<not> slot_holds (snapshot_validate cid) (read_slot cs_errors j NoFile) t" for t
    by (simp add: slot_holds_def read_slot_def)
  ultimately show ?thesis
    using d s g snapshot_initial_ok by (simp add: control_inv_def journal_inv_def) (simp add: next_of_def)
qed

lemma load_inv:
  assumes "control_inv j cid tried d s"
  shows "\<exists>s'. load_or_create j w cid d = (d, Ok s') \<and> (s' = s \<or> ct_snapshot s' \<in> tried)
    \<and> generation (ct_snapshot s) \<le> generation (ct_snapshot s') \<and> control_inv j cid {} d s'"
proof -
  obtain x where x: "load_slots j cid (slot_a d) (slot_b d) = Ok (Some x)"
      "x = ct_snapshot s \<or> x \<in> tried" "generation (ct_snapshot s) \<le> generation x"
      "journal_inv generation odd_to_a (\<lambda>f. slot_holds (snapshot_validate cid) (read_slot cs_errors j f))
        {} (slot_a d) (slot_b d) x"
    using cs.load_recovers assms unfolding control_inv_def by blast
  let ?s' = "\<lparr>ct_controller_id = cid, ct_snapshot = x\<rparr>"
  have "load_or_create j w cid d = (d, Ok ?s')" by (simp add: load_or_create_def x(1))
  moreover have "?s' = s \<or> ct_snapshot ?s' \<in> tried"
    using x(2) assms by (auto simp: control_inv_def)
  moreover have "snapshot_ok cid x"
    using journal_invD(1) [OF x(4)] by (simp add: slot_holds_def is_ok_unit snapshot_validate_Ok)
  then have "control_inv j cid {} d ?s'" using x(4) by (simp add: control_inv_def)
  ultimately show ?thesis using x(3) by auto
qed

lemma transaction_cases:
  assumes "transaction j w m (d, s) = ((d', s'), r)"
  shows "(\<exists>e. r = Inl e \<and> d' = d \<and> s' = s)
    \<or> (\<exists>x c r'. m (ct_snapshot s) = Ok (x, c) \<and> snapshot_validate (ct_controller_id s) c = Ok ()
         \<and> commit_candidate j w c (d, s) = ((d', s'), r') \<and> is_ok r = is_ok r')"
  using assms by (force simp: transaction_def split: sum.splits prod.splits)

lemma transaction_Ok:
  assumes "transaction j w m (d, s) = ((d', s'), Ok x)"
  shows "\<exists>c r'. m (ct_snapshot s) = Ok (x, c) \<and> snapshot_validate (ct_controller_id s) c = Ok ()
         \<and> commit_candidate j w c (d, s) = ((d', s'), r') \<and> is_ok r'"
  using assms by (force simp: transaction_def split: sum.splits prod.splits)

lemma control_inv_mono: "control_inv j cid t d s \<Longrightarrow> t \<subseteq> t' \<Longrightarrow> control_inv j cid t' d s"
  by (auto simp: control_inv_def journal_inv_def)

lemma transact_inv:
  assumes j: "\<forall>x. slot_faithful j x" and t: "transaction j w m (d, s) = ((d', s'), r)"
    and inv: "control_inv j cid tried d s"
  shows "control_inv j cid (if is_ok r then {} else tried \<union> attempted m s) d' s'"
  using transaction_cases [OF t]
proof (elim disjE exE conjE)
  fix e assume "r = Inl e" "d' = d" "s' = s"
  then show ?thesis using control_inv_mono [OF inv] by simp
next
  fix x c r'
  assume m: "m (ct_snapshot s) = Ok (x, c)" and v: "snapshot_validate (ct_controller_id s) c = Ok ()"
    and c: "commit_candidate j w c (d, s) = ((d', s'), r')" and r: "is_ok r = is_ok r'"
  have ok: "snapshot_ok cid c" using v inv by (simp add: control_inv_def snapshot_validate_Ok)
  show ?thesis
    using conjunct1 [OF commit_inv [OF c ok _ inv]] j m r
    by (cases "is_ok r'") (simp_all add: attempted_def)
qed

lemma control_run_inv:
  assumes "\<forall>x. slot_faithful j x" and "control_run j cid allowed d s tried"
  shows "control_inv j cid tried d s"
  using assms(2)
proof (induction rule: control_run.induct)
  case (cr_open w d s)
  then show ?case using fresh_inv assms(1) by blast
next
  case (cr_transact d s tried m w d' s' r)
  show ?case using transact_inv [OF assms(1) cr_transact.hyps(3) cr_transact.IH] .
next
  case (cr_restart d s tried w d' s')
  then show ?case using load_inv [OF cr_restart.IH, of w] by auto
qed

text \<open>What every mutation preserves holds of the current snapshot and of every candidate.\<close>

lemma control_run_snapshots:
  assumes "\<forall>x. slot_faithful j x" and "control_run j cid allowed d s tried"
    and init: "P (next_of (snapshot_initial cid) (snapshot_initial cid))"
    and step: "\<And>m x c. allowed m \<Longrightarrow> P x \<Longrightarrow> m x = Ok ((), c) \<Longrightarrow> P (next_of x c)"
  shows "P (ct_snapshot s) \<and> (\<forall>c \<in> tried. P c)"
  using assms(2)
proof (induction rule: control_run.induct)
  case (cr_open w d s)
  have "ct_snapshot s = next_of (snapshot_initial cid) (snapshot_initial cid)"
    using fresh_inv [OF _ cr_open] assms(1) by blast
  then show ?case using init by simp
next
  case (cr_transact d s tried m w d' s' r)
  have inv: "control_inv j cid tried d s" using control_run_inv [OF assms(1) cr_transact.hyps(1)] .
  have cand: "P (next_of (ct_snapshot s) c)" if "m (ct_snapshot s) = Ok ((), c)" for c
    using step [OF cr_transact.hyps(2) conjunct1 [OF cr_transact.IH] that] .
  have tried: "P c" if "c \<in> attempted m s" for c
    using that cand by (auto simp: attempted_def split: sum.splits)
  from transaction_cases [OF cr_transact.hyps(3)] show ?case
  proof (elim disjE exE conjE)
    fix e assume "r = Inl e" "s' = s"
    then show ?thesis using cr_transact.IH tried by auto
  next
    fix x c r'
    assume m: "m (ct_snapshot s) = Ok (x, c)" and v: "snapshot_validate (ct_controller_id s) c = Ok ()"
      and c: "commit_candidate j w c (d, s) = ((d', s'), r')" and r: "is_ok r = is_ok r'"
    have ok: "snapshot_ok cid c" using v inv by (simp add: control_inv_def snapshot_validate_Ok)
    have "s' = (if is_ok r' then s\<lparr>ct_snapshot := next_of (ct_snapshot s) c\<rparr> else s)"
      using commit_inv [OF c ok _ inv] assms(1) by auto
    then show ?thesis using cr_transact.IH tried cand m r by auto
  qed
next
  case (cr_restart d s tried w d' s')
  have "s' = s \<or> ct_snapshot s' \<in> tried"
    using load_inv [OF control_run_inv [OF assms(1) cr_restart.hyps(1)], of w] cr_restart.hyps(2) by auto
  then show ?case using cr_restart.IH by auto
qed

subsection \<open>The activity log\<close>

text \<open>Everything the program commits: the store's own transactions, and updates of the registry and
  the catalog.\<close>

datatype control_op =
    OpRecord u64 site_id device_id string "string option" activity_result u64 u64
  | OpClear
  | OpConfirm
  | OpRestore registry catalog recovery_review
  | OpUpdate "registry \<Rightarrow> catalog \<Rightarrow> (control_store_error, registry \<times> catalog) result"

definition drop_value :: "('e, 'a \<times> 'b) result \<Rightarrow> ('e, unit \<times> 'b) result" where
  "drop_value r = bind_r r (\<lambda>(_, c). Ok ((), c))"

fun op_mutate :: "control_op \<Rightarrow> unit mutator" where
  "op_mutate (OpRecord ms sid did op p res dur n) s = drop_value (record_activity ms sid did op p res dur n s)"
| "op_mutate OpClear s = clear_activity s"
| "op_mutate OpConfirm s = drop_value (confirm_recovery_review s)"
| "op_mutate (OpRestore r c rv) s = replace_restored_state r c rv s"
| "op_mutate (OpUpdate f) s =
     bind_r (f (cs_registry s) (cs_catalog s)) (\<lambda>(r, c). Ok ((), s\<lparr>cs_registry := r, cs_catalog := c\<rparr>))"

definition log_ok :: "control_snapshot \<Rightarrow> bool" where
  "log_ok s \<longleftrightarrow> sorted_wrt (<) (map ae_sequence (activity s))
     \<and> (\<forall>e \<in> set (activity s). ae_sequence e < next_activity_sequence s)
     \<and> length (activity s) \<le> HARD_MAX_ACTIVITY_EVENTS"

lemma log_ok_next [simp]: "log_ok (next_of x c) = log_ok c"
  by (simp add: log_ok_def next_of_def)

lemma sorted_wrt_map_filter: "sorted_wrt P (map f xs) \<Longrightarrow> sorted_wrt P (map f (filter Q xs))"
  by (induction xs) auto

lemma sorted_wrt_map_drop: "sorted_wrt P (map f xs) \<Longrightarrow> sorted_wrt P (map f (drop n xs))"
  by (metis drop_map sorted_wrt_drop)

lemma record_activity_log:
  assumes "record_activity ms sid did op p res dur n s = Ok (e, c)"
  shows "ae_sequence e = next_activity_sequence s \<and> next_activity_sequence c = next_activity_sequence s + 1
    \<and> next_activity_sequence s < next_activity_sequence s + 1
    \<and> activity c = drop (Suc (length (filter (\<lambda>e. saturating_sub ms HARD_ACTIVITY_RETENTION_MS \<le> ae_unix_ms e)
          (activity s))) - HARD_MAX_ACTIVITY_EVENTS)
        (filter (\<lambda>e. saturating_sub ms HARD_ACTIVITY_RETENTION_MS \<le> ae_unix_ms e) (activity s)) @ [e]"
proof -
  let ?K = "filter (\<lambda>e. saturating_sub ms HARD_ACTIVITY_RETENTION_MS \<le> ae_unix_ms e) (activity s)"
  obtain nx where nx: "checked_add (next_activity_sequence s) 1 = Some nx"
    and e: "e = \<lparr>ae_sequence = next_activity_sequence s, ae_unix_ms = ms, ae_site_id = sid,
             ae_device_id = did, ae_operation = op, ae_path_summary = p,
             ae_result = res, ae_duration_ms = dur, ae_transferred_bytes = n\<rparr>"
    and c: "c = s\<lparr>next_activity_sequence := nx, activity :=
      (if length (?K @ [e]) > HARD_MAX_ACTIVITY_EVENTS
       then drop (length (?K @ [e]) - HARD_MAX_ACTIVITY_EVENTS) (?K @ [e]) else ?K @ [e])\<rparr>"
    using assms unfolding record_activity_def Let_def bind_r_Ok ok_or_Ok sum.inject prod.inject
    by (elim exE conjE) (rule that, assumption, erule sym, simp only:)
  have n: "nx = next_activity_sequence s + 1" "next_activity_sequence s < next_activity_sequence s + 1"
    using nx less_next_word by (auto simp only: checked_add_1)
  have "HARD_MAX_ACTIVITY_EVENTS > 0" by (simp add: bounds_simps)
  then have "activity c = drop (Suc (length ?K) - HARD_MAX_ACTIVITY_EVENTS) ?K @ [e]"
    unfolding c by simp
  moreover have "next_activity_sequence c = nx" unfolding c by simp
  moreover have "ae_sequence e = next_activity_sequence s" unfolding e by simp
  ultimately show ?thesis using n by blast
qed

lemma record_activity_log_ok:
  assumes "log_ok s" and "record_activity ms sid did op p res dur n s = Ok (e, c)"
  shows "log_ok c"
proof -
  let ?kept = "filter (\<lambda>e. saturating_sub ms HARD_ACTIVITY_RETENTION_MS \<le> ae_unix_ms e) (activity s)"
  let ?k = "Suc (length ?kept) - HARD_MAX_ACTIVITY_EVENTS"
  note r = record_activity_log [OF assms(2)]
  have "sorted_wrt (<) (map ae_sequence (drop ?k ?kept))"
    using assms(1) by (simp add: log_ok_def sorted_wrt_map_drop sorted_wrt_map_filter)
  moreover have fresh: "ae_sequence x < next_activity_sequence s" if "x \<in> set (drop ?k ?kept)" for x
    using assms(1) set_drop_subset [of ?k ?kept] that by (auto simp: log_ok_def)
  moreover have "length (drop ?k ?kept) < HARD_MAX_ACTIVITY_EVENTS"
    by (simp add: bounds_simps)
  ultimately show ?thesis
    using r by (auto simp: log_ok_def sorted_wrt_append intro: less_trans)
qed

lemma drop_value_Ok: "drop_value r = Ok ((), c) \<longleftrightarrow> (\<exists>x. r = Ok (x, c))"
  by (cases r) (auto simp: drop_value_def)

lemma confirm_recovery_review_Ok:
  "confirm_recovery_review s = Ok (v, c) \<Longrightarrow>
     c = s\<lparr>recovery_review_of := map_option (remote_access_paused_update (\<lambda>_. False)) (recovery_review_of s)\<rparr>"
  by (cases "recovery_review_of s") (auto simp: confirm_recovery_review_def Let_def)

lemma op_log_ok:
  assumes "log_ok s" and "op_mutate op s = Ok ((), c)"
  shows "log_ok c"
proof (cases op)
  case (OpRecord ms sid did opr p res dur n)
  have "drop_value (record_activity ms sid did opr p res dur n s) = Ok ((), c)"
    using assms(2) unfolding OpRecord op_mutate.simps .
  then obtain e where "record_activity ms sid did opr p res dur n s = Ok (e, c)"
    unfolding drop_value_Ok by (elim exE)
  with assms(1) show ?thesis by (rule record_activity_log_ok)
next
  case OpConfirm
  have "drop_value (confirm_recovery_review s) = Ok ((), c)"
    using assms(2) unfolding OpConfirm op_mutate.simps .
  then obtain v where "confirm_recovery_review s = Ok (v, c)"
    unfolding drop_value_Ok by (elim exE)
  from confirm_recovery_review_Ok [OF this] show ?thesis using assms(1) by (simp add: log_ok_def)
next
  case (OpUpdate f)
  then obtain r k where "f (cs_registry s) (cs_catalog s) = Ok (r, k)"
      "c = s\<lparr>cs_registry := r, cs_catalog := k\<rparr>"
    using assms(2) by (auto simp: bind_r_Ok)
  then show ?thesis using assms(1) by (simp add: log_ok_def)
qed (use assms(2) in \<open>auto simp: log_ok_def clear_activity_def replace_restored_state_def\<close>)

lemma log_run:
  assumes "\<forall>x. slot_faithful j x" and "control_run j cid (\<lambda>m. \<exists>op. m = op_mutate op) d s tried"
  shows "log_ok (ct_snapshot s)"
proof (rule conjunct1 [OF control_run_snapshots [OF assms, where P = log_ok]])
  have "log_ok (snapshot_initial cid)" by (simp add: log_ok_def snapshot_initial_def)
  then show "log_ok (next_of (snapshot_initial cid) (snapshot_initial cid))" by simp
next
  fix m x c
  assume "\<exists>op. m = op_mutate op" and x: "log_ok x" and m: "m x = Ok ((), c)"
  then obtain op where "op_mutate op x = Ok ((), c)" by blast
  from op_log_ok [OF x this] show "log_ok (next_of x c)" by simp
qed

subsection \<open>A concrete store\<close>

text \<open>A library that writes three snapshots only: the first of a store, the one after it, and the one
  with an event recorded.\<close>

definition toy_event :: activity_event where
  "toy_event = \<lparr>ae_sequence = 1, ae_unix_ms = 9, ae_site_id = 2, ae_device_id = 3,
     ae_operation = ''read'', ae_path_summary = None, ae_result = Succeeded, ae_duration_ms = 1,
     ae_transferred_bytes = 4\<rparr>"

definition toy_snapshot :: "u8 \<Rightarrow> control_snapshot" where
  "toy_snapshot k =
     (if k = 1 then (snapshot_initial 5)\<lparr>generation := 1\<rparr>
      else if k = 2 then (snapshot_initial 5)\<lparr>generation := 2\<rparr>
      else (snapshot_initial 5)\<lparr>generation := 2, activity := [toy_event], next_activity_sequence := 2\<rparr>)"

definition toy_control_json :: control_json where
  "toy_control_json =
     \<lparr>to_vec_pretty = \<lambda>e. if e = envelope_new (toy_snapshot 1) then Ok [1]
        else if e = envelope_new (toy_snapshot 2) then Ok [2]
        else if e = envelope_new (toy_snapshot 3) then Ok [3] else Err (JsonError []),
      from_slice_header = \<lambda>b. if b = [] then Err (JsonError []) else Ok STATE_SCHEMA_VERSION,
      from_slice_envelope = \<lambda>b. if b = [] then Err (JsonError []) else Ok (envelope_new (toy_snapshot (hd b)))\<rparr>"

definition toy_store :: control_store where
  "toy_store = \<lparr>ct_controller_id = 5, ct_snapshot = toy_snapshot 1\<rparr>"

lemma toy_distinct: "toy_snapshot 1 \<noteq> toy_snapshot 2" "toy_snapshot 1 \<noteq> toy_snapshot 3"
  "toy_snapshot 2 \<noteq> toy_snapshot 3"
  by (simp_all add: toy_snapshot_def snapshot_initial_def)

lemma envelope_new_eq: "envelope_new x = envelope_new y \<longleftrightarrow> x = y"
  by (simp add: envelope_new_def)

lemma toy_encode: "encode_state_json toy_control_json (toy_snapshot k) = Ok [k]" if "k \<in> {1, 2, 3}"
  using that toy_distinct toy_distinct [symmetric]
  by (auto simp: encode_state_json_Ok toy_control_json_def envelope_new_eq bounds_simps)

lemma toy_faithful: "\<forall>x. slot_faithful toy_control_json x"
  using toy_distinct
  by (simp add: slot_faithful_def state_json_faithful_def toy_control_json_def envelope_new_eq)

lemma toy_next: "next_of (snapshot_initial 5) (snapshot_initial 5) = toy_snapshot 1"
  "next_of (toy_snapshot 1) (toy_snapshot 1) = toy_snapshot 2"
  by (simp_all add: next_of_def toy_snapshot_def snapshot_initial_def)

lemma toy_commit:
  assumes "snapshot_ok 5 c" and "next_of (ct_snapshot s) c = toy_snapshot k" and "k \<in> {1, 2, 3}"
    and "ct_controller_id s = 5" and "checked_add (generation (ct_snapshot s)) 1 = Some g"
  shows "commit_candidate toy_control_json w c (d, s) =
    (let (f, r) = write_slot cs_errors toy_control_json w (toy_snapshot k)
           (if odd_to_a g then slot_a d else slot_b d);
         d' = (if odd_to_a g then d\<lparr>slot_a := f\<rparr> else d\<lparr>slot_b := f\<rparr>) in
     case r of Inl e \<Rightarrow> ((d', s), Err e) | Inr _ \<Rightarrow> ((d', s\<lparr>ct_snapshot := toy_snapshot k\<rparr>), Ok ()))"
proof -
  have n: "c\<lparr>generation := g\<rparr> = toy_snapshot k"
    using assms(2,5) by (simp add: next_of_def checked_add_1)
  have "snapshot_validate 5 (toy_snapshot k) = Ok ()"
    using assms(1) n [symmetric] by (simp add: snapshot_validate_Ok)
  then show ?thesis by (simp add: commit_candidate_def assms(4,5) n Let_def)
qed

lemma toy_open: "load_or_create toy_control_json Written 5 \<lparr>slot_a = NoFile, slot_b = NoFile\<rparr>
    = (\<lparr>slot_a = File [1], slot_b = NoFile\<rparr>, Ok toy_store)"
proof -
  have l: "load_slots toy_control_json 5 NoFile NoFile = Ok None"
    by (simp add: load_slots_def pick_none read_slot_def)
  have g: "checked_add (generation (snapshot_initial 5)) 1 = Some 1" "odd_to_a 1"
    by (simp_all add: checked_add_1 odd_to_a_def) (simp add: snapshot_initial_def)
  show ?thesis
    using toy_commit [OF snapshot_initial_ok, of "\<lparr>ct_controller_id = 5, ct_snapshot = snapshot_initial 5\<rparr>" 1 1]
    by (simp add: load_or_create_def l toy_next g write_slot_def toy_encode toy_store_def)
qed

lemma toy_clear: "transaction toy_control_json (Torn 0 ''crash'') clear_activity
    (\<lparr>slot_a = File [1], slot_b = NoFile\<rparr>, toy_store)
    = ((\<lparr>slot_a = File [1], slot_b = File []\<rparr>, toy_store), Err (CsIo ''crash''))"
proof -
  have s: "snapshot_ok 5 (toy_snapshot 1)"
    using snapshot_initial_ok [of 5] by (simp add: toy_snapshot_def)
  have v: "snapshot_validate 5 (toy_snapshot 1) = Inr ()" using s by (simp add: snapshot_validate_Ok)
  have a: "(toy_snapshot 1)\<lparr>activity := []\<rparr> = toy_snapshot 1"
    by (simp add: toy_snapshot_def snapshot_initial_def)
  have g: "checked_add (generation (toy_snapshot 1)) 1 = Some 2" "\<not> odd_to_a 2"
    by (simp_all add: checked_add_1 odd_to_a_def) (simp_all add: toy_snapshot_def)
  show ?thesis
    using toy_commit [OF s, of toy_store 2 2 "Torn 0 ''crash''" "\<lparr>slot_a = File [1], slot_b = NoFile\<rparr>"]
    by (simp add: transaction_def clear_activity_def toy_store_def a v toy_next g
        write_slot_def toy_encode cs_errors_def)
qed

subsection \<open>Properties\<close>

text \<open>C5: A committed change of the controller's state is never lost and a failed one is never
  half there: in every history of commits, of writes that fail or stop at any byte, and of
  restarts, opening the store succeeds and yields either the snapshot of the last commit or, whole
  and valid, the candidate of a transaction that failed since; with none failed since, exactly
  the last commit.\<close>

theorem control_store_atomic:
  assumes "\<forall>x. slot_faithful j x" and "control_run j cid allowed d s tried"
  shows "\<exists>s'. load_or_create j w cid d = (d, Ok s') \<and> (s' = s \<or> ct_snapshot s' \<in> tried)
    \<and> ct_controller_id s' = cid \<and> snapshot_validate cid (ct_snapshot s') = Ok ()
    \<and> generation (ct_snapshot s) \<le> generation (ct_snapshot s')"
proof -
  have inv: "control_inv j cid tried d s" using control_run_inv [OF assms] .
  obtain s' where s': "load_or_create j w cid d = (d, Ok s')" "s' = s \<or> ct_snapshot s' \<in> tried"
    "generation (ct_snapshot s) \<le> generation (ct_snapshot s')" "control_inv j cid {} d s'"
    using load_inv [OF inv] by blast
  then show ?thesis by (auto simp: control_inv_def snapshot_validate_Ok)
qed

lemma control_store_atomic_witness:
  "\<exists>s'. load_or_create toy_control_json Written 5 \<lparr>slot_a = File [1], slot_b = File []\<rparr>
       = (\<lparr>slot_a = File [1], slot_b = File []\<rparr>, Ok s')
     \<and> (s' = toy_store \<or> ct_snapshot s' = toy_snapshot 2)"
proof -
  have "control_run toy_control_json 5 (\<lambda>m. m = clear_activity)
      \<lparr>slot_a = File [1], slot_b = NoFile\<rparr> toy_store {}"
    by (rule cr_open [OF toy_open])
  from cr_transact [OF this refl toy_clear]
  have r: "control_run toy_control_json 5 (\<lambda>m. m = clear_activity)
      \<lparr>slot_a = File [1], slot_b = File []\<rparr> toy_store (attempted clear_activity toy_store)"
    by simp
  have a: "(toy_snapshot 1)\<lparr>activity := []\<rparr> = toy_snapshot 1"
    by (simp add: toy_snapshot_def snapshot_initial_def)
  have "attempted clear_activity toy_store = {toy_snapshot 2}"
    by (simp add: attempted_def clear_activity_def toy_store_def toy_next a)
  then show ?thesis using control_store_atomic [OF toy_faithful r, of Written] by auto
qed


text \<open>The activity log stays in order: after any run of the program's transactions its sequence
  numbers increase and it has at most 1024 events; recording an event gives it a fresh, larger
  number and puts it last, and drops only events past the retention and, beyond the bound, the
  oldest.\<close>

theorem activity_log_ordered:
  assumes "\<forall>x. slot_faithful j x" and "control_run j cid (\<lambda>m. \<exists>op. m = op_mutate op) d s tried"
    and "transaction j w (record_activity ms sid did operation path res dur n) (d, s) = ((d', s'), Ok e)"
  defines "fresh \<equiv> filter (\<lambda>e. ae_unix_ms e \<ge> saturating_sub ms HARD_ACTIVITY_RETENTION_MS)
    (activity (ct_snapshot s))"
  shows "sorted_wrt (<) (map ae_sequence (activity (ct_snapshot s')))
    \<and> (\<forall>e' \<in> set (activity (ct_snapshot s)). ae_sequence e' < ae_sequence e)
    \<and> (\<exists>k. activity (ct_snapshot s') = drop k fresh @ [e]
        \<and> length (activity (ct_snapshot s')) \<le> 1024
        \<and> (k = 0 \<or> length (activity (ct_snapshot s')) = 1024))"
proof -
  have ok: "log_ok (ct_snapshot s)" using log_run [OF assms(1,2)] .
  have inv: "control_inv j cid tried d s" using control_run_inv [OF assms(1,2)] .
  obtain c r' where r: "record_activity ms sid did operation path res dur n (ct_snapshot s) = Ok (e, c)"
    and v: "snapshot_validate (ct_controller_id s) c = Ok ()"
    and c: "commit_candidate j w c (d, s) = ((d', s'), r')" and r': "is_ok r'"
    using transaction_Ok [OF assms(3)] by blast
  have sok: "snapshot_ok cid c" using v inv by (simp add: control_inv_def snapshot_validate_Ok)
  have s': "activity (ct_snapshot s') = activity c"
    using commit_inv [OF c sok _ inv] assms(1) r' by (simp add: next_of_def)
  have cok: "log_ok c" using record_activity_log_ok [OF ok r] .
  have act: "activity c = drop (Suc (length fresh) - HARD_MAX_ACTIVITY_EVENTS) fresh @ [e]"
    and seq: "ae_sequence e = next_activity_sequence (ct_snapshot s)"
    using record_activity_log [OF r] unfolding fresh_def by simp_all
  have len: "Suc (length fresh) - HARD_MAX_ACTIVITY_EVENTS = 0 \<or> length (activity c) = 1024"
    unfolding act by (auto simp: bounds_simps)
  have "\<exists>k. activity c = drop k fresh @ [e] \<and> length (activity c) \<le> 1024
      \<and> (k = 0 \<or> length (activity c) = 1024)"
    using act len cok by (auto simp: log_ok_def bounds_simps)
  then show ?thesis using ok cok seq s' by (simp add: log_ok_def)
qed

lemma toy_record: "transaction toy_control_json Written
      (record_activity 9 2 3 ''read'' None Succeeded 1 4) (\<lparr>slot_a = File [1], slot_b = NoFile\<rparr>, toy_store)
    = ((\<lparr>slot_a = File [1], slot_b = File [3]\<rparr>, toy_store\<lparr>ct_snapshot := toy_snapshot 3\<rparr>), Ok toy_event)"
proof -
  let ?c = "(toy_snapshot 1)\<lparr>next_activity_sequence := 2, activity := [toy_event]\<rparr>"
  have s1: "activity (toy_snapshot 1) = []" "next_activity_sequence (toy_snapshot 1) = 1"
    by (simp_all add: toy_snapshot_def snapshot_initial_def)
  have r: "record_activity 9 2 3 ''read'' None Succeeded 1 4 (toy_snapshot 1) = Ok (toy_event, ?c)"
    by (simp add: record_activity_def s1 checked_add_def activity_validate_def toy_event_def bounds_simps Let_def)
  have ok: "snapshot_ok 5 ?c"
    using snapshot_initial_ok [of 5]
    by (simp add: snapshot_ok_def toy_snapshot_def toy_event_def activity_validate_def bounds_simps)
  have v: "snapshot_validate 5 ?c = Inr ()" using ok by (simp add: snapshot_validate_Ok)
  have n: "next_of (toy_snapshot 1) ?c = toy_snapshot 3"
    by (simp add: next_of_def toy_snapshot_def)
  have g: "checked_add (generation (toy_snapshot 1)) 1 = Some 2" "\<not> odd_to_a 2"
    by (simp_all add: checked_add_1 odd_to_a_def) (simp_all add: toy_snapshot_def)
  show ?thesis
    using toy_commit [OF ok, of toy_store 3 2 Written "\<lparr>slot_a = File [1], slot_b = NoFile\<rparr>"] r n v
    by (simp add: transaction_def toy_store_def g write_slot_def toy_encode)
qed

lemma activity_log_ordered_witness:
  "sorted_wrt (<) (map ae_sequence (activity (toy_snapshot 3))) \<and> last (activity (toy_snapshot 3)) = toy_event"
proof -
  have r: "control_run toy_control_json 5 (\<lambda>m. \<exists>op. m = op_mutate op)
      \<lparr>slot_a = File [1], slot_b = NoFile\<rparr> toy_store {}"
    by (rule cr_open [OF toy_open])
  show ?thesis using activity_log_ordered [OF toy_faithful r toy_record] by auto
qed

end
