(* ===== verification/Connector.thy ===== *)
theory Connector
  imports Message_Codec
begin

section \<open>Connectors: discovery tags, leases, tunnels and nearby files\<close>

text \<open>
  clew-transport/src: discovery.rs (site tags and their advertisement, the filter on mDNS events),
  lease.rs (the controller-signed leases of connectors), connector.rs (the frames that open a
  tunnel) and nearby.rs (the file that carries a routing hint). iroh's addresses are of type
  \<open>'a\<close> with the library's \<^verbatim>\<open>is_ip\<close> as a parameter, an endpoint id is its 32 bytes, and JSON,
  hashing and signatures are the parameters of the other theories. The mDNS service itself and
  the copying of tunnel bytes are not modelled.
\<close>

subsection \<open>Site discovery tags\<close>

datatype discovery_error =
    InvalidAdvertisement
  | AdvertisementTooLarge
  | EndpointIdentityChanged
  | MdnsError string
  | IrohError string

type_synonym site_tag = bytes
type_synonym endpoint_id = bytes

definition DISCOVERY_TAG_DOMAIN :: bytes where
  "DISCOVERY_TAG_DOMAIN = as_bytes ''clew/site-discovery-tag/v1'' @ [0]"
definition ADVERTISEMENT_PREFIX :: string where "ADVERTISEMENT_PREFIX = ''clew1;c;''"
definition SITE_TAG_BYTES :: nat where [bounds_simps]: "SITE_TAG_BYTES = 16"
definition SITE_TAG_HEX_LEN :: nat where [bounds_simps]: "SITE_TAG_HEX_LEN = SITE_TAG_BYTES * 2"

definition site_tag_derive :: "crypto \<Rightarrow> controller_id \<Rightarrow> site_id \<Rightarrow> site_tag" where
  "site_tag_derive cr cid sid =
     take SITE_TAG_BYTES (sha256_digest cr (DISCOVERY_TAG_DOMAIN @ id_as_bytes cid @ id_as_bytes sid))"

definition hex_nibble :: "char \<Rightarrow> (discovery_error, u8) result" where
  "hex_nibble c =
     (if is_ascii_digit c then Ok (byte_of_char c - 48)
      else if in_range 97 102 c then Ok (byte_of_char c - 97 + 10)
      else Err InvalidAdvertisement)"

fun parse_pairs :: "string \<Rightarrow> (discovery_error, bytes) result" where
  "parse_pairs (a # b # r) =
     bind_r (hex_nibble a) (\<lambda>h.
     bind_r (hex_nibble b) (\<lambda>l.
     bind_r (parse_pairs r) (\<lambda>rest. Ok (or (push_bit 4 h) l # rest))))"
| "parse_pairs _ = Ok []"

definition site_tag_parse :: "string \<Rightarrow> (discovery_error, site_tag) result" where
  "site_tag_parse v =
     (if length v \<noteq> SITE_TAG_HEX_LEN
         \<or> \<not> list_all (\<lambda>c. is_ascii_digit c \<or> in_range 97 102 c) v
      then Err InvalidAdvertisement else parse_pairs v)"

definition site_tag_to_string :: "site_tag \<Rightarrow> string" where
  "site_tag_to_string tg = hex_string tg"

text \<open>\<open>fits\<close> is the length bound of the library's user data.\<close>

definition to_user_data :: "(string \<Rightarrow> bool) \<Rightarrow> site_tag \<Rightarrow> (discovery_error, string) result" where
  "to_user_data fits tg =
     (let encoded = ADVERTISEMENT_PREFIX @ site_tag_to_string tg in
      if fits encoded then Ok encoded else Err AdvertisementTooLarge)"

definition advertisement_parse :: "string \<Rightarrow> (discovery_error, site_tag) result" where
  "advertisement_parse raw =
     bind_r (ok_or (strip_prefix raw ADVERTISEMENT_PREFIX) InvalidAdvertisement) (\<lambda>tg.
       if CHR '';'' \<in> set tg then Err InvalidAdvertisement else site_tag_parse tg)"

lemma hex_nibble_digit: "n < 16 \<Longrightarrow> hex_nibble (hex_digit n) = Ok (word_of_nat n)"
proof -
  assume n: "n < 16"
  have "\<forall>m \<in> {0..<16}. hex_nibble (hex_digit m) = Ok (word_of_nat m)"
    by (simp add: atLeastLessThan_nat_numeral hex_nibble_def hex_digit_def is_ascii_digit_def
        in_range_def code_def byte_of_char_def)
  then show ?thesis using n by simp
qed

lemma byte_nibbles: "or (push_bit 4 (word_of_nat (unat b div 16))) (word_of_nat (unat b mod 16)) = (b :: u8)"
proof -
  have "word_of_nat (unat b div 16) = drop_bit 4 b"
    by (simp add: word_unat_eq_iff unat_div drop_bit_eq_div unat_of_nat)
      (metis div_le_dividend le_less_trans mod_less unat_byte_lt)
  moreover have "word_of_nat (unat b mod 16) = take_bit 4 b"
    by (simp add: word_unat_eq_iff unat_mod take_bit_eq_mod unat_of_nat)
  moreover have "or (push_bit 4 (drop_bit 4 b)) (take_bit 4 b) = b"
    by (rule bit_eqI) (auto simp: bit_simps)
  ultimately show ?thesis by simp
qed

lemma nibble_hex:
  assumes "hex_nibble c = Ok n"
  shows "unat n < 16 \<and> hex_digit (unat n) = c"
proof -
  have w: "unat (word_of_nat (code c - k) :: u8) = code c - k" if "code c < 256" for k
    using that by (simp add: unat_byte_of_nat less_imp_diff_less)
  have d: "byte_of_char c - word_of_nat k = word_of_nat (code c - k)" if "k \<le> code c" for k
    using that by (simp add: byte_of_char_def code_def of_nat_diff)
  have cc: "char_of (code c) = c" by (simp add: code_def)
  show ?thesis
  proof (cases "is_ascii_digit c")
    case True
    then have r: "48 \<le> code c" "code c \<le> 57" by (simp_all add: is_ascii_digit_def in_range_def)
    have "n = word_of_nat (code c - 48)"
      using assms True d [of 48] r by (simp add: hex_nibble_def)
    then have "unat n = code c - 48" "code c - 48 < 10" using w [of 48] r by simp_all
    then show ?thesis using r cc by (simp add: hex_digit_def)
  next
    case False
    then have r: "97 \<le> code c" "code c \<le> 102"
      using assms by (auto simp: hex_nibble_def in_range_def split: if_splits)
    have "n = word_of_nat (code c - 97) + 10"
      using assms False d [of 97] r by (simp add: hex_nibble_def in_range_def)
    also have "\<dots> = word_of_nat (code c - 87)"
      using r of_nat_add [of "code c - 97" 10, where ?'a = u8, symmetric] by simp
    finally have "unat n = code c - 87" using w [of 87] r by simp
    moreover have "\<not> code c - 87 < 10" "code c - 87 < 16" using r by arith+
    ultimately show ?thesis using r cc by (simp add: hex_digit_def)
  qed
qed

lemma parse_pairs_hex: "parse_pairs (hex_string bs) = Ok bs"
  by (induction bs) (simp_all add: hex_string_def hex_byte_def hex_nibble_digit byte_nibbles
      unat_byte_lt less_mult_imp_div_less)

lemma nibbles_byte:
  assumes "unat h < 16" and "unat l < 16"
  shows "hex_byte (or (push_bit 4 h) l) = [hex_digit (unat h), hex_digit (unat (l :: u8))]"
proof -
  let ?n = "16 * unat h + unat l"
  have n: "unat (word_of_nat ?n :: u8) = ?n" by (rule unat_byte_of_nat) (use assms in simp)
  have "?n div 16 = unat h" "?n mod 16 = unat l" using assms by simp_all
  moreover have "or (push_bit 4 (word_of_nat (?n div 16))) (word_of_nat (?n mod 16)) = (word_of_nat ?n :: u8)"
    using byte_nibbles [of "word_of_nat ?n"] unfolding n .
  ultimately have "or (push_bit 4 h) l = word_of_nat ?n" by simp
  then show ?thesis using n assms by (simp add: hex_byte_def)
qed

lemma parse_pairs_Ok: "parse_pairs v = Ok bs \<Longrightarrow> even (length v) \<Longrightarrow> hex_string bs = v"
proof (induction v arbitrary: bs rule: parse_pairs.induct)
  case (1 a b r)
  then obtain h l rest where h: "hex_nibble a = Ok h" and l: "hex_nibble b = Ok l"
    and r: "parse_pairs r = Ok rest" "bs = or (push_bit 4 h) l # rest"
    by (auto simp: bind_r_Ok)
  have "hex_string rest = r" using "1.IH" [OF r(1)] "1.prems"(2) by simp
  then show ?case
    using nibble_hex [OF h] nibble_hex [OF l] nibbles_byte [of h l] r(2) by (simp add: hex_string_def)
qed (auto simp: hex_string_def)

text \<open>Tags and their texts correspond.\<close>

lemma site_tag_roundtrip: "length tg = SITE_TAG_BYTES \<Longrightarrow> site_tag_parse (site_tag_to_string tg) = Ok tg"
proof -
  assume l: "length tg = SITE_TAG_BYTES"
  have "list_all (\<lambda>c. is_ascii_digit c \<or> in_range 97 102 c) (hex_string tg)"
    by (induction tg) (auto simp: hex_string_def hex_byte_def is_lower_hex_def [symmetric]
        intro!: hex_digit_lower simp: unat_byte_lt less_mult_imp_div_less)
  then show ?thesis
    using l by (simp add: site_tag_parse_def site_tag_to_string_def SITE_TAG_HEX_LEN_def parse_pairs_hex)
qed

lemma site_tag_parse_Ok: "site_tag_parse v = Ok tg \<Longrightarrow> site_tag_to_string tg = v \<and> length tg = SITE_TAG_BYTES"
proof -
  assume "site_tag_parse v = Ok tg"
  then have p: "parse_pairs v = Ok tg" and l: "length v = 32"
    by (auto simp: site_tag_parse_def bounds_simps split: if_splits)
  have v: "hex_string tg = v" using parse_pairs_Ok [OF p] l by simp
  then have "2 * length tg = 32" using l length_hex_string [of tg] by simp
  with v show ?thesis by (simp add: site_tag_to_string_def bounds_simps)
qed

text \<open>Events of the mDNS service: a candidate is passed on when it is another endpoint that
  advertises the expected tag, and its expiry when it was passed on before.\<close>

datatype 'a mdns_event =
    Discovered endpoint_id "string option" 'a
  | MdnsExpired endpoint_id
  | OtherEvent

datatype 'a discovery_event = Candidate 'a | CandidateExpired endpoint_id

fun discovery_next ::
    "endpoint_id \<Rightarrow> site_tag \<Rightarrow> endpoint_id set \<Rightarrow> 'a mdns_event list
     \<Rightarrow> 'a discovery_event option \<times> endpoint_id set \<times> 'a mdns_event list" where
  "discovery_next own tg matched [] = (None, matched, [])"
| "discovery_next own tg matched (ev # evs) =
     (case ev of
        Discovered ep data addr \<Rightarrow>
          if ep = own then discovery_next own tg matched evs
          else (case data of
                  None \<Rightarrow> discovery_next own tg matched evs
                | Some ud \<Rightarrow>
                    (case advertisement_parse ud of
                       Inl _ \<Rightarrow> discovery_next own tg matched evs
                     | Inr t \<Rightarrow>
                         if t \<noteq> tg then discovery_next own tg matched evs
                         else (Some (Candidate addr), insert ep matched, evs)))
      | MdnsExpired ep \<Rightarrow>
          if ep \<in> matched then (Some (CandidateExpired ep), matched - {ep}, evs)
          else discovery_next own tg matched evs
      | OtherEvent \<Rightarrow> discovery_next own tg matched evs)"

subsection \<open>Leases\<close>

definition CONNECTOR_LEASE_VERSION :: u32 where "CONNECTOR_LEASE_VERSION = 1"
definition MAX_CONNECTOR_LEASE_LIFETIME_MS :: u64 where
  "MAX_CONNECTOR_LEASE_LIFETIME_MS = 10 * 60 * 1000"
definition MAX_CONNECTOR_LEASE_NOT_BEFORE_SKEW_MS :: u64 where
  "MAX_CONNECTOR_LEASE_NOT_BEFORE_SKEW_MS = 30 * 1000"
definition MAX_CONNECTOR_LEASE_ENCODED_BYTES :: nat where
  [bounds_simps]: "MAX_CONNECTOR_LEASE_ENCODED_BYTES = 8 * 1024"
definition CONNECTOR_LEASE_MESSAGE_KIND :: string where
  "CONNECTOR_LEASE_MESSAGE_KIND = ''connector_lease''"

datatype connector_lease_role = ConnectorRole

record connector_lease =
  le_version :: u32
  le_controller_id :: controller_id
  le_site_id :: site_id
  le_device_id :: device_id
  le_endpoint_id :: endpoint_id
  le_role :: connector_lease_role
  le_issued :: u64
  le_expires :: u64

record signed_lease =
  sl_payload :: connector_lease
  sl_signature :: bytes

datatype lease_error =
    LeaseIdentity identity_error
  | LeaseJson json_error
  | LeaseUnsupportedVersion u32
  | LeaseWrongRole
  | LeaseInvalidLifetime
  | LeaseControllerMismatch
  | LeaseSiteMismatch
  | LeaseEndpointMismatch
  | LeaseNotYetValid
  | LeaseExpired
  | LeaseUnexpectedKind string
  | LeaseInner inner_error
  | LeaseEncodedTooLarge usize

text \<open>The JSON library at the payload (which is signed) and at the signed lease.\<close>

record lease_json =
  lj_payload :: "connector_lease \<Rightarrow> (json_error, bytes) result"
  lj_signed :: "signed_lease serde"

definition validate_payload :: "connector_lease \<Rightarrow> (lease_error, unit) result" where
  "validate_payload p =
     (if le_version p \<noteq> CONNECTOR_LEASE_VERSION then Err (LeaseUnsupportedVersion (le_version p))
      else if le_role p \<noteq> ConnectorRole then Err LeaseWrongRole
      else bind_r (ok_or (checked_sub (le_expires p) (le_issued p)) LeaseInvalidLifetime) (\<lambda>lifetime.
        if lifetime = 0 \<or> lifetime > MAX_CONNECTOR_LEASE_LIFETIME_MS then Err LeaseInvalidLifetime
        else Ok ()))"

definition lease_check_size :: "lease_json \<Rightarrow> signed_lease \<Rightarrow> (lease_error, unit) result" where
  "lease_check_size j s =
     bind_r (map_err LeaseJson (to_vec (lj_signed j) s)) (\<lambda>b.
       if length b > MAX_CONNECTOR_LEASE_ENCODED_BYTES then Err (LeaseEncodedTooLarge (length b)) else Ok ())"

text \<open>\<open>None\<close> is the panic of the controller id's \<^verbatim>\<open>expect\<close>, which cannot happen.\<close>

definition lease_issue ::
    "crypto \<Rightarrow> lease_json \<Rightarrow> controller_identity \<Rightarrow> site_id \<Rightarrow> device_id \<Rightarrow> endpoint_id \<Rightarrow> u64 \<Rightarrow> u64
     \<Rightarrow> (lease_error, signed_lease) result option" where
  "lease_issue cr j ci sid did ep issued expires =
     map_option (\<lambda>cid.
       let p = \<lparr>le_version = CONNECTOR_LEASE_VERSION, le_controller_id = cid, le_site_id = sid,
                le_device_id = did, le_endpoint_id = ep, le_role = ConnectorRole,
                le_issued = issued, le_expires = expires\<rparr> in
       bind_r (validate_payload p) (\<lambda>_.
       bind_r (map_err LeaseIdentity (sign_connector_lease cr ci (lj_payload j p))) (\<lambda>sig.
       let s = \<lparr>sl_payload = p, sl_signature = sig\<rparr> in
       bind_r (lease_check_size j s) (\<lambda>_. Ok s)))) (controller_identity_id cr ci)"

definition verify_binding_for_candidate ::
    "crypto \<Rightarrow> lease_json \<Rightarrow> signed_lease \<Rightarrow> controller_public_identity \<Rightarrow> site_id \<Rightarrow> endpoint_id
     \<Rightarrow> (lease_error, device_id) result" where
  "verify_binding_for_candidate cr j s pinned sid ep =
     bind_r (lease_check_size j s) (\<lambda>_.
     bind_r (validate_payload (sl_payload s)) (\<lambda>_.
     if le_controller_id (sl_payload s) \<noteq> cp_controller_id pinned then Err LeaseControllerMismatch
     else bind_r (map_err LeaseIdentity
            (verify_connector_lease cr pinned (lj_payload j (sl_payload s)) (sl_signature s))) (\<lambda>_.
       if le_site_id (sl_payload s) \<noteq> sid then Err LeaseSiteMismatch
       else if le_endpoint_id (sl_payload s) \<noteq> ep then Err LeaseEndpointMismatch
       else Ok (le_device_id (sl_payload s)))))"

definition verify_for_candidate ::
    "crypto \<Rightarrow> lease_json \<Rightarrow> signed_lease \<Rightarrow> controller_public_identity \<Rightarrow> site_id \<Rightarrow> endpoint_id \<Rightarrow> u64
     \<Rightarrow> (lease_error, device_id) result" where
  "verify_for_candidate cr j s pinned sid ep now =
     bind_r (verify_binding_for_candidate cr j s pinned sid ep) (\<lambda>did.
       if saturating_add now MAX_CONNECTOR_LEASE_NOT_BEFORE_SKEW_MS < le_issued (sl_payload s)
       then Err LeaseNotYetValid
       else if now \<ge> le_expires (sl_payload s) then Err LeaseExpired
       else Ok did)"

definition lease_to_bytes :: "lease_json \<Rightarrow> signed_lease \<Rightarrow> (lease_error, bytes) result" where
  "lease_to_bytes j s =
     bind_r (lease_check_size j s) (\<lambda>_. map_err LeaseJson (to_vec (lj_signed j) s))"

definition lease_from_bytes :: "lease_json \<Rightarrow> bytes \<Rightarrow> (lease_error, signed_lease) result" where
  "lease_from_bytes j bs =
     (if length bs > MAX_CONNECTOR_LEASE_ENCODED_BYTES then Err (LeaseEncodedTooLarge (length bs))
      else bind_r (map_err LeaseJson (from_slice (lj_signed j) bs)) (\<lambda>s.
        bind_r (lease_check_size j s) (\<lambda>_.
        bind_r (validate_payload (sl_payload s)) (\<lambda>_. Ok s))))"

definition lease_into_message :: "lease_json \<Rightarrow> signed_lease \<Rightarrow> (lease_error, inner_message) result" where
  "lease_into_message j s =
     bind_r (lease_to_bytes j s) (\<lambda>b. map_err LeaseInner (inner_message_new CONNECTOR_LEASE_MESSAGE_KIND b))"

definition lease_from_message :: "lease_json \<Rightarrow> inner_message \<Rightarrow> (lease_error, signed_lease) result" where
  "lease_from_message j m =
     (if im_kind m \<noteq> CONNECTOR_LEASE_MESSAGE_KIND then Err (LeaseUnexpectedKind (im_kind m))
      else lease_from_bytes j (im_payload m))"

lemma validate_payload_Ok:
  "validate_payload p = Ok () \<longleftrightarrow> le_version p = CONNECTOR_LEASE_VERSION
     \<and> le_issued p < le_expires p \<and> unat (le_expires p) - unat (le_issued p) \<le> 600000"
proof -
  have r: "le_role p = ConnectorRole" by (cases "le_role p")
  have "lifetime \<noteq> 0 \<and> lifetime \<le> MAX_CONNECTOR_LEASE_LIFETIME_MS \<longleftrightarrow>
      le_issued p < le_expires p \<and> unat (le_expires p) - unat (le_issued p) \<le> 600000"
    if "checked_sub (le_expires p) (le_issued p) = Some lifetime" for lifetime
    using checked_sub_Some [OF that]
    by (auto simp: word_le_nat_alt word_less_nat_alt unat_eq_0 [symmetric] MAX_CONNECTOR_LEASE_LIFETIME_MS_def)
  moreover have "\<not> le_issued p < le_expires p" if "checked_sub (le_expires p) (le_issued p) = None"
    using that by (auto simp: checked_sub_def split: if_splits)
  ultimately show ?thesis
    by (cases "checked_sub (le_expires p) (le_issued p)")
      (auto simp: validate_payload_def r bind_r_Ok not_less not_le)
qed

lemma verify_binding_Ok:
  "verify_binding_for_candidate cr j s pinned sid ep = Ok did \<longleftrightarrow>
     lease_check_size j s = Ok () \<and> validate_payload (sl_payload s) = Ok ()
     \<and> le_controller_id (sl_payload s) = cp_controller_id pinned
     \<and> verify_connector_lease cr pinned (lj_payload j (sl_payload s)) (sl_signature s) = Ok ()
     \<and> le_site_id (sl_payload s) = sid \<and> le_endpoint_id (sl_payload s) = ep
     \<and> did = le_device_id (sl_payload s)"
  by (auto simp: verify_binding_for_candidate_def result_simps)

lemma lease_window:
  "\<not> saturating_add now MAX_CONNECTOR_LEASE_NOT_BEFORE_SKEW_MS < t \<longleftrightarrow> unat t \<le> unat (now :: u64) + 30000"
  using unsigned_less [of t, where ?'a = nat]
  by (auto simp: not_less word_le_nat_alt unat_saturating_add MAX_CONNECTOR_LEASE_NOT_BEFORE_SKEW_MS_def)

lemma verify_for_candidate_Ok:
  "verify_for_candidate cr j s pinned sid ep now = Ok did \<longleftrightarrow>
     verify_binding_for_candidate cr j s pinned sid ep = Ok did
     \<and> unat (le_issued (sl_payload s)) \<le> unat now + 30000 \<and> now < le_expires (sl_payload s)"
  by (auto simp: verify_for_candidate_def bind_r_Ok lease_window [symmetric] not_le)

text \<open>C26: A connector's lease says exactly what its controller signed: a lease the controller issued
  verifies for that site and endpoint from 30 seconds before its start until its end and for
  nothing else, it lives at most ten minutes, and any lease that verifies was signed by the
  pinned controller in the lease domain over the site, endpoint and device it is accepted for.\<close>

theorem connector_lease:
  assumes "sha256_ok cr" and "ed25519_key_ok cr (ci_signing_key ci)" and "controller_public cr ci = Some p"
    and "lease_issue cr j ci sid did ep t0 t1 = Some (Ok s)"
  shows "(verify_for_candidate cr j s p sid' ep' now = Ok did' \<longleftrightarrow>
      sid' = sid \<and> ep' = ep \<and> did' = did \<and> unat t0 \<le> unat now + 30000 \<and> now < t1)
    \<and> unat t1 - unat t0 \<le> 600000
    \<and> (verify_for_candidate cr j s2 pinned sid2 ep2 now = Ok did2 \<longrightarrow>
        (\<exists>b. lj_payload j (sl_payload s2) = Ok b
          \<and> ed_verify_strict cr (cp_public_key pinned) (CONNECTOR_LEASE_SIGNATURE_DOMAIN @ b) (sl_signature s2))
        \<and> le_site_id (sl_payload s2) = sid2 \<and> le_endpoint_id (sl_payload s2) = ep2
        \<and> le_device_id (sl_payload s2) = did2 \<and> now < le_expires (sl_payload s2))"
proof -
  obtain cid sig where c: "controller_identity_id cr ci = Some cid"
    and v: "validate_payload (sl_payload s) = Ok ()"
    and sig: "controller_sign_payload cr ci CONNECTOR_LEASE_SIGNATURE_DOMAIN (lj_payload j (sl_payload s)) = Ok sig"
    and size: "lease_check_size j s = Ok ()" and s: "sl_signature s = sig"
    and f: "le_controller_id (sl_payload s) = cid" "le_site_id (sl_payload s) = sid"
      "le_device_id (sl_payload s) = did" "le_endpoint_id (sl_payload s) = ep"
      "le_issued (sl_payload s) = t0" "le_expires (sl_payload s) = t1"
    using assms(4) by (auto simp: lease_issue_def bind_r_Ok Let_def sign_connector_lease_def)
  have p: "cp_controller_id p = cid" using assms(3) c by (auto simp: controller_public_def)
  have "verify_connector_lease cr p (lj_payload j (sl_payload s)) (sl_signature s) = Ok ()"
    using signature_verifies [OF assms(1,2,3) sig] by (simp add: verify_connector_lease_def s)
  then have a: "verify_for_candidate cr j s p sid' ep' now = Ok did' \<longleftrightarrow>
      sid' = sid \<and> ep' = ep \<and> did' = did \<and> unat t0 \<le> unat now + 30000 \<and> now < t1"
    using v size p f by (auto simp: verify_for_candidate_Ok verify_binding_Ok)
  have l: "unat t1 - unat t0 \<le> 600000" using v f by (simp add: validate_payload_Ok)
  have "\<exists>b. lj_payload j (sl_payload s2) = Ok b
      \<and> ed_verify_strict cr (cp_public_key pinned) (CONNECTOR_LEASE_SIGNATURE_DOMAIN @ b) (sl_signature s2)"
    if "verify_connector_lease cr pinned (lj_payload j (sl_payload s2)) (sl_signature s2) = Ok ()"
    using that by (auto simp: verify_connector_lease_def controller_verify_payload_Ok)
  then show ?thesis using a l by (auto simp: verify_for_candidate_Ok verify_binding_Ok)
qed

definition toy_lease_json :: lease_json where
  "toy_lease_json = \<lparr>lj_payload = \<lambda>_. Ok [1],
     lj_signed = \<lparr>to_vec = \<lambda>_. Ok [2], from_slice = \<lambda>_. Err (JsonError [])\<rparr>\<rparr>"

lemma connector_lease_witness:
  "\<exists>p s. controller_public toy_crypto \<lparr>ci_signing_key = [7]\<rparr> = Some p
     \<and> verify_for_candidate toy_crypto toy_lease_json s p 2 [4] 1000 = Ok 3"
proof -
  obtain p where p: "controller_public toy_crypto \<lparr>ci_signing_key = [7]\<rparr> = Some p"
    using controller_id_derived [of toy_crypto "[7]"]
    by (auto simp: controller_public_def controller_identity_id_def toy_crypto_def)
  then obtain i where i: "controller_identity_id toy_crypto \<lparr>ci_signing_key = [7]\<rparr> = Some i"
    by (auto simp: controller_public_def)
  obtain s where s: "lease_issue toy_crypto toy_lease_json \<lparr>ci_signing_key = [7]\<rparr> 2 3 [4] 500 2000 = Some (Ok s)"
    by (simp add: lease_issue_def i validate_payload_def CONNECTOR_LEASE_VERSION_def checked_sub_def
        MAX_CONNECTOR_LEASE_LIFETIME_MS_def sign_connector_lease_def controller_sign_payload_def
        signed_message_def toy_lease_json_def lease_check_size_def bounds_simps)
  have k: "ed25519_key_ok toy_crypto (ci_signing_key \<lparr>ci_signing_key = [7]\<rparr>)"
    by (simp add: toy_crypto_ok)
  have "verify_for_candidate toy_crypto toy_lease_json s p 2 [4] 1000 = Ok 3"
    using conjunct1 [OF connector_lease [OF toy_crypto_ok(1) k p s, of 2 "[4]" 1000 3]] by simp
  then show ?thesis using p by blast
qed

subsection \<open>Opening a tunnel\<close>

definition CONNECTOR_CONTROL_VERSION :: u32 where "CONNECTOR_CONTROL_VERSION = 1"
definition MAX_CONNECTOR_CONTROL_FRAME_BYTES :: nat where
  [bounds_simps]: "MAX_CONNECTOR_CONTROL_FRAME_BYTES = 16 * 1024"

datatype tunnel_purpose = InnerSessionTunnel | BootstrapTunnel

record connector_open_request =
  co_version :: u32
  co_site_tag :: string
  co_purpose :: tunnel_purpose

record connector_ready =
  cy_version :: u32
  cy_lease :: signed_lease

datatype connector_control_error =
    CcIo string
  | CcJson json_error
  | CcFrameTooLarge usize
  | CcUnsupportedVersion u32
  | CcInvalidSiteTag

definition open_request_new :: "site_tag \<Rightarrow> tunnel_purpose \<Rightarrow> connector_open_request" where
  "open_request_new tg purpose =
     \<lparr>co_version = CONNECTOR_CONTROL_VERSION, co_site_tag = site_tag_to_string tg, co_purpose = purpose\<rparr>"

definition open_request_validate :: "connector_open_request \<Rightarrow> (connector_control_error, site_tag) result" where
  "open_request_validate r =
     (if co_version r \<noteq> CONNECTOR_CONTROL_VERSION then Err (CcUnsupportedVersion (co_version r))
      else map_err (\<lambda>_. CcInvalidSiteTag) (site_tag_parse (co_site_tag r)))"

definition connector_ready_new :: "signed_lease \<Rightarrow> connector_ready" where
  "connector_ready_new s = \<lparr>cy_version = CONNECTOR_CONTROL_VERSION, cy_lease = s\<rparr>"

definition connector_ready_validate :: "connector_ready \<Rightarrow> (connector_control_error, unit) result" where
  "connector_ready_validate r =
     (if cy_version r \<noteq> CONNECTOR_CONTROL_VERSION then Err (CcUnsupportedVersion (cy_version r)) else Ok ())"

text \<open>What a frame puts on the stream, and reading one from the bytes that arrive; \<open>Inr\<close> comes with
  the rest of the stream.\<close>

definition write_control_frame :: "'a serde \<Rightarrow> 'a \<Rightarrow> (connector_control_error, bytes) result" where
  "write_control_frame j x =
     bind_r (map_err CcJson (to_vec j x)) (\<lambda>b.
       if b = [] \<or> length b > MAX_CONNECTOR_CONTROL_FRAME_BYTES then Err (CcFrameTooLarge (length b))
       else Ok (u32_to_be (word_of_nat (length b)) @ b))"

definition read_exact :: "usize \<Rightarrow> bytes \<Rightarrow> (connector_control_error, bytes \<times> bytes) result" where
  "read_exact n stream =
     (if length stream < n then Err (CcIo ''unexpected end of file'') else Ok (take n stream, drop n stream))"

definition read_control_frame :: "'a serde \<Rightarrow> bytes \<Rightarrow> (connector_control_error, 'a \<times> bytes) result" where
  "read_control_frame j stream =
     bind_r (read_exact 4 stream) (\<lambda>(header, rest).
       let n = unat (u32_from_be header) in
       if n = 0 \<or> n > MAX_CONNECTOR_CONTROL_FRAME_BYTES then Err (CcFrameTooLarge n)
       else bind_r (read_exact n rest) (\<lambda>(body, rest').
         bind_r (map_err CcJson (from_slice j body)) (\<lambda>x. Ok (x, rest'))))"

definition write_connector_open ::
    "connector_open_request serde \<Rightarrow> connector_open_request \<Rightarrow> (connector_control_error, bytes) result" where
  "write_connector_open j r = bind_r (open_request_validate r) (\<lambda>_. write_control_frame j r)"

definition read_connector_open ::
    "connector_open_request serde \<Rightarrow> bytes \<Rightarrow> (connector_control_error, connector_open_request \<times> bytes) result" where
  "read_connector_open j stream =
     bind_r (read_control_frame j stream) (\<lambda>(r, rest). bind_r (open_request_validate r) (\<lambda>_. Ok (r, rest)))"

definition write_connector_ready ::
    "connector_ready serde \<Rightarrow> connector_ready \<Rightarrow> (connector_control_error, bytes) result" where
  "write_connector_ready j r = bind_r (connector_ready_validate r) (\<lambda>_. write_control_frame j r)"

definition read_connector_ready ::
    "connector_ready serde \<Rightarrow> bytes \<Rightarrow> (connector_control_error, connector_ready \<times> bytes) result" where
  "read_connector_ready j stream =
     bind_r (read_control_frame j stream) (\<lambda>(r, rest). bind_r (connector_ready_validate r) (\<lambda>_. Ok (r, rest)))"

lemma control_frame_roundtrip:
  assumes "serde_faithful j x" and "write_control_frame j x = Ok f"
  shows "read_control_frame j (f @ rest) = Ok (x, rest)"
proof -
  obtain b where b: "to_vec j x = Ok b" "b \<noteq> []" "length b \<le> MAX_CONNECTOR_CONTROL_FRAME_BYTES"
    "f = u32_to_be (word_of_nat (length b)) @ b"
    using assms(2) by (auto simp: write_control_frame_def bind_r_Ok not_less split: if_splits)
  have n: "unat (word_of_nat (length b) :: u32) = length b"
    using b(3) by (simp add: unat_of_nat bounds_simps)
  have r: "read_exact 4 (f @ rest) = Ok (u32_to_be (word_of_nat (length b)), b @ rest)"
    "read_exact (length b) (b @ rest) = Ok (b, rest)"
    by (simp_all add: read_exact_def b(4))
  show ?thesis
    using b(2,3) serde_faithfulD [OF assms(1) b(1)] by (simp add: read_control_frame_def r n Let_def)
qed

lemma connector_open_roundtrip:
  assumes "length tg = SITE_TAG_BYTES" and "serde_faithful j (open_request_new tg p)"
    and "write_connector_open j (open_request_new tg p) = Ok f"
  shows "read_connector_open j (f @ rest) = Ok (open_request_new tg p, rest)
    \<and> open_request_validate (open_request_new tg p) = Ok tg"
proof -
  have v: "open_request_validate (open_request_new tg p) = Ok tg"
    using site_tag_roundtrip [OF assms(1)] by (simp add: open_request_validate_def open_request_new_def)
  have "write_control_frame j (open_request_new tg p) = Ok f"
    using assms(3) by (auto simp: write_connector_open_def bind_r_Ok)
  from control_frame_roundtrip [OF assms(2) this] v show ?thesis by (simp add: read_connector_open_def)
qed

subsection \<open>Nearby connector files\<close>

definition NEARBY_CONNECTOR_FILE_VERSION :: u32 where "NEARBY_CONNECTOR_FILE_VERSION = 1"
definition NEARBY_CONNECTOR_FILE_KIND :: string where
  "NEARBY_CONNECTOR_FILE_KIND = ''clew_nearby_connector''"
definition MAX_NEARBY_CONNECTOR_FILE_BYTES :: nat where
  [bounds_simps]: "MAX_NEARBY_CONNECTOR_FILE_BYTES = 32 * 1024"
definition MAX_NEARBY_CONNECTOR_ADDRS :: nat where [bounds_simps]: "MAX_NEARBY_CONNECTOR_ADDRS = 16"

text \<open>An endpoint's address hints, in the order of their set.\<close>

record 'a endpoint_addr =
  ea_id :: endpoint_id
  ea_addrs :: "'a list"

record 'a nearby_file =
  nf_version :: u32
  nf_kind :: string
  nf_site_tag :: string
  nf_candidate :: "'a endpoint_addr"
  nf_lease :: signed_lease

datatype nearby_error =
    NcJson json_error
  | NcIo string
  | NcDiscovery discovery_error
  | NcLease lease_error
  | NcUnsupportedVersion u32
  | NcWrongKind
  | NcSiteMismatch
  | NcEndpointMismatch
  | NcMissingLanAddress
  | NcTooManyAddresses usize
  | NcNonLanAddress
  | NcTooLarge usize nat

definition nearby_check_size :: "usize \<Rightarrow> (nearby_error, unit) result" where
  "nearby_check_size n =
     (if n = 0 \<or> n > MAX_NEARBY_CONNECTOR_FILE_BYTES
      then Err (NcTooLarge n MAX_NEARBY_CONNECTOR_FILE_BYTES) else Ok ())"

definition nearby_validate ::
    "crypto \<Rightarrow> lease_json \<Rightarrow> ('a \<Rightarrow> bool) \<Rightarrow> 'a nearby_file \<Rightarrow> (nearby_error, unit) result" where
  "nearby_validate cr j is_ip f =
     (let p = sl_payload (nf_lease f); addrs = ea_addrs (nf_candidate f) in
      if nf_version f \<noteq> NEARBY_CONNECTOR_FILE_VERSION then Err (NcUnsupportedVersion (nf_version f))
      else if nf_kind f \<noteq> NEARBY_CONNECTOR_FILE_KIND then Err NcWrongKind
      else bind_r (map_err NcDiscovery (site_tag_parse (nf_site_tag f))) (\<lambda>actual.
        if actual \<noteq> site_tag_derive cr (le_controller_id p) (le_site_id p) then Err NcSiteMismatch
        else if ea_id (nf_candidate f) \<noteq> le_endpoint_id p then Err NcEndpointMismatch
        else if addrs = [] then Err NcMissingLanAddress
        else if length addrs > MAX_NEARBY_CONNECTOR_ADDRS then Err (NcTooManyAddresses (length addrs))
        else if list_ex (\<lambda>a. \<not> is_ip a) addrs then Err NcNonLanAddress
        else bind_r (map_err NcLease (lease_to_bytes j (nf_lease f))) (\<lambda>_. Ok ())))"

definition nearby_from_helper ::
    "crypto \<Rightarrow> lease_json \<Rightarrow> ('a \<Rightarrow> bool) \<Rightarrow> 'a endpoint_addr \<Rightarrow> signed_lease
     \<Rightarrow> (nearby_error, 'a nearby_file) result" where
  "nearby_from_helper cr j is_ip helper s =
     (let f = \<lparr>nf_version = NEARBY_CONNECTOR_FILE_VERSION, nf_kind = NEARBY_CONNECTOR_FILE_KIND,
            nf_site_tag = site_tag_to_string
              (site_tag_derive cr (le_controller_id (sl_payload s)) (le_site_id (sl_payload s))),
            nf_candidate = \<lparr>ea_id = ea_id helper, ea_addrs = filter is_ip (ea_addrs helper)\<rparr>,
            nf_lease = s\<rparr> in
      bind_r (nearby_validate cr j is_ip f) (\<lambda>_. Ok f))"

definition nearby_verify_hint ::
    "crypto \<Rightarrow> lease_json \<Rightarrow> ('a \<Rightarrow> bool) \<Rightarrow> 'a nearby_file \<Rightarrow> controller_public_identity \<Rightarrow> site_id
     \<Rightarrow> (nearby_error, device_id) result" where
  "nearby_verify_hint cr j is_ip f pinned sid =
     bind_r (nearby_validate cr j is_ip f) (\<lambda>_.
     bind_r (map_err NcDiscovery (site_tag_parse (nf_site_tag f))) (\<lambda>tg.
       if tg \<noteq> site_tag_derive cr (cp_controller_id pinned) sid then Err NcSiteMismatch
       else map_err NcLease (verify_binding_for_candidate cr j (nf_lease f) pinned sid (ea_id (nf_candidate f)))))"

definition nearby_verify_for_target ::
    "crypto \<Rightarrow> lease_json \<Rightarrow> ('a \<Rightarrow> bool) \<Rightarrow> 'a nearby_file \<Rightarrow> controller_public_identity \<Rightarrow> site_id \<Rightarrow> u64
     \<Rightarrow> (nearby_error, device_id) result" where
  "nearby_verify_for_target cr j is_ip f pinned sid now =
     bind_r (nearby_verify_hint cr j is_ip f pinned sid) (\<lambda>_.
       map_err NcLease (verify_for_candidate cr j (nf_lease f) pinned sid (ea_id (nf_candidate f)) now))"

record 'a nearby_json =
  nj_header :: "bytes \<Rightarrow> (json_error, u32 \<times> string) result"
  nj_file :: "'a nearby_file serde"

definition nearby_to_bytes ::
    "crypto \<Rightarrow> lease_json \<Rightarrow> ('a \<Rightarrow> bool) \<Rightarrow> 'a nearby_json \<Rightarrow> 'a nearby_file \<Rightarrow> (nearby_error, bytes) result" where
  "nearby_to_bytes cr j is_ip nj f =
     bind_r (nearby_validate cr j is_ip f) (\<lambda>_.
     bind_r (map_err NcJson (to_vec (nj_file nj) f)) (\<lambda>b.
     bind_r (nearby_check_size (length b)) (\<lambda>_. Ok b)))"

definition nearby_from_bytes ::
    "crypto \<Rightarrow> lease_json \<Rightarrow> ('a \<Rightarrow> bool) \<Rightarrow> 'a nearby_json \<Rightarrow> bytes \<Rightarrow> (nearby_error, 'a nearby_file) result" where
  "nearby_from_bytes cr j is_ip nj b =
     bind_r (nearby_check_size (length b)) (\<lambda>_.
     bind_r (map_err NcJson (nj_header nj b)) (\<lambda>(version, kind).
       if version \<noteq> NEARBY_CONNECTOR_FILE_VERSION then Err (NcUnsupportedVersion version)
       else if kind \<noteq> NEARBY_CONNECTOR_FILE_KIND then Err NcWrongKind
       else bind_r (map_err NcJson (from_slice (nj_file nj) b)) (\<lambda>f.
         bind_r (nearby_validate cr j is_ip f) (\<lambda>_. Ok f))))"

text \<open>\<^verbatim>\<open>read\<close> takes one byte more than the bound from the file, so that a longer file is seen as such.\<close>

definition nearby_read ::
    "crypto \<Rightarrow> lease_json \<Rightarrow> ('a \<Rightarrow> bool) \<Rightarrow> 'a nearby_json \<Rightarrow> (string, bytes) result
     \<Rightarrow> (nearby_error, 'a nearby_file) result" where
  "nearby_read cr j is_ip nj contents =
     bind_r (map_err NcIo contents) (\<lambda>whole.
     let input = take (MAX_NEARBY_CONNECTOR_FILE_BYTES + 1) whole in
     bind_r (nearby_check_size (length input)) (\<lambda>_. nearby_from_bytes cr j is_ip nj input))"

lemma nearby_roundtrip:
  assumes "nearby_to_bytes cr j is_ip nj f = Ok b" and "serde_faithful (nj_file nj) f"
    and "nj_header nj b = Ok (nf_version f, nf_kind f)"
  shows "nearby_read cr j is_ip nj (Ok b) = Ok f"
proof -
  have v: "nearby_validate cr j is_ip f = Ok ()" and b: "to_vec (nj_file nj) f = Ok b"
    and n: "nearby_check_size (length b) = Ok ()"
    using assms(1) by (auto simp: nearby_to_bytes_def bind_r_Ok)
  have h: "nf_version f = NEARBY_CONNECTOR_FILE_VERSION" "nf_kind f = NEARBY_CONNECTOR_FILE_KIND"
    using v by (auto simp: nearby_validate_def Let_def split: if_splits)
  have l: "length b \<le> MAX_NEARBY_CONNECTOR_FILE_BYTES"
    using n by (auto simp: nearby_check_size_def split: if_splits)
  show ?thesis
    using serde_faithfulD [OF assms(2) b] assms(3) h v n l
    by (simp add: nearby_read_def nearby_from_bytes_def Let_def)
qed

text \<open>A nearby file gives no authority of its own: what verifies is its lease.\<close>

lemma nearby_lease:
  "nearby_verify_for_target cr j is_ip f pinned sid now = Ok did \<Longrightarrow>
     verify_for_candidate cr j (nf_lease f) pinned sid (ea_id (nf_candidate f)) now = Ok did
     \<and> site_tag_to_string (site_tag_derive cr (cp_controller_id pinned) sid) = nf_site_tag f
     \<and> (\<forall>a \<in> set (ea_addrs (nf_candidate f)). is_ip a)"
  by (auto simp: nearby_verify_for_target_def nearby_verify_hint_def nearby_validate_def Let_def
      bind_r_Ok list_ex_iff dest!: site_tag_parse_Ok split: if_splits)

end
