(* ===== verification/Controller_Admin.thy ===== *)
theory Controller_Admin
  imports Control_Store Connector Device_Names Read_Protocol
begin

section \<open>Administration and admission\<close>

text \<open>
  Where the controller's registry and catalog are changed together: the transactions of the local
  API (clew-runtime/src/local_api.rs) on invites and devices, the claim and the activation of a
  device (remote.rs: \<^verbatim>\<open>handle_bootstrap_inner\<close>, \<^verbatim>\<open>finalize_persisted\<close>), and the decisions that
  read them when a member, a connector or a new device connects. The channel of a bootstrap is
  given by what each receive yields and how each send ends.
\<close>

subsection \<open>Transactions on the registry and the catalog\<close>

definition on_registry ::
    "(registry \<Rightarrow> registry \<times> (enrollment_error, 'a) result) \<Rightarrow> 'a mutator" where
  "on_registry f s =
     (case f (cs_registry s) of
        (r, Inl e) \<Rightarrow> Err (CsEnrollment e)
      | (r, Inr x) \<Rightarrow> Ok (x, s\<lparr>cs_registry := r\<rparr>))"

definition on_catalog :: "(catalog \<Rightarrow> (control_model_error, 'a \<times> catalog) result) \<Rightarrow> 'a mutator" where
  "on_catalog f s =
     bind_r (map_err CsModel (f (cs_catalog s))) (\<lambda>(x, c). Ok (x, s\<lparr>cs_catalog := c\<rparr>))"

definition invite_close :: "invite_id \<Rightarrow> unit mutator" where
  "invite_close i = on_registry (close_invite i)"

definition revoke_known :: "device_id \<Rightarrow> catalog \<Rightarrow> (control_model_error, catalog) result" where
  "revoke_known did c = (if bt_get (devices c) did \<noteq> None then catalog_revoke_device did c else Ok c)"

definition invite_revoke :: "invite_id \<Rightarrow> device_id list mutator" where
  "invite_revoke i s =
     bind_r (on_registry (revoke_invite i) s) (\<lambda>(ids, s1).
       on_catalog (\<lambda>c. bind_r (fold_r revoke_known ids c) (\<lambda>c'. Ok (ids, c'))) s1)"

definition invite_delete :: "invite_id \<Rightarrow> device_id list mutator" where
  "invite_delete i s =
     bind_r (on_registry (delete_invite_history i) s) (\<lambda>(ids, s1).
       on_catalog (\<lambda>c. Ok (ids, fold (\<lambda>did c. snd (remove_device did c)) ids c)) s1)"

definition device_rename :: "device_id \<Rightarrow> string \<Rightarrow> device_record mutator" where
  "device_rename did name = on_catalog (rename_device did name)"

definition device_revoke :: "device_id \<Rightarrow> unit mutator" where
  "device_revoke did s =
     bind_r (on_registry (revoke_device did) s) (\<lambda>(_, s1).
       on_catalog (\<lambda>c. bind_r (catalog_revoke_device did c) (\<lambda>c'. Ok ((), c'))) s1)"

definition invite_issue :: "crypto \<Rightarrow> enroll_json \<Rightarrow> site_record \<Rightarrow> signed_pass \<Rightarrow> unit mutator" where
  "invite_issue cr js site pass s =
     bind_r (on_catalog (\<lambda>c. bind_r (upsert_site site c) (\<lambda>c'. Ok ((), c'))) s) (\<lambda>(_, s1).
       on_registry (register_pass cr js pass) s1)"

text \<open>\<open>None\<close>: the registry is still drawing device ids.\<close>

definition claim_device ::
    "crypto \<Rightarrow> enroll_json \<Rightarrow> device_id list \<Rightarrow> (identity_error, bytes) result \<Rightarrow> signed_pass
     \<Rightarrow> device_public_identity \<Rightarrow> u64 \<Rightarrow> permission_grant \<Rightarrow> control_snapshot
     \<Rightarrow> (control_store_error, receipt \<times> control_snapshot) result option" where
  "claim_device cr js drawn token pass device now ceiling s =
     map_option (\<lambda>res. on_registry (\<lambda>_. res) s)
       (claim_with_ceiling cr js drawn token pass device now ceiling (cs_registry s))"

definition enter_activated :: "device_id \<Rightarrow> string \<Rightarrow> enrollment_device \<Rightarrow> device_record mutator" where
  "enter_activated did normalized e s =
     bind_r (ok_or (bt_get (sites (cs_catalog s)) (ed_site_id e)) (CsModel (UnknownSite (ed_site_id e)))) (\<lambda>site.
       if sr_revoked site then Err (CsModel (UnknownSite (ed_site_id e)))
       else case bt_get (devices (cs_catalog s)) did of
         Some existing \<Rightarrow>
           if dr_site_id (device_of existing) \<noteq> ed_site_id e
              \<or> enrolled_via_invite_id (device_of existing) \<noteq> ed_invite_id e
              \<or> dr_capabilities (device_of existing) \<noteq> member (ed_effective_grant e)
              \<or> cd_revoked existing
           then Err (CsModel (DeviceConflict did))
           else Ok (device_of existing, s)
       | None \<Rightarrow>
           (let d = \<lparr>dr_device_id = did, dr_site_id = ed_site_id e, display_name = normalized,
                  hostname_observed = normalized, dr_capabilities = member (ed_effective_grant e),
                  enrolled_via_invite_id = ed_invite_id e,
                  name_origin = Automatic normalized False 0\<rparr> in
            on_catalog (\<lambda>c. bind_r (register_device d c) (\<lambda>c'. Ok (d, c'))) s))"

definition finalize_persisted ::
    "target_os \<Rightarrow> invite_id \<Rightarrow> device_id \<Rightarrow> bytes \<Rightarrow> string \<Rightarrow> device_record mutator" where
  "finalize_persisted os i did token host s =
     (let normalized = normalize_hostname os host in
      bind_r (on_registry (finalize_host_persist i did token) s) (\<lambda>(e, s1).
        enter_activated did normalized e s1))"

subsection \<open>Admission\<close>

definition remote_access_paused_of :: "control_snapshot \<Rightarrow> bool" where
  "remote_access_paused_of s =
     (case recovery_review_of s of None \<Rightarrow> False | Some rv \<Rightarrow> remote_access_paused rv)"

text \<open>Whether a member that proved \<open>cl\<close> in the handshake may have a session.\<close>

definition authorize_member ::
    "crypto \<Rightarrow> controller_id \<Rightarrow> site_tag option \<Rightarrow> control_snapshot \<Rightarrow> device_session_claim \<Rightarrow> bool" where
  "authorize_member cr cid expected_tag s cl =
     (if remote_access_paused_of s then False
      else case bt_get (sites (cs_catalog s)) (sc_site_id cl) of
        None \<Rightarrow> False
      | Some site \<Rightarrow>
          if (case expected_tag of None \<Rightarrow> False
              | Some tg \<Rightarrow> site_tag_derive cr cid (sc_site_id cl) \<noteq> tg) then False
          else (case bt_get (devices (cs_catalog s)) (sc_device_id cl) of
            None \<Rightarrow> False
          | Some d \<Rightarrow>
              (case bt_get (rg_devices (cs_registry s)) (sc_device_id cl) of
                 None \<Rightarrow> False
               | Some e \<Rightarrow>
                   \<not> sr_revoked site \<and> \<not> cd_revoked d
                   \<and> is_device_active (cs_registry s) (sc_device_id cl)
                   \<and> dr_site_id (device_of d) = sc_site_id cl
                   \<and> ed_device_public e = sc_device_identity cl)))"

definition connector_capability_enabled :: "control_snapshot \<Rightarrow> device_id \<Rightarrow> site_id \<Rightarrow> bool" where
  "connector_capability_enabled s did sid =
     (case bt_get (sites (cs_catalog s)) sid of
        None \<Rightarrow> False
      | Some site \<Rightarrow>
          (case bt_get (devices (cs_catalog s)) did of
             None \<Rightarrow> False
           | Some d \<Rightarrow> \<not> sr_revoked site \<and> \<not> cd_revoked d \<and> dr_site_id (device_of d) = sid
               \<and> connector (dr_capabilities (device_of d)) \<and> is_device_active (cs_registry s) did))"

text \<open>The errors these paths yield. Those of the source that only a running session yields (read, hub and
  sealed-session errors, the registration probe) are left out; no rejection is sent for them.\<close>

datatype remote_connection_error =
    RcBootstrap bootstrap_protocol_error
  | RcInner inner_error
  | RcIdentity identity_error
  | RcControl control_store_error
  | RcEnrollment enrollment_error
  | RcRecoveryReviewRequired
  | RcDenied
  | RcConnectorControl connector_control_error
  | RcConnectorLease lease_error
  | RcInvalidHostname
  | RcInvalidBootstrapSequence
  | RcStatePoisoned
  | RcClockBeforeUnixEpoch
  | RcClockOverflow

definition resolve_connector_site ::
    "crypto \<Rightarrow> controller_id \<Rightarrow> site_tag \<Rightarrow> control_snapshot \<Rightarrow> (remote_connection_error, site_id) result" where
  "resolve_connector_site cr cid expected_tag s =
     (let matches = map (\<lambda>(_, site). sr_site_id site)
            (filter (\<lambda>(_, site). \<not> sr_revoked site
                \<and> site_tag_derive cr cid (sr_site_id site) = expected_tag) (sites (cs_catalog s))) in
      case matches of
        [] \<Rightarrow> Err RcDenied
      | [sid] \<Rightarrow> Ok sid
      | _ \<Rightarrow> Err RcDenied)"

subsection \<open>Bootstrapping a device\<close>

text \<open>What a bootstrap works with: libraries, the controller's identity, the ids and the token the random
  generator yields, the clock, and how the two commits end.\<close>

record boot_env =
  bn_crypto :: crypto
  bn_json :: enroll_json
  bn_control_json :: control_json
  bn_os :: target_os
  bn_identity :: controller_public_identity
  bn_drawn :: "device_id list"
  bn_token :: "(identity_error, bytes) result"
  bn_now :: "(remote_connection_error, u64) result"
  bn_claim_write :: write_outcome
  bn_final_write :: write_outcome

text \<open>The channel: what the k-th receive yields, and how sending a response as the k-th ends.\<close>

record boot_channel =
  ch_recv :: "nat \<Rightarrow> (bootstrap_protocol_error, bootstrap_request) result"
  ch_send :: "nat \<Rightarrow> bootstrap_response \<Rightarrow> (bootstrap_protocol_error, unit) result"
  ch_sealed :: bool

definition validate_hostname :: "string \<Rightarrow> (remote_connection_error, unit) result" where
  "validate_hostname host = (if length host > 512 then Err RcInvalidHostname else Ok ())"

definition claim_ceiling :: "bootstrap_member_mode \<Rightarrow> permission_grant" where
  "claim_ceiling mode =
     (case mode of
        ExecutePreferred \<Rightarrow> EXECUTE_READ_WRITE_SHELL_TCP_CONNECTOR
      | ConnectorOnly \<Rightarrow> GRANT_CONNECTOR_ONLY)"

type_synonym control_state = "control_disk \<times> control_store"

definition claim_precheck ::
    "boot_env \<Rightarrow> site_id option \<Rightarrow> signed_pass \<Rightarrow> string \<Rightarrow> control_snapshot
     \<Rightarrow> (remote_connection_error, u64) result" where
  "claim_precheck en expected pass host s =
     bind_r (validate_hostname host) (\<lambda>_.
     bind_r (map_err RcEnrollment (pass_verify (bn_crypto en) (bn_json en) pass)) (\<lambda>public.
       if public \<noteq> bn_identity en then Err RcDenied
       else if (case expected of None \<Rightarrow> False | Some sid \<Rightarrow> sid \<noteq> pb_site_id (sp_payload pass))
       then Err RcDenied
       else bind_r (ok_or (bt_get (sites (cs_catalog s)) (pb_site_id (sp_payload pass))) RcDenied) (\<lambda>site.
         if sr_revoked site \<or> sr_site_name site \<noteq> pb_site_name (sp_payload pass) then Err RcDenied
         else bn_now en)))"

definition bootstrap_claim ::
    "boot_env \<Rightarrow> site_id option \<Rightarrow> signed_pass \<Rightarrow> device_public_identity \<Rightarrow> string \<Rightarrow> bootstrap_member_mode
     \<Rightarrow> control_state \<Rightarrow> (control_state \<times> (remote_connection_error, receipt) result) option" where
  "bootstrap_claim en expected pass device host mode ds =
     (case claim_precheck en expected pass host (ct_snapshot (snd ds)) of
        Inl e \<Rightarrow> Some (ds, Err e)
      | Inr now \<Rightarrow>
          map_option (\<lambda>res.
              case transaction (bn_control_json en) (bn_claim_write en) (\<lambda>_. res) ds of
                (ds', r) \<Rightarrow> (ds', map_err RcControl r))
            (claim_device (bn_crypto en) (bn_json en) (bn_drawn en) (bn_token en) pass device now
               (claim_ceiling mode) (ct_snapshot (snd ds))))"

definition expect_activation_ack ::
    "boot_channel \<Rightarrow> nat \<Rightarrow> nat \<Rightarrow> invite_id \<Rightarrow> device_id
     \<Rightarrow> bootstrap_response list \<times> (remote_connection_error, unit) result" where
  "expect_activation_ack ch kr ks i did =
     (case ch_recv ch kr of
        Inl e \<Rightarrow> ([], Err (RcBootstrap e))
      | Inr (BrActivatedAck i' did') \<Rightarrow>
          if i' = i \<and> did' = did then
            (if ch_sealed ch then
               (case ch_send ch ks (BsActivationConfirmed i did) of
                  Inl e \<Rightarrow> ([], Err (RcBootstrap e))
                | Inr _ \<Rightarrow> ([BsActivationConfirmed i did], Ok ()))
             else ([], Ok ()))
          else ([], Err RcDenied)
      | Inr _ \<Rightarrow> ([], Err RcInvalidBootstrapSequence))"

definition bootstrap_activate ::
    "boot_env \<Rightarrow> boot_channel \<Rightarrow> site_id option \<Rightarrow> invite_id \<Rightarrow> device_id \<Rightarrow> bytes \<Rightarrow> string
     \<Rightarrow> nat \<Rightarrow> nat \<Rightarrow> control_state
     \<Rightarrow> control_state \<times> bootstrap_response list \<times> (remote_connection_error, unit) result" where
  "bootstrap_activate en ch expected i did token host kr ks ds =
     (case transaction (bn_control_json en) (bn_final_write en)
             (finalize_persisted (bn_os en) i did token host) ds of
        (ds', Inl e) \<Rightarrow> (ds', [], Err (RcControl e))
      | (ds', Inr canonical) \<Rightarrow>
          if (case expected of None \<Rightarrow> False | Some sid \<Rightarrow> sid \<noteq> dr_site_id canonical)
          then (ds', [], Err RcDenied)
          else (case ch_send ch ks (BsActivated canonical) of
                  Inl e \<Rightarrow> (ds', [], Err (RcBootstrap e))
                | Inr _ \<Rightarrow>
                    (case expect_activation_ack ch kr (Suc ks) i did of
                       (sent, r) \<Rightarrow> (ds', BsActivated canonical # sent, r))))"

definition handle_bootstrap_inner ::
    "boot_env \<Rightarrow> boot_channel \<Rightarrow> site_id option \<Rightarrow> control_state
     \<Rightarrow> (control_state \<times> bootstrap_response list \<times> (remote_connection_error, unit) result) option" where
  "handle_bootstrap_inner en ch expected ds =
     (if remote_access_paused_of (ct_snapshot (snd ds)) then Some (ds, [], Err RcRecoveryReviewRequired)
      else case ch_recv ch 0 of
        Inl e \<Rightarrow> Some (ds, [], Err (RcBootstrap e))
      | Inr (BrClaim pass device host mode) \<Rightarrow>
          (case bootstrap_claim en expected pass device host mode ds of
             None \<Rightarrow> None
           | Some (ds1, Inl e) \<Rightarrow> Some (ds1, [], Err e)
           | Some (ds1, Inr rc) \<Rightarrow>
               Some (case ch_send ch 0 (BsClaimed rc) of
                 Inl e \<Rightarrow> (ds1, [], Err (RcBootstrap e))
               | Inr _ \<Rightarrow>
                   (case ch_recv ch 1 of
                      Inl e \<Rightarrow> (ds1, [BsClaimed rc], Err (RcBootstrap e))
                    | Inr (BrPersisted i did token host') \<Rightarrow>
                        if i \<noteq> rc_invite_id rc \<or> did \<noteq> rc_device_id rc
                           \<or> normalize_hostname (bn_os en) host' \<noteq> normalize_hostname (bn_os en) host
                        then (ds1, [BsClaimed rc], Err RcDenied)
                        else (case bootstrap_activate en ch expected i did token host 2 1 ds1 of
                                (ds2, sent, r) \<Rightarrow> (ds2, BsClaimed rc # sent, r))
                    | Inr _ \<Rightarrow> (ds1, [BsClaimed rc], Err RcInvalidBootstrapSequence))))
      | Inr (BrPersisted i did token host) \<Rightarrow>
          Some (case validate_hostname host of
            Inl e \<Rightarrow> (ds, [], Err e)
          | Inr _ \<Rightarrow> bootstrap_activate en ch expected i did token host 1 0 ds)
      | Inr (BrActivatedAck _ _) \<Rightarrow> Some (ds, [], Err RcInvalidBootstrapSequence)
      | Inr (BrActivationConfirmedAck _ _) \<Rightarrow> Some (ds, [], Err RcInvalidBootstrapSequence))"

text \<open>The errors a bootstrap tells the peer.\<close>

definition boot_error :: "bootstrap_error_code \<Rightarrow> string \<Rightarrow> bootstrap_error_body" where
  "boot_error c m = \<lparr>beb_code = c, beb_message = m\<rparr>"

definition enrollment_bootstrap_error :: "enrollment_error \<Rightarrow> bootstrap_error_body" where
  "enrollment_bootstrap_error e =
     (case e of
        EnrollJson _ \<Rightarrow> boot_error BeInvalidRequest ''Invitation format is invalid or unsupported.''
      | InvalidBootstrap _ \<Rightarrow> boot_error BeInvalidRequest ''Invitation format is invalid or unsupported.''
      | UnsupportedBootstrapVersion _ \<Rightarrow>
          boot_error BeInvalidRequest ''Invitation format is invalid or unsupported.''
      | EnrollIdentity _ \<Rightarrow> boot_error BeDenied ''Invitation verification failed.''
      | BootstrapSecretMismatch \<Rightarrow> boot_error BeDenied ''Invitation verification failed.''
      | WrongController \<Rightarrow> boot_error BeDenied ''Invitation verification failed.''
      | PassConflict \<Rightarrow> boot_error BeDenied ''Invitation verification failed.''
      | NotYetValid \<Rightarrow> boot_error BeDenied ''This invitation is not valid yet.''
      | Expired \<Rightarrow> boot_error BeDenied ''This invitation has expired.''
      | DeploymentWindowClosed \<Rightarrow> boot_error BeDenied ''This Site Kit deployment window has closed.''
      | InviteClosed \<Rightarrow> boot_error BeDenied ''This invitation is closed to new devices.''
      | InviteRevoked \<Rightarrow> boot_error BeDenied ''This invitation or enrollment has been revoked.''
      | ClaimsExhausted \<Rightarrow> boot_error BeDenied ''This invitation has reached its device limit.''
      | FinalizedReplay \<Rightarrow>
          boot_error BeDenied ''This device is already enrolled; reopen its existing Clew Host state.''
      | _ \<Rightarrow> boot_error BeDenied ''Enrollment recovery could not be verified.'')"

definition bootstrap_error_body_of :: "remote_connection_error \<Rightarrow> bootstrap_error_body option" where
  "bootstrap_error_body_of e =
     (case e of
        RcEnrollment x \<Rightarrow> Some (enrollment_bootstrap_error x)
      | RcControl c \<Rightarrow>
          (case c of
             CsEnrollment x \<Rightarrow> Some (enrollment_bootstrap_error x)
           | _ \<Rightarrow> Some (boot_error BeState ''Controller enrollment state is unavailable.''))
      | RcRecoveryReviewRequired \<Rightarrow> Some (boot_error BeDenied
          ''Controller recovery review must be confirmed before devices can connect.'')
      | RcDenied \<Rightarrow> Some (boot_error BeDenied ''Enrollment is not permitted.'')
      | RcIdentity _ \<Rightarrow> Some (boot_error BeDenied ''Enrollment is not permitted.'')
      | RcInvalidHostname \<Rightarrow> Some (boot_error BeInvalidRequest ''Device hostname is invalid.'')
      | RcInvalidBootstrapSequence \<Rightarrow>
          Some (boot_error BeInvalidRequest ''Enrollment request sequence is invalid.'')
      | RcStatePoisoned \<Rightarrow> Some (boot_error BeState ''Controller enrollment state is unavailable.'')
      | RcClockBeforeUnixEpoch \<Rightarrow> Some (boot_error BeInternal ''Controller clock is unavailable.'')
      | RcClockOverflow \<Rightarrow> Some (boot_error BeInternal ''Controller clock is unavailable.'')
      | _ \<Rightarrow> None)"

text \<open>The responses a bootstrap attempts, the rejection of a failed one last.\<close>

definition handle_bootstrap_channel ::
    "boot_env \<Rightarrow> boot_channel \<Rightarrow> site_id option \<Rightarrow> control_state
     \<Rightarrow> (control_state \<times> bootstrap_response list \<times> (remote_connection_error, unit) result) option" where
  "handle_bootstrap_channel en ch expected ds =
     map_option (\<lambda>(ds', sent, r).
         (ds', sent @ (case r of
            Inr _ \<Rightarrow> []
          | Inl e \<Rightarrow> (case bootstrap_error_body_of e of None \<Rightarrow> [] | Some b \<Rightarrow> [BsError b])), r))
       (handle_bootstrap_inner en ch expected ds)"

subsection \<open>Agreement\<close>

text \<open>The registry and the catalog describe the same devices.\<close>

definition admin_ok :: "controller_id \<Rightarrow> control_snapshot \<Rightarrow> bool" where
  "admin_ok cid s \<longleftrightarrow> snapshot_ok cid s \<and> registry_ok (cs_registry s) \<and> catalog_ok (cs_catalog s)"

lemma admin_okI:
  assumes "admin_ok cid s" and "registry_ok r" and "catalog_ok c" and "rg_controller_id r = cid"
    and "\<And>did d. bt_get (devices c) did = Some d \<Longrightarrow> device_matches r did d"
  shows "admin_ok cid (s\<lparr>cs_registry := r, cs_catalog := c\<rparr>)"
proof -
  have wf: "bt_wf (devices c)" using catalog_ok_wf [OF assms(3)] by simp
  have m: "\<forall>(did, d) \<in> set (devices c). device_matches r did d"
  proof clarify
    fix did d assume "(did, d) \<in> set (devices c)"
    from assms(5) [OF bt_wf_getD [OF wf this]] show "device_matches r did d" .
  qed
  have v: "catalog_validate c = Ok ()" using catalog_ok_validate [OF assms(3)] .
  have "snapshot_ok cid s" using assms(1) by (simp add: admin_ok_def)
  then have "snapshot_ok cid (s\<lparr>cs_registry := r, cs_catalog := c\<rparr>)"
    unfolding snapshot_ok_def using m v assms(4) by simp
  then show ?thesis using assms(2,3) by (simp add: admin_ok_def)
qed

lemma admin_ok_matches:
  "admin_ok cid s \<Longrightarrow> bt_get (devices (cs_catalog s)) did = Some d \<Longrightarrow> device_matches (cs_registry s) did d"
  by (auto simp: admin_ok_def snapshot_ok_def dest: bt_get_setD)

lemma on_registry_Ok:
  "on_registry f s = Ok (x, c) \<longleftrightarrow> (\<exists>r. f (cs_registry s) = (r, Ok x) \<and> c = s\<lparr>cs_registry := r\<rparr>)"
  by (auto simp: on_registry_def split: prod.splits sum.splits)

lemma on_catalog_Ok:
  "on_catalog f s = Ok (x, c) \<longleftrightarrow> (\<exists>k. f (cs_catalog s) = Ok (x, k) \<and> c = s\<lparr>cs_catalog := k\<rparr>)"
  by (auto simp: on_catalog_def bind_r_Ok)

text \<open>Operations of the registry keep the controller, and change devices as follows.\<close>

lemma set_device_status_fold_controller:
  "rg_controller_id (fold (set_device_status st) ids r) = rg_controller_id r"
  by (induction ids arbitrary: r) (simp_all add: set_device_status_def)

lemma revoke_invite_devices:
  assumes "revoke_invite i r = (r', Ok ids)"
  shows "rg_controller_id r' = rg_controller_id r \<and> (\<forall>d. bt_get (rg_devices r') d =
     (if d \<in> set ids then map_option (\<lambda>x. x\<lparr>ed_status := RevokedStatus\<rparr>) (bt_get (rg_devices r) d)
      else bt_get (rg_devices r) d))"
proof (cases "bt_get (rg_invites r) i")
  case None
  then show ?thesis using assms by (simp add: revoke_invite_def)
next
  case (Some s)
  let ?r1 = "set_invite i (s\<lparr>is_closed := True, is_revoked := True,
      is_claims := map (\<lambda>c. c\<lparr>cl_status := RevokedStatus\<rparr>) (is_claims s)\<rparr>) r"
  have r': "r' = fold (set_device_status RevokedStatus) ids ?r1"
    using assms Some by (auto simp: revoke_invite_def Let_def)
  have d: "rg_devices ?r1 = rg_devices r" "rg_controller_id ?r1 = rg_controller_id r"
    by (simp_all add: set_invite_def)
  show ?thesis
    using fold_device_status [of RevokedStatus ids ?r1] set_device_status_fold_controller [of RevokedStatus ids ?r1]
    unfolding r' d by simp
qed

lemma revoke_device_devices:
  assumes "revoke_device did r = (r', Ok u)"
  shows "rg_controller_id r' = rg_controller_id r \<and> bt_get (rg_devices r) did \<noteq> None
    \<and> (\<forall>d. bt_get (rg_devices r') d =
        (if d = did then map_option (\<lambda>x. x\<lparr>ed_status := RevokedStatus\<rparr>) (bt_get (rg_devices r) d)
         else bt_get (rg_devices r) d))"
proof (cases "bt_get (rg_devices r) did")
  case None
  then show ?thesis using assms by (simp add: revoke_device_def)
next
  case (Some d)
  let ?r1 = "set_device_status RevokedStatus did r"
  have "rg_devices r' = rg_devices ?r1 \<and> rg_controller_id r' = rg_controller_id ?r1"
    using assms Some by (auto simp: revoke_device_def Let_def set_invite_def split: option.splits)
  then show ?thesis using Some by (simp add: set_device_status_def)
qed

lemma delete_invite_devices:
  assumes "delete_invite_history i r = (r', Ok ids)"
  shows "rg_controller_id r' = rg_controller_id r
    \<and> (\<forall>d. bt_get (rg_devices r') d = (if d \<in> set ids then None else bt_get (rg_devices r) d))"
proof (cases "bt_get (rg_invites r) i")
  case None
  then show ?thesis using assms by (simp add: delete_invite_history_def)
next
  case (Some s)
  have "rg_devices r' = fold bt_remove ids (rg_devices r) \<and> rg_controller_id r' = rg_controller_id r"
    using assms Some by (auto simp: delete_invite_history_def Let_def set_invite_def)
  then show ?thesis by (simp add: fold_bt_remove)
qed

lemma finalize_devices:
  assumes ok: "registry_ok r" and f: "finalize_host_persist i did token r = (r', Ok e)"
  shows "rg_controller_id r' = rg_controller_id r
    \<and> (\<exists>x. bt_get (rg_devices r) did = Some x \<and> ed_status x \<noteq> RevokedStatus \<and> e = x\<lparr>ed_status := Active\<rparr>)
    \<and> bt_get (rg_devices r') = (bt_get (rg_devices r))(did \<mapsto> e)"
proof -
  obtain s c where s: "bt_get (rg_invites r) i = Some s"
    and found: "find (\<lambda>c. claim_dev c = did) (is_claims s) = Some c"
    and st: "cl_status c \<noteq> RevokedStatus"
    using f by (auto simp: finalize_host_persist_def split: option.splits if_splits)
  have c: "c \<in> set (is_claims s)" "claim_dev c = did" using find_Some_iff [OF found] by auto
  then have "claim_at r i c" using s by (auto simp: claim_at_def)
  note old = registry_ok_claim [OF ok this]
  have x: "bt_get (rg_devices r) did = Some (device_of_claim c)" "ed_status (device_of_claim c) \<noteq> RevokedStatus"
    using old c(2) st by (simp_all add: device_of_claim_def device_of_receipt_def)
  have "e = (device_of_claim c)\<lparr>ed_status := Active\<rparr>
      \<and> r' = (set_invite i (set_claim_status did Active s) r)\<lparr>rg_devices :=
           bt_update did (\<lambda>_. e) (rg_devices r)\<rparr>"
    using f s found c(2) x(1)
    by (auto simp: finalize_host_persist_def Let_def set_invite_def split: if_splits)
  then show ?thesis using x by (auto simp: set_invite_def)
qed

lemma register_pass_devices:
  assumes "register_pass cr js pass r = (r', Ok u)"
  shows "rg_devices r' = rg_devices r \<and> rg_controller_id r' = rg_controller_id r"
  using assms by (auto simp: register_pass_def Let_def set_invite_def split: sum.splits option.splits if_splits)

lemma claim_devices:
  assumes "claim_with_ceiling cr js drawn rnd pass device now ceiling r = Some (r', Ok rc)"
  shows "rg_controller_id r' = rg_controller_id r \<and> (r' = r \<or>
     (\<exists>did x. did \<in> set drawn \<and> bt_get (rg_devices r) did = None
        \<and> bt_get (rg_devices r') = (bt_get (rg_devices r))(did \<mapsto> x)))"
proof -
  have draw: "bt_get (rg_devices r) did = None \<and> did \<in> set drawn"
    if "find (\<lambda>d. bt_get (rg_devices r) d = None) drawn = Some did" for did
    using find_Some_iff [OF that] by simp
  have rec: "rg_controller_id r' = rg_controller_id r \<and>
      (\<exists>x. bt_get (rg_devices r') = (bt_get (rg_devices r))(rc_device_id rc' \<mapsto> x))"
    if "record_claim pass fp now rc' r = (r', Ok rc)" for fp rc'
    using that record_claim_Ok [OF that refl] by (auto simp: record_claim_def Let_def set_invite_def split: if_splits)
  have id: "rc_device_id (claim_receipt pass device now ceiling did token r) = did" for did token
    by (simp add: claim_receipt_def Let_def)
  show ?thesis
    using assms draw rec id
    by (force simp: claim_with_ceiling_def split: sum.splits prod.splits option.splits)
qed

text \<open>Operations of the catalog on the devices it knows.\<close>

lemma fold_revoke_known:
  "catalog_ok c \<Longrightarrow> \<exists>c'. fold_r revoke_known ids c = Ok c' \<and> catalog_ok c' \<and> sites c' = sites c
     \<and> (\<forall>d. bt_get (devices c') d =
          (if d \<in> set ids then map_option (\<lambda>x. x\<lparr>cd_revoked := True\<rparr>) (bt_get (devices c) d)
           else bt_get (devices c) d))"
proof (induction ids arbitrary: c)
  case (Cons i ids)
  obtain c1 where c1: "revoke_known i c = Ok c1" "catalog_ok c1" "sites c1 = sites c"
    "\<And>d. bt_get (devices c1) d = (if d = i then map_option (\<lambda>x. x\<lparr>cd_revoked := True\<rparr>) (bt_get (devices c) d)
       else bt_get (devices c) d)"
  proof (cases "bt_get (devices c) i")
    case None
    then show ?thesis using that [of c] Cons.prems by (auto simp: revoke_known_def)
  next
    case (Some d)
    let ?c1 = "c\<lparr>devices := bt_update i (\<lambda>r. r\<lparr>cd_revoked := True\<rparr>) (devices c)\<rparr>"
    have r: "catalog_revoke_device i c = Ok ?c1" using Some by (simp add: catalog_revoke_device_def)
    have "revoke_known i c = Ok ?c1" using Some r by (simp add: revoke_known_def)
    then show ?thesis
      using that [of ?c1] catalog_revoke_device_ok [OF Cons.prems r] Some by (simp add: map_option_case)
  qed
  obtain c' where c': "fold_r revoke_known ids c1 = Ok c'" "catalog_ok c'" "sites c' = sites c1"
    "\<And>d. bt_get (devices c') d =
          (if d \<in> set ids then map_option (\<lambda>x. x\<lparr>cd_revoked := True\<rparr>) (bt_get (devices c1) d)
           else bt_get (devices c1) d)"
    using Cons.IH [OF c1(2)] by blast
  have "fold_r revoke_known (i # ids) c = Ok c'" using c1(1) c'(1) by simp
  then show ?case using c'(2,3) c1(3) c'(4) c1(4) by (simp add: option.map_comp comp_def)
qed simp

lemma fold_remove_devices:
  "catalog_ok c \<Longrightarrow> catalog_ok (fold (\<lambda>did c. snd (remove_device did c)) ids c)
     \<and> (\<forall>d. bt_get (devices (fold (\<lambda>did c. snd (remove_device did c)) ids c)) d =
          (if d \<in> set ids then None else bt_get (devices c) d))"
proof (induction ids arbitrary: c)
  case (Cons i ids)
  have "bt_get (devices (snd (remove_device i c))) d = (if d = i then None else bt_get (devices c) d)" for d
    by (simp add: remove_device_def)
  then show ?case using Cons.IH [OF remove_device_ok [OF Cons.prems, of i]] by simp
qed simp

subsection \<open>The transactions keep the agreement\<close>

lemma admin_okD:
  assumes "admin_ok cid s"
  shows "registry_ok (cs_registry s)" and "catalog_ok (cs_catalog s)" and "rg_controller_id (cs_registry s) = cid"
    and "snapshot_ok cid s"
  using assms by (simp_all add: admin_ok_def snapshot_ok_def)

lemma snapshot_self [simp]: "s\<lparr>cs_catalog := cs_catalog s\<rparr> = s" "s\<lparr>cs_registry := cs_registry s\<rparr> = s"
  by simp_all

lemma admin_ok_registry:
  assumes ok: "admin_ok cid s" and "registry_ok r" and "rg_controller_id r = cid"
    and "\<And>did d. bt_get (devices (cs_catalog s)) did = Some d \<Longrightarrow> device_matches r did d"
  shows "admin_ok cid (s\<lparr>cs_registry := r\<rparr>)"
  using admin_okI [OF ok assms(2) admin_okD(2) [OF ok] assms(3,4)] by simp

lemma device_matches_same:
  "device_matches r did d \<Longrightarrow> bt_get (rg_devices r') did = bt_get (rg_devices r) did \<Longrightarrow> device_matches r' did d"
  by (simp add: device_matches_def)

lemma device_matches_revoked:
  "device_matches r did d \<Longrightarrow>
     bt_get (rg_devices r') did = map_option (\<lambda>x. x\<lparr>ed_status := RevokedStatus\<rparr>) (bt_get (rg_devices r) did) \<Longrightarrow>
     device_matches r' did (d\<lparr>cd_revoked := True\<rparr>)"
  by (auto simp: device_matches_def)

lemma invite_close_ok:
  assumes ok: "admin_ok cid s" and "invite_close i s = Ok (x, c)"
  shows "admin_ok cid c \<and> rg_devices (cs_registry c) = rg_devices (cs_registry s)"
proof -
  obtain r where r: "close_invite i (cs_registry s) = (r, Ok x)" "c = s\<lparr>cs_registry := r\<rparr>"
    using assms(2) by (auto simp: invite_close_def on_registry_Ok)
  have d: "rg_devices r = rg_devices (cs_registry s)" "rg_controller_id r = rg_controller_id (cs_registry s)"
    using r(1) by (auto simp: close_invite_def set_invite_def split: option.splits)
  have "registry_ok r" using close_invite_ok [OF admin_okD(1) [OF ok], of i] r(1) by simp
  then have "admin_ok cid c"
    unfolding r(2) using d admin_okD(3) [OF ok]
    by (intro admin_ok_registry [OF ok] device_matches_same [OF admin_ok_matches [OF ok]]) simp_all
  then show ?thesis using d r(2) by simp
qed

lemma invite_revoke_ok:
  assumes ok: "admin_ok cid s" and "invite_revoke i s = Ok (ids, c)"
  shows "admin_ok cid c \<and> (\<forall>d. bt_get (rg_devices (cs_registry c)) d =
     (if d \<in> set ids then map_option (\<lambda>x. x\<lparr>ed_status := RevokedStatus\<rparr>) (bt_get (rg_devices (cs_registry s)) d)
      else bt_get (rg_devices (cs_registry s)) d))
    \<and> revoke_invite i (cs_registry s) = (cs_registry c, Ok ids)"
proof -
  obtain r k where r: "revoke_invite i (cs_registry s) = (r, Ok ids)"
    and k: "fold_r revoke_known ids (cs_catalog s) = Ok k" and c: "c = s\<lparr>cs_registry := r, cs_catalog := k\<rparr>"
    using assms(2) by (auto simp: invite_revoke_def bind_r_Ok on_registry_Ok on_catalog_Ok)
  obtain k' where "fold_r revoke_known ids (cs_catalog s) = Ok k'" "catalog_ok k'"
    "\<And>d. bt_get (devices k') d =
          (if d \<in> set ids then map_option (\<lambda>x. x\<lparr>cd_revoked := True\<rparr>) (bt_get (devices (cs_catalog s)) d)
           else bt_get (devices (cs_catalog s)) d)"
    using fold_revoke_known [OF admin_okD(2) [OF ok], of ids] by blast
  then have k': "catalog_ok k" and dk: "\<And>d. bt_get (devices k) d =
          (if d \<in> set ids then map_option (\<lambda>x. x\<lparr>cd_revoked := True\<rparr>) (bt_get (devices (cs_catalog s)) d)
           else bt_get (devices (cs_catalog s)) d)"
    using k by simp_all
  note dr = revoke_invite_devices [OF r]
  have ro: "registry_ok r" using revoke_invite_ok [OF admin_okD(1) [OF ok], of i] r by simp
  have rc: "rg_controller_id r = cid" using dr admin_okD(3) [OF ok] by simp
  have "admin_ok cid c" unfolding c
  proof (rule admin_okI [OF ok ro k' rc])
    fix did d assume d: "bt_get (devices k) did = Some d"
    show "device_matches r did d"
    proof (cases "did \<in> set ids")
      case True
      then obtain d0 where d0: "bt_get (devices (cs_catalog s)) did = Some d0" "d = d0\<lparr>cd_revoked := True\<rparr>"
        using d dk by auto
      show ?thesis unfolding d0(2)
        by (rule device_matches_revoked [OF admin_ok_matches [OF ok d0(1)]]) (use dr True in simp)
    next
      case False
      then have "bt_get (devices (cs_catalog s)) did = Some d" using d dk by simp
      from device_matches_same [OF admin_ok_matches [OF ok this]] show ?thesis using dr False by simp
    qed
  qed
  then show ?thesis using dr r c by simp
qed

lemma invite_revoke_succeeds:
  assumes ok: "admin_ok cid s" and "bt_get (rg_invites (cs_registry s)) i \<noteq> None"
  shows "is_ok (invite_revoke i s)"
proof -
  obtain r ids where r: "revoke_invite i (cs_registry s) = (r, Ok ids)"
    using assms(2) by (auto simp: revoke_invite_def Let_def)
  obtain k where k: "fold_r revoke_known ids (cs_catalog s) = Ok k"
    using fold_revoke_known [OF admin_okD(2) [OF ok], of ids] by blast
  show ?thesis by (simp add: invite_revoke_def on_registry_def r on_catalog_def k)
qed

lemma invite_delete_ok:
  assumes ok: "admin_ok cid s" and "invite_delete i s = Ok (ids, c)"
  shows "admin_ok cid c \<and> (\<forall>d. bt_get (rg_devices (cs_registry c)) d =
     (if d \<in> set ids then None else bt_get (rg_devices (cs_registry s)) d))"
proof -
  let ?k = "fold (\<lambda>did c. snd (remove_device did c)) ids (cs_catalog s)"
  obtain r where r: "delete_invite_history i (cs_registry s) = (r, Ok ids)"
    and c: "c = s\<lparr>cs_registry := r, cs_catalog := ?k\<rparr>"
    using assms(2) by (auto simp: invite_delete_def bind_r_Ok on_registry_Ok on_catalog_Ok)
  note dr = delete_invite_devices [OF r] and dk = fold_remove_devices [OF admin_okD(2) [OF ok], of ids]
  have ro: "registry_ok r" using delete_invite_history_ok [OF admin_okD(1) [OF ok], of i] r by simp
  have rc: "rg_controller_id r = cid" using dr admin_okD(3) [OF ok] by simp
  have "admin_ok cid c" unfolding c
  proof (rule admin_okI [OF ok ro conjunct1 [OF dk] rc])
    fix did d assume "bt_get (devices ?k) did = Some d"
    then have "did \<notin> set ids" "bt_get (devices (cs_catalog s)) did = Some d"
      using dk by (auto split: if_splits)
    then show "device_matches r did d"
      using device_matches_same [OF admin_ok_matches [OF ok]] dr by simp
  qed
  then show ?thesis using dr c by simp
qed

lemma device_revoke_ok:
  assumes ok: "admin_ok cid s" and "device_revoke did s = Ok (x, c)"
  shows "admin_ok cid c \<and> (\<forall>d. bt_get (rg_devices (cs_registry c)) d =
     (if d = did then map_option (\<lambda>x. x\<lparr>ed_status := RevokedStatus\<rparr>) (bt_get (rg_devices (cs_registry s)) d)
      else bt_get (rg_devices (cs_registry s)) d))"
proof -
  obtain r k where r: "revoke_device did (cs_registry s) = (r, Ok ())"
    and k: "catalog_revoke_device did (cs_catalog s) = Ok k" and c: "c = s\<lparr>cs_registry := r, cs_catalog := k\<rparr>"
    using assms(2) by (auto simp: device_revoke_def bind_r_Ok on_registry_Ok on_catalog_Ok)
  note dr = revoke_device_devices [OF r] and dk = catalog_revoke_device_Ok [OF k]
  have ro: "registry_ok r" using revoke_device_ok [OF admin_okD(1) [OF ok], of did] r by simp
  have rc: "rg_controller_id r = cid" using dr admin_okD(3) [OF ok] by simp
  have "admin_ok cid c" unfolding c
  proof (rule admin_okI [OF ok ro catalog_revoke_device_ok [OF admin_okD(2) [OF ok] k] rc])
    fix d0 d assume d: "bt_get (devices k) d0 = Some d"
    show "device_matches r d0 d"
    proof (cases "d0 = did")
      case True
      then obtain e where e: "bt_get (devices (cs_catalog s)) did = Some e" "d = e\<lparr>cd_revoked := True\<rparr>"
        using d dk by auto
      show ?thesis unfolding e(2) True
        by (rule device_matches_revoked [OF admin_ok_matches [OF ok e(1)]]) (use dr in simp)
    next
      case False
      then have "bt_get (devices (cs_catalog s)) d0 = Some d" using d dk by simp
      from device_matches_same [OF admin_ok_matches [OF ok this]] show ?thesis using dr False by simp
    qed
  qed
  then show ?thesis using dr c by simp
qed

lemma admin_ok_catalog:
  assumes ok: "admin_ok cid s" and k: "catalog_ok k"
    and "\<And>did d. bt_get (devices k) did = Some d \<Longrightarrow> device_matches (cs_registry s) did d"
  shows "admin_ok cid (s\<lparr>cs_catalog := k\<rparr>)"
  using admin_okI [OF ok admin_okD(1) [OF ok] k admin_okD(3) [OF ok] assms(3)] by simp

lemma device_rename_ok:
  assumes ok: "admin_ok cid s" and "device_rename did name s = Ok (x, c)"
  shows "admin_ok cid c \<and> cs_registry c = cs_registry s"
proof -
  obtain k where k: "rename_device did name (cs_catalog s) = Ok (x, k)" and c: "c = s\<lparr>cs_catalog := k\<rparr>"
    using assms(2) by (auto simp: device_rename_def on_catalog_Ok)
  from rename_device_Ok [OF k] obtain r v where r: "bt_get (devices (cs_catalog s)) did = Some r"
    "x = (device_of r)\<lparr>display_name := v, name_origin := Renamed\<rparr>"
    "k = (cs_catalog s)\<lparr>devices := bt_update did (\<lambda>r. r\<lparr>device_of := x\<rparr>) (devices (cs_catalog s))\<rparr>"
    by blast
  have "admin_ok cid c" unfolding c
  proof (rule admin_ok_catalog [OF ok rename_device_ok [OF admin_okD(2) [OF ok] k]])
    fix d0 d assume d: "bt_get (devices k) d0 = Some d"
    show "device_matches (cs_registry s) d0 d"
    proof (cases "d0 = did")
      case True
      then have "d = r\<lparr>device_of := x\<rparr>" using d r by simp
      then show ?thesis using admin_ok_matches [OF ok r(1)] r(2) True by (simp add: device_matches_def)
    next
      case False
      then show ?thesis using d r(3) admin_ok_matches [OF ok] by simp
    qed
  qed
  then show ?thesis using c by simp
qed

lemma invite_issue_ok:
  assumes ok: "admin_ok cid s" and "invite_issue cr js site pass s = Ok (x, c)"
  shows "admin_ok cid c \<and> rg_devices (cs_registry c) = rg_devices (cs_registry s)"
proof -
  obtain k r where k: "upsert_site site (cs_catalog s) = Ok k"
    and r: "register_pass cr js pass (cs_registry s) = (r, Ok x)" and c: "c = s\<lparr>cs_registry := r, cs_catalog := k\<rparr>"
    using assms(2) by (auto simp: invite_issue_def bind_r_Ok on_registry_Ok on_catalog_Ok)
  have dk: "devices k = devices (cs_catalog s)" using upsert_site_Ok [OF k] by simp
  note dr = register_pass_devices [OF r]
  have ro: "registry_ok r" using register_pass_ok [OF admin_okD(1) [OF ok], of cr js pass] r by simp
  have "admin_ok cid c" unfolding c
    using dr dk admin_okD(3) [OF ok]
    by (intro admin_okI [OF ok ro upsert_site_ok [OF admin_okD(2) [OF ok] k]]
        device_matches_same [OF admin_ok_matches [OF ok]]) simp_all
  then show ?thesis using c dr by simp
qed

lemma claim_device_ok:
  assumes ok: "admin_ok cid s"
    and "claim_device cr js drawn token pass device now ceiling s = Some (Ok (x, c))"
  shows "admin_ok cid c \<and> (\<forall>d. bt_get (rg_devices (cs_registry c)) d = bt_get (rg_devices (cs_registry s)) d
     \<or> d \<in> set drawn)"
proof -
  obtain r where r: "claim_with_ceiling cr js drawn token pass device now ceiling (cs_registry s) = Some (r, Ok x)"
    and c: "c = s\<lparr>cs_registry := r\<rparr>"
    using assms(2) by (auto simp: claim_device_def on_registry_Ok)
  note dr = claim_devices [OF r]
  have ro: "registry_ok r" using claim_with_ceiling_ok [OF admin_okD(1) [OF ok] r] .
  have rc: "rg_controller_id r = cid" using dr admin_okD(3) [OF ok] by simp
  have same: "bt_get (rg_devices r) d = bt_get (rg_devices (cs_registry s)) d"
    if "bt_get (rg_devices (cs_registry s)) d \<noteq> None" for d
    using conjunct2 [OF dr] that by auto
  have "admin_ok cid c" unfolding c
  proof (rule admin_ok_registry [OF ok ro rc])
    fix did d assume "bt_get (devices (cs_catalog s)) did = Some d"
    from admin_ok_matches [OF ok this] show "device_matches r did d"
      by (rule device_matches_same) (rule same, use admin_ok_matches [OF ok \<open>_ = Some d\<close>] in \<open>auto simp: device_matches_def\<close>)
  qed
  moreover have "bt_get (rg_devices r) d = bt_get (rg_devices (cs_registry s)) d \<or> d \<in> set drawn" for d
    using conjunct2 [OF dr] by auto
  ultimately show ?thesis using c by simp
qed

lemma finalize_persisted_ok:
  assumes ok: "admin_ok cid s" and f: "finalize_persisted os i did token host s = Ok (d, c)"
  shows "admin_ok cid c
    \<and> (\<exists>x. bt_get (rg_devices (cs_registry s)) did = Some x \<and> ed_status x \<noteq> RevokedStatus
        \<and> bt_get (rg_devices (cs_registry c)) =
            (bt_get (rg_devices (cs_registry s)))(did \<mapsto> x\<lparr>ed_status := Active\<rparr>))
    \<and> (\<exists>cd. bt_get (devices (cs_catalog c)) did = Some cd \<and> device_of cd = d \<and> \<not> cd_revoked cd)
    \<and> (\<exists>site. bt_get (sites (cs_catalog c)) (dr_site_id d) = Some site \<and> \<not> sr_revoked site)"
proof -
  obtain r e where r: "finalize_host_persist i did token (cs_registry s) = (r, Ok e)"
    and en: "enter_activated did (normalize_hostname os host) e (s\<lparr>cs_registry := r\<rparr>) = Ok (d, c)"
    using f by (auto simp: finalize_persisted_def Let_def bind_r_Ok on_registry_Ok)
  note rest = en [unfolded enter_activated_def bind_r_Ok ok_or_Ok, simplified]
  obtain site where site: "bt_get (sites (cs_catalog s)) (ed_site_id e) = Some site" "\<not> sr_revoked site"
    using rest by (auto split: if_splits)
  obtain x where dr: "rg_controller_id r = rg_controller_id (cs_registry s)"
    "bt_get (rg_devices (cs_registry s)) did = Some x" "ed_status x \<noteq> RevokedStatus" "e = x\<lparr>ed_status := Active\<rparr>"
    "bt_get (rg_devices r) = (bt_get (rg_devices (cs_registry s)))(did \<mapsto> e)"
    using finalize_devices [OF admin_okD(1) [OF ok] r] by blast
  have ro: "registry_ok r" using finalize_host_persist_ok [OF admin_okD(1) [OF ok], of i did token] r by simp
  have rc: "rg_controller_id r = cid" using dr(1) admin_okD(3) [OF ok] by simp
  have others: "device_matches r d0 d1" if "bt_get (devices (cs_catalog s)) d0 = Some d1" "d0 \<noteq> did" for d0 d1
    using device_matches_same [OF admin_ok_matches [OF ok that(1)]] that(2) dr(5) by simp
  show ?thesis
  proof (cases "bt_get (devices (cs_catalog s)) did")
    case (Some existing)
    have c: "d = device_of existing" "c = s\<lparr>cs_registry := r\<rparr>" "\<not> cd_revoked existing"
      "dr_site_id (device_of existing) = ed_site_id e"
      using rest Some site by (auto split: if_splits)
    have "device_matches r did existing"
      using admin_ok_matches [OF ok Some] dr c(3) by (auto simp: device_matches_def)
    then have "admin_ok cid c" unfolding c(2)
      using others Some by (intro admin_ok_registry [OF ok ro rc]) (metis option.inject)
    then show ?thesis using dr c Some site by auto
  next
    case None
    then obtain k where k: "register_device d (cs_catalog s) = Ok k" and c: "c = s\<lparr>cs_registry := r, cs_catalog := k\<rparr>"
      and d: "dr_device_id d = did" "dr_site_id d = ed_site_id e" "enrolled_via_invite_id d = ed_invite_id e"
        "dr_capabilities d = member (ed_effective_grant e)"
      using rest site by (auto simp: Let_def bind_r_Ok on_catalog_Ok)
    have k': "k = (cs_catalog s)\<lparr>devices := bt_insert did \<lparr>device_of = d, cd_revoked = False\<rparr> (devices (cs_catalog s))\<rparr>"
      using register_device_Ok [OF k] d by simp
    have "admin_ok cid c" unfolding c
    proof (rule admin_okI [OF ok ro register_device_ok [OF admin_okD(2) [OF ok] k] rc])
      fix d0 d1 assume "bt_get (devices k) d0 = Some d1"
      then show "device_matches r d0 d1"
        using others d dr(4,5) by (cases "d0 = did") (auto simp: k' device_matches_def)
    qed
    then show ?thesis using dr c k' d site by auto
  qed
qed

subsection \<open>Histories\<close>

datatype admin_op =
    AdmIssue site_record signed_pass
  | AdmClose invite_id
  | AdmRevoke invite_id
  | AdmDelete invite_id
  | AdmRename device_id string
  | AdmRevokeDevice device_id
  | AdmClaim "device_id list" "(identity_error, bytes) result" signed_pass device_public_identity u64 permission_grant
  | AdmFinalize invite_id device_id bytes string

fun admin_mutate ::
    "crypto \<Rightarrow> enroll_json \<Rightarrow> target_os \<Rightarrow> admin_op \<Rightarrow> control_snapshot
     \<Rightarrow> (control_store_error, unit \<times> control_snapshot) result option" where
  "admin_mutate cr js os (AdmIssue site pass) s = Some (invite_issue cr js site pass s)"
| "admin_mutate cr js os (AdmClose i) s = Some (invite_close i s)"
| "admin_mutate cr js os (AdmRevoke i) s = Some (drop_value (invite_revoke i s))"
| "admin_mutate cr js os (AdmDelete i) s = Some (drop_value (invite_delete i s))"
| "admin_mutate cr js os (AdmRename did name) s = Some (drop_value (device_rename did name s))"
| "admin_mutate cr js os (AdmRevokeDevice did) s = Some (device_revoke did s)"
| "admin_mutate cr js os (AdmClaim drawn token pass device now ceiling) s =
     map_option drop_value (claim_device cr js drawn token pass device now ceiling s)"
| "admin_mutate cr js os (AdmFinalize i did token host) s =
     Some (drop_value (finalize_persisted os i did token host s))"

definition admin_step ::
    "crypto \<Rightarrow> enroll_json \<Rightarrow> target_os \<Rightarrow> control_snapshot \<Rightarrow> admin_op \<Rightarrow> control_snapshot" where
  "admin_step cr js os s op = (case admin_mutate cr js os op s of Some (Inr (_, c)) \<Rightarrow> c | _ \<Rightarrow> s)"

lemma admin_mutate_ok:
  assumes ok: "admin_ok cid s" and m: "admin_mutate cr js os op s = Some (Ok ((), c))"
  shows "admin_ok cid c"
proof (cases op)
  case (AdmIssue site pass)
  then show ?thesis using invite_issue_ok [OF ok] m by simp
next
  case (AdmClose i)
  then show ?thesis using invite_close_ok [OF ok] m by simp
next
  case (AdmRevoke i)
  then obtain ids where "invite_revoke i s = Ok (ids, c)" using m by (auto simp: drop_value_Ok)
  then show ?thesis using invite_revoke_ok [OF ok] by blast
next
  case (AdmDelete i)
  then obtain ids where "invite_delete i s = Ok (ids, c)" using m by (auto simp: drop_value_Ok)
  then show ?thesis using invite_delete_ok [OF ok] by blast
next
  case (AdmRename did name)
  then obtain d where "device_rename did name s = Ok (d, c)" using m by (auto simp: drop_value_Ok)
  then show ?thesis using device_rename_ok [OF ok] by blast
next
  case (AdmRevokeDevice did)
  then show ?thesis using device_revoke_ok [OF ok] m by simp
next
  case (AdmClaim drawn token pass device now ceiling)
  then obtain rc where "claim_device cr js drawn token pass device now ceiling s = Some (Ok (rc, c))"
    using m by (auto simp: drop_value_Ok)
  then show ?thesis using claim_device_ok [OF ok] by blast
next
  case (AdmFinalize i did token host)
  then obtain d where "finalize_persisted os i did token host s = Ok (d, c)" using m by (auto simp: drop_value_Ok)
  then show ?thesis using finalize_persisted_ok [OF ok] by blast
qed

lemma admin_step_cases:
  "admin_step cr js os s op = s \<or> admin_mutate cr js os op s = Some (Ok ((), admin_step cr js os s op))"
proof (cases "admin_mutate cr js os op s")
  case None
  then show ?thesis by (simp add: admin_step_def)
next
  case (Some r)
  then show ?thesis by (cases r) (auto simp: admin_step_def)
qed

lemma admin_step_ok: "admin_ok cid s \<Longrightarrow> admin_ok cid (admin_step cr js os s op)"
  using admin_step_cases [of cr js os s op] admin_mutate_ok by metis

lemma admin_run_ok: "admin_ok cid s \<Longrightarrow> admin_ok cid (foldl (admin_step cr js os) s ops)"
  by (induction ops arbitrary: s) (simp_all add: admin_step_ok)

lemma admin_initial_ok: "admin_ok cid (snapshot_initial cid)"
  using snapshot_initial_ok [of cid] registry_new_ok catalog_ok_empty
  by (simp add: admin_ok_def) (simp add: snapshot_initial_def)

text \<open>A device that is revoked or gone stays so until its id is drawn again.\<close>

definition device_out :: "device_id \<Rightarrow> control_snapshot \<Rightarrow> bool" where
  "device_out did s \<longleftrightarrow> (case bt_get (rg_devices (cs_registry s)) did of None \<Rightarrow> True | Some e \<Rightarrow> ed_status e = RevokedStatus)"

fun draws :: "admin_op \<Rightarrow> device_id list" where
  "draws (AdmClaim drawn token pass device now ceiling) = drawn"
| "draws _ = []"

lemma device_out_same:
  "device_out did s \<Longrightarrow> bt_get (rg_devices (cs_registry c)) did = bt_get (rg_devices (cs_registry s)) did \<Longrightarrow>
     device_out did c"
  by (simp add: device_out_def)

lemma device_out_revoked:
  "bt_get (rg_devices (cs_registry c)) did = map_option (\<lambda>x. x\<lparr>ed_status := RevokedStatus\<rparr>) v \<Longrightarrow> device_out did c"
  by (cases v) (simp_all add: device_out_def)

lemma device_out_mutate:
  assumes ok: "admin_ok cid s" and m: "admin_mutate cr js os op s = Some (Ok ((), c))"
    and g: "device_out did s" and d: "did \<notin> set (draws op)"
  shows "device_out did c"
proof (cases op)
  case (AdmIssue site pass)
  then show ?thesis using invite_issue_ok [OF ok] m device_out_same [OF g] by simp
next
  case (AdmClose i)
  then show ?thesis using invite_close_ok [OF ok] m device_out_same [OF g] by simp
next
  case (AdmRevoke i)
  then obtain ids where "invite_revoke i s = Ok (ids, c)" using m by (auto simp: drop_value_Ok)
  note dr = spec [OF conjunct1 [OF conjunct2 [OF invite_revoke_ok [OF ok this]]], of did]
  then show ?thesis using device_out_same [OF g] device_out_revoked by (cases "did \<in> set ids") auto
next
  case (AdmDelete i)
  then obtain ids where "invite_delete i s = Ok (ids, c)" using m by (auto simp: drop_value_Ok)
  note dr = spec [OF conjunct2 [OF invite_delete_ok [OF ok this]], of did]
  then show ?thesis using device_out_same [OF g] by (cases "did \<in> set ids") (auto simp: device_out_def)
next
  case (AdmRename d0 name)
  then obtain d where "device_rename d0 name s = Ok (d, c)" using m by (auto simp: drop_value_Ok)
  then show ?thesis using device_rename_ok [OF ok] device_out_same [OF g] by simp
next
  case (AdmRevokeDevice d0)
  then have "device_revoke d0 s = Ok ((), c)" using m by simp
  note dr = spec [OF conjunct2 [OF device_revoke_ok [OF ok this]], of did]
  then show ?thesis using device_out_same [OF g] device_out_revoked by (cases "did = d0") auto
next
  case (AdmClaim drawn token pass device now ceiling)
  then obtain rc where "claim_device cr js drawn token pass device now ceiling s = Some (Ok (rc, c))"
    using m by (auto simp: drop_value_Ok)
  from spec [OF conjunct2 [OF claim_device_ok [OF ok this]], of did] show ?thesis
    using device_out_same [OF g] d AdmClaim by simp
next
  case (AdmFinalize i d0 token host)
  then obtain d where "finalize_persisted os i d0 token host s = Ok (d, c)" using m by (auto simp: drop_value_Ok)
  from conjunct1 [OF conjunct2 [OF finalize_persisted_ok [OF ok this]]] obtain x where
    x: "bt_get (rg_devices (cs_registry s)) d0 = Some x" "ed_status x \<noteq> RevokedStatus"
      "bt_get (rg_devices (cs_registry c)) = (bt_get (rg_devices (cs_registry s)))(d0 \<mapsto> x\<lparr>ed_status := Active\<rparr>)"
    by blast
  then have "d0 \<noteq> did" using g by (auto simp: device_out_def)
  then show ?thesis using device_out_same [OF g] x(3) by simp
qed

lemma device_out_step:
  assumes "admin_ok cid s" and "device_out did s" and "did \<notin> set (draws op)"
  shows "device_out did (admin_step cr js os s op)"
  using admin_step_cases [of cr js os s op] device_out_mutate [OF assms(1) _ assms(2,3)] assms(2) by metis

lemma device_out_run:
  "admin_ok cid s \<Longrightarrow> device_out did s \<Longrightarrow> \<forall>op \<in> set ops. did \<notin> set (draws op) \<Longrightarrow>
     device_out did (foldl (admin_step cr js os) s ops)"
  by (induction ops arbitrary: s) (simp_all add: admin_step_ok device_out_step)

lemma device_out_refused:
  "device_out (sc_device_id cl) s \<Longrightarrow> \<not> authorize_member cr cid tg s cl"
  by (auto simp: device_out_def authorize_member_def is_device_active_def split: option.splits)

text \<open>Revoking a device, or the invite it was enrolled with.\<close>

lemma revoking_device_out:
  assumes ok: "admin_ok cid s" and m: "admin_mutate cr js os op s = Some (Ok ((), c))"
    and op: "op = AdmRevokeDevice did
      \<or> (\<exists>i e. op = AdmRevoke i \<and> bt_get (rg_devices (cs_registry s)) did = Some e \<and> ed_invite_id e = i)"
  shows "device_out did c"
  using op
proof (elim disjE exE conjE)
  assume "op = AdmRevokeDevice did"
  then have "device_revoke did s = Ok ((), c)" using m by simp
  from spec [OF conjunct2 [OF device_revoke_ok [OF ok this]], of did] show ?thesis
    using device_out_revoked by auto
next
  fix i e
  assume i: "op = AdmRevoke i" and e: "bt_get (rg_devices (cs_registry s)) did = Some e" "ed_invite_id e = i"
  obtain ids where r: "invite_revoke i s = Ok (ids, c)" using m i by (auto simp: drop_value_Ok)
  note ro = invite_revoke_ok [OF ok r]
  obtain j cl where cl: "claim_at (cs_registry s) j cl" "claim_dev cl = did" "e = device_of_claim cl"
    using registry_ok_device [OF admin_okD(1) [OF ok] e(1)] by blast
  then have "j = i"
    using registry_ok_claim [OF admin_okD(1) [OF ok] cl(1)] e(2)
    by (simp add: device_of_claim_def device_of_receipt_def)
  then have "did \<in> set ids"
    using cl(1,2) ro by (auto simp: revoke_invite_def Let_def claim_at_def split: option.splits)
  then show ?thesis using ro device_out_revoked by auto
qed

subsection \<open>Properties\<close>

text \<open>C6: The registry and the catalog never disagree: after any history of administration and
  enrollment, whatever transaction succeeds leaves a snapshot that passes the store's validation,
  with every device of the catalog enrolled under the same site, invite and capabilities and
  revoked in both or in neither; and revoking an invite the registry knows always succeeds.\<close>

theorem admin_agreement:
  assumes "s = foldl (admin_step cr js os) (snapshot_initial cid) ops"
    and "admin_mutate cr js os op s = Some (Ok ((), c))"
  shows "snapshot_validate cid c = Ok ()
    \<and> (\<forall>did d. bt_get (devices (cs_catalog c)) did = Some d \<longrightarrow>
        (\<exists>e. bt_get (rg_devices (cs_registry c)) did = Some e \<and> ed_site_id e = dr_site_id (device_of d)
          \<and> ed_invite_id e = enrolled_via_invite_id (device_of d)
          \<and> member (ed_effective_grant e) = dr_capabilities (device_of d)
          \<and> (ed_status e = RevokedStatus \<longleftrightarrow> cd_revoked d)))
    \<and> (bt_get (rg_invites (cs_registry s)) i \<noteq> None \<longrightarrow> is_ok (invite_revoke i s))"
proof -
  have s: "admin_ok cid s" unfolding assms(1) using admin_run_ok [OF admin_initial_ok] .
  have c: "admin_ok cid c" using admin_mutate_ok [OF s assms(2)] .
  have "\<exists>e. bt_get (rg_devices (cs_registry c)) did = Some e \<and> ed_site_id e = dr_site_id (device_of d)
      \<and> ed_invite_id e = enrolled_via_invite_id (device_of d)
      \<and> member (ed_effective_grant e) = dr_capabilities (device_of d)
      \<and> (ed_status e = RevokedStatus \<longleftrightarrow> cd_revoked d)"
    if "bt_get (devices (cs_catalog c)) did = Some d" for did d
    using admin_ok_matches [OF c that] by (auto simp: device_matches_def)
  then show ?thesis
    using admin_okD(4) [OF c] invite_revoke_succeeds [OF s] by (simp add: snapshot_validate_Ok)
qed

text \<open>C7: Admission follows enrollment: a member is admitted only while remote access is not paused,
  to a site that is known and not revoked, as a device that is active there and whose key is the
  enrolled one; and once its device or its invite has been revoked, no later history admits it
  again while its id is not drawn anew.\<close>

theorem member_admission:
  assumes "s = foldl (admin_step cr js os) (snapshot_initial cid) ops"
    and "admin_mutate cr js os op s = Some (Ok ((), c))"
    and "op = AdmRevokeDevice did
      \<or> (\<exists>i e. op = AdmRevoke i \<and> bt_get (rg_devices (cs_registry s)) did = Some e \<and> ed_invite_id e = i)"
    and "\<forall>op' \<in> set ops'. did \<notin> set (draws op')" and "sc_device_id cl = did"
  shows "\<not> authorize_member cr' cid' tg (foldl (admin_step cr js os) c ops') cl
    \<and> (authorize_member cr' cid' tg s cl' \<longrightarrow> \<not> remote_access_paused_of s
        \<and> (\<exists>site. bt_get (sites (cs_catalog s)) (sc_site_id cl') = Some site \<and> \<not> sr_revoked site)
        \<and> (\<exists>e. bt_get (rg_devices (cs_registry s)) (sc_device_id cl') = Some e \<and> ed_status e = Active
             \<and> ed_device_public e = sc_device_identity cl' \<and> ed_site_id e = sc_site_id cl')
        \<and> (\<forall>tag. tg = Some tag \<longrightarrow> site_tag_derive cr' cid' (sc_site_id cl') = tag))"
proof -
  have s: "admin_ok cid s" unfolding assms(1) using admin_run_ok [OF admin_initial_ok] .
  have "device_out did (foldl (admin_step cr js os) c ops')"
    using device_out_run [OF admin_mutate_ok [OF s assms(2)] revoking_device_out [OF s assms(2,3)] assms(4)] .
  then have r: "\<not> authorize_member cr' cid' tg (foldl (admin_step cr js os) c ops') cl"
    using device_out_refused assms(5) by simp
  have "ed_site_id e = sc_site_id cl'"
    if "bt_get (devices (cs_catalog s)) (sc_device_id cl') = Some d" "dr_site_id (device_of d) = sc_site_id cl'"
      "bt_get (rg_devices (cs_registry s)) (sc_device_id cl') = Some e" for d e
    using admin_ok_matches [OF s that(1)] that(2,3) by (auto simp: device_matches_def)
  then show ?thesis
    using r by (auto simp: authorize_member_def is_device_active_def split: option.splits if_splits)
qed

subsection \<open>What a bootstrap leaves behind\<close>

lemma admin_ok_next [simp]: "admin_ok cid (next_of s c) = admin_ok cid c"
  by (simp add: admin_ok_def next_of_def)

lemma next_of_parts [simp]:
  "cs_registry (next_of s c) = cs_registry c" "cs_catalog (next_of s c) = cs_catalog c"
  "recovery_review_of (next_of s c) = recovery_review_of c"
  by (simp_all add: next_of_def)

lemma transaction_state:
  assumes "transaction j w m (d, s) = ((d', s'), r)" and cid: "ct_controller_id s = cid"
  shows "ct_controller_id s' = cid \<and> (case r of
      Inl _ \<Rightarrow> s' = s
    | Inr x \<Rightarrow> \<exists>c. m (ct_snapshot s) = Ok (x, c) \<and> ct_snapshot s' = next_of (ct_snapshot s) c)"
proof (cases "m (ct_snapshot s)")
  case (Inl e)
  then show ?thesis using assms by (auto simp: transaction_def)
next
  case (Inr xc)
  obtain x c where xc: "xc = (x, c)" by (cases xc)
  show ?thesis
  proof (cases "snapshot_validate (ct_controller_id s) c")
    case (Inl e)
    then show ?thesis using assms Inr xc by (auto simp: transaction_def)
  next
    case v: (Inr u)
    obtain d1 s1 r1 where co: "commit_candidate j w c (d, s) = ((d1, s1), r1)" by (metis surj_pair)
    have ok: "snapshot_ok cid c" using v cid by (simp add: snapshot_validate_Ok)
    have s1: "ct_controller_id s1 = cid \<and> (case r1 of Inl _ \<Rightarrow> s1 = s | Inr _ \<Rightarrow> ct_snapshot s1 = next_of (ct_snapshot s) c)"
      using commit_cases [OF co ok cid] cid by (cases r1) auto
    have "s' = s1 \<and> r = (case r1 of Inl e \<Rightarrow> Inl e | Inr _ \<Rightarrow> Inr x)"
      using assms(1) Inr xc v co by (cases r1) (auto simp: transaction_def)
    then show ?thesis using s1 Inr xc by (cases r1) auto
  qed
qed

definition store_ok :: "controller_id \<Rightarrow> control_state \<Rightarrow> bool" where
  "store_ok cid ds \<longleftrightarrow> ct_controller_id (snd ds) = cid \<and> admin_ok cid (ct_snapshot (snd ds))"

lemma transaction_store_ok:
  assumes "transaction j w m ds = (ds', r)" and "store_ok cid ds"
    and "\<And>x c. m (ct_snapshot (snd ds)) = Ok (x, c) \<Longrightarrow> admin_ok cid c"
  shows "store_ok cid ds'"
proof -
  obtain d s d' s' where ds: "ds = (d, s)" "ds' = (d', s')" by (cases ds; cases ds') auto
  have "ct_controller_id s = cid" using assms(2) ds by (simp add: store_ok_def)
  from transaction_state [OF assms(1) [unfolded ds] this] show ?thesis
    using assms(2,3) ds by (cases r) (auto simp: store_ok_def)
qed

text \<open>An activated device is one that may now connect.\<close>

definition activated_in :: "control_snapshot \<Rightarrow> device_record \<Rightarrow> bool" where
  "activated_in s d \<longleftrightarrow>
     (\<exists>cd. bt_get (devices (cs_catalog s)) (dr_device_id d) = Some cd \<and> device_of cd = d \<and> \<not> cd_revoked cd)
     \<and> is_device_active (cs_registry s) (dr_device_id d)
     \<and> (\<exists>site. bt_get (sites (cs_catalog s)) (dr_site_id d) = Some site \<and> \<not> sr_revoked site)"

lemma finalize_activated:
  assumes ok: "admin_ok cid s" and f: "finalize_persisted os i did token host s = Ok (d, c)"
  shows "activated_in c d"
proof -
  note fo = finalize_persisted_ok [OF ok f]
  then obtain cd where cd: "bt_get (devices (cs_catalog c)) did = Some cd" "device_of cd = d" "\<not> cd_revoked cd"
    by blast
  have id: "dr_device_id d = did" using admin_ok_matches [OF conjunct1 [OF fo] cd(1)] cd(2) by (simp add: device_matches_def)
  have "is_device_active (cs_registry c) did" using fo by (auto simp: is_device_active_def)
  then show ?thesis using fo cd id by (auto simp: activated_in_def)
qed

lemma activated_in_next [simp]: "activated_in (next_of s c) d = activated_in c d"
  by (simp add: activated_in_def)

lemma bootstrap_activate_sent:
  assumes "bootstrap_activate en ch expected i did token host kr ks ds = (ds', sent, r)" and ok: "store_ok cid ds"
  shows "store_ok cid ds' \<and> (BsActivated d \<in> set sent \<longrightarrow> activated_in (ct_snapshot (snd ds')) d
    \<and> (\<forall>sid. expected = Some sid \<longrightarrow> dr_site_id d = sid))"
proof -
  obtain ds1 r1 where t: "transaction (bn_control_json en) (bn_final_write en)
      (finalize_persisted (bn_os en) i did token host) ds = (ds1, r1)" by fastforce
  have adm: "admin_ok cid (ct_snapshot (snd ds))" and cid: "ct_controller_id (snd ds) = cid"
    using ok by (simp_all add: store_ok_def)
  have s1: "store_ok cid ds1"
    using transaction_store_ok [OF t ok] finalize_persisted_ok [OF adm] by blast
  have ack: "BsActivated d \<notin> set (fst (expect_activation_ack ch kr (Suc ks) i did))"
    by (simp add: expect_activation_ack_def split: sum.splits bootstrap_request.splits)
  show ?thesis
  proof (cases r1)
    case (Inl e)
    then show ?thesis using assms(1) t s1 by (simp add: bootstrap_activate_def)
  next
    case (Inr canonical)
    obtain dd s where ds: "ds = (dd, s)" by (cases ds)
    obtain dd1 s1' where ds1: "ds1 = (dd1, s1')" by (cases ds1)
    from transaction_state [OF t [unfolded ds ds1]] cid Inr ds obtain c where
      c: "finalize_persisted (bn_os en) i did token host (ct_snapshot s) = Ok (canonical, c)"
        "ct_snapshot s1' = next_of (ct_snapshot s) c"
      by auto
    have act: "activated_in (ct_snapshot (snd ds1)) canonical"
      using finalize_activated [OF _ c(1)] adm c(2) ds ds1 by simp
    show ?thesis
      using assms(1) t Inr s1 act ack
      by (auto simp: bootstrap_activate_def split: option.splits if_splits sum.splits prod.splits)
  qed
qed

lemma bootstrap_claim_store_ok:
  assumes b: "bootstrap_claim en expected pass device host mode ds = Some (ds1, r)" and ok: "store_ok cid ds"
  shows "store_ok cid ds1"
proof (cases "claim_precheck en expected pass host (ct_snapshot (snd ds))")
  case (Inl e)
  then show ?thesis using b ok by (simp add: bootstrap_claim_def)
next
  case (Inr now)
  then obtain res where res: "claim_device (bn_crypto en) (bn_json en) (bn_drawn en) (bn_token en) pass device now
        (claim_ceiling mode) (ct_snapshot (snd ds)) = Some res"
    using b by (auto simp: bootstrap_claim_def)
  obtain ds2 r2 where t: "transaction (bn_control_json en) (bn_claim_write en) (\<lambda>_. res) ds = (ds2, r2)"
    by fastforce
  have "ds1 = ds2" using b Inr res t by (simp add: bootstrap_claim_def)
  moreover have "admin_ok cid c" if "res = Ok (x, c)" for x c
    using claim_device_ok [OF _ res [unfolded that]] ok by (simp add: store_ok_def)
  ultimately show ?thesis using transaction_store_ok [OF t ok] by simp
qed

text \<open>C8: A device is told it is activated only when it may connect: whatever the peer sends, an
  activation is sent only if remote access is not paused, after a commit in which the device is
  active, in the catalog with exactly the record sent, not revoked, under a site that is known,
  not revoked and, through a connector, the site of the connector's tag.\<close>

theorem bootstrap_activates:
  assumes "store_ok cid ds" and "handle_bootstrap_inner en ch expected ds = Some (ds', sent, r)"
    and "BsActivated d \<in> set sent"
  shows "\<not> remote_access_paused_of (ct_snapshot (snd ds)) \<and> activated_in (ct_snapshot (snd ds')) d
    \<and> (\<forall>sid. expected = Some sid \<longrightarrow> dr_site_id d = sid) \<and> store_ok cid ds'"
proof -
  have p: "\<not> remote_access_paused_of (ct_snapshot (snd ds))"
    using assms(2,3) by (auto simp: handle_bootstrap_inner_def split: if_splits)
  obtain req where req: "ch_recv ch 0 = Ok req"
    using assms(2,3) p by (auto simp: handle_bootstrap_inner_def split: sum.splits)
  show ?thesis
  proof (cases req)
    case (BrPersisted i did token host)
    then obtain u where "validate_hostname host = Ok u"
      using assms(2,3) p req by (auto simp: handle_bootstrap_inner_def split: sum.splits)
    then have "bootstrap_activate en ch expected i did token host 1 0 ds = (ds', sent, r)"
      using assms(2) p req BrPersisted by (simp add: handle_bootstrap_inner_def)
    from bootstrap_activate_sent [OF this assms(1)] show ?thesis using assms(3) p by blast
  next
    case (BrClaim pass device host mode)
    obtain ds1 rc where cl: "bootstrap_claim en expected pass device host mode ds = Some (ds1, Ok rc)"
      using assms(2,3) p req BrClaim
      by (auto simp: handle_bootstrap_inner_def split: option.splits sum.splits)
    have ok1: "store_ok cid ds1" using bootstrap_claim_store_ok [OF cl assms(1)] .
    obtain i did token sent' where a: "bootstrap_activate en ch expected i did token host 2 1 ds1 = (ds', sent', r)"
      "sent = BsClaimed rc # sent'"
      using assms(2,3) p req BrClaim cl
      by (auto simp: handle_bootstrap_inner_def split: sum.splits bootstrap_request.splits if_splits prod.splits)
    from bootstrap_activate_sent [OF a(1) ok1] show ?thesis using assms(3) a(2) p by auto
  qed (use assms(2,3) p req in \<open>auto simp: handle_bootstrap_inner_def\<close>)
qed


subsection \<open>A concrete site\<close>

definition toy_cid :: controller_id where "toy_cid = cp_controller_id toy_controller"

definition toy_grant :: permission_grant where "toy_grant = EXECUTE_READ_WRITE_SHELL_TCP_CONNECTOR"

definition lab :: site_record where "lab = (toy_site 1)\<lparr>sr_site_name := ''lab''\<rparr>"

definition toy_claim_op :: admin_op where
  "toy_claim_op = AdmClaim [9] (Ok [42]) toy_pass toy_device 12 toy_grant"

text \<open>The site, its pass and a device that has claimed it.\<close>

definition adm_state :: "admin_op list \<Rightarrow> control_snapshot" where
  "adm_state ops = foldl (admin_step toy_crypto toy_enroll_json OtherUnix) (snapshot_initial toy_cid) ops"

lemma toy_fingerprint: "pass_fingerprint toy_crypto toy_enroll_json toy_pass = Ok (replicate 32 4)"
  by (simp add: pass_fingerprint_def toy_enroll_json_def toy_crypto_def BOOTSTRAP_FINGERPRINT_DOMAIN_def)

lemma toy_device_ok: "device_validate toy_crypto toy_device = Ok ()"
  by (simp add: device_validate_def toy_device_def toy_crypto_def)

lemma lab_ok: "site_validate lab = Ok ()"
  by (simp add: lab_def site_validate_def validate_name_def toy_site_def trim_def ascii_defs bind_r_Ok
      policy_validate_Ok policy_spec_def Let_def)

definition toy_invite :: invite_state where
  "toy_invite = remember_pass_metadata toy_pass (invite_default\<lparr>is_fingerprint := Some (replicate 32 4)\<rparr>)"

definition adm_issued :: control_snapshot where
  "adm_issued = (snapshot_initial toy_cid)\<lparr>
     cs_registry := set_invite 5 toy_invite (cs_registry (snapshot_initial toy_cid)),
     cs_catalog := \<lparr>sites = [(1, lab)], devices = []\<rparr>\<rparr>"

lemma toy_issued: "adm_state [AdmIssue lab toy_pass] = adm_issued"
proof -
  have k: "upsert_site lab \<lparr>sites = [], devices = []\<rparr> = Ok \<lparr>sites = [(1, lab)], devices = []\<rparr>"
    by (simp add: upsert_site_def lab_ok) (simp add: lab_def toy_site_def)
  have i: "pb_invite_id (sp_payload toy_pass) = 5" by (simp add: toy_pass_def)
  let ?r = "cs_registry (snapshot_initial toy_cid)"
  have "invite_or_default ?r 5 = invite_default" "rg_controller_id ?r = cp_controller_id toy_controller"
    by (simp_all add: invite_or_default_def snapshot_initial_def registry_new_def toy_cid_def)
  moreover have "\<not> is_revoked invite_default" "\<not> is_deleted invite_default" "is_fingerprint invite_default = None"
    by (simp_all add: invite_default_def)
  ultimately have r: "register_pass toy_crypto toy_enroll_json toy_pass ?r = (set_invite 5 toy_invite ?r, Ok ())"
    by (simp add: register_pass_def toy_pass_verify toy_fingerprint i Let_def toy_invite_def)
  have c: "cs_catalog (snapshot_initial toy_cid) = \<lparr>sites = [], devices = []\<rparr>" by (simp add: snapshot_initial_def)
  have "invite_issue toy_crypto toy_enroll_json lab toy_pass (snapshot_initial toy_cid) = Ok ((), adm_issued)"
    by (simp add: invite_issue_def on_catalog_def on_registry_def c k r adm_issued_def)
  then show ?thesis by (simp add: adm_state_def admin_step_def)
qed

definition adm_claimed :: control_snapshot where
  "adm_claimed = adm_state [AdmIssue lab toy_pass, toy_claim_op]"

lemma toy_claimed_now:
  "\<exists>r rc. claim_with_ceiling toy_crypto toy_enroll_json [9] (Ok [42]) toy_pass toy_device 12 toy_grant
      (cs_registry adm_issued) = Some (r, Ok rc)
    \<and> adm_claimed = adm_issued\<lparr>cs_registry := r\<rparr>
    \<and> bt_get (rg_invites r) 5 = Some (toy_invite\<lparr>is_first_claim := Some 12, is_claims :=
        [\<lparr>cl_pass_fingerprint = replicate 32 4, cl_receipt = rc, cl_status = PendingHostPersist\<rparr>]\<rparr>)
    \<and> bt_get (rg_devices r) = [9 \<mapsto> device_of_receipt rc PendingHostPersist]
    \<and> rc_device_id rc = 9 \<and> rc_site_id rc = 1 \<and> rc_invite_id rc = 5 \<and> rc_persist_ack_token rc = [42]"
proof -
  let ?R = "cs_registry adm_issued"
  let ?rc = "claim_receipt toy_pass toy_device 12 toy_grant 9 [42] ?R"
  have inv: "bt_get (rg_invites ?R) 5 = Some toy_invite" "rg_devices ?R = []"
    "rg_controller_id ?R = cp_controller_id toy_controller"
    by (simp_all add: adm_issued_def set_invite_def snapshot_initial_def registry_new_def toy_cid_def)
  have p: "pb_invite_id (sp_payload toy_pass) = 5" "pb_site_id (sp_payload toy_pass) = 1"
    "pb_not_before_unix_ms (sp_payload toy_pass) = 10" "pb_expires_unix_ms (sp_payload toy_pass) = 20"
    "pb_max_claims (sp_payload toy_pass) = 2"
    by (simp_all add: toy_pass_def)
  have t: "\<not> is_revoked toy_invite" "\<not> is_closed toy_invite" "is_fingerprint toy_invite = Some (replicate 32 4)"
    "is_claims toy_invite = []" "is_first_claim toy_invite = None"
    "remember_pass_metadata toy_pass toy_invite = toy_invite"
    by (simp_all add: toy_invite_def remember_pass_metadata_def invite_default_def Let_def)
  have "claim_existing (Some toy_invite) (replicate 32 4) toy_device = Ok None"
    by (simp add: claim_existing_def t)
  moreover have "claim_window (Some toy_invite) (sp_payload toy_pass) 12 = Ok ()"
    by (simp add: claim_window_def p t)
  ultimately have c: "claim_checks toy_crypto toy_enroll_json toy_pass toy_device 12 ?R = Ok (replicate 32 4, None)"
    by (simp add: claim_checks_def toy_pass_verify toy_device_ok toy_fingerprint inv p Let_def)
  have "invite_or_default ?R 5 = toy_invite" by (simp add: invite_or_default_def inv)
  moreover have "remember_pass_metadata toy_pass (toy_invite\<lparr>is_fingerprint := Some (replicate 32 4)\<rparr>) = toy_invite"
    by (simp add: toy_invite_def remember_pass_metadata_def Let_def)
  moreover define r where "r = fst (record_claim toy_pass (replicate 32 4) 12 ?rc ?R)"
  ultimately have r: "record_claim toy_pass (replicate 32 4) 12 ?rc ?R = (r, Ok ?rc)"
    and ri: "bt_get (rg_invites r) 5 = Some (toy_invite\<lparr>is_first_claim := Some 12, is_claims :=
        [\<lparr>cl_pass_fingerprint = replicate 32 4, cl_receipt = ?rc, cl_status = PendingHostPersist\<rparr>]\<rparr>)"
    and rd: "bt_get (rg_devices r) = [rc_device_id ?rc \<mapsto> device_of_receipt ?rc PendingHostPersist]"
    by (simp_all add: record_claim_def p t set_invite_def inv Let_def fun_eq_iff)
  have w: "claim_with_ceiling toy_crypto toy_enroll_json [9] (Ok [42]) toy_pass toy_device 12 toy_grant ?R = Some (r, Ok ?rc)"
    by (simp add: claim_with_ceiling_def c inv r)
  have "adm_claimed = adm_issued\<lparr>cs_registry := r\<rparr>"
    using toy_issued w
    by (simp add: adm_claimed_def adm_state_def admin_step_def toy_claim_op_def claim_device_def on_registry_def
        drop_value_def)
  moreover have "rc_device_id ?rc = 9" "rc_site_id ?rc = 1" "rc_invite_id ?rc = 5" "rc_persist_ack_token ?rc = [42]"
    by (simp_all add: claim_receipt_def p Let_def)
  ultimately show ?thesis using w ri rd by auto
qed

lemma toy_finalized:
  "\<exists>d c. finalize_persisted OtherUnix 5 9 [42] ''pc'' adm_claimed = Ok (d, c) \<and> dr_site_id d = 1 \<and> dr_device_id d = 9"
proof -
  obtain r rc where n: "adm_claimed = adm_issued\<lparr>cs_registry := r\<rparr>"
    and i: "bt_get (rg_invites r) 5 = Some (toy_invite\<lparr>is_first_claim := Some 12, is_claims :=
        [\<lparr>cl_pass_fingerprint = replicate 32 4, cl_receipt = rc, cl_status = PendingHostPersist\<rparr>]\<rparr>)"
    and d: "bt_get (rg_devices r) = [9 \<mapsto> device_of_receipt rc PendingHostPersist]"
    and rc: "rc_device_id rc = 9" "rc_site_id rc = 1" "rc_invite_id rc = 5" "rc_persist_ack_token rc = [42]"
    using toy_claimed_now by blast
  let ?e = "(device_of_receipt rc PendingHostPersist)\<lparr>ed_status := Active\<rparr>"
  have e: "ed_site_id ?e = 1" by (simp add: device_of_receipt_def rc)
  have t: "\<not> is_revoked toy_invite" by (simp add: toy_invite_def remember_pass_metadata_def invite_default_def Let_def)
  have "snd (finalize_host_persist 5 9 [42] r) = Ok ?e"
    by (simp add: finalize_host_persist_def i rc t constant_time_eq_def set_invite_def d Let_def)
  then obtain r' where f: "finalize_host_persist 5 9 [42] r = (r', Ok ?e)" by (metis prod.collapse)
  have cat: "cs_catalog adm_issued = \<lparr>sites = [(1, lab)], devices = []\<rparr>" by (simp add: adm_issued_def)
  have rv: "\<not> sr_revoked lab" by (simp add: lab_def toy_site_def)
  have "\<exists>d c. enter_activated 9 h ?e (adm_issued\<lparr>cs_registry := r'\<rparr>) = Ok (d, c) \<and> dr_site_id d = 1 \<and> dr_device_id d = 9"
    for h
    by (simp add: enter_activated_def cat e rv Let_def on_catalog_def register_device_def)
  then show ?thesis
    by (simp add: finalize_persisted_def n on_registry_def f Let_def)
qed

definition adm_active :: control_snapshot where
  "adm_active = adm_state [AdmIssue lab toy_pass, toy_claim_op, AdmFinalize 5 9 [42] ''pc'']"

lemma toy_active:
  "\<exists>d. finalize_persisted OtherUnix 5 9 [42] ''pc'' adm_claimed = Ok (d, adm_active) \<and> dr_site_id d = 1
     \<and> dr_device_id d = 9"
proof -
  obtain d c where f: "finalize_persisted OtherUnix 5 9 [42] ''pc'' adm_claimed = Ok (d, c)" "dr_site_id d = 1"
    "dr_device_id d = 9"
    using toy_finalized by blast
  have "adm_active = admin_step toy_crypto toy_enroll_json OtherUnix adm_claimed (AdmFinalize 5 9 [42] ''pc'')"
    by (simp add: adm_active_def adm_claimed_def adm_state_def)
  then have "adm_active = c" by (simp add: admin_step_def f(1) drop_value_def)
  then show ?thesis using f by blast
qed

lemma adm_ok: "admin_ok toy_cid adm_claimed" "admin_ok toy_cid adm_active"
  unfolding adm_claimed_def adm_active_def adm_state_def by (rule admin_run_ok [OF admin_initial_ok])+

lemma adm_active_device:
  "\<exists>d. bt_get (devices (cs_catalog adm_active)) 9 = Some d" "\<exists>e. bt_get (rg_devices (cs_registry adm_active)) 9 = Some e"
  using toy_active finalize_persisted_ok [OF adm_ok(1)] by fastforce+

lemma admin_agreement_witness:
  "\<exists>d e. bt_get (devices (cs_catalog adm_active)) 9 = Some d
     \<and> bt_get (rg_devices (cs_registry adm_active)) 9 = Some e
     \<and> ed_invite_id e = enrolled_via_invite_id (device_of d) \<and> snapshot_validate toy_cid adm_active = Ok ()"
proof -
  have s: "adm_claimed = foldl (admin_step toy_crypto toy_enroll_json OtherUnix) (snapshot_initial toy_cid)
      [AdmIssue lab toy_pass, toy_claim_op]"
    by (simp add: adm_claimed_def adm_state_def)
  have m: "admin_mutate toy_crypto toy_enroll_json OtherUnix (AdmFinalize 5 9 [42] ''pc'') adm_claimed
      = Some (Ok ((), adm_active))"
    using toy_active by (auto simp: drop_value_def)
  obtain d where "bt_get (devices (cs_catalog adm_active)) 9 = Some d" using adm_active_device(1) by blast
  then show ?thesis using admin_agreement [OF s m, of 5] by blast
qed

lemma member_admission_witness:
  "\<exists>c. device_revoke 9 adm_active = Ok ((), c)
     \<and> \<not> authorize_member toy_crypto toy_cid None
         (foldl (admin_step toy_crypto toy_enroll_json OtherUnix) c [AdmRename 9 ''x'', AdmFinalize 5 9 [42] ''pc''])
         \<lparr>sc_device_identity = toy_device, sc_device_id = 9, sc_site_id = 1\<rparr>"
proof -
  have s: "adm_active = foldl (admin_step toy_crypto toy_enroll_json OtherUnix) (snapshot_initial toy_cid)
      [AdmIssue lab toy_pass, toy_claim_op, AdmFinalize 5 9 [42] ''pc'']"
    by (simp add: adm_active_def adm_state_def)
  obtain r where r: "revoke_device 9 (cs_registry adm_active) = (r, Ok ())"
  proof -
    have "snd (revoke_device 9 (cs_registry adm_active)) = Ok ()"
      using adm_active_device(2) by (auto simp: revoke_device_def Let_def split: option.split)
    then show thesis using that by (metis prod.collapse)
  qed
  obtain k where k: "catalog_revoke_device 9 (cs_catalog adm_active) = Ok k"
    using adm_active_device(1) by (auto simp: catalog_revoke_device_def)
  have d: "device_revoke 9 adm_active = Ok ((), adm_active\<lparr>cs_registry := r, cs_catalog := k\<rparr>)"
    by (simp add: device_revoke_def on_registry_def r on_catalog_def k)
  have m: "admin_mutate toy_crypto toy_enroll_json OtherUnix (AdmRevokeDevice 9) adm_active
      = Some (Ok ((), adm_active\<lparr>cs_registry := r, cs_catalog := k\<rparr>))"
    by (simp add: d)
  have u: "\<forall>op' \<in> set [AdmRename 9 ''x'', AdmFinalize 5 9 [42] ''pc'']. 9 \<notin> set (draws op')" by simp
  show ?thesis
    using member_admission [OF s m disjI1 [OF refl] u, of
        "\<lparr>sc_device_identity = toy_device, sc_device_id = 9, sc_site_id = 1\<rparr>"] d by simp
qed

text \<open>A device that has stored its receipt asks for its activation.\<close>

definition toy_env :: boot_env where
  "toy_env = \<lparr>bn_crypto = toy_crypto, bn_json = toy_enroll_json,
     bn_control_json = \<lparr>to_vec_pretty = \<lambda>_. Ok [1], from_slice_header = \<lambda>_. Ok 1,
       from_slice_envelope = \<lambda>_. Ok (envelope_new adm_active)\<rparr>,
     bn_os = OtherUnix, bn_identity = toy_controller, bn_drawn = [], bn_token = Ok [], bn_now = Ok 12,
     bn_claim_write = Written, bn_final_write = Written\<rparr>"

definition toy_channel :: boot_channel where
  "toy_channel = \<lparr>ch_recv = \<lambda>k. if k = 0 then Ok (BrPersisted 5 9 [42] ''pc'') else Ok (BrActivatedAck 5 9),
     ch_send = \<lambda>_ _. Ok (), ch_sealed = True\<rparr>"

lemma bootstrap_activates_witness:
  "\<exists>d ds'. handle_bootstrap_inner toy_env toy_channel (Some 1)
       (\<lparr>slot_a = NoFile, slot_b = NoFile\<rparr>, \<lparr>ct_controller_id = toy_cid, ct_snapshot = adm_claimed\<rparr>)
     = Some (ds', [BsActivated d, BsActivationConfirmed 5 9], Ok ())
     \<and> activated_in (ct_snapshot (snd ds')) d"
proof -
  let ?ds = "(\<lparr>slot_a = NoFile, slot_b = NoFile\<rparr>, \<lparr>ct_controller_id = toy_cid, ct_snapshot = adm_claimed\<rparr>)"
  have ok: "store_ok toy_cid ?ds" using adm_ok by (simp add: store_ok_def)
  have gen: "generation adm_claimed = 0" "recovery_review_of adm_claimed = None"
  proof -
    obtain r where n: "adm_claimed = adm_issued\<lparr>cs_registry := r\<rparr>" using toy_claimed_now by blast
    show "generation adm_claimed = 0" "recovery_review_of adm_claimed = None"
      by (simp_all add: n) (simp_all add: adm_issued_def snapshot_initial_def)
  qed
  obtain d where f: "finalize_persisted OtherUnix 5 9 [42] ''pc'' adm_claimed = Ok (d, adm_active)" "dr_site_id d = 1"
    using toy_active by blast
  have v: "snapshot_validate toy_cid adm_active = Ok ()"
    using adm_ok(2) by (simp add: snapshot_validate_Ok admin_ok_def)
  have v1: "snapshot_validate toy_cid (adm_active\<lparr>generation := 1\<rparr>) = Ok ()"
    using adm_ok(2) by (simp add: snapshot_validate_Ok admin_ok_def)
  have w: "write_slot cs_errors (bn_control_json toy_env) Written x f = (File [1], Ok ())" for x f
    by (simp add: write_slot_def encode_state_json_def toy_env_def check_document_size_def bounds_simps)
  have g: "checked_add (0 :: u64) 1 = Some 1" "odd_to_a 1" by (simp_all add: checked_add_1 odd_to_a_def)
  have "\<exists>d1. transaction (bn_control_json toy_env) Written (finalize_persisted OtherUnix 5 9 [42] ''pc'') ?ds
      = (d1, Ok d)"
    by (simp add: transaction_def f v commit_candidate_def gen g v1 w Let_def)
  then obtain ds1 where t: "transaction (bn_control_json toy_env) Written (finalize_persisted OtherUnix 5 9 [42] ''pc'') ?ds
      = (ds1, Ok d)" by blast
  have "handle_bootstrap_inner toy_env toy_channel (Some 1) ?ds
      = Some (ds1, [BsActivated d, BsActivationConfirmed 5 9], Ok ())"
    using t by (simp add: handle_bootstrap_inner_def remote_access_paused_of_def gen toy_channel_def
        validate_hostname_def bootstrap_activate_def expect_activation_ack_def f(2))
       (simp add: toy_env_def f(2) expect_activation_ack_def)
  from bootstrap_activates [OF ok this, of d] this show ?thesis by auto
qed

end
