(* ===== verification/Remote_Hub.thy ===== *)
theory Remote_Hub
  imports Shell_Task Tcp_Forward
begin

section \<open>The hub of remote sessions (clew-runtime, remote.rs)\<close>

text \<open>
  The controller's table of live sessions. A device that connects gets a session with a fresh
  generation; the tasks of the program look sessions up, send requests over them and come back,
  with the hub unlocked in between. Each definition is one critical section on the hub's state, or
  the decision taken on what a wait brought; a call that waits is a function of what the other
  tasks have made of the state meanwhile. A session's command channel is identified by its
  generation, as every registration makes a channel of its own. Poisoned locks and the errors of
  protocols that only pass through are left out.
\<close>

subsection \<open>State\<close>

definition MAX_REMOTE_CONNECTIONS :: nat where [bounds_simps]: "MAX_REMOTE_CONNECTIONS = 128"
definition MAX_REMOTE_SHELL_TASK_PROJECTIONS :: nat where
  [bounds_simps]: "MAX_REMOTE_SHELL_TASK_PROJECTIONS = MAX_REMOTE_CONNECTIONS * HARD_MAX_SHELL_TASKS_PER_SESSION"
definition SESSION_CONTINUITY_GAP_MS :: u64 where [bounds_simps]: "SESSION_CONTINUITY_GAP_MS = 15000"

datatype session_topology = DirectTopology | ConnectorTopology
datatype path_state = DirectPath | RelayPath | MixedOrUnknown
datatype session_state = Connected | Disconnected

record session_info =
  si_device_id :: device_id
  si_generation :: u64
  si_state :: session_state
  si_topology :: session_topology
  si_path :: path_state
  si_connected :: u64
  si_last_transition :: u64
  si_last_path_change :: u64

record shell_projection =
  sp_device_id :: device_id
  sp_generation :: u64
  sp_deadline :: "u64 option"

record hub_state =
  hb_next_generation :: u64
  hb_sessions :: "(device_id, u64) btree"
  hb_session_info :: "(device_id, session_info) btree"
  hb_shell_tasks :: "(task_id, shell_projection) btree"
  hb_pending_shell_starts :: usize
  hb_revision :: u64

definition hub_default :: hub_state where
  "hub_default = \<lparr>hb_next_generation = 0, hb_sessions = [], hb_session_info = [], hb_shell_tasks = [],
     hb_pending_shell_starts = 0, hb_revision = 0\<rparr>"

datatype hub_error =
    HubOffline device_id
  | HubGenerationOverflow
  | HubSessionGenerationChanged u64 u64
  | HubSessionContinuityLost
  | HubTcpForwardSessionChanged device_id
  | HubInvalidTcpForwardRequestShape
  | HubTcpForwardReplyMismatch
  | HubShellProjectionCapacity
  | HubUnknownShellTask task_id
  | HubShellTaskIdConflict task_id
  | HubShellReplyMismatch
  | HubShellReplyTaskMismatch task_id
  | HubInvalidShellProjectionRequest
  | HubTcpForward tcp_forward_error
  | HubShellTask shell_task_error

subsection \<open>Continuity\<close>

text \<open>A session is current while the wall clock has moved on by at most the gap since the peer last spoke.\<close>

definition ensure_current :: "u64 \<Rightarrow> u64 \<Rightarrow> (hub_error, unit) result" where
  "ensure_current seen now =
     (if now < seen \<or> saturating_sub now seen > SESSION_CONTINUITY_GAP_MS
      then Err HubSessionContinuityLost else Ok ())"

definition observe_peer_activity :: "u64 \<Rightarrow> u64 \<Rightarrow> (hub_error, u64) result" where
  "observe_peer_activity seen now = bind_r (ensure_current seen now) (\<lambda>_. Ok now)"

subsection \<open>Sessions\<close>

definition signal_session_change :: "hub_state \<Rightarrow> hub_state" where
  "signal_session_change s = s\<lparr>hb_revision := hb_revision s + 1\<rparr>"

definition is_online :: "device_id \<Rightarrow> hub_state \<Rightarrow> bool" where
  "is_online did s \<longleftrightarrow> bt_get (hb_sessions s) did \<noteq> None"

definition online_device_ids :: "hub_state \<Rightarrow> device_id list" where
  "online_device_ids s = map fst (hb_sessions s)"

definition session_live :: "device_id \<Rightarrow> u64 \<Rightarrow> hub_state \<Rightarrow> bool" where
  "session_live did g s \<longleftrightarrow> (case bt_get (hb_sessions s) did of None \<Rightarrow> False | Some g' \<Rightarrow> g' = g)"

definition update_path :: "device_id \<Rightarrow> u64 \<Rightarrow> path_state \<Rightarrow> u64 \<Rightarrow> hub_state \<Rightarrow> hub_state" where
  "update_path did g path now s =
     (case bt_get (hb_session_info s) did of
        None \<Rightarrow> s
      | Some info \<Rightarrow>
          if session_live did g s \<and> si_generation info = g \<and> si_path info \<noteq> path
          then s\<lparr>hb_session_info := bt_update did
                 (\<lambda>i. i\<lparr>si_path := path, si_last_path_change := now\<rparr>) (hb_session_info s)\<rparr>
          else s)"

definition mark_shell_projections_detached :: "device_id \<Rightarrow> u64 \<Rightarrow> u64 \<Rightarrow> hub_state \<Rightarrow> hub_state" where
  "mark_shell_projections_detached did g disconnected s =
     (let deadline = saturating_add disconnected SHELL_RECONNECT_GRACE_MS in
      s\<lparr>hb_shell_tasks := bt_map_values
          (\<lambda>p. if sp_device_id p = did \<and> sp_generation p = g then p\<lparr>sp_deadline := Some deadline\<rparr> else p)
          (hb_shell_tasks s)\<rparr>)"

definition prune_expired_shell_projections :: "u64 \<Rightarrow> hub_state \<Rightarrow> hub_state" where
  "prune_expired_shell_projections now s =
     s\<lparr>hb_shell_tasks := filter
         (\<lambda>(_, p). case sp_deadline p of None \<Rightarrow> True | Some deadline \<Rightarrow> now \<le> deadline)
         (hb_shell_tasks s)\<rparr>"

text \<open>Registering yields the new generation and, to be stopped, the generation it replaces.\<close>

definition hub_register ::
    "device_id \<Rightarrow> session_topology \<Rightarrow> path_state \<Rightarrow> u64 \<Rightarrow> hub_state
     \<Rightarrow> hub_state \<times> (hub_error, u64 \<times> u64 option) result" where
  "hub_register did topology path connected s =
     (case checked_add (hb_next_generation s) 1 of
        None \<Rightarrow> (s, Err HubGenerationOverflow)
      | Some g \<Rightarrow>
          (let s1 = prune_expired_shell_projections connected (s\<lparr>hb_next_generation := g\<rparr>);
               s2 = s1\<lparr>hb_session_info := bt_insert did
                 \<lparr>si_device_id = did, si_generation = g, si_state = Connected, si_topology = topology,
                  si_path = path, si_connected = connected, si_last_transition = connected,
                  si_last_path_change = connected\<rparr> (hb_session_info s1)\<rparr>;
               previous = bt_get (hb_sessions s2) did;
               s3 = s2\<lparr>hb_sessions := bt_insert did g (hb_sessions s2)\<rparr>;
               s4 = (case previous of
                       None \<Rightarrow> s3
                     | Some old \<Rightarrow> mark_shell_projections_detached did old connected s3) in
           (signal_session_change s4, Ok (g, previous))))"

definition end_session :: "device_id \<Rightarrow> u64 \<Rightarrow> u64 option \<Rightarrow> hub_state \<Rightarrow> hub_state" where
  "end_session did g disconnected s =
     (let s1 = s\<lparr>hb_sessions := bt_remove did (hb_sessions s)\<rparr>;
          s2 = mark_shell_projections_detached did g
                 (case disconnected of None \<Rightarrow> 0 | Some t \<Rightarrow> t) s1 in
      signal_session_change (s2\<lparr>hb_session_info := bt_update did
          (\<lambda>i. if si_generation i = g
               then i\<lparr>si_state := Disconnected,
                      si_last_transition := (case disconnected of None \<Rightarrow> si_last_transition i | Some t \<Rightarrow> t)\<rparr>
               else i) (hb_session_info s2)\<rparr>))"

definition hub_unregister :: "device_id \<Rightarrow> u64 \<Rightarrow> u64 option \<Rightarrow> hub_state \<Rightarrow> hub_state" where
  "hub_unregister did g disconnected s = (if session_live did g s then end_session did g disconnected s else s)"

text \<open>Disconnecting stops the session's generation.\<close>

definition hub_disconnect :: "device_id \<Rightarrow> u64 option \<Rightarrow> hub_state \<Rightarrow> hub_state \<times> u64 option" where
  "hub_disconnect did disconnected s =
     (case bt_get (hb_sessions s) did of
        None \<Rightarrow> (s, None)
      | Some g \<Rightarrow> (end_session did g disconnected s, Some g))"

subsection \<open>Finding a session\<close>

text \<open>One look of \<^verbatim>\<open>replay_session_after\<close>; \<open>None\<close> is to wait for a change.\<close>

definition replay_look :: "device_id \<Rightarrow> u64 option \<Rightarrow> hub_state \<Rightarrow> u64 option" where
  "replay_look did previous s =
     (case bt_get (hb_sessions s) did of
        None \<Rightarrow> None
      | Some g \<Rightarrow> if previous \<noteq> Some g then Some g else None)"

text \<open>
  The loop of \<^verbatim>\<open>read\<close>, \<^verbatim>\<open>fs_query\<close> and \<^verbatim>\<open>directory_tree\<close> over the states it looks at, each with what a
  request sent there would bring (\<open>None\<close>: the session failed or dropped it): the generations the
  request was sent to and the reply. \<open>None\<close> as the reply is that the loop still waits.
\<close>

fun replay_loop ::
    "device_id \<Rightarrow> u64 option \<Rightarrow> (hub_state \<times> 'r option) list \<Rightarrow> u64 list \<times> 'r option" where
  "replay_loop did previous [] = ([], None)"
| "replay_loop did previous ((s, outcome) # rest) =
     (case replay_look did previous s of
        None \<Rightarrow> replay_loop did previous rest
      | Some g \<Rightarrow>
          (case outcome of
             Some reply \<Rightarrow> ([g], Some reply)
           | None \<Rightarrow> (case replay_loop did (Some g) rest of (sent, r) \<Rightarrow> (g # sent, r))))"

text \<open>\<^verbatim>\<open>fs_mutation\<close> forgets the generation when the host says it timed out (\<open>timed_out\<close>).\<close>

fun mutation_loop ::
    "('r \<Rightarrow> bool) \<Rightarrow> device_id \<Rightarrow> u64 option \<Rightarrow> (hub_state \<times> 'r option) list \<Rightarrow> u64 list \<times> 'r option" where
  "mutation_loop timed_out did previous [] = ([], None)"
| "mutation_loop timed_out did previous ((s, outcome) # rest) =
     (case replay_look did previous s of
        None \<Rightarrow> mutation_loop timed_out did previous rest
      | Some g \<Rightarrow>
          (case outcome of
             Some reply \<Rightarrow>
               if timed_out reply
               then (case mutation_loop timed_out did None rest of (sent, r) \<Rightarrow> (g # sent, r))
               else ([g], Some reply)
           | None \<Rightarrow> (case mutation_loop timed_out did (Some g) rest of (sent, r) \<Rightarrow> (g # sent, r))))"

definition current_session :: "device_id \<Rightarrow> hub_state \<Rightarrow> (hub_error, u64) result" where
  "current_session did s = ok_or (bt_get (hb_sessions s) did) (HubOffline did)"

definition session_for_generation :: "device_id \<Rightarrow> u64 \<Rightarrow> hub_state \<Rightarrow> (hub_error, u64) result" where
  "session_for_generation did g s = (if session_live did g s then Ok g else Err (HubTcpForwardSessionChanged did))"

definition ensure_generation :: "device_id \<Rightarrow> u64 \<Rightarrow> hub_state \<Rightarrow> (hub_error, unit) result" where
  "ensure_generation did g s = (if session_live did g s then Ok () else Err (HubTcpForwardSessionChanged did))"

text \<open>A file-transfer request pinned to a generation.\<close>

definition file_transfer_session :: "device_id \<Rightarrow> u64 \<Rightarrow> hub_state \<Rightarrow> (hub_error, u64) result" where
  "file_transfer_session did expected_g s =
     (case bt_get (hb_sessions s) did of
        None \<Rightarrow> Err (HubOffline did)
      | Some g \<Rightarrow> if g \<noteq> expected_g then Err (HubSessionGenerationChanged expected_g g) else Ok g)"

subsection \<open>TCP forwarding\<close>

definition validate_tcp_forward_reply_correlation ::
    "tcp_forward_request \<Rightarrow> tcp_forward_reply \<Rightarrow> (hub_error, unit) result" where
  "validate_tcp_forward_reply_correlation q r =
     (if (case (q, r) of
            (TfOpen _ cid _ _, TfrOpened cid') \<Rightarrow> cid' = cid
          | (TfExchange cid _ _ _ _, TfrExchanged cid' _ _) \<Rightarrow> cid' = cid
          | (TfClose cid, TfrClosed cid') \<Rightarrow> cid' = cid
          | (_, TfrError _) \<Rightarrow> True
          | _ \<Rightarrow> False)
      then Ok () else Err HubTcpForwardReplyMismatch)"

fun is_tf_open :: "tcp_forward_request \<Rightarrow> bool" where
  "is_tf_open (TfOpen _ _ _ _) = True"
| "is_tf_open _ = False"

text \<open>\<open>s\<close> is the state when the call starts, \<open>reply\<close> what the session's task answers, \<open>s'\<close> the state then.\<close>

definition tcp_forward_open ::
    "base64 \<Rightarrow> device_id \<Rightarrow> tcp_forward_request \<Rightarrow> hub_state \<Rightarrow> (hub_error, tcp_forward_reply) result
     \<Rightarrow> hub_state \<Rightarrow> (hub_error, u64 \<times> tcp_forward_reply) result" where
  "tcp_forward_open b did q s reply s' =
     (if \<not> is_tf_open q then Err HubInvalidTcpForwardRequestShape
      else bind_r (map_err HubTcpForward (tf_request_validate b q)) (\<lambda>_.
        bind_r (current_session did s) (\<lambda>g.
        bind_r reply (\<lambda>r.
        bind_r (validate_tcp_forward_reply_correlation q r) (\<lambda>_.
        bind_r (ensure_generation did g s') (\<lambda>_. Ok (g, r)))))))"

definition tcp_forward_on_generation ::
    "base64 \<Rightarrow> device_id \<Rightarrow> u64 \<Rightarrow> tcp_forward_request \<Rightarrow> hub_state \<Rightarrow> (hub_error, tcp_forward_reply) result
     \<Rightarrow> hub_state \<Rightarrow> (hub_error, tcp_forward_reply) result" where
  "tcp_forward_on_generation b did g q s reply s' =
     (if is_tf_open q then Err HubInvalidTcpForwardRequestShape
      else bind_r (map_err HubTcpForward (tf_request_validate b q)) (\<lambda>_.
        bind_r (session_for_generation did g s) (\<lambda>_.
        bind_r reply (\<lambda>r.
        bind_r (validate_tcp_forward_reply_correlation q r) (\<lambda>_.
        bind_r (ensure_generation did g s') (\<lambda>_. Ok r))))))"

subsection \<open>Shell tasks\<close>

definition shell_request_task_id :: "shell_task_request \<Rightarrow> task_id option" where
  "shell_request_task_id q =
     (case q of
        ShStart _ _ _ _ \<Rightarrow> None
      | ShStatus t \<Rightarrow> Some t
      | ShAttach t _ _ _ \<Rightarrow> Some t
      | ShCancel t \<Rightarrow> Some t)"

definition validate_shell_reply_correlation ::
    "shell_task_request \<Rightarrow> shell_task_reply \<Rightarrow> (hub_error, unit) result" where
  "validate_shell_reply_correlation q r =
     (if (case (q, r) of
            (ShStart _ _ _ _, ShrStarted _) \<Rightarrow> True
          | (_, ShrError _) \<Rightarrow> True
          | (ShStatus t, ShrStatus status) \<Rightarrow> sts_task_id status = t
          | (ShAttach t _ _ _, ShrOutput chunk) \<Rightarrow> sts_task_id (sto_status chunk) = t
          | (ShCancel t, ShrCancelAccepted t') \<Rightarrow> t' = t
          | _ \<Rightarrow> False)
      then Ok ()
      else (case shell_request_task_id q of
              Some t \<Rightarrow> Err (HubShellReplyTaskMismatch t)
            | None \<Rightarrow> Err HubShellReplyMismatch))"

text \<open>Starting: reserving a place, and the place given back when the reply is there.\<close>

definition shell_start_reserve ::
    "device_id \<Rightarrow> shell_task_request \<Rightarrow> u64 \<Rightarrow> hub_state \<Rightarrow> hub_state \<times> (hub_error, u64) result" where
  "shell_start_reserve did q now s =
     (case shell_request_task_id q of
        Some _ \<Rightarrow> (s, Err HubInvalidShellProjectionRequest)
      | None \<Rightarrow>
          (case sh_request_validate q of
             Inl e \<Rightarrow> (s, Err (HubShellTask e))
           | Inr _ \<Rightarrow>
               (let s1 = prune_expired_shell_projections now s in
                case bt_get (hb_sessions s1) did of
                  None \<Rightarrow> (s1, Err (HubOffline did))
                | Some g \<Rightarrow>
                    if length (hb_shell_tasks s1) + hb_pending_shell_starts s1 \<ge> MAX_REMOTE_SHELL_TASK_PROJECTIONS
                    then (s1, Err HubShellProjectionCapacity)
                    else (s1\<lparr>hb_pending_shell_starts := hb_pending_shell_starts s1 + 1\<rparr>, Ok g))))"

definition shell_start_release :: "hub_state \<Rightarrow> hub_state" where
  "shell_start_release s = s\<lparr>hb_pending_shell_starts := hb_pending_shell_starts s - 1\<rparr>"

text \<open>The host has started the task: its projection is entered.\<close>

definition shell_projection_enter ::
    "device_id \<Rightarrow> u64 \<Rightarrow> task_id \<Rightarrow> hub_state \<Rightarrow> hub_state \<times> (hub_error, unit) result" where
  "shell_projection_enter did g t s =
     (if session_live did g s
      then (if bt_get (hb_shell_tasks s) t \<noteq> None then (s, Err (HubShellTaskIdConflict t))
            else (s\<lparr>hb_shell_tasks := bt_insert t
                    \<lparr>sp_device_id = did, sp_generation = g, sp_deadline = None\<rparr> (hb_shell_tasks s)\<rparr>, Ok ()))
      else (s, Err (HubOffline did)))"

definition shell_projection_remove :: "task_id \<Rightarrow> hub_state \<Rightarrow> hub_state" where
  "shell_projection_remove t s = s\<lparr>hb_shell_tasks := bt_remove t (hb_shell_tasks s)\<rparr>"

text \<open>A start that did not complete drops its projection, if it is still the device's.\<close>

definition shell_start_abandon :: "device_id \<Rightarrow> task_id \<Rightarrow> hub_state \<Rightarrow> hub_state" where
  "shell_start_abandon did t s =
     (case bt_get (hb_shell_tasks s) t of
        Some p \<Rightarrow> if sp_device_id p = did then shell_projection_remove t s else s
      | None \<Rightarrow> s)"

definition shell_start_completion ::
    "device_id \<Rightarrow> task_id \<Rightarrow> (hub_error, device_id \<times> shell_task_reply) result
     \<Rightarrow> (hub_error, shell_task_reply) result" where
  "shell_start_completion did t status =
     (case status of
        Inr (did', ShrStatus st) \<Rightarrow> if did' = did then Ok (ShrStarted t) else Err HubShellReplyMismatch
      | Inr (_, ShrError e) \<Rightarrow> Ok (ShrError e)
      | Inr _ \<Rightarrow> Err HubShellReplyMismatch
      | Inl e \<Rightarrow> Err e)"

text \<open>
  One call of \<^verbatim>\<open>shell_start\<close>, cut where other tasks can come between: the reserved place, the
  reply for which it is given back, the projection, the check of the task and the end. \<open>sc_reply\<close> is
  what the session's task answers, \<open>sc_status\<close> what the check of the new task gives, \<open>sc_delivered\<close>
  whether the caller still waits.
\<close>

datatype shell_start_phase =
    StartIdle
  | StartReserved u64
  | StartAnswered u64
  | StartEntered task_id "(hub_error, unit) result"
  | StartEnded "(hub_error, shell_task_reply) result"

record shell_start_call =
  sc_device :: device_id
  sc_request :: shell_task_request
  sc_now :: u64
  sc_reply :: "(hub_error, shell_task_reply) result"
  sc_status :: "(hub_error, device_id \<times> shell_task_reply) result"
  sc_delivered :: bool

fun shell_start_step :: "shell_start_call \<Rightarrow> hub_state \<times> shell_start_phase \<Rightarrow> hub_state \<times> shell_start_phase" where
  "shell_start_step c (s, StartIdle) =
     (case shell_start_reserve (sc_device c) (sc_request c) (sc_now c) s of
        (s', Inl e) \<Rightarrow> (s', StartEnded (Err e))
      | (s', Inr g) \<Rightarrow> (s', StartReserved g))"
| "shell_start_step c (s, StartReserved g) = (shell_start_release s, StartAnswered g)"
| "shell_start_step c (s, StartAnswered g) =
     (case sc_reply c of
        Inr (ShrStarted t) \<Rightarrow>
          (case shell_projection_enter (sc_device c) g t s of (s', entered) \<Rightarrow> (s', StartEntered t entered))
      | Inr (ShrError e) \<Rightarrow> (s, StartEnded (Ok (ShrError e)))
      | Inr _ \<Rightarrow> (s, StartEnded (Err HubShellReplyMismatch))
      | Inl e \<Rightarrow> (s, StartEnded (Err e)))"
| "shell_start_step c (s, StartEntered t entered) =
     (let completion = bind_r entered (\<lambda>_. shell_start_completion (sc_device c) t (sc_status c)) in
      (if (case completion of Inr (ShrStarted _) \<Rightarrow> sc_delivered c | _ \<Rightarrow> False) then s
       else shell_start_abandon (sc_device c) t s,
       StartEnded completion))"
| "shell_start_step c (s, StartEnded r) = (s, StartEnded r)"

text \<open>Several calls at once: the next step of the call with the given number.\<close>

definition starts_step ::
    "shell_start_call list \<Rightarrow> nat \<Rightarrow> hub_state \<times> shell_start_phase list \<Rightarrow> hub_state \<times> shell_start_phase list" where
  "starts_step calls i w =
     (case w of (s, phases) \<Rightarrow>
        if i < length calls \<and> i < length phases
        then (case shell_start_step (calls ! i) (s, phases ! i) of (s', p) \<Rightarrow> (s', phases[i := p]))
        else w)"

definition starts_run ::
    "shell_start_call list \<Rightarrow> nat list \<Rightarrow> hub_state \<times> shell_start_phase list \<Rightarrow> hub_state \<times> shell_start_phase list" where
  "starts_run calls order w = foldl (\<lambda>w i. starts_step calls i w) w order"

definition shell_task_device :: "task_id \<Rightarrow> u64 \<Rightarrow> hub_state \<Rightarrow> hub_state \<times> (hub_error, device_id) result" where
  "shell_task_device t now s =
     (let s1 = prune_expired_shell_projections now s in
      (s1, map_err (\<lambda>_. HubUnknownShellTask t) (ok_or (map_option sp_device_id (bt_get (hb_shell_tasks s1) t)) ())))"

text \<open>A follow-up: its projection, then the session, then proof that a new session's host still has the
  task, then the reply.\<close>

definition shell_task_lookup ::
    "shell_task_request \<Rightarrow> u64 \<Rightarrow> hub_state \<Rightarrow> hub_state \<times> (hub_error, task_id \<times> shell_projection) result" where
  "shell_task_lookup q now s =
     (case bind_r (map_err HubShellTask (sh_request_validate q)) (\<lambda>_.
             ok_or (shell_request_task_id q) HubInvalidShellProjectionRequest) of
        Inl e \<Rightarrow> (s, Err e)
      | Inr t \<Rightarrow>
          (let s1 = prune_expired_shell_projections now s in
           (s1, ok_or (map_option (\<lambda>p. (t, p)) (bt_get (hb_shell_tasks s1) t)) (HubUnknownShellTask t))))"

text \<open>\<open>found\<close> is the session the wait yielded; \<open>None\<close> is its timeout, possible only with a deadline.\<close>

definition shell_task_session ::
    "task_id \<Rightarrow> shell_projection \<Rightarrow> u64 \<Rightarrow> u64 option \<Rightarrow> hub_state \<Rightarrow> hub_state \<times> (hub_error, u64) result" where
  "shell_task_session t p now found s =
     (case sp_deadline p of
        Some deadline \<Rightarrow>
          if now > deadline then (shell_projection_remove t s, Err (HubUnknownShellTask t))
          else (case found of
                  Some g \<Rightarrow> (s, Ok g)
                | None \<Rightarrow> (shell_projection_remove t s, Err (HubUnknownShellTask t)))
      | None \<Rightarrow> (s, ok_or found (HubOffline (sp_device_id p))))"

definition is_not_found :: "shell_task_reply \<Rightarrow> bool" where
  "is_not_found r = (case r of ShrError e \<Rightarrow> she_code e = ShcNotFound | _ \<Rightarrow> False)"

text \<open>\<open>Ok None\<close> is to go on and send the request.\<close>

definition shell_task_reattach ::
    "shell_task_request \<Rightarrow> device_id \<Rightarrow> u64 \<Rightarrow> task_id \<Rightarrow> (hub_error, shell_task_reply) result \<Rightarrow> hub_state
     \<Rightarrow> hub_state \<times> (hub_error, shell_task_reply option) result" where
  "shell_task_reattach q did g t evidence s =
     (case bind_r evidence (\<lambda>r.
             bind_r (validate_shell_reply_correlation (ShStatus t) r) (\<lambda>_. Ok r)) of
        Inl e \<Rightarrow> (s, Err e)
      | Inr r \<Rightarrow>
          (case r of
             ShrStatus _ \<Rightarrow>
               if session_live did g s
                  \<and> (case bt_get (hb_shell_tasks s) t of None \<Rightarrow> False | Some p \<Rightarrow> sp_device_id p = did)
               then (s\<lparr>hb_shell_tasks := bt_insert t
                        \<lparr>sp_device_id = did, sp_generation = g, sp_deadline = None\<rparr> (hb_shell_tasks s)\<rparr>,
                     Ok (case q of ShStatus _ \<Rightarrow> Some r | _ \<Rightarrow> None))
               else (s, Err (HubOffline did))
           | ShrError _ \<Rightarrow> (if is_not_found r then shell_projection_remove t s else s, Ok (Some r))
           | _ \<Rightarrow> (s, Err HubShellReplyMismatch)))"

definition shell_task_finish ::
    "shell_task_request \<Rightarrow> device_id \<Rightarrow> u64 \<Rightarrow> task_id \<Rightarrow> u64 \<Rightarrow> (hub_error, shell_task_reply) result \<Rightarrow> hub_state
     \<Rightarrow> hub_state \<times> (hub_error, device_id \<times> shell_task_reply) result" where
  "shell_task_finish q did g t now reply s =
     (case bind_r reply (\<lambda>r. bind_r (validate_shell_reply_correlation q r) (\<lambda>_. Ok r)) of
        Inl e \<Rightarrow> (s, Err e)
      | Inr r \<Rightarrow>
          if \<not> session_live did g s
          then (mark_shell_projections_detached did g now s, Err (HubOffline did))
          else (if is_not_found r then shell_projection_remove t s else s, Ok (did, r)))"

text \<open>
  The whole call. What the other tasks do to the hub while it waits for a session, for the proof and
  for the reply are the functions \<open>w1\<close>, \<open>w2\<close> and \<open>w3\<close>, the session found is the one they leave.
\<close>

definition shell_task ::
    "shell_task_request \<Rightarrow> u64 \<Rightarrow> u64 \<Rightarrow> (hub_state \<Rightarrow> hub_state) \<Rightarrow> (hub_state \<Rightarrow> hub_state)
     \<Rightarrow> (hub_state \<Rightarrow> hub_state) \<Rightarrow> (hub_error, shell_task_reply) result \<Rightarrow> (hub_error, shell_task_reply) result
     \<Rightarrow> hub_state \<Rightarrow> hub_state \<times> (hub_error, device_id \<times> shell_task_reply) result" where
  "shell_task q now now' w1 w2 w3 evidence reply s =
     (case shell_task_lookup q now s of
        (s1, Inl e) \<Rightarrow> (s1, Err e)
      | (s1, Inr (t, p)) \<Rightarrow>
          (let did = sp_device_id p; s2 = w1 s1 in
           case shell_task_session t p now (replay_look did None s2) s2 of
             (s3, Inl e) \<Rightarrow> (s3, Err e)
           | (s3, Inr g) \<Rightarrow>
               if g \<noteq> sp_generation p
               then (case shell_task_reattach q did g t evidence (w2 s3) of
                       (s4, Inl e) \<Rightarrow> (s4, Err e)
                     | (s4, Inr (Some r)) \<Rightarrow> (s4, Ok (did, r))
                     | (s4, Inr None) \<Rightarrow> shell_task_finish q did g t now' reply (w3 s4))
               else shell_task_finish q did g t now' reply (w3 s3)))"

subsection \<open>A member's session\<close>

text \<open>
  The start of a session (\<^verbatim>\<open>handle_member\<close>): it is registered, its registration is confirmed by a
  ping, and only then does it serve requests. What the other tasks do to the hub while the ping is
  out is the function \<open>w\<close>; \<open>pong\<close> says that the right answer came, \<open>pong_time\<close> and \<open>end_time\<close> are
  the clock when it came and when the session is taken back.
\<close>

datatype member_error = MemberHub hub_error | MemberProbeFailed | MemberClock

definition member_open ::
    "device_id \<Rightarrow> session_topology \<Rightarrow> path_state \<Rightarrow> u64 \<Rightarrow> (hub_state \<Rightarrow> hub_state) \<Rightarrow> bool \<Rightarrow> u64 option
     \<Rightarrow> u64 option \<Rightarrow> hub_state \<Rightarrow> hub_state \<times> (member_error, u64 \<times> u64) result" where
  "member_open did topology path connected w pong pong_time end_time s =
     (case hub_register did topology path connected s of
        (s1, Inl e) \<Rightarrow> (s1, Err (MemberHub e))
      | (s1, Inr (g, _)) \<Rightarrow>
          (let s2 = w s1 in
           if pong
           then (case pong_time of
                   None \<Rightarrow> (s2, Err MemberClock)
                 | Some t \<Rightarrow>
                     (case observe_peer_activity connected t of
                        Inl e \<Rightarrow> (s2, Err (MemberHub e))
                      | Inr seen \<Rightarrow> (s2, Ok (g, seen))))
           else (hub_unregister did g end_time s2, Err MemberProbeFailed)))"

subsection \<open>Interleavings\<close>

datatype hub_event =
    HeRegister device_id session_topology path_state u64
  | HeUnregister device_id u64 "u64 option"
  | HeDisconnect device_id "u64 option"
  | HePath device_id u64 path_state u64
  | HeStartReserve device_id shell_task_request u64
  | HeStartRelease
  | HeStartEnter device_id u64 task_id
  | HeStartAbandon device_id task_id
  | HeTaskDevice task_id u64
  | HeTaskLookup shell_task_request u64
  | HeTaskSession task_id shell_projection u64 "u64 option"
  | HeTaskReattach shell_task_request device_id u64 task_id "(hub_error, shell_task_reply) result"
  | HeTaskFinish shell_task_request device_id u64 task_id u64 "(hub_error, shell_task_reply) result"

fun hub_step :: "hub_state \<Rightarrow> hub_event \<Rightarrow> hub_state" where
  "hub_step s (HeRegister did topology path t) = fst (hub_register did topology path t s)"
| "hub_step s (HeUnregister did g t) = hub_unregister did g t s"
| "hub_step s (HeDisconnect did t) = fst (hub_disconnect did t s)"
| "hub_step s (HePath did g path t) = update_path did g path t s"
| "hub_step s (HeStartReserve did q t) = fst (shell_start_reserve did q t s)"
| "hub_step s HeStartRelease = shell_start_release s"
| "hub_step s (HeStartEnter did g t) = fst (shell_projection_enter did g t s)"
| "hub_step s (HeStartAbandon did t) = shell_start_abandon did t s"
| "hub_step s (HeTaskDevice t now) = fst (shell_task_device t now s)"
| "hub_step s (HeTaskLookup q now) = fst (shell_task_lookup q now s)"
| "hub_step s (HeTaskSession t p now found) = fst (shell_task_session t p now found s)"
| "hub_step s (HeTaskReattach q did g t r) = fst (shell_task_reattach q did g t r s)"
| "hub_step s (HeTaskFinish q did g t now r) = fst (shell_task_finish q did g t now r s)"

definition hub_run :: "hub_event list \<Rightarrow> hub_state \<Rightarrow> hub_state" where
  "hub_run evs s = foldl hub_step s evs"

subsection \<open>The invariant\<close>

lemma bt_get_filter:
  "bt_wf m \<Longrightarrow> bt_get (filter (\<lambda>(k, v). P v) m) k = (case bt_get m k of None \<Rightarrow> None | Some v \<Rightarrow> if P v then Some v else None)"
proof (induction m)
  case (Cons a m)
  obtain k' v' where a: "a = (k', v')" by (cases a)
  have wf: "bt_wf m" and lo: "k' \<notin> fst ` set m" using Cons.prems a by (auto simp: bt_wf_def)
  then have "bt_get m k' = None" by (simp add: bt_get_None)
  then show ?case using Cons.IH [OF wf] a by auto
qed simp

lemma bt_wf_filter [simp]: "bt_wf m \<Longrightarrow> bt_wf (filter P m)"
  unfolding bt_wf_def by (induction m) auto

text \<open>
  What the hub keeps: its sessions have distinct generations no larger than the counter, the
  recorded information says Connected exactly for the live generation, and a projection with no
  deadline belongs to the live session of its device.
\<close>

definition hub_ok :: "hub_state \<Rightarrow> bool" where
  "hub_ok s \<longleftrightarrow>
     bt_wf (hb_sessions s) \<and> bt_wf (hb_session_info s) \<and> bt_wf (hb_shell_tasks s)
   \<and> (\<forall>did g. bt_get (hb_sessions s) did = Some g \<longrightarrow> g \<le> hb_next_generation s
        \<and> (\<exists>i. bt_get (hb_session_info s) did = Some i \<and> si_generation i = g))
   \<and> (\<forall>did did' g. bt_get (hb_sessions s) did = Some g \<and> bt_get (hb_sessions s) did' = Some g \<longrightarrow> did = did')
   \<and> (\<forall>did i. bt_get (hb_session_info s) did = Some i \<longrightarrow> si_device_id i = did
        \<and> (si_state i = Connected \<longleftrightarrow> bt_get (hb_sessions s) did = Some (si_generation i)))
   \<and> (\<forall>t p. bt_get (hb_shell_tasks s) t = Some p \<longrightarrow> sp_deadline p = None \<longrightarrow>
        bt_get (hb_sessions s) (sp_device_id p) = Some (sp_generation p))"

lemma hub_okI:
  assumes "bt_wf (hb_sessions s)" and "bt_wf (hb_session_info s)" and "bt_wf (hb_shell_tasks s)"
    and "\<And>did g. bt_get (hb_sessions s) did = Some g \<Longrightarrow> g \<le> hb_next_generation s
        \<and> (\<exists>i. bt_get (hb_session_info s) did = Some i \<and> si_generation i = g)"
    and "\<And>did did' g. bt_get (hb_sessions s) did = Some g \<Longrightarrow> bt_get (hb_sessions s) did' = Some g \<Longrightarrow> did = did'"
    and "\<And>did i. bt_get (hb_session_info s) did = Some i \<Longrightarrow> si_device_id i = did
        \<and> (si_state i = Connected \<longleftrightarrow> bt_get (hb_sessions s) did = Some (si_generation i))"
    and "\<And>t p. bt_get (hb_shell_tasks s) t = Some p \<Longrightarrow> sp_deadline p = None \<Longrightarrow>
        bt_get (hb_sessions s) (sp_device_id p) = Some (sp_generation p)"
  shows "hub_ok s"
  unfolding hub_ok_def using assms by blast

lemma hub_okD:
  assumes "hub_ok s"
  shows "bt_wf (hb_sessions s)" and "bt_wf (hb_session_info s)" and "bt_wf (hb_shell_tasks s)"
    and "\<And>did g. bt_get (hb_sessions s) did = Some g \<Longrightarrow> g \<le> hb_next_generation s"
    and "\<And>did g. bt_get (hb_sessions s) did = Some g \<Longrightarrow>
      \<exists>i. bt_get (hb_session_info s) did = Some i \<and> si_generation i = g"
    and "\<And>did did' g. bt_get (hb_sessions s) did = Some g \<Longrightarrow> bt_get (hb_sessions s) did' = Some g \<Longrightarrow> did = did'"
    and "\<And>did i. bt_get (hb_session_info s) did = Some i \<Longrightarrow> si_device_id i = did"
    and "\<And>did i. bt_get (hb_session_info s) did = Some i \<Longrightarrow>
      si_state i = Connected \<longleftrightarrow> bt_get (hb_sessions s) did = Some (si_generation i)"
    and "\<And>t p. bt_get (hb_shell_tasks s) t = Some p \<Longrightarrow> sp_deadline p = None \<Longrightarrow>
        bt_get (hb_sessions s) (sp_device_id p) = Some (sp_generation p)"
  using assms unfolding hub_ok_def by blast+

lemma hub_ok_default: "hub_ok hub_default"
  by (simp add: hub_ok_def hub_default_def)

text \<open>Changes of the projections alone.\<close>

lemma hub_ok_tasks:
  assumes ok: "hub_ok s" and "bt_wf m"
    and "\<And>t p. bt_get m t = Some p \<Longrightarrow> sp_deadline p = None \<Longrightarrow>
        bt_get (hb_sessions s) (sp_device_id p) = Some (sp_generation p)"
  shows "hub_ok (s\<lparr>hb_shell_tasks := m\<rparr>)"
  by (rule hub_okI) (use hub_okD [OF ok] assms(2,3) in simp_all)

lemma hub_ok_parts [simp]:
  "hub_ok (s\<lparr>hb_pending_shell_starts := n\<rparr>) = hub_ok s" "hub_ok (s\<lparr>hb_revision := r\<rparr>) = hub_ok s"
  "hub_ok (signal_session_change s) = hub_ok s" "hub_ok (shell_start_release s) = hub_ok s"
  by (simp_all add: hub_ok_def signal_session_change_def shell_start_release_def)

lemma session_live_iff: "session_live did g s \<longleftrightarrow> bt_get (hb_sessions s) did = Some g"
  by (auto simp: session_live_def split: option.splits)

lemma hub_prune_get:
  assumes "hub_ok s"
  shows "bt_get (hb_shell_tasks (prune_expired_shell_projections now s)) t =
     (case bt_get (hb_shell_tasks s) t of
        None \<Rightarrow> None
      | Some p \<Rightarrow> if (case sp_deadline p of None \<Rightarrow> True | Some d \<Rightarrow> now \<le> d) then Some p else None)"
  using bt_get_filter [OF hub_okD(3) [OF assms], of "\<lambda>p. case sp_deadline p of None \<Rightarrow> True | Some d \<Rightarrow> now \<le> d"]
  by (simp add: prune_expired_shell_projections_def)

lemma hub_prune_ok: 
  assumes ok: "hub_ok s"
  shows "hub_ok (prune_expired_shell_projections now s)"
  unfolding prune_expired_shell_projections_def
proof (rule hub_ok_tasks [OF ok])
  fix t p
  assume "bt_get (filter (\<lambda>(_, p). case sp_deadline p of None \<Rightarrow> True | Some d \<Rightarrow> now \<le> d) (hb_shell_tasks s)) t = Some p"
    and d: "sp_deadline p = None"
  then have "bt_get (hb_shell_tasks s) t = Some p"
    using bt_get_filter [OF hub_okD(3) [OF ok], of "\<lambda>p. case sp_deadline p of None \<Rightarrow> True | Some d \<Rightarrow> now \<le> d" t]
    by (auto split: option.splits if_splits)
  from hub_okD(9) [OF ok this d] show "bt_get (hb_sessions s) (sp_device_id p) = Some (sp_generation p)" .
qed (use hub_okD(3) [OF ok] in simp)

lemma hub_remove_ok: "hub_ok s \<Longrightarrow> hub_ok (shell_projection_remove t s)"
  unfolding shell_projection_remove_def
  by (rule hub_ok_tasks) (use hub_okD in \<open>auto split: if_splits\<close>)

lemma hub_mark_ok:
  assumes ok: "hub_ok s"
  shows "hub_ok (mark_shell_projections_detached did g t s)"
  unfolding mark_shell_projections_detached_def Let_def
  by (rule hub_ok_tasks [OF ok]) (use hub_okD(3,9) [OF ok] in \<open>auto split: if_splits\<close>)

lemma hub_enter_ok:
  assumes ok: "hub_ok s" and "bt_get (hb_sessions s) did = Some g"
  shows "hub_ok (s\<lparr>hb_shell_tasks := bt_insert t
      \<lparr>sp_device_id = did, sp_generation = g, sp_deadline = None\<rparr> (hb_shell_tasks s)\<rparr>)"
  by (rule hub_ok_tasks [OF ok]) (use hub_okD(3,9) [OF ok] assms(2) in \<open>auto split: if_splits\<close>)

text \<open>Registering: a larger generation than any before, and the session replaced is over.\<close>

lemma mark_fields [simp]:
  "hb_sessions (mark_shell_projections_detached did g t s) = hb_sessions s"
  "hb_session_info (mark_shell_projections_detached did g t s) = hb_session_info s"
  "hb_next_generation (mark_shell_projections_detached did g t s) = hb_next_generation s"
  by (simp_all add: mark_shell_projections_detached_def Let_def)

lemma prune_fields [simp]:
  "hb_sessions (prune_expired_shell_projections now s) = hb_sessions s"
  "hb_session_info (prune_expired_shell_projections now s) = hb_session_info s"
  "hb_next_generation (prune_expired_shell_projections now s) = hb_next_generation s"
  by (simp_all add: prune_expired_shell_projections_def)

lemma signal_fields [simp]:
  "hb_sessions (signal_session_change s) = hb_sessions s"
  "hb_session_info (signal_session_change s) = hb_session_info s"
  "hb_next_generation (signal_session_change s) = hb_next_generation s"
  "hb_shell_tasks (signal_session_change s) = hb_shell_tasks s"
  by (simp_all add: signal_session_change_def)

lemma mark_get:
  "bt_get (hb_shell_tasks (mark_shell_projections_detached did g t s)) k =
     map_option (\<lambda>p. if sp_device_id p = did \<and> sp_generation p = g
       then p\<lparr>sp_deadline := Some (saturating_add t SHELL_RECONNECT_GRACE_MS)\<rparr> else p)
       (bt_get (hb_shell_tasks s) k)"
  by (simp add: mark_shell_projections_detached_def Let_def)

lemma mark_get_undetached:
  assumes "bt_get (hb_shell_tasks (mark_shell_projections_detached did g t s)) k = Some p" and "sp_deadline p = None"
  shows "bt_get (hb_shell_tasks s) k = Some p \<and> \<not> (sp_device_id p = did \<and> sp_generation p = g)"
proof -
  obtain p0 where p0: "bt_get (hb_shell_tasks s) k = Some p0" using assms(1) by (auto simp: mark_get)
  then have "\<not> (sp_device_id p0 = did \<and> sp_generation p0 = g)" using assms by (auto simp: mark_get)
  then show ?thesis using assms p0 by (auto simp: mark_get)
qed

lemma checked_inc: "checked_add n (1 :: u64) = Some g \<Longrightarrow> n < g \<and> unat g = unat n + 1"
  using checked_add_Some [of n 1 g] by (simp add: word_less_nat_alt)

lemma register_fields:
  assumes "hub_register did topo path t s = (s', Ok (g, old))"
  shows "checked_add (hb_next_generation s) 1 = Some g" and "hb_next_generation s' = g"
    and "old = bt_get (hb_sessions s) did" and "hb_sessions s' = bt_insert did g (hb_sessions s)"
    and "hb_session_info s' = bt_insert did
                 \<lparr>si_device_id = did, si_generation = g, si_state = Connected, si_topology = topo,
                  si_path = path, si_connected = t, si_last_transition = t,
                  si_last_path_change = t\<rparr> (hb_session_info s)"
    and "hb_shell_tasks s' = (case old of
        None \<Rightarrow> hb_shell_tasks (prune_expired_shell_projections t s)
      | Some o' \<Rightarrow> hb_shell_tasks (mark_shell_projections_detached did o' t (prune_expired_shell_projections t s)))"
  using assms
  by (auto simp: hub_register_def Let_def prune_expired_shell_projections_def mark_shell_projections_detached_def
      split: option.splits)

lemma hub_register_ok:
  assumes ok: "hub_ok s" and r: "hub_register did topo path t s = (s', Ok (g, old))"
  shows "hub_ok s'"
proof (rule hub_okI)
  note f = register_fields [OF r]
  note D = hub_okD [OF ok]
  have g: "hb_next_generation s < g" using checked_inc [OF f(1)] by simp
  have new: "bt_get (hb_sessions s) d \<noteq> Some g" for d using D(4) [of d g] g by auto
  have pr: "hub_ok (prune_expired_shell_projections t s)" using hub_prune_ok [OF ok] .
  show "bt_wf (hb_sessions s')" "bt_wf (hb_session_info s')" using D(1,2) f(4,5) by simp_all
  show "bt_wf (hb_shell_tasks s')"
    using hub_okD(3) [OF pr] hub_okD(3) [OF hub_mark_ok [OF pr]] f(6) by (auto split: option.split)
  fix d h
  show "h \<le> hb_next_generation s' \<and> (\<exists>i. bt_get (hb_session_info s') d = Some i \<and> si_generation i = h)"
    if "bt_get (hb_sessions s') d = Some h"
    using that f(2,4,5) D(4) [of d h] D(5) [of d h] g by (auto split: if_splits)
  show "d = d'" if "bt_get (hb_sessions s') d = Some h" "bt_get (hb_sessions s') d' = Some h" for d'
    using that f(4) D(6) [of d h d'] new by (auto split: if_splits)
next
  note f = register_fields [OF r]
  note D = hub_okD [OF ok]
  fix d i assume i: "bt_get (hb_session_info s') d = Some i"
  show "si_device_id i = d \<and> (si_state i = Connected \<longleftrightarrow> bt_get (hb_sessions s') d = Some (si_generation i))"
    using i f(4,5) D(7,8) [of d i] by (auto split: if_splits)
next
  note f = register_fields [OF r]
  fix k p assume k: "bt_get (hb_shell_tasks s') k = Some p" and none: "sp_deadline p = None"
  have pr: "hub_ok (prune_expired_shell_projections t s)" using hub_prune_ok [OF ok] .
  have p: "bt_get (hb_shell_tasks (prune_expired_shell_projections t s)) k = Some p
      \<and> (\<forall>o'. old = Some o' \<longrightarrow> \<not> (sp_device_id p = did \<and> sp_generation p = o'))"
  proof (cases old)
    case None
    then show ?thesis using k f(6) by simp
  next
    case (Some o')
    then have "bt_get (hb_shell_tasks (mark_shell_projections_detached did o' t (prune_expired_shell_projections t s))) k
        = Some p"
      using k f(6) by simp
    from mark_get_undetached [OF this none] show ?thesis using Some by simp
  qed
  have cur: "bt_get (hb_sessions s) (sp_device_id p) = Some (sp_generation p)"
    using hub_okD(9) [OF pr conjunct1 [OF p] none] by simp
  have "sp_device_id p \<noteq> did" using cur p f(3) by auto
  then show "bt_get (hb_sessions s') (sp_device_id p) = Some (sp_generation p)" using cur f(4) by simp
qed

lemma end_session_fields:
  "hb_sessions (end_session did g t s) = bt_remove did (hb_sessions s)"
  "hb_next_generation (end_session did g t s) = hb_next_generation s"
  "hb_shell_tasks (end_session did g t s) = hb_shell_tasks
     (mark_shell_projections_detached did g (case t of None \<Rightarrow> 0 | Some x \<Rightarrow> x) s)"
  "bt_get (hb_session_info (end_session did g t s)) d =
     map_option (\<lambda>i. if d = did \<and> si_generation i = g
       then i\<lparr>si_state := Disconnected, si_last_transition := (case t of None \<Rightarrow> si_last_transition i | Some x \<Rightarrow> x)\<rparr>
       else i) (bt_get (hb_session_info s) d)"
  by (auto simp: end_session_def Let_def mark_shell_projections_detached_def option.map_ident)

lemma end_session_wf: "bt_wf (hb_session_info s) \<Longrightarrow> bt_wf (hb_session_info (end_session did g t s))"
  by (simp add: end_session_def Let_def)

lemma hub_end_session_ok:
  assumes ok: "hub_ok s" and live: "bt_get (hb_sessions s) did = Some g"
  shows "hub_ok (end_session did g t s)"
proof (rule hub_okI)
  note D = hub_okD [OF ok]
  note f = end_session_fields
  show "bt_wf (hb_sessions (end_session did g t s))" using D(1) by (simp add: f)
  show "bt_wf (hb_session_info (end_session did g t s))" using D(2) by (rule end_session_wf)
  show "bt_wf (hb_shell_tasks (end_session did g t s))"
    using hub_okD(3) [OF hub_mark_ok [OF ok]] by (simp add: f)
  fix d h
  show "h \<le> hb_next_generation (end_session did g t s)
      \<and> (\<exists>i. bt_get (hb_session_info (end_session did g t s)) d = Some i \<and> si_generation i = h)"
    if "bt_get (hb_sessions (end_session did g t s)) d = Some h"
    using that D(4) [of d h] D(5) [of d h] by (auto simp: f split: if_splits)
  show "d = d'" if "bt_get (hb_sessions (end_session did g t s)) d = Some h"
    "bt_get (hb_sessions (end_session did g t s)) d' = Some h" for d'
    using that D(6) [of d h d'] by (auto simp: f split: if_splits)
next
  note D = hub_okD [OF ok]
  fix d i assume i: "bt_get (hb_session_info (end_session did g t s)) d = Some i"
  obtain i0 where i0: "bt_get (hb_session_info s) d = Some i0" using i by (auto simp: end_session_fields)
  show "si_device_id i = d \<and> (si_state i = Connected
      \<longleftrightarrow> bt_get (hb_sessions (end_session did g t s)) d = Some (si_generation i))"
    using i D(7,8) [OF i0] i0 live by (auto simp: end_session_fields split: if_splits)
next
  fix k p assume k: "bt_get (hb_shell_tasks (end_session did g t s)) k = Some p" and none: "sp_deadline p = None"
  have p: "bt_get (hb_shell_tasks s) k = Some p \<and> \<not> (sp_device_id p = did \<and> sp_generation p = g)"
    by (rule mark_get_undetached [OF k [unfolded end_session_fields] none])
  have cur: "bt_get (hb_sessions s) (sp_device_id p) = Some (sp_generation p)"
    using hub_okD(9) [OF ok conjunct1 [OF p] none] .
  then show "bt_get (hb_sessions (end_session did g t s)) (sp_device_id p) = Some (sp_generation p)"
    using p live by (auto simp: end_session_fields)
qed

lemma hub_update_path_ok:
  assumes ok: "hub_ok s"
  shows "hub_ok (update_path did g path t s)"
proof (cases "\<exists>info. bt_get (hb_session_info s) did = Some info \<and> session_live did g s
    \<and> si_generation info = g \<and> si_path info \<noteq> path")
  case True
  then have u: "update_path did g path t s = s\<lparr>hb_session_info := bt_update did
      (\<lambda>i. i\<lparr>si_path := path, si_last_path_change := t\<rparr>) (hb_session_info s)\<rparr>"
    by (auto simp: update_path_def)
  note D = hub_okD [OF ok]
  show ?thesis unfolding u
  proof (rule hub_okI)
    fix d h
    show "h \<le> hb_next_generation (s\<lparr>hb_session_info := bt_update did
          (\<lambda>i. i\<lparr>si_path := path, si_last_path_change := t\<rparr>) (hb_session_info s)\<rparr>)
        \<and> (\<exists>i. bt_get (hb_session_info (s\<lparr>hb_session_info := bt_update did
          (\<lambda>i. i\<lparr>si_path := path, si_last_path_change := t\<rparr>) (hb_session_info s)\<rparr>)) d = Some i \<and> si_generation i = h)"
      if "bt_get (hb_sessions (s\<lparr>hb_session_info := bt_update did
          (\<lambda>i. i\<lparr>si_path := path, si_last_path_change := t\<rparr>) (hb_session_info s)\<rparr>)) d = Some h"
      using that D(4) [of d h] D(5) [of d h] by auto
  next
    fix d i
    assume "bt_get (hb_session_info (s\<lparr>hb_session_info := bt_update did
          (\<lambda>i. i\<lparr>si_path := path, si_last_path_change := t\<rparr>) (hb_session_info s)\<rparr>)) d = Some i"
    then obtain i0 where "bt_get (hb_session_info s) d = Some i0" "si_device_id i = si_device_id i0"
      "si_generation i = si_generation i0" "si_state i = si_state i0"
      by (auto split: if_splits)
    then show "si_device_id i = d \<and> (si_state i = Connected \<longleftrightarrow> bt_get (hb_sessions (s\<lparr>hb_session_info := bt_update did
          (\<lambda>i. i\<lparr>si_path := path, si_last_path_change := t\<rparr>) (hb_session_info s)\<rparr>)) d = Some (si_generation i))"
      using D(7,8) by simp
  qed (use D in simp_all)
next
  case False
  then have "update_path did g path t s = s" by (auto simp: update_path_def split: option.splits)
  then show ?thesis using ok by simp
qed

lemma reserve_cases:
  "fst (shell_start_reserve did q now s) = s
   \<or> fst (shell_start_reserve did q now s) = prune_expired_shell_projections now s
   \<or> fst (shell_start_reserve did q now s) = (prune_expired_shell_projections now s)\<lparr>hb_pending_shell_starts :=
        hb_pending_shell_starts (prune_expired_shell_projections now s) + 1\<rparr>"
  by (simp add: shell_start_reserve_def Let_def split: option.split sum.split)

lemma lookup_cases:
  "fst (shell_task_lookup q now s) = s \<or> fst (shell_task_lookup q now s) = prune_expired_shell_projections now s"
  by (simp add: shell_task_lookup_def Let_def split: sum.split)

lemma session_cases:
  "fst (shell_task_session t p now found s) = s \<or> fst (shell_task_session t p now found s) = shell_projection_remove t s"
  by (simp add: shell_task_session_def split: option.split)

lemma reattach_cases:
  "fst (shell_task_reattach q did g t r s) = s
   \<or> fst (shell_task_reattach q did g t r s) = shell_projection_remove t s
   \<or> (bt_get (hb_sessions s) did = Some g
      \<and> (\<exists>p. bt_get (hb_shell_tasks s) t = Some p \<and> sp_device_id p = did)
      \<and> fst (shell_task_reattach q did g t r s) = s\<lparr>hb_shell_tasks := bt_insert t
          \<lparr>sp_device_id = did, sp_generation = g, sp_deadline = None\<rparr> (hb_shell_tasks s)\<rparr>)"
  by (simp add: shell_task_reattach_def session_live_iff split: sum.split shell_task_reply.split option.split)

lemma finish_cases:
  "fst (shell_task_finish q did g t now r s) = s
   \<or> fst (shell_task_finish q did g t now r s) = shell_projection_remove t s
   \<or> fst (shell_task_finish q did g t now r s) = mark_shell_projections_detached did g now s"
  by (simp add: shell_task_finish_def split: sum.split)

lemma enter_cases:
  "fst (shell_projection_enter did g t s) = s
   \<or> (bt_get (hb_sessions s) did = Some g \<and> fst (shell_projection_enter did g t s) = s\<lparr>hb_shell_tasks := bt_insert t
          \<lparr>sp_device_id = did, sp_generation = g, sp_deadline = None\<rparr> (hb_shell_tasks s)\<rparr>)"
  by (simp add: shell_projection_enter_def session_live_iff)

lemma abandon_cases:
  "shell_start_abandon did t s = s \<or> shell_start_abandon did t s = shell_projection_remove t s"
  by (simp add: shell_start_abandon_def split: option.split)

lemma register_cases:
  "fst (hub_register did topo path t s) = s \<or> (\<exists>g old. hub_register did topo path t s
     = (fst (hub_register did topo path t s), Ok (g, old)))"
  by (simp add: hub_register_def Let_def split: option.split)

lemma disconnect_cases:
  "fst (hub_disconnect did t s) = s
   \<or> (\<exists>g. bt_get (hb_sessions s) did = Some g \<and> fst (hub_disconnect did t s) = end_session did g t s)"
  by (simp add: hub_disconnect_def split: option.split)

lemma unregister_cases:
  "hub_unregister did g t s = s
   \<or> (bt_get (hb_sessions s) did = Some g \<and> hub_unregister did g t s = end_session did g t s)"
  by (simp add: hub_unregister_def session_live_iff)

lemma hub_step_ok: 
  assumes ok: "hub_ok s"
  shows "hub_ok (hub_step s ev)"
proof (cases ev)
  case (HeRegister did topo path t)
  then show ?thesis using register_cases [of did topo path t s] hub_register_ok [OF ok] ok by auto
next
  case (HeUnregister did g t)
  then show ?thesis using unregister_cases [of did g t s] hub_end_session_ok [OF ok] ok by auto
next
  case (HeDisconnect did t)
  then show ?thesis using disconnect_cases [of did t s] hub_end_session_ok [OF ok] ok by auto
next
  case (HePath did g path t)
  then show ?thesis using hub_update_path_ok [OF ok] by simp
next
  case (HeStartReserve did q t)
  then show ?thesis using reserve_cases [of did q t s] hub_prune_ok [OF ok] ok by auto
next
  case HeStartRelease
  then show ?thesis using ok by simp
next
  case (HeStartEnter did g t)
  then show ?thesis using enter_cases [of did g t s] hub_enter_ok [OF ok] ok by auto
next
  case (HeStartAbandon did t)
  then show ?thesis using abandon_cases [of did t s] hub_remove_ok [OF ok] ok by auto
next
  case (HeTaskDevice t now)
  then show ?thesis using hub_prune_ok [OF ok] by (simp add: shell_task_device_def Let_def)
next
  case (HeTaskLookup q now)
  then show ?thesis using lookup_cases [of q now s] hub_prune_ok [OF ok] ok by auto
next
  case (HeTaskSession t p now found)
  then show ?thesis using session_cases [of t p now found s] hub_remove_ok [OF ok] ok by auto
next
  case (HeTaskReattach q did g t r)
  then show ?thesis using reattach_cases [of q did g t r s] hub_remove_ok [OF ok] hub_enter_ok [OF ok] ok by auto
next
  case (HeTaskFinish q did g t now r)
  then show ?thesis using finish_cases [of q did g t now r s] hub_remove_ok [OF ok] hub_mark_ok [OF ok] ok by auto
qed

lemma hub_run_ok: "hub_ok s \<Longrightarrow> hub_ok (hub_run evs s)"
  unfolding hub_run_def by (induction evs arbitrary: s) (simp_all add: hub_step_ok)

text \<open>A generation that is not live and not in the future never becomes live.\<close>

lemma remove_fields [simp]:
  "hb_sessions (shell_projection_remove t s) = hb_sessions s"
  "hb_next_generation (shell_projection_remove t s) = hb_next_generation s"
  by (simp_all add: shell_projection_remove_def)

lemma update_path_fields [simp]:
  "hb_sessions (update_path did g path t s) = hb_sessions s"
  "hb_next_generation (update_path did g path t s) = hb_next_generation s"
  by (simp_all add: update_path_def split: option.split)

lemma step_sessions:
  "(hb_sessions (hub_step s ev) = hb_sessions s \<and> hb_next_generation (hub_step s ev) = hb_next_generation s)
   \<or> (\<exists>did. hb_sessions (hub_step s ev) = bt_remove did (hb_sessions s)
        \<and> hb_next_generation (hub_step s ev) = hb_next_generation s)
   \<or> (\<exists>did g. hb_sessions (hub_step s ev) = bt_insert did g (hb_sessions s)
        \<and> hb_next_generation s < g \<and> hb_next_generation (hub_step s ev) = g)"
proof (cases ev)
  case (HeRegister did topo path t)
  show ?thesis
  proof (cases "fst (hub_register did topo path t s) = s")
    case False
    then obtain g old where "hub_register did topo path t s = (fst (hub_register did topo path t s), Ok (g, old))"
      using register_cases [of did topo path t s] by auto
    note f = register_fields [OF this]
    then show ?thesis using checked_inc [OF f(1)] HeRegister by auto
  qed (use HeRegister in simp)
next
  case (HeUnregister did g t)
  then show ?thesis using unregister_cases [of did g t s] by (auto simp: end_session_fields)
next
  case (HeDisconnect did t)
  then show ?thesis using disconnect_cases [of did t s] by (auto simp: end_session_fields)
next
  case (HeStartReserve did q t)
  then show ?thesis using reserve_cases [of did q t s] by auto
next
  case HeStartRelease
  then show ?thesis by (simp add: shell_start_release_def)
next
  case (HeStartEnter did g t)
  then show ?thesis using enter_cases [of did g t s] by auto
next
  case (HeStartAbandon did t)
  then show ?thesis using abandon_cases [of did t s] by auto
next
  case (HeTaskDevice t now)
  then show ?thesis by (simp add: shell_task_device_def Let_def)
next
  case (HeTaskLookup q now)
  then show ?thesis using lookup_cases [of q now s] by auto
next
  case (HeTaskSession t p now found)
  then show ?thesis using session_cases [of t p now found s] by auto
next
  case (HeTaskReattach q did g t r)
  then show ?thesis using reattach_cases [of q did g t r s] by auto
next
  case (HeTaskFinish q did g t now r)
  then show ?thesis using finish_cases [of q did g t now r s] by auto
qed simp

lemma step_live:
  "session_live did g (hub_step s ev) \<Longrightarrow> session_live did g s \<or> hb_next_generation s < g"
  using step_sessions [of s ev] by (auto simp: session_live_iff split: if_splits)

lemma step_next: "hb_next_generation s \<le> hb_next_generation (hub_step s ev)"
  using step_sessions [of s ev] by auto

lemma run_next: "hb_next_generation s \<le> hb_next_generation (hub_run evs s)"
  unfolding hub_run_def
proof (induction evs arbitrary: s)
  case (Cons ev evs)
  show ?case using step_next [of s ev] Cons.IH [of "hub_step s ev"] by simp
qed simp

lemma run_live: "session_live did g (hub_run evs s) \<Longrightarrow> session_live did g s \<or> hb_next_generation s < g"
  unfolding hub_run_def
proof (induction evs arbitrary: s)
  case (Cons ev evs)
  have "session_live did g (hub_step s ev) \<or> hb_next_generation (hub_step s ev) < g"
    using Cons.IH [of "hub_step s ev"] Cons.prems by simp
  then show ?case using step_live [of did g s ev] step_next [of s ev] by auto
qed simp

text \<open>The events that end, or replace, the session of a device.\<close>

fun ends_session_of :: "device_id \<Rightarrow> hub_event \<Rightarrow> bool" where
  "ends_session_of did (HeRegister did' _ _ _) = (did' = did)"
| "ends_session_of did (HeUnregister did' _ _) = (did' = did)"
| "ends_session_of did (HeDisconnect did' _) = (did' = did)"
| "ends_session_of did _ = False"

lemma step_keeps_live:
  assumes "session_live did g s" and "\<not> ends_session_of did ev"
  shows "session_live did g (hub_step s ev)"
proof (cases ev)
  case (HeRegister d topo path t)
  then show ?thesis
    using assms register_cases [of d topo path t s] register_fields(4) [of d topo path t s "fst (hub_register d topo path t s)"]
    by (fastforce simp: session_live_iff)
next
  case (HeUnregister d h t)
  then show ?thesis using assms unregister_cases [of d h t s] by (auto simp: session_live_iff end_session_fields)
next
  case (HeDisconnect d t)
  then show ?thesis using assms disconnect_cases [of d t s] by (auto simp: session_live_iff end_session_fields)
next
  case (HeStartReserve d q t)
  then show ?thesis using assms reserve_cases [of d q t s] by (auto simp: session_live_iff)
next
  case HeStartRelease
  then show ?thesis using assms by (simp add: shell_start_release_def session_live_iff)
next
  case (HeStartEnter d h t)
  then show ?thesis using assms enter_cases [of d h t s] by (auto simp: session_live_iff)
next
  case (HeStartAbandon d t)
  then show ?thesis using assms abandon_cases [of d t s] by (auto simp: session_live_iff)
next
  case (HeTaskDevice t now)
  then show ?thesis using assms by (simp add: shell_task_device_def Let_def session_live_iff)
next
  case (HeTaskLookup q now)
  then show ?thesis using assms lookup_cases [of q now s] by (auto simp: session_live_iff)
next
  case (HeTaskSession t p now found)
  then show ?thesis using assms session_cases [of t p now found s] by (auto simp: session_live_iff)
next
  case (HeTaskReattach q d h t r)
  then show ?thesis using assms reattach_cases [of q d h t r s] by (auto simp: session_live_iff)
next
  case (HeTaskFinish q d h t now r)
  then show ?thesis using assms finish_cases [of q d h t now r s] by (auto simp: session_live_iff)
qed (use assms in \<open>simp add: session_live_iff\<close>)

lemma run_keeps_live:
  assumes "session_live did g s" and "\<forall>ev \<in> set evs. \<not> ends_session_of did ev"
  shows "session_live did g (hub_run evs s)"
  using assms unfolding hub_run_def
  by (induction evs arbitrary: s) (simp_all add: step_keeps_live)

text \<open>The looks of a retry loop, with what happens to the hub before each.\<close>

fun hub_looks :: "hub_state \<Rightarrow> (hub_event list \<times> 'r option) list \<Rightarrow> (hub_state \<times> 'r option) list" where
  "hub_looks s [] = []"
| "hub_looks s ((evs, outcome) # rest) =
     (let s' = hub_run evs s in (s', outcome) # hub_looks s' rest)"

text \<open>\<open>g\<close> was live once, at or before \<open>s\<close>.\<close>

definition was_live :: "device_id \<Rightarrow> u64 \<Rightarrow> hub_state \<Rightarrow> bool" where
  "was_live did g s \<longleftrightarrow> g \<le> hb_next_generation s \<and> (\<forall>h. session_live did h s \<longrightarrow> g \<le> h)"

lemma was_live_run:
  assumes "was_live did g s" shows "was_live did g (hub_run evs s)"
  unfolding was_live_def
proof (intro conjI allI impI)
  show "g \<le> hb_next_generation (hub_run evs s)" using assms run_next [of s evs] by (auto simp: was_live_def)
  fix h assume "session_live did h (hub_run evs s)"
  from run_live [OF this] show "g \<le> h" using assms by (auto simp: was_live_def)
qed

lemma live_was_live: "hub_ok s \<Longrightarrow> session_live did g s \<Longrightarrow> was_live did g s"
  using hub_okD(4) [of s did g] by (simp add: was_live_def session_live_iff)

lemma replay_look_Some: "replay_look did prev s = Some g \<longleftrightarrow> session_live did g s \<and> prev \<noteq> Some g"
  by (auto simp: replay_look_def session_live_iff split: option.splits)

lemma replay_increasing:
  assumes "hub_ok s" and "\<forall>p. prev = Some p \<longrightarrow> was_live did p s"
    and "replay_loop did prev (hub_looks s looks) = (sent, r)"
  shows "sorted_wrt (<) sent \<and> (\<forall>p. prev = Some p \<longrightarrow> (\<forall>g \<in> set sent. p < g))"
  using assms
proof (induction looks arbitrary: s prev sent)
  case Nil
  then show ?case by simp
next
  case (Cons l looks)
  obtain evs outcome where l: "l = (evs, outcome)" by (cases l)
  let ?s = "hub_run evs s"
  have ok: "hub_ok ?s" using hub_run_ok [OF Cons.prems(1)] .
  have was: "was_live did p ?s" if "prev = Some p" for p using was_live_run Cons.prems(2) that by blast
  show ?case
  proof (cases "replay_look did prev ?s")
    case None
    then have "replay_loop did prev (hub_looks ?s looks) = (sent, r)" using Cons.prems(3) l by (simp add: Let_def)
    from Cons.IH [OF ok _ this] was show ?thesis by blast
  next
    case (Some g)
    then have live: "session_live did g ?s" and new: "prev \<noteq> Some g" by (simp_all add: replay_look_Some)
    have up: "p < g" if "prev = Some p" for p
      using was [OF that] live new that by (auto simp: was_live_def order.strict_iff_order)
    show ?thesis
    proof (cases outcome)
      case None
      obtain sent' r' where rest: "replay_loop did (Some g) (hub_looks ?s looks) = (sent', r')" by fastforce
      then have sent: "sent = g # sent'" using Cons.prems(3) l Some None by (simp add: Let_def)
      have "\<forall>p. Some g = Some p \<longrightarrow> was_live did p ?s" using live_was_live [OF ok live] by simp
      from Cons.IH [OF ok this] rest Cons.prems(3) l Some None
      have "sorted_wrt (<) sent' \<and> (\<forall>h \<in> set sent'. g < h)" by (auto simp: Let_def)
      then show ?thesis using sent up by fastforce
    next
      case out: (Some reply)
      then have "sent = [g]" using Cons.prems(3) l Some by (simp add: Let_def)
      then show ?thesis using up by simp
    qed
  qed
qed

text \<open>A mutation that timed out is sent again, to the same session or a later one.\<close>

lemma mutation_increasing:
  assumes "hub_ok s" and "\<forall>p. prev = Some p \<longrightarrow> was_live did p s" and "\<forall>b. low = Some b \<longrightarrow> was_live did b s"
    and "mutation_loop timed_out did prev (hub_looks s looks) = (sent, r)"
  shows "sorted_wrt (\<le>) sent \<and> (\<forall>b. low = Some b \<longrightarrow> (\<forall>g \<in> set sent. b \<le> g))
    \<and> ((\<forall>evs reply. (evs, Some reply) \<in> set looks \<longrightarrow> \<not> timed_out reply) \<longrightarrow>
        sorted_wrt (<) sent \<and> (\<forall>p. prev = Some p \<longrightarrow> (\<forall>g \<in> set sent. p < g)))"
  using assms
proof (induction looks arbitrary: s prev low sent r)
  case Nil
  then show ?case by simp
next
  case (Cons l looks)
  obtain evs outcome where l: "l = (evs, outcome)" by (cases l)
  let ?s = "hub_run evs s"
  let ?calm = "\<lambda>ls. \<forall>evs reply. (evs, Some reply) \<in> set ls \<longrightarrow> \<not> timed_out reply"
  have ok: "hub_ok ?s" using hub_run_ok [OF Cons.prems(1)] .
  have was: "was_live did p ?s" if "prev = Some p" for p using was_live_run Cons.prems(2) that by blast
  have wlow: "was_live did b ?s" if "low = Some b" for b using was_live_run Cons.prems(3) that by blast
  show ?case
  proof (cases "replay_look did prev ?s")
    case None
    then have "mutation_loop timed_out did prev (hub_looks ?s looks) = (sent, r)"
      using Cons.prems(4) l by (simp add: Let_def)
    from Cons.IH [OF ok _ _ this, of low] was wlow show ?thesis by (auto simp: l)
  next
    case (Some g)
    then have live: "session_live did g ?s" and new: "prev \<noteq> Some g" by (simp_all add: replay_look_Some)
    have up: "p < g" if "prev = Some p" for p
      using was [OF that] live new that by (auto simp: was_live_def order.strict_iff_order)
    have lo: "b \<le> g" if "low = Some b" for b using wlow [OF that] live by (auto simp: was_live_def)
    have wg: "\<forall>b. Some g = Some b \<longrightarrow> was_live did b ?s" using live_was_live [OF ok live] by simp
    consider (again) prev' sent' r' where "prev' = Some g \<or> (\<exists>reply. outcome = Some reply \<and> timed_out reply \<and> prev' = None)"
        "mutation_loop timed_out did prev' (hub_looks ?s looks) = (sent', r')" "sent = g # sent'"
      | (over) "sent = [g]"
    proof (cases outcome)
      case None
      obtain sent' r' where "mutation_loop timed_out did (Some g) (hub_looks ?s looks) = (sent', r')" by fastforce
      then show ?thesis using again [of "Some g"] Cons.prems(4) l Some None by (simp add: Let_def)
    next
      case o: (Some reply)
      show ?thesis
      proof (cases "timed_out reply")
        case True
        obtain sent' r' where "mutation_loop timed_out did None (hub_looks ?s looks) = (sent', r')" by fastforce
        then show ?thesis using again [of None] Cons.prems(4) l Some o True by (simp add: Let_def)
      next
        case False
        then show ?thesis using over Cons.prems(4) l Some o by (simp add: Let_def)
      qed
    qed
    then show ?thesis
    proof cases
      case again
      have "\<forall>p. prev' = Some p \<longrightarrow> was_live did p ?s" using again(1) wg by auto
      from Cons.IH [OF ok this wg again(2)]
      have IH: "sorted_wrt (\<le>) sent'" "\<forall>h \<in> set sent'. g \<le> h"
        "?calm looks \<Longrightarrow> sorted_wrt (<) sent' \<and> (\<forall>p. prev' = Some p \<longrightarrow> (\<forall>h \<in> set sent'. p < h))" by blast+
      have a: "sorted_wrt (\<le>) sent" using IH(1,2) again(3) by simp
      have b: "\<forall>b. low = Some b \<longrightarrow> (\<forall>h \<in> set sent. b \<le> h)" using IH(2) lo again(3) by fastforce
      have c: "sorted_wrt (<) sent \<and> (\<forall>p. prev = Some p \<longrightarrow> (\<forall>h \<in> set sent. p < h))" if calm: "?calm (l # looks)"
      proof -
        have c1: "?calm looks" using calm by auto
        have "prev' = Some g" using again(1) calm l by auto
        then have "\<forall>h \<in> set sent'. g < h" using IH(3) [OF c1] by blast
        then show ?thesis using IH(3) [OF c1] up again(3) by fastforce
      qed
      from a b c show ?thesis by blast
    next
      case over
      then show ?thesis using up lo by simp
    qed
  qed
qed

text \<open>A task's projection stays with one device until it is dropped.\<close>

fun enters :: "task_id \<Rightarrow> hub_event \<Rightarrow> bool" where
  "enters t (HeStartEnter did g t') = (t' = t)"
| "enters t _ = False"

lemma projection_step:
  assumes "hub_ok s" and "bt_get (hb_shell_tasks (hub_step s ev)) t = Some p" and "\<not> enters t ev"
  shows "\<exists>p0. bt_get (hb_shell_tasks s) t = Some p0 \<and> sp_device_id p0 = sp_device_id p"
proof -
  have prune: "\<exists>p0. bt_get (hb_shell_tasks s) t = Some p0 \<and> sp_device_id p0 = sp_device_id p"
    if "bt_get (hb_shell_tasks (prune_expired_shell_projections now s)) t = Some p" for now
    using that hub_prune_get [OF assms(1), of now t] by (auto split: option.splits if_splits)
  have mark: "\<exists>p0. bt_get (hb_shell_tasks s) t = Some p0 \<and> sp_device_id p0 = sp_device_id p"
    if "bt_get (hb_shell_tasks (mark_shell_projections_detached did g now s)) t = Some p" for did g now
    using that by (auto simp: mark_get split: if_splits)
  have remove: "\<exists>p0. bt_get (hb_shell_tasks s) t = Some p0 \<and> sp_device_id p0 = sp_device_id p"
    if "bt_get (hb_shell_tasks (shell_projection_remove t' s)) t = Some p" for t'
    using that by (auto simp: shell_projection_remove_def split: if_splits)
  have enter: "\<exists>p0. bt_get (hb_shell_tasks s) t = Some p0 \<and> sp_device_id p0 = sp_device_id p"
    if "((bt_get (hb_shell_tasks s))(t' \<mapsto> \<lparr>sp_device_id = did, sp_generation = g, sp_deadline = None\<rparr>)) t = Some p"
      "t' = t \<Longrightarrow> \<exists>p. bt_get (hb_shell_tasks s) t = Some p \<and> sp_device_id p = did" for t' did g
    using that by (auto split: if_splits)
  show ?thesis
  proof (cases ev)
    case (HeRegister did topo path now)
    show ?thesis
    proof (cases "fst (hub_register did topo path now s) = s")
      case False
      then obtain g old where "hub_register did topo path now s = (fst (hub_register did topo path now s), Ok (g, old))"
        using register_cases [of did topo path now s] by auto
      note f = register_fields(6) [OF this]
      show ?thesis
      proof (cases old)
        case None
        then show ?thesis using f assms(2) HeRegister prune by simp
      next
        case (Some o')
        then obtain p1 where "bt_get (hb_shell_tasks (prune_expired_shell_projections now s)) t = Some p1"
          "sp_device_id p1 = sp_device_id p"
          using f assms(2) HeRegister by (auto simp: mark_get split: if_splits)
        then show ?thesis using hub_prune_get [OF assms(1), of now t] by (auto split: option.splits if_splits)
      qed
    qed (use assms(2) HeRegister in auto)
  next
    case (HeUnregister did g now)
    then show ?thesis using unregister_cases [of did g now s] assms(2) mark by (auto simp: end_session_fields)
  next
    case (HeDisconnect did now)
    then show ?thesis using disconnect_cases [of did now s] assms(2) mark by (auto simp: end_session_fields)
  next
    case (HePath did g path now)
    then show ?thesis using assms(2) by (auto simp: update_path_def split: option.splits if_splits)
  next
    case (HeStartReserve did q now)
    then show ?thesis using reserve_cases [of did q now s] assms(2) prune by auto
  next
    case HeStartRelease
    then show ?thesis using assms(2) by (simp add: shell_start_release_def)
  next
    case (HeStartEnter did g t')
    then show ?thesis using enter_cases [of did g t' s] assms(2,3) by auto
  next
    case (HeStartAbandon did t')
    then show ?thesis using abandon_cases [of did t' s] assms(2) remove by auto
  next
    case (HeTaskDevice t' now)
    then show ?thesis using assms(2) prune by (simp add: shell_task_device_def Let_def)
  next
    case (HeTaskLookup q now)
    then show ?thesis using lookup_cases [of q now s] assms(2) prune by auto
  next
    case (HeTaskSession t' p' now found)
    then show ?thesis using session_cases [of t' p' now found s] assms(2) remove by auto
  next
    case (HeTaskReattach q did g t' r)
    show ?thesis
      using reattach_cases [of q did g t' r s]
    proof (elim disjE)
      assume a: "bt_get (hb_sessions s) did = Some g
          \<and> (\<exists>p. bt_get (hb_shell_tasks s) t' = Some p \<and> sp_device_id p = did)
          \<and> fst (shell_task_reattach q did g t' r s) = s\<lparr>hb_shell_tasks := bt_insert t'
              \<lparr>sp_device_id = did, sp_generation = g, sp_deadline = None\<rparr> (hb_shell_tasks s)\<rparr>"
      then have "((bt_get (hb_shell_tasks s))(t' \<mapsto> \<lparr>sp_device_id = did, sp_generation = g, sp_deadline = None\<rparr>)) t
          = Some p"
        using assms(2) HeTaskReattach by simp
      from enter [OF this] a show ?thesis by blast
    qed (use assms(2) HeTaskReattach remove in simp_all)
  next
    case (HeTaskFinish q did g t' now r)
    then show ?thesis using finish_cases [of q did g t' now r s] assms(2) remove mark by auto
  qed
qed

lemma projection_run:
  assumes "hub_ok s" and "bt_get (hb_shell_tasks (hub_run evs s)) t = Some p" and "\<forall>ev \<in> set evs. \<not> enters t ev"
  shows "\<exists>p0. bt_get (hb_shell_tasks s) t = Some p0 \<and> sp_device_id p0 = sp_device_id p"
  using assms unfolding hub_run_def
proof (induction evs arbitrary: s)
  case (Cons ev evs)
  then obtain p1 where "bt_get (hb_shell_tasks (hub_step s ev)) t = Some p1" "sp_device_id p1 = sp_device_id p"
    using hub_step_ok [OF Cons.prems(1), of ev] Cons.IH [of "hub_step s ev"] by auto
  then show ?case using projection_step [OF Cons.prems(1), of ev t p1] Cons.prems(3) by auto
qed simp

subsection \<open>Properties\<close>

text \<open>C9: Sessions are told apart by their generation: whatever the tasks of the program do, and in
  whatever order, a device is online exactly when its recorded session says Connected, with that
  session's generation, no two devices share one, a live shell task belongs to the live session
  of its device; registering yields a generation larger than any before and ends the session it
  replaces, and one that has ended never comes back. A read, a query or a directory request that
  is retried is sent at most once to each session, in the order of their generations. A mutation
  that is retried never goes back to an earlier session, and is sent twice to the same one only
  when a host answered that it timed out.\<close>

theorem hub_sessions:
  assumes "s = hub_run evs hub_default"
  shows "(is_online did s \<longleftrightarrow> (\<exists>i. bt_get (hb_session_info s) did = Some i \<and> si_state i = Connected))
    \<and> (session_live did g s \<longrightarrow> (\<exists>i. bt_get (hb_session_info s) did = Some i \<and> si_generation i = g)
        \<and> (\<forall>did'. session_live did' g s \<longrightarrow> did' = did))
    \<and> (bt_get (hb_shell_tasks s) t = Some p \<and> sp_deadline p = None \<longrightarrow>
        session_live (sp_device_id p) (sp_generation p) s)
    \<and> (hub_register did topo path now s = (s', Ok (h, old)) \<longrightarrow> session_live did h s'
        \<and> (\<forall>d g. session_live d g s \<longrightarrow> g < h) \<and> (\<forall>o'. old = Some o' \<longrightarrow> \<not> session_live did o' s'))
    \<and> (g \<le> hb_next_generation s \<and> \<not> session_live did g s \<longrightarrow> \<not> session_live did g (hub_run evs' s))
    \<and> sorted_wrt (<) (fst (replay_loop did None (hub_looks s looks)))
    \<and> sorted_wrt (\<le>) (fst (mutation_loop timed_out did None (hub_looks s looks)))
    \<and> ((\<forall>evs reply. (evs, Some reply) \<in> set looks \<longrightarrow> \<not> timed_out reply) \<longrightarrow>
         sorted_wrt (<) (fst (mutation_loop timed_out did None (hub_looks s looks))))"
proof -
  have ok: "hub_ok s" unfolding assms using hub_run_ok [OF hub_ok_default] .
  note D = hub_okD [OF ok]
  have "is_online did s \<longleftrightarrow> (\<exists>i. bt_get (hb_session_info s) did = Some i \<and> si_state i = Connected)"
    using D(5,8) [of did] by (fastforce simp: is_online_def)
  moreover have "session_live did h s' \<and> (\<forall>d g. session_live d g s \<longrightarrow> g < h)
      \<and> (\<forall>o'. old = Some o' \<longrightarrow> \<not> session_live did o' s')"
    if r: "hub_register did topo path now s = (s', Ok (h, old))"
  proof -
    note f = register_fields [OF r]
    have up: "\<forall>d g. session_live d g s \<longrightarrow> g < h"
    proof (intro allI impI)
      fix d g assume "session_live d g s"
      then have "g \<le> hb_next_generation s" using D(4) [of d g] by (simp add: session_live_iff)
      then show "g < h" using checked_inc [OF f(1)] by (meson le_less_trans)
    qed
    moreover have "\<forall>o'. old = Some o' \<longrightarrow> \<not> session_live did o' s'"
      using up f(3,4) by (fastforce simp: session_live_iff)
    ultimately show ?thesis using f(4) by (simp add: session_live_iff)
  qed
  moreover have "sorted_wrt (<) (fst (replay_loop did None (hub_looks s looks)))"
    using replay_increasing [OF ok, of None did looks] by (metis option.distinct(1) prod.collapse)
  moreover obtain sent r where m: "mutation_loop timed_out did None (hub_looks s looks) = (sent, r)" by fastforce
  moreover have "sorted_wrt (\<le>) sent \<and>
      ((\<forall>evs reply. (evs, Some reply) \<in> set looks \<longrightarrow> \<not> timed_out reply) \<longrightarrow> sorted_wrt (<) sent)"
    using mutation_increasing [OF ok _ _ m, of None] by simp
  ultimately show ?thesis
    using D(5,6,9) run_live [of did g evs' s] by (fastforce simp: session_live_iff)
qed

text \<open>A reply that is accepted for a task names it.\<close>

lemma reply_names_task:
  assumes "validate_shell_reply_correlation q r = Ok ()" and "shell_request_task_id q = Some t"
  shows "case r of ShrStarted _ \<Rightarrow> False | ShrStatus st \<Rightarrow> sts_task_id st = t
    | ShrOutput u \<Rightarrow> sts_task_id (sto_status u) = t | ShrCancelAccepted t' \<Rightarrow> t' = t | ShrError _ \<Rightarrow> True"
  using assms
  by (cases q; cases r) (auto simp: validate_shell_reply_correlation_def shell_request_task_id_def split: if_splits)

lemma shell_task_finish_Ok:
  "shell_task_finish q d g t now reply u = (s', Ok (did, r)) \<Longrightarrow>
     did = d \<and> reply = Ok r \<and> validate_shell_reply_correlation q r = Ok () \<and> session_live d g s'"
  by (auto simp: shell_task_finish_def result_simps session_live_iff split: sum.splits if_splits)

text \<open>Where the answer of a follow-up comes from, once a session was found for it: from the host of
  that session, or from the check for the task.\<close>

lemma shell_task_answered:
  assumes "shell_task q now now' w1 w2 w3 evidence reply s = (s', Ok (did, r))"
    and l: "shell_task_lookup q now s = (s1, Ok (t, p))"
    and se: "shell_task_session t p now (replay_look (sp_device_id p) None (w1 s1)) (w1 s1) = (s3, Ok g)"
    and t: "shell_request_task_id q = Some t"
  shows "sp_device_id p = did
    \<and> (reply = Ok r \<and> session_live did g s'
       \<or> evidence = Ok r \<and> g \<noteq> sp_generation p
         \<and> ((\<exists>st. q = ShStatus t \<and> r = ShrStatus st) \<and> session_live did g s' \<or> (\<exists>e. r = ShrError e)))
    \<and> (\<exists>q'. validate_shell_reply_correlation q' r = Ok () \<and> shell_request_task_id q' = Some t)"
proof (cases "g = sp_generation p")
  case True
  then have "shell_task_finish q (sp_device_id p) g t now' reply (w3 s3) = (s', Ok (did, r))"
    using assms(1) l se by (simp add: shell_task_def Let_def)
  from shell_task_finish_Ok [OF this] t show ?thesis by blast
next
  case False
  obtain s4 ro where re: "shell_task_reattach q (sp_device_id p) g t evidence (w2 s3) = (s4, Ok ro)"
    using assms(1) l se False by (auto simp: shell_task_def Let_def split: prod.splits sum.splits)
  show ?thesis
  proof (cases ro)
    case None
    then have "shell_task_finish q (sp_device_id p) g t now' reply (w3 s4) = (s', Ok (did, r))"
      using assms(1) l se False re by (simp add: shell_task_def Let_def)
    from shell_task_finish_Ok [OF this] t show ?thesis by blast
  next
    case (Some r')
    then have r': "r' = r" "did = sp_device_id p" "s4 = s'"
      using assms(1) l se False re by (simp_all add: shell_task_def Let_def)
    have "evidence = Ok r \<and> validate_shell_reply_correlation (ShStatus t) r = Ok ()
        \<and> ((\<exists>st t'. q = ShStatus t' \<and> r = ShrStatus st) \<and> session_live did g s' \<or> (\<exists>e. r = ShrError e))"
      using re Some r'
      by (auto simp: shell_task_reattach_def result_simps session_live_iff
          split: sum.splits shell_task_reply.splits if_splits shell_task_request.splits)
    moreover have "q = ShStatus t" if "q = ShStatus t'" for t' using that t by (simp add: shell_request_task_id_def)
    ultimately show ?thesis using r'(2) False
      by (intro conjI exI [of _ "ShStatus t"]) (auto simp: shell_request_task_id_def)
  qed
qed

text \<open>C35: A shell follow-up is answered by its own task: when a follow-up to a task returns an answer,
  the task had a projection that was not past its grace; the answer comes from that projection's
  device, over the session that was live when the wait for one ended; it is about that very task
  and is not a start; and that same session is still live when the answer is returned, except
  for the error with which the host of a new session answers the check for the task. While the
  task is not started anew its projection stays with one device.\<close>

theorem shell_followups:
  assumes "s = hub_run evs hub_default"
    and "shell_task q now now' w1 w2 w3 evidence reply s = (s', Ok (did, r))"
  shows "\<exists>t p g. shell_request_task_id q = Some t \<and> bt_get (hb_shell_tasks s) t = Some p
      \<and> sp_device_id p = did \<and> (\<forall>d. sp_deadline p = Some d \<longrightarrow> now \<le> d)
      \<and> session_live did g (w1 (fst (shell_task_lookup q now s)))
      \<and> (reply = Ok r \<and> session_live did g s'
         \<or> evidence = Ok r \<and> g \<noteq> sp_generation p
           \<and> ((\<exists>st. q = ShStatus t \<and> r = ShrStatus st) \<and> session_live did g s' \<or> (\<exists>e. r = ShrError e)))
      \<and> (case r of ShrStarted _ \<Rightarrow> False | ShrStatus st \<Rightarrow> sts_task_id st = t
         | ShrOutput u \<Rightarrow> sts_task_id (sto_status u) = t | ShrCancelAccepted t' \<Rightarrow> t' = t | ShrError _ \<Rightarrow> True)
      \<and> (\<forall>evs' p'. (\<forall>ev \<in> set evs'. \<not> enters t ev) \<longrightarrow>
           bt_get (hb_shell_tasks (hub_run evs' s)) t = Some p' \<longrightarrow> sp_device_id p' = did)"
proof -
  have ok: "hub_ok s" unfolding assms(1) using hub_run_ok [OF hub_ok_default] .
  obtain s1 t p where l: "shell_task_lookup q now s = (s1, Ok (t, p))"
    using assms(2) by (auto simp: shell_task_def Let_def split: prod.splits sum.splits)
  have t: "shell_request_task_id q = Some t" and "bt_get (hb_shell_tasks (prune_expired_shell_projections now s)) t = Some p"
    using l by (auto simp: shell_task_lookup_def Let_def result_simps split: sum.splits)
  then have p: "bt_get (hb_shell_tasks s) t = Some p" "\<forall>d. sp_deadline p = Some d \<longrightarrow> now \<le> d"
    using hub_prune_get [OF ok, of now t] by (auto split: option.splits if_splits)
  obtain s3 g where se: "shell_task_session t p now (replay_look (sp_device_id p) None (w1 s1)) (w1 s1) = (s3, Ok g)"
    using assms(2) l by (auto simp: shell_task_def Let_def split: prod.splits sum.splits)
  have "replay_look (sp_device_id p) None (w1 s1) = Some g"
    using se by (auto simp: shell_task_session_def result_simps split: option.splits if_splits)
  then have found: "session_live (sp_device_id p) g (w1 (fst (shell_task_lookup q now s)))"
    by (simp add: replay_look_Some l)
  note main = shell_task_answered [OF assms(2) l se t]
  then obtain q' where "validate_shell_reply_correlation q' r = Ok ()" "shell_request_task_id q' = Some t" by blast
  note n = reply_names_task [OF this]
  have same: "sp_device_id p' = did"
    if "\<forall>ev \<in> set evs'. \<not> enters t ev" "bt_get (hb_shell_tasks (hub_run evs' s)) t = Some p'" for evs' p'
    using projection_run [OF ok that(2,1)] p(1) main by auto
  show ?thesis
    by (rule exI [of _ t], rule exI [of _ p], rule exI [of _ g]) (use n main t p found same in blast)
qed

text \<open>How starting a session goes on once it is registered.\<close>

lemma member_open_registered:
  assumes "hub_register did topo path connected s = (s1, Ok (g, old))"
    and "member_open did topo path connected w pong pong_time end_time s = (s', r)"
  shows "(\<not> pong \<and> r = Err MemberProbeFailed \<and> s' = hub_unregister did g end_time (w s1))
    \<or> (pong \<and> s' = w s1 \<and> (r = Err MemberClock \<or> r = Err (MemberHub HubSessionContinuityLost)
        \<or> (\<exists>t. r = Ok (g, t) \<and> connected \<le> t \<and> unat t - unat connected \<le> 15000)))"
proof (cases pong)
  case False
  then show ?thesis using assms by (simp add: member_open_def Let_def)
next
  case True
  show ?thesis
  proof (cases pong_time)
    case None
    then show ?thesis using assms True by (simp add: member_open_def Let_def)
  next
    case (Some t)
    have "unat t - unat connected \<le> 15000" if "\<not> saturating_sub t connected > SESSION_CONTINUITY_GAP_MS"
      using that by (simp add: word_less_nat_alt unat_saturating_sub bounds_simps)
    then show ?thesis
      using assms True Some
      by (auto simp: member_open_def Let_def observe_peer_activity_def ensure_current_def not_less split: if_splits)
  qed
qed

lemma unregistered_never_live:
  assumes "g \<le> hb_next_generation s"
  shows "\<not> session_live did g (hub_run evs (hub_unregister did g now s))"
proof -
  let ?s = "hub_unregister did g now s"
  have "\<not> session_live did g ?s"
    by (simp add: hub_unregister_def session_live_iff end_session_fields)
  moreover have "g \<le> hb_next_generation ?s"
    using assms by (auto simp: hub_unregister_def end_session_fields)
  ultimately show ?thesis using run_live [of did g evs ?s] by auto
qed

text \<open>C39: What starting a session leaves in the hub, whatever other tasks do while its ping is out:
  it gets a generation larger than any before; one that opens saw its answer within the
  continuity gap and is still live unless another event ended or replaced the device's session;
  one whose ping fails is taken back and never live again; but one whose clock fails, or whose
  continuity is lost while the ping is out, takes nothing back: unless another event ended or
  replaced it, the device stays listed as online, recorded as Connected, with no task behind it.\<close>

theorem member_open_outcome:
  assumes "s = hub_run evs hub_default"
    and "member_open did topo path connected (hub_run evs') pong pong_time end_time s = (s', r)"
  shows "(r = Err (MemberHub HubGenerationOverflow) \<and> s' = s)
    \<or> (\<exists>g. hb_next_generation s < g \<and>
        (case r of
           Inr (g', seen) \<Rightarrow> g' = g \<and> pong \<and> connected \<le> seen \<and> unat seen - unat connected \<le> 15000
             \<and> ((\<forall>ev \<in> set evs'. \<not> ends_session_of did ev) \<longrightarrow> session_live did g s')
         | Inl MemberProbeFailed \<Rightarrow> \<not> pong \<and> (\<forall>evs''. \<not> session_live did g (hub_run evs'' s'))
         | Inl _ \<Rightarrow> pong \<and> ((\<forall>ev \<in> set evs'. \<not> ends_session_of did ev) \<longrightarrow> session_live did g s'
             \<and> is_online did s' \<and> (\<exists>i. bt_get (hb_session_info s') did = Some i \<and> si_state i = Connected))))"
proof -
  have ok: "hub_ok s" unfolding assms(1) using hub_run_ok [OF hub_ok_default] .
  show ?thesis
  proof (cases "checked_add (hb_next_generation s) 1")
    case None
    then show ?thesis using assms(2) by (simp add: member_open_def hub_register_def)
  next
    case (Some g)
    then obtain s1 old where reg: "hub_register did topo path connected s = (s1, Ok (g, old))"
      by (auto simp: hub_register_def Let_def)
    note f = register_fields [OF reg]
    let ?s2 = "hub_run evs' s1"
    have up: "hb_next_generation s < g" using checked_inc [OF Some] by simp
    have ok2: "hub_ok ?s2" using hub_run_ok hub_register_ok [OF ok, of did topo path connected] reg by simp
    have live: "session_live did g ?s2" if "\<forall>ev \<in> set evs'. \<not> ends_session_of did ev"
      using run_keeps_live [OF _ that] f(4) by (simp add: session_live_iff)
    have online: "is_online did ?s2 \<and> (\<exists>i. bt_get (hb_session_info ?s2) did = Some i \<and> si_state i = Connected)"
      if "\<forall>ev \<in> set evs'. \<not> ends_session_of did ev"
      using live [OF that] hub_okD(5,8) [OF ok2, of did] by (fastforce simp: is_online_def session_live_iff)
    have "g \<le> hb_next_generation ?s2" using run_next [of s1 evs'] f(2) by simp
    note gone = unregistered_never_live [OF this]
    from member_open_registered [OF reg assms(2)] show ?thesis
      using up live online gone by (elim disjE conjE exE) auto
  qed
qed

lemma register_default:
  "hub_register 7 DirectTopology DirectPath t hub_default = (hub_default\<lparr>hb_next_generation := 1,
     hb_sessions := [(7, 1)], hb_session_info := [(7, \<lparr>si_device_id = 7, si_generation = 1, si_state = Connected,
       si_topology = DirectTopology, si_path = DirectPath, si_connected = t, si_last_transition = t,
       si_last_path_change = t\<rparr>)], hb_revision := 1\<rparr>, Ok (1, None))"
  by (simp add: hub_register_def hub_default_def checked_add_def prune_expired_shell_projections_def
      signal_session_change_def)

definition filling :: "nat \<Rightarrow> hub_event list" where
  "filling n = HeRegister 7 DirectTopology DirectPath 0 # map (\<lambda>i. HeStartEnter 7 1 (word_of_nat i)) [0..<n]"

lemma filling_entered:
  assumes "bt_get (hb_sessions s) 7 = Some 1" and "bt_wf (hb_shell_tasks s)" and "hb_shell_tasks s = []"
    and "n < 2 ^ 128" and "k \<le> n"
  shows "length (hb_shell_tasks (foldl hub_step s (map (\<lambda>i. HeStartEnter 7 1 (word_of_nat i)) [0..<k]))) = k
    \<and> bt_wf (hb_shell_tasks (foldl hub_step s (map (\<lambda>i. HeStartEnter 7 1 (word_of_nat i)) [0..<k])))
    \<and> hb_sessions (foldl hub_step s (map (\<lambda>i. HeStartEnter 7 1 (word_of_nat i)) [0..<k])) = hb_sessions s
    \<and> hb_pending_shell_starts (foldl hub_step s (map (\<lambda>i. HeStartEnter 7 1 (word_of_nat i)) [0..<k]))
        = hb_pending_shell_starts s
    \<and> (\<forall>j. k \<le> j \<longrightarrow> j \<le> n \<longrightarrow> bt_get (hb_shell_tasks
          (foldl hub_step s (map (\<lambda>i. HeStartEnter 7 1 (word_of_nat i)) [0..<k]))) (word_of_nat j) = None)"
  using assms(5)
proof (induction k)
  case 0
  then show ?case using assms by simp
next
  case (Suc k)
  let ?s = "\<lambda>k. foldl hub_step s (map (\<lambda>i. HeStartEnter 7 1 (word_of_nat i)) [0..<k])"
  have IH: "length (hb_shell_tasks (?s k)) = k" "bt_wf (hb_shell_tasks (?s k))" "hb_sessions (?s k) = hb_sessions s"
    "hb_pending_shell_starts (?s k) = hb_pending_shell_starts s"
    "\<And>j. k \<le> j \<Longrightarrow> j \<le> n \<Longrightarrow> bt_get (hb_shell_tasks (?s k)) (word_of_nat j) = None"
    using Suc by simp_all
  have inj: "unat (word_of_nat j :: task_id) = j" if "j \<le> n" for j
    using that assms(4) by (simp add: unat_of_nat)
  have new: "(word_of_nat j :: task_id) \<noteq> word_of_nat k" if "Suc k \<le> j" "j \<le> n" for j
    using inj [of j] inj [of k] that by (metis Suc_leD Suc_n_not_le_n le_trans)
  have live: "session_live 7 1 (?s k)" using IH(3) assms(1) by (simp add: session_live_iff)
  have none: "bt_get (hb_shell_tasks (?s k)) (word_of_nat k) = None" using IH(5) Suc.prems by simp
  have step: "?s (Suc k) = (?s k)\<lparr>hb_shell_tasks := bt_insert (word_of_nat k)
      \<lparr>sp_device_id = 7, sp_generation = 1, sp_deadline = None\<rparr> (hb_shell_tasks (?s k))\<rparr>"
    using live none by (simp add: shell_projection_enter_def)
  have "bt_get (hb_shell_tasks (?s (Suc k))) (word_of_nat j) = None" if "Suc k \<le> j" "j \<le> n" for j
    using IH(5) [of j] new [OF that] that unfolding step by simp
  moreover have "length (hb_shell_tasks (?s (Suc k))) = Suc k"
    unfolding step using length_bt_insert [OF IH(2)] none IH(1) by simp
  ultimately show ?case using IH(2-4) unfolding step by simp
qed

lemma enter_fresh:
  assumes "session_live did g s" and "bt_get (hb_shell_tasks s) t = None"
  shows "shell_projection_enter did g t s = (s\<lparr>hb_shell_tasks := bt_insert t
     \<lparr>sp_device_id = did, sp_generation = g, sp_deadline = None\<rparr> (hb_shell_tasks s)\<rparr>, Ok ())"
  using assms by (simp add: shell_projection_enter_def)

lemma reserve_fresh:
  assumes "sh_request_validate q = Ok ()" and "shell_request_task_id q = None" and "session_live did g s"
    and "prune_expired_shell_projections now s = s"
  shows "shell_start_reserve did q now s =
    (if length (hb_shell_tasks s) + hb_pending_shell_starts s \<ge> 8192 then (s, Err HubShellProjectionCapacity)
     else (s\<lparr>hb_pending_shell_starts := hb_pending_shell_starts s + 1\<rparr>, Ok g))"
  using assms by (simp add: shell_start_reserve_def Let_def session_live_iff bounds_simps)

lemma two_starts:
  "starts_step [c, c'] 0 (s, [p, p']) = (case shell_start_step c (s, p) of (s', p1) \<Rightarrow> (s', [p1, p']))"
  "starts_step [c, c'] 1 (s, [p, p']) = (case shell_start_step c' (s, p') of (s', p1) \<Rightarrow> (s', [p, p1]))"
  by (simp_all add: starts_step_def)

lemma set_bt_insert: "set (bt_insert k v m) \<subseteq> insert (k, v) (set m)"
  by (induction m) (auto split: if_splits)

lemma prune_id:
  "prune_expired_shell_projections now s = s \<longleftrightarrow>
     (\<forall>x \<in> set (hb_shell_tasks s). case sp_deadline (snd x) of None \<Rightarrow> True | Some deadline \<Rightarrow> now \<le> deadline)"
proof -
  let ?P = "\<lambda>(uu :: task_id, p). case sp_deadline p of None \<Rightarrow> True | Some deadline \<Rightarrow> now \<le> deadline"
  have "prune_expired_shell_projections now s = s \<longleftrightarrow> filter ?P (hb_shell_tasks s) = hb_shell_tasks s"
    unfolding prune_expired_shell_projections_def by (cases s) simp
  also have "... \<longleftrightarrow> (\<forall>x \<in> set (hb_shell_tasks s). ?P x)" by (rule filter_id_conv)
  finally show ?thesis by (simp add: case_prod_beta)
qed

lemma prune_insert:
  assumes "prune_expired_shell_projections now s = s"
  shows "prune_expired_shell_projections now (s\<lparr>hb_shell_tasks := bt_insert t
      \<lparr>sp_device_id = did, sp_generation = g, sp_deadline = None\<rparr> (hb_shell_tasks s)\<rparr>) = s\<lparr>hb_shell_tasks :=
        bt_insert t \<lparr>sp_device_id = did, sp_generation = g, sp_deadline = None\<rparr> (hb_shell_tasks s)\<rparr>"
  using assms set_bt_insert unfolding prune_id by fastforce

lemma prune_zero: "prune_expired_shell_projections 0 s = s"
  unfolding prune_id by (simp split: option.split)

text \<open>C40: The bound on shell projections can be exceeded by two starts at once: a start gives its
  reserved place back when the reply is there and enters its projection afterwards. With one place
  left, two starts one after the other end as they should, the second refused for capacity; but
  when the second reserves its place between those two moments of the first, both succeed and one
  projection more than \<^verbatim>\<open>MAX_REMOTE_SHELL_TASK_PROJECTIONS\<close> is live.\<close>

theorem shell_capacity_exceeded:
  assumes "s = hub_run evs hub_default" and "session_live did g s"
    and "prune_expired_shell_projections now s = s"
    and "length (hb_shell_tasks s) + 1 = MAX_REMOTE_SHELL_TASK_PROJECTIONS" and "hb_pending_shell_starts s = 0"
    and "sh_request_validate q = Ok ()" and "shell_request_task_id q = None"
    and "t \<noteq> t'" and "bt_get (hb_shell_tasks s) t = None" and "bt_get (hb_shell_tasks s) t' = None"
    and "calls = map (\<lambda>t. \<lparr>sc_device = did, sc_request = q, sc_now = now, sc_reply = Ok (ShrStarted t),
           sc_status = Ok (did, ShrStatus (st t)), sc_delivered = True\<rparr>) [t, t']"
  shows "\<exists>s1 s2.
      starts_run calls [0, 0, 0, 0, 1] (s, [StartIdle, StartIdle])
        = (s1, [StartEnded (Ok (ShrStarted t)), StartEnded (Err HubShellProjectionCapacity)])
      \<and> length (hb_shell_tasks s1) = MAX_REMOTE_SHELL_TASK_PROJECTIONS
      \<and> starts_run calls [0, 0, 1, 1, 0, 1, 0, 1] (s, [StartIdle, StartIdle])
        = (s2, [StartEnded (Ok (ShrStarted t)), StartEnded (Ok (ShrStarted t'))])
      \<and> length (hb_shell_tasks s2) = MAX_REMOTE_SHELL_TASK_PROJECTIONS + 1"
proof -
  have wf: "bt_wf (hb_shell_tasks s)" using hub_okD(3) hub_run_ok [OF hub_ok_default] assms(1) by blast
  have len: "length (hb_shell_tasks s) = 8191" using assms(4) by (simp add: bounds_simps)
  let ?p = "\<lparr>sp_device_id = did, sp_generation = g, sp_deadline = None\<rparr>"
  let ?c = "\<lambda>t. \<lparr>sc_device = did, sc_request = q, sc_now = now, sc_reply = Ok (ShrStarted t),
           sc_status = Ok (did, ShrStatus (st t)), sc_delivered = True\<rparr>"
  let ?s1 = "s\<lparr>hb_shell_tasks := bt_insert t ?p (hb_shell_tasks s)\<rparr>"
  let ?s2 = "?s1\<lparr>hb_shell_tasks := bt_insert t' ?p (hb_shell_tasks ?s1)\<rparr>"
  have reserve: "shell_start_step (?c x) (s, StartIdle) = (s\<lparr>hb_pending_shell_starts := 1\<rparr>, StartReserved g)" for x
    using reserve_fresh [OF assms(6,7,2,3)] len assms(5) by simp
  have release: "shell_start_step (?c x) (s\<lparr>hb_pending_shell_starts := 1\<rparr>, StartReserved g) = (s, StartAnswered g)" for x
    using assms(5) by (simp add: shell_start_release_def)
  have enter: "shell_start_step (?c t) (s, StartAnswered g) = (?s1, StartEntered t (Ok ()))"
    using enter_fresh [OF assms(2,9)] by simp
  have "session_live did g ?s1" using assms(2) by (simp add: session_live_iff)
  moreover have "bt_get (hb_shell_tasks ?s1) t' = None" using assms(8,10) by simp
  ultimately have enter': "shell_start_step (?c t') (?s1, StartAnswered g) = (?s2, StartEntered t' (Ok ()))"
    using enter_fresh [of did g ?s1 t'] by simp
  have finish: "shell_start_step (?c x) (u, StartEntered x (Ok ())) = (u, StartEnded (Ok (ShrStarted x)))" for x u
    by (simp add: shell_start_completion_def)
  have full: "shell_start_step (?c t') (?s1, StartIdle) = (?s1, StartEnded (Err HubShellProjectionCapacity))"
    using reserve_fresh [OF assms(6,7) \<open>session_live did g ?s1\<close> prune_insert [OF assms(3)]]
      length_bt_insert [OF wf, of t ?p] len assms(9) by simp
  have l1: "length (hb_shell_tasks ?s1) = MAX_REMOTE_SHELL_TASK_PROJECTIONS"
    using length_bt_insert [OF wf, of t ?p] len assms(9) by (simp add: bounds_simps)
  have l2: "length (hb_shell_tasks ?s2) = MAX_REMOTE_SHELL_TASK_PROJECTIONS + 1"
    using length_bt_insert [of "hb_shell_tasks ?s1" t' ?p] l1 wf assms(8,10) by simp
  have "starts_run calls [0, 0, 0, 0, 1] (s, [StartIdle, StartIdle])
      = (?s1, [StartEnded (Ok (ShrStarted t)), StartEnded (Err HubShellProjectionCapacity)])"
    unfolding starts_run_def assms(11)
    by (simp only: foldl.simps two_starts list.map prod.case reserve release enter finish full)
  moreover have "starts_run calls [0, 0, 1, 1, 0, 1, 0, 1] (s, [StartIdle, StartIdle])
      = (?s2, [StartEnded (Ok (ShrStarted t)), StartEnded (Ok (ShrStarted t'))])"
    unfolding starts_run_def assms(11)
    by (simp only: foldl.simps two_starts list.map prod.case reserve release enter enter' finish)
  ultimately show ?thesis using l1 l2 by blast
qed

subsection \<open>Witnesses\<close>

definition toy_hub :: hub_state where
  "toy_hub = hub_run [HeRegister 7 DirectTopology DirectPath 0, HeStartEnter 7 1 3] hub_default"

lemma toy_hub_eq:
  "toy_hub = (fst (hub_register 7 DirectTopology DirectPath 0 hub_default))\<lparr>hb_shell_tasks :=
     [(3, \<lparr>sp_device_id = 7, sp_generation = 1, sp_deadline = None\<rparr>)]\<rparr>"
  by (simp add: toy_hub_def hub_run_def register_default shell_projection_enter_def session_live_def)
     (simp add: hub_default_def)

text \<open>The session is replaced and its task waits for its device.\<close>

lemma hub_sessions_witness:
  "\<not> session_live 7 1 (hub_run [HeRegister 7 DirectTopology RelayPath 5] (hub_run [HeDisconnect 7 None] toy_hub))"
proof -
  let ?s = "hub_run [HeDisconnect 7 None] toy_hub"
  have s: "?s = hub_run [HeRegister 7 DirectTopology DirectPath 0, HeStartEnter 7 1 3, HeDisconnect 7 None] hub_default"
    by (simp add: toy_hub_def hub_run_def)
  have "\<not> session_live 7 1 ?s" "1 \<le> hb_next_generation ?s"
    by (simp_all add: toy_hub_eq register_default hub_run_def hub_disconnect_def session_live_def
        end_session_fields bt_remove_def)
  then show ?thesis
    using hub_sessions [OF s, of 7 1 3 undefined DirectTopology RelayPath 5 undefined undefined undefined
        "[HeRegister 7 DirectTopology RelayPath 5]" "[] :: (hub_event list \<times> unit option) list"]
    by blast
qed

definition toy_status :: shell_task_status where
  "toy_status = \<lparr>sts_task_id = 3, sts_phase = Running, sts_exit_code = None, stdout_base_offset = 0,
     stdout_next_offset = 0, stderr_base_offset = 0, stderr_next_offset = 0\<rparr>"

lemma shell_followups_witness:
  "\<exists>p. shell_task (ShStatus 3) 0 0 id id id (Err (HubOffline 7)) (Ok (ShrStatus toy_status)) toy_hub
       = (toy_hub, Ok (7, ShrStatus toy_status))
     \<and> bt_get (hb_shell_tasks toy_hub) 3 = Some p \<and> sp_device_id p = 7"
proof -
  have look: "prune_expired_shell_projections 0 toy_hub = toy_hub" "bt_get (hb_sessions toy_hub) 7 = Some 1"
    "bt_get (hb_shell_tasks toy_hub) 3 = Some \<lparr>sp_device_id = 7, sp_generation = 1, sp_deadline = None\<rparr>"
    by (simp_all add: toy_hub_eq register_default prune_expired_shell_projections_def)
  have r: "shell_task (ShStatus 3) 0 0 id id id (Err (HubOffline 7)) (Ok (ShrStatus toy_status)) toy_hub
       = (toy_hub, Ok (7, ShrStatus toy_status))"
    by (simp add: shell_task_def shell_task_lookup_def sh_request_validate_def shell_request_task_id_def look
        shell_task_session_def replay_look_def shell_task_finish_def validate_shell_reply_correlation_def
        session_live_def is_not_found_def toy_status_def Let_def)
  from shell_followups [OF toy_hub_def r] r show ?thesis by (auto simp: shell_request_task_id_def)
qed

lemma shell_capacity_exceeded_witness:
  "\<exists>s2. starts_run (map (\<lambda>t. \<lparr>sc_device = 7, sc_request = ShStart ''ls'' ''/'' [] 1, sc_now = 0,
        sc_reply = Ok (ShrStarted t), sc_status = Ok (7, ShrStatus (toy_status\<lparr>sts_task_id := t\<rparr>)),
        sc_delivered = True\<rparr>) [8191, 8192]) [0, 0, 1, 1, 0, 1, 0, 1]
      (hub_run (filling 8191) hub_default, [StartIdle, StartIdle])
    = (s2, [StartEnded (Ok (ShrStarted 8191)), StartEnded (Ok (ShrStarted 8192))])
    \<and> length (hb_shell_tasks s2) = MAX_REMOTE_SHELL_TASK_PROJECTIONS + 1"
proof -
  let ?r = "hub_step hub_default (HeRegister 7 DirectTopology DirectPath 0)"
  let ?s = "hub_run (filling 8191) hub_default"
  have r: "bt_get (hb_sessions ?r) 7 = Some 1" "hb_shell_tasks ?r = []" "hb_pending_shell_starts ?r = 0"
    by (simp_all add: register_default) (simp_all add: hub_default_def)
  have s: "?s = foldl hub_step ?r (map (\<lambda>i. HeStartEnter 7 1 (word_of_nat i)) [0..<8191])"
    unfolding hub_run_def filling_def by simp
  have b: "(8192 :: nat) < 2 ^ 128" "8191 \<le> (8192 :: nat)" by simp_all
  have f: "length (hb_shell_tasks ?s) = 8191" "hb_sessions ?s = hb_sessions ?r" "hb_pending_shell_starts ?s = 0"
    "\<And>j. 8191 \<le> j \<Longrightarrow> j \<le> 8192 \<Longrightarrow> bt_get (hb_shell_tasks ?s) (word_of_nat j) = None"
    using filling_entered [OF r(1) _ r(2) b] r(2,3) unfolding s by simp_all
  have n: "bt_get (hb_shell_tasks ?s) 8191 = None" "bt_get (hb_shell_tasks ?s) 8192 = None"
    using f(4) [of 8191] f(4) [of 8192] by simp_all
  have "prune_expired_shell_projections 0 ?s = ?s" by (rule prune_zero)
  moreover have "session_live 7 1 ?s" using f(2) r(1) by (simp add: session_live_iff)
  moreover have "sh_request_validate (ShStart ''ls'' ''/'' [] 1) = Ok ()"
    by (simp add: sh_request_validate_def sh_validate_command_def sh_validate_cwd_def sh_validate_env_def
        bounds_simps trim_def ascii_defs Let_def)
  moreover have "length (hb_shell_tasks ?s) + 1 = MAX_REMOTE_SHELL_TASK_PROJECTIONS"
    using f(1) by (simp add: bounds_simps)
  ultimately show ?thesis
    using shell_capacity_exceeded [OF refl _ _ _ f(3) _ _ _ n refl, of 7 1 0 "ShStart ''ls'' ''/'' [] 1"
        "\<lambda>t. toy_status\<lparr>sts_task_id := t\<rparr>"]
    by (auto simp: shell_request_task_id_def)
qed

lemma member_open_outcome_witness:
  "\<exists>s'. member_open 7 DirectTopology DirectPath 0 (hub_run [HePath 7 1 RelayPath 9]) True (Some 20000) (Some 20000)
       hub_default = (s', Err (MemberHub HubSessionContinuityLost)) \<and> is_online 7 s'"
proof -
  have d: "hub_default = hub_run [] hub_default" by (simp add: hub_run_def)
  obtain s' where m: "member_open 7 DirectTopology DirectPath 0 (hub_run [HePath 7 1 RelayPath 9]) True (Some 20000)
       (Some 20000) hub_default = (s', Err (MemberHub HubSessionContinuityLost))"
    by (simp add: member_open_def register_default observe_peer_activity_def ensure_current_def saturating_sub_def
        bounds_simps Let_def)
  from member_open_outcome [OF d m] m show ?thesis by auto
qed

end
