(* ===== verification/Host_Transfer_Journal.thy ===== *)
theory Host_Transfer_Journal
  imports Ab_Journal File_Transfer Target_Path
begin

section \<open>The host's file-transfer journal (clew-host, file_transfer.rs)\<close>

text \<open>
  The snapshots in which a host keeps its file transfers over a restart, their validation, and the
  two slot files they are written to (slot A for even generations). Paths are strings of bytes;
  what the standard library reads off them differs between operating systems and is in
  \<open>transfer_paths\<close>, with its Unix instance. A formatted error is its literal beginning.
\<close>

subsection \<open>Paths\<close>

definition HARD_MAX_HOST_FILE_TRANSFERS :: nat where
  [bounds_simps]: "HARD_MAX_HOST_FILE_TRANSFERS = 16"
definition HARD_MAX_RENAME_ATTEMPTS :: nat where
  [bounds_simps]: "HARD_MAX_RENAME_ATTEMPTS = 1024"

text \<open>\<^verbatim>\<open>Path::parent\<close> and \<^verbatim>\<open>Path::file_name\<close>.\<close>

record transfer_paths =
  tp_platform :: platform
  tp_parent :: "string \<Rightarrow> string option"
  tp_file_name :: "string \<Rightarrow> string option"

definition unix_render :: "string list \<Rightarrow> string" where
  "unix_render cs =
     (case cs of
        [] \<Rightarrow> []
      | c # r \<Rightarrow> if c = ''/'' then ''/'' @ join_with (CHR ''/'') r else join_with (CHR ''/'') cs)"

definition unix_parent :: "string \<Rightarrow> string option" where
  "unix_parent p =
     (let cs = unix_components p in
      if cs = [] \<or> cs = [''/''] then None else Some (unix_render (butlast cs)))"

definition unix_file_name :: "string \<Rightarrow> string option" where
  "unix_file_name p =
     (let cs = unix_components p in
      if cs = [] \<or> last cs \<in> {''/'', ''.'', ''..''} then None else Some (last cs))"

definition unix_paths :: transfer_paths where
  "unix_paths = \<lparr>tp_platform = unix_platform, tp_parent = unix_parent, tp_file_name = unix_file_name\<rparr>"

text \<open>Paths are compared by their components.\<close>

definition path_parts :: "transfer_paths \<Rightarrow> string \<Rightarrow> string list" where
  "path_parts tp p = pl_components (tp_platform tp) p"

definition path_eq :: "transfer_paths \<Rightarrow> string \<Rightarrow> string \<Rightarrow> bool" where
  "path_eq tp p q \<longleftrightarrow> path_parts tp p = path_parts tp q"

definition same_parent :: "transfer_paths \<Rightarrow> string \<Rightarrow> string \<Rightarrow> bool" where
  "same_parent tp p q \<longleftrightarrow>
     map_option (path_parts tp) (tp_parent tp p) = map_option (path_parts tp) (tp_parent tp q)"

text \<open>\<^verbatim>\<open>to_string_lossy\<close> puts U+FFFD for each longest piece that cannot begin a character.\<close>

definition replacement :: string where
  "replacement = [CHR 0xEF, CHR 0xBF, CHR 0xBD]"

fun to_string_lossy :: "string \<Rightarrow> string" where
  "to_string_lossy [] = []"
| "to_string_lossy (a # r) =
     (if code a < 128 then a # to_string_lossy r
      else if in_range 194 223 a then
        (case r of
           b # r1 \<Rightarrow> if cont_byte b then a # b # to_string_lossy r1 else replacement @ to_string_lossy r
         | [] \<Rightarrow> replacement)
      else if in_range 224 239 a then
        (case r of
           b # r1 \<Rightarrow>
             if (if code a = 224 then in_range 160 191 b
                 else if code a = 237 then in_range 128 159 b else cont_byte b)
             then (case r1 of
                     c # r2 \<Rightarrow> if cont_byte c then a # b # c # to_string_lossy r2
                              else replacement @ to_string_lossy r1
                   | [] \<Rightarrow> replacement)
             else replacement @ to_string_lossy r
         | [] \<Rightarrow> replacement)
      else if in_range 240 244 a then
        (case r of
           b # r1 \<Rightarrow>
             if (if code a = 240 then in_range 144 191 b
                 else if code a = 244 then in_range 128 143 b else cont_byte b)
             then (case r1 of
                     c # r2 \<Rightarrow>
                       if cont_byte c
                       then (case r2 of
                               d # r3 \<Rightarrow> if cont_byte d then a # b # c # d # to_string_lossy r3
                                        else replacement @ to_string_lossy r2
                             | [] \<Rightarrow> replacement)
                       else replacement @ to_string_lossy r1
                   | [] \<Rightarrow> replacement)
             else replacement @ to_string_lossy r
         | [] \<Rightarrow> replacement)
      else replacement @ to_string_lossy r)"

lemma to_string_lossy_valid: "utf8_valid s \<Longrightarrow> to_string_lossy s = s"
proof (induction s rule: utf8_valid.induct)
  case (2 a r)
  show ?case
  proof (cases "code a < 128")
    case True
    then show ?thesis using 2 by simp
  next
    case False
    note n = False
    consider "in_range 194 223 a" | "in_range 224 239 a" "\<not> in_range 194 223 a"
      | "in_range 240 244 a" "\<not> in_range 224 239 a" "\<not> in_range 194 223 a"
      using 2(5) n by (auto split: if_splits)
    then show ?thesis
    proof cases
      case 1
      then obtain b r1 where r: "r = b # r1" using 2(5) n by (cases r) auto
      then show ?thesis using 2(2) [OF n 1 r] 2(5) n 1 by simp
    next
      case 2
      then obtain b c r2 where r: "r = b # c # r2"
        using "2.prems" n by (auto split: list.splits)
      then show ?thesis using "2.IH"(3) [OF n 2(2,1) r] "2.prems" n 2 by simp
    next
      case 3
      then obtain b c d r3 where r: "r = b # c # d # r3"
        using "2.prems" n by (auto split: list.splits)
      then show ?thesis using "2.IH"(4) [OF n 3(3,2,1) r] "2.prems" n 3 by simp
    qed
  qed
qed simp

declare to_string_lossy.simps [simp del]

text \<open>The decimal text of a number.\<close>

fun show_decimal :: "nat \<Rightarrow> string" where
  "show_decimal n =
     (if n < 10 then [hex_digit n] else show_decimal (n div 10) @ [hex_digit (n mod 10)])"

declare show_decimal.simps [simp del]

definition rename_candidate :: "transfer_paths \<Rightarrow> string \<Rightarrow> nat \<Rightarrow> string option" where
  "rename_candidate tp path attempt =
     (case tp_parent tp path of
        None \<Rightarrow> None
      | Some parent \<Rightarrow>
          (case tp_file_name tp path of
             None \<Rightarrow> None
           | Some file_name \<Rightarrow>
               if \<not> utf8_valid file_name then None
               else (let renamed = pl_join (tp_platform tp) parent
                           (file_name @ ''.clew-'' @ show_decimal attempt) in
                     if length (to_string_lossy renamed) \<le> HARD_MAX_READ_ROOT_BYTES
                     then Some renamed else None)))"

definition is_valid_finalizing_path ::
    "transfer_paths \<Rightarrow> string \<Rightarrow> string \<Rightarrow> file_conflict_policy option \<Rightarrow> bool" where
  "is_valid_finalizing_path tp target finalizing conflict =
     (if \<not> same_parent tp target finalizing then False
      else case conflict of
        Some FailIfExists \<Rightarrow> path_eq tp finalizing target
      | Some ReplaceExisting \<Rightarrow> path_eq tp finalizing target
      | Some RenameIfExists \<Rightarrow>
          path_eq tp finalizing target
          \<or> list_ex (\<lambda>attempt. case rename_candidate tp target attempt of
                None \<Rightarrow> False | Some renamed \<Rightarrow> path_eq tp renamed finalizing)
              [1..<HARD_MAX_RENAME_ATTEMPTS + 1]
      | None \<Rightarrow> False)"

subsection \<open>Snapshots\<close>

record durable_put =
  dp_sequence :: u64
  dp_manifest :: file_transfer_manifest
  dp_descriptor :: file_resume_descriptor
  dp_phase :: file_transfer_phase
  dp_requested_target :: string
  dp_part_path :: "string option"
  dp_final_device_path :: "string option"
  dp_finalizing_path :: "string option"

record durable_get =
  dg_requested_device_path :: string
  dg_chunk_size :: u32
  dg_manifest :: file_transfer_manifest

record transfer_snapshot =
  sn_controller_id :: controller_id
  sn_site_id :: site_id
  sn_device_id :: device_id
  sn_generation :: u64
  sn_puts :: "durable_put list"
  sn_gets :: "durable_get list"

datatype host_transfer_error =
    HtScopeMismatch
  | HtInvalidState string
  | HtGenerationConflict u64
  | HtGenerationOverflow
  | HtStatePoisoned
  | HtStateCodec state_codec_error
  | HtIo string

text \<open>Whose transfers they are: the controller, the site and the device of a membership.\<close>

record transfer_scope =
  sc_controller :: controller_id
  sc_site :: site_id
  sc_device :: device_id

definition in_scope :: "transfer_scope \<Rightarrow> file_transfer_manifest \<Rightarrow> bool" where
  "in_scope sc m \<longleftrightarrow> fm_controller_id m = sc_controller sc \<and> fm_site_id m = sc_site sc
     \<and> fm_device_id m = sc_device sc"

definition bad_private_path :: "transfer_paths \<Rightarrow> string \<Rightarrow> bool" where
  "bad_private_path tp p \<longleftrightarrow> trim p = [] \<or> length p > HARD_MAX_READ_ROOT_BYTES
     \<or> \<not> pl_is_absolute (tp_platform tp) p"

definition check_put ::
    "transfer_paths \<Rightarrow> transfer_scope \<Rightarrow> durable_put \<Rightarrow> transfer_id list
     \<Rightarrow> (host_transfer_error, transfer_id list) result" where
  "check_put tp sc p ids =
     (let m = dp_manifest p; d = dp_descriptor p in
      bind_r (map_err (\<lambda>_. HtInvalidState ''invalid persisted Put manifest'') (manifest_validate m)) (\<lambda>_.
      bind_r (map_err (\<lambda>_. HtInvalidState ''invalid persisted Put checkpoint'') (fd_validate d)) (\<lambda>_.
        if fm_transfer_id m \<noteq> fd_transfer_id d \<or> \<not> in_scope sc m
           \<or> fm_direction m \<noteq> ControllerToDevice
           \<or> fd_device_path d \<noteq> fm_device_path m
           \<or> fd_total_size d \<noteq> fm_total_size m
           \<or> fd_final_sha256 d \<noteq> Some (fm_final_sha256 m)
           \<or> fm_transfer_id m \<in> set ids
        then Err (HtInvalidState ''persisted Put scope/checkpoint is inconsistent'')
        else if bad_private_path tp (dp_requested_target p)
           \<or> (case dp_part_path p of None \<Rightarrow> False | Some q \<Rightarrow> bad_private_path tp q)
           \<or> (case dp_finalizing_path p of None \<Rightarrow> False
              | Some q \<Rightarrow> bad_private_path tp q
                  \<or> \<not> is_valid_finalizing_path tp (dp_requested_target p) q (fm_conflict_policy m))
           \<or> (dp_finalizing_path p \<noteq> None
              \<and> (dp_phase p \<noteq> ReadyToFinalize \<or> fd_confirmed_offset d \<noteq> fm_total_size m))
        then Err (HtInvalidState ''persisted Put private path is invalid'')
        else Ok (fm_transfer_id m # ids))))"

definition check_get ::
    "transfer_scope \<Rightarrow> durable_get \<Rightarrow> transfer_id list \<Rightarrow> (host_transfer_error, transfer_id list) result" where
  "check_get sc g ids =
     (let m = dg_manifest g in
      bind_r (map_err (\<lambda>_. HtInvalidState ''invalid persisted Get manifest'') (manifest_validate m)) (\<lambda>_.
        if \<not> in_scope sc m \<or> fm_direction m \<noteq> DeviceToController
           \<or> dg_chunk_size g \<noteq> fm_chunk_size m
           \<or> trim (dg_requested_device_path g) = []
           \<or> fm_transfer_id m \<in> set ids
        then Err (HtInvalidState ''persisted Get binding is inconsistent'')
        else Ok (fm_transfer_id m # ids)))"

definition transfers_validate ::
    "transfer_paths \<Rightarrow> transfer_scope \<Rightarrow> transfer_snapshot \<Rightarrow> (host_transfer_error, unit) result" where
  "transfers_validate tp sc s =
     (if sn_controller_id s \<noteq> sc_controller sc \<or> sn_site_id s \<noteq> sc_site sc
         \<or> sn_device_id s \<noteq> sc_device sc
      then Err HtScopeMismatch
      else if length (sn_puts s) + length (sn_gets s) > HARD_MAX_HOST_FILE_TRANSFERS
      then Err (HtInvalidState ''Host file transfer journal exceeds the hard entry bound'')
      else bind_r (fold_r (check_put tp sc) (sn_puts s) []) (\<lambda>ids.
           bind_r (fold_r (check_get sc) (sn_gets s) ids) (\<lambda>_. Ok ())))"

subsection \<open>The slots\<close>

type_synonym transfer_json = "transfer_snapshot state_json"

definition read_host_transfer_slot ::
    "transfer_json \<Rightarrow> slot_file \<Rightarrow> (host_transfer_error, transfer_snapshot) slot_read" where
  "read_host_transfer_slot j f =
     (case f of
        NoFile \<Rightarrow> SlotMissing
      | StatFails e \<Rightarrow> SlotInvalid (HtIo e)
      | ReadFails n e \<Rightarrow> SlotInvalid (HtIo e)
      | File bs \<Rightarrow>
          if length bs > MAX_STATE_DOCUMENT_SIZE
          then SlotInvalid (HtInvalidState ''Host transfer journal exceeds the state document hard bound'')
          else (case decode_state_json j bs of
                  Inl e \<Rightarrow> SlotInvalid (HtStateCodec e)
                | Inr s \<Rightarrow> SlotValid s))"

definition ht_errors :: "host_transfer_error slot_errors" where
  "ht_errors = \<lparr>io_error = HtIo, codec_error = HtStateCodec,
     too_large = (\<lambda>_. HtInvalidState ''Host transfer journal exceeds the state document hard bound'')\<rparr>"

definition write_host_transfer_slot ::
    "transfer_json \<Rightarrow> write_outcome \<Rightarrow> transfer_snapshot \<Rightarrow> slot_file
     \<Rightarrow> slot_file \<times> (host_transfer_error, unit) result" where
  "write_host_transfer_slot j w s old = write_slot ht_errors j w s old"

definition load_transfer_slots ::
    "transfer_paths \<Rightarrow> transfer_scope \<Rightarrow> transfer_json \<Rightarrow> slot_file \<Rightarrow> slot_file
     \<Rightarrow> (host_transfer_error, transfer_snapshot option) result" where
  "load_transfer_slots tp sc j a b =
     pick_slots HtGenerationConflict (HtInvalidState ''Host file transfer journal has no valid slot'')
       sn_generation (transfers_validate tp sc)
       (read_host_transfer_slot j a) (read_host_transfer_slot j b)"

definition empty_transfers :: "transfer_scope \<Rightarrow> transfer_snapshot" where
  "empty_transfers sc =
     \<lparr>sn_controller_id = sc_controller sc, sn_site_id = sc_site sc, sn_device_id = sc_device sc,
      sn_generation = 0, sn_puts = [], sn_gets = []\<rparr>"

text \<open>Nothing is written when neither slot is there.\<close>

definition load_transfers ::
    "transfer_paths \<Rightarrow> transfer_scope \<Rightarrow> transfer_json \<Rightarrow> slot_file \<Rightarrow> slot_file
     \<Rightarrow> (host_transfer_error, transfer_snapshot) result" where
  "load_transfers tp sc j a b =
     bind_r (load_transfer_slots tp sc j a b) (\<lambda>s.
       Ok (case s of None \<Rightarrow> empty_transfers sc | Some s \<Rightarrow> s))"

subsection \<open>Lemmas\<close>

text \<open>What validation means for the entries of a snapshot.\<close>

definition durable_put_ok :: "transfer_paths \<Rightarrow> transfer_scope \<Rightarrow> durable_put \<Rightarrow> bool" where
  "durable_put_ok tp sc p \<longleftrightarrow>
     (let m = dp_manifest p; d = dp_descriptor p in
      manifest_ok m \<and> fd_ok d \<and> fd_transfer_id d = fm_transfer_id m \<and> in_scope sc m
      \<and> fm_direction m = ControllerToDevice \<and> fd_device_path d = fm_device_path m
      \<and> fd_total_size d = fm_total_size m \<and> fd_final_sha256 d = Some (fm_final_sha256 m)
      \<and> \<not> bad_private_path tp (dp_requested_target p)
      \<and> (\<forall>q. dp_part_path p = Some q \<longrightarrow> \<not> bad_private_path tp q)
      \<and> (\<forall>q. dp_finalizing_path p = Some q \<longrightarrow> \<not> bad_private_path tp q
           \<and> is_valid_finalizing_path tp (dp_requested_target p) q (fm_conflict_policy m)
           \<and> dp_phase p = ReadyToFinalize \<and> fd_confirmed_offset d = fm_total_size m))"

definition durable_get_ok :: "transfer_scope \<Rightarrow> durable_get \<Rightarrow> bool" where
  "durable_get_ok sc g \<longleftrightarrow>
     (let m = dg_manifest g in
      manifest_ok m \<and> in_scope sc m \<and> fm_direction m = DeviceToController
      \<and> dg_chunk_size g = fm_chunk_size m \<and> trim (dg_requested_device_path g) \<noteq> [])"

definition snapshot_ids :: "transfer_snapshot \<Rightarrow> transfer_id list" where
  "snapshot_ids s = map (fm_transfer_id \<circ> dp_manifest) (sn_puts s)
     @ map (fm_transfer_id \<circ> dg_manifest) (sn_gets s)"

definition transfers_ok :: "transfer_paths \<Rightarrow> transfer_scope \<Rightarrow> transfer_snapshot \<Rightarrow> bool" where
  "transfers_ok tp sc s \<longleftrightarrow> sn_controller_id s = sc_controller sc \<and> sn_site_id s = sc_site sc
     \<and> sn_device_id s = sc_device sc
     \<and> length (sn_puts s) + length (sn_gets s) \<le> 16
     \<and> (\<forall>p \<in> set (sn_puts s). durable_put_ok tp sc p)
     \<and> (\<forall>g \<in> set (sn_gets s). durable_get_ok sc g)
     \<and> distinct (snapshot_ids s)"

lemma check_put_Ok:
  "check_put tp sc p ids = Ok ids' \<longleftrightarrow> durable_put_ok tp sc p
     \<and> fm_transfer_id (dp_manifest p) \<notin> set ids \<and> ids' = fm_transfer_id (dp_manifest p) # ids"
  unfolding durable_put_ok_def Let_def check_put_def
  by (cases "dp_part_path p"; cases "dp_finalizing_path p";
      simp add: bind_r_Ok manifest_validate_Ok fd_validate_Ok eq_commute [of ids']
        eq_commute [of "fm_transfer_id (dp_manifest p)" "fd_transfer_id (dp_descriptor p)"]; argo)

lemma check_get_Ok:
  "check_get sc g ids = Ok ids' \<longleftrightarrow> durable_get_ok sc g
     \<and> fm_transfer_id (dg_manifest g) \<notin> set ids \<and> ids' = fm_transfer_id (dg_manifest g) # ids"
  by (auto simp: check_get_def durable_get_ok_def Let_def bind_r_Ok manifest_validate_Ok)

lemma fold_check_distinct:
  assumes "\<And>x ids ids'. f x ids = Ok ids' \<longleftrightarrow> ok x \<and> key x \<notin> set ids \<and> ids' = key x # ids"
  shows "fold_r f xs ids = Ok ids' \<longleftrightarrow> (\<forall>x \<in> set xs. ok x) \<and> distinct (map key xs)
    \<and> (\<forall>x \<in> set xs. key x \<notin> set ids) \<and> ids' = rev (map key xs) @ ids"
proof (induction xs arbitrary: ids)
  case (Cons x xs)
  have "fold_r f (x # xs) ids = Ok ids' \<longleftrightarrow>
      ok x \<and> key x \<notin> set ids \<and> fold_r f xs (key x # ids) = Ok ids'"
    by (simp only: fold_r.simps bind_r_Ok assms) blast
  also have "\<dots> \<longleftrightarrow> ok x \<and> key x \<notin> set ids \<and> (\<forall>y \<in> set xs. ok y) \<and> distinct (map key xs)
      \<and> (\<forall>y \<in> set xs. key y \<noteq> key x \<and> key y \<notin> set ids) \<and> ids' = rev (map key xs) @ key x # ids"
    by (simp add: Cons.IH)
  also have "\<dots> \<longleftrightarrow> (\<forall>y \<in> set (x # xs). ok y) \<and> distinct (map key (x # xs))
      \<and> (\<forall>y \<in> set (x # xs). key y \<notin> set ids) \<and> ids' = rev (map key (x # xs)) @ ids"
    by (auto simp: image_iff)
  finally show ?case .
qed auto

lemma transfers_validate_Ok: "transfers_validate tp sc s = Ok u \<longleftrightarrow> transfers_ok tp sc s"
proof -
  have "fold_r (check_put tp sc) (sn_puts s) [] = Ok ids \<and> fold_r (check_get sc) (sn_gets s) ids = Ok ids' \<longleftrightarrow>
      (\<forall>p \<in> set (sn_puts s). durable_put_ok tp sc p) \<and> (\<forall>g \<in> set (sn_gets s). durable_get_ok sc g)
      \<and> distinct (snapshot_ids s)
      \<and> ids = rev (map (fm_transfer_id \<circ> dp_manifest) (sn_puts s))
      \<and> ids' = rev (map (fm_transfer_id \<circ> dg_manifest) (sn_gets s)) @ ids" for ids ids'
    unfolding fold_check_distinct [of "check_put tp sc" "durable_put_ok tp sc" "fm_transfer_id \<circ> dp_manifest",
        unfolded comp_def, OF check_put_Ok]
      fold_check_distinct [of "check_get sc" "durable_get_ok sc" "fm_transfer_id \<circ> dg_manifest",
        unfolded comp_def, OF check_get_Ok]
    by (auto simp: snapshot_ids_def comp_def image_iff) metis
  then have "(\<exists>ids ids'. fold_r (check_put tp sc) (sn_puts s) [] = Ok ids
        \<and> fold_r (check_get sc) (sn_gets s) ids = Ok ids') \<longleftrightarrow>
      (\<forall>p \<in> set (sn_puts s). durable_put_ok tp sc p) \<and> (\<forall>g \<in> set (sn_gets s). durable_get_ok sc g)
      \<and> distinct (snapshot_ids s)"
    by simp
  then show ?thesis
    by (simp add: transfers_validate_def transfers_ok_def bounds_simps bind_r_Ok not_less) blast
qed

lemma empty_transfers_ok: "transfers_ok tp sc (empty_transfers sc)"
  by (simp add: transfers_ok_def empty_transfers_def snapshot_ids_def)

lemma transfer_slot_holds:
  "slot_holds check (read_host_transfer_slot j f) s \<longleftrightarrow> slot_holds check (read_slot ht_errors j f) s"
  by (auto simp: slot_holds_def read_host_transfer_slot_def read_slot_def ht_errors_def
      split: slot_file.splits sum.splits)

interpretation ht: ab_journal sn_generation even_to_a
    "\<lambda>f. slot_holds (transfers_validate tp sc) (read_host_transfer_slot j f)"
    "slot_good j (transfers_validate tp sc)" "write_host_transfer_slot j" "load_transfer_slots tp sc j"
  unfolding load_transfer_slots_def [abs_def] write_host_transfer_slot_def [abs_def]
  by (rule ab_journal_reader) (rule even_to_a_alternates transfer_slot_holds)+

end
