(* ===== verification/Host_Transfer.thy ===== *)
theory Host_Transfer
  imports Host_Transfer_Journal
begin

section \<open>The host's file-transfer service (clew-host, file_transfer.rs)\<close>

text \<open>
  Puts are received into private part files, chunk by chunk at the confirmed offset, and renamed to
  their target when every byte is confirmed and hashes to the manifest's SHA-256; gets send the
  chunks of an open file. A durable service journals its transfers and rebuilds them when it starts
  again. What the operating system answers while an operation runs is in \<open>transfer_fs\<close> or an
  argument of the operation; the state holds the part files, whose random names nothing else on the
  host uses, and the files at canonical paths as the last operation left them. A hasher is the bytes
  it was fed. A poisoned mutex is not modelled, and the replies are built from literals far below
  the 512 bytes at which they would be cut.
\<close>

subsection \<open>Entries, state and environment\<close>

record last_chunk =
  lc_offset :: u64
  lc_len :: usize
  lc_sha256 :: string

record put_entry =
  pe_sequence :: u64
  pe_manifest :: file_transfer_manifest
  pe_descriptor :: file_resume_descriptor
  pe_phase :: file_transfer_phase
  pe_requested_target :: string
  pe_temp :: "string option"
  pe_prefix :: bytes
  pe_last_chunk :: "last_chunk option"
  pe_final_device_path :: "string option"
  pe_finalizing_path :: "string option"

text \<open>The open file of a get is what \<open>get_chunk\<close> reads from.\<close>

record get_entry =
  ge_requested_device_path :: string
  ge_chunk_size :: u32
  ge_manifest :: file_transfer_manifest

datatype file_node = FileNode bytes | DirNode | SymlinkNode | OtherNode

type_synonym host_files = "string list \<Rightarrow> file_node option"

record host_transfer =
  hx_next_sequence :: u64
  hx_puts :: "(transfer_id, put_entry) btree"
  hx_gets :: "(transfer_id, get_entry) btree"
  hx_generation :: u64
  hx_slot_a :: slot_file
  hx_slot_b :: slot_file
  hx_parts :: "string \<Rightarrow> bytes option"
  hx_files :: host_files

record transfer_host =
  th_policy :: read_policy
  th_scope :: transfer_scope
  th_can_get :: bool
  th_can_put :: bool
  th_durable :: bool
  th_paths :: transfer_paths
  th_sha :: "bytes \<Rightarrow> bytes"
  th_base64 :: base64
  th_json :: transfer_json

datatype lstat = LstatMissing | LstatFails | LstatNode file_node

datatype source_read = SourceOpenFails | SourceReadFails | SourceBytes bytes

datatype part_stat =
    PartAsIs | PartStatFails string | PartNotRegular | PartOpenFails string | PartReadFails string
  | PartShort | PartSeekFails string | PartPathFails string

record transfer_fs =
  tf_host :: host_fs
  tf_lstat :: "string \<Rightarrow> lstat"
  tf_read :: "string \<Rightarrow> source_read"
  tf_seek_error :: "string \<Rightarrow> string option"
  tf_part :: "string \<Rightarrow> part_stat"

subsection \<open>Replies\<close>

definition transfer_error :: "file_transfer_error_code \<Rightarrow> string \<Rightarrow> file_transfer_reply" where
  "transfer_error c message = FtrError \<lparr>fte_code = c, fte_message = message\<rparr>"

definition transfer_denied :: "string \<Rightarrow> file_transfer_reply" where
  "transfer_denied message = transfer_error FtcDenied message"
definition transfer_io :: "string \<Rightarrow> file_transfer_reply" where
  "transfer_io message = transfer_error FtcIo message"
definition transfer_not_found :: file_transfer_reply where
  "transfer_not_found = transfer_error FtcNotFound ''file transfer was not found''"

lemma transfer_error_built:
  "length message \<le> 512 \<Longrightarrow> ft_reply_error c message = Some (transfer_error c message)"
  by (simp add: ft_reply_error_def transfer_error_def bounded_message_def bounds_simps)

definition put_status :: "put_entry \<Rightarrow> file_transfer_reply" where
  "put_status e = FtrStatus \<lparr>fs_descriptor = pe_descriptor e, fs_phase = pe_phase e,
     fs_final_device_path = pe_final_device_path e\<rparr>"

subsection \<open>The signed policy\<close>

definition ensure_allowed_file :: "transfer_host \<Rightarrow> transfer_fs \<Rightarrow> string \<Rightarrow> (file_transfer_reply, unit) result" where
  "ensure_allowed_file h fs path =
     (if all_filesystem (th_policy h) then Ok ()
      else if under_some_root (tp_platform (th_paths h)) (tf_host fs) (roots (th_policy h)) path then Ok ()
      else Err (transfer_denied ''device source is outside signed roots''))"

definition ensure_allowed_parent :: "transfer_host \<Rightarrow> transfer_fs \<Rightarrow> string \<Rightarrow> (file_transfer_reply, unit) result" where
  "ensure_allowed_parent h fs parent =
     (if all_filesystem (th_policy h) then Ok ()
      else if under_some_root (tp_platform (th_paths h)) (tf_host fs) (roots (th_policy h)) parent then Ok ()
      else Err (transfer_denied ''device destination is outside signed roots''))"

text \<open>The canonical path of a source, its bytes, size and SHA-256.\<close>

definition source_contents ::
    "transfer_host \<Rightarrow> transfer_fs \<Rightarrow> string \<Rightarrow> (file_transfer_reply, string \<times> bytes \<times> u64 \<times> string) result" where
  "source_contents h fs canonical =
     (case tf_read fs canonical of
        SourceOpenFails \<Rightarrow> Err (transfer_io ''device source open failed'')
      | SourceReadFails \<Rightarrow> Err (transfer_io ''device source hashing read failed'')
      | SourceBytes bs \<Rightarrow>
          if length bs \<ge> 2 ^ 64 then Err (transfer_io ''device source size overflow'')
          else if \<not> utf8_valid canonical then Err (transfer_io ''device source path is not valid UTF-8'')
          else Ok (canonical, bs, word_of_nat (length bs), sha256_hex (th_sha h) bs))"

definition prepare_get_source ::
    "transfer_host \<Rightarrow> transfer_fs \<Rightarrow> string \<Rightarrow> (file_transfer_reply, string \<times> bytes \<times> u64 \<times> string) result" where
  "prepare_get_source h fs requested =
     (let pl = tp_platform (th_paths h) in
      bind_r (map_err (\<lambda>_. transfer_denied ''device source must be absolute or use ~/...'')
                (expand_target_path pl (fs_env_var (tf_host fs)) requested)) (\<lambda>p.
        if \<not> pl_is_absolute pl p
        then Err (transfer_denied ''device source must be absolute or use ~/...'')
        else (case tf_lstat fs p of
            LstatMissing \<Rightarrow> Err (transfer_error FtcNotFound ''device source was not found'')
          | LstatFails \<Rightarrow> Err (transfer_io ''device source metadata failed'')
          | LstatNode SymlinkNode \<Rightarrow> Err (transfer_denied ''device source cannot be a symlink'')
          | LstatNode (FileNode _) \<Rightarrow>
              bind_r (ok_or (fs_canonicalize (tf_host fs) p)
                        (transfer_io ''device source canonicalization failed'')) (\<lambda>canonical.
              bind_r (ensure_allowed_file h fs canonical) (\<lambda>_.
                source_contents h fs canonical))
          | LstatNode _ \<Rightarrow>
              Err (transfer_error FtcConflict ''device source is not a regular file''))))"

definition put_target_free ::
    "transfer_fs \<Rightarrow> file_conflict_policy option \<Rightarrow> string \<Rightarrow> (file_transfer_reply, string) result" where
  "put_target_free fs conflict target =
     (case tf_lstat fs target of
        LstatNode SymlinkNode \<Rightarrow> Err (transfer_denied ''device destination cannot be a symlink'')
      | LstatNode DirNode \<Rightarrow> Err (transfer_error FtcConflict ''device destination is a directory'')
      | LstatNode _ \<Rightarrow>
          if conflict = Some FailIfExists
          then Err (transfer_error FtcConflict ''device destination already exists'')
          else Ok target
      | LstatMissing \<Rightarrow> Ok target
      | LstatFails \<Rightarrow> Err (transfer_io ''device destination metadata failed''))"

definition prepare_put_target ::
    "transfer_host \<Rightarrow> transfer_fs \<Rightarrow> file_transfer_manifest \<Rightarrow> (file_transfer_reply, string) result" where
  "prepare_put_target h fs m =
     (let tp = th_paths h; pl = tp_platform tp in
      bind_r (map_err (\<lambda>_. transfer_denied ''device destination must be absolute or use ~/...'')
                (expand_target_path pl (fs_env_var (tf_host fs)) (fm_device_path m))) (\<lambda>p.
        if \<not> pl_is_absolute pl p
        then Err (transfer_denied ''device destination must be absolute or use ~/...'')
        else
          bind_r (ok_or (tp_file_name tp p)
                    (transfer_error FtcInvalidRequest ''device destination must end in a normal filename''))
            (\<lambda>file_name.
          bind_r (ok_or (tp_parent tp p)
                    (transfer_error FtcInvalidRequest ''device destination parent is invalid'')) (\<lambda>parent.
          bind_r (ok_or (fs_canonicalize (tf_host fs) parent)
                    (transfer_error FtcNotFound ''device destination parent was not found'')) (\<lambda>parent.
          bind_r (ensure_allowed_parent h fs parent) (\<lambda>_.
            put_target_free fs (fm_conflict_policy m) (pl_join pl parent file_name)))))))"

subsection \<open>The journal\<close>

definition durable_put_of :: "put_entry \<Rightarrow> durable_put" where
  "durable_put_of e =
     \<lparr>dp_sequence = pe_sequence e, dp_manifest = pe_manifest e, dp_descriptor = pe_descriptor e,
      dp_phase = pe_phase e, dp_requested_target = to_string_lossy (pe_requested_target e),
      dp_part_path = map_option to_string_lossy (pe_temp e),
      dp_final_device_path = pe_final_device_path e,
      dp_finalizing_path = map_option to_string_lossy (pe_finalizing_path e)\<rparr>"

definition durable_get_of :: "get_entry \<Rightarrow> durable_get" where
  "durable_get_of e =
     \<lparr>dg_requested_device_path = ge_requested_device_path e, dg_chunk_size = ge_chunk_size e,
      dg_manifest = ge_manifest e\<rparr>"

definition snapshot_of :: "transfer_host \<Rightarrow> u64 \<Rightarrow> host_transfer \<Rightarrow> transfer_snapshot" where
  "snapshot_of h g s =
     \<lparr>sn_controller_id = sc_controller (th_scope h), sn_site_id = sc_site (th_scope h),
      sn_device_id = sc_device (th_scope h), sn_generation = g,
      sn_puts = map (durable_put_of \<circ> snd) (hx_puts s), sn_gets = map (durable_get_of \<circ> snd) (hx_gets s)\<rparr>"

definition persist_transfers ::
    "transfer_host \<Rightarrow> write_outcome \<Rightarrow> host_transfer \<Rightarrow> host_transfer \<times> (host_transfer_error, unit) result" where
  "persist_transfers h w s =
     (case checked_add (hx_generation s) 1 of
        None \<Rightarrow> (s, Err HtGenerationOverflow)
      | Some g \<Rightarrow>
          (let c = snapshot_of h g s in
           case transfers_validate (th_paths h) (th_scope h) c of
             Inl e \<Rightarrow> (s, Err e)
           | Inr _ \<Rightarrow>
               (let (f, r) = write_host_transfer_slot (th_json h) w c
                      (if even_to_a g then hx_slot_a s else hx_slot_b s);
                    s' = (if even_to_a g then s\<lparr>hx_slot_a := f\<rparr> else s\<lparr>hx_slot_b := f\<rparr>) in
                case r of
                  Inl e \<Rightarrow> (s', Err e)
                | Inr _ \<Rightarrow> (s'\<lparr>hx_generation := g\<rparr>, Ok ()))))"

text \<open>Only a durable service has a journal.\<close>

definition journal ::
    "transfer_host \<Rightarrow> write_outcome \<Rightarrow> host_transfer \<Rightarrow> host_transfer \<times> bool" where
  "journal h w s =
     (if th_durable h then (let (s', r) = persist_transfers h w s in (s', is_ok r)) else (s, True))"

text \<open>An entry that is dropped takes its part file with it.\<close>

definition drop_put :: "transfer_id \<Rightarrow> host_transfer \<Rightarrow> host_transfer" where
  "drop_put tid s =
     (case bt_get (hx_puts s) tid of
        None \<Rightarrow> s
      | Some e \<Rightarrow>
          s\<lparr>hx_puts := bt_remove tid (hx_puts s),
            hx_parts := (case pe_temp e of None \<Rightarrow> hx_parts s | Some p \<Rightarrow> (hx_parts s)(p := None))\<rparr>)"

definition drop_get :: "transfer_id \<Rightarrow> host_transfer \<Rightarrow> host_transfer" where
  "drop_get tid s = s\<lparr>hx_gets := bt_remove tid (hx_gets s)\<rparr>"

definition set_put :: "transfer_id \<Rightarrow> put_entry \<Rightarrow> host_transfer \<Rightarrow> host_transfer" where
  "set_put tid e s = s\<lparr>hx_puts := bt_insert tid e (hx_puts s)\<rparr>"

definition set_get :: "transfer_id \<Rightarrow> get_entry \<Rightarrow> host_transfer \<Rightarrow> host_transfer" where
  "set_get tid e s = s\<lparr>hx_gets := bt_insert tid e (hx_gets s)\<rparr>"

definition transfer_count :: "host_transfer \<Rightarrow> nat" where
  "transfer_count s = length (hx_puts s) + length (hx_gets s)"

text \<open>The oldest completed put, the first of equal sequence numbers.\<close>

fun min_sequence :: "(transfer_id \<times> put_entry) list \<Rightarrow> (transfer_id \<times> put_entry) option" where
  "min_sequence [] = None"
| "min_sequence (x # xs) =
     (case min_sequence xs of
        None \<Rightarrow> Some x
      | Some y \<Rightarrow> if pe_sequence (snd y) < pe_sequence (snd x) then Some y else Some x)"

definition completed_candidate :: "host_transfer \<Rightarrow> transfer_id option" where
  "completed_candidate s =
     map_option fst (min_sequence (filter (\<lambda>(tid, e). pe_phase e = Completed) (hx_puts s)))"

lemma min_sequence_in: "min_sequence xs = Some x \<Longrightarrow> x \<in> set xs"
  by (induction xs arbitrary: x) (auto split: option.splits if_splits)

lemma completed_candidate_Some:
  assumes "completed_candidate s = Some tid"
  shows "bt_get (hx_puts s) tid \<noteq> None"
proof -
  obtain x where x: "min_sequence (filter (\<lambda>(tid, e). pe_phase e = Completed) (hx_puts s)) = Some x"
    "fst x = tid"
    using assms by (auto simp: completed_candidate_def)
  have "x \<in> set (hx_puts s)" using min_sequence_in [OF x(1)] by simp
  then show ?thesis using x(2) by (auto simp: bt_get_None)
qed

function prune_completed :: "host_transfer \<Rightarrow> host_transfer" where
  "prune_completed s =
     (if transfer_count s \<ge> HARD_MAX_HOST_FILE_TRANSFERS
      then (case completed_candidate s of
              None \<Rightarrow> s
            | Some tid \<Rightarrow> prune_completed (drop_put tid s))
      else s)"
  by pat_completeness auto

termination prune_completed
proof (relation "measure (\<lambda>s. length (hx_puts s))")
  fix s tid
  assume "completed_candidate s = Some tid"
  from completed_candidate_Some [OF this] show "(drop_put tid s, s) \<in> measure (\<lambda>s. length (hx_puts s))"
    by (auto simp: drop_put_def length_bt_remove_less)
qed simp

declare prune_completed.simps [simp del]


subsection \<open>Puts\<close>

definition already_bound :: "string \<Rightarrow> file_transfer_reply" where
  "already_bound message = transfer_error FtcConflict message"

text \<open>What both sections of \<open>put_begin\<close> that hold the lock look for first.\<close>

definition put_known :: "file_transfer_manifest \<Rightarrow> host_transfer \<Rightarrow> file_transfer_reply option" where
  "put_known m s =
     (case bt_get (hx_puts s) (fm_transfer_id m) of
        Some e \<Rightarrow>
          if pe_manifest e = m then Some (put_status e)
          else Some (already_bound ''TransferId is already bound to a different manifest'')
      | None \<Rightarrow>
          if bt_get (hx_gets s) (fm_transfer_id m) \<noteq> None
          then Some (already_bound ''TransferId is already bound to a device-to-controller transfer'')
          else None)"

text \<open>A part file in the target's directory; \<open>fresh\<close> is the random name the library found free.\<close>

definition new_part ::
    "transfer_host \<Rightarrow> string option \<Rightarrow> string \<Rightarrow> host_transfer \<Rightarrow> string option" where
  "new_part h fresh parent s =
     (case fresh of
        None \<Rightarrow> None
      | Some name \<Rightarrow>
          (let p = pl_join (tp_platform (th_paths h)) parent name in
           if hx_parts s p = None then Some p else None))"

definition new_put :: "u64 \<Rightarrow> file_transfer_manifest \<Rightarrow> file_resume_descriptor \<Rightarrow> string \<Rightarrow> string \<Rightarrow> put_entry" where
  "new_put q m d target part =
     \<lparr>pe_sequence = q, pe_manifest = m, pe_descriptor = d,
      pe_phase = (if fm_total_size m = 0 then ReadyToFinalize else Receiving),
      pe_requested_target = target, pe_temp = Some part, pe_prefix = [], pe_last_chunk = None,
      pe_final_device_path = None, pe_finalizing_path = None\<rparr>"

text \<open>The second section: the part file exists and goes again when the entry is not made.\<close>

definition put_enter ::
    "transfer_host \<Rightarrow> write_outcome \<Rightarrow> file_transfer_manifest \<Rightarrow> file_resume_descriptor \<Rightarrow> string \<Rightarrow> string
     \<Rightarrow> host_transfer \<Rightarrow> host_transfer \<times> file_transfer_reply" where
  "put_enter h w m d target part s0 =
     (let s = prune_completed s0; tid = fm_transfer_id m in
      case put_known m s of
        Some reply \<Rightarrow> (s, reply)
      | None \<Rightarrow>
          if transfer_count s \<ge> HARD_MAX_HOST_FILE_TRANSFERS
          then (s, transfer_error FtcCapacity ''Host file transfer capacity is exhausted'')
          else (let q = saturating_add (hx_next_sequence s) 1;
                    e = new_put q m d target part;
                    s1 = set_put tid e (s\<lparr>hx_next_sequence := q,
                           hx_parts := (hx_parts s)(part \<mapsto> [])\<rparr>);
                    (s2, written) = journal h w s1 in
                if written then (s2, put_status e)
                else (drop_put tid s2, transfer_io ''Host Put state journal could not be persisted'')))"

definition put_prepare ::
    "transfer_host \<Rightarrow> transfer_fs \<Rightarrow> string option \<Rightarrow> file_transfer_manifest \<Rightarrow> host_transfer
     \<Rightarrow> (file_transfer_reply, string \<times> string \<times> file_resume_descriptor) result" where
  "put_prepare h fs fresh m s =
     bind_r (prepare_put_target h fs m) (\<lambda>target.
     bind_r (ok_or (tp_parent (th_paths h) target)
               (transfer_error FtcInvalidRequest ''device target parent is invalid'')) (\<lambda>parent.
     bind_r (ok_or (new_part h fresh parent s)
               (transfer_io ''secure transfer part file could not be created'')) (\<lambda>part.
     bind_r (map_err (\<lambda>_. transfer_error FtcInvalidRequest ''initial resume descriptor is invalid'')
               (initial_resume_descriptor m)) (\<lambda>d.
       Ok (target, part, d)))))"

definition put_scope_ok :: "transfer_host \<Rightarrow> file_transfer_manifest \<Rightarrow> bool" where
  "put_scope_ok h m \<longleftrightarrow> in_scope (th_scope h) m \<and> fm_direction m = ControllerToDevice"

text \<open>The whole of \<open>put_begin\<close> when no other operation comes between its two sections.\<close>

definition put_begin ::
    "transfer_host \<Rightarrow> transfer_fs \<Rightarrow> string option \<Rightarrow> write_outcome \<Rightarrow> file_transfer_manifest
     \<Rightarrow> host_transfer \<Rightarrow> host_transfer \<times> file_transfer_reply" where
  "put_begin h fs fresh w m s =
     (if \<not> put_scope_ok h m
      then (s, transfer_denied ''file transfer manifest scope does not match this Host membership'')
      else case put_known m s of
        Some reply \<Rightarrow> (s, reply)
      | None \<Rightarrow>
          (case put_prepare h fs fresh m s of
             Inl reply \<Rightarrow> (s, reply)
           | Inr (target, part, d) \<Rightarrow> put_enter h w m d target part s))"

text \<open>How writing a chunk ends; after \<open>ChunkTorn n\<close> only the first \<open>n\<close> bytes are in the file.\<close>

datatype chunk_write = ChunkStatFails | ChunkSeekFails | ChunkTorn nat | ChunkSyncFails | ChunkWritten

definition next_descriptor :: "file_resume_descriptor \<Rightarrow> u64 \<Rightarrow> string \<Rightarrow> file_resume_descriptor" where
  "next_descriptor d offset hash =
     d\<lparr>fd_checkpoint_revision := saturating_add (fd_checkpoint_revision d) 1,
       fd_confirmed_offset := offset, fd_confirmed_prefix_sha256 := hash\<rparr>"

text \<open>The bytes of a file with \<open>bs\<close> written at an offset within it.\<close>

definition write_at :: "nat \<Rightarrow> bytes \<Rightarrow> bytes \<Rightarrow> bytes" where
  "write_at offset bs content = take offset content @ bs @ drop (offset + length bs) content"

definition chunk_replayed :: "put_entry \<Rightarrow> file_transfer_chunk \<Rightarrow> bytes \<Rightarrow> bool" where
  "chunk_replayed e c bs \<longleftrightarrow>
     (case pe_last_chunk e of
        None \<Rightarrow> False
      | Some l \<Rightarrow> fc_offset c = lc_offset l \<and> fc_sha256 c = lc_sha256 l \<and> length bs = lc_len l
          \<and> saturating_add (fc_offset c) (word_of_nat (length bs)) = fd_confirmed_offset (pe_descriptor e))"

definition confirm_chunk ::
    "transfer_host \<Rightarrow> file_transfer_chunk \<Rightarrow> bytes \<Rightarrow> put_entry \<Rightarrow> put_entry" where
  "confirm_chunk h c bs e =
     (let d = pe_descriptor e;
          next = saturating_add (fd_confirmed_offset d) (word_of_nat (length bs));
          prefix = pe_prefix e @ bs in
      e\<lparr>pe_prefix := prefix,
        pe_descriptor := next_descriptor d next (sha256_hex (th_sha h) prefix),
        pe_last_chunk := Some \<lparr>lc_offset = fc_offset c, lc_len = length bs, lc_sha256 = fc_sha256 c\<rparr>,
        pe_phase := (if next = fm_total_size (pe_manifest e) then ReadyToFinalize else Receiving)\<rparr>)"

definition write_chunk ::
    "transfer_host \<Rightarrow> chunk_write \<Rightarrow> file_transfer_chunk \<Rightarrow> bytes \<Rightarrow> put_entry \<Rightarrow> host_transfer
     \<Rightarrow> host_transfer \<times> file_transfer_reply" where
  "write_chunk h w c bs e s =
     (case pe_temp e of
        None \<Rightarrow> (s, transfer_io ''file transfer part file is unavailable'')
      | Some part \<Rightarrow>
          (let content = (case hx_parts s part of None \<Rightarrow> [] | Some x \<Rightarrow> x);
               e' = confirm_chunk h c bs e;
               failed = transfer_io ''file chunk could not be durably written'';
               put_part = (\<lambda>x. s\<lparr>hx_parts := (hx_parts s)(part \<mapsto> write_at (unat (fc_offset c)) x content)\<rparr>) in
           if w = ChunkStatFails \<or> length content \<noteq> unat (fd_confirmed_offset (pe_descriptor e))
           then (s, transfer_io ''file transfer part length disagrees with checkpoint'')
           else (case w of
               ChunkTorn n \<Rightarrow> (put_part (take n bs), failed)
             | ChunkSyncFails \<Rightarrow> (put_part bs, failed)
             | ChunkWritten \<Rightarrow>
                 (set_put (fc_transfer_id c) e' (put_part bs),
                  if is_ok (fd_validate (pe_descriptor e')) then put_status e'
                  else transfer_io ''Host generated an invalid resume checkpoint'')
             | _ \<Rightarrow> (s, failed))))"

definition put_chunk ::
    "transfer_host \<Rightarrow> chunk_write \<Rightarrow> file_transfer_chunk \<Rightarrow> host_transfer
     \<Rightarrow> host_transfer \<times> file_transfer_reply" where
  "put_chunk h w c s =
     (case bt_get (hx_puts s) (fc_transfer_id c) of
        None \<Rightarrow> (s, transfer_not_found)
      | Some e \<Rightarrow>
          (case chunk_decode_bytes (th_sha h) (th_base64 h) c of
             Inl _ \<Rightarrow> (s, transfer_error FtcHashMismatch ''file chunk failed its SHA-256 verification'')
           | Inr bs \<Rightarrow>
               (let d = pe_descriptor e; m = pe_manifest e; e' = confirm_chunk h c bs e in
                if chunk_replayed e c bs then (s, put_status e)
                else if pe_phase e = Completed then (s, put_status e)
                else if pe_phase e = ReadyToFinalize
                then (s, transfer_error FtcOutOfOrder
                        ''all chunks are already confirmed; finalize is required'')
                else if fc_offset c \<noteq> fd_confirmed_offset d
                then (s, transfer_error FtcOutOfOrder
                        ''file chunk does not start at the confirmed contiguous offset'')
                else if \<not> is_ok (manifest_validate_chunk (th_sha h) (th_base64 h) m c)
                then (s, transfer_error FtcInvalidRequest
                        ''file chunk does not match the transfer manifest'')
                else if fd_confirmed_offset (pe_descriptor e') = fm_total_size m
                        \<and> fd_confirmed_prefix_sha256 (pe_descriptor e') \<noteq> fm_final_sha256 m
                then (s, transfer_error FtcHashMismatch
                        ''complete file does not match the expected final SHA-256'')
                else write_chunk h w c bs e s)))"

subsection \<open>Gets\<close>

definition get_known ::
    "transfer_id \<Rightarrow> string \<Rightarrow> u32 \<Rightarrow> host_transfer \<Rightarrow> file_transfer_reply option" where
  "get_known tid requested chunk_size s =
     (if bt_get (hx_puts s) tid \<noteq> None
      then Some (already_bound ''TransferId is already bound to a controller-to-device transfer'')
      else case bt_get (hx_gets s) tid of
        None \<Rightarrow> None
      | Some e \<Rightarrow>
          if ge_requested_device_path e = requested \<and> ge_chunk_size e = chunk_size
          then Some (FtrManifest (ge_manifest e))
          else Some (already_bound ''TransferId is already bound to a different device source''))"

definition get_manifest ::
    "transfer_host \<Rightarrow> transfer_id \<Rightarrow> string \<Rightarrow> u64 \<Rightarrow> u32 \<Rightarrow> string
     \<Rightarrow> (file_transfer_error, file_transfer_manifest) result" where
  "get_manifest h tid canonical total_size chunk_size hash =
     manifest_new tid (sc_controller (th_scope h)) (sc_site (th_scope h)) (sc_device (th_scope h))
       DeviceToController canonical total_size chunk_size hash None"

definition get_prepare ::
    "transfer_host \<Rightarrow> transfer_fs \<Rightarrow> transfer_id \<Rightarrow> string \<Rightarrow> u32
     \<Rightarrow> (file_transfer_reply, file_transfer_manifest) result" where
  "get_prepare h fs tid requested chunk_size =
     bind_r (prepare_get_source h fs requested) (\<lambda>(canonical, bs, total_size, hash).
     bind_r (map_err (\<lambda>_. transfer_error FtcInvalidRequest
                         ''Host generated an invalid device source manifest'')
               (get_manifest h tid canonical total_size chunk_size hash)) (\<lambda>m.
       if tf_seek_error fs canonical \<noteq> None then Err (transfer_io ''device source seek failed'')
       else Ok m))"

definition get_enter ::
    "transfer_host \<Rightarrow> write_outcome \<Rightarrow> transfer_id \<Rightarrow> string \<Rightarrow> u32 \<Rightarrow> file_transfer_manifest
     \<Rightarrow> host_transfer \<Rightarrow> host_transfer \<times> file_transfer_reply" where
  "get_enter h w tid requested chunk_size m s0 =
     (let s = prune_completed s0 in
      case get_known tid requested chunk_size s of
        Some reply \<Rightarrow> (s, reply)
      | None \<Rightarrow>
          if transfer_count s \<ge> HARD_MAX_HOST_FILE_TRANSFERS
          then (s, transfer_error FtcCapacity ''Host file transfer capacity is exhausted'')
          else (let e = \<lparr>ge_requested_device_path = requested, ge_chunk_size = chunk_size, ge_manifest = m\<rparr>;
                    (s2, written) = journal h w (set_get tid e s) in
                if written then (s2, FtrManifest m)
                else (drop_get tid s2, transfer_io ''Host Get state journal could not be persisted'')))"

definition get_begin ::
    "transfer_host \<Rightarrow> transfer_fs \<Rightarrow> write_outcome \<Rightarrow> transfer_id \<Rightarrow> string \<Rightarrow> u32
     \<Rightarrow> host_transfer \<Rightarrow> host_transfer \<times> file_transfer_reply" where
  "get_begin h fs w tid requested chunk_size s =
     (case get_known tid requested chunk_size s of
        Some reply \<Rightarrow> (s, reply)
      | None \<Rightarrow>
          (case get_prepare h fs tid requested chunk_size of
             Inl reply \<Rightarrow> (s, reply)
           | Inr m \<Rightarrow> get_enter h w tid requested chunk_size m s))"

text \<open>The open source: its length, when it can be asked, and what reading gives.\<close>

datatype source_handle = SourceSeekFails | SourceReadError | SourceContents bytes

definition get_chunk ::
    "transfer_host \<Rightarrow> u64 option \<Rightarrow> source_handle \<Rightarrow> transfer_id \<Rightarrow> u64 \<Rightarrow> host_transfer
     \<Rightarrow> file_transfer_reply" where
  "get_chunk h len_now handle tid offset s =
     (case bt_get (hx_gets s) tid of
        None \<Rightarrow> transfer_not_found
      | Some e \<Rightarrow>
          (let m = ge_manifest e;
               expected_len = unat (min (u64_of (fm_chunk_size m)) (saturating_sub (fm_total_size m) offset)) in
           if fm_total_size m = 0 \<or> offset \<ge> fm_total_size m
           then transfer_error FtcOutOfOrder ''get chunk offset is outside the device source''
           else if offset mod u64_of (fm_chunk_size m) \<noteq> 0
           then transfer_error FtcOutOfOrder ''get chunk offset is not on a deterministic chunk boundary''
           else if len_now \<noteq> Some (fm_total_size m)
           then transfer_error FtcConflict ''device source size changed during transfer''
           else (case handle of
               SourceSeekFails \<Rightarrow> transfer_io ''device source seek failed''
             | SourceReadError \<Rightarrow> transfer_io ''device source read failed''
             | SourceContents content \<Rightarrow>
                 if length content < unat offset + expected_len
                 then transfer_io ''device source read failed''
                 else (case chunk_from_bytes (th_sha h) (th_base64 h) tid offset
                              (take expected_len (drop (unat offset) content)) of
                         Inr c \<Rightarrow> FtrChunk c
                       | Inl _ \<Rightarrow> transfer_io ''device source chunk encoding failed''))))"

subsection \<open>Status and cancel\<close>

definition transfer_status :: "transfer_id \<Rightarrow> host_transfer \<Rightarrow> file_transfer_reply" where
  "transfer_status tid s =
     (case bt_get (hx_puts s) tid of
        Some e \<Rightarrow> put_status e
      | None \<Rightarrow>
          (case bt_get (hx_gets s) tid of
             Some e \<Rightarrow> FtrManifest (ge_manifest e)
           | None \<Rightarrow> transfer_not_found))"

definition cancel_reply :: "transfer_id \<Rightarrow> host_transfer \<times> bool \<Rightarrow> host_transfer \<times> file_transfer_reply" where
  "cancel_reply tid sw =
     (fst sw, if snd sw then FtrCancelled tid
              else transfer_io ''Host transfer cancel could not be persisted'')"

definition transfer_cancel ::
    "transfer_host \<Rightarrow> write_outcome \<Rightarrow> transfer_id \<Rightarrow> host_transfer \<Rightarrow> host_transfer \<times> file_transfer_reply" where
  "transfer_cancel h w tid s =
     (case bt_get (hx_puts s) tid of
        Some e \<Rightarrow>
          if pe_phase e = Completed
          then (s, transfer_error FtcConflict ''completed file transfer cannot be cancelled'')
          else cancel_reply tid (journal h w (drop_put tid s))
      | None \<Rightarrow>
          if bt_get (hx_gets s) tid \<noteq> None
          then cancel_reply tid (journal h w (drop_get tid s))
          else (s, transfer_not_found))"


subsection \<open>Finalizing a put\<close>

fun first_free ::
    "transfer_paths \<Rightarrow> (string \<Rightarrow> lstat) \<Rightarrow> string \<Rightarrow> nat list \<Rightarrow> (file_transfer_reply, string) result" where
  "first_free tp stat target [] =
     Err (transfer_error FtcConflict ''rename conflict attempts exhausted'')"
| "first_free tp stat target (attempt # rest) =
     (case (if attempt = 0 then Some target else rename_candidate tp target attempt) of
        None \<Rightarrow> Err (transfer_error FtcConflict ''no bounded rename candidate is available'')
      | Some path \<Rightarrow>
          (case stat path of
             LstatNode _ \<Rightarrow> first_free tp stat target rest
           | LstatMissing \<Rightarrow> Ok path
           | LstatFails \<Rightarrow> Err (transfer_io ''rename candidate metadata failed'')))"

definition choose_finalizing_path ::
    "transfer_paths \<Rightarrow> (string \<Rightarrow> lstat) \<Rightarrow> string \<Rightarrow> file_conflict_policy option
     \<Rightarrow> (file_transfer_reply, string) result" where
  "choose_finalizing_path tp stat target conflict =
     (case conflict of
        Some FailIfExists \<Rightarrow> Ok target
      | Some ReplaceExisting \<Rightarrow> Ok target
      | Some RenameIfExists \<Rightarrow> first_free tp stat target [0..<HARD_MAX_RENAME_ATTEMPTS + 1]
      | None \<Rightarrow> Err (transfer_error FtcInvalidRequest ''device conflict policy is missing''))"

text \<open>One turn of the loop of \<open>finalize\<close>: what the file system answers while a path is chosen, how
  the two journal writes end, the files of the host when the part is renamed, whatever others did
  to them meanwhile, and how the rename and its sync end.\<close>

datatype rename_outcome = RenameDone | RenameFails
datatype sync_outcome = Synced | FileSyncFails | DirSyncFails

record finalize_attempt =
  fa_lstat :: "string \<Rightarrow> lstat"
  fa_before :: write_outcome
  fa_files :: host_files
  fa_replaced :: lstat
  fa_rename :: rename_outcome
  fa_sync :: sync_outcome
  fa_after :: write_outcome

datatype persist_final_error = BeforeCommit file_transfer_reply | AfterCommit file_transfer_reply string

definition finalize_synced :: "transfer_host \<Rightarrow> sync_outcome \<Rightarrow> (file_transfer_reply, unit) result" where
  "finalize_synced h w =
     (case w of
        FileSyncFails \<Rightarrow> Err (transfer_io ''finalized device file sync failed'')
      | DirSyncFails \<Rightarrow>
          if pl_windows (tp_platform (th_paths h)) then Ok ()
          else Err (transfer_io ''device destination directory sync failed'')
      | Synced \<Rightarrow> Ok ())"

definition commit_part ::
    "transfer_host \<Rightarrow> finalize_attempt \<Rightarrow> string \<Rightarrow> string \<Rightarrow> bytes \<Rightarrow> host_transfer
     \<Rightarrow> host_transfer \<times> (persist_final_error, string) result" where
  "commit_part h a part target content s =
     (s\<lparr>hx_parts := (hx_parts s)(part := None),
        hx_files := (hx_files s)(path_parts (th_paths h) target \<mapsto> FileNode content)\<rparr>,
      bind_r (map_err (\<lambda>reply. AfterCommit reply target) (finalize_synced h (fa_sync a))) (\<lambda>_. Ok target))"

definition persist_noclobber ::
    "transfer_host \<Rightarrow> finalize_attempt \<Rightarrow> string \<Rightarrow> string \<Rightarrow> host_transfer
     \<Rightarrow> host_transfer \<times> (persist_final_error, string) result" where
  "persist_noclobber h a part target s =
     (case (fa_rename a, hx_parts s part) of
        (RenameDone, Some content) \<Rightarrow>
          if hx_files s (path_parts (th_paths h) target) \<noteq> None
          then (s, Err (BeforeCommit (transfer_error FtcConflict ''device destination already exists'')))
          else commit_part h a part target content s
      | _ \<Rightarrow> (s, Err (BeforeCommit (transfer_io ''atomic create failed''))))"

definition persist_replacing ::
    "transfer_host \<Rightarrow> finalize_attempt \<Rightarrow> string \<Rightarrow> string \<Rightarrow> host_transfer
     \<Rightarrow> host_transfer \<times> (persist_final_error, string) result" where
  "persist_replacing h a part target s =
     (if fa_replaced a \<in> {LstatNode SymlinkNode, LstatNode DirNode}
      then (s, Err (BeforeCommit (transfer_denied ''device destination cannot be replaced safely'')))
      else case (fa_rename a, hx_parts s part) of
        (RenameDone, Some content) \<Rightarrow> commit_part h a part target content s
      | _ \<Rightarrow> (s, Err (BeforeCommit (transfer_io ''atomic replace failed''))))"

definition persist_final_at ::
    "transfer_host \<Rightarrow> finalize_attempt \<Rightarrow> string \<Rightarrow> string \<Rightarrow> file_conflict_policy option \<Rightarrow> host_transfer
     \<Rightarrow> host_transfer \<times> (persist_final_error, string) result" where
  "persist_final_at h a part target conflict s =
     (case conflict of
        Some FailIfExists \<Rightarrow> persist_noclobber h a part target s
      | Some RenameIfExists \<Rightarrow> persist_noclobber h a part target s
      | Some ReplaceExisting \<Rightarrow> persist_replacing h a part target s
      | None \<Rightarrow>
          (s, Err (BeforeCommit (transfer_error FtcInvalidRequest ''device conflict policy is missing''))))"

definition completed_put :: "string \<Rightarrow> put_entry \<Rightarrow> put_entry" where
  "completed_put path e =
     e\<lparr>pe_phase := Completed, pe_final_device_path := (if utf8_valid path then Some path else None),
       pe_finalizing_path := None, pe_temp := None\<rparr>"

text \<open>What a turn ends with: an answer, or another turn.\<close>

datatype turn = Answer file_transfer_reply | Retry

definition is_conflict :: "file_transfer_reply \<Rightarrow> bool" where
  "is_conflict r = (case r of FtrError b \<Rightarrow> fte_code b = FtcConflict | _ \<Rightarrow> False)"

definition finish_rename ::
    "transfer_host \<Rightarrow> finalize_attempt \<Rightarrow> transfer_id \<Rightarrow> put_entry
     \<Rightarrow> host_transfer \<times> (persist_final_error, string) result \<Rightarrow> host_transfer \<times> turn" where
  "finish_rename h a tid e sr =
     (let (s, r) = sr in
      case r of
        Inr path \<Rightarrow>
          (let e' = completed_put path e; s1 = set_put tid e' s in
           if pe_final_device_path e' = None
           then (s1, Answer (transfer_io ''finalized device path is not valid UTF-8''))
           else (let (s2, written) = journal h (fa_after a) s1 in
                 (s2, Answer (if written then put_status e'
                      else transfer_io ''completed Host Put state could not be persisted''))))
      | Inl (BeforeCommit reply) \<Rightarrow>
          (let (s2, written) = journal h (fa_after a) (set_put tid (e\<lparr>pe_finalizing_path := None\<rparr>) s) in
           if \<not> written
           then (s2, Answer (transfer_io ''Host Put finalizing rollback could not be persisted''))
           else if fm_conflict_policy (pe_manifest e) = Some RenameIfExists \<and> is_conflict reply
           then (s2, Retry)
           else (s2, Answer reply))
      | Inl (AfterCommit reply path) \<Rightarrow>
          (fst (journal h (fa_after a) (set_put tid (completed_put path e) s)), Answer reply))"

definition rename_part ::
    "transfer_host \<Rightarrow> finalize_attempt \<Rightarrow> transfer_id \<Rightarrow> put_entry \<Rightarrow> string \<Rightarrow> host_transfer
     \<Rightarrow> host_transfer \<times> turn" where
  "rename_part h a tid e target s =
     (case pe_temp e of
        None \<Rightarrow> (s, Answer (transfer_io ''file transfer part file is unavailable''))
      | Some part \<Rightarrow>
          finish_rename h a tid e
            (persist_final_at h a part target (fm_conflict_policy (pe_manifest e)) (s\<lparr>hx_files := fa_files a\<rparr>)))"

definition finalize_selected ::
    "transfer_host \<Rightarrow> finalize_attempt \<Rightarrow> transfer_id \<Rightarrow> put_entry \<Rightarrow> string \<Rightarrow> host_transfer
     \<Rightarrow> host_transfer \<times> turn" where
  "finalize_selected h a tid e target s =
     (let e' = e\<lparr>pe_finalizing_path := Some target\<rparr>;
          (s1, written) = journal h (fa_before a) (set_put tid e' s) in
      if \<not> written
      then (s1, Answer (transfer_io ''Host Put finalizing path could not be persisted''))
      else rename_part h a tid e' target s1)"

definition finalize_turn ::
    "transfer_host \<Rightarrow> finalize_attempt \<Rightarrow> transfer_id \<Rightarrow> host_transfer \<Rightarrow> host_transfer \<times> turn" where
  "finalize_turn h a tid s =
     (case bt_get (hx_puts s) tid of
        None \<Rightarrow>
          (s, Answer (if bt_get (hx_gets s) tid \<noteq> None
             then transfer_error FtcOutOfOrder ''device-to-controller transfer does not use Host finalize''
             else transfer_not_found))
      | Some e \<Rightarrow>
          if pe_phase e = Completed then (s, Answer (put_status e))
          else if pe_phase e \<noteq> ReadyToFinalize
          then (s, Answer (transfer_error FtcOutOfOrder ''file transfer has not confirmed all chunks''))
          else if fd_confirmed_prefix_sha256 (pe_descriptor e) \<noteq> fm_final_sha256 (pe_manifest e)
          then (s, Answer (transfer_error FtcHashMismatch
                  ''confirmed file prefix does not match the expected final SHA-256''))
          else (case (case pe_finalizing_path e of
                        Some path \<Rightarrow> Ok path
                      | None \<Rightarrow> choose_finalizing_path (th_paths h) (fa_lstat a) (pe_requested_target e)
                                  (fm_conflict_policy (pe_manifest e))) of
             Inl reply \<Rightarrow> (s, Answer reply)
           | Inr target \<Rightarrow> finalize_selected h a tid e target s))"

text \<open>\<open>None\<close>: the loop has not ended with the turns it was given.\<close>

fun finalize ::
    "transfer_host \<Rightarrow> finalize_attempt list \<Rightarrow> transfer_id \<Rightarrow> host_transfer
     \<Rightarrow> host_transfer \<times> file_transfer_reply option" where
  "finalize h [] tid s = (s, None)"
| "finalize h (a # rest) tid s =
     (case finalize_turn h a tid s of
        (s', Answer reply) \<Rightarrow> (s', Some reply)
      | (s', Retry) \<Rightarrow> finalize h rest tid s')"


subsection \<open>Requests\<close>

datatype transfer_operation =
    OpPutBegin transfer_fs "string option" write_outcome
  | OpPutChunk chunk_write
  | OpGetBegin transfer_fs write_outcome
  | OpGetChunk "u64 option" source_handle
  | OpFinalize "finalize_attempt list"
  | OpCancel write_outcome
  | OpStatus

definition transfer_permitted :: "transfer_host \<Rightarrow> bool \<Rightarrow> bool \<Rightarrow> file_transfer_request \<Rightarrow> bool" where
  "transfer_permitted h allow_read allow_write r =
     (let get = th_can_get h \<and> allow_read; put = th_can_put h \<and> allow_write in
      case r of
        PutBegin _ \<Rightarrow> put
      | PutChunk _ \<Rightarrow> put
      | FtFinalize _ \<Rightarrow> put
      | GetBegin _ _ _ \<Rightarrow> get
      | GetChunk _ _ \<Rightarrow> get
      | FtStatus _ \<Rightarrow> get \<or> put
      | FtCancel _ \<Rightarrow> get \<or> put)"

text \<open>What the system answers must be of the kind the request asks for; \<open>None\<close> otherwise.\<close>

definition execute_blocking ::
    "transfer_host \<Rightarrow> transfer_operation \<Rightarrow> file_transfer_request \<Rightarrow> host_transfer
     \<Rightarrow> host_transfer \<times> file_transfer_reply option" where
  "execute_blocking h answers r s =
     (case (r, answers) of
        (PutBegin m, OpPutBegin fs fresh w) \<Rightarrow> map_prod id Some (put_begin h fs fresh w m s)
      | (PutChunk c, OpPutChunk w) \<Rightarrow> map_prod id Some (put_chunk h w c s)
      | (GetBegin tid path chunk_size, OpGetBegin fs w) \<Rightarrow>
          map_prod id Some (get_begin h fs w tid path chunk_size s)
      | (GetChunk tid offset, OpGetChunk len_now handle) \<Rightarrow> (s, Some (get_chunk h len_now handle tid offset s))
      | (FtStatus tid, OpStatus) \<Rightarrow> (s, Some (transfer_status tid s))
      | (FtFinalize tid, OpFinalize attempts) \<Rightarrow> finalize h attempts tid s
      | (FtCancel tid, OpCancel w) \<Rightarrow> map_prod id Some (transfer_cancel h w tid s)
      | _ \<Rightarrow> (s, None))"

definition transfer_execute ::
    "transfer_host \<Rightarrow> bool \<Rightarrow> bool \<Rightarrow> transfer_operation \<Rightarrow> file_transfer_request \<Rightarrow> host_transfer
     \<Rightarrow> host_transfer \<times> file_transfer_reply option" where
  "transfer_execute h allow_read allow_write answers r s =
     (if \<not> is_ok (ft_request_validate (th_sha h) (th_base64 h) r)
      then (s, Some (transfer_error FtcInvalidRequest ''invalid bounded file transfer request''))
      else if \<not> transfer_permitted h allow_read allow_write r \<or> \<not> allows_read (th_policy h)
      then (s, Some (transfer_denied ''file transfer is outside the allowed device grant''))
      else execute_blocking h answers r s)"

subsection \<open>Starting again\<close>

definition completed_entry :: "durable_put \<Rightarrow> put_entry" where
  "completed_entry p =
     \<lparr>pe_sequence = dp_sequence p, pe_manifest = dp_manifest p, pe_descriptor = dp_descriptor p,
      pe_phase = Completed, pe_requested_target = dp_requested_target p, pe_temp = None,
      pe_prefix = [], pe_last_chunk = None, pe_final_device_path = dp_final_device_path p,
      pe_finalizing_path = dp_finalizing_path p\<rparr>"

text \<open>The part is gone: the rename must have happened at the journaled path.\<close>

definition restore_renamed ::
    "transfer_host \<Rightarrow> transfer_fs \<Rightarrow> durable_put \<Rightarrow> (host_transfer_error, put_entry) result" where
  "restore_renamed h fs p =
     (case dp_finalizing_path p of
        None \<Rightarrow> Err (HtInvalidState
                ''active Host Put part disappeared without a journaled finalizing path'')
      | Some q \<Rightarrow>
          bind_r (map_err (\<lambda>_. HtInvalidState ''journaled finalized Host Put cannot be verified'')
                    (prepare_get_source h fs (to_string_lossy q))) (\<lambda>(canonical, bs, total_size, hash).
            if total_size \<noteq> fm_total_size (dp_manifest p) \<or> hash \<noteq> fm_final_sha256 (dp_manifest p)
            then Err (HtInvalidState ''journaled finalized Host Put size/hash does not match manifest'')
            else Ok ((completed_entry p)\<lparr>pe_final_device_path := Some canonical, pe_finalizing_path := None\<rparr>)))"

definition received_phase :: "durable_put \<Rightarrow> bytes \<Rightarrow> file_transfer_phase" where
  "received_phase p content =
     (if word_of_nat (length content) = fm_total_size (dp_manifest p) then ReadyToFinalize else Receiving)"

definition restored_entry :: "transfer_host \<Rightarrow> durable_put \<Rightarrow> string \<Rightarrow> bytes \<Rightarrow> put_entry" where
  "restored_entry h p part content =
     \<lparr>pe_sequence = dp_sequence p, pe_manifest = dp_manifest p,
      pe_descriptor = next_descriptor (dp_descriptor p) (word_of_nat (length content))
        (sha256_hex (th_sha h) content),
      pe_phase = received_phase p content, pe_requested_target = dp_requested_target p,
      pe_temp = Some part, pe_prefix = content, pe_last_chunk = None, pe_final_device_path = None,
      pe_finalizing_path = dp_finalizing_path p\<rparr>"

text \<open>The part's length and hash against the journaled checkpoint.\<close>

definition check_part_length :: "durable_put \<Rightarrow> bytes \<Rightarrow> (host_transfer_error, unit) result" where
  "check_part_length p content =
     (let m = dp_manifest p; part_len = length content in
      if part_len > unat (fm_total_size m)
         \<or> (part_len \<noteq> unat (fm_total_size m) \<and> part_len mod unat (fm_chunk_size m) \<noteq> 0)
         \<or> unat (fd_confirmed_offset (dp_descriptor p)) > part_len
      then Err (HtInvalidState ''Host Put part length disagrees with the persisted checkpoint'')
      else Ok ())"

definition read_part :: "part_stat \<Rightarrow> (host_transfer_error, unit) result" where
  "read_part st =
     (case st of
        PartOpenFails e \<Rightarrow> Err (HtIo e)
      | PartReadFails e \<Rightarrow> Err (HtIo e)
      | PartShort \<Rightarrow> Err (HtInvalidState ''Host Put part ended before its metadata length'')
      | PartSeekFails e \<Rightarrow> Err (HtIo e)
      | _ \<Rightarrow> Ok ())"

definition check_part_hash :: "transfer_host \<Rightarrow> durable_put \<Rightarrow> bytes \<Rightarrow> (host_transfer_error, unit) result" where
  "check_part_hash h p content =
     (let m = dp_manifest p; d = dp_descriptor p; prefix_sha = sha256_hex (th_sha h) content in
      if length content = unat (fd_confirmed_offset d) \<and> prefix_sha \<noteq> fd_confirmed_prefix_sha256 d
      then Err (HtInvalidState ''Host Put part prefix hash disagrees with the persisted checkpoint'')
      else if length content = unat (fm_total_size m) \<and> prefix_sha \<noteq> fm_final_sha256 m
      then Err (HtInvalidState ''Host Put completed part does not match final SHA-256'')
      else Ok ())"

definition restore_part ::
    "transfer_host \<Rightarrow> transfer_fs \<Rightarrow> durable_put \<Rightarrow> string \<Rightarrow> bytes \<Rightarrow> (host_transfer_error, put_entry) result" where
  "restore_part h fs p part content =
     (let e = restored_entry h p part content in
      bind_r (map_err (\<lambda>_. HtInvalidState ''active Host Put target can no longer be prepared'')
                (prepare_put_target h fs (dp_manifest p))) (\<lambda>target.
        if \<not> path_eq (th_paths h) target (dp_requested_target p)
        then Err (HtInvalidState ''persisted Host Put target changed after restart'')
        else
          bind_r (check_part_length p content) (\<lambda>_.
          bind_r (read_part (tf_part fs part)) (\<lambda>_.
          bind_r (check_part_hash h p content) (\<lambda>_.
          bind_r (map_err (\<lambda>_. HtInvalidState ''rebuilt Host Put checkpoint is invalid'')
                    (fd_validate (pe_descriptor e))) (\<lambda>_.
            case tf_part fs part of PartPathFails io \<Rightarrow> Err (HtIo io) | _ \<Rightarrow> Ok e))))))"

definition restore_active ::
    "transfer_host \<Rightarrow> transfer_fs \<Rightarrow> (string \<Rightarrow> bytes option) \<Rightarrow> durable_put
     \<Rightarrow> (host_transfer_error, put_entry) result" where
  "restore_active h fs parts p =
     bind_r (ok_or (dp_part_path p)
               (HtInvalidState ''active Host Put is missing its private part path'')) (\<lambda>part.
       if \<not> same_parent (th_paths h) part (dp_requested_target p)
       then Err (HtInvalidState ''Host Put part is not in the destination directory'')
       else (case tf_part fs part of
           PartStatFails e \<Rightarrow> Err (HtIo e)
         | PartNotRegular \<Rightarrow> Err (HtInvalidState ''Host Put part is not a regular non-symlink file'')
         | _ \<Rightarrow>
             (case parts part of
                None \<Rightarrow> restore_renamed h fs p
              | Some content \<Rightarrow> restore_part h fs p part content)))"

definition restore_put ::
    "transfer_host \<Rightarrow> transfer_fs \<Rightarrow> durable_put \<Rightarrow> host_transfer \<Rightarrow> (host_transfer_error, host_transfer) result" where
  "restore_put h fs p s =
     bind_r (if dp_phase p = Completed then Ok (completed_entry p)
             else restore_active h fs (hx_parts s) p)
       (\<lambda>e. Ok (set_put (fm_transfer_id (dp_manifest p)) e s))"

text \<open>A source that cannot be prepared or has changed drops its get.\<close>

definition restore_get ::
    "transfer_host \<Rightarrow> transfer_fs \<Rightarrow> durable_get \<Rightarrow> host_transfer \<Rightarrow> (host_transfer_error, host_transfer) result" where
  "restore_get h fs g s =
     (case prepare_get_source h fs (dg_requested_device_path g) of
        Inl _ \<Rightarrow> Ok s
      | Inr (canonical, bs, total_size, hash) \<Rightarrow>
          bind_r (map_err (\<lambda>_. HtInvalidState ''restored Host Get manifest is invalid'')
                    (get_manifest h (fm_transfer_id (dg_manifest g)) canonical total_size
                       (dg_chunk_size g) hash)) (\<lambda>m.
            if m \<noteq> dg_manifest g then Ok s
            else (case tf_seek_error fs canonical of
                Some e \<Rightarrow> Err (HtIo e)
              | None \<Rightarrow>
                  Ok (set_get (fm_transfer_id m)
                        \<lparr>ge_requested_device_path = dg_requested_device_path g,
                         ge_chunk_size = dg_chunk_size g, ge_manifest = m\<rparr> s))))"

definition restore_snapshot ::
    "transfer_host \<Rightarrow> transfer_fs \<Rightarrow> write_outcome \<Rightarrow> transfer_snapshot \<Rightarrow> host_transfer
     \<Rightarrow> host_transfer \<times> (host_transfer_error, unit) result" where
  "restore_snapshot h fs w snap s =
     (case bind_r (transfers_validate (th_paths h) (th_scope h) snap) (\<lambda>_.
             bind_r (fold_r (restore_put h fs) (sn_puts snap)
                       (s\<lparr>hx_next_sequence := foldl max 0 (map dp_sequence (sn_puts snap))\<rparr>))
               (fold_r (restore_get h fs) (sn_gets snap))) of
        Inl e \<Rightarrow> (s, Err e)
      | Inr s' \<Rightarrow> persist_transfers h w s')"

text \<open>What is on the disk when a service starts: its journal, the part files, the files.\<close>

definition started :: "u64 \<Rightarrow> host_transfer \<Rightarrow> host_transfer" where
  "started g s = s\<lparr>hx_next_sequence := 0, hx_puts := [], hx_gets := [], hx_generation := g\<rparr>"

definition load_or_create_transfers ::
    "transfer_host \<Rightarrow> transfer_fs \<Rightarrow> write_outcome \<Rightarrow> host_transfer
     \<Rightarrow> host_transfer \<times> (host_transfer_error, unit) result" where
  "load_or_create_transfers h fs w s =
     (if \<not> is_ok (policy_validate (th_policy h)) then (s, Err (HtInvalidState ''invalid signed file policy''))
      else case load_transfers (th_paths h) (th_scope h) (th_json h) (hx_slot_a s) (hx_slot_b s) of
        Inl e \<Rightarrow> (s, Err e)
      | Inr snap \<Rightarrow> restore_snapshot h fs w snap (started (sn_generation snap) s))"

text \<open>A service without a journal.\<close>

definition transfers_new :: "transfer_host \<Rightarrow> host_transfer \<Rightarrow> (control_model_error, host_transfer) result" where
  "transfers_new h s = bind_r (policy_validate (th_policy h)) (\<lambda>_. Ok (started 0 s))"

text \<open>A service that is not durable takes its part files with it; of a durable one they stay, for
  the transfers that are not completed.\<close>

definition drop_service :: "transfer_host \<Rightarrow> host_transfer \<Rightarrow> host_transfer" where
  "drop_service h s =
     (let dropped = (\<lambda>e. if th_durable h \<and> pe_phase e \<noteq> Completed then None else pe_temp e) in
      (started 0 s)\<lparr>hx_parts := fold (\<lambda>(tid, e) parts. case dropped e of
          None \<Rightarrow> parts | Some p \<Rightarrow> parts(p := None)) (hx_puts s) (hx_parts s)\<rparr>)"

end
