(* ===== verification/Host_Transfer_Safety.thy ===== *)
theory Host_Transfer_Safety
  imports Host_Transfer Control_Store
begin

section \<open>What the host's file-transfer service keeps\<close>

text \<open>
  The invariant of the service: its entries are in the membership's scope and within their bound,
  no two puts share a part file, each part begins with the bytes the checkpoint confirms, and every
  snapshot that can be read back from the journal describes such puts. Every operation and every
  start keeps it; a put is completed only when exactly the manifest's bytes are renamed to a path
  its conflict policy allows.
\<close>

subsection \<open>The invariant\<close>

definition put_target_ok :: "transfer_host \<Rightarrow> host_fs set \<Rightarrow> file_transfer_manifest \<Rightarrow> string \<Rightarrow> bool" where
  "put_target_ok h F m target \<longleftrightarrow>
     (\<exists>fs t. tf_host fs \<in> F \<and> prepare_put_target h fs m = Ok t \<and> path_eq (th_paths h) t target)"

definition final_choice ::
    "transfer_paths \<Rightarrow> file_conflict_policy option \<Rightarrow> string \<Rightarrow> string \<Rightarrow> bool" where
  "final_choice tp conflict target q \<longleftrightarrow> path_eq tp q target
     \<or> (conflict = Some RenameIfExists
        \<and> (\<exists>n c. 1 \<le> n \<and> n \<le> 1024 \<and> rename_candidate tp target n = Some c \<and> path_eq tp c q))"

text \<open>Confirmed offsets are chunk boundaries or the end.\<close>

definition put_aligned :: "file_transfer_manifest \<Rightarrow> file_resume_descriptor \<Rightarrow> bool" where
  "put_aligned m d \<longleftrightarrow> unat (fd_confirmed_offset d) mod unat (fm_chunk_size m) = 0
     \<or> fd_confirmed_offset d = fm_total_size m"

definition put_ok :: "transfer_host \<Rightarrow> host_fs set \<Rightarrow> transfer_id \<Rightarrow> put_entry \<Rightarrow> bool" where
  "put_ok h F k e \<longleftrightarrow>
     (let m = pe_manifest e; d = pe_descriptor e in
      manifest_ok m \<and> put_scope_ok h m \<and> fm_transfer_id m = k
      \<and> fd_ok d \<and> fd_transfer_id d = k \<and> fd_device_path d = fm_device_path m
      \<and> fd_total_size d = fm_total_size m \<and> fd_final_sha256 d = Some (fm_final_sha256 m)
      \<and> (pe_phase e = Receiving \<longleftrightarrow> fd_confirmed_offset d < fm_total_size m)
      \<and> put_aligned m d
      \<and> (pe_temp e = None \<longleftrightarrow> pe_phase e = Completed)
      \<and> (\<forall>p. pe_temp e = Some p \<longrightarrow> utf8_valid p)
      \<and> (pe_phase e \<noteq> Completed \<longrightarrow> put_target_ok h F m (pe_requested_target e))
      \<and> (\<forall>q. pe_finalizing_path e = Some q \<longrightarrow> pe_phase e = ReadyToFinalize
           \<and> final_choice (th_paths h) (fm_conflict_policy m) (pe_requested_target e) q))"

definition put_part_ok :: "transfer_host \<Rightarrow> (string \<Rightarrow> bytes option) \<Rightarrow> put_entry \<Rightarrow> bool" where
  "put_part_ok h parts e \<longleftrightarrow>
     (\<forall>p. pe_temp e = Some p \<longrightarrow>
        (\<exists>rest. parts p = Some (pe_prefix e @ rest) \<and> (pe_phase e \<noteq> Receiving \<longrightarrow> rest = []))
        \<and> length (pe_prefix e) = unat (fd_confirmed_offset (pe_descriptor e))
        \<and> fd_confirmed_prefix_sha256 (pe_descriptor e) = sha256_hex (th_sha h) (pe_prefix e))"

definition get_ok :: "transfer_host \<Rightarrow> transfer_id \<Rightarrow> get_entry \<Rightarrow> bool" where
  "get_ok h k e \<longleftrightarrow>
     (let m = ge_manifest e in
      manifest_ok m \<and> in_scope (th_scope h) m \<and> fm_direction m = DeviceToController
      \<and> fm_transfer_id m = k \<and> ge_chunk_size e = fm_chunk_size m)"

definition parts_distinct :: "(transfer_id, put_entry) btree \<Rightarrow> bool" where
  "parts_distinct puts \<longleftrightarrow>
     (\<forall>k1 k2 e1 e2 p. bt_get puts k1 = Some e1 \<longrightarrow> bt_get puts k2 = Some e2 \<longrightarrow>
        pe_temp e1 = Some p \<longrightarrow> pe_temp e2 = Some p \<longrightarrow> k1 = k2)"

text \<open>What is true of every snapshot that can be read back.\<close>

definition durable_inv :: "transfer_snapshot \<Rightarrow> bool" where
  "durable_inv t \<longleftrightarrow>
     (\<forall>p \<in> set (sn_puts t). dp_phase p = Completed \<longrightarrow>
        fd_confirmed_offset (dp_descriptor p) = fm_total_size (dp_manifest p))
     \<and> (\<forall>p \<in> set (sn_puts t). \<forall>x. dp_part_path p = Some x \<longrightarrow> utf8_valid x)
     \<and> (\<forall>p \<in> set (sn_puts t). \<forall>q \<in> set (sn_puts t). \<forall>x. dp_part_path p = Some x \<longrightarrow>
          dp_part_path q = Some x \<longrightarrow> fm_transfer_id (dp_manifest p) = fm_transfer_id (dp_manifest q))"

definition slot_inv :: "transfer_host \<Rightarrow> slot_file \<Rightarrow> bool" where
  "slot_inv h f \<longleftrightarrow>
     (\<forall>t. slot_holds (transfers_validate (th_paths h) (th_scope h))
            (read_host_transfer_slot (th_json h) f) t \<longrightarrow> durable_inv t)"

definition entries_inv :: "transfer_host \<Rightarrow> host_fs set \<Rightarrow> host_transfer \<Rightarrow> bool" where
  "entries_inv h F s \<longleftrightarrow> bt_wf (hx_puts s) \<and> bt_wf (hx_gets s)
     \<and> (\<forall>k e. bt_get (hx_puts s) k = Some e \<longrightarrow> put_ok h F k e \<and> put_part_ok h (hx_parts s) e)
     \<and> (\<forall>k e. bt_get (hx_gets s) k = Some e \<longrightarrow> get_ok h k e \<and> bt_get (hx_puts s) k = None)
     \<and> transfer_count s \<le> 16 \<and> parts_distinct (hx_puts s)"

definition transfers_inv :: "transfer_host \<Rightarrow> host_fs set \<Rightarrow> host_transfer \<Rightarrow> bool" where
  "transfers_inv h F s \<longleftrightarrow> entries_inv h F s \<and> slot_inv h (hx_slot_a s) \<and> slot_inv h (hx_slot_b s)"

text \<open>What is known of SHA-256 and of the JSON library.\<close>

definition transfer_host_ok :: "transfer_host \<Rightarrow> bool" where
  "transfer_host_ok h \<longleftrightarrow> (\<forall>x. length (th_sha h x) = 32) \<and> sha256_hex (th_sha h) [] = EMPTY_SHA256_HEX
     \<and> (\<forall>t. slot_faithful (th_json h) t)"

lemma entries_invD:
  assumes "entries_inv h F s"
  shows "bt_wf (hx_puts s)" "bt_wf (hx_gets s)" "transfer_count s \<le> 16" "parts_distinct (hx_puts s)"
    and "bt_get (hx_puts s) k = Some e \<Longrightarrow> put_ok h F k e \<and> put_part_ok h (hx_parts s) e"
    and "bt_get (hx_gets s) k = Some g \<Longrightarrow> get_ok h k g \<and> bt_get (hx_puts s) k = None"
  using assms by (simp_all add: entries_inv_def)

lemma put_ok_offset:
  assumes "put_ok h F k e" and "pe_phase e \<noteq> Receiving"
  shows "fd_confirmed_offset (pe_descriptor e) = fm_total_size (pe_manifest e)"
proof -
  have "fd_ok (pe_descriptor e)" "fd_total_size (pe_descriptor e) = fm_total_size (pe_manifest e)"
    "fm_total_size (pe_manifest e) \<le> fd_confirmed_offset (pe_descriptor e)"
    using assms by (simp_all add: put_ok_def Let_def not_less)
  then show ?thesis by (simp add: fd_ok_def)
qed

lemma entries_inv_same:
  "hx_puts s' = hx_puts s \<Longrightarrow> hx_gets s' = hx_gets s \<Longrightarrow> hx_parts s' = hx_parts s \<Longrightarrow>
     entries_inv h F s' = entries_inv h F s"
  by (simp add: entries_inv_def transfer_count_def)

subsection \<open>Entries come and go\<close>

lemma drop_put_fields [simp]:
  "hx_gets (drop_put k s) = hx_gets s" "hx_slot_a (drop_put k s) = hx_slot_a s"
  "hx_slot_b (drop_put k s) = hx_slot_b s" "hx_generation (drop_put k s) = hx_generation s"
  "bt_get (hx_puts (drop_put k s)) = (bt_get (hx_puts s))(k := None)"
  by (auto simp: drop_put_def bt_get_None split: option.splits)

lemma put_part_ok_other:
  assumes "parts_distinct puts" and "bt_get puts k = Some e" and "bt_get puts k' = Some e'" and "k \<noteq> k'"
    and "pe_temp e = Some p" and "put_part_ok h parts e'"
  shows "put_part_ok h (parts(p := x)) e'"
proof -
  have "pe_temp e' \<noteq> Some p" using assms by (auto simp: parts_distinct_def)
  then show ?thesis using assms(6) by (auto simp: put_part_ok_def)
qed

lemma parts_distinct_sub:
  "parts_distinct puts \<Longrightarrow> (\<And>k e. bt_get puts' k = Some e \<Longrightarrow> bt_get puts k = Some e) \<Longrightarrow> parts_distinct puts'"
  unfolding parts_distinct_def by blast

lemma drop_put_inv:
  assumes inv: "entries_inv h F s"
  shows "entries_inv h F (drop_put k s)"
proof (cases "bt_get (hx_puts s) k")
  case None
  then show ?thesis using inv by (simp add: drop_put_def)
next
  case (Some e)
  have puts: "hx_puts (drop_put k s) = bt_remove k (hx_puts s)" using Some by (simp add: drop_put_def)
  have parts: "hx_parts (drop_put k s) =
      (case pe_temp e of None \<Rightarrow> hx_parts s | Some p \<Rightarrow> (hx_parts s)(p := None))"
    using Some by (simp add: drop_put_def)
  have "put_ok h F k' e' \<and> put_part_ok h (hx_parts (drop_put k s)) e'"
    if "bt_get (hx_puts s) k' = Some e'" "k' \<noteq> k" for k' e'
    using entries_invD(5) [OF inv that(1)]
      put_part_ok_other [OF entries_invD(4) [OF inv] Some that(1) that(2) [symmetric]]
    unfolding parts by (auto split: option.splits)
  moreover have "parts_distinct (bt_remove k (hx_puts s))"
    by (rule parts_distinct_sub [OF entries_invD(4) [OF inv]]) (simp split: if_splits)
  moreover have "length (bt_remove k (hx_puts s)) \<le> length (hx_puts s)" by (rule length_bt_remove_le)
  ultimately show ?thesis
    using entries_invD [OF inv] by (auto simp: entries_inv_def puts transfer_count_def split: if_splits)
qed

lemma drop_get_inv: "entries_inv h F s \<Longrightarrow> entries_inv h F (drop_get k s)"
  using length_bt_remove_le [of k "hx_gets s"]
  by (auto simp: entries_inv_def drop_get_def transfer_count_def split: if_splits)

lemma drop_put_completed:
  "entries_inv h F s \<Longrightarrow> bt_get (hx_puts s) k = Some e \<Longrightarrow> pe_phase e = Completed \<Longrightarrow>
     hx_parts (drop_put k s) = hx_parts s"
  by (auto simp: drop_put_def put_ok_def Let_def dest!: entries_invD(5))

lemma completed_candidate_phase:
  assumes "bt_wf (hx_puts s)" and "completed_candidate s = Some tid"
  shows "\<exists>e. bt_get (hx_puts s) tid = Some e \<and> pe_phase e = Completed"
proof -
  obtain x where x: "min_sequence (filter (\<lambda>(tid, e). pe_phase e = Completed) (hx_puts s)) = Some x"
    "fst x = tid"
    using assms(2) by (auto simp: completed_candidate_def)
  then have "x \<in> set (hx_puts s)" "pe_phase (snd x) = Completed"
    using min_sequence_in [OF x(1)] by auto
  then show ?thesis using x(2) bt_get_in_set [OF assms(1), of "fst x" "snd x"] by auto
qed

text \<open>Making room only drops completed puts.\<close>

definition pruned_from :: "host_transfer \<Rightarrow> host_transfer \<Rightarrow> bool" where
  "pruned_from s s' \<longleftrightarrow> hx_parts s' = hx_parts s \<and> hx_gets s' = hx_gets s \<and> hx_slot_a s' = hx_slot_a s
     \<and> hx_slot_b s' = hx_slot_b s \<and> hx_generation s' = hx_generation s
     \<and> (\<forall>k. bt_get (hx_puts s') k = bt_get (hx_puts s) k
          \<or> (bt_get (hx_puts s') k = None \<and> (\<exists>e. bt_get (hx_puts s) k = Some e \<and> pe_phase e = Completed)))"

lemma pruned_from_refl: "pruned_from s s"
  by (simp add: pruned_from_def)

lemma pruned_from_get:
  "pruned_from s s' \<Longrightarrow> bt_get (hx_puts s') k = bt_get (hx_puts s) k
     \<or> (bt_get (hx_puts s') k = None \<and> (\<exists>e. bt_get (hx_puts s) k = Some e \<and> pe_phase e = Completed))"
  by (simp add: pruned_from_def)

lemma pruned_from_drop:
  assumes "pruned_from (drop_put tid s) s'" and e: "bt_get (hx_puts s) tid = Some e" "pe_phase e = Completed"
    and parts: "hx_parts (drop_put tid s) = hx_parts s"
  shows "pruned_from s s'"
proof -
  have "bt_get (hx_puts s') k = bt_get (hx_puts s) k
      \<or> (bt_get (hx_puts s') k = None \<and> (\<exists>e. bt_get (hx_puts s) k = Some e \<and> pe_phase e = Completed))" for k
    using pruned_from_get [OF assms(1), of k] e by (cases "k = tid") auto
  then show ?thesis using assms(1) parts by (simp add: pruned_from_def)
qed

lemma prune_inv:
  assumes "entries_inv h F s"
  shows "entries_inv h F (prune_completed s) \<and> pruned_from s (prune_completed s)"
  using assms
proof (induction s rule: prune_completed.induct)
  case (1 s)
  show ?case
  proof (cases "transfer_count s \<ge> HARD_MAX_HOST_FILE_TRANSFERS \<and> completed_candidate s \<noteq> None")
    case False
    then have "prune_completed s = s" by (subst prune_completed.simps) (auto split: option.splits)
    then show ?thesis using 1(2) by (simp add: pruned_from_refl)
  next
    case True
    then obtain tid where c: "completed_candidate s = Some tid"
      and t: "transfer_count s \<ge> HARD_MAX_HOST_FILE_TRANSFERS" by auto
    obtain e where e: "bt_get (hx_puts s) tid = Some e" "pe_phase e = Completed"
      using completed_candidate_phase [OF entries_invD(1) [OF 1(2)] c] by blast
    have p: "prune_completed s = prune_completed (drop_put tid s)"
      by (subst prune_completed.simps) (simp add: c t)
    have IH: "entries_inv h F (prune_completed (drop_put tid s))
        \<and> pruned_from (drop_put tid s) (prune_completed (drop_put tid s))"
      by (rule 1(1) [OF t c drop_put_inv [OF 1(2)]])
    then show ?thesis
      unfolding p using pruned_from_drop [OF conjunct2 [OF IH] e drop_put_completed [OF 1(2) e]] by simp
  qed
qed

subsection \<open>The journal\<close>

lemma slot_inv_NoFile: "slot_inv h NoFile"
  by (simp add: slot_inv_def slot_holds_def read_host_transfer_slot_def)

lemma snapshot_durable_inv:
  assumes inv: "entries_inv h F s"
  shows "durable_inv (snapshot_of h g s)"
proof -
  have e: "bt_get (hx_puts s) k = Some e" if "(k, e) \<in> set (hx_puts s)" for k e
    using bt_get_in_set [OF entries_invD(1) [OF inv]] that by simp
  have u: "utf8_valid p" "to_string_lossy p = p" if "(k, e) \<in> set (hx_puts s)" "pe_temp e = Some p" for k e p
    using entries_invD(5) [OF inv e [OF that(1)]] that(2)
    by (simp_all add: put_ok_def Let_def to_string_lossy_valid)
  have 1: "fd_confirmed_offset (pe_descriptor e) = fm_total_size (pe_manifest e)"
    if "(k, e) \<in> set (hx_puts s)" "pe_phase e = Completed" for k e
    using put_ok_offset [OF conjunct1 [OF entries_invD(5) [OF inv e [OF that(1)]]]] that(2) by simp
  have 2: "fm_transfer_id (pe_manifest e1) = fm_transfer_id (pe_manifest e2)"
    if "(k1, e1) \<in> set (hx_puts s)" "(k2, e2) \<in> set (hx_puts s)" "pe_temp e1 = Some p" "pe_temp e2 = Some p"
    for k1 e1 k2 e2 p
  proof -
    have "k1 = k2"
      using entries_invD(4) [OF inv] e [OF that(1)] e [OF that(2)] that(3,4)
      unfolding parts_distinct_def by blast
    then show ?thesis using e [OF that(1)] e [OF that(2)] by simp
  qed
  show ?thesis
    unfolding durable_inv_def
    by (auto simp: snapshot_of_def durable_put_of_def u 1 dest: 2)
qed

lemma persist_cases:
  assumes "persist_transfers h w s = (s', r)"
  obtains (refused) e where "s' = s" "r = Err e"
  | (written) f where "checked_add (hx_generation s) 1 = Some (hx_generation s + 1)"
      "transfers_ok (th_paths h) (th_scope h) (snapshot_of h (hx_generation s + 1) s)"
      "write_host_transfer_slot (th_json h) w (snapshot_of h (hx_generation s + 1) s)
         (if even_to_a (hx_generation s + 1) then hx_slot_a s else hx_slot_b s) = (f, r)"
      "s' = (let s1 = (if even_to_a (hx_generation s + 1) then s\<lparr>hx_slot_a := f\<rparr> else s\<lparr>hx_slot_b := f\<rparr>) in
             if is_ok r then s1\<lparr>hx_generation := hx_generation s + 1\<rparr> else s1)"
proof (cases "checked_add (hx_generation s) 1")
  case None
  then show ?thesis using assms refused [of HtGenerationOverflow] by (simp add: persist_transfers_def)
next
  case (Some g)
  then have g: "g = hx_generation s + 1" by (simp add: checked_add_1)
  show ?thesis
  proof (cases "transfers_validate (th_paths h) (th_scope h) (snapshot_of h g s)")
    case (Inl e)
    then show ?thesis using assms refused [of e] Some by (simp add: persist_transfers_def)
  next
    case (Inr u)
    then have ok: "transfers_ok (th_paths h) (th_scope h) (snapshot_of h g s)"
      by (simp add: transfers_validate_Ok)
    obtain f rw where w: "write_host_transfer_slot (th_json h) w (snapshot_of h g s)
        (if even_to_a g then hx_slot_a s else hx_slot_b s) = (f, rw)" by fastforce
    have v: "transfers_validate (th_paths h) (th_scope h) (snapshot_of h g s) = Ok ()"
      using Inr by simp
    let ?s = "if even_to_a g then s\<lparr>hx_slot_a := f\<rparr> else s\<lparr>hx_slot_b := f\<rparr>"
    have "persist_transfers h w s = (case rw of Inl e \<Rightarrow> (?s, Err e) | Inr _ \<Rightarrow> (?s\<lparr>hx_generation := g\<rparr>, Ok ()))"
      by (simp add: persist_transfers_def Some v w Let_def)
    then have s': "r = rw \<and> s' = (if is_ok rw then ?s\<lparr>hx_generation := g\<rparr> else ?s)"
      using assms by (cases rw) auto
    show ?thesis
      by (rule written [of f]) (use s' Some w ok g in \<open>simp_all add: Let_def\<close>)
  qed
qed

lemma persist_fields:
  assumes "persist_transfers h w s = (s', r)"
  shows "hx_puts s' = hx_puts s" "hx_gets s' = hx_gets s" "hx_parts s' = hx_parts s"
    "hx_files s' = hx_files s" "hx_next_sequence s' = hx_next_sequence s"
  using assms by (cases rule: persist_cases; simp add: Let_def)+

lemma persist_inv:
  assumes h: "transfer_host_ok h" and inv: "transfers_inv h F s" and p: "persist_transfers h w s = (s', r)"
  shows "transfers_inv h F s'"
proof -
  have e: "entries_inv h F s'"
    using inv entries_inv_same [OF persist_fields(1,2,3) [OF p]] by (simp add: transfers_inv_def)
  from p show ?thesis
  proof (cases rule: persist_cases)
    case refused
    then show ?thesis using inv by simp
  next
    case (written f)
    let ?c = "snapshot_of h (hx_generation s + 1) s"
    have good: "slot_good (th_json h) (transfers_validate (th_paths h) (th_scope h)) ?c"
      using written(2) h by (simp add: slot_good_def transfer_host_ok_def is_ok_iff transfers_validate_Ok)
    have "slot_inv h f"
      using ht.put_leaves [OF good written(3)] inv snapshot_durable_inv [of h F s]
      unfolding slot_inv_def transfers_inv_def by (auto split: if_splits)
    then show ?thesis
      using inv e written(4) by (auto simp: transfers_inv_def Let_def)
  qed
qed

lemma journal_fields:
  assumes "journal h w s = (s', b)"
  shows "hx_puts s' = hx_puts s" "hx_gets s' = hx_gets s" "hx_parts s' = hx_parts s"
    "hx_files s' = hx_files s" "hx_next_sequence s' = hx_next_sequence s"
  using assms by (auto simp: journal_def persist_fields split: if_splits prod.splits)

lemma journal_inv_kept:
  assumes "transfer_host_ok h" and "transfers_inv h F s" and "journal h w s = (s', b)"
  shows "transfers_inv h F s'"
  using assms persist_inv [OF assms(1,2)] by (auto simp: journal_def split: if_splits prod.splits)


subsection \<open>Beginning a put or a get\<close>

lemma transfers_invD:
  "transfers_inv h F s \<Longrightarrow> entries_inv h F s"
  "transfers_inv h F s \<Longrightarrow> slot_inv h (hx_slot_a s) \<and> slot_inv h (hx_slot_b s)"
  by (simp_all add: transfers_inv_def)

lemma transfers_inv_entries:
  "transfers_inv h F s \<Longrightarrow> entries_inv h F s' \<Longrightarrow> hx_slot_a s' = hx_slot_a s \<Longrightarrow> hx_slot_b s' = hx_slot_b s \<Longrightarrow>
     transfers_inv h F s'"
  by (simp add: transfers_inv_def)

lemma prune_transfers_inv:
  "transfers_inv h F s \<Longrightarrow> transfers_inv h F (prune_completed s)"
  using prune_inv [of h F s] by (simp add: transfers_inv_def pruned_from_def)

lemma set_put_fields [simp]:
  "hx_puts (set_put k e s) = bt_insert k e (hx_puts s)" "hx_gets (set_put k e s) = hx_gets s"
  "hx_parts (set_put k e s) = hx_parts s" "hx_slot_a (set_put k e s) = hx_slot_a s"
  "hx_slot_b (set_put k e s) = hx_slot_b s" "hx_files (set_put k e s) = hx_files s"
  "hx_generation (set_put k e s) = hx_generation s"
  by (simp_all add: set_put_def)

lemma set_get_fields [simp]:
  "hx_gets (set_get k e s) = bt_insert k e (hx_gets s)" "hx_puts (set_get k e s) = hx_puts s"
  "hx_parts (set_get k e s) = hx_parts s" "hx_slot_a (set_get k e s) = hx_slot_a s"
  "hx_slot_b (set_get k e s) = hx_slot_b s" "hx_files (set_get k e s) = hx_files s"
  "hx_generation (set_get k e s) = hx_generation s"
  by (simp_all add: set_get_def)

text \<open>Replacing or adding an entry whose part no other entry uses.\<close>

lemma set_put_inv:
  assumes inv: "entries_inv h F s"
    and parts: "\<And>k' e'. bt_get (hx_puts s) k' = Some e' \<Longrightarrow> k' \<noteq> k \<Longrightarrow> put_part_ok h (hx_parts t) e'"
    and alone: "\<And>k' e' p. bt_get (hx_puts s) k' = Some e' \<Longrightarrow> k' \<noteq> k \<Longrightarrow> pe_temp e = Some p \<Longrightarrow> pe_temp e' \<noteq> Some p"
    and e: "put_ok h F k e" "put_part_ok h (hx_parts t) e"
    and puts: "hx_puts t = bt_insert k e (hx_puts s)" and gets: "hx_gets t = hx_gets s"
    and free: "bt_get (hx_gets s) k = None"
    and count: "bt_get (hx_puts s) k = None \<Longrightarrow> transfer_count s < 16"
  shows "entries_inv h F t"
proof -
  have "parts_distinct (hx_puts t)"
    unfolding parts_distinct_def
  proof (intro allI impI)
    fix k1 k2 e1 e2 p
    assume a: "bt_get (hx_puts t) k1 = Some e1" "bt_get (hx_puts t) k2 = Some e2"
      "pe_temp e1 = Some p" "pe_temp e2 = Some p"
    show "k1 = k2"
    proof (cases "k1 = k \<or> k2 = k")
      case True
      then show ?thesis using a alone [of k1 e1 p] alone [of k2 e2 p] by (auto simp: puts split: if_splits)
    next
      case False
      then show ?thesis
        using a entries_invD(4) [OF inv] unfolding parts_distinct_def by (simp add: puts)
    qed
  qed
  moreover have "put_ok h F k' e' \<and> put_part_ok h (hx_parts t) e'" if "bt_get (hx_puts t) k' = Some e'" for k' e'
    using that e parts entries_invD(5) [OF inv] by (auto simp: puts split: if_splits)
  moreover have "get_ok h k' g \<and> bt_get (hx_puts t) k' = None" if "bt_get (hx_gets t) k' = Some g" for k' g
    using that free entries_invD(6) [OF inv] by (auto simp: puts gets)
  moreover have "transfer_count t \<le> 16"
    using count entries_invD(1,3) [OF inv]
    by (cases "bt_get (hx_puts s) k = None") (auto simp: transfer_count_def puts gets length_bt_insert)
  ultimately show ?thesis
    using entries_invD(1,2) [OF inv] by (simp add: entries_inv_def puts gets)
qed

lemma new_put_ok:
  assumes h: "transfer_host_ok h" and m: "manifest_ok m" "put_scope_ok h m" and t: "put_target_ok h F m target"
    and d: "initial_resume_descriptor m = Ok d" and p: "utf8_valid part"
  shows "put_ok h F (fm_transfer_id m) (new_put q m d target part)"
    and "put_part_ok h (parts(part \<mapsto> [])) (new_put q m d target part)"
proof -
  have d': "d = \<lparr>fd_version = FILE_RESUME_DESCRIPTOR_VERSION, fd_transfer_id = fm_transfer_id m,
      fd_controller_id = fm_controller_id m, fd_site_id = fm_site_id m, fd_device_id = fm_device_id m,
      fd_direction = fm_direction m, fd_device_path = fm_device_path m, fd_total_size = fm_total_size m,
      fd_checkpoint_revision = 1, fd_confirmed_offset = 0, fd_confirmed_prefix_sha256 = EMPTY_SHA256_HEX,
      fd_final_sha256 = Some (fm_final_sha256 m)\<rparr>" and ok: "fd_ok d"
    using d by (auto simp: initial_resume_descriptor_def fd_new_def bind_r_Ok Let_def fd_validate_Ok)
  show "put_ok h F (fm_transfer_id m) (new_put q m d target part)"
    using m t p ok by (simp add: put_ok_def put_aligned_def new_put_def d' word_neq_0_conv)
  show "put_part_ok h (parts(part \<mapsto> [])) (new_put q m d target part)"
    using h by (simp add: put_part_ok_def new_put_def d' transfer_host_ok_def)
qed

lemma put_known_None:
  "put_known m s = None \<longleftrightarrow>
     bt_get (hx_puts s) (fm_transfer_id m) = None \<and> bt_get (hx_gets s) (fm_transfer_id m) = None"
  by (auto simp: put_known_def split: option.splits)

lemma put_part_ok_new:
  "put_part_ok h parts e \<Longrightarrow> parts p = None \<Longrightarrow> put_part_ok h (parts(p \<mapsto> x)) e \<and> pe_temp e \<noteq> Some p"
  by (auto simp: put_part_ok_def)

lemma put_enter_inv:
  assumes h: "transfer_host_ok h" and inv0: "transfers_inv h F s0"
    and m: "manifest_ok m" "put_scope_ok h m" and t: "put_target_ok h F m target"
    and d: "initial_resume_descriptor m = Ok d" and p: "utf8_valid part" "hx_parts s0 part = None"
  shows "transfers_inv h F (fst (put_enter h w m d target part s0))"
proof -
  define s where "s = prune_completed s0"
  have inv: "transfers_inv h F s" and part: "hx_parts s part = None"
    using prune_transfers_inv [OF inv0] prune_inv [OF transfers_invD(1) [OF inv0]] p(2)
    by (simp_all add: s_def pruned_from_def)
  show ?thesis
  proof (cases "put_known m s = None \<and> transfer_count s < 16")
    case False
    then have "fst (put_enter h w m d target part s0) = s"
      by (auto simp: put_enter_def Let_def s_def [symmetric] bounds_simps not_less split: option.splits)
    then show ?thesis using inv by simp
  next
    case True
    let ?k = "fm_transfer_id m" and ?q = "saturating_add (hx_next_sequence s) 1"
    let ?e = "new_put ?q m d target part"
    let ?s1 = "set_put ?k ?e (s\<lparr>hx_next_sequence := ?q, hx_parts := (hx_parts s)(part \<mapsto> [])\<rparr>)"
    have free: "bt_get (hx_puts s) ?k = None" "bt_get (hx_gets s) ?k = None"
      using True by (simp_all add: put_known_None)
    have others: "put_part_ok h (hx_parts ?s1) e' \<and> pe_temp e' \<noteq> Some part"
      if "bt_get (hx_puts s) k' = Some e'" for k' e'
      using put_part_ok_new [OF conjunct2 [OF entries_invD(5) [OF transfers_invD(1) [OF inv] that]] part]
      by simp
    have "entries_inv h F ?s1"
    proof (rule set_put_inv [OF transfers_invD(1) [OF inv]])
      show "put_ok h F ?k ?e" by (rule new_put_ok(1) [OF h m t d p(1)])
      show "put_part_ok h (hx_parts ?s1) ?e" using new_put_ok(2) [OF h m t d p(1)] by simp
      show "pe_temp e' \<noteq> Some p'" if "bt_get (hx_puts s) k' = Some e'" "pe_temp ?e = Some p'" for k' e' p'
        using others [OF that(1)] that(2) by (simp add: new_put_def)
    qed (use True free others in simp_all)
    then have inv1: "transfers_inv h F ?s1" by (rule transfers_inv_entries [OF inv]) simp_all
    obtain s2 b where j: "journal h w ?s1 = (s2, b)" by fastforce
    have inv2: "transfers_inv h F s2" by (rule journal_inv_kept [OF h inv1 j])
    have "fst (put_enter h w m d target part s0) = (if b then s2 else drop_put ?k s2)"
      using True j by (simp add: put_enter_def Let_def s_def [symmetric] bounds_simps)
    then show ?thesis
      using inv2 drop_put_inv [OF transfers_invD(1) [OF inv2], of ?k] by (simp add: transfers_inv_def)
  qed
qed

lemma get_known_None:
  "get_known tid r c s = None \<longleftrightarrow> bt_get (hx_puts s) tid = None \<and> bt_get (hx_gets s) tid = None"
  by (auto simp: get_known_def split: option.splits)

lemma set_get_inv:
  assumes inv: "entries_inv h F s" and g: "get_ok h k g" and free: "bt_get (hx_puts s) k = None"
    and count: "bt_get (hx_gets s) k = None \<Longrightarrow> transfer_count s < 16"
  shows "entries_inv h F (set_get k g s)"
proof -
  have "get_ok h k' g' \<and> bt_get (hx_puts s) k' = None" if "bt_get (hx_gets (set_get k g s)) k' = Some g'" for k' g'
    using that g free entries_invD(6) [OF inv, of k' g'] by (auto split: if_splits)
  moreover have "transfer_count (set_get k g s) \<le> 16"
    using count entries_invD(2,3) [OF inv]
    by (cases "bt_get (hx_gets s) k = None") (auto simp: transfer_count_def length_bt_insert)
  ultimately show ?thesis
    using entries_invD(1,2,4,5) [OF inv] by (simp add: entries_inv_def)
qed

lemma get_manifest_ok:
  assumes "get_manifest h tid path n chunk hash = Ok m"
  shows "get_ok h tid \<lparr>ge_requested_device_path = r, ge_chunk_size = chunk, ge_manifest = m\<rparr>"
  using assms by (auto simp: get_manifest_def manifest_new_def bind_r_Ok Let_def manifest_validate_Ok get_ok_def in_scope_def)

lemma get_prepare_ok:
  assumes "get_prepare h fs tid r chunk = Ok m"
  shows "get_ok h tid \<lparr>ge_requested_device_path = r, ge_chunk_size = chunk, ge_manifest = m\<rparr>"
proof -
  obtain path n hash where "get_manifest h tid path n chunk hash = Ok m"
    using assms by (auto simp: get_prepare_def bind_r_Ok split: if_splits)
  then show ?thesis by (rule get_manifest_ok)
qed

lemma get_enter_inv:
  assumes h: "transfer_host_ok h" and inv0: "transfers_inv h F s0"
    and m: "get_ok h tid \<lparr>ge_requested_device_path = r, ge_chunk_size = chunk, ge_manifest = m\<rparr>"
  shows "transfers_inv h F (fst (get_enter h w tid r chunk m s0))"
proof -
  define s where "s = prune_completed s0"
  have inv: "transfers_inv h F s" using prune_transfers_inv [OF inv0] by (simp add: s_def)
  show ?thesis
  proof (cases "get_known tid r chunk s = None \<and> transfer_count s < 16")
    case False
    then have "fst (get_enter h w tid r chunk m s0) = s"
      by (auto simp: get_enter_def Let_def s_def [symmetric] bounds_simps not_less split: option.splits)
    then show ?thesis using inv by simp
  next
    case True
    let ?s1 = "set_get tid \<lparr>ge_requested_device_path = r, ge_chunk_size = chunk, ge_manifest = m\<rparr> s"
    have "entries_inv h F ?s1"
      by (rule set_get_inv [OF transfers_invD(1) [OF inv] m]) (use True in \<open>simp_all add: get_known_None\<close>)
    then have inv1: "transfers_inv h F ?s1" by (rule transfers_inv_entries [OF inv]) simp_all
    obtain s2 b where j: "journal h w ?s1 = (s2, b)" by fastforce
    have inv2: "transfers_inv h F s2" by (rule journal_inv_kept [OF h inv1 j])
    have "fst (get_enter h w tid r chunk m s0) = (if b then s2 else drop_get tid s2)"
      using True j by (simp add: get_enter_def Let_def s_def [symmetric] bounds_simps)
    moreover have "transfers_inv h F (drop_get tid s2)"
      using inv2 drop_get_inv [OF transfers_invD(1) [OF inv2], of tid] by (simp add: transfers_inv_def drop_get_def)
    ultimately show ?thesis using inv2 by simp
  qed
qed


subsection \<open>Chunks\<close>

text \<open>What makes a chunk acceptable to an entry, and the entry it leaves.\<close>

definition chunk_fits :: "transfer_host \<Rightarrow> put_entry \<Rightarrow> file_transfer_chunk \<Rightarrow> bytes \<Rightarrow> bool" where
  "chunk_fits h e c bs \<longleftrightarrow> pe_phase e = Receiving
     \<and> chunk_data (th_sha h) (th_base64 h) c bs
     \<and> fc_offset c = fd_confirmed_offset (pe_descriptor e)
     \<and> manifest_validate_chunk (th_sha h) (th_base64 h) (pe_manifest e) c = Ok ()
     \<and> (fd_confirmed_offset (pe_descriptor (confirm_chunk h c bs e)) = fm_total_size (pe_manifest e) \<longrightarrow>
          sha256_hex (th_sha h) (pe_prefix e @ bs) = fm_final_sha256 (pe_manifest e))"

lemma chunk_fits_offset:
  assumes e: "put_ok h F k e" and fits: "chunk_fits h e c bs"
  shows "unat (fd_confirmed_offset (pe_descriptor (confirm_chunk h c bs e)))
      = unat (fd_confirmed_offset (pe_descriptor e)) + length bs"
    and "unat (fd_confirmed_offset (pe_descriptor e)) + length bs \<le> unat (fm_total_size (pe_manifest e))"
    and "bs \<noteq> []"
proof -
  let ?o = "fd_confirmed_offset (pe_descriptor e)" and ?n = "fm_total_size (pe_manifest e)"
  obtain bs' where bs': "chunk_data (th_sha h) (th_base64 h) c bs'" "?o < ?n"
    "length bs' = min (unat (fm_chunk_size (pe_manifest e))) (unat ?n - unat ?o)"
    using fits by (auto simp: chunk_fits_def manifest_validate_chunk_Ok)
  have d: "chunk_data (th_sha h) (th_base64 h) c bs" using fits by (simp add: chunk_fits_def)
  have b: "bs' = bs" "bs \<noteq> []"
    using chunk_data_unique [OF bs'(1) d] d by (simp_all add: chunk_data_def)
  show le: "unat ?o + length bs \<le> unat ?n" using bs' b by (simp add: word_less_nat_alt)
  show "bs \<noteq> []" by (rule b(2))
  have lt: "unat ?n < 2 ^ 64" using unsigned_less [of ?n, where ?'a = nat] by simp
  have len: "unat (word_of_nat (length bs) :: u64) = length bs"
    using le lt by (simp add: unat_of_nat)
  have "unat (saturating_add ?o (word_of_nat (length bs))) = unat ?o + length bs"
    unfolding unat_saturating_add len using le lt by simp
  then show "unat (fd_confirmed_offset (pe_descriptor (confirm_chunk h c bs e))) = unat ?o + length bs"
    by (simp add: confirm_chunk_def Let_def next_descriptor_def)
qed

lemma confirm_fields [simp]:
  "pe_manifest (confirm_chunk h c bs e) = pe_manifest e"
  "pe_requested_target (confirm_chunk h c bs e) = pe_requested_target e"
  "pe_temp (confirm_chunk h c bs e) = pe_temp e"
  "pe_prefix (confirm_chunk h c bs e) = pe_prefix e @ bs"
  "pe_finalizing_path (confirm_chunk h c bs e) = pe_finalizing_path e"
  "pe_final_device_path (confirm_chunk h c bs e) = pe_final_device_path e"
  "pe_phase (confirm_chunk h c bs e) =
     (if fd_confirmed_offset (pe_descriptor (confirm_chunk h c bs e)) = fm_total_size (pe_manifest e)
      then ReadyToFinalize else Receiving)"
  "fd_confirmed_prefix_sha256 (pe_descriptor (confirm_chunk h c bs e)) = sha256_hex (th_sha h) (pe_prefix e @ bs)"
  "fd_version (pe_descriptor (confirm_chunk h c bs e)) = fd_version (pe_descriptor e)"
  "fd_transfer_id (pe_descriptor (confirm_chunk h c bs e)) = fd_transfer_id (pe_descriptor e)"
  "fd_device_path (pe_descriptor (confirm_chunk h c bs e)) = fd_device_path (pe_descriptor e)"
  "fd_total_size (pe_descriptor (confirm_chunk h c bs e)) = fd_total_size (pe_descriptor e)"
  "fd_final_sha256 (pe_descriptor (confirm_chunk h c bs e)) = fd_final_sha256 (pe_descriptor e)"
  "fd_checkpoint_revision (pe_descriptor (confirm_chunk h c bs e)) =
     saturating_add (fd_checkpoint_revision (pe_descriptor e)) 1"
  by (simp_all add: confirm_chunk_def Let_def next_descriptor_def)

lemma saturating_inc_nonzero: "saturating_add (r :: u64) 1 \<noteq> 0"
  unfolding unat_eq_zero [symmetric] unat_saturating_add by simp

lemma confirm_descriptor_ok:
  assumes h: "transfer_host_ok h" and e: "put_ok h F k e" and fits: "chunk_fits h e c bs"
  shows "fd_ok (pe_descriptor (confirm_chunk h c bs e))"
proof -
  let ?e = "confirm_chunk h c bs e"
  note off = chunk_fits_offset [OF e fits]
  have tot: "fd_total_size (pe_descriptor e) = fm_total_size (pe_manifest e)" and d: "fd_ok (pe_descriptor e)"
    and fin: "fd_final_sha256 (pe_descriptor e) = Some (fm_final_sha256 (pe_manifest e))"
    using e by (simp_all add: put_ok_def Let_def)
  have "fd_confirmed_offset (pe_descriptor ?e) \<le> fm_total_size (pe_manifest e)"
    unfolding word_le_nat_alt off(1) by (rule off(2))
  moreover have "fd_confirmed_offset (pe_descriptor ?e) \<noteq> 0"
    unfolding unat_eq_zero [symmetric] off(1) using off(3) by simp
  moreover have "is_sha256_hex (sha256_hex (th_sha h) (pe_prefix e @ bs))"
    using h by (intro sha256_hex_ok) (simp add: transfer_host_ok_def)
  moreover have "fd_confirmed_offset (pe_descriptor ?e) = fm_total_size (pe_manifest e) \<Longrightarrow>
      sha256_hex (th_sha h) (pe_prefix e @ bs) = fm_final_sha256 (pe_manifest e)"
    using fits by (simp add: chunk_fits_def)
  ultimately show ?thesis
    using d tot fin saturating_inc_nonzero [of "fd_checkpoint_revision (pe_descriptor e)"]
    by (simp add: fd_ok_def)
qed

lemma confirm_aligned:
  assumes e: "put_ok h F k e" and fits: "chunk_fits h e c bs"
  shows "put_aligned (pe_manifest e) (pe_descriptor (confirm_chunk h c bs e))"
proof -
  let ?o = "fd_confirmed_offset (pe_descriptor e)" and ?n = "fm_total_size (pe_manifest e)"
    and ?c = "unat (fm_chunk_size (pe_manifest e))"
  note off = chunk_fits_offset [OF e fits]
  obtain bs' where bs': "chunk_data (th_sha h) (th_base64 h) c bs'" "unat ?o mod ?c = 0"
    "length bs' = min ?c (unat ?n - unat ?o)"
    using fits by (auto simp: chunk_fits_def manifest_validate_chunk_Ok)
  have d: "chunk_data (th_sha h) (th_base64 h) c bs" using fits by (simp add: chunk_fits_def)
  have len: "length bs = min ?c (unat ?n - unat ?o)" using bs'(3) chunk_data_unique [OF bs'(1) d] by simp
  show ?thesis
  proof (cases "?c \<le> unat ?n - unat ?o")
    case True
    then show ?thesis using off(1) len bs'(2) by (simp add: put_aligned_def)
  next
    case False
    then have "unat (fd_confirmed_offset (pe_descriptor (confirm_chunk h c bs e))) = unat ?n"
      using off(1,2) len by simp
    then show ?thesis by (simp add: put_aligned_def word_unat_eq_iff)
  qed
qed

lemma confirm_put_ok:
  assumes h: "transfer_host_ok h" and e: "put_ok h F k e" and fits: "chunk_fits h e c bs"
  shows "put_ok h F k (confirm_chunk h c bs e)"
proof -
  have "pe_phase e = Receiving" using fits by (simp add: chunk_fits_def)
  moreover have "fd_confirmed_offset (pe_descriptor (confirm_chunk h c bs e)) \<le> fm_total_size (pe_manifest e)"
    using confirm_descriptor_ok [OF assms] e by (simp add: fd_ok_def put_ok_def Let_def)
  then have "fd_confirmed_offset (pe_descriptor (confirm_chunk h c bs e)) \<noteq> fm_total_size (pe_manifest e) \<longleftrightarrow>
      fd_confirmed_offset (pe_descriptor (confirm_chunk h c bs e)) < fm_total_size (pe_manifest e)"
    by (simp add: order_less_le)
  moreover have "put_aligned (pe_manifest e) (pe_descriptor (confirm_chunk h c bs e))"
    by (rule confirm_aligned [OF e fits])
  ultimately show ?thesis
    using e confirm_descriptor_ok [OF assms] by (simp add: put_ok_def Let_def)
qed

lemma put_chunk_cases:
  assumes "put_chunk h w c s = (s', r)"
  obtains (same) "s' = s"
  | (torn) e part bs content n where "bt_get (hx_puts s) (fc_transfer_id c) = Some e" "pe_temp e = Some part"
      "pe_phase e = Receiving" "hx_parts s part = Some content \<or> (hx_parts s part = None \<and> content = [])"
      "length content = unat (fd_confirmed_offset (pe_descriptor e))"
      "s' = s\<lparr>hx_parts := (hx_parts s)(part \<mapsto> content @ take n bs)\<rparr>"
  | (stored) e part bs content where "bt_get (hx_puts s) (fc_transfer_id c) = Some e" "pe_temp e = Some part"
      "chunk_fits h e c bs" "hx_parts s part = Some content \<or> (hx_parts s part = None \<and> content = [])"
      "length content = unat (fd_confirmed_offset (pe_descriptor e))"
      "s' = set_put (fc_transfer_id c) (confirm_chunk h c bs e)
         (s\<lparr>hx_parts := (hx_parts s)(part \<mapsto> content @ bs)\<rparr>)"
proof -
  consider "s' = s" | e bs where "bt_get (hx_puts s) (fc_transfer_id c) = Some e" "chunk_fits h e c bs"
      "(s', r) = write_chunk h w c bs e s"
  proof (cases "bt_get (hx_puts s) (fc_transfer_id c)")
    case None
    then show ?thesis using assms that(1) by (simp add: put_chunk_def)
  next
    case (Some e)
    show ?thesis
    proof (cases "chunk_decode_bytes (th_sha h) (th_base64 h) c")
      case (Inl x)
      then show ?thesis using assms Some that(1) by (simp add: put_chunk_def)
    next
      case (Inr bs)
      then have data: "chunk_data (th_sha h) (th_base64 h) c bs" by (simp add: chunk_decode_bytes_Ok)
      show ?thesis
      proof (cases "chunk_fits h e c bs \<and> \<not> chunk_replayed e c bs")
        case True
        then have "(s', r) = write_chunk h w c bs e s"
          using assms Some Inr by (auto simp: put_chunk_def Let_def chunk_fits_def is_ok_unit)
        then show ?thesis using that(2) Some True by blast
      next
        case False
        then have "s' = s"
          using assms Some Inr data
          by (cases "pe_phase e")
            (auto simp: put_chunk_def Let_def chunk_fits_def is_ok_unit split: if_splits)
        then show ?thesis by (rule that(1))
      qed
    qed
  qed
  then show ?thesis
  proof cases
    case 1
    then show ?thesis by (rule same)
  next
    case (2 e bs)
    show ?thesis
    proof (cases "pe_temp e")
      case None
      then show ?thesis using 2(3) same by (simp add: write_chunk_def)
    next
      case (Some part)
      define content where "content = (case hx_parts s part of None \<Rightarrow> [] | Some x \<Rightarrow> x)"
      have c: "hx_parts s part = Some content \<or> (hx_parts s part = None \<and> content = [])"
        by (cases "hx_parts s part") (simp_all add: content_def)
      have off: "fc_offset c = fd_confirmed_offset (pe_descriptor e)" and ph: "pe_phase e = Receiving"
        using 2(2) by (simp_all add: chunk_fits_def)
      show ?thesis
      proof (cases "w = ChunkStatFails \<or> w = ChunkSeekFails
          \<or> length content \<noteq> unat (fd_confirmed_offset (pe_descriptor e))")
        case True
        then have "s' = s"
          using 2(3) Some by (auto simp: write_chunk_def Let_def content_def [symmetric] split: if_splits)
        then show ?thesis by (rule same)
      next
        case False
        then have len: "length content = unat (fd_confirmed_offset (pe_descriptor e))" by simp
        have at: "write_at (unat (fc_offset c)) x content = content @ x" for x
          using len off by (simp add: write_at_def)
        show ?thesis
        proof (cases w)
          case (ChunkTorn n)
          then show ?thesis
            using 2(3) Some False
            by (intro torn [OF 2(1) Some ph c len, of n bs])
               (simp add: write_chunk_def Let_def content_def [symmetric] at)
        next
          case ChunkSyncFails
          then show ?thesis
            using 2(3) Some False
            by (intro torn [OF 2(1) Some ph c len, of "length bs" bs])
               (simp add: write_chunk_def Let_def content_def [symmetric] at)
        next
          case ChunkWritten
          then show ?thesis
            using 2(3) Some False
            by (intro stored [OF 2(1) Some 2(2) c len])
               (simp add: write_chunk_def Let_def content_def [symmetric] at)
        qed (use False in simp_all)
      qed
    qed
  qed
qed

lemma part_content:
  assumes "put_part_ok h parts e" and "pe_temp e = Some p"
    and "parts p = Some content \<or> (parts p = None \<and> content = [])"
    and "length content = unat (fd_confirmed_offset (pe_descriptor e))"
  shows "parts p = Some (pe_prefix e)" and "content = pe_prefix e"
    and "fd_confirmed_prefix_sha256 (pe_descriptor e) = sha256_hex (th_sha h) (pe_prefix e)"
  using assms by (auto simp: put_part_ok_def)

lemma put_chunk_inv:
  assumes h: "transfer_host_ok h" and inv: "transfers_inv h F s" and p: "put_chunk h w c s = (s', r)"
  shows "transfers_inv h F s'"
  using p
proof (cases rule: put_chunk_cases)
  case same
  then show ?thesis using inv by simp
next
  case (torn e part bs content n)
  have eok: "put_ok h F (fc_transfer_id c) e" "put_part_ok h (hx_parts s) e"
    using entries_invD(5) [OF transfers_invD(1) [OF inv] torn(1)] by simp_all
  have content: "content = pe_prefix e" by (rule part_content(2) [OF eok(2) torn(2,4,5)])
  have ok: "put_part_ok h (hx_parts s') e'" if "bt_get (hx_puts s) k' = Some e'" for k' e'
  proof (cases "k' = fc_transfer_id c")
    case True
    then show ?thesis using that torn eok(2) content by (simp add: put_part_ok_def)
  next
    case False
    show ?thesis
      using put_part_ok_other [OF entries_invD(4) [OF transfers_invD(1) [OF inv]] torn(1) that False [symmetric] torn(2)]
        entries_invD(5) [OF transfers_invD(1) [OF inv] that] torn(6) by simp
  qed
  then have "entries_inv h F s'"
    using inv torn(6) by (simp add: transfers_inv_def entries_inv_def transfer_count_def)
  then show ?thesis by (rule transfers_inv_entries [OF inv]) (simp_all add: torn(6))
next
  case (stored e part bs content)
  let ?k = "fc_transfer_id c"
  have eok: "put_ok h F ?k e" "put_part_ok h (hx_parts s) e"
    using entries_invD(5) [OF transfers_invD(1) [OF inv] stored(1)] by simp_all
  have content: "content = pe_prefix e" by (rule part_content(2) [OF eok(2) stored(2,4,5)])
  have parts: "hx_parts s' = (hx_parts s)(part \<mapsto> pe_prefix e @ bs)" by (simp add: stored(6) content)
  have ok': "put_ok h F ?k (confirm_chunk h c bs e)" by (rule confirm_put_ok [OF h eok(1) stored(3)])
  have len: "length (pe_prefix e) = unat (fd_confirmed_offset (pe_descriptor e))"
    using eok(2) stored(2) by (simp add: put_part_ok_def)
  have "entries_inv h F s'"
  proof (rule set_put_inv [OF transfers_invD(1) [OF inv], of ?k s'])
    show "put_part_ok h (hx_parts s') (confirm_chunk h c bs e)"
      using stored(2) len chunk_fits_offset(1) [OF eok(1) stored(3)] by (simp add: put_part_ok_def parts)
    show "put_part_ok h (hx_parts s') e'" if "bt_get (hx_puts s) k' = Some e'" "k' \<noteq> ?k" for k' e'
      using put_part_ok_other [OF entries_invD(4) [OF transfers_invD(1) [OF inv]] stored(1) that(1) that(2) [symmetric] stored(2)]
        entries_invD(5) [OF transfers_invD(1) [OF inv] that(1)] by (simp add: parts)
    show "pe_temp e' \<noteq> Some p" if "bt_get (hx_puts s) k' = Some e'" "k' \<noteq> ?k"
      "pe_temp (confirm_chunk h c bs e) = Some p" for k' e' p
      using entries_invD(4) [OF transfers_invD(1) [OF inv]] stored(1,2) that
      unfolding parts_distinct_def by auto
    show "bt_get (hx_gets s) ?k = None"
      using entries_invD(6) [OF transfers_invD(1) [OF inv]] stored(1) by (cases "bt_get (hx_gets s) ?k") auto
  qed (use stored(1,6) ok' in simp_all)
  then show ?thesis by (rule transfers_inv_entries [OF inv]) (simp_all add: stored(6))
qed

lemma cancel_inv:
  assumes h: "transfer_host_ok h" and inv: "transfers_inv h F s"
  shows "transfers_inv h F (fst (transfer_cancel h w tid s))"
proof -
  have p: "transfers_inv h F (drop_put tid s)"
    by (rule transfers_inv_entries [OF inv drop_put_inv [OF transfers_invD(1) [OF inv]]]) simp_all
  have g: "transfers_inv h F (drop_get tid s)"
    by (rule transfers_inv_entries [OF inv drop_get_inv [OF transfers_invD(1) [OF inv]]]) (simp_all add: drop_get_def)
  have j: "transfers_inv h F (fst (journal h w t))" if "transfers_inv h F t" for t
    by (rule journal_inv_kept [OF h that surjective_pairing])
  show ?thesis
    using inv j [OF p] j [OF g] by (auto simp: transfer_cancel_def cancel_reply_def split: option.splits)
qed


subsection \<open>Finalizing\<close>

lemma finalizing_path_choice:
  assumes "choose_finalizing_path tp stat target conflict = Ok q"
  shows "final_choice tp conflict target q"
proof -
  have free: "path_eq tp q target \<or> (\<exists>n c. 1 \<le> n \<and> n \<le> 1024 \<and> rename_candidate tp target n = Some c \<and> path_eq tp c q)"
    if "first_free tp stat target ns = Ok q" "set ns \<subseteq> {0..1024}" for ns
    using that
  proof (induction ns)
    case (Cons n ns)
    then show ?case
      by (cases "n = 0") (fastforce simp: path_eq_def split: option.splits lstat.splits)+
  qed simp
  have "set [0..<HARD_MAX_RENAME_ATTEMPTS + 1] \<subseteq> {0..1024}" by (auto simp: bounds_simps)
  note free = free [OF _ this]
  show ?thesis
    using assms free
    by (cases conflict; cases "the conflict")
       (auto simp: choose_finalizing_path_def final_choice_def path_eq_def)
qed

lemma choose_finalizing_error:
  assumes "choose_finalizing_path tp stat target conflict = Err reply"
  shows "\<exists>b. reply = FtrError b"
proof -
  have free: "\<exists>b. reply = FtrError b" if "first_free tp stat target ns = Err reply" for ns
    using that
    by (induction ns) (auto simp: transfer_error_def transfer_io_def split: option.splits lstat.splits)
  show ?thesis
    using assms free
    by (cases conflict; cases "the conflict") (auto simp: choose_finalizing_path_def transfer_error_def)
qed

lemmas reply_defs = transfer_error_def transfer_io_def transfer_denied_def transfer_not_found_def already_bound_def

text \<open>How a rename ends.\<close>

lemma persist_final_cases:
  assumes "persist_final_at h a part target conflict s = (s', r)"
  obtains (before) b where "s' = s" "r = Err (BeforeCommit (FtrError b))"
  | (committed) content where "hx_parts s part = Some content"
      "s' = s\<lparr>hx_parts := (hx_parts s)(part := None),
              hx_files := (hx_files s)(path_parts (th_paths h) target \<mapsto> FileNode content)\<rparr>"
      "r = Ok target \<or> (\<exists>b. r = Err (AfterCommit (FtrError b) target))"
      "conflict \<noteq> Some ReplaceExisting \<Longrightarrow> hx_files s (path_parts (th_paths h) target) = None"
proof -
  have commit: thesis
    if "hx_parts s part = Some content" "(s', r) = commit_part h a part target content s"
      "conflict \<noteq> Some ReplaceExisting \<Longrightarrow> hx_files s (path_parts (th_paths h) target) = None" for content
  proof (rule committed [OF that(1) _ _ that(3)])
    show "r = Ok target \<or> (\<exists>b. r = Err (AfterCommit (FtrError b) target))"
      using that(2) by (cases "fa_sync a") (auto simp: commit_part_def finalize_synced_def reply_defs)
  qed (use that(2) in \<open>simp add: commit_part_def\<close>)
  consider "persist_noclobber h a part target s = (s', r)" "conflict \<noteq> Some ReplaceExisting"
    | "persist_replacing h a part target s = (s', r)" "conflict = Some ReplaceExisting"
    | "s' = s" "\<exists>b. r = Err (BeforeCommit (FtrError b))"
    using assms by (cases conflict; cases "the conflict") (auto simp: persist_final_at_def reply_defs)
  then show thesis
  proof cases
    case 1
    then show thesis
      using before commit by (auto simp: persist_noclobber_def reply_defs split: rename_outcome.splits option.splits if_splits)
  next
    case 2
    then show thesis
      using before commit by (auto simp: persist_replacing_def reply_defs split: rename_outcome.splits option.splits if_splits)
  next
    case 3
    then show thesis using before by blast
  qed
qed

text \<open>Changes to an entry that keep its manifest, descriptor and part.\<close>

definition entry_like :: "put_entry \<Rightarrow> put_entry \<Rightarrow> bool" where
  "entry_like e e' \<longleftrightarrow> pe_manifest e' = pe_manifest e \<and> pe_descriptor e' = pe_descriptor e
     \<and> pe_prefix e' = pe_prefix e \<and> pe_requested_target e' = pe_requested_target e
     \<and> (pe_temp e' = pe_temp e \<or> pe_temp e' = None)"

lemma entry_like_refl: "entry_like e e"
  by (simp add: entry_like_def)

lemma change_entry_inv:
  assumes inv: "entries_inv h F s" and e: "bt_get (hx_puts s) k = Some e" and like: "entry_like e e'"
    and ok: "put_ok h F k e'" and part: "put_part_ok h (hx_parts t) e'"
    and t: "hx_puts t = bt_insert k e' (hx_puts s)" "hx_gets t = hx_gets s"
      "\<And>p. hx_parts t p \<noteq> hx_parts s p \<Longrightarrow> pe_temp e = Some p"
  shows "entries_inv h F t"
proof (rule set_put_inv [OF inv _ _ ok part t(1,2)])
  show "put_part_ok h (hx_parts t) e''" if "bt_get (hx_puts s) k'' = Some e''" "k'' \<noteq> k" for k'' e''
  proof -
    have "hx_parts t p = hx_parts s p" if "pe_temp e'' = Some p" for p
    proof (rule ccontr)
      assume "hx_parts t p \<noteq> hx_parts s p"
      then have "pe_temp e = Some p" by (rule t(3))
      then show False
        using entries_invD(4) [OF inv] e \<open>bt_get (hx_puts s) k'' = Some e''\<close> \<open>k'' \<noteq> k\<close> that
        unfolding parts_distinct_def by blast
    qed
    then show ?thesis
      using entries_invD(5) [OF inv that(1)] by (simp add: put_part_ok_def)
  qed
  show "pe_temp e'' \<noteq> Some p"
    if "bt_get (hx_puts s) k'' = Some e''" "k'' \<noteq> k" "pe_temp e' = Some p" for k'' e'' p
  proof -
    have "pe_temp e = Some p" using like that(3) by (auto simp: entry_like_def)
    then show ?thesis
      using entries_invD(4) [OF inv] e that(1,2) unfolding parts_distinct_def by blast
  qed
  show "bt_get (hx_gets s) k = None"
    using entries_invD(6) [OF inv] e by (cases "bt_get (hx_gets s) k") auto
qed (use e in simp)

lemma completed_put_ok:
  assumes "put_ok h F k e" and "pe_phase e = ReadyToFinalize"
  shows "put_ok h F k (completed_put path e)" and "entry_like e (completed_put path e)"
    and "put_part_ok h parts (completed_put path e)"
  using assms by (simp_all add: put_ok_def completed_put_def entry_like_def put_part_ok_def Let_def)

lemma finalizing_put_ok:
  assumes "put_ok h F k e" and "pe_phase e = ReadyToFinalize"
  shows "final_choice (th_paths h) (fm_conflict_policy (pe_manifest e)) (pe_requested_target e) q \<Longrightarrow>
      put_ok h F k (e\<lparr>pe_finalizing_path := Some q\<rparr>)"
    and "put_ok h F k (e\<lparr>pe_finalizing_path := None\<rparr>)"
    and "entry_like e (e\<lparr>pe_finalizing_path := f\<rparr>)"
    and "put_part_ok h parts e \<Longrightarrow> put_part_ok h parts (e\<lparr>pe_finalizing_path := f\<rparr>)"
  using assms by (simp_all add: put_ok_def entry_like_def put_part_ok_def Let_def)


text \<open>One turn either leaves the entry to come, or puts the file at its path and completes it.\<close>

definition put_committed ::
    "transfer_host \<Rightarrow> finalize_attempt \<Rightarrow> transfer_id \<Rightarrow> put_entry \<Rightarrow> string \<Rightarrow> host_transfer \<Rightarrow> bool" where
  "put_committed h a k e target s' \<longleftrightarrow> pe_phase e = ReadyToFinalize
     \<and> final_choice (th_paths h) (fm_conflict_policy (pe_manifest e)) (pe_requested_target e) target
     \<and> bt_get (hx_puts s') k = Some (completed_put target e)
     \<and> hx_files s' (path_parts (th_paths h) target) = Some (FileNode (pe_prefix e))
     \<and> sha256_hex (th_sha h) (pe_prefix e) = fm_final_sha256 (pe_manifest e)
     \<and> length (pe_prefix e) = unat (fm_total_size (pe_manifest e))
     \<and> (fm_conflict_policy (pe_manifest e) \<noteq> Some ReplaceExisting \<longrightarrow>
          fa_files a (path_parts (th_paths h) target) = None)"

text \<open>An entry that has not been committed only changes the path it is finalizing to.\<close>

definition put_waiting :: "transfer_id \<Rightarrow> put_entry \<Rightarrow> host_transfer \<Rightarrow> bool" where
  "put_waiting k e s' \<longleftrightarrow> (\<exists>f. bt_get (hx_puts s') k = Some (e\<lparr>pe_finalizing_path := f\<rparr>))"

lemma put_committed_like:
  "put_committed h a k (e\<lparr>pe_finalizing_path := f\<rparr>) target s = put_committed h a k e target s"
  by (simp add: put_committed_def completed_put_def)

lemma ready_content:
  assumes "put_ok h F k e" and "put_part_ok h parts e" and "pe_phase e = ReadyToFinalize"
    and "pe_temp e = Some part" and "parts part = Some content"
    and "fd_confirmed_prefix_sha256 (pe_descriptor e) = fm_final_sha256 (pe_manifest e)"
  shows "content = pe_prefix e \<and> sha256_hex (th_sha h) (pe_prefix e) = fm_final_sha256 (pe_manifest e)
    \<and> length (pe_prefix e) = unat (fm_total_size (pe_manifest e))"
  using assms put_ok_offset [OF assms(1)] by (simp add: put_part_ok_def)

lemma put_waiting_refl: "bt_get (hx_puts s) k = Some e \<Longrightarrow> put_waiting k e s"
  by (auto simp: put_waiting_def intro!: exI [of _ "pe_finalizing_path e"])

lemma finish_before_inv:
  assumes h: "transfer_host_ok h" and inv: "transfers_inv h F s" and e: "bt_get (hx_puts s) k = Some e"
    and ready: "pe_phase e = ReadyToFinalize"
    and f: "finish_rename h a k e (s\<lparr>hx_files := fa_files a\<rparr>, Err (BeforeCommit (FtrError b))) = (s', u)"
  shows "transfers_inv h F s' \<and> put_waiting k e s' \<and> (\<forall>st. u \<noteq> Answer (FtrStatus st))"
proof -
  let ?t = "set_put k (e\<lparr>pe_finalizing_path := None\<rparr>) (s\<lparr>hx_files := fa_files a\<rparr>)"
  note ok = entries_invD(5) [OF transfers_invD(1) [OF inv] e]
  have "entries_inv h F ?t"
    by (rule change_entry_inv [OF transfers_invD(1) [OF inv] e finalizing_put_ok(3) [OF conjunct1 [OF ok] ready]
          finalizing_put_ok(2) [OF conjunct1 [OF ok] ready]])
       (use finalizing_put_ok(4) [OF conjunct1 [OF ok] ready conjunct2 [OF ok]] in simp_all)
  then have t: "transfers_inv h F ?t" by (rule transfers_inv_entries [OF inv]) simp_all
  obtain s2 w where j: "journal h (fa_after a) ?t = (s2, w)" by fastforce
  have "s' = s2 \<and> (\<forall>st. u \<noteq> Answer (FtrStatus st))"
    using f j by (auto simp: finish_rename_def reply_defs split: if_splits)
  then show ?thesis
    using journal_inv_kept [OF h t j] journal_fields(1) [OF j] by (auto simp: put_waiting_def)
qed

lemma finish_committed_inv:
  assumes h: "transfer_host_ok h" and inv: "transfers_inv h F s" and e: "bt_get (hx_puts s) k = Some e"
    and ready: "pe_phase e = ReadyToFinalize"
    and hash: "fd_confirmed_prefix_sha256 (pe_descriptor e) = fm_final_sha256 (pe_manifest e)"
    and target: "final_choice (th_paths h) (fm_conflict_policy (pe_manifest e)) (pe_requested_target e) target"
    and part: "pe_temp e = Some part" "hx_parts s part = Some content"
    and free: "fm_conflict_policy (pe_manifest e) \<noteq> Some ReplaceExisting \<longrightarrow>
      fa_files a (path_parts (th_paths h) target) = None"
    and s1: "s1 = s\<lparr>hx_parts := (hx_parts s)(part := None),
                  hx_files := (fa_files a)(path_parts (th_paths h) target \<mapsto> FileNode content)\<rparr>"
    and r: "r = Ok target \<or> (\<exists>b. r = Err (AfterCommit (FtrError b) target))"
    and f: "finish_rename h a k e (s1, r) = (s', u)"
  shows "transfers_inv h F s' \<and> put_committed h a k e target s'
    \<and> (\<forall>st. u = Answer (FtrStatus st) \<longrightarrow> fs_final_device_path st = Some target \<and> fs_phase st = Completed)
    \<and> u \<noteq> Retry"
proof -
  let ?t = "set_put k (completed_put target e) s1"
  note ok = entries_invD(5) [OF transfers_invD(1) [OF inv] e]
  have content: "content = pe_prefix e \<and> sha256_hex (th_sha h) (pe_prefix e) = fm_final_sha256 (pe_manifest e)
      \<and> length (pe_prefix e) = unat (fm_total_size (pe_manifest e))"
    by (rule ready_content [OF conjunct1 [OF ok] conjunct2 [OF ok] ready part hash])
  have "entries_inv h F ?t"
    by (rule change_entry_inv [OF transfers_invD(1) [OF inv] e completed_put_ok(2,1,3) [OF conjunct1 [OF ok] ready]])
       (use part(1) in \<open>simp_all add: s1 split: if_splits\<close>)
  then have t: "transfers_inv h F ?t" by (rule transfers_inv_entries [OF inv]) (simp_all add: s1)
  obtain s2 w where j: "journal h (fa_after a) ?t = (s2, w)" by fastforce
  have u: "(s' = s2 \<or> s' = ?t) \<and> u \<noteq> Retry
      \<and> (\<forall>st. u = Answer (FtrStatus st) \<longrightarrow> fs_final_device_path st = Some target \<and> fs_phase st = Completed)"
    using f j r
    by (auto simp: finish_rename_def reply_defs put_status_def completed_put_def Let_def split: if_splits)
  have com: "put_committed h a k e target x" if "hx_puts x = hx_puts ?t" "hx_files x = hx_files ?t" for x
    using that content ready target free by (simp add: put_committed_def s1)
  show ?thesis
    using u com [of s2] com [of ?t] journal_inv_kept [OF h t j] t journal_fields(1,4) [OF j] by auto
qed

lemma rename_part_inv:
  assumes h: "transfer_host_ok h" and inv: "transfers_inv h F s" and e: "bt_get (hx_puts s) k = Some e"
    and ready: "pe_phase e = ReadyToFinalize"
    and hash: "fd_confirmed_prefix_sha256 (pe_descriptor e) = fm_final_sha256 (pe_manifest e)"
    and target: "final_choice (th_paths h) (fm_conflict_policy (pe_manifest e)) (pe_requested_target e) target"
    and f: "rename_part h a k e target s = (s', u)"
  shows "transfers_inv h F s' \<and> (put_waiting k e s' \<and> (\<forall>st. u \<noteq> Answer (FtrStatus st))
      \<or> put_committed h a k e target s'
        \<and> (\<forall>st. u = Answer (FtrStatus st) \<longrightarrow> fs_final_device_path st = Some target \<and> fs_phase st = Completed)
        \<and> u \<noteq> Retry)"
proof -
  note ok = conjunct1 [OF entries_invD(5) [OF transfers_invD(1) [OF inv] e]]
  obtain part where part: "pe_temp e = Some part"
    using ok ready by (auto simp: put_ok_def Let_def)
  obtain s1 r where p: "persist_final_at h a part target (fm_conflict_policy (pe_manifest e))
      (s\<lparr>hx_files := fa_files a\<rparr>) = (s1, r)" by fastforce
  have f': "finish_rename h a k e (s1, r) = (s', u)"
    using f part p by (simp add: rename_part_def)
  from p show ?thesis
  proof (cases rule: persist_final_cases)
    case (before b)
    then show ?thesis using finish_before_inv [OF h inv e ready, of a b s' u] f' by simp
  next
    case (committed content)
    have "transfers_inv h F s' \<and> put_committed h a k e target s'
      \<and> (\<forall>st. u = Answer (FtrStatus st) \<longrightarrow> fs_final_device_path st = Some target \<and> fs_phase st = Completed)
      \<and> u \<noteq> Retry"
      by (rule finish_committed_inv [OF h inv e ready hash target part _ _ _ committed(3) f'])
         (use committed in simp_all)
    then show ?thesis by simp
  qed
qed

lemma finalize_turn_inv:
  assumes h: "transfer_host_ok h" and inv: "transfers_inv h F s" and f: "finalize_turn h a k s = (s', u)"
  shows "transfers_inv h F s'
    \<and> (\<forall>e. bt_get (hx_puts s) k = Some e \<longrightarrow> pe_phase e \<noteq> Completed \<longrightarrow>
         put_waiting k e s' \<and> (\<forall>st. u \<noteq> Answer (FtrStatus st))
         \<or> (\<exists>target. put_committed h a k e target s'
             \<and> (\<forall>st. u = Answer (FtrStatus st) \<longrightarrow> fs_final_device_path st = Some target \<and> fs_phase st = Completed)
             \<and> u \<noteq> Retry))"
proof (cases "bt_get (hx_puts s) k")
  case None
  then show ?thesis using f inv by (auto simp: finalize_turn_def)
next
  case (Some e)
  note ok = conjunct1 [OF entries_invD(5) [OF transfers_invD(1) [OF inv] Some]]
  have wait: "put_waiting k e s"
    using Some by (rule put_waiting_refl)
  let ?choice = "case pe_finalizing_path e of Some path \<Rightarrow> Ok path
    | None \<Rightarrow> choose_finalizing_path (th_paths h) (fa_lstat a) (pe_requested_target e) (fm_conflict_policy (pe_manifest e))"
  show ?thesis
  proof (cases "pe_phase e = ReadyToFinalize
      \<and> fd_confirmed_prefix_sha256 (pe_descriptor e) = fm_final_sha256 (pe_manifest e) \<and> is_ok ?choice")
    case False
    have "s' = s \<and> (pe_phase e \<noteq> Completed \<longrightarrow> (\<forall>st. u \<noteq> Answer (FtrStatus st)))"
    proof (cases ?choice)
      case (Inl reply)
      then have "\<exists>b. reply = FtrError b"
        using choose_finalizing_error by (auto split: option.splits)
      then show ?thesis
        using f Some Inl by (auto simp: finalize_turn_def reply_defs split: if_splits)
    next
      case (Inr q)
      then show ?thesis
        using f Some False by (auto simp: finalize_turn_def reply_defs split: if_splits)
    qed
    then show ?thesis using inv Some wait by auto
  next
    case True
    then obtain target where t: "?choice = Ok target" by (auto simp: is_ok_iff)
    have choice: "final_choice (th_paths h) (fm_conflict_policy (pe_manifest e)) (pe_requested_target e) target"
      using t ok finalizing_path_choice [of "th_paths h" "fa_lstat a" "pe_requested_target e"]
      by (auto simp: put_ok_def Let_def split: option.splits)
    have sel: "finalize_selected h a k e target s = (s', u)"
      using f Some True t by (simp add: finalize_turn_def)
    let ?e = "e\<lparr>pe_finalizing_path := Some target\<rparr>"
    let ?t = "set_put k ?e s"
    note ok2 = entries_invD(5) [OF transfers_invD(1) [OF inv] Some]
    have ready: "pe_phase e = ReadyToFinalize" using True by simp
    have "entries_inv h F ?t"
      by (rule change_entry_inv [OF transfers_invD(1) [OF inv] Some finalizing_put_ok(3) [OF ok ready]
            finalizing_put_ok(1) [OF ok ready choice]])
         (use finalizing_put_ok(4) [OF ok ready conjunct2 [OF ok2]] in simp_all)
    then have inv1: "transfers_inv h F ?t" by (rule transfers_inv_entries [OF inv]) simp_all
    obtain s1 w where j: "journal h (fa_before a) ?t = (s1, w)" by fastforce
    have inv2: "transfers_inv h F s1" by (rule journal_inv_kept [OF h inv1 j])
    have e1: "bt_get (hx_puts s1) k = Some ?e" using journal_fields(1) [OF j] by simp
    have wait1: "put_waiting k e x" if "put_waiting k ?e x" for x
      using that by (simp add: put_waiting_def)
    show ?thesis
    proof (cases w)
      case False
      then have "s' = s1 \<and> (\<forall>st. u \<noteq> Answer (FtrStatus st))"
        using sel j by (auto simp: finalize_selected_def reply_defs)
      then show ?thesis using inv2 e1 Some by (auto simp: put_waiting_def)
    next
      case w: True
      have "rename_part h a k ?e target s1 = (s', u)" using sel j w by (simp add: finalize_selected_def)
      from rename_part_inv [OF h inv2 e1 _ _ _ this] True choice
      have "transfers_inv h F s' \<and> (put_waiting k ?e s' \<and> (\<forall>st. u \<noteq> Answer (FtrStatus st))
        \<or> put_committed h a k ?e target s'
          \<and> (\<forall>st. u = Answer (FtrStatus st) \<longrightarrow> fs_final_device_path st = Some target \<and> fs_phase st = Completed)
          \<and> u \<noteq> Retry)" by simp
      then show ?thesis using Some wait1 put_committed_like by auto
    qed
  qed
qed


lemma finalize_inv:
  assumes h: "transfer_host_ok h" and "transfers_inv h F s" and "finalize h as k s = (s', r)"
  shows "transfers_inv h F s'
    \<and> (\<forall>e. bt_get (hx_puts s) k = Some e \<longrightarrow> pe_phase e \<noteq> Completed \<longrightarrow>
         put_waiting k e s' \<and> (\<forall>st. r \<noteq> Some (FtrStatus st))
         \<or> (\<exists>a \<in> set as. \<exists>target. put_committed h a k e target s'
             \<and> (\<forall>st. r = Some (FtrStatus st) \<longrightarrow> fs_final_device_path st = Some target \<and> fs_phase st = Completed)))"
  using assms(2,3)
proof (induction "as" arbitrary: s)
  case Nil
  then show ?case by (auto dest: put_waiting_refl)
next
  case (Cons a "as")
  obtain s1 u where t: "finalize_turn h a k s = (s1, u)" by fastforce
  note T = finalize_turn_inv [OF h Cons.prems(1) t]
  show ?case
  proof (cases u)
    case (Answer reply)
    then show ?thesis using T Cons.prems(2) t by auto
  next
    case Retry
    have f: "finalize h as k s1 = (s', r)" using Cons.prems(2) t Retry by simp
    note IH = Cons.IH [OF conjunct1 [OF T] f]
    have "put_waiting k e s' \<and> (\<forall>st. r \<noteq> Some (FtrStatus st))
         \<or> (\<exists>a' \<in> set as. \<exists>target. put_committed h a' k e target s'
             \<and> (\<forall>st. r = Some (FtrStatus st) \<longrightarrow> fs_final_device_path st = Some target \<and> fs_phase st = Completed))"
      if e: "bt_get (hx_puts s) k = Some e" "pe_phase e \<noteq> Completed" for e
    proof -
      have "put_waiting k e s1"
        using spec [OF conjunct2 [OF T], of e] e Retry by auto
      then obtain f where e1: "bt_get (hx_puts s1) k = Some (e\<lparr>pe_finalizing_path := f\<rparr>)"
        by (auto simp: put_waiting_def)
      show ?thesis
        using spec [OF conjunct2 [OF IH], of "e\<lparr>pe_finalizing_path := f\<rparr>"] e1 e(2)
        by (simp add: put_committed_like put_waiting_def)
    qed
    then show ?thesis using IH by auto
  qed
qed

subsection \<open>Starting again\<close>

lemma valid_finalizing_choice:
  "is_valid_finalizing_path tp target q conflict \<Longrightarrow> final_choice tp conflict target q"
  by (fastforce simp: is_valid_finalizing_path_def final_choice_def bounds_simps list_ex_iff
      split: if_splits option.splits file_conflict_policy.splits)

lemma restored_entry_ok:
  assumes p: "durable_put_ok tp sc p" "tp = th_paths h" "sc = th_scope h"
    and r: "restore_part h fs p part content = Ok e" and u: "utf8_valid part" and c: "parts part = Some content"
    and ff: "tf_host fs \<in> F"
  shows "put_ok h F (fm_transfer_id (dp_manifest p)) e \<and> put_part_ok h parts e \<and> pe_temp e = Some part"
proof -
  let ?m = "dp_manifest p" and ?d = "dp_descriptor p"
  have e: "e = restored_entry h p part content" and ok: "fd_ok (pe_descriptor e)"
    and len: "length content \<le> unat (fm_total_size ?m)" "unat (fd_confirmed_offset ?d) \<le> length content"
    and t: "put_target_ok h F ?m (dp_requested_target p)"
    and al: "length content = unat (fm_total_size ?m) \<or> length content mod unat (fm_chunk_size ?m) = 0"
    using r ff by (auto simp: restore_part_def Let_def bind_r_Ok fd_validate_Ok check_part_length_def put_target_ok_def
        split: if_splits part_stat.splits)
  have "unat (fm_total_size ?m) < 2 ^ 64" using unsigned_less [of "fm_total_size ?m", where ?'a = nat] by simp
  then have n: "unat (word_of_nat (length content) :: u64) = length content"
    using len by (simp add: unat_of_nat)
  have ready: "length content = unat (fm_total_size ?m) \<longleftrightarrow> word_of_nat (length content) = fm_total_size ?m"
    unfolding word_unat_eq_iff n ..
  have phase: "pe_phase e = Receiving \<longleftrightarrow> word_of_nat (length content) < fm_total_size ?m"
    "pe_phase e \<noteq> Completed"
    using len(1) n by (auto simp: e restored_entry_def received_phase_def word_less_nat_alt order.order_iff_strict
        ready [symmetric])
  have fin: "final_choice (th_paths h) (fm_conflict_policy ?m) (dp_requested_target p) q
      \<and> pe_phase e = ReadyToFinalize" if "dp_finalizing_path p = Some q" for q
  proof -
    have "is_valid_finalizing_path (th_paths h) (dp_requested_target p) q (fm_conflict_policy ?m)"
      "fd_confirmed_offset ?d = fm_total_size ?m"
      using p that by (simp_all add: durable_put_ok_def Let_def)
    then show ?thesis
      using valid_finalizing_choice len ready by (simp add: e restored_entry_def received_phase_def)
  qed
  have "put_aligned ?m (pe_descriptor e)"
    using al n ready by (auto simp: put_aligned_def e restored_entry_def next_descriptor_def)
  then have "put_ok h F (fm_transfer_id ?m) e"
    using p ok t phase u fin
    by (simp add: put_ok_def Let_def e restored_entry_def durable_put_ok_def put_scope_ok_def next_descriptor_def)
  moreover have "put_part_ok h parts e"
    using c n by (simp add: put_part_ok_def e restored_entry_def next_descriptor_def)
  ultimately show ?thesis by (simp add: e restored_entry_def)
qed

lemma completed_entry_ok:
  assumes "durable_put_ok tp sc p" "tp = th_paths h" "sc = th_scope h"
    and "fd_confirmed_offset (dp_descriptor p) = fm_total_size (dp_manifest p)"
  shows "put_ok h F (fm_transfer_id (dp_manifest p)) ((completed_entry p)\<lparr>pe_final_device_path := f, pe_finalizing_path := None\<rparr>)"
  using assms by (simp add: put_ok_def put_aligned_def Let_def completed_entry_def durable_put_ok_def put_scope_ok_def)

lemma completed_part_ok: "pe_temp e = None \<Longrightarrow> put_part_ok h parts e"
  by (simp add: put_part_ok_def)

lemma restore_put_ok:
  assumes p: "durable_put_ok (th_paths h) (th_scope h) p"
    and comp: "dp_phase p = Completed \<Longrightarrow> fd_confirmed_offset (dp_descriptor p) = fm_total_size (dp_manifest p)"
    and u: "\<And>x. dp_part_path p = Some x \<Longrightarrow> utf8_valid x"
    and r: "restore_put h fs p s = Ok s'"
    and ff: "tf_host fs \<in> F"
  obtains e where "s' = set_put (fm_transfer_id (dp_manifest p)) e s"
    "put_ok h F (fm_transfer_id (dp_manifest p)) e" "put_part_ok h (hx_parts s) e"
    "\<forall>x. pe_temp e = Some x \<longrightarrow> dp_part_path p = Some x"
proof (cases "dp_phase p = Completed")
  case True
  have "dp_finalizing_path p = None"
    using p True by (cases "dp_finalizing_path p") (simp_all add: durable_put_ok_def Let_def)
  then have eq: "(completed_entry p)\<lparr>pe_final_device_path := dp_final_device_path p, pe_finalizing_path := None\<rparr>
      = completed_entry p" by (simp add: completed_entry_def)
  show thesis
    by (rule that [of "completed_entry p"])
       (use r True completed_entry_ok [OF p refl refl comp [OF True], of F "dp_final_device_path p"]
         in \<open>simp_all add: restore_put_def eq completed_part_ok, simp_all add: completed_entry_def completed_part_ok\<close>)
next
  case False
  then obtain e where a: "restore_active h fs (hx_parts s) p = Ok e"
    and s': "s' = set_put (fm_transfer_id (dp_manifest p)) e s"
    using r by (auto simp: restore_put_def bind_r_Ok)
  then obtain part where part: "dp_part_path p = Some part"
    by (auto simp: restore_active_def bind_r_Ok)
  consider "hx_parts s part = None" "restore_renamed h fs p = Ok e"
    | content where "hx_parts s part = Some content" "restore_part h fs p part content = Ok e"
    using a part by (auto simp: restore_active_def split: if_splits part_stat.splits option.splits)
  then show thesis
  proof cases
    case 1
    then obtain q f where q: "dp_finalizing_path p = Some q"
      and e: "e = (completed_entry p)\<lparr>pe_final_device_path := Some f, pe_finalizing_path := None\<rparr>"
      by (auto simp: restore_renamed_def bind_r_Ok split: option.splits if_splits)
    have "fd_confirmed_offset (dp_descriptor p) = fm_total_size (dp_manifest p)"
      using p q by (simp add: durable_put_ok_def Let_def)
    note ok = completed_entry_ok [OF p refl refl this, of F "Some f"]
    show thesis
      by (rule that [OF s']) (use ok in \<open>simp_all add: e completed_part_ok completed_entry_def\<close>)
  next
    case (2 content)
    note ok = restored_entry_ok [OF p refl refl 2(2) u [OF part], of "hx_parts s", OF 2(1) ff]
    show thesis by (rule that [OF s']) (use ok part in simp_all)
  qed
qed

text \<open>What the restored puts come from.\<close>

definition puts_restored :: "transfer_host \<Rightarrow> host_fs set \<Rightarrow> durable_put set \<Rightarrow> host_transfer \<Rightarrow> bool" where
  "puts_restored h F D s \<longleftrightarrow> bt_wf (hx_puts s)
     \<and> (\<forall>k e. bt_get (hx_puts s) k = Some e \<longrightarrow> put_ok h F k e \<and> put_part_ok h (hx_parts s) e
          \<and> (\<exists>p \<in> D. fm_transfer_id (dp_manifest p) = k \<and> (\<forall>x. pe_temp e = Some x \<longrightarrow> dp_part_path p = Some x)))"

lemma puts_restored_step:
  assumes r: "restore_put h fs p s = Ok s'" and D: "p \<in> D" "puts_restored h F D s"
    and p: "durable_put_ok (th_paths h) (th_scope h) p"
    and comp: "dp_phase p = Completed \<Longrightarrow> fd_confirmed_offset (dp_descriptor p) = fm_total_size (dp_manifest p)"
    and u: "\<And>x. dp_part_path p = Some x \<Longrightarrow> utf8_valid x"
    and ff: "tf_host fs \<in> F"
  shows "puts_restored h F D s'" and "hx_gets s' = hx_gets s" "hx_slot_a s' = hx_slot_a s"
    "hx_slot_b s' = hx_slot_b s"
proof -
  obtain e where e: "s' = set_put (fm_transfer_id (dp_manifest p)) e s"
    "put_ok h F (fm_transfer_id (dp_manifest p)) e" "put_part_ok h (hx_parts s) e"
    "\<forall>x. pe_temp e = Some x \<longrightarrow> dp_part_path p = Some x"
    by (rule restore_put_ok [OF p comp u r ff])
  show "hx_gets s' = hx_gets s" "hx_slot_a s' = hx_slot_a s" "hx_slot_b s' = hx_slot_b s"
    by (simp_all add: e(1))
  have "put_ok h F k e' \<and> put_part_ok h (hx_parts s) e'
      \<and> (\<exists>p \<in> D. fm_transfer_id (dp_manifest p) = k \<and> (\<forall>x. pe_temp e' = Some x \<longrightarrow> dp_part_path p = Some x))"
    if "bt_get (hx_puts s') k = Some e'" for k e'
  proof (cases "k = fm_transfer_id (dp_manifest p)")
    case True
    then show ?thesis using that e D(1) by auto
  next
    case False
    then have "bt_get (hx_puts s) k = Some e'" using that by (simp add: e(1))
    then show ?thesis using D(2) unfolding puts_restored_def by blast
  qed
  then show "puts_restored h F D s'" using D(2) by (simp add: puts_restored_def e(1))
qed

lemma restore_get_cases:
  assumes "restore_get h fs g s = Ok s'" and "durable_get_ok (th_scope h) g"
  shows "s' = s \<or> (\<exists>e. s' = set_get (fm_transfer_id (dg_manifest g)) e s \<and> get_ok h (fm_transfer_id (dg_manifest g)) e)"
  using assms
  by (auto simp: restore_get_def bind_r_Ok durable_get_ok_def Let_def get_ok_def dest: get_manifest_ok
      split: sum.splits if_splits option.splits)


lemma puts_restored_fold:
  assumes "fold_r (restore_put h fs) ps s = Ok s'" and "set ps \<subseteq> D" and "puts_restored h F D s"
    and D: "\<forall>p \<in> D. durable_put_ok (th_paths h) (th_scope h) p
        \<and> (dp_phase p = Completed \<longrightarrow> fd_confirmed_offset (dp_descriptor p) = fm_total_size (dp_manifest p))
        \<and> (\<forall>x. dp_part_path p = Some x \<longrightarrow> utf8_valid x)"
    and ff: "tf_host fs \<in> F"
  shows "puts_restored h F D s' \<and> hx_gets s' = hx_gets s \<and> hx_slot_a s' = hx_slot_a s \<and> hx_slot_b s' = hx_slot_b s"
  using assms(1-3)
proof (induction ps arbitrary: s)
  case Nil
  then show ?case by simp
next
  case (Cons p ps)
  obtain s1 where s1: "restore_put h fs p s = Ok s1" "fold_r (restore_put h fs) ps s1 = Ok s'"
    using Cons.prems(1) by (auto simp: bind_r_Ok)
  have "p \<in> D" using Cons.prems(2) by simp
  note step = puts_restored_step [OF s1(1) this Cons.prems(3)]
  have ok: "durable_put_ok (th_paths h) (th_scope h) p"
    "dp_phase p = Completed \<Longrightarrow> fd_confirmed_offset (dp_descriptor p) = fm_total_size (dp_manifest p)"
    "\<And>x. dp_part_path p = Some x \<Longrightarrow> utf8_valid x"
    using D \<open>p \<in> D\<close> by simp_all
  show ?case
    using Cons.IH [OF s1(2) _ step(1) [OF ok ff]] Cons.prems(2) step(2-4) [OF ok ff] by simp
qed

definition gets_restored :: "transfer_host \<Rightarrow> durable_get set \<Rightarrow> host_transfer \<Rightarrow> bool" where
  "gets_restored h D s \<longleftrightarrow> bt_wf (hx_gets s)
     \<and> (\<forall>k e. bt_get (hx_gets s) k = Some e \<longrightarrow> get_ok h k e \<and> k \<in> (fm_transfer_id \<circ> dg_manifest) ` D)"

lemma gets_restored_fold:
  assumes "fold_r (restore_get h fs) gs s = Ok s'" and "set gs \<subseteq> D" and "gets_restored h D s"
    and D: "\<forall>g \<in> D. durable_get_ok (th_scope h) g"
  shows "gets_restored h D s' \<and> hx_puts s' = hx_puts s \<and> hx_parts s' = hx_parts s
    \<and> hx_slot_a s' = hx_slot_a s \<and> hx_slot_b s' = hx_slot_b s"
  using assms(1-3)
proof (induction gs arbitrary: s)
  case Nil
  then show ?case by simp
next
  case (Cons g gs)
  obtain s1 where s1: "restore_get h fs g s = Ok s1" "fold_r (restore_get h fs) gs s1 = Ok s'"
    using Cons.prems(1) by (auto simp: bind_r_Ok)
  have g: "g \<in> D" "durable_get_ok (th_scope h) g" using Cons.prems(2) D by auto
  have "gets_restored h D s1 \<and> hx_puts s1 = hx_puts s \<and> hx_parts s1 = hx_parts s
      \<and> hx_slot_a s1 = hx_slot_a s \<and> hx_slot_b s1 = hx_slot_b s"
    using restore_get_cases [OF s1(1) g(2)] Cons.prems(3) g(1) by (auto simp: gets_restored_def split: if_splits)
  then show ?case using Cons.IH [OF s1(2)] Cons.prems(2) by simp
qed

lemma keys_length:
  assumes "bt_wf m" and "\<And>k v. bt_get m k = Some v \<Longrightarrow> k \<in> set ks"
  shows "length m \<le> length ks"
proof -
  have "set (map fst m) \<subseteq> set ks"
    using assms(2) bt_wf_getD [OF assms(1)] by fastforce
  then have "card (set (map fst m)) \<le> card (set ks)" by (simp add: card_mono)
  then show ?thesis
    using distinct_card [OF bt_wf_distinct [OF assms(1)]] card_length [of ks] by simp
qed

lemma restored_entries_inv:
  assumes ok: "transfers_ok (th_paths h) (th_scope h) snap" "durable_inv snap"
    and p: "puts_restored h F (set (sn_puts snap)) s" and g: "gets_restored h (set (sn_gets snap)) s"
  shows "entries_inv h F s"
proof -
  have P: "put_ok h F k e \<and> put_part_ok h (hx_parts s) e
      \<and> (\<exists>p \<in> set (sn_puts snap). fm_transfer_id (dp_manifest p) = k \<and> (\<forall>x. pe_temp e = Some x \<longrightarrow> dp_part_path p = Some x))"
    if "bt_get (hx_puts s) k = Some e" for k e
    using p that by (simp add: puts_restored_def)
  have G: "get_ok h k e \<and> k \<in> (fm_transfer_id \<circ> dg_manifest) ` set (sn_gets snap)"
    if "bt_get (hx_gets s) k = Some e" for k e
    using g that by (simp add: gets_restored_def)
  have disjoint: "bt_get (hx_puts s) k = None" if "bt_get (hx_gets s) k = Some e" for k e
  proof (rule ccontr)
    assume "bt_get (hx_puts s) k \<noteq> None"
    then obtain e' where "bt_get (hx_puts s) k = Some e'" by auto
    from conjunct2 [OF conjunct2 [OF P [OF this]]]
    have "k \<in> set (map (fm_transfer_id \<circ> dp_manifest) (sn_puts snap))" by auto
    moreover have "k \<in> set (map (fm_transfer_id \<circ> dg_manifest) (sn_gets snap))" using G [OF that] by simp
    ultimately show False
      using ok(1) unfolding transfers_ok_def snapshot_ids_def distinct_append by blast
  qed
  have distinct: "k1 = k2"
    if "bt_get (hx_puts s) k1 = Some e1" "bt_get (hx_puts s) k2 = Some e2" "pe_temp e1 = Some x" "pe_temp e2 = Some x"
    for k1 k2 e1 e2 x
  proof -
    note a = that
    obtain p1 where 1: "p1 \<in> set (sn_puts snap)" "fm_transfer_id (dp_manifest p1) = k1" "dp_part_path p1 = Some x"
      using conjunct2 [OF conjunct2 [OF P [OF a(1)]]] a(3) by blast
    obtain p2 where 2: "p2 \<in> set (sn_puts snap)" "fm_transfer_id (dp_manifest p2) = k2" "dp_part_path p2 = Some x"
      using conjunct2 [OF conjunct2 [OF P [OF a(2)]]] a(4) by blast
    show ?thesis using ok(2) 1 2 unfolding durable_inv_def by blast
  qed
  have wf: "bt_wf (hx_puts s)" "bt_wf (hx_gets s)"
    using p g by (simp_all add: puts_restored_def gets_restored_def)
  have "k \<in> set (map (fm_transfer_id \<circ> dp_manifest) (sn_puts snap))" if "bt_get (hx_puts s) k = Some e" for k e
    using conjunct2 [OF conjunct2 [OF P [OF that]]] by auto
  from keys_length [OF wf(1) this]
  have "length (hx_puts s) \<le> length (sn_puts snap)" by simp
  moreover have "k \<in> set (map (fm_transfer_id \<circ> dg_manifest) (sn_gets snap))" if "bt_get (hx_gets s) k = Some e" for k e
    using G [OF that] by simp
  from keys_length [OF wf(2) this]
  have "length (hx_gets s) \<le> length (sn_gets snap)" by simp
  moreover have "length (sn_puts snap) + length (sn_gets snap) \<le> 16"
    using ok(1) by (simp add: transfers_ok_def)
  ultimately have "transfer_count s \<le> 16" by (simp add: transfer_count_def)
  moreover have "parts_distinct (hx_puts s)" using distinct unfolding parts_distinct_def by blast
  ultimately show ?thesis
    unfolding entries_inv_def using wf P G disjoint by blast
qed

lemma load_transfers_sound:
  assumes "load_transfers (th_paths h) (th_scope h) (th_json h) a b = Ok snap" and "slot_inv h a" "slot_inv h b"
  shows "transfers_ok (th_paths h) (th_scope h) snap \<and> durable_inv snap"
proof -
  obtain r where r: "load_transfer_slots (th_paths h) (th_scope h) (th_json h) a b = Ok r"
    "snap = (case r of None \<Rightarrow> empty_transfers (th_scope h) | Some s \<Rightarrow> s)"
    using assms(1) by (auto simp: load_transfers_def bind_r_Ok)
  show ?thesis
  proof (cases r)
    case None
    then show ?thesis using r(2) empty_transfers_ok by (simp add: durable_inv_def) (simp add: empty_transfers_def)
  next
    case (Some s)
    have "slot_holds (transfers_validate (th_paths h) (th_scope h)) (read_host_transfer_slot (th_json h) a) s
        \<or> slot_holds (transfers_validate (th_paths h) (th_scope h)) (read_host_transfer_slot (th_json h) b) s"
      using r(1) unfolding Some load_transfer_slots_def by (rule pick_sound)
    then show ?thesis
      using assms(2,3) r(2) Some
      by (auto simp: slot_inv_def slot_holds_def is_ok_iff transfers_validate_Ok)
  qed
qed

text \<open>A start that succeeds leaves a service in order, one that fails a journal in order.\<close>

lemma restore_snapshot_inv:
  assumes h: "transfer_host_ok h" and ok: "transfers_ok (th_paths h) (th_scope h) snap" "durable_inv snap"
    and slots: "slot_inv h (hx_slot_a s)" "slot_inv h (hx_slot_b s)" and e: "hx_puts s = []" "hx_gets s = []"
    and r: "restore_snapshot h fs w snap s = (s', r)"
    and ff: "tf_host fs \<in> F"
  shows "slot_inv h (hx_slot_a s') \<and> slot_inv h (hx_slot_b s') \<and> (r = Ok () \<longrightarrow> transfers_inv h F s')"
proof -
  let ?s = "s\<lparr>hx_next_sequence := foldl max 0 (map dp_sequence (sn_puts snap))\<rparr>"
  have v: "transfers_validate (th_paths h) (th_scope h) snap = Ok ()" using ok(1) by (simp add: transfers_validate_Ok)
  show ?thesis
  proof (cases "bind_r (fold_r (restore_put h fs) (sn_puts snap) ?s) (fold_r (restore_get h fs) (sn_gets snap))")
    case (Inl x)
    then have "s' = s \<and> r = Err x" using r v by (simp add: restore_snapshot_def)
    then show ?thesis using slots by simp
  next
    case (Inr s2)
    then obtain s1 where 1: "fold_r (restore_put h fs) (sn_puts snap) ?s = Ok s1"
      and 2: "fold_r (restore_get h fs) (sn_gets snap) s1 = Ok s2" by (auto simp: bind_r_Ok)
    have D: "\<forall>p \<in> set (sn_puts snap). durable_put_ok (th_paths h) (th_scope h) p
        \<and> (dp_phase p = Completed \<longrightarrow> fd_confirmed_offset (dp_descriptor p) = fm_total_size (dp_manifest p))
        \<and> (\<forall>x. dp_part_path p = Some x \<longrightarrow> utf8_valid x)"
      using ok unfolding transfers_ok_def durable_inv_def by blast
    have i: "puts_restored h F (set (sn_puts snap)) ?s" by (simp add: puts_restored_def e)
    note P = puts_restored_fold [OF 1 order_refl i D ff]
    have "gets_restored h (set (sn_gets snap)) s1" using P e by (simp add: gets_restored_def)
    from gets_restored_fold [OF 2 order_refl this] ok(1)
    have G: "gets_restored h (set (sn_gets snap)) s2 \<and> hx_puts s2 = hx_puts s1 \<and> hx_parts s2 = hx_parts s1
        \<and> hx_slot_a s2 = hx_slot_a s1 \<and> hx_slot_b s2 = hx_slot_b s1" by (simp add: transfers_ok_def)
    have "puts_restored h F (set (sn_puts snap)) s2" using P G by (simp add: puts_restored_def)
    then have "entries_inv h F s2" using restored_entries_inv [OF ok] G by blast
    then have inv: "transfers_inv h F s2" using P G slots by (simp add: transfers_inv_def)
    have "persist_transfers h w s2 = (s', r)" using r v Inr by (simp add: restore_snapshot_def)
    from persist_inv [OF h inv this] show ?thesis by (simp add: transfers_inv_def)
  qed
qed

lemma load_or_create_inv:
  assumes h: "transfer_host_ok h" and slots: "slot_inv h (hx_slot_a s)" "slot_inv h (hx_slot_b s)"
    and l: "load_or_create_transfers h fs w s = (s', r)"
    and ff: "tf_host fs \<in> F"
  shows "slot_inv h (hx_slot_a s') \<and> slot_inv h (hx_slot_b s') \<and> (r = Ok () \<longrightarrow> transfers_inv h F s')"
proof (cases "is_ok (policy_validate (th_policy h))
    \<and> is_ok (load_transfers (th_paths h) (th_scope h) (th_json h) (hx_slot_a s) (hx_slot_b s))")
  case False
  then have "s' = s \<and> (\<exists>e. r = Err e)"
    using l by (auto simp: load_or_create_transfers_def split: if_splits sum.splits)
  then show ?thesis using slots by auto
next
  case True
  then obtain snap where snap: "load_transfers (th_paths h) (th_scope h) (th_json h) (hx_slot_a s) (hx_slot_b s) = Ok snap"
    by (auto simp: is_ok_iff)
  have r: "restore_snapshot h fs w snap (started (sn_generation snap) s) = (s', r)"
    using l True snap by (simp add: load_or_create_transfers_def)
  note ok = load_transfers_sound [OF snap slots]
  show ?thesis
    by (rule restore_snapshot_inv [OF h conjunct1 [OF ok] conjunct2 [OF ok] _ _ _ _ r ff])
       (use slots in \<open>simp_all add: started_def\<close>)
qed

end
