(* ===== verification/Host_Transfer_Runs.thy ===== *)
theory Host_Transfer_Runs
  imports Host_Transfer_Safety
begin

section \<open>Histories of the host's file-transfer service\<close>

text \<open>
  The service is up or down; requests, the second sections of begins with others between, changes
  other programs make to the files, stops (a crash is a stop after an operation whose writes failed)
  and starts follow in any order. Part names are UTF-8, as the random names in a UTF-8 directory are.
\<close>

definition no_journal :: "host_transfer \<Rightarrow> bool" where
  "no_journal s \<longleftrightarrow> hx_slot_a s = NoFile \<and> hx_slot_b s = NoFile"

inductive transfer_run :: "transfer_host \<Rightarrow> host_fs set \<Rightarrow> bool \<Rightarrow> host_transfer \<Rightarrow> bool"
  for h :: transfer_host and F :: "host_fs set" where
  tr_new: "\<not> th_durable h \<Longrightarrow> no_journal s0 \<Longrightarrow> transfers_new h s0 = Ok s \<Longrightarrow> transfer_run h F True s"
| tr_fresh: "th_durable h \<Longrightarrow> no_journal s \<Longrightarrow> transfer_run h F False s"
| tr_start: "transfer_run h F False s \<Longrightarrow> tf_host fs \<in> F \<Longrightarrow>
     load_or_create_transfers h fs w s = (s', r) \<Longrightarrow>
     transfer_run h F (is_ok r) s'"
| tr_stop: "th_durable h \<Longrightarrow> transfer_run h F True s \<Longrightarrow> transfer_run h F False s"
| tr_put_begin: "transfer_run h F True s \<Longrightarrow> manifest_validate m = Ok () \<Longrightarrow> put_scope_ok h m \<Longrightarrow>
     tf_host fs \<in> F \<Longrightarrow> prepare_put_target h fs m = Ok target \<Longrightarrow> initial_resume_descriptor m = Ok d \<Longrightarrow>
     utf8_valid part \<Longrightarrow> hx_parts s part = None \<Longrightarrow>
     transfer_run h F True (fst (put_enter h w m d target part s))"
| tr_get_begin: "transfer_run h F True s \<Longrightarrow> tf_host fs \<in> F \<Longrightarrow>
     get_prepare h fs tid requested chunk = Ok m \<Longrightarrow>
     transfer_run h F True (fst (get_enter h w tid requested chunk m s))"
| tr_chunk: "transfer_run h F True s \<Longrightarrow> transfer_run h F True (fst (put_chunk h cw c s))"
| tr_finalize: "transfer_run h F True s \<Longrightarrow> transfer_run h F True (fst (finalize h as tid s))"
| tr_cancel: "transfer_run h F True s \<Longrightarrow> transfer_run h F True (fst (transfer_cancel h w tid s))"
| tr_files: "transfer_run h F up s \<Longrightarrow> transfer_run h F up (s\<lparr>hx_files := files\<rparr>)"

lemma started_inv:
  "slot_inv h (hx_slot_a s) \<Longrightarrow> slot_inv h (hx_slot_b s) \<Longrightarrow> transfers_inv h F (started g s)"
  by (simp add: transfers_inv_def entries_inv_def started_def transfer_count_def parts_distinct_def)

lemma transfer_run_inv:
  assumes h: "transfer_host_ok h" and r: "transfer_run h F up s"
  shows "slot_inv h (hx_slot_a s) \<and> slot_inv h (hx_slot_b s) \<and> (up \<longrightarrow> transfers_inv h F s)"
  using r
proof (induction rule: transfer_run.induct)
  case (tr_new s0 s)
  have "s = started 0 s0" using tr_new(3) by (auto simp: transfers_new_def bind_r_Ok)
  then have "transfers_inv h F s" using tr_new(2) by (simp add: started_inv no_journal_def slot_inv_NoFile)
  then show ?case by (simp add: transfers_inv_def)
next
  case (tr_fresh s)
  then show ?case by (simp add: no_journal_def slot_inv_NoFile)
next
  case (tr_start s fs w s' r)
  have "slot_inv h (hx_slot_a s') \<and> slot_inv h (hx_slot_b s') \<and> (r = Ok () \<longrightarrow> transfers_inv h F s')"
    by (rule load_or_create_inv [OF h _ _ tr_start(3,2)]) (use tr_start(4) in simp_all)
  then show ?case by (simp add: is_ok_unit)
next
  case (tr_put_begin s m fs target d part w)
  have t: "put_target_ok h F m target" using tr_put_begin(4,5) by (auto simp: put_target_ok_def path_eq_def)
  have "manifest_ok m" using tr_put_begin(2) by (simp add: manifest_validate_Ok)
  from put_enter_inv [OF h _ this tr_put_begin(3) t tr_put_begin(6-8)] tr_put_begin(9)
  have "transfers_inv h F (fst (put_enter h w m d target part s))" by simp
  then show ?case by (simp add: transfers_inv_def)
next
  case (tr_get_begin s fs tid requested chunk m w)
  from get_enter_inv [OF h _ get_prepare_ok [OF tr_get_begin(3)]] tr_get_begin(4)
  have "transfers_inv h F (fst (get_enter h w tid requested chunk m s))" by simp
  then show ?case by (simp add: transfers_inv_def)
next
  case (tr_chunk s cw c)
  then have "transfers_inv h F s" by simp
  from put_chunk_inv [OF h this surjective_pairing]
  have "transfers_inv h F (fst (put_chunk h cw c s))" .
  then show ?case by (simp add: transfers_inv_def)
next
  case (tr_finalize s as tid)
  then have "transfers_inv h F s" by simp
  from conjunct1 [OF finalize_inv [OF h this surjective_pairing]]
  have "transfers_inv h F (fst (finalize h as tid s))" .
  then show ?case by (simp add: transfers_inv_def)
next
  case (tr_cancel s w tid)
  then have "transfers_inv h F s" by simp
  from cancel_inv [OF h this] have "transfers_inv h F (fst (transfer_cancel h w tid s))" .
  then show ?case by (simp add: transfers_inv_def)
next
  case (tr_files up s files)
  then show ?case by (simp add: transfers_inv_def entries_inv_def transfer_count_def)
qed simp

text \<open>Whatever a caller asks of the service is a step of a history.\<close>

lemma put_begin_cases:
  "put_begin h fs fresh w m s = (s', r) \<Longrightarrow> s' = s
   \<or> (\<exists>target part d. put_scope_ok h m \<and> put_prepare h fs fresh m s = Ok (target, part, d)
        \<and> s' = fst (put_enter h w m d target part s))"
  by (auto simp: put_begin_def split: if_splits option.splits sum.splits)

lemma put_prepare_Ok:
  "put_prepare h fs fresh m s = Ok (target, part, d) \<Longrightarrow> prepare_put_target h fs m = Ok target
     \<and> initial_resume_descriptor m = Ok d \<and> hx_parts s part = None"
  by (auto simp: put_prepare_def bind_r_Ok new_part_def Let_def split: option.splits if_splits)

lemma get_begin_cases:
  "get_begin h fs w tid requested chunk s = (s', r) \<Longrightarrow> s' = s
   \<or> (\<exists>m. get_prepare h fs tid requested chunk = Ok m \<and> s' = fst (get_enter h w tid requested chunk m s))"
  by (auto simp: get_begin_def split: option.splits sum.splits)

definition utf8_part :: "transfer_host \<Rightarrow> transfer_operation \<Rightarrow> file_transfer_request \<Rightarrow> host_transfer \<Rightarrow> bool" where
  "utf8_part h answers r s \<longleftrightarrow>
     (case (r, answers) of
        (PutBegin m, OpPutBegin fs fresh w) \<Rightarrow>
          (case put_prepare h fs fresh m s of Inl _ \<Rightarrow> True | Inr (target, part, d) \<Rightarrow> utf8_valid part)
      | _ \<Rightarrow> True)"

text \<open>What an operation asks the file system about directories.\<close>

fun asked :: "transfer_operation \<Rightarrow> host_fs set" where
  "asked (OpPutBegin fs _ _) = {tf_host fs}"
| "asked (OpGetBegin fs _) = {tf_host fs}"
| "asked _ = {}"

lemma execute_run:
  assumes run: "transfer_run h F True s" and e: "transfer_execute h allow_read allow_write answers r s = (s', reply)"
    and u: "utf8_part h answers r s" and ff: "asked answers \<subseteq> F"
  shows "transfer_run h F True s'"
proof (cases "s' = s")
  case True
  then show ?thesis using run by simp
next
  case False
  then have v: "ft_request_validate (th_sha h) (th_base64 h) r = Ok ()"
    and b: "execute_blocking h answers r s = (s', reply)"
    using e by (auto simp: transfer_execute_def is_ok_unit split: if_splits)
  show ?thesis
  proof (cases r)
    case (PutBegin m)
    then obtain fs fresh w where o: "answers = OpPutBegin fs fresh w"
      using b False by (cases answers) (auto simp: execute_blocking_def)
    have "\<exists>reply. put_begin h fs fresh w m s = (s', reply)"
      using b PutBegin o by (auto simp: execute_blocking_def map_prod_def split: prod.splits)
    then obtain target part d where p: "put_scope_ok h m" "put_prepare h fs fresh m s = Ok (target, part, d)"
      "s' = fst (put_enter h w m d target part s)"
      using put_begin_cases False by blast
    have m: "manifest_validate m = Ok ()" using v PutBegin by (auto simp: ft_request_validate_def bind_r_Ok)
    have utf8: "utf8_valid part" using u PutBegin o p(2) by (simp add: utf8_part_def)
    note q = put_prepare_Ok [OF p(2)]
    have fs: "tf_host fs \<in> F" using ff o by simp
    show ?thesis
      unfolding p(3)
      using tr_put_begin [OF run m p(1) fs conjunct1 [OF q] conjunct1 [OF conjunct2 [OF q]] utf8] q by simp
  next
    case (GetBegin tid requested chunk)
    then obtain fs w where o: "answers = OpGetBegin fs w"
      using b False by (cases answers) (auto simp: execute_blocking_def)
    have "\<exists>reply. get_begin h fs w tid requested chunk s = (s', reply)"
      using b GetBegin o by (auto simp: execute_blocking_def map_prod_def split: prod.splits)
    moreover have "tf_host fs \<in> F" using ff o by simp
    ultimately show ?thesis using get_begin_cases False tr_get_begin [OF run] by blast
  next
    case (PutChunk c)
    then obtain w where "answers = OpPutChunk w"
      using b False by (cases answers) (auto simp: execute_blocking_def)
    then have "s' = fst (put_chunk h w c s)"
      using b PutChunk by (auto simp: execute_blocking_def map_prod_def split: prod.splits)
    then show ?thesis using tr_chunk [OF run] by simp
  next
    case (FtFinalize tid)
    then obtain as where "answers = OpFinalize as"
      using b False by (cases answers) (auto simp: execute_blocking_def)
    then have "s' = fst (finalize h as tid s)" using b FtFinalize by (simp add: execute_blocking_def)
    then show ?thesis using tr_finalize [OF run] by simp
  next
    case (FtCancel tid)
    then obtain w where "answers = OpCancel w"
      using b False by (cases answers) (auto simp: execute_blocking_def)
    then have "s' = fst (transfer_cancel h w tid s)"
      using b FtCancel by (auto simp: execute_blocking_def map_prod_def split: prod.splits)
    then show ?thesis using tr_cancel [OF run] by simp
  qed (use b False in \<open>cases answers; simp add: execute_blocking_def\<close>)+
qed

subsection \<open>What the histories keep\<close>

text \<open>Where a put may go: the destination the manifest names, expanded, with its parent resolved by
  one of the file systems the service asked, which also resolves a signed root that the parent
  lies under.\<close>

definition allowed_target :: "transfer_host \<Rightarrow> host_fs set \<Rightarrow> file_transfer_manifest \<Rightarrow> string \<Rightarrow> bool" where
  "allowed_target h F m target \<longleftrightarrow>
     (\<exists>fs \<in> F. \<exists>p name parent0 parent.
        expand_target_path (tp_platform (th_paths h)) (fs_env_var fs) (fm_device_path m) = Ok p
        \<and> tp_file_name (th_paths h) p = Some name \<and> tp_parent (th_paths h) p = Some parent0
        \<and> fs_canonicalize fs parent0 = Some parent
        \<and> (all_filesystem (th_policy h)
           \<or> (\<exists>root \<in> set (roots (th_policy h)). \<exists>r croot.
                expand_target_path (tp_platform (th_paths h)) (fs_env_var fs) root = Ok r
                \<and> fs_canonicalize fs r = Some croot
                \<and> path_starts_with (tp_platform (th_paths h)) parent croot))
        \<and> path_eq (th_paths h) (pl_join (tp_platform (th_paths h)) parent name) target)"

lemma prepared_allowed:
  assumes "put_target_ok h F m target" shows "allowed_target h F m target"
proof -
  obtain fs t where fs: "tf_host fs \<in> F" and t: "prepare_put_target h fs m = Ok t" "path_eq (th_paths h) t target"
    using assms by (auto simp: put_target_ok_def)
  obtain p name parent0 parent where
    "expand_target_path (tp_platform (th_paths h)) (fs_env_var (tf_host fs)) (fm_device_path m) = Ok p"
    "tp_file_name (th_paths h) p = Some name" "tp_parent (th_paths h) p = Some parent0"
    "fs_canonicalize (tf_host fs) parent0 = Some parent" "ensure_allowed_parent h fs parent = Ok ()"
    "put_target_free fs (fm_conflict_policy m) (pl_join (tp_platform (th_paths h)) parent name) = Ok t"
    using t(1) by (auto simp: prepare_put_target_def Let_def bind_r_Ok split: if_splits)
  moreover have "t = pl_join (tp_platform (th_paths h)) parent name"
    using calculation(6) by (auto simp: put_target_free_def split: lstat.splits file_node.splits if_splits)
  moreover have "all_filesystem (th_policy h)
      \<or> under_some_root (tp_platform (th_paths h)) (tf_host fs) (roots (th_policy h)) parent"
    using calculation(5) by (auto simp: ensure_allowed_parent_def split: if_splits)
  ultimately show ?thesis
    using fs t(2) unfolding allowed_target_def under_some_root_iff by blast
qed

text \<open>C10: A put that completes puts exactly its manifest's bytes at a path its policy allows: when
  a finalize of a put that is not completed answers with a status, then, whatever happened before
  and whatever others did to the files, the file at the reported path has the manifest's length and
  SHA-256; the path is the prepared target, which is the destination the manifest names with its
  parent resolved, below a signed root, by a file system the service asked in this history (\<open>F\<close>
  are the states of the directories it saw), or, for a renaming put, one of its 1024 numbered
  siblings; and unless the put replaces, no file was there when it was renamed.\<close>

theorem put_integrity:
  assumes "transfer_host_ok h" and "transfer_run h F True s" and "bt_get (hx_puts s) k = Some e"
    and "pe_phase e \<noteq> Completed" and "finalize h as k s = (s', Some (FtrStatus st))"
  shows "\<exists>a \<in> set as. \<exists>path content. fs_phase st = Completed \<and> fs_final_device_path st = Some path
    \<and> hx_files s' (path_parts (th_paths h) path) = Some (FileNode content)
    \<and> length content = unat (fm_total_size (pe_manifest e))
    \<and> sha256_hex (th_sha h) content = fm_final_sha256 (pe_manifest e)
    \<and> allowed_target h F (pe_manifest e) (pe_requested_target e)
    \<and> final_choice (th_paths h) (fm_conflict_policy (pe_manifest e)) (pe_requested_target e) path
    \<and> (fm_conflict_policy (pe_manifest e) \<noteq> Some ReplaceExisting \<longrightarrow>
         fa_files a (path_parts (th_paths h) path) = None)"
proof -
  have inv: "transfers_inv h F s" using transfer_run_inv [OF assms(1,2)] by simp
  have "put_target_ok h F (pe_manifest e) (pe_requested_target e)"
    using entries_invD(5) [OF transfers_invD(1) [OF inv] assms(3)] assms(4)
    by (simp add: put_ok_def Let_def)
  then have t: "allowed_target h F (pe_manifest e) (pe_requested_target e)" by (rule prepared_allowed)
  obtain a target where "a \<in> set as" "put_committed h a k e target s'"
    "fs_final_device_path st = Some target" "fs_phase st = Completed"
    using spec [OF conjunct2 [OF finalize_inv [OF assms(1) inv assms(5)]], of e] assms(3,4) by auto
  then show ?thesis using t unfolding put_committed_def by blast
qed

text \<open>The confirmed checkpoint of a put describes its part file.\<close>

definition checkpoint_true :: "transfer_host \<Rightarrow> host_transfer \<Rightarrow> put_entry \<Rightarrow> bool" where
  "checkpoint_true h s e \<longleftrightarrow>
     (\<exists>part bs rest. pe_temp e = Some part \<and> hx_parts s part = Some (bs @ rest)
        \<and> length bs = unat (fd_confirmed_offset (pe_descriptor e))
        \<and> fd_confirmed_prefix_sha256 (pe_descriptor e) = sha256_hex (th_sha h) bs
        \<and> (pe_phase e = ReadyToFinalize \<longrightarrow> rest = []))"

lemma checkpoint_trueI:
  assumes "put_ok h F k e" and "put_part_ok h (hx_parts s) e" and "pe_phase e \<noteq> Completed"
  shows "checkpoint_true h s e"
proof -
  have "pe_temp e \<noteq> None" using assms(1,3) by (simp add: put_ok_def Let_def)
  then obtain part where part: "pe_temp e = Some part" by auto
  obtain rest where "hx_parts s part = Some (pe_prefix e @ rest)" "pe_phase e \<noteq> Receiving \<longrightarrow> rest = []"
    using assms(2) part by (auto simp: put_part_ok_def)
  then show ?thesis
    unfolding checkpoint_true_def using assms(2) part
    by (intro exI [of _ part] exI [of _ "pe_prefix e"] exI [of _ rest]) (auto simp: put_part_ok_def)
qed

text \<open>C15: The transfers of a host stay in order: at most 16, no id both a put and a get, every
  manifest, of puts and of gets, valid, of this membership and for its own id and direction, and
  the confirmed checkpoint of every put that is not completed describes its part file: it begins with as many bytes as are confirmed, and their hash
  is the confirmed one. After a torn write there may be more, while the put is being received.\<close>

theorem transfers_in_order:
  assumes "transfer_host_ok h" and "transfer_run h F True s"
  shows "length (hx_puts s) + length (hx_gets s) \<le> HARD_MAX_HOST_FILE_TRANSFERS
    \<and> (\<forall>k e. bt_get (hx_puts s) k = Some e \<longrightarrow> bt_get (hx_gets s) k = None
        \<and> put_scope_ok h (pe_manifest e) \<and> manifest_validate (pe_manifest e) = Ok ()
        \<and> fm_transfer_id (pe_manifest e) = k \<and> fd_validate (pe_descriptor e) = Ok ()
        \<and> (pe_phase e \<noteq> Completed \<longrightarrow> checkpoint_true h s e))
    \<and> (\<forall>k e. bt_get (hx_gets s) k = Some e \<longrightarrow> bt_get (hx_puts s) k = None
        \<and> in_scope (th_scope h) (ge_manifest e) \<and> fm_direction (ge_manifest e) = DeviceToController
        \<and> manifest_validate (ge_manifest e) = Ok () \<and> fm_transfer_id (ge_manifest e) = k)"
proof -
  have inv: "entries_inv h F s" using transfer_run_inv [OF assms] by (simp add: transfers_inv_def)
  have count: "length (hx_puts s) + length (hx_gets s) \<le> HARD_MAX_HOST_FILE_TRANSFERS"
    using entries_invD(3) [OF inv] by (simp add: transfer_count_def bounds_simps)
  have apart: "bt_get (hx_gets s) k = None" if "bt_get (hx_puts s) k = Some e" for k e
    using entries_invD(6) [OF inv, of k] that by (cases "bt_get (hx_gets s) k") auto
  have puts: "put_scope_ok h (pe_manifest e) \<and> manifest_validate (pe_manifest e) = Ok ()
        \<and> fm_transfer_id (pe_manifest e) = k \<and> fd_validate (pe_descriptor e) = Ok ()
        \<and> (pe_phase e \<noteq> Completed \<longrightarrow> checkpoint_true h s e)" if "bt_get (hx_puts s) k = Some e" for k e
  proof -
    note ok = entries_invD(5) [OF inv that]
    show ?thesis
      using ok checkpoint_trueI [OF conjunct1 [OF ok] conjunct2 [OF ok]]
      by (simp add: put_ok_def Let_def manifest_validate_Ok fd_validate_Ok)
  qed
  have gets: "bt_get (hx_puts s) k = None
        \<and> in_scope (th_scope h) (ge_manifest e) \<and> fm_direction (ge_manifest e) = DeviceToController
        \<and> manifest_validate (ge_manifest e) = Ok () \<and> fm_transfer_id (ge_manifest e) = k"
    if "bt_get (hx_gets s) k = Some e" for k e
    using entries_invD(6) [OF inv that] by (simp add: get_ok_def Let_def manifest_validate_Ok)
  show ?thesis using count apart puts gets by blast
qed

subsection \<open>Answers that repeat\<close>

text \<open>Requests can be repeated: beginning a put again with the same manifest, sending its last
  chunk again, and finalizing or sending to a completed put answer with its status and change
  nothing; a different manifest or source under a known id is refused and changes nothing.\<close>

theorem transfer_replays:
  assumes "bt_get (hx_puts s) k = Some e" and "fm_transfer_id m = k"
  shows "(put_scope_ok h m \<longrightarrow> put_begin h fs fresh w m s =
      (s, if m = pe_manifest e then put_status e
          else transfer_error FtcConflict ''TransferId is already bound to a different manifest''))
    \<and> get_begin h fs w k path chunk_size s =
      (s, transfer_error FtcConflict ''TransferId is already bound to a controller-to-device transfer'')
    \<and> (chunk_decode_bytes (th_sha h) (th_base64 h) c = Ok bs \<longrightarrow> fc_transfer_id c = k \<longrightarrow>
         chunk_replayed e c bs \<or> pe_phase e = Completed \<longrightarrow> put_chunk h cw c s = (s, put_status e))
    \<and> (pe_phase e = Completed \<longrightarrow> finalize h (a # as) k s = (s, Some (put_status e)))"
  using assms
  by (auto simp: put_begin_def put_known_def get_begin_def get_known_def put_chunk_def finalize_turn_def
      already_bound_def Let_def)

text \<open>The chunk just confirmed is one that is recognised when it comes again.\<close>

lemma confirmed_chunk_replays:
  assumes "put_ok h F k e" and "chunk_fits h e c bs"
  shows "chunk_replayed (confirm_chunk h c bs e) c bs"
proof -
  have "fc_offset c = fd_confirmed_offset (pe_descriptor e)" using assms(2) by (simp add: chunk_fits_def)
  then show ?thesis by (simp add: chunk_replayed_def confirm_chunk_def Let_def next_descriptor_def)
qed


subsection \<open>Starting again from what is on the disk\<close>

text \<open>C18: A restart loses no confirmed byte: when the part file of a put that is being received or is
  ready holds exactly what was confirmed, the journal's entry for the put (at an offset it had
  reached) is restored from it with the same confirmed offset and prefix, in the same phase.\<close>

theorem restart_keeps_confirmed:
  assumes "transfer_host_ok h" and "transfer_run h F True s" and "bt_get (hx_puts s) k = Some e"
    and "pe_phase e \<noteq> Completed" and "pe_temp e = Some part" and "hx_parts s part = Some (pe_prefix e)"
    and p: "durable_put_ok (th_paths h) (th_scope h) p" "dp_manifest p = pe_manifest e" "dp_part_path p = Some part"
    and "same_parent (th_paths h) part (dp_requested_target p)"
    and offset: "fd_confirmed_offset (dp_descriptor p) \<le> fd_confirmed_offset (pe_descriptor e)"
    and same: "fd_confirmed_offset (dp_descriptor p) = fd_confirmed_offset (pe_descriptor e) \<longrightarrow>
      fd_confirmed_prefix_sha256 (dp_descriptor p) = fd_confirmed_prefix_sha256 (pe_descriptor e)"
    and "tf_part fs part = PartAsIs" and "prepare_put_target h fs (pe_manifest e) = Ok target"
    and "path_eq (th_paths h) target (dp_requested_target p)"
  shows "\<exists>e'. restore_active h fs (hx_parts s) p = Ok e' \<and> pe_phase e' = pe_phase e \<and> pe_prefix e' = pe_prefix e
    \<and> fd_confirmed_offset (pe_descriptor e') = fd_confirmed_offset (pe_descriptor e)
    \<and> fd_confirmed_prefix_sha256 (pe_descriptor e') = fd_confirmed_prefix_sha256 (pe_descriptor e)
    \<and> fd_checkpoint_revision (dp_descriptor p) \<le> fd_checkpoint_revision (pe_descriptor e')
    \<and> pe_temp e' = Some part"
proof -
  let ?d = "pe_descriptor e" and ?m = "pe_manifest e" and ?c = "pe_prefix e"
  let ?e = "restored_entry h p part ?c"
  have inv: "entries_inv h F s" using transfer_run_inv [OF assms(1,2)] by (simp add: transfers_inv_def)
  note ok = conjunct1 [OF entries_invD(5) [OF inv assms(3)]] and po = conjunct2 [OF entries_invD(5) [OF inv assms(3)]]
  have len: "length ?c = unat (fd_confirmed_offset ?d)" and hash: "sha256_hex (th_sha h) ?c = fd_confirmed_prefix_sha256 ?d"
    using po assms(5) by (simp_all add: put_part_ok_def)
  have d: "fd_ok ?d" "fd_total_size ?d = fm_total_size ?m" "put_aligned ?m ?d"
    "fd_final_sha256 ?d = Some (fm_final_sha256 ?m)"
    "pe_phase e = Receiving \<longleftrightarrow> fd_confirmed_offset ?d < fm_total_size ?m"
    using ok by (simp_all add: put_ok_def Let_def)
  have w: "(word_of_nat (length ?c) :: u64) = fd_confirmed_offset ?d" by (simp add: len)
  have le: "fd_confirmed_offset ?d \<le> fm_total_size ?m" using d(1,2) by (simp add: fd_ok_def)
  have "check_part_length p ?c = Ok ()"
    using le offset d(3) len p(2)
    by (auto simp: check_part_length_def Let_def word_le_nat_alt put_aligned_def)
  moreover have "check_part_hash h p ?c = Ok ()"
    using same d(1,2,4) len hash p(2)
    by (auto simp: check_part_hash_def Let_def word_unat_eq_iff fd_ok_def)
  moreover have "fd_validate (pe_descriptor ?e) = Ok ()"
  proof -
    have "durable_put_ok (th_paths h) (th_scope h) p" by (rule p(1))
    then have "fd_ok (dp_descriptor p)" "fd_total_size (dp_descriptor p) = fm_total_size ?m"
      "fd_final_sha256 (dp_descriptor p) = Some (fm_final_sha256 ?m)"
      using p(2) by (simp_all add: durable_put_ok_def Let_def)
    then show ?thesis
      using d(1,2,4) le saturating_inc_nonzero hash
      by (simp add: fd_validate_Ok restored_entry_def next_descriptor_def w fd_ok_def)
  qed
  ultimately have "restore_part h fs p part ?c = Ok ?e"
    using assms(13-15) p(2) by (simp add: restore_part_def read_part_def)
  then have "restore_active h fs (hx_parts s) p = Ok ?e"
    using assms(6,10,13) p(3) by (simp add: restore_active_def)
  moreover have "pe_phase ?e = pe_phase e"
    using d(5) le assms(4) p(2) w
    by (cases "pe_phase e") (auto simp: restored_entry_def received_phase_def)
  ultimately show ?thesis
    using w hash saturating_add_ge
    by (intro exI [of _ ?e]) (simp add: restored_entry_def next_descriptor_def)
qed

text \<open>When no start can succeed.\<close>

lemma fold_r_member:
  assumes "fold_r f xs a = Ok b" and "x \<in> set xs"
    and "\<And>y a a'. f y a = Ok a' \<Longrightarrow> g a' = g a"
  shows "\<exists>a1 a2. f x a1 = Ok a2 \<and> g a1 = g a"
  using assms(1,2)
proof (induction xs arbitrary: a)
  case (Cons y ys)
  obtain a1 where a1: "f y a = Ok a1" "fold_r f ys a1 = Ok b" using Cons.prems(1) by (auto simp: bind_r_Ok)
  show ?case
  proof (cases "x = y")
    case True
    then show ?thesis using a1 by auto
  next
    case False
    then show ?thesis using Cons.IH [OF a1(2)] Cons.prems(2) assms(3) [OF a1(1)] by auto
  qed
qed simp

lemma restore_put_parts: "restore_put h fs p s = Ok s' \<Longrightarrow> hx_parts s' = hx_parts s"
  by (auto simp: restore_put_def bind_r_Ok)

text \<open>A part that is missing without a journaled rename, or whose length no checkpoint could have.\<close>

definition part_unusable :: "(string \<Rightarrow> bytes option) \<Rightarrow> durable_put \<Rightarrow> bool" where
  "part_unusable parts p \<longleftrightarrow> dp_phase p \<noteq> Completed
     \<and> (\<exists>part. dp_part_path p = Some part
          \<and> ((parts part = None \<and> dp_finalizing_path p = None)
             \<or> (\<exists>content. parts part = Some content
                  \<and> length content \<noteq> unat (fm_total_size (dp_manifest p))
                  \<and> length content mod unat (fm_chunk_size (dp_manifest p)) \<noteq> 0)))"

lemma unusable_not_restored:
  assumes "part_unusable (hx_parts s) p"
  shows "\<not> is_ok (restore_put h fs p s)"
proof
  assume "is_ok (restore_put h fs p s)"
  then obtain e where "restore_active h fs (hx_parts s) p = Ok e"
    using assms by (auto simp: is_ok_iff restore_put_def bind_r_Ok part_unusable_def)
  then show False
    using assms
    by (auto simp: part_unusable_def restore_active_def restore_renamed_def restore_part_def check_part_length_def
        Let_def bind_r_Ok split: if_splits part_stat.splits option.splits)
qed

lemma unusable_part_blocks_start:
  assumes "load_transfers (th_paths h) (th_scope h) (th_json h) (hx_slot_a s) (hx_slot_b s) = Ok snap"
    and "p \<in> set (sn_puts snap)" and "part_unusable (hx_parts s) p"
  shows "\<not> is_ok (snd (load_or_create_transfers h fs w s))"
proof
  assume "is_ok (snd (load_or_create_transfers h fs w s))"
  then obtain s' where "load_or_create_transfers h fs w s = (s', Ok ())"
    by (metis is_ok_unit surjective_pairing)
  then have "restore_snapshot h fs w snap (started (sn_generation snap) s) = (s', Ok ())"
    using assms(1) by (auto simp: load_or_create_transfers_def split: if_splits)
  then obtain s1 where f: "fold_r (restore_put h fs) (sn_puts snap)
      ((started (sn_generation snap) s)\<lparr>hx_next_sequence := foldl max 0 (map dp_sequence (sn_puts snap))\<rparr>) = Ok s1"
    by (auto simp: restore_snapshot_def bind_r_Ok split: sum.splits)
  obtain a1 a2 where "restore_put h fs p a1 = Ok a2" "hx_parts a1 = hx_parts s"
    using fold_r_member [OF f assms(2), of hx_parts] restore_put_parts by (auto simp: started_def)
  then show False
    using unusable_not_restored [of a1 p h fs] assms(3) by simp
qed

lemma unwritten_slots:
  assumes "journal h w s = (s', b)" and "w = OpenFailed io \<or> w = DirFailed io"
  shows "hx_slot_a s' = hx_slot_a s \<and> hx_slot_b s' = hx_slot_b s"
proof (cases "th_durable h")
  case True
  obtain r where p: "persist_transfers h w s = (s', r)"
    using assms(1) True by (auto simp: journal_def split: prod.splits)
  from p show ?thesis
  proof (cases rule: persist_cases)
    case refused
    then show ?thesis by simp
  next
    case (written f)
    have "f = (if even_to_a (hx_generation s + 1) then hx_slot_a s else hx_slot_b s)"
      using written(3) assms(2)
      by (auto simp: write_host_transfer_slot_def write_slot_def split: sum.splits)
    then show ?thesis using written(4) by (simp add: Let_def)
  qed
qed (use assms(1) in \<open>simp add: journal_def\<close>)

text \<open>C16: A host that stops while a cancel is journaled cannot start its file transfers again: the
  entry's part file is deleted before the journal is written, so when the write does not happen the
  journal still names the part, and every later start fails, whatever the system answers.\<close>

theorem interrupted_cancel_blocks_start:
  assumes load: "load_transfers (th_paths h) (th_scope h) (th_json h) (hx_slot_a s) (hx_slot_b s) = Ok snap"
    and p: "p \<in> set (sn_puts snap)" "dp_phase p \<noteq> Completed" "dp_part_path p = Some part" "dp_finalizing_path p = None"
    and e: "bt_get (hx_puts s) k = Some e" "pe_phase e \<noteq> Completed" "pe_temp e = Some part"
    and w: "w = OpenFailed io \<or> w = DirFailed io"
  shows "\<not> is_ok (snd (load_or_create_transfers h fs w' (fst (transfer_cancel h w k s))))"
proof -
  let ?t = "drop_put k s"
  obtain s2 b where j: "journal h w ?t = (s2, b)" by fastforce
  have "fst (transfer_cancel h w k s) = s2"
    using e j by (simp add: transfer_cancel_def cancel_reply_def)
  moreover have "hx_slot_a s2 = hx_slot_a s" "hx_slot_b s2 = hx_slot_b s"
    using unwritten_slots [OF j w] by simp_all
  moreover have "hx_parts s2 part = None"
    using journal_fields(3) [OF j] e by (simp add: drop_put_def)
  ultimately show ?thesis
    using unusable_part_blocks_start [of h s2 snap p fs w'] load p by (simp add: part_unusable_def)
qed

text \<open>The same holds when a chunk write is torn within a chunk: no later start accepts the part.\<close>

lemma torn_chunk_blocks_start:
  assumes load: "load_transfers (th_paths h) (th_scope h) (th_json h) (hx_slot_a s) (hx_slot_b s) = Ok snap"
    and p: "p \<in> set (sn_puts snap)" "dp_phase p \<noteq> Completed" "dp_part_path p = Some part"
    and c: "put_chunk h (ChunkTorn n) c s = (s1, r)" "hx_parts s1 part = Some content"
      "length content \<noteq> unat (fm_total_size (dp_manifest p))"
      "length content mod unat (fm_chunk_size (dp_manifest p)) \<noteq> 0"
  shows "\<not> is_ok (snd (load_or_create_transfers h fs w s1))"
proof -
  have "hx_slot_a s1 = hx_slot_a s" "hx_slot_b s1 = hx_slot_b s"
    using c(1) by (cases rule: put_chunk_cases; simp)+
  then show ?thesis
    using unusable_part_blocks_start [of h s1 snap p fs w] load p c(2-4) by (auto simp: part_unusable_def)
qed

subsection \<open>Uploads and finalizing make progress\<close>

lemma chunk_from_bytes_data:
  assumes "base64_ok b" and "length (sha data) = 32" and "data \<noteq> []" and "length data \<le> 32768"
  shows "\<exists>c. chunk_from_bytes sha b tid offset data = Ok c \<and> chunk_data sha b c data
    \<and> fc_offset c = offset \<and> fc_transfer_id c = tid"
proof -
  let ?c = "\<lparr>fc_transfer_id = tid, fc_offset = offset, fc_sha256 = sha256_hex sha data,
     fc_data_base64 = b64_encode b data\<rparr>"
  have "length (b64_encode b data) \<le> 43692" using assms(1,4) by (simp add: base64_ok_def)
  then have d: "chunk_data sha b ?c data"
    using assms by (simp add: chunk_data_def base64_ok_def sha256_hex_ok)
  then have "chunk_validate sha b ?c = Ok ()" by (auto simp: chunk_validate_Ok)
  then show ?thesis using assms(3,4) d by (simp add: chunk_from_bytes_def bounds_simps)
qed

text \<open>The bytes the upload of \<open>bs\<close> sends next, and what it sends in \<open>n\<close> chunks.\<close>

definition next_data :: "put_entry \<Rightarrow> bytes \<Rightarrow> bytes" where
  "next_data e bs = take (unat (fm_chunk_size (pe_manifest e)))
     (drop (unat (fd_confirmed_offset (pe_descriptor e))) bs)"

fun upload :: "transfer_host \<Rightarrow> bytes \<Rightarrow> nat \<Rightarrow> transfer_id \<Rightarrow> host_transfer \<Rightarrow> host_transfer" where
  "upload h bs 0 k s = s"
| "upload h bs (Suc n) k s =
     (case bt_get (hx_puts s) k of
        None \<Rightarrow> s
      | Some e \<Rightarrow>
          (case chunk_from_bytes (th_sha h) (th_base64 h) k (fd_confirmed_offset (pe_descriptor e)) (next_data e bs) of
             Inl _ \<Rightarrow> s
           | Inr c \<Rightarrow> upload h bs n k (fst (put_chunk h ChunkWritten c s))))"

definition uploading :: "transfer_host \<Rightarrow> bytes \<Rightarrow> transfer_id \<Rightarrow> put_entry \<Rightarrow> host_transfer \<Rightarrow> bool" where
  "uploading h bs k e s \<longleftrightarrow> bt_get (hx_puts s) k = Some e \<and> pe_phase e \<noteq> Completed
     \<and> pe_prefix e = take (unat (fd_confirmed_offset (pe_descriptor e))) bs
     \<and> (\<exists>part. pe_temp e = Some part \<and> hx_parts s part = Some (pe_prefix e))
     \<and> length bs = unat (fm_total_size (pe_manifest e))
     \<and> sha256_hex (th_sha h) bs = fm_final_sha256 (pe_manifest e)"

lemma next_chunk_accepted:
  assumes h: "transfer_host_ok h" and b: "base64_ok (th_base64 h)" and inv: "transfers_inv h F s"
    and u: "uploading h bs k e s" and r: "pe_phase e = Receiving"
  obtains c where "chunk_from_bytes (th_sha h) (th_base64 h) k (fd_confirmed_offset (pe_descriptor e)) (next_data e bs) = Ok c"
    "uploading h bs k (confirm_chunk h c (next_data e bs) e) (fst (put_chunk h ChunkWritten c s))"
    "unat (fd_confirmed_offset (pe_descriptor (confirm_chunk h c (next_data e bs) e)))
       = min (unat (fd_confirmed_offset (pe_descriptor e)) + unat (fm_chunk_size (pe_manifest e))) (length bs)"
proof -
  let ?o = "fd_confirmed_offset (pe_descriptor e)" and ?m = "pe_manifest e" and ?data = "next_data e bs"
  note ok = conjunct1 [OF entries_invD(5) [OF transfers_invD(1) [OF inv]]]
  have e: "bt_get (hx_puts s) k = Some e" and prefix: "pe_prefix e = take (unat ?o) bs"
    and len: "length bs = unat (fm_total_size ?m)" and hash: "sha256_hex (th_sha h) bs = fm_final_sha256 ?m"
    using u by (simp_all add: uploading_def)
  obtain part where part: "pe_temp e = Some part" "hx_parts s part = Some (pe_prefix e)"
    using u by (auto simp: uploading_def)
  have m: "manifest_ok ?m" "fm_transfer_id ?m = k" "?o < fm_total_size ?m" "put_aligned ?m (pe_descriptor e)"
    using ok [OF e] r by (simp_all add: put_ok_def Let_def)
  have al: "unat ?o mod unat (fm_chunk_size ?m) = 0" using m(3,4) by (auto simp: put_aligned_def)
  have cs: "0 < unat (fm_chunk_size ?m)" "unat (fm_chunk_size ?m) \<le> 32768"
    using m(1) by (auto simp: manifest_ok_def chunk_size_ok_def)
  have lt: "unat ?o < length bs" using m(3) len by (simp add: word_less_nat_alt)
  have dl: "length ?data = min (unat (fm_chunk_size ?m)) (length bs - unat ?o)" by (simp add: next_data_def)
  have "0 < length ?data" unfolding dl using cs lt by simp
  then have ne: "?data \<noteq> []" by auto
  have short: "length ?data \<le> 32768" using dl cs by simp
  have sha: "length (th_sha h ?data) = 32" using h by (simp add: transfer_host_ok_def)
  obtain c where c: "chunk_from_bytes (th_sha h) (th_base64 h) k ?o ?data = Ok c"
    "chunk_data (th_sha h) (th_base64 h) c ?data" "fc_offset c = ?o" "fc_transfer_id c = k"
    using chunk_from_bytes_data [of "th_base64 h" "th_sha h" ?data k ?o, OF b sha ne short] by auto
  have pd: "pe_prefix e @ ?data = take (unat ?o + unat (fm_chunk_size ?m)) bs"
    by (simp add: prefix next_data_def take_add)
  have "fits": "chunk_fits h e c ?data"
  proof -
    have mv: "manifest_validate_chunk (th_sha h) (th_base64 h) ?m c = Ok ()"
      using m al c dl len by (auto simp: manifest_validate_chunk_Ok)
    let ?n = "fd_confirmed_offset (pe_descriptor (confirm_chunk h c ?data e))"
    have off: "unat (saturating_add ?o (word_of_nat (length ?data))) = unat ?o + length ?data"
    proof -
      have "unat (fm_total_size ?m) < 2 ^ 64" using unsigned_less [of "fm_total_size ?m", where ?'a = nat] by simp
      moreover have "unat ?o + length ?data \<le> length bs" using dl lt by simp
      ultimately show ?thesis using len by (simp add: unat_saturating_add unat_of_nat)
    qed
    have "pe_prefix e @ ?data = bs" if "?n = fm_total_size ?m"
    proof -
      have "unat ?o + length ?data = length bs"
        using that off len by (simp add: confirm_chunk_def Let_def next_descriptor_def)
      then have "length bs \<le> unat ?o + unat (fm_chunk_size ?m)" using dl by simp
      then show ?thesis using pd by simp
    qed
    then show ?thesis using r c mv hash by (simp add: chunk_fits_def)
  qed
  note off = chunk_fits_offset [OF ok [OF e] "fits"]
  have nr: "\<not> chunk_replayed e c ?data"
  proof
    assume "chunk_replayed e c ?data"
    then have "saturating_add ?o (word_of_nat (length ?data)) = ?o"
      using c(3) by (auto simp: chunk_replayed_def split: option.splits)
    then show False using off(1) ne by (simp add: confirm_chunk_def Let_def next_descriptor_def)
  qed
  have dec: "chunk_decode_bytes (th_sha h) (th_base64 h) c = Ok ?data" using c(2) by (simp add: chunk_decode_bytes_Ok)
  have lp: "length (pe_prefix e) = unat ?o" using prefix lt by simp
  have put: "fst (put_chunk h ChunkWritten c s) = set_put k (confirm_chunk h c ?data e)
      (s\<lparr>hx_parts := (hx_parts s)(part \<mapsto> pe_prefix e @ ?data)\<rparr>)"
    using e dec nr r c "fits" part lp
    by (auto simp: put_chunk_def write_chunk_def Let_def chunk_fits_def write_at_def)
  have n: "unat (fd_confirmed_offset (pe_descriptor (confirm_chunk h c ?data e)))
      = min (unat ?o + unat (fm_chunk_size ?m)) (length bs)"
    using off(1) dl lt by simp
  have "take (min x (length bs)) bs = take x bs" for x by (simp add: min_def)
  then have "uploading h bs k (confirm_chunk h c ?data e) (fst (put_chunk h ChunkWritten c s))"
    unfolding put using part len hash pd n
    by (simp add: uploading_def)
  then show thesis by (rule that [OF c(1) _ n])
qed

text \<open>C19: Uploads complete: a put whose part holds exactly the confirmed bytes of a file with the
  manifest's size and hash is ready to finalize, its part holding the whole file, once the chunks
  from the confirmed offset on have been sent and written, which are as many as fit the rest.\<close>

theorem upload_completes:
  assumes "transfer_host_ok h" and "base64_ok (th_base64 h)" and "transfer_run h F True s"
    and "uploading h bs k e s" and "n * unat (fm_chunk_size (pe_manifest e))
      \<ge> length bs - unat (fd_confirmed_offset (pe_descriptor e))"
  shows "\<exists>e' i. i \<le> n \<and> uploading h bs k e' (upload h bs i k s) \<and> pe_phase e' = ReadyToFinalize
    \<and> pe_prefix e' = bs \<and> pe_manifest e' = pe_manifest e"
  using assms(3-5)
proof (induction n arbitrary: s e)
  case 0
  have inv: "transfers_inv h F s" using transfer_run_inv [OF assms(1) 0(1)] by simp
  have e: "bt_get (hx_puts s) k = Some e" "pe_phase e \<noteq> Completed"
    "pe_prefix e = take (unat (fd_confirmed_offset (pe_descriptor e))) bs"
    "length bs = unat (fm_total_size (pe_manifest e))" using 0(2) by (simp_all add: uploading_def)
  have "pe_phase e \<noteq> Receiving"
    using entries_invD(5) [OF transfers_invD(1) [OF inv] e(1)] 0(3) e(4)
    by (auto simp: put_ok_def Let_def word_less_nat_alt)
  then have "pe_phase e = ReadyToFinalize" using e(2) by (cases "pe_phase e") simp_all
  then show ?case using 0 e(3) by (intro exI [of _ e] exI [of _ 0]) simp
next
  case (Suc n)
  have inv: "transfers_inv h F s" using transfer_run_inv [OF assms(1) Suc.prems(1)] by simp
  show ?case
  proof (cases "pe_phase e = Receiving")
    case False
    have e: "bt_get (hx_puts s) k = Some e" "pe_phase e \<noteq> Completed"
      "pe_prefix e = take (unat (fd_confirmed_offset (pe_descriptor e))) bs"
      "length bs = unat (fm_total_size (pe_manifest e))" using Suc.prems(2) by (simp_all add: uploading_def)
    have "pe_phase e = ReadyToFinalize" using e(2) False by (cases "pe_phase e") simp_all
    moreover have "fd_confirmed_offset (pe_descriptor e) = fm_total_size (pe_manifest e)"
      using put_ok_offset entries_invD(5) [OF transfers_invD(1) [OF inv] e(1)] False by blast
    ultimately show ?thesis using Suc.prems e(3,4) by (intro exI [of _ e] exI [of _ 0]) simp
  next
    case True
    obtain c where c: "chunk_from_bytes (th_sha h) (th_base64 h) k (fd_confirmed_offset (pe_descriptor e)) (next_data e bs) = Ok c"
      "uploading h bs k (confirm_chunk h c (next_data e bs) e) (fst (put_chunk h ChunkWritten c s))"
      "unat (fd_confirmed_offset (pe_descriptor (confirm_chunk h c (next_data e bs) e)))
       = min (unat (fd_confirmed_offset (pe_descriptor e)) + unat (fm_chunk_size (pe_manifest e))) (length bs)"
      by (rule next_chunk_accepted [OF assms(1,2) inv Suc.prems(2) True])
    have "n * unat (fm_chunk_size (pe_manifest (confirm_chunk h c (next_data e bs) e)))
        \<ge> length bs - unat (fd_confirmed_offset (pe_descriptor (confirm_chunk h c (next_data e bs) e)))"
      unfolding c(3) using Suc.prems(3) by simp
    from Suc.IH [OF tr_chunk [OF Suc.prems(1)] c(2) this]
    obtain e' i where "i \<le> n" "uploading h bs k e' (upload h bs i k (fst (put_chunk h ChunkWritten c s)))"
      "pe_phase e' = ReadyToFinalize" "pe_prefix e' = bs" "pe_manifest e' = pe_manifest e" by auto
    moreover have "bt_get (hx_puts s) k = Some e" using Suc.prems(2) by (simp add: uploading_def)
    ultimately show ?thesis
      using c(1) by (intro exI [of _ e'] exI [of _ "Suc i"]) simp
  qed
qed


text \<open>A turn asks for another only when a file has come to the path that was to be renamed to.\<close>

lemma first_free_missing: "first_free tp stat target ns = Ok q \<Longrightarrow> stat q = LstatMissing"
  by (induction ns) (auto split: option.splits lstat.splits)

lemma finish_rename_Retry:
  assumes "finish_rename h a k e (s, r) = (s', Retry)"
  shows "bt_get (hx_puts s') k = Some (e\<lparr>pe_finalizing_path := None\<rparr>)"
    and "\<exists>reply. r = Err (BeforeCommit reply) \<and> is_conflict reply"
    and "fm_conflict_policy (pe_manifest e) = Some RenameIfExists"
proof -
  obtain reply where r: "r = Err (BeforeCommit reply)"
    using assms by (auto simp: finish_rename_def Let_def split: sum.splits persist_final_error.splits prod.splits if_splits)
  obtain s2 w where j: "journal h (fa_after a) (set_put k (e\<lparr>pe_finalizing_path := None\<rparr>) s) = (s2, w)" by fastforce
  have "w \<and> fm_conflict_policy (pe_manifest e) = Some RenameIfExists \<and> is_conflict reply \<and> s' = s2"
    using assms r j by (auto simp: finish_rename_def split: if_splits)
  then show "bt_get (hx_puts s') k = Some (e\<lparr>pe_finalizing_path := None\<rparr>)"
    "\<exists>reply. r = Err (BeforeCommit reply) \<and> is_conflict reply"
    "fm_conflict_policy (pe_manifest e) = Some RenameIfExists"
    using r journal_fields(1) [OF j] by simp_all
qed

lemma noclobber_conflict:
  assumes "persist_noclobber h a part target s = (s', Err (BeforeCommit reply))" and "is_conflict reply"
  shows "hx_files s (path_parts (th_paths h) target) \<noteq> None"
  using assms
  by (auto simp: persist_noclobber_def commit_part_def finalize_synced_def is_conflict_def reply_defs
      split: rename_outcome.splits option.splits if_splits sync_outcome.splits)

lemma finalize_turn_Retry:
  assumes "finalize_turn h a k s = (s', Retry)"
  obtains e target where "bt_get (hx_puts s) k = Some e"
    "pe_finalizing_path e = Some target \<or> (pe_finalizing_path e = None \<and> fa_lstat a target = LstatMissing)"
    "fa_files a (path_parts (th_paths h) target) \<noteq> None"
    "\<exists>e'. bt_get (hx_puts s') k = Some e' \<and> pe_finalizing_path e' = None"
proof -
  obtain e where e: "bt_get (hx_puts s) k = Some e"
    using assms by (cases "bt_get (hx_puts s) k") (simp_all add: finalize_turn_def)
  let ?choice = "case pe_finalizing_path e of Some path \<Rightarrow> Ok path
    | None \<Rightarrow> choose_finalizing_path (th_paths h) (fa_lstat a) (pe_requested_target e) (fm_conflict_policy (pe_manifest e))"
  obtain target where t: "?choice = Ok target" and sel: "finalize_selected h a k e target s = (s', Retry)"
    using assms e by (cases ?choice) (auto simp: finalize_turn_def split: if_splits)
  let ?e = "e\<lparr>pe_finalizing_path := Some target\<rparr>"
  obtain s1 w where j: "journal h (fa_before a) (set_put k ?e s) = (s1, w)" by fastforce
  have rp: "rename_part h a k ?e target s1 = (s', Retry)"
    using sel j by (cases w) (simp_all add: finalize_selected_def)
  then obtain part where part: "pe_temp e = Some part" by (cases "pe_temp e") (simp_all add: rename_part_def)
  obtain s2 r where p: "persist_final_at h a part target (fm_conflict_policy (pe_manifest e)) (s1\<lparr>hx_files := fa_files a\<rparr>) = (s2, r)"
    by fastforce
  have f: "finish_rename h a k ?e (s2, r) = (s', Retry)" using rp part p by (simp add: rename_part_def)
  note F = finish_rename_Retry [OF f]
  have policy: "fm_conflict_policy (pe_manifest e) = Some RenameIfExists" using F(3) by simp
  obtain reply where reply: "r = Err (BeforeCommit reply)" "is_conflict reply" using F(2) by auto
  have "fa_files a (path_parts (th_paths h) target) \<noteq> None"
    using noclobber_conflict [of h a part target "s1\<lparr>hx_files := fa_files a\<rparr>" s2 reply] p reply policy
    by (simp add: persist_final_at_def)
  moreover have "pe_finalizing_path e = Some target \<or> (pe_finalizing_path e = None \<and> fa_lstat a target = LstatMissing)"
    using t policy first_free_missing [of "th_paths h" "fa_lstat a" "pe_requested_target e"]
    by (auto simp: choose_finalizing_path_def split: option.splits)
  ultimately show thesis using that [OF e] F(1) by simp
qed

text \<open>C20: Finalizing ends: when no other program puts a file at a path between the moment it is found
  free and the rename, the loop answers in its first turn, or in its second when a path chosen by an
  earlier finalize has been taken since.\<close>

theorem finalize_ends:
  assumes quiet: "\<forall>a \<in> {a, b}. \<forall>p. fa_lstat a p = LstatMissing \<longrightarrow> fa_files a (path_parts (th_paths h) p) = None"
  shows "snd (finalize h (a # b # rest) k s) \<noteq> None"
proof (cases "finalize_turn h a k s")
  case (Pair s1 u)
  show ?thesis
  proof (cases u)
    case (Answer reply)
    then show ?thesis using Pair by simp
  next
    case Retry
    obtain e where e: "bt_get (hx_puts s1) k = Some e" "pe_finalizing_path e = None"
      using finalize_turn_Retry [OF Pair [unfolded Retry]] by blast
    obtain s2 u2 where t: "finalize_turn h b k s1 = (s2, u2)" by fastforce
    have "u2 \<noteq> Retry"
    proof
      assume "u2 = Retry"
      then obtain e' target where "bt_get (hx_puts s1) k = Some e'"
        "pe_finalizing_path e' = Some target \<or> (pe_finalizing_path e' = None \<and> fa_lstat b target = LstatMissing)"
        "fa_files b (path_parts (th_paths h) target) \<noteq> None"
        using finalize_turn_Retry [of h b k s1 s2] t by blast
      then show False using e quiet by auto
    qed
    then show ?thesis using Pair Retry t by (cases u2) simp_all
  qed
qed


subsection \<open>Witnesses\<close>

definition toy_sha :: "bytes \<Rightarrow> bytes" where
  "toy_sha x = (if x = [] then [227, 176, 196, 66, 152, 252, 28, 20, 154, 251, 244, 200,
     153, 111, 185, 36, 39, 174, 65, 228, 100, 155, 147, 76, 164, 149, 153, 27,
     120, 82, 184, 85] else replicate 32 0)"

definition toy_dead_json :: transfer_json where
  "toy_dead_json = \<lparr>to_vec_pretty = \<lambda>_. Err (JsonError []), from_slice_header = \<lambda>_. Err (JsonError []),
     from_slice_envelope = \<lambda>_. Err (JsonError [])\<rparr>"

definition toy_host :: transfer_host where
  "toy_host = \<lparr>th_policy = \<lparr>all_filesystem = False, roots = [''/d''], max_result_bytes = 9, rp_timeout_ms = 9\<rparr>,
     th_scope = \<lparr>sc_controller = 1, sc_site = 2, sc_device = 3\<rparr>, th_can_get = True, th_can_put = True,
     th_durable = False, th_paths = unix_paths, th_sha = toy_sha, th_base64 = toy_b64, th_json = toy_dead_json\<rparr>"

lemma toy_host_ok: "transfer_host_ok toy_host"
proof -
  have "sha256_hex toy_sha [] = EMPTY_SHA256_HEX"
    by code_simp
  then show ?thesis
    by (simp add: transfer_host_ok_def toy_host_def toy_sha_def slot_faithful_def state_json_faithful_def
        toy_dead_json_def)
qed

definition toy_put :: "u64 \<Rightarrow> file_transfer_manifest" where
  "toy_put n = \<lparr>fm_version = 1, fm_transfer_id = 5, fm_controller_id = 1, fm_site_id = 2, fm_device_id = 3,
     fm_direction = ControllerToDevice, fm_device_path = ''/d/f'', fm_total_size = n, fm_chunk_size = 4096,
     fm_final_sha256 = sha256_hex toy_sha (replicate (unat n) 1), fm_conflict_policy = Some RenameIfExists\<rparr>"

definition toy_transfer_fs :: transfer_fs where
  "toy_transfer_fs = \<lparr>tf_host = \<lparr>fs_canonicalize = Some, fs_is_dir = \<lambda>_. Some True, fs_env_var = \<lambda>_. None\<rparr>,
     tf_lstat = \<lambda>_. LstatMissing, tf_read = \<lambda>_. SourceOpenFails, tf_seek_error = \<lambda>_. None,
     tf_part = \<lambda>_. PartAsIs\<rparr>"

definition toy_empty :: host_transfer where
  "toy_empty = \<lparr>hx_next_sequence = 0, hx_puts = [], hx_gets = [], hx_generation = 0, hx_slot_a = NoFile,
     hx_slot_b = NoFile, hx_parts = \<lambda>_. None, hx_files = \<lambda>_. None\<rparr>"

lemma toy_new: "transfer_run toy_host {tf_host toy_transfer_fs} True toy_empty"
proof (rule tr_new [of _ toy_empty])
  have "policy_validate (th_policy toy_host) = Ok ()"
    by (simp add: policy_validate_Ok) (simp add: policy_spec_def toy_host_def trim_def ascii_defs)
  then show "transfers_new toy_host toy_empty = Ok toy_empty"
    by (simp add: transfers_new_def) (simp add: toy_empty_def started_def)
qed (simp_all add: toy_host_def toy_empty_def no_journal_def)

lemma toy_put_ok: "n \<le> 1 \<Longrightarrow> manifest_ok (toy_put n)"
proof -
  have s: "is_sha256_hex (sha256_hex toy_sha x)" for x
    by (rule sha256_hex_ok) (simp add: toy_sha_def)
  have "chunk_size_ok 4096"
    by (simp add: chunk_size_ok_def is_power_of_two_def upt_rec)
  moreover have "sha256_hex toy_sha [] = EMPTY_SHA256_HEX"
    using toy_host_ok by (simp add: transfer_host_ok_def toy_host_def)
  ultimately show ?thesis
    using s by (simp add: manifest_ok_def toy_put_def device_path_ok_def trim_def ascii_defs)
qed

lemma toy_target: "prepare_put_target toy_host toy_transfer_fs (toy_put n) = Ok ''/d/f''"
  by (simp add: prepare_put_target_def toy_host_def toy_transfer_fs_def toy_put_def unix_paths_def
      unix_platform_def expand_target_path_def expand_target_path_with_home_def expand_shorthand_def
      strip_prefix_def str_starts_with_def is_absolute_def unix_file_name_def unix_parent_def
      unix_components_def unix_render_def ensure_allowed_parent_def put_target_free_def path_join_def bounds_simps
      code_def path_starts_with_def)


definition toy_descriptor :: "u64 \<Rightarrow> file_resume_descriptor" where
  "toy_descriptor n = \<lparr>fd_version = 1, fd_transfer_id = 5, fd_controller_id = 1, fd_site_id = 2, fd_device_id = 3,
     fd_direction = ControllerToDevice, fd_device_path = ''/d/f'', fd_total_size = n, fd_checkpoint_revision = 1,
     fd_confirmed_offset = 0, fd_confirmed_prefix_sha256 = EMPTY_SHA256_HEX,
     fd_final_sha256 = Some (fm_final_sha256 (toy_put n))\<rparr>"

definition toy_entry :: "u64 \<Rightarrow> put_entry" where
  "toy_entry n = new_put 1 (toy_put n) (toy_descriptor n) ''/d/f'' ''/d/p''"

definition toy_begun :: "u64 \<Rightarrow> host_transfer" where
  "toy_begun n = set_put 5 (toy_entry n)
     (toy_empty\<lparr>hx_next_sequence := 1, hx_parts := (\<lambda>_. None)(''/d/p'' \<mapsto> [])\<rparr>)"

lemma toy_initial: "n \<le> 1 \<Longrightarrow> initial_resume_descriptor (toy_put n) = Ok (toy_descriptor n)"
proof -
  assume n: "n \<le> 1"
  have "initial_resume_descriptor (toy_put n) = Ok (toy_descriptor n) \<longleftrightarrow> fd_ok (toy_descriptor n)"
    using toy_put_ok [OF n]
    by (auto simp: initial_resume_descriptor_def fd_new_def bind_r_Ok manifest_validate_Ok fd_validate_Ok Let_def
        toy_put_def toy_descriptor_def FILE_RESUME_DESCRIPTOR_VERSION_def)
  moreover obtain d where "initial_resume_descriptor (toy_put n) = Ok d" "fd_ok d"
    using initial_resume_descriptor_Ok [OF toy_put_ok [OF n]] by blast
  moreover have "d = toy_descriptor n" if "initial_resume_descriptor (toy_put n) = Ok d" for d
    using that by (auto simp: initial_resume_descriptor_def fd_new_def bind_r_Ok Let_def toy_put_def
        toy_descriptor_def FILE_RESUME_DESCRIPTOR_VERSION_def)
  ultimately show ?thesis by auto
qed

lemma toy_begun_run:
  assumes "n \<le> 1"
  shows "transfer_run toy_host {tf_host toy_transfer_fs} True (toy_begun n)"
proof -
  have m: "manifest_validate (toy_put n) = Ok ()" using toy_put_ok [OF assms] by (simp add: manifest_validate_Ok)
  have sc: "put_scope_ok toy_host (toy_put n)"
    by (simp add: put_scope_ok_def in_scope_def toy_put_def toy_host_def)
  have pr: "prune_completed toy_empty = toy_empty"
    by (subst prune_completed.simps) (simp add: transfer_count_def toy_empty_def bounds_simps)
  have j: "journal toy_host w s = (s, True)" for w s by (simp add: journal_def toy_host_def)
  have q: "saturating_add (hx_next_sequence toy_empty) 1 = 1" by (simp add: toy_empty_def saturating_add_def)
  have k: "fm_transfer_id (toy_put n) = 5" "put_known (toy_put n) toy_empty = None"
    "\<not> HARD_MAX_HOST_FILE_TRANSFERS \<le> transfer_count toy_empty" "hx_parts toy_empty = (\<lambda>_. None)"
    by (simp_all add: toy_put_def put_known_def toy_empty_def transfer_count_def bounds_simps)
  have "put_enter toy_host Written (toy_put n) (toy_descriptor n) ''/d/f'' ''/d/p'' toy_empty
      = (toy_begun n, put_status (toy_entry n))"
    using k by (simp add: put_enter_def pr j q Let_def) (simp add: toy_begun_def toy_entry_def)
  moreover have "utf8_valid ''/d/p''" by (simp add: code_def)
  moreover have "hx_parts toy_empty ''/d/p'' = None" by (simp add: toy_empty_def)
  ultimately show ?thesis
    using tr_put_begin [OF toy_new m sc singletonI toy_target toy_initial [OF assms], of "''/d/p''" Written] by simp
qed

lemma toy_begun_get [simp]: "bt_get (hx_puts (toy_begun n)) 5 = Some (toy_entry n)"
  by (simp add: toy_begun_def toy_empty_def)

definition toy_attempt :: finalize_attempt where
  "toy_attempt = \<lparr>fa_lstat = \<lambda>_. LstatMissing, fa_before = Written, fa_files = \<lambda>_. None,
     fa_replaced = LstatMissing, fa_rename = RenameDone, fa_sync = Synced, fa_after = Written\<rparr>"

lemma toy_put_finalized:
  "finalize toy_host [toy_attempt] 5 (toy_begun 0) =
     (fst (finalize toy_host [toy_attempt] 5 (toy_begun 0)), Some (put_status (completed_put ''/d/f'' (toy_entry 0))))"
proof -
  have j: "journal toy_host w s = (s, True)" for w s by (simp add: journal_def toy_host_def)
  have u: "utf8_valid ''/d/f''" by (simp add: code_def)
  have h: "fd_confirmed_prefix_sha256 (pe_descriptor (toy_entry 0)) = fm_final_sha256 (toy_put 0)"
    using toy_host_ok by (simp add: toy_entry_def new_put_def toy_descriptor_def toy_put_def transfer_host_ok_def toy_host_def)
  have e: "pe_phase (toy_entry 0) = ReadyToFinalize" "pe_manifest (toy_entry 0) = toy_put 0"
    "pe_finalizing_path (toy_entry 0) = None" "pe_requested_target (toy_entry 0) = ''/d/f''"
    "pe_temp (toy_entry 0) = Some ''/d/p''" "fm_conflict_policy (toy_put 0) = Some RenameIfExists"
    by (simp_all add: toy_entry_def new_put_def toy_put_def)
  have c: "choose_finalizing_path (th_paths toy_host) (fa_lstat toy_attempt) ''/d/f'' (Some RenameIfExists) = Ok ''/d/f''"
  proof -
    have "[0..<HARD_MAX_RENAME_ATTEMPTS + 1] = 0 # [Suc 0..<HARD_MAX_RENAME_ATTEMPTS + 1]"
      by (rule upt_conv_Cons) simp
    then show ?thesis by (simp add: choose_finalizing_path_def toy_attempt_def del: upt_Suc)
  qed
  have p: "hx_parts (toy_begun 0) ''/d/p'' = Some []" by (simp add: toy_begun_def)
  have f: "fa_rename toy_attempt = RenameDone" "fa_files toy_attempt = (\<lambda>_. None)" "fa_sync toy_attempt = Synced"
    by (simp_all add: toy_attempt_def)
  let ?e = "(toy_entry 0)\<lparr>pe_finalizing_path := Some ''/d/f''\<rparr>"
  let ?s = "set_put 5 ?e (toy_begun 0)"
  obtain s1 where 1: "persist_noclobber toy_host toy_attempt ''/d/p'' ''/d/f'' (?s\<lparr>hx_files := \<lambda>_. None\<rparr>) = (s1, Ok ''/d/f'')"
    using p by (simp add: persist_noclobber_def f commit_part_def finalize_synced_def)
  have 2: "\<exists>s2. finish_rename toy_host toy_attempt 5 ?e (s1, Ok ''/d/f'')
      = (s2, Answer (put_status (completed_put ''/d/f'' (toy_entry 0))))"
  proof -
    have c: "completed_put ''/d/f'' ?e = completed_put ''/d/f'' (toy_entry 0)" by (simp add: completed_put_def)
    have "pe_final_device_path (completed_put ''/d/f'' (toy_entry 0)) = Some ''/d/f''"
      using u by (simp add: completed_put_def)
    then show ?thesis by (simp add: finish_rename_def j c Let_def)
  qed
  have 3: "\<exists>s2. rename_part toy_host toy_attempt 5 ?e ''/d/f'' ?s
      = (s2, Answer (put_status (completed_put ''/d/f'' (toy_entry 0))))"
    using 1 2 e by (simp add: rename_part_def f persist_final_at_def)
  have "finalize_turn toy_host toy_attempt 5 (toy_begun 0) = rename_part toy_host toy_attempt 5 ?e ''/d/f'' ?s"
    by (simp add: finalize_turn_def h e c finalize_selected_def j Let_def)
  then show ?thesis using 3 by auto
qed

text \<open>An empty file is put.\<close>

lemma put_integrity_witness:
  "\<exists>path. hx_files (fst (finalize toy_host [toy_attempt] 5 (toy_begun 0))) path = Some (FileNode [])"
proof -
  have ph: "pe_phase (toy_entry 0) \<noteq> Completed" by (simp add: toy_entry_def new_put_def)
  have "\<exists>content path. hx_files (fst (finalize toy_host [toy_attempt] 5 (toy_begun 0)))
      (path_parts (th_paths toy_host) path) = Some (FileNode content) \<and> length content = unat (fm_total_size (toy_put 0))"
    using put_integrity [OF toy_host_ok toy_begun_run [of 0] toy_begun_get ph toy_put_finalized [unfolded put_status_def]]
    by (auto simp: toy_entry_def new_put_def)
  then show ?thesis by (auto simp: toy_put_def)
qed

lemma transfers_in_order_witness:
  "checkpoint_true toy_host (toy_begun 1) (toy_entry 1)"
proof -
  have "pe_phase (toy_entry 1) \<noteq> Completed" by (simp add: toy_entry_def new_put_def toy_put_def)
  then show ?thesis
    using transfers_in_order [OF toy_host_ok toy_begun_run [of 1]] toy_begun_get [of 1] by blast
qed

lemma transfer_replays_witness:
  "put_begin toy_host toy_transfer_fs None Written (toy_put 1) (toy_begun 1) = (toy_begun 1, put_status (toy_entry 1))"
proof -
  have "put_scope_ok toy_host (toy_put 1)" "fm_transfer_id (toy_put 1) = 5" "pe_manifest (toy_entry 1) = toy_put 1"
    by (simp_all add: put_scope_ok_def in_scope_def toy_put_def toy_host_def toy_entry_def new_put_def)
  then show ?thesis using transfer_replays [OF toy_begun_get [of 1], of "toy_put 1"] by simp
qed

lemma toy_private:
  "\<not> bad_private_path (th_paths toy_host) ''/d/f''" "\<not> bad_private_path (th_paths toy_host) ''/d/p''"
  by (simp_all add: toy_host_def bad_private_path_def unix_paths_def unix_platform_def is_absolute_def
      trim_def ascii_defs bounds_simps)

lemma toy_fields:
  "fd_transfer_id (toy_descriptor n) = fm_transfer_id (toy_put n)" "in_scope (th_scope toy_host) (toy_put n)"
  "fm_direction (toy_put n) = ControllerToDevice" "fd_device_path (toy_descriptor n) = fm_device_path (toy_put n)"
  "fd_total_size (toy_descriptor n) = fm_total_size (toy_put n)"
  "fd_final_sha256 (toy_descriptor n) = Some (fm_final_sha256 (toy_put n))"
  by (simp_all add: toy_descriptor_def in_scope_def toy_put_def toy_host_def)

lemma toy_durable:
  "durable_put_of (toy_entry 1) = \<lparr>dp_sequence = 1, dp_manifest = toy_put 1, dp_descriptor = toy_descriptor 1,
     dp_phase = Receiving, dp_requested_target = ''/d/f'', dp_part_path = Some ''/d/p'',
     dp_final_device_path = None, dp_finalizing_path = None\<rparr>"
proof -
  have u: "to_string_lossy ''/d/f'' = ''/d/f''" "to_string_lossy ''/d/p'' = ''/d/p''"
    by (rule to_string_lossy_valid, simp add: code_def)+
  show ?thesis
    by (simp add: durable_put_of_def toy_entry_def new_put_def u) (simp add: toy_put_def)
qed

lemma toy_durable_ok: "durable_put_ok (th_paths toy_host) (th_scope toy_host) (durable_put_of (toy_entry 1))"
proof -
  have "fd_ok (toy_descriptor 1)"
    using toy_initial [of 1] initial_resume_descriptor_Ok [OF toy_put_ok [of 1]] by simp
  then show ?thesis
    using toy_put_ok [of 1] toy_private toy_fields unfolding toy_durable by (simp add: durable_put_ok_def)
qed

lemma restart_keeps_confirmed_witness:
  "\<exists>e'. restore_active toy_host toy_transfer_fs (hx_parts (toy_begun 1)) (durable_put_of (toy_entry 1)) = Ok e'
     \<and> pe_phase e' = Receiving"
proof -
  let ?e = "toy_entry 1" and ?p = "durable_put_of (toy_entry 1)"
  note p = toy_durable
  have e: "pe_phase ?e = Receiving" "pe_temp ?e = Some ''/d/p''" "pe_manifest ?e = toy_put 1"
    "pe_descriptor ?e = toy_descriptor 1" "hx_parts (toy_begun 1) ''/d/p'' = Some (pe_prefix ?e)"
    by (simp_all add: toy_entry_def new_put_def toy_put_def toy_begun_def)
  note toy_durable_ok
  moreover have "same_parent (th_paths toy_host) ''/d/p'' ''/d/f''"
    by (simp add: same_parent_def toy_host_def unix_paths_def unix_platform_def path_parts_def unix_parent_def
        unix_components_def is_absolute_def unix_render_def)
  ultimately have "\<exists>e'. restore_active toy_host toy_transfer_fs (hx_parts (toy_begun 1)) ?p = Ok e' \<and> pe_phase e' = pe_phase ?e"
    using restart_keeps_confirmed [OF toy_host_ok toy_begun_run [of 1] toy_begun_get [of 1], of "''/d/p''" ?p
        toy_transfer_fs "''/d/f''"] e toy_target [of 1]
    by (auto simp: p toy_transfer_fs_def path_eq_def)
  then show ?thesis using e(1) by simp
qed

lemma upload_completes_witness:
  "\<exists>e' i. i \<le> 1 \<and> uploading toy_host [1] 5 e' (upload toy_host [1] i 5 (toy_begun 1)) \<and> pe_prefix e' = [1]"
proof -
  have u: "uploading toy_host [1] 5 (toy_entry 1) (toy_begun 1)"
    by (simp add: uploading_def) (simp add: toy_begun_def toy_entry_def new_put_def toy_descriptor_def toy_put_def toy_host_def)
  have b: "base64_ok (th_base64 toy_host)" using toy_b64_ok by (simp add: toy_host_def)
  have "length [1 :: u8] - unat (fd_confirmed_offset (pe_descriptor (toy_entry 1)))
      \<le> 1 * unat (fm_chunk_size (pe_manifest (toy_entry 1)))"
    by (simp add: toy_entry_def new_put_def toy_descriptor_def toy_put_def)
  from upload_completes [OF toy_host_ok b toy_begun_run [of 1] u this] show ?thesis by auto
qed

lemma finalize_ends_witness: "snd (finalize toy_host [toy_attempt, toy_attempt] 5 (toy_begun 0)) \<noteq> None"
  using finalize_ends [of toy_attempt toy_attempt toy_host "[]" 5 "toy_begun 0"] by (simp add: toy_attempt_def)


text \<open>A journal that reads as one snapshot, in slot B, and nothing else on the disk.\<close>

definition toy_snapshot :: transfer_snapshot where
  "toy_snapshot = \<lparr>sn_controller_id = 1, sn_site_id = 2, sn_device_id = 3, sn_generation = 1,
     sn_puts = [durable_put_of (toy_entry 1)], sn_gets = []\<rparr>"

definition toy_journal_host :: transfer_host where
  "toy_journal_host = toy_host\<lparr>th_durable := True,
     th_json := \<lparr>to_vec_pretty = \<lambda>_. Ok [], from_slice_header = \<lambda>_. Ok STATE_SCHEMA_VERSION,
       from_slice_envelope = \<lambda>_. Ok (envelope_new toy_snapshot)\<rparr>\<rparr>"

lemma toy_journal_loads:
  "load_transfers (th_paths toy_journal_host) (th_scope toy_journal_host) (th_json toy_journal_host) NoFile (File [])
     = Ok toy_snapshot"
proof -
  have "transfers_ok (th_paths toy_journal_host) (th_scope toy_journal_host) toy_snapshot"
    using toy_durable_ok
    by (simp add: transfers_ok_def toy_snapshot_def snapshot_ids_def toy_journal_host_def) (simp add: toy_host_def)
  then have v: "transfers_validate (th_paths toy_journal_host) (th_scope toy_journal_host) toy_snapshot = Ok ()"
    by (simp add: transfers_validate_Ok)
  have b: "slot_holds (transfers_validate (th_paths toy_journal_host) (th_scope toy_journal_host))
      (read_host_transfer_slot (th_json toy_journal_host) (File [])) toy_snapshot"
    using v by (simp add: slot_holds_def read_host_transfer_slot_def decode_state_json_def check_document_size_def
        toy_journal_host_def envelope_new_def)
  have "load_transfer_slots (th_paths toy_journal_host) (th_scope toy_journal_host) (th_json toy_journal_host)
      NoFile (File []) = Ok (Some toy_snapshot)"
    unfolding load_transfer_slots_def
    by (rule pick_one_b [OF b]) (simp add: slot_holds_def read_host_transfer_slot_def)
  then show ?thesis by (simp add: load_transfers_def)
qed

lemma interrupted_cancel_blocks_start_witness:
  "\<not> is_ok (snd (load_or_create_transfers toy_journal_host toy_transfer_fs Written
     (fst (transfer_cancel toy_journal_host (OpenFailed ''disk'') 5 ((toy_begun 1)\<lparr>hx_slot_b := File []\<rparr>)))))"
proof -
  let ?s = "(toy_begun 1)\<lparr>hx_slot_b := File []\<rparr>"
  have "hx_slot_a ?s = NoFile" by (simp add: toy_begun_def) (simp add: toy_empty_def)
  then have l: "load_transfers (th_paths toy_journal_host) (th_scope toy_journal_host) (th_json toy_journal_host)
      (hx_slot_a ?s) (hx_slot_b ?s) = Ok toy_snapshot" using toy_journal_loads by simp
  have e: "bt_get (hx_puts ?s) 5 = Some (toy_entry 1)" "pe_phase (toy_entry 1) \<noteq> Completed"
    "pe_temp (toy_entry 1) = Some ''/d/p''"
    by (simp_all add: toy_entry_def new_put_def toy_put_def)
  show ?thesis
    by (rule interrupted_cancel_blocks_start [OF l _ _ _ _ e, of "durable_put_of (toy_entry 1)"])
       (simp_all add: toy_snapshot_def toy_durable)
qed

end
