(* ===== verification/Client_Journal.thy ===== *)
theory Client_Journal
  imports Host_Transfer Remote_Hub
begin

section \<open>The controller's file-transfer journal (clew-runtime, transfer.rs)\<close>

text \<open>
  What a controller keeps of each file transfer, the snapshots it keeps them in over a restart with
  their validation, and the two slot files (slot A for even generations). The value of a transfer's
  cancel channel is part of its entry. Paths are as in \<open>transfer_paths\<close>.
\<close>

definition HARD_MAX_CONTROLLER_FILE_TRANSFERS :: nat where
  [bounds_simps]: "HARD_MAX_CONTROLLER_FILE_TRANSFERS = 16"
definition MAX_CONTROLLER_FILE_SOURCE_PATH_BYTES :: nat where
  [bounds_simps]: "MAX_CONTROLLER_FILE_SOURCE_PATH_BYTES = 4096"
definition MAX_CONTROLLER_FILE_DESTINATION_PATH_BYTES :: nat where
  [bounds_simps]: "MAX_CONTROLLER_FILE_DESTINATION_PATH_BYTES = 4096"
definition CONTROLLER_TRANSFER_STATE_MAX_ENTRIES :: nat where
  [bounds_simps]: "CONTROLLER_TRANSFER_STATE_MAX_ENTRIES = HARD_MAX_CONTROLLER_FILE_TRANSFERS"

subsection \<open>Transfers\<close>

datatype client_phase =
    CpPreparing | CpRunning | CpWaitingForReconnect | CpReadyToFinalize | CpCancelling
  | CpCompleted | CpFailed | CpCancelled

definition cp_terminal :: "client_phase \<Rightarrow> bool" where
  "cp_terminal p \<longleftrightarrow> p = CpCompleted \<or> p = CpFailed \<or> p = CpCancelled"

record file_put_info =
  fpi_transfer_id :: transfer_id
  fpi_device_id :: device_id
  fpi_source_path :: string
  fpi_device_path :: string
  fpi_phase :: client_phase
  fpi_chunk_size :: u32
  fpi_total_size :: "u64 option"
  fpi_final_sha256 :: "string option"
  fpi_confirmed_offset :: u64
  fpi_final_device_path :: "string option"
  fpi_error :: "string option"

record file_get_info =
  fgi_transfer_id :: transfer_id
  fgi_device_id :: device_id
  fgi_device_path :: string
  fgi_destination_path :: string
  fgi_phase :: client_phase
  fgi_chunk_size :: u32
  fgi_total_size :: "u64 option"
  fgi_final_sha256 :: "string option"
  fgi_confirmed_offset :: u64
  fgi_final_controller_path :: "string option"
  fgi_error :: "string option"

datatype file_transfer_info = InfoPut file_put_info | InfoGet file_get_info

fun info_transfer_id :: "file_transfer_info \<Rightarrow> transfer_id" where
  "info_transfer_id (InfoPut i) = fpi_transfer_id i"
| "info_transfer_id (InfoGet i) = fgi_transfer_id i"

fun info_phase :: "file_transfer_info \<Rightarrow> client_phase" where
  "info_phase (InfoPut i) = fpi_phase i"
| "info_phase (InfoGet i) = fgi_phase i"

record durable_get_state =
  gs_part_path :: string
  gs_manifest :: file_transfer_manifest

datatype client_entry =
    EntryPut file_put_info site_id file_conflict_policy bool
  | EntryGet file_get_info site_id file_conflict_policy "durable_get_state option" bool

fun entry_info :: "client_entry \<Rightarrow> file_transfer_info" where
  "entry_info (EntryPut i _ _ _) = InfoPut i"
| "entry_info (EntryGet i _ _ _ _) = InfoGet i"

fun entry_phase :: "client_entry \<Rightarrow> client_phase" where
  "entry_phase (EntryPut i _ _ _) = fpi_phase i"
| "entry_phase (EntryGet i _ _ _ _) = fgi_phase i"

text \<open>The value of the channel of \<^verbatim>\<open>cancel_sender\<close>, and sending \<open>true\<close> to it.\<close>

fun cancel_value :: "client_entry \<Rightarrow> bool" where
  "cancel_value (EntryPut _ _ _ c) = c"
| "cancel_value (EntryGet _ _ _ _ c) = c"

fun signal_cancel :: "client_entry \<Rightarrow> client_entry" where
  "signal_cancel (EntryPut i s p _) = EntryPut i s p True"
| "signal_cancel (EntryGet i s p d _) = EntryGet i s p d True"

fun mark_cancelling :: "client_entry \<Rightarrow> client_entry" where
  "mark_cancelling (EntryPut i s p c) = EntryPut (i\<lparr>fpi_phase := CpCancelling\<rparr>) s p c"
| "mark_cancelling (EntryGet i s p d c) = EntryGet (i\<lparr>fgi_phase := CpCancelling\<rparr>) s p d c"

record durable_transfer =
  dt_site_id :: site_id
  dt_conflict_policy :: file_conflict_policy
  dt_info :: file_transfer_info
  dt_get_state :: "durable_get_state option"

fun durable_record :: "client_entry \<Rightarrow> durable_transfer" where
  "durable_record (EntryPut i s p _) =
     \<lparr>dt_site_id = s, dt_conflict_policy = p, dt_info = InfoPut i, dt_get_state = None\<rparr>"
| "durable_record (EntryGet i s p d _) =
     \<lparr>dt_site_id = s, dt_conflict_policy = p, dt_info = InfoGet i, dt_get_state = d\<rparr>"

record client_snapshot =
  cn_controller_id :: controller_id
  cn_generation :: u64
  cn_transfers :: "durable_transfer list"

datatype client_error =
    CtStatePoisoned
  | CtCapacity
  | CtControllerMismatch
  | CtInvalidPersistedState string
  | CtStateGenerationConflict u64
  | CtStateGenerationOverflow
  | CtNotFound transfer_id
  | CtTransferIdConflict transfer_id
  | CtInvalidSourcePath
  | CtInvalidDevicePath
  | CtInvalidDestinationPath
  | CtDestinationConflict
  | CtInvalidChunkSize u32
  | CtInvalidSource
  | CtSourceTooLarge
  | CtInvalidLocalCheckpoint
  | CtInvalidHostManifest string
  | CtFinalHashMismatch
  | CtWorkerFailed
  | CtCancelled
  | CtInvalidHostStatus string
  | CtRemote string
  | CtUnexpectedReply
  | CtRemoteHub hub_error
  | CtProtocol file_transfer_error
  | CtResume file_resume_error
  | CtStateCodec state_codec_error
  | CtIo string

subsection \<open>Validation\<close>

definition check_device_path :: "string \<Rightarrow> (client_error, unit) result" where
  "check_device_path p =
     (if trim p = [] \<or> length p > MAX_FILE_RESUME_PATH_BYTES \<or> CHR 0x00 \<in> set p
      then Err CtInvalidDevicePath else Ok ())"

definition check_chunk_size :: "u32 \<Rightarrow> (client_error, unit) result" where
  "check_chunk_size c =
     (if c < MIN_FILE_CHUNK_BYTES \<or> c > MAX_FILE_CHUNK_BYTES \<or> \<not> is_power_of_two c
      then Err (CtInvalidChunkSize c) else Ok ())"

definition validate_start_inputs ::
    "transfer_paths \<Rightarrow> string \<Rightarrow> string \<Rightarrow> u32 \<Rightarrow> (client_error, unit) result" where
  "validate_start_inputs tp source device chunk =
     (if trim source = [] \<or> length source > MAX_CONTROLLER_FILE_SOURCE_PATH_BYTES
         \<or> CHR 0x00 \<in> set source \<or> \<not> pl_is_absolute (tp_platform tp) source
      then Err CtInvalidSourcePath
      else bind_r (check_device_path device) (\<lambda>_. check_chunk_size chunk))"

definition validate_get_start_inputs ::
    "transfer_paths \<Rightarrow> string \<Rightarrow> string \<Rightarrow> u32 \<Rightarrow> (client_error, unit) result" where
  "validate_get_start_inputs tp device destination chunk =
     bind_r (check_device_path device) (\<lambda>_.
       if trim destination = [] \<or> length destination > MAX_CONTROLLER_FILE_DESTINATION_PATH_BYTES
          \<or> CHR 0x00 \<in> set destination \<or> \<not> pl_is_absolute (tp_platform tp) destination
       then Err CtInvalidDestinationPath
       else check_chunk_size chunk)"

definition validate_persisted_progress ::
    "u64 option \<Rightarrow> string option \<Rightarrow> u64 \<Rightarrow> (client_error, unit) result" where
  "validate_persisted_progress size_known sha_known confirmed =
     (case (size_known, sha_known) of
        (None, None) \<Rightarrow>
          if confirmed = 0 then Ok ()
          else Err (CtInvalidPersistedState ''persisted transfer progress is incomplete or inconsistent'')
      | (Some n, Some sha) \<Rightarrow>
          if confirmed > n
          then Err (CtInvalidPersistedState ''confirmed offset exceeds persisted total size'')
          else if length sha \<noteq> 64 \<or> \<not> list_all (\<lambda>c. is_ascii_digit c \<or> in_range 97 102 c) sha
          then Err (CtInvalidPersistedState ''persisted final SHA-256 is not canonical lowercase hex'')
          else Ok ()
      | _ \<Rightarrow> Err (CtInvalidPersistedState ''persisted transfer progress is incomplete or inconsistent''))"

definition validate_get_manifest ::
    "file_transfer_manifest \<Rightarrow> controller_id \<Rightarrow> site_id \<Rightarrow> device_id \<Rightarrow> transfer_id \<Rightarrow> u32
     \<Rightarrow> (client_error, unit) result" where
  "validate_get_manifest m cid sid did tid chunk =
     bind_r (map_err CtProtocol (manifest_validate m)) (\<lambda>_.
       if fm_transfer_id m \<noteq> tid \<or> fm_controller_id m \<noteq> cid \<or> fm_site_id m \<noteq> sid
          \<or> fm_device_id m \<noteq> did \<or> fm_direction m \<noteq> DeviceToController
          \<or> fm_chunk_size m \<noteq> chunk \<or> fm_conflict_policy m \<noteq> None
       then Err (CtInvalidHostManifest ''device source manifest changed transfer scope'')
       else Ok ())"

definition validate_durable_get_state ::
    "transfer_paths \<Rightarrow> durable_get_state \<Rightarrow> controller_id \<Rightarrow> site_id \<Rightarrow> file_get_info
     \<Rightarrow> (client_error, unit) result" where
  "validate_durable_get_state tp gs cid sid i =
     (let p = gs_part_path gs; m = gs_manifest gs in
      if trim p = [] \<or> length p > MAX_CONTROLLER_FILE_DESTINATION_PATH_BYTES
         \<or> CHR 0x00 \<in> set p \<or> \<not> pl_is_absolute (tp_platform tp) p
      then Err (CtInvalidPersistedState ''Controller get part path is invalid'')
      else bind_r (validate_get_manifest m cid sid (fgi_device_id i) (fgi_transfer_id i) (fgi_chunk_size i))
        (\<lambda>_. if fgi_total_size i \<noteq> Some (fm_total_size m) \<or> fgi_final_sha256 i \<noteq> Some (fm_final_sha256 m)
             then Err (CtInvalidPersistedState
               ''Controller get journal manifest disagrees with public transfer progress'')
             else Ok ()))"

definition check_transfer ::
    "transfer_paths \<Rightarrow> controller_id \<Rightarrow> durable_transfer \<Rightarrow> transfer_id list
     \<Rightarrow> (client_error, transfer_id list) result" where
  "check_transfer tp cid r ids =
     (let tid = info_transfer_id (dt_info r) in
      if tid \<in> set ids
      then Err (CtInvalidPersistedState ''controller transfer journal contains duplicate TransferId'')
      else (case dt_info r of
          InfoPut i \<Rightarrow>
            if dt_get_state r \<noteq> None
            then Err (CtInvalidPersistedState
                   ''Controller-to-device transfer cannot carry get part state'')
            else bind_r (validate_start_inputs tp (fpi_source_path i) (fpi_device_path i) (fpi_chunk_size i))
              (\<lambda>_. bind_r (validate_persisted_progress (fpi_total_size i) (fpi_final_sha256 i)
                            (fpi_confirmed_offset i)) (\<lambda>_. Ok (tid # ids)))
        | InfoGet i \<Rightarrow>
            bind_r (validate_get_start_inputs tp (fgi_device_path i) (fgi_destination_path i) (fgi_chunk_size i))
              (\<lambda>_. bind_r (validate_persisted_progress (fgi_total_size i) (fgi_final_sha256 i)
                            (fgi_confirmed_offset i))
              (\<lambda>_. bind_r (case dt_get_state r of
                             None \<Rightarrow> Ok ()
                           | Some gs \<Rightarrow> validate_durable_get_state tp gs cid (dt_site_id r) i)
                (\<lambda>_. Ok (tid # ids))))))"

text \<open>\<open>cid\<close> is the snapshot's own controller, which the first check compares with the expected one.\<close>

definition client_validate ::
    "transfer_paths \<Rightarrow> controller_id \<Rightarrow> client_snapshot \<Rightarrow> (client_error, unit) result" where
  "client_validate tp cid s =
     (if cn_controller_id s \<noteq> cid then Err CtControllerMismatch
      else if length (cn_transfers s) > CONTROLLER_TRANSFER_STATE_MAX_ENTRIES
      then Err (CtInvalidPersistedState ''controller transfer journal exceeds the hard entry bound'')
      else bind_r (fold_r (check_transfer tp (cn_controller_id s)) (cn_transfers s) []) (\<lambda>_. Ok ()))"

subsection \<open>The slots\<close>

type_synonym client_json = "client_snapshot state_json"

definition read_client_slot :: "client_json \<Rightarrow> slot_file \<Rightarrow> (client_error, client_snapshot) slot_read" where
  "read_client_slot j f =
     (case f of
        NoFile \<Rightarrow> SlotMissing
      | StatFails e \<Rightarrow> SlotInvalid (CtIo e)
      | ReadFails n e \<Rightarrow> SlotInvalid (CtIo e)
      | File bs \<Rightarrow>
          if length bs > MAX_STATE_DOCUMENT_SIZE
          then SlotInvalid (CtInvalidPersistedState
                 ''controller transfer journal exceeds the state document hard bound'')
          else (case decode_state_json j bs of
                  Inl e \<Rightarrow> SlotInvalid (CtStateCodec e)
                | Inr s \<Rightarrow> SlotValid s))"

definition ct_errors :: "client_error slot_errors" where
  "ct_errors = \<lparr>io_error = CtIo, codec_error = CtStateCodec,
     too_large = (\<lambda>_. CtInvalidPersistedState
       ''controller transfer journal exceeds the state document hard bound'')\<rparr>"

definition write_client_slot ::
    "client_json \<Rightarrow> write_outcome \<Rightarrow> client_snapshot \<Rightarrow> slot_file \<Rightarrow> slot_file \<times> (client_error, unit) result" where
  "write_client_slot j w s old = write_slot ct_errors j w s old"

definition load_client_slots ::
    "transfer_paths \<Rightarrow> controller_id \<Rightarrow> client_json \<Rightarrow> slot_file \<Rightarrow> slot_file
     \<Rightarrow> (client_error, client_snapshot option) result" where
  "load_client_slots tp cid j a b =
     pick_slots CtStateGenerationConflict (CtInvalidPersistedState ''controller transfer journal has no valid slot'')
       cn_generation (client_validate tp cid) (read_client_slot j a) (read_client_slot j b)"

definition load_client ::
    "transfer_paths \<Rightarrow> controller_id \<Rightarrow> client_json \<Rightarrow> slot_file \<Rightarrow> slot_file
     \<Rightarrow> (client_error, client_snapshot) result" where
  "load_client tp cid j a b =
     bind_r (load_client_slots tp cid j a b) (\<lambda>s.
       Ok (case s of
             None \<Rightarrow> \<lparr>cn_controller_id = cid, cn_generation = 0, cn_transfers = []\<rparr>
           | Some s \<Rightarrow> s))"

lemma client_slot_holds:
  "slot_holds check (read_client_slot j f) s \<longleftrightarrow> slot_holds check (read_slot ct_errors j f) s"
  by (auto simp: slot_holds_def read_client_slot_def read_slot_def ct_errors_def
      split: slot_file.splits sum.splits)

interpretation ct: ab_journal cn_generation even_to_a
    "\<lambda>f. slot_holds (client_validate tp cid) (read_client_slot j f)"
    "slot_good j (client_validate tp cid)" "write_client_slot j" "load_client_slots tp cid j"
  unfolding load_client_slots_def [abs_def] write_client_slot_def [abs_def]
  by (rule ab_journal_reader) (rule even_to_a_alternates client_slot_holds)+

subsection \<open>Lemmas\<close>

text \<open>What validation means.\<close>

definition local_path_ok :: "transfer_paths \<Rightarrow> string \<Rightarrow> bool" where
  "local_path_ok tp p \<longleftrightarrow> trim p \<noteq> [] \<and> length p \<le> 4096 \<and> CHR 0x00 \<notin> set p
     \<and> pl_is_absolute (tp_platform tp) p"

fun progress_ok :: "u64 option \<Rightarrow> string option \<Rightarrow> u64 \<Rightarrow> bool" where
  "progress_ok None None n \<longleftrightarrow> n = 0"
| "progress_ok (Some t) (Some sha) n \<longleftrightarrow> n \<le> t \<and> is_sha256_hex sha"
| "progress_ok _ _ _ \<longleftrightarrow> False"

definition client_manifest_ok ::
    "file_transfer_manifest \<Rightarrow> controller_id \<Rightarrow> site_id \<Rightarrow> device_id \<Rightarrow> transfer_id \<Rightarrow> u32 \<Rightarrow> bool" where
  "client_manifest_ok m cid sid did tid chunk \<longleftrightarrow> manifest_ok m \<and> fm_transfer_id m = tid
     \<and> fm_controller_id m = cid \<and> fm_site_id m = sid \<and> fm_device_id m = did
     \<and> fm_direction m = DeviceToController \<and> fm_chunk_size m = chunk \<and> fm_conflict_policy m = None"

definition get_state_ok ::
    "transfer_paths \<Rightarrow> controller_id \<Rightarrow> site_id \<Rightarrow> file_get_info \<Rightarrow> durable_get_state \<Rightarrow> bool" where
  "get_state_ok tp cid sid i gs \<longleftrightarrow> local_path_ok tp (gs_part_path gs)
     \<and> client_manifest_ok (gs_manifest gs) cid sid (fgi_device_id i) (fgi_transfer_id i) (fgi_chunk_size i)
     \<and> fgi_total_size i = Some (fm_total_size (gs_manifest gs))
     \<and> fgi_final_sha256 i = Some (fm_final_sha256 (gs_manifest gs))"

fun entry_ok :: "transfer_paths \<Rightarrow> controller_id \<Rightarrow> client_entry \<Rightarrow> bool" where
  "entry_ok tp cid (EntryPut i s p c) \<longleftrightarrow>
     local_path_ok tp (fpi_source_path i) \<and> device_path_ok (fpi_device_path i)
     \<and> chunk_size_ok (fpi_chunk_size i)
     \<and> progress_ok (fpi_total_size i) (fpi_final_sha256 i) (fpi_confirmed_offset i)"
| "entry_ok tp cid (EntryGet i s p d c) \<longleftrightarrow>
     device_path_ok (fgi_device_path i) \<and> local_path_ok tp (fgi_destination_path i)
     \<and> chunk_size_ok (fgi_chunk_size i)
     \<and> progress_ok (fgi_total_size i) (fgi_final_sha256 i) (fgi_confirmed_offset i)
     \<and> (\<forall>gs. d = Some gs \<longrightarrow> get_state_ok tp cid s i gs)"

lemma check_device_path_Ok: "check_device_path p = Ok u \<longleftrightarrow> device_path_ok p"
  by (auto simp: check_device_path_def device_path_ok_def bounds_simps)

lemma check_chunk_size_Ok: "check_chunk_size c = Ok u \<longleftrightarrow> chunk_size_ok c"
  by (auto simp: check_chunk_size_def chunk_size_ok_def word_less_nat_alt bounds_simps)

lemma validate_start_inputs_Ok:
  "validate_start_inputs tp p d c = Ok u \<longleftrightarrow> local_path_ok tp p \<and> device_path_ok d \<and> chunk_size_ok c"
  by (auto simp: validate_start_inputs_def local_path_ok_def bind_r_Ok check_device_path_Ok
      check_chunk_size_Ok bounds_simps)

lemma validate_get_start_inputs_Ok:
  "validate_get_start_inputs tp d p c = Ok u \<longleftrightarrow> device_path_ok d \<and> local_path_ok tp p \<and> chunk_size_ok c"
  by (auto simp: validate_get_start_inputs_def local_path_ok_def bind_r_Ok check_device_path_Ok
      check_chunk_size_Ok bounds_simps)

lemma validate_persisted_progress_Ok:
  "validate_persisted_progress t sha n = Ok u \<longleftrightarrow> progress_ok t sha n"
  by (cases t; cases sha)
     (auto simp: validate_persisted_progress_def is_sha256_hex_def list_all_iff is_lower_hex_alt not_less)

lemma validate_get_manifest_Ok:
  "validate_get_manifest m cid sid did tid c = Ok u \<longleftrightarrow> client_manifest_ok m cid sid did tid c"
  by (auto simp: validate_get_manifest_def client_manifest_ok_def bind_r_Ok manifest_validate_Ok)

lemma validate_durable_get_state_Ok:
  "validate_durable_get_state tp gs cid sid i = Ok u \<longleftrightarrow> get_state_ok tp cid sid i gs"
  by (auto simp: validate_durable_get_state_def get_state_ok_def local_path_ok_def Let_def bind_r_Ok
      validate_get_manifest_Ok bounds_simps)

lemma check_transfer_entry:
  "check_transfer tp cid (durable_record e) ids = Ok ids' \<longleftrightarrow> entry_ok tp cid e
     \<and> info_transfer_id (entry_info e) \<notin> set ids \<and> ids' = info_transfer_id (entry_info e) # ids"
  by (cases e rule: durable_record.cases)
     (auto simp: check_transfer_def Let_def bind_r_Ok validate_start_inputs_Ok validate_get_start_inputs_Ok
        validate_persisted_progress_Ok validate_durable_get_state_Ok split: option.splits)

lemma fold_r_map: "fold_r f (map g xs) a = fold_r (\<lambda>x. f (g x)) xs a"
proof (induction xs arbitrary: a)
  case (Cons x xs)
  then show ?case by (cases "f (g x) a") simp_all
qed simp

lemma client_validate_records:
  "client_validate tp cid \<lparr>cn_controller_id = cid, cn_generation = g, cn_transfers = map durable_record es\<rparr> = Ok u
   \<longleftrightarrow> length es \<le> 16 \<and> (\<forall>e \<in> set es. entry_ok tp cid e)
       \<and> distinct (map (\<lambda>e. info_transfer_id (entry_info e)) es)"
proof -
  have f: "fold_r (check_transfer tp cid) (map durable_record es) [] = Ok ids \<longleftrightarrow>
      (\<forall>e \<in> set es. entry_ok tp cid e) \<and> distinct (map (\<lambda>e. info_transfer_id (entry_info e)) es)
      \<and> ids = rev (map (\<lambda>e. info_transfer_id (entry_info e)) es)" for ids
    unfolding fold_r_map
    by (subst fold_check_distinct [where ok = "entry_ok tp cid"], rule check_transfer_entry) simp
  show ?thesis by (auto simp: client_validate_def bind_r_Ok f bounds_simps)
qed

end
