(* ===== verification/Client_Transfer.thy ===== *)
theory Client_Transfer
  imports Client_Journal
begin

section \<open>The controller's file transfers (clew-runtime, transfer.rs)\<close>

text \<open>
  The manager that starts, cancels and restores transfers, and the two workers that carry them out
  against a host. A worker is a state machine: its state says what it is waiting for, an event is
  what it waited for, and a step is the code up to the next wait. Requests of the manager and the
  steps of all workers follow each other in any order. Connections, the file system and the journal
  writes answer through the events; part files and the files at canonical paths are in the state as
  the last operation left them. A hasher is the bytes it was fed. Poisoned locks, a manager dropped
  under its workers and a worker thread that panics are not modelled.
\<close>

record client_env =
  ke_paths :: transfer_paths
  ke_controller :: controller_id
  ke_durable :: bool
  ke_json :: client_json
  ke_sha :: "bytes \<Rightarrow> bytes"
  ke_base64 :: base64
  ke_show :: "client_error \<Rightarrow> string"
  ke_show_id :: "transfer_id \<Rightarrow> string"

record client_state =
  cx_entries :: "(transfer_id, client_entry) btree"
  cx_generation :: u64
  cx_slot_a :: slot_file
  cx_slot_b :: slot_file
  cx_parts :: "string list \<Rightarrow> bytes option"
  cx_files :: host_files

text \<open>The part file at a path, and a state with that part file changed.\<close>

definition part_at :: "client_env \<Rightarrow> string \<Rightarrow> client_state \<Rightarrow> bytes option" where
  "part_at k p s = cx_parts s (path_parts (ke_paths k) p)"

definition with_part :: "client_env \<Rightarrow> string \<Rightarrow> bytes option \<Rightarrow> client_state \<Rightarrow> client_state" where
  "with_part k p c s = s\<lparr>cx_parts := (cx_parts s)(path_parts (ke_paths k) p := c)\<rparr>"

subsection \<open>Changes of one entry\<close>

fun map_put :: "(file_put_info \<Rightarrow> file_put_info) \<Rightarrow> client_entry \<Rightarrow> client_entry" where
  "map_put f (EntryPut i s p c) = EntryPut (f i) s p c"
| "map_put f (EntryGet i s p d c) = EntryGet i s p d c"

fun map_get :: "(file_get_info \<Rightarrow> file_get_info) \<Rightarrow> client_entry \<Rightarrow> client_entry" where
  "map_get f (EntryPut i s p c) = EntryPut i s p c"
| "map_get f (EntryGet i s p d c) = EntryGet (f i) s p d c"

fun map_durable :: "durable_get_state option \<Rightarrow> client_entry \<Rightarrow> client_entry" where
  "map_durable d' (EntryPut i s p c) = EntryPut i s p c"
| "map_durable d' (EntryGet i s p d c) = EntryGet i s p d' c"

definition on_entry :: "transfer_id \<Rightarrow> (client_entry \<Rightarrow> client_entry) \<Rightarrow> client_state \<Rightarrow> client_state" where
  "on_entry tid f s = s\<lparr>cx_entries := bt_update tid f (cx_entries s)\<rparr>"

definition update_info :: "transfer_id \<Rightarrow> (file_put_info \<Rightarrow> file_put_info) \<Rightarrow> client_state \<Rightarrow> client_state" where
  "update_info tid f s = on_entry tid (map_put f) s"

definition update_get_info :: "transfer_id \<Rightarrow> (file_get_info \<Rightarrow> file_get_info) \<Rightarrow> client_state \<Rightarrow> client_state" where
  "update_get_info tid f s = on_entry tid (map_get f) s"

definition set_get_durable_state ::
    "transfer_id \<Rightarrow> durable_get_state option \<Rightarrow> client_state \<Rightarrow> client_state" where
  "set_get_durable_state tid d s = on_entry tid (map_durable d) s"

definition clear_get_durable_state :: "transfer_id \<Rightarrow> client_state \<Rightarrow> client_state" where
  "clear_get_durable_state tid s = set_get_durable_state tid None s"

text \<open>The last boundary of a character at or before an offset.\<close>

fun boundary_at :: "string \<Rightarrow> nat \<Rightarrow> nat" where
  "boundary_at s 0 = 0"
| "boundary_at s (Suc n) = (if is_char_boundary s (Suc n) then Suc n else boundary_at s n)"

definition truncate_error :: "string \<Rightarrow> string" where
  "truncate_error error =
     (if length error \<le> 2048 then error else take (boundary_at error 2048) error)"

definition set_failed :: "transfer_id \<Rightarrow> string \<Rightarrow> client_state \<Rightarrow> client_state" where
  "set_failed tid error s =
     update_info tid (\<lambda>i.
       if fpi_phase i = CpCancelling \<or> fpi_phase i = CpCancelled then i
       else i\<lparr>fpi_phase := CpFailed, fpi_error := Some (truncate_error error)\<rparr>) s"

definition set_get_failed :: "transfer_id \<Rightarrow> string \<Rightarrow> client_state \<Rightarrow> client_state" where
  "set_get_failed tid error s =
     update_get_info tid (\<lambda>i.
       if fgi_phase i = CpCancelling \<or> fgi_phase i = CpCancelled then i
       else i\<lparr>fgi_phase := CpFailed, fgi_error := Some (truncate_error error)\<rparr>) s"

definition record_journal_warning :: "transfer_id \<Rightarrow> string \<Rightarrow> client_state \<Rightarrow> client_state" where
  "record_journal_warning tid error s =
     (let warning = truncate_error (''transfer state journal persistence failed: '' @ error) in
      update_get_info tid (\<lambda>i. i\<lparr>fgi_error := Some warning\<rparr>)
        (update_info tid (\<lambda>i. i\<lparr>fpi_error := Some warning\<rparr>) s))"

definition update_status_info :: "transfer_id \<Rightarrow> file_transfer_status \<Rightarrow> client_state \<Rightarrow> client_state" where
  "update_status_info tid st s =
     update_info tid (\<lambda>i. i\<lparr>fpi_confirmed_offset := fd_confirmed_offset (fs_descriptor st),
       fpi_final_device_path := fs_final_device_path st\<rparr>) s"

definition current_get_info :: "transfer_id \<Rightarrow> client_state \<Rightarrow> (client_error, file_get_info) result" where
  "current_get_info tid s =
     (case bt_get (cx_entries s) tid of
        Some (EntryGet i _ _ _ _) \<Rightarrow> Ok i
      | _ \<Rightarrow> Err (CtNotFound tid))"

definition is_cancelled :: "transfer_id \<Rightarrow> client_state \<Rightarrow> bool" where
  "is_cancelled tid s = (case bt_get (cx_entries s) tid of None \<Rightarrow> False | Some e \<Rightarrow> cancel_value e)"

subsection \<open>The journal\<close>

definition client_snapshot_of :: "client_env \<Rightarrow> u64 \<Rightarrow> client_state \<Rightarrow> client_snapshot" where
  "client_snapshot_of k g s =
     \<lparr>cn_controller_id = ke_controller k, cn_generation = g,
      cn_transfers = map (durable_record \<circ> snd) (cx_entries s)\<rparr>"

definition client_store_persist ::
    "client_env \<Rightarrow> write_outcome \<Rightarrow> client_state \<Rightarrow> client_state \<times> (client_error, unit) result" where
  "client_store_persist k w s =
     (case checked_add (cx_generation s) 1 of
        None \<Rightarrow> (s, Err CtStateGenerationOverflow)
      | Some g \<Rightarrow>
          (let c = client_snapshot_of k g s in
           case client_validate (ke_paths k) (ke_controller k) c of
             Inl e \<Rightarrow> (s, Err e)
           | Inr _ \<Rightarrow>
               (let (f, r) = write_client_slot (ke_json k) w c
                      (if even_to_a g then cx_slot_a s else cx_slot_b s);
                    s' = (if even_to_a g then s\<lparr>cx_slot_a := f\<rparr> else s\<lparr>cx_slot_b := f\<rparr>) in
                case r of
                  Inl e \<Rightarrow> (s', Err e)
                | Inr _ \<Rightarrow> (s'\<lparr>cx_generation := g\<rparr>, Ok ()))))"

text \<open>\<^verbatim>\<open>persist_current\<close> and \<^verbatim>\<open>persist_manager_state\<close>: only a manager with a store writes.\<close>

definition client_persist ::
    "client_env \<Rightarrow> write_outcome \<Rightarrow> client_state \<Rightarrow> client_state \<times> (client_error, unit) result" where
  "client_persist k w s = (if ke_durable k then client_store_persist k w s else (s, Ok ()))"

subsection \<open>Requests of the manager\<close>

text \<open>Identifiers are drawn until one is free; \<open>None\<close> is a drawing that has not ended.\<close>

fun next_transfer_id :: "transfer_id list \<Rightarrow> client_state \<Rightarrow> transfer_id option" where
  "next_transfer_id [] s = None"
| "next_transfer_id (tid # drawn) s =
     (if bt_get (cx_entries s) tid \<noteq> None then next_transfer_id drawn s else Some tid)"

definition first_terminal :: "(transfer_id, client_entry) btree \<Rightarrow> transfer_id option" where
  "first_terminal t = map_option fst (List.find (\<lambda>(tid, e). cp_terminal (entry_phase e)) t)"

lemma first_terminal_Some:
  assumes "first_terminal t = Some tid"
  shows "bt_get t tid \<noteq> None"
proof -
  obtain x where "List.find (\<lambda>(tid, e). cp_terminal (entry_phase e)) t = Some x" "fst x = tid"
    using assms by (auto simp: first_terminal_def)
  then have "x \<in> set t" using find_Some_iff [of _ t x] by auto
  then show ?thesis using \<open>fst x = tid\<close> by (auto simp: bt_get_None)
qed

function prune_terminal :: "(transfer_id, client_entry) btree \<Rightarrow> (transfer_id, client_entry) btree" where
  "prune_terminal t =
     (if length t \<ge> HARD_MAX_CONTROLLER_FILE_TRANSFERS
      then (case first_terminal t of
              None \<Rightarrow> t
            | Some tid \<Rightarrow> prune_terminal (bt_remove tid t))
      else t)"
  by pat_completeness auto

termination prune_terminal
proof (relation "measure length")
  fix t tid
  assume "first_terminal t = Some tid"
  from first_terminal_Some [OF this] show "(bt_remove tid t, t) \<in> measure length"
    by (auto simp: length_bt_remove_less)
qed simp

declare prune_terminal.simps [simp del]

text \<open>The section that enters a transfer, and the journal write after it.\<close>

definition start_enter ::
    "transfer_id \<Rightarrow> client_entry \<Rightarrow> client_state \<Rightarrow> client_state \<times> (client_error, unit) result" where
  "start_enter tid e s =
     (let t = prune_terminal (cx_entries s); s1 = s\<lparr>cx_entries := t\<rparr> in
      if bt_get t tid \<noteq> None then (s1, Err (CtTransferIdConflict tid))
      else if length t \<ge> HARD_MAX_CONTROLLER_FILE_TRANSFERS then (s1, Err CtCapacity)
      else (s1\<lparr>cx_entries := bt_insert tid e t\<rparr>, Ok ()))"

definition client_start_commit ::
    "client_env \<Rightarrow> write_outcome \<Rightarrow> transfer_id \<Rightarrow> client_state \<Rightarrow> client_state \<times> (client_error, unit) result" where
  "client_start_commit k w tid s =
     (let (s1, r) = client_persist k w s in
      case r of
        Inl e \<Rightarrow> (s1\<lparr>cx_entries := bt_remove tid (cx_entries s1)\<rparr>, Err e)
      | Inr _ \<Rightarrow> (s1, Ok ()))"

definition start_entry ::
    "client_env \<Rightarrow> write_outcome \<Rightarrow> transfer_id \<Rightarrow> client_entry \<Rightarrow> client_state
     \<Rightarrow> client_state \<times> (client_error, unit) result" where
  "start_entry k w tid e s =
     (let (s1, r) = start_enter tid e s in
      case r of
        Inl e \<Rightarrow> (s1, Err e)
      | Inr _ \<Rightarrow> client_start_commit k w tid s1)"

definition new_put_info :: "transfer_id \<Rightarrow> device_id \<Rightarrow> string \<Rightarrow> string \<Rightarrow> u32 \<Rightarrow> file_put_info" where
  "new_put_info tid did source device chunk =
     \<lparr>fpi_transfer_id = tid, fpi_device_id = did, fpi_source_path = source, fpi_device_path = device,
      fpi_phase = CpPreparing, fpi_chunk_size = chunk, fpi_total_size = None, fpi_final_sha256 = None,
      fpi_confirmed_offset = 0, fpi_final_device_path = None, fpi_error = None\<rparr>"

definition new_get_info :: "transfer_id \<Rightarrow> device_id \<Rightarrow> string \<Rightarrow> string \<Rightarrow> u32 \<Rightarrow> file_get_info" where
  "new_get_info tid did device destination chunk =
     \<lparr>fgi_transfer_id = tid, fgi_device_id = did, fgi_device_path = device, fgi_destination_path = destination,
      fgi_phase = CpPreparing, fgi_chunk_size = chunk, fgi_total_size = None, fgi_final_sha256 = None,
      fgi_confirmed_offset = 0, fgi_final_controller_path = None, fgi_error = None\<rparr>"

definition start_put_with_transfer_id ::
    "client_env \<Rightarrow> write_outcome \<Rightarrow> transfer_id \<Rightarrow> device_id \<Rightarrow> site_id \<Rightarrow> string \<Rightarrow> string \<Rightarrow> u32
     \<Rightarrow> file_conflict_policy \<Rightarrow> client_state \<Rightarrow> client_state \<times> (client_error, file_put_info) result" where
  "start_put_with_transfer_id k w tid did sid source device chunk policy s =
     (case validate_start_inputs (ke_paths k) source device chunk of
        Inl e \<Rightarrow> (s, Err e)
      | Inr _ \<Rightarrow>
          (let i = new_put_info tid did source device chunk;
               (s1, r) = start_entry k w tid (EntryPut i sid policy False) s in
           (s1, bind_r r (\<lambda>_. Ok i))))"

definition start_get_with_transfer_id ::
    "client_env \<Rightarrow> write_outcome \<Rightarrow> transfer_id \<Rightarrow> device_id \<Rightarrow> site_id \<Rightarrow> string \<Rightarrow> string \<Rightarrow> u32
     \<Rightarrow> file_conflict_policy \<Rightarrow> client_state \<Rightarrow> client_state \<times> (client_error, file_get_info) result" where
  "start_get_with_transfer_id k w tid did sid device destination chunk policy s =
     (case validate_get_start_inputs (ke_paths k) device destination chunk of
        Inl e \<Rightarrow> (s, Err e)
      | Inr _ \<Rightarrow>
          (let i = new_get_info tid did device destination chunk;
               (s1, r) = start_entry k w tid (EntryGet i sid policy None False) s in
           (s1, bind_r r (\<lambda>_. Ok i))))"

definition start_put ::
    "client_env \<Rightarrow> write_outcome \<Rightarrow> transfer_id list \<Rightarrow> device_id \<Rightarrow> site_id \<Rightarrow> string \<Rightarrow> string \<Rightarrow> u32
     \<Rightarrow> file_conflict_policy \<Rightarrow> client_state \<Rightarrow> (client_state \<times> (client_error, file_put_info) result) option" where
  "start_put k w drawn did sid source device chunk policy s =
     map_option (\<lambda>tid. start_put_with_transfer_id k w tid did sid source device chunk policy s)
       (next_transfer_id drawn s)"

definition start_get ::
    "client_env \<Rightarrow> write_outcome \<Rightarrow> transfer_id list \<Rightarrow> device_id \<Rightarrow> site_id \<Rightarrow> string \<Rightarrow> string \<Rightarrow> u32
     \<Rightarrow> file_conflict_policy \<Rightarrow> client_state \<Rightarrow> (client_state \<times> (client_error, file_get_info) result) option" where
  "start_get k w drawn did sid device destination chunk policy s =
     map_option (\<lambda>tid. start_get_with_transfer_id k w tid did sid device destination chunk policy s)
       (next_transfer_id drawn s)"

definition client_status :: "transfer_id \<Rightarrow> client_state \<Rightarrow> (client_error, file_transfer_info) result" where
  "client_status tid s = ok_or (map_option entry_info (bt_get (cx_entries s) tid)) (CtNotFound tid)"

definition cancel_mark :: "client_entry \<Rightarrow> client_entry" where
  "cancel_mark e = (if cp_terminal (entry_phase e) then e else mark_cancelling e)"

definition cancel_signal :: "client_entry \<Rightarrow> client_entry" where
  "cancel_signal e = (if cp_terminal (entry_phase e) then e else signal_cancel e)"

definition client_cancel ::
    "client_env \<Rightarrow> write_outcome \<Rightarrow> transfer_id \<Rightarrow> client_state
     \<Rightarrow> client_state \<times> (client_error, file_transfer_info) result" where
  "client_cancel k w tid s =
     (case bt_get (cx_entries s) tid of
        None \<Rightarrow> (s, Err (CtNotFound tid))
      | Some e \<Rightarrow>
          (let (s1, r) = client_persist k w (on_entry tid cancel_mark s) in
           case r of
             Inl x \<Rightarrow> (s1, Err x)
           | Inr _ \<Rightarrow> (on_entry tid cancel_signal s1, Ok (entry_info (cancel_mark e)))))"

text \<open>\<^verbatim>\<open>Drop\<close> of the manager: without a store every worker is cancelled.\<close>

definition manager_drop :: "client_env \<Rightarrow> client_state \<Rightarrow> client_state" where
  "manager_drop k s =
     (if ke_durable k then s else s\<lparr>cx_entries := bt_map_values signal_cancel (cx_entries s)\<rparr>)"

subsection \<open>Starting again\<close>

record put_job =
  pj_transfer_id :: transfer_id
  pj_device_id :: device_id
  pj_site_id :: site_id
  pj_source_path :: string
  pj_device_path :: string
  pj_chunk_size :: u32
  pj_policy :: file_conflict_policy

record get_job =
  gj_transfer_id :: transfer_id
  gj_device_id :: device_id
  gj_site_id :: site_id
  gj_device_path :: string
  gj_destination_path :: string
  gj_chunk_size :: u32
  gj_policy :: file_conflict_policy

definition put_job_of :: "file_put_info \<Rightarrow> site_id \<Rightarrow> file_conflict_policy \<Rightarrow> put_job" where
  "put_job_of i sid p =
     \<lparr>pj_transfer_id = fpi_transfer_id i, pj_device_id = fpi_device_id i, pj_site_id = sid,
      pj_source_path = fpi_source_path i, pj_device_path = fpi_device_path i,
      pj_chunk_size = fpi_chunk_size i, pj_policy = p\<rparr>"

definition get_job_of :: "file_get_info \<Rightarrow> site_id \<Rightarrow> file_conflict_policy \<Rightarrow> get_job" where
  "get_job_of i sid p =
     \<lparr>gj_transfer_id = fgi_transfer_id i, gj_device_id = fgi_device_id i, gj_site_id = sid,
      gj_device_path = fgi_device_path i, gj_destination_path = fgi_destination_path i,
      gj_chunk_size = fgi_chunk_size i, gj_policy = p\<rparr>"

text \<open>The tasks a restart spawns; to cancel a transfer takes the identifiers of its job only.\<close>

datatype client_task =
    ResumePut put_job
  | ResumeGet get_job durable_get_state
  | CancelPut put_job
  | CancelGet get_job "string option"

definition restore_client_record :: "durable_transfer \<Rightarrow> client_entry \<times> client_task list" where
  "restore_client_record r =
     (let sid = dt_site_id r; p = dt_conflict_policy r in
      case dt_info r of
        InfoPut i \<Rightarrow>
          if fpi_phase i = CpCancelling
          then (EntryPut i sid p False, [CancelPut (put_job_of i sid p)])
          else if cp_terminal (fpi_phase i) then (EntryPut i sid p False, [])
          else (let i' = i\<lparr>fpi_phase := CpWaitingForReconnect, fpi_error := None\<rparr> in
                (EntryPut i' sid p False, [ResumePut (put_job_of i' sid p)]))
      | InfoGet i \<Rightarrow>
          (let d = dt_get_state r in
           if fgi_phase i = CpCancelling
           then (EntryGet i sid p d False,
                 [CancelGet (get_job_of i sid p) (map_option gs_part_path d)])
           else if cp_terminal (fgi_phase i) then (EntryGet i sid p d False, [])
           else (case d of
                   Some gs \<Rightarrow>
                     (let i' = i\<lparr>fgi_phase := CpWaitingForReconnect, fgi_error := None\<rparr> in
                      (EntryGet i' sid p d False, [ResumeGet (get_job_of i' sid p) gs]))
                 | None \<Rightarrow>
                     (EntryGet (i\<lparr>fgi_phase := CpFailed, fgi_error :=
                          Some ''Controller restart get resume awaits durable local part state''\<rparr>) sid p d False,
                      []))))"

definition restore_entries :: "durable_transfer list \<Rightarrow> (transfer_id, client_entry) btree" where
  "restore_entries rs =
     fold (\<lambda>r t. let e = fst (restore_client_record r) in bt_insert (info_transfer_id (entry_info e)) e t) rs []"

fun cancelled_parts :: "client_task list \<Rightarrow> string list" where
  "cancelled_parts [] = []"
| "cancelled_parts (CancelGet _ (Some p) # ts) = p # cancelled_parts ts"
| "cancelled_parts (_ # ts) = cancelled_parts ts"

text \<open>The part files of cancelled gets are removed; \<open>stuck\<close> are those that cannot be.\<close>

definition restore_client_snapshot ::
    "client_env \<Rightarrow> write_outcome \<Rightarrow> string list \<Rightarrow> client_snapshot \<Rightarrow> client_state
     \<Rightarrow> client_state \<times> (client_error, client_task list) result" where
  "restore_client_snapshot k w stuck c s =
     (case client_validate (ke_paths k) (ke_controller k) c of
        Inl e \<Rightarrow> (s, Err e)
      | Inr _ \<Rightarrow>
          (let tasks = concat (map (snd \<circ> restore_client_record) (cn_transfers c));
               gone = filter (\<lambda>p. p \<notin> set stuck) (cancelled_parts tasks);
               (s1, r) = client_persist k w (s\<lparr>cx_entries := restore_entries (cn_transfers c)\<rparr>) in
           case r of
             Inl e \<Rightarrow> (s1, Err e)
           | Inr _ \<Rightarrow>
               (fold (\<lambda>p. with_part k p None) gone s1, Ok tasks)))"

definition client_load_or_create ::
    "client_env \<Rightarrow> write_outcome \<Rightarrow> string list \<Rightarrow> client_state
     \<Rightarrow> client_state \<times> (client_error, client_task list) result" where
  "client_load_or_create k w stuck s =
     (case load_client (ke_paths k) (ke_controller k) (ke_json k) (cx_slot_a s) (cx_slot_b s) of
        Inl e \<Rightarrow> (s, Err e)
      | Inr c \<Rightarrow> restore_client_snapshot k w stuck c (s\<lparr>cx_entries := [], cx_generation := cn_generation c\<rparr>))"

end
