(* ===== verification/Client_Workers.thy ===== *)
theory Client_Workers
  imports Client_Transfer
begin

section \<open>The workers of the controller's file transfers (clew-runtime, transfer.rs)\<close>

text \<open>
  \<^verbatim>\<open>run_put_task\<close> and \<^verbatim>\<open>run_get_task\<close> with what \<^verbatim>\<open>spawn_put_worker\<close> and \<^verbatim>\<open>spawn_get_worker\<close> do
  after them. The states of a worker are the places where it waits; \<open>put_request\<close> and
  \<open>get_request\<close> say which request is on its way there. An event that a worker is not waiting for
  leaves everything as it is.
\<close>

subsection \<open>What a worker waits for\<close>

text \<open>A request over a session is answered, or the connection is lost; asking for a session or
  finding that it has gone may fail as well.\<close>

type_synonym session_answer = "(hub_error, file_transfer_reply) result"

text \<open>What reading the source of a put brings.\<close>

datatype local_source =
    SrcStatFails string | SrcNotRegular | SrcOpenFails string | SrcReadFails string | SrcBytes bytes

text \<open>What the local file system answers about a destination and its part file.\<close>

record client_fs =
  kf_canonicalize :: "string \<Rightarrow> (string, string) result"
  kf_lstat :: "string \<Rightarrow> lstat"
  kf_part :: part_stat

text \<open>How putting a finished file into place goes: what is at the target when it is looked at, what
  the rename answers, and whether the result is synced.\<close>

datatype place_outcome = PlaceAtTarget lstat "string option" "string option"

datatype client_event =
    EvSource local_source
  | EvAttempt "(hub_error, u64 \<times> session_answer) result"
  | EvSession "(hub_error, session_answer) result"
  | EvRead "(string, bytes) result"
  | EvSelectCancel
  | EvCleanup "(hub_error, file_transfer_reply) result option"
  | EvPersist write_outcome
  | EvGo
  | EvLocal client_fs
  | EvWrite chunk_write
  | EvPlace place_outcome
  | EvRemove "string option"

subsection \<open>What the host answers\<close>

definition status_of_reply :: "file_transfer_reply \<Rightarrow> (client_error, file_transfer_status) result" where
  "status_of_reply r =
     (case r of
        FtrStatus st \<Rightarrow> Ok st
      | FtrError e \<Rightarrow> Err (CtRemote (fte_message e))
      | _ \<Rightarrow> Err CtUnexpectedReply)"

definition manifest_of_reply :: "file_transfer_reply \<Rightarrow> (client_error, file_transfer_manifest) result" where
  "manifest_of_reply r =
     (case r of
        FtrManifest m \<Rightarrow> Ok m
      | FtrError e \<Rightarrow> Err (CtRemote (fte_message e))
      | _ \<Rightarrow> Err CtUnexpectedReply)"

definition chunk_of_reply :: "file_transfer_reply \<Rightarrow> (client_error, file_transfer_chunk) result" where
  "chunk_of_reply r =
     (case r of
        FtrChunk c \<Rightarrow> Ok c
      | FtrError e \<Rightarrow> Err (CtRemote (fte_message e))
      | _ \<Rightarrow> Err CtUnexpectedReply)"

text \<open>\<^verbatim>\<open>confirm_remote_cancel\<close>; \<open>None\<close> when its window has passed.\<close>

definition cancel_confirmed :: "(hub_error, file_transfer_reply) result option \<Rightarrow> bool" where
  "cancel_confirmed a =
     (case a of
        Some (Inr (FtrCancelled _)) \<Rightarrow> True
      | Some (Inr (FtrError e)) \<Rightarrow> fte_code e = FtcNotFound
      | _ \<Rightarrow> False)"

definition cancel_remote :: "transfer_id \<Rightarrow> bool \<Rightarrow> client_state \<Rightarrow> client_state" where
  "cancel_remote tid confirmed s =
     update_info tid (\<lambda>i. i\<lparr>fpi_phase := CpCancelled, fpi_error :=
       (if confirmed then None else Some ''remote part cleanup was not confirmed'')\<rparr>) s"

definition cancel_get_remote :: "transfer_id \<Rightarrow> bool \<Rightarrow> client_state \<Rightarrow> client_state" where
  "cancel_get_remote tid confirmed s =
     update_get_info tid (\<lambda>i. i\<lparr>fgi_phase := CpCancelled, fgi_error :=
       (if confirmed then None else Some ''remote source cleanup was not confirmed'')\<rparr>) s"

definition validate_status ::
    "file_transfer_manifest \<Rightarrow> file_resume_descriptor option \<Rightarrow> file_transfer_status
     \<Rightarrow> (client_error, unit) result" where
  "validate_status m previous st =
     bind_r (map_err CtProtocol (ft_status_validate st)) (\<lambda>_.
       let d = fs_descriptor st in
       if fd_transfer_id d \<noteq> fm_transfer_id m \<or> fd_controller_id d \<noteq> fm_controller_id m
          \<or> fd_site_id d \<noteq> fm_site_id m \<or> fd_device_id d \<noteq> fm_device_id m
          \<or> fd_direction d \<noteq> fm_direction m \<or> fd_device_path d \<noteq> fm_device_path m
          \<or> fd_total_size d \<noteq> fm_total_size m \<or> fd_final_sha256 d \<noteq> Some (fm_final_sha256 m)
       then Err (CtInvalidHostStatus ''Host status changed transfer scope'')
       else if fd_confirmed_offset d \<noteq> fm_total_size m
               \<and> fd_confirmed_offset d mod u64_of (fm_chunk_size m) \<noteq> 0
       then Err (CtInvalidHostStatus ''Host status offset is not on a deterministic chunk boundary'')
       else (case previous of
           None \<Rightarrow> Ok ()
         | Some p \<Rightarrow> if d \<noteq> p then map_err CtResume (validate_successor_of d p) else Ok ()))"

definition validate_recovered_status ::
    "file_transfer_manifest \<Rightarrow> file_resume_descriptor \<Rightarrow> file_transfer_status \<Rightarrow> (client_error, unit) result" where
  "validate_recovered_status m p st =
     bind_r (validate_status m None st) (\<lambda>_.
       let d = fs_descriptor st in
       if fd_confirmed_offset d < fd_confirmed_offset p
       then Err (CtInvalidHostStatus ''recovered Host offset regressed across process restart'')
       else if fd_confirmed_offset d = fd_confirmed_offset p
               \<and> fd_confirmed_prefix_sha256 d \<noteq> fd_confirmed_prefix_sha256 p
       then Err (CtInvalidHostStatus ''recovered Host prefix hash changed at the same offset'')
       else Ok ())"

subsection \<open>Puts\<close>

datatype put_pc =
    PcPrepare
  | PcBegin file_transfer_manifest
  | PcBeginStatus file_transfer_manifest u64
  | PcBeginAgain file_transfer_manifest u64
  | PcRead file_transfer_manifest u64 file_transfer_status
  | PcChunk file_transfer_manifest u64 file_transfer_status file_transfer_chunk
  | PcChunkStatus file_transfer_manifest u64 file_transfer_status file_transfer_chunk
  | PcChunkAgain file_transfer_manifest u64 file_transfer_status file_transfer_chunk
  | PcFinalize file_transfer_manifest u64 file_transfer_status
  | PcFinalizeStatus file_transfer_manifest u64 file_transfer_status
  | PcFinalizeAgain file_transfer_manifest u64
  | PcCancel
  | PcPersist
  | PcDone

text \<open>The request on its way: over a new session (later than the given one), or over that session.\<close>

datatype 'r outgoing = Anew "u64 option" 'r | Over u64 'r

fun put_request :: "put_pc \<Rightarrow> file_transfer_request outgoing option" where
  "put_request (PcBegin m) = Some (Anew None (PutBegin m))"
| "put_request (PcBeginStatus m g) = Some (Anew (Some g) (FtStatus (fm_transfer_id m)))"
| "put_request (PcBeginAgain m g) = Some (Over g (PutBegin m))"
| "put_request (PcChunk m g st c) = Some (Over g (PutChunk c))"
| "put_request (PcChunkStatus m g st c) = Some (Anew (Some g) (FtStatus (fm_transfer_id m)))"
| "put_request (PcChunkAgain m g st c) = Some (Over g (PutChunk c))"
| "put_request (PcFinalize m g st) = Some (Over g (FtFinalize (fm_transfer_id m)))"
| "put_request (PcFinalizeStatus m g st) = Some (Anew (Some g) (FtStatus (fm_transfer_id m)))"
| "put_request (PcFinalizeAgain m g) = Some (Over g (FtFinalize (fm_transfer_id m)))"
| "put_request _ = None"

text \<open>How \<^verbatim>\<open>spawn_put_worker\<close> takes the result of the task.\<close>

definition put_finish ::
    "client_env \<Rightarrow> put_job \<Rightarrow> (client_error, unit) result \<Rightarrow> client_state \<Rightarrow> put_pc \<times> client_state" where
  "put_finish k j r s =
     (case r of
        Inr _ \<Rightarrow> (PcPersist, s)
      | Inl e \<Rightarrow>
          if e = CtCancelled then (PcCancel, s)
          else (PcPersist, set_failed (pj_transfer_id j) (ke_show k e) s))"

definition prepare_source ::
    "client_env \<Rightarrow> local_source \<Rightarrow> (client_error, u64 \<times> string) result" where
  "prepare_source k src =
     (case src of
        SrcStatFails e \<Rightarrow> Err (CtIo e)
      | SrcNotRegular \<Rightarrow> Err CtInvalidSource
      | SrcOpenFails e \<Rightarrow> Err (CtIo e)
      | SrcReadFails e \<Rightarrow> Err (CtIo e)
      | SrcBytes bs \<Rightarrow>
          if length bs \<ge> 2 ^ 64 then Err CtSourceTooLarge
          else Ok (word_of_nat (length bs), sha256_hex (ke_sha k) bs))"

definition put_manifest :: "client_env \<Rightarrow> put_job \<Rightarrow> u64 \<Rightarrow> string \<Rightarrow> (client_error, file_transfer_manifest) result" where
  "put_manifest k j n sha =
     map_err CtProtocol (manifest_new (pj_transfer_id j) (ke_controller k) (pj_site_id j) (pj_device_id j)
       ControllerToDevice (pj_device_path j) n (pj_chunk_size j) sha (Some (pj_policy j)))"

definition expected_len :: "file_transfer_manifest \<Rightarrow> u64 \<Rightarrow> nat" where
  "expected_len m offset =
     unat (min (u64_of (fm_chunk_size m)) (saturating_sub (fm_total_size m) offset))"

text \<open>The end of \<^verbatim>\<open>run_put_task\<close>, after its loop and its finalizing request.\<close>

definition put_complete ::
    "client_env \<Rightarrow> put_job \<Rightarrow> file_transfer_manifest \<Rightarrow> file_transfer_status \<Rightarrow> client_state
     \<Rightarrow> put_pc \<times> client_state" where
  "put_complete k j m st s =
     (if fs_phase st \<noteq> Completed
      then put_finish k j (Err (CtInvalidHostStatus ''transfer ended without Completed status'')) s
      else case validate_status m None st of
        Inl e \<Rightarrow> put_finish k j (Err e) s
      | Inr _ \<Rightarrow>
          put_finish k j (Ok ())
            (update_info (pj_transfer_id j) (\<lambda>i. i\<lparr>fpi_phase := CpCompleted, fpi_error := None\<rparr>)
              (update_status_info (pj_transfer_id j) st s)))"

text \<open>The head of the loop.\<close>

definition put_loop ::
    "client_env \<Rightarrow> put_job \<Rightarrow> file_transfer_manifest \<Rightarrow> u64 \<Rightarrow> file_transfer_status \<Rightarrow> client_state
     \<Rightarrow> put_pc \<times> client_state" where
  "put_loop k j m g st s =
     (case fs_phase st of
        Receiving \<Rightarrow>
          if is_cancelled (pj_transfer_id j) s then (PcCancel, s) else (PcRead m g st, s)
      | ReadyToFinalize \<Rightarrow> (PcFinalize m g st, s)
      | Completed \<Rightarrow> put_complete k j m st s)"

definition put_begun ::
    "client_env \<Rightarrow> put_job \<Rightarrow> file_transfer_manifest \<Rightarrow> u64 \<Rightarrow> file_transfer_reply \<Rightarrow> client_state
     \<Rightarrow> put_pc \<times> client_state" where
  "put_begun k j m g reply s =
     (case bind_r (status_of_reply reply) (\<lambda>st. bind_r (validate_status m None st) (\<lambda>_. Ok st)) of
        Inl e \<Rightarrow> put_finish k j (Err e) s
      | Inr st \<Rightarrow> put_loop k j m g st (update_status_info (pj_transfer_id j) st s))"

text \<open>The end of the loop's body.\<close>

definition put_advance ::
    "client_env \<Rightarrow> put_job \<Rightarrow> file_transfer_manifest \<Rightarrow> u64 \<Rightarrow> file_transfer_status \<Rightarrow> client_state
     \<Rightarrow> put_pc \<times> client_state" where
  "put_advance k j m g st s =
     put_loop k j m g st
       (update_info (pj_transfer_id j) (\<lambda>i.
          if cp_terminal (fpi_phase i) then i
          else i\<lparr>fpi_phase := (if fs_phase st = ReadyToFinalize then CpReadyToFinalize else CpRunning)\<rparr>)
        (update_status_info (pj_transfer_id j) st s))"

definition put_awaits :: "put_job \<Rightarrow> client_state \<Rightarrow> client_state" where
  "put_awaits j s = update_info (pj_transfer_id j) (\<lambda>i. i\<lparr>fpi_phase := CpWaitingForReconnect\<rparr>) s"

text \<open>The acknowledgement of a chunk on the session it was sent over.\<close>

definition put_acknowledged ::
    "file_transfer_manifest \<Rightarrow> file_transfer_status \<Rightarrow> file_transfer_reply
     \<Rightarrow> (client_error, file_transfer_status) result" where
  "put_acknowledged m st reply =
     bind_r (status_of_reply reply) (\<lambda>next.
     bind_r (validate_status m (Some (fs_descriptor st)) next) (\<lambda>_.
       let offset = fd_confirmed_offset (fs_descriptor st) in
       if fd_confirmed_offset (fs_descriptor next)
          \<noteq> saturating_add offset (word_of_nat (expected_len m offset))
       then Err (CtInvalidHostStatus ''chunk acknowledgement did not advance by exactly one chunk'')
       else Ok next))"

text \<open>\<^verbatim>\<open>send_chunk_on_generation\<close> asks less of the acknowledgement.\<close>

definition put_resent ::
    "file_transfer_manifest \<Rightarrow> file_transfer_status \<Rightarrow> file_transfer_reply
     \<Rightarrow> (client_error, file_transfer_status) result" where
  "put_resent m st reply =
     bind_r (status_of_reply reply) (\<lambda>next.
     bind_r (validate_status m (Some (fs_descriptor st)) next) (\<lambda>_. Ok next))"

text \<open>Where a recovered status leaves the chunk: still to be sent, or arrived.\<close>

definition put_recovered ::
    "file_transfer_manifest \<Rightarrow> file_transfer_status \<Rightarrow> file_transfer_reply
     \<Rightarrow> (client_error, bool \<times> file_transfer_status) result" where
  "put_recovered m st reply =
     bind_r (status_of_reply reply) (\<lambda>recovered.
     bind_r (validate_recovered_status m (fs_descriptor st) recovered) (\<lambda>_.
       let offset = fd_confirmed_offset (fs_descriptor st);
           confirmed = fd_confirmed_offset (fs_descriptor recovered) in
       if confirmed = offset then Ok (True, recovered)
       else if confirmed = saturating_add offset (word_of_nat (expected_len m offset))
       then Ok (False, recovered)
       else Err (CtInvalidHostStatus ''recovered Host offset is not at this chunk boundary'')))"

definition put_refinalize ::
    "file_transfer_manifest \<Rightarrow> file_transfer_status \<Rightarrow> file_transfer_reply
     \<Rightarrow> (client_error, bool \<times> file_transfer_status) result" where
  "put_refinalize m st reply =
     bind_r (status_of_reply reply) (\<lambda>recovered.
     bind_r (validate_recovered_status m (fs_descriptor st) recovered) (\<lambda>_.
       if fs_phase recovered = Completed then Ok (False, recovered)
       else if fs_phase recovered = ReadyToFinalize then Ok (True, recovered)
       else Err (CtInvalidHostStatus ''Host regressed from ready-to-finalize after reconnect'')))"

text \<open>The steps, by what the worker waited for.\<close>

definition put_on_source ::
    "client_env \<Rightarrow> put_job \<Rightarrow> local_source \<Rightarrow> client_state \<Rightarrow> put_pc \<times> client_state" where
  "put_on_source k j src s =
     (case bind_r (prepare_source k src) (\<lambda>(n, sha).
             bind_r (put_manifest k j n sha) (\<lambda>m. Ok (n, sha, m))) of
        Inl e \<Rightarrow> put_finish k j (Err e) s
      | Inr (n, sha, m) \<Rightarrow>
          (let s1 = update_info (pj_transfer_id j) (\<lambda>i. i\<lparr>fpi_total_size := Some n,
                 fpi_final_sha256 := Some sha, fpi_phase := CpRunning\<rparr>) s in
           (if is_cancelled (pj_transfer_id j) s1 then PcCancel else PcBegin m, s1)))"

definition put_on_read ::
    "client_env \<Rightarrow> put_job \<Rightarrow> file_transfer_manifest \<Rightarrow> u64 \<Rightarrow> file_transfer_status
     \<Rightarrow> (string, bytes) result \<Rightarrow> client_state \<Rightarrow> put_pc \<times> client_state" where
  "put_on_read k j m g st r s =
     (let offset = fd_confirmed_offset (fs_descriptor st); len = expected_len m offset in
      case r of
        Inl e \<Rightarrow> put_finish k j (Err (CtIo e)) s
      | Inr bs \<Rightarrow>
          if len = 0
          then put_finish k j (Err (CtInvalidHostStatus ''Host reports Receiving at end of file'')) s
          else if length bs \<noteq> len then (PcRead m g st, s)
          else (case chunk_from_bytes (ke_sha k) (ke_base64 k) (pj_transfer_id j) offset bs of
              Inl e \<Rightarrow> put_finish k j (Err (CtProtocol e)) s
            | Inr c \<Rightarrow> (PcChunk m g st c, s)))"

definition put_on_result ::
    "client_env \<Rightarrow> put_job \<Rightarrow> (client_error, 'a) result \<Rightarrow> ('a \<Rightarrow> put_pc \<times> client_state) \<Rightarrow> client_state
     \<Rightarrow> put_pc \<times> client_state" where
  "put_on_result k j r f s = (case r of Inl e \<Rightarrow> put_finish k j (Err e) s | Inr x \<Rightarrow> f x)"

text \<open>Answers over a session the worker has.\<close>

definition put_on_session ::
    "client_env \<Rightarrow> put_job \<Rightarrow> put_pc \<Rightarrow> session_answer \<Rightarrow> client_state \<Rightarrow> put_pc \<times> client_state" where
  "put_on_session k j pc a s =
     (case pc of
        PcBeginAgain m g \<Rightarrow>
          put_on_result k j (map_err CtRemoteHub a) (\<lambda>reply. put_begun k j m g reply s) s
      | PcChunk m g st c \<Rightarrow>
          (case a of
             Inl _ \<Rightarrow> (PcChunkStatus m g st c, put_awaits j s)
           | Inr reply \<Rightarrow>
               put_on_result k j (put_acknowledged m st reply) (\<lambda>next. put_advance k j m g next s) s)
      | PcChunkAgain m g st c \<Rightarrow>
          put_on_result k j (bind_r (map_err CtRemoteHub a) (put_resent m st))
            (\<lambda>next. put_advance k j m g next s) s
      | PcFinalize m g st \<Rightarrow>
          (case a of
             Inl _ \<Rightarrow> (PcFinalizeStatus m g st, put_awaits j s)
           | Inr reply \<Rightarrow>
               put_on_result k j (put_resent m st reply) (\<lambda>next. put_complete k j m next s) s)
      | PcFinalizeAgain m g \<Rightarrow>
          put_on_result k j (bind_r (map_err CtRemoteHub a) status_of_reply)
            (\<lambda>next. put_complete k j m next s) s
      | _ \<Rightarrow> (pc, s))"

text \<open>Answers over a session \<open>g\<close> the hub found.\<close>

definition put_on_attempt ::
    "client_env \<Rightarrow> put_job \<Rightarrow> put_pc \<Rightarrow> u64 \<Rightarrow> session_answer \<Rightarrow> client_state \<Rightarrow> put_pc \<times> client_state" where
  "put_on_attempt k j pc g a s =
     (case pc of
        PcBegin m \<Rightarrow>
          (case a of
             Inl _ \<Rightarrow> (PcBeginStatus m g, put_awaits j s)
           | Inr reply \<Rightarrow> put_begun k j m g reply s)
      | PcBeginStatus m _ \<Rightarrow>
          (case a of
             Inl _ \<Rightarrow> (PcBeginStatus m g, s)
           | Inr reply \<Rightarrow>
               if (case reply of FtrError e \<Rightarrow> fte_code e = FtcNotFound | _ \<Rightarrow> False)
               then (PcBeginAgain m g, s)
               else put_begun k j m g reply s)
      | PcChunkStatus m _ st c \<Rightarrow>
          (case a of
             Inl _ \<Rightarrow> (PcChunkStatus m g st c, s)
           | Inr reply \<Rightarrow>
               put_on_result k j (put_recovered m st reply)
                 (\<lambda>(again, recovered).
                    if again then (PcChunkAgain m g recovered c, s) else put_advance k j m g recovered s) s)
      | PcFinalizeStatus m _ st \<Rightarrow>
          (case a of
             Inl _ \<Rightarrow> (PcFinalizeStatus m g st, s)
           | Inr reply \<Rightarrow>
               put_on_result k j (put_refinalize m st reply)
                 (\<lambda>(again, recovered).
                    if again then (PcFinalizeAgain m g, s) else put_complete k j m recovered s) s)
      | _ \<Rightarrow> (pc, s))"

fun put_over_session :: "put_pc \<Rightarrow> bool" where
  "put_over_session (PcBeginAgain _ _) = True"
| "put_over_session (PcChunk _ _ _ _) = True"
| "put_over_session (PcChunkAgain _ _ _ _) = True"
| "put_over_session (PcFinalize _ _ _) = True"
| "put_over_session (PcFinalizeAgain _ _) = True"
| "put_over_session _ = False"

fun put_attempting :: "put_pc \<Rightarrow> bool" where
  "put_attempting (PcBegin _) = True"
| "put_attempting (PcBeginStatus _ _) = True"
| "put_attempting (PcChunkStatus _ _ _ _) = True"
| "put_attempting (PcFinalizeStatus _ _ _) = True"
| "put_attempting _ = False"

definition put_step ::
    "client_env \<Rightarrow> put_job \<Rightarrow> client_event \<Rightarrow> put_pc \<times> client_state \<Rightarrow> put_pc \<times> client_state" where
  "put_step k j ev ps =
     (let (pc, s) = ps in
      case ev of
        EvSource src \<Rightarrow> if pc = PcPrepare then put_on_source k j src s else ps
      | EvRead r \<Rightarrow> (case pc of PcRead m g st \<Rightarrow> put_on_read k j m g st r s | _ \<Rightarrow> ps)
      | EvSession a \<Rightarrow>
          if put_over_session pc
          then put_on_result k j (map_err CtRemoteHub a) (\<lambda>a. put_on_session k j pc a s) s else ps
      | EvAttempt a \<Rightarrow>
          if put_attempting pc
          then put_on_result k j (map_err CtRemoteHub a) (\<lambda>(g, a). put_on_attempt k j pc g a s) s else ps
      | EvSelectCancel \<Rightarrow>
          if is_cancelled (pj_transfer_id j) s \<and> (pc = PcPrepare \<or> put_attempting pc)
          then put_finish k j (Err CtCancelled) s else ps
      | EvCleanup a \<Rightarrow>
          if pc = PcCancel then (PcPersist, cancel_remote (pj_transfer_id j) (cancel_confirmed a) s) else ps
      | EvPersist w \<Rightarrow>
          if pc = PcPersist
          then (let (s1, r) = client_persist k w s in
                (PcDone, case r of
                           Inl e \<Rightarrow> record_journal_warning (pj_transfer_id j) (ke_show k e) s1
                         | Inr _ \<Rightarrow> s1))
          else ps
      | _ \<Rightarrow> ps)"

end
