(* ===== verification/Client_Get.thy ===== *)
theory Client_Get
  imports Client_Workers
begin

section \<open>Downloads (clew-runtime, transfer.rs)\<close>

text \<open>
  \<^verbatim>\<open>run_get_task\<close>: the worker asks the host for the manifest of a device file, receives its chunks
  into a part file beside the destination, and renames that file into place when it has every byte
  and the manifest's SHA-256. A part file recorded in the journal is taken up again after a restart.
\<close>

subsection \<open>Destinations and part files\<close>

definition part_name :: "client_env \<Rightarrow> transfer_id \<Rightarrow> string" where
  "part_name k tid = ''.clew-'' @ ke_show_id k tid @ ''.part''"

text \<open>The part file and the target of a destination. A path ends in a normal component when it has a
  file name.\<close>

definition prepare_destination_paths ::
    "client_env \<Rightarrow> client_fs \<Rightarrow> string \<Rightarrow> file_conflict_policy \<Rightarrow> transfer_id
     \<Rightarrow> (client_error, string \<times> string) result" where
  "prepare_destination_paths k fs requested policy tid =
     (let tp = ke_paths k; pl = tp_platform tp in
      if \<not> pl_is_absolute pl requested
         \<or> length (to_string_lossy requested) > MAX_CONTROLLER_FILE_DESTINATION_PATH_BYTES
      then Err CtInvalidDestinationPath
      else bind_r (ok_or (tp_file_name tp requested) CtInvalidDestinationPath) (\<lambda>file_name.
           bind_r (ok_or (tp_parent tp requested) CtInvalidDestinationPath) (\<lambda>parent.
           bind_r (map_err CtIo (kf_canonicalize fs parent)) (\<lambda>parent.
             let target = pl_join pl parent file_name; part = pl_join pl parent (part_name k tid) in
             if (case kf_lstat fs target of
                   LstatNode n \<Rightarrow> n = SymlinkNode \<or> n = DirNode \<or> policy = FailIfExists
                 | _ \<Rightarrow> False)
             then Err CtDestinationConflict
             else if length (to_string_lossy part) > MAX_CONTROLLER_FILE_DESTINATION_PATH_BYTES
             then Err CtInvalidDestinationPath
             else Ok (part, target)))))"

text \<open>A part file with what is known of it; its bytes are what the hasher was fed.\<close>

record get_part =
  gp_path :: string
  gp_target :: string
  gp_descriptor :: file_resume_descriptor
  gp_prefix :: bytes

text \<open>The descriptor of a part file that holds some bytes already.\<close>

definition part_descriptor ::
    "client_env \<Rightarrow> file_transfer_manifest \<Rightarrow> bytes \<Rightarrow> (client_error, file_resume_descriptor) result" where
  "part_descriptor k m content =
     (let n = (word_of_nat (length content) :: u64) in
      bind_r (map_err CtProtocol (initial_resume_descriptor m)) (\<lambda>d.
        if n > 0
        then (let d' = d\<lparr>fd_checkpoint_revision :=
                           saturating_add 1 (div_ceil n (u64_of (fm_chunk_size m))),
                         fd_confirmed_offset := n,
                         fd_confirmed_prefix_sha256 := sha256_hex (ke_sha k) content\<rparr> in
              bind_r (map_err CtResume (fd_validate d')) (\<lambda>_. Ok d'))
        else Ok d))"

text \<open>The part file is created, empty, when it is not there and may be; what is wrong with it
  otherwise is in \<open>kf_part\<close>.\<close>

definition open_part ::
    "client_env \<Rightarrow> client_fs \<Rightarrow> string \<Rightarrow> bool \<Rightarrow> client_state \<Rightarrow> client_state \<times> (client_error, bytes) result" where
  "open_part k fs path create_if_missing s =
     (case kf_part fs of
        PartStatFails e \<Rightarrow> (s, Err (CtIo e))
      | PartNotRegular \<Rightarrow> (s, Err CtInvalidLocalCheckpoint)
      | PartOpenFails e \<Rightarrow>
          (s, Err (if part_at k path s = None \<and> \<not> create_if_missing then CtInvalidLocalCheckpoint else CtIo e))
      | _ \<Rightarrow>
          (case part_at k path s of
             Some content \<Rightarrow> (s, Ok content)
           | None \<Rightarrow>
               if create_if_missing then (with_part k path (Some []) s, Ok [])
               else (s, Err CtInvalidLocalCheckpoint)))"

definition check_part ::
    "client_env \<Rightarrow> client_fs \<Rightarrow> string \<Rightarrow> string \<Rightarrow> file_transfer_manifest \<Rightarrow> u64 \<Rightarrow> bytes
     \<Rightarrow> (client_error, get_part) result" where
  "check_part k fs path target m persisted content =
     (if length content > unat (fm_total_size m)
         \<or> length content \<noteq> unat (fm_total_size m) \<and> length content mod unat (fm_chunk_size m) \<noteq> 0
         \<or> unat persisted > length content
      then Err CtInvalidLocalCheckpoint
      else (case kf_part fs of
          PartReadFails e \<Rightarrow> Err (CtIo e)
        | PartShort \<Rightarrow> Err CtInvalidLocalCheckpoint
        | PartSeekFails e \<Rightarrow> Err (CtIo e)
        | _ \<Rightarrow> bind_r (part_descriptor k m content) (\<lambda>d.
            Ok \<lparr>gp_path = path, gp_target = target, gp_descriptor = d, gp_prefix = content\<rparr>)))"

definition open_or_create_part ::
    "client_env \<Rightarrow> client_fs \<Rightarrow> string \<Rightarrow> string \<Rightarrow> file_transfer_manifest \<Rightarrow> u64 \<Rightarrow> bool \<Rightarrow> client_state
     \<Rightarrow> client_state \<times> (client_error, get_part) result" where
  "open_or_create_part k fs path target m persisted create_if_missing s =
     (let (s1, r) = open_part k fs path create_if_missing s in
      (s1, bind_r r (check_part k fs path target m persisted)))"

definition recover_part ::
    "client_env \<Rightarrow> client_fs \<Rightarrow> get_job \<Rightarrow> durable_get_state \<Rightarrow> u64 \<Rightarrow> client_state
     \<Rightarrow> client_state \<times> (client_error, get_part) result" where
  "recover_part k fs j gs persisted s =
     (case prepare_destination_paths k fs (gj_destination_path j) (gj_policy j) (gj_transfer_id j) of
        Inl e \<Rightarrow> (s, Err e)
      | Inr (part, target) \<Rightarrow>
          if \<not> path_eq (ke_paths k) (gs_part_path gs) part
          then (s, Err (CtInvalidPersistedState ''Controller get part path changed across restart''))
          else open_or_create_part k fs part target (gs_manifest gs) persisted (persisted = 0) s)"

text \<open>\<^verbatim>\<open>write_controller_durable_chunk\<close>: only at the end of the file.\<close>

definition write_part_chunk ::
    "client_env \<Rightarrow> chunk_write \<Rightarrow> string \<Rightarrow> u64 \<Rightarrow> bytes \<Rightarrow> client_state \<Rightarrow> client_state \<times> (client_error, unit) result" where
  "write_part_chunk k w path offset bs s =
     (let content = (case part_at k path s of None \<Rightarrow> [] | Some x \<Rightarrow> x);
          wrote = (\<lambda>x. with_part k path (Some (write_at (unat offset) x content)) s) in
      if w = ChunkStatFails then (s, Err (CtIo ''metadata''))
      else if length content \<noteq> unat offset then (s, Err CtInvalidLocalCheckpoint)
      else (case w of
          ChunkTorn n \<Rightarrow> (wrote (take n bs), Err (CtIo ''write''))
        | ChunkSyncFails \<Rightarrow> (wrote bs, Err (CtIo ''sync''))
        | ChunkWritten \<Rightarrow> (wrote bs, Ok ())
        | _ \<Rightarrow> (s, Err (CtIo ''seek''))))"

definition controller_rename_candidate :: "client_env \<Rightarrow> string \<Rightarrow> nat \<Rightarrow> string option" where
  "controller_rename_candidate k path attempt =
     (let tp = ke_paths k in
      case tp_parent tp path of
        None \<Rightarrow> None
      | Some parent \<Rightarrow>
          (case tp_file_name tp path of
             None \<Rightarrow> None
           | Some file_name \<Rightarrow>
               if \<not> utf8_valid file_name then None
               else (let renamed = pl_join (tp_platform tp) parent
                           (file_name @ ''.clew-'' @ show_decimal attempt) in
                     if length (to_string_lossy renamed) \<le> MAX_CONTROLLER_FILE_DESTINATION_PATH_BYTES
                     then Some renamed else None)))"

definition with_file :: "client_env \<Rightarrow> string \<Rightarrow> bytes \<Rightarrow> client_state \<Rightarrow> client_state" where
  "with_file k p c s = s\<lparr>cx_files := (cx_files s)(path_parts (ke_paths k) p \<mapsto> FileNode c)\<rparr>"

text \<open>A rename that does not replace; the part file stays when it fails, until it is dropped.\<close>

definition place_noclobber ::
    "client_env \<Rightarrow> string option \<Rightarrow> string \<Rightarrow> string \<Rightarrow> client_state \<Rightarrow> client_state \<times> (io_kind, unit) result" where
  "place_noclobber k fails part target s =
     (case (fails, part_at k part s) of
        (Some e, _) \<Rightarrow> (s, Err (IoOther e))
      | (None, None) \<Rightarrow> (s, Err IoNotFound)
      | (None, Some content) \<Rightarrow>
          if cx_files s (path_parts (ke_paths k) target) \<noteq> None then (s, Err IoAlreadyExists)
          else (with_file k target content (with_part k part None s), Ok ()))"

definition place_replacing ::
    "client_env \<Rightarrow> string option \<Rightarrow> string \<Rightarrow> string \<Rightarrow> client_state \<Rightarrow> client_state \<times> (io_kind, unit) result" where
  "place_replacing k fails part target s =
     (case (fails, part_at k part s) of
        (Some e, _) \<Rightarrow> (s, Err (IoOther e))
      | (None, None) \<Rightarrow> (s, Err IoNotFound)
      | (None, Some content) \<Rightarrow>
          (with_file k target content (with_part k part None s), Ok ()))"

text \<open>\<^verbatim>\<open>finalize_controller_file\<close>.\<close>

definition place_synced :: "string option \<Rightarrow> string \<Rightarrow> (client_error, string) result" where
  "place_synced unsynced path = (case unsynced of None \<Rightarrow> Ok path | Some e \<Rightarrow> Err (CtIo e))"

definition io_text :: "io_kind \<Rightarrow> string" where
  "io_text e = (case e of IoNotFound \<Rightarrow> ''not found'' | IoAlreadyExists \<Rightarrow> ''already exists'' | IoOther x \<Rightarrow> x)"

text \<open>The attempts of a renaming put into place; \<open>left\<close> counts those that remain of 101.\<close>

fun place_renaming ::
    "client_env \<Rightarrow> string option \<Rightarrow> string option \<Rightarrow> string \<Rightarrow> string \<Rightarrow> nat \<Rightarrow> nat \<Rightarrow> string \<Rightarrow> client_state
     \<Rightarrow> client_state \<times> (client_error, string) result" where
  "place_renaming k fails unsynced part target attempt 0 path s = (s, Err CtDestinationConflict)"
| "place_renaming k fails unsynced part target attempt (Suc left) path s =
     (case place_noclobber k fails part path s of
        (s1, Inr _) \<Rightarrow> (s1, place_synced unsynced path)
      | (s1, Inl IoAlreadyExists) \<Rightarrow>
          (case controller_rename_candidate k target (attempt + 1) of
             None \<Rightarrow> (s1, Err CtDestinationConflict)
           | Some next \<Rightarrow> place_renaming k fails unsynced part target (attempt + 1) left next s1)
      | (s1, Inl e) \<Rightarrow> (s1, Err (CtIo (io_text e))))"

text \<open>\<^verbatim>\<open>persist_controller_destination\<close>; the temporary file is removed when it was not put into place.\<close>

definition persist_destination ::
    "client_env \<Rightarrow> place_outcome \<Rightarrow> string \<Rightarrow> string \<Rightarrow> file_conflict_policy \<Rightarrow> client_state
     \<Rightarrow> client_state \<times> (client_error, string) result" where
  "persist_destination k w part target policy s =
     (case w of
        PlaceAtTarget seen fails unsynced \<Rightarrow>
          (let (s1, r) =
             (case policy of
                FailIfExists \<Rightarrow>
                  (case place_noclobber k fails part target s of
                     (s1, Inr _) \<Rightarrow> (s1, place_synced unsynced target)
                   | (s1, Inl IoAlreadyExists) \<Rightarrow> (s1, Err CtDestinationConflict)
                   | (s1, Inl e) \<Rightarrow> (s1, Err (CtIo (io_text e))))
              | ReplaceExisting \<Rightarrow>
                  if seen = LstatNode SymlinkNode \<or> seen = LstatNode DirNode
                  then (s, Err CtDestinationConflict)
                  else (case place_replacing k fails part target s of
                      (s1, Inr _) \<Rightarrow> (s1, place_synced unsynced target)
                    | (s1, Inl e) \<Rightarrow> (s1, Err (CtIo (io_text e))))
              | RenameIfExists \<Rightarrow> place_renaming k fails unsynced part target 0 101 target s) in
           (with_part k part None s1, r)))"

subsection \<open>The worker\<close>

datatype get_pc =
    GcStart "durable_get_state option"
  | GcRecover durable_get_state
  | GcResumeJournal durable_get_state get_part
  | GcResumeBegin durable_get_state get_part "u64 option"
  | GcBegin "u64 option"
  | GcPrepare u64 file_transfer_manifest
  | GcBound u64 file_transfer_manifest string string
  | GcJournal u64 file_transfer_manifest string string
  | GcCreate u64 file_transfer_manifest string string
  | GcChunk u64 file_transfer_manifest get_part
  | GcChunkBegin u64 file_transfer_manifest get_part
  | GcChunkAgain u64 file_transfer_manifest get_part
  | GcWrite u64 file_transfer_manifest get_part bytes
  | GcPlace file_transfer_manifest get_part
  | GcConfirm
  | GcCleanup client_error
  | GcCancelRemote
  | GcFailRemote
  | GcPersist
  | GcDone

definition get_begin_request :: "get_job \<Rightarrow> file_transfer_request" where
  "get_begin_request j = GetBegin (gj_transfer_id j) (gj_device_path j) (gj_chunk_size j)"

definition get_chunk_request :: "get_job \<Rightarrow> get_part \<Rightarrow> file_transfer_request" where
  "get_chunk_request j gp = GetChunk (gj_transfer_id j) (fd_confirmed_offset (gp_descriptor gp))"

fun get_request :: "get_job \<Rightarrow> get_pc \<Rightarrow> file_transfer_request outgoing option" where
  "get_request j (GcResumeBegin d gp g) = Some (Anew g (get_begin_request j))"
| "get_request j (GcBegin g) = Some (Anew g (get_begin_request j))"
| "get_request j (GcChunk g m gp) = Some (Over g (get_chunk_request j gp))"
| "get_request j (GcChunkBegin g m gp) = Some (Anew (Some g) (get_begin_request j))"
| "get_request j (GcChunkAgain g m gp) = Some (Over g (get_chunk_request j gp))"
| "get_request j GcConfirm = Some (Anew None (FtCancel (gj_transfer_id j)))"
| "get_request j GcCancelRemote = Some (Anew None (FtCancel (gj_transfer_id j)))"
| "get_request j GcFailRemote = Some (Anew None (FtCancel (gj_transfer_id j)))"
| "get_request j _ = None"

text \<open>How \<^verbatim>\<open>spawn_get_worker\<close> takes an error of the task: the part file goes first.\<close>

definition get_on_result ::
    "(client_error, 'a) result \<Rightarrow> ('a \<Rightarrow> get_pc \<times> client_state) \<Rightarrow> client_state \<Rightarrow> get_pc \<times> client_state" where
  "get_on_result r f s = (case r of Inl e \<Rightarrow> (GcCleanup e, s) | Inr x \<Rightarrow> f x)"

definition cleanup_get_local_part ::
    "client_env \<Rightarrow> string option \<Rightarrow> transfer_id \<Rightarrow> client_state \<Rightarrow> client_state" where
  "cleanup_get_local_part k fails tid s =
     (case bt_get (cx_entries s) tid of
        Some (EntryGet _ _ _ (Some gs) _) \<Rightarrow>
          (case fails of
             None \<Rightarrow> with_part k (gs_part_path gs) None s
           | Some e \<Rightarrow>
               record_journal_warning tid (''Controller get part cleanup failed: '' @ e) s)
      | _ \<Rightarrow> s)"

definition get_clean ::
    "client_env \<Rightarrow> get_job \<Rightarrow> client_error \<Rightarrow> string option \<Rightarrow> client_state \<Rightarrow> get_pc \<times> client_state" where
  "get_clean k j e fails s =
     (let s1 = cleanup_get_local_part k fails (gj_transfer_id j) s in
      if e = CtCancelled then (GcCancelRemote, s1)
      else (GcFailRemote, set_get_failed (gj_transfer_id j) (ke_show k e) s1))"

text \<open>The head of the loop, and what follows it.\<close>

definition get_loop ::
    "client_env \<Rightarrow> get_job \<Rightarrow> u64 \<Rightarrow> file_transfer_manifest \<Rightarrow> get_part \<Rightarrow> client_state
     \<Rightarrow> get_pc \<times> client_state" where
  "get_loop k j g m gp s =
     (if fd_confirmed_offset (gp_descriptor gp) < fm_total_size m
      then (if is_cancelled (gj_transfer_id j) s then (GcCleanup CtCancelled, s) else (GcChunk g m gp, s))
      else if sha256_hex (ke_sha k) (gp_prefix gp) \<noteq> fm_final_sha256 m
              \<or> fd_confirmed_prefix_sha256 (gp_descriptor gp) \<noteq> fm_final_sha256 m
      then (GcCleanup CtFinalHashMismatch, s)
      else (GcPlace m gp, s))"

definition get_on_start ::
    "client_env \<Rightarrow> get_job \<Rightarrow> durable_get_state option \<Rightarrow> client_state \<Rightarrow> get_pc \<times> client_state" where
  "get_on_start k j d s =
     (if is_cancelled (gj_transfer_id j) s then (GcCleanup CtCancelled, s)
      else case d of
        None \<Rightarrow> (GcBegin None, s)
      | Some gs \<Rightarrow>
          get_on_result (bind_r (current_get_info (gj_transfer_id j) s)
              (validate_durable_get_state (ke_paths k) gs (ke_controller k) (gj_site_id j)))
            (\<lambda>_. (GcRecover gs, s)) s)"

text \<open>\<open>info\<close> was read before the part file is opened; only the worker changes its offset.\<close>

definition get_on_recover ::
    "client_env \<Rightarrow> get_job \<Rightarrow> durable_get_state \<Rightarrow> client_fs \<Rightarrow> client_state \<Rightarrow> get_pc \<times> client_state" where
  "get_on_recover k j gs fs s =
     get_on_result (current_get_info (gj_transfer_id j) s) (\<lambda>i.
       let (s1, r) = recover_part k fs j gs (fgi_confirmed_offset i) s in
       get_on_result r (\<lambda>gp.
         (GcResumeJournal gs gp,
          update_get_info (gj_transfer_id j) (\<lambda>i.
            i\<lparr>fgi_confirmed_offset := fd_confirmed_offset (gp_descriptor gp),
              fgi_phase := CpWaitingForReconnect, fgi_error := None\<rparr>) s1)) s1) s"

definition get_waiting :: "get_job \<Rightarrow> client_state \<Rightarrow> client_state" where
  "get_waiting j s = update_get_info (gj_transfer_id j) (\<lambda>i. i\<lparr>fgi_phase := CpWaitingForReconnect\<rparr>) s"

definition get_running :: "get_job \<Rightarrow> client_state \<Rightarrow> client_state" where
  "get_running j s = update_get_info (gj_transfer_id j) (\<lambda>i. i\<lparr>fgi_phase := CpRunning\<rparr>) s"

definition get_on_prepare ::
    "client_env \<Rightarrow> get_job \<Rightarrow> u64 \<Rightarrow> file_transfer_manifest \<Rightarrow> client_fs \<Rightarrow> client_state
     \<Rightarrow> get_pc \<times> client_state" where
  "get_on_prepare k j g m fs s =
     get_on_result (prepare_destination_paths k fs (gj_destination_path j) (gj_policy j) (gj_transfer_id j))
       (\<lambda>(part, target).
          if \<not> utf8_valid part then (GcCleanup CtInvalidDestinationPath, s)
          else (GcBound g m part target,
                set_get_durable_state (gj_transfer_id j)
                  (Some \<lparr>gs_part_path = part, gs_manifest = m\<rparr>) s)) s"

definition get_on_bound ::
    "get_job \<Rightarrow> u64 \<Rightarrow> file_transfer_manifest \<Rightarrow> string \<Rightarrow> string \<Rightarrow> client_state \<Rightarrow> get_pc \<times> client_state" where
  "get_on_bound j g m part target s =
     (GcJournal g m part target,
      update_get_info (gj_transfer_id j) (\<lambda>i. i\<lparr>fgi_total_size := Some (fm_total_size m),
        fgi_final_sha256 := Some (fm_final_sha256 m), fgi_phase := CpRunning\<rparr>) s)"

definition get_on_create ::
    "client_env \<Rightarrow> get_job \<Rightarrow> u64 \<Rightarrow> file_transfer_manifest \<Rightarrow> string \<Rightarrow> string \<Rightarrow> client_fs \<Rightarrow> client_state
     \<Rightarrow> get_pc \<times> client_state" where
  "get_on_create k j g m part target fs s =
     (let (s1, r) = open_or_create_part k fs part target m 0 True s in
      get_on_result r (\<lambda>gp. get_loop k j g m gp s1) s1)"

text \<open>A chunk the host sent: at the asked offset, of this manifest, and of the expected length.\<close>

definition get_chunk_bytes ::
    "client_env \<Rightarrow> file_transfer_manifest \<Rightarrow> get_part \<Rightarrow> file_transfer_reply \<Rightarrow> (client_error, bytes) result" where
  "get_chunk_bytes k m gp reply =
     (let offset = fd_confirmed_offset (gp_descriptor gp) in
      bind_r (chunk_of_reply reply) (\<lambda>c.
        if fc_offset c \<noteq> offset
        then Err (CtInvalidHostManifest ''device source chunk offset changed'')
        else bind_r (map_err CtProtocol (manifest_validate_chunk (ke_sha k) (ke_base64 k) m c)) (\<lambda>_.
             bind_r (map_err CtProtocol (chunk_decode_bytes (ke_sha k) (ke_base64 k) c)) (\<lambda>bs.
               if length bs \<noteq> expected_len m offset
               then Err (CtInvalidHostManifest ''device source chunk length changed'')
               else Ok bs))))"

definition next_part :: "client_env \<Rightarrow> get_part \<Rightarrow> bytes \<Rightarrow> get_part" where
  "next_part k gp bs =
     (let prefix = gp_prefix gp @ bs; d = gp_descriptor gp in
      gp\<lparr>gp_prefix := prefix,
         gp_descriptor := next_descriptor d
           (saturating_add (fd_confirmed_offset d) (word_of_nat (length bs)))
           (sha256_hex (ke_sha k) prefix)\<rparr>)"

definition get_on_write ::
    "client_env \<Rightarrow> get_job \<Rightarrow> u64 \<Rightarrow> file_transfer_manifest \<Rightarrow> get_part \<Rightarrow> bytes \<Rightarrow> chunk_write \<Rightarrow> client_state
     \<Rightarrow> get_pc \<times> client_state" where
  "get_on_write k j g m gp bs w s =
     (let (s1, r) = write_part_chunk k w (gp_path gp) (fd_confirmed_offset (gp_descriptor gp)) bs s;
          gp' = next_part k gp bs in
      get_on_result (bind_r r (\<lambda>_. map_err CtResume (fd_validate (gp_descriptor gp')))) (\<lambda>_.
        get_loop k j g m gp'
          (update_get_info (gj_transfer_id j) (\<lambda>i.
             i\<lparr>fgi_confirmed_offset := fd_confirmed_offset (gp_descriptor gp'),
               fgi_phase := CpRunning\<rparr>) s1)) s1)"

definition get_on_place ::
    "client_env \<Rightarrow> get_job \<Rightarrow> file_transfer_manifest \<Rightarrow> get_part \<Rightarrow> place_outcome \<Rightarrow> client_state
     \<Rightarrow> get_pc \<times> client_state" where
  "get_on_place k j m gp w s =
     (let (s1, r) = persist_destination k w (gp_path gp) (gp_target gp) (gj_policy j) s in
      get_on_result (bind_r r (\<lambda>path. if utf8_valid path then Ok path else Err CtInvalidDestinationPath))
        (\<lambda>path.
          (GcConfirm,
           clear_get_durable_state (gj_transfer_id j)
             (update_get_info (gj_transfer_id j) (\<lambda>i.
                i\<lparr>fgi_phase := CpCompleted, fgi_confirmed_offset := fm_total_size m,
                  fgi_final_controller_path := Some path, fgi_error := None\<rparr>) s1))) s1)"

text \<open>Answers to a request for the manifest: another attempt follows a lost connection.\<close>

definition get_on_attempt ::
    "client_env \<Rightarrow> get_job \<Rightarrow> get_pc \<Rightarrow> u64 \<Rightarrow> session_answer \<Rightarrow> client_state \<Rightarrow> get_pc \<times> client_state" where
  "get_on_attempt k j pc g a s =
     (case pc of
        GcResumeBegin gs gp _ \<Rightarrow>
          (case a of
             Inl _ \<Rightarrow> (GcResumeBegin gs gp (Some g), get_waiting j s)
           | Inr reply \<Rightarrow>
               get_on_result (manifest_of_reply reply) (\<lambda>m.
                 if m \<noteq> gs_manifest gs
                 then (GcCleanup (CtInvalidHostManifest
                         ''device source manifest changed across Controller restart''), s)
                 else get_loop k j g m (gp\<lparr>gp_path := gs_part_path gs\<rparr>) (get_running j s)) s)
      | GcBegin _ \<Rightarrow>
          (case a of
             Inl _ \<Rightarrow> (GcBegin (Some g), get_waiting j s)
           | Inr reply \<Rightarrow>
               get_on_result (bind_r (manifest_of_reply reply) (\<lambda>m.
                   bind_r (validate_get_manifest m (ke_controller k) (gj_site_id j) (gj_device_id j)
                             (gj_transfer_id j) (gj_chunk_size j)) (\<lambda>_. Ok m)))
                 (\<lambda>m. (GcPrepare g m, s)) s)
      | GcChunkBegin _ m gp \<Rightarrow>
          (case a of
             Inl _ \<Rightarrow> (GcChunkBegin g m gp, get_waiting j s)
           | Inr reply \<Rightarrow>
               get_on_result (manifest_of_reply reply) (\<lambda>m'.
                 if m' \<noteq> m
                 then (GcCleanup (CtInvalidHostManifest ''device source manifest changed after reconnect''), s)
                 else (GcChunkAgain g m gp, s)) s)
      | _ \<Rightarrow> (pc, s))"

definition get_on_session ::
    "client_env \<Rightarrow> get_job \<Rightarrow> get_pc \<Rightarrow> session_answer \<Rightarrow> client_state \<Rightarrow> get_pc \<times> client_state" where
  "get_on_session k j pc a s =
     (case pc of
        GcChunk g m gp \<Rightarrow>
          (case a of
             Inl _ \<Rightarrow> (GcChunkBegin g m gp, get_waiting j s)
           | Inr reply \<Rightarrow> get_on_result (get_chunk_bytes k m gp reply) (\<lambda>bs. (GcWrite g m gp bs, s)) s)
      | GcChunkAgain g m gp \<Rightarrow>
          get_on_result (bind_r (map_err CtRemoteHub a) (get_chunk_bytes k m gp))
            (\<lambda>bs. (GcWrite g m gp bs, s)) s
      | _ \<Rightarrow> (pc, s))"

definition get_on_cleanup ::
    "get_job \<Rightarrow> get_pc \<Rightarrow> bool \<Rightarrow> client_state \<Rightarrow> get_pc \<times> client_state" where
  "get_on_cleanup j pc confirmed s =
     (let tid = gj_transfer_id j in
      case pc of
        GcConfirm \<Rightarrow>
          (GcPersist,
           if confirmed then s
           else update_get_info tid
                  (\<lambda>i. i\<lparr>fgi_error := Some ''remote source cleanup was not confirmed''\<rparr>) s)
      | GcCancelRemote \<Rightarrow> (GcPersist, clear_get_durable_state tid (cancel_get_remote tid confirmed s))
      | GcFailRemote \<Rightarrow> (GcPersist, clear_get_durable_state tid s)
      | _ \<Rightarrow> (pc, s))"

definition get_on_persist ::
    "client_env \<Rightarrow> get_job \<Rightarrow> get_pc \<Rightarrow> write_outcome \<Rightarrow> client_state \<Rightarrow> get_pc \<times> client_state" where
  "get_on_persist k j pc w s =
     (let (s1, r) = client_persist k w s in
      case pc of
        GcResumeJournal gs gp \<Rightarrow> get_on_result r (\<lambda>_. (GcResumeBegin gs gp None, s1)) s1
      | GcJournal g m part target \<Rightarrow> get_on_result r (\<lambda>_. (GcCreate g m part target, s1)) s1
      | GcPersist \<Rightarrow>
          (GcDone, case r of
                     Inl e \<Rightarrow> record_journal_warning (gj_transfer_id j) (ke_show k e) s1
                   | Inr _ \<Rightarrow> s1)
      | _ \<Rightarrow> (pc, s))"

fun get_attempting :: "get_pc \<Rightarrow> bool" where
  "get_attempting (GcResumeBegin _ _ _) = True"
| "get_attempting (GcBegin _) = True"
| "get_attempting (GcChunkBegin _ _ _) = True"
| "get_attempting _ = False"

fun get_over_session :: "get_pc \<Rightarrow> bool" where
  "get_over_session (GcChunk _ _ _) = True"
| "get_over_session (GcChunkAgain _ _ _) = True"
| "get_over_session _ = False"

definition get_step ::
    "client_env \<Rightarrow> get_job \<Rightarrow> client_event \<Rightarrow> get_pc \<times> client_state \<Rightarrow> get_pc \<times> client_state" where
  "get_step k j ev ps =
     (let (pc, s) = ps in
      case ev of
        EvGo \<Rightarrow>
          (case pc of
             GcStart d \<Rightarrow> get_on_start k j d s
           | GcBound g m part target \<Rightarrow> get_on_bound j g m part target s
           | _ \<Rightarrow> ps)
      | EvLocal fs \<Rightarrow>
          (case pc of
             GcRecover gs \<Rightarrow> get_on_recover k j gs fs s
           | GcPrepare g m \<Rightarrow> get_on_prepare k j g m fs s
           | GcCreate g m part target \<Rightarrow> get_on_create k j g m part target fs s
           | _ \<Rightarrow> ps)
      | EvAttempt a \<Rightarrow>
          if get_attempting pc
          then get_on_result (map_err CtRemoteHub a) (\<lambda>(g, a). get_on_attempt k j pc g a s) s else ps
      | EvSession a \<Rightarrow>
          if get_over_session pc
          then get_on_result (map_err CtRemoteHub a) (\<lambda>a. get_on_session k j pc a s) s else ps
      | EvSelectCancel \<Rightarrow>
          if is_cancelled (gj_transfer_id j) s \<and> get_attempting pc then (GcCleanup CtCancelled, s) else ps
      | EvWrite w \<Rightarrow> (case pc of GcWrite g m gp bs \<Rightarrow> get_on_write k j g m gp bs w s | _ \<Rightarrow> ps)
      | EvPlace w \<Rightarrow> (case pc of GcPlace m gp \<Rightarrow> get_on_place k j m gp w s | _ \<Rightarrow> ps)
      | EvRemove fails \<Rightarrow> (case pc of GcCleanup e \<Rightarrow> get_clean k j e fails s | _ \<Rightarrow> ps)
      | EvCleanup a \<Rightarrow> get_on_cleanup j pc (cancel_confirmed a) s
      | EvPersist w \<Rightarrow>
          (case pc of
             GcResumeJournal _ _ \<Rightarrow> get_on_persist k j pc w s
           | GcJournal _ _ _ _ \<Rightarrow> get_on_persist k j pc w s
           | GcPersist \<Rightarrow> get_on_persist k j pc w s
           | _ \<Rightarrow> ps)
      | _ \<Rightarrow> ps)"

end
