(* ===== verification/Client_System.thy ===== *)
theory Client_System
  imports Client_Get
begin

section \<open>Histories of the controller's file transfers\<close>

text \<open>
  The manager with all its workers. Requests, steps of workers, changes other programs make to the
  files, and restarts follow in any order; a crash is a restart after an operation whose writes
  failed. The invariant \<open>system_ok\<close> says what the manager keeps of every transfer, what each worker
  knows, and what can be read back from the journal.
\<close>

subsection \<open>The system\<close>

datatype client_worker = PutWorker put_job put_pc | GetWorker get_job get_pc

record client_system =
  sy_up :: bool
  sy_state :: client_state
  sy_workers :: "transfer_id \<Rightarrow> client_worker option"

datatype system_event =
    SysStartPut write_outcome transfer_id device_id site_id string string u32 file_conflict_policy
  | SysStartGet write_outcome transfer_id device_id site_id string string u32 file_conflict_policy
  | SysCancel write_outcome transfer_id
  | SysWorker transfer_id client_event
  | SysFiles host_files
  | SysRestart write_outcome "string list"

definition worker_step ::
    "client_env \<Rightarrow> client_event \<Rightarrow> client_worker \<Rightarrow> client_state \<Rightarrow> client_worker \<times> client_state" where
  "worker_step k ev w s =
     (case w of
        PutWorker j pc \<Rightarrow> (let (pc', s') = put_step k j ev (pc, s) in (PutWorker j pc', s'))
      | GetWorker j pc \<Rightarrow> (let (pc', s') = get_step k j ev (pc, s) in (GetWorker j pc', s')))"

text \<open>\<^verbatim>\<open>spawn_put_worker\<close>, \<^verbatim>\<open>spawn_get_worker\<close> and the tasks that only cancel.\<close>

fun task_worker :: "client_task \<Rightarrow> transfer_id \<times> client_worker" where
  "task_worker (ResumePut j) = (pj_transfer_id j, PutWorker j PcPrepare)"
| "task_worker (ResumeGet j gs) = (gj_transfer_id j, GetWorker j (GcStart (Some gs)))"
| "task_worker (CancelPut j) = (pj_transfer_id j, PutWorker j PcCancel)"
| "task_worker (CancelGet j _) = (gj_transfer_id j, GetWorker j GcCancelRemote)"

definition set_worker :: "transfer_id \<Rightarrow> client_worker \<Rightarrow> client_system \<Rightarrow> client_system" where
  "set_worker tid w y = y\<lparr>sy_workers := (sy_workers y)(tid \<mapsto> w)\<rparr>"

text \<open>Identifiers are never drawn twice. A manager that does not load is down.\<close>

fun system_step :: "client_env \<Rightarrow> system_event \<Rightarrow> client_system \<Rightarrow> client_system" where
  "system_step k (SysStartPut w tid did sid source device chunk policy) y =
     (if sy_up y \<and> sy_workers y tid = None then
        (case start_put_with_transfer_id k w tid did sid source device chunk policy (sy_state y) of
           (s, Inr i) \<Rightarrow> set_worker tid (PutWorker (put_job_of i sid policy) PcPrepare) (y\<lparr>sy_state := s\<rparr>)
         | (s, Inl _) \<Rightarrow> y\<lparr>sy_state := s\<rparr>)
      else y)"
| "system_step k (SysStartGet w tid did sid device destination chunk policy) y =
     (if sy_up y \<and> sy_workers y tid = None then
        (case start_get_with_transfer_id k w tid did sid device destination chunk policy (sy_state y) of
           (s, Inr i) \<Rightarrow> set_worker tid (GetWorker (get_job_of i sid policy) (GcStart None)) (y\<lparr>sy_state := s\<rparr>)
         | (s, Inl _) \<Rightarrow> y\<lparr>sy_state := s\<rparr>)
      else y)"
| "system_step k (SysCancel w tid) y =
     (if sy_up y then y\<lparr>sy_state := fst (client_cancel k w tid (sy_state y))\<rparr> else y)"
| "system_step k (SysWorker tid ev) y =
     (case sy_workers y tid of
        None \<Rightarrow> y
      | Some wk \<Rightarrow>
          if sy_up y
          then (let (wk', s) = worker_step k ev wk (sy_state y) in set_worker tid wk' (y\<lparr>sy_state := s\<rparr>))
          else y)"
| "system_step k (SysFiles files) y = y\<lparr>sy_state := (sy_state y)\<lparr>cx_files := files\<rparr>\<rparr>"
| "system_step k (SysRestart w stuck) y =
     (case client_load_or_create k w stuck (sy_state y) of
        (s, Inl _) \<Rightarrow> \<lparr>sy_up = False, sy_state = s, sy_workers = (\<lambda>_. None)\<rparr>
      | (s, Inr tasks) \<Rightarrow>
          \<lparr>sy_up = True, sy_state = s, sy_workers = map_of (map task_worker tasks)\<rparr>)"

text \<open>A controller that has never run.\<close>

definition new_client :: "client_state \<Rightarrow> bool" where
  "new_client s \<longleftrightarrow> cx_slot_a s = NoFile \<and> cx_slot_b s = NoFile"

text \<open>What is assumed of the file system's answers: canonical paths are absolute, not blank and have no
  zero bytes.\<close>

definition canonical_ok :: "client_env \<Rightarrow> client_fs \<Rightarrow> bool" where
  "canonical_ok k fs \<longleftrightarrow> (\<forall>p q tid. kf_canonicalize fs p = Ok q \<longrightarrow>
     (let x = pl_join (tp_platform (ke_paths k)) q (part_name k tid) in
      trim x \<noteq> [] \<and> CHR 0x00 \<notin> set x \<and> pl_is_absolute (tp_platform (ke_paths k)) x))"

definition event_fits :: "client_env \<Rightarrow> client_event \<Rightarrow> bool" where
  "event_fits k ev \<longleftrightarrow> (case ev of EvLocal fs \<Rightarrow> canonical_ok k fs | _ \<Rightarrow> True)"

definition event_allowed :: "client_env \<Rightarrow> system_event \<Rightarrow> bool" where
  "event_allowed k ev \<longleftrightarrow> (case ev of SysWorker tid e \<Rightarrow> event_fits k e | _ \<Rightarrow> True)"

inductive client_run :: "client_env \<Rightarrow> client_system \<Rightarrow> bool" for k where
  run_new: "new_client s \<Longrightarrow> client_run k \<lparr>sy_up = False, sy_state = s, sy_workers = (\<lambda>_. None)\<rparr>"
| run_step: "client_run k y \<Longrightarrow> event_allowed k ev \<Longrightarrow> client_run k (system_step k ev y)"

subsection \<open>What is kept\<close>

text \<open>What the libraries promise: digests have 32 bytes, JSON is read back as it was written, and the
  part files of two transfers have different paths.\<close>

definition client_env_ok :: "client_env \<Rightarrow> bool" where
  "client_env_ok k \<longleftrightarrow> (\<forall>x. length (ke_sha k x) = 32) \<and> sha256_hex (ke_sha k) [] = EMPTY_SHA256_HEX
     \<and> base64_ok (ke_base64 k) \<and> (\<forall>c. slot_faithful (ke_json k) c)
     \<and> (\<forall>p q a b. path_parts (ke_paths k) (pl_join (tp_platform (ke_paths k)) p (part_name k a))
           = path_parts (ke_paths k) (pl_join (tp_platform (ke_paths k)) q (part_name k b)) \<longrightarrow> a = b)"

definition part_of :: "client_env \<Rightarrow> transfer_id \<Rightarrow> string \<Rightarrow> bool" where
  "part_of k tid p \<longleftrightarrow> (\<exists>parent. path_parts (ke_paths k) p
     = path_parts (ke_paths k) (pl_join (tp_platform (ke_paths k)) parent (part_name k tid)))"

fun entry_parts_ok :: "client_env \<Rightarrow> client_entry \<Rightarrow> bool" where
  "entry_parts_ok k (EntryPut i s p c) = True"
| "entry_parts_ok k (EntryGet i s p d c) =
     (\<forall>gs. d = Some gs \<longrightarrow> part_of k (fgi_transfer_id i) (gs_part_path gs))"

fun worker_window :: "client_worker option \<Rightarrow> bool" where
  "worker_window (Some (GetWorker _ (GcBound _ _ _ _))) = True"
| "worker_window _ = False"

text \<open>An upload whose source has become shorter than what the device confirmed of it; and what holds of
  every entry, such uploads included.\<close>

fun source_shrunk :: "client_entry \<Rightarrow> bool" where
  "source_shrunk (EntryPut i s p c) =
     (case fpi_total_size i of None \<Rightarrow> False | Some n \<Rightarrow> n < fpi_confirmed_offset i)"
| "source_shrunk (EntryGet i s p d c) = False"

fun progress_known :: "u64 option \<Rightarrow> string option \<Rightarrow> u64 \<Rightarrow> bool" where
  "progress_known None None n \<longleftrightarrow> n = 0"
| "progress_known (Some t) (Some sha) n \<longleftrightarrow> is_sha256_hex sha"
| "progress_known _ _ _ \<longleftrightarrow> False"

fun entry_sound :: "transfer_paths \<Rightarrow> controller_id \<Rightarrow> client_entry \<Rightarrow> bool" where
  "entry_sound tp cid (EntryPut i s p c) \<longleftrightarrow>
     local_path_ok tp (fpi_source_path i) \<and> device_path_ok (fpi_device_path i)
     \<and> chunk_size_ok (fpi_chunk_size i)
     \<and> progress_known (fpi_total_size i) (fpi_final_sha256 i) (fpi_confirmed_offset i)"
| "entry_sound tp cid (EntryGet i s p d c) \<longleftrightarrow> entry_ok tp cid (EntryGet i s p d c)"

lemma entry_ok_iff: "entry_ok tp cid e \<longleftrightarrow> entry_sound tp cid e \<and> \<not> source_shrunk e"
proof (cases e)
  case (EntryPut i s p c)
  then show ?thesis
    by (cases "fpi_total_size i"; cases "fpi_final_sha256 i") (auto simp: not_less)
qed simp

definition entry_inv :: "client_env \<Rightarrow> transfer_id \<Rightarrow> client_worker option \<Rightarrow> client_entry \<Rightarrow> bool" where
  "entry_inv k tid w e \<longleftrightarrow> info_transfer_id (entry_info e) = tid \<and> entry_parts_ok k e
     \<and> entry_sound (ke_paths k) (ke_controller k) (if worker_window w then map_durable None e else e)"

text \<open>What a put worker knows.\<close>

fun put_pc_manifest :: "put_pc \<Rightarrow> file_transfer_manifest option" where
  "put_pc_manifest (PcBegin m) = Some m"
| "put_pc_manifest (PcBeginStatus m _) = Some m"
| "put_pc_manifest (PcBeginAgain m _) = Some m"
| "put_pc_manifest (PcRead m _ _) = Some m"
| "put_pc_manifest (PcChunk m _ _ _) = Some m"
| "put_pc_manifest (PcChunkStatus m _ _ _) = Some m"
| "put_pc_manifest (PcChunkAgain m _ _ _) = Some m"
| "put_pc_manifest (PcFinalize m _ _) = Some m"
| "put_pc_manifest (PcFinalizeStatus m _ _) = Some m"
| "put_pc_manifest (PcFinalizeAgain m _) = Some m"
| "put_pc_manifest _ = None"

definition put_manifest_ok :: "client_env \<Rightarrow> put_job \<Rightarrow> file_transfer_manifest \<Rightarrow> bool" where
  "put_manifest_ok k j m \<longleftrightarrow> manifest_ok m \<and> fm_transfer_id m = pj_transfer_id j
     \<and> fm_controller_id m = ke_controller k \<and> fm_site_id m = pj_site_id j \<and> fm_device_id m = pj_device_id j
     \<and> fm_direction m = ControllerToDevice \<and> fm_device_path m = pj_device_path j
     \<and> fm_chunk_size m = pj_chunk_size j \<and> fm_conflict_policy m = Some (pj_policy j)"

definition put_inv :: "client_env \<Rightarrow> put_job \<Rightarrow> put_pc \<Rightarrow> client_entry option \<Rightarrow> bool" where
  "put_inv k j pc e \<longleftrightarrow>
     (\<forall>m. put_pc_manifest pc = Some m \<longrightarrow> put_manifest_ok k j m)
     \<and> (\<forall>e'. e = Some e' \<longrightarrow> (\<exists>i s p c. e' = EntryPut i s p c
          \<and> (\<forall>m. put_pc_manifest pc = Some m \<longrightarrow>
               fpi_total_size i = Some (fm_total_size m) \<and> fpi_final_sha256 i = Some (fm_final_sha256 m))))"

text \<open>What a get worker knows of its part file.\<close>

definition part_inv ::
    "client_env \<Rightarrow> transfer_id \<Rightarrow> file_transfer_manifest \<Rightarrow> get_part \<Rightarrow> (string list \<Rightarrow> bytes option) \<Rightarrow> bool" where
  "part_inv k tid m gp parts \<longleftrightarrow> part_of k tid (gp_path gp)
     \<and> parts (path_parts (ke_paths k) (gp_path gp)) = Some (gp_prefix gp)
     \<and> unat (fd_confirmed_offset (gp_descriptor gp)) = length (gp_prefix gp)
     \<and> fd_confirmed_prefix_sha256 (gp_descriptor gp) = sha256_hex (ke_sha k) (gp_prefix gp)
     \<and> fd_ok (gp_descriptor gp) \<and> fd_total_size (gp_descriptor gp) = fm_total_size m"

fun get_pc_manifest :: "get_pc \<Rightarrow> file_transfer_manifest option" where
  "get_pc_manifest (GcStart (Some gs)) = Some (gs_manifest gs)"
| "get_pc_manifest (GcRecover gs) = Some (gs_manifest gs)"
| "get_pc_manifest (GcResumeJournal gs _) = Some (gs_manifest gs)"
| "get_pc_manifest (GcResumeBegin gs _ _) = Some (gs_manifest gs)"
| "get_pc_manifest (GcPrepare _ m) = Some m"
| "get_pc_manifest (GcBound _ m _ _) = Some m"
| "get_pc_manifest (GcJournal _ m _ _) = Some m"
| "get_pc_manifest (GcCreate _ m _ _) = Some m"
| "get_pc_manifest (GcChunk _ m _) = Some m"
| "get_pc_manifest (GcChunkBegin _ m _) = Some m"
| "get_pc_manifest (GcChunkAgain _ m _) = Some m"
| "get_pc_manifest (GcWrite _ m _ _) = Some m"
| "get_pc_manifest (GcPlace m _) = Some m"
| "get_pc_manifest _ = None"

fun get_pc_part :: "get_pc \<Rightarrow> get_part option" where
  "get_pc_part (GcResumeJournal gs gp) = Some gp"
| "get_pc_part (GcResumeBegin gs gp _) = Some gp"
| "get_pc_part (GcChunk _ _ gp) = Some gp"
| "get_pc_part (GcChunkBegin _ _ gp) = Some gp"
| "get_pc_part (GcChunkAgain _ _ gp) = Some gp"
| "get_pc_part (GcWrite _ _ gp _) = Some gp"
| "get_pc_part (GcPlace _ gp) = Some gp"
| "get_pc_part _ = None"

text \<open>Whether the entry has no manifest yet, or has one, or both while the worker is between.\<close>

datatype get_stage = StageNew | StageBound | StageKnown | StageEnding

fun get_pc_stage :: "get_pc \<Rightarrow> get_stage" where
  "get_pc_stage (GcStart None) = StageNew"
| "get_pc_stage (GcBegin _) = StageNew"
| "get_pc_stage (GcPrepare _ _) = StageNew"
| "get_pc_stage (GcBound _ _ _ _) = StageBound"
| "get_pc_stage (GcCleanup _) = StageEnding"
| "get_pc_stage GcConfirm = StageEnding"
| "get_pc_stage GcCancelRemote = StageEnding"
| "get_pc_stage GcFailRemote = StageEnding"
| "get_pc_stage GcPersist = StageEnding"
| "get_pc_stage GcDone = StageEnding"
| "get_pc_stage _ = StageKnown"

definition stage_ok ::
    "client_env \<Rightarrow> get_stage \<Rightarrow> file_transfer_manifest option \<Rightarrow> file_get_info \<Rightarrow> durable_get_state option
     \<Rightarrow> bool" where
  "stage_ok k stage mo i d \<longleftrightarrow>
     (case stage of
        StageNew \<Rightarrow> d = None \<and> fgi_total_size i = None \<and> fgi_final_sha256 i = None
      | StageBound \<Rightarrow> (\<exists>gs. d = Some gs \<and> local_path_ok (ke_paths k) (gs_part_path gs)
            \<and> Some (gs_manifest gs) = mo)
          \<and> fgi_total_size i = None \<and> fgi_final_sha256 i = None
      | StageKnown \<Rightarrow> (\<exists>gs. d = Some gs \<and> local_path_ok (ke_paths k) (gs_part_path gs)
            \<and> Some (gs_manifest gs) = mo)
          \<and> (\<forall>m. mo = Some m \<longrightarrow> fgi_total_size i = Some (fm_total_size m)
               \<and> fgi_final_sha256 i = Some (fm_final_sha256 m))
      | StageEnding \<Rightarrow> True)"

fun pc_bytes_ok :: "get_pc \<Rightarrow> bool" where
  "pc_bytes_ok (GcWrite _ m gp bs) \<longleftrightarrow> length bs = expected_len m (fd_confirmed_offset (gp_descriptor gp))
     \<and> fd_confirmed_offset (gp_descriptor gp) < fm_total_size m"
| "pc_bytes_ok (GcChunk _ m gp) \<longleftrightarrow> fd_confirmed_offset (gp_descriptor gp) < fm_total_size m"
| "pc_bytes_ok (GcChunkBegin _ m gp) \<longleftrightarrow> fd_confirmed_offset (gp_descriptor gp) < fm_total_size m"
| "pc_bytes_ok (GcChunkAgain _ m gp) \<longleftrightarrow> fd_confirmed_offset (gp_descriptor gp) < fm_total_size m"
| "pc_bytes_ok (GcPlace m gp) \<longleftrightarrow> unat (fm_total_size m) = length (gp_prefix gp)
     \<and> fd_confirmed_prefix_sha256 (gp_descriptor gp) = fm_final_sha256 m"
| "pc_bytes_ok _ \<longleftrightarrow> True"

fun get_pc_paths :: "get_pc \<Rightarrow> string list" where
  "get_pc_paths (GcStart (Some gs)) = [gs_part_path gs]"
| "get_pc_paths (GcRecover gs) = [gs_part_path gs]"
| "get_pc_paths (GcResumeJournal gs _) = [gs_part_path gs]"
| "get_pc_paths (GcResumeBegin gs _ _) = [gs_part_path gs]"
| "get_pc_paths (GcBound _ _ part _) = [part]"
| "get_pc_paths (GcJournal _ _ part _) = [part]"
| "get_pc_paths (GcCreate _ _ part _) = [part]"
| "get_pc_paths _ = []"

definition get_inv ::
    "client_env \<Rightarrow> get_job \<Rightarrow> get_pc \<Rightarrow> client_entry option \<Rightarrow> (string list \<Rightarrow> bytes option) \<Rightarrow> bool" where
  "get_inv k j pc e parts \<longleftrightarrow>
     (\<forall>m. get_pc_manifest pc = Some m \<longrightarrow>
        client_manifest_ok m (ke_controller k) (gj_site_id j) (gj_device_id j) (gj_transfer_id j) (gj_chunk_size j)
        \<and> (\<forall>gp. get_pc_part pc = Some gp \<longrightarrow> part_inv k (gj_transfer_id j) m gp parts))
     \<and> (\<forall>p \<in> set (get_pc_paths pc). part_of k (gj_transfer_id j) p \<and> local_path_ok (ke_paths k) p)
     \<and> pc_bytes_ok pc
     \<and> (\<forall>gs gp. pc = GcResumeJournal gs gp \<or> (\<exists>g. pc = GcResumeBegin gs gp g) \<longrightarrow>
          path_parts (ke_paths k) (gs_part_path gs) = path_parts (ke_paths k) (gp_path gp))
     \<and> (\<forall>e'. e = Some e' \<longrightarrow> (\<exists>i p d c. e' = EntryGet i (gj_site_id j) p d c
          \<and> fgi_transfer_id i = gj_transfer_id j \<and> fgi_device_id i = gj_device_id j
          \<and> fgi_chunk_size i = gj_chunk_size j
          \<and> stage_ok k (get_pc_stage pc) (get_pc_manifest pc) i d))"

fun worker_inv ::
    "client_env \<Rightarrow> transfer_id \<Rightarrow> client_worker \<Rightarrow> client_entry option \<Rightarrow> (string list \<Rightarrow> bytes option) \<Rightarrow> bool" where
  "worker_inv k tid (PutWorker j pc) e parts \<longleftrightarrow> pj_transfer_id j = tid \<and> put_inv k j pc e"
| "worker_inv k tid (GetWorker j pc) e parts \<longleftrightarrow> gj_transfer_id j = tid \<and> get_inv k j pc e parts"

definition tid_inv ::
    "client_env \<Rightarrow> transfer_id \<Rightarrow> client_worker option \<Rightarrow> client_entry option
     \<Rightarrow> (string list \<Rightarrow> bytes option) \<Rightarrow> bool" where
  "tid_inv k tid w e parts \<longleftrightarrow> (\<forall>e'. e = Some e' \<longrightarrow> entry_inv k tid w e')
     \<and> (\<forall>w'. w = Some w' \<longrightarrow> worker_inv k tid w' e parts)"

definition entries_bounded :: "client_state \<Rightarrow> bool" where
  "entries_bounded s \<longleftrightarrow> bt_wf (cx_entries s) \<and> length (cx_entries s) \<le> 16"

text \<open>What can be read back from a slot is a valid snapshot whose part files belong to their transfers.\<close>

fun record_parts_ok :: "client_env \<Rightarrow> durable_transfer \<Rightarrow> bool" where
  "record_parts_ok k r = (\<forall>gs. dt_get_state r = Some gs \<longrightarrow>
     part_of k (info_transfer_id (dt_info r)) (gs_part_path gs))"

definition slot_ok :: "client_env \<Rightarrow> slot_file \<Rightarrow> bool" where
  "slot_ok k f \<longleftrightarrow> (\<forall>c. slot_holds (client_validate (ke_paths k) (ke_controller k)) (read_client_slot (ke_json k) f) c
     \<longrightarrow> (\<forall>r \<in> set (cn_transfers c). record_parts_ok k r))"

definition system_ok :: "client_env \<Rightarrow> client_system \<Rightarrow> bool" where
  "system_ok k y \<longleftrightarrow> slot_ok k (cx_slot_a (sy_state y)) \<and> slot_ok k (cx_slot_b (sy_state y))
     \<and> (sy_up y \<longrightarrow> entries_bounded (sy_state y)
          \<and> (\<forall>tid. tid_inv k tid (sy_workers y tid) (bt_get (cx_entries (sy_state y)) tid) (cx_parts (sy_state y))))"

end
