(* ===== verification/Client_Put_Safety.thy ===== *)
theory Client_Put_Safety
  imports Client_System
begin

section \<open>What the workers of puts keep\<close>

text \<open>
  One step of a put worker changes nothing but the progress of its own transfer, and keeps what the
  worker knows: its manifest is that of its job, and the size and digest it reports are those of the
  manifest. The journal writes of any worker keep both slots readable as valid snapshots.
\<close>

subsection \<open>Changes of one entry\<close>

lemma on_entry_get:
  "bt_get (cx_entries (on_entry tid f s)) t
   = (if t = tid then map_option f (bt_get (cx_entries s) tid) else bt_get (cx_entries s) t)"
  by (simp add: on_entry_def)

lemma on_entry_fields [simp]:
  "cx_generation (on_entry tid f s) = cx_generation s" "cx_slot_a (on_entry tid f s) = cx_slot_a s"
  "cx_slot_b (on_entry tid f s) = cx_slot_b s" "cx_parts (on_entry tid f s) = cx_parts s"
  "cx_files (on_entry tid f s) = cx_files s"
  by (simp_all add: on_entry_def)

lemma on_entry_bounded [simp]: "entries_bounded (on_entry tid f s) = entries_bounded s"
  by (simp add: on_entry_def entries_bounded_def)

lemma bt_update_comp: "bt_update k f (bt_update k g m) = bt_update k (f \<circ> g) m"
  by (induction m) (auto simp: bt_update_def)

lemma on_entry_comp: "on_entry tid f (on_entry tid g s) = on_entry tid (f \<circ> g) s"
  by (simp add: on_entry_def bt_update_comp)

lemma bt_update_id: "bt_update k (\<lambda>x. x) m = m"
  by (induction m) (auto simp: bt_update_def)

lemma on_entry_id: "on_entry tid (\<lambda>x. x) s = s"
  by (simp add: on_entry_def bt_update_id)

lemma map_put_comp: "map_put f \<circ> map_put g = map_put (f \<circ> g)"
proof
  fix e show "(map_put f \<circ> map_put g) e = map_put (f \<circ> g) e" by (cases e) simp_all
qed

lemma map_put_id: "map_put (\<lambda>i. i) = (\<lambda>e. e)"
proof
  fix e show "map_put (\<lambda>i. i) e = e" by (cases e) simp_all
qed

text \<open>The state differs from another in one put's progress only.\<close>

definition only_put :: "transfer_id \<Rightarrow> client_state \<Rightarrow> client_state \<Rightarrow> bool" where
  "only_put tid s s' \<longleftrightarrow> (\<exists>f. s' = update_info tid f s)"

lemma only_put_refl: "only_put tid s s"
  unfolding only_put_def update_info_def
  by (rule exI [of _ "\<lambda>i. i"]) (simp add: map_put_id on_entry_id)

lemma only_put_update: "only_put tid s s' \<Longrightarrow> only_put tid s (update_info tid f s')"
  by (auto simp: only_put_def update_info_def on_entry_comp map_put_comp)

subsection \<open>Puts\<close>

definition put_info_ok :: "client_env \<Rightarrow> transfer_id \<Rightarrow> file_transfer_manifest option \<Rightarrow> file_put_info \<Rightarrow> bool" where
  "put_info_ok k tid mo i \<longleftrightarrow> fpi_transfer_id i = tid
     \<and> entry_sound (ke_paths k) (ke_controller k) (EntryPut i undefined undefined undefined)
     \<and> (\<forall>m. mo = Some m \<longrightarrow> fpi_total_size i = Some (fm_total_size m) \<and> fpi_final_sha256 i = Some (fm_final_sha256 m))"

definition put_entry_ok :: "client_env \<Rightarrow> transfer_id \<Rightarrow> file_transfer_manifest option \<Rightarrow> client_state \<Rightarrow> bool" where
  "put_entry_ok k tid mo s \<longleftrightarrow> (\<forall>e. bt_get (cx_entries s) tid = Some e \<longrightarrow>
     (\<exists>i sid p c. e = EntryPut i sid p c \<and> put_info_ok k tid mo i))"

definition put_worker_ok :: "client_env \<Rightarrow> put_job \<Rightarrow> put_pc \<Rightarrow> client_state \<Rightarrow> bool" where
  "put_worker_ok k j pc s \<longleftrightarrow> (\<forall>m. put_pc_manifest pc = Some m \<longrightarrow> put_manifest_ok k j m)
     \<and> put_entry_ok k (pj_transfer_id j) (put_pc_manifest pc) s"

lemma tid_inv_put:
  "tid_inv k tid (Some (PutWorker j pc)) (bt_get (cx_entries s) tid) parts
   \<longleftrightarrow> pj_transfer_id j = tid \<and> put_worker_ok k j pc s"
proof (cases "bt_get (cx_entries s) tid")
  case None
  then show ?thesis
    by (auto simp: tid_inv_def put_worker_ok_def put_entry_ok_def put_inv_def)
next
  case (Some e)
  then show ?thesis
    by (cases e) (auto simp: tid_inv_def put_worker_ok_def put_entry_ok_def put_inv_def entry_inv_def
        put_info_ok_def)
qed

lemma put_entry_ok_update:
  assumes "put_entry_ok k tid mo s" and "\<And>i. put_info_ok k tid mo i \<Longrightarrow> put_info_ok k tid mo' (f i)"
  shows "put_entry_ok k tid mo' (update_info tid f s)"
proof (cases "bt_get (cx_entries s) tid")
  case None
  then show ?thesis by (simp add: put_entry_ok_def update_info_def on_entry_get)
next
  case (Some e)
  then obtain i sid p c where e: "e = EntryPut i sid p c" "put_info_ok k tid mo i"
    using assms(1) by (auto simp: put_entry_ok_def)
  then show ?thesis
    using assms(2) Some by (simp add: put_entry_ok_def update_info_def on_entry_get)
qed

lemma put_entry_ok_None: "put_entry_ok k tid mo s \<Longrightarrow> put_entry_ok k tid None s"
  unfolding put_entry_ok_def put_info_ok_def by blast

lemma put_info_ok_phase [simp]:
  "put_info_ok k tid mo (i\<lparr>fpi_phase := p\<rparr>) = put_info_ok k tid mo i"
  "put_info_ok k tid mo (i\<lparr>fpi_error := e\<rparr>) = put_info_ok k tid mo i"
  "put_info_ok k tid mo (i\<lparr>fpi_final_device_path := d\<rparr>) = put_info_ok k tid mo i"
  by (simp_all add: put_info_ok_def)

definition put_result_ok :: "client_env \<Rightarrow> put_job \<Rightarrow> client_state \<Rightarrow> put_pc \<times> client_state \<Rightarrow> bool" where
  "put_result_ok k j s r \<longleftrightarrow> put_worker_ok k j (fst r) (snd r) \<and> only_put (pj_transfer_id j) s (snd r)"

lemma put_result_trans:
  assumes "put_result_ok k j s' r" and "only_put (pj_transfer_id j) s s'"
  shows "put_result_ok k j s r"
  using assms by (auto simp: put_result_ok_def only_put_def update_info_def on_entry_comp map_put_comp)

text \<open>Steps that change only phases, errors and paths.\<close>

lemma put_entry_ok_phase:
  assumes "put_entry_ok k tid mo s"
    and "\<And>i. put_info_ok k tid mo i \<Longrightarrow> put_info_ok k tid mo (f i)"
  shows "put_entry_ok k tid mo (update_info tid f s)"
  using put_entry_ok_update [OF assms] .

lemma set_failed_ok:
  assumes "put_entry_ok k tid mo s"
  shows "put_entry_ok k tid mo (set_failed tid e s)"
  unfolding set_failed_def by (rule put_entry_ok_phase [OF assms]) simp

lemma put_finish_ok:
  assumes "put_entry_ok k (pj_transfer_id j) mo s"
  shows "put_result_ok k j s (put_finish k j r s)"
proof (cases r)
  case (Inl e)
  then show ?thesis
    using put_entry_ok_None [OF assms] put_entry_ok_None [OF set_failed_ok [OF assms]]
    by (auto simp: put_finish_def put_result_ok_def put_worker_ok_def only_put_refl)
      (auto simp: set_failed_def only_put_def)
next
  case (Inr u)
  then show ?thesis
    using put_entry_ok_None [OF assms]
    by (simp add: put_finish_def put_result_ok_def put_worker_ok_def only_put_refl)
qed

lemma put_on_result_ok:
  assumes "put_entry_ok k (pj_transfer_id j) mo s" and "\<And>x. r = Ok x \<Longrightarrow> put_result_ok k j s (f x)"
  shows "put_result_ok k j s (put_on_result k j r f s)"
  using assms put_finish_ok [OF assms(1)] by (cases r) (simp_all add: put_on_result_def)

lemma validate_status_Ok:
  assumes "validate_status m p st = Ok u"
  shows "ft_status_ok st" and "fd_confirmed_offset (fs_descriptor st) \<le> fm_total_size m"
    and "fd_total_size (fs_descriptor st) = fm_total_size m"
    and "fd_final_sha256 (fs_descriptor st) = Some (fm_final_sha256 m)"
    and "fd_transfer_id (fs_descriptor st) = fm_transfer_id m"
proof -
  have v: "ft_status_validate st = Ok ()"
    using assms by (cases "ft_status_validate st") (auto simp: validate_status_def)
  then show ok: "ft_status_ok st" by (simp add: ft_status_validate_Ok)
  show t: "fd_total_size (fs_descriptor st) = fm_total_size m"
    "fd_final_sha256 (fs_descriptor st) = Some (fm_final_sha256 m)"
    "fd_transfer_id (fs_descriptor st) = fm_transfer_id m"
    using assms v by (auto simp: validate_status_def Let_def split: if_splits)
  show "fd_confirmed_offset (fs_descriptor st) \<le> fm_total_size m"
    using ok t(1) by (simp add: ft_status_ok_def fd_ok_def)
qed

lemma update_status_info_ok:
  assumes "put_entry_ok k tid (Some m) s" and "validate_status m p st = Ok u"
  shows "put_entry_ok k tid (Some m) (update_status_info tid st s)"
  unfolding update_status_info_def
proof (rule put_entry_ok_phase [OF assms(1)])
  fix i assume "put_info_ok k tid (Some m) i"
  then show "put_info_ok k tid (Some m) (i\<lparr>fpi_confirmed_offset := fd_confirmed_offset (fs_descriptor st),
       fpi_final_device_path := fs_final_device_path st\<rparr>)"
    using validate_status_Ok(2) [OF assms(2)] by (auto simp: put_info_ok_def)
qed

lemma update_status_only: "only_put tid s s' \<Longrightarrow> only_put tid s (update_status_info tid st s')"
  unfolding update_status_info_def by (rule only_put_update)

lemma put_complete_ok:
  assumes "put_entry_ok k (pj_transfer_id j) (Some m) s"
  shows "put_result_ok k j s (put_complete k j m st s)"
proof (cases "fs_phase st = Completed \<and> is_ok (validate_status m None st)")
  case True
  then obtain u where v: "validate_status m None st = Ok u" by (cases "validate_status m None st") auto
  let ?s = "update_info (pj_transfer_id j) (\<lambda>i. i\<lparr>fpi_phase := CpCompleted, fpi_error := None\<rparr>)
              (update_status_info (pj_transfer_id j) st s)"
  have "put_entry_ok k (pj_transfer_id j) (Some m) ?s"
    by (rule put_entry_ok_phase [OF update_status_info_ok [OF assms v]]) simp
  from put_result_trans [OF put_finish_ok [OF this]] True v show ?thesis
    by (simp add: put_complete_def only_put_update update_status_only only_put_refl)
next
  case False
  then show ?thesis
    using put_finish_ok [OF assms]
    by (cases "validate_status m None st") (auto simp: put_complete_def)
qed

lemma put_loop_ok:
  assumes "put_entry_ok k (pj_transfer_id j) (Some m) s" and "put_manifest_ok k j m"
  shows "put_result_ok k j s (put_loop k j m g st s)"
  using assms put_entry_ok_None [OF assms(1)] put_complete_ok [OF assms(1), of st]
  by (cases "fs_phase st") (simp_all add: put_loop_def put_result_ok_def put_worker_ok_def only_put_refl)

lemma put_begun_ok:
  assumes "put_entry_ok k (pj_transfer_id j) (Some m) s" and "put_manifest_ok k j m"
  shows "put_result_ok k j s (put_begun k j m g reply s)"
proof (cases "bind_r (status_of_reply reply) (\<lambda>st. bind_r (validate_status m None st) (\<lambda>_. Ok st))")
  case (Inl e)
  then show ?thesis using put_finish_ok [OF assms(1)] by (simp add: put_begun_def)
next
  case (Inr st)
  then have "validate_status m None st = Ok ()" by (auto simp: bind_r_Ok)
  from put_loop_ok [OF update_status_info_ok [OF assms(1) this] assms(2)] Inr show ?thesis
    by (simp add: put_begun_def)
      (rule put_result_trans, assumption, simp add: update_status_only only_put_refl)
qed

lemma put_advance_ok:
  assumes "put_entry_ok k (pj_transfer_id j) (Some m) s" and "put_manifest_ok k j m"
    and "validate_status m p st = Ok u"
  shows "put_result_ok k j s (put_advance k j m g st s)"
  unfolding put_advance_def
proof (rule put_result_trans [OF put_loop_ok [OF _ assms(2)]])
  show "put_entry_ok k (pj_transfer_id j) (Some m)
     (update_info (pj_transfer_id j) (\<lambda>i. if cp_terminal (fpi_phase i) then i
        else i\<lparr>fpi_phase := (if fs_phase st = ReadyToFinalize then CpReadyToFinalize else CpRunning)\<rparr>)
      (update_status_info (pj_transfer_id j) st s))"
    by (rule put_entry_ok_phase [OF update_status_info_ok [OF assms(1,3)]]) simp
qed (simp add: only_put_update update_status_only only_put_refl)

lemma put_waiting_ok:
  assumes "put_entry_ok k (pj_transfer_id j) mo s"
  shows "put_entry_ok k (pj_transfer_id j) mo (put_awaits j s)" "only_put (pj_transfer_id j) s (put_awaits j s)"
  using put_entry_ok_phase [OF assms] by (simp_all add: put_awaits_def only_put_update only_put_refl)


lemma prepare_source_Ok:
  "prepare_source k src = Ok (n, sha) \<longleftrightarrow>
     (\<exists>bs. src = SrcBytes bs \<and> length bs < 2 ^ 64 \<and> n = word_of_nat (length bs)
        \<and> sha = sha256_hex (ke_sha k) bs)"
  by (auto simp: prepare_source_def split: local_source.splits)

lemma put_manifest_Ok:
  assumes "put_manifest k j n sha = Ok m"
  shows "put_manifest_ok k j m" and "fm_total_size m = n" and "fm_final_sha256 m = sha"
  using assms
  by (auto simp: put_manifest_def manifest_new_def Let_def bind_r_Ok manifest_validate_Ok put_manifest_ok_def)

lemma put_on_source_ok:
  assumes env: "client_env_ok k" and e: "put_entry_ok k (pj_transfer_id j) mo s"
  shows "put_result_ok k j s (put_on_source k j src s)"
proof (cases "bind_r (prepare_source k src) (\<lambda>(n, sha).
             bind_r (put_manifest k j n sha) (\<lambda>m. Ok (n, sha, m)))")
  case (Inl x)
  then show ?thesis using put_finish_ok [OF e] by (simp add: put_on_source_def)
next
  case (Inr nsm)
  obtain n sha m where nsm: "nsm = (n, sha, m)" by (cases nsm)
  have p: "prepare_source k src = Ok (n, sha)" and m: "put_manifest k j n sha = Ok m"
    using Inr nsm by (auto simp: bind_r_Ok)
  obtain bs where bs: "src = SrcBytes bs" "length bs < 2 ^ 64" "n = word_of_nat (length bs)"
    "sha = sha256_hex (ke_sha k) bs"
    using p by (auto simp: prepare_source_Ok)
  let ?f = "\<lambda>i. i\<lparr>fpi_total_size := Some n, fpi_final_sha256 := Some sha, fpi_phase := CpRunning\<rparr>"
  let ?s = "update_info (pj_transfer_id j) ?f s"
  have hex: "is_sha256_hex sha" using env bs(4) by (simp add: client_env_ok_def sha256_hex_ok)
  have s: "put_entry_ok k (pj_transfer_id j) (Some m) ?s"
  proof (cases "bt_get (cx_entries s) (pj_transfer_id j)")
    case None
    then show ?thesis by (simp add: put_entry_ok_def update_info_def on_entry_get)
  next
    case (Some x)
    then obtain i sid q c where x: "x = EntryPut i sid q c" "put_info_ok k (pj_transfer_id j) mo i"
      using e by (auto simp: put_entry_ok_def)
    have "put_info_ok k (pj_transfer_id j) (Some m) (?f i)"
      using x(2) hex put_manifest_Ok(2,3) [OF m] by (simp add: put_info_ok_def)
    then show ?thesis using Some x(1) by (simp add: put_entry_ok_def update_info_def on_entry_get)
  qed
  have o: "only_put (pj_transfer_id j) s ?s" by (rule only_put_update [OF only_put_refl])
  show ?thesis
    using Inr nsm s o put_entry_ok_None [OF s] put_manifest_Ok(1) [OF m]
    by (simp add: put_on_source_def Let_def put_result_ok_def put_worker_ok_def)
qed

lemma put_worker_okD:
  assumes "put_worker_ok k j pc s" and "put_pc_manifest pc = Some m"
  shows "put_entry_ok k (pj_transfer_id j) (Some m) s" "put_manifest_ok k j m"
  using assms by (simp_all add: put_worker_ok_def)

lemma put_here: "put_worker_ok k j pc s \<Longrightarrow> put_result_ok k j s (pc, s)"
  by (simp add: put_result_ok_def only_put_refl)

lemma put_worker_okI:
  "put_pc_manifest pc = Some m \<Longrightarrow> put_entry_ok k (pj_transfer_id j) (Some m) s \<Longrightarrow> put_manifest_ok k j m
   \<Longrightarrow> put_worker_ok k j pc s"
  by (simp add: put_worker_ok_def)

lemma put_on_read_ok:
  assumes w: "put_worker_ok k j (PcRead m g st) s"
  shows "put_result_ok k j s (put_on_read k j m g st r s)"
proof -
  note e = put_worker_okD [OF w put_pc_manifest.simps(4)]
  have "put_result_ok k j s (PcChunk m g st c, s)" for c
    by (rule put_here) (rule put_worker_okI [OF _ e], simp)
  then show ?thesis
    using put_finish_ok [OF e(1)] put_here [OF w] unfolding put_on_read_def Let_def
    by (simp split: sum.split)
qed

lemma acknowledged_valid:
  "put_acknowledged m st reply = Ok next \<Longrightarrow> \<exists>p. validate_status m p next = Ok ()"
  "put_resent m st reply = Ok next \<Longrightarrow> \<exists>p. validate_status m p next = Ok ()"
  "put_recovered m st reply = Ok (again, next) \<Longrightarrow> validate_status m None next = Ok ()"
  "put_refinalize m st reply = Ok (again, next) \<Longrightarrow> validate_status m None next = Ok ()"
  by (auto simp: put_acknowledged_def put_resent_def put_recovered_def put_refinalize_def
      validate_recovered_status_def Let_def bind_r_Ok split: if_splits)

lemma put_on_session_ok:
  assumes w: "put_worker_ok k j pc s"
  shows "put_result_ok k j s (put_on_session k j pc a s)"
proof (cases "put_pc_manifest pc")
  case None
  then show ?thesis using put_here [OF w] by (cases pc) (simp_all add: put_on_session_def)
next
  case (Some m)
  note e = put_worker_okD [OF w Some]
  have lost: "put_result_ok k j s (pc', put_awaits j s)" if "put_pc_manifest pc' = Some m" for pc'
    using put_waiting_ok [OF e(1)] e(2) that by (simp add: put_result_ok_def put_worker_ok_def)
  have adv: "put_result_ok k j s (put_on_result k j r (\<lambda>next. put_advance k j m g next s) s)"
    if "\<And>next. r = Ok next \<Longrightarrow> \<exists>p. validate_status m p next = Ok ()" for g r
    using that put_advance_ok [OF e] by (intro put_on_result_ok [OF e(1)]) blast
  have begun: "put_result_ok k j s (put_on_result k j r (\<lambda>reply. put_begun k j m g reply s) s)" for g r
    by (rule put_on_result_ok [OF e(1)]) (rule put_begun_ok [OF e])
  have completed: "put_result_ok k j s (put_on_result k j r (\<lambda>next. put_complete k j m next s) s)" for r
    by (rule put_on_result_ok [OF e(1)]) (rule put_complete_ok [OF e(1)])
  have bound: "bind_r (map_err CtRemoteHub a) (put_resent m st) = Ok next \<Longrightarrow>
      \<exists>p. validate_status m p next = Ok ()" for st "next"
    using acknowledged_valid(2) by (auto simp: bind_r_Ok)
  note acked = acknowledged_valid(1)
  show ?thesis
  proof (cases pc)
    case (PcBeginAgain m' g)
    then show ?thesis using begun Some by (simp add: put_on_session_def)
  next
    case (PcChunk m' g st c)
    then show ?thesis using Some lost [of "PcChunkStatus m g st c"] adv [OF acked]
      by (cases a) (simp_all add: put_on_session_def)
  next
    case (PcChunkAgain m' g st c)
    then show ?thesis using Some adv [OF bound] by (simp add: put_on_session_def)
  next
    case (PcFinalize m' g st)
    then show ?thesis using Some lost [of "PcFinalizeStatus m g st"] completed
      by (cases a) (simp_all add: put_on_session_def)
  next
    case (PcFinalizeAgain m' g)
    then show ?thesis using Some completed by (simp add: put_on_session_def)
  qed (use put_here [OF w] in \<open>simp_all add: put_on_session_def\<close>)
qed

lemma put_on_attempt_ok:
  assumes w: "put_worker_ok k j pc s"
  shows "put_result_ok k j s (put_on_attempt k j pc g a s)"
proof (cases "put_pc_manifest pc")
  case None
  then show ?thesis using put_here [OF w] by (cases pc) (simp_all add: put_on_attempt_def)
next
  case (Some m)
  note e = put_worker_okD [OF w Some]
  have lost: "put_result_ok k j s (pc', put_awaits j s)" if "put_pc_manifest pc' = Some m" for pc'
    using put_waiting_ok [OF e(1)] e(2) that by (simp add: put_result_ok_def put_worker_ok_def)
  have stay: "put_result_ok k j s (pc', s)" if "put_pc_manifest pc' = Some m" for pc'
    by (rule put_here) (rule put_worker_okI [OF that e])
  note begun = put_begun_ok [OF e]
  show ?thesis
  proof (cases pc)
    case (PcBegin m')
    then show ?thesis using Some lost [of "PcBeginStatus m g"] begun
      by (cases a) (simp_all add: put_on_attempt_def)
  next
    case (PcBeginStatus m' g')
    then show ?thesis using Some stay [of "PcBeginStatus m g"] stay [of "PcBeginAgain m g"] begun
      by (cases a) (simp_all add: put_on_attempt_def)
  next
    case (PcChunkStatus m' g' st c)
    have "put_result_ok k j s (put_on_result k j (put_recovered m st reply)
        (\<lambda>(again, recovered). if again then (PcChunkAgain m g recovered c, s)
           else put_advance k j m g recovered s) s)" for reply
      using stay put_advance_ok [OF e acknowledged_valid(3)]
      by (intro put_on_result_ok [OF e(1)]) auto
    then show ?thesis using PcChunkStatus Some stay [of "PcChunkStatus m g st c"]
      by (cases a) (simp_all add: put_on_attempt_def)
  next
    case (PcFinalizeStatus m' g' st)
    have "put_result_ok k j s (put_on_result k j (put_refinalize m st reply)
        (\<lambda>(again, recovered). if again then (PcFinalizeAgain m g, s)
           else put_complete k j m recovered s) s)" for reply
      using stay put_complete_ok [OF e(1)]
      by (intro put_on_result_ok [OF e(1)]) auto
    then show ?thesis using PcFinalizeStatus Some stay [of "PcFinalizeStatus m g st"]
      by (cases a) (simp_all add: put_on_attempt_def)
  qed (use put_here [OF w] in \<open>simp_all add: put_on_attempt_def\<close>)
qed

subsection \<open>The journal\<close>

lemma client_persist_fields:
  assumes "client_persist k w s = (s', r)"
  shows "cx_entries s' = cx_entries s" "cx_parts s' = cx_parts s" "cx_files s' = cx_files s"
  using assms
  by (auto simp: client_persist_def client_store_persist_def Let_def
      split: if_splits option.splits sum.splits prod.splits)

definition all_parts_ok :: "client_env \<Rightarrow> client_state \<Rightarrow> bool" where
  "all_parts_ok k s \<longleftrightarrow> (\<forall>x \<in> set (cx_entries s). entry_parts_ok k (snd x))"

definition slots_ok :: "client_env \<Rightarrow> client_state \<Rightarrow> bool" where
  "slots_ok k s \<longleftrightarrow> slot_ok k (cx_slot_a s) \<and> slot_ok k (cx_slot_b s)"

lemma durable_record_parts: "entry_parts_ok k e \<Longrightarrow> record_parts_ok k (durable_record e)"
  by (cases e) auto

lemma slot_ok_written:
  assumes "client_env_ok k" and "slot_ok k old"
    and "is_ok (client_validate (ke_paths k) (ke_controller k) c)"
    and "\<forall>x \<in> set (cn_transfers c). record_parts_ok k x"
    and "write_client_slot (ke_json k) w c old = (f, r)"
  shows "slot_ok k f"
proof -
  have "slot_good (ke_json k) (client_validate (ke_paths k) (ke_controller k)) c"
    using assms(1,3) by (simp add: slot_good_def client_env_ok_def)
  from ct.put_leaves [OF this assms(5)] assms(2,4) show ?thesis unfolding slot_ok_def by blast
qed

lemma client_store_persist_cases:
  assumes "client_store_persist k w s = (s', r)"
  shows "s' = s \<and> \<not> is_ok r \<or>
    (\<exists>c g f. cn_transfers c = map (durable_record \<circ> snd) (cx_entries s)
       \<and> c = client_snapshot_of k g s \<and> g = cx_generation s + 1 \<and> g \<noteq> 0
       \<and> is_ok (client_validate (ke_paths k) (ke_controller k) c)
       \<and> write_client_slot (ke_json k) w c (if even_to_a g then cx_slot_a s else cx_slot_b s) = (f, r)
       \<and> cx_slot_a s' = (if even_to_a g then f else cx_slot_a s)
       \<and> cx_slot_b s' = (if even_to_a g then cx_slot_b s else f)
       \<and> cx_generation s' = (if is_ok r then g else cx_generation s))"
proof (cases "checked_add (cx_generation s) 1")
  case None
  then show ?thesis using assms by (auto simp: client_store_persist_def)
next
  case (Some g)
  then have g: "g = cx_generation s + 1" "g \<noteq> 0" by (simp_all add: checked_add_1)
  let ?c = "client_snapshot_of k g s"
  show ?thesis
  proof (cases "client_validate (ke_paths k) (ke_controller k) ?c")
    case (Inl e)
    then have "s' = s" "r = Err e" using assms Some by (simp_all add: client_store_persist_def)
    then show ?thesis by simp
  next
    case (Inr u)
    obtain f r0 where w: "write_client_slot (ke_json k) w ?c (if even_to_a g then cx_slot_a s else cx_slot_b s) = (f, r0)"
      by fastforce
    let ?s = "if even_to_a g then s\<lparr>cx_slot_a := f\<rparr> else s\<lparr>cx_slot_b := f\<rparr>"
    have eq: "client_store_persist k w s = (if is_ok r0 then (?s\<lparr>cx_generation := g\<rparr>, Ok ()) else (?s, r0))"
      using Some Inr w by (cases r0) (simp_all add: client_store_persist_def Let_def)
    have ru: "r = r0" using assms eq by (cases r0) (auto split: if_splits)
    have "s' = (if is_ok r then ?s\<lparr>cx_generation := g\<rparr> else ?s)"
      using assms eq ru by (cases "is_ok r0") simp_all
    then have "cx_slot_a s' = (if even_to_a g then f else cx_slot_a s)"
      and "cx_slot_b s' = (if even_to_a g then cx_slot_b s else f)"
      and "cx_generation s' = (if is_ok r then g else cx_generation s)"
      by simp_all
    moreover have "cn_transfers ?c = map (durable_record \<circ> snd) (cx_entries s)"
      by (simp add: client_snapshot_of_def)
    moreover have "is_ok (client_validate (ke_paths k) (ke_controller k) ?c)" using Inr by simp
    ultimately show ?thesis using w g ru by blast
  qed
qed

lemma persist_slots_ok:
  assumes env: "client_env_ok k" and ok: "slots_ok k s" "all_parts_ok k s"
    and p: "client_persist k w s = (s', r)"
  shows "slots_ok k s'"
proof (cases "ke_durable k")
  case False
  then show ?thesis using p ok by (auto simp: client_persist_def)
next
  case True
  then have "client_store_persist k w s = (s', r)" using p by (simp add: client_persist_def)
  from client_store_persist_cases [OF this] show ?thesis
  proof (elim disjE exE conjE)
    assume "s' = s" then show ?thesis using ok by simp
  next
    fix c g f
    assume c: "cn_transfers c = map (durable_record \<circ> snd) (cx_entries s)"
      "is_ok (client_validate (ke_paths k) (ke_controller k) c)"
      "write_client_slot (ke_json k) w c (if even_to_a g then cx_slot_a s else cx_slot_b s) = (f, r)"
      and ab: "cx_slot_a s' = (if even_to_a g then f else cx_slot_a s)"
        "cx_slot_b s' = (if even_to_a g then cx_slot_b s else f)"
    have "\<forall>x \<in> set (cn_transfers c). record_parts_ok k x"
      using ok(2) durable_record_parts by (auto simp: c(1) all_parts_ok_def simp del: record_parts_ok.simps)
    moreover have "slot_ok k (if even_to_a g then cx_slot_a s else cx_slot_b s)"
      using ok(1) by (simp add: slots_ok_def)
    ultimately have "slot_ok k f" using slot_ok_written [OF env _ c(2) _ c(3)] by blast
    then show ?thesis using ok(1) ab by (simp add: slots_ok_def)
  qed
qed

text \<open>What the journal holds. While a manager runs, the slot of its generation holds the snapshot it
  wrote last; of what is read back when none runs, the other slot is older.\<close>

abbreviation client_holds :: "client_env \<Rightarrow> slot_file \<Rightarrow> client_snapshot \<Rightarrow> bool" where
  "client_holds k f \<equiv> slot_holds (client_validate (ke_paths k) (ke_controller k)) (read_client_slot (ke_json k) f)"

definition saved_as :: "client_env \<Rightarrow> client_snapshot set \<Rightarrow> client_snapshot \<Rightarrow> client_state \<Rightarrow> bool" where
  "saved_as k tried cur s \<longleftrightarrow> cn_generation cur = cx_generation s
     \<and> journal_inv cn_generation even_to_a (client_holds k) tried (cx_slot_a s) (cx_slot_b s) cur"

definition saved :: "client_env \<Rightarrow> client_state \<Rightarrow> bool" where
  "saved k s \<longleftrightarrow> (\<exists>tried cur. saved_as k tried cur s)"

definition disk_ok :: "client_env \<Rightarrow> client_state \<Rightarrow> bool" where
  "disk_ok k s \<longleftrightarrow> (\<forall>c. load_client_slots (ke_paths k) (ke_controller k) (ke_json k) (cx_slot_a s) (cx_slot_b s)
       = Ok (Some c) \<longrightarrow>
     journal_inv cn_generation even_to_a (client_holds k) {} (cx_slot_a s) (cx_slot_b s) c)"

lemma saved_as_persist:
  assumes env: "client_env_ok k" and sv: "saved_as k tried cur s" and p: "client_store_persist k w s = (s', r)"
  shows "(\<forall>u. r = Ok u \<longrightarrow> saved_as k {} (client_snapshot_of k (cx_generation s + 1) s) s')
    \<and> (\<not> is_ok r \<longrightarrow> saved_as k (insert (client_snapshot_of k (cx_generation s + 1) s) tried) cur s')"
proof -
  have sv': "cn_generation cur = cx_generation s"
    "journal_inv cn_generation even_to_a (client_holds k) tried (cx_slot_a s) (cx_slot_b s) cur"
    using sv by (simp_all add: saved_as_def)
  from client_store_persist_cases [OF p] show ?thesis
  proof (elim disjE exE conjE)
    assume "s' = s" "\<not> is_ok r"
    moreover have "journal_inv cn_generation even_to_a (client_holds k) (insert x tried) (cx_slot_a s) (cx_slot_b s) cur" for x
      using sv'(2) by (auto simp: journal_inv_def)
    ultimately show ?thesis using sv' by (auto simp: saved_as_def)
  next
    fix c g f
    assume c: "c = client_snapshot_of k g s" and g: "g = cx_generation s + 1" "g \<noteq> 0"
      and v: "is_ok (client_validate (ke_paths k) (ke_controller k) c)"
      and wr: "write_client_slot (ke_json k) w c (if even_to_a g then cx_slot_a s else cx_slot_b s) = (f, r)"
      and s': "cx_slot_a s' = (if even_to_a g then f else cx_slot_a s)"
        "cx_slot_b s' = (if even_to_a g then cx_slot_b s else f)"
        "cx_generation s' = (if is_ok r then g else cx_generation s)"
    have gc: "cn_generation c = g" using c by (simp add: client_snapshot_of_def)
    have good: "slot_good (ke_json k) (client_validate (ke_paths k) (ke_controller k)) c"
      using env v by (simp add: slot_good_def client_env_ok_def)
    have "saved_as k {} c s'" if "r = Ok u" for u
      using ct.commit_done [OF sv'(2), of c w f u] gc g sv'(1) good wr s' that by (simp add: saved_as_def)
    moreover have "saved_as k (insert c tried) cur s'" if "\<not> is_ok r"
      using ct.commit_torn [OF sv'(2), of c w f r] gc g sv'(1) good wr s' that by (simp add: saved_as_def)
    ultimately show ?thesis using c g(1) by blast
  qed
qed

lemma persist_saved:
  assumes env: "client_env_ok k" and sv: "saved k s" and p: "client_persist k w s = (s', r)"
  shows "saved k s'"
proof (cases "ke_durable k")
  case False
  then show ?thesis using p sv by (simp add: client_persist_def)
next
  case True
  obtain tried cur where "saved_as k tried cur s" using sv by (auto simp: saved_def)
  from saved_as_persist [OF env this, of w s' r] True p show ?thesis
    by (cases r) (auto simp: saved_def client_persist_def)
qed

text \<open>Whatever was tried since, the journal can be read, and gives the last snapshot or a later one.\<close>

lemma saved_as_loads:
  assumes "saved_as k tried cur s"
  shows "\<exists>c. load_client_slots (ke_paths k) (ke_controller k) (ke_json k) (cx_slot_a s) (cx_slot_b s) = Ok (Some c)
    \<and> (c = cur \<or> c \<in> tried) \<and> cn_generation cur \<le> cn_generation c
    \<and> journal_inv cn_generation even_to_a (client_holds k) {} (cx_slot_a s) (cx_slot_b s) c"
  by (rule ct.load_recovers) (use assms in \<open>simp add: saved_as_def\<close>)

lemma saved_disk: "saved k s \<Longrightarrow> disk_ok k s"
  using saved_as_loads unfolding saved_def disk_ok_def by fastforce

text \<open>A step of the transfer \<open>tid\<close> changes its own entry and part file, and keeps the slots in order.\<close>

definition own_step :: "client_env \<Rightarrow> transfer_id \<Rightarrow> client_state \<Rightarrow> client_state \<Rightarrow> bool" where
  "own_step k tid s s' \<longleftrightarrow> (\<exists>f. cx_entries s' = bt_update tid f (cx_entries s))
     \<and> (\<forall>q. cx_parts s' q = cx_parts s q \<or> (\<exists>p. part_of k tid p \<and> q = path_parts (ke_paths k) p))
     \<and> (slots_ok k s \<and> all_parts_ok k s \<longrightarrow> slots_ok k s')
     \<and> (saved k s \<longrightarrow> saved k s')"

lemma saved_same:
  "cx_slot_a s' = cx_slot_a s \<Longrightarrow> cx_slot_b s' = cx_slot_b s \<Longrightarrow> cx_generation s' = cx_generation s
   \<Longrightarrow> saved k s' = saved k s"
  by (simp add: saved_def saved_as_def)

lemma own_step_refl: "own_step k tid s s"
  unfolding own_step_def by (auto intro: exI [of _ "\<lambda>x. x"] simp: bt_update_id)

lemma own_step_trans:
  assumes "own_step k tid s s1" and "own_step k tid s1 s2"
    and "all_parts_ok k s \<Longrightarrow> all_parts_ok k s1"
  shows "own_step k tid s s2"
proof -
  obtain f g where "cx_entries s1 = bt_update tid f (cx_entries s)" "cx_entries s2 = bt_update tid g (cx_entries s1)"
    using assms(1,2) unfolding own_step_def by blast
  then have "cx_entries s2 = bt_update tid (g \<circ> f) (cx_entries s)" by (simp add: bt_update_comp)
  then have e: "\<exists>f. cx_entries s2 = bt_update tid f (cx_entries s)" by blast
  have parts: "\<forall>q. cx_parts s2 q = cx_parts s q \<or> (\<exists>p. part_of k tid p \<and> q = path_parts (ke_paths k) p)"
    using assms(1,2) unfolding own_step_def by metis
  have "slots_ok k s \<and> all_parts_ok k s \<longrightarrow> slots_ok k s2"
    using assms unfolding own_step_def by blast
  moreover have "saved k s \<longrightarrow> saved k s2" using assms(1,2) unfolding own_step_def by blast
  ultimately show ?thesis using e parts unfolding own_step_def by blast
qed

lemma own_step_entry:
  assumes "cx_entries s' = bt_update tid f (cx_entries s)" and "cx_parts s' = cx_parts s"
    and "cx_slot_a s' = cx_slot_a s" and "cx_slot_b s' = cx_slot_b s" and "cx_generation s' = cx_generation s"
  shows "own_step k tid s s'"
  using assms saved_same [OF assms(3,4,5)] by (auto simp: own_step_def slots_ok_def)

lemma own_step_on_entry: "own_step k tid s (on_entry tid f s)"
  by (rule own_step_entry [of _ _ f]) (simp_all add: on_entry_def)

lemma only_put_own: "only_put tid s s' \<Longrightarrow> own_step k tid s s'"
  by (auto simp: only_put_def update_info_def own_step_on_entry)

lemma persist_own:
  assumes "client_env_ok k" and "client_persist k w s = (s', r)"
  shows "own_step k tid s s'"
  using client_persist_fields [OF assms(2)] persist_slots_ok [OF assms(1) _ _ assms(2)]
    persist_saved [OF assms(1) _ assms(2)]
  by (auto simp: own_step_def bt_update_id intro: exI [of _ "\<lambda>x. x"])

lemma record_warning_updates:
  "\<exists>w. record_journal_warning tid t s = update_get_info tid (\<lambda>i. i\<lparr>fgi_error := Some w\<rparr>)
     (update_info tid (\<lambda>i. i\<lparr>fpi_error := Some w\<rparr>) s)"
  unfolding record_journal_warning_def Let_def by blast

lemma record_warning_own: "own_step k tid s (record_journal_warning tid t s)"
proof -
  obtain w where "record_journal_warning tid t s = update_get_info tid (\<lambda>i. i\<lparr>fgi_error := Some w\<rparr>)
     (update_info tid (\<lambda>i. i\<lparr>fpi_error := Some w\<rparr>) s)"
    using record_warning_updates by blast
  then show ?thesis by (simp add: update_get_info_def update_info_def on_entry_comp own_step_on_entry)
qed

lemma put_entry_ok_get_update: "put_entry_ok k tid mo s \<Longrightarrow> put_entry_ok k tid mo (update_get_info tid f s)"
  by (force simp: put_entry_ok_def update_get_info_def on_entry_get)

lemma put_entry_ok_warning:
  assumes "put_entry_ok k tid mo s"
  shows "put_entry_ok k tid mo (record_journal_warning tid t s)"
proof -
  obtain w where "record_journal_warning tid t s = update_get_info tid (\<lambda>i. i\<lparr>fgi_error := Some w\<rparr>)
     (update_info tid (\<lambda>i. i\<lparr>fpi_error := Some w\<rparr>) s)"
    using record_warning_updates by blast
  moreover have "put_entry_ok k tid mo (update_info tid (\<lambda>i. i\<lparr>fpi_error := Some w\<rparr>) s)"
    by (rule put_entry_ok_phase [OF assms]) simp
  ultimately show ?thesis by (simp add: put_entry_ok_get_update)
qed

lemma put_step_ok:
  assumes env: "client_env_ok k" and w: "put_worker_ok k j pc s"
    and st: "put_step k j ev (pc, s) = (pc', s')"
  shows "put_worker_ok k j pc' s' \<and> own_step k (pj_transfer_id j) s s'"
proof -
  have e: "put_entry_ok k (pj_transfer_id j) (put_pc_manifest pc) s"
    using w by (simp add: put_worker_ok_def)
  have res: ?thesis if "put_result_ok k j s (pc', s')"
    using that only_put_own by (simp add: put_result_ok_def)
  have stay: ?thesis if "(pc, s) = (pc', s')" using that w own_step_refl by simp
  show ?thesis
  proof (cases ev)
    case (EvSource src)
    show ?thesis
      using st res [unfolded st [symmetric]] put_on_source_ok [OF env e, of src] stay EvSource
      by (cases "pc = PcPrepare") (auto simp: put_step_def)
  next
    case (EvAttempt a)
    have "put_result_ok k j s (put_on_result k j (map_err CtRemoteHub a) (\<lambda>(g, a). put_on_attempt k j pc g a s) s)"
      using put_on_attempt_ok [OF w] by (intro put_on_result_ok [OF e]) auto
    then show ?thesis using st res stay EvAttempt
      by (cases "put_attempting pc") (auto simp: put_step_def)
  next
    case (EvSession a)
    have "put_result_ok k j s (put_on_result k j (map_err CtRemoteHub a) (\<lambda>a. put_on_session k j pc a s) s)"
      by (rule put_on_result_ok [OF e put_on_session_ok [OF w]])
    then show ?thesis using st res stay EvSession
      by (cases "put_over_session pc") (auto simp: put_step_def)
  next
    case (EvRead r)
    show ?thesis
    proof (cases "\<exists>m g t. pc = PcRead m g t")
      case True
      then obtain m g t where pc: "pc = PcRead m g t" by blast
      show ?thesis using put_on_read_ok [OF w [unfolded pc], of r] st EvRead res pc
        by (simp add: put_step_def)
    next
      case False
      then show ?thesis using st stay EvRead by (cases pc) (simp_all add: put_step_def)
    qed
  next
    case EvSelectCancel
    then show ?thesis using st res put_finish_ok [OF e, of "Err CtCancelled"] stay
      by (auto simp: put_step_def split: if_splits)
  next
    case (EvCleanup a)
    let ?s = "cancel_remote (pj_transfer_id j) (cancel_confirmed a) s"
    have "put_entry_ok k (pj_transfer_id j) None ?s"
      unfolding cancel_remote_def by (rule put_entry_ok_phase [OF put_entry_ok_None [OF e]]) simp
    then have "put_result_ok k j s (PcPersist, ?s)"
      by (simp add: put_result_ok_def put_worker_ok_def cancel_remote_def only_put_update only_put_refl)
    then show ?thesis using st res stay EvCleanup by (cases "pc = PcCancel") (auto simp: put_step_def)
  next
    case (EvPersist x)
    show ?thesis
    proof (cases "pc = PcPersist")
      case True
      obtain s1 r where p: "client_persist k x s = (s1, r)" by fastforce
      have e1: "put_entry_ok k (pj_transfer_id j) None s1"
        using put_entry_ok_None [OF e] by (simp add: put_entry_ok_def client_persist_fields [OF p])
      have o: "own_step k (pj_transfer_id j) s (record_journal_warning (pj_transfer_id j) t s1)" for t
      proof (rule own_step_trans [OF persist_own [OF env p] record_warning_own])
        show "all_parts_ok k s1" if "all_parts_ok k s"
          using that by (simp add: all_parts_ok_def client_persist_fields [OF p])
      qed
      note e2 = put_entry_ok_warning [OF e1]
      show ?thesis
        using st EvPersist True p e1 e2 o persist_own [OF env p]
        by (cases r) (auto simp: put_step_def put_worker_ok_def)
    next
      case False
      then show ?thesis using st stay EvPersist by (auto simp: put_step_def)
    qed
  qed (use st stay in \<open>simp_all add: put_step_def\<close>)
qed

end
