(* ===== verification/Client_Get_Parts.thy ===== *)
theory Client_Get_Parts
  imports Client_Put_Safety
begin

section \<open>What the workers of gets keep: their part files\<close>

text \<open>
  What a get worker knows at each of its states, and the steps that recover, prepare and create its
  part file: the file holds the confirmed prefix, and the descriptor tells its length and digest.
\<close>

subsection \<open>Gets\<close>

definition get_info_ok ::
    "client_env \<Rightarrow> get_job \<Rightarrow> get_stage \<Rightarrow> file_transfer_manifest option \<Rightarrow> file_get_info
     \<Rightarrow> durable_get_state option \<Rightarrow> bool" where
  "get_info_ok k j stage mo i d \<longleftrightarrow> fgi_transfer_id i = gj_transfer_id j \<and> fgi_device_id i = gj_device_id j
     \<and> fgi_chunk_size i = gj_chunk_size j
     \<and> entry_ok (ke_paths k) (ke_controller k) (EntryGet i undefined undefined None undefined)
     \<and> (\<forall>gs. d = Some gs \<longrightarrow> part_of k (gj_transfer_id j) (gs_part_path gs))
     \<and> stage_ok k stage mo i d
     \<and> (stage = StageEnding \<longrightarrow> (\<forall>gs. d = Some gs \<longrightarrow>
          get_state_ok (ke_paths k) (ke_controller k) (gj_site_id j) i gs))"

definition get_entry_ok ::
    "client_env \<Rightarrow> get_job \<Rightarrow> get_stage \<Rightarrow> file_transfer_manifest option \<Rightarrow> client_state \<Rightarrow> bool" where
  "get_entry_ok k j stage mo s \<longleftrightarrow> (\<forall>e. bt_get (cx_entries s) (gj_transfer_id j) = Some e \<longrightarrow>
     (\<exists>i p d c. e = EntryGet i (gj_site_id j) p d c \<and> get_info_ok k j stage mo i d))"

definition job_manifest_ok :: "client_env \<Rightarrow> get_job \<Rightarrow> file_transfer_manifest \<Rightarrow> bool" where
  "job_manifest_ok k j m \<longleftrightarrow>
     client_manifest_ok m (ke_controller k) (gj_site_id j) (gj_device_id j) (gj_transfer_id j) (gj_chunk_size j)"

definition get_pc_ok :: "client_env \<Rightarrow> get_job \<Rightarrow> get_pc \<Rightarrow> (string list \<Rightarrow> bytes option) \<Rightarrow> bool" where
  "get_pc_ok k j pc parts \<longleftrightarrow>
     (\<forall>m. get_pc_manifest pc = Some m \<longrightarrow> job_manifest_ok k j m
        \<and> (\<forall>gp. get_pc_part pc = Some gp \<longrightarrow> part_inv k (gj_transfer_id j) m gp parts))
     \<and> (\<forall>p \<in> set (get_pc_paths pc). part_of k (gj_transfer_id j) p \<and> local_path_ok (ke_paths k) p)
     \<and> pc_bytes_ok pc
     \<and> (\<forall>gs gp. pc = GcResumeJournal gs gp \<or> (\<exists>g. pc = GcResumeBegin gs gp g) \<longrightarrow>
          path_parts (ke_paths k) (gs_part_path gs) = path_parts (ke_paths k) (gp_path gp))"

definition get_worker_ok :: "client_env \<Rightarrow> get_job \<Rightarrow> get_pc \<Rightarrow> client_state \<Rightarrow> bool" where
  "get_worker_ok k j pc s \<longleftrightarrow> get_pc_ok k j pc (cx_parts s)
     \<and> get_entry_ok k j (get_pc_stage pc) (get_pc_manifest pc) s"

lemma stage_bound_iff: "get_pc_stage pc = StageBound \<longleftrightarrow> worker_window (Some (GetWorker j pc))"
proof (cases pc)
  case (GcStart d)
  then show ?thesis by (cases d) simp_all
qed simp_all

lemma stage_known_manifest: "get_pc_stage pc \<in> {StageBound, StageKnown} \<Longrightarrow> get_pc_manifest pc \<noteq> None"
proof (cases pc)
  case (GcStart d)
  then show "get_pc_stage pc \<in> {StageBound, StageKnown} \<Longrightarrow> get_pc_manifest pc \<noteq> None" by (cases d) simp_all
qed simp_all

lemma get_info_iff:
  assumes "st \<in> {StageBound, StageKnown} \<Longrightarrow> \<exists>m. mo = Some m \<and> job_manifest_ok k j m"
    and "sid = gj_site_id j"
  shows "fgi_transfer_id i = gj_transfer_id j
     \<and> entry_parts_ok k (EntryGet i sid p d c)
     \<and> entry_sound (ke_paths k) (ke_controller k)
         (if st = StageBound then map_durable None (EntryGet i sid p d c) else EntryGet i sid p d c)
     \<and> fgi_device_id i = gj_device_id j \<and> fgi_chunk_size i = gj_chunk_size j
     \<and> stage_ok k st mo i d
   \<longleftrightarrow> get_info_ok k j st mo i d"
proof (cases st)
  case StageNew
  then show ?thesis using assms(2) by (cases d) (auto simp: get_info_ok_def stage_ok_def)
next
  case StageBound
  then obtain m where "mo = Some m" "job_manifest_ok k j m" using assms(1) by auto
  then show ?thesis using StageBound assms(2) by (cases d) (auto simp: get_info_ok_def stage_ok_def)
next
  case StageKnown
  then obtain m where "mo = Some m" "job_manifest_ok k j m" using assms(1) by auto
  then show ?thesis using StageKnown assms(2)
    by (cases d) (auto simp: get_info_ok_def stage_ok_def get_state_ok_def job_manifest_ok_def)
next
  case StageEnding
  then show ?thesis using assms(2) by (cases d) (auto simp: get_info_ok_def stage_ok_def)
qed

lemma get_inv_pc_ok:
  "get_inv k j pc e parts \<longleftrightarrow> get_pc_ok k j pc parts
     \<and> (\<forall>e'. e = Some e' \<longrightarrow> (\<exists>i p d c. e' = EntryGet i (gj_site_id j) p d c
          \<and> fgi_transfer_id i = gj_transfer_id j \<and> fgi_device_id i = gj_device_id j
          \<and> fgi_chunk_size i = gj_chunk_size j
          \<and> stage_ok k (get_pc_stage pc) (get_pc_manifest pc) i d))"
  unfolding get_inv_def get_pc_ok_def job_manifest_ok_def by argo

lemma tid_inv_get:
  "tid_inv k tid (Some (GetWorker j pc)) (bt_get (cx_entries s) tid) (cx_parts s)
   \<longleftrightarrow> gj_transfer_id j = tid \<and> get_worker_ok k j pc s"
proof (cases "bt_get (cx_entries s) tid")
  case None
  then show ?thesis
    by (auto simp: tid_inv_def get_worker_ok_def get_pc_ok_def get_entry_ok_def get_inv_def job_manifest_ok_def)
next
  case (Some e)
  show ?thesis
  proof (cases "gj_transfer_id j = tid \<and> get_pc_ok k j pc (cx_parts s)")
    case False
    then show ?thesis
      by (auto simp: tid_inv_def get_worker_ok_def get_pc_ok_def get_inv_def job_manifest_ok_def)
  next
    case True
    then have m: "get_pc_manifest pc = Some m \<Longrightarrow> job_manifest_ok k j m" for m
      by (simp add: get_pc_ok_def)
    have inv: "worker_inv k tid (GetWorker j pc) (Some e) (cx_parts s) \<longleftrightarrow>
        (\<exists>i p d c. e = EntryGet i (gj_site_id j) p d c
          \<and> fgi_transfer_id i = gj_transfer_id j \<and> fgi_device_id i = gj_device_id j
          \<and> fgi_chunk_size i = gj_chunk_size j
          \<and> stage_ok k (get_pc_stage pc) (get_pc_manifest pc) i d)" (is "_ \<longleftrightarrow> ?entry")
      unfolding worker_inv.simps get_inv_pc_ok using True by simp
    have "tid_inv k tid (Some (GetWorker j pc)) (Some e) (cx_parts s) \<longleftrightarrow>
        entry_inv k tid (Some (GetWorker j pc)) e \<and> ?entry"
      unfolding tid_inv_def using inv by simp
    also have "\<dots> \<longleftrightarrow> (\<exists>i p d c. e = EntryGet i (gj_site_id j) p d c
        \<and> get_info_ok k j (get_pc_stage pc) (get_pc_manifest pc) i d)"
    proof (cases e)
      case (EntryPut i s p c)
      then show ?thesis by simp
    next
      case (EntryGet i sid p d c)
      have w: "worker_window (Some (GetWorker j pc)) \<longleftrightarrow> get_pc_stage pc = StageBound"
        using stage_bound_iff by simp
      have kn: "get_pc_stage pc \<in> {StageBound, StageKnown} \<Longrightarrow>
          \<exists>m. get_pc_manifest pc = Some m \<and> job_manifest_ok k j m"
        using stage_known_manifest [of pc] m by fastforce
      have "info_transfer_id (entry_info e) = tid \<longleftrightarrow> fgi_transfer_id i = gj_transfer_id j"
        using True EntryGet by simp
      moreover note get_info_iff [where st = "get_pc_stage pc" and mo = "get_pc_manifest pc" and k = k
          and j = j and sid = "gj_site_id j" and i = i and p = p and d = d and c = c, OF kn refl]
      ultimately show ?thesis
        unfolding EntryGet entry_inv_def w using True
        by (cases "sid = gj_site_id j"; cases "get_pc_stage pc = StageBound";
            simp del: entry_sound.simps entry_parts_ok.simps map_durable.simps; blast)
    qed
    finally show ?thesis using True Some by (simp add: get_worker_ok_def get_entry_ok_def)
  qed
qed

lemma get_entry_ok_update:
  assumes "get_entry_ok k j st mo s" and "\<And>i d. get_info_ok k j st mo i d \<Longrightarrow> get_info_ok k j st' mo' (f i) d"
  shows "get_entry_ok k j st' mo' (update_get_info (gj_transfer_id j) f s)"
proof (cases "bt_get (cx_entries s) (gj_transfer_id j)")
  case None
  then show ?thesis by (simp add: get_entry_ok_def update_get_info_def on_entry_get)
next
  case (Some e)
  then obtain i p d c where e: "e = EntryGet i (gj_site_id j) p d c" "get_info_ok k j st mo i d"
    using assms(1) by (auto simp: get_entry_ok_def)
  then show ?thesis using assms(2) [OF e(2)] Some
    by (simp add: get_entry_ok_def update_get_info_def on_entry_get)
qed

lemma get_entry_ok_durable:
  assumes "get_entry_ok k j st mo s" and "\<And>i d. get_info_ok k j st mo i d \<Longrightarrow> get_info_ok k j st' mo' i d'"
  shows "get_entry_ok k j st' mo' (set_get_durable_state (gj_transfer_id j) d' s)"
proof (cases "bt_get (cx_entries s) (gj_transfer_id j)")
  case None
  then show ?thesis by (simp add: get_entry_ok_def set_get_durable_state_def on_entry_get)
next
  case (Some e)
  then obtain i p d c where e: "e = EntryGet i (gj_site_id j) p d c" "get_info_ok k j st mo i d"
    using assms(1) by (auto simp: get_entry_ok_def)
  then show ?thesis using assms(2) [OF e(2)] Some
    by (simp add: get_entry_ok_def set_get_durable_state_def on_entry_get)
qed

lemma get_entry_ok_put_update: "get_entry_ok k j st mo s \<Longrightarrow> get_entry_ok k j st mo (update_info tid f s)"
  by (force simp: get_entry_ok_def update_info_def on_entry_get)

lemma get_entry_ok_same:
  "cx_entries s' = cx_entries s \<Longrightarrow> get_entry_ok k j st mo s' = get_entry_ok k j st mo s"
  by (simp add: get_entry_ok_def)

lemma get_state_ok_update [simp]:
  "get_state_ok tp cid sid (i\<lparr>fgi_phase := p\<rparr>) gs = get_state_ok tp cid sid i gs"
  "get_state_ok tp cid sid (i\<lparr>fgi_error := e\<rparr>) gs = get_state_ok tp cid sid i gs"
  by (simp_all add: get_state_ok_def)

lemma get_info_ok_phase [simp]:
  "get_info_ok k j st mo (i\<lparr>fgi_phase := p\<rparr>) d = get_info_ok k j st mo i d"
  "get_info_ok k j st mo (i\<lparr>fgi_error := e\<rparr>) d = get_info_ok k j st mo i d"
  by (cases st; simp add: get_info_ok_def stage_ok_def)+

text \<open>A worker that gives up, or has finished, knows less.\<close>

lemma get_entry_ending:
  assumes "get_entry_ok k j st mo s" and "st \<noteq> StageBound" and "\<And>m. mo = Some m \<Longrightarrow> job_manifest_ok k j m"
  shows "get_entry_ok k j StageEnding mo' s"
proof -
  have "get_info_ok k j StageEnding mo' i d" if "get_info_ok k j st mo i d" for i d
    using that assms(2,3) by (cases st) (auto simp: get_info_ok_def stage_ok_def get_state_ok_def job_manifest_ok_def)
  then show ?thesis using assms(1) unfolding get_entry_ok_def by blast
qed

lemma get_worker_ending:
  assumes "get_worker_ok k j pc s" and "get_pc_stage pc \<noteq> StageBound"
  shows "get_entry_ok k j StageEnding mo s"
  using get_entry_ending [of k j _ "get_pc_manifest pc"] assms
  by (auto simp: get_worker_ok_def get_pc_ok_def)

definition get_result_ok :: "client_env \<Rightarrow> get_job \<Rightarrow> client_state \<Rightarrow> get_pc \<times> client_state \<Rightarrow> bool" where
  "get_result_ok k j s r \<longleftrightarrow> get_worker_ok k j (fst r) (snd r) \<and> own_step k (gj_transfer_id j) s (snd r)"

lemma get_ends:
  assumes "get_entry_ok k j StageEnding None s" and "get_pc_stage pc = StageEnding"
  shows "get_worker_ok k j pc s"
proof (cases pc)
  case (GcStart d)
  then show ?thesis using assms(2) by (cases d) simp_all
qed (use assms in \<open>auto simp: get_worker_ok_def get_pc_ok_def\<close>)

lemma get_cleanup_ok:
  assumes "get_entry_ok k j StageEnding None s"
  shows "get_result_ok k j s (GcCleanup e, s)"
  using get_ends [OF assms] own_step_refl by (simp add: get_result_ok_def)

lemma get_on_result_ok:
  assumes "get_entry_ok k j StageEnding None s1" and "own_step k (gj_transfer_id j) s s1"
    and "\<And>x. r = Ok x \<Longrightarrow> get_result_ok k j s (f x)"
  shows "get_result_ok k j s (get_on_result r f s1)"
proof (cases r)
  case (Inl e)
  then show ?thesis using assms(2) get_ends [OF assms(1)] by (simp add: get_on_result_def get_result_ok_def)
next
  case (Inr x)
  then show ?thesis using assms(3) by (simp add: get_on_result_def)
qed

lemma own_step_get [simp]:
  "own_step k tid s (update_get_info tid f s)" "own_step k tid s (set_get_durable_state tid d s)"
  by (simp_all add: update_get_info_def set_get_durable_state_def own_step_on_entry)

lemma own_step_part:
  assumes "part_of k tid p"
  shows "own_step k tid s (with_part k p c s)"
  unfolding own_step_def
proof (intro conjI allI)
  show "\<exists>f. cx_entries (with_part k p c s) = bt_update tid f (cx_entries s)"
    by (rule exI [of _ "\<lambda>x. x"]) (simp add: with_part_def bt_update_id)
  show "cx_parts (with_part k p c s) q = cx_parts s q \<or>
      (\<exists>p. part_of k tid p \<and> q = path_parts (ke_paths k) p)" for q
    using assms by (auto simp: with_part_def)
  show "slots_ok k s \<and> all_parts_ok k s \<longrightarrow> slots_ok k (with_part k p c s)"
    by (simp add: with_part_def slots_ok_def)
  show "saved k s \<longrightarrow> saved k (with_part k p c s)"
    by (simp add: with_part_def saved_def saved_as_def)
qed

lemma with_part_fields [simp]:
  "cx_entries (with_part k p c s) = cx_entries s" "cx_files (with_part k p c s) = cx_files s"
  "cx_slot_a (with_part k p c s) = cx_slot_a s" "cx_slot_b (with_part k p c s) = cx_slot_b s"
  "cx_generation (with_part k p c s) = cx_generation s" "part_at k p (with_part k p c s) = c"
  "cx_parts (with_part k p c s) = (cx_parts s)(path_parts (ke_paths k) p := c)"
  by (simp_all add: with_part_def part_at_def)

lemma own_quiet_trans:
  assumes "own_step k tid s s1" "own_step k tid s1 s2" "cx_slot_a s2 = cx_slot_a s1" "cx_slot_b s2 = cx_slot_b s1"
    "cx_generation s2 = cx_generation s1"
  shows "own_step k tid s s2"
proof -
  obtain f g where "cx_entries s1 = bt_update tid f (cx_entries s)" "cx_entries s2 = bt_update tid g (cx_entries s1)"
    using assms(1,2) unfolding own_step_def by blast
  then have "cx_entries s2 = bt_update tid (g \<circ> f) (cx_entries s)" by (simp add: bt_update_comp)
  then have e: "\<exists>f. cx_entries s2 = bt_update tid f (cx_entries s)" by blast
  have parts: "\<forall>q. cx_parts s2 q = cx_parts s q \<or> (\<exists>p. part_of k tid p \<and> q = path_parts (ke_paths k) p)"
    using assms(1,2) unfolding own_step_def by metis
  have "slots_ok k s \<and> all_parts_ok k s \<longrightarrow> slots_ok k s2"
    using assms by (simp add: own_step_def slots_ok_def)
  moreover have "saved k s \<longrightarrow> saved k s2" using assms(1) saved_same [OF assms(3-5)] by (simp add: own_step_def)
  ultimately show ?thesis using e parts unfolding own_step_def by blast
qed

lemma own_then_get:
  assumes "own_step k tid s s1"
  shows "own_step k tid s (update_get_info tid f s1)" "own_step k tid s (set_get_durable_state tid d s1)"
  by (rule own_quiet_trans [OF assms]; simp add: update_get_info_def set_get_durable_state_def own_step_on_entry)+

lemma get_update_parts [simp]:
  "cx_parts (update_get_info tid f s) = cx_parts s" "cx_parts (set_get_durable_state tid d s) = cx_parts s"
  by (simp_all add: update_get_info_def set_get_durable_state_def)

lemma get_worker_okI:
  assumes "get_pc_ok k j pc (cx_parts s)" and "get_entry_ok k j (get_pc_stage pc) (get_pc_manifest pc) s"
  shows "get_worker_ok k j pc s"
  using assms by (simp add: get_worker_ok_def)

lemma get_here: "get_worker_ok k j pc s \<Longrightarrow> get_result_ok k j s (pc, s)"
  by (simp add: get_result_ok_def own_step_refl)

lemma get_result_here:
  "get_worker_ok k j pc s' \<Longrightarrow> own_step k (gj_transfer_id j) s s' \<Longrightarrow> get_result_ok k j s (pc, s')"
  by (simp add: get_result_ok_def)

text \<open>A worker that knows the manifest and has a part file.\<close>

definition get_known_ok :: "client_env \<Rightarrow> get_job \<Rightarrow> file_transfer_manifest \<Rightarrow> client_state \<Rightarrow> bool" where
  "get_known_ok k j m s \<longleftrightarrow> job_manifest_ok k j m \<and> get_entry_ok k j StageKnown (Some m) s"

lemma get_known_ending: "get_known_ok k j m s \<Longrightarrow> get_entry_ok k j StageEnding None s"
  by (rule get_entry_ending [where st = StageKnown and mo = "Some m"])
     (simp_all add: get_known_ok_def)

lemma get_known_phase:
  assumes "get_known_ok k j m s" and "\<And>i d. get_info_ok k j StageKnown (Some m) i d \<Longrightarrow> get_info_ok k j StageKnown (Some m) (f i) d"
  shows "get_known_ok k j m (update_get_info (gj_transfer_id j) f s)"
  using assms get_entry_ok_update [of k j StageKnown "Some m" s StageKnown "Some m" f]
  by (simp add: get_known_ok_def)

lemma get_waiting_known: "get_known_ok k j m s \<Longrightarrow> get_known_ok k j m (get_waiting j s)"
  unfolding get_waiting_def by (erule get_known_phase) simp

lemma get_running_known: "get_known_ok k j m s \<Longrightarrow> get_known_ok k j m (get_running j s)"
  unfolding get_running_def by (erule get_known_phase) simp

lemma get_loop_ok:
  assumes kn: "get_known_ok k j m s1" and p: "part_inv k (gj_transfer_id j) m gp (cx_parts s1)"
    and own: "own_step k (gj_transfer_id j) s s1"
  shows "get_result_ok k j s (get_loop k j g m gp s1)"
proof (cases "fd_confirmed_offset (gp_descriptor gp) < fm_total_size m")
  case True
  then have "get_worker_ok k j (GcChunk g m gp) s1"
    using kn p by (simp add: get_worker_ok_def get_pc_ok_def get_known_ok_def)
  then show ?thesis
    using True own get_ends [OF get_known_ending [OF kn]] by (simp add: get_loop_def get_result_ok_def)
next
  case False
  have le: "fd_confirmed_offset (gp_descriptor gp) \<le> fm_total_size m"
    using p by (auto simp: part_inv_def fd_ok_def)
  have l: "unat (fm_total_size m) = length (gp_prefix gp)"
    using False le p by (simp add: part_inv_def)
  show ?thesis
  proof (cases "sha256_hex (ke_sha k) (gp_prefix gp) \<noteq> fm_final_sha256 m
              \<or> fd_confirmed_prefix_sha256 (gp_descriptor gp) \<noteq> fm_final_sha256 m")
    case True
    then show ?thesis
      using False own get_ends [OF get_known_ending [OF kn]] by (simp add: get_loop_def get_result_ok_def)
  next
    case hash: False
    then have "get_worker_ok k j (GcPlace m gp) s1"
      using kn p l by (simp add: get_worker_ok_def get_pc_ok_def get_known_ok_def)
    then show ?thesis using False hash own by (simp add: get_loop_def get_result_ok_def)
  qed
qed

lemma get_on_start_ok:
  assumes w: "get_worker_ok k j (GcStart d) s"
  shows "get_result_ok k j s (get_on_start k j d s)"
proof -
  have e: "get_entry_ok k j StageEnding None s"
    using get_worker_ending [OF w] by (cases d) simp_all
  have n: "get_worker_ok k j (GcBegin None) s" if "d = None"
    using w that by (simp add: get_worker_ok_def get_pc_ok_def)
  have r: "get_worker_ok k j (GcRecover gs) s" if "d = Some gs" for gs
    using w that by (simp add: get_worker_ok_def get_pc_ok_def)
  show ?thesis
  proof (cases "is_cancelled (gj_transfer_id j) s")
    case True
    then show ?thesis using get_cleanup_ok [OF e] by (simp add: get_on_start_def)
  next
    case False
    show ?thesis
    proof (cases d)
      case None
      then show ?thesis using False get_here [OF n] by (simp add: get_on_start_def)
    next
      case (Some gs)
      note h = get_here [OF r [OF Some]]
      show ?thesis using False Some get_on_result_ok [OF e own_step_refl h] by (simp add: get_on_start_def)
    qed
  qed
qed

subsection \<open>Part files\<close>

lemma open_part_ok:
  assumes part: "part_of k tid path" and o: "open_part k fs path create s = (s1, r)"
  shows "own_step k tid s s1" "cx_entries s1 = cx_entries s" "r = Ok c \<Longrightarrow> part_at k path s1 = Some c"
proof -
  have "s1 = s \<and> (\<forall>c. r = Ok c \<longrightarrow> part_at k path s = Some c) \<or> s1 = with_part k path (Some []) s \<and> r = Ok []"
    using o by (auto simp: open_part_def split: part_stat.splits option.splits if_splits)
  then show "own_step k tid s s1" "cx_entries s1 = cx_entries s" "r = Ok c \<Longrightarrow> part_at k path s1 = Some c"
    using own_step_part [OF part] own_step_refl by auto
qed

lemma check_part_ok:
  assumes env: "client_env_ok k" and part: "part_of k tid path" and m: "manifest_ok m"
    and c: "check_part k fs path target m persisted content = Ok gp"
    and here: "parts (path_parts (ke_paths k) path) = Some content"
  shows "part_inv k tid m gp parts \<and> gp_path gp = path \<and> gp_target gp = target"
proof -
  have l: "\<not> length content > unat (fm_total_size m)"
    using c by (auto simp: check_part_def split: if_splits)
  have "bind_r (part_descriptor k m content) (\<lambda>d. Ok \<lparr>gp_path = path, gp_target = target,
      gp_descriptor = d, gp_prefix = content\<rparr>) = Ok gp"
    using c by (auto simp: check_part_def split: if_splits part_stat.splits)
  then obtain d where pd: "part_descriptor k m content = Ok d"
    and gp: "gp = \<lparr>gp_path = path, gp_target = target, gp_descriptor = d, gp_prefix = content\<rparr>"
    by (auto simp: bind_r_Ok)
  have un: "unat (word_of_nat (length content) :: u64) = length content"
    using l unsigned_less [of "fm_total_size m", where ?'a = nat] by (simp add: unat_of_nat)
  obtain d0 where d0: "initial_resume_descriptor m = Ok d0" "fd_ok d0" "fd_confirmed_offset d0 = 0"
    using initial_resume_descriptor_Ok [OF m] by blast
  have t0: "fd_total_size d0 = fm_total_size m"
    using d0(1) by (auto simp: initial_resume_descriptor_def fd_new_def bind_r_Ok Let_def)
  show ?thesis
  proof (cases "content = []")
    case True
    then have "d = d0" using pd d0(1) by (simp add: part_descriptor_def)
    moreover have "fd_confirmed_prefix_sha256 d0 = EMPTY_SHA256_HEX" using d0(2,3) by (simp add: fd_ok_def)
    moreover have "sha256_hex (ke_sha k) [] = EMPTY_SHA256_HEX" using env by (simp add: client_env_ok_def)
    ultimately show ?thesis using gp d0 t0 True part here by (simp add: part_inv_def)
  next
    case False
    then have n: "(0 :: u64) < word_of_nat (length content)"
      using un by (simp add: word_less_nat_alt)
    then have "fd_ok d \<and> fd_confirmed_offset d = word_of_nat (length content)
        \<and> fd_confirmed_prefix_sha256 d = sha256_hex (ke_sha k) content \<and> fd_total_size d = fm_total_size m"
      using pd d0(1) t0 by (auto simp: part_descriptor_def bind_r_Ok Let_def fd_validate_Ok)
    then show ?thesis using here gp part un by (simp add: part_inv_def)
  qed
qed

lemma open_or_create_part_ok:
  assumes env: "client_env_ok k" and part: "part_of k tid path" and m: "manifest_ok m"
    and o: "open_or_create_part k fs path target m persisted create s = (s1, r)"
  shows "own_step k tid s s1" "cx_entries s1 = cx_entries s"
    and "r = Ok gp \<Longrightarrow> part_inv k tid m gp (cx_parts s1) \<and> gp_path gp = path \<and> gp_target gp = target"
proof -
  obtain r0 where r0: "open_part k fs path create s = (s1, r0)"
    and r: "r = bind_r r0 (check_part k fs path target m persisted)"
    using o by (cases "open_part k fs path create s") (simp add: open_or_create_part_def)
  show "own_step k tid s s1" "cx_entries s1 = cx_entries s"
    using open_part_ok [OF part r0] by blast+
  assume "r = Ok gp"
  then obtain c where c: "r0 = Ok c" "check_part k fs path target m persisted c = Ok gp"
    using r by (auto simp: bind_r_Ok)
  show "part_inv k tid m gp (cx_parts s1) \<and> gp_path gp = path \<and> gp_target gp = target"
    by (rule check_part_ok [OF env part m c(2)]) (use open_part_ok(3) [OF part r0 c(1)] in \<open>simp add: part_at_def\<close>)
qed

lemma prepared_paths:
  assumes "prepare_destination_paths k fs requested policy tid = Ok (part, target)"
  shows "part_of k tid part" and "length (to_string_lossy part) \<le> 4096"
  using assms
  by (auto simp: prepare_destination_paths_def Let_def bind_r_Ok part_of_def bounds_simps not_less
      split: if_splits)

lemma recover_part_ok:
  assumes env: "client_env_ok k" and m: "manifest_ok (gs_manifest gs)"
    and o: "recover_part k fs j gs persisted s = (s1, r)"
  shows "own_step k (gj_transfer_id j) s s1" "cx_entries s1 = cx_entries s"
    and "r = Ok gp \<Longrightarrow> part_inv k (gj_transfer_id j) (gs_manifest gs) gp (cx_parts s1)
      \<and> path_parts (ke_paths k) (gs_part_path gs) = path_parts (ke_paths k) (gp_path gp)"
proof -
  consider (err) "s1 = s" "\<not> is_ok r"
    | (part) part target where
        "prepare_destination_paths k fs (gj_destination_path j) (gj_policy j) (gj_transfer_id j) = Ok (part, target)"
        "path_eq (ke_paths k) (gs_part_path gs) part"
        "open_or_create_part k fs part target (gs_manifest gs) persisted (persisted = 0) s = (s1, r)"
    using o by (auto simp: recover_part_def split: sum.splits if_splits)
  then have "own_step k (gj_transfer_id j) s s1 \<and> cx_entries s1 = cx_entries s
    \<and> (\<forall>gp. r = Ok gp \<longrightarrow> part_inv k (gj_transfer_id j) (gs_manifest gs) gp (cx_parts s1)
      \<and> path_parts (ke_paths k) (gs_part_path gs) = path_parts (ke_paths k) (gp_path gp))"
  proof cases
    case err
    then show ?thesis using own_step_refl by auto
  next
    case part
    from open_or_create_part_ok [OF env prepared_paths(1) [OF part(1)] m part(3)] part(2)
    show ?thesis by (auto simp: path_eq_def)
  qed
  then show "own_step k (gj_transfer_id j) s s1" "cx_entries s1 = cx_entries s"
    and "r = Ok gp \<Longrightarrow> part_inv k (gj_transfer_id j) (gs_manifest gs) gp (cx_parts s1)
      \<and> path_parts (ke_paths k) (gs_part_path gs) = path_parts (ke_paths k) (gp_path gp)"
    by blast+
qed


lemma get_known_entries: "cx_entries s1 = cx_entries s \<Longrightarrow> get_known_ok k j m s1 = get_known_ok k j m s"
  by (simp add: get_known_ok_def get_entry_ok_def)

lemma get_workerD:
  assumes "get_worker_ok k j pc s" and "get_pc_stage pc = StageKnown" and "get_pc_manifest pc = Some m"
  shows "get_known_ok k j m s"
  using assms by (simp add: get_worker_ok_def get_pc_ok_def get_known_ok_def)

lemma get_worker_part:
  assumes "get_worker_ok k j pc s" and "get_pc_manifest pc = Some m" and "get_pc_part pc = Some gp"
  shows "part_inv k (gj_transfer_id j) m gp (cx_parts s)"
  using assms by (simp add: get_worker_ok_def get_pc_ok_def)

lemma job_manifest_okD: "job_manifest_ok k j m \<Longrightarrow> manifest_ok m"
  by (simp add: job_manifest_ok_def client_manifest_ok_def)

lemma get_known_progress:
  assumes "get_known_ok k j m s" and "n \<le> fm_total_size m"
  shows "get_known_ok k j m (update_get_info (gj_transfer_id j)
    (\<lambda>i. i\<lparr>fgi_confirmed_offset := n, fgi_phase := p, fgi_error := err i\<rparr>) s)"
proof (rule get_known_phase [OF assms(1)])
  fix i d assume "get_info_ok k j StageKnown (Some m) i d"
  then show "get_info_ok k j StageKnown (Some m)
      (i\<lparr>fgi_confirmed_offset := n, fgi_phase := p, fgi_error := err i\<rparr>) d"
    using assms(2) by (auto simp: get_info_ok_def stage_ok_def)
qed

lemma part_inv_le: "part_inv k tid m gp parts \<Longrightarrow> fd_confirmed_offset (gp_descriptor gp) \<le> fm_total_size m"
  by (auto simp: part_inv_def fd_ok_def)

lemma get_on_recover_ok:
  assumes env: "client_env_ok k" and w: "get_worker_ok k j (GcRecover gs) s"
  shows "get_result_ok k j s (get_on_recover k j gs fs s)"
proof -
  have kn: "get_known_ok k j (gs_manifest gs) s" using get_workerD [OF w] by simp
  have m: "manifest_ok (gs_manifest gs)" using kn by (auto simp: get_known_ok_def dest: job_manifest_okD)
  have gsp: "part_of k (gj_transfer_id j) (gs_part_path gs)" "local_path_ok (ke_paths k) (gs_part_path gs)"
    using w by (simp_all add: get_worker_ok_def get_pc_ok_def)
  have "get_result_ok k j s (let (s1, r) = recover_part k fs j gs (fgi_confirmed_offset i) s in
       get_on_result r (\<lambda>gp. (GcResumeJournal gs gp,
          update_get_info (gj_transfer_id j) (\<lambda>i.
            i\<lparr>fgi_confirmed_offset := fd_confirmed_offset (gp_descriptor gp),
              fgi_phase := CpWaitingForReconnect, fgi_error := None\<rparr>) s1)) s1)" for i :: file_get_info
  proof -
    obtain s1 r where r: "recover_part k fs j gs (fgi_confirmed_offset i) s = (s1, r)" by fastforce
    note rp = recover_part_ok [OF env m r]
    have kn1: "get_known_ok k j (gs_manifest gs) s1" using kn get_known_entries [OF rp(2)] by simp
    have "get_result_ok k j s (GcResumeJournal gs gp, update_get_info (gj_transfer_id j) (\<lambda>i.
            i\<lparr>fgi_confirmed_offset := fd_confirmed_offset (gp_descriptor gp),
              fgi_phase := CpWaitingForReconnect, fgi_error := None\<rparr>) s1)"
      if g: "r = Ok gp" for gp
    proof (rule get_result_here [OF get_worker_okI own_then_get(1) [OF rp(1)]])
      have p: "part_inv k (gj_transfer_id j) (gs_manifest gs) gp (cx_parts s1)"
        "path_parts (ke_paths k) (gs_part_path gs) = path_parts (ke_paths k) (gp_path gp)"
        using rp(3) [OF g] by simp_all
      show "get_pc_ok k j (GcResumeJournal gs gp) (cx_parts (update_get_info (gj_transfer_id j) (\<lambda>i.
            i\<lparr>fgi_confirmed_offset := fd_confirmed_offset (gp_descriptor gp),
              fgi_phase := CpWaitingForReconnect, fgi_error := None\<rparr>) s1))"
        using p gsp kn by (simp add: get_pc_ok_def get_known_ok_def)
      show "get_entry_ok k j (get_pc_stage (GcResumeJournal gs gp)) (get_pc_manifest (GcResumeJournal gs gp))
          (update_get_info (gj_transfer_id j) (\<lambda>i.
            i\<lparr>fgi_confirmed_offset := fd_confirmed_offset (gp_descriptor gp),
              fgi_phase := CpWaitingForReconnect, fgi_error := None\<rparr>) s1)"
        using get_known_progress [OF kn1 part_inv_le [OF p(1)]] by (simp add: get_known_ok_def)
    qed
    from get_on_result_ok [OF get_known_ending [OF kn1] rp(1) this] show ?thesis using r by simp
  qed
  then show ?thesis
    unfolding get_on_recover_def by (rule get_on_result_ok [OF get_known_ending [OF kn] own_step_refl])
qed

lemma get_on_prepare_ok:
  assumes w: "get_worker_ok k j (GcPrepare g m) s" and can: "canonical_ok k fs"
  shows "get_result_ok k j s (get_on_prepare k j g m fs s)"
proof -
  have e: "get_entry_ok k j StageEnding None s" using get_worker_ending [OF w] by simp
  have jm: "job_manifest_ok k j m" using w by (simp add: get_worker_ok_def get_pc_ok_def)
  have "get_result_ok k j s (if \<not> utf8_valid part then (GcCleanup CtInvalidDestinationPath, s)
          else (GcBound g m part target, set_get_durable_state (gj_transfer_id j)
                  (Some \<lparr>gs_part_path = part, gs_manifest = m\<rparr>) s))"
    if p: "prepare_destination_paths k fs (gj_destination_path j) (gj_policy j) (gj_transfer_id j) = Ok (part, target)"
    for part target
  proof (cases "utf8_valid part")
    case False
    then show ?thesis using get_cleanup_ok [OF e] by simp
  next
    case True
    obtain parent q where c: "kf_canonicalize fs parent = Ok q"
      "part = pl_join (tp_platform (ke_paths k)) q (part_name k (gj_transfer_id j))"
      using p by (auto simp: prepare_destination_paths_def Let_def bind_r_Ok split: if_splits)
    have l: "local_path_ok (ke_paths k) part"
      using can c True prepared_paths(2) [OF p] to_string_lossy_valid [OF True]
      by (auto simp: local_path_ok_def canonical_ok_def Let_def)
    have "get_entry_ok k j StageBound (Some m) (set_get_durable_state (gj_transfer_id j)
            (Some \<lparr>gs_part_path = part, gs_manifest = m\<rparr>) s)"
    proof (rule get_entry_ok_durable)
      show "get_entry_ok k j StageNew (Some m) s" using w by (simp add: get_worker_ok_def)
      show "get_info_ok k j StageBound (Some m) i (Some \<lparr>gs_part_path = part, gs_manifest = m\<rparr>)"
        if "get_info_ok k j StageNew (Some m) i d" for i d
        using that l prepared_paths(1) [OF p] by (auto simp: get_info_ok_def stage_ok_def)
    qed
    then have "get_worker_ok k j (GcBound g m part target) (set_get_durable_state (gj_transfer_id j)
            (Some \<lparr>gs_part_path = part, gs_manifest = m\<rparr>) s)"
      using jm l prepared_paths(1) [OF p] by (simp add: get_worker_ok_def get_pc_ok_def)
    then show ?thesis using True get_result_here [OF _ own_step_get(2)] by simp
  qed
  then show ?thesis
    unfolding get_on_prepare_def by (intro get_on_result_ok [OF e own_step_refl]) auto
qed

lemma get_on_bound_ok:
  assumes w: "get_worker_ok k j (GcBound g m part target) s"
  shows "get_result_ok k j s (get_on_bound j g m part target s)"
proof -
  have jm: "job_manifest_ok k j m" using w by (simp add: get_worker_ok_def get_pc_ok_def)
  have hex: "is_sha256_hex (fm_final_sha256 m)" using job_manifest_okD [OF jm] by (simp add: manifest_ok_def)
  let ?f = "\<lambda>i. i\<lparr>fgi_total_size := Some (fm_total_size m), fgi_final_sha256 := Some (fm_final_sha256 m),
      fgi_phase := CpRunning\<rparr>"
  have "get_entry_ok k j StageKnown (Some m) (update_get_info (gj_transfer_id j) ?f s)"
  proof (rule get_entry_ok_update)
    show "get_entry_ok k j StageBound (Some m) s" using w by (simp add: get_worker_ok_def)
    show "get_info_ok k j StageKnown (Some m) (?f i) d" if "get_info_ok k j StageBound (Some m) i d" for i d
      using that hex by (auto simp: get_info_ok_def stage_ok_def)
  qed
  then have "get_worker_ok k j (GcJournal g m part target) (update_get_info (gj_transfer_id j) ?f s)"
    using w by (simp add: get_worker_ok_def get_pc_ok_def)
  then show ?thesis unfolding get_on_bound_def by (rule get_result_here) simp
qed

lemma get_on_create_ok:
  assumes env: "client_env_ok k" and w: "get_worker_ok k j (GcCreate g m part target) s"
  shows "get_result_ok k j s (get_on_create k j g m part target fs s)"
proof -
  have kn: "get_known_ok k j m s" using get_workerD [OF w] by simp
  have m: "manifest_ok m" using kn by (auto simp: get_known_ok_def dest: job_manifest_okD)
  have p: "part_of k (gj_transfer_id j) part" using w by (simp add: get_worker_ok_def get_pc_ok_def)
  obtain s1 r where o: "open_or_create_part k fs part target m 0 True s = (s1, r)" by fastforce
  note op = open_or_create_part_ok [OF env p m o]
  have kn1: "get_known_ok k j m s1" using kn get_known_entries [OF op(2)] by simp
  have "get_result_ok k j s (get_loop k j g m gp s1)" if "r = Ok gp" for gp
    using get_loop_ok [OF kn1 _ op(1)] op(3) [OF that] by blast
  from get_on_result_ok [OF get_known_ending [OF kn1] op(1) this] show ?thesis
    using o by (simp add: get_on_create_def)
qed

end
