(* ===== verification/Client_Get_Safety.thy ===== *)
theory Client_Get_Safety
  imports Client_Get_Parts
begin

section \<open>What the workers of gets keep: chunks and the placing of a file\<close>

text \<open>
  The steps that write chunks, put a finished part file into place, and end a transfer; together
  with the steps before them every step of a get worker keeps what the worker knows and touches
  its own entry and part file only.
\<close>

subsection \<open>Chunks and the end of a get\<close>

lemma write_part_chunk_ok:
  assumes part: "part_of k tid path" and w: "write_part_chunk k w path offset bs s = (s1, r)"
    and c: "part_at k path s = Some content"
  shows "own_step k tid s s1" "cx_entries s1 = cx_entries s"
    and "r = Ok u \<Longrightarrow> part_at k path s1 = Some (content @ bs)"
proof -
  have f: "(s1 = s \<and> \<not> is_ok r) \<or> (\<exists>n. s1 = with_part k path (Some (write_at (unat offset) (take n bs) content)) s \<and> \<not> is_ok r)
    \<or> s1 = with_part k path (Some (write_at (unat offset) bs content)) s \<and> (is_ok r \<longrightarrow> length content = unat offset)"
    using w c by (cases w) (auto simp: write_part_chunk_def Let_def split: if_splits)
  then have "own_step k tid s s1 \<and> cx_entries s1 = cx_entries s"
    using own_step_part [OF part] own_step_refl by auto
  then show "own_step k tid s s1" "cx_entries s1 = cx_entries s" by simp_all
  show "part_at k path s1 = Some (content @ bs)" if "r = Ok u"
    using f that by (auto simp: write_at_def)
qed

lemma get_on_write_ok:
  assumes env: "client_env_ok k" and w: "get_worker_ok k j (GcWrite g m gp bs) s"
  shows "get_result_ok k j s (get_on_write k j g m gp bs x s)"
proof -
  let ?d = "gp_descriptor gp" and ?gp = "next_part k gp bs"
  have kn: "get_known_ok k j m s" using get_workerD [OF w] by simp
  have p: "part_inv k (gj_transfer_id j) m gp (cx_parts s)" using get_worker_part [OF w] by simp
  have b: "length bs = expected_len m (fd_confirmed_offset ?d)" "fd_confirmed_offset ?d < fm_total_size m"
    using w by (simp_all add: get_worker_ok_def get_pc_ok_def)
  have part: "part_of k (gj_transfer_id j) (gp_path gp)" and c: "part_at k (gp_path gp) s = Some (gp_prefix gp)"
    using p by (simp_all add: part_inv_def part_at_def)
  obtain s1 r where wr: "write_part_chunk k x (gp_path gp) (fd_confirmed_offset ?d) bs s = (s1, r)" by fastforce
  note wp = write_part_chunk_ok [OF part wr c]
  have kn1: "get_known_ok k j m s1" using kn get_known_entries [OF wp(2)] by simp
  have lb: "length bs \<le> unat (fm_total_size m) - unat (fd_confirmed_offset ?d)"
    using b(1) by (simp add: expected_len_def unat_min unat_saturating_sub)
  have un: "unat (word_of_nat (length bs) :: u64) = length bs"
    using lb unsigned_less [of "fm_total_size m", where ?'a = nat] by (simp add: unat_of_nat)
  have sum: "unat (saturating_add (fd_confirmed_offset ?d) (word_of_nat (length bs))) = length (gp_prefix gp @ bs)"
  proof -
    have "unat (fd_confirmed_offset ?d) + length bs \<le> unat (fm_total_size m)"
      using lb b(2) by (simp add: word_less_nat_alt)
    then have "unat (fd_confirmed_offset ?d) + length bs < 2 ^ 64"
      using unsigned_less [of "fm_total_size m", where ?'a = nat] by simp
    then show ?thesis using p un by (simp add: unat_saturating_add part_inv_def)
  qed
  have "get_result_ok k j s (get_loop k j g m ?gp (update_get_info (gj_transfer_id j) (\<lambda>i.
             i\<lparr>fgi_confirmed_offset := fd_confirmed_offset (gp_descriptor ?gp), fgi_phase := CpRunning\<rparr>) s1))"
    if r: "bind_r r (\<lambda>_. map_err CtResume (fd_validate (gp_descriptor ?gp))) = Ok u" for u
  proof -
    have ok: "r = Ok ()" "fd_ok (gp_descriptor ?gp)" using r by (auto simp: bind_r_Ok fd_validate_Ok)
    have pi: "part_inv k (gj_transfer_id j) m ?gp (cx_parts s1)"
      using p ok(2) wp(3) [OF ok(1)] sum
      by (simp add: part_inv_def next_part_def Let_def next_descriptor_def part_at_def)
    have "get_known_ok k j m (update_get_info (gj_transfer_id j) (\<lambda>i.
             i\<lparr>fgi_confirmed_offset := fd_confirmed_offset (gp_descriptor ?gp), fgi_phase := CpRunning\<rparr>) s1)"
      using get_known_progress [OF kn1 part_inv_le [OF pi], where p = CpRunning and err = fgi_error] by simp
    from get_loop_ok [OF this _ own_then_get(1) [OF wp(1)]] pi show ?thesis by simp
  qed
  then have "get_result_ok k j s (get_on_result
      (bind_r r (\<lambda>_. map_err CtResume (fd_validate (gp_descriptor ?gp))))
      (\<lambda>_. get_loop k j g m ?gp (update_get_info (gj_transfer_id j) (\<lambda>i.
             i\<lparr>fgi_confirmed_offset := fd_confirmed_offset (gp_descriptor ?gp), fgi_phase := CpRunning\<rparr>) s1)) s1)"
    by (rule get_on_result_ok [OF get_known_ending [OF kn1] wp(1)])
  then show ?thesis using wr by (simp add: get_on_write_def Let_def)
qed

text \<open>What putting a part file into place does: nothing but take it away, or put its bytes at a path.\<close>

definition placed ::
    "client_env \<Rightarrow> string \<Rightarrow> file_conflict_policy \<Rightarrow> string \<Rightarrow> bytes \<Rightarrow> client_state \<Rightarrow> client_state \<Rightarrow> bool" where
  "placed k part policy path content s s1 \<longleftrightarrow>
     s1 = with_part k part None (with_file k path content (with_part k part None s))
     \<and> (policy = ReplaceExisting \<or> cx_files s (path_parts (ke_paths k) path) = None)"

lemma place_noclobber_cases:
  assumes "place_noclobber k fails part target s = (s1, r)"
  shows "s1 = s \<and> \<not> is_ok r \<or> (\<exists>content. part_at k part s = Some content \<and> r = Ok ()
    \<and> s1 = with_file k target content (with_part k part None s)
    \<and> cx_files s (path_parts (ke_paths k) target) = None)"
  using assms by (auto simp: place_noclobber_def split: option.splits if_splits)

lemma place_renaming_cases:
  assumes "place_renaming k fails unsynced part target attempt left path s = (s1, r)"
  shows "s1 = s \<and> \<not> is_ok r \<or> (\<exists>content path'. part_at k part s = Some content \<and> r = place_synced unsynced path'
    \<and> s1 = with_file k path' content (with_part k part None s)
    \<and> cx_files s (path_parts (ke_paths k) path') = None)"
  using assms
proof (induction left arbitrary: attempt path)
  case 0
  then show ?case by auto
next
  case (Suc left)
  obtain s2 r2 where p: "place_noclobber k fails part path s = (s2, r2)" by fastforce
  show ?case
  proof (cases r2)
    case (Inr u)
    then show ?thesis using Suc.prems p place_noclobber_cases [OF p] by auto
  next
    case (Inl e)
    then have s2: "s2 = s" using place_noclobber_cases [OF p] by auto
    show ?thesis
    proof (cases "e = IoAlreadyExists")
      case True
      then show ?thesis
        using Suc.prems p Inl s2 Suc.IH
        by (cases "controller_rename_candidate k target (attempt + 1)") auto
    next
      case False
      then show ?thesis using Suc.prems p Inl s2 by (cases e) auto
    qed
  qed
qed

lemma place_synced_Ok: "place_synced u p = Ok q \<longleftrightarrow> u = None \<and> q = p"
  by (auto simp: place_synced_def split: option.splits)

lemma persist_destination_cases:
  assumes "persist_destination k w part target policy s = (s1, r)"
  shows "s1 = with_part k part None s \<and> \<not> is_ok r \<or>
    (\<exists>content path. part_at k part s = Some content \<and> placed k part policy path content s s1
       \<and> (\<forall>q. r = Ok q \<longrightarrow> q = path))"
proof -
  obtain seen fails unsynced where w: "w = PlaceAtTarget seen fails unsynced" by (cases w)
  show ?thesis
  proof (cases policy)
    case FailIfExists
    obtain s2 r2 where p: "place_noclobber k fails part target s = (s2, r2)" by fastforce
    show ?thesis
    proof (cases r2)
      case (Inl e)
      then show ?thesis using assms w FailIfExists p place_noclobber_cases [OF p]
        by (cases e) (auto simp: persist_destination_def)
    next
      case (Inr u)
      then obtain content where c: "part_at k part s = Some content"
        "s2 = with_file k target content (with_part k part None s)"
        "cx_files s (path_parts (ke_paths k) target) = None"
        using place_noclobber_cases [OF p] by auto
      have "s1 = with_part k part None s2" "r = place_synced unsynced target"
        using assms w FailIfExists p Inr by (simp_all add: persist_destination_def)
      then show ?thesis using c by (auto simp: placed_def place_synced_Ok)
    qed
  next
    case ReplaceExisting
    show ?thesis
    proof (cases "seen = LstatNode SymlinkNode \<or> seen = LstatNode DirNode")
      case True
      then show ?thesis using assms w ReplaceExisting by (auto simp: persist_destination_def)
    next
      case False
      show ?thesis
      proof (cases "fails = None \<and> part_at k part s \<noteq> None")
        case True
        then obtain content where c: "part_at k part s = Some content" by blast
        have "s1 = with_part k part None (with_file k target content (with_part k part None s))"
          "r = place_synced unsynced target"
          using assms w ReplaceExisting False True c
          by (simp_all add: persist_destination_def place_replacing_def)
        then show ?thesis using c ReplaceExisting by (auto simp: placed_def place_synced_Ok)
      next
        case nothing: False
        then show ?thesis using assms w ReplaceExisting False
          by (auto simp: persist_destination_def place_replacing_def split: option.splits)
      qed
    qed
  next
    case RenameIfExists
    obtain s2 r2 where p: "place_renaming k fails unsynced part target 0 101 target s = (s2, r2)" by fastforce
    have e: "s1 = with_part k part None s2" "r = r2"
      using assms w RenameIfExists p by (simp_all add: persist_destination_def)
    from place_renaming_cases [OF p] show ?thesis
    proof (elim disjE exE conjE)
      assume "s2 = s" "\<not> is_ok r2"
      then show ?thesis using e by simp
    next
      fix content path'
      assume c: "part_at k part s = Some content" "r2 = place_synced unsynced path'"
        "s2 = with_file k path' content (with_part k part None s)"
        "cx_files s (path_parts (ke_paths k) path') = None"
      then have "placed k part policy path' content s s1" using e by (simp add: placed_def)
      moreover have "\<forall>q. r = Ok q \<longrightarrow> q = path'" using c(2) e by (simp add: place_synced_Ok)
      ultimately show ?thesis using c(1) by blast
    qed
  qed
qed

lemma own_step_placed:
  assumes "part_of k tid part" and "placed k part policy path content s s1"
  shows "own_step k tid s s1" "cx_entries s1 = cx_entries s"
proof -
  have s1: "s1 = with_part k part None (with_file k path content (with_part k part None s))"
    using assms(2) by (simp add: placed_def)
  show "cx_entries s1 = cx_entries s" using s1 by (simp add: with_file_def)
  show "own_step k tid s s1"
  proof (rule own_quiet_trans [OF own_step_part [OF assms(1), where c = None]])
    show "own_step k tid (with_part k part None s) s1"
      unfolding own_step_def s1
      by (auto simp: with_file_def slots_ok_def saved_def saved_as_def bt_update_id intro: exI [of _ "\<lambda>x. x"])
  qed (simp_all add: s1 with_file_def)
qed

lemma get_on_place_ok:
  assumes w: "get_worker_ok k j (GcPlace m gp) s"
  shows "get_result_ok k j s (get_on_place k j m gp x s)"
proof -
  have kn: "get_known_ok k j m s" using get_workerD [OF w] by simp
  have part: "part_of k (gj_transfer_id j) (gp_path gp)"
    using get_worker_part [OF w] by (simp add: part_inv_def)
  obtain s1 r where r: "persist_destination k x (gp_path gp) (gp_target gp) (gj_policy j) s = (s1, r)" by fastforce
  have own: "own_step k (gj_transfer_id j) s s1" "cx_entries s1 = cx_entries s"
    using persist_destination_cases [OF r] own_step_placed [OF part] own_step_part [OF part] by auto
  have kn1: "get_known_ok k j m s1" using kn get_known_entries [OF own(2)] by simp
  let ?f = "\<lambda>path i. i\<lparr>fgi_phase := CpCompleted, fgi_confirmed_offset := fm_total_size m,
                  fgi_final_controller_path := Some path, fgi_error := None\<rparr>"
  have e: "get_entry_ok k j StageEnding None (clear_get_durable_state (gj_transfer_id j)
      (update_get_info (gj_transfer_id j) (?f path) s1))" for path
    unfolding clear_get_durable_state_def
  proof (rule get_entry_ok_durable)
    show "get_entry_ok k j StageKnown (Some m) (update_get_info (gj_transfer_id j) (?f path) s1)"
    proof (rule get_entry_ok_update)
      show "get_entry_ok k j StageKnown (Some m) s1" using kn1 by (simp add: get_known_ok_def)
      show "get_info_ok k j StageKnown (Some m) (?f path i) d" if "get_info_ok k j StageKnown (Some m) i d" for i d
        using that by (auto simp: get_info_ok_def stage_ok_def)
    qed
    show "get_info_ok k j StageEnding None i None" if "get_info_ok k j StageKnown (Some m) i d" for i d
      using that by (auto simp: get_info_ok_def stage_ok_def)
  qed
  have "get_result_ok k j s (GcConfirm, clear_get_durable_state (gj_transfer_id j)
      (update_get_info (gj_transfer_id j) (?f path) s1))" for path
    by (rule get_result_here [OF get_ends [OF e]])
      (simp_all add: clear_get_durable_state_def own_then_get [OF own_then_get(1) [OF own(1)]])
  then have "\<And>path. bind_r r (\<lambda>path. if utf8_valid path then Ok path else Err CtInvalidDestinationPath) = Ok path
    \<Longrightarrow> get_result_ok k j s (GcConfirm, clear_get_durable_state (gj_transfer_id j)
      (update_get_info (gj_transfer_id j) (?f path) s1))" by blast
  from get_on_result_ok [OF get_known_ending [OF kn1] own(1) this] show ?thesis
    using r by (simp add: get_on_place_def)
qed

lemma get_chunk_bytes_Ok:
  assumes "get_chunk_bytes k m gp reply = Ok bs"
  shows "length bs = expected_len m (fd_confirmed_offset (gp_descriptor gp))"
  using assms by (auto simp: get_chunk_bytes_def Let_def bind_r_Ok split: if_splits)

lemma part_inv_moved:
  assumes "part_inv k tid m gp parts" and "path_parts (ke_paths k) p = path_parts (ke_paths k) (gp_path gp)"
  shows "part_inv k tid m (gp\<lparr>gp_path := p\<rparr>) parts"
  using assms by (simp add: part_inv_def part_of_def)

lemma get_on_attempt_ok:
  assumes w: "get_worker_ok k j pc s"
  shows "get_result_ok k j s (get_on_attempt k j pc g a s)"
proof (cases pc)
  case (GcResumeBegin gs gp prev)
  have kn: "get_known_ok k j (gs_manifest gs) s" using get_workerD [OF w] GcResumeBegin by simp
  have p: "part_inv k (gj_transfer_id j) (gs_manifest gs) gp (cx_parts s)"
    and q: "path_parts (ke_paths k) (gs_part_path gs) = path_parts (ke_paths k) (gp_path gp)"
    using w GcResumeBegin by (simp_all add: get_worker_ok_def get_pc_ok_def)
  have lost: "get_result_ok k j s (GcResumeBegin gs gp (Some g), get_waiting j s)"
  proof (rule get_result_here [OF get_worker_okI])
    show "get_pc_ok k j (GcResumeBegin gs gp (Some g)) (cx_parts (get_waiting j s))"
      using w GcResumeBegin by (simp add: get_worker_ok_def get_pc_ok_def get_waiting_def)
    show "get_entry_ok k j (get_pc_stage (GcResumeBegin gs gp (Some g)))
        (get_pc_manifest (GcResumeBegin gs gp (Some g))) (get_waiting j s)"
      using get_waiting_known [OF kn] by (simp add: get_known_ok_def)
  qed (simp add: get_waiting_def)
  have go: "get_result_ok k j s (get_loop k j g (gs_manifest gs) (gp\<lparr>gp_path := gs_part_path gs\<rparr>) (get_running j s))"
    by (rule get_loop_ok [OF get_running_known [OF kn]])
      (simp_all add: get_running_def part_inv_moved [OF p q])
  have "get_result_ok k j s (if m \<noteq> gs_manifest gs
       then (GcCleanup (CtInvalidHostManifest ''device source manifest changed across Controller restart''), s)
       else get_loop k j g m (gp\<lparr>gp_path := gs_part_path gs\<rparr>) (get_running j s))" for m
    using go get_cleanup_ok [OF get_known_ending [OF kn]] by simp
  from get_on_result_ok [OF get_known_ending [OF kn] own_step_refl this] show ?thesis
    using GcResumeBegin lost
    by (cases a) (simp_all add: get_on_attempt_def)
next
  case (GcBegin prev)
  have e: "get_entry_ok k j StageEnding None s" using get_worker_ending [OF w] GcBegin by simp
  have n: "get_entry_ok k j StageNew mo s" for mo
    using w GcBegin by (simp add: get_worker_ok_def get_entry_ok_def get_info_ok_def stage_ok_def)
  have nw: "get_entry_ok k j StageNew None (get_waiting j s)"
    unfolding get_waiting_def by (rule get_entry_ok_update [OF n]) simp
  have lost: "get_result_ok k j s (GcBegin (Some g), get_waiting j s)"
    by (rule get_result_here [OF get_worker_okI]) (use nw in \<open>simp_all add: get_pc_ok_def get_waiting_def\<close>)
  have "get_result_ok k j s (GcPrepare g m, s)"
    if "bind_r (manifest_of_reply reply) (\<lambda>m. bind_r (validate_get_manifest m (ke_controller k) (gj_site_id j)
          (gj_device_id j) (gj_transfer_id j) (gj_chunk_size j)) (\<lambda>_. Ok m)) = Ok m" for reply m
  proof (rule get_here [OF get_worker_okI])
    show "get_pc_ok k j (GcPrepare g m) (cx_parts s)"
      using that by (auto simp: get_pc_ok_def bind_r_Ok validate_get_manifest_Ok job_manifest_ok_def)
    show "get_entry_ok k j (get_pc_stage (GcPrepare g m)) (get_pc_manifest (GcPrepare g m)) s" using n by simp
  qed
  from get_on_result_ok [OF e own_step_refl this] show ?thesis
    using GcBegin lost by (cases a) (simp_all add: get_on_attempt_def)
next
  case (GcChunkBegin g' m gp)
  have kn: "get_known_ok k j m s" using get_workerD [OF w] GcChunkBegin by simp
  have lost: "get_result_ok k j s (GcChunkBegin g m gp, get_waiting j s)"
  proof (rule get_result_here [OF get_worker_okI])
    show "get_pc_ok k j (GcChunkBegin g m gp) (cx_parts (get_waiting j s))"
      using w GcChunkBegin by (simp add: get_worker_ok_def get_pc_ok_def get_waiting_def)
    show "get_entry_ok k j (get_pc_stage (GcChunkBegin g m gp)) (get_pc_manifest (GcChunkBegin g m gp)) (get_waiting j s)"
      using get_waiting_known [OF kn] by (simp add: get_known_ok_def)
  qed (simp add: get_waiting_def)
  have "get_worker_ok k j (GcChunkAgain g m gp) s"
    using w GcChunkBegin by (simp add: get_worker_ok_def get_pc_ok_def)
  then have "get_result_ok k j s (if m' \<noteq> m
      then (GcCleanup (CtInvalidHostManifest ''device source manifest changed after reconnect''), s)
      else (GcChunkAgain g m gp, s))" for m'
    using get_cleanup_ok [OF get_known_ending [OF kn]] get_here by simp
  from get_on_result_ok [OF get_known_ending [OF kn] own_step_refl this] show ?thesis
    using GcChunkBegin lost
    by (cases a) (simp_all add: get_on_attempt_def)
qed (use get_here [OF w] in \<open>simp_all add: get_on_attempt_def\<close>)

lemma get_on_session_ok:
  assumes w: "get_worker_ok k j pc s"
  shows "get_result_ok k j s (get_on_session k j pc a s)"
proof (cases "\<exists>g m gp. pc = GcChunk g m gp \<or> pc = GcChunkAgain g m gp")
  case True
  then obtain g m gp where pc: "pc = GcChunk g m gp \<or> pc = GcChunkAgain g m gp" by blast
  have kn: "get_known_ok k j m s" using get_workerD [OF w] pc by auto
  have lost: "get_result_ok k j s (GcChunkBegin g m gp, get_waiting j s)"
  proof (rule get_result_here [OF get_worker_okI])
    show "get_pc_ok k j (GcChunkBegin g m gp) (cx_parts (get_waiting j s))"
      using w pc by (auto simp: get_worker_ok_def get_pc_ok_def get_waiting_def)
    show "get_entry_ok k j (get_pc_stage (GcChunkBegin g m gp)) (get_pc_manifest (GcChunkBegin g m gp)) (get_waiting j s)"
      using get_waiting_known [OF kn] by (simp add: get_known_ok_def)
  qed (simp add: get_waiting_def)
  have received: "get_result_ok k j s (GcWrite g m gp bs, s)"
    if "get_chunk_bytes k m gp reply = Ok bs" for reply bs
    using get_here [OF get_worker_okI] w pc get_chunk_bytes_Ok [OF that]
    by (auto simp: get_worker_ok_def get_pc_ok_def)
  note e = get_known_ending [OF kn]
  have r1: "get_result_ok k j s (get_on_result (get_chunk_bytes k m gp reply) (\<lambda>bs. (GcWrite g m gp bs, s)) s)" for reply
    by (rule get_on_result_ok [OF e own_step_refl received])
  have r2: "get_result_ok k j s (get_on_result (bind_r (map_err CtRemoteHub a) (get_chunk_bytes k m gp))
            (\<lambda>bs. (GcWrite g m gp bs, s)) s)"
    by (rule get_on_result_ok [OF e own_step_refl]) (auto simp: bind_r_Ok dest: received)
  show ?thesis using pc lost r1 r2 by (cases a) (auto simp: get_on_session_def)
next
  case False
  then show ?thesis using get_here [OF w] by (cases pc) (simp_all add: get_on_session_def)
qed

lemma get_clean_ok:
  assumes w: "get_worker_ok k j (GcCleanup e) s"
  shows "get_result_ok k j s (get_clean k j e fails s)"
proof -
  let ?tid = "gj_transfer_id j"
  let ?s = "cleanup_get_local_part k fails ?tid s"
  have en: "get_entry_ok k j StageEnding None s" using w by (simp add: get_worker_ok_def)
  have c: "own_step k ?tid s ?s \<and> get_entry_ok k j StageEnding None ?s"
  proof (cases "\<exists>i sid p gs c. bt_get (cx_entries s) ?tid = Some (EntryGet i sid p (Some gs) c)")
    case True
    then obtain i sid p gs c where g: "bt_get (cx_entries s) ?tid = Some (EntryGet i sid p (Some gs) c)" by blast
    have part: "part_of k ?tid (gs_part_path gs)" using en g by (auto simp: get_entry_ok_def get_info_ok_def)
    show ?thesis
    proof (cases fails)
      case None
      then have "?s = with_part k (gs_part_path gs) None s" using g by (simp add: cleanup_get_local_part_def)
      then show ?thesis using own_step_part [OF part] en by (simp add: get_entry_ok_def)
    next
      case (Some t)
      then have "?s = record_journal_warning ?tid (''Controller get part cleanup failed: '' @ t) s"
        using g by (simp add: cleanup_get_local_part_def)
      moreover have "get_entry_ok k j StageEnding None (record_journal_warning ?tid x s)" for x
      proof -
        obtain wn where "record_journal_warning ?tid x s = update_get_info ?tid (\<lambda>i. i\<lparr>fgi_error := Some wn\<rparr>)
            (update_info ?tid (\<lambda>i. i\<lparr>fpi_error := Some wn\<rparr>) s)"
          using record_warning_updates by blast
        moreover have "get_entry_ok k j StageEnding None (update_get_info ?tid (\<lambda>i. i\<lparr>fgi_error := Some wn\<rparr>)
            (update_info ?tid (\<lambda>i. i\<lparr>fpi_error := Some wn\<rparr>) s))"
          by (rule get_entry_ok_update [OF get_entry_ok_put_update [OF en]]) simp
        ultimately show ?thesis by simp
      qed
      ultimately show ?thesis using record_warning_own by simp
    qed
  next
    case False
    then have "?s = s" unfolding cleanup_get_local_part_def
      by (auto split: option.splits client_entry.splits)
    then show ?thesis using en own_step_refl by simp
  qed
  have f: "get_entry_ok k j StageEnding None (set_get_failed ?tid t ?s)" for t
    unfolding set_get_failed_def
    by (rule get_entry_ok_update) (use c in auto)
  have own: "own_step k ?tid s (set_get_failed ?tid t ?s)" for t
    unfolding set_get_failed_def by (rule own_then_get(1) [OF conjunct1 [OF c]])
  show ?thesis
    using conjunct1 [OF c] own get_ends [OF conjunct2 [OF c]] get_ends [OF f]
    by (cases "e = CtCancelled") (simp_all add: get_clean_def get_result_ok_def Let_def)
qed

lemma get_on_cleanup_ok:
  assumes w: "get_worker_ok k j pc s"
  shows "get_result_ok k j s (get_on_cleanup j pc b s)"
proof (cases "pc \<in> {GcConfirm, GcCancelRemote, GcFailRemote}")
  case True
  then have en: "get_entry_ok k j StageEnding None s" using w by (auto simp: get_worker_ok_def)
  have er: "get_entry_ok k j StageEnding None (update_get_info (gj_transfer_id j) (\<lambda>i. i\<lparr>fgi_error := x\<rparr>) s)" for x
    by (rule get_entry_ok_update [OF en]) simp
  have ph: "get_entry_ok k j StageEnding None
      (update_get_info (gj_transfer_id j) (\<lambda>i. i\<lparr>fgi_phase := p, fgi_error := x\<rparr>) s)" for p x
    by (rule get_entry_ok_update [OF en]) simp
  have cl: "get_entry_ok k j StageEnding None (clear_get_durable_state (gj_transfer_id j) s')"
    if "get_entry_ok k j StageEnding None s'" for s'
    unfolding clear_get_durable_state_def
    by (rule get_entry_ok_durable [OF that]) (auto simp: get_info_ok_def stage_ok_def)
  have "get_entry_ok k j StageEnding None (snd (get_on_cleanup j pc b s))"
    using True en cl [OF ph] cl [OF en] er by (auto simp: get_on_cleanup_def cancel_get_remote_def Let_def)
  moreover have "fst (get_on_cleanup j pc b s) = GcPersist" using True by (auto simp: get_on_cleanup_def Let_def)
  moreover have "own_step k (gj_transfer_id j) s (snd (get_on_cleanup j pc b s))"
    using True by (auto simp: get_on_cleanup_def cancel_get_remote_def clear_get_durable_state_def Let_def
        own_step_refl own_then_get)
  ultimately show ?thesis using get_ends by (simp add: get_result_ok_def)
next
  case False
  then have "get_on_cleanup j pc b s = (pc, s)" by (cases pc) (simp_all add: get_on_cleanup_def)
  then show ?thesis using get_here [OF w] by simp
qed

lemma get_on_persist_ok:
  assumes env: "client_env_ok k" and w: "get_worker_ok k j pc s"
  shows "get_result_ok k j s (get_on_persist k j pc x s)"
proof -
  let ?tid = "gj_transfer_id j"
  obtain s1 r where p: "client_persist k x s = (s1, r)" by fastforce
  note f = client_persist_fields [OF p] and own = persist_own [OF env p, of ?tid]
  have same: "get_worker_ok k j pc' s1 = get_worker_ok k j pc' s" for pc'
    by (simp add: get_worker_ok_def get_entry_ok_def f)
  have ending: "get_entry_ok k j StageEnding None s1" if "get_pc_stage pc \<noteq> StageBound"
    using get_worker_ending [OF w that] by (simp add: get_entry_ok_def f)
  show ?thesis
  proof (cases "(\<exists>gs gp. pc = GcResumeJournal gs gp) \<or> (\<exists>g m part target. pc = GcJournal g m part target) \<or> pc = GcPersist")
    case True
    then have e: "get_entry_ok k j StageEnding None s1" using ending by auto
    have res: "get_result_ok k j s (get_on_result r (\<lambda>_. (pc', s1)) s1)" if "get_worker_ok k j pc' s1" for pc'
      by (rule get_on_result_ok [OF e own]) (rule get_result_here [OF that own])
    have warn: "get_entry_ok k j StageEnding None (record_journal_warning ?tid t s1)"
      and warn_own: "own_step k ?tid s (record_journal_warning ?tid t s1)" for t
    proof -
      obtain wn where rw: "record_journal_warning ?tid t s1 = update_get_info ?tid (\<lambda>i. i\<lparr>fgi_error := Some wn\<rparr>)
          (update_info ?tid (\<lambda>i. i\<lparr>fpi_error := Some wn\<rparr>) s1)"
        using record_warning_updates by blast
      show "get_entry_ok k j StageEnding None (record_journal_warning ?tid t s1)"
        unfolding rw by (rule get_entry_ok_update [OF get_entry_ok_put_update [OF e]]) simp
      show "own_step k ?tid s (record_journal_warning ?tid t s1)"
        unfolding rw by (rule own_quiet_trans [OF own])
          (simp_all add: update_get_info_def update_info_def on_entry_comp own_step_on_entry)
    qed
    have "pc = GcPersist \<Longrightarrow> ?thesis"
      using p get_ends [OF e] get_ends [OF warn] own warn_own
      by (cases r) (simp_all add: get_on_persist_def get_result_ok_def)
    moreover have "pc = GcResumeJournal gs gp \<Longrightarrow> ?thesis" for gs gp
      using p res [of "GcResumeBegin gs gp None"] w
      by (simp add: get_on_persist_def same) (simp add: get_worker_ok_def get_pc_ok_def)
    moreover have "pc = GcJournal g m part target \<Longrightarrow> ?thesis" for g m part target
      using p res [of "GcCreate g m part target"] w
      by (simp add: get_on_persist_def same) (simp add: get_worker_ok_def get_pc_ok_def)
    ultimately show ?thesis using True by blast
  next
    case False
    then have "get_on_persist k j pc x s = (pc, s)" using p by (cases pc) (simp_all add: get_on_persist_def)
    then show ?thesis using get_here [OF w] by simp
  qed
qed

lemma get_step_ok:
  assumes env: "client_env_ok k" and w: "get_worker_ok k j pc s"
    and fits: "event_fits k ev"
  shows "get_result_ok k j s (get_step k j ev (pc, s))"
proof -
  note stay = get_here [OF w]
  show ?thesis
  proof (cases ev)
    case EvGo
    then show ?thesis using w stay get_on_start_ok get_on_bound_ok
      by (cases pc) (simp_all add: get_step_def)
  next
    case (EvLocal fs)
    then have can: "canonical_ok k fs" using fits by (simp add: event_fits_def)
    show ?thesis using EvLocal w stay get_on_recover_ok [OF env] get_on_prepare_ok [OF _ can] get_on_create_ok [OF env]
      by (cases pc) (simp_all add: get_step_def)
  next
    case (EvAttempt a)
    show ?thesis
    proof (cases "get_attempting pc")
      case True
      then have st: "get_pc_stage pc \<noteq> StageBound" by (cases pc) simp_all
      have "get_result_ok k j s (get_on_result (map_err CtRemoteHub a) (\<lambda>(g, a). get_on_attempt k j pc g a s) s)"
        using get_on_attempt_ok [OF w] by (intro get_on_result_ok [OF get_worker_ending [OF w st] own_step_refl]) auto
      then show ?thesis using EvAttempt True by (simp add: get_step_def)
    next
      case False
      then show ?thesis using EvAttempt stay by (simp add: get_step_def)
    qed
  next
    case (EvSession a)
    show ?thesis
    proof (cases "get_over_session pc")
      case True
      then have st: "get_pc_stage pc \<noteq> StageBound" by (cases pc) simp_all
      have "get_result_ok k j s (get_on_result (map_err CtRemoteHub a) (\<lambda>a. get_on_session k j pc a s) s)"
        using get_on_session_ok [OF w] by (intro get_on_result_ok [OF get_worker_ending [OF w st] own_step_refl])
      then show ?thesis using EvSession True by (simp add: get_step_def)
    next
      case False
      then show ?thesis using EvSession stay by (simp add: get_step_def)
    qed
  next
    case EvSelectCancel
    show ?thesis
    proof (cases "get_attempting pc")
      case True
      then have st: "get_pc_stage pc \<noteq> StageBound" by (cases pc) simp_all
      then show ?thesis using EvSelectCancel stay get_cleanup_ok [OF get_worker_ending [OF w st]]
        by (simp add: get_step_def)
    next
      case False
      then show ?thesis using EvSelectCancel stay by (simp add: get_step_def)
    qed
  next
    case (EvWrite x)
    then show ?thesis using w stay get_on_write_ok [OF env] by (cases pc) (simp_all add: get_step_def)
  next
    case (EvPlace x)
    then show ?thesis using w stay get_on_place_ok by (cases pc) (simp_all add: get_step_def)
  next
    case (EvRemove x)
    then show ?thesis using w stay get_clean_ok by (cases pc) (simp_all add: get_step_def)
  next
    case (EvCleanup x)
    then show ?thesis using get_on_cleanup_ok [OF w] by (simp add: get_step_def)
  next
    case (EvPersist x)
    then show ?thesis using stay get_on_persist_ok [OF env w] by (cases pc) (simp_all add: get_step_def)
  qed (use stay in \<open>simp_all add: get_step_def\<close>)
qed

end
