(* ===== verification/Client_Runs.thy ===== *)
theory Client_Runs
  imports Client_Get_Safety
begin

section \<open>What holds in every history of the controller's transfers\<close>

text \<open>
  The steps of the workers, the requests of the manager, changes by other programs and restarts all
  keep the invariant of the whole system, so it holds in every state of every history. The
  properties of the component follow.
\<close>

subsection \<open>The whole system\<close>

lemma part_of_inj:
  assumes "client_env_ok k" and "part_of k a p" and "part_of k b q"
    and "path_parts (ke_paths k) p = path_parts (ke_paths k) q"
  shows "a = b"
  using assms unfolding client_env_ok_def part_of_def by metis

lemma part_inv_other:
  assumes env: "client_env_ok k" and own: "own_step k tid s s'" and t: "t \<noteq> tid"
    and p: "part_inv k t m gp (cx_parts s)"
  shows "part_inv k t m gp (cx_parts s')"
proof -
  have "part_of k t (gp_path gp)" using p by (simp add: part_inv_def)
  then have "cx_parts s' (path_parts (ke_paths k) (gp_path gp)) = cx_parts s (path_parts (ke_paths k) (gp_path gp))"
    using own t part_of_inj [OF env] unfolding own_step_def by metis
  then show ?thesis using p by (simp add: part_inv_def)
qed

lemma tid_inv_other:
  assumes env: "client_env_ok k" and own: "own_step k tid s s'" and t: "t \<noteq> tid"
    and inv: "tid_inv k t w (bt_get (cx_entries s) t) (cx_parts s)"
  shows "tid_inv k t w (bt_get (cx_entries s') t) (cx_parts s')"
proof -
  obtain f where "cx_entries s' = bt_update tid f (cx_entries s)" using own unfolding own_step_def by blast
  then have e: "bt_get (cx_entries s') t = bt_get (cx_entries s) t" using t by simp
  have "get_worker_ok k j pc s'" if g: "get_worker_ok k j pc s" "gj_transfer_id j = t" for j pc
    using g part_inv_other [OF env own t] e
    by (simp add: get_worker_ok_def get_pc_ok_def get_entry_ok_def)
  note get = this
  show ?thesis
  proof (cases w)
    case None
    then show ?thesis using inv e by (simp add: tid_inv_def entry_inv_def)
  next
    case (Some wk)
    show ?thesis
    proof (cases wk)
      case (PutWorker j pc)
      have "tid_inv k t (Some (PutWorker j pc)) (bt_get (cx_entries s) t) (cx_parts s)"
        using inv Some PutWorker by simp
      then have "pj_transfer_id j = t \<and> put_worker_ok k j pc s" unfolding tid_inv_put .
      then have "pj_transfer_id j = t \<and> put_worker_ok k j pc s'"
        using e by (auto simp: put_worker_ok_def put_entry_ok_def)
      then have "tid_inv k t (Some (PutWorker j pc)) (bt_get (cx_entries s') t) (cx_parts s')"
        unfolding tid_inv_put .
      then show ?thesis using Some PutWorker by simp
    next
      case (GetWorker j pc)
      have "tid_inv k t (Some (GetWorker j pc)) (bt_get (cx_entries s) t) (cx_parts s)"
        using inv Some GetWorker by simp
      then have "gj_transfer_id j = t \<and> get_worker_ok k j pc s" unfolding tid_inv_get .
      with get have "gj_transfer_id j = t \<and> get_worker_ok k j pc s'" by blast
      then have "tid_inv k t (Some (GetWorker j pc)) (bt_get (cx_entries s') t) (cx_parts s')"
        unfolding tid_inv_get .
      then show ?thesis using Some GetWorker by simp
    qed
  qed
qed

lemma tid_inv_removed:
  assumes "tid_inv k t w e parts" shows "tid_inv k t w None parts"
proof (cases w)
  case None
  then show ?thesis by (simp add: tid_inv_def)
next
  case (Some wk)
  show ?thesis
  proof (cases wk)
    case (PutWorker j pc)
    then show ?thesis using assms Some by (simp add: tid_inv_def put_inv_def)
  next
    case (GetWorker j pc)
    then show ?thesis using assms Some by (simp add: tid_inv_def get_inv_pc_ok)
  qed
qed

lemma system_parts_ok:
  assumes "entries_bounded s" and "\<forall>tid. tid_inv k tid (ws tid) (bt_get (cx_entries s) tid) parts"
  shows "all_parts_ok k s"
  unfolding all_parts_ok_def
proof
  fix x assume x: "x \<in> set (cx_entries s)"
  then have "bt_get (cx_entries s) (fst x) = Some (snd x)"
    using assms(1) by (auto simp: entries_bounded_def intro: bt_wf_getD)
  then show "entry_parts_ok k (snd x)" using assms(2) by (auto simp: tid_inv_def entry_inv_def)
qed

text \<open>The state of a manager that is up, with its workers.\<close>

definition manager_ok :: "client_env \<Rightarrow> (transfer_id \<Rightarrow> client_worker option) \<Rightarrow> client_state \<Rightarrow> bool" where
  "manager_ok k ws s \<longleftrightarrow> slots_ok k s \<and> entries_bounded s
     \<and> (\<forall>tid. tid_inv k tid (ws tid) (bt_get (cx_entries s) tid) (cx_parts s))"

lemma system_ok_manager:
  "system_ok k y \<longleftrightarrow> slots_ok k (sy_state y) \<and> (sy_up y \<longrightarrow> manager_ok k (sy_workers y) (sy_state y))"
  by (auto simp: system_ok_def manager_ok_def slots_ok_def)

lemma manager_parts_ok: "manager_ok k ws s \<Longrightarrow> all_parts_ok k s"
  using system_parts_ok by (auto simp: manager_ok_def)

text \<open>What one transfer does leaves the others as they are.\<close>

lemma own_step_manager:
  assumes env: "client_env_ok k" and ok: "manager_ok k ws s" and own: "own_step k tid s s'"
    and tid: "tid_inv k tid w (bt_get (cx_entries s') tid) (cx_parts s')"
  shows "manager_ok k (ws(tid := w)) s'"
proof -
  obtain f where f: "cx_entries s' = bt_update tid f (cx_entries s)" using own unfolding own_step_def by blast
  have "slots_ok k s'" using own ok manager_parts_ok [OF ok] by (simp add: own_step_def manager_ok_def)
  moreover have "entries_bounded s'" using ok f by (simp add: manager_ok_def entries_bounded_def)
  moreover have "tid_inv k t ((ws(tid := w)) t) (bt_get (cx_entries s') t) (cx_parts s')" for t
    using tid tid_inv_other [OF env own, of t] ok by (cases "t = tid") (simp_all add: manager_ok_def)
  ultimately show ?thesis by (simp add: manager_ok_def)
qed

subsection \<open>Workers\<close>

lemma worker_step_ok:
  assumes env: "client_env_ok k" and inv: "tid_inv k tid (Some wk) (bt_get (cx_entries s) tid) (cx_parts s)"
    and fits: "event_fits k ev" and st: "worker_step k ev wk s = (wk', s')"
  shows "tid_inv k tid (Some wk') (bt_get (cx_entries s') tid) (cx_parts s') \<and> own_step k tid s s'"
proof (cases wk)
  case (PutWorker j pc)
  have w: "pj_transfer_id j = tid" "put_worker_ok k j pc s"
    using inv tid_inv_put [of k tid j pc s "cx_parts s"] PutWorker by simp_all
  obtain pc' s2 where p: "put_step k j ev (pc, s) = (pc', s2)" by fastforce
  then have eqs: "wk' = PutWorker j pc'" "s' = s2" using st PutWorker by (simp_all add: worker_step_def)
  have "put_worker_ok k j pc' s2 \<and> own_step k (pj_transfer_id j) s s2"
    by (rule put_step_ok [OF env w(2) p])
  then show ?thesis using tid_inv_put [of k tid j pc' s2 "cx_parts s2"] w(1) eqs by simp
next
  case (GetWorker j pc)
  have w: "gj_transfer_id j = tid" "get_worker_ok k j pc s"
    using inv tid_inv_get [of k tid j pc s] GetWorker by simp_all
  obtain pc' s2 where p: "get_step k j ev (pc, s) = (pc', s2)" by fastforce
  then have eqs: "wk' = GetWorker j pc'" "s' = s2" using st GetWorker by (simp_all add: worker_step_def)
  have "get_result_ok k j s (pc', s2)"
    using get_step_ok [OF env w(2), of ev] fits w(1) p by simp
  then show ?thesis using tid_inv_get [of k tid j pc' s2] w(1) eqs by (simp add: get_result_ok_def)
qed

subsection \<open>Requests\<close>

lemma persist_manager:
  assumes "client_env_ok k" and "manager_ok k ws s" and p: "client_persist k w s = (s', r)"
  shows "manager_ok k ws s'"
proof -
  have "tid_inv k tid (ws tid) (bt_get (cx_entries s') tid) (cx_parts s')" for tid
    using assms(2) client_persist_fields [OF p] by (simp add: manager_ok_def)
  from own_step_manager [OF assms(1,2) persist_own [OF assms(1) p] this] show ?thesis by simp
qed

lemma get_state_ok_phase:
  "get_state_ok tp cid sid (i\<lparr>fgi_phase := p\<rparr>) gs = get_state_ok tp cid sid i gs"
  by (simp add: get_state_ok_def)

lemma entry_inv_mark:
  "entry_inv k tid w (mark_cancelling e) = entry_inv k tid w e"
  "entry_inv k tid w (signal_cancel e) = entry_inv k tid w e"
  by (cases e; cases "worker_window w"; simp add: entry_inv_def get_state_ok_phase)+

lemma stage_ok_phase: "stage_ok k st mo (i\<lparr>fgi_phase := ph\<rparr>) d = stage_ok k st mo i d"
  by (cases st) (simp_all add: stage_ok_def)

lemma put_inv_mark:
  assumes "put_inv k j pc (Some e)"
  shows "put_inv k j pc (Some (mark_cancelling e)) \<and> put_inv k j pc (Some (signal_cancel e))"
proof (cases e)
  case (EntryPut i s p c)
  then show ?thesis using assms by (simp add: put_inv_def) blast
next
  case (EntryGet i s p d c)
  then show ?thesis using assms by (simp add: put_inv_def)
qed

lemma get_inv_mark:
  assumes "get_inv k j pc (Some e) parts"
  shows "get_inv k j pc (Some (mark_cancelling e)) parts \<and> get_inv k j pc (Some (signal_cancel e)) parts"
proof (cases e)
  case (EntryPut i s p c)
  then show ?thesis using assms by (simp add: get_inv_pc_ok)
next
  case (EntryGet i s p d c)
  then show ?thesis using assms by (simp add: get_inv_pc_ok stage_ok_phase) blast
qed

lemma worker_inv_mark:
  assumes "worker_inv k tid w (Some e) parts"
  shows "worker_inv k tid w (Some (mark_cancelling e)) parts \<and> worker_inv k tid w (Some (signal_cancel e)) parts"
proof (cases w)
  case (PutWorker j pc)
  then show ?thesis using assms put_inv_mark [of k j pc e] by simp
next
  case (GetWorker j pc)
  then show ?thesis using assms get_inv_mark [of k j pc e parts] by simp
qed

lemma cancel_is_mark:
  assumes "g = cancel_mark \<or> g = cancel_signal"
  shows "g e = e \<or> g e = mark_cancelling e \<or> g e = signal_cancel e"
  using assms by (auto simp: cancel_mark_def cancel_signal_def)

lemma entry_cancel_same:
  assumes "g = cancel_mark \<or> g = cancel_signal"
  shows "entry_inv k tid w (g e) = entry_inv k tid w e"
  using cancel_is_mark [OF assms, of e] entry_inv_mark [of k tid w e] by (elim disjE) simp_all

lemma worker_cancel_same:
  assumes "g = cancel_mark \<or> g = cancel_signal" and "worker_inv k tid w (Some e) parts"
  shows "worker_inv k tid w (Some (g e)) parts"
  using cancel_is_mark [OF assms(1), of e] worker_inv_mark [OF assms(2)] assms(2) by (elim disjE) simp_all

lemma cancel_entry_manager:
  assumes env: "client_env_ok k" and ok: "manager_ok k ws s" and g: "g = cancel_mark \<or> g = cancel_signal"
  shows "manager_ok k ws (on_entry tid g s)"
proof -
  have inv: "tid_inv k tid (ws tid) (bt_get (cx_entries s) tid) (cx_parts s)"
    using ok by (simp add: manager_ok_def)
  have "tid_inv k tid (ws tid) (bt_get (cx_entries (on_entry tid g s)) tid) (cx_parts s)"
  proof (cases "bt_get (cx_entries s) tid")
    case None
    then show ?thesis using inv by (simp add: on_entry_get)
  next
    case (Some e)
    then show ?thesis using inv entry_cancel_same [OF g] worker_cancel_same [OF g]
      by (simp add: on_entry_get tid_inv_def)
  qed
  then have "tid_inv k tid (ws tid) (bt_get (cx_entries (on_entry tid g s)) tid) (cx_parts (on_entry tid g s))"
    by (simp only: on_entry_fields)
  from own_step_manager [OF env ok own_step_on_entry this] show ?thesis by simp
qed

lemma cancel_manager:
  assumes env: "client_env_ok k" and ok: "manager_ok k ws s"
  shows "manager_ok k ws (fst (client_cancel k w tid s))"
proof (cases "bt_get (cx_entries s) tid")
  case None
  then show ?thesis using ok by (simp add: client_cancel_def)
next
  case (Some e)
  obtain s1 r where p: "client_persist k w (on_entry tid cancel_mark s) = (s1, r)" by fastforce
  have ok1: "manager_ok k ws s1"
    by (rule persist_manager [OF env cancel_entry_manager [OF env ok] p]) simp
  show ?thesis
    using p Some ok1 cancel_entry_manager [OF env ok1, of cancel_signal tid]
    by (cases r) (simp_all add: client_cancel_def)
qed

text \<open>Entries go, and with a free identifier one comes.\<close>

lemma fewer_manager:
  assumes ok: "manager_ok k ws s" and wf: "bt_wf t" and len: "length t \<le> 16"
    and sub: "\<And>tid e. bt_get t tid = Some e \<Longrightarrow> bt_get (cx_entries s) tid = Some e"
  shows "manager_ok k ws (s\<lparr>cx_entries := t\<rparr>)"
proof -
  have "tid_inv k tid (ws tid) (bt_get t tid) (cx_parts s)" for tid
  proof (cases "bt_get t tid")
    case None
    have "tid_inv k tid (ws tid) (bt_get (cx_entries s) tid) (cx_parts s)" using ok by (simp add: manager_ok_def)
    from tid_inv_removed [OF this] None show ?thesis by simp
  next
    case (Some e)
    then show ?thesis using ok sub [OF Some] by (metis manager_ok_def)
  qed
  then show ?thesis using ok wf len by (simp add: manager_ok_def entries_bounded_def slots_ok_def)
qed

lemma prune_terminal_sub:
  "bt_wf t \<Longrightarrow> bt_wf (prune_terminal t) \<and> length (prune_terminal t) \<le> length t
     \<and> (\<forall>tid e. bt_get (prune_terminal t) tid = Some e \<longrightarrow> bt_get t tid = Some e)"
proof (induction t rule: prune_terminal.induct)
  case (1 t)
  show ?case
  proof (cases "length t \<ge> HARD_MAX_CONTROLLER_FILE_TRANSFERS \<and> first_terminal t \<noteq> None")
    case True
    then obtain tid where tid: "first_terminal t = Some tid" by blast
    note IH = "1.IH" [OF conjunct1 [OF True] tid bt_wf_remove [OF "1.prems"]]
    have eq: "prune_terminal t = prune_terminal (bt_remove tid t)"
      using True tid by (subst prune_terminal.simps) simp
    have "bt_get t a = Some e" if "bt_get (bt_remove tid t) a = Some e" for a e
      using that by (simp split: if_splits)
    then show ?thesis unfolding eq using IH length_bt_remove_le [of tid t] by force
  next
    case False
    then have "prune_terminal t = t" by (subst prune_terminal.simps) auto
    then show ?thesis using "1.prems" by simp
  qed
qed

lemma start_enter_ok:
  assumes ok: "manager_ok k ws s" and e: "entry_inv k tid None e" and w: "ws tid = None"
    and st: "start_enter tid e s = (s1, r)"
  shows "manager_ok k ws s1 \<and> (\<forall>u. r = Ok u \<longrightarrow> bt_get (cx_entries s1) tid = Some e)"
proof -
  let ?t = "prune_terminal (cx_entries s)"
  have wf: "bt_wf (cx_entries s)" "length (cx_entries s) \<le> 16" using ok by (simp_all add: manager_ok_def entries_bounded_def)
  note pr = prune_terminal_sub [OF wf(1)]
  have ok1: "manager_ok k ws (s\<lparr>cx_entries := ?t\<rparr>)"
    by (rule fewer_manager [OF ok]) (use pr wf in auto)
  consider (stays) "s1 = s\<lparr>cx_entries := ?t\<rparr>" "\<not> is_ok r"
    | (comes) "bt_get ?t tid = None" "length ?t < 16" "s1 = s\<lparr>cx_entries := bt_insert tid e ?t\<rparr>" "r = Ok ()"
    using st by (auto simp: start_enter_def Let_def bounds_simps split: if_splits)
  then show ?thesis
  proof cases
    case stays
    then show ?thesis using ok1 by auto
  next
    case comes
    have "length (bt_insert tid e ?t) \<le> 16"
      using comes(1,2) length_bt_insert [of ?t tid e] pr by simp
    moreover have "tid_inv k t (ws t) (bt_get (bt_insert tid e ?t) t) (cx_parts s)" for t
      using ok1 e w by (cases "t = tid") (simp_all add: manager_ok_def tid_inv_def)
    ultimately have "manager_ok k ws s1"
      using ok1 comes(3) pr by (simp add: manager_ok_def entries_bounded_def slots_ok_def)
    then show ?thesis using comes by simp
  qed
qed

lemma start_entry_ok:
  assumes env: "client_env_ok k" and ok: "manager_ok k ws s" and e: "entry_inv k tid None e" and w: "ws tid = None"
    and st: "start_entry k x tid e s = (s', r)"
  shows "manager_ok k ws s' \<and> (\<forall>u. r = Ok u \<longrightarrow> bt_get (cx_entries s') tid = Some e)"
proof -
  obtain s1 r1 where en: "start_enter tid e s = (s1, r1)" by fastforce
  note a = start_enter_ok [OF ok e w en]
  show ?thesis
  proof (cases r1)
    case (Inl y)
    then show ?thesis using st en a by (simp add: start_entry_def)
  next
    case (Inr u)
    obtain s2 r2 where p: "client_persist k x s1 = (s2, r2)" by fastforce
    note b = persist_manager [OF env conjunct1 [OF a] p]
    have same: "cx_entries s2 = cx_entries s1" by (rule client_persist_fields [OF p])
    show ?thesis
    proof (cases r2)
      case (Inl y)
      then have "s' = s2\<lparr>cx_entries := bt_remove tid (cx_entries s2)\<rparr>" "r = Err y"
        using st en Inr p by (simp_all add: start_entry_def client_start_commit_def)
      moreover have "manager_ok k ws (s2\<lparr>cx_entries := bt_remove tid (cx_entries s2)\<rparr>)"
        by (rule fewer_manager [OF b])
          (use b length_bt_remove_le [of tid "cx_entries s2"] in
            \<open>auto simp: manager_ok_def entries_bounded_def split: if_splits\<close>)
      ultimately show ?thesis by auto
    next
      case (Inr v)
      then show ?thesis using st en \<open>r1 = Inr u\<close> p b a same by (simp add: start_entry_def client_start_commit_def)
    qed
  qed
qed

lemma put_worker_manager:
  assumes "manager_ok k ws s" and "ws tid = None" and "worker_inv k tid wk (bt_get (cx_entries s) tid) (cx_parts s)"
    and "\<not> worker_window (Some wk)"
  shows "manager_ok k (ws(tid \<mapsto> wk)) s"
proof -
  have "tid_inv k tid None (bt_get (cx_entries s) tid) (cx_parts s)"
    using assms(1,2) unfolding manager_ok_def by metis
  then have "tid_inv k tid (Some wk) (bt_get (cx_entries s) tid) (cx_parts s)"
    using assms(3,4) by (simp add: tid_inv_def entry_inv_def)
  then show ?thesis using assms(1) by (simp add: manager_ok_def)
qed

lemma start_put_manager:
  assumes env: "client_env_ok k" and ok: "manager_ok k ws s" and w: "ws tid = None"
    and st: "start_put_with_transfer_id k x tid did sid source device chunk policy s = (s', r)"
  shows "manager_ok k ws s' \<and> (\<forall>i. r = Ok i \<longrightarrow>
     manager_ok k (ws(tid \<mapsto> PutWorker (put_job_of i sid policy) PcPrepare)) s')"
proof (cases "validate_start_inputs (ke_paths k) source device chunk")
  case (Inl e)
  then show ?thesis using st ok by (auto simp: start_put_with_transfer_id_def)
next
  case (Inr u)
  let ?i = "new_put_info tid did source device chunk"
  obtain s1 r1 where en: "start_entry k x tid (EntryPut ?i sid policy False) s = (s1, r1)" by fastforce
  have inv: "entry_inv k tid None (EntryPut ?i sid policy False)"
    using Inr validate_start_inputs_Ok [of "ke_paths k" source device chunk]
    by (simp add: entry_inv_def new_put_info_def)
  note a = start_entry_ok [OF env ok inv w en]
  have s: "s' = s1" "r = bind_r r1 (\<lambda>_. Ok ?i)" using st Inr en by (simp_all add: start_put_with_transfer_id_def Let_def)
  have "manager_ok k (ws(tid \<mapsto> PutWorker (put_job_of ?i sid policy) PcPrepare)) s1" if "r1 = Ok v" for v
    by (rule put_worker_manager [OF conjunct1 [OF a] w])
      (use a that in \<open>simp_all add: put_inv_def put_job_of_def new_put_info_def ex_bool_eq\<close>)
  then show ?thesis using a s by (auto simp: bind_r_Ok)
qed

lemma start_get_manager:
  assumes env: "client_env_ok k" and ok: "manager_ok k ws s" and w: "ws tid = None"
    and st: "start_get_with_transfer_id k x tid did sid device destination chunk policy s = (s', r)"
  shows "manager_ok k ws s' \<and> (\<forall>i. r = Ok i \<longrightarrow>
     manager_ok k (ws(tid \<mapsto> GetWorker (get_job_of i sid policy) (GcStart None))) s')"
proof (cases "validate_get_start_inputs (ke_paths k) device destination chunk")
  case (Inl e)
  then show ?thesis using st ok by (auto simp: start_get_with_transfer_id_def)
next
  case (Inr u)
  let ?i = "new_get_info tid did device destination chunk"
  obtain s1 r1 where en: "start_entry k x tid (EntryGet ?i sid policy None False) s = (s1, r1)" by fastforce
  have inv: "entry_inv k tid None (EntryGet ?i sid policy None False)"
    using Inr validate_get_start_inputs_Ok [of "ke_paths k" device destination chunk]
    by (simp add: entry_inv_def new_get_info_def)
  note a = start_entry_ok [OF env ok inv w en]
  have s: "s' = s1" "r = bind_r r1 (\<lambda>_. Ok ?i)" using st Inr en by (simp_all add: start_get_with_transfer_id_def Let_def)
  have "manager_ok k (ws(tid \<mapsto> GetWorker (get_job_of ?i sid policy) (GcStart None))) s1" if "r1 = Ok v" for v
    by (rule put_worker_manager [OF conjunct1 [OF a] w])
      (use a that in \<open>simp_all add: get_inv_pc_ok get_pc_ok_def stage_ok_def get_job_of_def new_get_info_def ex_bool_eq\<close>)
  then show ?thesis using a s by (auto simp: bind_r_Ok)
qed

subsection \<open>Restarts\<close>

text \<open>The entry a record stands for.\<close>

definition record_entry :: "durable_transfer \<Rightarrow> client_entry" where
  "record_entry r = (case dt_info r of
     InfoPut i \<Rightarrow> EntryPut i (dt_site_id r) (dt_conflict_policy r) False
   | InfoGet i \<Rightarrow> EntryGet i (dt_site_id r) (dt_conflict_policy r) (dt_get_state r) False)"

lemma record_entry_id [simp]: "info_transfer_id (entry_info (record_entry r)) = info_transfer_id (dt_info r)"
  by (simp add: record_entry_def split: file_transfer_info.splits)

lemma fold_r_all: "fold_r f xs a = Ok b \<Longrightarrow> x \<in> set xs \<Longrightarrow> \<exists>c d. f x c = Ok d"
proof (induction xs arbitrary: a)
  case (Cons y ys)
  then show ?case by (cases "f y a") auto
qed simp

lemma checked_record:
  assumes "check_transfer tp cid r ids = Ok ids'"
  shows "durable_record (record_entry r) = r"
proof (cases "dt_info r")
  case (InfoPut i)
  then have "dt_get_state r = None" using assms by (auto simp: check_transfer_def Let_def split: if_splits)
  then show ?thesis using InfoPut by (simp add: record_entry_def)
next
  case (InfoGet i)
  then show ?thesis by (simp add: record_entry_def)
qed

lemma client_validate_entries:
  assumes "client_validate tp cid c = Ok u"
  shows "cn_controller_id c = cid" "length (cn_transfers c) \<le> 16"
    "distinct (map (\<lambda>r. info_transfer_id (dt_info r)) (cn_transfers c))"
    "\<And>r. r \<in> set (cn_transfers c) \<Longrightarrow> entry_ok tp cid (record_entry r)"
proof -
  let ?es = "map record_entry (cn_transfers c)"
  have cid: "cn_controller_id c = cid" using assms by (simp add: client_validate_def split: if_splits)
  then obtain ids where "fold_r (check_transfer tp cid) (cn_transfers c) [] = Ok ids"
    using assms by (auto simp: client_validate_def bind_r_Ok split: if_splits)
  then have "durable_record (record_entry r) = r" if "r \<in> set (cn_transfers c)" for r
    using fold_r_all [OF _ that] checked_record by metis
  then have "map durable_record ?es = cn_transfers c" by (simp add: map_idI)
  then have "c = \<lparr>cn_controller_id = cid, cn_generation = cn_generation c, cn_transfers = map durable_record ?es\<rparr>"
    using cid by simp
  then have v: "client_validate tp cid
      \<lparr>cn_controller_id = cid, cn_generation = cn_generation c, cn_transfers = map durable_record ?es\<rparr> = Ok u"
    using assms by simp
  note v' = v [unfolded client_validate_records]
  show "cn_controller_id c = cid" by (rule cid)
  show "length (cn_transfers c) \<le> 16" using v' by simp
  show "distinct (map (\<lambda>r. info_transfer_id (dt_info r)) (cn_transfers c))" using v' by (simp add: comp_def)
  show "\<And>r. r \<in> set (cn_transfers c) \<Longrightarrow> entry_ok tp cid (record_entry r)" using v' by simp
qed

text \<open>What a record is restored to.\<close>

definition restored_ok :: "client_env \<Rightarrow> transfer_id \<Rightarrow> client_entry \<times> client_task list \<Rightarrow> bool" where
  "restored_ok k tid x \<longleftrightarrow> info_transfer_id (entry_info (fst x)) = tid
     \<and> (\<forall>parts. tid_inv k tid None (Some (fst x)) parts)
     \<and> (\<forall>t \<in> set (snd x). fst (task_worker t) = tid
          \<and> (\<forall>parts. tid_inv k tid (Some (snd (task_worker t))) (Some (fst x)) parts))"

lemma restored_put_ok:
  assumes e: "entry_ok (ke_paths k) (ke_controller k) (record_entry r)" and i: "dt_info r = InfoPut i"
  shows "restored_ok k (fpi_transfer_id i) (restore_client_record r)"
  using e [unfolded entry_ok_iff] i
  by (auto simp: restored_ok_def restore_client_record_def record_entry_def Let_def tid_inv_def entry_inv_def
      put_inv_def put_job_of_def)

lemma restored_get_ok:
  assumes e: "entry_ok (ke_paths k) (ke_controller k) (record_entry r)" and i: "dt_info r = InfoGet i"
    and p: "record_parts_ok k r"
  shows "restored_ok k (fgi_transfer_id i) (restore_client_record r)"
proof -
  let ?sid = "dt_site_id r" and ?p = "dt_conflict_policy r" and ?d = "dt_get_state r"
  have ok: "entry_ok (ke_paths k) (ke_controller k) (EntryGet i ?sid ?p ?d False)"
    using e i by (simp add: record_entry_def)
  have gs: "get_state_ok (ke_paths k) (ke_controller k) ?sid i gs" if "?d = Some gs" for gs
    using ok that by simp
  have po: "part_of k (fgi_transfer_id i) (gs_part_path gs)" if "?d = Some gs" for gs
    using p i that by simp
  have inv: "entry_inv k (fgi_transfer_id i) None (EntryGet i' ?sid ?p ?d False)"
    if "i' = i \<or> (\<exists>ph er. i' = i\<lparr>fgi_phase := ph, fgi_error := er\<rparr>)" for i'
    using that ok po by (auto simp: entry_inv_def)
  have none: "tid_inv k (fgi_transfer_id i) None (Some (EntryGet i' ?sid ?p ?d False)) parts"
    if "i' = i \<or> (\<exists>ph er. i' = i\<lparr>fgi_phase := ph, fgi_error := er\<rparr>)" for i' parts
    using inv [OF that] by (simp add: tid_inv_def)
  consider (cancel) "fgi_phase i = CpCancelling" | (stays) "cp_terminal (fgi_phase i)"
    | (resume) gs where "fgi_phase i \<noteq> CpCancelling" "\<not> cp_terminal (fgi_phase i)" "?d = Some gs"
    | (fails) "fgi_phase i \<noteq> CpCancelling" "\<not> cp_terminal (fgi_phase i)" "?d = None"
    by (cases ?d) blast+
  then show ?thesis
  proof cases
    case cancel
    have "tid_inv k (fgi_transfer_id i) (Some (GetWorker (get_job_of i ?sid ?p) GcCancelRemote))
        (Some (EntryGet i ?sid ?p ?d False)) parts" for parts
      using inv [of i]
      by (simp add: tid_inv_def entry_inv_def get_inv_pc_ok get_pc_ok_def stage_ok_def get_job_of_def) blast
    then show ?thesis using i cancel none [of i]
      by (simp add: restored_ok_def restore_client_record_def Let_def get_job_of_def)
  next
    case stays
    then have "fgi_phase i \<noteq> CpCancelling" by (auto simp: cp_terminal_def)
    then show ?thesis using i stays none [of i]
      by (simp add: restored_ok_def restore_client_record_def Let_def)
  next
    case resume
    let ?i = "i\<lparr>fgi_phase := CpWaitingForReconnect, fgi_error := None\<rparr>"
    note g = gs [OF resume(3)] and pg = po [OF resume(3)]
    have inv_i: "entry_inv k (fgi_transfer_id i) None (EntryGet ?i ?sid ?p ?d False)" by (rule inv) blast
    then have none_i: "tid_inv k (fgi_transfer_id i) None (Some (EntryGet ?i ?sid ?p ?d False)) parts" for parts
      by (simp add: tid_inv_def)
    have "get_pc_ok k (get_job_of ?i ?sid ?p) (GcStart (Some gs)) parts" for parts
      using g pg by (simp add: get_pc_ok_def job_manifest_ok_def get_state_ok_def get_job_of_def)
    moreover have "stage_ok k StageKnown (Some (gs_manifest gs)) ?i (Some gs)"
      using g by (simp add: stage_ok_def get_state_ok_def)
    ultimately have "get_inv k (get_job_of ?i ?sid ?p) (GcStart (Some gs))
        (Some (EntryGet ?i ?sid ?p ?d False)) parts" for parts
      using resume(3) by (simp add: get_inv_pc_ok get_job_of_def) blast
    then have "tid_inv k (fgi_transfer_id i) (Some (GetWorker (get_job_of ?i ?sid ?p) (GcStart (Some gs))))
        (Some (EntryGet ?i ?sid ?p ?d False)) parts" for parts
      using inv_i by (simp add: tid_inv_def entry_inv_def get_job_of_def)
    then show ?thesis using i resume none_i
      by (simp add: restored_ok_def restore_client_record_def Let_def get_job_of_def)
  next
    case fails
    have "tid_inv k (fgi_transfer_id i) None
        (Some (EntryGet (i\<lparr>fgi_phase := ph, fgi_error := er\<rparr>) ?sid ?p ?d False)) parts" for ph er parts
      by (rule none) blast
    then show ?thesis using i fails
      by (simp add: restored_ok_def restore_client_record_def Let_def)
  qed
qed

text \<open>The entries and workers of all records.\<close>

lemma restored_entries:
  assumes "distinct (map (\<lambda>r. info_transfer_id (dt_info r)) rs)"
    and "\<And>r. r \<in> set rs \<Longrightarrow> restored_ok k (info_transfer_id (dt_info r)) (restore_client_record r)"
    and "bt_wf t" and "\<And>r. r \<in> set rs \<Longrightarrow> bt_get t (info_transfer_id (dt_info r)) = None"
  shows "let t' = fold (\<lambda>r t. let e = fst (restore_client_record r) in
           bt_insert (info_transfer_id (entry_info e)) e t) rs t in
      bt_wf t' \<and> length t' = length rs + length t
      \<and> (\<forall>r \<in> set rs. bt_get t' (info_transfer_id (dt_info r)) = Some (fst (restore_client_record r)))
      \<and> (\<forall>tid. tid \<notin> (\<lambda>r. info_transfer_id (dt_info r)) ` set rs \<longrightarrow> bt_get t' tid = bt_get t tid)"
  using assms
proof (induction rs arbitrary: t)
  case (Cons r rs)
  let ?id = "\<lambda>r. info_transfer_id (dt_info r)"
  let ?t = "bt_insert (?id r) (fst (restore_client_record r)) t"
  have id: "info_transfer_id (entry_info (fst (restore_client_record r))) = ?id r"
    using Cons.prems(2) [of r] by (simp add: restored_ok_def)
  have new: "?id x \<noteq> ?id r" if "x \<in> set rs" for x using Cons.prems(1) that by (auto simp: image_iff)
  have a: "bt_get ?t (?id x) = None" if "x \<in> set rs" for x
    using Cons.prems(4) [of x] new [OF that] that by simp
  have len: "length ?t = Suc (length t)"
    using Cons.prems(4) [of r] length_bt_insert [OF Cons.prems(3)] by simp
  have IH: "let t' = fold (\<lambda>r t. let e = fst (restore_client_record r) in
           bt_insert (info_transfer_id (entry_info e)) e t) rs ?t in
      bt_wf t' \<and> length t' = length rs + length ?t
      \<and> (\<forall>r \<in> set rs. bt_get t' (?id r) = Some (fst (restore_client_record r)))
      \<and> (\<forall>tid. tid \<notin> ?id ` set rs \<longrightarrow> bt_get t' tid = bt_get ?t tid)"
    by (rule Cons.IH) (use Cons.prems a in simp_all)
  have "?id r \<notin> ?id ` set rs" using Cons.prems(1) by auto
  with IH show ?case using id len by (simp add: Let_def)
qed simp

lemma restored_manager:
  assumes v: "client_validate (ke_paths k) (ke_controller k) c = Ok u" and slots: "slots_ok k s"
    and parts: "\<And>r. r \<in> set (cn_transfers c) \<Longrightarrow> record_parts_ok k r"
  shows "manager_ok k (\<lambda>_. None) (s\<lparr>cx_entries := restore_entries (cn_transfers c)\<rparr>)"
    and "manager_ok k (map_of (map task_worker (concat (map (snd \<circ> restore_client_record) (cn_transfers c)))))
      (s\<lparr>cx_entries := restore_entries (cn_transfers c)\<rparr>)"
proof -
  let ?rs = "cn_transfers c" and ?id = "\<lambda>r. info_transfer_id (dt_info r)"
  let ?ws = "map_of (map task_worker (concat (map (snd \<circ> restore_client_record) ?rs)))"
  note ve = client_validate_entries [OF v]
  have ro: "restored_ok k (?id r) (restore_client_record r)" if r: "r \<in> set ?rs" for r
  proof (cases "dt_info r")
    case (InfoPut i)
    then show ?thesis using restored_put_ok [OF ve(4) [OF r] InfoPut] by simp
  next
    case (InfoGet i)
    then show ?thesis using restored_get_ok [OF ve(4) [OF r] InfoGet parts [OF r]] by simp
  qed
  have "let t' = restore_entries ?rs in bt_wf t' \<and> length t' = length ?rs
      \<and> (\<forall>r \<in> set ?rs. bt_get t' (?id r) = Some (fst (restore_client_record r)))
      \<and> (\<forall>tid. tid \<notin> ?id ` set ?rs \<longrightarrow> bt_get t' tid = None)"
    using restored_entries [of ?rs k "[]", OF ve(3) ro] unfolding restore_entries_def by simp
  then have wf: "bt_wf (restore_entries ?rs)" and len: "length (restore_entries ?rs) \<le> 16"
    and here: "\<And>r. r \<in> set ?rs \<Longrightarrow> bt_get (restore_entries ?rs) (?id r) = Some (fst (restore_client_record r))"
    and gone: "\<And>tid. tid \<notin> ?id ` set ?rs \<Longrightarrow> bt_get (restore_entries ?rs) tid = None"
    using ve(2) by (simp_all add: Let_def)
  have none: "tid_inv k tid None (bt_get (restore_entries ?rs) tid) p" for tid p
  proof (cases "tid \<in> ?id ` set ?rs")
    case True
    then obtain r where "r \<in> set ?rs" "tid = ?id r" by blast
    then show ?thesis using here ro by (simp add: restored_ok_def)
  next
    case False
    then show ?thesis using gone by (simp add: tid_inv_def)
  qed
  have some: "tid_inv k tid (Some w) (bt_get (restore_entries ?rs) tid) p" if w: "?ws tid = Some w" for tid w p
  proof -
    have "(tid, w) \<in> task_worker ` set (concat (map (snd \<circ> restore_client_record) ?rs))"
      using map_of_SomeD [OF w] by (simp only: set_map)
    then obtain t where t: "t \<in> set (concat (map (snd \<circ> restore_client_record) ?rs))" "(tid, w) = task_worker t"
      by (rule imageE)
    then obtain r where r: "r \<in> set ?rs" "t \<in> set (snd (restore_client_record r))" by auto
    have ro_t: "fst (task_worker t) = ?id r"
      "tid_inv k (?id r) (Some (snd (task_worker t))) (Some (fst (restore_client_record r))) p"
      using ro [OF r(1)] r(2) unfolding restored_ok_def by blast+
    have "tid = ?id r" "w = snd (task_worker t)" using t(2) ro_t(1) by (metis fst_conv, metis snd_conv)
    then have "tid = ?id r \<and> tid_inv k (?id r) (Some w) (Some (fst (restore_client_record r))) p"
      using ro_t(2) by simp
    then show ?thesis using here [OF r(1)] by simp
  qed
  show "manager_ok k (\<lambda>_. None) (s\<lparr>cx_entries := restore_entries ?rs\<rparr>)"
    using none wf len slots by (simp add: manager_ok_def entries_bounded_def slots_ok_def)
  have "tid_inv k tid (?ws tid) (bt_get (restore_entries ?rs) tid) p" for tid p
    using none some by (cases "?ws tid") simp_all
  then show "manager_ok k ?ws (s\<lparr>cx_entries := restore_entries ?rs\<rparr>)"
    using wf len slots by (simp add: manager_ok_def entries_bounded_def slots_ok_def)
qed

lemma load_client_cases:
  assumes "load_client tp cid j a b = Ok c"
  shows "cn_transfers c = [] \<or> slot_holds (client_validate tp cid) (read_client_slot j a) c
     \<or> slot_holds (client_validate tp cid) (read_client_slot j b) c"
proof -
  obtain so where so: "load_client_slots tp cid j a b = Ok so"
    "c = (case so of None \<Rightarrow> \<lparr>cn_controller_id = cid, cn_generation = 0, cn_transfers = []\<rparr> | Some s \<Rightarrow> s)"
    using assms by (auto simp: load_client_def bind_r_Ok)
  show ?thesis
  proof (cases so)
    case None
    then show ?thesis using so(2) by simp
  next
    case (Some x)
    then show ?thesis using so pick_sound unfolding load_client_slots_def by (metis option.simps(5))
  qed
qed

lemma with_parts_fields:
  "cx_entries (fold (\<lambda>p. with_part k p None) ps s) = cx_entries s"
  "cx_slot_a (fold (\<lambda>p. with_part k p None) ps s) = cx_slot_a s"
  "cx_slot_b (fold (\<lambda>p. with_part k p None) ps s) = cx_slot_b s"
  by (induction ps arbitrary: s) simp_all

lemma restart_ok:
  assumes env: "client_env_ok k" and slots: "slots_ok k s"
    and st: "client_load_or_create k w stuck s = (s', r)"
  shows "slots_ok k s' \<and> (\<forall>tasks. r = Ok tasks \<longrightarrow> manager_ok k (map_of (map task_worker tasks)) s')"
proof (cases "load_client (ke_paths k) (ke_controller k) (ke_json k) (cx_slot_a s) (cx_slot_b s)")
  case (Inl e)
  then show ?thesis using st slots by (auto simp: client_load_or_create_def)
next
  case (Inr c)
  let ?s = "s\<lparr>cx_entries := [], cx_generation := cn_generation c\<rparr>"
  let ?tasks = "concat (map (snd \<circ> restore_client_record) (cn_transfers c))"
  have rs: "restore_client_snapshot k w stuck c ?s = (s', r)" using st Inr by (simp add: client_load_or_create_def)
  have parts: "record_parts_ok k x" if "x \<in> set (cn_transfers c)" for x
    using load_client_cases [OF Inr] slots that
    by (auto simp: slots_ok_def slot_ok_def simp del: record_parts_ok.simps)
  show ?thesis
  proof (cases "client_validate (ke_paths k) (ke_controller k) c")
    case (Inl e)
    then show ?thesis using rs slots by (auto simp: restore_client_snapshot_def slots_ok_def)
  next
    case (Inr u)
    have sl: "slots_ok k ?s" using slots by (simp add: slots_ok_def)
    let ?s1 = "?s\<lparr>cx_entries := restore_entries (cn_transfers c)\<rparr>"
    have m: "manager_ok k (\<lambda>_. None) ?s1" "manager_ok k (map_of (map task_worker ?tasks)) ?s1"
      by (rule restored_manager [OF Inr sl parts], assumption)+
    obtain s2 r2 where p: "client_persist k w ?s1 = (s2, r2)" by fastforce
    have ok: "slots_ok k s2" using persist_manager [OF env m(1) p] by (simp add: manager_ok_def)
    have gone: "manager_ok k ws (fold (\<lambda>p. with_part k p None) ps s2)" if ws: "ws = map_of (map task_worker ?tasks)" for ws ps
    proof -
      have e: "cx_entries s2 = restore_entries (cn_transfers c)" using client_persist_fields(1) [OF p] by simp
      have "manager_ok k ws (s2\<lparr>cx_parts := q, cx_entries := restore_entries (cn_transfers c)\<rparr>)" for q
        unfolding ws by (rule restored_manager(2) [OF Inr _ parts]) (use ok in \<open>simp_all add: slots_ok_def\<close>)
      from this [of "cx_parts (fold (\<lambda>p. with_part k p None) ps s2)"] show ?thesis using e
        by (simp add: manager_ok_def entries_bounded_def slots_ok_def with_parts_fields)
    qed
    show ?thesis
    proof (cases r2)
      case (Inl e)
      then show ?thesis using rs Inr p ok by (auto simp: restore_client_snapshot_def \<open>client_validate _ _ c = Inr u\<close>)
    next
      case (Inr v)
      then have "s' = fold (\<lambda>p. with_part k p None) (filter (\<lambda>p. p \<notin> set stuck) (cancelled_parts ?tasks)) s2"
        "r = Ok ?tasks"
        using rs p by (simp_all add: restore_client_snapshot_def \<open>client_validate _ _ c = Inr u\<close> Let_def)
      then show ?thesis using gone ok by (simp add: slots_ok_def with_parts_fields)
    qed
  qed
qed

subsection \<open>Histories\<close>

lemma system_step_ok:
  assumes env: "client_env_ok k" and ok: "system_ok k y" and al: "event_allowed k ev"
  shows "system_ok k (system_step k ev y)"
proof (cases ev)
  case (SysStartPut w tid did sid source device chunk policy)
  show ?thesis
  proof (cases "sy_up y \<and> sy_workers y tid = None")
    case True
    obtain s r where st: "start_put_with_transfer_id k w tid did sid source device chunk policy (sy_state y) = (s, r)"
      by fastforce
    have "manager_ok k (sy_workers y) (sy_state y)" using ok True by (simp add: system_ok_manager)
    note a = start_put_manager [OF env this conjunct2 [OF True] st]
    show ?thesis using a True SysStartPut st
      by (cases r) (simp_all add: system_ok_manager set_worker_def manager_ok_def)
  next
    case False
    then show ?thesis using SysStartPut ok by auto
  qed
next
  case (SysStartGet w tid did sid device destination chunk policy)
  show ?thesis
  proof (cases "sy_up y \<and> sy_workers y tid = None")
    case True
    obtain s r where st: "start_get_with_transfer_id k w tid did sid device destination chunk policy (sy_state y) = (s, r)"
      by fastforce
    have "manager_ok k (sy_workers y) (sy_state y)" using ok True by (simp add: system_ok_manager)
    note a = start_get_manager [OF env this conjunct2 [OF True] st]
    show ?thesis using a True SysStartGet st
      by (cases r) (simp_all add: system_ok_manager set_worker_def manager_ok_def)
  next
    case False
    then show ?thesis using SysStartGet ok by auto
  qed
next
  case (SysCancel w tid)
  then show ?thesis using ok cancel_manager [OF env, of "sy_workers y" "sy_state y" w tid]
    by (auto simp: system_ok_manager manager_ok_def)
next
  case (SysWorker tid e)
  show ?thesis
  proof (cases "sy_up y \<and> sy_workers y tid \<noteq> None")
    case True
    then obtain wk where wk: "sy_workers y tid = Some wk" by blast
    obtain wk' s where st: "worker_step k e wk (sy_state y) = (wk', s)" by fastforce
    have m: "manager_ok k (sy_workers y) (sy_state y)" using ok True by (simp add: system_ok_manager)
    then have "tid_inv k tid (Some wk) (bt_get (cx_entries (sy_state y)) tid) (cx_parts (sy_state y))"
      using wk unfolding manager_ok_def by metis
    moreover have "event_fits k e" using al SysWorker by (simp add: event_allowed_def)
    ultimately have "tid_inv k tid (Some wk') (bt_get (cx_entries s) tid) (cx_parts s) \<and> own_step k tid (sy_state y) s"
      using worker_step_ok [OF env _ _ st] by blast
    then have "manager_ok k ((sy_workers y)(tid := Some wk')) s" using own_step_manager [OF env m] by blast
    then show ?thesis using True SysWorker wk st by (simp add: system_ok_manager set_worker_def manager_ok_def)
  next
    case False
    then show ?thesis using SysWorker ok by (auto split: option.splits)
  qed
next
  case (SysFiles files)
  then show ?thesis using ok by (simp add: system_ok_manager manager_ok_def slots_ok_def entries_bounded_def)
next
  case (SysRestart w stuck)
  obtain s r where st: "client_load_or_create k w stuck (sy_state y) = (s, r)" by fastforce
  have "slots_ok k (sy_state y)" using ok by (simp add: system_ok_manager)
  from restart_ok [OF env this st] show ?thesis using SysRestart st
    by (cases r) (simp_all add: system_ok_manager)
qed

lemma client_run_ok:
  assumes env: "client_env_ok k"
  shows "client_run k y \<Longrightarrow> system_ok k y"
proof (induction rule: client_run.induct)
  case (run_new s)
  then show ?case
    by (simp add: system_ok_manager slots_ok_def slot_ok_def new_client_def read_client_slot_def slot_holds_def)
next
  case (run_step y ev)
  then show ?case using system_step_ok [OF env] by blast
qed

end
