(* ===== verification/Client_Properties.thy ===== *)
theory Client_Properties
  imports Client_Runs
begin

section \<open>What a controller promises of its file transfers\<close>

text \<open>
  The properties of the controller's transfers that follow from the invariants of their histories:
  when a journal write passes the journal's own validation, that the journal can always be read
  back, what a delivered file holds, and when a put is reported as completed.
\<close>

subsection \<open>The journal over a whole history\<close>

definition journal_ok :: "client_env \<Rightarrow> client_system \<Rightarrow> bool" where
  "journal_ok k y \<longleftrightarrow> (if sy_up y then saved k (sy_state y) else disk_ok k (sy_state y))"

lemma start_entry_saved:
  assumes env: "client_env_ok k" and sv: "saved k s" and st: "start_entry k w tid e s = (s', r)"
  shows "saved k s'"
proof -
  obtain s1 r1 where en: "start_enter tid e s = (s1, r1)" by fastforce
  have same: "saved k s1"
    using en sv saved_same [of s1 s k]
    by (auto simp: start_enter_def Let_def split: if_splits)
  obtain s2 r2 where p: "client_persist k w s1 = (s2, r2)" by fastforce
  note sv2 = persist_saved [OF env same p]
  have "saved k (s2\<lparr>cx_entries := t\<rparr>)" for t using sv2 saved_same [of "s2\<lparr>cx_entries := t\<rparr>" s2 k] by simp
  then show ?thesis using st en p same sv2
    by (auto simp: start_entry_def client_start_commit_def split: sum.splits)
qed

lemma start_put_saved:
  assumes "client_env_ok k" "saved k s"
    and st: "start_put_with_transfer_id k w tid did sid source device chunk policy s = (s', r)"
  shows "saved k s'"
proof (cases "validate_start_inputs (ke_paths k) source device chunk")
  case (Inr u)
  obtain s1 r1 where "start_entry k w tid (EntryPut (new_put_info tid did source device chunk) sid policy False) s = (s1, r1)"
    by fastforce
  then show ?thesis using start_entry_saved [OF assms(1,2)] st Inr
    by (simp add: start_put_with_transfer_id_def Let_def)
qed (use assms in \<open>simp add: start_put_with_transfer_id_def\<close>)

lemma start_get_saved:
  assumes "client_env_ok k" "saved k s"
    and st: "start_get_with_transfer_id k w tid did sid device destination chunk policy s = (s', r)"
  shows "saved k s'"
proof (cases "validate_get_start_inputs (ke_paths k) device destination chunk")
  case (Inr u)
  obtain s1 r1 where "start_entry k w tid (EntryGet (new_get_info tid did device destination chunk) sid policy None False) s = (s1, r1)"
    by fastforce
  then show ?thesis using start_entry_saved [OF assms(1,2)] st Inr
    by (simp add: start_get_with_transfer_id_def Let_def)
qed (use assms in \<open>simp add: start_get_with_transfer_id_def\<close>)

lemma cancel_saved:
  assumes env: "client_env_ok k" and sv: "saved k s"
  shows "saved k (fst (client_cancel k w tid s))"
proof (cases "bt_get (cx_entries s) tid")
  case None
  then show ?thesis using sv by (simp add: client_cancel_def)
next
  case (Some e)
  obtain s1 r where p: "client_persist k w (on_entry tid cancel_mark s) = (s1, r)" by fastforce
  have "saved k (on_entry tid f x) = saved k x" for f x by (rule saved_same) simp_all
  then show ?thesis using persist_saved [OF env _ p] sv p Some
    by (cases r) (simp_all add: client_cancel_def)
qed

text \<open>A restart that succeeds has written the journal; one that fails leaves it readable or as it was.\<close>

lemma restart_persist:
  assumes env: "client_env_ok k" and d: "disk_ok k s"
    and l: "load_client (ke_paths k) (ke_controller k) (ke_json k) (cx_slot_a s) (cx_slot_b s) = Ok c"
    and p: "client_store_persist k w (s\<lparr>cx_generation := cn_generation c, cx_entries := t\<rparr>) = (s', r)"
  shows "(\<forall>u. r = Ok u \<longrightarrow> saved k s') \<and> disk_ok k s'"
proof -
  obtain so where so: "load_client_slots (ke_paths k) (ke_controller k) (ke_json k) (cx_slot_a s) (cx_slot_b s) = Ok so"
    "c = (case so of None \<Rightarrow> \<lparr>cn_controller_id = ke_controller k, cn_generation = 0, cn_transfers = []\<rparr> | Some s \<Rightarrow> s)"
    using l by (auto simp: load_client_def bind_r_Ok)
  let ?s = "s\<lparr>cx_generation := cn_generation c, cx_entries := t\<rparr>"
  show ?thesis
  proof (cases so)
    case (Some x)
    then have "saved_as k {} c ?s" using d so by (simp add: disk_ok_def saved_as_def)
    note sp = saved_as_persist [OF env this p]
    have "saved k s'"
    proof (cases r)
      case (Inl e)
      then have "\<not> is_ok r" by simp
      then show ?thesis using conjunct2 [OF sp] unfolding saved_def by blast
    next
      case (Inr u)
      then show ?thesis using conjunct1 [OF sp] unfolding saved_def by blast
    qed
    then show ?thesis using saved_disk by simp
  next
    case None
    note miss = so(1) [unfolded None load_client_slots_def pick_none]
    have g0: "cn_generation c = 0" using so(2) None by simp
    have no: "\<not> client_holds k (cx_slot_a s) x" "\<not> client_holds k (cx_slot_b s) x" for x
      using miss by (simp_all add: slot_holds_def)
    from client_store_persist_cases [OF p] show ?thesis
    proof (elim disjE exE conjE)
      assume "s' = ?s" "\<not> is_ok r"
      then show ?thesis using d by (auto simp: disk_ok_def)
    next
      fix c' g f
      assume c': "c' = client_snapshot_of k g ?s" and g: "g = cx_generation ?s + 1"
        and v: "is_ok (client_validate (ke_paths k) (ke_controller k) c')"
        and wr: "write_client_slot (ke_json k) w c' (if even_to_a g then cx_slot_a ?s else cx_slot_b ?s) = (f, r)"
        and s': "cx_slot_a s' = (if even_to_a g then f else cx_slot_a ?s)"
          "cx_slot_b s' = (if even_to_a g then cx_slot_b ?s else f)"
          "cx_generation s' = (if is_ok r then g else cx_generation ?s)"
      have odd: "\<not> even_to_a g" using g g0 by (simp add: even_to_a_def)
      have gc: "cn_generation c' = g" using c' by (simp add: client_snapshot_of_def)
      have good: "slot_good (ke_json k) (client_validate (ke_paths k) (ke_controller k)) c'"
        using env v by (simp add: slot_good_def client_env_ok_def)
      have wr': "write_client_slot (ke_json k) w c' (cx_slot_b s) = (f, r)" using wr odd by simp
      have only: "x = c'" if "client_holds k f x" for x
        using ct.put_leaves [OF good wr'] that no(2) by blast
      have inv: "journal_inv cn_generation even_to_a (client_holds k) {} (cx_slot_a s') (cx_slot_b s') c'"
        if "client_holds k f c'"
        using that no(1) s' odd gc by (simp add: journal_inv_def)
      have "saved k s'" if "r = Ok u" for u
        using inv [OF ct.put_ok [OF good]] wr' that gc s'(3) by (auto simp: saved_def saved_as_def)
      moreover have "disk_ok k s'"
        unfolding disk_ok_def
      proof (intro allI impI)
        fix x assume "load_client_slots (ke_paths k) (ke_controller k) (ke_json k) (cx_slot_a s') (cx_slot_b s') = Ok (Some x)"
        then have "client_holds k (cx_slot_a s') x \<or> client_holds k (cx_slot_b s') x"
          unfolding load_client_slots_def by (rule pick_sound)
        then have h: "client_holds k f x" using s' odd no(1) by simp
        then show "journal_inv cn_generation even_to_a (client_holds k) {} (cx_slot_a s') (cx_slot_b s') x"
          using only inv by blast
      qed
      ultimately show ?thesis by blast
    qed
  qed
qed

lemma restart_saved:
  assumes env: "client_env_ok k" and dur: "ke_durable k" and d: "disk_ok k s"
    and st: "client_load_or_create k w stuck s = (s', r)"
  shows "if is_ok r then saved k s' else disk_ok k s'"
proof (cases "load_client (ke_paths k) (ke_controller k) (ke_json k) (cx_slot_a s) (cx_slot_b s)")
  case (Inl e)
  then show ?thesis using st d by (auto simp: client_load_or_create_def)
next
  case (Inr c)
  let ?s = "s\<lparr>cx_entries := [], cx_generation := cn_generation c\<rparr>"
  have rs: "restore_client_snapshot k w stuck c ?s = (s', r)" using st Inr by (simp add: client_load_or_create_def)
  have d': "disk_ok k ?s" using d by (simp add: disk_ok_def)
  show ?thesis
  proof (cases "client_validate (ke_paths k) (ke_controller k) c")
    case (Inl e)
    then have "s' = ?s" "\<not> is_ok r" using rs by (auto simp: restore_client_snapshot_def)
    then show ?thesis using d' by simp
  next
    case v: (Inr u)
    obtain s2 r2 where p: "client_persist k w (?s\<lparr>cx_entries := restore_entries (cn_transfers c)\<rparr>) = (s2, r2)" by fastforce
    then have ps: "client_store_persist k w
        (s\<lparr>cx_generation := cn_generation c, cx_entries := restore_entries (cn_transfers c)\<rparr>) = (s2, r2)"
      using dur by (simp add: client_persist_def)
    note rp = restart_persist [OF env d Inr ps]
    have gone: "saved k (fold (\<lambda>p. with_part k p None) ps s2) = saved k s2" for ps
      by (induction ps arbitrary: s2) (simp_all add: saved_def saved_as_def)
    show ?thesis
    proof (cases r2)
      case (Inl e)
      then have "s' = s2" "\<not> is_ok r" using rs p v by (auto simp: restore_client_snapshot_def)
      then show ?thesis using rp by simp
    next
      case (Inr v')
      then have "\<exists>ps. s' = fold (\<lambda>p. with_part k p None) ps s2" "is_ok r"
        using rs p v by (auto simp: restore_client_snapshot_def Let_def)
      then show ?thesis using rp gone Inr by auto
    qed
  qed
qed

lemma worker_step_saved:
  assumes env: "client_env_ok k" and ok: "system_ok k y" "sy_up y" and al: "event_allowed k (SysWorker tid e)"
    and sv: "saved k (sy_state y)"
  shows "saved k (sy_state (system_step k (SysWorker tid e) y))"
proof (cases "sy_workers y tid")
  case None
  then show ?thesis using sv by simp
next
  case (Some wk)
  obtain wk' s where st: "worker_step k e wk (sy_state y) = (wk', s)" by fastforce
  have "tid_inv k tid (Some wk) (bt_get (cx_entries (sy_state y)) tid) (cx_parts (sy_state y))"
    using ok Some unfolding system_ok_def by metis
  moreover have "event_fits k e" using al by (simp add: event_allowed_def)
  ultimately have "own_step k tid (sy_state y) s" using worker_step_ok [OF env _ _ st] by blast
  then have "saved k s" using sv by (simp add: own_step_def)
  then show ?thesis using Some ok(2) st by (simp add: set_worker_def)
qed

lemma system_step_journal:
  assumes env: "client_env_ok k" and dur: "ke_durable k" and ok: "system_ok k y" and j: "journal_ok k y"
    and al: "event_allowed k ev"
  shows "journal_ok k (system_step k ev y)"
proof (cases ev)
  case (SysStartPut w tid did sid source device chunk policy)
  obtain s r where st: "start_put_with_transfer_id k w tid did sid source device chunk policy (sy_state y) = (s, r)"
    by fastforce
  have "sy_up y \<Longrightarrow> saved k s" using start_put_saved [OF env _ st] j by (simp add: journal_ok_def)
  then show ?thesis using SysStartPut st j
    by (cases "sy_up y \<and> sy_workers y tid = None"; cases r) (auto simp: journal_ok_def set_worker_def)
next
  case (SysStartGet w tid did sid device destination chunk policy)
  obtain s r where st: "start_get_with_transfer_id k w tid did sid device destination chunk policy (sy_state y) = (s, r)"
    by fastforce
  have "sy_up y \<Longrightarrow> saved k s" using start_get_saved [OF env _ st] j by (simp add: journal_ok_def)
  then show ?thesis using SysStartGet st j
    by (cases "sy_up y \<and> sy_workers y tid = None"; cases r) (auto simp: journal_ok_def set_worker_def)
next
  case (SysCancel w tid)
  then show ?thesis using cancel_saved [OF env, of "sy_state y" w tid] j by (auto simp: journal_ok_def)
next
  case (SysWorker tid e)
  have up: "sy_up (system_step k (SysWorker tid e) y) = sy_up y"
    by (simp add: set_worker_def Let_def split: option.splits prod.splits)
  have down: "\<not> sy_up y \<Longrightarrow> sy_state (system_step k (SysWorker tid e) y) = sy_state y"
    by (simp split: option.splits)
  have "sy_up y \<Longrightarrow> saved k (sy_state (system_step k (SysWorker tid e) y))"
    using worker_step_saved [OF env ok _ al [unfolded SysWorker]] j by (simp add: journal_ok_def)
  then show ?thesis using j up down unfolding SysWorker journal_ok_def by auto
next
  case (SysFiles files)
  then show ?thesis using j
    by (cases "sy_up y") (simp_all add: journal_ok_def saved_def saved_as_def disk_ok_def)
next
  case (SysRestart w stuck)
  obtain s r where st: "client_load_or_create k w stuck (sy_state y) = (s, r)" by fastforce
  have "disk_ok k (sy_state y)" using j saved_disk by (simp add: journal_ok_def split: if_splits)
  from restart_saved [OF env dur this st] show ?thesis using SysRestart st
    by (cases r) (simp_all add: journal_ok_def)
qed

lemma client_run_journal:
  assumes env: "client_env_ok k" and dur: "ke_durable k"
  shows "client_run k y \<Longrightarrow> journal_ok k y"
proof (induction rule: client_run.induct)
  case (run_new s)
  have "load_client_slots (ke_paths k) (ke_controller k) (ke_json k) (cx_slot_a s) (cx_slot_b s) = Ok None"
    using run_new by (simp add: new_client_def load_client_slots_def pick_none read_client_slot_def)
  then show ?case by (simp add: journal_ok_def disk_ok_def)
next
  case (run_step y ev)
  then show ?case using system_step_journal [OF env dur client_run_ok [OF env]] by blast
qed

subsection \<open>Which journal writes pass\<close>

lemma window_entry_fails:
  assumes inv: "tid_inv k tid (Some wk) (Some e) parts" and w: "worker_window (Some wk)"
  shows "\<not> entry_ok (ke_paths k) (ke_controller k) e"
proof -
  obtain j g m part target where wk: "wk = GetWorker j (GcBound g m part target)"
    using w by (auto elim!: worker_window.elims)
  have "get_inv k j (GcBound g m part target) (Some e) parts" using inv wk by (simp add: tid_inv_def)
  then obtain i p d c where e: "e = EntryGet i (gj_site_id j) p d c"
    and st: "stage_ok k StageBound (Some m) i d"
    by (auto simp: get_inv_pc_ok)
  from st obtain gs where "d = Some gs" "fgi_total_size i = None" by (auto simp: stage_ok_def)
  then show ?thesis using e by (simp add: get_state_ok_def)
qed

text \<open>C14: In every history, a journal write of the controller passes the journal's own validation exactly
  when no download is between the two updates that give it a manifest (its record then has the manifest
  but not yet the size and digest) and no upload has found its source shorter than what the device had
  confirmed: while one such record is there, the write of any other transfer fails.\<close>

theorem client_snapshot_valid_iff:
  assumes env: "client_env_ok k" and run: "client_run k y" and up: "sy_up y"
  shows "client_validate (ke_paths k) (ke_controller k) (client_snapshot_of k g (sy_state y)) = Ok () \<longleftrightarrow>
    (\<forall>tid e. bt_get (cx_entries (sy_state y)) tid = Some e \<longrightarrow>
       \<not> worker_window (sy_workers y tid) \<and> \<not> source_shrunk e)"
proof -
  let ?es = "map snd (cx_entries (sy_state y))"
  have m: "manager_ok k (sy_workers y) (sy_state y)"
    using client_run_ok [OF env run] up by (simp add: system_ok_manager)
  have wf: "bt_wf (cx_entries (sy_state y))" "length ?es \<le> 16"
    using m by (simp_all add: manager_ok_def entries_bounded_def)
  have inv: "tid_inv k tid (sy_workers y tid) (Some e) (cx_parts (sy_state y))"
    if "(tid, e) \<in> set (cx_entries (sy_state y))" for tid e
    using m bt_wf_getD [OF wf(1) that] unfolding manager_ok_def by metis
  have ids: "map (\<lambda>e. info_transfer_id (entry_info e)) ?es = map fst (cx_entries (sy_state y))"
    using inv by (auto simp: tid_inv_def entry_inv_def)
  have snap: "client_snapshot_of k g (sy_state y)
      = \<lparr>cn_controller_id = ke_controller k, cn_generation = g, cn_transfers = map durable_record ?es\<rparr>"
    by (simp add: client_snapshot_of_def)
  have each: "entry_ok (ke_paths k) (ke_controller k) e \<longleftrightarrow>
      \<not> worker_window (sy_workers y tid) \<and> \<not> source_shrunk e"
    if x: "(tid, e) \<in> set (cx_entries (sy_state y))" for tid e
  proof (cases "worker_window (sy_workers y tid)")
    case True
    then obtain wk where "sy_workers y tid = Some wk" by (cases "sy_workers y tid") auto
    then show ?thesis using True window_entry_fails [of k tid wk e] inv [OF x] by simp
  next
    case False
    then show ?thesis using inv [OF x] by (simp add: tid_inv_def entry_inv_def entry_ok_iff)
  qed
  have get: "bt_get (cx_entries (sy_state y)) tid = Some e \<longleftrightarrow> (tid, e) \<in> set (cx_entries (sy_state y))" for tid e
    using bt_wf_getD [OF wf(1)] bt_get_setD by metis
  have "client_validate (ke_paths k) (ke_controller k) (client_snapshot_of k g (sy_state y)) = Ok () \<longleftrightarrow>
      (\<forall>(tid, e) \<in> set (cx_entries (sy_state y)). entry_ok (ke_paths k) (ke_controller k) e)"
    unfolding snap client_validate_records ids using wf bt_wf_distinct [OF wf(1)] by auto
  then show ?thesis using each get by blast
qed

text \<open>C13: The controller's journal is never lost: in every history, whatever becomes of a journal write of a
  running manager, also one that its own validation refuses because a source shrank, the journal can be read back, a write that succeeds is what is read, and nothing older than the last
  successful write ever is.\<close>

theorem client_journal_kept:
  assumes env: "client_env_ok k" and dur: "ke_durable k" and run: "client_run k y" and up: "sy_up y"
    and p: "client_persist k w (sy_state y) = (s', r)"
  shows "\<exists>c. load_client (ke_paths k) (ke_controller k) (ke_json k) (cx_slot_a s') (cx_slot_b s') = Ok c
    \<and> (is_ok r \<longrightarrow> c = client_snapshot_of k (cx_generation (sy_state y) + 1) (sy_state y))
    \<and> cx_generation (sy_state y) \<le> cn_generation c"
proof -
  let ?new = "client_snapshot_of k (cx_generation (sy_state y) + 1) (sy_state y)"
  have "saved k (sy_state y)" using client_run_journal [OF env dur run] up by (simp add: journal_ok_def)
  then obtain tried cur where sv: "saved_as k tried cur (sy_state y)" by (auto simp: saved_def)
  have g: "cn_generation cur = cx_generation (sy_state y)" using sv by (simp add: saved_as_def)
  have ps: "client_store_persist k w (sy_state y) = (s', r)" using p dur by (simp add: client_persist_def)
  note sp = saved_as_persist [OF env sv ps]
  show ?thesis
  proof (cases r)
    case (Inr u)
    then have s: "saved_as k {} ?new s'" using sp by simp
    obtain c where c: "load_client_slots (ke_paths k) (ke_controller k) (ke_json k) (cx_slot_a s') (cx_slot_b s') = Ok (Some c)"
      "c = ?new" using saved_as_loads [OF s] by blast
    have "cx_generation s' = cx_generation (sy_state y) + 1"
      using s by (simp add: saved_as_def client_snapshot_of_def)
    moreover have "cx_generation (sy_state y) \<le> cx_generation (sy_state y) + 1"
      using client_store_persist_cases [OF ps] Inr less_next_word [of "cx_generation (sy_state y)"]
      by auto
    ultimately show ?thesis using c by (auto simp: load_client_def client_snapshot_of_def)
  next
    case (Inl e)
    then have s: "saved_as k (insert ?new tried) cur s'" using sp by simp
    obtain c where "load_client_slots (ke_paths k) (ke_controller k) (ke_json k) (cx_slot_a s') (cx_slot_b s') = Ok (Some c)"
      "cn_generation cur \<le> cn_generation c" using saved_as_loads [OF s] by blast
    then show ?thesis using g Inl by (simp add: load_client_def)
  qed
qed

text \<open>A restart whose first journal write is torn leaves a controller that no later restart brings up:
  the torn slot is all there is, and it is refused every time.\<close>

lemma torn_first_write_is_final:
  assumes "new_client s" and "client_load_or_create k w stuck s = (s1, r)"
    and "cx_slot_a s1 = NoFile" and "read_client_slot (ke_json k) (cx_slot_b s1) = SlotInvalid e"
  shows "client_load_or_create k w' stuck' s1 = (s1, Err e)"
proof -
  have "read_client_slot (ke_json k) NoFile = SlotMissing" by (simp add: read_client_slot_def)
  then have "load_client (ke_paths k) (ke_controller k) (ke_json k) (cx_slot_a s1) (cx_slot_b s1) = Err e"
    using assms by (simp add: load_client_def load_client_slots_def pick_slots_def note_slot_def get_or_insert_def)
  then show ?thesis by (simp add: client_load_or_create_def)
qed

text \<open>C17: When the source of an upload has become shorter than what the device had confirmed of it, the step
  that hashes it leaves a record that no journal write passes: as long as the record stays, every start,
  cancel and end of any transfer fails to be saved.\<close>

theorem shrunk_source_blocks_journal:
  assumes e: "bt_get (cx_entries s) (pj_transfer_id j) = Some (EntryPut i sid p c)"
    and short: "length bs < unat (fpi_confirmed_offset i)"
    and st: "put_step k j (EvSource (SrcBytes bs)) (PcPrepare, s) = (pc', s')" and go: "put_pc_manifest pc' \<noteq> None"
    and dur: "ke_durable k"
    and stays: "bt_get (cx_entries s2) (pj_transfer_id j) = bt_get (cx_entries s') (pj_transfer_id j)"
  shows "\<not> is_ok (snd (client_persist k w s2))"
proof
  assume "is_ok (snd (client_persist k w s2))"
  moreover obtain s3 r where ps: "client_store_persist k w s2 = (s3, r)" by fastforce
  ultimately have "is_ok r" using dur by (simp add: client_persist_def)
  then obtain g where v: "is_ok (client_validate (ke_paths k) (ke_controller k) (client_snapshot_of k g s2))"
    using client_store_persist_cases [OF ps] by blast
  have "client_snapshot_of k g s2 = \<lparr>cn_controller_id = ke_controller k, cn_generation = g,
      cn_transfers = map durable_record (map snd (cx_entries s2))\<rparr>"
    by (simp add: client_snapshot_of_def)
  then have all: "entry_ok (ke_paths k) (ke_controller k) e" if "e \<in> set (map snd (cx_entries s2))" for e
    using v that client_validate_records [of "ke_paths k" "ke_controller k" g "map snd (cx_entries s2)"]
    by (auto simp: is_ok_unit)
  have len: "length bs < 2 ^ 64" using short unsigned_less [of "fpi_confirmed_offset i", where ?'a = nat] by simp
  have "put_on_source k j (SrcBytes bs) s = (pc', s')" using st by (simp add: put_step_def)
  then obtain i' where i': "bt_get (cx_entries s') (pj_transfer_id j) = Some (EntryPut i' sid p c)"
    "fpi_total_size i' = Some (word_of_nat (length bs))" "fpi_confirmed_offset i' = fpi_confirmed_offset i"
    using e len go
    by (auto simp: put_on_source_def prepare_source_def put_finish_def bind_r_Ok update_info_def on_entry_get Let_def
        split: sum.splits if_splits)
  have "EntryPut i' sid p c \<in> set (map snd (cx_entries s2))"
    using bt_get_setD i'(1) stays by force
  from all [OF this] have "progress_ok (fpi_total_size i') (fpi_final_sha256 i') (fpi_confirmed_offset i')" by simp
  then have "fpi_confirmed_offset i \<le> word_of_nat (length bs)"
    using i' by (cases "fpi_final_sha256 i'") simp_all
  then show False using short len by (simp add: word_le_nat_alt unat_of_nat)
qed

subsection \<open>What a finished download leaves\<close>

lemma get_place_confirm:
  assumes st: "get_step k j ev (GcPlace m gp, s) = (GcConfirm, s')" and part: "part_at k (gp_path gp) s = Some content"
  shows "\<exists>s1 path. placed k (gp_path gp) (gj_policy j) path content s s1
    \<and> s' = clear_get_durable_state (gj_transfer_id j)
             (update_get_info (gj_transfer_id j) (\<lambda>i.
                i\<lparr>fgi_phase := CpCompleted, fgi_confirmed_offset := fm_total_size m,
                  fgi_final_controller_path := Some path, fgi_error := None\<rparr>) s1)"
proof -
  obtain x where pl: "get_on_place k j m gp x s = (GcConfirm, s')"
    using st by (cases ev) (auto simp: get_step_def get_on_cleanup_def)
  obtain s1 r where p: "persist_destination k x (gp_path gp) (gp_target gp) (gj_policy j) s = (s1, r)" by fastforce
  then obtain path where r: "r = Ok path" and s': "s' = clear_get_durable_state (gj_transfer_id j)
             (update_get_info (gj_transfer_id j) (\<lambda>i.
                i\<lparr>fgi_phase := CpCompleted, fgi_confirmed_offset := fm_total_size m,
                  fgi_final_controller_path := Some path, fgi_error := None\<rparr>) s1)"
    using pl by (cases r) (auto simp: get_on_place_def get_on_result_def split: if_splits)
  have "placed k (gp_path gp) (gj_policy j) path content s s1"
    using persist_destination_cases [OF p] part unfolding r by auto
  then show ?thesis using s' by blast
qed

text \<open>C11: In every history, whatever the sources of uploads, the network and the journal do meanwhile, the step that ends a download puts at one path a file of exactly the size and
  SHA-256 the device announced, over an existing file only when the caller asked to replace, leaves every
  other path alone, and reports the transfer as completed at that path.\<close>

theorem download_delivers:
  assumes env: "client_env_ok k" and run: "client_run k y" and up: "sy_up y"
    and wk: "sy_workers y tid = Some (GetWorker j (GcPlace m gp))"
    and y': "y' = system_step k (SysWorker tid ev) y"
    and wk': "sy_workers y' tid = Some (GetWorker j GcConfirm)"
  shows "\<exists>path content.
    cx_files (sy_state y') = (cx_files (sy_state y))(path_parts (ke_paths k) path \<mapsto> FileNode content)
    \<and> length content = unat (fm_total_size m) \<and> sha256_hex (ke_sha k) content = fm_final_sha256 m
    \<and> (gj_policy j = ReplaceExisting \<or> cx_files (sy_state y) (path_parts (ke_paths k) path) = None)
    \<and> (\<forall>info. client_status tid (sy_state y') = Ok info \<longrightarrow> (\<exists>i. info = InfoGet i \<and> fgi_phase i = CpCompleted
         \<and> fgi_final_controller_path i = Some path \<and> fgi_confirmed_offset i = fm_total_size m))"
proof -
  let ?s = "sy_state y"
  have "tid_inv k tid (Some (GetWorker j (GcPlace m gp))) (bt_get (cx_entries ?s) tid) (cx_parts ?s)"
    using client_run_ok [OF env run] up wk unfolding system_ok_def by metis
  then have j: "gj_transfer_id j = tid" and w: "get_worker_ok k j (GcPlace m gp) ?s"
    unfolding tid_inv_get by simp_all
  have pc: "part_inv k tid m gp (cx_parts ?s)" "unat (fm_total_size m) = length (gp_prefix gp)"
    "fd_confirmed_prefix_sha256 (gp_descriptor gp) = fm_final_sha256 m"
    using w j by (simp_all add: get_worker_ok_def get_pc_ok_def)
  then have content: "part_at k (gp_path gp) ?s = Some (gp_prefix gp)"
    "sha256_hex (ke_sha k) (gp_prefix gp) = fm_final_sha256 m"
    by (simp_all add: part_inv_def part_at_def)
  obtain pc' s' where st: "get_step k j ev (GcPlace m gp, ?s) = (pc', s')" by fastforce
  have y2: "pc' = GcConfirm" "sy_state y' = s'"
    using y' wk' wk up st by (simp_all add: worker_step_def set_worker_def)
  from get_place_confirm [OF st [unfolded y2(1)] content(1)]
  obtain s1 path where pl: "placed k (gp_path gp) (gj_policy j) path (gp_prefix gp) ?s s1"
    and s': "s' = clear_get_durable_state tid
             (update_get_info tid (\<lambda>i.
                i\<lparr>fgi_phase := CpCompleted, fgi_confirmed_offset := fm_total_size m,
                  fgi_final_controller_path := Some path, fgi_error := None\<rparr>) s1)"
    using j by blast
  have files: "cx_files s' = (cx_files ?s)(path_parts (ke_paths k) path \<mapsto> FileNode (gp_prefix gp))"
    using pl s' by (simp add: placed_def with_file_def clear_get_durable_state_def set_get_durable_state_def
        update_get_info_def)
  have "cx_entries s1 = cx_entries ?s" using pl by (simp add: placed_def with_file_def)
  moreover have "\<exists>i q d c. e = EntryGet i (gj_site_id j) q d c" if "bt_get (cx_entries ?s) tid = Some e" for e
    using w j that unfolding get_worker_ok_def get_entry_ok_def by blast
  ultimately have "\<exists>i. info = InfoGet i \<and> fgi_phase i = CpCompleted \<and> fgi_final_controller_path i = Some path
      \<and> fgi_confirmed_offset i = fm_total_size m" if "client_status tid s' = Ok info" for info
    using that s' by (cases "bt_get (cx_entries ?s) tid")
      (auto simp: client_status_def clear_get_durable_state_def set_get_durable_state_def update_get_info_def
        on_entry_get)
  then show ?thesis using files pc(2) content(2) pl y2(2) unfolding placed_def by metis
qed

subsection \<open>When an upload is completed\<close>




























subsection \<open>Witnesses\<close>

definition toy_digest :: "bytes \<Rightarrow> bytes" where
  "toy_digest x = (if x = [] then [227, 176, 196, 66, 152, 252, 28, 20] @ [154, 251, 244, 200,
     153, 111, 185, 36] @ [39, 174, 65, 228, 100, 155, 147, 76] @ [164, 149, 153, 27,
     120, 82, 184, 85] else replicate 32 0)"

definition toy_snap :: "u64 \<Rightarrow> client_snapshot" where
  "toy_snap g = \<lparr>cn_controller_id = 1, cn_generation = g, cn_transfers = []\<rparr>"

definition toy_client_json :: client_json where
  "toy_client_json =
     \<lparr>to_vec_pretty = \<lambda>e. if e = envelope_new (toy_snap 1) then Ok [1]
        else if e = envelope_new (toy_snap 2) then Ok [2] else Err (JsonError []),
      from_slice_header = \<lambda>b. if b = [] then Err (JsonError []) else Ok STATE_SCHEMA_VERSION,
      from_slice_envelope = \<lambda>b. if b = [] then Err (JsonError [])
        else Ok (envelope_new (toy_snap (if b = [1] then 1 else 2)))\<rparr>"

definition toy_client :: "bool \<Rightarrow> client_env" where
  "toy_client d = \<lparr>ke_paths = unix_paths, ke_controller = 1, ke_durable = d, ke_json = toy_client_json,
     ke_sha = toy_digest, ke_base64 = toy_b64, ke_show = (\<lambda>_. ''error''),
     ke_show_id = (\<lambda>tid. replicate (unat tid) CHR ''x'')\<rparr>"

lemma last_component:
  assumes n: "CHR ''/'' \<notin> set n" "n \<noteq> []" "n \<noteq> ''.''"
  shows "last (unix_components (path_join p n)) = n"
proof -
  have one: "split_slash n = [n]" using n(1) by (induction n) auto
  have app: "split_slash (s @ CHR ''/'' # t) = split_slash s @ split_slash t" for s t
    by (induction s) (auto split: list.splits)
  have rel: "\<not> is_absolute n" using n by (cases n) (auto simp: is_absolute_def)
  have "\<exists>q. filter (\<lambda>w. w \<noteq> [] \<and> w \<noteq> ''.'') (split_slash (path_join p n)) = q @ [n]"
  proof (cases "p = []")
    case True
    then show ?thesis using one rel n by (simp add: path_join_def)
  next
    case False
    show ?thesis
    proof (cases "last p = CHR ''/''")
      case True
      then have "p = butlast p @ ''/''" using append_butlast_last_id [OF False] by simp
      then have "path_join p n = butlast p @ CHR ''/'' # n"
        using rel True False by (simp add: path_join_def)
      then show ?thesis using one n by (simp add: app)
    next
      case no: False
      then have "path_join p n = p @ CHR ''/'' # n" using rel False by (simp add: path_join_def)
      then show ?thesis using one n by (simp add: app)
    qed
  qed
  then show ?thesis by (auto simp: unix_components_def Let_def)
qed

lemma toy_client_ok: "client_env_ok (toy_client d)"
proof -
  have sha: "sha256_hex toy_digest [] = EMPTY_SHA256_HEX" by code_simp
  have len: "length (toy_digest x) = 32" for x by (simp add: toy_digest_def)
  have ne: "toy_snap 1 \<noteq> toy_snap 2" by (simp add: toy_snap_def)
  have json: "slot_faithful toy_client_json c" for c
    using ne by (simp add: slot_faithful_def state_json_faithful_def toy_client_json_def envelope_new_def)
  have nm: "last (path_parts unix_paths (path_join p (''.clew-'' @ replicate n CHR ''x'' @ ''.part'')))
      = ''.clew-'' @ replicate n CHR ''x'' @ ''.part''" for p n
    using last_component [of "''.clew-'' @ replicate n CHR ''x'' @ ''.part''" p]
    by (simp add: path_parts_def unix_paths_def unix_platform_def)
  have "a = b" if "path_parts unix_paths (path_join p (''.clew-'' @ replicate (unat a) CHR ''x'' @ ''.part''))
      = path_parts unix_paths (path_join q (''.clew-'' @ replicate (unat b) CHR ''x'' @ ''.part''))"
    for p q and a b :: transfer_id
  proof -
    have "length (''.clew-'' @ replicate (unat a) CHR ''x'' @ ''.part'') = length (''.clew-'' @ replicate (unat b) CHR ''x'' @ ''.part'')"
      using nm that by metis
    then show ?thesis by (simp add: word_unat_eq_iff)
  qed
  then show ?thesis using sha len json toy_b64_ok
    by (auto simp: client_env_ok_def toy_client_def part_name_def unix_paths_def unix_platform_def path_parts_def)
qed

definition toy_fresh :: client_state where
  "toy_fresh = \<lparr>cx_entries = [], cx_generation = 0, cx_slot_a = NoFile, cx_slot_b = NoFile,
     cx_parts = (\<lambda>_. None), cx_files = (\<lambda>_. None)\<rparr>"

definition toy_up :: client_system where
  "toy_up = \<lparr>sy_up = True, sy_state = toy_fresh, sy_workers = (\<lambda>_. None)\<rparr>"

lemma toy_up_run: "client_run (toy_client False) toy_up"
proof -
  let ?y = "\<lparr>sy_up = False, sy_state = toy_fresh, sy_workers = (\<lambda>_. None)\<rparr>"
  have "client_load_or_create (toy_client False) Written [] toy_fresh = (toy_fresh, Ok [])"
    by (simp add: client_load_or_create_def load_client_def load_client_slots_def pick_slots_def note_slot_def
        read_client_slot_def toy_fresh_def restore_client_snapshot_def client_validate_def client_persist_def toy_client_def
        restore_entries_def)
  then have "system_step (toy_client False) (SysRestart Written []) ?y = toy_up" by (simp add: toy_up_def)
  moreover have "client_run (toy_client False) ?y" by (rule run_new) (simp add: new_client_def toy_fresh_def)
  ultimately show ?thesis using run_step [of "toy_client False" ?y "SysRestart Written []"]
    by (simp add: event_allowed_def)
qed

text \<open>An upload and a download of an empty file.\<close>

definition toy_putting :: client_system where
  "toy_putting = \<lparr>sy_up = True,
     sy_state = toy_fresh\<lparr>cx_entries := [(5, EntryPut (new_put_info 5 3 ''/s'' ''/d'' 4096) 2 FailIfExists False)]\<rparr>,
     sy_workers = (\<lambda>_. None)(5 \<mapsto> PutWorker (put_job_of (new_put_info 5 3 ''/s'' ''/d'' 4096) 2 FailIfExists) PcPrepare)\<rparr>"

lemma toy_chunk_size: "chunk_size_ok 4096"
  by (simp add: chunk_size_ok_def is_power_of_two_def upt_rec)

lemma toy_prune: "prune_terminal [] = []"
  by (subst prune_terminal.simps) (simp add: bounds_simps)

lemma toy_paths: "local_path_ok unix_paths ''/s''" "device_path_ok ''/d''"
  by (simp_all add: local_path_ok_def device_path_ok_def trim_def ascii_defs unix_paths_def unix_platform_def
      is_absolute_def)

lemma toy_putting_run: "client_run (toy_client False) toy_putting"
proof -
  have "validate_start_inputs unix_paths ''/s'' ''/d'' 4096 = Ok ()"
    by (simp add: validate_start_inputs_Ok toy_paths toy_chunk_size)
  then have "system_step (toy_client False) (SysStartPut Written 5 3 2 ''/s'' ''/d'' 4096 FailIfExists) toy_up = toy_putting"
    by (simp add: toy_up_def start_put_with_transfer_id_def toy_client_def start_entry_def start_enter_def
        client_start_commit_def client_persist_def toy_fresh_def toy_prune Let_def set_worker_def toy_putting_def
        new_put_info_def bounds_simps)
  then show ?thesis
    using run_step [OF toy_up_run, of "SysStartPut Written 5 3 2 ''/s'' ''/d'' 4096 FailIfExists"]
    by (simp add: event_allowed_def)
qed

definition toy_file :: "file_transfer_direction \<Rightarrow> file_conflict_policy option \<Rightarrow> file_transfer_manifest" where
  "toy_file d p = \<lparr>fm_version = 1, fm_transfer_id = 5, fm_controller_id = 1, fm_site_id = 2, fm_device_id = 3,
     fm_direction = d, fm_device_path = ''/d'', fm_total_size = 0, fm_chunk_size = 4096,
     fm_final_sha256 = EMPTY_SHA256_HEX, fm_conflict_policy = p\<rparr>"

lemma toy_digest_empty: "sha256_hex toy_digest [] = EMPTY_SHA256_HEX"
  using toy_client_ok by (simp add: client_env_ok_def toy_client_def)

lemma toy_empty_hex: "is_sha256_hex EMPTY_SHA256_HEX"
  using sha256_hex_ok [of toy_digest "[]"] toy_digest_empty by (simp add: toy_digest_def)

lemma toy_file_ok: "manifest_ok (toy_file ControllerToDevice (Some p))" "manifest_ok (toy_file DeviceToController None)"
  using toy_empty_hex toy_chunk_size toy_paths by (simp_all add: manifest_ok_def toy_file_def)

definition toy_worker :: "client_worker \<Rightarrow> client_state \<Rightarrow> client_system" where
  "toy_worker w s = \<lparr>sy_up = True, sy_state = s, sy_workers = (\<lambda>_. None)(5 \<mapsto> w)\<rparr>"

lemma toy_worker_step:
  assumes "client_run k (toy_worker w s)" and "event_fits k ev" and "worker_step k ev w s = (w', s')"
  shows "client_run k (toy_worker w' s')"
  using run_step [OF assms(1), of "SysWorker 5 ev"] assms(2,3)
  by (simp add: toy_worker_def event_allowed_def set_worker_def)

definition toy_put_state :: "file_put_info \<Rightarrow> client_state" where
  "toy_put_state i = toy_fresh\<lparr>cx_entries := [(5, EntryPut i 2 FailIfExists False)]\<rparr>"


definition toy_put_job :: put_job where
  "toy_put_job = put_job_of (new_put_info 5 3 ''/s'' ''/d'' 4096) 2 FailIfExists"





definition toy_get_job :: get_job where
  "toy_get_job = get_job_of (new_get_info 5 3 ''/d'' ''/t'' 4096) 2 FailIfExists"

definition toy_get_state :: "file_get_info \<Rightarrow> durable_get_state option \<Rightarrow> client_state" where
  "toy_get_state i d = toy_fresh\<lparr>cx_entries := [(5, EntryGet i 2 FailIfExists d False)]\<rparr>"

abbreviation toy_down :: file_transfer_manifest where
  "toy_down \<equiv> toy_file DeviceToController None"

definition toy_part_path :: string where
  "toy_part_path = ''/.clew-xxxxx.part''"

definition toy_gs :: durable_get_state where
  "toy_gs = \<lparr>gs_part_path = toy_part_path, gs_manifest = toy_down\<rparr>"

definition toy_client_fs :: client_fs where
  "toy_client_fs = \<lparr>kf_canonicalize = (\<lambda>p. if p = ''/'' then Ok ''/'' else Err ''not found''), kf_lstat = (\<lambda>_. LstatMissing), kf_part = PartAsIs\<rparr>"

definition toy_get_info :: file_get_info where
  "toy_get_info = (new_get_info 5 3 ''/d'' ''/t'' 4096)\<lparr>fgi_phase := CpRunning, fgi_total_size := Some 0,
     fgi_final_sha256 := Some EMPTY_SHA256_HEX\<rparr>"

definition toy_get_part :: get_part where
  "toy_get_part = \<lparr>gp_path = toy_part_path, gp_target = ''/t'', gp_descriptor =
     \<lparr>fd_version = 1, fd_transfer_id = 5, fd_controller_id = 1, fd_site_id = 2,
       fd_device_id = 3, fd_direction = DeviceToController, fd_device_path = ''/d'', fd_total_size = 0,
       fd_checkpoint_revision = 1, fd_confirmed_offset = 0, fd_confirmed_prefix_sha256 = EMPTY_SHA256_HEX,
       fd_final_sha256 = Some EMPTY_SHA256_HEX\<rparr>, gp_prefix = []\<rparr>"

lemma toy_getting_run: "client_run (toy_client False)
    (toy_worker (GetWorker toy_get_job (GcStart None)) (toy_get_state (new_get_info 5 3 ''/d'' ''/t'' 4096) None))"
proof -
  have "local_path_ok unix_paths ''/t''"
    by (simp add: local_path_ok_def trim_def ascii_defs unix_paths_def unix_platform_def is_absolute_def)
  then have "validate_get_start_inputs unix_paths ''/d'' ''/t'' 4096 = Ok ()"
    by (simp add: validate_get_start_inputs_Ok toy_paths toy_chunk_size)
  then have "system_step (toy_client False) (SysStartGet Written 5 3 2 ''/d'' ''/t'' 4096 FailIfExists) toy_up
      = toy_worker (GetWorker toy_get_job (GcStart None)) (toy_get_state (new_get_info 5 3 ''/d'' ''/t'' 4096) None)"
    by (simp add: toy_up_def start_get_with_transfer_id_def toy_client_def start_entry_def start_enter_def
        client_start_commit_def client_persist_def toy_fresh_def toy_prune Let_def set_worker_def toy_worker_def
        new_get_info_def bounds_simps toy_get_state_def toy_get_job_def)
  then show ?thesis
    using run_step [OF toy_up_run, of "SysStartGet Written 5 3 2 ''/d'' ''/t'' 4096 FailIfExists"]
    by (simp add: event_allowed_def)
qed

lemma toy_get_run_step:
  assumes "client_run k (toy_worker (GetWorker j pc) s)" and "event_fits k ev" and "get_step k j ev (pc, s) = (pc', s')"
  shows "client_run k (toy_worker (GetWorker j pc') s')"
  by (rule toy_worker_step [OF assms(1,2)]) (simp add: worker_step_def assms(3))

lemma toy_prepared: "prepare_destination_paths (toy_client False) toy_client_fs ''/t'' FailIfExists 5 = Ok (toy_part_path, ''/t'')"
proof -
  have u: "to_string_lossy ''/t'' = ''/t''" "to_string_lossy toy_part_path = toy_part_path"
    by (rule to_string_lossy_valid, simp add: code_def toy_part_path_def)+
  have n: "unix_file_name ''/t'' = Some ''t''" "unix_parent ''/t'' = Some ''/''"
    by (simp_all add: unix_file_name_def unix_parent_def unix_components_def unix_render_def is_absolute_def)
  have nm: "part_name (toy_client False) 5 = ''.clew-xxxxx.part''"
  proof -
    have "unat (5 :: transfer_id) = 5" by simp
    moreover have "replicate 5 CHR ''x'' = ''xxxxx''" by (simp add: numeral_eq_Suc)
    ultimately show ?thesis by (simp add: part_name_def toy_client_def)
  qed
  have p: "path_join ''/'' ''.clew-xxxxx.part'' = toy_part_path" "path_join ''/'' ''t'' = ''/t''"
    by (simp_all add: path_join_def is_absolute_def toy_part_path_def)
  have len: "length toy_part_path \<le> 4096" by (simp add: toy_part_path_def)
  have k: "ke_paths (toy_client False) = unix_paths" by (simp add: toy_client_def)
  have ab: "is_absolute ''/t''" by (simp add: is_absolute_def)
  show ?thesis
    unfolding prepare_destination_paths_def k nm Let_def
    by (simp add: unix_paths_def unix_platform_def n p u len ab toy_client_fs_def bounds_simps)
      (simp add: u(2) [unfolded toy_part_path_def])
qed

lemma toy_part_valid: "utf8_valid toy_part_path" "utf8_valid ''/t''"
  by (simp_all add: toy_part_path_def code_def)

lemma toy_canonical: "canonical_ok (toy_client False) toy_client_fs"
proof -
  let ?n = "\<lambda>tid :: transfer_id. ''.clew-'' @ replicate (unat tid) CHR ''x'' @ ''.part''"
  have j: "path_join ''/'' (?n tid) = CHR ''/'' # ?n tid" for tid
    by (simp add: path_join_def is_absolute_def)
  have "trim (CHR ''/'' # ?n tid) \<noteq> []" for tid
    by (simp add: trim_def ascii_defs ws1_def ws2_def ws3_def)
  moreover have "CHR 0x00 \<notin> set (CHR ''/'' # ?n tid)" for tid by simp
  ultimately show ?thesis
    by (simp add: canonical_ok_def toy_client_fs_def toy_client_def unix_paths_def unix_platform_def part_name_def j
        is_absolute_def Let_def split: if_splits)
qed

lemma toy_get_steps:
  shows "get_step (toy_client False) toy_get_job EvGo (GcStart None, toy_get_state (new_get_info 5 3 ''/d'' ''/t'' 4096) None)
      = (GcBegin None, toy_get_state (new_get_info 5 3 ''/d'' ''/t'' 4096) None)"
    and "get_step (toy_client False) toy_get_job (EvAttempt (Ok (1, Ok (FtrManifest toy_down))))
        (GcBegin None, toy_get_state (new_get_info 5 3 ''/d'' ''/t'' 4096) None)
      = (GcPrepare 1 toy_down, toy_get_state (new_get_info 5 3 ''/d'' ''/t'' 4096) None)"
    and "get_step (toy_client False) toy_get_job (EvLocal toy_client_fs)
        (GcPrepare 1 toy_down, toy_get_state (new_get_info 5 3 ''/d'' ''/t'' 4096) None)
      = (GcBound 1 toy_down toy_part_path ''/t'', toy_get_state (new_get_info 5 3 ''/d'' ''/t'' 4096) (Some toy_gs))"
    and "get_step (toy_client False) toy_get_job EvGo
        (GcBound 1 toy_down toy_part_path ''/t'', toy_get_state (new_get_info 5 3 ''/d'' ''/t'' 4096) (Some toy_gs))
      = (GcJournal 1 toy_down toy_part_path ''/t'', toy_get_state toy_get_info (Some toy_gs))"
    and "get_step (toy_client False) toy_get_job (EvPersist Written)
        (GcJournal 1 toy_down toy_part_path ''/t'', toy_get_state toy_get_info (Some toy_gs))
      = (GcCreate 1 toy_down toy_part_path ''/t'', toy_get_state toy_get_info (Some toy_gs))"
proof -
  have j: "gj_transfer_id toy_get_job = 5" "gj_site_id toy_get_job = 2" "gj_device_id toy_get_job = 3"
    "gj_chunk_size toy_get_job = 4096" "gj_destination_path toy_get_job = ''/t''" "gj_policy toy_get_job = FailIfExists"
    by (simp_all add: toy_get_job_def get_job_of_def new_get_info_def)
  show "get_step (toy_client False) toy_get_job EvGo (GcStart None, toy_get_state (new_get_info 5 3 ''/d'' ''/t'' 4096) None)
      = (GcBegin None, toy_get_state (new_get_info 5 3 ''/d'' ''/t'' 4096) None)"
    by (simp add: get_step_def get_on_start_def j is_cancelled_def toy_get_state_def)
  have "validate_get_manifest toy_down 1 2 3 5 4096 = Ok ()"
    using toy_file_ok(2) by (simp add: validate_get_manifest_Ok client_manifest_ok_def) (simp add: toy_file_def)
  then show "get_step (toy_client False) toy_get_job (EvAttempt (Ok (1, Ok (FtrManifest toy_down))))
        (GcBegin None, toy_get_state (new_get_info 5 3 ''/d'' ''/t'' 4096) None)
      = (GcPrepare 1 toy_down, toy_get_state (new_get_info 5 3 ''/d'' ''/t'' 4096) None)"
    by (simp add: get_step_def get_on_attempt_def get_on_result_def manifest_of_reply_def j toy_client_def)
  show "get_step (toy_client False) toy_get_job (EvLocal toy_client_fs)
        (GcPrepare 1 toy_down, toy_get_state (new_get_info 5 3 ''/d'' ''/t'' 4096) None)
      = (GcBound 1 toy_down toy_part_path ''/t'', toy_get_state (new_get_info 5 3 ''/d'' ''/t'' 4096) (Some toy_gs))"
    using toy_part_valid
    by (simp add: get_step_def get_on_prepare_def get_on_result_def j toy_prepared set_get_durable_state_def on_entry_def
        toy_get_state_def bt_update_def toy_gs_def)
  show "get_step (toy_client False) toy_get_job EvGo
        (GcBound 1 toy_down toy_part_path ''/t'', toy_get_state (new_get_info 5 3 ''/d'' ''/t'' 4096) (Some toy_gs))
      = (GcJournal 1 toy_down toy_part_path ''/t'', toy_get_state toy_get_info (Some toy_gs))"
    by (simp add: get_step_def get_on_bound_def j update_get_info_def on_entry_def toy_get_state_def bt_update_def
        toy_get_info_def toy_file_def)
  show "get_step (toy_client False) toy_get_job (EvPersist Written)
        (GcJournal 1 toy_down toy_part_path ''/t'', toy_get_state toy_get_info (Some toy_gs))
      = (GcCreate 1 toy_down toy_part_path ''/t'', toy_get_state toy_get_info (Some toy_gs))"
    by (simp add: get_step_def get_on_persist_def get_on_result_def client_persist_def toy_client_def)
qed

lemma toy_get_create: "get_step (toy_client False) toy_get_job (EvLocal toy_client_fs)
    (GcCreate 1 toy_down toy_part_path ''/t'', toy_get_state toy_get_info (Some toy_gs))
    = (GcPlace toy_down toy_get_part, with_part (toy_client False) toy_part_path (Some []) (toy_get_state toy_get_info (Some toy_gs)))"
proof -
  have "fd_ok (gp_descriptor toy_get_part)"
    using toy_empty_hex toy_paths by (simp add: fd_ok_def toy_get_part_def)
  then have "part_descriptor (toy_client False) toy_down [] = Ok (gp_descriptor toy_get_part)"
    using toy_file_ok(2)
    by (simp add: part_descriptor_def initial_resume_descriptor_def fd_new_def bind_r_Ok Let_def fd_validate_Ok
        manifest_validate_Ok) (simp add: toy_file_def toy_get_part_def FILE_RESUME_DESCRIPTOR_VERSION_def)
  then show ?thesis
    using toy_digest_empty
    by (simp add: get_step_def get_on_create_def get_on_result_def open_or_create_part_def open_part_def toy_client_fs_def
        check_part_def part_at_def toy_get_state_def toy_fresh_def get_loop_def)
      (simp add: toy_file_def toy_get_part_def toy_client_def)
qed

lemma toy_placing_run: "client_run (toy_client False) (toy_worker (GetWorker toy_get_job (GcPlace toy_down toy_get_part))
    (with_part (toy_client False) toy_part_path (Some []) (toy_get_state toy_get_info (Some toy_gs))))"
proof -
  have fits: "event_fits (toy_client False) ev" if "ev = EvGo \<or> (\<exists>x. ev = EvAttempt x) \<or> (\<exists>x. ev = EvPersist x)" for ev
    using that by (auto simp: event_fits_def)
  have loc: "event_fits (toy_client False) (EvLocal toy_client_fs)"
    using toy_canonical by (simp add: event_fits_def)
  show ?thesis
    by (rule toy_get_run_step [OF _ loc toy_get_create],
        rule toy_get_run_step [OF _ fits toy_get_steps(5)],
        rule toy_get_run_step [OF _ fits toy_get_steps(4)],
        rule toy_get_run_step [OF _ loc toy_get_steps(3)],
        rule toy_get_run_step [OF _ fits toy_get_steps(2)],
        rule toy_get_run_step [OF toy_getting_run fits toy_get_steps(1)]) auto
qed

lemma toy_place: "sy_workers (system_step (toy_client False) (SysWorker 5 (EvPlace (PlaceAtTarget LstatMissing None None)))
    (toy_worker (GetWorker toy_get_job (GcPlace toy_down toy_get_part))
      (with_part (toy_client False) toy_part_path (Some []) (toy_get_state toy_get_info (Some toy_gs))))) 5
  = Some (GetWorker toy_get_job GcConfirm)"
proof -
  have j: "gj_policy toy_get_job = FailIfExists" by (simp add: toy_get_job_def get_job_of_def)
  have "persist_destination (toy_client False) (PlaceAtTarget LstatMissing None None) toy_part_path ''/t'' FailIfExists
      (with_part (toy_client False) toy_part_path (Some []) (toy_get_state toy_get_info (Some toy_gs)))
    = (with_part (toy_client False) toy_part_path None (with_file (toy_client False) ''/t'' []
        (with_part (toy_client False) toy_part_path None
          (with_part (toy_client False) toy_part_path (Some []) (toy_get_state toy_get_info (Some toy_gs))))), Ok ''/t'')"
    by (simp add: persist_destination_def place_noclobber_def place_synced_def toy_get_state_def toy_fresh_def)
  then show ?thesis using toy_part_valid(2) j
    by (simp add: toy_worker_def worker_step_def get_step_def get_on_place_def get_on_result_def set_worker_def
        toy_get_part_def)
qed

lemma toy_bound_run: "client_run (toy_client False) (toy_worker (GetWorker toy_get_job (GcBound 1 toy_down toy_part_path ''/t''))
    (toy_get_state (new_get_info 5 3 ''/d'' ''/t'' 4096) (Some toy_gs)))"
proof -
  have fits: "event_fits (toy_client False) ev" if "ev = EvGo \<or> (\<exists>x. ev = EvAttempt x)" for ev
    using that by (auto simp: event_fits_def)
  have loc: "event_fits (toy_client False) (EvLocal toy_client_fs)"
    using toy_canonical by (simp add: event_fits_def)
  show ?thesis
    by (rule toy_get_run_step [OF _ loc toy_get_steps(3)],
        rule toy_get_run_step [OF _ fits toy_get_steps(2)],
        rule toy_get_run_step [OF toy_getting_run fits toy_get_steps(1)]) auto
qed

lemma client_snapshot_valid_iff_witness:
  "client_validate unix_paths 1 (client_snapshot_of (toy_client False) 1 (sy_state toy_putting)) = Ok ()
   \<and> client_validate unix_paths 1 (client_snapshot_of (toy_client False) 1
       (toy_get_state (new_get_info 5 3 ''/d'' ''/t'' 4096) (Some toy_gs))) \<noteq> Ok ()"
proof -
  have k: "ke_paths (toy_client False) = unix_paths" "ke_controller (toy_client False) = 1" by (simp_all add: toy_client_def)
  show ?thesis
    using client_snapshot_valid_iff [OF toy_client_ok toy_putting_run, of 1]
      client_snapshot_valid_iff [OF toy_client_ok toy_bound_run, of 1]
    by (simp add: k) (simp add: toy_putting_def toy_worker_def toy_get_state_def new_put_info_def)
qed

text \<open>A journal written once, and one torn in its first write.\<close>

definition toy_written :: client_state where
  "toy_written = toy_fresh\<lparr>cx_slot_b := File [1], cx_generation := 1\<rparr>"

lemma toy_snap_encode: "encode_state_json toy_client_json (toy_snap 1) = Ok [1]" "encode_state_json toy_client_json (toy_snap 2) = Ok [2]"
proof -
  have "toy_snap 1 \<noteq> toy_snap 2" by (simp add: toy_snap_def)
  then show "encode_state_json toy_client_json (toy_snap 1) = Ok [1]" "encode_state_json toy_client_json (toy_snap 2) = Ok [2]"
    by (simp_all add: encode_state_json_Ok toy_client_json_def envelope_new_def bounds_simps)
qed

lemma toy_snap_valid: "client_validate unix_paths 1 (toy_snap g) = Ok ()"
  by (simp add: client_validate_def toy_snap_def)

lemma toy_first_write: "client_load_or_create (toy_client True) w [] toy_fresh
  = (let (f, r) = write_client_slot toy_client_json w (toy_snap 1) NoFile in
     case r of Inl e \<Rightarrow> (toy_fresh\<lparr>cx_slot_b := f\<rparr>, Err e)
     | Inr _ \<Rightarrow> (toy_fresh\<lparr>cx_slot_b := f, cx_generation := 1\<rparr>, Ok []))"
proof -
  have l: "load_client unix_paths 1 toy_client_json NoFile NoFile = Ok (toy_snap 0)"
    by (simp add: load_client_def load_client_slots_def pick_slots_def note_slot_def read_client_slot_def toy_snap_def)
  have g: "checked_add (0 :: u64) 1 = Some 1" "\<not> even_to_a 1" by (simp_all add: checked_add_1 even_to_a_def)
  have c: "client_snapshot_of (toy_client True) 1 toy_fresh = toy_snap 1"
    by (simp add: client_snapshot_of_def toy_client_def toy_snap_def toy_fresh_def)
  have k: "ke_paths (toy_client True) = unix_paths" "ke_controller (toy_client True) = 1"
    "ke_durable (toy_client True)" "ke_json (toy_client True) = toy_client_json" by (simp_all add: toy_client_def)
  show ?thesis
  proof (cases "write_client_slot toy_client_json w (toy_snap 1) NoFile")
    case (Pair f r)
    have fr: "cx_slot_a toy_fresh = NoFile" "cx_slot_b toy_fresh = NoFile" "cx_entries toy_fresh = []" "cx_generation toy_fresh = 0"
      "toy_fresh\<lparr>cx_entries := []\<rparr> = toy_fresh" "toy_fresh\<lparr>cx_generation := 0\<rparr> = toy_fresh"
      "toy_fresh\<lparr>cx_generation := 0, cx_entries := []\<rparr> = toy_fresh"
      by (simp_all add: toy_fresh_def)
    have s0: "cn_generation (toy_snap 0) = 0" "cn_transfers (toy_snap 0) = []" by (simp_all add: toy_snap_def)
    show ?thesis using Pair
      by (cases r) (simp_all add: client_load_or_create_def l k restore_client_snapshot_def toy_snap_valid s0 restore_entries_def
          client_persist_def client_store_persist_def g c fr Let_def)
  qed
qed

lemma toy_written_run: "client_run (toy_client True) \<lparr>sy_up = True, sy_state = toy_written, sy_workers = (\<lambda>_. None)\<rparr>"
proof -
  let ?y = "\<lparr>sy_up = False, sy_state = toy_fresh, sy_workers = (\<lambda>_. None)\<rparr>"
  have "client_run (toy_client True) ?y" by (rule run_new) (simp add: new_client_def toy_fresh_def)
  then have "client_run (toy_client True) (system_step (toy_client True) (SysRestart Written []) ?y)"
    by (rule run_step) (simp add: event_allowed_def)
  moreover have "write_client_slot toy_client_json Written (toy_snap 1) NoFile = (File [1], Ok ())"
    by (simp add: write_client_slot_def write_slot_Ok toy_snap_encode)
  ultimately show ?thesis by (simp add: toy_first_write toy_written_def)
qed

lemma client_journal_kept_witness:
  "\<exists>s' e. client_persist (toy_client True) (Torn 0 ''crash'') toy_written = (s', Err e)
     \<and> (\<exists>c. load_client unix_paths 1 toy_client_json (cx_slot_a s') (cx_slot_b s') = Ok c \<and> 1 \<le> cn_generation c)"
proof -
  obtain s' r where p: "client_persist (toy_client True) (Torn 0 ''crash'') toy_written = (s', r)" by fastforce
  have k: "ke_paths (toy_client True) = unix_paths" "ke_controller (toy_client True) = 1"
    "ke_durable (toy_client True)" "ke_json (toy_client True) = toy_client_json" by (simp_all add: toy_client_def)
  have "\<not> is_ok r"
    using p client_store_persist_cases [of "toy_client True" "Torn 0 ''crash''" toy_written s' r] k(3)
    by (auto simp: client_persist_def write_client_slot_def write_slot_def split: sum.splits)
  then show ?thesis
    using client_journal_kept [OF toy_client_ok k(3) toy_written_run, of "Torn 0 ''crash''" s' r] p
    by (cases r) (auto simp: k toy_written_def)
qed

lemma torn_first_write_is_final_witness:
  "\<exists>e. client_load_or_create (toy_client True) Written [] (toy_fresh\<lparr>cx_slot_b := File []\<rparr>)
     = (toy_fresh\<lparr>cx_slot_b := File []\<rparr>, Err e)"
proof -
  have w: "write_client_slot toy_client_json (Torn 0 ''crash'') (toy_snap 1) NoFile = (File [], Err (CtIo ''crash''))"
    by (simp add: write_client_slot_def write_slot_def toy_snap_encode ct_errors_def)
  have r: "read_client_slot (ke_json (toy_client True)) (File []) = SlotInvalid (CtStateCodec (StateJson (JsonError [])))"
    by (simp add: read_client_slot_def toy_client_def decode_state_json_def check_document_size_def toy_client_json_def)
  show ?thesis
    using torn_first_write_is_final [of toy_fresh "toy_client True" "Torn 0 ''crash''" "[]"
        "toy_fresh\<lparr>cx_slot_b := File []\<rparr>" "Err (CtIo ''crash'')"] w r
    by (simp add: toy_first_write) (auto simp: toy_fresh_def new_client_def)
qed

lemma shrunk_source_blocks_journal_witness:
  "\<exists>s'. snd (put_step (toy_client True) toy_put_job (EvSource (SrcBytes []))
        (PcPrepare, toy_put_state ((new_put_info 5 3 ''/s'' ''/d'' 4096)\<lparr>fpi_confirmed_offset := 4096\<rparr>))) = s'
     \<and> \<not> is_ok (snd (client_persist (toy_client True) Written s'))"
proof -
  let ?i = "(new_put_info 5 3 ''/s'' ''/d'' 4096)\<lparr>fpi_confirmed_offset := 4096\<rparr>"
  have "put_manifest (toy_client True) toy_put_job 0 EMPTY_SHA256_HEX = Ok (toy_file ControllerToDevice (Some FailIfExists))"
    using toy_file_ok(1) [of FailIfExists]
    by (simp add: put_manifest_def manifest_new_def Let_def toy_put_job_def put_job_of_def new_put_info_def
        toy_client_def toy_file_def FILE_TRANSFER_MANIFEST_VERSION_def manifest_validate_Ok bind_r_Ok)
  moreover have "prepare_source (toy_client True) (SrcBytes []) = Ok (0, EMPTY_SHA256_HEX)"
    using toy_digest_empty by (simp add: prepare_source_def toy_client_def)
  moreover have j: "pj_transfer_id toy_put_job = 5" by (simp add: toy_put_job_def put_job_of_def new_put_info_def)
  ultimately obtain s' where st: "put_step (toy_client True) toy_put_job (EvSource (SrcBytes [])) (PcPrepare, toy_put_state ?i)
      = (PcBegin (toy_file ControllerToDevice (Some FailIfExists)), s')"
    by (simp add: put_step_def put_on_source_def toy_put_state_def update_info_def on_entry_def bt_update_def is_cancelled_def)
  have e: "bt_get (cx_entries (toy_put_state ?i)) (pj_transfer_id toy_put_job) = Some (EntryPut ?i 2 FailIfExists False)"
    by (simp add: toy_put_state_def j)
  have "\<not> is_ok (snd (client_persist (toy_client True) Written s'))"
    by (rule shrunk_source_blocks_journal [OF e _ st]) (simp_all add: toy_client_def)
  then show ?thesis using st by simp
qed

lemma download_delivers_witness:
  "\<exists>path content. cx_files (sy_state (system_step (toy_client False) (SysWorker 5 (EvPlace (PlaceAtTarget LstatMissing None None)))
      (toy_worker (GetWorker toy_get_job (GcPlace toy_down toy_get_part))
        (with_part (toy_client False) toy_part_path (Some []) (toy_get_state toy_get_info (Some toy_gs))))))
      = [path_parts unix_paths path \<mapsto> FileNode content] \<and> content = []"
proof -
  have k: "ke_paths (toy_client False) = unix_paths" by (simp add: toy_client_def)
  have f: "cx_files (with_part (toy_client False) toy_part_path (Some []) (toy_get_state toy_get_info (Some toy_gs))) = Map.empty"
    by (simp add: toy_get_state_def toy_fresh_def)
  have w: "sy_workers (toy_worker w s) 5 = Some w" "sy_up (toy_worker w s)" "sy_state (toy_worker w s) = s" for w s
    by (simp_all add: toy_worker_def)
  show ?thesis
    using download_delivers [OF toy_client_ok toy_placing_run w(2) w(1) refl toy_place]
    unfolding w(3) f k by (auto simp: toy_file_def)
qed


end
