(* ===== verification/Socks5.thy ===== *)
theory Socks5
  imports Remote_Hub Host_Transfer_Journal
begin

section \<open>The SOCKS5 proxy's negotiation (clew-runtime, socks5.rs)\<close>

text \<open>
  The handshake with a local client, over a byte stream given by what the client still sends and
  how many writes to it still succeed. The main lemma inverts the handshake: it succeeds exactly
  on the byte strings of the SOCKS5 grammar (RFC 1928, no authentication, CONNECT) and leaves
  what follows them unread. IP addresses are written as the standard library writes them.
\<close>

definition HARD_MAX_SOCKS5_LISTENERS :: nat where [bounds_simps]: "HARD_MAX_SOCKS5_LISTENERS = 64"
definition SOCKS5_VERSION :: u8 where "SOCKS5_VERSION = 5"
definition SOCKS5_NO_AUTH :: u8 where "SOCKS5_NO_AUTH = 0"
definition SOCKS5_NO_ACCEPTABLE_AUTH :: u8 where "SOCKS5_NO_ACCEPTABLE_AUTH = 255"
definition SOCKS5_CONNECT :: u8 where "SOCKS5_CONNECT = 1"
definition SOCKS5_REP_GENERAL_FAILURE :: u8 where "SOCKS5_REP_GENERAL_FAILURE = 1"
definition SOCKS5_REP_NOT_ALLOWED :: u8 where "SOCKS5_REP_NOT_ALLOWED = 2"
definition SOCKS5_REP_CONNECTION_REFUSED :: u8 where "SOCKS5_REP_CONNECTION_REFUSED = 5"
definition SOCKS5_REP_TTL_EXPIRED :: u8 where "SOCKS5_REP_TTL_EXPIRED = 6"
definition SOCKS5_REP_COMMAND_NOT_SUPPORTED :: u8 where "SOCKS5_REP_COMMAND_NOT_SUPPORTED = 7"
definition SOCKS5_REP_ADDRESS_NOT_SUPPORTED :: u8 where "SOCKS5_REP_ADDRESS_NOT_SUPPORTED = 8"

lemmas socks5_codes = SOCKS5_VERSION_def SOCKS5_NO_AUTH_def SOCKS5_NO_ACCEPTABLE_AUTH_def
  SOCKS5_CONNECT_def SOCKS5_REP_GENERAL_FAILURE_def SOCKS5_REP_NOT_ALLOWED_def
  SOCKS5_REP_CONNECTION_REFUSED_def SOCKS5_REP_TTL_EXPIRED_def
  SOCKS5_REP_COMMAND_NOT_SUPPORTED_def SOCKS5_REP_ADDRESS_NOT_SUPPORTED_def

datatype socks5_handshake_error =
    SkIo
  | SkInvalidGreeting
  | SkNoAcceptableAuth
  | SkInvalidRequest
  | SkUnsupportedCommand u8
  | SkUnsupportedAddressType u8
  | SkInvalidDomain
  | SkInvalidDestination

subsection \<open>The stream\<close>

text \<open>What the client sends before it closes, what was written to it, and how many more writes
  succeed (\<open>None\<close>: all).\<close>

record client_stream =
  cs_input :: bytes
  cs_output :: bytes
  cs_writes :: "nat option"

type_synonym 'a sock = "client_stream \<times> (socks5_handshake_error, 'a) result"

definition sock_read_exact :: "nat \<Rightarrow> client_stream \<Rightarrow> bytes sock" where
  "sock_read_exact n s =
     (if n \<le> length (cs_input s)
      then (s\<lparr>cs_input := drop n (cs_input s)\<rparr>, Ok (take n (cs_input s)))
      else (s\<lparr>cs_input := []\<rparr>, Err SkIo))"

text \<open>\<^verbatim>\<open>write_all\<close> and the \<^verbatim>\<open>flush\<close> after it.\<close>

definition write_flush :: "bytes \<Rightarrow> client_stream \<Rightarrow> unit sock" where
  "write_flush bs s =
     (case cs_writes s of
        None \<Rightarrow> (s\<lparr>cs_output := cs_output s @ bs\<rparr>, Ok ())
      | Some 0 \<Rightarrow> (s, Err SkIo)
      | Some (Suc k) \<Rightarrow> (s\<lparr>cs_output := cs_output s @ bs, cs_writes := Some k\<rparr>, Ok ()))"

definition write_socks5_reply :: "u8 \<Rightarrow> client_stream \<Rightarrow> unit sock" where
  "write_socks5_reply reply s = write_flush [SOCKS5_VERSION, reply, 0, 1, 0, 0, 0, 0, 0, 0] s"

text \<open>\<^verbatim>\<open>let _ = write_socks5_reply(..)\<close> before an early return.\<close>

definition refuse :: "u8 \<Rightarrow> socks5_handshake_error \<Rightarrow> client_stream \<Rightarrow> 'a sock" where
  "refuse reply e s = (fst (write_socks5_reply reply s), Err e)"

subsection \<open>The text of an IP address\<close>

definition ipv4_to_string :: "bytes \<Rightarrow> string" where
  "ipv4_to_string octets = join_with CHR ''.'' (map (\<lambda>b. show_decimal (unat b)) octets)"

fun show_hex :: "nat \<Rightarrow> string" where
  "show_hex n = (if n < 16 then [hex_digit n] else show_hex (n div 16) @ [hex_digit (n mod 16)])"

declare show_hex.simps [simp del]

fun ipv6_segments :: "bytes \<Rightarrow> nat list" where
  "ipv6_segments (a # b # r) = (unat a * 256 + unat b) # ipv6_segments r"
| "ipv6_segments _ = []"

text \<open>The first of the longest runs of zero segments, as start and length.\<close>

fun zero_span :: "nat list \<Rightarrow> nat \<Rightarrow> nat \<times> nat \<Rightarrow> nat \<times> nat \<Rightarrow> nat \<times> nat" where
  "zero_span [] i current longest = longest"
| "zero_span (x # xs) i (start, len) longest =
     (if x = 0 then
        (let current = (if len = 0 then i else start, len + 1) in
         zero_span xs (i + 1) current (if len + 1 > snd longest then current else longest))
      else zero_span xs (i + 1) (0, 0) longest)"

definition hex_groups :: "nat list \<Rightarrow> string" where
  "hex_groups xs = join_with CHR '':'' (map show_hex xs)"

definition ipv6_to_string :: "bytes \<Rightarrow> string" where
  "ipv6_to_string octets =
     (if take 12 octets = replicate 10 0 @ [255, 255]
      then ''::ffff:'' @ ipv4_to_string (drop 12 octets)
      else
        (let segments = ipv6_segments octets; (start, len) = zero_span segments 0 (0, 0) (0, 0) in
         if len > 1
         then hex_groups (take start segments) @ ''::'' @ hex_groups (drop (start + len) segments)
         else hex_groups segments))"

subsection \<open>Negotiation\<close>

definition read_domain :: "client_stream \<Rightarrow> string sock" where
  "read_domain s =
     and_then (sock_read_exact 1 s) (\<lambda>s l.
       let n = unat (hd l) in
       if n = 0 then refuse SOCKS5_REP_ADDRESS_NOT_SUPPORTED SkInvalidDomain s
       else and_then (sock_read_exact n s) (\<lambda>s domain.
         case from_utf8 domain of
           Some d \<Rightarrow> (s, Ok d)
         | None \<Rightarrow> refuse SOCKS5_REP_ADDRESS_NOT_SUPPORTED SkInvalidDomain s))"

definition read_host :: "u8 \<Rightarrow> client_stream \<Rightarrow> string sock" where
  "read_host address_type s =
     (if address_type = 1 then and_then (sock_read_exact 4 s) (\<lambda>s octets. (s, Ok (ipv4_to_string octets)))
      else if address_type = 4 then and_then (sock_read_exact 16 s) (\<lambda>s octets. (s, Ok (ipv6_to_string octets)))
      else if address_type = 3 then read_domain s
      else refuse SOCKS5_REP_ADDRESS_NOT_SUPPORTED (SkUnsupportedAddressType address_type) s)"

definition u16_from_be :: "bytes \<Rightarrow> u16" where
  "u16_from_be bs = word_of_nat (be_nat bs)"

definition read_socks5_request :: "client_stream \<Rightarrow> tcp_forward_destination sock" where
  "read_socks5_request s =
     and_then (sock_read_exact 4 s) (\<lambda>s head.
       if head ! 0 \<noteq> SOCKS5_VERSION \<or> head ! 2 \<noteq> 0
       then refuse SOCKS5_REP_GENERAL_FAILURE SkInvalidRequest s
       else if head ! 1 \<noteq> SOCKS5_CONNECT
       then refuse SOCKS5_REP_COMMAND_NOT_SUPPORTED (SkUnsupportedCommand (head ! 1)) s
       else and_then (read_host (head ! 3) s) (\<lambda>s host.
            and_then (sock_read_exact 2 s) (\<lambda>s port.
              case destination_new host (u16_from_be port) of
                Inr d \<Rightarrow> (s, Ok d)
              | Inl _ \<Rightarrow> refuse SOCKS5_REP_ADDRESS_NOT_SUPPORTED SkInvalidDestination s)))"

definition negotiate_socks5 :: "client_stream \<Rightarrow> tcp_forward_destination sock" where
  "negotiate_socks5 s =
     and_then (sock_read_exact 2 s) (\<lambda>s greeting.
       if greeting ! 0 \<noteq> SOCKS5_VERSION \<or> greeting ! 1 = 0 then (s, Err SkInvalidGreeting)
       else and_then (sock_read_exact (unat (greeting ! 1)) s) (\<lambda>s methods.
         if SOCKS5_NO_AUTH \<notin> set methods
         then and_then (write_flush [SOCKS5_VERSION, SOCKS5_NO_ACCEPTABLE_AUTH] s)
                (\<lambda>s _. (s, Err SkNoAcceptableAuth))
         else and_then (write_flush [SOCKS5_VERSION, SOCKS5_NO_AUTH] s) (\<lambda>s _. read_socks5_request s)))"

subsection \<open>The grammar it accepts\<close>

datatype socks5_address = SkV4 bytes | SkV6 bytes | SkDomain string

fun address_text :: "socks5_address \<Rightarrow> string" where
  "address_text (SkV4 o4) = ipv4_to_string o4"
| "address_text (SkV6 o6) = ipv6_to_string o6"
| "address_text (SkDomain d) = d"

fun address_ok :: "socks5_address \<Rightarrow> bool" where
  "address_ok (SkV4 o4) = (length o4 = 4)"
| "address_ok (SkV6 o6) = (length o6 = 16)"
| "address_ok (SkDomain d) = (0 < length d \<and> length d < 256 \<and> utf8_valid d)"

fun address_bytes :: "socks5_address \<Rightarrow> bytes" where
  "address_bytes (SkV4 o4) = 1 # o4"
| "address_bytes (SkV6 o6) = 4 # o6"
| "address_bytes (SkDomain d) = 3 # word_of_nat (length d) # as_bytes d"

definition u16_to_be :: "u16 \<Rightarrow> bytes" where
  "u16_to_be w = nat_be 2 (unat w)"

definition socks5_request :: "bytes \<Rightarrow> socks5_address \<Rightarrow> u16 \<Rightarrow> bytes" where
  "socks5_request methods a port =
     [5, word_of_nat (length methods)] @ methods @ [5, 1, 0] @ address_bytes a @ u16_to_be port"

lemma sock_read_exact_Ok:
  "sock_read_exact n s = (s', Ok x) \<longleftrightarrow>
     length x = n \<and> cs_input s = x @ cs_input s' \<and> s' = s\<lparr>cs_input := cs_input s'\<rparr>"
proof
  assume "sock_read_exact n s = (s', Ok x)"
  then have "n \<le> length (cs_input s)" "s' = s\<lparr>cs_input := drop n (cs_input s)\<rparr>" "x = take n (cs_input s)"
    by (auto simp: sock_read_exact_def split: if_splits)
  then show "length x = n \<and> cs_input s = x @ cs_input s' \<and> s' = s\<lparr>cs_input := cs_input s'\<rparr>" by simp
next
  assume r: "length x = n \<and> cs_input s = x @ cs_input s' \<and> s' = s\<lparr>cs_input := cs_input s'\<rparr>"
  then have "sock_read_exact n s = (s\<lparr>cs_input := cs_input s'\<rparr>, Ok x)" by (auto simp: sock_read_exact_def)
  then show "sock_read_exact n s = (s', Ok x)" using r by simp
qed

lemma refuse_not_Ok [simp]: "refuse r e s = (s', Ok x) \<longleftrightarrow> False"
  by (simp add: refuse_def)

lemma case_refuse_Ok:
  "(case r of Inl e \<Rightarrow> refuse c f s | Inr d \<Rightarrow> (s, Ok d)) = (s', Ok x) \<longleftrightarrow> r = Ok x \<and> s' = s"
  by (cases r) auto

lemma u16_be: "u16_from_be (u16_to_be w) = w" "length (u16_to_be w) = 2"
  "length bs = 2 \<Longrightarrow> u16_to_be (u16_from_be bs) = bs"
proof -
  have "unat w < 256 ^ 2" using unsigned_less [of w, where ?'a = nat] by simp
  then show "u16_from_be (u16_to_be w) = w"
    by (simp add: u16_from_be_def u16_to_be_def be_nat_nat_be)
  show "length (u16_to_be w) = 2" by (simp add: u16_to_be_def)
  show "u16_to_be (u16_from_be bs) = bs" if "length bs = 2"
    using be_nat_lt [of bs] nat_be_be_nat [of bs] that
    by (simp add: u16_to_be_def u16_from_be_def unat_of_nat)
qed

text \<open>A stream after some of its input was read.\<close>

definition consumed :: "bytes \<Rightarrow> client_stream \<Rightarrow> client_stream \<Rightarrow> bool" where
  "consumed x s s' \<longleftrightarrow> cs_input s = x @ cs_input s' \<and> cs_output s' = cs_output s \<and> cs_writes s' = cs_writes s"

lemma sock_read_exact_consumed: "sock_read_exact n s = (s', Ok x) \<longleftrightarrow> length x = n \<and> consumed x s s'"
  unfolding sock_read_exact_Ok consumed_def by (cases s; cases s') auto

lemma consumed_trans: "consumed x s s1 \<Longrightarrow> consumed y s1 s2 \<Longrightarrow> consumed (x @ y) s s2"
  by (simp add: consumed_def)

lemma consumed_append: "consumed (x @ y) s s2 \<longleftrightarrow> (\<exists>s1. consumed x s s1 \<and> consumed y s1 s2)"
proof
  assume "consumed (x @ y) s s2"
  then have "consumed x s (s\<lparr>cs_input := y @ cs_input s2\<rparr>) \<and> consumed y (s\<lparr>cs_input := y @ cs_input s2\<rparr>) s2"
    by (simp add: consumed_def)
  then show "\<exists>s1. consumed x s s1 \<and> consumed y s1 s2" by blast
qed (auto simp: consumed_def)

lemma read_domain_Ok:
  "read_domain s = (s', Ok h) \<longleftrightarrow>
     address_ok (SkDomain h) \<and> consumed (tl (address_bytes (SkDomain h))) s s'"
proof
  assume "read_domain s = (s', Ok h)"
  then obtain s1 l dom where l: "length l = 1" "consumed l s s1" and n: "unat (hd l) \<noteq> 0"
    and d: "length dom = unat (hd l)" "consumed dom s1 s'" "from_utf8 dom = Some h"
    by (auto simp: read_domain_def and_then_Ok sock_read_exact_consumed Let_def split: if_splits option.splits)
  have dom: "as_bytes h = dom" "utf8_valid h" using from_utf8_Some [OF d(3)] by auto
  have len: "length h = unat (hd l)" using dom(1) d(1) by auto
  have l': "l = [word_of_nat (length h)]" using l(1) len by (cases l) auto
  have "length h < 256" using len unat_byte_lt [of "hd l"] by simp
  then show "address_ok (SkDomain h) \<and> consumed (tl (address_bytes (SkDomain h))) s s'"
    using consumed_trans [OF l(2) d(2)] n len dom(2) unfolding l' dom(1) [symmetric] by simp
next
  assume r: "address_ok (SkDomain h) \<and> consumed (tl (address_bytes (SkDomain h))) s s'"
  let ?l = "[word_of_nat (length h) :: u8]"
  have "consumed (?l @ as_bytes h) s s'" using r by simp
  then obtain s1 where s1: "consumed ?l s s1" "consumed (as_bytes h) s1 s'"
    unfolding consumed_append by blast
  have u: "unat (word_of_nat (length h) :: u8) = length h" using r by (simp add: unat_byte_of_nat)
  have "sock_read_exact 1 s = (s1, Ok ?l)" using s1(1) by (simp add: sock_read_exact_consumed)
  moreover have "sock_read_exact (length h) s1 = (s', Ok (as_bytes h))"
    using s1(2) by (simp add: sock_read_exact_consumed)
  ultimately show "read_domain s = (s', Ok h)"
    using r u by (auto simp: read_domain_def Let_def from_utf8_as_bytes)
qed

lemma read_host_Ok:
  "read_host t s = (s', Ok h) \<longleftrightarrow>
     (\<exists>a. address_ok a \<and> t = hd (address_bytes a) \<and> h = address_text a
        \<and> consumed (tl (address_bytes a)) s s')"
proof -
  have d: "(\<exists>a. P a) \<longleftrightarrow> (\<exists>x. P (SkV4 x)) \<or> (\<exists>x. P (SkV6 x)) \<or> (\<exists>x. P (SkDomain x))" for P
    by (metis socks5_address.exhaust)
  have n: "(1 :: u8) \<noteq> 4" "(1 :: u8) \<noteq> 3" "(4 :: u8) \<noteq> 3" by simp_all
  show ?thesis
    unfolding d read_host_def using n
    by (auto simp: and_then_Ok sock_read_exact_consumed read_domain_Ok)
qed

lemma destination_new_Ok: "destination_new h p = Ok d \<longleftrightarrow> d = \<lparr>td_host = h, td_port = p\<rparr> \<and> destination_ok d"
  using destination_validate_Ok [of "\<lparr>td_host = h, td_port = p\<rparr>"]
  by (auto simp: destination_new_def Let_def bind_r_Ok)

lemma list4: "length x = 4 \<longleftrightarrow> (\<exists>a b c d. x = [a, b, c, d])"
  by (auto simp: length_Suc_conv numeral_eq_Suc)

lemma read_socks5_request_Ok:
  "read_socks5_request s = (s', Ok d) \<longleftrightarrow>
     (\<exists>a port. address_ok a \<and> d = \<lparr>td_host = address_text a, td_port = port\<rparr> \<and> destination_ok d
        \<and> consumed ([5, 1, 0] @ address_bytes a @ u16_to_be port) s s')"
proof
  assume "read_socks5_request s = (s', Ok d)"
  then obtain s1 head s2 h port where hd: "length head = 4" "consumed head s s1"
    and c: "head ! 0 = 5" "head ! 1 = 1" "head ! 2 = 0"
    and host: "read_host (head ! 3) s1 = (s2, Ok h)"
    and p: "length port = 2" "consumed port s2 s'" and d: "destination_new h (u16_from_be port) = Ok d"
    by (auto simp: read_socks5_request_def and_then_Ok sock_read_exact_consumed socks5_codes case_refuse_Ok
        split: if_splits)
  obtain a where a: "address_ok a" "head ! 3 = hd (address_bytes a)" "h = address_text a"
    "consumed (tl (address_bytes a)) s1 s2"
    using host unfolding read_host_Ok by blast
  have "head = [5, 1, 0, hd (address_bytes a)]"
    using hd(1) c a(2) unfolding list4 by auto
  moreover have "address_bytes a \<noteq> []" by (cases a) simp_all
  ultimately have "head @ tl (address_bytes a) = [5, 1, 0] @ address_bytes a" by simp
  moreover have "consumed ((head @ tl (address_bytes a)) @ port) s s'"
    using consumed_trans [OF consumed_trans [OF hd(2) a(4)] p(2)] by simp
  ultimately have "consumed ([5, 1, 0] @ address_bytes a @ u16_to_be (u16_from_be port)) s s'"
    by (simp add: u16_be(3) [OF p(1)])
  then show "\<exists>a port. address_ok a \<and> d = \<lparr>td_host = address_text a, td_port = port\<rparr> \<and> destination_ok d
        \<and> consumed ([5, 1, 0] @ address_bytes a @ u16_to_be port) s s'"
    using a(1,3) d unfolding destination_new_Ok by blast
next
  assume "\<exists>a port. address_ok a \<and> d = \<lparr>td_host = address_text a, td_port = port\<rparr> \<and> destination_ok d
        \<and> consumed ([5, 1, 0] @ address_bytes a @ u16_to_be port) s s'"
  then obtain a port where a: "address_ok a" "d = \<lparr>td_host = address_text a, td_port = port\<rparr>" "destination_ok d"
    and c: "consumed ([5, 1, 0] @ address_bytes a @ u16_to_be port) s s'" by blast
  let ?head = "[5, 1, 0, hd (address_bytes a)]"
  have "address_bytes a \<noteq> []" by (cases a) simp_all
  then have "[5, 1, 0] @ address_bytes a @ u16_to_be port = ?head @ tl (address_bytes a) @ u16_to_be port"
    by (cases "address_bytes a") simp_all
  then have "consumed (?head @ tl (address_bytes a) @ u16_to_be port) s s'" using c by (simp only:)
  then obtain s1 where s1: "consumed ?head s s1" "consumed (tl (address_bytes a) @ u16_to_be port) s1 s'"
    unfolding consumed_append [of ?head] by blast
  obtain s2 where s2: "consumed (tl (address_bytes a)) s1 s2" "consumed (u16_to_be port) s2 s'"
    using s1(2) unfolding consumed_append by blast
  note s12 = s1(1) s2
  have "sock_read_exact 4 s = (s1, Ok ?head)" using s12(1) by (simp add: sock_read_exact_consumed)
  moreover have "read_host (hd (address_bytes a)) s1 = (s2, Ok (address_text a))"
    unfolding read_host_Ok using a(1) s12(2) by blast
  moreover have "sock_read_exact 2 s2 = (s', Ok (u16_to_be port))"
    using s12(3) by (simp add: sock_read_exact_consumed u16_be)
  moreover have "destination_new (address_text a) port = Ok d"
    unfolding destination_new_Ok using a by simp
  ultimately show "read_socks5_request s = (s', Ok d)"
    by (simp add: read_socks5_request_def socks5_codes u16_be)
qed

lemma write_flush_Ok:
  "write_flush bs s = (s', Ok u) \<longleftrightarrow> cs_writes s \<noteq> Some 0
     \<and> s' = s\<lparr>cs_output := cs_output s @ bs, cs_writes := map_option (\<lambda>k. k - 1) (cs_writes s)\<rparr>"
  by (cases s) (auto simp: write_flush_def split: option.splits nat.splits)

text \<open>C23: The SOCKS5 handshake accepts exactly the protocol: it yields a destination if and only if
  the client's bytes begin with a greeting that offers no authentication, followed by a CONNECT
  request for an IPv4 address, an IPv6 address or a domain of 1 to 255 bytes; the destination is
  the text of that address with that port, and valid; the client gets the two bytes of the method
  choice and nothing else, and everything after the request is left for the tunnel.\<close>

theorem socks5_handshake_exact:
  assumes "cs_writes s \<noteq> Some 0"
  shows "negotiate_socks5 s = (s', Ok d) \<longleftrightarrow>
    (\<exists>methods a port. 0 < length methods \<and> length methods < 256 \<and> 0 \<in> set methods \<and> address_ok a
       \<and> cs_input s = socks5_request methods a port @ cs_input s'
       \<and> d = \<lparr>td_host = address_text a, td_port = port\<rparr> \<and> destination_ok d
       \<and> cs_output s' = cs_output s @ [5, 0]
       \<and> cs_writes s' = map_option (\<lambda>k. k - 1) (cs_writes s))"
proof
  assume "negotiate_socks5 s = (s', Ok d)"
  then obtain s1 g s2 methods where g: "length g = 2" "consumed g s s1" "g ! 0 = 5" "g ! 1 \<noteq> 0"
    and m: "length methods = unat (g ! 1)" "consumed methods s1 s2" "0 \<in> set methods"
    and r: "cs_writes s2 \<noteq> Some 0" "read_socks5_request (s2\<lparr>cs_output := cs_output s2 @ [5, 0],
      cs_writes := map_option (\<lambda>k. k - 1) (cs_writes s2)\<rparr>) = (s', Ok d)"
    by (auto simp: negotiate_socks5_def and_then_Ok sock_read_exact_consumed write_flush_Ok socks5_codes
        split: if_splits)
  obtain a port where a: "address_ok a" "d = \<lparr>td_host = address_text a, td_port = port\<rparr>" "destination_ok d"
    and c: "cs_input s2 = [5, 1, 0] @ address_bytes a @ u16_to_be port @ cs_input s'"
    "cs_output s' = cs_output s2 @ [5, 0]" "cs_writes s' = map_option (\<lambda>k. k - 1) (cs_writes s2)"
    using r(2) unfolding read_socks5_request_Ok consumed_def by auto
  have "g = [5, word_of_nat (length methods)]"
    using g(1,3) m(1) by (auto simp: length_Suc_conv numeral_eq_Suc)
  then have "cs_input s = socks5_request methods a port @ cs_input s'"
    using g(2) m(2) c(1) by (simp add: consumed_def socks5_request_def)
  moreover have "0 < length methods" "length methods < 256"
    using m(1) g(4) unat_byte_lt [of "g ! 1"] by (simp_all add: unat_gt_0)
  ultimately show "\<exists>methods a port. 0 < length methods \<and> length methods < 256 \<and> 0 \<in> set methods
      \<and> address_ok a \<and> cs_input s = socks5_request methods a port @ cs_input s'
      \<and> d = \<lparr>td_host = address_text a, td_port = port\<rparr> \<and> destination_ok d
      \<and> cs_output s' = cs_output s @ [5, 0] \<and> cs_writes s' = map_option (\<lambda>k. k - 1) (cs_writes s)"
    using a c(2,3) g(2) m(2,3)
    by (intro exI [of _ methods] exI [of _ a] exI [of _ port]) (simp add: consumed_def)
next
  assume "\<exists>methods a port. 0 < length methods \<and> length methods < 256 \<and> 0 \<in> set methods
      \<and> address_ok a \<and> cs_input s = socks5_request methods a port @ cs_input s'
      \<and> d = \<lparr>td_host = address_text a, td_port = port\<rparr> \<and> destination_ok d
      \<and> cs_output s' = cs_output s @ [5, 0] \<and> cs_writes s' = map_option (\<lambda>k. k - 1) (cs_writes s)"
  then obtain methods a port where m: "0 < length methods" "length methods < 256" "0 \<in> set methods"
    and a: "address_ok a" "d = \<lparr>td_host = address_text a, td_port = port\<rparr>" "destination_ok d"
    and c: "cs_input s = socks5_request methods a port @ cs_input s'"
      "cs_output s' = cs_output s @ [5, 0]" "cs_writes s' = map_option (\<lambda>k. k - 1) (cs_writes s)"
    by blast
  let ?req = "[5, 1, 0] @ address_bytes a @ u16_to_be port"
  let ?s2 = "s\<lparr>cs_input := ?req @ cs_input s'\<rparr>"
  let ?s1 = "s\<lparr>cs_input := methods @ ?req @ cs_input s'\<rparr>"
  let ?s3 = "?s2\<lparr>cs_output := cs_output s @ [5, 0], cs_writes := map_option (\<lambda>k. k - 1) (cs_writes s)\<rparr>"
  let ?n = "word_of_nat (length methods) :: u8"
  have n: "unat ?n = length methods" using m(2) by (simp add: unat_byte_of_nat)
  have nz: "?n \<noteq> 0" using n m(1) by (metis less_irrefl unat_0)
  have "sock_read_exact 2 s = (?s1, Ok [5, ?n])"
    using c(1) by (simp add: sock_read_exact_consumed consumed_def socks5_request_def)
  moreover have "sock_read_exact (length methods) ?s1 = (?s2, Ok methods)"
    by (simp add: sock_read_exact_consumed consumed_def)
  moreover have "write_flush [5, 0] ?s2 = (?s3, Ok ())"
    using assms by (simp add: write_flush_Ok)
  moreover have "read_socks5_request ?s3 = (s', Ok d)"
    unfolding read_socks5_request_Ok using a c by (auto simp: consumed_def)
  ultimately show "negotiate_socks5 s = (s', Ok d)"
    using m(3) n nz by (simp add: negotiate_socks5_def socks5_codes)
qed

lemma socks5_handshake_exact_witness:
  "negotiate_socks5 \<lparr>cs_input = [5, 1, 0, 5, 1, 0, 3, 1, 104, 0, 80, 9, 9], cs_output = [], cs_writes = None\<rparr>
     = (\<lparr>cs_input = [9, 9], cs_output = [5, 0], cs_writes = None\<rparr>, Ok \<lparr>td_host = ''h'', td_port = 80\<rparr>)"
proof -
  let ?s = "\<lparr>cs_input = [5, 1, 0, 5, 1, 0, 3, 1, 104, 0, 80, 9, 9], cs_output = [], cs_writes = None\<rparr>"
  let ?s' = "\<lparr>cs_input = [9, 9], cs_output = [5, 0], cs_writes = None\<rparr>"
  have "unat (80 :: u16) = 80" by simp
  moreover have "nat_be 2 80 = [0, 80]" by (simp add: numeral_2_eq_2)
  ultimately have port: "u16_to_be 80 = [0, 80]" by (simp only: u16_to_be_def)
  have d: "destination_ok \<lparr>td_host = ''h'', td_port = 80\<rparr>"
    by (simp add: destination_ok_def trim_def ascii_defs)
  have "byte_of_char CHR ''h'' = 104" by (simp add: byte_of_char_def)
  then have "cs_input ?s = socks5_request [0] (SkDomain ''h'') 80 @ cs_input ?s'"
    by (simp add: socks5_request_def port)
  moreover have "address_ok (SkDomain ''h'')" by (simp add: code_def)
  ultimately show ?thesis
    using d by (intro iffD2 [OF socks5_handshake_exact] exI [of _ "[0]"] exI [of _ "SkDomain ''h''"]
        exI [of _ 80]) simp_all
qed

subsection \<open>A connection of the proxy\<close>

definition map_forward_error_to_socks :: "tcp_forward_error_code \<Rightarrow> u8" where
  "map_forward_error_to_socks c =
     (case c of
        TfcDenied \<Rightarrow> SOCKS5_REP_NOT_ALLOWED
      | TfcConnectFailed \<Rightarrow> SOCKS5_REP_CONNECTION_REFUSED
      | TfcTimeout \<Rightarrow> SOCKS5_REP_TTL_EXPIRED
      | TfcInvalidRequest \<Rightarrow> SOCKS5_REP_GENERAL_FAILURE
      | TfcNotFound \<Rightarrow> SOCKS5_REP_GENERAL_FAILURE
      | TfcCapacity \<Rightarrow> SOCKS5_REP_GENERAL_FAILURE
      | TfcIo \<Rightarrow> SOCKS5_REP_GENERAL_FAILURE)"

text \<open>Up to the tunnel. A time-out or a shutdown of the listener during the negotiation drops the
  stream where it is, like an input that ends there. \<open>opened\<close>: what opening the connection through
  the hub gave, \<open>None\<close> when the listener was shut down first. The result holds the generation of
  the session the tunnel runs on.\<close>

definition serve_socks5_connection ::
    "connection_id \<Rightarrow> (tcp_forward_destination \<Rightarrow> (hub_error, u64 \<times> tcp_forward_reply) result option)
     \<Rightarrow> client_stream \<Rightarrow> client_stream \<times> u64 option" where
  "serve_socks5_connection cid opened s =
     (case negotiate_socks5 s of
        (s1, Inl _) \<Rightarrow> (s1, None)
      | (s1, Inr destination) \<Rightarrow>
          (case opened destination of
             None \<Rightarrow> (s1, None)
           | Some (Inl _) \<Rightarrow> (fst (write_socks5_reply SOCKS5_REP_GENERAL_FAILURE s1), None)
           | Some (Inr (generation, reply)) \<Rightarrow>
               (case reply of
                  TfrOpened actual \<Rightarrow>
                    if actual = cid
                    then (case write_socks5_reply 0 s1 of
                        (s2, Inl _) \<Rightarrow> (s2, None)
                      | (s2, Inr _) \<Rightarrow> (s2, Some generation))
                    else (fst (write_socks5_reply SOCKS5_REP_GENERAL_FAILURE s1), None)
                | TfrError e \<Rightarrow> (fst (write_socks5_reply (map_forward_error_to_socks (tfe_code e)) s1), None)
                | _ \<Rightarrow> (fst (write_socks5_reply SOCKS5_REP_GENERAL_FAILURE s1), None))))"

lemma map_forward_error_nonzero: "map_forward_error_to_socks c \<noteq> 0"
  by (cases c) (simp_all add: map_forward_error_to_socks_def socks5_codes)

lemma write_reply_output:
  "cs_output (fst (write_socks5_reply r s)) \<in> {cs_output s, cs_output s @ [5, r, 0, 1, 0, 0, 0, 0, 0, 0]}"
  by (auto simp: write_socks5_reply_def write_flush_def SOCKS5_VERSION_def split: option.splits nat.splits)

text \<open>Whether an output ends with the reply that reports success.\<close>

definition told_success :: "bytes \<Rightarrow> bytes \<Rightarrow> bool" where
  "told_success before after \<longleftrightarrow> after = before @ [5, 0, 0, 1, 0, 0, 0, 0, 0, 0]"

text \<open>A client is told that its connection stands only when the device said so for that very
  connection, and then the tunnel runs on the session that said it.\<close>

lemma socks5_success_means_open:
  assumes "negotiate_socks5 s = (s1, Ok d)"
    and "serve_socks5_connection cid opened s = (s', g)"
  shows "told_success (cs_output s1) (cs_output s') \<longleftrightarrow> g \<noteq> None"
    and "g = Some gen \<Longrightarrow> opened d = Some (Ok (gen, TfrOpened cid)) \<and> cs_input s' = cs_input s1"
proof -
  have w: "told_success (cs_output s1) (cs_output (fst (write_socks5_reply r s1))) \<Longrightarrow> r = 0" for r
    using write_reply_output [of r s1] by (auto simp: told_success_def)
  have nf: "SOCKS5_REP_GENERAL_FAILURE \<noteq> 0" by (simp add: socks5_codes)
  have no: "\<not> told_success x x" for x by (simp add: told_success_def)
  have z: "case write_socks5_reply 0 s1 of (s2, Inl _) \<Rightarrow> s2 = s1
      | (s2, Inr _) \<Rightarrow> told_success (cs_output s1) (cs_output s2) \<and> cs_input s2 = cs_input s1"
    by (auto simp: write_socks5_reply_def write_flush_def told_success_def SOCKS5_VERSION_def
        split: option.splits nat.splits)
  have both: "(told_success (cs_output s1) (cs_output s') \<longleftrightarrow> g \<noteq> None)
      \<and> (g = Some gen \<longrightarrow> opened d = Some (Ok (gen, TfrOpened cid)) \<and> cs_input s' = cs_input s1)" for gen
    using assms(2) z w nf no map_forward_error_nonzero
    by (auto simp: serve_socks5_connection_def assms(1)
        split: if_splits option.splits sum.splits prod.splits tcp_forward_reply.splits)
  show "told_success (cs_output s1) (cs_output s') \<longleftrightarrow> g \<noteq> None" using both [of undefined] by blast
  show "g = Some gen \<Longrightarrow> opened d = Some (Ok (gen, TfrOpened cid)) \<and> cs_input s' = cs_input s1"
    using both by blast
qed

end
