(* ===== verification/Http_Connect.thy ===== *)
theory Http_Connect
  imports Socks5
begin

section \<open>The HTTP CONNECT proxy's handshake (clew-runtime, http_connect.rs)\<close>

text \<open>
  Reading a request head from a client that sends it in pieces of any size, its grammar, and the
  answers. The main theorem says that the outcome depends on the bytes only, not on how they
  were cut into reads, and that nothing behind the head is lost.
\<close>

definition HARD_MAX_HTTP_CONNECT_LISTENERS :: nat where
  [bounds_simps]: "HARD_MAX_HTTP_CONNECT_LISTENERS = 64"
definition HARD_MAX_HTTP_CONNECT_HEADER_BYTES :: nat where
  [bounds_simps]: "HARD_MAX_HTTP_CONNECT_HEADER_BYTES = 16 * 1024"
definition HTTP_READ_CHUNK_BYTES :: nat where [bounds_simps]: "HTTP_READ_CHUNK_BYTES = 4 * 1024"

datatype http_connect_error =
    HcIo
  | HcUnexpectedEof
  | HcHeaderTooLarge
  | HcInvalidEncoding
  | HcInvalidRequest
  | HcMethodNotAllowed
  | HcInvalidAuthority

subsection \<open>The request line\<close>

text \<open>\<^verbatim>\<open>windows(4).position(..)\<close>\<close>

fun find_header_end :: "bytes \<Rightarrow> nat option" where
  "find_header_end [] = None"
| "find_header_end (x # r) =
     (if take 4 (x # r) = [13, 10, 13, 10] then Some 0 else map_option Suc (find_header_end r))"

text \<open>\<^verbatim>\<open>split("\r\n").next()\<close>: what is before the first line end.\<close>

fun first_line :: "string \<Rightarrow> string" where
  "first_line (a # b # r) =
     (if a = CHR 0x0D \<and> b = CHR 0x0A then [] else a # first_line (b # r))"
| "first_line s = s"

fun split_when :: "(char \<Rightarrow> bool) \<Rightarrow> string \<Rightarrow> string list" where
  "split_when P [] = [[]]"
| "split_when P (c # s) =
     (if P c then [] # split_when P s
      else (case split_when P s of w # ws \<Rightarrow> (c # w) # ws | [] \<Rightarrow> [[c]]))"

definition split_ascii_whitespace :: "string \<Rightarrow> string list" where
  "split_ascii_whitespace s = filter (\<lambda>w. w \<noteq> []) (split_when is_ascii_whitespace s)"

text \<open>\<^verbatim>\<open>str::parse::<u16>\<close>: decimal digits, after at most one plus sign.\<close>

definition decimal_value :: "string \<Rightarrow> nat" where
  "decimal_value s = foldl (\<lambda>acc c. acc * 10 + (code c - 48)) 0 s"

definition parse_u16 :: "string \<Rightarrow> u16 option" where
  "parse_u16 s =
     (let ds = (case s of c # r \<Rightarrow> if c = CHR ''+'' \<and> r \<noteq> [] then r else s | [] \<Rightarrow> []) in
      if ds = [] \<or> \<not> list_all is_ascii_digit ds \<or> decimal_value ds \<ge> 2 ^ 16 then None
      else Some (word_of_nat (decimal_value ds)))"

definition split_authority :: "string \<Rightarrow> (http_connect_error, string \<times> string) result" where
  "split_authority authority =
     (case strip_prefix authority ''['' of
        Some rest \<Rightarrow>
          bind_r (ok_or (split_once CHR '']'' rest) HcInvalidAuthority) (\<lambda>(host, suffix).
          bind_r (ok_or (strip_prefix suffix '':'') HcInvalidAuthority) (\<lambda>port.
            if host = [] \<or> port = [] then Err HcInvalidAuthority else Ok (host, port)))
      | None \<Rightarrow>
          bind_r (ok_or (rsplit_once CHR '':'' authority) HcInvalidAuthority) (\<lambda>(host, port).
            if host = [] \<or> port = [] \<or> CHR '':'' \<in> set host then Err HcInvalidAuthority
            else Ok (host, port)))"

definition parse_authority :: "string \<Rightarrow> (http_connect_error, tcp_forward_destination) result" where
  "parse_authority authority =
     bind_r (split_authority authority) (\<lambda>(host, port_text).
       if list_ex (\<lambda>c. c \<in> {CHR ''/'', CHR 0x5C, CHR ''?'', CHR ''#'', CHR ''@''}) host
       then Err HcInvalidAuthority
       else bind_r (ok_or (parse_u16 port_text) HcInvalidAuthority) (\<lambda>port.
            map_err (\<lambda>_. HcInvalidAuthority) (destination_new host port)))"

definition parse_head :: "bytes \<Rightarrow> (http_connect_error, tcp_forward_destination) result" where
  "parse_head received =
     bind_r (ok_or (from_utf8 received) HcInvalidEncoding) (\<lambda>header.
       if CHR 0x00 \<in> set header then Err HcInvalidRequest
       else (case split_ascii_whitespace (first_line header) of
           method # authority # version # parts \<Rightarrow>
             if parts \<noteq> [] \<or> version \<notin> {''HTTP/1.0'', ''HTTP/1.1''} then Err HcInvalidRequest
             else if method \<noteq> ''CONNECT'' then Err HcMethodNotAllowed
             else parse_authority authority
         | _ \<Rightarrow> Err HcInvalidRequest))"

subsection \<open>Reading the head\<close>

text \<open>What one read gives: some bytes, none at the end of the stream, or an error.\<close>

datatype client_read = ReadChunk bytes | ReadError

text \<open>The loop over the reads that happened so far; \<open>None\<close> when it waits for more. The result is
  the length of the head, what was received, and the reads still to come.\<close>

fun read_head :: "client_read list \<Rightarrow> bytes \<Rightarrow> (http_connect_error, nat \<times> bytes \<times> client_read list) result option" where
  "read_head [] received = None"
| "read_head (ReadError # rs) received = Some (Err HcIo)"
| "read_head (ReadChunk chunk # rs) received =
     (if chunk = [] then Some (Err HcUnexpectedEof)
      else (let received' = received @ chunk in
        case find_header_end received' of
          Some index \<Rightarrow>
            (let header_end = index + 4 in
             if header_end > HARD_MAX_HTTP_CONNECT_HEADER_BYTES then Some (Err HcHeaderTooLarge)
             else Some (Ok (header_end, received', rs)))
        | None \<Rightarrow>
            if length received' > HARD_MAX_HTTP_CONNECT_HEADER_BYTES then Some (Err HcHeaderTooLarge)
            else read_head rs received'))"

record http_handshake =
  hh_destination :: tcp_forward_destination
  hh_initial_tunnel_bytes :: bytes

definition read_http_connect_request ::
    "client_read list \<Rightarrow> (http_connect_error, http_handshake \<times> client_read list) result option" where
  "read_http_connect_request rs =
     map_option (\<lambda>r. bind_r r (\<lambda>(header_end, received, rest).
       bind_r (parse_head (take header_end received)) (\<lambda>d.
         Ok (\<lparr>hh_destination = d, hh_initial_tunnel_bytes = drop header_end received\<rparr>, rest))))
       (read_head rs [])"

subsection \<open>Answers\<close>

datatype http_status =
    BadRequest | Forbidden | MethodNotAllowed | RequestTimeout | HeaderTooLarge | BadGateway
  | ServiceUnavailable | GatewayTimeout

definition crlf :: string where "crlf = [CHR 0x0D, CHR 0x0A]"

fun status_line :: "http_status \<Rightarrow> string" where
  "status_line BadRequest = ''HTTP/1.1 400 Bad Request'' @ crlf"
| "status_line Forbidden = ''HTTP/1.1 403 Forbidden'' @ crlf"
| "status_line MethodNotAllowed = ''HTTP/1.1 405 Method Not Allowed'' @ crlf"
| "status_line RequestTimeout = ''HTTP/1.1 408 Request Timeout'' @ crlf"
| "status_line HeaderTooLarge = ''HTTP/1.1 431 Request Header Fields Too Large'' @ crlf"
| "status_line BadGateway = ''HTTP/1.1 502 Bad Gateway'' @ crlf"
| "status_line ServiceUnavailable = ''HTTP/1.1 503 Service Unavailable'' @ crlf"
| "status_line GatewayTimeout = ''HTTP/1.1 504 Gateway Timeout'' @ crlf"

declare status_line.simps [simp del]

definition error_status :: "http_connect_error \<Rightarrow> http_status" where
  "error_status e =
     (case e of
        HcHeaderTooLarge \<Rightarrow> HeaderTooLarge
      | HcMethodNotAllowed \<Rightarrow> MethodNotAllowed
      | _ \<Rightarrow> BadRequest)"

definition map_forward_error_to_http :: "tcp_forward_error_code \<Rightarrow> http_status" where
  "map_forward_error_to_http c =
     (case c of
        TfcDenied \<Rightarrow> Forbidden
      | TfcTimeout \<Rightarrow> GatewayTimeout
      | TfcCapacity \<Rightarrow> ServiceUnavailable
      | TfcInvalidRequest \<Rightarrow> BadRequest
      | TfcConnectFailed \<Rightarrow> BadGateway
      | TfcNotFound \<Rightarrow> BadGateway
      | TfcIo \<Rightarrow> BadGateway)"

definition write_http_error :: "http_status \<Rightarrow> client_stream \<Rightarrow> unit sock" where
  "write_http_error status s =
     and_then (write_flush (as_bytes (status_line status)) s) (\<lambda>s _.
       write_flush (as_bytes (''Connection: close'' @ crlf @ ''Content-Length: 0'' @ crlf @ crlf)) s)"

definition established :: bytes where
  "established = as_bytes (''HTTP/1.1 200 Connection Established'' @ crlf @ crlf)"

text \<open>A connection of the proxy up to the tunnel. \<open>timed_out\<close> says why a head that is not complete
  is no longer waited for: the handshake's time-out, or else the shutdown of the listener.
  \<open>opened\<close> is as for SOCKS5. The result holds the generation, the bytes the tunnel starts with,
  and the reads that remain.\<close>

definition serve_http_connect_connection ::
    "connection_id \<Rightarrow> bool \<Rightarrow> (tcp_forward_destination \<Rightarrow> (hub_error, u64 \<times> tcp_forward_reply) result option)
     \<Rightarrow> client_read list \<Rightarrow> client_stream \<Rightarrow> client_stream \<times> (u64 \<times> bytes \<times> client_read list) option" where
  "serve_http_connect_connection cid timed_out opened rs s =
     (case read_http_connect_request rs of
        None \<Rightarrow> (if timed_out then fst (write_http_error RequestTimeout s) else s, None)
      | Some (Inl e) \<Rightarrow> (fst (write_http_error (error_status e) s), None)
      | Some (Inr (handshake, rest)) \<Rightarrow>
          (case opened (hh_destination handshake) of
             None \<Rightarrow> (s, None)
           | Some (Inl _) \<Rightarrow> (fst (write_http_error BadGateway s), None)
           | Some (Inr (generation, reply)) \<Rightarrow>
               (case reply of
                  TfrOpened actual \<Rightarrow>
                    if actual = cid
                    then (case write_flush established s of
                        (s', Inl _) \<Rightarrow> (s', None)
                      | (s', Inr _) \<Rightarrow>
                          (s', Some (generation, hh_initial_tunnel_bytes handshake, rest)))
                    else (fst (write_http_error BadGateway s), None)
                | TfrError e \<Rightarrow> (fst (write_http_error (map_forward_error_to_http (tfe_code e)) s), None)
                | _ \<Rightarrow> (fst (write_http_error BadGateway s), None))))"

subsection \<open>Lemmas\<close>

lemma find_header_end_bound: "find_header_end bs = Some i \<Longrightarrow> i + 4 \<le> length bs"
proof (induction bs arbitrary: i)
  case (Cons x r)
  show ?case
  proof (cases "take 4 (x # r) = [13, 10, 13, 10]")
    case True
    then have "length (take 4 (x # r)) = 4" by simp
    then show ?thesis using Cons.prems True by simp
  next
    case False
    then show ?thesis using Cons by auto
  qed
qed simp

lemma find_header_end_append:
  "find_header_end xs = Some i \<Longrightarrow> find_header_end (xs @ ys) = Some i"
proof (induction xs arbitrary: i)
  case (Cons x r)
  have l: "4 \<le> length (x # r)" using find_header_end_bound [OF Cons.prems] by simp
  then have "take 4 (x # r @ ys) = take 4 (x # r)" by simp
  then show ?case using Cons by (auto split: if_splits)
qed simp

lemma find_header_end_prefix:
  "find_header_end (xs @ ys) = Some i \<Longrightarrow> i + 4 \<le> length xs \<Longrightarrow> find_header_end xs = Some i"
proof (induction xs arbitrary: i)
  case (Cons x r)
  show ?case
  proof (cases "take 4 (x # r) = [13, 10, 13, 10]")
    case True
    then have "length (take 4 (x # r)) = 4" by simp
    then have "take 4 (x # r @ ys) = take 4 (x # r)" by simp
    then show ?thesis using Cons.prems True by simp
  next
    case False
    have "take 4 (x # r @ ys) = take 4 (x # r)" using Cons.prems(2) by simp
    then show ?thesis using Cons False by (auto split: if_splits)
  qed
qed simp

lemma find_header_end_None_prefix:
  "find_header_end (xs @ ys) = None \<Longrightarrow> find_header_end xs = None"
  using find_header_end_append [of xs] by (cases "find_header_end xs") auto

text \<open>The outcome of reading, as a function of the bytes.\<close>

definition head_outcome :: "bytes \<Rightarrow> (http_connect_error, nat) result option" where
  "head_outcome bs =
     (case find_header_end bs of
        Some i \<Rightarrow> Some (if i + 4 \<le> 16384 then Ok (i + 4) else Err HcHeaderTooLarge)
      | None \<Rightarrow> if length bs \<le> 16384 then None else Some (Err HcHeaderTooLarge))"

lemma read_head_bytes:
  assumes "list_all (\<lambda>c. c \<noteq> []) cs" and "find_header_end received = None" and "length received \<le> 16384"
  shows "case head_outcome (received @ concat cs) of
      None \<Rightarrow> read_head (map ReadChunk cs) received = None
    | Some (Inl e) \<Rightarrow> read_head (map ReadChunk cs) received = Some (Err e)
    | Some (Inr n) \<Rightarrow> (\<exists>got rest. read_head (map ReadChunk cs) received = Some (Ok (n, got, map ReadChunk rest))
        \<and> n \<le> length got \<and> received @ concat cs = got @ concat rest)"
  using assms
proof (induction cs arbitrary: received)
  case Nil
  then show ?case by (simp add: head_outcome_def)
next
  case (Cons c cs)
  let ?r = "received @ c"
  show ?case
  proof (cases "find_header_end ?r")
    case (Some i)
    then have f: "find_header_end (received @ concat (c # cs)) = Some i"
      using find_header_end_append [OF Some, of "concat cs"] by simp
    have b: "i + 4 \<le> length ?r" using find_header_end_bound [OF Some] .
    show ?thesis using Cons.prems(1) f Some b
      by (auto simp: head_outcome_def Let_def bounds_simps)
  next
    case None
    show ?thesis
    proof (cases "length ?r \<le> 16384")
      case True
      have "case head_outcome (?r @ concat cs) of
          None \<Rightarrow> read_head (map ReadChunk cs) ?r = None
        | Some (Inl e) \<Rightarrow> read_head (map ReadChunk cs) ?r = Some (Err e)
        | Some (Inr n) \<Rightarrow> (\<exists>got rest. read_head (map ReadChunk cs) ?r = Some (Ok (n, got, map ReadChunk rest))
            \<and> n \<le> length got \<and> ?r @ concat cs = got @ concat rest)"
        using Cons.IH [OF _ None True] Cons.prems(1) by simp
      moreover have "read_head (map ReadChunk (c # cs)) received = read_head (map ReadChunk cs) ?r"
        using Cons.prems(1) None True by (simp add: Let_def bounds_simps)
      moreover have "?r @ concat cs = received @ concat (c # cs)" by simp
      ultimately show ?thesis by (simp only:)
    next
      case False
      have "head_outcome (received @ concat (c # cs)) = Some (Err HcHeaderTooLarge)"
      proof (cases "find_header_end (received @ concat (c # cs))")
        case None
        then show ?thesis using False by (simp add: head_outcome_def)
      next
        case (Some i)
        then have "\<not> i + 4 \<le> length ?r"
          using find_header_end_prefix [of ?r "concat cs" i] None by auto
        then show ?thesis using Some False by (simp add: head_outcome_def)
      qed
      then show ?thesis using Cons.prems(1) None False by (simp add: Let_def bounds_simps)
    qed
  qed
qed

text \<open>The authorities it accepts.\<close>

definition authority_grammar :: "string \<Rightarrow> string \<Rightarrow> string \<Rightarrow> bool" where
  "authority_grammar authority host port \<longleftrightarrow> host \<noteq> [] \<and> port \<noteq> [] \<and>
     (authority = ''['' @ host @ '']:'' @ port \<and> CHR '']'' \<notin> set host
      \<or> authority = host @ '':'' @ port \<and> hd host \<noteq> CHR ''['' \<and> CHR '':'' \<notin> set (host @ port))"

lemma split_authority_Ok: "split_authority a = Ok (host, port) \<longleftrightarrow> authority_grammar a host port"
proof (cases "strip_prefix a ''[''")
  case (Some rest)
  then have a: "a = CHR ''['' # rest" by (simp add: strip_prefix_Some)
  have "split_authority a = Ok (host, port) \<longleftrightarrow> host \<noteq> [] \<and> port \<noteq> []
      \<and> rest = host @ '']:'' @ port \<and> CHR '']'' \<notin> set host"
    unfolding split_authority_def Some option.case
    by (auto simp: bind_r_Ok split_once_Some strip_prefix_Some)
  also have "\<dots> \<longleftrightarrow> authority_grammar a host port"
    by (cases host) (auto simp: authority_grammar_def a)
  finally show ?thesis .
next
  case None
  then have h: "\<not> (\<exists>r. a = CHR ''['' # r)" by (auto simp: strip_prefix_def split: if_splits)
  have "split_authority a = Ok (host, port) \<longleftrightarrow> host \<noteq> [] \<and> port \<noteq> []
      \<and> a = host @ '':'' @ port \<and> CHR '':'' \<notin> set port \<and> CHR '':'' \<notin> set host"
    unfolding split_authority_def None option.case
    by (auto simp: bind_r_Ok rsplit_once_Some)
  also have "\<dots> \<longleftrightarrow> authority_grammar a host port"
    using h by (cases host) (auto simp: authority_grammar_def)
  finally show ?thesis .
qed

definition plain_host :: "string \<Rightarrow> bool" where
  "plain_host host \<longleftrightarrow> set host \<inter> {CHR ''/'', CHR 0x5C, CHR ''?'', CHR ''#'', CHR ''@''} = {}"

lemma parse_authority_Ok:
  "parse_authority a = Ok d \<longleftrightarrow> (\<exists>port. authority_grammar a (td_host d) port
     \<and> plain_host (td_host d) \<and> parse_u16 port = Some (td_port d) \<and> destination_ok d)"
proof -
  have "parse_authority a = Ok d \<longleftrightarrow> (\<exists>host port p. authority_grammar a host port \<and> plain_host host
      \<and> parse_u16 port = Some p \<and> d = \<lparr>td_host = host, td_port = p\<rparr> \<and> destination_ok d)"
    by (auto simp: parse_authority_def bind_r_Ok split_authority_Ok [symmetric] destination_new_Ok
        plain_host_def list_ex_iff)
  then show ?thesis by (cases d) auto
qed

definition head_grammar :: "bytes \<Rightarrow> tcp_forward_destination \<Rightarrow> bool" where
  "head_grammar head d \<longleftrightarrow> (\<exists>header authority version port.
     from_utf8 head = Some header \<and> CHR 0x00 \<notin> set header
     \<and> split_ascii_whitespace (first_line header) = [''CONNECT'', authority, version]
     \<and> version \<in> {''HTTP/1.0'', ''HTTP/1.1''} \<and> authority_grammar authority (td_host d) port
     \<and> plain_host (td_host d) \<and> parse_u16 port = Some (td_port d) \<and> destination_ok d)"

lemma parse_head_Ok: "parse_head head = Ok d \<longleftrightarrow> head_grammar head d"
proof -
  have c: "(case ws of method # authority # version # parts \<Rightarrow>
        if parts \<noteq> [] \<or> version \<notin> V then Err HcInvalidRequest
        else if method \<noteq> k then Err HcMethodNotAllowed else parse_authority authority
      | _ \<Rightarrow> Err HcInvalidRequest) = Ok d \<longleftrightarrow>
      (\<exists>authority version. ws = [k, authority, version] \<and> version \<in> V \<and> parse_authority authority = Ok d)"
    for ws k V by (auto split: list.splits)
  show ?thesis
    unfolding parse_head_def head_grammar_def bind_r_Ok if_Err_Ok c parse_authority_Ok ok_or_Ok by blast
qed

text \<open>C22: The HTTP CONNECT handshake depends on the bytes the client sends and not on how they are cut
  into reads: it ends with the first blank line if the head is at most 16 KiB long, is refused as
  soon as more than that came without one, and waits otherwise. It then accepts exactly the
  request lines \<open>CONNECT authority HTTP/1.x\<close> whose authority is \<open>host:port\<close> or \<open>[host]:port\<close> with a
  valid destination, and the bytes behind the head are the ones the tunnel starts with followed
  by what is still unread.\<close>

theorem http_connect_exact:
  assumes "list_all (\<lambda>c. c \<noteq> []) cs" and "bs = concat cs"
  shows "case find_header_end bs of
      None \<Rightarrow> read_http_connect_request (map ReadChunk cs)
        = (if length bs \<le> 16384 then None else Some (Err HcHeaderTooLarge))
    | Some i \<Rightarrow>
        if i + 4 \<le> 16384
        then read_http_connect_request (map ReadChunk cs) \<noteq> None
          \<and> (\<forall>d. head_grammar (take (i + 4) bs) d \<longleftrightarrow>
              (\<exists>initial rest. read_http_connect_request (map ReadChunk cs)
                  = Some (Ok (\<lparr>hh_destination = d, hh_initial_tunnel_bytes = initial\<rparr>, map ReadChunk rest))
                \<and> initial @ concat rest = drop (i + 4) bs))
        else read_http_connect_request (map ReadChunk cs) = Some (Err HcHeaderTooLarge)"
proof -
  have "received @ concat cs = concat cs" if "received = []" for received :: bytes using that by simp
  then have o: "case head_outcome bs of
      None \<Rightarrow> read_head (map ReadChunk cs) [] = None
    | Some (Inl e) \<Rightarrow> read_head (map ReadChunk cs) [] = Some (Err e)
    | Some (Inr n) \<Rightarrow> (\<exists>got rest. read_head (map ReadChunk cs) [] = Some (Ok (n, got, map ReadChunk rest))
        \<and> n \<le> length got \<and> bs = got @ concat rest)"
    using read_head_bytes [OF assms(1), of "[]", unfolded append_Nil assms(2) [symmetric]] by simp
  show ?thesis
  proof (cases "find_header_end bs")
    case None
    then show ?thesis using o by (auto simp: head_outcome_def read_http_connect_request_def)
  next
    case (Some i)
    show ?thesis
    proof (cases "i + 4 \<le> 16384")
      case False
      then show ?thesis using o Some by (simp add: head_outcome_def read_http_connect_request_def)
    next
      case True
      then obtain got rest where r: "read_head (map ReadChunk cs) [] = Some (Ok (i + 4, got, map ReadChunk rest))"
        "i + 4 \<le> length got" "bs = got @ concat rest"
        using o Some by (auto simp: head_outcome_def)
      have t: "take (i + 4) bs = take (i + 4) got" "drop (i + 4) got @ concat rest = drop (i + 4) bs"
        using r(2,3) by simp_all
      show ?thesis
      proof (cases "parse_head (take (i + 4) got)")
        case (Inl e)
        then have "\<not> head_grammar (take (i + 4) got) d" for d by (simp flip: parse_head_Ok)
        then show ?thesis using True Some r(1) t(1) Inl by (simp add: read_http_connect_request_def)
      next
        case (Inr d)
        then have g: "head_grammar (take (i + 4) got) d' \<longleftrightarrow> d' = d" for d' by (auto simp flip: parse_head_Ok)
        have "read_http_connect_request (map ReadChunk cs)
            = Some (Ok (\<lparr>hh_destination = d, hh_initial_tunnel_bytes = drop (i + 4) got\<rparr>, map ReadChunk rest))"
          using Inr r(1) by (simp add: read_http_connect_request_def)
        then show ?thesis using True Some g t by auto
      qed
    qed
  qed
qed

lemma find_header_end_at:
  "13 \<notin> set xs \<Longrightarrow> find_header_end (xs @ [13, 10, 13, 10] @ r) = Some (length xs)"
proof (induction xs)
  case (Cons x xs)
  then have "take 4 ((x # xs) @ [13, 10, 13, 10] @ r) \<noteq> [13, 10, 13, 10]" by auto
  then show ?case using Cons by simp
qed simp

lemma byte_of_char_inj [simp]: "byte_of_char c = byte_of_char d \<longleftrightarrow> c = d"
  by (metis char_of_byte_of_char)

lemma as_bytes_crlf: "as_bytes crlf = [13, 10]"
  by (simp add: crlf_def byte_of_char_def)

lemma http_connect_exact_witness:
  "\<exists>initial rest. read_http_connect_request (map ReadChunk
      [as_bytes ''CONNECT h:80 HTTP/1.1'' @ [13], [10, 13, 10, 7], [8]])
      = Some (Ok (\<lparr>hh_destination = \<lparr>td_host = ''h'', td_port = 80\<rparr>, hh_initial_tunnel_bytes = initial\<rparr>,
          map ReadChunk rest))
    \<and> initial @ concat rest = [7, 8]"
proof -
  let ?line = "''CONNECT h:80 HTTP/1.1''"
  let ?cs = "[as_bytes ?line @ [13], [10, 13, 10, 7], [8]]"
  let ?d = "\<lparr>td_host = ''h'', td_port = 80\<rparr>"
  obtain line where line: "line = ?line" by simp
  have len: "length line = 21" unfolding line by simp
  have "byte_of_char (CHR 0x0D) = 13" by (simp add: byte_of_char_def)
  then have k: "13 = byte_of_char x \<longleftrightarrow> CHR 0x0D = x" for x by (metis byte_of_char_inj)
  have "CHR 0x0D \<notin> set line" by (simp add: line)
  then have "13 \<notin> set (as_bytes line)" by (auto simp: k)
  then have f: "find_header_end (as_bytes line @ [13, 10, 13, 10] @ [7, 8]) = Some 21"
    using find_header_end_at [of "as_bytes line" "[7, 8]"] len by simp
  have c: "concat ?cs = as_bytes line @ [13, 10, 13, 10] @ [7, 8]" unfolding line by simp
  have t: "take 25 (concat ?cs) = as_bytes (line @ crlf @ crlf)" "drop 25 (concat ?cs) = [7, 8]"
    unfolding c map_append as_bytes_crlf using len by simp_all
  have "from_utf8 (as_bytes (line @ crlf @ crlf)) = Some (line @ crlf @ crlf)"
    by (rule from_utf8_as_bytes, rule utf8_valid_ascii) (simp add: line crlf_def code_def)
  moreover have "CHR 0x00 \<notin> set (line @ crlf @ crlf)" by (simp add: line crlf_def)
  moreover have "split_ascii_whitespace (first_line (line @ crlf @ crlf)) = [''CONNECT'', ''h:80'', ''HTTP/1.1'']"
    by (simp add: line crlf_def split_ascii_whitespace_def is_ascii_whitespace_def code_def)
  moreover have "authority_grammar ''h:80'' ''h'' ''80''" by (simp add: authority_grammar_def)
  moreover have "plain_host ''h''" by (simp add: plain_host_def)
  moreover have "parse_u16 ''80'' = Some 80"
    by (simp add: parse_u16_def decimal_value_def Let_def ascii_defs)
  moreover have "destination_ok ?d" by (simp add: destination_ok_def trim_def ascii_defs)
  ultimately have g: "head_grammar (take 25 (concat ?cs)) ?d"
    unfolding head_grammar_def t(1) by (intro exI conjI) (assumption | simp)+
  have "list_all (\<lambda>c. c \<noteq> []) ?cs" by simp
  from http_connect_exact [OF this refl] f g t(2) show ?thesis unfolding c by simp
qed

end
