(* ===== verification/Proxy_Tunnel.thy ===== *)
theory Proxy_Tunnel
  imports Remote_Hub Host_Forward Http_Connect "HOL-Library.Sublist"
begin

section \<open>The controller's end of a tunnel (clew-runtime, forward.rs)\<close>

text \<open>
  The pump behind TCP forwards and both proxies: it takes bytes from the local client, sends them
  in an exchange, writes what the exchange brings back, and closes the connection at the end.
  The pump is a state machine whose events are what it waits for. Together with the host's
  forward service it makes a system whose steps interleave with those of other connections; the
  theorem says that neither direction loses, repeats or reorders a byte.
\<close>

definition HARD_MAX_FORWARD_LISTENERS :: nat where [bounds_simps]: "HARD_MAX_FORWARD_LISTENERS = 64"
definition REMOTE_READ_WAIT_MS :: u32 where [bounds_simps]: "REMOTE_READ_WAIT_MS = 100"

subsection \<open>The pump\<close>

text \<open>What waiting for the local client ends with.\<close>

datatype local_event = LocalShutdown | LocalTimeout | LocalRead bytes | LocalFailed

datatype pump_phase = PumpTop | PumpWaiting tcp_forward_request | PumpClosing | PumpDone

text \<open>\<open>pu_local_in\<close> and \<open>pu_local_out\<close> record what was read from and written to the client.\<close>

record pump =
  pu_initial :: bytes
  pu_offset :: nat
  pu_local_eof_sent :: bool
  pu_phase :: pump_phase
  pu_local_in :: bytes
  pu_local_out :: bytes

definition pump_new :: "bytes \<Rightarrow> pump" where
  "pump_new initial = \<lparr>pu_initial = initial, pu_offset = 0, pu_local_eof_sent = False,
     pu_phase = PumpTop, pu_local_in = [], pu_local_out = []\<rparr>"

text \<open>What to send next, or \<open>None\<close> for a break; the event counts only where the code waits for it.\<close>

definition pump_take :: "local_event \<Rightarrow> pump \<Rightarrow> (pump \<times> bytes \<times> bool) option" where
  "pump_take ev p =
     (if pu_offset p < length (pu_initial p) then
        (let end = min (pu_offset p + unat HARD_MAX_TCP_FORWARD_CHUNK_BYTES) (length (pu_initial p)) in
         Some (p\<lparr>pu_offset := end\<rparr>, drop (pu_offset p) (take end (pu_initial p)), False))
      else if pu_local_eof_sent p then Some (p, [], False)
      else case ev of
          LocalShutdown \<Rightarrow> None
        | LocalTimeout \<Rightarrow> Some (p, [], False)
        | LocalFailed \<Rightarrow> None
        | LocalRead bs \<Rightarrow>
            if bs = [] then Some (p\<lparr>pu_local_eof_sent := True\<rparr>, [], True)
            else Some (p\<lparr>pu_local_in := pu_local_in p @ bs\<rparr>, bs, False))"

definition pump_send :: "base64 \<Rightarrow> connection_id \<Rightarrow> local_event \<Rightarrow> pump \<Rightarrow> pump" where
  "pump_send b cid ev p =
     (case pump_take ev p of
        None \<Rightarrow> p\<lparr>pu_phase := PumpClosing\<rparr>
      | Some (p', w, eof) \<Rightarrow>
          (case tf_request_exchange b cid w eof HARD_MAX_TCP_FORWARD_CHUNK_BYTES
                  (min REMOTE_READ_WAIT_MS HARD_MAX_TCP_FORWARD_READ_WAIT_MS) of
             Inl _ \<Rightarrow> p'\<lparr>pu_phase := PumpClosing\<rparr>
           | Inr q \<Rightarrow> p'\<lparr>pu_phase := PumpWaiting q\<rparr>))"

text \<open>The answer of the hub (\<open>None\<close>: a shutdown came first), and whether a write to the client
  succeeds.\<close>

definition pump_receive ::
    "base64 \<Rightarrow> connection_id \<Rightarrow> (hub_error, tcp_forward_reply) result option \<Rightarrow> bool \<Rightarrow> pump \<Rightarrow> pump" where
  "pump_receive b cid answer written p =
     (case answer of
        Some (Inr (TfrExchanged actual data read_eof)) \<Rightarrow>
          if actual \<noteq> cid then p\<lparr>pu_phase := PumpClosing\<rparr>
          else (case tf_read_bytes b (TfrExchanged actual data read_eof) of
              Inl _ \<Rightarrow> p\<lparr>pu_phase := PumpClosing\<rparr>
            | Inr bs \<Rightarrow>
                if bs \<noteq> [] \<and> \<not> written then p\<lparr>pu_phase := PumpClosing\<rparr>
                else (let p' = p\<lparr>pu_local_out := pu_local_out p @ bs\<rparr> in
                  p'\<lparr>pu_phase := (if read_eof then PumpClosing else PumpTop)\<rparr>))
      | _ \<Rightarrow> p\<lparr>pu_phase := PumpClosing\<rparr>)"

definition pump_close_request :: "connection_id \<Rightarrow> tcp_forward_request" where
  "pump_close_request cid = TfClose cid"

subsection \<open>Pump and host together\<close>

text \<open>A socket of the host that keeps what was written to it and read from it. Of a write that fails
  it keeps the part that went through, given by \<open>went\<close>.\<close>

type_synonym 't logged = "'t \<times> bytes \<times> bytes"

definition logged :: "('t \<Rightarrow> bytes \<Rightarrow> nat) \<Rightarrow> 't socket_ops \<Rightarrow> 't logged socket_ops" where
  "logged went so =
     \<lparr>so_write_all = \<lambda>w (t, wlog, rlog). (case so_write_all so w t of
          (t', ok) \<Rightarrow> ((t', wlog @ (if ok then w else take (went t w) w), rlog), ok)),
      so_shutdown = \<lambda>(t, wlog, rlog). (case so_shutdown so t of (t', ok) \<Rightarrow> ((t', wlog, rlog), ok)),
      so_read = \<lambda>n w (t, wlog, rlog). (case so_read so n w t of
          (t', r) \<Rightarrow> ((t', wlog, rlog @ (case r of ReadBytes bs \<Rightarrow> bs | _ \<Rightarrow> [])), r))\<rparr>"

text \<open>\<open>ts_answer\<close> is the host's answer to the request the pump waits for, once it has handled it;
  \<open>ts_late\<close> is a request the pump gave up on before the host had handled it, which it may still do.\<close>

record 't tunnel_system =
  ts_pump :: pump
  ts_host :: "'t logged forward_service"
  ts_answer :: "tcp_forward_reply option"
  ts_late :: "tcp_forward_request option"

text \<open>An event of the host's service that belongs to another connection.\<close>

fun other_connection :: "connection_id \<Rightarrow> 't forward_event \<Rightarrow> bool" where
  "other_connection cid (FwOpenBegin _ c _) = (c \<noteq> cid)"
| "other_connection cid (FwOpenFinish _ c _ _) = (c \<noteq> cid)"
| "other_connection cid (FwExchange c _ _ _ _) = (c \<noteq> cid)"
| "other_connection cid (FwClose c) = (c \<noteq> cid)"

inductive tunnel_step ::
    "base64 \<Rightarrow> ('t \<Rightarrow> bytes \<Rightarrow> nat) \<Rightarrow> 't socket_ops \<Rightarrow> device_id \<Rightarrow> u64 \<Rightarrow> connection_id
      \<Rightarrow> 't tunnel_system \<Rightarrow> 't tunnel_system \<Rightarrow> bool"
  for b went so did g cid where
  ts_send: "tunnel_step b went so did g cid s (s\<lparr>ts_pump := pump_send b cid ev (ts_pump s), ts_answer := None\<rparr>)"
    if "pu_phase (ts_pump s) = PumpTop"
| ts_handle: "tunnel_step b went so did g cid s (s\<lparr>ts_host := h, ts_answer := Some r\<rparr>)"
    if "pu_phase (ts_pump s) = PumpWaiting q" "ts_answer s = None"
      "forward_execute b (logged went so) connect q egress (ts_host s) = (h, r)"
| ts_other: "tunnel_step b went so did g cid s (s\<lparr>ts_host := forward_step b (logged went so) (ts_host s) ev\<rparr>)"
    if "other_connection cid ev"
| ts_answered: "tunnel_step b went so did g cid s (s\<lparr>ts_pump := pump_receive b cid
        (Some (tcp_forward_on_generation b did g q hub (Ok r) hub')) written (ts_pump s)\<rparr>)"
    if "pu_phase (ts_pump s) = PumpWaiting q" "ts_answer s = Some r"
| ts_lost: "tunnel_step b went so did g cid s (s\<lparr>ts_pump := pump_receive b cid answer written (ts_pump s),
        ts_late := (if ts_answer s = None then Some q else None)\<rparr>)"
    if "pu_phase (ts_pump s) = PumpWaiting q" "\<forall>r. answer \<noteq> Some (Ok r)"
| ts_handled_late: "tunnel_step b went so did g cid s (s\<lparr>ts_host := h, ts_late := None\<rparr>)"
    if "ts_late s = Some q" "forward_execute b (logged went so) connect q egress (ts_host s) = (h, r)"
| ts_close: "tunnel_step b went so did g cid s (s\<lparr>ts_pump := (ts_pump s)\<lparr>pu_phase := PumpDone\<rparr>\<rparr>)"
    if "pu_phase (ts_pump s) = PumpClosing"
| ts_closed: "tunnel_step b went so did g cid s (s\<lparr>ts_host := h\<rparr>)"
    if "pu_phase (ts_pump s) = PumpDone"
      "forward_execute b (logged went so) connect (pump_close_request cid) egress (ts_host s) = (h, r)"

inductive tunnel_run ::
    "base64 \<Rightarrow> ('t \<Rightarrow> bytes \<Rightarrow> nat) \<Rightarrow> 't socket_ops \<Rightarrow> device_id \<Rightarrow> u64 \<Rightarrow> connection_id
      \<Rightarrow> 't tunnel_system \<Rightarrow> 't tunnel_system \<Rightarrow> bool"
  for b went so did g cid s where
  tr_start: "tunnel_run b went so did g cid s s"
| tr_step: "tunnel_run b went so did g cid s s1 \<Longrightarrow> tunnel_step b went so did g cid s1 s2 \<Longrightarrow> tunnel_run b went so did g cid s s2"

text \<open>What the pump has taken so far, in order.\<close>

definition pump_sent :: "pump \<Rightarrow> bytes" where
  "pump_sent p = take (pu_offset p) (pu_initial p) @ pu_local_in p"

definition pump_ok :: "pump \<Rightarrow> bool" where
  "pump_ok p \<longleftrightarrow> pu_offset p \<le> length (pu_initial p)
     \<and> (pu_local_in p \<noteq> [] \<or> pu_local_eof_sent p \<longrightarrow> pu_offset p = length (pu_initial p))"

lemma pump_take_sent:
  assumes "pump_take ev p = Some (p', w, eof)" and "pump_ok p"
  shows "pump_sent p' = pump_sent p @ w" and "pump_ok p'"
    and "pu_local_eof_sent p' \<longleftrightarrow> pu_local_eof_sent p \<or> eof" and "pu_local_out p' = pu_local_out p"
    and "eof \<or> pu_local_eof_sent p \<Longrightarrow> w = []" and "pu_initial p' = pu_initial p"
proof -
  consider (initial) "pu_offset p < length (pu_initial p)"
    | (drained) "pu_offset p = length (pu_initial p)" "pu_local_eof_sent p"
    | (reading) "pu_offset p = length (pu_initial p)" "\<not> pu_local_eof_sent p"
    using assms(2) unfolding pump_ok_def by linarith
  then have "pump_sent p' = pump_sent p @ w \<and> pump_ok p'
      \<and> (pu_local_eof_sent p' \<longleftrightarrow> pu_local_eof_sent p \<or> eof) \<and> pu_local_out p' = pu_local_out p
      \<and> (eof \<or> pu_local_eof_sent p \<longrightarrow> w = []) \<and> pu_initial p' = pu_initial p"
  proof cases
    case initial
    let ?e = "min (pu_offset p + unat HARD_MAX_TCP_FORWARD_CHUNK_BYTES) (length (pu_initial p))"
    have n: "pu_local_in p = []" "\<not> pu_local_eof_sent p" using assms(2) initial by (auto simp: pump_ok_def)
    have p': "p' = p\<lparr>pu_offset := ?e\<rparr>" "w = drop (pu_offset p) (take ?e (pu_initial p))" "\<not> eof"
      using assms(1) initial unfolding pump_take_def Let_def by simp_all
    have "take ?e (pu_initial p) = take (pu_offset p) (pu_initial p) @ drop (pu_offset p) (take ?e (pu_initial p))"
    proof -
      have "take (pu_offset p) (take ?e (pu_initial p)) = take (pu_offset p) (pu_initial p)"
        using initial by (simp add: min_def)
      then show ?thesis by (metis append_take_drop_id)
    qed
    then show ?thesis using n p' by (simp add: pump_sent_def pump_ok_def)
  next
    case drained
    then show ?thesis using assms by (auto simp: pump_take_def)
  next
    case reading
    then show ?thesis using assms
      by (cases ev) (auto simp: pump_take_def pump_sent_def pump_ok_def split: if_splits)
  qed
  then show "pump_sent p' = pump_sent p @ w" "pump_ok p'"
    "pu_local_eof_sent p' \<longleftrightarrow> pu_local_eof_sent p \<or> eof" "pu_local_out p' = pu_local_out p"
    "eof \<or> pu_local_eof_sent p \<Longrightarrow> w = []" "pu_initial p' = pu_initial p" by blast+
qed

subsection \<open>What a handled exchange does to the socket\<close>

definition entry_wlog :: "'t logged forward_entry \<Rightarrow> bytes" where "entry_wlog e = fst (snd (fe_stream e))"
definition entry_rlog :: "'t logged forward_entry \<Rightarrow> bytes" where "entry_rlog e = snd (snd (fe_stream e))"

lemma logged_simps:
  "so_write_all (logged went so) w (t, wl, rl) =
     ((fst (so_write_all so w t), wl @ (if snd (so_write_all so w t) then w else take (went t w) w), rl), snd (so_write_all so w t))"
  "so_shutdown (logged went so) (t, wl, rl) = ((fst (so_shutdown so t), wl, rl), snd (so_shutdown so t))"
  "so_read (logged went so) n k (t, wl, rl) =
     ((fst (so_read so n k t), wl, rl @ (case snd (so_read so n k t) of ReadBytes bs \<Rightarrow> bs | _ \<Rightarrow> [])),
      snd (so_read so n k t))"
  by (simp_all add: logged_def split: prod.splits)

definition exchanged_bytes :: "base64 \<Rightarrow> tcp_forward_reply \<Rightarrow> bytes option" where
  "exchanged_bytes b r =
     (case r of
        TfrExchanged _ data _ \<Rightarrow> (case b64_decode b data of Inr bs \<Rightarrow> Some bs | Inl _ \<Rightarrow> None)
      | _ \<Rightarrow> None)"

lemma tf_reply_exchanged_bytes:
  "base64_ok b \<Longrightarrow> tf_reply_exchanged b cid bs eof = Ok r \<Longrightarrow> exchanged_bytes b r = Some bs"
  by (auto simp: tf_reply_exchanged_def exchanged_bytes_def base64_ok_def split: if_splits)

lemma tf_error_no_bytes [simp]: "exchanged_bytes b (tf_error c m) = None"
  by (simp add: exchanged_bytes_def tf_error_def)

lemma whole_taken [simp]: "\<exists>n. w = take n w"
  by (rule exI [of _ "length w"]) simp

lemma exchange_io_logged:
  assumes "base64_ok b" and "exchange_io b (logged went so) cid w eof limit wait e = (e', r)"
    and "fe_write_closed e \<Longrightarrow> w = []"
  shows "\<exists>n. entry_wlog e' = entry_wlog e @ take n w" (is ?a)
    and "prefix (entry_rlog e) (entry_rlog e')" (is ?b)
    and "fe_write_closed e' \<Longrightarrow> (fe_write_closed e \<or> eof) \<and> entry_wlog e' = entry_wlog e @ w"
    and "exchanged_bytes b r = Some bs \<Longrightarrow> entry_wlog e' = entry_wlog e @ w
      \<and> entry_rlog e' = entry_rlog e @ bs \<and> (fe_write_closed e' \<longleftrightarrow> fe_write_closed e \<or> eof)"
proof -
  obtain t wl rl where st: "fe_stream e = (t, wl, rl)" by (cases "fe_stream e") auto
  define t1 where "t1 = (if w = [] then t else fst (so_write_all so w t))"
  define wrote where "wrote = (w = [] \<or> snd (so_write_all so w t))"
  have s1: "(if w = [] then (fe_stream e, True) else so_write_all (logged went so) w (fe_stream e))
      = ((t1, wl @ (if wrote then w else take (went t w) w), rl), wrote)"
    by (simp add: st logged_simps t1_def wrote_def)
  define half where "half = (eof \<and> \<not> fe_write_closed e)"
  define t2 where "t2 = (if half then fst (so_shutdown so t1) else t1)"
  define shut where "shut = (\<not> half \<or> snd (so_shutdown so t1))"
  have s2: "(if eof \<and> \<not> fe_write_closed e then so_shutdown (logged went so) (t1, wl @ w, rl) else ((t1, wl @ w, rl), True))
      = ((t2, wl @ w, rl), shut)"
    unfolding half_def [symmetric] by (simp add: logged_simps t2_def shut_def)
  obtain t3 o3 where r3: "so_read so (unat limit) wait t2 = (t3, o3)" by fastforce
  have s3: "so_read (logged went so) (unat limit) wait (t2, wl @ w, rl)
      = ((t3, wl @ w, rl @ (case o3 of ReadBytes bs \<Rightarrow> bs | _ \<Rightarrow> [])), o3)"
    by (simp add: logged_simps r3)
  have not_refused: "\<not> (w \<noteq> [] \<and> fe_write_closed e)" using assms(3) by blast
  note x = assms(2) [unfolded exchange_io_def if_not_P [OF not_refused] s1, unfolded Let_def split_conv]
  have all: "(\<exists>n. entry_wlog e' = wl @ take n w) \<and> prefix rl (entry_rlog e')
      \<and> (fe_write_closed e' \<longrightarrow> (fe_write_closed e \<or> eof) \<and> entry_wlog e' = wl @ w)
      \<and> (\<forall>bs. exchanged_bytes b r = Some bs \<longrightarrow> entry_wlog e' = wl @ w
        \<and> entry_rlog e' = rl @ bs \<and> (fe_write_closed e' \<longleftrightarrow> fe_write_closed e \<or> eof))"
  proof (cases wrote)
    case False
    note y = x [unfolded eq_False [THEN iffD2, OF False] simp_thms if_True if_False]
    from False have "w \<noteq> []" by (auto simp: wrote_def)
    then have "\<not> fe_write_closed e" using not_refused by blast
    then show ?thesis
      using y by (auto simp: entry_wlog_def entry_rlog_def)
  next
    case True
    note y = x [unfolded eq_True [THEN iffD2, OF True] simp_thms if_True if_False s2 split_conv]
    show ?thesis
    proof (cases shut)
      case False
      note z = y [unfolded eq_False [THEN iffD2, OF False] simp_thms if_True if_False]
      from False have "half" by (auto simp: shut_def)
      then have "\<not> fe_write_closed e" by (simp add: half_def)
      then show ?thesis
        using z by (auto simp: entry_wlog_def entry_rlog_def)
    next
      case True
      note z = y [unfolded eq_True [THEN iffD2, OF True] simp_thms if_True if_False s3 split_conv Let_def]
      show ?thesis
        using z tf_reply_exchanged_bytes [OF assms(1), of cid]
        by (auto simp: entry_wlog_def entry_rlog_def split: read_outcome.splits sum.splits)
    qed
  qed
  have w0: "entry_wlog e = wl" "entry_rlog e = rl" by (simp_all add: entry_wlog_def entry_rlog_def st)
  show ?a ?b using all w0 by simp_all
  show "fe_write_closed e' \<Longrightarrow> (fe_write_closed e \<or> eof) \<and> entry_wlog e' = entry_wlog e @ w"
    using all w0 by simp
  show "exchanged_bytes b r = Some bs \<Longrightarrow> entry_wlog e' = entry_wlog e @ w
      \<and> entry_rlog e' = entry_rlog e @ bs \<and> (fe_write_closed e' \<longleftrightarrow> fe_write_closed e \<or> eof)"
    using all w0 by simp
qed

subsection \<open>The invariant\<close>

definition answered :: "base64 \<Rightarrow> tcp_forward_reply option \<Rightarrow> bytes" where
  "answered b ans = (case ans of Some r \<Rightarrow> (case exchanged_bytes b r of Some bs \<Rightarrow> bs | None \<Rightarrow> []) | None \<Rightarrow> [])"

text \<open>The entry of the connection against the pump: while the pump waits for an exchange that the
  host has not handled, only the bytes of that exchange are under way.\<close>

definition waiting_ok ::
    "base64 \<Rightarrow> connection_id \<Rightarrow> pump \<Rightarrow> tcp_forward_request \<Rightarrow> tcp_forward_reply option \<Rightarrow> 't logged forward_entry \<Rightarrow> bool" where
  "waiting_ok b cid p q ans e \<longleftrightarrow>
     (\<exists>data w eof limit wait. q = TfExchange cid data eof limit wait \<and> b64_decode b data = Ok w
        \<and> (case ans of
             None \<Rightarrow> pump_sent p = entry_wlog e @ w \<and> entry_rlog e = pu_local_out p
               \<and> (pu_local_eof_sent p \<longleftrightarrow> fe_write_closed e \<or> eof) \<and> (fe_write_closed e \<longrightarrow> w = [])
           | Some r \<Rightarrow>
               (case exchanged_bytes b r of
                  None \<Rightarrow> True
                | Some bs \<Rightarrow> pump_sent p = entry_wlog e \<and> entry_rlog e = pu_local_out p @ bs
                    \<and> (pu_local_eof_sent p \<longleftrightarrow> fe_write_closed e))))"

definition tunnel_entry_ok :: "base64 \<Rightarrow> connection_id \<Rightarrow> pump \<Rightarrow> tcp_forward_reply option \<Rightarrow> 't logged forward_entry \<Rightarrow> bool" where
  "tunnel_entry_ok b cid p ans e \<longleftrightarrow> prefix (entry_wlog e) (pump_sent p) \<and> prefix (pu_local_out p) (entry_rlog e)
     \<and> (fe_write_closed e \<longrightarrow> pu_local_eof_sent p \<and> entry_wlog e = pump_sent p)
     \<and> (case pu_phase p of
          PumpTop \<Rightarrow> entry_wlog e = pump_sent p \<and> entry_rlog e = pu_local_out p
            \<and> (pu_local_eof_sent p \<longleftrightarrow> fe_write_closed e)
        | PumpWaiting q \<Rightarrow> waiting_ok b cid p q ans e
        | _ \<Rightarrow> True)"

definition tunnel_ok :: "base64 \<Rightarrow> connection_id \<Rightarrow> 't tunnel_system \<Rightarrow> bool" where
  "tunnel_ok b cid s \<longleftrightarrow> pump_ok (ts_pump s)
     \<and> (\<forall>q. pu_phase (ts_pump s) = PumpWaiting q \<longrightarrow>
          (\<exists>data eof limit wait. q = TfExchange cid data eof limit wait))
     \<and> (\<forall>e. bt_get (fw_connections (ts_host s)) cid = Some e \<longrightarrow> tunnel_entry_ok b cid (ts_pump s) (ts_answer s) e)
     \<and> (\<forall>q. ts_late s = Some q \<longrightarrow> pu_phase (ts_pump s) \<in> {PumpClosing, PumpDone}
          \<and> (\<exists>data eof limit wait. q = TfExchange cid data eof limit wait)
          \<and> (\<forall>e. bt_get (fw_connections (ts_host s)) cid = Some e \<longrightarrow> waiting_ok b cid (ts_pump s) q None e))"

lemma exchange_request_Ok:
  assumes "base64_ok b" and "tf_request_exchange b cid w eof limit wait = Ok q"
  shows "\<exists>data. q = TfExchange cid data eof limit wait \<and> b64_decode b data = Ok w"
  using assms by (auto simp: tf_request_exchange_def Let_def bind_r_Ok base64_ok_def split: if_splits)

lemma pump_take_phase: "pump_take ev p = Some (p', w, eof) \<Longrightarrow> pu_phase p' = pu_phase p"
  by (auto simp: pump_take_def Let_def split: if_splits local_event.splits)

lemma pump_simps [simp]:
  "pump_sent (p\<lparr>pu_phase := ph\<rparr>) = pump_sent p" "pump_ok (p\<lparr>pu_phase := ph\<rparr>) = pump_ok p"
  "pump_sent (p\<lparr>pu_local_out := x\<rparr>) = pump_sent p" "pump_ok (p\<lparr>pu_local_out := x\<rparr>) = pump_ok p"
  by (simp_all add: pump_sent_def pump_ok_def)

lemma entry_closing: "tunnel_entry_ok b cid p ans e \<Longrightarrow> tunnel_entry_ok b cid (p\<lparr>pu_phase := PumpClosing\<rparr>) ans' e"
  by (simp add: tunnel_entry_ok_def)

lemma send_ok:
  assumes "base64_ok b" and "pump_ok p" and "pu_phase p = PumpTop"
  shows "pump_ok (pump_send b cid ev p)"
    and "pu_phase (pump_send b cid ev p) = PumpWaiting q \<Longrightarrow>
      \<exists>data eof limit wait. q = TfExchange cid data eof limit wait"
    and "tunnel_entry_ok b cid p ans e \<Longrightarrow> tunnel_entry_ok b cid (pump_send b cid ev p) None e"
proof -
  have "pump_ok (pump_send b cid ev p)
      \<and> (\<forall>q. pu_phase (pump_send b cid ev p) = PumpWaiting q \<longrightarrow>
          (\<exists>data eof limit wait. q = TfExchange cid data eof limit wait))
      \<and> (tunnel_entry_ok b cid p ans e \<longrightarrow> tunnel_entry_ok b cid (pump_send b cid ev p) None e)"
  proof (cases "pump_take ev p")
    case None
    then show ?thesis using assms(2) by (simp add: pump_send_def entry_closing)
  next
    case (Some x)
    obtain p' w eof where x: "x = (p', w, eof)" by (cases x)
    note t = pump_take_sent [OF Some [unfolded x] assms(2)]
    let ?r = "tf_request_exchange b cid w eof HARD_MAX_TCP_FORWARD_CHUNK_BYTES
      (min REMOTE_READ_WAIT_MS HARD_MAX_TCP_FORWARD_READ_WAIT_MS)"
    show ?thesis
    proof (cases ?r)
      case (Inl err)
      then have "pump_send b cid ev p = p'\<lparr>pu_phase := PumpClosing\<rparr>" by (simp add: pump_send_def Some x)
      then show ?thesis
        using t assms(3) by (auto simp: tunnel_entry_ok_def)
    next
      case (Inr q)
      then have s: "pump_send b cid ev p = p'\<lparr>pu_phase := PumpWaiting q\<rparr>" by (simp add: pump_send_def Some x)
      obtain data where q: "q = TfExchange cid data eof HARD_MAX_TCP_FORWARD_CHUNK_BYTES
          (min REMOTE_READ_WAIT_MS HARD_MAX_TCP_FORWARD_READ_WAIT_MS)" "b64_decode b data = Ok w"
        using exchange_request_Ok [OF assms(1) Inr] by blast
      have "tunnel_entry_ok b cid (pump_send b cid ev p) None e" if e: "tunnel_entry_ok b cid p ans e"
      proof -
        have top: "entry_wlog e = pump_sent p" "entry_rlog e = pu_local_out p" "pu_local_eof_sent p \<longleftrightarrow> fe_write_closed e"
          using e assms(3) by (simp_all add: tunnel_entry_ok_def)
        then have "waiting_ok b cid p' q None e"
          unfolding waiting_ok_def using q t by (intro exI [of _ data] exI [of _ w]) auto
        then have "waiting_ok b cid (p'\<lparr>pu_phase := PumpWaiting q\<rparr>) q None e"
          by (simp add: waiting_ok_def)
        then show ?thesis using top t by (auto simp: tunnel_entry_ok_def s)
      qed
      then show ?thesis using t(2) q(1) by (simp add: s)
    qed
  qed
  then show "pump_ok (pump_send b cid ev p)"
    "pu_phase (pump_send b cid ev p) = PumpWaiting q \<Longrightarrow>
      \<exists>data eof limit wait. q = TfExchange cid data eof limit wait"
    "tunnel_entry_ok b cid p ans e \<Longrightarrow> tunnel_entry_ok b cid (pump_send b cid ev p) None e" by blast+
qed

lemma receive_phase: "pu_phase (pump_receive b cid a wr p) \<in> {PumpTop, PumpClosing}"
  by (auto simp: pump_receive_def Let_def split: option.splits sum.splits tcp_forward_reply.splits)

lemma receive_pump_ok: "pump_ok p \<Longrightarrow> pump_ok (pump_receive b cid a wr p)"
  by (auto simp: pump_receive_def Let_def split: option.splits sum.splits tcp_forward_reply.splits)

lemma on_generation_Ok: "tcp_forward_on_generation b did g q hub (Ok r) hub' = Ok r' \<Longrightarrow> r' = r"
  by (auto simp: tcp_forward_on_generation_def bind_r_Ok split: if_splits)

text \<open>Either the pump stops with nothing written, or it wrote the bytes of the exchange.\<close>

lemma receive_cases:
  "pump_receive b cid a wr p = p\<lparr>pu_phase := PumpClosing\<rparr>
   \<or> (\<exists>data eof bs. a = Some (Ok (TfrExchanged cid data eof)) \<and> b64_decode b data = Ok bs
        \<and> pump_receive b cid a wr p = p\<lparr>pu_local_out := pu_local_out p @ bs,
            pu_phase := (if eof then PumpClosing else PumpTop)\<rparr>)"
proof (cases "pump_receive b cid a wr p = p\<lparr>pu_phase := PumpClosing\<rparr>")
  case False
  then obtain data eof bs where "a = Some (Ok (TfrExchanged cid data eof))" "b64_decode b data = Ok bs"
    "\<not> (bs \<noteq> [] \<and> \<not> wr)"
    by (auto simp: pump_receive_def tf_read_bytes_def Let_def
        split: option.splits sum.splits tcp_forward_reply.splits if_splits)
  then show ?thesis by (auto simp: pump_receive_def tf_read_bytes_def Let_def)
qed simp

lemma answered_ok:
  assumes "tunnel_entry_ok b cid p (Some r) e" and "pu_phase p = PumpWaiting q"
    and "a = Some (tcp_forward_on_generation b did g q hub (Ok r) hub')"
  shows "tunnel_entry_ok b cid (pump_receive b cid a wr p) ans' e"
  using receive_cases [of b cid a wr p]
proof
  assume "pump_receive b cid a wr p = p\<lparr>pu_phase := PumpClosing\<rparr>"
  then show ?thesis using entry_closing [OF assms(1)] by simp
next
  assume "\<exists>data eof bs. a = Some (Ok (TfrExchanged cid data eof)) \<and> b64_decode b data = Ok bs
      \<and> pump_receive b cid a wr p = p\<lparr>pu_local_out := pu_local_out p @ bs,
          pu_phase := (if eof then PumpClosing else PumpTop)\<rparr>"
  then obtain data eof bs where d: "a = Some (Ok (TfrExchanged cid data eof))" "b64_decode b data = Ok bs"
    and p: "pump_receive b cid a wr p = p\<lparr>pu_local_out := pu_local_out p @ bs,
          pu_phase := (if eof then PumpClosing else PumpTop)\<rparr>" by blast
  have "tcp_forward_on_generation b did g q hub (Ok r) hub' = Ok (TfrExchanged cid data eof)"
    using d(1) assms(3) by simp
  from on_generation_Ok [OF this] have r: "r = TfrExchanged cid data eof" by (rule sym)
  have "exchanged_bytes b r = Some bs" using d(2) by (simp add: r exchanged_bytes_def)
  moreover have "waiting_ok b cid p q (Some r) e" using assms(1,2) by (simp add: tunnel_entry_ok_def)
  ultimately have w: "pump_sent p = entry_wlog e" "entry_rlog e = pu_local_out p @ bs"
    "pu_local_eof_sent p \<longleftrightarrow> fe_write_closed e"
    by (auto simp: waiting_ok_def)
  then show ?thesis unfolding p by (simp add: tunnel_entry_ok_def)
qed

lemma lost_ok:
  assumes "tunnel_entry_ok b cid p ans e" and "\<forall>r. a \<noteq> Some (Ok r)"
  shows "tunnel_entry_ok b cid (pump_receive b cid a wr p) ans e"
proof -
  have "pump_receive b cid a wr p = p\<lparr>pu_phase := PumpClosing\<rparr>"
    using receive_cases [of b cid a wr p] assms(2) by blast
  then show ?thesis using entry_closing [OF assms(1)] by simp
qed

lemma forward_other:
  "other_connection cid ev \<Longrightarrow>
     bt_get (fw_connections (forward_step b so h ev)) cid = bt_get (fw_connections h) cid"
  by (cases ev) (auto simp: open_begin_def open_finish_def release_permit_def forward_exchange_def
      forward_close_def Let_def split: option.splits connect_outcome.splits prod.splits)

lemma handle_ok:
  assumes "base64_ok b" and "tunnel_entry_ok b cid p None e" and "pu_phase p = PumpWaiting q"
    and "bt_get (fw_connections h) cid = Some e"
    and "forward_execute b (logged went so) connect q egress h = (h', r)"
  shows "\<exists>e'. bt_get (fw_connections h') cid = Some e' \<and> tunnel_entry_ok b cid p (Some r) e'"
proof -
  have w: "waiting_ok b cid p q None e" using assms(2,3) by (simp add: tunnel_entry_ok_def)
  then obtain data w eof limit wait where q: "q = TfExchange cid data eof limit wait" "b64_decode b data = Ok w"
    and v: "pump_sent p = entry_wlog e @ w" "entry_rlog e = pu_local_out p"
      "pu_local_eof_sent p \<longleftrightarrow> fe_write_closed e \<or> eof" "fe_write_closed e \<longrightarrow> w = []"
    unfolding waiting_ok_def option.case by blast
  have err: "tunnel_entry_ok b cid p (Some (tf_error c m)) e" for c m
  proof -
    have "waiting_ok b cid p q (Some (tf_error c m)) e" unfolding waiting_ok_def using q by auto
    then show ?thesis using assms(2,3) by (simp add: tunnel_entry_ok_def)
  qed
  show ?thesis
  proof (cases "is_ok (tf_request_validate b q) \<and> egress")
    case False
    then have "h' = h \<and> (\<exists>c m. r = tf_error c m)"
      using assms(5) by (auto simp: forward_execute_def split: if_splits)
    then show ?thesis using assms(4) err by blast
  next
    case True
    obtain e' r' where x: "exchange_io b (logged went so) cid w eof limit wait e = (e', r')" by fastforce
    have hr: "h' = h\<lparr>fw_connections := bt_update cid (\<lambda>_. e') (fw_connections h)\<rparr>" "r = r'"
      using assms(4,5) True x
      by (auto simp: forward_execute_def q tf_write_bytes_def forward_exchange_def)
    note l = exchange_io_logged [OF assms(1) x]
    have nc: "fe_write_closed e \<Longrightarrow> w = []" using v(4) by blast
    have e': "\<exists>n. entry_wlog e' = entry_wlog e @ take n w" "prefix (entry_rlog e) (entry_rlog e')"
      using l(1,2) [OF nc] by blast+
    have "prefix (entry_wlog e') (pump_sent p)" using e'(1) v(1) by (auto simp: take_is_prefix)
    moreover have "prefix (pu_local_out p) (entry_rlog e')" using e'(2) v(2) by simp
    moreover have "fe_write_closed e' \<longrightarrow> pu_local_eof_sent p \<and> entry_wlog e' = pump_sent p"
    proof
      assume "fe_write_closed e'"
      from l(3) [OF nc this] show "pu_local_eof_sent p \<and> entry_wlog e' = pump_sent p"
        unfolding v(1,3) by simp
    qed
    moreover have "waiting_ok b cid p q (Some r) e'"
    proof (cases "exchanged_bytes b r")
      case None
      then show ?thesis unfolding waiting_ok_def using q by auto
    next
      case (Some bs)
      note k = l(4) [OF nc Some [unfolded hr(2)]]
      show ?thesis unfolding waiting_ok_def using q v k Some by (intro exI conjI) (assumption | simp)+
    qed
    ultimately have "tunnel_entry_ok b cid p (Some r) e'" using assms(3) by (simp add: tunnel_entry_ok_def)
    moreover have "bt_get (fw_connections h') cid = Some e'" using hr(1) assms(4) by simp
    ultimately show ?thesis by blast
  qed
qed

text \<open>A request that the host handles after the pump gave up on it.\<close>

lemma handle_late_ok:
  assumes "base64_ok b" and "tunnel_entry_ok b cid p ans e" and "pu_phase p \<in> {PumpClosing, PumpDone}"
    and "waiting_ok b cid p q None e" and "bt_get (fw_connections h) cid = Some e"
    and "forward_execute b (logged went so) connect q egress h = (h', r)"
  shows "\<exists>e'. bt_get (fw_connections h') cid = Some e' \<and> tunnel_entry_ok b cid p ans e'"
proof -
  let ?p = "p\<lparr>pu_phase := PumpWaiting q\<rparr>"
  have "waiting_ok b cid ?p q None e" using assms(4) by (simp add: waiting_ok_def)
  then have "tunnel_entry_ok b cid ?p None e" using assms(2) by (simp add: tunnel_entry_ok_def)
  from handle_ok [OF assms(1) this _ assms(5,6)] obtain e' where e': "bt_get (fw_connections h') cid = Some e'"
    "tunnel_entry_ok b cid ?p (Some r) e'" by auto
  then have "tunnel_entry_ok b cid p ans e'" using assms(3) by (auto simp: tunnel_entry_ok_def)
  then show ?thesis using e'(1) by blast
qed

lemma no_late: "tunnel_ok b cid s \<Longrightarrow> pu_phase (ts_pump s) = PumpTop \<or> pu_phase (ts_pump s) = PumpWaiting q \<Longrightarrow> ts_late s = None"
  by (cases "ts_late s") (auto simp: tunnel_ok_def)

lemma exchange_no_entry:
  assumes "forward_execute b so connect (TfExchange cid data eof limit wait) egress h = (h', r)"
    and "bt_get (fw_connections h) cid = None"
  shows "bt_get (fw_connections h') cid = None"
  using assms by (auto simp: forward_execute_def forward_exchange_def split: if_splits sum.splits)

lemma tunnel_step_ok:
  assumes "base64_ok b" and "tunnel_step b went so did g cid s s'" and "tunnel_ok b cid s"
  shows "tunnel_ok b cid s'"
  using assms(2)
proof cases
  case (ts_send ev)
  have p: "pump_ok (ts_pump s)" using assms(3) by (simp add: tunnel_ok_def)
  note k = send_ok [OF assms(1) p ts_send(2)]
  have "ts_late s = None" using no_late [OF assms(3)] ts_send(2) by blast
  then show ?thesis using assms(3) k by (simp add: tunnel_ok_def ts_send(1)) blast
next
  case (ts_handle q connect egress h r)
  have "bt_get (fw_connections h) cid = None" if n: "bt_get (fw_connections (ts_host s)) cid = None"
    using assms(3) ts_handle(2) exchange_no_entry ts_handle(4) n by (auto simp: tunnel_ok_def)
  moreover have "ts_late s = None" using no_late [OF assms(3)] ts_handle(2) by blast
  moreover have "tunnel_entry_ok b cid (ts_pump s) (Some r) e'"
    if e': "bt_get (fw_connections h) cid = Some e'" and e: "bt_get (fw_connections (ts_host s)) cid = Some e" for e e'
  proof -
    have "tunnel_entry_ok b cid (ts_pump s) None e" using assms(3) e ts_handle(3) by (auto simp: tunnel_ok_def)
    from handle_ok [OF assms(1) this ts_handle(2) e ts_handle(4)] show ?thesis using e' by auto
  qed
  ultimately show ?thesis
    using assms(3) by (cases "bt_get (fw_connections (ts_host s)) cid") (auto simp: tunnel_ok_def ts_handle(1))
next
  case (ts_other ev)
  then show ?thesis using assms(3) forward_other [OF ts_other(2)] by (simp add: tunnel_ok_def)
next
  case (ts_answered q r hub hub' written)
  have "tunnel_entry_ok b cid (ts_pump s') (ts_answer s') e"
    if "bt_get (fw_connections (ts_host s')) cid = Some e" for e
  proof -
    have "tunnel_entry_ok b cid (ts_pump s) (Some r) e"
      using assms(3) that ts_answered(3) by (simp add: tunnel_ok_def ts_answered(1))
    from answered_ok [OF this ts_answered(2) refl] show ?thesis by (simp add: ts_answered(1))
  qed
  moreover have "ts_late s = None" using no_late [OF assms(3)] ts_answered(2) by blast
  moreover have "pump_ok (ts_pump s')" using assms(3) receive_pump_ok by (simp add: tunnel_ok_def ts_answered(1))
  ultimately show ?thesis
    using receive_phase [of b cid "Some (tcp_forward_on_generation b did g q hub (Ok r) hub')" written "ts_pump s"]
    by (auto simp: tunnel_ok_def ts_answered(1))
next
  case (ts_lost q answer written)
  have cl: "ts_pump s' = (ts_pump s)\<lparr>pu_phase := PumpClosing\<rparr>"
    using receive_cases [of b cid answer written "ts_pump s"] ts_lost(3) by (auto simp: ts_lost(1))
  have "tunnel_entry_ok b cid (ts_pump s') (ts_answer s') e"
    if "bt_get (fw_connections (ts_host s')) cid = Some e" for e
  proof -
    have "tunnel_entry_ok b cid (ts_pump s) (ts_answer s) e"
      using assms(3) that by (simp add: tunnel_ok_def ts_lost(1))
    from lost_ok [OF this ts_lost(3)] show ?thesis by (simp add: ts_lost(1))
  qed
  moreover have "waiting_ok b cid (ts_pump s') q None e"
    if "bt_get (fw_connections (ts_host s')) cid = Some e" and n: "ts_answer s = None" for e
  proof -
    have "tunnel_entry_ok b cid (ts_pump s) None e"
      using assms(3) that by (auto simp: tunnel_ok_def ts_lost(1))
    then have "waiting_ok b cid (ts_pump s) q None e" using ts_lost(2) by (simp add: tunnel_entry_ok_def)
    then show ?thesis by (simp add: cl waiting_ok_def)
  qed
  moreover have "\<exists>data eof limit wait. q = TfExchange cid data eof limit wait"
    using assms(3) ts_lost(2) by (simp add: tunnel_ok_def)
  moreover have "ts_late s' = (if ts_answer s = None then Some q else None)" by (simp add: ts_lost(1))
  moreover have "pump_ok (ts_pump s')" using assms(3) receive_pump_ok by (simp add: tunnel_ok_def ts_lost(1))
  ultimately show ?thesis unfolding tunnel_ok_def cl by auto
next
  case (ts_handled_late q connect egress h r)
  have ph: "pu_phase (ts_pump s) \<in> {PumpClosing, PumpDone}"
    and q: "\<exists>data eof limit wait. q = TfExchange cid data eof limit wait"
    using assms(3) ts_handled_late(2) by (auto simp: tunnel_ok_def)
  have "bt_get (fw_connections h) cid = None" if n: "bt_get (fw_connections (ts_host s)) cid = None"
    using q exchange_no_entry ts_handled_late(3) n by blast
  moreover have "tunnel_entry_ok b cid (ts_pump s) (ts_answer s) e'"
    if e': "bt_get (fw_connections h) cid = Some e'" and e: "bt_get (fw_connections (ts_host s)) cid = Some e" for e e'
  proof -
    have "tunnel_entry_ok b cid (ts_pump s) (ts_answer s) e" "waiting_ok b cid (ts_pump s) q None e"
      using assms(3) e ts_handled_late(2) by (auto simp: tunnel_ok_def)
    from handle_late_ok [OF assms(1) this(1) ph this(2) e ts_handled_late(3)] show ?thesis using e' by auto
  qed
  ultimately show ?thesis
    using assms(3)
    by (cases "bt_get (fw_connections (ts_host s)) cid") (auto simp: tunnel_ok_def ts_handled_late(1))
next
  case ts_close
  have "waiting_ok b cid (p\<lparr>pu_phase := PumpDone\<rparr>) q None e = waiting_ok b cid p q None e" for p q and e :: "'a logged forward_entry"
    by (simp add: waiting_ok_def)
  then show ?thesis using assms(3) ts_close by (auto simp: tunnel_ok_def tunnel_entry_ok_def)
next
  case (ts_closed connect egress h r)
  have "bt_get (fw_connections h) cid = None \<or> h = ts_host s"
    using ts_closed(3)
    by (auto simp: forward_execute_def pump_close_request_def forward_close_def split: if_splits option.splits)
  then show ?thesis using assms(3) by (auto simp: tunnel_ok_def ts_closed(1))
qed

lemma tunnel_run_ok:
  assumes "base64_ok b" and "tunnel_run b went so did g cid s s'" and "tunnel_ok b cid s"
  shows "tunnel_ok b cid s'"
  using assms(2) by induction (use assms(1,3) tunnel_step_ok in blast)+

lemma initial_kept: "tunnel_run b went so did g cid s s' \<Longrightarrow> pu_initial (ts_pump s') = pu_initial (ts_pump s)"
proof (induction rule: tunnel_run.induct)
  case (tr_step s1 s2)
  have a: "pu_initial (pump_send b cid ev p) = pu_initial p" for ev p
    by (auto simp: pump_send_def pump_take_def Let_def split: option.splits sum.splits local_event.splits if_splits)
  have c: "pu_initial (pump_receive b cid a wr p) = pu_initial p" for a wr p
    using receive_cases [of b cid a wr p] by (auto split: if_splits)
  from tr_step.hyps(2) have "pu_initial (ts_pump s2) = pu_initial (ts_pump s1)"
    by cases (simp_all add: a c)
  then show ?case using tr_step.IH by simp
qed simp

text \<open>The state in which the tunnel starts: the host has just opened the connection.\<close>

definition tunnel_start :: "connection_id \<Rightarrow> bytes \<Rightarrow> 't tunnel_system \<Rightarrow> bool" where
  "tunnel_start cid initial s \<longleftrightarrow> ts_pump s = pump_new initial \<and> ts_answer s = None \<and> ts_late s = None
     \<and> (case bt_get (fw_connections (ts_host s)) cid of
          None \<Rightarrow> False
        | Some e \<Rightarrow> entry_wlog e = [] \<and> entry_rlog e = [] \<and> \<not> fe_write_closed e)"

text \<open>C21: A tunnel is faithful in both directions: however the pump, the host and other connections
  interleave, whatever answers are lost (their requests may still be handled later) and whenever
  either end fails, in the middle of a write too, what the host wrote to the
  destination is a prefix of the bytes the client sent (first those that came with its request,
  then those read from it), and what the client was given is a prefix of what the host read from
  the destination. Between two exchanges nothing is under way in either direction, and the
  host closes its write half only after the client ended its stream and all of it was written.\<close>

theorem tunnel_faithful:
  assumes "base64_ok b" and "tunnel_start cid initial s0" and "tunnel_run b went so did g cid s0 s"
    and "bt_get (fw_connections (ts_host s)) cid = Some e"
  shows "prefix (entry_wlog e) (initial @ pu_local_in (ts_pump s))
    \<and> prefix (pu_local_out (ts_pump s)) (entry_rlog e)
    \<and> (pu_phase (ts_pump s) = PumpTop \<longrightarrow>
         entry_wlog e = take (pu_offset (ts_pump s)) initial @ pu_local_in (ts_pump s)
         \<and> entry_rlog e = pu_local_out (ts_pump s))
    \<and> (fe_write_closed e \<longrightarrow> pu_local_eof_sent (ts_pump s)
         \<and> entry_wlog e = initial @ pu_local_in (ts_pump s))"
proof -
  have "tunnel_ok b cid s0"
    using assms(2) by (auto simp: tunnel_start_def tunnel_ok_def pump_new_def pump_ok_def tunnel_entry_ok_def
        pump_sent_def split: option.splits)
  from tunnel_run_ok [OF assms(1,3) this] have ok: "tunnel_ok b cid s" .
  then have e: "tunnel_entry_ok b cid (ts_pump s) (ts_answer s) e" using assms(4) by (simp add: tunnel_ok_def)
  have i: "pu_initial (ts_pump s) = initial"
    using initial_kept [OF assms(3)] assms(2) by (simp add: tunnel_start_def pump_new_def)
  have p: "pump_ok (ts_pump s)" using ok by (simp add: tunnel_ok_def)
  have sent: "prefix (pump_sent (ts_pump s)) (initial @ pu_local_in (ts_pump s))"
  proof (cases "pu_local_in (ts_pump s) = []")
    case True
    then show ?thesis using i by (simp add: pump_sent_def take_is_prefix)
  next
    case False
    then show ?thesis using p i by (simp add: pump_sent_def pump_ok_def)
  qed
  have all: "pump_sent (ts_pump s) = initial @ pu_local_in (ts_pump s)" if "pu_local_eof_sent (ts_pump s)"
    using p i that by (simp add: pump_sent_def pump_ok_def)
  have "prefix (entry_wlog e) (initial @ pu_local_in (ts_pump s))"
    using e sent prefix_order.trans by (auto simp: tunnel_entry_ok_def)
  then show ?thesis using e i all by (auto simp: tunnel_entry_ok_def pump_sent_def)
qed

definition toy_tunnel :: "unit tunnel_system" where
  "toy_tunnel =
     \<lparr>ts_pump = pump_new [7],
      ts_host = forward_new\<lparr>fw_connections :=
        [(5, \<lparr>fe_forward_id = 1, fe_destination = \<lparr>td_host = ''h'', td_port = 80\<rparr>,
              fe_stream = ((), [], []), fe_write_closed = False\<rparr>)]\<rparr>,
      ts_answer = None, ts_late = None\<rparr>"

text \<open>One exchange handled by the host.\<close>

lemma tunnel_faithful_witness:
  "\<exists>s e. tunnel_run toy_b64 (\<lambda>_ _. 0) null_socket 1 1 5 toy_tunnel s \<and> ts_answer s \<noteq> None
     \<and> bt_get (fw_connections (ts_host s)) 5 = Some e \<and> prefix (entry_wlog e) [7]"
proof -
  let ?s1 = "toy_tunnel\<lparr>ts_pump := pump_send toy_b64 5 LocalTimeout (ts_pump toy_tunnel), ts_answer := None\<rparr>"
  have start: "tunnel_start 5 [7] toy_tunnel"
    by (simp add: tunnel_start_def toy_tunnel_def forward_new_def entry_wlog_def entry_rlog_def)
  have "tunnel_step toy_b64 (\<lambda>_ _. 0) null_socket 1 1 5 toy_tunnel ?s1"
    by (rule ts_send) (simp add: toy_tunnel_def pump_new_def)
  then have r1: "tunnel_run toy_b64 (\<lambda>_ _. 0) null_socket 1 1 5 toy_tunnel ?s1" by (rule tr_step [OF tr_start])
  have w: "b64_decode toy_b64 (b64_encode toy_b64 [7]) = Ok [7]" using toy_b64_ok unfolding base64_ok_def by blast
  then obtain q where q: "pu_phase (ts_pump ?s1) = PumpWaiting q" and
    qx: "\<exists>data eof limit wait. q = TfExchange 5 data eof limit wait"
    by (auto simp: toy_tunnel_def pump_new_def pump_send_def pump_take_def Let_def tf_request_exchange_def
        tf_request_validate_def bounds_simps REMOTE_READ_WAIT_MS_def split: if_splits)
  obtain h r where x: "forward_execute toy_b64 (logged (\<lambda>_ _. 0) null_socket) (\<lambda>_ _. ConnectFailed) q True (ts_host ?s1) = (h, r)"
    by fastforce
  let ?s2 = "?s1\<lparr>ts_host := h, ts_answer := Some r\<rparr>"
  have "tunnel_step toy_b64 (\<lambda>_ _. 0) null_socket 1 1 5 ?s1 ?s2" by (rule ts_handle [OF q _ x]) simp
  then have r2: "tunnel_run toy_b64 (\<lambda>_ _. 0) null_socket 1 1 5 toy_tunnel ?s2" by (rule tr_step [OF r1])
  have "bt_get (fw_connections h) 5 \<noteq> None"
    using x qx by (auto simp: toy_tunnel_def forward_new_def forward_execute_def forward_exchange_def
        split: if_splits sum.splits prod.splits)
  then obtain e where e: "bt_get (fw_connections (ts_host ?s2)) 5 = Some e" by auto
  have "pu_local_in (ts_pump ?s2) = []"
    by (simp add: toy_tunnel_def pump_new_def pump_send_def pump_take_def Let_def split: sum.splits)
  then have "prefix (entry_wlog e) [7]" using tunnel_faithful [OF toy_b64_ok start r2 e] by simp
  then show ?thesis using r2 e by (intro exI [of _ ?s2] exI [of _ e]) simp
qed

end
