(* ===== verification/Proxy_Managers.thy ===== *)
theory Proxy_Managers
  imports Proxy_Tunnel
begin

section \<open>The listeners of forwards and proxies (clew-runtime)\<close>

text \<open>
  The three managers of local listeners, \<^verbatim>\<open>TcpForwardManager\<close>, \<^verbatim>\<open>Socks5ProxyManager\<close> and
  \<^verbatim>\<open>HttpConnectProxyManager\<close>, and the accept loop each listener runs. Adding a listener looks at
  the capacity, binds a socket without the lock, and looks again: the two critical sections see
  two states of the table. What binding gives and the ids drawn are arguments. The locale
  \<open>listener_table\<close> is the contract of the second section; it is interpreted on all three.
\<close>

text \<open>A listener with the state of its accept loop: free permits and running connections.\<close>

record 'i listener =
  ln_info :: 'i
  ln_permits :: nat
  ln_connections :: nat

type_synonym 'i listeners = "(uuid, 'i listener) btree"

definition listener_new :: "'i \<Rightarrow> 'i listener" where
  "listener_new i = \<lparr>ln_info = i, ln_permits = HARD_MAX_TCP_FORWARD_CONNECTIONS_PER_SESSION, ln_connections = 0\<rparr>"

text \<open>\<^verbatim>\<open>while proxies.contains_key(&id) { id = new() }\<close> over the ids drawn so far; \<open>None\<close> while it still
  draws.\<close>

definition fresh_listener_id :: "uuid list \<Rightarrow> 'i listeners \<Rightarrow> uuid option" where
  "fresh_listener_id draws m = find (\<lambda>i. bt_get m i = None) draws"

definition accept_connection :: "'i listener \<Rightarrow> 'i listener" where
  "accept_connection l =
     (if ln_permits l = 0 then l
      else l\<lparr>ln_permits := ln_permits l - 1, ln_connections := ln_connections l + 1\<rparr>)"

definition connection_ended :: "'i listener \<Rightarrow> 'i listener" where
  "connection_ended l =
     (if ln_connections l = 0 then l
      else l\<lparr>ln_permits := ln_permits l + 1, ln_connections := ln_connections l - 1\<rparr>)"

subsection \<open>Forwards\<close>

record forward_info =
  fi_forward_id :: forward_id
  fi_device_id :: device_id
  fi_listen_port :: u16
  fi_destination :: tcp_forward_destination

datatype forward_manager_error =
    FmProtocol tcp_forward_error
  | FmIo io_kind
  | FmCapacity
  | FmNotFound forward_id

definition forward_add_finish ::
    "device_id \<Rightarrow> tcp_forward_destination \<Rightarrow> uuid list \<Rightarrow> u16 \<Rightarrow> forward_info listeners
     \<Rightarrow> (forward_info listeners \<times> (forward_manager_error, forward_info) result) option" where
  "forward_add_finish did d draws port m =
     (if length m \<ge> HARD_MAX_FORWARD_LISTENERS then Some (m, Err FmCapacity)
      else map_option (\<lambda>fid.
        let info = \<lparr>fi_forward_id = fid, fi_device_id = did, fi_listen_port = port, fi_destination = d\<rparr> in
        (bt_insert fid (listener_new info) m, Ok info)) (fresh_listener_id draws m))"

definition forward_add ::
    "device_id \<Rightarrow> tcp_forward_destination \<Rightarrow> (io_kind, u16) result \<Rightarrow> uuid list
     \<Rightarrow> forward_info listeners \<Rightarrow> forward_info listeners
     \<Rightarrow> (forward_info listeners \<times> (forward_manager_error, forward_info) result) option" where
  "forward_add did d bound draws m m' =
     (case destination_validate d of
        Inl e \<Rightarrow> Some (m, Err (FmProtocol e))
      | Inr _ \<Rightarrow>
          if length m \<ge> HARD_MAX_FORWARD_LISTENERS then Some (m, Err FmCapacity)
          else (case bound of
              Inl e \<Rightarrow> Some (m', Err (FmIo e))
            | Inr port \<Rightarrow> forward_add_finish did d draws port m'))"

definition forward_list :: "forward_info listeners \<Rightarrow> forward_info list" where
  "forward_list m = map (ln_info \<circ> snd) m"

definition forward_remove ::
    "forward_id \<Rightarrow> forward_info listeners
     \<Rightarrow> forward_info listeners \<times> (forward_manager_error, forward_info) result" where
  "forward_remove fid m =
     (case bt_get m fid of
        None \<Rightarrow> (m, Err (FmNotFound fid))
      | Some l \<Rightarrow> (bt_remove fid m, Ok (ln_info l)))"

text \<open>Opening a connection over the hub (\<open>s\<close> and \<open>s'\<close> are the hub before and after the device
  answers), and a forward's connection up to the tunnel: \<open>None\<close> when it ends before, or when the
  listener is shut down first.\<close>

definition open_forward_connection ::
    "base64 \<Rightarrow> device_id \<Rightarrow> forward_id \<Rightarrow> connection_id \<Rightarrow> tcp_forward_destination \<Rightarrow> hub_state
     \<Rightarrow> (hub_error, tcp_forward_reply) result \<Rightarrow> hub_state \<Rightarrow> (hub_error, u64 \<times> tcp_forward_reply) result" where
  "open_forward_connection b did fid cid d s reply s' =
     bind_r (map_err HubTcpForward (tf_request_open b fid cid d HARD_MAX_TCP_FORWARD_CONNECT_TIMEOUT_MS))
       (\<lambda>q. tcp_forward_open b did q s reply s')"

definition serve_local_connection ::
    "connection_id \<Rightarrow> (hub_error, u64 \<times> tcp_forward_reply) result option \<Rightarrow> u64 option" where
  "serve_local_connection cid opened =
     (case opened of
        Some (Inr (generation, TfrOpened actual)) \<Rightarrow> if actual \<noteq> cid then None else Some generation
      | _ \<Rightarrow> None)"

text \<open>A tunnel only starts on a session that is current and whose device opened this connection.\<close>

lemma open_forward_connection_Ok:
  assumes "open_forward_connection b did fid cid d s reply s' = Ok (g, r)"
  shows "destination_ok d \<and> session_live did g s' \<and> reply = Ok r"
proof -
  obtain q where q: "tf_request_open b fid cid d HARD_MAX_TCP_FORWARD_CONNECT_TIMEOUT_MS = Ok q"
    "tcp_forward_open b did q s reply s' = Ok (g, r)"
    using assms by (auto simp: open_forward_connection_def bind_r_Ok)
  have "destination_ok d"
    using q(1) by (auto simp: tf_request_open_def Let_def bind_r_Ok tf_request_validate_def
        destination_validate_Ok)
  then show ?thesis
    using q(2) by (auto simp: tcp_forward_open_def bind_r_Ok ensure_generation_def session_live_def
        split: if_splits option.splits)
qed

subsection \<open>SOCKS5 proxies\<close>

record socks5_info =
  ki_proxy_id :: proxy_id
  ki_device_id :: device_id
  ki_listen_port :: u16

datatype socks5_manager_error = SmIo io_kind | SmCapacity | SmNotFound proxy_id

definition socks5_add_finish ::
    "device_id \<Rightarrow> uuid list \<Rightarrow> u16 \<Rightarrow> socks5_info listeners
     \<Rightarrow> (socks5_info listeners \<times> (socks5_manager_error, socks5_info) result) option" where
  "socks5_add_finish did draws port m =
     (if length m \<ge> HARD_MAX_SOCKS5_LISTENERS then Some (m, Err SmCapacity)
      else map_option (\<lambda>pid.
        let info = \<lparr>ki_proxy_id = pid, ki_device_id = did, ki_listen_port = port\<rparr> in
        (bt_insert pid (listener_new info) m, Ok info)) (fresh_listener_id draws m))"

definition socks5_add ::
    "device_id \<Rightarrow> (io_kind, u16) result \<Rightarrow> uuid list \<Rightarrow> socks5_info listeners \<Rightarrow> socks5_info listeners
     \<Rightarrow> (socks5_info listeners \<times> (socks5_manager_error, socks5_info) result) option" where
  "socks5_add did bound draws m m' =
     (if length m \<ge> HARD_MAX_SOCKS5_LISTENERS then Some (m, Err SmCapacity)
      else (case bound of
          Inl e \<Rightarrow> Some (m', Err (SmIo e))
        | Inr port \<Rightarrow> socks5_add_finish did draws port m'))"

definition socks5_list :: "socks5_info listeners \<Rightarrow> socks5_info list" where
  "socks5_list m = map (ln_info \<circ> snd) m"

definition socks5_remove ::
    "proxy_id \<Rightarrow> socks5_info listeners \<Rightarrow> socks5_info listeners \<times> (socks5_manager_error, socks5_info) result" where
  "socks5_remove pid m =
     (case bt_get m pid of
        None \<Rightarrow> (m, Err (SmNotFound pid))
      | Some l \<Rightarrow> (bt_remove pid m, Ok (ln_info l)))"

subsection \<open>HTTP CONNECT proxies\<close>

record http_connect_info =
  hi_proxy_id :: proxy_id
  hi_device_id :: device_id
  hi_listen_port :: u16

datatype http_manager_error = HmIo io_kind | HmCapacity | HmNotFound proxy_id

definition http_connect_add_finish ::
    "device_id \<Rightarrow> uuid list \<Rightarrow> u16 \<Rightarrow> http_connect_info listeners
     \<Rightarrow> (http_connect_info listeners \<times> (http_manager_error, http_connect_info) result) option" where
  "http_connect_add_finish did draws port m =
     (if length m \<ge> HARD_MAX_HTTP_CONNECT_LISTENERS then Some (m, Err HmCapacity)
      else map_option (\<lambda>pid.
        let info = \<lparr>hi_proxy_id = pid, hi_device_id = did, hi_listen_port = port\<rparr> in
        (bt_insert pid (listener_new info) m, Ok info)) (fresh_listener_id draws m))"

definition http_connect_add ::
    "device_id \<Rightarrow> (io_kind, u16) result \<Rightarrow> uuid list \<Rightarrow> http_connect_info listeners \<Rightarrow> http_connect_info listeners
     \<Rightarrow> (http_connect_info listeners \<times> (http_manager_error, http_connect_info) result) option" where
  "http_connect_add did bound draws m m' =
     (if length m \<ge> HARD_MAX_HTTP_CONNECT_LISTENERS then Some (m, Err HmCapacity)
      else (case bound of
          Inl e \<Rightarrow> Some (m', Err (HmIo e))
        | Inr port \<Rightarrow> http_connect_add_finish did draws port m'))"

definition http_connect_list :: "http_connect_info listeners \<Rightarrow> http_connect_info list" where
  "http_connect_list m = map (ln_info \<circ> snd) m"

definition http_connect_remove ::
    "proxy_id \<Rightarrow> http_connect_info listeners
     \<Rightarrow> http_connect_info listeners \<times> (http_manager_error, http_connect_info) result" where
  "http_connect_remove pid m =
     (case bt_get m pid of
        None \<Rightarrow> (m, Err (HmNotFound pid))
      | Some l \<Rightarrow> (bt_remove pid m, Ok (ln_info l)))"

subsection \<open>The contract of a table of listeners\<close>

text \<open>What happens to a table: the end of an addition, a removal, a connection accepted or ended.\<close>

datatype listener_event =
    LsAdd "uuid list" u16
  | LsRemove uuid
  | LsAccept uuid
  | LsEnded uuid

definition listener_ok :: "'i listener \<Rightarrow> bool" where
  "listener_ok l \<longleftrightarrow> ln_permits l + ln_connections l = HARD_MAX_TCP_FORWARD_CONNECTIONS_PER_SESSION"

definition listeners_ok :: "nat \<Rightarrow> 'i listeners \<Rightarrow> bool" where
  "listeners_ok limit m \<longleftrightarrow> bt_wf m \<and> length m \<le> limit \<and> (\<forall>k l. bt_get m k = Some l \<longrightarrow> listener_ok l)"

lemma listener_new_ok [simp]: "listener_ok (listener_new i)"
  by (simp add: listener_ok_def listener_new_def)

lemma accept_connection_ok: "listener_ok l \<Longrightarrow> listener_ok (accept_connection l)"
  by (cases l) (auto simp: listener_ok_def accept_connection_def)

lemma connection_ended_ok: "listener_ok l \<Longrightarrow> listener_ok (connection_ended l)"
  by (auto simp: listener_ok_def connection_ended_def)

lemma bt_remove_absent: "bt_get m k = None \<Longrightarrow> bt_remove k m = m"
  unfolding bt_remove_def by (rule filter_True) (auto simp: bt_get_None image_iff)

lemma fresh_listener_id_new: "fresh_listener_id draws m = Some i \<Longrightarrow> bt_get m i = None"
  unfolding fresh_listener_id_def by (induction draws) (simp_all split: if_splits)

text \<open>With one id more than the table has entries, all different, the loop that draws them has ended.\<close>

lemma fresh_listener_id_found:
  assumes "distinct draws" and "length m < length draws"
  shows "fresh_listener_id draws m \<noteq> None"
proof
  assume "fresh_listener_id draws m = None"
  then have "set draws \<subseteq> fst ` set m"
    by (auto simp: fresh_listener_id_def find_None_all dom_map_of_conv_image_fst [symmetric])
  then have "card (set draws) \<le> card (fst ` set m)" by (intro card_mono) simp_all
  also have "\<dots> \<le> length m" by (metis card_image_le card_length finite_set le_trans)
  finally show False using assms by (simp add: distinct_card)
qed

locale listener_table =
  fixes limit :: nat and mk :: "uuid \<Rightarrow> u16 \<Rightarrow> 'i"
    and add_finish :: "uuid list \<Rightarrow> u16 \<Rightarrow> 'i listeners \<Rightarrow> ('i listeners \<times> ('e, 'i) result) option"
    and remove :: "uuid \<Rightarrow> 'i listeners \<Rightarrow> 'i listeners \<times> ('e, 'i) result"
  assumes add_law: "add_finish draws port m = Some (m', r) \<Longrightarrow>
      m' = m \<and> \<not> is_ok r \<or> length m < limit \<and> (\<exists>i. bt_get m i = None
        \<and> m' = bt_insert i (listener_new (mk i port)) m \<and> r = Ok (mk i port))"
    and remove_law: "fst (remove i m) = bt_remove i m"
begin

definition after :: "'i listeners \<Rightarrow> listener_event \<Rightarrow> 'i listeners" where
  "after m ev =
     (case ev of
        LsAdd draws port \<Rightarrow> (case add_finish draws port m of None \<Rightarrow> m | Some (m', _) \<Rightarrow> m')
      | LsRemove i \<Rightarrow> fst (remove i m)
      | LsAccept i \<Rightarrow> bt_update i accept_connection m
      | LsEnded i \<Rightarrow> bt_update i connection_ended m)"

lemma added:
  assumes "add_finish draws port m = Some (m', r)" and "listeners_ok limit m"
  shows "listeners_ok limit m'"
  using add_law [OF assms(1)]
proof
  assume "length m < limit \<and> (\<exists>i. bt_get m i = None
      \<and> m' = bt_insert i (listener_new (mk i port)) m \<and> r = Ok (mk i port))"
  then obtain i where i: "length m < limit" "bt_get m i = None"
    "m' = bt_insert i (listener_new (mk i port)) m" by blast
  then show ?thesis using assms(2) length_bt_insert [of m i] by (auto simp: listeners_ok_def)
qed (use assms(2) in simp)

lemma after_ok: "listeners_ok limit m \<Longrightarrow> listeners_ok limit (after m ev)"
proof (cases ev)
  case (LsAdd draws port)
  then show "listeners_ok limit m \<Longrightarrow> ?thesis"
    using added by (auto simp: after_def split: option.splits)
next
  case (LsRemove i)
  then show "listeners_ok limit m \<Longrightarrow> ?thesis"
    by (auto simp: after_def remove_law listeners_ok_def intro: order_trans [OF length_bt_remove_le]
        split: if_splits)
next
  case (LsAccept i)
  then show "listeners_ok limit m \<Longrightarrow> ?thesis"
    using accept_connection_ok by (auto simp: after_def listeners_ok_def)
next
  case (LsEnded i)
  then show "listeners_ok limit m \<Longrightarrow> ?thesis"
    using connection_ended_ok by (auto simp: after_def listeners_ok_def)
qed

lemma run_ok: "listeners_ok limit (foldl after [] evs)"
proof (induction evs rule: rev_induct)
  case Nil
  then show ?case by (simp add: listeners_ok_def)
next
  case (snoc ev evs)
  then show ?case by (simp add: after_ok)
qed

end

interpretation forward_table: listener_table HARD_MAX_FORWARD_LISTENERS
  "\<lambda>i port. \<lparr>fi_forward_id = i, fi_device_id = did, fi_listen_port = port, fi_destination = d\<rparr>"
  "forward_add_finish did d" forward_remove for did d
  by unfold_locales
    (auto simp: forward_add_finish_def forward_remove_def Let_def bt_remove_absent not_le
      dest: fresh_listener_id_new split: if_splits option.splits)

interpretation socks5_table: listener_table HARD_MAX_SOCKS5_LISTENERS
  "\<lambda>i port. \<lparr>ki_proxy_id = i, ki_device_id = did, ki_listen_port = port\<rparr>"
  "socks5_add_finish did" socks5_remove for did
  by unfold_locales
    (auto simp: socks5_add_finish_def socks5_remove_def Let_def bt_remove_absent not_le
      dest: fresh_listener_id_new split: if_splits option.splits)

interpretation http_table: listener_table HARD_MAX_HTTP_CONNECT_LISTENERS
  "\<lambda>i port. \<lparr>hi_proxy_id = i, hi_device_id = did, hi_listen_port = port\<rparr>"
  "http_connect_add_finish did" http_connect_remove for did
  by unfold_locales
    (auto simp: http_connect_add_finish_def http_connect_remove_def Let_def bt_remove_absent not_le
      dest: fresh_listener_id_new split: if_splits option.splits)

text \<open>After any history of a manager it has at most 64 listeners, each with at most 64 connections.\<close>

lemma listeners_bounded:
  "listeners_ok 64 (foldl (forward_table.after did d) [] evs)"
  "listeners_ok 64 (foldl (socks5_table.after did) [] evs)"
  "listeners_ok 64 (foldl (http_table.after did) [] evs)"
  using forward_table.run_ok [of did d evs] socks5_table.run_ok [of did evs] http_table.run_ok [of did evs]
  by (simp_all add: bounds_simps)

end
