(* ===== verification/Spec2Isabelle.thy ===== *)
theory Spec2Isabelle
  imports Core_Model Device_Names State_Codec Enrollment Inner Rpc Read_Protocol File_Resume
    File_Transfer Host_Shell Directory_Tree Fs_Protocol Host_Forward Ab_Journal Control_Store Connector Controller_Admin
    Remote_Hub Host_Transfer_Runs Client_Properties Proxy_Managers
begin

text \<open>
  A verification of Clew, a controller that administers and drives remote hosts. All paths are
  under \<^verbatim>\<open>src/crates/\<close>; every definition carries the name of the Rust item it translates, with
  a short prefix where two files use the same name.

  The program. A controller (clew-runtime) keeps a catalog of sites and devices and a registry of
  invites and enrolled devices in its control store. A host (clew-host) claims an invite over a
  bootstrap connection, is activated, and from then on connects over an authenticated inner
  session (clew-transport); the session's requests are envelopes of typed messages: reads, file
  transfers, shell tasks, file-system mutations and queries, TCP forwards. The controller's hub
  (remote.rs) finds the live session of a device and carries requests over it. Connectors, leases
  and discovery tags let a host find a path to its controller.

  Theories, from the bottom.
  \<^item> Prelude, Rust_Str: results (\<open>Err\<close> is the early return), checked and saturating
    arithmetic on \<open>64 word\<close> and its siblings, byte strings, ordered maps as sorted association
    lists (BTreeMap), UTF-8 strings.
  \<^item> Ids, Core_Model, Device_Names, State_Codec: clew-core. Identifiers, device and site
    records, the catalog and its operations, selection of a device (equal to a declarative
    specification), tags and the hostname collision policy (distinct and idempotent), versioned
    state documents.
  \<^item> Keys, Enrollment: clew-identity. Domain-separated signatures, grants, passes, and every
    operation of the enrollment registry, with its invariant over histories.
  \<^item> Inner, Rpc, Message_Codec: sessions. Frames round-trip, whatever a session accepts is a
    prefix of what its peer sealed, in order; a session exists only after the identity proof of
    the other side.
  \<^item> Read_Protocol, File_Resume, File_Transfer, Shell_Task, Fs_Protocol, Tcp_Forward: the
    protocols. The locale \<open>message_codec\<close> is the contract they share (encode what is valid and
    within bounds, decode only that); each protocol interprets it on its own codec.
  \<^item> Directory_Tree: manifests of whole directories. Its one-pass validation is shown equal to a
    declarative notion of a tree; a new manifest exists exactly for a tree within the bounds, is
    independent of the order of discovery, and arrives as it was sent.
  \<^item> Target_Path, Host_Shell, Host_Forward: services of a host. Their step relations
    interleave requests with what the operating system does; the invariants are by rule
    induction. A shell starts exactly when it is granted, below a signed root, with a permit; the
    output ring is a window on the whole output. Dropping a session leaves a grace behind
    (\<open>sv_graces\<close>), whose turns read the clock (\<open>grace_turn\<close>); what nobody asks for in a later
    session is cancelled when it ends.
  \<^item> Ab_Journal: the locale \<open>ab_journal\<close>, a journal of two alternating slots that survives a
    torn write. Control_Store interprets it for the controller's store, Host_Transfer_Journal for
    the host's transfers, Client_Journal for the controller's transfers. The theorems say that a
    load gives the last committed snapshot or the one whose write failed.
  \<^item> Control_Store, Controller_Admin: control.rs, and the transactions of local_api.rs and
    remote.rs that change registry and catalog together: both agree after any history, and only
    active, enrolled members are admitted.
  \<^item> Connector: discovery.rs, lease.rs, connector.rs and nearby.rs.
  \<^item> Remote_Hub: the session table of remote.rs as critical sections on one state, with the
    calls that wait as functions of what other tasks made of the state meanwhile (\<open>replay_loop\<close>,
    \<open>mutation_loop\<close>, \<open>member_open\<close>). Starts of shells also run side by side, section by section
    (\<open>shell_start_step\<close>).
  \<^item> Host_Transfer_Journal, Host_Transfer, Host_Transfer_Safety, Host_Transfer_Runs:
    clew-host/src/file_transfer.rs. Operations, invariant, then histories of a service that is
    stopped and started, at any point, with other programs changing the files: a put completes
    only with the manifest's bytes, a restart keeps what was confirmed, and finalizing ends. \<open>F\<close> in
    \<open>transfer_run\<close> is the set of file systems whose answers the service used in the history.
  \<^item> Client_Journal, Client_Transfer, Client_Workers, Client_Get, Client_System:
    clew-runtime/src/transfer.rs, the controller's side of a transfer: its two-slot journal, the
    manager's table of jobs, and the put and get workers as state machines. A worker's state says
    where it waits; an event is what it waited for (a reply of the host, a local file, a
    cancellation). The step relation \<open>client_run\<close> interleaves calls, workers, restarts and
    failing writes. Its events are arbitrary but for one law of the system: a canonical path is
    absolute. In particular a source may change or shrink at any time.
  \<^item> Client_Put_Safety, Client_Get_Parts, Client_Get_Safety, Client_Runs, Client_Properties:
    the invariant of that system by rule induction, and what it says: a download is reported
    complete only over bytes with the manifest's size and hash, an upload only after the host
    said so; when a journal write passes its own validation and when not, and that a failed write
    loses nothing.

  \<^item> Socks5, Http_Connect, Proxy_Tunnel, Proxy_Managers: socks5.rs, http_connect.rs and forward.rs
    of clew-runtime. The handshakes accept exactly their grammars; the pump and the host's forward
    service together form a step relation whose invariant says that no byte of a tunnel is lost,
    repeated or reordered. The locale \<open>listener_table\<close> is interpreted on the three managers.

  Parameters and hypotheses. Cryptography (Ed25519, SHA-256, Noise), the JSON library, Base64,
  iroh's addresses and the operating system are parameters: records of functions, or arguments
  that say what a call answered. Hypotheses on them are documented behaviour (a parser reads
  what its writer wrote, a signature of another key does not verify) and each theorem that has
  one has a witness with concrete functions.

  Bounds. Loops the code bounds are recursions over the remaining attempts with the code's own
  bound (1024 tag generations, 1024 free names for a put); there is no other fuel. Every
  operation is a total function; where Rust can panic (a string cut within a character) the
  model has an explicit value for it and a theorem says when it happens.

  Not modelled. Asynchronous plumbing (sockets, channels, timeouts other than as outcomes),
  poisoned locks, the text of errors that carry a formatted system error, the graphical and
  command-line applications, the MCP server, the build and packaging tools, key files and
  backups, and the transfer of directory trees.
\<close>

end
